(* ===== verification/Prelude.thy ===== *)
theory Prelude
  imports Main "HOL-Library.Word" "HOL-Library.Monad_Syntax"
begin

unbundle bit_operations_syntax

text \<open>
  The vocabulary every component shares.  Machine integers are words of their C width.
  An array or a byte buffer is a HOL list that is always accessed through the checked
  operations \<open>rd\<close>, \<open>wr\<close>, \<open>rd_n\<close> and \<open>wr_n\<close>: their result \<open>None\<close> stands for an access outside
  of the C object, whose behaviour C leaves undefined.  A function of the source that can make
  such an access returns an \<open>option\<close> and is written with \<^theory_text>\<open>do\<close>, so that \<open>None\<close>
  of the whole function means "some access was out of bounds" and a theorem \<open>f x = Some y\<close> says,
  besides what is computed, that no access was.  The second half holds the byte codecs
  (little-endian integers) and the two interfaces \<open>codec\<close> and \<open>fixed_codec\<close> that the packet formats of the
  other theories are interpretations of.
\<close>

section \<open>Machine integers\<close>

type_synonym u8 = "8 word"
type_synonym u16 = "16 word"
type_synonym u32 = "32 word"

named_theorems buf_simps \<open>reads and writes of checked buffers\<close>
named_theorems ub_defs \<open>definitions of the checked accesses\<close>
named_theorems codec_defs \<open>definitions of encoders and decoders\<close>

text \<open>An object pointer is an index into the pool its objects live in; \<open>NULL\<close> is \<open>None\<close>.\<close>

type_synonym ptr = "nat option"

section \<open>Checked accesses\<close>

definition rd :: "'a list \<Rightarrow> nat \<Rightarrow> 'a option" where
  "rd xs i = (if i < length xs then Some (xs ! i) else None)"

definition wr :: "'a list \<Rightarrow> nat \<Rightarrow> 'a \<Rightarrow> 'a list option" where
  "wr xs i v = (if i < length xs then Some (xs[i := v]) else None)"

text \<open>\<open>rd_n xs i n\<close> is the source side of a \<^verbatim>\<open>memcpy\<close> of \<open>n\<close> bytes, \<open>wr_n xs i ys\<close> its target side.\<close>

definition rd_n :: "'a list \<Rightarrow> nat \<Rightarrow> nat \<Rightarrow> 'a list option" where
  "rd_n xs i n = (if i + n \<le> length xs then Some (take n (drop i xs)) else None)"

definition wr_n :: "'a list \<Rightarrow> nat \<Rightarrow> 'a list \<Rightarrow> 'a list option" where
  "wr_n xs i ys = (if i + length ys \<le> length xs
     then Some (take i xs @ ys @ drop (i + length ys) xs) else None)"

declare rd_def [ub_defs] wr_def [ub_defs] rd_n_def [ub_defs] wr_n_def [ub_defs]

lemma rd_in [buf_simps]: "i < length xs \<Longrightarrow> rd xs i = Some (xs ! i)"
  by (simp add: rd_def)

lemma rd_out [buf_simps]: "length xs \<le> i \<Longrightarrow> rd xs i = None"
  by (simp add: rd_def)

lemma wr_in [buf_simps]: "i < length xs \<Longrightarrow> wr xs i v = Some (xs[i := v])"
  by (simp add: wr_def)

lemma wr_out [buf_simps]: "length xs \<le> i \<Longrightarrow> wr xs i v = None"
  by (simp add: wr_def)

lemma rd_Some_iff: "rd xs i = Some v \<longleftrightarrow> i < length xs \<and> v = xs ! i"
  by (auto simp: rd_def)

lemma wr_Some_iff: "wr xs i v = Some ys \<longleftrightarrow> i < length xs \<and> ys = xs[i := v]"
  by (auto simp: wr_def)

lemma rd_None_iff: "rd xs i = None \<longleftrightarrow> length xs \<le> i"
  by (auto simp: rd_def)

lemma wr_None_iff: "wr xs i v = None \<longleftrightarrow> length xs \<le> i"
  by (auto simp: wr_def)

lemma rd_n_in [buf_simps]: "i + n \<le> length xs \<Longrightarrow> rd_n xs i n = Some (take n (drop i xs))"
  by (simp add: rd_n_def)

lemma rd_n_out [buf_simps]: "length xs < i + n \<Longrightarrow> rd_n xs i n = None"
  by (simp add: rd_n_def)

lemma wr_n_in [buf_simps]:
  "i + length ys \<le> length xs \<Longrightarrow> wr_n xs i ys = Some (take i xs @ ys @ drop (i + length ys) xs)"
  by (simp add: wr_n_def)

lemma wr_n_out [buf_simps]: "length xs < i + length ys \<Longrightarrow> wr_n xs i ys = None"
  by (simp add: wr_n_def)

lemma rd_n_length: "rd_n xs i n = Some ys \<Longrightarrow> length ys = n"
  by (auto simp: rd_n_def split: if_splits)

lemma wr_length: "wr xs i v = Some ys \<Longrightarrow> length ys = length xs"
  by (auto simp: wr_def split: if_splits)

lemma wr_n_length: "wr_n xs i ys = Some zs \<Longrightarrow> length zs = length xs"
  by (auto simp: wr_n_def split: if_splits)

lemma rd_n_wr_n: "wr_n xs i ys = Some zs \<Longrightarrow> rd_n zs i (length ys) = Some ys"
  by (auto simp: wr_n_def rd_n_def split: if_splits)

lemma rd_n_wr_n_before:
  "wr_n xs i ys = Some zs \<Longrightarrow> j + n \<le> i \<Longrightarrow> rd_n zs j n = rd_n xs j n"
  by (auto simp: wr_n_def rd_n_def drop_take min_def split: if_splits)

lemma nth_wr_n:
  assumes "wr_n xs i ys = Some zs" "k < length xs"
  shows "zs ! k = (if i \<le> k \<and> k < i + length ys then ys ! (k - i) else xs ! k)"
  using assms by (auto simp: wr_n_def nth_append min_def split: if_splits)

lemma nth_rd_n:
  assumes "rd_n xs i n = Some ys" "k < n"
  shows "ys ! k = xs ! (i + k)"
  using assms by (auto simp: rd_n_def split: if_splits)

lemma rd_n_append: "rd_n (xs @ ys) 0 (length xs) = Some xs"
  by (simp add: rd_n_def)

text \<open>The first element, in the order of a list of indices, that satisfies a test: a walk over a linked list.\<close>

fun find_rd :: "('a \<Rightarrow> bool) \<Rightarrow> 'a list \<Rightarrow> nat list \<Rightarrow> ptr option" where
  "find_rd P xs [] = Some None"
| "find_rd P xs (i # is) = do { x \<leftarrow> rd xs i; if P x then Some (Some i) else find_rd P xs is }"

lemma find_rd_find: "\<forall>i \<in> set is. i < length xs \<Longrightarrow> find_rd P xs is = Some (find (\<lambda>i. P (xs ! i)) is)"
  by (induction "is") (auto simp: rd_def)

lemma bind_eq_Some: "(x \<bind> f) = Some y \<longleftrightarrow> (\<exists>z. x = Some z \<and> f z = Some y)"
  by (cases x) auto

lemma add_mod_inject:
  assumes "x < n" "y < (n::nat)"
  shows "(a + x) mod n = (a + y) mod n \<longleftrightarrow> x = y"
proof
  assume "(a + x) mod n = (a + y) mod n"
  then have "(int a + int x) mod int n = (int a + int y) mod int n"
    by (metis of_nat_add zmod_int)
  then have dvd: "int n dvd int x - int y"
    by (simp add: mod_eq_dvd_iff)
  show "x = y"
  proof (rule ccontr)
    assume "x \<noteq> y"
    then have "\<not> int n dvd \<bar>int x - int y\<bar>"
      using assms by (intro zdvd_not_zless) auto
    with dvd show False
      by simp
  qed
qed simp

lemma rotate_image: "0 < n \<Longrightarrow> (\<lambda>i. (a + i) mod n) ` {..< n} = {..< (n::nat)}"
  by (intro endo_inj_surj) (auto intro: inj_onI simp: add_mod_inject)

section \<open>Linear byte codecs\<close>

definition le16 :: "u16 \<Rightarrow> u8 list" where
  "le16 w = [ucast w, ucast (drop_bit 8 w)]"

definition of_le16 :: "u8 list \<Rightarrow> u16 option" where
  "of_le16 bs = (case bs of [a, b] \<Rightarrow> Some (ucast a + push_bit 8 (ucast b)) | _ \<Rightarrow> None)"

definition le32 :: "u32 \<Rightarrow> u8 list" where
  "le32 w = [ucast w, ucast (drop_bit 8 w), ucast (drop_bit 16 w), ucast (drop_bit 24 w)]"

definition of_le32 :: "u8 list \<Rightarrow> u32 option" where
  "of_le32 bs = (case bs of
     [a, b, c, d] \<Rightarrow> Some (ucast a OR push_bit 8 (ucast b) OR push_bit 16 (ucast c) OR push_bit 24 (ucast d))
   | _ \<Rightarrow> None)"

declare le16_def [codec_defs] of_le16_def [codec_defs] le32_def [codec_defs] of_le32_def [codec_defs]

lemma length_le16 [simp]: "length (le16 w) = 2"
  by (simp add: le16_def)

lemma length_le32 [simp]: "length (le32 w) = 4"
  by (simp add: le32_def)

lemma plus_eq_or_u16: "(ucast (a::u8) :: u16) + push_bit 8 (ucast (b::u8)) = ucast a OR push_bit 8 (ucast b)"
proof (rule disjunctive_add)
  fix n
  show "\<not> bit (ucast a :: u16) n \<or> \<not> bit (push_bit 8 (ucast b) :: u16) n"
    by (auto simp: bit_simps dest: bit_imp_le_length)
qed

lemma of_le16_le16 [simp]: "of_le16 (le16 w) = Some w"
proof -
  have "ucast (ucast w :: u8) OR push_bit 8 (ucast (ucast (drop_bit 8 w) :: u8)) = w"
    by (rule bit_word_eqI) (auto simp: bit_simps)
  then show ?thesis
    by (simp add: of_le16_def le16_def plus_eq_or_u16)
qed

lemma split32: "n < LENGTH(32) \<Longrightarrow> n < 8 \<or> (8 \<le> n \<and> n < 16) \<or> (16 \<le> n \<and> n < 24) \<or> (24 \<le> n \<and> n < 32)"
  by auto

lemma of_le32_le32 [simp]: "of_le32 (le32 w) = Some w"
proof -
  have "ucast (ucast w :: u8) OR push_bit 8 (ucast (ucast (drop_bit 8 w) :: u8))
      OR push_bit 16 (ucast (ucast (drop_bit 16 w) :: u8))
      OR push_bit 24 (ucast (ucast (drop_bit 24 w) :: u8)) = w"
    by (rule bit_word_eqI) (drule split32, elim disjE conjE; auto simp: bit_simps)
  then show ?thesis
    by (simp add: of_le32_def le32_def)
qed

lemma unat_ucast_u8_u16 [simp]: "unat (ucast (b::u8) :: u16) = unat b"
  by (simp add: unsigned_ucast_eq take_bit_nat_eq_self_iff) (use unsigned_less [of b, where 'a=nat] in simp)

lemma unat_u16_u8: "unat (x :: u16) < 256 \<Longrightarrow> unat (ucast x :: u8) = unat x"
  by (simp only: unsigned_ucast_eq unsigned_take_bit_eq) (simp add: take_bit_nat_eq_self)

lemma ucast_u8_u16 [simp]: "ucast (ucast (n :: u8) :: u16) = n"
  by (rule bit_word_eqI) (auto simp: bit_simps)

lemma unat_u8_less [simp]: "unat (b::u8) < 256"
  using unsigned_less [of b, where 'a=nat] by simp

lemma unat_u16_less [simp]: "unat (w::u16) < 65536"
  using unsigned_less [of w, where 'a=nat] by simp

section \<open>Interfaces of the packet formats\<close>

text \<open>
  A format is an encoder and a decoder with \<open>dec (enc x) = Some x\<close> for every well-formed \<open>x\<close>.
\<close>

locale codec =
  fixes enc :: "'a \<Rightarrow> u8 list"
    and dec :: "u8 list \<Rightarrow> 'a option"
    and ok :: "'a \<Rightarrow> bool"
  assumes dec_enc: "ok x \<Longrightarrow> dec (enc x) = Some x"
begin

lemma enc_inject: "ok x \<Longrightarrow> ok y \<Longrightarrow> enc x = enc y \<longleftrightarrow> x = y"
  by (metis dec_enc option.inject)

lemma dec_enc_unique: "ok x \<Longrightarrow> dec (enc x) = Some y \<Longrightarrow> y = x"
  by (simp add: dec_enc)

end

text \<open>A format of constant width can be stored in a buffer and read back, and leaves the rest alone.\<close>

locale fixed_codec = codec +
  fixes width :: nat
  assumes enc_width: "ok x \<Longrightarrow> length (enc x) = width"
begin

lemma store_in_bounds:
  "ok x \<Longrightarrow> i + width \<le> length buf \<Longrightarrow> \<exists>buf'. wr_n buf i (enc x) = Some buf'"
  by (simp add: wr_n_def enc_width)

lemma load_store:
  assumes "ok x" "wr_n buf i (enc x) = Some buf'"
  shows "(rd_n buf' i width \<bind> dec) = Some x"
proof -
  from assms have "rd_n buf' i width = Some (enc x)"
    using rd_n_wr_n enc_width by metis
  then show ?thesis
    using assms(1) by (simp add: dec_enc)
qed

lemma store_frame:
  assumes "ok x" "wr_n buf i (enc x) = Some buf'" "k < length buf" "k < i \<or> i + width \<le> k"
  shows "buf' ! k = buf ! k"
  using nth_wr_n [OF assms(2,3)] assms(1,4) by (auto simp: enc_width)

end

interpretation le16_codec: fixed_codec le16 of_le16 "\<lambda>_. True" 2
  by unfold_locales simp_all

interpretation le32_codec: fixed_codec le32 of_le32 "\<lambda>_. True" 4
  by unfold_locales simp_all

end
