(* ===== verification/Linked_List.thy ===== *)
theory Linked_List
  imports Prelude
begin

text \<open>
  \<^verbatim>\<open>os/lib/list.c\<close>: singly linked lists whose links are stored in the elements.  An element is
  a natural number (its address), the memory of all the \<^verbatim>\<open>next\<close> fields is a function \<open>links\<close>, and a list
  is the variable holding the address of its first element.  Every loop that follows \<^verbatim>\<open>next\<close> is
  a \<^theory_text>\<open>partial_function (option)\<close>: \<open>None\<close> is a traversal that does not end, as
  on a cyclic chain.  \<open>lseg\<close> relates a list in memory to the sequence of its
  elements; on such a list every operation ends and refines the operation on sequences
  that the interface \<open>sequence\<close> states.
\<close>

section \<open>The operations of list.c\<close>

type_synonym links = "nat \<Rightarrow> ptr"
type_synonym clist = "ptr \<times> links"

definition list_init :: "clist \<Rightarrow> clist" where
  "list_init l = (None, snd l)"

definition list_head :: "clist \<Rightarrow> ptr" where
  "list_head l = fst l"

definition list_copy :: "clist \<Rightarrow> ptr \<Rightarrow> clist" where
  "list_copy dest src = (src, snd dest)"

partial_function (option) tail_loop :: "links \<Rightarrow> nat \<Rightarrow> nat option" where
  "tail_loop nx l = (case nx l of None \<Rightarrow> Some l | Some m \<Rightarrow> tail_loop nx m)"

definition list_tail :: "clist \<Rightarrow> ptr option" where
  "list_tail l = (case fst l of None \<Rightarrow> Some None | Some a \<Rightarrow> map_option Some (tail_loop (snd l) a))"

text \<open>The loop of \<open>list_remove\<close>; \<open>r\<close> is the element before \<open>l\<close>.\<close>

partial_function (option) remove_loop :: "ptr \<Rightarrow> links \<Rightarrow> nat \<Rightarrow> ptr \<Rightarrow> ptr \<Rightarrow> clist option" where
  "remove_loop h nx item r l =
     (case l of
        None \<Rightarrow> Some (h, nx)
      | Some a \<Rightarrow>
          if a = item then
            (case r of
               None \<Rightarrow> Some (nx a, nx(a := None))
             | Some b \<Rightarrow> Some (h, (nx(b := nx a))(a := None)))
          else remove_loop h nx item (Some a) (nx a))"

definition list_remove :: "clist \<Rightarrow> nat \<Rightarrow> clist option" where
  "list_remove l item = (if fst l = None then Some l else remove_loop (fst l) (snd l) item None (fst l))"

definition list_add :: "clist \<Rightarrow> nat \<Rightarrow> clist option" where
  "list_add l item = do {
     (h, nx) \<leftarrow> list_remove l item;
     let nx = nx(item := None);
     t \<leftarrow> list_tail (h, nx);
     case t of None \<Rightarrow> Some (Some item, nx) | Some a \<Rightarrow> Some (h, nx(a := Some item))
   }"

definition list_push :: "clist \<Rightarrow> nat \<Rightarrow> clist option" where
  "list_push l item = do {
     (h, nx) \<leftarrow> list_remove l item;
     Some (Some item, nx(item := h))
   }"

partial_function (option) chop_loop :: "links \<Rightarrow> nat \<Rightarrow> nat option" where
  "chop_loop nx l = (case nx l of
     None \<Rightarrow> None
   | Some m \<Rightarrow> (case nx m of None \<Rightarrow> Some l | Some _ \<Rightarrow> chop_loop nx m))"

definition list_chop :: "clist \<Rightarrow> (ptr \<times> clist) option" where
  "list_chop l = (case fst l of
     None \<Rightarrow> Some (None, l)
   | Some a \<Rightarrow>
       if snd l a = None then Some (Some a, (None, snd l))
       else do { b \<leftarrow> chop_loop (snd l) a; Some (snd l b, (fst l, (snd l)(b := None))) })"

definition list_pop :: "clist \<Rightarrow> ptr \<times> clist" where
  "list_pop l = (fst l, case fst l of None \<Rightarrow> l | Some a \<Rightarrow> (snd l a, snd l))"

partial_function (option) length_loop :: "links \<Rightarrow> ptr \<Rightarrow> nat \<Rightarrow> nat option" where
  "length_loop nx l n = (case l of None \<Rightarrow> Some n | Some a \<Rightarrow> length_loop nx (nx a) (Suc n))"

definition list_length :: "clist \<Rightarrow> nat option" where
  "list_length l = length_loop (snd l) (fst l) 0"

definition list_item_next :: "links \<Rightarrow> ptr \<Rightarrow> ptr" where
  "list_item_next nx item = (case item of None \<Rightarrow> None | Some a \<Rightarrow> nx a)"

definition list_insert :: "clist \<Rightarrow> ptr \<Rightarrow> nat \<Rightarrow> clist option" where
  "list_insert l previtem newitem = (case previtem of
     None \<Rightarrow> list_push l newitem
   | Some p \<Rightarrow> do {
       (h, nx) \<leftarrow> list_remove l newitem;
       let nx = nx(newitem := nx p);
       Some (h, nx(p := Some newitem))
     })"

section \<open>Lists in memory and sequences\<close>

fun lseg :: "links \<Rightarrow> ptr \<Rightarrow> nat list \<Rightarrow> bool" where
  "lseg nx h [] \<longleftrightarrow> h = None"
| "lseg nx h (x # xs) \<longleftrightarrow> h = Some x \<and> lseg nx (nx x) xs"

text \<open>\<open>lseg_to nx h xs q\<close>: the chain from \<open>h\<close> runs through \<open>xs\<close> and then points to \<open>q\<close>.\<close>

fun lseg_to :: "links \<Rightarrow> ptr \<Rightarrow> nat list \<Rightarrow> ptr \<Rightarrow> bool" where
  "lseg_to nx h [] q \<longleftrightarrow> h = q"
| "lseg_to nx h (x # xs) q \<longleftrightarrow> h = Some x \<and> lseg_to nx (nx x) xs q"

definition holds_seq :: "clist \<Rightarrow> nat list \<Rightarrow> bool" where
  "holds_seq l xs \<longleftrightarrow> lseg (snd l) (fst l) xs"

lemma lseg_unique: "lseg nx h xs \<Longrightarrow> lseg nx h ys \<Longrightarrow> xs = ys"
  by (induction xs arbitrary: h ys) (case_tac ys; auto)+

lemma lseg_append: "lseg nx h (xs @ ys) \<longleftrightarrow> (\<exists>q. lseg_to nx h xs q \<and> lseg nx q ys)"
  by (induction xs arbitrary: h) auto

lemma lseg_to_append: "lseg_to nx h (xs @ ys) q \<longleftrightarrow> (\<exists>p. lseg_to nx h xs p \<and> lseg_to nx p ys q)"
  by (induction xs arbitrary: h) auto

lemma lseg_to_None: "lseg_to nx h xs None = lseg nx h xs"
  by (induction xs arbitrary: h) auto

lemma lseg_distinct: "lseg nx h xs \<Longrightarrow> distinct xs"
proof (induction xs arbitrary: h)
  case (Cons x xs)
  have "x \<notin> set xs"
  proof
    assume "x \<in> set xs"
    then obtain us vs where xs: "xs = us @ x # vs"
      by (meson split_list)
    with Cons.prems have "lseg nx (nx x) (us @ x # vs)" and "lseg nx (nx x) vs"
      by (auto simp: lseg_append)
    then have "us @ x # vs = vs"
      by (rule lseg_unique)
    then have "length (us @ x # vs) = length vs"
      by simp
    then show False
      by simp
  qed
  with Cons show ?case
    by auto
qed simp

lemma holds_seq_distinct: "holds_seq l xs \<Longrightarrow> distinct xs"
  unfolding holds_seq_def by (rule lseg_distinct)

lemma lseg_frame: "(\<forall>x \<in> set xs. nx' x = nx x) \<Longrightarrow> lseg nx' h xs = lseg nx h xs"
  by (induction xs arbitrary: h) auto

lemma lseg_to_frame: "(\<forall>x \<in> set xs. nx' x = nx x) \<Longrightarrow> lseg_to nx' h xs q = lseg_to nx h xs q"
  by (induction xs arbitrary: h) auto

lemma lseg_upd_other [simp]: "a \<notin> set xs \<Longrightarrow> lseg (nx(a := v)) h xs = lseg nx h xs"
  by (rule lseg_frame) auto

lemma lseg_to_upd_other [simp]: "a \<notin> set xs \<Longrightarrow> lseg_to (nx(a := v)) h xs q = lseg_to nx h xs q"
  by (rule lseg_to_frame) auto

section \<open>Every operation ends on a list in memory and refines its sequence operation\<close>

lemma tail_loop_lseg: "lseg nx (Some a) (xs @ [z]) \<Longrightarrow> tail_loop nx a = Some z"
proof (induction xs arbitrary: a)
  case Nil
  then show ?case
    by (simp add: tail_loop.simps)
next
  case (Cons x xs)
  then have "lseg nx (nx a) (xs @ [z])" and "a = x"
    by auto
  moreover from this obtain b where "nx a = Some b"
    by (cases xs) auto
  ultimately show ?case
    using Cons.IH by (simp add: tail_loop.simps [of nx x])
qed

lemma list_tail_lseg:
  "holds_seq l xs \<Longrightarrow> list_tail l = Some (if xs = [] then None else Some (last xs))"
proof (cases xs rule: rev_cases)
  case (snoc ys z)
  assume "holds_seq l xs"
  with snoc show ?thesis
    by (cases "fst l") (auto simp: holds_seq_def list_tail_def lseg_append tail_loop_lseg
        dest: tail_loop_lseg [of "snd l" _ ys z] elim: lseg_to.elims)
qed (auto simp: holds_seq_def list_tail_def)

lemma remove_loop_absent:
  "lseg nx l xs \<Longrightarrow> item \<notin> set xs \<Longrightarrow> remove_loop h nx item r l = Some (h, nx)"
  by (induction xs arbitrary: l r) (auto simp: remove_loop.simps)

lemma remove_loop_present:
  "lseg_to nx l xs (Some item) \<Longrightarrow> item \<notin> set xs \<Longrightarrow>
   remove_loop h nx item r l =
     (case (if xs = [] then r else Some (last xs)) of
        None \<Rightarrow> Some (nx item, nx(item := None))
      | Some b \<Rightarrow> Some (h, (nx(b := nx item))(item := None)))"
  by (induction xs arbitrary: l r) (auto simp: remove_loop.simps)

lemma list_remove_lseg:
  assumes "holds_seq l xs"
  shows "\<exists>l'. list_remove l item = Some l' \<and> holds_seq l' (remove1 item xs)
    \<and> (\<forall>a. a \<notin> set xs \<longrightarrow> snd l' a = snd l a)"
proof (cases "item \<in> set xs")
  case False
  with assms have "list_remove l item = Some l"
    by (auto simp: holds_seq_def list_remove_def remove_loop_absent)
  with False assms show ?thesis
    by (simp add: remove1_idem)
next
  case True
  then obtain us vs where xs: "xs = us @ item # vs" and us: "item \<notin> set us"
    by (meson split_list_first)
  obtain h nx where l: "l = (h, nx)"
    by (cases l)
  have seg: "lseg_to nx h us (Some item)" "lseg nx (nx item) vs"
    using assms by (auto simp: holds_seq_def l xs lseg_append)
  have d: "distinct (us @ item # vs)"
    using holds_seq_distinct [OF assms] by (simp only: xs)
  have r1: "remove1 item xs = us @ vs"
    by (simp add: xs us remove1_append)
  show ?thesis
  proof (cases us rule: rev_cases)
    case Nil
    have "list_remove l item = Some (nx item, nx(item := None))"
      using seg(1) Nil by (auto simp: list_remove_def l remove_loop.simps)
    with seg(2) d Nil show ?thesis
      by (auto simp: r1 holds_seq_def l xs)
  next
    case (snoc ws b)
    have "h \<noteq> None"
      using seg(1) snoc by (cases ws) auto
    then have "list_remove l item = Some (h, (nx(b := nx item))(item := None))"
      using remove_loop_present [OF seg(1) us, of h None] snoc
      by (auto simp: list_remove_def l)
    moreover have "lseg ((nx(b := nx item))(item := None)) h (us @ vs)"
      using seg d snoc by (auto simp: lseg_append lseg_to_append)
    ultimately show ?thesis
      using snoc by (simp add: r1 holds_seq_def l) (simp add: xs)
  qed
qed

lemma list_add_lseg:
  assumes "holds_seq l xs"
  shows "\<exists>l'. list_add l item = Some l' \<and> holds_seq l' (remove1 item xs @ [item])
    \<and> (\<forall>a. a \<notin> insert item (set xs) \<longrightarrow> snd l' a = snd l a)"
proof -
  let ?ys = "remove1 item xs"
  from list_remove_lseg [OF assms, of item] obtain h nx where
    rem: "list_remove l item = Some (h, nx)" "holds_seq (h, nx) ?ys"
      "\<forall>a. a \<notin> set xs \<longrightarrow> nx a = snd l a"
    by force
  have d: "distinct xs" "item \<notin> set ?ys"
    using holds_seq_distinct [OF assms] by auto
  then have seg: "holds_seq (h, nx(item := None)) ?ys"
    using rem(2) by (simp add: holds_seq_def)
  show ?thesis
  proof (cases ?ys rule: rev_cases)
    case Nil
    then have "list_add l item = Some (Some item, nx(item := None))"
      using list_tail_lseg [OF seg] by (simp add: list_add_def rem(1))
    with rem(3) Nil show ?thesis
      by (auto simp: holds_seq_def)
  next
    case (snoc zs z)
    then have add: "list_add l item = Some (h, nx(item := None, z := Some item))"
      using list_tail_lseg [OF seg] by (simp add: list_add_def rem(1))
    have "item \<noteq> z" "item \<notin> set zs" "z \<in> set xs"
      using d(2) snoc set_remove1_subset [of item xs] by auto
    moreover have "z \<notin> set zs"
      using d(1) snoc distinct_remove1 [of xs item] by auto
    ultimately have "holds_seq (h, nx(item := None, z := Some item)) (?ys @ [item])"
      using rem(2) snoc by (auto simp: holds_seq_def lseg_append lseg_to_append)
    with add rem(3) \<open>z \<in> set xs\<close> show ?thesis
      by auto
  qed
qed

lemma list_push_lseg:
  assumes "holds_seq l xs"
  shows "\<exists>l'. list_push l item = Some l' \<and> holds_seq l' (item # remove1 item xs)
    \<and> (\<forall>a. a \<notin> insert item (set xs) \<longrightarrow> snd l' a = snd l a)"
proof -
  from list_remove_lseg [OF assms, of item] obtain h nx where
    rem: "list_remove l item = Some (h, nx)" "holds_seq (h, nx) (remove1 item xs)"
      "\<forall>a. a \<notin> set xs \<longrightarrow> nx a = snd l a"
    by force
  have "item \<notin> set (remove1 item xs)"
    using holds_seq_distinct [OF assms] by auto
  with rem show ?thesis
    by (auto simp: list_push_def holds_seq_def)
qed

lemma chop_loop_lseg: "lseg nx (Some a) (xs @ [y, z]) \<Longrightarrow> chop_loop nx a = Some y"
proof (induction xs arbitrary: a)
  case Nil
  then show ?case
    by (simp add: chop_loop.simps)
next
  case (Cons x xs)
  then have "lseg nx (nx a) (xs @ [y, z])" and "a = x"
    by auto
  moreover from this obtain b c where "nx a = Some b" "nx b = Some c"
    by (cases xs; cases "tl xs") (auto split: list.splits)
  ultimately show ?case
    using Cons.IH by (simp add: chop_loop.simps [of nx x])
qed

lemma list_chop_lseg:
  assumes "holds_seq l xs"
  shows "\<exists>l'. list_chop l = Some (if xs = [] then None else Some (last xs), l') \<and> holds_seq l' (butlast xs)"
proof -
  obtain h nx where l: "l = (h, nx)"
    by (cases l)
  have seg: "lseg nx h xs"
    using assms by (simp add: holds_seq_def l)
  consider "xs = []" | z where "xs = [z]" | ws y z where "xs = ws @ [y, z]"
    by (cases xs rule: rev_cases; cases "butlast xs" rule: rev_cases) auto
  then show ?thesis
  proof cases
    case 3
    then obtain a where h: "h = Some a" and na: "nx a \<noteq> None"
      using seg by (cases ws; cases "tl ws") auto
    have "chop_loop nx a = Some y"
      using chop_loop_lseg seg 3 h by simp
    moreover have "nx y = Some z" "lseg_to nx h ws (Some y)"
      using seg 3 by (auto simp: lseg_append)
    moreover have "y \<notin> set ws"
      using lseg_distinct [OF seg] 3 by auto
    ultimately show ?thesis
      using na 3 h by (auto simp: list_chop_def l holds_seq_def lseg_append butlast_append)
  qed (use seg in \<open>auto simp: list_chop_def l holds_seq_def\<close>)
qed

lemma list_pop_lseg:
  "holds_seq l xs \<Longrightarrow> fst (list_pop l) = (case xs of [] \<Rightarrow> None | x # _ \<Rightarrow> Some x)
     \<and> holds_seq (snd (list_pop l)) (tl xs)"
  by (cases xs) (auto simp: list_pop_def holds_seq_def)

lemma length_loop_lseg: "lseg nx l xs \<Longrightarrow> length_loop nx l n = Some (n + length xs)"
  by (induction xs arbitrary: l n) (auto simp: length_loop.simps)

lemma list_length_lseg: "holds_seq l xs \<Longrightarrow> list_length l = Some (length xs)"
  by (simp add: list_length_def holds_seq_def length_loop_lseg)

lemma list_insert_lseg:
  assumes "holds_seq l (us @ p # vs)" and "new \<noteq> p"
  shows "\<exists>l'. list_insert l (Some p) new = Some l'
    \<and> holds_seq l' (remove1 new us @ p # new # (if new \<in> set us then vs else remove1 new vs))"
proof -
  from list_remove_lseg [OF assms(1), of new] obtain h nx where
    rem: "list_remove l new = Some (h, nx)" "lseg nx h (remove1 new (us @ p # vs))"
    by (force simp: holds_seq_def)
  define us' vs' where "us' = remove1 new us" and "vs' = (if new \<in> set us then vs else remove1 new vs)"
  have eq: "remove1 new (us @ p # vs) = us' @ p # vs'"
    using assms(2) by (auto simp: us'_def vs'_def remove1_append remove1_idem)
  have d: "distinct (us @ p # vs)"
    by (rule holds_seq_distinct [OF assms(1)])
  then have "new \<notin> set (us' @ p # vs')" and "distinct (us' @ p # vs')"
    using distinct_remove1 [OF d, of new] set_remove1_eq [OF d, of new] by (auto simp flip: eq)
  with rem assms(2) have "lseg (nx(new := nx p, p := Some new)) h (us' @ p # new # vs')"
    by (auto simp: eq lseg_append)
  with rem show ?thesis
    by (simp add: list_insert_def holds_seq_def us'_def vs'_def)
qed

section \<open>The interface a client of the list relies on\<close>

text \<open>The operations a client performs on a list, on sequences and on an implementation.\<close>

datatype 'a seq_op = Add 'a | Push 'a | Remove 'a | Pop | Chop

fun seq_step :: "'a list \<Rightarrow> 'a seq_op \<Rightarrow> 'a list" where
  "seq_step xs (Add a) = remove1 a xs @ [a]"
| "seq_step xs (Push a) = a # remove1 a xs"
| "seq_step xs (Remove a) = remove1 a xs"
| "seq_step xs Pop = tl xs"
| "seq_step xs Chop = butlast xs"

fun clist_step :: "clist \<Rightarrow> nat seq_op \<Rightarrow> clist option" where
  "clist_step l (Add a) = list_add l a"
| "clist_step l (Push a) = list_push l a"
| "clist_step l (Remove a) = list_remove l a"
| "clist_step l Pop = Some (snd (list_pop l))"
| "clist_step l Chop = map_option snd (list_chop l)"

fun run_steps :: "('s \<Rightarrow> 'o \<Rightarrow> 's option) \<Rightarrow> 's \<Rightarrow> 'o list \<Rightarrow> 's option" where
  "run_steps f s [] = Some s"
| "run_steps f s (x # xs) = (f s x \<bind> (\<lambda>s'. run_steps f s' xs))"

locale sequence =
  fixes rep :: "'s \<Rightarrow> 'a list \<Rightarrow> bool"
    and step :: "'s \<Rightarrow> 'a seq_op \<Rightarrow> 's option"
    and len :: "'s \<Rightarrow> nat option"
  assumes rep_distinct: "rep s xs \<Longrightarrow> distinct xs"
    and step_refines: "rep s xs \<Longrightarrow> \<exists>s'. step s x = Some s' \<and> rep s' (seq_step xs x)"
    and len_refines: "rep s xs \<Longrightarrow> len s = Some (length xs)"
begin

lemma run_refines: "rep s xs \<Longrightarrow> \<exists>s'. run_steps step s ops = Some s' \<and> rep s' (foldl seq_step xs ops)"
proof (induction ops arbitrary: s xs)
  case (Cons x ops)
  then obtain s' where "step s x = Some s'" "rep s' (seq_step xs x)"
    using step_refines by blast
  then show ?case
    using Cons.IH by auto
qed simp

lemma add_twice:
  "rep s xs \<Longrightarrow> \<exists>s'. run_steps step s [Add a, Add a] = Some s' \<and> rep s' (remove1 a xs @ [a])"
  using run_refines [of s xs "[Add a, Add a]"] rep_distinct [of s xs]
  by (simp add: remove1_append)

lemma len_after_add:
  "rep s xs \<Longrightarrow> a \<notin> set xs \<Longrightarrow> \<exists>s'. step s (Add a) = Some s' \<and> len s' = Some (Suc (length xs))"
  using step_refines [of s xs "Add a"] len_refines by (fastforce simp: remove1_idem)

end

lemma clist_step_refines:
  assumes "holds_seq l xs"
  shows "\<exists>l'. clist_step l x = Some l' \<and> holds_seq l' (seq_step xs x)"
proof (cases x)
  case (Add a)
  then show ?thesis
    using list_add_lseg [OF assms, of a] by auto
next
  case (Push a)
  then show ?thesis
    using list_push_lseg [OF assms, of a] by auto
next
  case (Remove a)
  then show ?thesis
    using list_remove_lseg [OF assms, of a] by auto
next
  case Pop
  then show ?thesis
    using list_pop_lseg [OF assms] by simp
next
  case Chop
  then show ?thesis
    using list_chop_lseg [OF assms] by auto
qed

interpretation clist: sequence holds_seq clist_step list_length
  by unfold_locales (fact holds_seq_distinct clist_step_refines list_length_lseg)+


end
