(* ===== verification/Memb.thy ===== *)
theory Memb
  imports Prelude
begin

text \<open>
  \<^verbatim>\<open>os/lib/memb.c\<close>: allocation of fixed-size blocks from a static pool.  The record holds the
  fields of \<^verbatim>\<open>struct memb\<close>: the block size, the number of blocks, the reference counts and the address of the
  pool.  \<open>used\<close> is the set of addresses handed out; the interface \<open>allocator\<close> states what a
  client (the TSCH queues and schedule) relies on, and the pool interprets it.
\<close>

section \<open>The operations of memb.c\<close>

record memb =
  msize :: nat
  mnum :: nat
  mcount :: "nat list"
  mbase :: nat

definition block_addr :: "memb \<Rightarrow> nat \<Rightarrow> nat" where
  "block_addr m i = mbase m + i * msize m"

definition memb_init :: "memb \<Rightarrow> memb" where
  "memb_init m = m\<lparr>mcount := replicate (mnum m) 0\<rparr>"

text \<open>\<open>MEMB(name, type, num)\<close> counted in elements: a pointer is the element's index in the pool.\<close>

definition elem_pool :: "nat \<Rightarrow> memb" where
  "elem_pool n = \<lparr>msize = 1, mnum = n, mcount = replicate n 0, mbase = 0\<rparr>"

function memb_alloc_from :: "memb \<Rightarrow> nat \<Rightarrow> (ptr \<times> memb) option" where
  "memb_alloc_from m i =
     (if i < mnum m then
        (case rd (mcount m) i of
           None \<Rightarrow> None
         | Some c \<Rightarrow>
             if c = 0 then Some (Some (block_addr m i), m\<lparr>mcount := (mcount m)[i := Suc c]\<rparr>)
             else memb_alloc_from m (Suc i))
      else Some (None, m))"
  by pat_completeness auto
termination
  by (relation "measure (\<lambda>(m, i). mnum m - i)") auto

declare memb_alloc_from.simps [simp del]

definition memb_alloc :: "memb \<Rightarrow> (ptr \<times> memb) option" where
  "memb_alloc m = memb_alloc_from m 0"

text \<open>The result \<open>-1\<close> of the source is an integer: the returned reference count is not negative.\<close>

function memb_free_from :: "memb \<Rightarrow> nat \<Rightarrow> nat \<Rightarrow> (int \<times> memb) option" where
  "memb_free_from m p i =
     (if i < mnum m then
        (if block_addr m i = p then
           (case rd (mcount m) i of
              None \<Rightarrow> None
            | Some c \<Rightarrow>
                let c' = (if c > 0 then c - 1 else c)
                in Some (int c', m\<lparr>mcount := (mcount m)[i := c']\<rparr>))
         else memb_free_from m p (Suc i))
      else Some (-1, m))"
  by pat_completeness auto
termination
  by (relation "measure (\<lambda>(m, p, i). mnum m - i)") auto

declare memb_free_from.simps [simp del]

definition memb_free :: "memb \<Rightarrow> nat \<Rightarrow> (int \<times> memb) option" where
  "memb_free m p = memb_free_from m p 0"

definition memb_inmemb :: "memb \<Rightarrow> nat \<Rightarrow> bool" where
  "memb_inmemb m p \<longleftrightarrow> mbase m \<le> p \<and> p < mbase m + mnum m * msize m"

function memb_numfree_from :: "memb \<Rightarrow> nat \<Rightarrow> nat \<Rightarrow> nat option" where
  "memb_numfree_from m i n =
     (if i < mnum m then
        (case rd (mcount m) i of
           None \<Rightarrow> None
         | Some c \<Rightarrow> memb_numfree_from m (Suc i) (if c = 0 then Suc n else n))
      else Some n)"
  by pat_completeness auto
termination
  by (relation "measure (\<lambda>(m, i, n). mnum m - i)") auto

declare memb_numfree_from.simps [simp del]

definition memb_numfree :: "memb \<Rightarrow> nat option" where
  "memb_numfree m = memb_numfree_from m 0 0"

section \<open>Invariant and abstraction\<close>

definition memb_inv :: "memb \<Rightarrow> bool" where
  "memb_inv m \<longleftrightarrow> 0 < msize m \<and> length (mcount m) = mnum m \<and> (\<forall>c \<in> set (mcount m). c \<le> 1)"

definition used :: "memb \<Rightarrow> nat set" where
  "used m = {block_addr m i | i. i < mnum m \<and> mcount m ! i \<noteq> 0}"

lemma block_addr_inject [simp]:
  "memb_inv m \<Longrightarrow> block_addr m i = block_addr m j \<longleftrightarrow> i = j"
  by (auto simp: block_addr_def memb_inv_def)

lemma block_addr_upd [simp]: "block_addr (m\<lparr>mcount := cs\<rparr>) i = block_addr m i"
  by (simp add: block_addr_def)

lemma used_iff: "memb_inv m \<Longrightarrow> i < mnum m \<Longrightarrow> block_addr m i \<in> used m \<longleftrightarrow> mcount m ! i \<noteq> 0"
  by (auto simp: used_def)

lemma used_eq_image: "used m = block_addr m ` {i. i < mnum m \<and> mcount m ! i \<noteq> 0}"
  by (auto simp: used_def)

lemma block_inmemb: "memb_inv m \<Longrightarrow> i < mnum m \<Longrightarrow> memb_inmemb m (block_addr m i)"
  by (auto simp: memb_inmemb_def block_addr_def memb_inv_def)

lemma finite_used [simp]: "finite (used m)"
  by (simp add: used_eq_image)

lemma memb_inv_init: "0 < msize m \<Longrightarrow> memb_inv (memb_init m)"
  by (auto simp: memb_inv_def memb_init_def)

lemma used_init [simp]: "used (memb_init m) = {}"
  by (auto simp: used_def memb_init_def)

lemma elem_pool_inv [simp]: "memb_inv (elem_pool n)"
  by (auto simp: memb_inv_def elem_pool_def)

lemma used_elem_pool [simp]: "used (elem_pool n) = {}"
  by (auto simp: used_def elem_pool_def)

lemma used_set:
  assumes "memb_inv m" "i < mnum m"
  shows "used (m\<lparr>mcount := (mcount m)[i := c]\<rparr>) =
    (if c = 0 then used m - {block_addr m i} else insert (block_addr m i) (used m))"
  using assms by (auto simp: used_def nth_list_update memb_inv_def block_addr_def)

lemma memb_inv_set: "memb_inv m \<Longrightarrow> c \<le> 1 \<Longrightarrow> memb_inv (m\<lparr>mcount := (mcount m)[i := c]\<rparr>)"
  by (auto simp: memb_inv_def dest: set_update_subset_insert [THEN subsetD])

section \<open>What the operations do\<close>

lemma alloc_from_step:
  assumes "memb_inv m" "i < mnum m"
  shows "memb_alloc_from m i =
    (if mcount m ! i = 0 then Some (Some (block_addr m i), m\<lparr>mcount := (mcount m)[i := 1]\<rparr>)
     else memb_alloc_from m (Suc i))"
  using assms by (subst memb_alloc_from.simps) (simp add: rd_in memb_inv_def)

lemma alloc_from_first:
  assumes "memb_inv m" "i \<le> j" "j < mnum m" "mcount m ! j = 0" "\<forall>k. i \<le> k \<and> k < j \<longrightarrow> mcount m ! k \<noteq> 0"
  shows "memb_alloc_from m i = Some (Some (block_addr m j), m\<lparr>mcount := (mcount m)[j := 1]\<rparr>)"
  using assms(2,5)
proof (induction i rule: inc_induct)
  case base
  with assms show ?case
    by (simp add: alloc_from_step)
next
  case (step i)
  with assms(1,3) show ?case
    by (simp add: alloc_from_step)
qed

lemma alloc_from_full:
  assumes "memb_inv m" "i \<le> mnum m" "\<forall>k < mnum m. mcount m ! k \<noteq> 0"
  shows "memb_alloc_from m i = Some (None, m)"
  using assms(2)
proof (induction i rule: inc_induct)
  case base
  then show ?case
    by (simp add: memb_alloc_from.simps)
next
  case (step i)
  with assms show ?case
    by (simp add: alloc_from_step)
qed

lemma memb_alloc_cases:
  assumes "memb_inv m"
  obtains (full) "memb_alloc m = Some (None, m)" "\<forall>k < mnum m. mcount m ! k \<noteq> 0"
  | (block) j where "j < mnum m" "mcount m ! j = 0" "\<forall>k < j. mcount m ! k \<noteq> 0"
      "memb_alloc m = Some (Some (block_addr m j), m\<lparr>mcount := (mcount m)[j := 1]\<rparr>)"
proof (cases "\<exists>j < mnum m. mcount m ! j = 0")
  case True
  then obtain j where "j < mnum m \<and> mcount m ! j = 0" "\<forall>k < j. \<not> (k < mnum m \<and> mcount m ! k = 0)"
    using exists_least_iff [of "\<lambda>j. j < mnum m \<and> mcount m ! j = 0"] by blast
  with alloc_from_first [OF assms, of 0 j] show thesis
    by (intro block [of j]) (auto simp: memb_alloc_def)
next
  case False
  with alloc_from_full [OF assms, of 0] show thesis
    by (intro full) (auto simp: memb_alloc_def)
qed

lemma memb_free_from_result:
  assumes "memb_inv m" "i \<le> j" "j < mnum m"
  shows "memb_free_from m (block_addr m j) i = Some (0, m\<lparr>mcount := (mcount m)[j := 0]\<rparr>)"
  using assms(2)
proof (induction i rule: inc_induct)
  case base
  have "mcount m ! j \<le> 1" "length (mcount m) = mnum m"
    using assms by (auto simp: memb_inv_def)
  with assms(3) show ?case
    by (cases "mcount m ! j") (auto simp: memb_free_from.simps [of m _ j] rd_in Let_def)
next
  case (step i)
  with assms show ?case
    by (subst memb_free_from.simps) simp
qed

lemma memb_free_from_foreign:
  "(\<forall>j < mnum m. block_addr m j \<noteq> p) \<Longrightarrow> memb_free_from m p i = Some (-1, m)"
  by (induction m p i rule: memb_free_from.induct) (subst memb_free_from.simps, auto)

lemma memb_numfree_from_result:
  assumes "memb_inv m" "i \<le> mnum m"
  shows "memb_numfree_from m i n = Some (n + length (filter (\<lambda>c. c = 0) (drop i (mcount m))))"
  using assms
proof (induction m i n rule: memb_numfree_from.induct)
  case (1 m i n)
  show ?case
  proof (cases "i < mnum m")
    case True
    then have "drop i (mcount m) = mcount m ! i # drop (Suc i) (mcount m)"
      using "1.prems" by (simp add: memb_inv_def Cons_nth_drop_Suc)
    with 1 True show ?thesis
      by (subst memb_numfree_from.simps) (auto simp: rd_in memb_inv_def)
  qed (use "1.prems" in \<open>simp add: memb_numfree_from.simps memb_inv_def\<close>)
qed

lemma card_used: "memb_inv m \<Longrightarrow> card (used m) = card {k. k < mnum m \<and> mcount m ! k \<noteq> 0}"
  by (simp add: used_eq_image card_image inj_on_def)

lemma numfree_used:
  assumes "memb_inv m"
  shows "memb_numfree m = Some (mnum m - card (used m))"
proof -
  have "card (used m) = length (filter (\<lambda>c. c \<noteq> 0) (mcount m))"
    using assms by (simp add: card_used length_filter_conv_card memb_inv_def conj_commute)
  moreover have "length (mcount m) = mnum m"
    using assms by (simp add: memb_inv_def)
  ultimately have "length (filter (\<lambda>c. c = 0) (mcount m)) = mnum m - card (used m)"
    using sum_length_filter_compl [of "\<lambda>c. c = 0" "mcount m"] by simp
  then show ?thesis
    using memb_numfree_from_result [OF assms, of 0 0] by (simp add: memb_numfree_def)
qed

section \<open>The interface of an allocator\<close>

datatype alloc_op = Alloc | Free nat

fun memb_step :: "memb \<Rightarrow> alloc_op \<Rightarrow> (ptr \<times> memb) option" where
  "memb_step m Alloc = memb_alloc m"
| "memb_step m (Free p) = map_option (\<lambda>(_, m'). (None, m')) (memb_free m p)"

text \<open>A run collects the blocks that the allocations returned.\<close>

fun alloc_run :: "('s \<Rightarrow> alloc_op \<Rightarrow> (ptr \<times> 's) option) \<Rightarrow> 's \<Rightarrow> alloc_op list \<Rightarrow> (ptr list \<times> 's) option" where
  "alloc_run f s [] = Some ([], s)"
| "alloc_run f s (x # xs) = do {
     (p, s) \<leftarrow> f s x;
     (ps, s) \<leftarrow> alloc_run f s xs;
     Some (p # ps, s)
   }"

locale allocator =
  fixes step :: "'s \<Rightarrow> alloc_op \<Rightarrow> (ptr \<times> 's) option"
    and inv :: "'s \<Rightarrow> bool"
    and live :: "'s \<Rightarrow> nat set"
    and cap :: "'s \<Rightarrow> nat"
  assumes alloc_law: "inv s \<Longrightarrow> \<exists>r s'. step s Alloc = Some (r, s') \<and> inv s' \<and> cap s' = cap s
      \<and> (case r of None \<Rightarrow> live s' = live s \<and> card (live s) = cap s
                 | Some p \<Rightarrow> p \<notin> live s \<and> live s' = insert p (live s))"
    and free_law: "inv s \<Longrightarrow> \<exists>s'. step s (Free p) = Some (None, s') \<and> inv s' \<and> cap s' = cap s
      \<and> live s' = live s - {p}"
    and live_bound: "inv s \<Longrightarrow> finite (live s) \<and> card (live s) \<le> cap s"
begin

lemma alloc_succeeds:
  assumes "inv s" "card (live s) < cap s"
  shows "\<exists>p s'. step s Alloc = Some (Some p, s') \<and> p \<notin> live s \<and> live s' = insert p (live s)"
  using alloc_law [OF assms(1)] assms(2) by (auto split: option.splits)

lemma step_total:
  assumes "inv s"
  shows "\<exists>r s'. step s x = Some (r, s') \<and> inv s' \<and> cap s' = cap s"
proof (cases x)
  case Alloc
  with alloc_law [OF assms] show ?thesis
    by blast
next
  case (Free p)
  with free_law [OF assms, of p] show ?thesis
    by blast
qed

lemma run_total:
  "inv s \<Longrightarrow> \<exists>ps s'. alloc_run step s ops = Some (ps, s') \<and> inv s' \<and> cap s' = cap s"
proof (induction ops arbitrary: s)
  case (Cons x ops)
  then obtain r s1 where 1: "step s x = Some (r, s1)" "inv s1" "cap s1 = cap s"
    using step_total by blast
  with Cons.IH [of s1] obtain ps s' where
    "alloc_run step s1 ops = Some (ps, s')" "inv s'" "cap s' = cap s"
    by auto
  with 1 show ?case
    by auto
qed auto

lemma realloc_after_free:
  assumes "inv s" "p \<in> live s"
  shows "\<exists>s' q s''. step s (Free p) = Some (None, s') \<and> step s' Alloc = Some (Some q, s'') \<and> q \<notin> live s - {p}"
proof -
  obtain s' where s': "step s (Free p) = Some (None, s')" "inv s'" "cap s' = cap s" "live s' = live s - {p}"
    using free_law assms(1) by blast
  have "card (live s') < cap s'"
    using live_bound [OF assms(1)] assms(2) s'
    by (metis card_Diff1_less less_le_trans)
  then show ?thesis
    using alloc_succeeds [OF s'(2)] s' by auto
qed

end

lemma memb_alloc_law:
  assumes "memb_inv m"
  shows "\<exists>r m'. memb_step m Alloc = Some (r, m') \<and> memb_inv m' \<and> mnum m' = mnum m
      \<and> (case r of None \<Rightarrow> used m' = used m \<and> card (used m) = mnum m
                 | Some p \<Rightarrow> p \<notin> used m \<and> used m' = insert p (used m))"
  using assms
proof (cases rule: memb_alloc_cases)
  case full
  then have "{k. k < mnum m \<and> mcount m ! k \<noteq> 0} = {..< mnum m}"
    by auto
  with full assms show ?thesis
    by (simp add: card_used)
next
  case (block j)
  with assms show ?thesis
    by (simp add: used_set used_iff memb_inv_set)
qed

lemma memb_free_law:
  assumes "memb_inv m"
  shows "\<exists>m'. memb_step m (Free p) = Some (None, m') \<and> memb_inv m' \<and> mnum m' = mnum m
      \<and> used m' = used m - {p}"
proof (cases "\<exists>j < mnum m. block_addr m j = p")
  case True
  then obtain j where "j < mnum m" "block_addr m j = p"
    by blast
  with memb_free_from_result [OF assms, of 0 j] assms show ?thesis
    by (auto simp: memb_free_def used_set memb_inv_set)
next
  case False
  then have "p \<notin> used m"
    by (auto simp: used_def)
  with False memb_free_from_foreign [of m p 0] assms show ?thesis
    by (auto simp: memb_free_def)
qed

lemma used_bound: "memb_inv m \<Longrightarrow> finite (used m) \<and> card (used m) \<le> mnum m"
proof -
  assume "memb_inv m"
  moreover have "card {k. k < mnum m \<and> mcount m ! k \<noteq> 0} \<le> card {..< mnum m}"
    by (rule card_mono) auto
  ultimately show ?thesis
    by (simp add: card_used)
qed

interpretation pool: allocator memb_step memb_inv used mnum
  by unfold_locales (fact memb_alloc_law memb_free_law used_bound)+

section \<open>Pools of elements\<close>

text \<open>A pool declared with \<^verbatim>\<open>MEMB\<close>, counted in elements: the pointers are the indices below \<open>n\<close>.\<close>

definition elem_ok :: "nat \<Rightarrow> memb \<Rightarrow> bool" where
  "elem_ok n m \<longleftrightarrow> memb_inv m \<and> msize m = 1 \<and> mbase m = 0 \<and> mnum m = n"

lemma elem_addr: "elem_ok n m \<Longrightarrow> block_addr m i = i"
  by (simp add: elem_ok_def block_addr_def)

lemma elem_ok_pool: "elem_ok n (elem_pool n)" "used (elem_pool n) = {}"
  by (auto simp: elem_ok_def elem_pool_def memb_inv_def used_def)

lemma elem_init: "elem_ok n m \<Longrightarrow> elem_ok n (memb_init m) \<and> used (memb_init m) = {}"
  by (auto simp: elem_ok_def memb_init_def memb_inv_def used_def)

lemma elem_used: "elem_ok n m \<Longrightarrow> p \<in> used m \<Longrightarrow> p < n"
  by (auto simp: used_def elem_addr) (auto simp: elem_ok_def block_addr_def)

lemma elem_used_finite: "elem_ok n m \<Longrightarrow> finite (used m) \<and> card (used m) \<le> n"
  using used_bound by (auto simp: elem_ok_def)

lemma elem_inmemb: "elem_ok n m \<Longrightarrow> memb_inmemb m p \<longleftrightarrow> p < n"
  by (simp add: elem_ok_def memb_inmemb_def)

lemma elem_numfree: "elem_ok n m \<Longrightarrow> memb_numfree m = Some (n - card (used m))"
  by (simp add: elem_ok_def numfree_used)

lemma elem_alloc:
  assumes "elem_ok n m"
  obtains (full) "memb_alloc m = Some (None, m)" "card (used m) = n"
  | (new) p m' where "memb_alloc m = Some (Some p, m')" "elem_ok n m'" "p < n" "p \<notin> used m" "used m' = insert p (used m)"
proof -
  have inv: "memb_inv m"
    using assms by (simp add: elem_ok_def)
  then show thesis
  proof (cases rule: memb_alloc_cases)
    case full
    with memb_alloc_law [OF inv] assms that(1) show thesis
      by (auto simp: elem_ok_def)
  next
    case (block j)
    then have "memb_alloc m = Some (Some (block_addr m j), m\<lparr>mcount := (mcount m)[j := 1]\<rparr>)"
      by simp
    with memb_alloc_law [OF inv] assms that(2) [of j] block show thesis
      by (auto simp: elem_ok_def block_addr_def)
  qed
qed

lemma elem_free:
  assumes "elem_ok n m"
  obtains c m' where "memb_free m p = Some (c, m')" "elem_ok n m'" "used m' = used m - {p}"
proof -
  have inv: "memb_inv m"
    using assms by (simp add: elem_ok_def)
  from memb_free_law [OF inv, of p] obtain c m' where
    m': "memb_free m p = Some (c, m')" "memb_inv m'" "mnum m' = mnum m" "used m' = used m - {p}"
    by auto
  have "msize m' = msize m \<and> mbase m' = mbase m" if "memb_free_from m p i = Some (c, m')" for i
    using that by (induction m p i rule: memb_free_from.induct)
      (subst (asm) memb_free_from.simps, auto split: if_splits option.splits simp: Let_def)
  with m' assms that show thesis
    by (auto simp: memb_free_def elem_ok_def)
qed



end
