(* ===== verification/Ring_Index.thy ===== *)
theory Ring_Index
  imports Prelude
begin

text \<open>
  \<^verbatim>\<open>os/lib/ringbufindex.c\<close>: index arithmetic of a ring buffer.  The fields are
  \<^verbatim>\<open>uint8_t\<close>; the expressions of the source are computed in C's \<^verbatim>\<open>int\<close>, here the integers with their
  two's complement bitwise operations.  \<open>ring_inv k\<close> says that the size is \<open>2 ^ k\<close>.  A
  ring with the array it indexes is a bounded first-in first-out queue (the interface \<open>bounded_fifo\<close>),
  also when the consumer runs between the steps of a put, as the slot
  interrupt does in TSCH (the step relation \<open>spsc_step\<close>).
\<close>

section \<open>The operations of ringbufindex.c\<close>

record ringbufindex =
  rmask :: u8
  put_ptr :: u8
  get_ptr :: u8

definition ringbufindex_init :: "u8 \<Rightarrow> ringbufindex" where
  "ringbufindex_init sz = \<lparr>rmask = word_of_int (uint sz - 1), put_ptr = 0, get_ptr = 0\<rparr>"

definition ring_diff :: "ringbufindex \<Rightarrow> int" where
  "ring_diff r = (uint (put_ptr r) - uint (get_ptr r)) AND uint (rmask r)"

definition ringbufindex_put :: "ringbufindex \<Rightarrow> int \<times> ringbufindex" where
  "ringbufindex_put r =
     (if ring_diff r = uint (rmask r) then (0, r)
      else (1, r\<lparr>put_ptr := word_of_int ((uint (put_ptr r) + 1) AND uint (rmask r))\<rparr>))"

definition ringbufindex_peek_put :: "ringbufindex \<Rightarrow> int" where
  "ringbufindex_peek_put r = (if ring_diff r = uint (rmask r) then -1 else uint (put_ptr r))"

definition ringbufindex_get :: "ringbufindex \<Rightarrow> int \<times> ringbufindex" where
  "ringbufindex_get r =
     (if ring_diff r > 0
      then (uint (get_ptr r), r\<lparr>get_ptr := word_of_int ((uint (get_ptr r) + 1) AND uint (rmask r))\<rparr>)
      else (-1, r))"

definition ringbufindex_peek_get :: "ringbufindex \<Rightarrow> int" where
  "ringbufindex_peek_get r = (if ring_diff r > 0 then uint (get_ptr r) else -1)"

definition ringbufindex_size :: "ringbufindex \<Rightarrow> int" where
  "ringbufindex_size r = uint (rmask r) + 1"

definition ringbufindex_elements :: "ringbufindex \<Rightarrow> int" where
  "ringbufindex_elements r = (uint (put_ptr r) - uint (get_ptr r)) AND uint (rmask r)"

definition ringbufindex_full :: "ringbufindex \<Rightarrow> bool" where
  "ringbufindex_full r \<longleftrightarrow> ring_diff r = uint (rmask r)"

definition ringbufindex_empty :: "ringbufindex \<Rightarrow> bool" where
  "ringbufindex_empty r \<longleftrightarrow> ringbufindex_elements r = 0"

lemmas ring_defs = ringbufindex_put_def ringbufindex_peek_put_def ringbufindex_get_def
  ringbufindex_peek_get_def ringbufindex_size_def ringbufindex_full_def ringbufindex_empty_def
  ringbufindex_elements_def

section \<open>Invariant: the indices are below the size, a power of two\<close>

definition put_nat :: "ringbufindex \<Rightarrow> nat" where
  "put_nat r = unat (put_ptr r)"

definition get_nat :: "ringbufindex \<Rightarrow> nat" where
  "get_nat r = unat (get_ptr r)"

definition ring_inv :: "nat \<Rightarrow> ringbufindex \<Rightarrow> bool" where
  "ring_inv k r \<longleftrightarrow> 0 < k \<and> k \<le> 8 \<and> uint (rmask r) = 2 ^ k - 1
     \<and> put_nat r < 2 ^ k \<and> get_nat r < 2 ^ k"

definition ring_count :: "nat \<Rightarrow> ringbufindex \<Rightarrow> nat" where
  "ring_count k r = (put_nat r + 2 ^ k - get_nat r) mod 2 ^ k"

lemma and_mask_mod: "(x::int) AND (2 ^ k - 1) = x mod 2 ^ k"
  by (metis mask_eq_exp_minus_1 take_bit_eq_mask take_bit_eq_mod)

lemma pow8: "k \<le> 8 \<Longrightarrow> (2::int) ^ k \<le> 256"
  using power_increasing [of k 8 "2::int"] by simp

lemma uint_word_of_int_u8: "0 \<le> x \<Longrightarrow> x < 256 \<Longrightarrow> uint (word_of_int x :: u8) = x"
  by (simp add: take_bit_int_eq_self unsigned_of_int)

lemma uint_put: "uint (put_ptr r) = int (put_nat r)"
  by (simp add: put_nat_def)

lemma uint_get: "uint (get_ptr r) = int (get_nat r)"
  by (simp add: get_nat_def)

lemma put_nat_less: "ring_inv k r \<Longrightarrow> put_nat r < 2 ^ k"
  by (simp add: ring_inv_def)

lemma get_nat_less: "ring_inv k r \<Longrightarrow> get_nat r < 2 ^ k"
  by (simp add: ring_inv_def)

lemma ring_diff_count:
  assumes "ring_inv k r"
  shows "ring_diff r = int (ring_count k r)"
proof -
  have g: "get_nat r \<le> put_nat r + 2 ^ k" and m: "uint (rmask r) = 2 ^ k - 1"
    using assms by (auto simp: ring_inv_def)
  have "int (ring_count k r) = (int (put_nat r) + 2 ^ k - int (get_nat r)) mod 2 ^ k"
    using g by (simp add: ring_count_def zmod_int of_nat_diff)
  also have "\<dots> = (int (put_nat r) - int (get_nat r)) mod 2 ^ k"
    by (metis add_diff_eq diff_add_eq mod_add_self2)
  finally show ?thesis
    by (simp add: ring_diff_def and_mask_mod m uint_put uint_get)
qed

lemma count_less: "ring_count k r < 2 ^ k"
  by (simp add: ring_count_def)

lemma put_position: "ring_inv k r \<Longrightarrow> put_nat r = (get_nat r + ring_count k r) mod 2 ^ k"
  using put_nat_less [of k r] get_nat_less [of k r]
  by (simp add: ring_count_def mod_add_right_eq)

lemma full_iff: "ring_inv k r \<Longrightarrow> ring_diff r = uint (rmask r) \<longleftrightarrow> ring_count k r = 2 ^ k - 1"
proof -
  assume inv: "ring_inv k r"
  have "int (ring_count k r) = 2 ^ k - 1 \<longleftrightarrow> int (ring_count k r) = int (2 ^ k - 1)"
    by (simp add: of_nat_diff)
  with inv show ?thesis
    by (simp only: ring_diff_count of_nat_eq_iff) (simp add: ring_inv_def)
qed

lemma count_eq:
  assumes "g < 2 ^ k" "c < 2 ^ k"
  shows "((g + c) mod 2 ^ k + 2 ^ k - g) mod 2 ^ k = (c::nat)"
  using assms by (cases "g + c < 2 ^ k") (auto simp: mod_if)

lemma step_ptr:
  assumes "ring_inv k r" "x < 2 ^ k"
  shows "uint (word_of_int ((int x + 1) AND uint (rmask r)) :: u8) = int ((x + 1) mod 2 ^ k)"
proof -
  have m: "uint (rmask r) = 2 ^ k - 1" and k: "k \<le> 8"
    using assms by (auto simp: ring_inv_def)
  have "(int x + 1) mod 2 ^ k < 256" "0 \<le> (int x + 1) mod 2 ^ k"
    by (rule order.strict_trans2 [OF _ pow8 [OF k]]) simp_all
  then have "uint (word_of_int ((int x + 1) mod 2 ^ k) :: u8) = (int x + 1) mod 2 ^ k"
    by (intro uint_word_of_int_u8)
  then show ?thesis
    by (simp add: m and_mask_mod zmod_int add.commute)
qed

lemma ring_put_result:
  assumes "ring_inv k r"
  shows "if ring_count k r = 2 ^ k - 1 then ringbufindex_put r = (0, r) \<and> ringbufindex_peek_put r = -1
    else (\<exists>r'. ringbufindex_put r = (1, r') \<and> ring_inv k r' \<and> ring_count k r' = ring_count k r + 1
            \<and> get_nat r' = get_nat r \<and> rmask r' = rmask r)
       \<and> ringbufindex_peek_put r = int (put_nat r)"
proof (cases "ring_count k r = 2 ^ k - 1")
  case True
  with full_iff [OF assms] show ?thesis
    by (simp add: ring_defs)
next
  case False
  define r' where "r' = r\<lparr>put_ptr := word_of_int ((uint (put_ptr r) + 1) AND uint (rmask r))\<rparr>"
  have p: "put_nat r' = (put_nat r + 1) mod 2 ^ k"
    using step_ptr [OF assms put_nat_less [OF assms]]
    by (simp add: r'_def put_nat_def flip: of_nat_eq_iff [where 'a=int] del: of_nat_eq_iff)
  have g: "get_nat r' = get_nat r" and m: "rmask r' = rmask r"
    by (simp_all add: r'_def get_nat_def)
  have inv: "ring_inv k r'"
    using assms g m p by (auto simp: ring_inv_def)
  have "ring_count k r + 1 < 2 ^ k"
    using False count_less [of k r] by simp
  moreover have "put_nat r' = (get_nat r + (ring_count k r + 1)) mod 2 ^ k"
    using put_position [OF assms] by (simp add: p mod_Suc_eq)
  ultimately have "ring_count k r' = ring_count k r + 1"
    unfolding ring_count_def [of k r'] g by (simp only: count_eq [OF get_nat_less [OF assms]])
  with False inv g m full_iff [OF assms] show ?thesis
    by (auto simp: ring_defs r'_def uint_put)
qed

lemma ring_get_result:
  assumes "ring_inv k r"
  shows "if ring_count k r = 0 then ringbufindex_get r = (-1, r) \<and> ringbufindex_peek_get r = -1
    else (\<exists>r'. ringbufindex_get r = (int (get_nat r), r') \<and> ring_inv k r' \<and> ring_count k r' = ring_count k r - 1
            \<and> get_nat r' = (get_nat r + 1) mod 2 ^ k \<and> put_nat r' = put_nat r \<and> rmask r' = rmask r)
       \<and> ringbufindex_peek_get r = int (get_nat r)"
proof (cases "ring_count k r = 0")
  case True
  with ring_diff_count [OF assms] show ?thesis
    by (simp add: ring_defs)
next
  case False
  define r' where "r' = r\<lparr>get_ptr := word_of_int ((uint (get_ptr r) + 1) AND uint (rmask r))\<rparr>"
  have g: "get_nat r' = (get_nat r + 1) mod 2 ^ k"
    using step_ptr [OF assms get_nat_less [OF assms]]
    by (simp add: r'_def get_nat_def flip: of_nat_eq_iff [where 'a=int] del: of_nat_eq_iff)
  have p: "put_nat r' = put_nat r" and m: "rmask r' = rmask r"
    by (simp_all add: r'_def put_nat_def)
  have inv: "ring_inv k r'"
    using assms p m g by (auto simp: ring_inv_def)
  have "(get_nat r' + (ring_count k r - 1)) mod 2 ^ k = (get_nat r + 1 + (ring_count k r - 1)) mod 2 ^ k"
    by (simp only: g mod_add_left_eq)
  also have "\<dots> = put_nat r'"
    using put_position [OF assms] False by (simp add: p)
  finally have "put_nat r' = (get_nat r' + (ring_count k r - 1)) mod 2 ^ k"
    by simp
  moreover have "ring_count k r - 1 < 2 ^ k"
    using count_less [of k r] by (simp add: less_imp_diff_less)
  ultimately have "ring_count k r' = ring_count k r - 1"
    unfolding ring_count_def [of k r'] by (simp only: count_eq [OF get_nat_less [OF inv]])
  with False inv p g m ring_diff_count [OF assms] show ?thesis
    by (auto simp: ring_defs r'_def uint_get)
qed

lemma ring_init_inv:
  assumes "0 < k" "k \<le> 8"
  shows "ring_inv k (ringbufindex_init (word_of_int (2 ^ k))) \<and>
    ring_count k (ringbufindex_init (word_of_int (2 ^ k))) = 0"
proof -
  have "uint (word_of_int (uint (word_of_int (2 ^ k) :: u8) - 1) :: u8) = 2 ^ k - 1"
  proof (cases "k = 8")
    case False
    with assms have "k \<le> 7"
      by simp
    then have "(2::int) ^ k \<le> 128"
      using power_increasing [of k 7 "2::int"] by simp
    then have "uint (word_of_int (2 ^ k) :: u8) = 2 ^ k" "uint (word_of_int (2 ^ k - 1) :: u8) = 2 ^ k - 1"
      by (intro uint_word_of_int_u8; simp)+
    then show ?thesis
      by simp
  qed (simp add: unsigned_minus_1_eq_mask mask_eq_exp_minus_1)
  then show ?thesis
    using assms by (simp add: ring_inv_def ringbufindex_init_def ring_count_def put_nat_def get_nat_def)
qed

lemma ring_size_pow: "ring_inv k r \<Longrightarrow> ringbufindex_size r = 2 ^ k"
  by (simp add: ring_defs ring_inv_def)

lemma ring_empty_iff: "ring_inv k r \<Longrightarrow> ringbufindex_empty r \<longleftrightarrow> ring_count k r = 0"
  using ring_diff_count [of k r] by (simp add: ring_defs ring_diff_def)

lemma ring_elements_count: "ring_inv k r \<Longrightarrow> ringbufindex_elements r = int (ring_count k r)"
  using ring_diff_count [of k r] by (simp add: ring_defs ring_diff_def)

section \<open>The interface of a bounded queue\<close>

text \<open>
  \<open>enq q x = None\<close> says that the queue is full, \<open>deq q = None\<close> that it is empty.
\<close>

locale bounded_fifo =
  fixes inv :: "'q \<Rightarrow> bool"
    and contents :: "'q \<Rightarrow> 'a list"
    and cap :: "'q \<Rightarrow> nat"
    and enq :: "'q \<Rightarrow> 'a \<Rightarrow> 'q option"
    and deq :: "'q \<Rightarrow> ('a \<times> 'q) option"
  assumes enq_law: "inv q \<Longrightarrow> (case enq q x of None \<Rightarrow> length (contents q) = cap q
      | Some q' \<Rightarrow> length (contents q) < cap q \<and> inv q' \<and> cap q' = cap q \<and> contents q' = contents q @ [x])"
    and deq_law: "inv q \<Longrightarrow> (case deq q of None \<Rightarrow> contents q = []
      | Some (x, q') \<Rightarrow> contents q = x # contents q' \<and> inv q' \<and> cap q' = cap q)"
begin

lemma enq_full_iff: "inv q \<Longrightarrow> enq q x = None \<longleftrightarrow> length (contents q) = cap q"
  using enq_law [of q x] by (auto split: option.splits)

lemma deq_empty_iff: "inv q \<Longrightarrow> deq q = None \<longleftrightarrow> contents q = []"
  using deq_law [of q] by (auto split: option.splits)

lemma enq_Some: "inv q \<Longrightarrow> enq q x = Some q' \<Longrightarrow> inv q' \<and> cap q' = cap q \<and> contents q' = contents q @ [x]"
  using enq_law [of q x] by auto

lemma deq_Some: "inv q \<Longrightarrow> deq q = Some (x, q') \<Longrightarrow> contents q = x # contents q' \<and> inv q' \<and> cap q' = cap q"
  using deq_law [of q] by auto

lemma deq_enq_empty:
  assumes "inv q" "contents q = []" "enq q x = Some q'"
  shows "\<exists>q''. deq q' = Some (x, q'') \<and> contents q'' = []"
  using deq_law [of q'] enq_Some [OF assms(1,3)] assms(2) by (auto split: option.splits)

end

section \<open>A ring and its array are a bounded queue\<close>

text \<open>
  How a client stores an element: \<open>ringbufindex_peek_put\<close>, a write to the array, \<open>ringbufindex_put\<close>
  (\<^verbatim>\<open>tsch_queue_add_packet\<close>); and how it takes one: \<open>ringbufindex_get\<close> and a read of the array
  (\<^verbatim>\<open>tsch_queue_remove_packet_from_queue\<close>).
\<close>

type_synonym 'a ring = "ringbufindex \<times> 'a list"

definition ring_enq :: "'a ring \<Rightarrow> 'a \<Rightarrow> 'a ring option" where
  "ring_enq q x = (let i = ringbufindex_peek_put (fst q) in
     if i = -1 then None else Some (snd (ringbufindex_put (fst q)), (snd q)[nat i := x]))"

definition ring_deq :: "'a ring \<Rightarrow> ('a \<times> 'a ring) option" where
  "ring_deq q = (let (i, r) = ringbufindex_get (fst q) in
     if i = -1 then None else Some (snd q ! nat i, (r, snd q)))"

definition ring_contents :: "nat \<Rightarrow> 'a ring \<Rightarrow> 'a list" where
  "ring_contents k q = map (\<lambda>i. snd q ! ((get_nat (fst q) + i) mod 2 ^ k)) [0 ..< ring_count k (fst q)]"

definition ring_ok :: "nat \<Rightarrow> 'a ring \<Rightarrow> bool" where
  "ring_ok k q \<longleftrightarrow> ring_inv k (fst q) \<and> length (snd q) = 2 ^ k"

definition ring_cap :: "nat \<Rightarrow> 'a ring \<Rightarrow> nat" where
  "ring_cap k q = 2 ^ k - 1"

lemma ring_inv_k: "ring_inv k r \<Longrightarrow> 0 < k \<and> k \<le> 8"
  by (simp add: ring_inv_def)

lemma length_contents [simp]: "length (ring_contents k q) = ring_count k (fst q)"
  by (simp add: ring_contents_def)

lemma contents_write_put:
  assumes "ring_inv k r"
  shows "ring_contents k (r, arr[put_nat r := x]) = ring_contents k (r, arr)"
proof -
  have "put_nat r \<noteq> (get_nat r + i) mod 2 ^ k" if "i < ring_count k r" for i
    using that put_position [OF assms] count_eq [OF get_nat_less [OF assms], of i]
      count_eq [OF get_nat_less [OF assms], of "ring_count k r"] count_less [of k r] by auto
  then show ?thesis
    by (auto simp: ring_contents_def)
qed

lemma ring_enq_law:
  assumes "ring_ok k q"
  shows "case ring_enq q x of None \<Rightarrow> length (ring_contents k q) = ring_cap k q
    | Some q' \<Rightarrow> length (ring_contents k q) < ring_cap k q \<and> ring_ok k q' \<and> ring_cap k q' = ring_cap k q
        \<and> ring_contents k q' = ring_contents k q @ [x]"
proof -
  obtain r arr where q: "q = (r, arr)"
    by (cases q)
  have inv: "ring_inv k r" and len: "length arr = 2 ^ k"
    using assms by (auto simp: ring_ok_def q)
  show ?thesis
  proof (cases "ring_count k r = 2 ^ k - 1")
    case True
    with ring_put_result [OF inv] show ?thesis
      by (simp add: ring_enq_def q ring_cap_def)
  next
    case False
    with ring_put_result [OF inv] obtain r' where
      r': "ringbufindex_put r = (1, r')" "ring_inv k r'" "ring_count k r' = ring_count k r + 1" "get_nat r' = get_nat r"
      and peek: "ringbufindex_peek_put r = int (put_nat r)"
      by auto
    have lt: "ring_count k r < 2 ^ k - 1"
      using False count_less [of k r] by simp
    have "ring_contents k (r', arr[put_nat r := x]) = ring_contents k (r, arr[put_nat r := x]) @ [x]"
      using put_position [OF inv] put_nat_less [OF inv] len by (simp add: ring_contents_def r')
    also have "ring_contents k (r, arr[put_nat r := x]) = ring_contents k (r, arr)"
      by (rule contents_write_put [OF inv])
    finally show ?thesis
      using lt peek r' len by (simp add: ring_enq_def q ring_ok_def ring_cap_def)
  qed
qed

lemma ring_deq_law:
  assumes "ring_ok k q"
  shows "case ring_deq q of None \<Rightarrow> ring_contents k q = []
    | Some (x, q') \<Rightarrow> ring_contents k q = x # ring_contents k q' \<and> ring_ok k q' \<and> ring_cap k q' = ring_cap k q"
proof -
  obtain r arr where q: "q = (r, arr)"
    by (cases q)
  have inv: "ring_inv k r" and len: "length arr = 2 ^ k"
    using assms by (auto simp: ring_ok_def q)
  show ?thesis
  proof (cases "ring_count k r = 0")
    case True
    with ring_get_result [OF inv] show ?thesis
      by (simp add: ring_deq_def q ring_contents_def)
  next
    case False
    with ring_get_result [OF inv] obtain r' where
      r': "ringbufindex_get r = (int (get_nat r), r')" "ring_inv k r'" "ring_count k r' = ring_count k r - 1"
        "get_nat r' = (get_nat r + 1) mod 2 ^ k"
      by auto
    have "[0 ..< ring_count k r] = 0 # map Suc [0 ..< ring_count k r - 1]"
      using False by (simp add: map_Suc_upt upt_conv_Cons)
    then have "ring_contents k (r, arr) = arr ! get_nat r # ring_contents k (r', arr)"
      using get_nat_less [OF inv] by (simp add: ring_contents_def r' mod_add_left_eq comp_def)
    with r' len show ?thesis
      by (simp add: ring_deq_def q ring_ok_def ring_cap_def)
  qed
qed

interpretation ring_fifo: bounded_fifo "ring_ok k" "ring_contents k" "ring_cap k" ring_enq ring_deq for k
  by unfold_locales (fact ring_enq_law ring_deq_law)+

text \<open>
  C34. A ring of size \<open>2 ^ k\<close> with its array is a first-in first-out queue of at most \<open>2 ^ k - 1\<close> elements:
  a put appends the element unless the queue is full, a get returns the oldest element unless
  it is empty, and \<^verbatim>\<open>ringbufindex_elements\<close> is the number of elements.
\<close>

theorem ring_is_bounded_fifo:
  assumes "ring_ok k q"
  shows "ringbufindex_elements (fst q) = int (length (ring_contents k q))
    \<and> length (ring_contents k q) \<le> 2 ^ k - 1
    \<and> (case ring_enq q x of
         None \<Rightarrow> length (ring_contents k q) = 2 ^ k - 1
       | Some q' \<Rightarrow> ring_ok k q' \<and> ring_contents k q' = ring_contents k q @ [x])
    \<and> (case ring_deq q of
         None \<Rightarrow> ring_contents k q = []
       | Some (y, q') \<Rightarrow> ring_ok k q' \<and> ring_contents k q = y # ring_contents k q')"
  using ring_fifo.enq_law [OF assms, of x] ring_fifo.deq_law [OF assms] count_less [of k "fst q"] assms
  by (auto simp: ring_cap_def ring_ok_def ring_elements_count split: option.splits)

theorem ring_is_bounded_fifo_witness:
  "case ring_enq (ringbufindex_init 4, [10, 20, 30, 40::nat]) 7 of
     None \<Rightarrow> length (ring_contents 2 (ringbufindex_init 4, [10, 20, 30, 40::nat])) = 2 ^ 2 - 1
   | Some q' \<Rightarrow> ring_contents 2 q' = ring_contents 2 (ringbufindex_init 4, [10, 20, 30, 40]) @ [7]"
proof -
  have "ring_ok 2 (ringbufindex_init 4, [10, 20, 30, 40::nat])"
    using ring_init_inv [of 2] by (simp add: ring_ok_def)
  from ring_is_bounded_fifo [OF this, of 7] show ?thesis
    by (auto split: option.splits)
qed

section \<open>Interleaving of one producer and one consumer\<close>

text \<open>
  The producer is \<^verbatim>\<open>tsch_queue_add_packet\<close> in its three steps: it reserves the index, it stores the
  element (or gives up, when no packet can be allocated), it commits by advancing \<open>put_ptr\<close>.
  The consumer, run from the slot interrupt, takes an element at any point in between.
\<close>

datatype 'a producer = Idle | Reserved nat 'a | Stored 'a

record 'a spsc =
  buf :: "'a ring"
  producer_at :: "'a producer"
  accepted :: "'a list"
  taken :: "'a list"

inductive spsc_step :: "'a spsc \<Rightarrow> 'a spsc \<Rightarrow> bool" where
  reserve: "producer_at s = Idle \<Longrightarrow> ringbufindex_peek_put (fst (buf s)) = i \<Longrightarrow> i \<noteq> -1 \<Longrightarrow>
    spsc_step s (s\<lparr>producer_at := Reserved (nat i) x\<rparr>)"
| abandon: "producer_at s = Reserved i x \<Longrightarrow> spsc_step s (s\<lparr>producer_at := Idle\<rparr>)"
| store: "producer_at s = Reserved i x \<Longrightarrow>
    spsc_step s (s\<lparr>producer_at := Stored x, buf := (fst (buf s), (snd (buf s))[i := x])\<rparr>)"
| commit: "producer_at s = Stored x \<Longrightarrow> ringbufindex_put (fst (buf s)) = (ret, r) \<Longrightarrow>
    spsc_step s (s\<lparr>producer_at := Idle, buf := (r, snd (buf s)),
      accepted := accepted s @ (if ret = 1 then [x] else [])\<rparr>)"
| take: "ring_deq (buf s) = Some (x, b) \<Longrightarrow> spsc_step s (s\<lparr>buf := b, taken := taken s @ [x]\<rparr>)"

inductive spsc_reachable :: "nat \<Rightarrow> 'a spsc \<Rightarrow> bool" for k where
  spsc_start: "ring_ok k q \<Longrightarrow> ring_contents k q = [] \<Longrightarrow>
    spsc_reachable k \<lparr>buf = q, producer_at = Idle, accepted = [], taken = []\<rparr>"
| spsc_next: "spsc_reachable k s \<Longrightarrow> spsc_step s t \<Longrightarrow> spsc_reachable k t"

definition spsc_inv :: "nat \<Rightarrow> 'a spsc \<Rightarrow> bool" where
  "spsc_inv k s \<longleftrightarrow> ring_ok k (buf s) \<and> accepted s = taken s @ ring_contents k (buf s)
    \<and> (case producer_at s of
         Idle \<Rightarrow> True
       | Reserved i x \<Rightarrow> i = put_nat (fst (buf s)) \<and> ring_count k (fst (buf s)) < 2 ^ k - 1
       | Stored x \<Rightarrow> snd (buf s) ! put_nat (fst (buf s)) = x \<and> ring_count k (fst (buf s)) < 2 ^ k - 1)"

lemma commit_contents:
  assumes "ring_ok k (r, arr)" "ring_count k r < 2 ^ k - 1"
  shows "\<exists>r'. ringbufindex_put r = (1, r') \<and> ring_ok k (r', arr)
    \<and> ring_contents k (r', arr) = ring_contents k (r, arr) @ [arr ! put_nat r]"
proof -
  have inv: "ring_inv k r"
    using assms by (simp add: ring_ok_def)
  with ring_put_result [OF inv] assms obtain r' where
    r': "ringbufindex_put r = (1, r')" "ring_inv k r'" "ring_count k r' = ring_count k r + 1" "get_nat r' = get_nat r"
    by auto
  with assms show ?thesis
    by (simp add: ring_ok_def ring_contents_def put_position [OF inv])
qed

lemma deq_put_nat:
  assumes "ring_ok k q" "ring_deq q = Some (x, q')"
  shows "put_nat (fst q') = put_nat (fst q) \<and> snd q' = snd q \<and> Suc (ring_count k (fst q')) = ring_count k (fst q)"
proof (cases "ring_count k (fst q) = 0")
  case True
  then show ?thesis
    using assms ring_get_result [of k "fst q"] by (simp add: ring_ok_def ring_deq_def)
next
  case False
  with ring_get_result [of k "fst q"] assms(1) obtain r' where
    "ringbufindex_get (fst q) = (int (get_nat (fst q)), r')" "put_nat r' = put_nat (fst q)"
    "ring_count k r' = ring_count k (fst q) - 1"
    by (auto simp: ring_ok_def)
  with False assms(2) show ?thesis
    by (auto simp: ring_deq_def)
qed

lemma spsc_step_inv:
  assumes "spsc_step s t" "spsc_inv k s"
  shows "spsc_inv k t"
  using assms
proof (induction rule: spsc_step.induct)
  case (reserve s i x)
  then show ?case
    using ring_put_result [of k "fst (buf s)"] count_less [of k "fst (buf s)"]
    by (auto simp: spsc_inv_def ring_ok_def split: if_splits)
next
  case (store s i x)
  then show ?case
    using contents_write_put [of k "fst (buf s)" "snd (buf s)" x] put_nat_less [of k "fst (buf s)"]
    by (auto simp: spsc_inv_def ring_ok_def)
next
  case (commit s x ret r)
  then show ?case
    using commit_contents [of k "fst (buf s)" "snd (buf s)"] by (auto simp: spsc_inv_def)
next
  case (take s x b)
  then show ?case
    using ring_fifo.deq_Some [of k "buf s" x b] deq_put_nat [of k "buf s" x b]
    by (auto simp: spsc_inv_def split: producer.splits)
qed (auto simp: spsc_inv_def)

lemma spsc_reachable_inv: "spsc_reachable k s \<Longrightarrow> spsc_inv k s"
proof (induction rule: spsc_reachable.induct)
  case (spsc_start q)
  then show ?case
    by (simp add: spsc_inv_def)
next
  case (spsc_next s t)
  then show ?case
    by (blast intro: spsc_step_inv)
qed

text \<open>
  C35. The lock-free put is safe: in every reachable interleaving of the producer's three steps with the
  consumer, the elements taken followed by those still in the ring are exactly the elements
  accepted, in order, and a producer that has stored its element always finds room when it commits.
\<close>

theorem spsc_interleaving_safe:
  assumes "spsc_reachable k s"
  shows "taken s @ ring_contents k (buf s) = accepted s
    \<and> (case producer_at s of Stored x \<Rightarrow> fst (ringbufindex_put (fst (buf s))) = 1 | _ \<Rightarrow> True)"
proof -
  have inv: "spsc_inv k s"
    by (rule spsc_reachable_inv [OF assms])
  with commit_contents [of k "fst (buf s)" "snd (buf s)"] show ?thesis
    by (auto simp: spsc_inv_def split: producer.splits)
qed

theorem spsc_interleaving_safe_witness:
  "\<exists>s :: nat spsc. taken s @ ring_contents 2 (buf s) = accepted s \<and> producer_at s = Reserved 0 7"
proof -
  let ?q = "(ringbufindex_init 4, [0, 0, 0, 0]) :: nat ring"
  let ?s = "\<lparr>buf = ?q, producer_at = Idle, accepted = [], taken = []\<rparr> :: nat spsc"
  have q: "ring_ok 2 ?q" "ring_contents 2 ?q = []"
    using ring_init_inv [of 2] by (simp_all add: ring_ok_def ring_contents_def)
  then have "ringbufindex_peek_put (fst ?q) = 0"
    using ring_put_result [of 2 "fst ?q"] by (simp add: ring_ok_def ring_contents_def put_nat_def ringbufindex_init_def)
  then have "spsc_step ?s (?s\<lparr>producer_at := Reserved (nat 0) 7\<rparr>)"
    by (intro reserve) simp_all
  with q have "spsc_reachable 2 (?s\<lparr>producer_at := Reserved (nat 0) 7\<rparr>)"
    by (blast intro: spsc_reachable.intros)
  from spsc_interleaving_safe [OF this] show ?thesis
    by (intro exI [of _ "?s\<lparr>producer_at := Reserved (nat 0) 7\<rparr>"]) simp
qed

end
