(* ===== verification/Hash_Map.thy ===== *)
theory Hash_Map
  imports Linked_List
begin

text \<open>
  \<^verbatim>\<open>os/sys/hash-map.c\<close>: the fixed-size hash table with which the routing layer remembers the
  last packet and the next hop of each flow.  Collisions are stored in free nodes of the same table
  and chained through \<^verbatim>\<open>next\<close> (coalesced hashing).  A node is its index in \<^verbatim>\<open>list\<close>, and the key 0
  marks a free node.  The chains are the lists in memory of \<open>Linked_List\<close>; \<open>hm_inv\<close> says that
  each stored key lies on the chain of its home node, and under it the table implements a finite
  map of bounded size (the interface \<open>finite_map\<close>).
\<close>

section \<open>The operations of hash-map.c\<close>

record hash_node =
  key :: u16
  val :: u16
  nxt :: ptr

record hash_table =
  number_entries :: u8
  nodes :: "hash_node list"

definition free_node :: hash_node where
  "free_node = \<lparr>key = 0, val = 0, nxt = None\<rparr>"

text \<open>\<^verbatim>\<open>HASH_MAP_SIZE\<close> is the number of nodes of the table.\<close>

abbreviation hm_size :: "hash_table \<Rightarrow> nat" where
  "hm_size t \<equiv> length (nodes t)"

definition hash_map_clear_table :: "hash_table \<Rightarrow> hash_table" where
  "hash_map_clear_table t = \<lparr>number_entries = 0, nodes = replicate (hm_size t) free_node\<rparr>"

definition hash_code :: "nat \<Rightarrow> u8 \<Rightarrow> nat" where
  "hash_code n k = unat k mod n"

text \<open>The argument of \<open>hash_code\<close> is a \<^verbatim>\<open>uint8_t\<close>: the call truncates the key.\<close>

definition home :: "hash_table \<Rightarrow> u16 \<Rightarrow> nat" where
  "home t k = hash_code (hm_size t) (ucast k)"

datatype walk = Found nat | Tail nat

partial_function (option) insert_walk :: "hash_node list \<Rightarrow> u16 \<Rightarrow> nat \<Rightarrow> walk option" where
  "insert_walk ns k i = (case rd ns i of
     None \<Rightarrow> None
   | Some n \<Rightarrow> if key n = k then Some (Found i)
       else (case nxt n of None \<Rightarrow> Some (Tail i) | Some j \<Rightarrow> insert_walk ns k j))"

definition find_free :: "hash_node list \<Rightarrow> nat \<Rightarrow> nat \<Rightarrow> ptr" where
  "find_free ns lo hi = find (\<lambda>p. key (ns ! p) = 0) [lo ..< hi]"

definition hash_map_insert :: "hash_table \<Rightarrow> u16 \<Rightarrow> u16 \<Rightarrow> (u8 \<times> hash_table) option" where
  "hash_map_insert t k v = do {
     let pos = home t k;
     node \<leftarrow> rd (nodes t) pos;
     if key node = 0 then
       Some (1, t\<lparr>nodes := (nodes t)[pos := node\<lparr>key := k, val := v\<rparr>],
                  number_entries := number_entries t + 1\<rparr>)
     else do {
       w \<leftarrow> insert_walk (nodes t) k pos;
       case w of
         Found i \<Rightarrow> Some (1, t\<lparr>nodes := (nodes t)[i := (nodes t ! i)\<lparr>val := v\<rparr>]\<rparr>)
       | Tail prev \<Rightarrow>
           if hm_size t \<le> unat (number_entries t) then Some (0, t)
           else
             (case (case find_free (nodes t) pos (hm_size t) of
                      Some p \<Rightarrow> Some p
                    | None \<Rightarrow> find_free (nodes t) 0 pos) of
                None \<Rightarrow> Some (0, t)
              | Some p \<Rightarrow>
                  let ns = (nodes t)[p := (nodes t ! p)\<lparr>key := k, val := v\<rparr>];
                      ns = ns[prev := (ns ! prev)\<lparr>nxt := Some p\<rparr>]
                  in Some (1, t\<lparr>nodes := ns, number_entries := number_entries t + 1\<rparr>))
     }
   }"

partial_function (option) lookup_loop :: "hash_node list \<Rightarrow> u16 \<Rightarrow> ptr \<Rightarrow> u16 option" where
  "lookup_loop ns k p = (case p of
     None \<Rightarrow> Some 0
   | Some i \<Rightarrow> (case rd ns i of
       None \<Rightarrow> None
     | Some n \<Rightarrow> if key n = k then Some (val n) else lookup_loop ns k (nxt n)))"

definition hash_map_lookup :: "hash_table \<Rightarrow> u16 \<Rightarrow> u16 option" where
  "hash_map_lookup t k = lookup_loop (nodes t) k (Some (home t k))"

section \<open>Invariant and abstraction\<close>

definition hm_links :: "hash_node list \<Rightarrow> links" where
  "hm_links ns i = nxt (ns ! i)"

definition hm_abs :: "hash_table \<Rightarrow> u16 \<Rightarrow> u16 option" where
  "hm_abs t k = (if k = 0 then None else map_option val (find (\<lambda>n. key n = k) (nodes t)))"

definition hm_used :: "hash_node list \<Rightarrow> nat" where
  "hm_used ns = length (filter (\<lambda>n. key n \<noteq> 0) ns)"

definition hm_inv :: "hash_table \<Rightarrow> bool" where
  "hm_inv t \<longleftrightarrow> 0 < hm_size t \<and> hm_size t < 256
     \<and> unat (number_entries t) = hm_used (nodes t)
     \<and> (\<forall>i < hm_size t. \<forall>j < hm_size t. key (nodes t ! i) = key (nodes t ! j) \<longrightarrow> key (nodes t ! i) \<noteq> 0 \<longrightarrow> i = j)
     \<and> (\<forall>i < hm_size t. \<exists>xs. lseg (hm_links (nodes t)) (Some i) (i # xs)
           \<and> (\<forall>j \<in> set xs. j < hm_size t \<and> key (nodes t ! j) \<noteq> 0))
     \<and> (\<forall>i < hm_size t. key (nodes t ! i) \<noteq> 0 \<longrightarrow>
           (\<exists>xs. lseg (hm_links (nodes t)) (Some (home t (key (nodes t ! i)))) xs \<and> i \<in> set xs))
     \<and> (\<forall>i < hm_size t. key (nodes t ! i) = 0 \<longrightarrow> nxt (nodes t ! i) = None)"

lemma hm_inv_size: "hm_inv t \<Longrightarrow> 0 < hm_size t"
  by (simp add: hm_inv_def)

lemma hm_inv_distinct:
  "hm_inv t \<Longrightarrow> i < hm_size t \<Longrightarrow> j < hm_size t \<Longrightarrow> key (nodes t ! i) = k \<Longrightarrow> key (nodes t ! j) = k \<Longrightarrow>
   k \<noteq> 0 \<Longrightarrow> i = j"
  unfolding hm_inv_def by metis

lemma hm_inv_chain:
  "hm_inv t \<Longrightarrow> i < hm_size t \<Longrightarrow> \<exists>xs. lseg (hm_links (nodes t)) (Some i) (i # xs)
     \<and> (\<forall>j \<in> set xs. j < hm_size t \<and> key (nodes t ! j) \<noteq> 0)"
  unfolding hm_inv_def by blast

lemma hm_inv_reach:
  "hm_inv t \<Longrightarrow> i < hm_size t \<Longrightarrow> key (nodes t ! i) = k \<Longrightarrow> k \<noteq> 0 \<Longrightarrow>
   \<exists>xs. lseg (hm_links (nodes t)) (Some (home t k)) xs \<and> i \<in> set xs"
  unfolding hm_inv_def by blast

lemma hm_inv_free: "hm_inv t \<Longrightarrow> i < hm_size t \<Longrightarrow> key (nodes t ! i) = 0 \<Longrightarrow> nxt (nodes t ! i) = None"
  unfolding hm_inv_def by blast

lemma home_less: "0 < hm_size t \<Longrightarrow> home t k < hm_size t"
  by (simp add: home_def hash_code_def)

lemma hm_inv_clear:
  assumes "0 < hm_size t" "hm_size t < 256"
  shows "hm_inv (hash_map_clear_table t) \<and> hm_abs (hash_map_clear_table t) = Map.empty"
proof -
  have "find (\<lambda>n. key n = k) (replicate m free_node) = None" if "k \<noteq> 0" for k m
    using that by (simp add: find_None_iff free_node_def)
  then show ?thesis
    using assms
    by (auto simp: hm_inv_def hash_map_clear_table_def hm_used_def hm_links_def free_node_def hm_abs_def
        intro!: exI [of _ "[]"])
qed

lemma hm_abs_Some:
  assumes "hm_inv t" "i < hm_size t" "key (nodes t ! i) = k" "k \<noteq> 0"
  shows "hm_abs t k = Some (val (nodes t ! i))"
proof -
  have "nodes t ! i \<in> set (nodes t)"
    using assms(2) by simp
  with assms(3) have "find (\<lambda>n. key n = k) (nodes t) \<noteq> None"
    by (auto simp: find_None_iff)
  then obtain n where n: "find (\<lambda>n. key n = k) (nodes t) = Some n"
    by blast
  then obtain j where "j < hm_size t" "key (nodes t ! j) = k" "n = nodes t ! j"
    by (auto simp: find_Some_iff)
  moreover from this have "i = j"
    using assms hm_inv_distinct by blast
  ultimately show ?thesis
    using assms n by (simp add: hm_abs_def)
qed

lemma hm_abs_None:
  assumes "\<forall>i < hm_size t. key (nodes t ! i) \<noteq> k"
  shows "hm_abs t k = None"
  using assms by (auto simp: hm_abs_def find_None_iff in_set_conv_nth)

lemma hm_abs_cases:
  assumes "hm_inv t" "k \<noteq> 0"
  obtains (stored) i where "i < hm_size t" "key (nodes t ! i) = k" "hm_abs t k = Some (val (nodes t ! i))"
  | (absent) "\<forall>i < hm_size t. key (nodes t ! i) \<noteq> k" "hm_abs t k = None"
  using hm_abs_Some [OF assms(1)] hm_abs_None assms(2) by metis

section \<open>Lookup\<close>

lemma lookup_loop_absent:
  assumes "lseg (hm_links ns) p xs" "\<forall>i \<in> set xs. i < length ns \<and> key (ns ! i) \<noteq> k"
  shows "lookup_loop ns k p = Some 0"
  using assms by (induction xs arbitrary: p) (auto simp: lookup_loop.simps rd_in hm_links_def)

lemma lookup_loop_present:
  assumes "lseg (hm_links ns) p xs" "\<forall>i \<in> set xs. i < length ns" "i \<in> set xs"
    "\<forall>j \<in> set xs. key (ns ! j) = k \<longleftrightarrow> j = i"
  shows "lookup_loop ns k p = Some (val (ns ! i))"
  using assms by (induction xs arbitrary: p) (auto simp: lookup_loop.simps rd_in hm_links_def)

lemma home_chain:
  assumes "hm_inv t"
  obtains xs where "lseg (hm_links (nodes t)) (Some (home t k)) (home t k # xs)"
    "\<forall>j \<in> set (home t k # xs). j < hm_size t" "\<forall>j \<in> set xs. key (nodes t ! j) \<noteq> 0"
    "\<forall>i < hm_size t. key (nodes t ! i) = k \<longrightarrow> k \<noteq> 0 \<longrightarrow> i \<in> set (home t k # xs)"
proof -
  have h: "home t k < hm_size t"
    by (intro home_less hm_inv_size [OF assms])
  from hm_inv_chain [OF assms this] obtain xs where
    xs: "lseg (hm_links (nodes t)) (Some (home t k)) (home t k # xs)"
      "\<forall>j \<in> set xs. j < hm_size t \<and> key (nodes t ! j) \<noteq> 0"
    by blast
  have "i \<in> set (home t k # xs)" if "i < hm_size t" "key (nodes t ! i) = k" "k \<noteq> 0" for i
    using hm_inv_reach [OF assms that] lseg_unique [OF xs(1)] by blast
  with xs h show thesis
    by (intro that) auto
qed

lemma hash_map_lookup_abs:
  assumes "hm_inv t" "k \<noteq> 0"
  shows "hash_map_lookup t k = Some (case hm_abs t k of None \<Rightarrow> 0 | Some v \<Rightarrow> v)"
proof -
  obtain xs where
    xs: "lseg (hm_links (nodes t)) (Some (home t k)) (home t k # xs)"
      "\<forall>j \<in> set (home t k # xs). j < hm_size t" "\<forall>j \<in> set xs. key (nodes t ! j) \<noteq> 0"
      "\<forall>i < hm_size t. key (nodes t ! i) = k \<longrightarrow> k \<noteq> 0 \<longrightarrow> i \<in> set (home t k # xs)"
    by (rule home_chain [OF assms(1)])
  show ?thesis
    using assms
  proof (cases rule: hm_abs_cases)
    case (stored i)
    have "j = i" if "j \<in> set (home t k # xs)" "key (nodes t ! j) = k" for j
      using hm_inv_distinct [OF assms(1) _ stored(1) that(2) stored(2) assms(2)] xs(2) that(1) by blast
    with stored(2) have "\<forall>j \<in> set (home t k # xs). key (nodes t ! j) = k \<longleftrightarrow> j = i"
      by blast
    moreover have "i \<in> set (home t k # xs)"
      using xs(4) stored assms(2) by blast
    ultimately have "lookup_loop (nodes t) k (Some (home t k)) = Some (val (nodes t ! i))"
      using lookup_loop_present [OF xs(1,2)] by blast
    with stored show ?thesis
      by (simp add: hash_map_lookup_def)
  next
    case absent
    with lookup_loop_absent [OF xs(1), of k] xs(2) show ?thesis
      by (simp add: hash_map_lookup_def)
  qed
qed

section \<open>Insertion\<close>

lemma insert_walk_found:
  assumes "lseg (hm_links ns) (Some p) (p # xs)" "\<forall>i \<in> set (p # xs). i < length ns" "i \<in> set (p # xs)"
    "\<forall>j \<in> set (p # xs). key (ns ! j) = k \<longleftrightarrow> j = i"
  shows "insert_walk ns k p = Some (Found i)"
  using assms
proof (induction xs arbitrary: p)
  case Nil
  then show ?case
    by (simp add: insert_walk.simps rd_in)
next
  case (Cons q xs)
  then show ?case
    by (auto simp: insert_walk.simps [of ns k p] rd_in hm_links_def)
qed

lemma insert_walk_tail:
  assumes "lseg (hm_links ns) (Some p) (p # xs)" "\<forall>i \<in> set (p # xs). i < length ns \<and> key (ns ! i) \<noteq> k"
  shows "insert_walk ns k p = Some (Tail (last (p # xs)))"
  using assms
proof (induction xs arbitrary: p)
  case Nil
  then show ?case
    by (simp add: insert_walk.simps rd_in hm_links_def)
next
  case (Cons q xs)
  then show ?case
    by (simp add: insert_walk.simps [of ns k p] rd_in hm_links_def)
qed

lemma hm_used_card: "hm_used ns = card {i. i < length ns \<and> key (ns ! i) \<noteq> 0}"
  by (simp add: hm_used_def length_filter_conv_card)

lemma hm_used_upd_free:
  assumes "i < length ns" "key (ns ! i) = 0" "key n \<noteq> 0"
  shows "hm_used (ns[i := n]) = Suc (hm_used ns)"
proof -
  have "{j. j < length (ns[i := n]) \<and> key (ns[i := n] ! j) \<noteq> 0} = insert i {j. j < length ns \<and> key (ns ! j) \<noteq> 0}"
    using assms by (auto simp: nth_list_update)
  then show ?thesis
    using assms by (simp add: hm_used_card)
qed

lemma hm_used_upd_same:
  assumes "key n = key (ns ! i)"
  shows "hm_used (ns[i := n]) = hm_used ns"
proof -
  have "key (ns[i := n] ! j) = key (ns ! j)" for j
    using assms by (cases "i < length ns"; cases "j = i") (auto simp: list_update_beyond)
  then show ?thesis
    by (simp add: hm_used_card)
qed

lemma hm_used_full: "hm_used ns = length ns \<longleftrightarrow> (\<forall>i < length ns. key (ns ! i) \<noteq> 0)"
proof
  assume "hm_used ns = length ns"
  then have "{i. i < length ns \<and> key (ns ! i) \<noteq> 0} = {..< length ns}"
    by (intro card_subset_eq) (auto simp: hm_used_card)
  then show "\<forall>i < length ns. key (ns ! i) \<noteq> 0"
    by auto
next
  assume "\<forall>i < length ns. key (ns ! i) \<noteq> 0"
  then have "{i. i < length ns \<and> key (ns ! i) \<noteq> 0} = {..< length ns}"
    by auto
  then show "hm_used ns = length ns"
    by (simp add: hm_used_card)
qed

lemma hm_used_le: "hm_used ns \<le> length ns"
  by (simp add: hm_used_def)

text \<open>Appending a free node \<open>f\<close> after the last node \<open>t\<close> of a chain.\<close>

lemma lseg_extend:
  assumes "lseg nx h xs" "h \<noteq> None" "nx a = None" "nx f = None" "f \<notin> set xs" "a \<noteq> f"
  shows "lseg (nx(a := Some f)) h (if a \<in> set xs then xs @ [f] else xs)"
proof (cases "a \<in> set xs")
  case True
  then obtain us vs where xs: "xs = us @ a # vs"
    by (meson split_list)
  have "vs = []"
    using assms(1,3) xs by (cases vs) (auto simp: lseg_append)
  moreover have "a \<notin> set us"
    using lseg_distinct [OF assms(1)] xs by auto
  ultimately show ?thesis
    using assms xs by (auto simp: lseg_append)
qed (use assms in simp)


text \<open>
  The three ways an insertion changes the nodes have this in common: one node \<open>i\<close>, free or already
  holding \<open>k\<close>, now holds the pair \<open>(k, v)\<close>, and no other node changes its pair.
\<close>

definition pair_stored :: "hash_table \<Rightarrow> nat \<Rightarrow> u16 \<Rightarrow> u16 \<Rightarrow> hash_table \<Rightarrow> bool" where
  "pair_stored t i k v t' \<longleftrightarrow> hm_size t' = hm_size t \<and> i < hm_size t
     \<and> key (nodes t ! i) \<in> {0, k} \<and> key (nodes t' ! i) = k \<and> val (nodes t' ! i) = v
     \<and> (\<forall>j < hm_size t. j \<noteq> i \<longrightarrow> key (nodes t' ! j) = key (nodes t ! j) \<and> val (nodes t' ! j) = val (nodes t ! j))"

lemma hm_abs_pair_stored:
  assumes inv: "hm_inv t" "hm_inv t'" and ps: "pair_stored t i k v t'" and k: "k \<noteq> 0"
  shows "hm_abs t' = (hm_abs t)(k \<mapsto> v)"
proof
  fix q
  show "hm_abs t' q = ((hm_abs t)(k \<mapsto> v)) q"
  proof (cases "q = k")
    case True
    with hm_abs_Some [OF inv(2), of i k] ps k show ?thesis
      by (simp add: pair_stored_def)
  next
    case q: False
    show ?thesis
    proof (cases "q = 0")
      case True
      with q show ?thesis
        by (simp add: hm_abs_def)
    next
      case q0: False
      with inv(2) show ?thesis
      proof (cases rule: hm_abs_cases)
        case (stored j)
        with q ps have "j \<noteq> i" "j < hm_size t" "key (nodes t ! j) = q" "val (nodes t' ! j) = val (nodes t ! j)"
          unfolding pair_stored_def by auto
        with stored hm_abs_Some [OF inv(1), of j q] q q0 show ?thesis
          by simp
      next
        case absent
        have "key (nodes t ! j) \<noteq> q" if "j < hm_size t" for j
          using absent(1) that ps q q0 unfolding pair_stored_def by (cases "j = i") auto
        with absent hm_abs_None [of t q] q show ?thesis
          by simp
      qed
    qed
  qed
qed

lemma home_cong: "hm_size t' = hm_size t \<Longrightarrow> home t' k = home t k"
  by (simp add: home_def)

lemma hm_distinct_pair_stored:
  assumes "hm_inv t" "pair_stored t i k v t'" "\<forall>j < hm_size t. j \<noteq> i \<longrightarrow> key (nodes t ! j) \<noteq> k"
    "a < hm_size t'" "b < hm_size t'" "key (nodes t' ! a) = key (nodes t' ! b)" "key (nodes t' ! a) \<noteq> 0"
  shows "a = b"
proof -
  have "key (nodes t ! a) = key (nodes t ! b)" "key (nodes t ! a) \<noteq> 0" if "a \<noteq> i" "b \<noteq> i"
    using assms that unfolding pair_stored_def by auto
  moreover have "a = i \<longleftrightarrow> b = i"
    using assms unfolding pair_stored_def by metis
  ultimately show ?thesis
    using assms hm_inv_distinct [OF assms(1), of a b "key (nodes t ! a)"] unfolding pair_stored_def by metis
qed

text \<open>Storing a pair without touching any link.\<close>

lemma hm_inv_store:
  assumes inv: "hm_inv t" and ps: "pair_stored t i k v t'"
    and links: "hm_links (nodes t') = hm_links (nodes t)"
    and home: "i = home t k \<or> key (nodes t ! i) = k"
    and fresh: "\<forall>j < hm_size t. j \<noteq> i \<longrightarrow> key (nodes t ! j) \<noteq> k" and k: "k \<noteq> 0"
    and count: "unat (number_entries t') = hm_used (nodes t')"
  shows "hm_inv t'"
proof -
  have size: "hm_size t' = hm_size t" and i: "i < hm_size t"
    using ps by (auto simp: pair_stored_def)
  have keep: "key (nodes t' ! j) \<noteq> 0" if "j < hm_size t" "key (nodes t ! j) \<noteq> 0" for j
    using ps that k unfolding pair_stored_def by (cases "j = i") auto
  have "\<exists>xs. lseg (hm_links (nodes t)) (Some j) (j # xs) \<and> (\<forall>q \<in> set xs. q < hm_size t \<and> key (nodes t' ! q) \<noteq> 0)"
    if "j < hm_size t" for j
    using hm_inv_chain [OF inv that] keep by blast
  moreover have "\<exists>xs. lseg (hm_links (nodes t)) (Some (home t (key (nodes t' ! j)))) xs \<and> j \<in> set xs"
    if j: "j < hm_size t" "key (nodes t' ! j) \<noteq> 0" for j
  proof (cases "j = i")
    case True
    with ps home hm_inv_chain [OF inv i] hm_inv_reach [OF inv i] k show ?thesis
      unfolding pair_stored_def by (metis list.set_intros(1))
  next
    case False
    with ps j hm_inv_reach [OF inv j(1) refl] show ?thesis
      unfolding pair_stored_def by auto
  qed
  moreover have "nxt (nodes t' ! j) = None" if "j < hm_size t" "key (nodes t' ! j) = 0" for j
  proof -
    have "key (nodes t ! j) = 0"
      using keep that by blast
    then have "hm_links (nodes t) j = None"
      using hm_inv_free [OF inv that(1)] by (simp add: hm_links_def)
    then show ?thesis
      using links by (metis hm_links_def)
  qed
  moreover have "0 < hm_size t" "hm_size t < 256"
    using inv by (auto simp: hm_inv_def)
  ultimately show ?thesis
    using count hm_distinct_pair_stored [OF inv ps fresh]
    unfolding hm_inv_def size links home_cong [OF size] by blast
qed


text \<open>Storing a pair in a free node and linking that node behind the end of the home chain.\<close>

lemma hm_inv_append:
  assumes inv: "hm_inv t" and ps: "pair_stored t p k v t'" and free: "key (nodes t ! p) = 0"
    and chain: "lseg (hm_links (nodes t)) (Some (home t k)) (home t k # xs)"
      "\<forall>j \<in> set (home t k # xs). j < hm_size t \<and> key (nodes t ! j) \<noteq> 0"
    and links: "hm_links (nodes t') = (hm_links (nodes t))(last (home t k # xs) := Some p)"
    and fresh: "\<forall>j < hm_size t. key (nodes t ! j) \<noteq> k" and k: "k \<noteq> 0"
    and count: "unat (number_entries t') = hm_used (nodes t')"
  shows "hm_inv t'"
proof -
  define a where "a = last (home t k # xs)"
  have a_in: "a \<in> set (home t k # xs)"
    unfolding a_def by (intro last_in_set) simp
  with chain(2) have a: "a < hm_size t" "key (nodes t ! a) \<noteq> 0"
    by auto
  have size: "hm_size t' = hm_size t" and p: "p < hm_size t" and ap: "a \<noteq> p"
    using ps a free by (auto simp: pair_stored_def)
  obtain us where us: "home t k # xs = us @ [a]"
    unfolding a_def by (metis append_butlast_last_id list.distinct(1))
  have a_end: "hm_links (nodes t) a = None"
    using chain(1) unfolding us by (auto simp: lseg_append)
  have p_end: "hm_links (nodes t) p = None"
    using hm_inv_free [OF inv p free] by (simp add: hm_links_def)
  have keep: "key (nodes t' ! j) \<noteq> 0" if "j < hm_size t" "key (nodes t ! j) \<noteq> 0 \<or> j = p" for j
    using ps that k unfolding pair_stored_def by (cases "j = p") auto
  have ext: "lseg (hm_links (nodes t')) (Some j) (if a \<in> set ys then ys @ [p] else ys)"
    if "lseg (hm_links (nodes t)) (Some j) ys" "p \<notin> set ys" for j ys
    unfolding links a_def [symmetric] using lseg_extend [OF that(1) _ a_end p_end that(2) ap] by simp
  have p_new: "lseg (hm_links (nodes t')) (Some p) [p]"
    using p_end ap unfolding links a_def [symmetric] by simp
  have old: "p \<notin> set ys" if "\<forall>q \<in> set ys. key (nodes t ! q) \<noteq> 0" for ys
    using that free by blast
  have "\<exists>ys. lseg (hm_links (nodes t')) (Some j) (j # ys)
      \<and> (\<forall>q \<in> set ys. q < hm_size t \<and> key (nodes t' ! q) \<noteq> 0)" if j: "j < hm_size t" for j
  proof (cases "j = p")
    case True
    with p_new show ?thesis
      by (intro exI [of _ "[]"]) simp
  next
    case False
    obtain ys where ys: "lseg (hm_links (nodes t)) (Some j) (j # ys)"
      "\<forall>q \<in> set ys. q < hm_size t \<and> key (nodes t ! q) \<noteq> 0"
      using hm_inv_chain [OF inv j] by blast
    then have "p \<notin> set (j # ys)"
      using old [of ys] False by auto
    from ext [OF ys(1) this] ys(2) keep p show ?thesis
      by (cases "a \<in> set (j # ys)") (fastforce intro: exI [of _ "ys @ [p]"] exI [of _ ys])+
  qed
  moreover have "\<exists>ys. lseg (hm_links (nodes t')) (Some (home t (key (nodes t' ! j)))) ys \<and> j \<in> set ys"
    if j: "j < hm_size t" "key (nodes t' ! j) \<noteq> 0" for j
  proof (cases "j = p")
    case True
    have "lseg (hm_links (nodes t')) (Some (home t k)) ((home t k # xs) @ [p])"
      using ext [OF chain(1) old] chain(2) a_in by simp
    with True ps show ?thesis
      unfolding pair_stored_def by (metis in_set_conv_decomp)
  next
    case False
    then have q: "key (nodes t' ! j) = key (nodes t ! j)" "key (nodes t ! j) \<noteq> 0"
      using ps j by (auto simp: pair_stored_def)
    let ?h = "home t (key (nodes t ! j))"
    from hm_inv_reach [OF inv j(1) refl q(2)] obtain zs where
      zs: "lseg (hm_links (nodes t)) (Some ?h) zs" "j \<in> set zs"
      by blast
    have "p \<notin> set zs"
    proof
      assume "p \<in> set zs"
      moreover obtain ys where ys: "lseg (hm_links (nodes t)) (Some ?h) (?h # ys)"
        "\<forall>q \<in> set ys. q < hm_size t \<and> key (nodes t ! q) \<noteq> 0"
        using hm_inv_chain [OF inv home_less [OF hm_inv_size [OF inv]]] by blast
      moreover have "zs = ?h # ys"
        by (rule lseg_unique [OF zs(1) ys(1)])
      ultimately have "?h = p"
        using free by auto
      with zs(1) p_end have "zs = [p]"
        by (metis lseg_unique lseg.simps)
      with zs(2) False show False
        by simp
    qed
    from ext [OF zs(1) this] zs(2) q show ?thesis
      by (metis Un_iff set_append)
  qed
  moreover have "nxt (nodes t' ! j) = None" if "j < hm_size t" "key (nodes t' ! j) = 0" for j
  proof -
    have "key (nodes t ! j) = 0"
      using keep that by blast
    then have "hm_links (nodes t) j = None" "j \<noteq> a"
      using hm_inv_free [OF inv that(1)] a by (auto simp: hm_links_def)
    then show ?thesis
      using links unfolding a_def [symmetric] by (metis fun_upd_other hm_links_def)
  qed
  moreover have "0 < hm_size t" "hm_size t < 256"
    using inv by (auto simp: hm_inv_def)
  moreover have "\<forall>j < hm_size t. j \<noteq> p \<longrightarrow> key (nodes t ! j) \<noteq> k"
    using fresh by blast
  ultimately show ?thesis
    using count hm_distinct_pair_stored [OF inv ps] 
    unfolding hm_inv_def size home_cong [OF size] by blast
qed


lemma find_free_None: "find_free ns lo hi = None \<longleftrightarrow> (\<forall>p. lo \<le> p \<and> p < hi \<longrightarrow> key (ns ! p) \<noteq> 0)"
  by (auto simp: find_free_def find_None_iff)

lemma find_free_Some: "find_free ns lo hi = Some p \<Longrightarrow> lo \<le> p \<and> p < hi \<and> key (ns ! p) = 0"
  by (auto simp: find_free_def find_Some_iff)

text \<open>The circular search from the home node finds a free node unless the table is full.\<close>

lemma find_free_circular:
  assumes "hm_used ns < length ns" "pos < length ns"
  obtains p where "(case find_free ns pos (length ns) of Some p \<Rightarrow> Some p | None \<Rightarrow> find_free ns 0 pos) = Some p"
    "p < length ns" "key (ns ! p) = 0"
proof -
  obtain q where "q < length ns" "key (ns ! q) = 0"
    using assms(1) hm_used_full [of ns] by force
  then have "find_free ns pos (length ns) \<noteq> None \<or> find_free ns 0 pos \<noteq> None"
    by (auto simp: find_free_None) (meson not_le)
  then obtain p where
    p: "(case find_free ns pos (length ns) of Some p \<Rightarrow> Some p | None \<Rightarrow> find_free ns 0 pos) = Some p"
    by (cases "find_free ns pos (length ns)") auto
  show thesis
    by (rule that [OF p]) (use p assms(2) in \<open>auto split: option.splits dest: find_free_Some\<close>)
qed

lemma hm_abs_dom:
  assumes "hm_inv t"
  shows "card (dom (hm_abs t)) = unat (number_entries t)"
proof -
  let ?I = "{i. i < hm_size t \<and> key (nodes t ! i) \<noteq> 0}"
  have "dom (hm_abs t) = (\<lambda>i. key (nodes t ! i)) ` ?I"
  proof (intro equalityI subsetI)
    fix k
    assume k: "k \<in> dom (hm_abs t)"
    then have "k \<noteq> 0"
      by (auto simp: hm_abs_def)
    with assms show "k \<in> (\<lambda>i. key (nodes t ! i)) ` ?I"
      by (cases rule: hm_abs_cases) (use k \<open>k \<noteq> 0\<close> in \<open>auto simp: image_iff\<close>)
  qed (use hm_abs_Some [OF assms] in auto)
  moreover have "inj_on (\<lambda>i. key (nodes t ! i)) ?I"
    using hm_inv_distinct [OF assms] by (auto intro!: inj_onI)
  moreover have "unat (number_entries t) = card ?I"
    using assms by (simp add: hm_inv_def hm_used_card)
  ultimately show ?thesis
    by (simp add: card_image)
qed

definition bmap_insert :: "nat \<Rightarrow> ('k \<rightharpoonup> 'v) \<Rightarrow> 'k \<Rightarrow> 'v \<Rightarrow> bool \<times> ('k \<rightharpoonup> 'v)" where
  "bmap_insert cap m k v = (if k \<in> dom m \<or> card (dom m) < cap then (True, m(k \<mapsto> v)) else (False, m))"

lemma number_entries_Suc:
  assumes "hm_inv t" "hm_used (nodes t) < hm_size t"
  shows "unat (number_entries t + 1) = Suc (hm_used (nodes t))"
proof -
  have "unat (number_entries t) < 255"
    using assms by (auto simp: hm_inv_def)
  then show ?thesis
    using assms(1) by (subst unat_add_lem [THEN iffD1]) (auto simp: hm_inv_def)
qed

lemma hm_inv_count: "hm_inv t \<Longrightarrow> unat (number_entries t) = hm_used (nodes t)"
  by (simp add: hm_inv_def)

lemma insert_home_free:
  assumes inv: "hm_inv t" and k: "k \<noteq> 0" and free: "key (nodes t ! home t k) = 0"
  shows "\<exists>t'. hash_map_insert t k v = Some (1, t') \<and> hm_inv t' \<and> hm_size t' = hm_size t
    \<and> hm_abs t' = (hm_abs t)(k \<mapsto> v) \<and> hm_used (nodes t) < hm_size t"
proof -
  define pos where "pos = home t k"
  define t' where "t' = t\<lparr>nodes := (nodes t)[pos := (nodes t ! pos)\<lparr>key := k, val := v\<rparr>],
                          number_entries := number_entries t + 1\<rparr>"
  have pos: "pos < hm_size t"
    unfolding pos_def by (intro home_less hm_inv_size [OF inv])
  have room: "hm_used (nodes t) < hm_size t"
    using hm_used_le [of "nodes t"] hm_used_full [of "nodes t"] pos free unfolding pos_def by force
  have run: "hash_map_insert t k v = Some (1, t')"
    using pos free by (simp add: hash_map_insert_def Let_def rd_in t'_def pos_def)
  have ps: "pair_stored t pos k v t'"
    using pos free by (auto simp: pair_stored_def t'_def pos_def)
  have links: "hm_links (nodes t') = hm_links (nodes t)"
    using pos by (auto simp: hm_links_def t'_def nth_list_update fun_eq_iff)
  have end_chain: "hm_links (nodes t) pos = None"
    using hm_inv_free [OF inv pos] free by (simp add: hm_links_def pos_def)
  have fresh: "\<forall>j < hm_size t. j \<noteq> pos \<longrightarrow> key (nodes t ! j) \<noteq> k"
  proof (intro allI impI notI)
    fix j
    assume j: "j < hm_size t" "j \<noteq> pos" "key (nodes t ! j) = k"
    from hm_inv_reach [OF inv j(1,3) k] obtain xs where
      "lseg (hm_links (nodes t)) (Some pos) xs" "j \<in> set xs"
      unfolding pos_def by blast
    moreover have "lseg (hm_links (nodes t)) (Some pos) [pos]"
      using end_chain by simp
    ultimately have "j \<in> set [pos]"
      using lseg_unique by metis
    with j(2) show False
      by simp
  qed
  have "unat (number_entries t') = hm_used (nodes t')"
    using number_entries_Suc [OF inv room] hm_used_upd_free [OF pos, of "(nodes t ! pos)\<lparr>key := k, val := v\<rparr>"]
      free k by (simp add: t'_def pos_def)
  from hm_inv_store [OF inv ps links _ fresh k this] have "hm_inv t'"
    by (simp add: pos_def)
  with run room hm_abs_pair_stored [OF inv this ps k] show ?thesis
    by (auto simp: t'_def)
qed


lemma insert_found:
  assumes inv: "hm_inv t" and k: "k \<noteq> 0" and i: "i < hm_size t" "key (nodes t ! i) = k"
    and used: "key (nodes t ! home t k) \<noteq> 0"
  shows "\<exists>t'. hash_map_insert t k v = Some (1, t') \<and> hm_inv t' \<and> hm_size t' = hm_size t
    \<and> hm_abs t' = (hm_abs t)(k \<mapsto> v)"
proof -
  obtain xs where
    xs: "lseg (hm_links (nodes t)) (Some (home t k)) (home t k # xs)"
      "\<forall>j \<in> set (home t k # xs). j < hm_size t" "\<forall>j \<in> set xs. key (nodes t ! j) \<noteq> 0"
      "\<forall>i < hm_size t. key (nodes t ! i) = k \<longrightarrow> k \<noteq> 0 \<longrightarrow> i \<in> set (home t k # xs)"
    by (rule home_chain [OF inv])
  define t' where "t' = t\<lparr>nodes := (nodes t)[i := (nodes t ! i)\<lparr>val := v\<rparr>]\<rparr>"
  have only: "j = i" if "j < hm_size t" "key (nodes t ! j) = k" for j
    using hm_inv_distinct [OF inv that(1) i(1) that(2) i(2) k] .
  then have "insert_walk (nodes t) k (home t k) = Some (Found i)"
    using insert_walk_found [OF xs(1,2)] xs(2,4) i k by blast
  then have run: "hash_map_insert t k v = Some (1, t')"
    using used xs(2) by (simp add: hash_map_insert_def Let_def rd_in t'_def)
  have ps: "pair_stored t i k v t'"
    using i by (simp add: pair_stored_def t'_def)
  have links: "hm_links (nodes t') = hm_links (nodes t)"
    using i by (auto simp: hm_links_def t'_def nth_list_update fun_eq_iff)
  have "unat (number_entries t') = hm_used (nodes t')"
    using hm_inv_count [OF inv] by (simp add: t'_def hm_used_upd_same)
  from hm_inv_store [OF inv ps links _ _ k this] i only have "hm_inv t'"
    by blast
  with run hm_abs_pair_stored [OF inv this ps k] show ?thesis
    by (simp add: t'_def)
qed

lemma insert_absent:
  assumes inv: "hm_inv t" and k: "k \<noteq> 0" and absent: "\<forall>i < hm_size t. key (nodes t ! i) \<noteq> k"
    and used: "key (nodes t ! home t k) \<noteq> 0"
  shows "if hm_used (nodes t) < hm_size t
    then \<exists>t'. hash_map_insert t k v = Some (1, t') \<and> hm_inv t' \<and> hm_size t' = hm_size t
      \<and> hm_abs t' = (hm_abs t)(k \<mapsto> v)
    else hash_map_insert t k v = Some (0, t)"
proof -
  obtain xs where
    xs: "lseg (hm_links (nodes t)) (Some (home t k)) (home t k # xs)"
      "\<forall>j \<in> set (home t k # xs). j < hm_size t" "\<forall>j \<in> set xs. key (nodes t ! j) \<noteq> 0"
    by (rule home_chain [OF inv])
  define a where "a = last (home t k # xs)"
  have "a \<in> set (home t k # xs)"
    unfolding a_def by (intro last_in_set) simp
  with xs used have a: "a < hm_size t" "key (nodes t ! a) \<noteq> 0"
    by auto
  have walk: "insert_walk (nodes t) k (home t k) = Some (Tail a)"
    unfolding a_def using insert_walk_tail [OF xs(1)] xs(2) absent by blast
  show ?thesis
  proof (cases "hm_used (nodes t) < hm_size t")
    case False
    with walk used xs(2) hm_inv_count [OF inv] show ?thesis
      by (simp add: hash_map_insert_def Let_def rd_in)
  next
    case True
    obtain p where p: "(case find_free (nodes t) (home t k) (hm_size t) of Some p \<Rightarrow> Some p
        | None \<Rightarrow> find_free (nodes t) 0 (home t k)) = Some p" "p < hm_size t" "key (nodes t ! p) = 0"
      using find_free_circular [OF True] xs(2) by auto
    define ns where "ns = (nodes t)[p := (nodes t ! p)\<lparr>key := k, val := v\<rparr>]"
    define t' where "t' = t\<lparr>nodes := ns[a := (ns ! a)\<lparr>nxt := Some p\<rparr>], number_entries := number_entries t + 1\<rparr>"
    have ap: "a \<noteq> p"
      using a p by auto
    have run: "hash_map_insert t k v = Some (1, t')"
      using used walk xs(2) True p(1) hm_inv_count [OF inv]
      by (simp add: hash_map_insert_def rd_in t'_def ns_def Let_def del: option.case_eq_if)
    have ps: "pair_stored t p k v t'"
      using p a ap by (auto simp: pair_stored_def t'_def ns_def nth_list_update)
    have links: "hm_links (nodes t') = (hm_links (nodes t))(a := Some p)"
      using p a ap by (auto simp: hm_links_def t'_def ns_def nth_list_update fun_eq_iff)
    have "unat (number_entries t') = hm_used (nodes t')"
      using number_entries_Suc [OF inv True] hm_used_upd_free [OF p(2,3), of "(nodes t ! p)\<lparr>key := k, val := v\<rparr>"]
        k ap by (simp add: t'_def ns_def hm_used_upd_same)
    from hm_inv_append [OF inv ps p(3) xs(1) _ _ absent k this] xs used links have "hm_inv t'"
      by (simp add: a_def)
    with True run hm_abs_pair_stored [OF inv this ps k] show ?thesis
      by (simp add: t'_def ns_def)
  qed
qed

lemma hash_map_insert_correct:
  assumes inv: "hm_inv t" and k: "k \<noteq> 0"
  shows "\<exists>t'. hash_map_insert t k v = Some (of_bool (fst (bmap_insert (hm_size t) (hm_abs t) k v)), t')
    \<and> hm_inv t' \<and> hm_size t' = hm_size t \<and> hm_abs t' = snd (bmap_insert (hm_size t) (hm_abs t) k v)"
proof (cases "key (nodes t ! home t k) = 0")
  case True
  from insert_home_free [OF inv k this, of v] show ?thesis
    using hm_abs_dom [OF inv] hm_inv_count [OF inv] by (auto simp: bmap_insert_def)
next
  case used: False
  from inv k show ?thesis
  proof (cases rule: hm_abs_cases)
    case (stored i)
    with insert_found [OF inv k stored(1,2) used, of v] show ?thesis
      by (auto simp: bmap_insert_def)
  next
    case absent
    with insert_absent [OF inv k absent(1) used, of v] hm_abs_dom [OF inv] hm_inv_count [OF inv] inv show ?thesis
      by (auto simp: bmap_insert_def split: if_splits)
  qed
qed


section \<open>The table as a bounded finite map\<close>

text \<open>
  The contract of the table.  \<open>ins\<close> answers whether the pair is stored; \<open>ok cap t\<close> says that \<open>t\<close> is a
  table for \<open>cap\<close> keys and \<open>is_key\<close> which keys may be used.
\<close>

locale finite_map =
  fixes ins :: "'t \<Rightarrow> 'k \<Rightarrow> 'v \<Rightarrow> (bool \<times> 't) option"
    and look :: "'t \<Rightarrow> 'k \<Rightarrow> 'v option"
    and abs :: "'t \<Rightarrow> 'k \<rightharpoonup> 'v"
    and ok :: "nat \<Rightarrow> 't \<Rightarrow> bool"
    and is_key :: "'k \<Rightarrow> bool"
    and dflt :: 'v
  assumes look_abs: "ok c t \<Longrightarrow> is_key k \<Longrightarrow> look t k = Some (case abs t k of None \<Rightarrow> dflt | Some v \<Rightarrow> v)"
    and ins_abs: "ok c t \<Longrightarrow> is_key k \<Longrightarrow>
      \<exists>t'. ins t k v = Some (fst (bmap_insert c (abs t) k v), t') \<and> ok c t' \<and> abs t' = snd (bmap_insert c (abs t) k v)"
begin

fun ins_all :: "'t \<Rightarrow> ('k \<times> 'v) list \<Rightarrow> (bool list \<times> 't) option" where
  "ins_all t [] = Some ([], t)"
| "ins_all t ((k, v) # ps) = do {
     (r, t) \<leftarrow> ins t k v;
     (rs, t) \<leftarrow> ins_all t ps;
     Some (r # rs, t)
   }"

fun spec_all :: "nat \<Rightarrow> ('k \<rightharpoonup> 'v) \<Rightarrow> ('k \<times> 'v) list \<Rightarrow> bool list \<times> ('k \<rightharpoonup> 'v)" where
  "spec_all c m [] = ([], m)"
| "spec_all c m ((k, v) # ps) = (let (r, m) = bmap_insert c m k v; (rs, m) = spec_all c m ps in (r # rs, m))"

lemma ins_all_spec:
  assumes "ok c t" "\<forall>p \<in> set ps. is_key (fst p)"
  shows "\<exists>t'. ins_all t ps = Some (fst (spec_all c (abs t) ps), t') \<and> ok c t' \<and> abs t' = snd (spec_all c (abs t) ps)"
  using assms
proof (induction ps arbitrary: t)
  case (Cons p ps)
  obtain k v where p: "p = (k, v)"
    by (cases p)
  obtain t1 where t1: "ins t k v = Some (fst (bmap_insert c (abs t) k v), t1)" "ok c t1"
    "abs t1 = snd (bmap_insert c (abs t) k v)"
    using ins_abs [OF Cons.prems(1), of k v] Cons.prems(2) p by auto
  with Cons.IH [OF t1(2)] Cons.prems p show ?case
    by (auto simp: Let_def split_beta)
qed simp

lemma look_after_ins:
  assumes "ok c t" "is_key k" "is_key q" "ins t k v = Some (True, t')"
  shows "look t' q = (if q = k then Some v else look t q)"
proof -
  from ins_abs [OF assms(1,2), of v] assms(4) have "ok c t'" "abs t' = (abs t)(k \<mapsto> v)"
    by (auto simp: bmap_insert_def split: if_splits)
  with look_abs [OF _ assms(3)] assms(1) show ?thesis
    by (auto split: option.splits)
qed

end

definition hm_ok :: "nat \<Rightarrow> hash_table \<Rightarrow> bool" where
  "hm_ok n t \<longleftrightarrow> hm_inv t \<and> hm_size t = n"

definition hm_ins :: "hash_table \<Rightarrow> u16 \<Rightarrow> u16 \<Rightarrow> (bool \<times> hash_table) option" where
  "hm_ins t k v = map_option (\<lambda>(r, t). (r \<noteq> 0, t)) (hash_map_insert t k v)"

interpretation hm: finite_map hm_ins hash_map_lookup hm_abs hm_ok "\<lambda>k. k \<noteq> 0" 0
proof
  fix c t and k v :: u16
  assume "hm_ok c t" "k \<noteq> 0"
  then show "hash_map_lookup t k = Some (case hm_abs t k of None \<Rightarrow> 0 | Some v \<Rightarrow> v)"
    and "\<exists>t'. hm_ins t k v = Some (fst (bmap_insert c (hm_abs t) k v), t') \<and> hm_ok c t'
      \<and> hm_abs t' = snd (bmap_insert c (hm_abs t) k v)"
    using hash_map_lookup_abs [of t k] hash_map_insert_correct [of t k v] by (auto simp: hm_ok_def hm_ins_def)
qed

fun hash_map_run :: "hash_table \<Rightarrow> (u16 \<times> u16) list \<Rightarrow> (u8 list \<times> hash_table) option" where
  "hash_map_run t [] = Some ([], t)"
| "hash_map_run t ((k, v) # ps) = do {
     (r, t) \<leftarrow> hash_map_insert t k v;
     (rs, t) \<leftarrow> hash_map_run t ps;
     Some (r # rs, t)
   }"

fun bmap_run :: "nat \<Rightarrow> (u16 \<rightharpoonup> u16) \<Rightarrow> (u16 \<times> u16) list \<Rightarrow> u8 list \<times> (u16 \<rightharpoonup> u16)" where
  "bmap_run c m [] = ([], m)"
| "bmap_run c m ((k, v) # ps) =
     (let (r, m) = bmap_insert c m k v; (rs, m) = bmap_run c m ps in (of_bool r # rs, m))"

lemma hash_map_run_abs:
  assumes "hm_ok c t" "\<forall>p \<in> set ps. fst p \<noteq> 0"
  shows "\<exists>t'. hash_map_run t ps = Some (fst (bmap_run c (hm_abs t) ps), t') \<and> hm_ok c t'
    \<and> hm_abs t' = snd (bmap_run c (hm_abs t) ps)"
  using assms
proof (induction ps arbitrary: t)
  case (Cons p ps)
  obtain k v where p: "p = (k, v)"
    by (cases p)
  obtain t1 where "hash_map_insert t k v = Some (of_bool (fst (bmap_insert c (hm_abs t) k v)), t1)" "hm_ok c t1"
    "hm_abs t1 = snd (bmap_insert c (hm_abs t) k v)"
    using hash_map_insert_correct [of t k v] Cons.prems p by (auto simp: hm_ok_def)
  with Cons.IH [of t1] Cons.prems p show ?case
    by (auto simp: Let_def split_beta)
qed simp

lemma bmap_run_example:
  "bmap_run 3 Map.empty [(1, 10), (4, 40), (7, 70), (2, 20), (4, 41)]
     = ([1, 1, 1, 0, 1], [1 \<mapsto> 10, 4 \<mapsto> 41, 7 \<mapsto> 70])"
  by (simp add: bmap_insert_def fun_upd_twist)

text \<open>
  C33. A cleared table of \<open>n\<close> nodes behaves, for every sequence of insertions with non-zero keys, as a
  finite map for at most \<open>n\<close> keys: the codes returned are those of the bounded map, every lookup returns
  what the bounded map holds (0 for an absent key), each stored pair survives all later insertions
  of other keys, and no access leaves the table nor does a chain walk diverge.
\<close>

theorem hash_map_is_bounded_map:
  assumes "0 < hm_size t" "hm_size t < 256" "\<forall>p \<in> set ps. fst p \<noteq> 0"
  shows "\<exists>t'. hash_map_run (hash_map_clear_table t) ps = Some (fst (bmap_run (hm_size t) Map.empty ps), t')
    \<and> unat (number_entries t') = card (dom (snd (bmap_run (hm_size t) Map.empty ps)))
    \<and> (\<forall>k. k \<noteq> 0 \<longrightarrow> hash_map_lookup t' k =
        Some (case snd (bmap_run (hm_size t) Map.empty ps) k of None \<Rightarrow> 0 | Some v \<Rightarrow> v))"
proof -
  have "hm_ok (hm_size t) (hash_map_clear_table t)" and e: "hm_abs (hash_map_clear_table t) = Map.empty"
    using hm_inv_clear [OF assms(1,2)] by (auto simp: hm_ok_def hash_map_clear_table_def)
  from hash_map_run_abs [OF this(1) assms(3)] obtain t' where
    t': "hash_map_run (hash_map_clear_table t) ps = Some (fst (bmap_run (hm_size t) Map.empty ps), t')"
      "hm_ok (hm_size t) t'" "hm_abs t' = snd (bmap_run (hm_size t) Map.empty ps)"
    unfolding e by blast
  with hm_abs_dom [of t'] hm.look_abs [OF t'(2)] show ?thesis
    by (auto simp: hm_ok_def)
qed

theorem hash_map_is_bounded_map_witness:
  "\<exists>t'. hash_map_run (hash_map_clear_table \<lparr>number_entries = 0, nodes = replicate 3 free_node\<rparr>)
       [(1, 10), (4, 40), (7, 70), (2, 20), (4, 41)] = Some ([1, 1, 1, 0, 1], t')
     \<and> hash_map_lookup t' 4 = Some 41 \<and> hash_map_lookup t' 2 = Some 0"
proof -
  let ?t = "\<lparr>number_entries = 0, nodes = replicate 3 free_node\<rparr>"
  let ?ps = "[(1, 10), (4, 40), (7, 70), (2, 20), (4, 41)] :: (u16 \<times> u16) list"
  have size: "hm_size ?t = 3"
    by simp
  have "\<exists>t'. hash_map_run (hash_map_clear_table ?t) ?ps = Some ([1, 1, 1, 0, 1], t')
     \<and> unat (number_entries t') = card (dom [1 \<mapsto> 10, 4 \<mapsto> 41, (7::u16) \<mapsto> (70::u16)])
     \<and> (\<forall>k. k \<noteq> 0 \<longrightarrow> hash_map_lookup t' k =
        Some (case [1 \<mapsto> 10, 4 \<mapsto> 41, 7 \<mapsto> 70] k of None \<Rightarrow> 0 | Some v \<Rightarrow> v))"
    by (rule hash_map_is_bounded_map [of ?t ?ps, unfolded size bmap_run_example fst_conv snd_conv]) simp_all
  then obtain t' where t': "hash_map_run (hash_map_clear_table ?t) ?ps = Some ([1, 1, 1, 0, 1], t')"
    and look: "\<And>k. k \<noteq> 0 \<Longrightarrow> hash_map_lookup t' k =
        Some (case [1 \<mapsto> 10, 4 \<mapsto> 41, 7 \<mapsto> 70] k of None \<Rightarrow> 0 | Some v \<Rightarrow> v)"
    by blast
  have "hash_map_lookup t' 4 = Some 41" "hash_map_lookup t' 2 = Some 0"
    using look [of 4] look [of 2] by simp_all
  with t' show ?thesis
    by blast
qed

end
