(* ===== verification/Packetbuf.thy ===== *)
theory Packetbuf
  imports Prelude
begin

text \<open>
  \<^verbatim>\<open>os/net/linkaddr.c\<close> and \<^verbatim>\<open>os/net/packetbuf.c\<close>: link-layer addresses, and the one
  buffer in which every layer builds an outgoing frame or takes an incoming one apart.  The buffer is
  the record \<open>pbuf\<close>: the bytes, the three length variables at their C width, the attributes and the
  two addresses.  \<open>pb_inv\<close> bounds the lengths; \<open>pb_hdr\<close> and \<open>pb_data\<close> are what the
  buffer means, a header being built in front of a payload.  The configuration is that of the MASTER
  applications (\<^verbatim>\<open>PACKETBUF_CONF_SIZE\<close> 96, \<^verbatim>\<open>int\<close> of 16 bits).
\<close>

section \<open>Link-layer addresses\<close>

type_synonym linkaddr = "u8 list"

definition LINKADDR_SIZE :: nat where
  "LINKADDR_SIZE = 8"

definition linkaddr_null :: linkaddr where
  "linkaddr_null = replicate LINKADDR_SIZE 0"

definition linkaddr_ok :: "linkaddr \<Rightarrow> bool" where
  "linkaddr_ok a \<longleftrightarrow> length a = LINKADDR_SIZE"

definition linkaddr_copy :: "linkaddr \<Rightarrow> linkaddr \<Rightarrow> linkaddr" where
  "linkaddr_copy dest src = take LINKADDR_SIZE src"

definition linkaddr_cmp :: "linkaddr \<Rightarrow> linkaddr \<Rightarrow> bool" where
  "linkaddr_cmp a b \<longleftrightarrow> take LINKADDR_SIZE a = take LINKADDR_SIZE b"

lemma linkaddr_copy_ok [simp]: "linkaddr_ok a \<Longrightarrow> linkaddr_copy d a = a"
  by (simp add: linkaddr_copy_def linkaddr_ok_def)

lemma linkaddr_cmp_ok [simp]: "linkaddr_ok a \<Longrightarrow> linkaddr_ok b \<Longrightarrow> linkaddr_cmp a b \<longleftrightarrow> a = b"
  by (simp add: linkaddr_cmp_def linkaddr_ok_def)

lemma linkaddr_null_ok [simp]: "linkaddr_ok linkaddr_null"
  by (simp add: linkaddr_ok_def linkaddr_null_def)

section \<open>The packet buffer\<close>

definition PACKETBUF_SIZE :: nat where
  "PACKETBUF_SIZE = 96"

datatype pb_attr =
    PACKETBUF_ATTR_NONE | PACKETBUF_ATTR_CHANNEL | PACKETBUF_ATTR_NETWORK_ID | PACKETBUF_ATTR_LINK_QUALITY
  | PACKETBUF_ATTR_RSSI | PACKETBUF_ATTR_TIMESTAMP | PACKETBUF_ATTR_MAX_MAC_TRANSMISSIONS
  | PACKETBUF_ATTR_MAC_SEQNO | PACKETBUF_ATTR_MAC_ACK | PACKETBUF_ATTR_MAC_METADATA
  | PACKETBUF_ATTR_MAC_NO_SRC_ADDR | PACKETBUF_ATTR_MAC_NO_DEST_ADDR
  | PACKETBUF_ATTR_TRANSMISSION_TTL | PACKETBUF_ATTR_EARLIEST_TX_SLOT | PACKETBUF_ATTR_RECEIVED_ASN
  | PACKETBUF_ATTR_FLOW_NUMBER | PACKETBUF_ATTR_FRAME_TYPE

datatype pb_addr = PACKETBUF_ADDR_SENDER | PACKETBUF_ADDR_RECEIVER

record pbuf =
  pb_bytes :: "u8 list"
  buflen :: u16
  bufptr :: u16
  hdrlen :: u8
  pb_attrs :: "pb_attr \<Rightarrow> u16"
  pb_addrs :: "pb_addr \<Rightarrow> linkaddr"

definition packetbuf_attr_clear :: "pbuf \<Rightarrow> pbuf" where
  "packetbuf_attr_clear b = b\<lparr>pb_attrs := (\<lambda>_. 0), pb_addrs := (\<lambda>i. linkaddr_copy (pb_addrs b i) linkaddr_null)\<rparr>"

definition packetbuf_clear :: "pbuf \<Rightarrow> pbuf" where
  "packetbuf_clear b = packetbuf_attr_clear (b\<lparr>buflen := 0, bufptr := 0, hdrlen := 0\<rparr>)"

text \<open>\<open>from\<close> is the memory at the source pointer: copying more than it holds is undefined.\<close>

definition packetbuf_copyfrom :: "pbuf \<Rightarrow> u8 list \<Rightarrow> u16 \<Rightarrow> (nat \<times> pbuf) option" where
  "packetbuf_copyfrom b src len = do {
     let b = packetbuf_clear b;
     let l = min PACKETBUF_SIZE (unat len);
     bs \<leftarrow> rd_n src 0 l;
     bytes \<leftarrow> wr_n (pb_bytes b) 0 bs;
     Some (l, b\<lparr>pb_bytes := bytes, buflen := of_nat l\<rparr>)
   }"

text \<open>\<^verbatim>\<open>packetbuf_hdrlen\<close> returns a \<^verbatim>\<open>uint8_t\<close>: the sum is truncated.\<close>

definition packetbuf_hdrlen :: "pbuf \<Rightarrow> u8" where
  "packetbuf_hdrlen b = ucast (bufptr b + ucast (hdrlen b))"

definition packetbuf_datalen :: "pbuf \<Rightarrow> u16" where
  "packetbuf_datalen b = buflen b"

definition packetbuf_totlen :: "pbuf \<Rightarrow> u16" where
  "packetbuf_totlen b = ucast (packetbuf_hdrlen b) + packetbuf_datalen b"

definition packetbuf_remaininglen :: "pbuf \<Rightarrow> u16" where
  "packetbuf_remaininglen b = of_nat PACKETBUF_SIZE - packetbuf_totlen b"

text \<open>A pointer into the buffer is an offset into \<open>pb_bytes\<close>.\<close>

definition packetbuf_dataptr :: "pbuf \<Rightarrow> nat" where
  "packetbuf_dataptr b = unat (packetbuf_hdrlen b)"

definition packetbuf_hdrptr :: "pbuf \<Rightarrow> nat" where
  "packetbuf_hdrptr b = 0"

text \<open>
  \<open>dst\<close> is the memory at the target pointer.  The sum in the test has the type of
  \<^verbatim>\<open>buflen\<close>, 16 bits unsigned.
\<close>

definition packetbuf_copyto :: "pbuf \<Rightarrow> u8 list \<Rightarrow> (nat \<times> u8 list) option" where
  "packetbuf_copyto b dst =
    (if PACKETBUF_SIZE < unat (ucast (hdrlen b) + buflen b) then Some (0, dst)
     else do {
       hdr \<leftarrow> rd_n (pb_bytes b) (packetbuf_hdrptr b) (unat (hdrlen b));
       dst \<leftarrow> wr_n dst 0 hdr;
       dat \<leftarrow> rd_n (pb_bytes b) (packetbuf_dataptr b) (unat (buflen b));
       dst \<leftarrow> wr_n dst (unat (hdrlen b)) dat;
       Some (unat (ucast (hdrlen b) + buflen b), dst)
     })"

text \<open>The loop of \<^verbatim>\<open>packetbuf_hdralloc\<close>, downwards from \<open>i = n - 1\<close>.\<close>

fun shift_right :: "u8 list \<Rightarrow> nat \<Rightarrow> int \<Rightarrow> u8 list option" where
  "shift_right buf 0 sz = Some buf"
| "shift_right buf (Suc i) sz = do {
     v \<leftarrow> rd buf i;
     buf \<leftarrow> (if int i + sz < 0 then None else wr buf (nat (int i + sz)) v);
     shift_right buf i sz
   }"

text \<open>
  \<open>size + packetbuf_totlen()\<close> adds an \<^verbatim>\<open>int\<close> and a \<^verbatim>\<open>uint16_t\<close> of the same 16 bits, so it is
  computed and compared unsigned.
\<close>

definition packetbuf_hdralloc :: "pbuf \<Rightarrow> int \<Rightarrow> (nat \<times> pbuf) option" where
  "packetbuf_hdralloc b sz =
    (if PACKETBUF_SIZE < unat (of_int sz + packetbuf_totlen b) then Some (0, b)
     else do {
       bytes \<leftarrow> shift_right (pb_bytes b) (unat (packetbuf_totlen b)) sz;
       Some (1, b\<lparr>pb_bytes := bytes, hdrlen := hdrlen b + of_int sz\<rparr>)
     })"

definition packetbuf_hdrreduce :: "pbuf \<Rightarrow> int \<Rightarrow> nat \<times> pbuf" where
  "packetbuf_hdrreduce b sz =
    (if buflen b < of_int sz then (0, b)
     else (1, b\<lparr>bufptr := bufptr b + of_int sz, buflen := buflen b - of_int sz\<rparr>))"

definition packetbuf_set_datalen :: "pbuf \<Rightarrow> u16 \<Rightarrow> pbuf" where
  "packetbuf_set_datalen b len = b\<lparr>buflen := len\<rparr>"

definition packetbuf_attr_copyto :: "pbuf \<Rightarrow> (pb_attr \<Rightarrow> u16) \<times> (pb_addr \<Rightarrow> linkaddr)" where
  "packetbuf_attr_copyto b = (pb_attrs b, pb_addrs b)"

definition packetbuf_attr_copyfrom :: "pbuf \<Rightarrow> (pb_attr \<Rightarrow> u16) \<Rightarrow> (pb_addr \<Rightarrow> linkaddr) \<Rightarrow> pbuf" where
  "packetbuf_attr_copyfrom b attrs addrs = b\<lparr>pb_attrs := attrs, pb_addrs := addrs\<rparr>"

definition packetbuf_set_attr :: "pbuf \<Rightarrow> pb_attr \<Rightarrow> u16 \<Rightarrow> pbuf" where
  "packetbuf_set_attr b ty v = b\<lparr>pb_attrs := (pb_attrs b)(ty := v)\<rparr>"

definition packetbuf_attr :: "pbuf \<Rightarrow> pb_attr \<Rightarrow> u16" where
  "packetbuf_attr b ty = pb_attrs b ty"

definition packetbuf_set_addr :: "pbuf \<Rightarrow> pb_addr \<Rightarrow> linkaddr \<Rightarrow> pbuf" where
  "packetbuf_set_addr b ty a = b\<lparr>pb_addrs := (pb_addrs b)(ty := linkaddr_copy (pb_addrs b ty) a)\<rparr>"

definition packetbuf_addr :: "pbuf \<Rightarrow> pb_addr \<Rightarrow> linkaddr" where
  "packetbuf_addr b ty = pb_addrs b ty"

definition packetbuf_holds_broadcast :: "pbuf \<Rightarrow> bool" where
  "packetbuf_holds_broadcast b = linkaddr_cmp (pb_addrs b PACKETBUF_ADDR_RECEIVER) linkaddr_null"

section \<open>What the buffer holds\<close>

definition pb_inv :: "pbuf \<Rightarrow> bool" where
  "pb_inv b \<longleftrightarrow> length (pb_bytes b) = PACKETBUF_SIZE
     \<and> unat (hdrlen b) + unat (bufptr b) + unat (buflen b) \<le> PACKETBUF_SIZE
     \<and> (\<forall>i. linkaddr_ok (pb_addrs b i))"

definition pb_hdr :: "pbuf \<Rightarrow> u8 list" where
  "pb_hdr b = take (unat (hdrlen b)) (pb_bytes b)"

definition pb_data :: "pbuf \<Rightarrow> u8 list" where
  "pb_data b = take (unat (buflen b)) (drop (packetbuf_dataptr b) (pb_bytes b))"

named_theorems pb_simps \<open>lengths and offsets of a well-formed packet buffer\<close>

lemma unat_add_small_u16:
  "unat (a::u16) + unat b < 65536 \<Longrightarrow> unat (a + b) = unat a + unat b"
  by (subst unat_add_lem [THEN iffD1]) simp_all

lemma pb_inv_length [pb_simps]: "pb_inv b \<Longrightarrow> length (pb_bytes b) = 96"
  by (simp add: pb_inv_def PACKETBUF_SIZE_def)

lemma pb_hdrlen [pb_simps]:
  assumes "pb_inv b"
  shows "unat (packetbuf_hdrlen b) = unat (hdrlen b) + unat (bufptr b)"
proof -
  have le: "unat (bufptr b) + unat (hdrlen b) \<le> 96"
    using assms by (auto simp: pb_inv_def PACKETBUF_SIZE_def)
  then have "unat (bufptr b + ucast (hdrlen b)) = unat (bufptr b) + unat (hdrlen b)"
    by (subst unat_add_small_u16) simp_all
  with le show ?thesis
    by (simp add: packetbuf_hdrlen_def unsigned_ucast_eq take_bit_nat_eq_self)
qed

lemma pb_totlen [pb_simps]:
  assumes "pb_inv b"
  shows "unat (packetbuf_totlen b) = unat (hdrlen b) + unat (bufptr b) + unat (buflen b)"
  using assms by (subst packetbuf_totlen_def, subst unat_add_small_u16)
    (simp_all add: pb_simps packetbuf_datalen_def pb_inv_def PACKETBUF_SIZE_def)

lemma shift_right_spec:
  assumes "n + s \<le> length buf"
  shows "\<exists>buf'. shift_right buf n (int s) = Some buf' \<and> length buf' = length buf
    \<and> take n (drop s buf') = take n buf"
  using assms
proof (induction n arbitrary: buf)
  case (Suc n)
  let ?b = "buf[n + s := buf ! n]"
  have "n + s \<le> length ?b"
    using Suc.prems by simp
  from Suc.IH [OF this] obtain buf' where
    b: "shift_right ?b n (int s) = Some buf'" "length buf' = length buf" "take n (drop s buf') = take n ?b"
    by auto
  have keep: "shift_right c m (int s) = Some c' \<Longrightarrow> m + s \<le> j \<Longrightarrow> c' ! j = c ! j" for c c' m j
    by (induction m arbitrary: c c') (auto simp: bind_eq_Some wr_Some_iff nat_int_add [symmetric])
  have "buf' ! (n + s) = buf ! n"
    using keep [OF b(1), of "n + s"] Suc.prems by simp
  moreover have "take n ?b = take n buf"
    by simp
  ultimately have "take (Suc n) (drop s buf') = take (Suc n) buf"
    using Suc.prems b by (simp add: take_Suc_conv_app_nth add.commute)
  moreover have "nat (int n + int s) = n + s"
    by simp
  ultimately show ?case
    using b Suc.prems by (simp add: rd_in wr_in)
qed simp


lemma pb_data_inv:
  "pb_inv b \<Longrightarrow> pb_data b = take (unat (buflen b)) (drop (unat (hdrlen b) + unat (bufptr b)) (pb_bytes b))"
  by (simp add: pb_data_def packetbuf_dataptr_def pb_hdrlen)

lemma pb_lengths:
  assumes "pb_inv b"
  shows "length (pb_data b) = unat (buflen b)" "length (pb_hdr b) = unat (hdrlen b)"
    "unat (hdrlen b) + unat (bufptr b) + unat (buflen b) \<le> 96"
  using assms by (auto simp: pb_data_inv pb_hdr_def pb_inv_def PACKETBUF_SIZE_def)

lemma packetbuf_clear_inv: "pb_inv b \<Longrightarrow> pb_inv (packetbuf_clear b)"
  by (simp add: pb_inv_def packetbuf_clear_def packetbuf_attr_clear_def)

lemma packetbuf_copyfrom_spec:
  assumes "pb_inv b" "unat len \<le> length src"
  shows "\<exists>b'. packetbuf_copyfrom b src len = Some (min 96 (unat len), b') \<and> pb_inv b'
    \<and> pb_hdr b' = [] \<and> pb_data b' = take (min 96 (unat len)) src"
proof -
  have len: "length (pb_bytes (packetbuf_clear b)) = 96"
    by (intro pb_inv_length packetbuf_clear_inv assms)
  have l: "unat (of_nat (min 96 (unat len)) :: u16) = min 96 (unat len)"
    by (simp add: unsigned_of_nat take_bit_nat_eq_self)
  show ?thesis
    using assms packetbuf_clear_inv [OF assms(1)] len
    by (simp add: packetbuf_copyfrom_def Let_def PACKETBUF_SIZE_def rd_n_in wr_n_in pb_inv_def l min_def
        packetbuf_clear_def packetbuf_attr_clear_def pb_hdr_def pb_data_def packetbuf_dataptr_def packetbuf_hdrlen_def)
qed

lemma packetbuf_hdralloc_fits:
  assumes inv: "pb_inv b" and room: "s + unat (packetbuf_totlen b) \<le> 96"
  shows "\<exists>b'. packetbuf_hdralloc b (int s) = Some (1, b') \<and> pb_inv b' \<and> pb_data b' = pb_data b
    \<and> length (pb_hdr b') = s + length (pb_hdr b) \<and> drop s (pb_hdr b') = pb_hdr b
    \<and> unat (packetbuf_totlen b') = s + unat (packetbuf_totlen b)"
proof -
  have s: "unat (of_nat s :: u16) = s" "unat (of_nat s :: u8) = s"
    using room by (simp_all add: unsigned_of_nat take_bit_nat_eq_self)
  have tot: "unat (packetbuf_totlen b) = unat (hdrlen b) + unat (bufptr b) + unat (buflen b)"
    by (rule pb_totlen [OF inv])
  have cmp: "unat (of_int (int s) + packetbuf_totlen b) = s + unat (packetbuf_totlen b)"
    using room s by (subst unat_add_small_u16) simp_all
  obtain buf' where buf': "shift_right (pb_bytes b) (unat (packetbuf_totlen b)) (int s) = Some buf'"
    "length buf' = 96" "take (unat (packetbuf_totlen b)) (drop s buf') = take (unat (packetbuf_totlen b)) (pb_bytes b)"
    using shift_right_spec [of "unat (packetbuf_totlen b)" s "pb_bytes b"] room pb_inv_length [OF inv] by auto
  define b' where "b' = b\<lparr>pb_bytes := buf', hdrlen := hdrlen b + of_nat s\<rparr>"
  have h: "unat (hdrlen b + of_nat s) = unat (hdrlen b) + s"
    using room tot s by (subst unat_add_lem [THEN iffD1]) simp_all
  have inv': "pb_inv b'"
    using inv buf' room tot h by (simp add: pb_inv_def b'_def PACKETBUF_SIZE_def)
  have at: "take n (drop (k + s) buf') = take n (drop k (pb_bytes b))" if "k + n \<le> unat (packetbuf_totlen b)" for k n
  proof -
    have "take n (drop k (take (unat (packetbuf_totlen b)) (drop s buf')))
        = take n (drop k (take (unat (packetbuf_totlen b)) (pb_bytes b)))"
      by (simp only: buf'(3))
    with that show ?thesis
      by (simp add: drop_take min_def add.commute split: if_splits)
  qed
  have "pb_data b' = pb_data b"
    using at [of "unat (hdrlen b) + unat (bufptr b)" "unat (buflen b)"] tot
    unfolding pb_data_inv [OF inv] pb_data_inv [OF inv'] by (simp add: h b'_def) (simp add: ac_simps)
  moreover have "drop s (pb_hdr b') = pb_hdr b"
    using at [of 0 "unat (hdrlen b)"] tot by (simp add: pb_hdr_def b'_def h drop_take)
  moreover have "length (pb_hdr b') = s + length (pb_hdr b)"
    using pb_lengths(2) [OF inv] pb_lengths(2) [OF inv'] h by (simp add: b'_def)
  moreover have "packetbuf_hdralloc b (int s) = Some (1, b')"
    using cmp room buf'(1) by (simp add: packetbuf_hdralloc_def PACKETBUF_SIZE_def b'_def)
  moreover have "unat (packetbuf_totlen b') = s + unat (packetbuf_totlen b)"
    using tot pb_totlen [OF inv'] h by (simp add: b'_def)
  ultimately show ?thesis
    using inv' by blast
qed

lemma packetbuf_hdralloc_refused:
  assumes "pb_inv b" "96 < s + unat (packetbuf_totlen b)" "s < 32768"
  shows "packetbuf_hdralloc b (int s) = Some (0, b)"
proof -
  have "unat (of_nat s :: u16) = s"
    using assms(3) by (simp add: unsigned_of_nat take_bit_nat_eq_self)
  then have "unat (of_int (int s) + packetbuf_totlen b) = s + unat (packetbuf_totlen b)"
    using assms pb_totlen [OF assms(1)] by (subst unat_add_small_u16) (simp_all add: pb_inv_def PACKETBUF_SIZE_def)
  with assms(2) show ?thesis
    by (simp add: packetbuf_hdralloc_def PACKETBUF_SIZE_def)
qed

lemma packetbuf_hdrreduce_spec:
  assumes inv: "pb_inv b" and n: "n < 32768"
  shows "(if n \<le> length (pb_data b)
     then \<exists>b'. packetbuf_hdrreduce b (int n) = (1, b') \<and> pb_inv b' \<and> pb_hdr b' = pb_hdr b \<and> pb_data b' = drop n (pb_data b)
     else packetbuf_hdrreduce b (int n) = (0, b))"
proof -
  have len: "length (pb_data b) = unat (buflen b)"
    by (rule pb_lengths(1) [OF inv])
  have n16: "unat (of_nat n :: u16) = n"
    using n by (simp add: unsigned_of_nat take_bit_nat_eq_self)
  then have cmp: "buflen b < of_nat n \<longleftrightarrow> unat (buflen b) < n"
    by (simp add: word_less_nat_alt)
  show ?thesis
  proof (cases "n \<le> unat (buflen b)")
    case True
    define b' where "b' = b\<lparr>bufptr := bufptr b + of_nat n, buflen := buflen b - of_nat n\<rparr>"
    have p: "unat (bufptr b + of_nat n) = unat (bufptr b) + n"
      using inv True n16 by (subst unat_add_small_u16) (simp_all add: pb_inv_def PACKETBUF_SIZE_def)
    have l: "unat (buflen b - of_nat n) = unat (buflen b) - n"
      using True n16 by (simp add: unat_sub word_le_nat_alt)
    have inv': "pb_inv b'"
      using inv True p l by (simp add: pb_inv_def b'_def)
    moreover have "pb_data b' = drop n (pb_data b)"
      unfolding pb_data_inv [OF inv] pb_data_inv [OF inv'] by (simp add: b'_def p l drop_take) (simp add: ac_simps)
    ultimately show ?thesis
      using True len cmp by (auto simp: packetbuf_hdrreduce_def b'_def pb_hdr_def)
  qed (use len cmp in \<open>simp add: packetbuf_hdrreduce_def\<close>)
qed

lemma packetbuf_copyto_spec:
  assumes inv: "pb_inv b" and dst: "96 \<le> length dst"
  shows "packetbuf_copyto b dst = Some (length (pb_hdr b @ pb_data b),
    pb_hdr b @ pb_data b @ drop (length (pb_hdr b @ pb_data b)) dst)"
proof -
  note len = pb_lengths [OF inv]
  then have sum: "unat (ucast (hdrlen b) + buflen b) = unat (hdrlen b) + unat (buflen b)"
    by (subst unat_add_small_u16) simp_all
  have "rd_n (pb_bytes b) 0 (unat (hdrlen b)) = Some (pb_hdr b)"
    using len pb_inv_length [OF inv] by (simp add: rd_n_in pb_hdr_def)
  moreover have "rd_n (pb_bytes b) (packetbuf_dataptr b) (unat (buflen b)) = Some (pb_data b)"
    using len pb_inv_length [OF inv] by (simp add: rd_n_in pb_data_def packetbuf_dataptr_def pb_hdrlen [OF inv])
  ultimately show ?thesis
    using len dst sum by (simp add: packetbuf_copyto_def PACKETBUF_SIZE_def packetbuf_hdrptr_def wr_n_in add.commute)
qed

section \<open>Building a frame\<close>

text \<open>The way the layers use the buffer: allocate room for a header and write it at \<^verbatim>\<open>packetbuf_hdrptr()\<close>.\<close>

definition pb_prepend :: "pbuf \<Rightarrow> u8 list \<Rightarrow> (nat \<times> pbuf) option" where
  "pb_prepend b h = do {
     (r, b) \<leftarrow> packetbuf_hdralloc b (int (length h));
     if r = 0 then Some (0, b)
     else do { bytes \<leftarrow> wr_n (pb_bytes b) (packetbuf_hdrptr b) h; Some (1, b\<lparr>pb_bytes := bytes\<rparr>) }
   }"

fun pb_prepend_all :: "pbuf \<Rightarrow> u8 list list \<Rightarrow> (nat list \<times> pbuf) option" where
  "pb_prepend_all b [] = Some ([], b)"
| "pb_prepend_all b (h # hs) = do { (r, b) \<leftarrow> pb_prepend b h; (rs, b) \<leftarrow> pb_prepend_all b hs; Some (r # rs, b) }"

text \<open>The abstract frame: a header that does not fit is refused.\<close>

fun frame_all :: "u8 list \<Rightarrow> u8 list list \<Rightarrow> nat list \<times> u8 list" where
  "frame_all f [] = ([], f)"
| "frame_all f (h # hs) =
    (if length h + length f \<le> 96 then (let (rs, f) = frame_all (h @ f) hs in (1 # rs, f))
     else (let (rs, f) = frame_all f hs in (0 # rs, f)))"

lemma pb_write_hdr:
  assumes "pb_inv b" "length h \<le> length (pb_hdr b)"
  shows "\<exists>bytes. wr_n (pb_bytes b) (packetbuf_hdrptr b) h = Some bytes \<and> pb_inv (b\<lparr>pb_bytes := bytes\<rparr>)
    \<and> pb_data (b\<lparr>pb_bytes := bytes\<rparr>) = pb_data b \<and> pb_hdr (b\<lparr>pb_bytes := bytes\<rparr>) = h @ drop (length h) (pb_hdr b)"
proof -
  define b' where "b' = b\<lparr>pb_bytes := h @ drop (length h) (pb_bytes b)\<rparr>"
  have h: "length h \<le> unat (hdrlen b)" "unat (hdrlen b) \<le> 96"
    using assms by (auto simp: pb_hdr_def pb_inv_def PACKETBUF_SIZE_def)
  then have inv': "pb_inv b'"
    using assms by (simp add: pb_inv_def b'_def PACKETBUF_SIZE_def)
  moreover have "pb_data b' = pb_data b"
    unfolding pb_data_inv [OF assms(1)] pb_data_inv [OF inv'] using h by (simp add: b'_def)
  moreover have "pb_hdr b' = h @ drop (length h) (pb_hdr b)"
    using h by (simp add: pb_hdr_def b'_def drop_take)
  moreover have "wr_n (pb_bytes b) (packetbuf_hdrptr b) h = Some (pb_bytes b')"
    using h pb_inv_length [OF assms(1)] by (simp add: wr_n_in packetbuf_hdrptr_def b'_def)
  ultimately show ?thesis
    by (auto simp: b'_def)
qed


definition pb_frame :: "pbuf \<Rightarrow> u8 list" where
  "pb_frame b = pb_hdr b @ pb_data b"

lemma pb_prepend_spec:
  assumes inv: "pb_inv b" and fresh: "bufptr b = 0" and h: "length h < 32768"
  shows "\<exists>b'. pb_prepend b h = Some (of_bool (length h + length (pb_frame b) \<le> 96), b') \<and> pb_inv b' \<and> bufptr b' = 0
    \<and> pb_frame b' = (if length h + length (pb_frame b) \<le> 96 then h @ pb_frame b else pb_frame b)"
proof -
  have tot: "unat (packetbuf_totlen b) = length (pb_frame b)"
    using pb_totlen [OF inv] pb_lengths [OF inv] fresh by (simp add: pb_frame_def)
  show ?thesis
  proof (cases "length h + length (pb_frame b) \<le> 96")
    case True
    from packetbuf_hdralloc_fits [OF inv, of "length h"] True tot obtain b1 where
      b1: "packetbuf_hdralloc b (int (length h)) = Some (1, b1)" "pb_inv b1" "pb_data b1 = pb_data b"
        "length (pb_hdr b1) = length h + length (pb_hdr b)" "drop (length h) (pb_hdr b1) = pb_hdr b"
      by auto
    have "bufptr b1 = 0"
      using b1(1) fresh by (auto simp: packetbuf_hdralloc_def bind_eq_Some split: if_splits)
    with b1 pb_write_hdr [OF b1(2), of h] True show ?thesis
      by (auto simp: pb_prepend_def pb_frame_def)
  next
    case False
    with packetbuf_hdralloc_refused [OF inv, of "length h"] h tot inv fresh show ?thesis
      by (simp add: pb_prepend_def)
  qed
qed

lemma pb_prepend_all_spec:
  assumes "pb_inv b" "bufptr b = 0" "\<forall>h \<in> set hs. length h < 32768"
  shows "\<exists>b'. pb_prepend_all b hs = Some (fst (frame_all (pb_frame b) hs), b') \<and> pb_inv b'
    \<and> pb_frame b' = snd (frame_all (pb_frame b) hs)"
  using assms
proof (induction hs arbitrary: b)
  case (Cons h hs)
  from pb_prepend_spec [OF Cons.prems(1,2), of h] Cons.prems(3) obtain b1 where
    b1: "pb_prepend b h = Some (of_bool (length h + length (pb_frame b) \<le> 96), b1)" "pb_inv b1" "bufptr b1 = 0"
      "pb_frame b1 = (if length h + length (pb_frame b) \<le> 96 then h @ pb_frame b else pb_frame b)"
    by auto
  with Cons.IH [OF b1(2,3)] Cons.prems(3) show ?case
    by (auto simp: Let_def split_beta split: if_splits)
qed simp

text \<open>
  C32. Building a frame.  After a payload of at most 96 bytes is copied in, each header in turn is either
  refused, exactly when the frame would exceed the buffer, or ends up in front of what is there; the
  payload and the headers already written are never damaged, no byte outside of the buffer is touched,
  and \<^verbatim>\<open>packetbuf_copyto\<close> hands out exactly the frame that was built.
\<close>

theorem packetbuf_builds_frame:
  assumes "pb_inv b" "length p \<le> 96" "\<forall>h \<in> set hs. length h < 32768" "96 \<le> length dst"
  shows "\<exists>b1 b2. packetbuf_copyfrom b p (of_nat (length p)) = Some (length p, b1)
    \<and> pb_prepend_all b1 hs = Some (fst (frame_all p hs), b2) \<and> pb_inv b2
    \<and> packetbuf_copyto b2 dst = Some (length (snd (frame_all p hs)),
        snd (frame_all p hs) @ drop (length (snd (frame_all p hs))) dst)"
proof -
  have l: "unat (of_nat (length p) :: u16) = length p"
    using assms(2) by (simp add: unsigned_of_nat take_bit_nat_eq_self)
  from packetbuf_copyfrom_spec [OF assms(1), of "of_nat (length p)" p] assms(2) l obtain b1 where
    b1: "packetbuf_copyfrom b p (of_nat (length p)) = Some (length p, b1)" "pb_inv b1" "pb_frame b1 = p"
    by (auto simp: pb_frame_def min_def)
  have "bufptr b1 = 0"
    using b1(1) by (auto simp: packetbuf_copyfrom_def bind_eq_Some Let_def packetbuf_clear_def packetbuf_attr_clear_def)
  from pb_prepend_all_spec [OF b1(2) this assms(3)] obtain b2 where
    "pb_prepend_all b1 hs = Some (fst (frame_all p hs), b2)" "pb_inv b2" "pb_frame b2 = snd (frame_all p hs)"
    by (auto simp: b1(3))
  with b1(1) packetbuf_copyto_spec [of b2, OF _ assms(4)] show ?thesis
    by (metis append_assoc pb_frame_def)
qed

definition pb_initial :: pbuf where
  "pb_initial = \<lparr>pb_bytes = replicate PACKETBUF_SIZE 0, buflen = 0, bufptr = 0, hdrlen = 0,
     pb_attrs = (\<lambda>_. 0), pb_addrs = (\<lambda>_. linkaddr_null)\<rparr>"

lemma pb_inv_initial: "pb_inv pb_initial"
  by (simp add: pb_inv_def pb_initial_def)

theorem packetbuf_builds_frame_witness:
  "\<exists>b1 b2. packetbuf_copyfrom pb_initial [1, 2, 3] 3 = Some (3, b1)
    \<and> pb_prepend_all b1 [[7, 8], replicate 95 0, [9]] = Some ([1, 0, 1], b2)
    \<and> packetbuf_copyto b2 (replicate 96 0) = Some (6, [9, 7, 8, 1, 2, 3] @ replicate 90 0)"
  using packetbuf_builds_frame [OF pb_inv_initial, of "[1, 2, 3]" "[[7, 8], replicate 95 0, [9]]" "replicate 96 0"]
  by auto

text \<open>
  Taking a frame apart.  After a received frame is copied in, \<^verbatim>\<open>packetbuf_hdrreduce\<close> strips exactly the given
  number of bytes when the packet has that many, and refuses, changing nothing, when it has not.
\<close>

theorem packetbuf_strips_header:
  assumes "pb_inv b" "length f \<le> 96" "n < 32768"
  shows "\<exists>b1 b2. packetbuf_copyfrom b f (of_nat (length f)) = Some (length f, b1)
    \<and> packetbuf_hdrreduce b1 (int n) = (of_bool (n \<le> length f), b2) \<and> pb_inv b2
    \<and> unat (packetbuf_datalen b2) = (if n \<le> length f then length f - n else length f)
    \<and> rd_n (pb_bytes b2) (packetbuf_dataptr b2) (unat (packetbuf_datalen b2))
        = Some (if n \<le> length f then drop n f else f)"
proof -
  have l: "unat (of_nat (length f) :: u16) = length f"
    using assms(2) by (simp add: unsigned_of_nat take_bit_nat_eq_self)
  from packetbuf_copyfrom_spec [OF assms(1), of "of_nat (length f)" f] assms(2) l obtain b1 where
    b1: "packetbuf_copyfrom b f (of_nat (length f)) = Some (length f, b1)" "pb_inv b1" "pb_data b1 = f"
    by (auto simp: min_def)
  obtain b2 where b2: "packetbuf_hdrreduce b1 (int n) = (of_bool (n \<le> length f), b2)" "pb_inv b2"
    "pb_data b2 = (if n \<le> length f then drop n f else f)"
    using packetbuf_hdrreduce_spec [OF b1(2) assms(3)] b1 by (auto split: if_splits)
  have "rd_n (pb_bytes b2) (packetbuf_dataptr b2) (unat (packetbuf_datalen b2)) = Some (pb_data b2)"
    using pb_inv_length [OF b2(2)] pb_lengths(3) [OF b2(2)]
    by (simp add: rd_n_in pb_data_def packetbuf_datalen_def packetbuf_dataptr_def pb_hdrlen [OF b2(2)])
  moreover have "unat (packetbuf_datalen b2) = length (pb_data b2)"
    using pb_lengths [OF b2(2)] by (simp add: packetbuf_datalen_def)
  ultimately show ?thesis
    using b1 b2 by auto
qed

theorem packetbuf_strips_header_witness:
  "\<exists>b1 b2. packetbuf_copyfrom pb_initial [9, 8, 1, 2] 4 = Some (4, b1) \<and> packetbuf_hdrreduce b1 2 = (1, b2)
    \<and> rd_n (pb_bytes b2) (packetbuf_dataptr b2) 2 = Some [1, 2]"
  using packetbuf_strips_header [OF pb_inv_initial, of "[9, 8, 1, 2]" 2] by (auto simp: numeral_2_eq_2)

end
