(* ===== verification/Queuebuf.thy ===== *)
theory Queuebuf
  imports Packetbuf Memb
begin

text \<open>
  \<^verbatim>\<open>os/net/queuebuf.c\<close>, without swapping (\<^verbatim>\<open>WITH_SWAP\<close> 0, the configuration of the repository's
  targets): a copy of the packet buffer, with its attributes and addresses, for every packet that waits in
  a queue.  A queuebuf is an element of the pool \<open>bufmem\<close> that points to its data in the pool
  \<open>buframmem\<close>.  \<open>qb_inv\<close> says that distinct queuebufs own distinct data.
\<close>

record queuebuf_data =
  qdata :: "u8 list"
  qlen :: u16
  qattrs :: "pb_attr \<Rightarrow> u16"
  qaddrs :: "pb_addr \<Rightarrow> linkaddr"

record queuebufs =
  bufmem :: memb
  buframmem :: memb
  ram_ptr :: "ptr list"
  ram :: "queuebuf_data list"

definition queuebuf_load_to_ram :: "queuebufs \<Rightarrow> nat \<Rightarrow> nat option" where
  "queuebuf_load_to_ram q b = rd (ram_ptr q) b \<bind> id"

definition queuebuf_init :: "queuebufs \<Rightarrow> queuebufs" where
  "queuebuf_init q = q\<lparr>buframmem := memb_init (buframmem q), bufmem := memb_init (bufmem q)\<rparr>"

definition queuebuf_numfree :: "queuebufs \<Rightarrow> nat option" where
  "queuebuf_numfree q = memb_numfree (bufmem q)"

text \<open>The two copies every queuebuf operation makes of the packet buffer.\<close>

definition copy_attrs :: "pbuf \<Rightarrow> queuebuf_data \<Rightarrow> queuebuf_data" where
  "copy_attrs b d = d\<lparr>qattrs := fst (packetbuf_attr_copyto b), qaddrs := snd (packetbuf_attr_copyto b)\<rparr>"

definition copy_data :: "pbuf \<Rightarrow> queuebuf_data \<Rightarrow> queuebuf_data option" where
  "copy_data b d = do {
     (l, bytes) \<leftarrow> packetbuf_copyto b (qdata d);
     Some (d\<lparr>qdata := bytes, qlen := of_nat l\<rparr>)
   }"

definition queuebuf_new_from_packetbuf :: "queuebufs \<Rightarrow> pbuf \<Rightarrow> (ptr \<times> queuebufs) option" where
  "queuebuf_new_from_packetbuf q pb = do {
     (buf, bm) \<leftarrow> memb_alloc (bufmem q);
     let q = q\<lparr>bufmem := bm\<rparr>;
     case buf of
       None \<Rightarrow> Some (None, q)
     | Some b \<Rightarrow> do {
         (r, rm) \<leftarrow> memb_alloc (buframmem q);
         ptrs \<leftarrow> wr (ram_ptr q) b r;
         let q = q\<lparr>buframmem := rm, ram_ptr := ptrs\<rparr>;
         case r of
           None \<Rightarrow> do {
             (_, bm) \<leftarrow> memb_free (bufmem q) b;
             Some (None, q\<lparr>bufmem := bm\<rparr>)
           }
         | Some r \<Rightarrow> do {
             d \<leftarrow> rd (ram q) r;
             d \<leftarrow> copy_data pb d;
             Some (Some b, q\<lparr>ram := (ram q)[r := copy_attrs pb d]\<rparr>)
           }
       }
   }"

definition queuebuf_update_attr_from_packetbuf :: "queuebufs \<Rightarrow> pbuf \<Rightarrow> nat \<Rightarrow> queuebufs option" where
  "queuebuf_update_attr_from_packetbuf q pb b = do {
     r \<leftarrow> queuebuf_load_to_ram q b;
     d \<leftarrow> rd (ram q) r;
     Some (q\<lparr>ram := (ram q)[r := copy_attrs pb d]\<rparr>)
   }"

definition queuebuf_update_from_packetbuf :: "queuebufs \<Rightarrow> pbuf \<Rightarrow> nat \<Rightarrow> queuebufs option" where
  "queuebuf_update_from_packetbuf q pb b = do {
     r \<leftarrow> queuebuf_load_to_ram q b;
     d \<leftarrow> rd (ram q) r;
     d \<leftarrow> copy_data pb (copy_attrs pb d);
     Some (q\<lparr>ram := (ram q)[r := d]\<rparr>)
   }"

text \<open>Freeing the data of a queuebuf whose \<^verbatim>\<open>ram_ptr\<close> is \<^verbatim>\<open>NULL\<close> frees no block.\<close>

definition queuebuf_free :: "queuebufs \<Rightarrow> ptr \<Rightarrow> queuebufs option" where
  "queuebuf_free q buf = (case buf of
     None \<Rightarrow> Some q
   | Some b \<Rightarrow>
       if memb_inmemb (bufmem q) b then do {
         r \<leftarrow> rd (ram_ptr q) b;
         rm \<leftarrow> (case r of None \<Rightarrow> Some (buframmem q) | Some r \<Rightarrow> map_option snd (memb_free (buframmem q) r));
         (_, bm) \<leftarrow> memb_free (bufmem q) b;
         Some (q\<lparr>buframmem := rm, bufmem := bm\<rparr>)
       } else Some q)"

definition queuebuf_to_packetbuf :: "queuebufs \<Rightarrow> nat \<Rightarrow> pbuf \<Rightarrow> pbuf option" where
  "queuebuf_to_packetbuf q b pb =
     (if memb_inmemb (bufmem q) b then do {
        r \<leftarrow> queuebuf_load_to_ram q b;
        d \<leftarrow> rd (ram q) r;
        (_, pb) \<leftarrow> packetbuf_copyfrom pb (qdata d) (qlen d);
        Some (packetbuf_attr_copyfrom pb (qattrs d) (qaddrs d))
      } else Some pb)"

definition queuebuf_dataptr :: "queuebufs \<Rightarrow> nat \<Rightarrow> ptr option" where
  "queuebuf_dataptr q b =
     (if memb_inmemb (bufmem q) b then map_option Some (queuebuf_load_to_ram q b) else Some None)"

definition queuebuf_datalen :: "queuebufs \<Rightarrow> nat \<Rightarrow> u16 option" where
  "queuebuf_datalen q b = do { r \<leftarrow> queuebuf_load_to_ram q b; d \<leftarrow> rd (ram q) r; Some (qlen d) }"

definition queuebuf_addr :: "queuebufs \<Rightarrow> nat \<Rightarrow> pb_addr \<Rightarrow> linkaddr option" where
  "queuebuf_addr q b ty = do { r \<leftarrow> queuebuf_load_to_ram q b; d \<leftarrow> rd (ram q) r; Some (qaddrs d ty) }"

definition queuebuf_attr :: "queuebufs \<Rightarrow> nat \<Rightarrow> pb_attr \<Rightarrow> u16 option" where
  "queuebuf_attr q b ty = do { r \<leftarrow> queuebuf_load_to_ram q b; d \<leftarrow> rd (ram q) r; Some (qattrs d ty) }"

section \<open>Invariant\<close>

definition qb_live :: "queuebufs \<Rightarrow> nat set" where
  "qb_live q = used (bufmem q)"

definition qb_data :: "queuebufs \<Rightarrow> nat \<Rightarrow> queuebuf_data" where
  "qb_data q b = ram q ! the (ram_ptr q ! b)"

definition data_ok :: "queuebuf_data \<Rightarrow> bool" where
  "data_ok d \<longleftrightarrow> length (qdata d) = PACKETBUF_SIZE \<and> unat (qlen d) \<le> PACKETBUF_SIZE \<and> (\<forall>i. linkaddr_ok (qaddrs d i))"

definition qb_inv :: "nat \<Rightarrow> queuebufs \<Rightarrow> bool" where
  "qb_inv n q \<longleftrightarrow> elem_ok n (bufmem q) \<and> elem_ok n (buframmem q) \<and> length (ram_ptr q) = n \<and> length (ram q) = n
     \<and> (\<forall>d \<in> set (ram q). data_ok d)
     \<and> (\<forall>b \<in> qb_live q. \<exists>r. ram_ptr q ! b = Some r)
     \<and> bij_betw (\<lambda>b. the (ram_ptr q ! b)) (qb_live q) (used (buframmem q))"

lemma qb_live_less: "qb_inv n q \<Longrightarrow> b \<in> qb_live q \<Longrightarrow> b < n"
  by (auto simp: qb_inv_def qb_live_def dest: elem_used)

lemma qb_load:
  assumes "qb_inv n q" "b \<in> qb_live q"
  obtains r where "queuebuf_load_to_ram q b = Some r" "r < n" "rd (ram q) r = Some (qb_data q b)"
    "data_ok (qb_data q b)" "ram_ptr q ! b = Some r" "r \<in> used (buframmem q)"
proof -
  have b: "b < n"
    by (rule qb_live_less [OF assms])
  obtain r where r: "ram_ptr q ! b = Some r"
    using assms by (auto simp: qb_inv_def)
  have "r \<in> used (buframmem q)"
    using assms r bij_betwE [of "\<lambda>b. the (ram_ptr q ! b)" "qb_live q" "used (buframmem q)"]
    by (auto simp: qb_inv_def)
  moreover from this have "r < n"
    using assms by (auto simp: qb_inv_def dest: elem_used)
  ultimately show thesis
    using assms b r by (intro that [of r]) (auto simp: qb_inv_def queuebuf_load_to_ram_def rd_in qb_data_def)
qed

lemma qb_ram_inject:
  assumes "qb_inv n q" "b \<in> qb_live q" "c \<in> qb_live q" "ram_ptr q ! b = ram_ptr q ! c"
  shows "b = c"
  using assms inj_onD [of "\<lambda>b. the (ram_ptr q ! b)" "qb_live q" b c] by (simp add: qb_inv_def bij_betw_def)

lemma qb_init_inv:
  assumes "elem_ok n (bufmem q)" "elem_ok n (buframmem q)" "length (ram_ptr q) = n" "length (ram q) = n"
    "\<forall>d \<in> set (ram q). data_ok d"
  shows "qb_inv n (queuebuf_init q) \<and> qb_live (queuebuf_init q) = {}"
  using assms elem_init [of n "bufmem q"] elem_init [of n "buframmem q"]
  by (simp add: qb_inv_def queuebuf_init_def qb_live_def bij_betw_def)


section \<open>What the operations do\<close>

definition holds_packet :: "queuebuf_data \<Rightarrow> pbuf \<Rightarrow> bool" where
  "holds_packet d pb \<longleftrightarrow> unat (qlen d) = length (pb_frame pb) \<and> take (unat (qlen d)) (qdata d) = pb_frame pb
     \<and> qattrs d = pb_attrs pb \<and> qaddrs d = pb_addrs pb"

lemma copy_data_spec:
  assumes "pb_inv pb" "data_ok d"
  obtains d' where "copy_data pb d = Some d'" "data_ok (copy_attrs pb d')" "holds_packet (copy_attrs pb d') pb"
proof -
  have l: "length (pb_frame pb) \<le> 96"
    using pb_lengths [OF assms(1)] by (simp add: pb_frame_def)
  then have n: "unat (of_nat (length (pb_frame pb)) :: u16) = length (pb_frame pb)"
    by (simp add: unsigned_of_nat take_bit_nat_eq_self)
  have "packetbuf_copyto pb (qdata d) =
      Some (length (pb_frame pb), pb_frame pb @ drop (length (pb_frame pb)) (qdata d))"
    using packetbuf_copyto_spec [OF assms(1), of "qdata d"] assms(2)
    by (simp add: data_ok_def PACKETBUF_SIZE_def pb_frame_def)
  then show thesis
    using assms l n
    by (intro that [of "d\<lparr>qdata := pb_frame pb @ drop (length (pb_frame pb)) (qdata d),
          qlen := of_nat (length (pb_frame pb))\<rparr>"])
      (simp_all add: copy_data_def copy_attrs_def data_ok_def holds_packet_def packetbuf_attr_copyto_def pb_inv_def
        PACKETBUF_SIZE_def)
qed

lemma queuebuf_new_spec:
  assumes inv: "qb_inv n q" and pb: "pb_inv pb"
  obtains (full) "queuebuf_new_from_packetbuf q pb = Some (None, q)" "card (qb_live q) = n"
  | (new) b q' where "queuebuf_new_from_packetbuf q pb = Some (Some b, q')" "qb_inv n q'" "b \<notin> qb_live q"
      "qb_live q' = insert b (qb_live q)" "holds_packet (qb_data q' b) pb"
      "\<forall>c \<in> qb_live q. qb_data q' c = qb_data q c" "card (qb_live q) < n"
proof -
  have bm: "elem_ok n (bufmem q)" and rm: "elem_ok n (buframmem q)"
    using inv by (auto simp: qb_inv_def)
  have same: "card (used (buframmem q)) = card (qb_live q)"
    using inv by (metis qb_inv_def bij_betw_same_card)
  show thesis
  proof (cases rule: elem_alloc [OF bm])
    case 1
    with full show thesis
      by (simp add: queuebuf_new_from_packetbuf_def qb_live_def)
  next
    case b: (2 b bm')
    have room: "card (qb_live q) < n"
      using elem_used_finite [OF b(2)] elem_used_finite [OF bm] b(4,5) by (simp add: qb_live_def)
    show thesis
    proof (cases rule: elem_alloc [OF rm])
      case 1
      with room same show thesis
        by simp
    next
      case r: (2 r rm')
      have len: "length (ram_ptr q) = n" "length (ram q) = n"
        using inv by (auto simp: qb_inv_def)
      have dok: "data_ok (ram q ! r)"
        using inv r(3) by (simp add: qb_inv_def)
      obtain d where d: "copy_data pb (ram q ! r) = Some d" "data_ok (copy_attrs pb d)" "holds_packet (copy_attrs pb d) pb"
        by (rule copy_data_spec [OF pb dok])
      define q' where "q' = q\<lparr>bufmem := bm', buframmem := rm', ram_ptr := (ram_ptr q)[b := Some r],
        ram := (ram q)[r := copy_attrs pb d]\<rparr>"
      have b_new: "b \<notin> qb_live q" and live: "qb_live q' = insert b (qb_live q)"
        using b by (simp_all add: qb_live_def q'_def)
      have ptr: "ram_ptr q' ! c = (if c = b then Some r else ram_ptr q ! c)" if "c < n" for c
        using that len b(3) by (simp add: q'_def nth_list_update)
      have old: "the (ram_ptr q' ! c) = the (ram_ptr q ! c)" if "c \<in> qb_live q" for c
        using ptr [OF qb_live_less [OF inv that]] that b_new by auto
      have "bij_betw (\<lambda>c. the (ram_ptr q' ! c)) (qb_live q') (used (buframmem q'))"
      proof -
        have "bij_betw (\<lambda>c. the (ram_ptr q' ! c)) (qb_live q) (used (buframmem q))"
          using inv old by (simp add: qb_inv_def cong: bij_betw_cong)
        then show ?thesis
          unfolding live using notIn_Un_bij_betw [of b "qb_live q" "\<lambda>c. the (ram_ptr q' ! c)" "used (buframmem q)"]
            b_new r ptr [OF b(3)] by (simp add: q'_def)
      qed
      moreover have "\<exists>s. ram_ptr q' ! c = Some s" if "c \<in> qb_live q'" for c
        using that live ptr [OF b(3)] ptr [OF qb_live_less [OF inv, of c]] inv b_new by (auto simp: qb_inv_def)
      moreover have "\<forall>x \<in> set (ram q'). data_ok x"
        using inv d(2) by (auto simp: qb_inv_def q'_def dest!: subsetD [OF set_update_subset_insert])
      ultimately have "qb_inv n q'"
        using b r len by (simp add: qb_inv_def q'_def)
      moreover have "qb_data q' c = qb_data q c" if "c \<in> qb_live q" for c
      proof -
        have "the (ram_ptr q ! c) \<noteq> r"
          using inv that r(4) by (auto simp: qb_inv_def dest: bij_betwE)
        then show ?thesis
          using old [OF that] by (simp add: qb_data_def q'_def)
      qed
      moreover have "holds_packet (qb_data q' b) pb"
        using d(3) ptr [OF b(3)] len r(3) by (simp add: qb_data_def) (simp add: q'_def)
      moreover have "queuebuf_new_from_packetbuf q pb = Some (Some b, q')"
        using b r len d by (simp add: queuebuf_new_from_packetbuf_def wr_in rd_in q'_def)
      ultimately show thesis
        using new b_new live room by blast
    qed
  qed
qed

lemma queuebuf_free_spec:
  assumes inv: "qb_inv n q" and b: "b \<in> qb_live q"
  obtains q' where "queuebuf_free q (Some b) = Some q'" "qb_inv n q'" "qb_live q' = qb_live q - {b}"
    "\<forall>c. qb_data q' c = qb_data q c"
proof -
  have bm: "elem_ok n (bufmem q)" and rm: "elem_ok n (buframmem q)" and len: "length (ram_ptr q) = n"
    using inv by (auto simp: qb_inv_def)
  obtain r where r: "ram_ptr q ! b = Some r" "r < n" "r \<in> used (buframmem q)"
    by (rule qb_load [OF inv b])
  obtain c1 rm' where rm': "memb_free (buframmem q) r = Some (c1, rm')" "elem_ok n rm'" "used rm' = used (buframmem q) - {r}"
    by (rule elem_free [OF rm])
  obtain c2 bm' where bm': "memb_free (bufmem q) b = Some (c2, bm')" "elem_ok n bm'" "used bm' = used (bufmem q) - {b}"
    by (rule elem_free [OF bm])
  define q' where "q' = q\<lparr>buframmem := rm', bufmem := bm'\<rparr>"
  have "queuebuf_free q (Some b) = Some q'"
    using elem_inmemb [OF bm] qb_live_less [OF inv b] r rm' bm' len by (simp add: queuebuf_free_def rd_in q'_def)
  moreover have "bij_betw (\<lambda>c. the (ram_ptr q ! c)) (qb_live q - {b}) (used (buframmem q) - {r})"
    using inv b r by (intro bij_betw_DiffI) (auto simp: qb_inv_def bij_betw_def)
  then have "qb_inv n q'"
    using inv rm' bm' by (auto simp: qb_inv_def q'_def qb_live_def)
  ultimately show thesis
    using that bm' by (simp add: q'_def qb_live_def qb_data_def)
qed


lemma queuebuf_to_packetbuf_spec:
  assumes inv: "qb_inv n q" and b: "b \<in> qb_live q" and holds: "holds_packet (qb_data q b) src" and pb: "pb_inv pb"
  shows "\<exists>pb'. queuebuf_to_packetbuf q b pb = Some pb' \<and> pb_inv pb' \<and> pb_frame pb' = pb_frame src
    \<and> pb_attrs pb' = pb_attrs src \<and> pb_addrs pb' = pb_addrs src"
proof -
  obtain r where r: "queuebuf_load_to_ram q b = Some r" "rd (ram q) r = Some (qb_data q b)" "data_ok (qb_data q b)"
    by (rule qb_load [OF inv b])
  let ?d = "qb_data q b"
  have l: "min 96 (unat (qlen ?d)) = unat (qlen ?d)" "unat (qlen ?d) \<le> length (qdata ?d)"
    using r(3) by (auto simp: data_ok_def PACKETBUF_SIZE_def)
  obtain pb1 where pb1: "packetbuf_copyfrom pb (qdata ?d) (qlen ?d) = Some (unat (qlen ?d), pb1)" "pb_inv pb1"
    "pb_hdr pb1 = []" "pb_data pb1 = take (unat (qlen ?d)) (qdata ?d)"
    using packetbuf_copyfrom_spec [OF pb l(2)] l(1) by auto
  have bm: "elem_ok n (bufmem q)"
    using inv by (simp add: qb_inv_def)
  define pb' where "pb' = packetbuf_attr_copyfrom pb1 (qattrs ?d) (qaddrs ?d)"
  have inv': "pb_inv pb'"
    using pb1(2) r(3) by (simp add: pb'_def packetbuf_attr_copyfrom_def pb_inv_def data_ok_def)
  moreover have "pb_frame pb' = pb_frame src"
  proof -
    have "pb_hdr pb' = []"
      using pb1(3) by (simp add: pb_hdr_def pb'_def packetbuf_attr_copyfrom_def)
    moreover have "pb_data pb' = pb_data pb1"
      unfolding pb_data_inv [OF inv'] pb_data_inv [OF pb1(2)] by (simp add: pb'_def packetbuf_attr_copyfrom_def)
    ultimately show ?thesis
      using pb1(4) holds unfolding pb_frame_def [of pb'] holds_packet_def by auto
  qed
  moreover have "queuebuf_to_packetbuf q b pb = Some pb'"
    using r pb1 elem_inmemb [OF bm] qb_live_less [OF inv b] by (simp add: queuebuf_to_packetbuf_def pb'_def)
  ultimately show ?thesis
    using holds by (auto simp: pb'_def packetbuf_attr_copyfrom_def holds_packet_def)
qed

section \<open>Traffic on other queuebufs\<close>

datatype qb_op = QbNew pbuf | QbFree nat

fun qb_step :: "queuebufs \<Rightarrow> qb_op \<Rightarrow> queuebufs option" where
  "qb_step q (QbNew pb) = map_option snd (queuebuf_new_from_packetbuf q pb)"
| "qb_step q (QbFree c) = queuebuf_free q (Some c)"

text \<open>A client frees only queuebufs that it holds, and not \<open>b\<close>.\<close>

fun qb_allowed :: "nat \<Rightarrow> queuebufs \<Rightarrow> qb_op \<Rightarrow> bool" where
  "qb_allowed b q (QbNew pb) \<longleftrightarrow> pb_inv pb"
| "qb_allowed b q (QbFree c) \<longleftrightarrow> c \<in> qb_live q - {b}"

fun qb_run :: "nat \<Rightarrow> queuebufs \<Rightarrow> qb_op list \<Rightarrow> queuebufs option" where
  "qb_run b q [] = Some q"
| "qb_run b q (x # xs) = (if qb_allowed b q x then qb_step q x \<bind> (\<lambda>q. qb_run b q xs) else Some q)"

lemma qb_step_keeps:
  assumes "qb_inv n q" "b \<in> qb_live q" "qb_allowed b q x"
  shows "\<exists>q'. qb_step q x = Some q' \<and> qb_inv n q' \<and> b \<in> qb_live q' \<and> qb_data q' b = qb_data q b"
proof (cases x)
  case (QbNew pb)
  with assms have "pb_inv pb"
    by simp
  with assms QbNew show ?thesis
    by (cases rule: queuebuf_new_spec [OF assms(1)]) auto
next
  case (QbFree c)
  with assms have "c \<in> qb_live q" "c \<noteq> b"
    by auto
  with assms QbFree queuebuf_free_spec [OF assms(1), of c] show ?thesis
    by simp (metis Diff_iff singletonD)
qed

lemma qb_run_keeps:
  assumes "qb_inv n q" "b \<in> qb_live q"
  shows "\<exists>q'. qb_run b q xs = Some q' \<and> qb_inv n q' \<and> b \<in> qb_live q' \<and> qb_data q' b = qb_data q b"
  using assms
proof (induction xs arbitrary: q)
  case (Cons x xs)
  show ?case
  proof (cases "qb_allowed b q x")
    case True
    with qb_step_keeps [OF Cons.prems] Cons.IH show ?thesis
      by force
  qed (use Cons.prems in simp)
qed simp

text \<open>
  C31. Storing a packet. \<^verbatim>\<open>queuebuf_new_from_packetbuf\<close> fails exactly when all \<open>n\<close> queuebufs are in use and then changes
  nothing; otherwise, whatever other packets are stored and freed in between, \<^verbatim>\<open>queuebuf_to_packetbuf\<close> brings
  back the bytes of the frame, all its attributes and both addresses.
\<close>

theorem queuebuf_keeps_packet:
  assumes "qb_inv n q" "pb_inv pb" "pb_inv pb'"
  shows "queuebuf_new_from_packetbuf q pb = Some (None, q) \<and> card (qb_live q) = n
    \<or> (\<exists>b q1 q2 pb2. queuebuf_new_from_packetbuf q pb = Some (Some b, q1) \<and> b \<notin> qb_live q
        \<and> qb_run b q1 xs = Some q2 \<and> queuebuf_to_packetbuf q2 b pb' = Some pb2
        \<and> pb_frame pb2 = pb_frame pb \<and> pb_attrs pb2 = pb_attrs pb \<and> pb_addrs pb2 = pb_addrs pb)"
proof (cases rule: queuebuf_new_spec [OF assms(1,2)])
  case (2 b q1)
  then obtain q2 where q2: "qb_run b q1 xs = Some q2" "qb_inv n q2" "b \<in> qb_live q2" "qb_data q2 b = qb_data q1 b"
    using qb_run_keeps [of n q1 b xs] by auto
  with 2 queuebuf_to_packetbuf_spec [OF q2(2,3), of pb pb'] assms(3) show ?thesis
    by auto
qed simp

definition qb_initial :: "nat \<Rightarrow> queuebufs" where
  "qb_initial n = \<lparr>bufmem = elem_pool n, buframmem = elem_pool n, ram_ptr = replicate n None,
     ram = replicate n \<lparr>qdata = replicate PACKETBUF_SIZE 0, qlen = 0, qattrs = (\<lambda>_. 0), qaddrs = (\<lambda>_. linkaddr_null)\<rparr>\<rparr>"

lemma qb_initial_inv: "qb_inv n (qb_initial n)" "qb_live (qb_initial n) = {}"
  using elem_ok_pool by (auto simp: qb_inv_def qb_initial_def qb_live_def data_ok_def bij_betw_def)

theorem queuebuf_keeps_packet_witness:
  "\<exists>b q1 q2 pb2. queuebuf_new_from_packetbuf (qb_initial 8) pb_initial = Some (Some b, q1)
     \<and> qb_run b q1 [QbNew pb_initial, QbNew pb_initial] = Some q2 \<and> queuebuf_to_packetbuf q2 b pb_initial = Some pb2
     \<and> pb_frame pb2 = pb_frame pb_initial"
proof -
  let ?xs = "[QbNew pb_initial, QbNew pb_initial]"
  have "card (qb_live (qb_initial 8)) \<noteq> 8"
    by (simp add: qb_initial_inv)
  with queuebuf_keeps_packet [OF qb_initial_inv(1) pb_inv_initial pb_inv_initial, of 8 ?xs] show ?thesis
    by metis
qed

end
