(* ===== verification/Tsch_Asn.thy ===== *)
theory Tsch_Asn
  imports Prelude
begin

text \<open>
  Time in TSCH: the 5-byte absolute slot number and its macros (\<^verbatim>\<open>os/net/mac/tsch/tsch-asn.h\<close>), the
  overflow-safe comparison of 16-bit slot numbers (\<^verbatim>\<open>tsch-private.h\<close>), channel hopping, and
  the timer check of \<^verbatim>\<open>tsch-slot-operation.c\<close>.  The macros are evaluated with the integer promotions of the
  repository's target (\<^verbatim>\<open>int\<close> of 16 bits): a product or sum of 16-bit operands wraps at 16 bits.
  \<open>asn_val\<close> is the number an ASN stands for.
\<close>

section \<open>Absolute slot numbers\<close>

datatype asn = Asn (ms1b: u8) (ls4b: u32)

definition asn_val :: "asn \<Rightarrow> nat" where
  "asn_val a = unat (ms1b a) * 2 ^ 32 + unat (ls4b a)"

lemma unat_u32_less [simp]: "unat (w::u32) < 4294967296"
  using unsigned_less [of w, where 'a=nat] by simp

lemma asn_val_less: "asn_val a < 2 ^ 40"
  using unat_u32_less [of "ls4b a"] unat_u8_less [of "ms1b a"]
  by (simp add: asn_val_def del: unat_u32_less unat_u8_less)

lemma asn_val_inject: "asn_val a = asn_val b \<longleftrightarrow> a = b"
proof
  assume eq: "asn_val a = asn_val b"
  have "asn_val x mod 2 ^ 32 = unat (ls4b x)" "asn_val x div 2 ^ 32 = unat (ms1b x)" for x
    using unat_u32_less [of "ls4b x"] by (simp_all add: asn_val_def)
  then have "ls4b a = ls4b b" "ms1b a = ms1b b"
    using eq by (metis unsigned_word_eqI)+
  then show "a = b"
    by (simp add: asn.expand)
qed simp

instantiation asn :: linorder
begin

definition less_eq_asn :: "asn \<Rightarrow> asn \<Rightarrow> bool" where
  "less_eq_asn a b \<longleftrightarrow> asn_val a \<le> asn_val b"

definition less_asn :: "asn \<Rightarrow> asn \<Rightarrow> bool" where
  "less_asn a b \<longleftrightarrow> asn_val a < asn_val b"

instance
  by standard (auto simp: less_eq_asn_def less_asn_def asn_val_inject)

end

definition TSCH_ASN_INIT :: "u8 \<Rightarrow> u32 \<Rightarrow> asn" where
  "TSCH_ASN_INIT m l = Asn m l"

definition TSCH_ASN_INC :: "asn \<Rightarrow> u32 \<Rightarrow> asn" where
  "TSCH_ASN_INC a inc = (let new_ls4b = ls4b a + inc in
     Asn (if new_ls4b < ls4b a then ms1b a + 1 else ms1b a) new_ls4b)"

definition TSCH_ASN_DEC :: "asn \<Rightarrow> u32 \<Rightarrow> asn" where
  "TSCH_ASN_DEC a dec = (let new_ls4b = ls4b a - dec in
     Asn (if new_ls4b > ls4b a then ms1b a - 1 else ms1b a) new_ls4b)"

definition TSCH_ASN_DIFF :: "asn \<Rightarrow> asn \<Rightarrow> u32" where
  "TSCH_ASN_DIFF a b = ls4b a - ls4b b"

record asn_divisor =
  dval :: u16
  asn_ms1b_remainder :: u16

definition TSCH_ASN_DIVISOR_INIT :: "u16 \<Rightarrow> asn_divisor" where
  "TSCH_ASN_DIVISOR_INIT v = \<lparr>dval = v,
     asn_ms1b_remainder = ucast (((0xffffffff :: u32) mod ucast v + 1) mod ucast v)\<rparr>"

text \<open>
  The product of \<^verbatim>\<open>ms1b\<close> and the remainder, and the sum of the two summands, are 16-bit unsigned.
  Division by 0 is undefined in C; no divisor of the schedule is 0 (\<^verbatim>\<open>tsch_schedule_add_slotframe\<close>).
\<close>

definition TSCH_ASN_MOD :: "asn \<Rightarrow> asn_divisor \<Rightarrow> u16" where
  "TSCH_ASN_MOD a d =
     (ucast (ls4b a mod ucast (dval d)) + ucast (ms1b a) * asn_ms1b_remainder d mod dval d) mod dval d"

lemma unat_ucast_u16_u32 [simp]: "unat (ucast (w::u16) :: u32) = unat w"
proof -
  have "unat w < 2 ^ 32"
    by (rule less_trans [OF unat_u16_less]) simp
  then show ?thesis
    by (simp add: unsigned_ucast_eq take_bit_nat_eq_self)
qed

lemma divisor_remainder:
  assumes "0 < v"
  shows "unat (asn_ms1b_remainder (TSCH_ASN_DIVISOR_INIT v)) = 2 ^ 32 mod unat v"
proof -
  have v: "0 < unat v"
    using assms by (simp add: word_less_nat_alt)
  have "unat ((0xffffffff :: u32) mod ucast v) = 0xffffffff mod unat v"
    by (simp add: unat_mod)
  moreover have "0xffffffff mod unat v < 65536"
    using v unat_u16_less [of v] by (meson less_trans mod_less_divisor)
  ultimately have "unat ((0xffffffff :: u32) mod ucast v + 1) = 0xffffffff mod unat v + 1"
    by (subst unat_add_lem [THEN iffD1]) simp_all
  then have "unat (((0xffffffff :: u32) mod ucast v + 1) mod ucast v) = (0xffffffff mod unat v + 1) mod unat v"
    by (simp add: unat_mod)
  also have "\<dots> = (0xffffffff + 1) mod unat v"
    by (rule mod_add_left_eq)
  also have "\<dots> = 2 ^ 32 mod unat v"
    by simp
  finally have r: "unat (((0xffffffff :: u32) mod ucast v + 1) mod ucast v) = 2 ^ 32 mod unat v" .
  have "2 ^ 32 mod unat v < 65536"
    using v unat_u16_less [of v] by (meson less_trans mod_less_divisor)
  with r show ?thesis
    by (simp add: TSCH_ASN_DIVISOR_INIT_def unsigned_ucast_eq take_bit_nat_eq_self)
qed

lemma asn_mod_no_wrap:
  assumes v: "0 < v" and prod: "unat (ms1b a) * (2 ^ 32 mod unat v) < 65536" and sum: "ms1b a = 0 \<or> unat v \<le> 32768"
  shows "unat (TSCH_ASN_MOD a (TSCH_ASN_DIVISOR_INIT v)) = asn_val a mod unat v"
proof -
  let ?d = "TSCH_ASN_DIVISOR_INIT v"
  have v0: "0 < unat v" and v16: "unat v < 65536"
    using v by (simp_all add: word_less_nat_alt)
  have d: "dval ?d = v"
    by (simp add: TSCH_ASN_DIVISOR_INIT_def)
  have "unat (ls4b a mod ucast v) = unat (ls4b a) mod unat v"
    by (simp add: unat_mod)
  then have 1: "unat (ucast (ls4b a mod ucast v) :: u16) = unat (ls4b a) mod unat v"
    using v0 v16 by (simp add: unsigned_ucast_eq take_bit_nat_eq_self less_trans [OF mod_less_divisor])
  have "unat (ucast (ms1b a) * asn_ms1b_remainder ?d) = unat (ms1b a) * (2 ^ 32 mod unat v)"
    using prod divisor_remainder [OF v] by (subst unat_mult_lem [THEN iffD1]) simp_all
  then have 2: "unat (ucast (ms1b a) * asn_ms1b_remainder ?d mod v) = unat (ms1b a) * (2 ^ 32 mod unat v) mod unat v"
    by (simp add: unat_mod)
  have "unat (ls4b a) mod unat v + unat (ms1b a) * (2 ^ 32 mod unat v) mod unat v < 65536"
  proof (cases "ms1b a = 0")
    case True
    with v0 v16 show ?thesis
      by (simp add: less_trans [OF mod_less_divisor])
  next
    case False
    with sum have "unat v \<le> 32768"
      by simp
    moreover have "unat (ls4b a) mod unat v < unat v" "unat (ms1b a) * (2 ^ 32 mod unat v) mod unat v < unat v"
      using v0 by simp_all
    ultimately show ?thesis
      by linarith
  qed
  then have "unat (TSCH_ASN_MOD a ?d) =
      (unat (ls4b a) mod unat v + unat (ms1b a) * (2 ^ 32 mod unat v) mod unat v) mod unat v"
    unfolding TSCH_ASN_MOD_def d unat_mod by (subst unat_add_lem [THEN iffD1]) (simp_all add: 1 2)
  also have "\<dots> = (unat (ls4b a) + unat (ms1b a) * 2 ^ 32) mod unat v"
    by (metis mod_add_eq mod_mult_right_eq)
  finally show ?thesis
    by (simp add: asn_val_def add.commute)
qed

lemma asn_mod_small:
  assumes "0 < v" "unat v \<le> 257 \<or> ms1b a = 0"
  shows "unat (TSCH_ASN_MOD a (TSCH_ASN_DIVISOR_INIT v)) = asn_val a mod unat v"
proof (cases "ms1b a = 0")
  case False
  with assms have "unat v \<le> 257" "0 < unat v"
    by (auto simp: word_less_nat_alt)
  then have "2 ^ 32 mod unat v \<le> 256"
    using mod_less_divisor [of "unat v" "2 ^ 32"] by linarith
  then have "unat (ms1b a) * (2 ^ 32 mod unat v) \<le> 255 * 256"
    using unat_u8_less [of "ms1b a"] by (intro mult_le_mono) linarith+
  with assms(1) \<open>unat v \<le> 257\<close> show ?thesis
    by (intro asn_mod_no_wrap) simp_all
qed (use assms in \<open>simp add: asn_mod_no_wrap\<close>)

lemma carry_iff: "(l::nat) < m \<Longrightarrow> n < m \<Longrightarrow> (l + n) mod m < l \<longleftrightarrow> m \<le> l + n"
  by (cases "m \<le> l + n") (auto simp: le_mod_geq)

lemma asn_inc_val: "asn_val (TSCH_ASN_INC a n) = (asn_val a + unat n) mod 2 ^ 40"
proof -
  let ?s = "unat (ls4b a) + unat n"
  have lt: "unat (ls4b a) < 2 ^ 32" "unat n < 2 ^ 32" "unat (ms1b a) < 256"
    by simp_all
  have sum: "unat (ls4b a + n) = ?s mod 2 ^ 32"
    by (simp add: unat_word_ariths)
  have m: "unat (ms1b a + 1) = (unat (ms1b a) + 1) mod 256"
    by (simp add: unat_word_ariths)
  have carry: "ls4b a + n < ls4b a \<longleftrightarrow> 2 ^ 32 \<le> ?s"
    unfolding word_less_nat_alt sum by (rule carry_iff [OF lt(1,2)])
  show ?thesis
  proof (cases "2 ^ 32 \<le> ?s")
    case True
    moreover have "?s - 2 ^ 32 < 2 ^ 32"
      using lt(1,2) by linarith
    ultimately have "?s mod 2 ^ 32 = ?s - 2 ^ 32"
      using le_mod_geq [of "2 ^ 32" ?s] mod_less [of "?s - 2 ^ 32" "2 ^ 32"] by (simp only:)
    with True carry sum have v: "asn_val (TSCH_ASN_INC a n) = (unat (ms1b a) + 1) mod 256 * 2 ^ 32 + (?s - 2 ^ 32)"
      by (simp add: TSCH_ASN_INC_def asn_val_def m)
    show ?thesis
    proof (cases "unat (ms1b a) = 255")
      case True
      moreover have "(?s - 2 ^ 32) mod 2 ^ 40 = ?s - 2 ^ 32"
        by (rule mod_less, rule less_trans [of _ "2 ^ 32"]) (use lt(1,2) in linarith, simp)
      ultimately show ?thesis
        using v \<open>2 ^ 32 \<le> ?s\<close> by (simp add: asn_val_def le_mod_geq)
    next
      case False
      then have "unat (ms1b a) \<le> 254"
        using lt(3) by linarith
      then have "(unat (ms1b a) + 1) mod 256 = unat (ms1b a) + 1" "unat (ms1b a) \<le> 254"
        by simp_all
      moreover have "unat (ms1b a) * 4294967296 + ?s < 1099511627776"
        using calculation(2) unat_u32_less [of "ls4b a"] unat_u32_less [of n] by linarith
      ultimately show ?thesis
        using v \<open>2 ^ 32 \<le> ?s\<close> by (simp add: asn_val_def add.assoc)
    qed
  next
    case False
    with carry sum have "asn_val (TSCH_ASN_INC a n) = asn_val a + unat n"
      by (simp add: TSCH_ASN_INC_def asn_val_def)
    moreover have "asn_val a + unat n < 2 ^ 40"
      using False asn_val_less [of "TSCH_ASN_INC a n"] calculation by simp
    ultimately show ?thesis
      by simp
  qed
qed

lemma asn_inc_dec: "TSCH_ASN_DEC (TSCH_ASN_INC a n) n = a"
  by (auto simp: TSCH_ASN_DEC_def TSCH_ASN_INC_def Let_def asn.expand not_less)

lemma asn_diff_val: "asn_val b \<le> asn_val a \<Longrightarrow> asn_val a - asn_val b < 2 ^ 32 \<Longrightarrow>
    unat (TSCH_ASN_DIFF a b) = asn_val a - asn_val b"
proof -
  assume le: "asn_val b \<le> asn_val a" and small: "asn_val a - asn_val b < 2 ^ 32"
  have "int (unat (TSCH_ASN_DIFF a b)) = (int (unat (ls4b a)) - int (unat (ls4b b))) mod 2 ^ 32"
    by (simp add: TSCH_ASN_DIFF_def uint_word_ariths flip: uint_nat)
  also have "\<dots> = (int (unat (ls4b a)) - int (unat (ls4b b)) + (int (unat (ms1b a)) - int (unat (ms1b b))) * 2 ^ 32) mod 2 ^ 32"
    by (rule mod_mult_self1 [symmetric])
  also have "\<dots> = (int (asn_val a) - int (asn_val b)) mod 2 ^ 32"
    by (rule arg_cong [where f = "\<lambda>x. x mod 2 ^ 32"]) (simp add: asn_val_def algebra_simps)
  also have "\<dots> = int (asn_val a) - int (asn_val b)"
    using le small by (intro mod_pos_pos_trivial) auto
  finally show ?thesis
    using le by linarith
qed


text \<open>
  C38. ASN arithmetic.  Advancing an ASN adds to its 40-bit number, going back undoes it, the 32-bit difference of
  two ASNs is exact while they are less than \<open>2 ^ 32\<close> slots apart, and the timeslot of an ASN in a slotframe
  of \<open>v\<close> slots is exactly its number modulo \<open>v\<close>, for every ASN if \<open>v \<le> 257\<close> and for every \<open>v\<close> while the
  top byte of the ASN is 0.
\<close>

theorem asn_arithmetic_correct:
  "asn_val (TSCH_ASN_INC a n) = (asn_val a + unat n) mod 2 ^ 40
   \<and> TSCH_ASN_DEC (TSCH_ASN_INC a n) n = a
   \<and> (asn_val b \<le> asn_val a \<and> asn_val a - asn_val b < 2 ^ 32 \<longrightarrow> unat (TSCH_ASN_DIFF a b) = asn_val a - asn_val b)
   \<and> (0 < v \<and> (unat v \<le> 257 \<or> ms1b a = 0) \<longrightarrow>
        unat (TSCH_ASN_MOD a (TSCH_ASN_DIVISOR_INIT v)) = asn_val a mod unat v)"
  using asn_inc_val asn_inc_dec asn_diff_val asn_mod_small by blast

theorem asn_arithmetic_correct_witness:
  "unat (TSCH_ASN_DIFF (Asn 1 5) (Asn 0 0xfffffff0)) = asn_val (Asn 1 5) - asn_val (Asn 0 0xfffffff0)
   \<and> unat (TSCH_ASN_MOD (Asn 1 5) (TSCH_ASN_DIVISOR_INIT 40)) = asn_val (Asn 1 5) mod 40"
  using asn_arithmetic_correct [of "Asn 1 5" 0 "Asn 0 0xfffffff0" 40] by (simp add: asn_val_def)

text \<open>
  With a longer slotframe the product in \<^verbatim>\<open>TSCH_ASN_MOD\<close> wraps at 16 bits once the top byte is large, and the
  result is no longer the ASN modulo the length.
\<close>

lemma asn_mod_wraps: "unat (TSCH_ASN_MOD (Asn 255 0) (TSCH_ASN_DIVISOR_INIT 1000)) \<noteq> asn_val (Asn 255 0) mod 1000"
  by (simp add: TSCH_ASN_MOD_def TSCH_ASN_DIVISOR_INIT_def asn_val_def)

section \<open>16-bit slot numbers\<close>

definition TSCH_SLOTNUM_DIFF16 :: "u16 \<Rightarrow> u16 \<Rightarrow> int" where
  "TSCH_SLOTNUM_DIFF16 s1 s2 = sint (s1 - s2)"

definition TSCH_SLOTNUM_LT :: "u16 \<Rightarrow> u16 \<Rightarrow> bool" where
  "TSCH_SLOTNUM_LT s1 s2 \<longleftrightarrow> TSCH_SLOTNUM_DIFF16 s1 s2 < 0"

lemma slotnum_diff:
  assumes "- (2 ^ 15) \<le> int x - int y" "int x - int y < 2 ^ 15"
  shows "TSCH_SLOTNUM_DIFF16 (of_nat x) (of_nat y) = int x - int y"
proof -
  have eq: "(of_nat x - of_nat y :: u16) = of_int (int x - int y)"
    by simp
  show ?thesis
    unfolding TSCH_SLOTNUM_DIFF16_def eq signed_of_int of_int_eq_id id_apply
    by (rule signed_take_bit_int_eq_self) (use assms in simp_all)
qed

text \<open>
  \<^verbatim>\<open>TSCH_SLOTNUM_LT\<close> orders two slot numbers of the 16-bit counter by the slots they stand for, as long
  as these are less than \<open>2 ^ 15\<close> slots apart.
\<close>

lemma slotnum_lt_iff:
  assumes "\<bar>int x - int y\<bar> < 2 ^ 15"
  shows "TSCH_SLOTNUM_LT (of_nat x) (of_nat y) \<longleftrightarrow> x < y"
  using slotnum_diff [of x y] assms by (simp add: TSCH_SLOTNUM_LT_def)

lemma slotnum_lt_irrefl [simp]: "\<not> TSCH_SLOTNUM_LT s s"
  by (simp add: TSCH_SLOTNUM_LT_def TSCH_SLOTNUM_DIFF16_def)

section \<open>Channel hopping\<close>

text \<open>\<open>hop\<close> is \<^verbatim>\<open>tsch_hopping_sequence\<close>, \<open>len\<close> its length as a divisor.\<close>

definition tsch_calculate_channel :: "u8 list \<Rightarrow> asn_divisor \<Rightarrow> asn \<Rightarrow> u8 \<Rightarrow> u8 option" where
  "tsch_calculate_channel hop len a channel_offset = (
     let index_of_0 = TSCH_ASN_MOD a len;
         index_of_offset = (index_of_0 + ucast channel_offset) mod dval len
     in rd hop (unat index_of_offset))"

lemma calculate_channel:
  assumes "0 < length hop" "length hop \<le> 257"
  shows "tsch_calculate_channel hop (TSCH_ASN_DIVISOR_INIT (of_nat (length hop))) a off
    = Some (hop ! ((asn_val a + unat off) mod length hop))"
proof -
  let ?v = "of_nat (length hop) :: u16"
  have v: "unat ?v = length hop"
    using assms(2) by (simp add: unsigned_of_nat take_bit_nat_eq_self)
  then have pos: "0 < ?v"
    using assms(1) by (simp add: word_less_nat_alt)
  have d: "dval (TSCH_ASN_DIVISOR_INIT ?v) = ?v"
    by (simp add: TSCH_ASN_DIVISOR_INIT_def)
  have m: "unat (TSCH_ASN_MOD a (TSCH_ASN_DIVISOR_INIT ?v)) = asn_val a mod length hop"
    using asn_mod_small [OF pos, of a] v assms(2) by simp
  have "unat (TSCH_ASN_MOD a (TSCH_ASN_DIVISOR_INIT ?v) + ucast off) = asn_val a mod length hop + unat off"
  proof (subst unat_add_lem [THEN iffD1])
    have "asn_val a mod length hop < 257"
      using assms mod_less_divisor [of "length hop" "asn_val a"] by linarith
    then show "unat (TSCH_ASN_MOD a (TSCH_ASN_DIVISOR_INIT ?v)) + unat (ucast off :: u16) < 2 ^ LENGTH(16)"
      using unat_u8_less [of off] m by (simp del: unat_u8_less)
  qed (simp add: m)
  then have "unat ((TSCH_ASN_MOD a (TSCH_ASN_DIVISOR_INIT ?v) + ucast off) mod ?v) = (asn_val a + unat off) mod length hop"
    by (simp add: unat_mod v mod_add_left_eq)
  with assms(1) show ?thesis
    by (simp add: tsch_calculate_channel_def d rd_in)
qed

text \<open>
  C39. Channel hopping.  With a hopping sequence of at most 257 channels, two links with distinct channel offsets
  below its length never meet on one channel of the sequence in the same slot if the sequence has no channel twice, and
  a link uses every channel of the sequence, each once, in any window of as many consecutive slots.
\<close>

theorem channel_hopping_correct:
  assumes "0 < length hop" "length hop \<le> 257" "distinct hop"
  shows "(\<forall>o1 o2. unat o1 < length hop \<and> unat o2 < length hop \<and> o1 \<noteq> o2 \<longrightarrow>
      tsch_calculate_channel hop (TSCH_ASN_DIVISOR_INIT (of_nat (length hop))) a o1 \<noteq>
      tsch_calculate_channel hop (TSCH_ASN_DIVISOR_INIT (of_nat (length hop))) a o2)
    \<and> (asn_val a + length hop \<le> 2 ^ 40 \<longrightarrow>
      (\<lambda>i. tsch_calculate_channel hop (TSCH_ASN_DIVISOR_INIT (of_nat (length hop))) (TSCH_ASN_INC a (of_nat i)) off)
        ` {..< length hop} = Some ` set hop)"
proof (intro conjI allI impI)
  fix o1 o2 :: u8
  assume o: "unat o1 < length hop \<and> unat o2 < length hop \<and> o1 \<noteq> o2"
  then have "unat o1 \<noteq> unat o2"
    by (metis unsigned_word_eqI)
  then have "(asn_val a + unat o1) mod length hop \<noteq> (asn_val a + unat o2) mod length hop"
    using o by (simp add: add_mod_inject)
  with assms show "tsch_calculate_channel hop (TSCH_ASN_DIVISOR_INIT (of_nat (length hop))) a o1 \<noteq>
      tsch_calculate_channel hop (TSCH_ASN_DIVISOR_INIT (of_nat (length hop))) a o2"
    by (simp add: calculate_channel nth_eq_iff_index_eq)
next
  assume room: "asn_val a + length hop \<le> 2 ^ 40"
  show "(\<lambda>i. tsch_calculate_channel hop (TSCH_ASN_DIVISOR_INIT (of_nat (length hop))) (TSCH_ASN_INC a (of_nat i)) off)
        ` {..< length hop} = Some ` set hop" (is "?f ` _ = _")
  proof -
    have inc: "asn_val (TSCH_ASN_INC a (of_nat i)) = asn_val a + i" if "i < length hop" for i
    proof -
      have "unat (of_nat i :: u32) = i"
        using that assms(2) by (simp add: unsigned_of_nat take_bit_nat_eq_self)
      then show ?thesis
        using that room by (simp add: asn_inc_val)
    qed
    have "?f i = Some (hop ! ((asn_val a + unat off + i) mod length hop))" if "i \<in> {..< length hop}" for i
      using that assms inc by (simp add: calculate_channel add.commute add.left_commute)
    then have "?f ` {..< length hop} = (Some \<circ> (!) hop) ` (\<lambda>i. (asn_val a + unat off + i) mod length hop) ` {..< length hop}"
      unfolding image_image by (intro image_cong) auto
    also have "\<dots> = (Some \<circ> (!) hop) ` {..< length hop}"
      unfolding rotate_image [OF assms(1)] ..
    also have "\<dots> = Some ` set hop"
      by (auto simp: image_comp [symmetric] set_conv_nth image_iff)
    finally show ?thesis .
  qed
qed


theorem channel_hopping_correct_witness:
  "(\<lambda>i. tsch_calculate_channel [15, 20, 26, 25] (TSCH_ASN_DIVISOR_INIT 4) (TSCH_ASN_INC (Asn 0 0xfffffffe) (of_nat i)) 1)
     ` {..< length [15, 20, 26, 25 :: u8]} = Some ` {15, 20, 26, 25}"
proof -
  have "distinct [15, 20, 26, 25 :: u8]"
    by simp
  from channel_hopping_correct [OF _ _ this, of "Asn 0 0xfffffffe" 1] show ?thesis
    by (simp add: asn_val_def)
qed

section \<open>Missed timer deadlines\<close>

text \<open>\<^verbatim>\<open>rtimer_clock_t\<close> is an unsigned 16-bit counter on the repository's target.\<close>

definition check_timer_miss :: "u16 \<Rightarrow> u16 \<Rightarrow> u16 \<Rightarrow> bool" where
  "check_timer_miss ref_time offset now = (
     let target = ref_time + offset;
         now_has_overflowed = now < ref_time;
         target_has_overflowed = target < ref_time
     in if now_has_overflowed = target_has_overflowed then target \<le> now else now_has_overflowed)"

lemma word_u16_add_less:
  "(a + b :: u16) < a \<longleftrightarrow> 65536 \<le> unat a + unat b"
  "unat (a + b) = (if 65536 \<le> unat a + unat b then unat a + unat b - 65536 else unat a + unat b)"
proof -
  have lt: "unat a < 65536" "unat b < 65536"
    by simp_all
  have sum: "unat (a + b) = (unat a + unat b) mod 65536"
    by (simp add: unat_word_ariths)
  show "(a + b) < a \<longleftrightarrow> 65536 \<le> unat a + unat b"
    unfolding word_less_nat_alt sum by (rule carry_iff [OF lt])
  show "unat (a + b) = (if 65536 \<le> unat a + unat b then unat a + unat b - 65536 else unat a + unat b)"
  proof (cases "65536 \<le> unat a + unat b")
    case True
    moreover have "unat a + unat b - 65536 < 65536"
      using lt by linarith
    ultimately show ?thesis
      by (simp add: sum le_mod_geq)
  qed (simp add: sum)
qed

text \<open>
  A deadline \<open>offset\<close> ticks after a reference time is reported as missed exactly when at least \<open>offset\<close> ticks have passed
  since the reference time, wherever the reference time, the target or the current time lie on the wrapping counter.
\<close>

theorem timer_miss_exact: "check_timer_miss ref_time offset now \<longleftrightarrow> unat offset \<le> unat (now - ref_time)"
proof -
  obtain e where now: "now = ref_time + e"
    by (metis add_diff_cancel_left' add.commute diff_add_cancel)
  have lt: "unat ref_time < 65536" "unat e < 65536" "unat offset < 65536"
    by simp_all
  show ?thesis
    unfolding check_timer_miss_def Let_def now word_u16_add_less word_le_nat_alt
    using lt by auto
qed

end
