(* ===== verification/Tsch_Queue.thy ===== *)
theory Tsch_Queue
  imports Queuebuf Ring_Index Linked_List Tsch_Asn
begin

text \<open>
  \<^verbatim>\<open>os/net/mac/tsch/tsch-queue.c\<close>, with the lock of \<^verbatim>\<open>tsch-slot-operation.c\<close>: one outgoing queue per neighbor
  (in the MASTER configuration per flow, under an artificial neighbor address), CSMA back-off, and the rule that
  a failed packet is retried only while its time to live allows it.  A neighbor, a packet and a
  queuebuf are elements of their pools; \<^verbatim>\<open>neighbor_list\<close> is the sequence of its elements, operated on by \<open>seq_step\<close>
  (theory \<open>Linked_List\<close> proves that the lists in memory implement it).  \<open>tq_inv\<close> is the invariant, \<open>queue_of\<close> the
  packets of a neighbor in the order they leave.  Calls of the upper layer's callback are logged in
  \<open>sent_log\<close>; a random number is an argument.
\<close>

section \<open>State\<close>

datatype mac_tx_status = MAC_TX_OK | MAC_TX_COLLISION | MAC_TX_NOACK | MAC_TX_DEFERRED | MAC_TX_ERR | MAC_TX_ERR_FATAL

definition tsch_broadcast_address :: linkaddr where
  "tsch_broadcast_address = replicate 8 0xff"

definition tsch_eb_address :: linkaddr where
  "tsch_eb_address = replicate 8 0"

text \<open>\<^verbatim>\<open>QUEUEBUF_CONF_NUM\<close> is 8 (\<^verbatim>\<open>contiki-default-conf.h\<close>).\<close>

definition TSCH_QUEUE_NUM_PER_NEIGHBOR :: nat where
  "TSCH_QUEUE_NUM_PER_NEIGHBOR = 8"

definition TSCH_MAC_MIN_BE :: u8 where
  "TSCH_MAC_MIN_BE = 1"

definition TSCH_MAC_MAX_BE :: u8 where
  "TSCH_MAC_MAX_BE = 5"

definition LINK_OPTION_TX :: u8 where "LINK_OPTION_TX = 1"
definition LINK_OPTION_RX :: u8 where "LINK_OPTION_RX = 2"
definition LINK_OPTION_SHARED :: u8 where "LINK_OPTION_SHARED = 4"
definition LINK_OPTION_TIME_KEEPING :: u8 where "LINK_OPTION_TIME_KEEPING = 8"

text \<open>A callback and its argument are opaque values; \<^verbatim>\<open>sent\<close> may be \<^verbatim>\<open>NULL\<close>.\<close>

record tsch_packet =
  qb :: ptr
  sent :: ptr
  cb_arg :: ptr
  transmissions :: u8
  max_transmissions :: u8
  ret :: mac_tx_status
  header_len :: u8
  tsch_sync_ie_offset :: u8

record tsch_neighbor =
  naddr :: linkaddr
  is_broadcast :: bool
  is_time_source :: bool
  backoff_exponent :: u8
  backoff_window :: u8
  last_backoff_window :: u8
  tx_links_count :: u8
  dedicated_tx_links_count :: u8
  tx_array :: "ptr list"
  tx_ringbuf :: ringbufindex

record tsch_queue =
  locked :: bool
  neighbor_memb :: memb
  nbrs :: "tsch_neighbor list"
  neighbor_list :: "nat list"
  packet_memb :: memb
  pkts :: "tsch_packet list"
  qbufs :: queuebufs
  n_eb :: ptr
  n_broadcast :: ptr
  num_eb_packets :: u8
  is_coordinator :: bool
  ka_timeout :: u32
  sent_log :: "(ptr \<times> mac_tx_status \<times> u8) list"

section \<open>The lock\<close>

text \<open>
  Outside of the slot interrupt: when the lock is free, waiting for the end of a running slot operation changes nothing
  the functions below read, and the lock is taken.
\<close>

definition tsch_is_locked :: "tsch_queue \<Rightarrow> bool" where
  "tsch_is_locked q = locked q"

definition tsch_get_lock :: "tsch_queue \<Rightarrow> bool \<times> tsch_queue" where
  "tsch_get_lock q = (if locked q then (False, q) else (True, q\<lparr>locked := True\<rparr>))"

definition tsch_release_lock :: "tsch_queue \<Rightarrow> tsch_queue" where
  "tsch_release_lock q = q\<lparr>locked := False\<rparr>"

section \<open>Neighbors\<close>

definition tsch_queue_backoff_expired :: "tsch_neighbor \<Rightarrow> bool" where
  "tsch_queue_backoff_expired n \<longleftrightarrow> backoff_window n = 0"

definition tsch_queue_backoff_reset :: "tsch_neighbor \<Rightarrow> tsch_neighbor" where
  "tsch_queue_backoff_reset n = n\<lparr>backoff_window := 0, backoff_exponent := TSCH_MAC_MIN_BE\<rparr>"

text \<open>\<open>r\<close> is the value of \<^verbatim>\<open>random_rand()\<close>; the comparison in \<^verbatim>\<open>MIN\<close> is of \<^verbatim>\<open>int\<close>s.\<close>

definition tsch_queue_backoff_inc :: "u16 \<Rightarrow> tsch_neighbor \<Rightarrow> tsch_neighbor" where
  "tsch_queue_backoff_inc r n = (
     let e = (if unat (backoff_exponent n) + 1 < unat TSCH_MAC_MAX_BE then backoff_exponent n + 1 else TSCH_MAC_MAX_BE);
         w = ucast (drop_bit 6 r mod push_bit (unat e) 1)
     in n\<lparr>backoff_exponent := e, backoff_window := w + 1\<rparr>)"

definition tsch_queue_get_nbr :: "tsch_queue \<Rightarrow> linkaddr \<Rightarrow> ptr option" where
  "tsch_queue_get_nbr q addr =
     (if \<not> tsch_is_locked q then find_rd (\<lambda>n. linkaddr_cmp (naddr n) addr) (nbrs q) (neighbor_list q) else Some None)"

text \<open>\<^verbatim>\<open>memset(n, 0, ...)\<close> followed by the initialisation of the fields.\<close>

definition new_neighbor :: "linkaddr \<Rightarrow> tsch_neighbor" where
  "new_neighbor addr = tsch_queue_backoff_reset
     \<lparr>naddr = addr,
      is_broadcast = (linkaddr_cmp addr tsch_eb_address \<or> linkaddr_cmp addr tsch_broadcast_address),
      is_time_source = False, backoff_exponent = 0, backoff_window = 0, last_backoff_window = 0,
      tx_links_count = 0, dedicated_tx_links_count = 0,
      tx_array = replicate TSCH_QUEUE_NUM_PER_NEIGHBOR None,
      tx_ringbuf = ringbufindex_init (of_nat TSCH_QUEUE_NUM_PER_NEIGHBOR)\<rparr>"

definition tsch_queue_add_nbr :: "tsch_queue \<Rightarrow> linkaddr \<Rightarrow> (ptr \<times> tsch_queue) option" where
  "tsch_queue_add_nbr q addr = do {
     n \<leftarrow> tsch_queue_get_nbr q addr;
     case n of
       Some i \<Rightarrow> Some (Some i, q)
     | None \<Rightarrow> (let (ok, q) = tsch_get_lock q in
         if ok then do {
           (n, m) \<leftarrow> memb_alloc (neighbor_memb q);
           let q = q\<lparr>neighbor_memb := m\<rparr>;
           case n of
             None \<Rightarrow> Some (None, tsch_release_lock q)
           | Some i \<Rightarrow> do {
               ns \<leftarrow> wr (nbrs q) i (new_neighbor addr);
               Some (Some i, tsch_release_lock (q\<lparr>nbrs := ns, neighbor_list := seq_step (neighbor_list q) (Add i)\<rparr>))
             }
         } else Some (None, q))
   }"

definition tsch_queue_get_time_source :: "tsch_queue \<Rightarrow> ptr option" where
  "tsch_queue_get_time_source q =
     (if \<not> tsch_is_locked q then find_rd is_time_source (nbrs q) (neighbor_list q) else Some None)"

text \<open>Changing one neighbor in place.\<close>

definition upd_nbr :: "tsch_queue \<Rightarrow> nat \<Rightarrow> (tsch_neighbor \<Rightarrow> tsch_neighbor) \<Rightarrow> tsch_queue option" where
  "upd_nbr q i f = do { n \<leftarrow> rd (nbrs q) i; ns \<leftarrow> wr (nbrs q) i (f n); Some (q\<lparr>nbrs := ns\<rparr>) }"

text \<open>
  \<open>keepalive\<close> is \<^verbatim>\<open>TSCH_KEEPALIVE_TIMEOUT\<close>.  Starting and stopping the keep-alive timer is left out; its period
  is recorded in \<open>ka_timeout\<close>.
\<close>

definition tsch_queue_update_time_source :: "u32 \<Rightarrow> tsch_queue \<Rightarrow> linkaddr option \<Rightarrow> (nat \<times> tsch_queue) option" where
  "tsch_queue_update_time_source keepalive q new_addr =
     (if \<not> tsch_is_locked q then
        if \<not> is_coordinator q then do {
          old_src \<leftarrow> tsch_queue_get_time_source q;
          (new_src, q) \<leftarrow> (case new_addr of None \<Rightarrow> Some (None, q) | Some a \<Rightarrow> tsch_queue_add_nbr q a);
          if new_addr \<noteq> None \<and> new_src = None then Some (0, q)
          else if new_src \<noteq> old_src then do {
            q \<leftarrow> (case new_src of
                   Some i \<Rightarrow> map_option (\<lambda>q. q\<lparr>ka_timeout := keepalive\<rparr>) (upd_nbr q i (\<lambda>n. n\<lparr>is_time_source := True\<rparr>))
                 | None \<Rightarrow> Some (q\<lparr>ka_timeout := 0\<rparr>));
            q \<leftarrow> (case old_src of Some i \<Rightarrow> upd_nbr q i (\<lambda>n. n\<lparr>is_time_source := False\<rparr>) | None \<Rightarrow> Some q);
            Some (1, q)
          } else Some (1, q)
        } else Some (0, q)
      else Some (0, q))"

section \<open>Packets\<close>

text \<open>\<^verbatim>\<open>mac_call_sent_callback\<close> calls the callback, if there is one; the call is logged.\<close>

definition mac_call_sent_callback :: "tsch_queue \<Rightarrow> tsch_packet \<Rightarrow> tsch_queue" where
  "mac_call_sent_callback q p = (case sent p of
     None \<Rightarrow> q
   | Some _ \<Rightarrow> q\<lparr>sent_log := sent_log q @ [(cb_arg p, ret p, transmissions p)]\<rparr>)"

definition tsch_queue_is_empty :: "tsch_queue \<Rightarrow> ptr \<Rightarrow> bool option" where
  "tsch_queue_is_empty q n = (case n of
     None \<Rightarrow> Some False
   | Some i \<Rightarrow> if tsch_is_locked q then Some False
       else do { nb \<leftarrow> rd (nbrs q) i; Some (ringbufindex_empty (tx_ringbuf nb)) })"

definition tsch_queue_remove_packet_from_queue :: "tsch_queue \<Rightarrow> ptr \<Rightarrow> (ptr \<times> tsch_queue) option" where
  "tsch_queue_remove_packet_from_queue q n =
     (if tsch_is_locked q then Some (None, q)
      else case n of
        None \<Rightarrow> Some (None, q)
      | Some i \<Rightarrow> do {
          nb \<leftarrow> rd (nbrs q) i;
          let (get_index, r) = ringbufindex_get (tx_ringbuf nb);
          let q = q\<lparr>nbrs := (nbrs q)[i := nb\<lparr>tx_ringbuf := r\<rparr>]\<rparr>;
          if get_index \<noteq> -1 then do {
            let q = (if n = n_eb q then q\<lparr>num_eb_packets := num_eb_packets q - 1\<rparr> else q);
            p \<leftarrow> rd (tx_array nb) (nat get_index);
            Some (p, q)
          } else Some (None, q)
        })"

definition tsch_queue_free_packet :: "tsch_queue \<Rightarrow> ptr \<Rightarrow> tsch_queue option" where
  "tsch_queue_free_packet q p = (case p of
     None \<Rightarrow> Some q
   | Some i \<Rightarrow> do {
       pk \<leftarrow> rd (pkts q) i;
       qs \<leftarrow> queuebuf_free (qbufs q) (qb pk);
       (_, m) \<leftarrow> memb_free (packet_memb q) i;
       Some (q\<lparr>qbufs := qs, packet_memb := m\<rparr>)
     })"

partial_function (option) tsch_queue_flush_nbr_queue :: "tsch_queue \<Rightarrow> ptr \<Rightarrow> tsch_queue option" where
  "tsch_queue_flush_nbr_queue q n = do {
     e \<leftarrow> tsch_queue_is_empty q n;
     if e then Some q
     else do {
       (p, q) \<leftarrow> tsch_queue_remove_packet_from_queue q n;
       case p of
         None \<Rightarrow> tsch_queue_flush_nbr_queue q n
       | Some i \<Rightarrow> do {
           pk \<leftarrow> rd (pkts q) i;
           let pk = pk\<lparr>ret := MAC_TX_ERR\<rparr>;
           let q = mac_call_sent_callback (q\<lparr>pkts := (pkts q)[i := pk]\<rparr>) pk;
           q \<leftarrow> tsch_queue_free_packet q p;
           tsch_queue_flush_nbr_queue q n
         }
     }
   }"

definition tsch_queue_remove_nbr :: "tsch_queue \<Rightarrow> ptr \<Rightarrow> tsch_queue option" where
  "tsch_queue_remove_nbr q n = (case n of
     None \<Rightarrow> Some q
   | Some i \<Rightarrow> (let (ok, q) = tsch_get_lock q in
       if ok then do {
         let q = q\<lparr>neighbor_list := seq_step (neighbor_list q) (Remove i)\<rparr>;
         let q = tsch_release_lock q;
         q \<leftarrow> tsch_queue_flush_nbr_queue q n;
         (_, m) \<leftarrow> memb_free (neighbor_memb q) i;
         Some (q\<lparr>neighbor_memb := m\<rparr>)
       } else Some q))"

text \<open>
  The body of \<^verbatim>\<open>tsch_queue_add_packet\<close> once the neighbor \<open>i\<close> is there; \<open>pb\<close> is the packet buffer
  the packet is taken from.
\<close>

definition put_packet :: "tsch_queue \<Rightarrow> pbuf \<Rightarrow> nat \<Rightarrow> u8 \<Rightarrow> ptr \<Rightarrow> ptr \<Rightarrow> (ptr \<times> tsch_queue) option" where
  "put_packet q pb i max_tx snt arg = do {
     nb \<leftarrow> rd (nbrs q) i;
     let put_index = ringbufindex_peek_put (tx_ringbuf nb);
     if put_index = -1 then Some (None, q)
     else do {
       (p, m) \<leftarrow> memb_alloc (packet_memb q);
       let q = q\<lparr>packet_memb := m\<rparr>;
       case p of
         None \<Rightarrow> Some (None, q)
       | Some j \<Rightarrow> do {
           (b, qs) \<leftarrow> queuebuf_new_from_packetbuf (qbufs q) pb;
           pk \<leftarrow> rd (pkts q) j;
           let q = q\<lparr>qbufs := qs\<rparr>;
           case b of
             Some _ \<Rightarrow> do {
               let pk = pk\<lparr>qb := b, sent := snt, cb_arg := arg, ret := MAC_TX_DEFERRED,
                          transmissions := 0, max_transmissions := max_tx\<rparr>;
               arr \<leftarrow> wr (tx_array nb) (nat put_index) (Some j);
               let nb = nb\<lparr>tx_array := arr, tx_ringbuf := snd (ringbufindex_put (tx_ringbuf nb))\<rparr>;
               let q = q\<lparr>pkts := (pkts q)[j := pk], nbrs := (nbrs q)[i := nb]\<rparr>;
               let q = (if n_eb q = Some i then q\<lparr>num_eb_packets := num_eb_packets q + 1\<rparr> else q);
               Some (Some j, q)
             }
           | None \<Rightarrow> do {
               (_, m) \<leftarrow> memb_free (packet_memb q) j;
               Some (None, q\<lparr>packet_memb := m, pkts := (pkts q)[j := pk\<lparr>qb := None\<rparr>]\<rparr>)
             }
         }
     }
   }"

definition tsch_queue_add_packet ::
    "tsch_queue \<Rightarrow> pbuf \<Rightarrow> linkaddr \<Rightarrow> u8 \<Rightarrow> ptr \<Rightarrow> ptr \<Rightarrow> (ptr \<times> tsch_queue) option" where
  "tsch_queue_add_packet q pb addr max_tx snt arg =
     (if tsch_is_locked q then Some (None, q)
      else do {
        (n, q) \<leftarrow> tsch_queue_add_nbr q addr;
        case n of
          None \<Rightarrow> Some (None, q)
        | Some i \<Rightarrow> put_packet q pb i max_tx snt arg
      })"

text \<open>\<open>QUEUEBUF_NUM\<close> is the size of the pool of packets.\<close>

definition tsch_queue_global_packet_count :: "tsch_queue \<Rightarrow> int option" where
  "tsch_queue_global_packet_count q = map_option (\<lambda>k. int (mnum (packet_memb q)) - int k) (memb_numfree (packet_memb q))"

definition tsch_queue_packet_count :: "tsch_queue \<Rightarrow> linkaddr \<Rightarrow> (int \<times> tsch_queue) option" where
  "tsch_queue_packet_count q addr =
     (if tsch_is_locked q then Some (-1, q)
      else do {
        (n, q) \<leftarrow> tsch_queue_add_nbr q addr;
        case n of
          None \<Rightarrow> Some (-1, q)
        | Some i \<Rightarrow> do { nb \<leftarrow> rd (nbrs q) i; Some (ringbufindex_elements (tx_ringbuf nb), q) }
      })"


section \<open>After a transmission\<close>

text \<open>
  \<open>now\<close> is \<^verbatim>\<open>tsch_current_asn.ls4b\<close>, \<open>opts\<close> the options of the link and \<open>rnd\<close> the random number.
  \<^verbatim>\<open>TSCH_EXTENDED_RETRANSMISSIONS\<close> is off.  The time-based limit of the MASTER configuration
  replaces the packet's own one.
\<close>

definition retransmission_limit :: "u32 \<Rightarrow> u16 \<Rightarrow> u8 \<Rightarrow> u8" where
  "retransmission_limit now ttl tx = (
     let next_asn_ls4b = ucast now + 1 :: u16
     in if TSCH_SLOTNUM_LT (next_asn_ls4b - 1) ttl then ucast (ttl - (next_asn_ls4b - 1)) + tx else tx)"

definition tsch_queue_packet_sent ::
    "tsch_queue \<Rightarrow> nat \<Rightarrow> nat \<Rightarrow> u8 \<Rightarrow> mac_tx_status \<Rightarrow> u32 \<Rightarrow> u16 \<Rightarrow> (bool \<times> tsch_queue) option" where
  "tsch_queue_packet_sent q n p opts status now rnd = do {
     nb \<leftarrow> rd (nbrs q) n;
     let is_shared_link = (opts AND LINK_OPTION_SHARED \<noteq> 0);
     let is_unicast = (\<not> is_broadcast nb);
     if status = MAC_TX_OK then do {
       (_, q) \<leftarrow> tsch_queue_remove_packet_from_queue q (Some n);
       if is_unicast then do {
         e \<leftarrow> (if is_shared_link then Some True else tsch_queue_is_empty q (Some n));
         q \<leftarrow> (if e then upd_nbr q n tsch_queue_backoff_reset else Some q);
         Some (False, q)
       } else Some (False, q)
     } else do {
       pk \<leftarrow> rd (pkts q) p;
       b \<leftarrow> qb pk;
       ttl \<leftarrow> queuebuf_attr (qbufs q) b PACKETBUF_ATTR_TRANSMISSION_TTL;
       let pk = pk\<lparr>max_transmissions := retransmission_limit now ttl (transmissions pk)\<rparr>;
       let q = q\<lparr>pkts := (pkts q)[p := pk]\<rparr>;
       let drop_it = (max_transmissions pk \<le> transmissions pk);
       (_, q) \<leftarrow> (if drop_it then tsch_queue_remove_packet_from_queue q (Some n) else Some (None, q));
       q \<leftarrow> (if is_unicast \<and> is_shared_link then upd_nbr q n (tsch_queue_backoff_inc rnd) else Some q);
       Some (\<not> drop_it, q)
     }
   }"

section \<open>Maintenance\<close>

fun reset_all :: "nat list \<Rightarrow> tsch_queue \<Rightarrow> tsch_queue option" where
  "reset_all [] q = Some q"
| "reset_all (n # ns) q = do {
     q \<leftarrow> tsch_queue_flush_nbr_queue q (Some n);
     q \<leftarrow> upd_nbr q n tsch_queue_backoff_reset;
     reset_all ns q
   }"

definition tsch_queue_reset :: "tsch_queue \<Rightarrow> tsch_queue option" where
  "tsch_queue_reset q = (if tsch_is_locked q then Some q else reset_all (neighbor_list q) q)"

text \<open>The successor of an element is read before the element is removed: the walk follows the original list.\<close>

fun free_unused :: "nat list \<Rightarrow> tsch_queue \<Rightarrow> tsch_queue option" where
  "free_unused [] q = Some q"
| "free_unused (n # ns) q = do {
     nb \<leftarrow> rd (nbrs q) n;
     e \<leftarrow> (if \<not> is_broadcast nb \<and> \<not> is_time_source nb \<and> tx_links_count nb = 0
           then tsch_queue_is_empty q (Some n) else Some False);
     q \<leftarrow> (if e then tsch_queue_remove_nbr q (Some n) else Some q);
     free_unused ns q
   }"

definition tsch_queue_free_unused_neighbors :: "tsch_queue \<Rightarrow> tsch_queue option" where
  "tsch_queue_free_unused_neighbors q = (if tsch_is_locked q then Some q else free_unused (neighbor_list q) q)"

section \<open>Choosing a packet\<close>

text \<open>The link is its options, or \<^verbatim>\<open>NULL\<close>.\<close>

definition tsch_queue_get_packet_for_nbr :: "tsch_queue \<Rightarrow> ptr \<Rightarrow> u8 option \<Rightarrow> ptr option" where
  "tsch_queue_get_packet_for_nbr q n link =
     (if tsch_is_locked q then Some None
      else case n of
        None \<Rightarrow> Some None
      | Some i \<Rightarrow> do {
          nb \<leftarrow> rd (nbrs q) i;
          let is_shared_link = (case link of None \<Rightarrow> False | Some opts \<Rightarrow> opts AND LINK_OPTION_SHARED \<noteq> 0);
          let get_index = ringbufindex_peek_get (tx_ringbuf nb);
          if get_index \<noteq> -1 \<and> \<not> (is_shared_link \<and> \<not> tsch_queue_backoff_expired nb)
          then rd (tx_array nb) (nat get_index)
          else Some None
        })"

definition tsch_queue_get_packet_for_dest_addr :: "tsch_queue \<Rightarrow> linkaddr \<Rightarrow> u8 option \<Rightarrow> ptr option" where
  "tsch_queue_get_packet_for_dest_addr q addr link =
     (if tsch_is_locked q then Some None
      else do { n \<leftarrow> tsch_queue_get_nbr q addr; tsch_queue_get_packet_for_nbr q n link })"

fun unicast_packet_from :: "tsch_queue \<Rightarrow> u8 option \<Rightarrow> nat list \<Rightarrow> (ptr \<times> ptr) option" where
  "unicast_packet_from q link [] = Some (None, None)"
| "unicast_packet_from q link (n # ns) = do {
     nb \<leftarrow> rd (nbrs q) n;
     p \<leftarrow> (if \<not> is_broadcast nb \<and> tx_links_count nb = 0 then tsch_queue_get_packet_for_nbr q (Some n) link else Some None);
     if p \<noteq> None then Some (p, Some n) else unicast_packet_from q link ns
   }"

text \<open>The second component is the neighbor written to \<^verbatim>\<open>*n\<close> when a packet is found.\<close>

definition tsch_queue_get_unicast_packet_for_any :: "tsch_queue \<Rightarrow> u8 option \<Rightarrow> (ptr \<times> ptr) option" where
  "tsch_queue_get_unicast_packet_for_any q link =
     (if tsch_is_locked q then Some (None, None) else unicast_packet_from q link (neighbor_list q))"

definition backoff_tick :: "linkaddr \<Rightarrow> tsch_neighbor \<Rightarrow> tsch_neighbor" where
  "backoff_tick dest n =
     (if backoff_window n \<noteq> 0
        \<and> ((tx_links_count n = 0 \<and> linkaddr_cmp dest tsch_broadcast_address)
           \<or> (tx_links_count n > 0 \<and> linkaddr_cmp dest (naddr n)))
      then n\<lparr>backoff_window := backoff_window n - 1\<rparr> else n)"

fun tick_all :: "linkaddr \<Rightarrow> nat list \<Rightarrow> tsch_queue \<Rightarrow> tsch_queue option" where
  "tick_all dest [] q = Some q"
| "tick_all dest (n # ns) q = do { q \<leftarrow> upd_nbr q n (backoff_tick dest); tick_all dest ns q }"

definition tsch_queue_update_all_backoff_windows :: "tsch_queue \<Rightarrow> linkaddr \<Rightarrow> tsch_queue option" where
  "tsch_queue_update_all_backoff_windows q dest =
     (if tsch_is_locked q then Some q else tick_all dest (neighbor_list q) q)"

definition tsch_queue_init :: "tsch_queue \<Rightarrow> tsch_queue option" where
  "tsch_queue_init q = do {
     let q = q\<lparr>neighbor_list := [], neighbor_memb := memb_init (neighbor_memb q), packet_memb := memb_init (packet_memb q)\<rparr>;
     (e, q) \<leftarrow> tsch_queue_add_nbr q tsch_eb_address;
     let q = q\<lparr>n_eb := e\<rparr>;
     (b, q) \<leftarrow> tsch_queue_add_nbr q tsch_broadcast_address;
     Some (q\<lparr>n_broadcast := b\<rparr>)
   }"


section \<open>Invariant\<close>

definition nqueue :: "tsch_neighbor \<Rightarrow> ptr list" where
  "nqueue n = ring_contents 3 (tx_ringbuf n, tx_array n)"

abbreviation queue_of :: "tsch_queue \<Rightarrow> nat \<Rightarrow> ptr list" where
  "queue_of q i \<equiv> nqueue (nbrs q ! i)"

definition nbr_ok :: "tsch_neighbor \<Rightarrow> bool" where
  "nbr_ok n \<longleftrightarrow> ring_ok 3 (tx_ringbuf n, tx_array n) \<and> linkaddr_ok (naddr n)
     \<and> unat (backoff_exponent n) \<in> {1..5} \<and> unat (backoff_window n) \<le> 32"

abbreviation nbr_live :: "tsch_queue \<Rightarrow> nat set" where
  "nbr_live q \<equiv> used (neighbor_memb q)"

abbreviation pkt_live :: "tsch_queue \<Rightarrow> nat set" where
  "pkt_live q \<equiv> used (packet_memb q)"

definition nbrs_inv :: "nat \<Rightarrow> tsch_queue \<Rightarrow> bool" where
  "nbrs_inv nn q \<longleftrightarrow> elem_ok nn (neighbor_memb q) \<and> length (nbrs q) = nn
     \<and> distinct (neighbor_list q) \<and> set (neighbor_list q) \<subseteq> nbr_live q
     \<and> (\<forall>i \<in> nbr_live q. nbr_ok (nbrs q ! i))
     \<and> inj_on (\<lambda>i. naddr (nbrs q ! i)) (set (neighbor_list q))"

definition pkts_inv :: "nat \<Rightarrow> tsch_queue \<Rightarrow> bool" where
  "pkts_inv np q \<longleftrightarrow> elem_ok np (packet_memb q) \<and> length (pkts q) = np \<and> qb_inv np (qbufs q)
     \<and> (\<forall>j \<in> pkt_live q. \<exists>b \<in> qb_live (qbufs q). qb (pkts q ! j) = Some b)
     \<and> inj_on (\<lambda>j. qb (pkts q ! j)) (pkt_live q)"

text \<open>Every queued packet is allocated, and no packet is in two places of the queues.\<close>

definition own_inv :: "tsch_queue \<Rightarrow> bool" where
  "own_inv q \<longleftrightarrow> (\<forall>i \<in> nbr_live q. distinct (queue_of q i) \<and> set (queue_of q i) \<subseteq> Some ` pkt_live q)
     \<and> (\<forall>i \<in> nbr_live q. \<forall>j \<in> nbr_live q. i \<noteq> j \<longrightarrow> set (queue_of q i) \<inter> set (queue_of q j) = {})"

definition tq_inv :: "nat \<Rightarrow> nat \<Rightarrow> tsch_queue \<Rightarrow> bool" where
  "tq_inv nn np q \<longleftrightarrow> nbrs_inv nn q \<and> pkts_inv np q \<and> own_inv q"

named_theorems tq_defs \<open>parts of the invariant of the queues\<close>

declare nbrs_inv_def [tq_defs] pkts_inv_def [tq_defs] own_inv_def [tq_defs] tq_inv_def [tq_defs]

lemma tq_live_less: "tq_inv nn np q \<Longrightarrow> i \<in> nbr_live q \<Longrightarrow> i < length (nbrs q)"
  by (auto simp: tq_inv_def nbrs_inv_def dest: elem_used)

lemma tq_pkt_less: "tq_inv nn np q \<Longrightarrow> j \<in> pkt_live q \<Longrightarrow> j < length (pkts q)"
  by (auto simp: tq_inv_def pkts_inv_def dest: elem_used)

lemma tq_list_live: "tq_inv nn np q \<Longrightarrow> i \<in> set (neighbor_list q) \<Longrightarrow> i \<in> nbr_live q"
  by (auto simp: tq_inv_def nbrs_inv_def)

lemma tq_nbr_ok: "tq_inv nn np q \<Longrightarrow> i \<in> nbr_live q \<Longrightarrow> nbr_ok (nbrs q ! i)"
  by (auto simp: tq_inv_def nbrs_inv_def)

lemma tq_rd [simp]: "tq_inv nn np q \<Longrightarrow> i \<in> nbr_live q \<Longrightarrow> rd (nbrs q) i = Some (nbrs q ! i)"
  by (simp add: rd_in tq_live_less)

lemma tq_rd_pkt [simp]: "tq_inv nn np q \<Longrightarrow> j \<in> pkt_live q \<Longrightarrow> rd (pkts q) j = Some (pkts q ! j)"
  by (simp add: rd_in tq_pkt_less)

text \<open>Replacing one neighbor entry.\<close>

lemma tq_inv_set_nbr:
  assumes inv: "tq_inv nn np q" and i: "i \<in> nbr_live q" and ok: "nbr_ok nb" and a: "naddr nb = naddr (nbrs q ! i)"
    and qu: "distinct (nqueue nb)" "set (nqueue nb) \<subseteq> Some ` pkt_live q"
      "\<forall>j \<in> nbr_live q. j \<noteq> i \<longrightarrow> set (nqueue nb) \<inter> set (queue_of q j) = {}"
  shows "tq_inv nn np (q\<lparr>nbrs := (nbrs q)[i := nb]\<rparr>)"
proof -
  let ?q = "q\<lparr>nbrs := (nbrs q)[i := nb]\<rparr>"
  have nth: "nbrs ?q ! j = (if j = i then nb else nbrs q ! j)" for j
    using tq_live_less [OF inv i] by (auto simp: nth_list_update)
  have n: "(\<lambda>j. naddr (nbrs ?q ! j)) = (\<lambda>j. naddr (nbrs q ! j))"
    using a nth by auto
  have "nbrs_inv nn ?q"
    using inv ok n nth by (simp add: tq_inv_def nbrs_inv_def)
  moreover have "own_inv ?q"
    using inv qu nth by (auto simp: tq_inv_def own_inv_def)
  ultimately show ?thesis
    using inv by (simp add: tq_inv_def pkts_inv_def)
qed

text \<open>Updates that leave the ring and the address of the neighbor alone.\<close>

definition keeps_queue :: "(tsch_neighbor \<Rightarrow> tsch_neighbor) \<Rightarrow> bool" where
  "keeps_queue f \<longleftrightarrow> (\<forall>n. tx_array (f n) = tx_array n \<and> tx_ringbuf (f n) = tx_ringbuf n \<and> naddr (f n) = naddr n
     \<and> (nbr_ok n \<longrightarrow> nbr_ok (f n)))"

lemma upd_nbr_spec:
  assumes inv: "tq_inv nn np q" and i: "i \<in> nbr_live q" and f: "keeps_queue f"
  shows "upd_nbr q i f = Some (q\<lparr>nbrs := (nbrs q)[i := f (nbrs q ! i)]\<rparr>)
    \<and> tq_inv nn np (q\<lparr>nbrs := (nbrs q)[i := f (nbrs q ! i)]\<rparr>)"
proof
  show "upd_nbr q i f = Some (q\<lparr>nbrs := (nbrs q)[i := f (nbrs q ! i)]\<rparr>)"
    using inv i by (simp add: upd_nbr_def wr_in tq_live_less)
  have same: "nqueue (f n) = nqueue n" for n
    using f by (simp add: keeps_queue_def nqueue_def)
  show "tq_inv nn np (q\<lparr>nbrs := (nbrs q)[i := f (nbrs q ! i)]\<rparr>)"
    using inv i f tq_nbr_ok [OF inv i] by (intro tq_inv_set_nbr) (auto simp: same keeps_queue_def tq_inv_def own_inv_def)
qed

lemma nqueue_set_kept:
  "keeps_queue f \<Longrightarrow> i < length ns \<Longrightarrow> nqueue (ns[i := f (ns ! i)] ! j) = nqueue (ns ! j)"
  by (cases "j = i") (auto simp: keeps_queue_def nqueue_def)

lemma keeps_queue_reset: "keeps_queue tsch_queue_backoff_reset"
  by (auto simp: keeps_queue_def nbr_ok_def tsch_queue_backoff_reset_def TSCH_MAC_MIN_BE_def)

lemma keeps_queue_tick: "keeps_queue (backoff_tick dest)"
proof -
  have "unat (w - 1) \<le> 32" if "unat (w::u8) \<le> 32" "w \<noteq> 0" for w
    using that by (simp add: unat_minus_one)
  then show ?thesis
    by (auto simp: keeps_queue_def nbr_ok_def backoff_tick_def)
qed

lemma unat_pow2_u16:
  assumes "n < 16"
  shows "unat (2 ^ n :: u16) = 2 ^ n"
proof -
  have "2 ^ n < (2 ^ 16 :: nat)"
    using assms by (intro power_strict_increasing) auto
  then have "unat (of_nat (2 ^ n) :: u16) = 2 ^ n"
    unfolding unsigned_of_nat of_nat_id by (intro take_bit_nat_eq_self) simp
  then show ?thesis
    by simp
qed

lemma backoff_inc_bounds:
  assumes "unat (backoff_exponent n) \<in> {1..5}"
  shows "unat (backoff_exponent (tsch_queue_backoff_inc r n)) = min 5 (unat (backoff_exponent n) + 1)"
    "unat (backoff_window (tsch_queue_backoff_inc r n)) \<in> {1 .. 2 ^ unat (backoff_exponent (tsch_queue_backoff_inc r n))}"
proof -
  let ?e = "backoff_exponent (tsch_queue_backoff_inc r n)"
  have e: "?e = (if unat (backoff_exponent n) + 1 < 5 then backoff_exponent n + 1 else 5)"
    by (simp add: tsch_queue_backoff_inc_def Let_def TSCH_MAC_MAX_BE_def)
  show 1: "unat ?e = min 5 (unat (backoff_exponent n) + 1)"
  proof (cases "unat (backoff_exponent n) + 1 < 5")
    case True
    then have "unat (backoff_exponent n + 1) = unat (backoff_exponent n) + 1"
      by (subst unat_add_lem [THEN iffD1]) simp_all
    with True e show ?thesis
      by simp
  qed (use e in simp)
  then have le: "unat ?e \<le> 5" "1 \<le> unat ?e"
    using assms by auto
  have p: "unat (push_bit (unat ?e) 1 :: u16) = 2 ^ unat ?e"
    using le by (simp add: push_bit_eq_mult unat_pow2_u16)
  have w: "backoff_window (tsch_queue_backoff_inc r n) = ucast (drop_bit 6 r mod push_bit (unat ?e) 1) + 1"
    by (simp add: tsch_queue_backoff_inc_def Let_def)
  have "unat (drop_bit 6 r mod push_bit (unat ?e) 1) < 2 ^ unat ?e"
    unfolding unat_mod p by (rule mod_less_divisor) simp
  moreover have "(2::nat) ^ unat ?e \<le> 32"
    using le power_increasing [of "unat ?e" 5 "2::nat"] by simp
  ultimately have x: "unat (drop_bit 6 r mod push_bit (unat ?e) 1) < 32" "unat (drop_bit 6 r mod push_bit (unat ?e) 1) < 2 ^ unat ?e"
    by simp_all
  then have "unat (ucast (drop_bit 6 r mod push_bit (unat ?e) 1) :: u8) = unat (drop_bit 6 r mod push_bit (unat ?e) 1)"
    by (simp add: unsigned_ucast_eq take_bit_nat_eq_self)
  with x show "unat (backoff_window (tsch_queue_backoff_inc r n)) \<in> {1 .. 2 ^ unat ?e}"
    unfolding w by (subst unat_add_lem [THEN iffD1]) auto
qed

lemma keeps_queue_inc: "keeps_queue (tsch_queue_backoff_inc r)"
proof -
  have "nbr_ok (tsch_queue_backoff_inc r n)" if ok: "nbr_ok n" for n
  proof -
    have e: "unat (backoff_exponent n) \<in> {1..5}"
      using ok by (simp add: nbr_ok_def)
    then have le: "unat (backoff_exponent (tsch_queue_backoff_inc r n)) \<in> {1..5}"
      unfolding backoff_inc_bounds(1) [OF e] by auto
    then have "2 ^ unat (backoff_exponent (tsch_queue_backoff_inc r n)) \<le> (2::nat) ^ 5"
      by (intro power_increasing) auto
    then have "unat (backoff_window (tsch_queue_backoff_inc r n)) \<le> 32"
      using backoff_inc_bounds(2) [OF e, of r] by simp
    with le ok show ?thesis
      by (simp add: nbr_ok_def) (simp add: tsch_queue_backoff_inc_def Let_def)
  qed
  then show ?thesis
    by (simp add: keeps_queue_def) (simp add: tsch_queue_backoff_inc_def Let_def)
qed


section \<open>Finding and adding neighbors\<close>

lemma get_nbr_spec:
  assumes inv: "tq_inv nn np q" and unl: "\<not> locked q" and a: "linkaddr_ok a"
  obtains (found) i where "tsch_queue_get_nbr q a = Some (Some i)" "i \<in> set (neighbor_list q)" "naddr (nbrs q ! i) = a"
  | (absent) "tsch_queue_get_nbr q a = Some None" "\<forall>i \<in> set (neighbor_list q). naddr (nbrs q ! i) \<noteq> a"
proof -
  have lt: "\<forall>i \<in> set (neighbor_list q). i < length (nbrs q)"
    using tq_list_live [OF inv] tq_live_less [OF inv] by blast
  have cmp: "linkaddr_cmp (naddr (nbrs q ! i)) a \<longleftrightarrow> naddr (nbrs q ! i) = a" if "i \<in> set (neighbor_list q)" for i
    using tq_nbr_ok [OF inv tq_list_live [OF inv that]] a by (simp add: nbr_ok_def)
  have r: "tsch_queue_get_nbr q a = Some (find (\<lambda>i. linkaddr_cmp (naddr (nbrs q ! i)) a) (neighbor_list q))"
    using unl find_rd_find [OF lt] by (simp add: tsch_queue_get_nbr_def tsch_is_locked_def)
  show thesis
  proof (cases "find (\<lambda>i. linkaddr_cmp (naddr (nbrs q ! i)) a) (neighbor_list q)")
    case None
    with r cmp absent show thesis
      by (auto simp: find_None_iff)
  next
    case (Some i)
    then have "i \<in> set (neighbor_list q)" "linkaddr_cmp (naddr (nbrs q ! i)) a"
      by (auto simp: find_Some_iff)
    with r cmp Some found show thesis
      by auto
  qed
qed

lemma nbr_ok_new: "linkaddr_ok a \<Longrightarrow> nbr_ok (new_neighbor a) \<and> nqueue (new_neighbor a) = [] \<and> naddr (new_neighbor a) = a"
  using ring_init_inv [of 3]
  by (simp add: nbr_ok_def new_neighbor_def nqueue_def tsch_queue_backoff_reset_def TSCH_MAC_MIN_BE_def ring_ok_def
      TSCH_QUEUE_NUM_PER_NEIGHBOR_def ring_contents_def)

text \<open>What never changes when a neighbor is added.\<close>

definition same_packets :: "tsch_queue \<Rightarrow> tsch_queue \<Rightarrow> bool" where
  "same_packets q q' \<longleftrightarrow> packet_memb q' = packet_memb q \<and> pkts q' = pkts q \<and> qbufs q' = qbufs q
     \<and> n_eb q' = n_eb q \<and> num_eb_packets q' = num_eb_packets q \<and> sent_log q' = sent_log q \<and> locked q' = locked q
     \<and> n_broadcast q' = n_broadcast q \<and> is_coordinator q' = is_coordinator q \<and> ka_timeout q' = ka_timeout q"

lemma add_nbr_spec:
  assumes inv: "tq_inv nn np q" and unl: "\<not> locked q" and a: "linkaddr_ok a"
  obtains (found) i where "tsch_queue_add_nbr q a = Some (Some i, q)" "i \<in> set (neighbor_list q)" "naddr (nbrs q ! i) = a"
  | (full) "tsch_queue_add_nbr q a = Some (None, q)" "\<forall>i \<in> set (neighbor_list q). naddr (nbrs q ! i) \<noteq> a"
      "card (nbr_live q) = nn"
  | (new) i q' where "tsch_queue_add_nbr q a = Some (Some i, q')" "\<forall>i \<in> set (neighbor_list q). naddr (nbrs q ! i) \<noteq> a"
      "tq_inv nn np q'" "i \<notin> nbr_live q" "nbr_live q' = insert i (nbr_live q)" "neighbor_list q' = neighbor_list q @ [i]"
      "nbrs q' = (nbrs q)[i := new_neighbor a]" "nbrs q' ! i = new_neighbor a" "same_packets q q'"
  using inv unl a
proof (cases rule: get_nbr_spec)
  case (found i)
  with that(1) show thesis
    by (simp add: tsch_queue_add_nbr_def)
next
  case absent
  have nm: "elem_ok nn (neighbor_memb q)"
    using inv by (simp add: tq_defs)
  show thesis
  proof (cases rule: elem_alloc [OF nm])
    case 1
    with absent unl have "tsch_queue_add_nbr q a = Some (None, q)"
      by (simp add: tsch_queue_add_nbr_def tsch_get_lock_def tsch_release_lock_def)
    with that(2) absent 1 show thesis
      by blast
  next
    case (2 i m)
    have i_len: "i < length (nbrs q)"
      using 2 inv by (simp add: tq_defs)
    have i_list: "i \<notin> set (neighbor_list q)"
      using 2 tq_list_live [OF inv] by blast
    define q' where "q' = q\<lparr>neighbor_memb := m, nbrs := (nbrs q)[i := new_neighbor a],
      neighbor_list := neighbor_list q @ [i]\<rparr>"
    have run: "tsch_queue_add_nbr q a = Some (Some i, q')"
      using absent unl 2 i_len i_list
      by (simp add: tsch_queue_add_nbr_def tsch_get_lock_def tsch_release_lock_def wr_in q'_def remove1_idem)
    have nth: "nbrs q' ! j = (if j = i then new_neighbor a else nbrs q ! j)" for j
      using i_len by (auto simp: q'_def nth_list_update)
    have live: "nbr_live q' = insert i (nbr_live q)"
      using 2 by (simp add: q'_def)
    have "inj_on (\<lambda>j. naddr (nbrs q' ! j)) (set (neighbor_list q'))"
    proof -
      have inj: "inj_on (\<lambda>j. naddr (nbrs q ! j)) (set (neighbor_list q))"
        using inv by (simp add: tq_inv_def nbrs_inv_def)
      have set': "set (neighbor_list q') = insert i (set (neighbor_list q))"
        by (auto simp: q'_def)
      show ?thesis
        unfolding set' inj_on_def nth using absent(2) i_list nbr_ok_new [OF a] inj_onD [OF inj] by auto
    qed
    moreover have "\<forall>j \<in> nbr_live q'. nbr_ok (nbrs q' ! j)"
      unfolding live nth using tq_nbr_ok [OF inv] nbr_ok_new [OF a] by auto
    moreover have "elem_ok nn (neighbor_memb q')" "length (nbrs q') = nn" "distinct (neighbor_list q')"
        "set (neighbor_list q') \<subseteq> nbr_live q'"
      using inv 2 i_list by (auto simp: tq_inv_def nbrs_inv_def q'_def)
    ultimately have "nbrs_inv nn q'"
      by (simp add: nbrs_inv_def)
    moreover have "own_inv q'"
      using inv 2(4) nbr_ok_new [OF a] unfolding own_inv_def live nth
      by (auto simp: tq_inv_def own_inv_def) (auto simp: q'_def)
    moreover have "pkts_inv np q'"
      using inv by (simp add: tq_defs q'_def)
    ultimately have "tq_inv nn np q'"
      by (simp add: tq_inv_def)
    with run absent(2) 2(4) live nth [of i] show thesis
      by (intro that(3) [of i q']) (auto simp: q'_def same_packets_def)
  qed
qed


section \<open>Taking a packet from a queue\<close>

lemma tq_inv_frame [simp]:
  "tq_inv nn np (q\<lparr>num_eb_packets := e\<rparr>) = tq_inv nn np q"
  "tq_inv nn np (q\<lparr>sent_log := l\<rparr>) = tq_inv nn np q"
  "tq_inv nn np (q\<lparr>locked := b\<rparr>) = tq_inv nn np q"
  by (simp_all add: tq_defs)

lemma tq_queue_cases:
  assumes "tq_inv nn np q" "i \<in> nbr_live q"
  obtains (nil) "queue_of q i = []"
  | (cons) p rest where "queue_of q i = Some p # rest" "p \<in> pkt_live q"
proof (cases "queue_of q i")
  case (Cons x rest)
  moreover from this have "x \<in> Some ` pkt_live q"
    using assms by (auto simp: tq_inv_def own_inv_def)
  ultimately show thesis
    using cons by blast
qed (use nil in simp)

lemma ring_ok_nbr: "nbr_ok n \<Longrightarrow> ring_ok 3 (tx_ringbuf n, tx_array n)"
  by (simp add: nbr_ok_def)

lemma remove_packet_spec:
  assumes inv: "tq_inv nn np q" and unl: "\<not> locked q" and i: "i \<in> nbr_live q"
  obtains (empty) "queue_of q i = []" "tsch_queue_remove_packet_from_queue q (Some i) = Some (None, q)"
  | (head) p rest r e q' where "queue_of q i = Some p # rest" "p \<in> pkt_live q"
      "tsch_queue_remove_packet_from_queue q (Some i) = Some (Some p, q')" "tq_inv nn np q'"
      "q' = q\<lparr>nbrs := (nbrs q)[i := (nbrs q ! i)\<lparr>tx_ringbuf := r\<rparr>], num_eb_packets := e\<rparr>"
      "\<And>j. queue_of q' j = (if j = i then rest else queue_of q j)"
proof -
  let ?nb = "nbrs q ! i"
  have ok: "nbr_ok ?nb"
    by (rule tq_nbr_ok [OF inv i])
  have ring: "ring_ok 3 (tx_ringbuf ?nb, tx_array ?nb)"
    by (rule ring_ok_nbr [OF ok])
  have rinv: "ring_inv 3 (tx_ringbuf ?nb)" and len: "length (tx_array ?nb) = 8"
    using ring by (auto simp: ring_ok_def)
  show thesis
  proof (cases "queue_of q i")
    case Nil
    then have "ring_count 3 (tx_ringbuf ?nb) = 0"
      by (metis length_contents fst_conv list.size(3) nqueue_def)
    with ring_get_result [OF rinv] have "ringbufindex_get (tx_ringbuf ?nb) = (-1, tx_ringbuf ?nb)"
      by simp
    with inv i unl have "tsch_queue_remove_packet_from_queue q (Some i) = Some (None, q)"
      by (simp add: tsch_queue_remove_packet_from_queue_def tsch_is_locked_def)
    with empty Nil show thesis
      by blast
  next
    case (Cons x rest)
    then have "ring_count 3 (tx_ringbuf ?nb) \<noteq> 0"
      by (metis length_contents fst_conv list.distinct(1) length_0_conv nqueue_def)
    with ring_get_result [OF rinv] obtain r where
      r: "ringbufindex_get (tx_ringbuf ?nb) = (int (get_nat (tx_ringbuf ?nb)), r)"
      by auto
    have g: "get_nat (tx_ringbuf ?nb) < 8"
      using get_nat_less [OF rinv] by simp
    have deq: "ring_deq (tx_ringbuf ?nb, tx_array ?nb) = Some (tx_array ?nb ! get_nat (tx_ringbuf ?nb), (r, tx_array ?nb))"
      using r by (simp add: ring_deq_def)
    from ring_fifo.deq_Some [OF ring deq] have
      c: "queue_of q i = tx_array ?nb ! get_nat (tx_ringbuf ?nb) # nqueue (?nb\<lparr>tx_ringbuf := r\<rparr>)"
        "ring_ok 3 (r, tx_array ?nb)"
      by (auto simp: nqueue_def)
    from tq_queue_cases [OF inv i] Cons obtain p where p: "x = Some p" "p \<in> pkt_live q"
      by (metis list.inject list.distinct(1))
    define e where "e = (if n_eb q = Some i then num_eb_packets q - 1 else num_eb_packets q)"
    let ?nb' = "?nb\<lparr>tx_ringbuf := r\<rparr>"
    define q' where "q' = q\<lparr>nbrs := (nbrs q)[i := ?nb'], num_eb_packets := e\<rparr>"
    have rest: "nqueue ?nb' = rest"
      using c Cons by simp
    have run: "tsch_queue_remove_packet_from_queue q (Some i) = Some (Some p, q')"
      using inv i unl r len g c(1) Cons p
      by (auto simp: tsch_queue_remove_packet_from_queue_def tsch_is_locked_def rd_in q'_def e_def)
    have own: "distinct (queue_of q i)" "set (queue_of q i) \<subseteq> Some ` pkt_live q"
      "\<forall>j \<in> nbr_live q. j \<noteq> i \<longrightarrow> set (queue_of q i) \<inter> set (queue_of q j) = {}"
      using inv i by (auto simp: tq_inv_def own_inv_def)
    have "tq_inv nn np (q\<lparr>nbrs := (nbrs q)[i := ?nb']\<rparr>)"
      using own ok c(2) Cons by (intro tq_inv_set_nbr [OF inv i]) (auto simp: nbr_ok_def rest)
    then have "tq_inv nn np q'"
      by (simp add: q'_def)
    moreover have "queue_of q' j = (if j = i then rest else queue_of q j)" for j
      using tq_live_less [OF inv i] rest by (simp add: q'_def nth_list_update)
    ultimately show thesis
      using head [of p rest q' e r] Cons p run by (simp add: q'_def)
  qed
qed

lemma is_empty_spec:
  assumes "tq_inv nn np q" "\<not> locked q" "i \<in> nbr_live q"
  shows "tsch_queue_is_empty q (Some i) = Some (queue_of q i = [])"
proof -
  have "ring_inv 3 (tx_ringbuf (nbrs q ! i))"
    using ring_ok_nbr [OF tq_nbr_ok [OF assms(1,3)]] by (simp add: ring_ok_def)
  moreover have "queue_of q i = [] \<longleftrightarrow> ring_count 3 (tx_ringbuf (nbrs q ! i)) = 0"
    by (metis length_contents fst_conv length_0_conv nqueue_def)
  ultimately show ?thesis
    using assms by (simp add: tsch_queue_is_empty_def tsch_is_locked_def ring_empty_iff)
qed

lemma free_packet_spec:
  assumes inv: "tq_inv nn np q" and j: "j \<in> pkt_live q" and nq: "\<forall>i \<in> nbr_live q. Some j \<notin> set (queue_of q i)"
  obtains q' where "tsch_queue_free_packet q (Some j) = Some q'" "tq_inv nn np q'" "pkt_live q' = pkt_live q - {j}"
    "nbrs q' = nbrs q" "neighbor_list q' = neighbor_list q" "neighbor_memb q' = neighbor_memb q" "pkts q' = pkts q"
    "sent_log q' = sent_log q" "locked q' = locked q" "n_eb q' = n_eb q" "n_broadcast q' = n_broadcast q"
    "num_eb_packets q' = num_eb_packets q" "\<forall>b. qb_data (qbufs q') b = qb_data (qbufs q) b"
    "qb_live (qbufs q') = qb_live (qbufs q) - {the (qb (pkts q ! j))}"
proof -
  have pi: "pkts_inv np q"
    using inv by (simp add: tq_inv_def)
  then obtain b where b: "b \<in> qb_live (qbufs q)" "qb (pkts q ! j) = Some b"
    using j by (auto simp: pkts_inv_def)
  have qi: "qb_inv np (qbufs q)" and pm: "elem_ok np (packet_memb q)"
    using pi by (auto simp: pkts_inv_def)
  obtain qs where qs: "queuebuf_free (qbufs q) (Some b) = Some qs" "qb_inv np qs" "qb_live qs = qb_live (qbufs q) - {b}"
    "\<forall>c. qb_data qs c = qb_data (qbufs q) c"
    by (rule queuebuf_free_spec [OF qi b(1)])
  obtain c m where m: "memb_free (packet_memb q) j = Some (c, m)" "elem_ok np m" "used m = pkt_live q - {j}"
    by (rule elem_free [OF pm])
  define q' where "q' = q\<lparr>qbufs := qs, packet_memb := m\<rparr>"
  have "\<exists>c \<in> qb_live qs. qb (pkts q ! k) = Some c" if k: "k \<in> pkt_live q" "k \<noteq> j" for k
  proof -
    obtain c where "c \<in> qb_live (qbufs q)" "qb (pkts q ! k) = Some c"
      using pi k by (auto simp: pkts_inv_def)
    moreover from this have "c \<noteq> b"
      using inj_onD [of "\<lambda>j. qb (pkts q ! j)" "pkt_live q" k j] pi k j b by (auto simp: pkts_inv_def)
    ultimately show ?thesis
      using qs by auto
  qed
  then have "pkts_inv np q'"
    using pi qs m by (auto simp: pkts_inv_def q'_def intro: inj_on_subset)
  moreover have "own_inv q'"
    using inv nq m by (fastforce simp: tq_inv_def own_inv_def q'_def)
  moreover have "nbrs_inv nn q'"
    using inv by (simp add: tq_inv_def nbrs_inv_def q'_def)
  ultimately have "tq_inv nn np q'"
    by (simp add: tq_inv_def)
  then show thesis
    using inv j b qs m by (intro that [of q']) (simp_all add: tsch_queue_free_packet_def q'_def)
qed


section \<open>The queues by address\<close>

text \<open>The queue the upper layer sees: the packets waiting for an address, in order.\<close>

definition aqueue :: "tsch_queue \<Rightarrow> linkaddr \<Rightarrow> nat list" where
  "aqueue q a = (case find (\<lambda>i. naddr (nbrs q ! i) = a) (neighbor_list q) of
     None \<Rightarrow> [] | Some i \<Rightarrow> map the (queue_of q i))"

lemma tq_inj_addr:
  assumes "tq_inv nn np q" "i \<in> set (neighbor_list q)" "j \<in> set (neighbor_list q)" "naddr (nbrs q ! i) = naddr (nbrs q ! j)"
  shows "i = j"
  using assms inj_onD [of "\<lambda>i. naddr (nbrs q ! i)" "set (neighbor_list q)" i j]
  by (simp add: tq_inv_def nbrs_inv_def)

lemma aqueue_at:
  assumes "tq_inv nn np q" "i \<in> set (neighbor_list q)" "naddr (nbrs q ! i) = a"
  shows "aqueue q a = map the (queue_of q i)"
proof (cases "find (\<lambda>i. naddr (nbrs q ! i) = a) (neighbor_list q)")
  case None
  with assms show ?thesis
    by (auto simp: find_None_iff)
next
  case (Some j)
  then have "j \<in> set (neighbor_list q)" "naddr (nbrs q ! j) = a"
    by (auto simp: find_Some_iff)
  with tq_inj_addr [OF assms(1,2), of j] assms(3) Some show ?thesis
    by (simp add: aqueue_def)
qed

lemma aqueue_absent: "\<forall>i \<in> set (neighbor_list q). naddr (nbrs q ! i) \<noteq> a \<Longrightarrow> aqueue q a = []"
  by (auto simp: aqueue_def find_Some_iff split: option.splits)

lemma aqueue_cases:
  assumes "tq_inv nn np q"
  obtains (nbr) i where "i \<in> set (neighbor_list q)" "naddr (nbrs q ! i) = a" "aqueue q a = map the (queue_of q i)"
  | (none) "\<forall>i \<in> set (neighbor_list q). naddr (nbrs q ! i) \<noteq> a" "aqueue q a = []"
  using aqueue_at [OF assms] aqueue_absent by metis

text \<open>A change of one queue, and of no address, changes the queue of one address.\<close>

lemma aqueue_change:
  assumes inv: "tq_inv nn np q" "tq_inv nn np q'" and i: "i \<in> set (neighbor_list q)"
    and l: "neighbor_list q' = neighbor_list q"
    and a: "\<forall>j \<in> set (neighbor_list q). naddr (nbrs q' ! j) = naddr (nbrs q ! j)"
    and others: "\<forall>j \<in> set (neighbor_list q). j \<noteq> i \<longrightarrow> queue_of q' j = queue_of q j"
  shows "aqueue q' = (aqueue q)(naddr (nbrs q ! i) := map the (queue_of q' i))"
proof
  fix b
  show "aqueue q' b = ((aqueue q)(naddr (nbrs q ! i) := map the (queue_of q' i))) b"
    using inv(1)
  proof (cases rule: aqueue_cases [of nn np q b])
    case (nbr j)
    have "aqueue q' b = map the (queue_of q' j)"
      using nbr a l by (intro aqueue_at [OF inv(2)]) auto
    with nbr others tq_inj_addr [OF inv(1) i nbr(1)] show ?thesis
      by auto
  next
    case none
    with a l i aqueue_absent [of q' b] show ?thesis
      by auto
  qed
qed

lemma aqueue_same:
  assumes inv: "tq_inv nn np q" "tq_inv nn np q'" and l: "neighbor_list q' = neighbor_list q"
    and a: "\<forall>j \<in> set (neighbor_list q). naddr (nbrs q' ! j) = naddr (nbrs q ! j) \<and> queue_of q' j = queue_of q j"
  shows "aqueue q' = aqueue q"
proof
  fix b
  show "aqueue q' b = aqueue q b"
    using inv(1)
  proof (cases rule: aqueue_cases [of nn np q b])
    case (nbr j)
    have "aqueue q' b = map the (queue_of q' j)"
      using nbr a l by (intro aqueue_at [OF inv(2)]) auto
    with nbr a show ?thesis
      by auto
  next
    case none
    with a l aqueue_absent [of q' b] show ?thesis
      by auto
  qed
qed

lemma aqueue_add_nbr:
  assumes inv: "tq_inv nn np q" "tq_inv nn np q'" and l: "neighbor_list q' = neighbor_list q @ [i]"
    and n: "nbrs q' = (nbrs q)[i := new_neighbor a]" and a: "linkaddr_ok a" and i: "i \<notin> nbr_live q" "i < length (nbrs q)"
  shows "aqueue q' = aqueue q"
proof
  fix b
  have nth: "nbrs q' ! j = (if j = i then new_neighbor a else nbrs q ! j)" for j
    using i n by (auto simp: nth_list_update)
  have new: "\<forall>j \<in> set (neighbor_list q). j \<noteq> i"
    using i tq_list_live [OF inv(1)] by blast
  show "aqueue q' b = aqueue q b"
    using inv(1)
  proof (cases rule: aqueue_cases [of nn np q b])
    case (nbr j)
    have "aqueue q' b = map the (queue_of q' j)"
      using nbr l nth new by (intro aqueue_at [OF inv(2)]) auto
    with nbr nth new show ?thesis
      by auto
  next
    case none
    show ?thesis
    proof (cases "b = a")
      case True
      have "aqueue q' b = map the (queue_of q' i)"
        using l nth nbr_ok_new [OF a] True by (intro aqueue_at [OF inv(2)]) auto
      with none nth nbr_ok_new [OF a] show ?thesis
        by simp
    next
      case False
      with none l nth nbr_ok_new [OF a] aqueue_absent [of q' b] new show ?thesis
        by auto
    qed
  qed
qed


section \<open>Adding a packet\<close>

lemma tq_add_nbr:
  assumes inv: "tq_inv nn np q" and unl: "\<not> locked q" and a: "linkaddr_ok a"
  obtains (full) "tsch_queue_add_nbr q a = Some (None, q)" "a \<notin> (\<lambda>i. naddr (nbrs q ! i)) ` set (neighbor_list q)"
      "card (nbr_live q) = nn"
  | (nbr) i q' where "tsch_queue_add_nbr q a = Some (Some i, q')" "tq_inv nn np q'" "i \<in> set (neighbor_list q')"
      "naddr (nbrs q' ! i) = a" "aqueue q' = aqueue q" "same_packets q q'"
  using inv unl a
proof (cases rule: add_nbr_spec)
  case (found i)
  with nbr inv show thesis
    by (simp add: same_packets_def)
next
  case full
  with that(1) show thesis
    by auto
next
  case (new i q')
  have "i < length (nbrs q)"
    using new(3,5,7) inv by (metis insertI1 length_list_update tq_live_less)
  with new nbr [of i q'] nbr_ok_new [OF a] aqueue_add_nbr [OF inv new(3,6,7) a new(4)] show thesis
    by simp
qed

text \<open>The fields of a packet that was just stored.\<close>

definition fresh_packet :: "tsch_queue \<Rightarrow> nat \<Rightarrow> pbuf \<Rightarrow> u8 \<Rightarrow> ptr \<Rightarrow> ptr \<Rightarrow> bool" where
  "fresh_packet q j pb mx snt arg \<longleftrightarrow> sent (pkts q ! j) = snt \<and> cb_arg (pkts q ! j) = arg
     \<and> ret (pkts q ! j) = MAC_TX_DEFERRED \<and> transmissions (pkts q ! j) = 0 \<and> max_transmissions (pkts q ! j) = mx
     \<and> (\<exists>b. qb (pkts q ! j) = Some b \<and> holds_packet (qb_data (qbufs q) b) pb)"

lemma put_packet_spec:
  assumes inv: "tq_inv nn np q" and i: "i \<in> nbr_live q" and il: "i \<in> set (neighbor_list q)" and pb: "pb_inv pb"
  obtains (refused) q' where "put_packet q pb i mx snt arg = Some (None, q')" "tq_inv nn np q'"
      "aqueue q' = aqueue q" "pkt_live q' = pkt_live q"
      "length (queue_of q i) = 7 \<or> card (pkt_live q) = np \<or> card (qb_live (qbufs q)) = np" "locked q' = locked q"
  | (stored) j q' where "put_packet q pb i mx snt arg = Some (Some j, q')" "tq_inv nn np q'"
      "aqueue q' = (aqueue q)(naddr (nbrs q ! i) := map the (queue_of q i) @ [j])"
      "pkt_live q' = insert j (pkt_live q)" "j \<notin> pkt_live q" "fresh_packet q' j pb mx snt arg"
      "length (queue_of q i) < 7" "locked q' = locked q"
proof -
  let ?nb = "nbrs q ! i"
  have ok: "nbr_ok ?nb"
    by (rule tq_nbr_ok [OF inv i])
  have ring: "ring_ok 3 (tx_ringbuf ?nb, tx_array ?nb)"
    by (rule ring_ok_nbr [OF ok])
  have rinv: "ring_inv 3 (tx_ringbuf ?nb)" and len: "length (tx_array ?nb) = 8"
    using ring by (auto simp: ring_ok_def)
  have cnt: "length (queue_of q i) = ring_count 3 (tx_ringbuf ?nb)"
    by (simp add: nqueue_def)
  have pi: "pkts_inv np q"
    using inv by (simp add: tq_inv_def)
  then have pm: "elem_ok np (packet_memb q)" and qi: "qb_inv np (qbufs q)" and plen: "length (pkts q) = np"
    by (auto simp: pkts_inv_def)
  note run = put_packet_def tq_rd [OF inv i]
  show thesis
  proof (cases "ring_count 3 (tx_ringbuf ?nb) = 7")
    case True
    with ring_put_result [OF rinv] have "put_packet q pb i mx snt arg = Some (None, q)"
      by (simp add: run)
    with refused inv cnt True show thesis
      by simp
  next
    case False
    with ring_put_result [OF rinv] have peek: "ringbufindex_peek_put (tx_ringbuf ?nb) = int (put_nat (tx_ringbuf ?nb))"
      by simp
    show thesis
    proof (cases rule: elem_alloc [OF pm])
      case 1
      with peek have "put_packet q pb i mx snt arg = Some (None, q)"
        by (simp add: run)
      with refused inv 1 show thesis
        by simp
    next
      case j: (2 j m)
      show thesis
      proof (cases rule: queuebuf_new_spec [OF qi pb])
        case 1
        obtain c m' where m': "memb_free m j = Some (c, m')" "elem_ok np m'" "used m' = used m - {j}"
          by (rule elem_free [OF j(2)])
        define q' where "q' = q\<lparr>packet_memb := m', pkts := (pkts q)[j := (pkts q ! j)\<lparr>qb := None\<rparr>]\<rparr>"
        have live: "used m' = pkt_live q"
          using m' j by auto
        have "put_packet q pb i mx snt arg = Some (None, q')"
          using peek j 1 m' plen by (simp add: run rd_in q'_def)
        moreover have "pkts_inv np q'"
          using pi m' live j(4) by (auto simp: pkts_inv_def q'_def nth_list_update inj_on_def)
        then have inv': "tq_inv nn np q'"
          using inv live by (simp add: tq_inv_def nbrs_inv_def own_inv_def q'_def)
        moreover have "aqueue q' = aqueue q"
          by (rule aqueue_same [OF inv inv']) (simp_all add: q'_def)
        ultimately show thesis
          using refused live 1 by (simp add: q'_def)
      next
        case b: (2 b qs)
        let ?pk = "(pkts q ! j)\<lparr>qb := Some b, sent := snt, cb_arg := arg, ret := MAC_TX_DEFERRED,
          transmissions := 0, max_transmissions := mx\<rparr>"
        let ?nb' = "?nb\<lparr>tx_array := (tx_array ?nb)[put_nat (tx_ringbuf ?nb) := Some j],
          tx_ringbuf := snd (ringbufindex_put (tx_ringbuf ?nb))\<rparr>"
        have pl: "put_nat (tx_ringbuf ?nb) < 8"
          using put_nat_less [OF rinv] by simp
        have enq: "ring_enq (tx_ringbuf ?nb, tx_array ?nb) (Some j) = Some (tx_ringbuf ?nb', tx_array ?nb')"
          using peek by (simp add: ring_enq_def)
        from ring_fifo.enq_Some [OF ring enq] have
          c: "nqueue ?nb' = queue_of q i @ [Some j]" "ring_ok 3 (tx_ringbuf ?nb', tx_array ?nb')"
          by (auto simp: nqueue_def)
        define e where "e = (if n_eb q = Some i then num_eb_packets q + 1 else num_eb_packets q)"
        define q1 where "q1 = q\<lparr>packet_memb := m, qbufs := qs, pkts := (pkts q)[j := ?pk]\<rparr>"
        define q' where "q' = q1\<lparr>nbrs := (nbrs q1)[i := ?nb'], num_eb_packets := e\<rparr>"
        have live: "pkt_live q' = insert j (pkt_live q)"
          using j by (simp add: q'_def q1_def)
        have "put_packet q pb i mx snt arg = Some (Some j, q')"
          using peek j b plen pl len by (auto simp: run rd_in wr_in q'_def q1_def e_def)
        moreover have "pkts_inv np q1"
        proof -
          have "\<exists>b \<in> qb_live qs. qb ((pkts q)[j := ?pk] ! k) = Some b" if "k \<in> insert j (pkt_live q)" for k
            using that pi b j plen by (cases "k = j") (auto simp: pkts_inv_def)
          moreover have "inj_on (\<lambda>k. qb ((pkts q)[j := ?pk] ! k)) (insert j (pkt_live q))"
            using pi b j plen by (auto simp: pkts_inv_def inj_on_def nth_list_update)
          ultimately show ?thesis
            using j b plen by (simp add: pkts_inv_def q1_def)
        qed
        then have inv1: "tq_inv nn np q1"
          using inv j by (auto simp: tq_inv_def nbrs_inv_def own_inv_def q1_def)
        have own: "distinct (queue_of q i)" "set (queue_of q i) \<subseteq> Some ` pkt_live q"
          "\<forall>k \<in> nbr_live q. set (queue_of q k) \<subseteq> Some ` pkt_live q"
          "\<forall>k \<in> nbr_live q. k \<noteq> i \<longrightarrow> set (queue_of q i) \<inter> set (queue_of q k) = {}"
          using inv i by (auto simp: tq_inv_def own_inv_def)
        have "tq_inv nn np (q1\<lparr>nbrs := (nbrs q1)[i := ?nb']\<rparr>)"
          using own c ok j i by (intro tq_inv_set_nbr [OF inv1]) (auto simp: q1_def nbr_ok_def)
        then have inv': "tq_inv nn np q'"
          by (simp add: q'_def)
        moreover have "aqueue q' = (aqueue q)(naddr (nbrs q ! i) := map the (queue_of q' i))"
          using tq_live_less [OF inv i]
          by (intro aqueue_change [OF inv inv' il]) (auto simp: q'_def q1_def nth_list_update)
        moreover have "map the (queue_of q' i) = map the (queue_of q i) @ [j]"
          using tq_live_less [OF inv i] c by (simp add: q'_def q1_def)
        moreover have "fresh_packet q' j pb mx snt arg"
          using b j plen by (simp add: fresh_packet_def q'_def q1_def)
        moreover have "length (queue_of q i) < 7"
          using False cnt count_less [of 3 "tx_ringbuf ?nb"] by simp
        ultimately show thesis
          using stored live j(4) by (simp add: q'_def q1_def)
      qed
    qed
  qed
qed


section \<open>Flushing a queue\<close>

text \<open>The callbacks of the packets \<open>js\<close>, each told that its packet failed.\<close>

definition failure_log :: "tsch_packet list \<Rightarrow> nat list \<Rightarrow> (ptr \<times> mac_tx_status \<times> u8) list" where
  "failure_log ps js = concat (map (\<lambda>j. case sent (ps ! j) of None \<Rightarrow> []
     | Some _ \<Rightarrow> [(cb_arg (ps ! j), MAC_TX_ERR, transmissions (ps ! j))]) js)"

lemma tq_inv_set_pkt:
  assumes "tq_inv nn np q" "qb pk = qb (pkts q ! j)"
  shows "tq_inv nn np (q\<lparr>pkts := (pkts q)[j := pk]\<rparr>)"
proof -
  have "qb ((pkts q)[j := pk] ! k) = qb (pkts q ! k)" for k
    using assms(2) by (cases "k = j"; cases "j < length (pkts q)") (auto simp: list_update_beyond)
  with assms(1) show ?thesis
    by (simp add: tq_defs)
qed

lemma failure_log_set: "j \<notin> set js \<Longrightarrow> failure_log (ps[j := pk]) js = failure_log ps js"
  by (induction js) (auto simp: failure_log_def split: option.splits)

text \<open>The effect of emptying the queue of neighbor \<open>i\<close>.\<close>

definition flushed :: "tsch_queue \<Rightarrow> nat \<Rightarrow> tsch_queue \<Rightarrow> bool" where
  "flushed q i q' \<longleftrightarrow> queue_of q' i = [] \<and> (\<forall>j. j \<noteq> i \<longrightarrow> nbrs q' ! j = nbrs q ! j)
     \<and> nbrs q' ! i = (nbrs q ! i)\<lparr>tx_ringbuf := tx_ringbuf (nbrs q' ! i)\<rparr>
     \<and> pkt_live q' = pkt_live q - the ` set (queue_of q i)
     \<and> sent_log q' = sent_log q @ failure_log (pkts q) (map the (queue_of q i))
     \<and> neighbor_list q' = neighbor_list q \<and> neighbor_memb q' = neighbor_memb q \<and> locked q' = locked q
     \<and> n_eb q' = n_eb q \<and> n_broadcast q' = n_broadcast q
     \<and> (\<forall>j. j \<notin> the ` set (queue_of q i) \<longrightarrow> pkts q' ! j = pkts q ! j)
     \<and> qb_live (qbufs q') \<subseteq> qb_live (qbufs q) \<and> (\<forall>b. qb_data (qbufs q') b = qb_data (qbufs q) b)"

lemma flush_spec:
  assumes "tq_inv nn np q" "\<not> locked q" "i \<in> nbr_live q"
  shows "\<exists>q'. tsch_queue_flush_nbr_queue q (Some i) = Some q' \<and> tq_inv nn np q' \<and> flushed q i q'"
  using assms
proof (induction "queue_of q i" arbitrary: q)
  case Nil
  then show ?case
    using is_empty_spec [OF Nil.prems] by (subst tsch_queue_flush_nbr_queue.simps) (simp add: flushed_def failure_log_def)
next
  case (Cons x rest)
  note inv = Cons.prems(1) and unl = Cons.prems(2) and i = Cons.prems(3)
  have ne: "queue_of q i \<noteq> []"
    using Cons.hyps(2) by (metis list.distinct(1))
  show ?case
    using inv unl i
  proof (cases rule: remove_packet_spec)
    case empty
    with ne show ?thesis
      by simp
  next
    case (head p rest' r e q1)
    have q_i: "queue_of q i = Some p # rest" and x: "x = Some p"
      using head(1) Cons.hyps(2) by auto
    have rest: "rest' = rest"
      using head(1) q_i by simp
    let ?pk = "(pkts q ! p)\<lparr>ret := MAC_TX_ERR\<rparr>"
    define q2 where "q2 = mac_call_sent_callback (q1\<lparr>pkts := (pkts q1)[p := ?pk]\<rparr>) ?pk"
    have same1: "pkts q1 = pkts q" "pkt_live q1 = pkt_live q" "nbr_live q1 = nbr_live q"
      using head(5) by simp_all
    have "tq_inv nn np (q1\<lparr>pkts := (pkts q1)[p := ?pk]\<rparr>)"
      using same1 by (intro tq_inv_set_pkt [OF head(4)]) simp
    then have inv2: "tq_inv nn np q2"
      by (simp add: q2_def mac_call_sent_callback_def split: option.splits)
    have same2: "nbrs q2 = nbrs q1" "pkt_live q2 = pkt_live q" "nbr_live q2 = nbr_live q"
      "pkts q2 = (pkts q)[p := ?pk]" "neighbor_list q2 = neighbor_list q" "neighbor_memb q2 = neighbor_memb q"
      "locked q2 = locked q" "qbufs q2 = qbufs q" "n_eb q2 = n_eb q" "n_broadcast q2 = n_broadcast q"
      "sent_log q2 = sent_log q @ failure_log (pkts q) [p]"
      using head(5) same1
      by (auto simp: q2_def mac_call_sent_callback_def failure_log_def split: option.splits)
    have own: "distinct (queue_of q i)" "\<forall>j \<in> nbr_live q. j \<noteq> i \<longrightarrow> set (queue_of q i) \<inter> set (queue_of q j) = {}"
      using inv i by (auto simp: tq_inv_def own_inv_def)
    have nq: "\<forall>j \<in> nbr_live q2. Some p \<notin> set (queue_of q2 j)"
      using own q_i head(6) rest by (auto simp: same2)
    have p2: "p \<in> pkt_live q2"
      using head(2) same2 by simp
    obtain q3 where q3: "tsch_queue_free_packet q2 (Some p) = Some q3" "tq_inv nn np q3" "pkt_live q3 = pkt_live q2 - {p}"
      "nbrs q3 = nbrs q2" "neighbor_list q3 = neighbor_list q2" "neighbor_memb q3 = neighbor_memb q2" "pkts q3 = pkts q2"
      "sent_log q3 = sent_log q2" "locked q3 = locked q2" "n_eb q3 = n_eb q2" "n_broadcast q3 = n_broadcast q2"
      "\<forall>b. qb_data (qbufs q3) b = qb_data (qbufs q2) b" "qb_live (qbufs q3) = qb_live (qbufs q2) - {the (qb (pkts q2 ! p))}"
      by (rule free_packet_spec [OF inv2 p2 nq])
    have q3_i: "rest = queue_of q3 i"
      using head(6) rest same2 q3 by simp
    obtain q4 where q4: "tsch_queue_flush_nbr_queue q3 (Some i) = Some q4" "tq_inv nn np q4" "flushed q3 i q4"
      using Cons.hyps(1) [OF q3_i q3(2)] q3 same2 i unl by auto
    have rd1: "rd (pkts q1) p = Some (pkts q ! p)"
      using tq_rd_pkt [OF head(4), of p] head(2) same1 by simp
    have "tsch_queue_flush_nbr_queue q (Some i) = Some q4"
      using is_empty_spec [OF inv unl i] ne head(3) rd1 q3(1) q4(1)
      by (subst tsch_queue_flush_nbr_queue.simps) (simp add: q2_def [symmetric])
    moreover have "flushed q i q4"
    proof -
      have notin: "p \<notin> the ` set rest" "p \<notin> set (map the rest)"
      proof -
        have "Some y \<in> set rest" if "y \<in> the ` set rest" for y
        proof -
          have "set (queue_of q i) \<subseteq> Some ` pkt_live q"
            using inv i by (simp add: tq_inv_def own_inv_def)
          then have "set rest \<subseteq> Some ` pkt_live q"
            by (simp add: q_i)
          with that show ?thesis
            by auto
        qed
        then show "p \<notin> the ` set rest" "p \<notin> set (map the rest)"
          using own(1) q_i by auto
      qed
      have n1: "nbrs q1 ! j = (if j = i then (nbrs q ! i)\<lparr>tx_ringbuf := r\<rparr> else nbrs q ! j)" for j
        using head(5) tq_live_less [OF inv i] by simp
      have "failure_log (pkts q) [p] @ failure_log (pkts q) (map the rest) = failure_log (pkts q) (map the (queue_of q i))"
        by (simp add: failure_log_def q_i)
      moreover have "pkt_live q - {p} - the ` set rest = pkt_live q - the ` set (queue_of q i)"
        by (auto simp: q_i)
      moreover have "pkts q4 ! j = pkts q ! j" if "j \<notin> the ` set (queue_of q i)" for j
        using q4(3) that q3(7) same2(4) q3_i by (auto simp: flushed_def q_i)
      moreover have "nbrs q4 ! i = (nbrs q ! i)\<lparr>tx_ringbuf := tx_ringbuf (nbrs q4 ! i)\<rparr>"
      proof -
        have "nbrs q4 ! i = (nbrs q3 ! i)\<lparr>tx_ringbuf := tx_ringbuf (nbrs q4 ! i)\<rparr>"
          using q4(3) by (simp add: flushed_def)
        also have "nbrs q3 ! i = (nbrs q ! i)\<lparr>tx_ringbuf := r\<rparr>"
          by (simp add: q3 same2 n1)
        finally show ?thesis
          by simp
      qed
      moreover have "queue_of q4 i = []" "\<forall>j. j \<noteq> i \<longrightarrow> nbrs q4 ! j = nbrs q3 ! j"
          "pkt_live q4 = pkt_live q3 - the ` set rest"
          "sent_log q4 = sent_log q3 @ failure_log (pkts q3) (map the rest)"
          "neighbor_list q4 = neighbor_list q3" "neighbor_memb q4 = neighbor_memb q3" "locked q4 = locked q3"
          "n_eb q4 = n_eb q3" "n_broadcast q4 = n_broadcast q3"
          "qb_live (qbufs q4) \<subseteq> qb_live (qbufs q3)" "\<forall>b. qb_data (qbufs q4) b = qb_data (qbufs q3) b"
        using q4(3) unfolding flushed_def q3_i [symmetric] by blast+
      ultimately show ?thesis
        unfolding flushed_def by (intro conjI) (simp_all add: q3 same2 n1 failure_log_set [OF notin(2)] subset_iff)
    qed
    ultimately show ?thesis
      using q4(2) by blast
  qed
qed


lemma tq_inv_unlist:
  assumes "tq_inv nn np q"
  shows "tq_inv nn np (q\<lparr>neighbor_list := remove1 i (neighbor_list q)\<rparr>)"
  using assms set_remove1_subset [of i "neighbor_list q"]
  by (auto simp: tq_defs intro: inj_on_subset)

text \<open>A neighbor that is not in the list any more can be given back, its queue being empty.\<close>

lemma tq_inv_free_nbr:
  assumes inv: "tq_inv nn np q" and i: "i \<notin> set (neighbor_list q)"
  obtains c m where "memb_free (neighbor_memb q) i = Some (c, m)" "used m = nbr_live q - {i}"
    "tq_inv nn np (q\<lparr>neighbor_memb := m\<rparr>)"
proof -
  have nm: "elem_ok nn (neighbor_memb q)"
    using inv by (simp add: tq_inv_def nbrs_inv_def)
  obtain c m where m: "memb_free (neighbor_memb q) i = Some (c, m)" "elem_ok nn m" "used m = nbr_live q - {i}"
    by (rule elem_free [OF nm])
  then have "tq_inv nn np (q\<lparr>neighbor_memb := m\<rparr>)"
    using inv i by (auto simp: tq_defs)
  with m that show thesis
    by blast
qed

lemma remove_nbr_spec:
  assumes inv: "tq_inv nn np q" and unl: "\<not> locked q" and i: "i \<in> nbr_live q"
  obtains q' where "tsch_queue_remove_nbr q (Some i) = Some q'" "tq_inv nn np q'" "nbr_live q' = nbr_live q - {i}"
    "neighbor_list q' = remove1 i (neighbor_list q)" "pkt_live q' = pkt_live q - the ` set (queue_of q i)"
    "\<forall>j. j \<noteq> i \<longrightarrow> nbrs q' ! j = nbrs q ! j" "locked q' = locked q"
    "sent_log q' = sent_log q @ failure_log (pkts q) (map the (queue_of q i))"
    "n_eb q' = n_eb q" "n_broadcast q' = n_broadcast q" "\<forall>j. j \<notin> the ` set (queue_of q i) \<longrightarrow> pkts q' ! j = pkts q ! j"
    "\<forall>b. qb_data (qbufs q') b = qb_data (qbufs q) b"
proof -
  define q1 where "q1 = q\<lparr>neighbor_list := remove1 i (neighbor_list q)\<rparr>"
  have q1: "tsch_release_lock ((q\<lparr>locked := True\<rparr>)\<lparr>neighbor_list := remove1 i (neighbor_list q)\<rparr>) = q1"
    using unl by (simp add: tsch_release_lock_def q1_def)
  have inv1: "tq_inv nn np q1"
    unfolding q1_def by (rule tq_inv_unlist [OF inv])
  have notin: "i \<notin> set (neighbor_list q1)"
    using inv by (simp add: q1_def tq_inv_def nbrs_inv_def)
  obtain q2 where q2: "tsch_queue_flush_nbr_queue q1 (Some i) = Some q2" "tq_inv nn np q2" "flushed q1 i q2"
    using flush_spec [OF inv1, of i] unl i by (auto simp: q1_def)
  have l2: "i \<notin> set (neighbor_list q2)" "nbr_live q2 = nbr_live q"
    using q2(3) notin by (simp_all add: flushed_def) (simp add: q1_def)
  obtain c m where m: "memb_free (neighbor_memb q2) i = Some (c, m)" "used m = nbr_live q2 - {i}"
    "tq_inv nn np (q2\<lparr>neighbor_memb := m\<rparr>)"
    by (rule tq_inv_free_nbr [OF q2(2) l2(1)])
  show thesis
  proof (rule that [of "q2\<lparr>neighbor_memb := m\<rparr>"])
    show "tsch_queue_remove_nbr q (Some i) = Some (q2\<lparr>neighbor_memb := m\<rparr>)"
      using unl q2(1) m(1) q1 by (simp add: tsch_queue_remove_nbr_def tsch_get_lock_def)
  qed (use q2(3) m l2 in \<open>auto simp: flushed_def q1_def\<close>)
qed

lemma remove_nbr_empty:
  assumes inv: "tq_inv nn np q" and unl: "\<not> locked q" and i: "i \<in> nbr_live q" and e: "queue_of q i = []"
  obtains m where "tsch_queue_remove_nbr q (Some i) = Some (q\<lparr>neighbor_list := remove1 i (neighbor_list q), neighbor_memb := m\<rparr>)"
    "used m = nbr_live q - {i}"
    "tq_inv nn np (q\<lparr>neighbor_list := remove1 i (neighbor_list q), neighbor_memb := m\<rparr>)"
proof -
  let ?q1 = "q\<lparr>neighbor_list := remove1 i (neighbor_list q)\<rparr>"
  have q1: "tsch_release_lock ((q\<lparr>locked := True\<rparr>)\<lparr>neighbor_list := remove1 i (neighbor_list q)\<rparr>) = ?q1"
    using unl by (simp add: tsch_release_lock_def)
  have inv1: "tq_inv nn np ?q1"
    by (rule tq_inv_unlist [OF inv])
  have notin: "i \<notin> set (neighbor_list ?q1)"
    using inv by (simp add: tq_inv_def nbrs_inv_def)
  have fl: "tsch_queue_flush_nbr_queue ?q1 (Some i) = Some ?q1"
    using is_empty_spec [OF inv1, of i] unl i e by (subst tsch_queue_flush_nbr_queue.simps) simp
  obtain c m where m: "memb_free (neighbor_memb ?q1) i = Some (c, m)" "used m = nbr_live ?q1 - {i}"
    "tq_inv nn np (?q1\<lparr>neighbor_memb := m\<rparr>)"
    by (rule tq_inv_free_nbr [OF inv1 notin])
  then show thesis
    using unl fl q1 by (intro that [of m]) (simp_all add: tsch_queue_remove_nbr_def tsch_get_lock_def)
qed

section \<open>Giving back unused neighbors\<close>

definition unused_nbr :: "tsch_queue \<Rightarrow> nat \<Rightarrow> bool" where
  "unused_nbr q i \<longleftrightarrow> \<not> is_broadcast (nbrs q ! i) \<and> \<not> is_time_source (nbrs q ! i)
     \<and> tx_links_count (nbrs q ! i) = 0 \<and> queue_of q i = []"

lemma free_unused_spec:
  assumes "tq_inv nn np q" "\<not> locked q" "set ns \<subseteq> set (neighbor_list q)" "distinct ns"
  obtains m where "free_unused ns q = Some (q\<lparr>neighbor_list := filter (\<lambda>i. i \<notin> set ns \<or> \<not> unused_nbr q i) (neighbor_list q),
      neighbor_memb := m\<rparr>)"
    "tq_inv nn np (q\<lparr>neighbor_list := filter (\<lambda>i. i \<notin> set ns \<or> \<not> unused_nbr q i) (neighbor_list q), neighbor_memb := m\<rparr>)"
    "used m = nbr_live q - {i \<in> set ns. unused_nbr q i}"
  using assms
proof (induction ns arbitrary: q thesis)
  case Nil
  then show ?case
    by (simp add: Nil.prems(1) [of "neighbor_memb q"])
next
  case (Cons i ns)
  note inv = Cons.prems(2) and unl = Cons.prems(3)
  have il: "i \<in> set (neighbor_list q)" and i: "i \<in> nbr_live q"
    using Cons.prems(4) tq_list_live [OF inv] by auto
  have dl: "distinct (neighbor_list q)"
    using inv by (simp add: tq_inv_def nbrs_inv_def)
  show ?case
  proof (cases "unused_nbr q i")
    case True
    obtain m1 where m1: "tsch_queue_remove_nbr q (Some i) =
        Some (q\<lparr>neighbor_list := remove1 i (neighbor_list q), neighbor_memb := m1\<rparr>)" "used m1 = nbr_live q - {i}"
      "tq_inv nn np (q\<lparr>neighbor_list := remove1 i (neighbor_list q), neighbor_memb := m1\<rparr>)" (is "tq_inv nn np ?q1")
      using remove_nbr_empty [OF inv unl i] True by (auto simp: unused_nbr_def)
    have un: "unused_nbr ?q1 = unused_nbr q"
      by (simp add: unused_nbr_def fun_eq_iff)
    have sub: "set ns \<subseteq> set (neighbor_list ?q1)" "distinct ns" "\<not> locked ?q1"
      using Cons.prems(4,5) dl unl by auto
    obtain m where m: "free_unused ns ?q1 = Some (?q1\<lparr>neighbor_list := filter (\<lambda>k. k \<notin> set ns \<or> \<not> unused_nbr q k) (neighbor_list ?q1),
        neighbor_memb := m\<rparr>)"
      "tq_inv nn np (?q1\<lparr>neighbor_list := filter (\<lambda>k. k \<notin> set ns \<or> \<not> unused_nbr q k) (neighbor_list ?q1), neighbor_memb := m\<rparr>)"
      "used m = nbr_live ?q1 - {k \<in> set ns. unused_nbr q k}"
      using Cons.IH [OF _ m1(3) sub(3,1,2)] unfolding un by blast
    have f: "filter (\<lambda>k. k \<notin> set ns \<or> \<not> unused_nbr q k) (remove1 i (neighbor_list q))
        = filter (\<lambda>k. k \<notin> set (i # ns) \<or> \<not> unused_nbr q k) (neighbor_list q)"
      using True by (auto simp: distinct_remove1_removeAll [OF dl] removeAll_filter_not_eq intro!: filter_cong)
    have "free_unused (i # ns) q = free_unused ns ?q1"
      using True m1(1) is_empty_spec [OF inv unl i] tq_rd [OF inv i] by (simp add: unused_nbr_def)
    with m f m1(2) True Cons.prems(1) [of m] show ?thesis
      by (auto simp: set_diff_eq)
  next
    case False
    obtain m where m: "free_unused ns q = Some (q\<lparr>neighbor_list := filter (\<lambda>k. k \<notin> set ns \<or> \<not> unused_nbr q k) (neighbor_list q),
        neighbor_memb := m\<rparr>)"
      "tq_inv nn np (q\<lparr>neighbor_list := filter (\<lambda>k. k \<notin> set ns \<or> \<not> unused_nbr q k) (neighbor_list q), neighbor_memb := m\<rparr>)"
      "used m = nbr_live q - {k \<in> set ns. unused_nbr q k}"
      using Cons.IH [OF _ inv unl] Cons.prems(4,5) by auto
    have f: "filter (\<lambda>k. k \<notin> set ns \<or> \<not> unused_nbr q k) (neighbor_list q)
        = filter (\<lambda>k. k \<notin> set (i # ns) \<or> \<not> unused_nbr q k) (neighbor_list q)"
      using False by (auto intro!: filter_cong)
    have "free_unused (i # ns) q = free_unused ns q"
      using False is_empty_spec [OF inv unl i] tq_rd [OF inv i] by (auto simp: unused_nbr_def)
    with m f False Cons.prems(1) [of m] show ?thesis
      by (auto simp: set_diff_eq)
  qed
qed

end
