(* ===== verification/Tsch_Queue_Spec.thy ===== *)
theory Tsch_Queue_Spec
  imports Tsch_Queue
begin

text \<open>
  What the TSCH queues promise, over the view \<open>aqueue\<close> (the packets waiting for an address): adding appends, removing
  takes the oldest, a transmission result keeps or drops the packet as its time to live says, flushing tells the
  upper layer of every packet, and unused neighbor entries, and only those, are given back.
\<close>

definition tq_initial :: "nat \<Rightarrow> nat \<Rightarrow> tsch_queue" where
  "tq_initial nn np =
    \<lparr>locked = False, neighbor_memb = elem_pool nn, nbrs = replicate nn (new_neighbor linkaddr_null), neighbor_list = [],
     packet_memb = elem_pool np,
     pkts = replicate np \<lparr>qb = None, sent = None, cb_arg = None, transmissions = 0, max_transmissions = 0, ret = MAC_TX_OK,
       header_len = 0, tsch_sync_ie_offset = 0\<rparr>,
     qbufs = qb_initial np, n_eb = None, n_broadcast = None, num_eb_packets = 0, is_coordinator = False, ka_timeout = 0,
     sent_log = []\<rparr>"

lemma tq_initial_inv: "tq_inv nn np (tq_initial nn np)" "\<not> locked (tq_initial nn np)" "aqueue (tq_initial nn np) a = []"
  "nbr_live (tq_initial nn np) = {}" "pkt_live (tq_initial nn np) = {}" "qb_live (qbufs (tq_initial nn np)) = {}"
  using elem_ok_pool [of nn] elem_ok_pool [of np] qb_initial_inv [of np]
  by (simp_all add: tq_defs tq_initial_def aqueue_def)

section \<open>Adding and removing\<close>

lemma add_packet_spec:
  assumes inv: "tq_inv nn np q" and unl: "\<not> locked q" and a: "linkaddr_ok a" and pb: "pb_inv pb"
  shows "\<exists>r q'. tsch_queue_add_packet q pb a mx snt arg = Some (r, q') \<and> tq_inv nn np q' \<and> locked q' = locked q
    \<and> (case r of
         None \<Rightarrow> aqueue q' = aqueue q \<and> pkt_live q' = pkt_live q
           \<and> (length (aqueue q a) = 7 \<or> card (pkt_live q) = np \<or> card (qb_live (qbufs q)) = np \<or> card (nbr_live q) = nn)
       | Some j \<Rightarrow> aqueue q' = (aqueue q)(a := aqueue q a @ [j]) \<and> length (aqueue q a) < 7
           \<and> j \<notin> pkt_live q \<and> pkt_live q' = insert j (pkt_live q) \<and> fresh_packet q' j pb mx snt arg)"
  using inv unl a
proof (cases rule: tq_add_nbr)
  case full
  with inv unl show ?thesis
    by (simp add: tsch_queue_add_packet_def tsch_is_locked_def)
next
  case (nbr i q1)
  have i: "i \<in> nbr_live q1"
    by (rule tq_list_live [OF nbr(2,3)])
  have run: "tsch_queue_add_packet q pb a mx snt arg = put_packet q1 pb i mx snt arg"
    using nbr(1) unl by (simp add: tsch_queue_add_packet_def tsch_is_locked_def)
  have qu: "map the (queue_of q1 i) = aqueue q a" "length (queue_of q1 i) = length (aqueue q a)"
    using aqueue_at [OF nbr(2,3,4)] nbr(5) by (metis, metis length_map)
  have same: "pkt_live q1 = pkt_live q" "qbufs q1 = qbufs q" "locked q1 = locked q"
    using nbr(6) by (simp_all add: same_packets_def)
  show ?thesis
    using nbr(2) i nbr(3) pb
  proof (cases rule: put_packet_spec [of nn np q1 i pb mx snt arg])
    case (refused q2)
    with run qu same nbr(5) show ?thesis
      by auto
  next
    case (stored j q2)
    with run qu same nbr(4,5) show ?thesis
      by auto
  qed
qed

text \<open>A state with one packet waiting for flow 1.\<close>

definition flow1 :: linkaddr where
  "flow1 = [0, 1, 0, 0, 0, 0, 0, 0]"

definition tq_example :: tsch_queue where
  "tq_example = snd (the (tsch_queue_add_packet (tq_initial 12 8) pb_initial flow1 1 None None))"

lemma flow1_ok: "linkaddr_ok flow1"
  by (simp add: linkaddr_ok_def LINKADDR_SIZE_def flow1_def)

lemma tq_example:
  "tq_inv 12 8 tq_example" "\<not> locked tq_example"
  "\<exists>i j. i \<in> set (neighbor_list tq_example) \<and> naddr (nbrs tq_example ! i) = flow1
     \<and> aqueue tq_example flow1 = [j] \<and> queue_of tq_example i = [Some j]
     \<and> (\<exists>b. qb (pkts tq_example ! j) = Some b \<and> holds_packet (qb_data (qbufs tq_example) b) pb_initial)
     \<and> transmissions (pkts tq_example ! j) = 0"
proof -
  obtain r q' where q': "tsch_queue_add_packet (tq_initial 12 8) pb_initial flow1 1 None None = Some (r, q')"
    "tq_inv 12 8 q'" "locked q' = locked (tq_initial 12 8)" "case r of None \<Rightarrow> False | Some j \<Rightarrow> aqueue q' = (aqueue (tq_initial 12 8))(flow1 := [j])
        \<and> fresh_packet q' j pb_initial 1 None None"
    using add_packet_spec [OF tq_initial_inv(1,2) flow1_ok pb_inv_initial, of 12 8 1 None None]
    by (auto simp: tq_initial_inv split: option.splits)
  then have e: "tq_example = q'"
    by (simp add: tq_example_def)
  show "tq_inv 12 8 tq_example"
    by (simp add: e q')
  obtain j where j: "aqueue q' flow1 = [j]" "fresh_packet q' j pb_initial 1 None None"
    using q'(4) by (auto split: option.splits)
  show "\<not> locked tq_example"
    using q'(3) tq_initial_inv(2) by (simp add: e)
  from q'(2) show "\<exists>i j. i \<in> set (neighbor_list tq_example) \<and> naddr (nbrs tq_example ! i) = flow1
     \<and> aqueue tq_example flow1 = [j] \<and> queue_of tq_example i = [Some j]
     \<and> (\<exists>b. qb (pkts tq_example ! j) = Some b \<and> holds_packet (qb_data (qbufs tq_example) b) pb_initial)
     \<and> transmissions (pkts tq_example ! j) = 0"
  proof (cases rule: aqueue_cases [of 12 8 q' flow1])
    case (nbr i)
    have i: "i \<in> nbr_live q'"
      by (rule tq_list_live [OF q'(2) nbr(1)])
    have "queue_of q' i = [Some j]"
      using nbr(3) j(1) by (cases rule: tq_queue_cases [OF q'(2) i]) auto
    with nbr j show ?thesis
      by (auto simp: e fresh_packet_def)
  qed (use j in simp)
qed



text \<open>
  \<^verbatim>\<open>tsch_queue_get_packet_for_dest_addr\<close> shows the oldest packet of the address without taking it (none while the
  queue backs off from a shared link), and \<^verbatim>\<open>tsch_queue_remove_packet_from_queue\<close> takes exactly this packet and
  leaves every other queue as it is: each queue is first-in first-out.
\<close>

theorem remove_packet_takes_oldest:
  assumes inv: "tq_inv nn np q" and unl: "\<not> locked q" and i: "i \<in> set (neighbor_list q)"
  shows "\<exists>r q'. tsch_queue_remove_packet_from_queue q (Some i) = Some (r, q') \<and> tq_inv nn np q'
    \<and> pkt_live q' = pkt_live q
    \<and> tsch_queue_get_packet_for_dest_addr q (naddr (nbrs q ! i)) link =
        Some (if (\<exists>opts. link = Some opts \<and> opts AND LINK_OPTION_SHARED \<noteq> 0) \<and> backoff_window (nbrs q ! i) \<noteq> 0 then None else r)
    \<and> (case aqueue q (naddr (nbrs q ! i)) of
         [] \<Rightarrow> r = None \<and> q' = q
       | p # rest \<Rightarrow> r = Some p \<and> aqueue q' = (aqueue q)(naddr (nbrs q ! i) := rest))"
proof -
  let ?a = "naddr (nbrs q ! i)" and ?nb = "nbrs q ! i"
  have il: "i \<in> nbr_live q"
    by (rule tq_list_live [OF inv i])
  have ok: "nbr_ok ?nb"
    by (rule tq_nbr_ok [OF inv il])
  have a: "linkaddr_ok ?a"
    using ok by (simp add: nbr_ok_def)
  have ring: "ring_ok 3 (tx_ringbuf ?nb, tx_array ?nb)"
    by (rule ring_ok_nbr [OF ok])
  have rinv: "ring_inv 3 (tx_ringbuf ?nb)" and len: "length (tx_array ?nb) = 8"
    using ring by (auto simp: ring_ok_def)
  have qu: "aqueue q ?a = map the (queue_of q i)"
    by (rule aqueue_at [OF inv i refl])
  have get: "tsch_queue_get_nbr q ?a = Some (Some i)"
    using inv unl a
  proof (cases rule: get_nbr_spec)
    case (found j)
    with tq_inj_addr [OF inv found(2) i] show ?thesis
      by simp
  qed (use i in auto)
  have peek: "tsch_queue_get_packet_for_nbr q (Some i) link =
      Some (if (\<exists>opts. link = Some opts \<and> opts AND LINK_OPTION_SHARED \<noteq> 0) \<and> backoff_window ?nb \<noteq> 0 then None
            else case queue_of q i of [] \<Rightarrow> None | x # _ \<Rightarrow> x)"
  proof (cases "ring_count 3 (tx_ringbuf ?nb) = 0")
    case True
    moreover from this have "queue_of q i = []"
      by (metis length_contents fst_conv length_0_conv nqueue_def)
    ultimately show ?thesis
      using ring_get_result [OF rinv] unl tq_rd [OF inv il]
      by (simp add: tsch_queue_get_packet_for_nbr_def tsch_is_locked_def)
  next
    case False
    have g: "get_nat (tx_ringbuf ?nb) < 8"
      using get_nat_less [OF rinv] by simp
    have "queue_of q i ! 0 = tx_array ?nb ! get_nat (tx_ringbuf ?nb)" "queue_of q i \<noteq> []"
      using False g by (simp_all add: nqueue_def ring_contents_def)
    then have "(case queue_of q i of [] \<Rightarrow> None | x # _ \<Rightarrow> x) = tx_array ?nb ! get_nat (tx_ringbuf ?nb)"
      by (cases "queue_of q i") auto
    with False g len ring_get_result [OF rinv] unl tq_rd [OF inv il] show ?thesis
      by (auto simp: tsch_queue_get_packet_for_nbr_def tsch_is_locked_def rd_in tsch_queue_backoff_expired_def
          split: option.splits)
  qed
  have dest: "tsch_queue_get_packet_for_dest_addr q ?a link = tsch_queue_get_packet_for_nbr q (Some i) link"
    using unl get by (simp add: tsch_queue_get_packet_for_dest_addr_def tsch_is_locked_def)
  show ?thesis
    using inv unl il
  proof (cases rule: remove_packet_spec)
    case empty
    with inv peek dest qu show ?thesis
      by auto
  next
    case (head p rest r e q')
    have "aqueue q' = (aqueue q)(?a := map the (queue_of q' i))"
      using tq_live_less [OF inv il]
      by (intro aqueue_change [OF inv head(4) i]) (auto simp: head(5,6) nth_list_update) 
    moreover have "pkt_live q' = pkt_live q"
      by (simp add: head(5))
    ultimately show ?thesis
      using head peek dest qu by auto
  qed
qed


theorem remove_packet_takes_oldest_witness:
  "\<exists>i j q'. i \<in> set (neighbor_list tq_example) \<and> aqueue tq_example (naddr (nbrs tq_example ! i)) = [j]
     \<and> tsch_queue_remove_packet_from_queue tq_example (Some i) = Some (Some j, q')
     \<and> aqueue q' (naddr (nbrs tq_example ! i)) = []"
proof -
  obtain i j where i: "i \<in> set (neighbor_list tq_example)" "naddr (nbrs tq_example ! i) = flow1" "aqueue tq_example flow1 = [j]"
    using tq_example(3) by blast
  from remove_packet_takes_oldest [OF tq_example(1,2) i(1), of None] i show ?thesis
    by (intro exI [of _ i] exI [of _ j]) auto
qed

section \<open>The result of a transmission\<close>

text \<open>
  The slots that a packet may still use: with 16-bit slot numbers of instants less than \<open>2 ^ 15\<close> slots
  apart, and at most 255 of them left, the limit computed after a failure is the transmissions made plus the slots left.
\<close>

lemma retransmission_limit_exact:
  assumes "unat now \<le> t" "t < unat now + 256"
  shows "retransmission_limit now (of_nat t) tx = of_nat (t - unat now) + tx"
proof -
  have n: "ucast now = (of_nat (unat now) :: u16)"
    by simp
  have lt: "TSCH_SLOTNUM_LT (of_nat (unat now)) (of_nat t) \<longleftrightarrow> unat now < t"
  proof (rule slotnum_lt_iff)
    have "\<bar>int (unat now) - int t\<bar> < 256"
      using assms by linarith
    then show "\<bar>int (unat now) - int t\<bar> < 2 ^ 15"
      by (rule less_trans) simp
  qed
  show ?thesis
  proof (cases "unat now < t")
    case True
    have e: "(of_nat t - ucast now :: u16) = of_nat (t - unat now)"
      using True by (simp add: of_nat_diff)
    have "ucast (of_nat k :: u16) = (of_nat k :: u8)" if "k < 256" for k
      using that by (simp add: unsigned_of_nat take_bit_nat_eq_self)
    moreover have "t - unat now < 256"
      using assms(2) True by linarith
    ultimately have "ucast (of_nat t - ucast now :: u16) = (of_nat (t - unat now) :: u8)"
      unfolding e by blast
    moreover have "TSCH_SLOTNUM_LT (ucast now) (of_nat t)"
      unfolding n lt by (rule True)
    ultimately show ?thesis
      by (simp only: retransmission_limit_def Let_def add_diff_cancel_right' if_True)
  next
    case False
    then have "t = unat now"
      using assms(1) by simp
    then show ?thesis
      by (simp add: retransmission_limit_def)
  qed
qed


text \<open>With 256 slots left the 8-bit limit wraps and the packet is given up although it has time left.\<close>

lemma retransmission_limit_wraps: "retransmission_limit now (ucast now + 256) tx = tx"
  by (simp add: retransmission_limit_def Let_def)

lemma packet_attr:
  assumes inv: "tq_inv nn np q" and p: "p \<in> pkt_live q"
  obtains b where "qb (pkts q ! p) = Some b" "b \<in> qb_live (qbufs q)"
    "\<And>ty. queuebuf_attr (qbufs q) b ty = Some (qattrs (qb_data (qbufs q) b) ty)"
proof -
  obtain b where b: "qb (pkts q ! p) = Some b" "b \<in> qb_live (qbufs q)" and qi: "qb_inv np (qbufs q)"
    using inv p by (auto simp: tq_inv_def pkts_inv_def)
  obtain r where r: "queuebuf_load_to_ram (qbufs q) b = Some r" "rd (ram (qbufs q)) r = Some (qb_data (qbufs q) b)"
    by (rule qb_load [OF qi b(2)])
  show thesis
    by (rule that [OF b]) (simp add: queuebuf_attr_def r)
qed

text \<open>The time to live a queued packet carries.\<close>

definition packet_ttl :: "tsch_queue \<Rightarrow> nat \<Rightarrow> u16" where
  "packet_ttl q p = qattrs (qb_data (qbufs q) (the (qb (pkts q ! p)))) PACKETBUF_ATTR_TRANSMISSION_TTL"

text \<open>The back-off of the neighbor after a transmission.\<close>

definition backoff_after :: "bool \<Rightarrow> bool \<Rightarrow> bool \<Rightarrow> u16 \<Rightarrow> tsch_neighbor \<Rightarrow> tsch_neighbor" where
  "backoff_after ok shared emp rnd nb =
     (if is_broadcast nb then nb
      else if ok then (if shared \<or> emp then tsch_queue_backoff_reset nb else nb)
      else (if shared then tsch_queue_backoff_inc rnd nb else nb))"

lemma keeps_queue_after: "keeps_queue (backoff_after ok shared emp rnd)"
  using keeps_queue_reset keeps_queue_inc [of rnd] by (auto simp: keeps_queue_def backoff_after_def)

lemma packet_sent_ok:
  assumes inv: "tq_inv nn np q" and unl: "\<not> locked q" and i: "i \<in> nbr_live q" and hd: "queue_of q i = Some p # rest"
  obtains q1 r where "tsch_queue_remove_packet_from_queue q (Some i) = Some (Some p, q1)" "tq_inv nn np q1"
    "nbrs q1 ! i = (nbrs q ! i)\<lparr>tx_ringbuf := r\<rparr>" "queue_of q1 i = rest"
    "\<forall>j. j \<noteq> i \<longrightarrow> nbrs q1 ! j = nbrs q ! j" "neighbor_list q1 = neighbor_list q" "nbr_live q1 = nbr_live q"
    "pkts q1 = pkts q" "\<not> locked q1" "pkt_live q1 = pkt_live q" "length (nbrs q1) = length (nbrs q)" "qbufs q1 = qbufs q"
  using inv unl i
proof (cases rule: remove_packet_spec)
  case empty
  with hd show thesis
    by simp
next
  case (head p' rest' r e q1)
  with hd have eq: "p' = p" "rest' = rest"
    by simp_all
  moreover have "queue_of q1 i = rest"
    using head(6) eq by simp
  ultimately show thesis
    by (intro that [of q1 r]) (use head eq unl tq_live_less [OF inv i] in \<open>simp_all add: head(5)\<close>)
qed

lemma set_same_nbr: "nbrs q ! i = x \<Longrightarrow> q\<lparr>nbrs := (nbrs q)[i := x]\<rparr> = q"
  by auto

lemma packet_sent_result:
  assumes inv: "tq_inv nn np q" and unl: "\<not> locked q" and i: "i \<in> set (neighbor_list q)" and hd: "queue_of q i = Some p # rest"
  shows "\<exists>keep q'. tsch_queue_packet_sent q i p opts status now rnd = Some (keep, q') \<and> tq_inv nn np q'
    \<and> (keep \<longleftrightarrow> status \<noteq> MAC_TX_OK \<and> transmissions (pkts q ! p) < retransmission_limit now (packet_ttl q p) (transmissions (pkts q ! p)))
    \<and> queue_of q' i = (if keep then queue_of q i else rest)
    \<and> (\<forall>j. j \<noteq> i \<longrightarrow> nbrs q' ! j = nbrs q ! j) \<and> neighbor_list q' = neighbor_list q
    \<and> nbrs q' ! i = backoff_after (status = MAC_TX_OK) (opts AND LINK_OPTION_SHARED \<noteq> 0) (rest = [])
        rnd ((nbrs q ! i)\<lparr>tx_ringbuf := tx_ringbuf (nbrs q' ! i)\<rparr>)
    \<and> pkt_live q' = pkt_live q"
proof -
  have il: "i \<in> nbr_live q"
    by (rule tq_list_live [OF inv i])
  let ?ok = "status = MAC_TX_OK" and ?sh = "opts AND LINK_OPTION_SHARED \<noteq> 0"
  obtain q1 r where q1: "tsch_queue_remove_packet_from_queue q (Some i) = Some (Some p, q1)" "tq_inv nn np q1"
    "nbrs q1 ! i = (nbrs q ! i)\<lparr>tx_ringbuf := r\<rparr>" "queue_of q1 i = rest"
    "\<forall>j. j \<noteq> i \<longrightarrow> nbrs q1 ! j = nbrs q ! j" "neighbor_list q1 = neighbor_list q" "nbr_live q1 = nbr_live q"
    "pkts q1 = pkts q" "\<not> locked q1" "pkt_live q1 = pkt_live q" "length (nbrs q1) = length (nbrs q)" "qbufs q1 = qbufs q"
    by (rule packet_sent_ok [OF inv unl il hd])
  have final: "\<exists>keep q'. tsch_queue_packet_sent q i p opts status now rnd = Some (keep, q') \<and> tq_inv nn np q'
      \<and> (keep \<longleftrightarrow> status \<noteq> MAC_TX_OK \<and> transmissions (pkts q ! p) < retransmission_limit now (packet_ttl q p) (transmissions (pkts q ! p)))
      \<and> queue_of q' i = (if keep then queue_of q i else rest)
      \<and> (\<forall>j. j \<noteq> i \<longrightarrow> nbrs q' ! j = nbrs q ! j) \<and> neighbor_list q' = neighbor_list q
      \<and> nbrs q' ! i = backoff_after ?ok ?sh (rest = []) rnd ((nbrs q ! i)\<lparr>tx_ringbuf := tx_ringbuf (nbrs q' ! i)\<rparr>)
      \<and> pkt_live q' = pkt_live q"
    if run: "tsch_queue_packet_sent q i p opts status now rnd =
        Some (keep, q2\<lparr>nbrs := (nbrs q2)[i := backoff_after ?ok ?sh (rest = []) rnd (nbrs q2 ! i)]\<rparr>)"
      and k: "keep \<longleftrightarrow> status \<noteq> MAC_TX_OK \<and> transmissions (pkts q ! p) < retransmission_limit now (packet_ttl q p) (transmissions (pkts q ! p))"
      and inv2: "tq_inv nn np q2" and n: "nbrs q2 ! i = (nbrs q ! i)\<lparr>tx_ringbuf := r'\<rparr>"
      and qu: "queue_of q2 i = (if keep then queue_of q i else rest)"
      and fr: "\<forall>j. j \<noteq> i \<longrightarrow> nbrs q2 ! j = nbrs q ! j" "neighbor_list q2 = neighbor_list q" "nbr_live q2 = nbr_live q"
        "pkt_live q2 = pkt_live q" for keep q2 r'
  proof -
    let ?f = "backoff_after ?ok ?sh (rest = []) rnd"
    have il2: "i \<in> nbr_live q2"
      using il fr by simp
    have lt: "i < length (nbrs q2)"
      by (rule tq_live_less [OF inv2 il2])
    have "tx_ringbuf (?f nb) = tx_ringbuf nb" for nb
      using keeps_queue_after by (simp add: keeps_queue_def)
    then have r: "tx_ringbuf (?f (nbrs q2 ! i)) = r'"
      by (simp add: n)
    define q' where "q' = q2\<lparr>nbrs := (nbrs q2)[i := ?f (nbrs q2 ! i)]\<rparr>"
    have at: "nbrs q' ! j = (if j = i then ?f (nbrs q2 ! i) else nbrs q2 ! j)" for j
      using lt by (auto simp: q'_def)
    have "queue_of q' i = queue_of q2 i"
      using nqueue_set_kept [OF keeps_queue_after lt] by (simp add: q'_def)
    moreover have "nbrs q' ! i = ?f ((nbrs q ! i)\<lparr>tx_ringbuf := tx_ringbuf (nbrs q' ! i)\<rparr>)"
      using at [of i] r n by simp
    moreover have "\<forall>j. j \<noteq> i \<longrightarrow> nbrs q' ! j = nbrs q ! j"
      using at fr by simp
    moreover have "tq_inv nn np q'"
      unfolding q'_def using upd_nbr_spec [OF inv2 il2 keeps_queue_after] by blast
    moreover have "neighbor_list q' = neighbor_list q" "pkt_live q' = pkt_live q"
      by (simp_all add: q'_def fr)
    ultimately show ?thesis
      using run k qu unfolding q'_def [symmetric] by (intro exI [of _ keep] exI [of _ q']) (intro conjI; assumption?; simp)
  qed
  show ?thesis
  proof (cases ?ok)
    case True
    have il1: "i \<in> nbr_live q1"
      using il q1 by simp
    have "tsch_queue_packet_sent q i p opts status now rnd =
        Some (False, q1\<lparr>nbrs := (nbrs q1)[i := backoff_after ?ok ?sh (rest = []) rnd (nbrs q1 ! i)]\<rparr>)"
      using True q1(1,3,4) tq_rd [OF inv il] is_empty_spec [OF q1(2,9) il1] upd_nbr_spec [OF q1(2) il1 keeps_queue_reset]
        set_same_nbr [OF q1(3)]
      by (auto simp: tsch_queue_packet_sent_def backoff_after_def)
    from final [OF this _ q1(2,3)] True q1 show ?thesis
      by simp
  next
    case False
    let ?lim = "retransmission_limit now (packet_ttl q p) (transmissions (pkts q ! p))"
    let ?pk = "(pkts q ! p)\<lparr>max_transmissions := ?lim\<rparr>"
    let ?q0 = "q\<lparr>pkts := (pkts q)[p := ?pk]\<rparr>"
    have inv0: "tq_inv nn np ?q0"
      by (rule tq_inv_set_pkt [OF inv]) simp
    have p: "p \<in> pkt_live q"
      using tq_queue_cases [OF inv il] hd by (metis list.distinct(1) list.inject option.inject)
    obtain b where b: "qb (pkts q ! p) = Some b"
      "queuebuf_attr (qbufs q) b PACKETBUF_ATTR_TRANSMISSION_TTL = Some (packet_ttl q p)"
      using packet_attr [OF inv p] by (metis option.sel packet_ttl_def)
    show ?thesis
    proof (cases "transmissions (pkts q ! p) < ?lim")
      case True
      have "tsch_queue_packet_sent q i p opts status now rnd =
          Some (True, ?q0\<lparr>nbrs := (nbrs ?q0)[i := backoff_after ?ok ?sh (rest = []) rnd (nbrs ?q0 ! i)]\<rparr>)"
        using True False b tq_rd [OF inv il] tq_rd_pkt [OF inv p] upd_nbr_spec [OF inv0, of i, OF _ keeps_queue_inc] il
          set_same_nbr [of ?q0 i "nbrs ?q0 ! i"]
        by (auto simp: tsch_queue_packet_sent_def backoff_after_def Let_def)
      from final [OF this _ inv0, of "tx_ringbuf (nbrs q ! i)"] True False show ?thesis
        by simp
    next
      case give_up: False
      then have drop: "?lim \<le> transmissions (pkts q ! p)"
        by simp
      have pre: "\<not> locked ?q0" "i \<in> nbr_live ?q0" "queue_of ?q0 i = Some p # rest"
        using unl il hd by simp_all
      obtain q3 r3 where q3: "tsch_queue_remove_packet_from_queue ?q0 (Some i) = Some (Some p, q3)" "tq_inv nn np q3"
        "nbrs q3 ! i = (nbrs ?q0 ! i)\<lparr>tx_ringbuf := r3\<rparr>" "queue_of q3 i = rest"
        "\<forall>j. j \<noteq> i \<longrightarrow> nbrs q3 ! j = nbrs ?q0 ! j" "neighbor_list q3 = neighbor_list ?q0" "nbr_live q3 = nbr_live ?q0"
        "pkts q3 = pkts ?q0" "\<not> locked q3" "pkt_live q3 = pkt_live ?q0" "length (nbrs q3) = length (nbrs ?q0)"
        "qbufs q3 = qbufs ?q0"
        by (rule packet_sent_ok [OF inv0 pre])
      have il3: "i \<in> nbr_live q3"
        using il q3 by simp
      have "tsch_queue_packet_sent q i p opts status now rnd =
          Some (False, q3\<lparr>nbrs := (nbrs q3)[i := backoff_after ?ok ?sh (rest = []) rnd (nbrs q3 ! i)]\<rparr>)"
      proof (cases "\<not> is_broadcast (nbrs q ! i) \<and> ?sh")
        case True
        with drop False b tq_rd [OF inv il] tq_rd_pkt [OF inv p] q3(1,3) upd_nbr_spec [OF q3(2) il3 keeps_queue_inc]
        show ?thesis
          by (simp add: tsch_queue_packet_sent_def backoff_after_def Let_def)
      next
        case no_inc: False
        then have "backoff_after ?ok ?sh (rest = []) rnd (nbrs q3 ! i) = nbrs q3 ! i"
          using False q3(3) by (auto simp: backoff_after_def)
        with no_inc drop False b tq_rd [OF inv il] tq_rd_pkt [OF inv p] q3(1)
        show ?thesis
          by (auto simp: tsch_queue_packet_sent_def Let_def)
      qed
      then show ?thesis
        by (rule final [OF _ _ q3(2)]) (use q3 give_up in simp_all)
    qed
  qed
qed


lemma retries_left_iff:
  assumes "\<bar>int (unat now) - int t\<bar> < 2 ^ 15" "unat tx + (t - unat now) < 256"
  shows "tx < retransmission_limit now (of_nat t) tx \<longleftrightarrow> unat now < t"
proof (cases "unat now \<le> t")
  case True
  moreover have "t < unat now + 256"
    using assms(2) by linarith
  ultimately have lim: "retransmission_limit now (of_nat t) tx = of_nat (t - unat now) + tx"
    by (rule retransmission_limit_exact)
  have d: "k + unat tx < 256 \<Longrightarrow> unat (of_nat k + tx) = k + unat tx" for k
    by (simp add: unat_word_ariths unsigned_of_nat take_bit_nat_eq_self)
  have "unat (of_nat (t - unat now) + tx) = t - unat now + unat tx"
    by (rule d) (use assms(2) in linarith)
  with True show ?thesis
    unfolding lim word_less_nat_alt by arith
next
  case False
  have "TSCH_SLOTNUM_LT (of_nat (unat now)) (of_nat t) \<longleftrightarrow> unat now < t"
    by (rule slotnum_lt_iff [OF assms(1)])
  with False show ?thesis
    by (simp add: retransmission_limit_def)
qed



section \<open>Resetting the queues\<close>

lemma reset_all_spec:
  assumes "tq_inv nn np q" "\<not> locked q" "set ns \<subseteq> set (neighbor_list q)" "distinct ns"
  shows "\<exists>q'. reset_all ns q = Some q' \<and> tq_inv nn np q' \<and> neighbor_list q' = neighbor_list q
    \<and> (\<forall>i. i \<in> set ns \<longrightarrow> queue_of q' i = [] \<and> backoff_window (nbrs q' ! i) = 0 \<and> naddr (nbrs q' ! i) = naddr (nbrs q ! i))
    \<and> (\<forall>i. i \<notin> set ns \<longrightarrow> nbrs q' ! i = nbrs q ! i)
    \<and> pkt_live q' = pkt_live q - (\<Union>i \<in> set ns. the ` set (queue_of q i))
    \<and> sent_log q' = sent_log q @ failure_log (pkts q) (concat (map (\<lambda>i. map the (queue_of q i)) ns))"
  using assms
proof (induction ns arbitrary: q)
  case Nil
  then show ?case
    by (simp add: failure_log_def)
next
  case (Cons i ns)
  note inv = Cons.prems(1)
  have i: "i \<in> nbr_live q"
    using Cons.prems(3) tq_list_live [OF inv] by auto
  obtain q1 where q1: "tsch_queue_flush_nbr_queue q (Some i) = Some q1" "tq_inv nn np q1" "flushed q i q1"
    using flush_spec [OF inv Cons.prems(2) i] by blast
  note fl = q1(3) [unfolded flushed_def]
  have i1: "i \<in> nbr_live q1"
    using i fl by simp
  let ?q2 = "q1\<lparr>nbrs := (nbrs q1)[i := tsch_queue_backoff_reset (nbrs q1 ! i)]\<rparr>"
  have u: "upd_nbr q1 i tsch_queue_backoff_reset = Some ?q2" "tq_inv nn np ?q2"
    using upd_nbr_spec [OF q1(2) i1 keeps_queue_reset] by auto
  have lt: "i < length (nbrs q1)"
    by (rule tq_live_less [OF q1(2) i1])
  have at: "nbrs ?q2 ! j = (if j = i then tsch_queue_backoff_reset (nbrs q1 ! i) else nbrs q ! j)" for j
    using lt fl by auto
  have ai: "naddr (nbrs q1 ! i) = naddr (nbrs q ! i)"
  proof -
    have "nbrs q1 ! i = (nbrs q ! i)\<lparr>tx_ringbuf := tx_ringbuf (nbrs q1 ! i)\<rparr>"
      using fl by blast
    then have "naddr (nbrs q1 ! i) = naddr ((nbrs q ! i)\<lparr>tx_ringbuf := tx_ringbuf (nbrs q1 ! i)\<rparr>)"
      by (rule arg_cong)
    then show ?thesis
      by simp
  qed
  have qi: "nqueue (tsch_queue_backoff_reset (nbrs q1 ! i)) = []"
    using fl by (simp add: nqueue_def tsch_queue_backoff_reset_def)
  have notin: "i \<notin> set ns" and sub: "set ns \<subseteq> set (neighbor_list ?q2)" "distinct ns" "\<not> locked ?q2"
    using Cons.prems(2-4) fl by auto
  obtain q' where q': "reset_all ns ?q2 = Some q'" "tq_inv nn np q'" "neighbor_list q' = neighbor_list ?q2"
    "\<forall>j. j \<in> set ns \<longrightarrow> queue_of q' j = [] \<and> backoff_window (nbrs q' ! j) = 0 \<and> naddr (nbrs q' ! j) = naddr (nbrs ?q2 ! j)"
    "\<forall>j. j \<notin> set ns \<longrightarrow> nbrs q' ! j = nbrs ?q2 ! j"
    "pkt_live q' = pkt_live ?q2 - (\<Union>j \<in> set ns. the ` set (queue_of ?q2 j))"
    "sent_log q' = sent_log ?q2 @ failure_log (pkts ?q2) (concat (map (\<lambda>j. map the (queue_of ?q2 j)) ns))"
    using Cons.IH [OF u(2) sub(3,1,2)] by blast
  have other: "queue_of ?q2 j = queue_of q j" "naddr (nbrs ?q2 ! j) = naddr (nbrs q ! j)" if "j \<in> set ns" for j
    using that notin at by auto
  have disj: "j \<notin> the ` set (queue_of q i)" if "k \<in> set ns" "j \<in> the ` set (queue_of q k)" for j k
  proof -
    have k: "k \<in> nbr_live q" "k \<noteq> i"
      using that Cons.prems(3) notin tq_list_live [OF inv] by auto
    have "set (queue_of q k) \<subseteq> Some ` pkt_live q" "set (queue_of q i) \<subseteq> Some ` pkt_live q"
      "set (queue_of q i) \<inter> set (queue_of q k) = {}"
      using inv i k by (auto simp: tq_inv_def own_inv_def)
    with that(2) show ?thesis
      by (auto simp: image_iff) (metis disjoint_iff imageE option.sel subsetD)
  qed
  have log: "failure_log (pkts q1) js = failure_log (pkts q) js" if "\<forall>j \<in> set js. j \<notin> the ` set (queue_of q i)" for js
    using that fl by (induction js) (auto simp: failure_log_def split: option.splits)
  have "failure_log (pkts ?q2) (concat (map (\<lambda>j. map the (queue_of ?q2 j)) ns))
      = failure_log (pkts q) (concat (map (\<lambda>j. map the (queue_of q j)) ns))"
  proof -
    have "map (\<lambda>j. map the (queue_of ?q2 j)) ns = map (\<lambda>j. map the (queue_of q j)) ns"
      using other by simp
    then show ?thesis
      using log [of "concat (map (\<lambda>j. map the (queue_of q j)) ns)"] disj by (auto simp del: map_eq_conv)
  qed
  then have "sent_log q' = sent_log q @ failure_log (pkts q) (concat (map (\<lambda>j. map the (queue_of q j)) (i # ns)))"
    using q'(7) fl by (simp add: failure_log_def)
  moreover have "pkt_live q' = pkt_live q - (\<Union>j \<in> set (i # ns). the ` set (queue_of q j))"
    using q'(6) fl other by auto
  moreover have "reset_all (i # ns) q = Some q'"
    using q1(1) u(1) q'(1) by simp
  moreover have "neighbor_list q' = neighbor_list q"
    using q'(3) fl by simp
  moreover have "\<forall>j. j \<in> set (i # ns) \<longrightarrow>
      queue_of q' j = [] \<and> backoff_window (nbrs q' ! j) = 0 \<and> naddr (nbrs q' ! j) = naddr (nbrs q ! j)"
    using q'(4,5) notin at qi ai other by (auto simp: tsch_queue_backoff_reset_def)
  moreover have "\<forall>j. j \<notin> set (i # ns) \<longrightarrow> nbrs q' ! j = nbrs q ! j"
    using q'(5) at by auto
  ultimately show ?case
    using q'(2) by blast
qed


text \<open>
  \<^verbatim>\<open>tsch_queue_reset\<close>.  Every queue is emptied and every back-off window closed; each queued packet is freed,
  and the callback of each of them is called exactly once, with \<^verbatim>\<open>MAC_TX_ERR\<close> and its number of transmissions, in the
  order of the queues; the neighbors stay.
\<close>

theorem reset_empties_queues:
  assumes inv: "tq_inv nn np q" and unl: "\<not> locked q"
  shows "\<exists>q'. tsch_queue_reset q = Some q' \<and> tq_inv nn np q' \<and> neighbor_list q' = neighbor_list q
    \<and> (\<forall>a. aqueue q' a = []) \<and> (\<forall>i. i \<in> set (neighbor_list q) \<longrightarrow> backoff_window (nbrs q' ! i) = 0)
    \<and> pkt_live q' = {j \<in> pkt_live q. \<forall>i. i \<in> set (neighbor_list q) \<longrightarrow> j \<notin> set (map the (queue_of q i))}
    \<and> sent_log q' = sent_log q @ failure_log (pkts q) (concat (map (\<lambda>i. map the (queue_of q i)) (neighbor_list q)))"
proof -
  have d: "distinct (neighbor_list q)"
    using inv by (simp add: tq_inv_def nbrs_inv_def)
  obtain q' where q': "reset_all (neighbor_list q) q = Some q'" "tq_inv nn np q'" "neighbor_list q' = neighbor_list q"
    "\<forall>i. i \<in> set (neighbor_list q) \<longrightarrow> queue_of q' i = [] \<and> backoff_window (nbrs q' ! i) = 0 \<and> naddr (nbrs q' ! i) = naddr (nbrs q ! i)"
    "pkt_live q' = pkt_live q - (\<Union>i \<in> set (neighbor_list q). the ` set (queue_of q i))"
    "sent_log q' = sent_log q @ failure_log (pkts q) (concat (map (\<lambda>i. map the (queue_of q i)) (neighbor_list q)))"
    using reset_all_spec [OF inv unl subset_refl d] by blast
  have "aqueue q' a = []" for a
  proof (cases rule: aqueue_cases [OF q'(2), of a])
    case (1 i)
    then show ?thesis
      using q'(3,4) by (metis list.simps(8))
  qed
  moreover have "pkt_live q' = {j \<in> pkt_live q. \<forall>i. i \<in> set (neighbor_list q) \<longrightarrow> j \<notin> set (map the (queue_of q i))}"
    unfolding q'(5) by auto
  ultimately show ?thesis
    using q' unl by (simp add: tsch_queue_reset_def tsch_is_locked_def)
qed

theorem reset_empties_queues_witness:
  "\<exists>j q'. aqueue tq_example flow1 = [j] \<and> tsch_queue_reset tq_example = Some q' \<and> aqueue q' flow1 = []"
  using reset_empties_queues [OF tq_example(1,2)] tq_example(3) by blast

lemma free_unused_result:
  assumes inv: "tq_inv nn np q" and unl: "\<not> locked q"
  shows "\<exists>q'. tsch_queue_free_unused_neighbors q = Some q' \<and> tq_inv nn np q'
    \<and> neighbor_list q' = filter (\<lambda>i. \<not> unused_nbr q i) (neighbor_list q)
    \<and> nbr_live q' = {i \<in> nbr_live q. i \<in> set (neighbor_list q) \<longrightarrow> \<not> unused_nbr q i}
    \<and> aqueue q' = aqueue q \<and> pkt_live q' = pkt_live q \<and> pkts q' = pkts q \<and> qbufs q' = qbufs q \<and> nbrs q' = nbrs q
    \<and> locked q' = locked q \<and> n_broadcast q' = n_broadcast q \<and> n_eb q' = n_eb q"
proof -
  have d: "distinct (neighbor_list q)"
    using inv by (simp add: tq_inv_def nbrs_inv_def)
  obtain m where m: "free_unused (neighbor_list q) q = Some (q\<lparr>neighbor_list :=
        filter (\<lambda>i. i \<notin> set (neighbor_list q) \<or> \<not> unused_nbr q i) (neighbor_list q), neighbor_memb := m\<rparr>)"
    "tq_inv nn np (q\<lparr>neighbor_list := filter (\<lambda>i. i \<notin> set (neighbor_list q) \<or> \<not> unused_nbr q i) (neighbor_list q), neighbor_memb := m\<rparr>)"
    "used m = nbr_live q - {i \<in> set (neighbor_list q). unused_nbr q i}"
    by (rule free_unused_spec [OF inv unl subset_refl d])
  have f: "filter (\<lambda>i. i \<notin> set (neighbor_list q) \<or> \<not> unused_nbr q i) (neighbor_list q)
      = filter (\<lambda>i. \<not> unused_nbr q i) (neighbor_list q)"
    by (auto intro: filter_cong)
  let ?q = "q\<lparr>neighbor_list := filter (\<lambda>i. \<not> unused_nbr q i) (neighbor_list q), neighbor_memb := m\<rparr>"
  have inv': "tq_inv nn np ?q"
    using m(2) unfolding f .
  have "aqueue ?q a = aqueue q a" for a
  proof (cases "\<exists>i \<in> set (neighbor_list ?q). naddr (nbrs q ! i) = a")
    case True
    then obtain i where i: "i \<in> set (neighbor_list ?q)" "i \<in> set (neighbor_list q)" "naddr (nbrs q ! i) = a"
      by auto
    with aqueue_at [OF inv' i(1), of a] aqueue_at [OF inv i(2), of a] show ?thesis
      by simp
  next
    case False
    then have "aqueue ?q a = []"
      by (intro aqueue_absent) auto
    moreover have "aqueue q a = []"
    proof (cases rule: aqueue_cases [OF inv, of a])
      case (1 i)
      then show ?thesis
        using False by (auto simp: unused_nbr_def)
    qed
    ultimately show ?thesis
      by simp
  qed
  with m(1,3) inv' unl show ?thesis
    unfolding f by (auto simp: tsch_queue_free_unused_neighbors_def tsch_is_locked_def fun_eq_iff)
qed

text \<open>
  \<^verbatim>\<open>tsch_queue_free_unused_neighbors\<close>.  Exactly the neighbors go that are not broadcast, not the time source, without
  a transmission link and with an empty queue; the others keep their order, and no queue changes.
\<close>

theorem unused_neighbors_freed:
  assumes inv: "tq_inv nn np q" and unl: "\<not> locked q"
  shows "\<exists>q'. tsch_queue_free_unused_neighbors q = Some q' \<and> tq_inv nn np q'
    \<and> neighbor_list q' = filter (\<lambda>i. \<not> unused_nbr q i) (neighbor_list q)
    \<and> nbr_live q' = {i \<in> nbr_live q. i \<in> set (neighbor_list q) \<longrightarrow> \<not> unused_nbr q i}
    \<and> aqueue q' = aqueue q \<and> pkt_live q' = pkt_live q"
  using free_unused_result [OF assms] by blast

theorem unused_neighbors_freed_witness:
  "\<exists>j q'. aqueue tq_example flow1 = [j] \<and> tsch_queue_free_unused_neighbors tq_example = Some q' \<and> aqueue q' flow1 = [j]"
  using unused_neighbors_freed [OF tq_example(1,2)] tq_example(3) by fastforce

end
