(* ===== verification/Tsch_Schedule.thy ===== *)
theory Tsch_Schedule
  imports Tsch_Queue_Spec
begin

text \<open>
  The TSCH schedule of \<^verbatim>\<open>tsch-schedule.c\<close>: a list of slotframes, each with its list of links, both taken from
  pools.  Pointers are pool indices; the pools' contents are the lists \<open>links\<close> and \<open>slotframes\<close>, and a list of
  \<^verbatim>\<open>list.c\<close> is the sequence of its elements (theory \<open>Linked_List\<close>).  \<open>sq\<close> is the state of the queues, which
  the schedule keeps informed of the transmission links, and holds the common lock.  The code is the configuration of the
  repository's application: central scheduling with a queue per flow.
\<close>

section \<open>State\<close>

datatype link_type = LINK_TYPE_NORMAL | LINK_TYPE_ADVERTISING | LINK_TYPE_ADVERTISING_ONLY

record tsch_link =
  l_handle :: u16
  l_addr :: linkaddr
  l_slotframe :: u16
  l_timeslot :: u16
  l_channel :: u16
  l_options :: u8
  l_type :: link_type

record tsch_slotframe =
  sf_handle :: u16
  sf_size :: asn_divisor
  links_list :: "nat list"

record tsch_schedule =
  sq :: tsch_queue
  link_memb :: memb
  links :: "tsch_link list"
  slotframe_memb :: memb
  slotframes :: "tsch_slotframe list"
  slotframe_list :: "nat list"
  current_link :: ptr
  current_link_handle :: u32

definition TSCH_SCHEDULE_DEFAULT_LENGTH :: u16 where
  "TSCH_SCHEDULE_DEFAULT_LENGTH = 7"

section \<open>Operations\<close>

definition tsch_schedule_get_slotframe_by_handle :: "tsch_schedule \<Rightarrow> u16 \<Rightarrow> ptr option" where
  "tsch_schedule_get_slotframe_by_handle S handle =
     (if \<not> tsch_is_locked (sq S) then find_rd (\<lambda>sf. sf_handle sf = handle) (slotframes S) (slotframe_list S) else Some None)"

definition tsch_schedule_add_slotframe :: "tsch_schedule \<Rightarrow> u16 \<Rightarrow> u16 \<Rightarrow> (ptr \<times> tsch_schedule) option" where
  "tsch_schedule_add_slotframe S handle sz = (if sz = 0 then Some (None, S) else do {
     known \<leftarrow> tsch_schedule_get_slotframe_by_handle S handle;
     if known \<noteq> None then Some (None, S) else
       (let (ok, q) = tsch_get_lock (sq S); S = S\<lparr>sq := q\<rparr> in
        if ok then do {
          (sf, m) \<leftarrow> memb_alloc (slotframe_memb S);
          let S = S\<lparr>slotframe_memb := m\<rparr>;
          S \<leftarrow> (case sf of
             None \<Rightarrow> Some S
           | Some i \<Rightarrow> do {
               sfs \<leftarrow> wr (slotframes S) i \<lparr>sf_handle = handle, sf_size = TSCH_ASN_DIVISOR_INIT sz, links_list = []\<rparr>;
               Some (S\<lparr>slotframes := sfs, slotframe_list := seq_step (slotframe_list S) (Add i)\<rparr>)
             });
          Some (sf, S\<lparr>sq := tsch_release_lock (sq S)\<rparr>)
        } else Some (None, S))
   })"

text \<open>The walk through the slotframes and their links that \<^verbatim>\<open>tsch_schedule_get_link_by_handle\<close> makes.\<close>

fun link_by_handle_from :: "tsch_schedule \<Rightarrow> u16 \<Rightarrow> nat list \<Rightarrow> ptr option" where
  "link_by_handle_from S handle [] = Some None"
| "link_by_handle_from S handle (i # is) = do {
     sf \<leftarrow> rd (slotframes S) i;
     l \<leftarrow> find_rd (\<lambda>l. l_handle l = handle) (links S) (links_list sf);
     if l \<noteq> None then Some l else link_by_handle_from S handle is
   }"

definition tsch_schedule_get_link_by_handle :: "tsch_schedule \<Rightarrow> u16 \<Rightarrow> ptr option" where
  "tsch_schedule_get_link_by_handle S handle =
     (if \<not> tsch_is_locked (sq S) then link_by_handle_from S handle (slotframe_list S) else Some None)"

definition tsch_schedule_get_link_by_timeslot :: "tsch_schedule \<Rightarrow> ptr \<Rightarrow> u16 \<Rightarrow> ptr option" where
  "tsch_schedule_get_link_by_timeslot S slotframe timeslot =
     (if \<not> tsch_is_locked (sq S) then (case slotframe of
        None \<Rightarrow> Some None
      | Some i \<Rightarrow> do {
          sf \<leftarrow> rd (slotframes S) i;
          find_rd (\<lambda>l. l_timeslot l = timeslot) (links S) (links_list sf)
        }) else Some None)"

text \<open>The neighbor a transmission link belongs to is told: \<open>count\<close> is \<^verbatim>\<open>++\<close> or \<^verbatim>\<open>--\<close>.\<close>

definition count_link :: "(u8 \<Rightarrow> u8) \<Rightarrow> u8 \<Rightarrow> tsch_neighbor \<Rightarrow> tsch_neighbor" where
  "count_link cnt options n = (let n = n\<lparr>tx_links_count := cnt (tx_links_count n)\<rparr> in
     if options AND LINK_OPTION_SHARED = 0 then n\<lparr>dedicated_tx_links_count := cnt (dedicated_tx_links_count n)\<rparr> else n)"

definition count_tx_link :: "(u8 \<Rightarrow> u8) \<Rightarrow> u8 \<Rightarrow> linkaddr \<Rightarrow> tsch_queue \<Rightarrow> tsch_queue option" where
  "count_tx_link cnt options addr q =
     (if options AND LINK_OPTION_TX \<noteq> 0 then do {
        (n, q) \<leftarrow> tsch_queue_add_nbr q addr;
        case n of None \<Rightarrow> Some q | Some i \<Rightarrow> upd_nbr q i (count_link cnt options)
      } else Some q)"

definition tsch_schedule_remove_link :: "tsch_schedule \<Rightarrow> ptr \<Rightarrow> ptr \<Rightarrow> (bool \<times> tsch_schedule) option" where
  "tsch_schedule_remove_link S slotframe l = (case (slotframe, l) of
     (Some i, Some k) \<Rightarrow> do {
       sf \<leftarrow> rd (slotframes S) i;
       lk \<leftarrow> rd (links S) k;
       if l_slotframe lk = sf_handle sf then
         (let (ok, q) = tsch_get_lock (sq S); S = S\<lparr>sq := q\<rparr> in
          if ok then do {
            let S = (if current_link S = Some k then S\<lparr>current_link := None\<rparr> else S);
            let S = S\<lparr>slotframes := (slotframes S)[i := sf\<lparr>links_list := seq_step (links_list sf) (Remove k)\<rparr>]\<rparr>;
            (_, m) \<leftarrow> memb_free (link_memb S) k;
            let S = S\<lparr>link_memb := m\<rparr>;
            q \<leftarrow> count_tx_link (\<lambda>c. c - 1) (l_options lk) (l_addr lk) (tsch_release_lock (sq S));
            Some (True, S\<lparr>sq := q\<rparr>)
          } else Some (False, S))
       else Some (False, S)
     }
   | _ \<Rightarrow> Some (False, S))"

definition tsch_schedule_remove_link_by_timeslot :: "tsch_schedule \<Rightarrow> ptr \<Rightarrow> u16 \<Rightarrow> (bool \<times> tsch_schedule) option" where
  "tsch_schedule_remove_link_by_timeslot S slotframe timeslot = (if slotframe = None then Some (False, S) else do {
     l \<leftarrow> tsch_schedule_get_link_by_timeslot S slotframe timeslot;
     tsch_schedule_remove_link S slotframe l
   })"

text \<open>The address that names the queue of a flow.\<close>

definition flow_queue_addr :: "u16 \<Rightarrow> linkaddr" where
  "flow_queue_addr slotframe_handle = [0, ucast slotframe_handle, 0, 0, 0, 0, 0, 0]"

text \<open>\<^verbatim>\<open>timeslot > size.val - 1\<close> is computed in 16 bits; \<^verbatim>\<open>address\<close> may be \<^verbatim>\<open>NULL\<close>.\<close>

definition tsch_schedule_add_link ::
    "tsch_schedule \<Rightarrow> ptr \<Rightarrow> u8 \<Rightarrow> link_type \<Rightarrow> linkaddr option \<Rightarrow> u16 \<Rightarrow> u16 \<Rightarrow> (ptr \<times> tsch_schedule) option" where
  "tsch_schedule_add_link S slotframe options type address timeslot channel_offset = (case slotframe of
     None \<Rightarrow> Some (None, S)
   | Some i \<Rightarrow> do {
       sf \<leftarrow> rd (slotframes S) i;
       if timeslot > dval (sf_size sf) - 1 then Some (None, S)
       else if channel_offset > 15 then Some (None, S)
       else do {
         (_, S) \<leftarrow> tsch_schedule_remove_link_by_timeslot S slotframe timeslot;
         let (ok, q) = tsch_get_lock (sq S);
         let S = S\<lparr>sq := q\<rparr>;
         if \<not> ok then Some (None, S) else do {
           (l, m) \<leftarrow> memb_alloc (link_memb S);
           let S = S\<lparr>link_memb := m\<rparr>;
           case l of
             None \<Rightarrow> Some (None, S\<lparr>sq := tsch_release_lock (sq S)\<rparr>)
           | Some k \<Rightarrow> do {
               sf \<leftarrow> rd (slotframes S) i;
               ls \<leftarrow> wr (links S) k \<lparr>l_handle = ucast (current_link_handle S),
                   l_addr = (case address of Some a \<Rightarrow> a | None \<Rightarrow> linkaddr_null), l_slotframe = sf_handle sf,
                   l_timeslot = timeslot, l_channel = channel_offset, l_options = options, l_type = type\<rparr>;
               let S = S\<lparr>slotframes := (slotframes S)[i := sf\<lparr>links_list := seq_step (links_list sf) (Add k)\<rparr>],
                   links := ls, current_link_handle := current_link_handle S + 1\<rparr>;
               q \<leftarrow> count_tx_link (\<lambda>c. c + 1) options (flow_queue_addr (sf_handle sf)) (tsch_release_lock (sq S));
               Some (Some k, S\<lparr>sq := q\<rparr>)
             }
         }
       }
     })"

text \<open>\<^verbatim>\<open>while((l = list_head(slotframe->links_list)))\<close>: the loop ends only when the list is empty.\<close>

partial_function (option) remove_links :: "tsch_schedule \<Rightarrow> nat \<Rightarrow> tsch_schedule option" where
  "remove_links S i = do {
     sf \<leftarrow> rd (slotframes S) i;
     case links_list sf of
       [] \<Rightarrow> Some S
     | k # _ \<Rightarrow> do {
         (_, S) \<leftarrow> tsch_schedule_remove_link S (Some i) (Some k);
         remove_links S i
       }
   }"

definition tsch_schedule_remove_slotframe :: "tsch_schedule \<Rightarrow> ptr \<Rightarrow> (bool \<times> tsch_schedule) option" where
  "tsch_schedule_remove_slotframe S slotframe = (case slotframe of
     None \<Rightarrow> Some (False, S)
   | Some i \<Rightarrow> do {
       S \<leftarrow> remove_links S i;
       let (ok, q) = tsch_get_lock (sq S);
       let S = S\<lparr>sq := q\<rparr>;
       if ok then do {
         (_, m) \<leftarrow> memb_free (slotframe_memb S) i;
         Some (True, S\<lparr>slotframe_memb := m, slotframe_list := seq_step (slotframe_list S) (Remove i),
           sq := tsch_release_lock (sq S)\<rparr>)
       } else Some (False, S)
     })"

partial_function (option) tsch_schedule_remove_all_slotframes :: "tsch_schedule \<Rightarrow> (bool \<times> tsch_schedule) option" where
  "tsch_schedule_remove_all_slotframes S = (case slotframe_list S of
     [] \<Rightarrow> Some (True, S)
   | i # _ \<Rightarrow> do {
       (ok, S) \<leftarrow> tsch_schedule_remove_slotframe S (Some i);
       if ok then tsch_schedule_remove_all_slotframes S else Some (False, S)
     })"

definition tsch_schedule_init :: "tsch_schedule \<Rightarrow> bool \<times> tsch_schedule" where
  "tsch_schedule_init S = (let (ok, q) = tsch_get_lock (sq S) in
     if ok then (True, S\<lparr>link_memb := memb_init (link_memb S), slotframe_memb := memb_init (slotframe_memb S),
       slotframe_list := [], sq := tsch_release_lock q\<rparr>)
     else (False, S))"

definition tsch_schedule_create_minimal :: "tsch_schedule \<Rightarrow> tsch_schedule option" where
  "tsch_schedule_create_minimal S = do {
     (_, S) \<leftarrow> tsch_schedule_remove_all_slotframes S;
     (sf_min, S) \<leftarrow> tsch_schedule_add_slotframe S 0 TSCH_SCHEDULE_DEFAULT_LENGTH;
     (_, S) \<leftarrow> tsch_schedule_add_link S sf_min
       (LINK_OPTION_RX OR LINK_OPTION_TX OR LINK_OPTION_SHARED OR LINK_OPTION_TIME_KEEPING)
       LINK_TYPE_ADVERTISING (Some tsch_broadcast_address) 0 0;
     Some S
   }"

section \<open>The next active link\<close>

text \<open>
  \<open>consider_link\<close> is the body of the inner loop, on the best link so far, the slots to it and the backup link;
  \<open>ts\<close> is the current timeslot of the slotframe.
\<close>

definition time_to_timeslot :: "asn_divisor \<Rightarrow> u16 \<Rightarrow> u16 \<Rightarrow> u16" where
  "time_to_timeslot sz ts lts = (if lts > ts then lts - ts else dval sz + lts - ts)"

definition consider_link :: "tsch_link list \<Rightarrow> asn_divisor \<Rightarrow> u16 \<Rightarrow> nat \<Rightarrow> ptr \<times> u16 \<times> ptr \<Rightarrow> (ptr \<times> u16 \<times> ptr) option" where
  "consider_link ls sz ts l = (\<lambda>(curr_best, best_time, backup). do {
     lk \<leftarrow> rd ls l;
     let t = time_to_timeslot sz ts (l_timeslot lk);
     case curr_best of
       None \<Rightarrow> Some (Some l, t, None)
     | Some b \<Rightarrow>
         if t < best_time then Some (Some l, t, None)
         else if t = best_time then do {
           bk \<leftarrow> rd ls b;
           let new_best = (if l_options bk AND LINK_OPTION_TX = l_options lk AND LINK_OPTION_TX
                then (if l_slotframe lk < l_slotframe bk then Some l else None)
                else (if l_options lk AND LINK_OPTION_TX \<noteq> 0 then Some l else None));
           let backup' = (if new_best \<noteq> Some l \<and> l_options lk AND LINK_OPTION_RX \<noteq> 0 then Some l else backup);
           let backup' = (if new_best \<noteq> Some b \<and> l_options bk AND LINK_OPTION_RX \<noteq> 0 then Some b else backup');
           Some (if new_best = None then curr_best else new_best, best_time, if backup = None then backup' else backup)
         }
         else Some (curr_best, best_time, backup)
   })"

fun consider_links :: "tsch_link list \<Rightarrow> asn_divisor \<Rightarrow> u16 \<Rightarrow> nat list \<Rightarrow> ptr \<times> u16 \<times> ptr \<Rightarrow> (ptr \<times> u16 \<times> ptr) option" where
  "consider_links ls sz ts [] st = Some st"
| "consider_links ls sz ts (l # rest) st = do { st \<leftarrow> consider_link ls sz ts l st; consider_links ls sz ts rest st }"

fun consider_slotframes :: "tsch_schedule \<Rightarrow> asn \<Rightarrow> nat list \<Rightarrow> ptr \<times> u16 \<times> ptr \<Rightarrow> (ptr \<times> u16 \<times> ptr) option" where
  "consider_slotframes S asn [] st = Some st"
| "consider_slotframes S asn (i # is) st = do {
     sf \<leftarrow> rd (slotframes S) i;
     st \<leftarrow> consider_links (links S) (sf_size sf) (TSCH_ASN_MOD asn (sf_size sf)) (links_list sf) st;
     consider_slotframes S asn is st
   }"

text \<open>The result is the link, the time offset (\<^verbatim>\<open>None\<close> when it is not written) and the backup link.\<close>

definition tsch_schedule_get_next_active_link :: "tsch_schedule \<Rightarrow> asn \<Rightarrow> (ptr \<times> u16 option \<times> ptr) option" where
  "tsch_schedule_get_next_active_link S asn =
     (if tsch_is_locked (sq S) then Some (None, None, None)
      else do {
        (curr_best, time_to_curr_best, backup) \<leftarrow> consider_slotframes S asn (slotframe_list S) (None, 0, None);
        Some (curr_best, Some time_to_curr_best, backup)
      })"

end
