(* ===== verification/Tsch_Schedule_Spec.thy ===== *)
theory Tsch_Schedule_Spec
  imports Tsch_Schedule
begin

text \<open>
  What the schedule promises: seen as a map from slotframe handles to lengths and a map from (slotframe, timeslot) to
  links, its operations are the obvious map updates; slots in which the node must act are found exactly.
\<close>

section \<open>The schedule as maps\<close>

abbreviation sf_of :: "tsch_schedule \<Rightarrow> nat \<Rightarrow> tsch_slotframe" where
  "sf_of S i \<equiv> slotframes S ! i"

abbreviation link_live :: "tsch_schedule \<Rightarrow> nat set" where
  "link_live S \<equiv> used (link_memb S)"

definition frames :: "tsch_schedule \<Rightarrow> u16 \<Rightarrow> u16 option" where
  "frames S h = map_option (\<lambda>i. dval (sf_size (sf_of S i))) (find (\<lambda>i. sf_handle (sf_of S i) = h) (slotframe_list S))"

type_synonym link_info = "u8 \<times> link_type \<times> linkaddr \<times> u16"

definition link_info :: "tsch_link \<Rightarrow> link_info" where
  "link_info l = (l_options l, l_type l, l_addr l, l_channel l)"

definition schedule :: "tsch_schedule \<Rightarrow> u16 \<times> u16 \<Rightarrow> link_info option" where
  "schedule S = (\<lambda>(h, t). case find (\<lambda>i. sf_handle (sf_of S i) = h) (slotframe_list S) of
       None \<Rightarrow> None
     | Some i \<Rightarrow> map_option (\<lambda>l. link_info (links S ! l)) (find (\<lambda>l. l_timeslot (links S ! l) = t) (links_list (sf_of S i))))"

section \<open>Invariant\<close>

definition frames_inv :: "nat \<Rightarrow> tsch_schedule \<Rightarrow> bool" where
  "frames_inv ns S \<longleftrightarrow> elem_ok ns (slotframe_memb S) \<and> length (slotframes S) = ns
     \<and> distinct (slotframe_list S) \<and> used (slotframe_memb S) = set (slotframe_list S)
     \<and> inj_on (\<lambda>i. sf_handle (sf_of S i)) (set (slotframe_list S))
     \<and> (\<forall>i \<in> set (slotframe_list S). 0 < dval (sf_size (sf_of S i))
           \<and> sf_size (sf_of S i) = TSCH_ASN_DIVISOR_INIT (dval (sf_size (sf_of S i))))"

text \<open>Every allocated link is in the list of its slotframe, in a timeslot of its own.\<close>

definition links_inv :: "nat \<Rightarrow> tsch_schedule \<Rightarrow> bool" where
  "links_inv nl S \<longleftrightarrow> elem_ok nl (link_memb S) \<and> length (links S) = nl
     \<and> link_live S = (\<Union>i \<in> set (slotframe_list S). set (links_list (sf_of S i)))
     \<and> (\<forall>i \<in> set (slotframe_list S). distinct (links_list (sf_of S i))
          \<and> inj_on (\<lambda>l. l_timeslot (links S ! l)) (set (links_list (sf_of S i))))
     \<and> (\<forall>i \<in> set (slotframe_list S). \<forall>l \<in> set (links_list (sf_of S i)).
          l_slotframe (links S ! l) = sf_handle (sf_of S i) \<and> l_timeslot (links S ! l) < dval (sf_size (sf_of S i))
          \<and> l_channel (links S ! l) \<le> 15 \<and> linkaddr_ok (l_addr (links S ! l)))
     \<and> (\<forall>l. current_link S = Some l \<longrightarrow> l \<in> link_live S)"

definition sched_inv :: "nat \<Rightarrow> nat \<Rightarrow> nat \<Rightarrow> nat \<Rightarrow> tsch_schedule \<Rightarrow> bool" where
  "sched_inv ns nl nn np S \<longleftrightarrow> frames_inv ns S \<and> links_inv nl S \<and> tq_inv nn np (sq S)"

lemmas sched_defs = sched_inv_def frames_inv_def links_inv_def

lemma link_memb_ok: "sched_inv ns nl nn np S \<Longrightarrow> elem_ok nl (link_memb S)"
  by (simp add: sched_inv_def links_inv_def)

lemma sf_less: "sched_inv ns nl nn np S \<Longrightarrow> i \<in> set (slotframe_list S) \<Longrightarrow> i < length (slotframes S)"
  using elem_used by (fastforce simp: sched_inv_def frames_inv_def)

lemma link_less: "sched_inv ns nl nn np S \<Longrightarrow> l \<in> link_live S \<Longrightarrow> l < length (links S)"
  using elem_used by (fastforce simp: sched_inv_def links_inv_def)

lemma link_live_eq: "sched_inv ns nl nn np S \<Longrightarrow> link_live S = (\<Union>i \<in> set (slotframe_list S). set (links_list (sf_of S i)))"
  by (simp add: sched_inv_def links_inv_def)

lemma current_link_live: "sched_inv ns nl nn np S \<Longrightarrow> current_link S = Some l \<Longrightarrow> l \<in> link_live S"
  unfolding sched_inv_def links_inv_def by blast

lemma list_link_live:
  "sched_inv ns nl nn np S \<Longrightarrow> i \<in> set (slotframe_list S) \<Longrightarrow> l \<in> set (links_list (sf_of S i)) \<Longrightarrow> l \<in> link_live S"
  unfolding link_live_eq by blast

lemma list_link_ok:
  "sched_inv ns nl nn np S \<Longrightarrow> i \<in> set (slotframe_list S) \<Longrightarrow> l \<in> set (links_list (sf_of S i)) \<Longrightarrow>
   l_slotframe (links S ! l) = sf_handle (sf_of S i) \<and> l_timeslot (links S ! l) < dval (sf_size (sf_of S i))
   \<and> l_channel (links S ! l) \<le> 15 \<and> linkaddr_ok (l_addr (links S ! l))"
  unfolding sched_inv_def links_inv_def by blast

lemma rd_sf [simp]:
  "sched_inv ns nl nn np S \<Longrightarrow> i \<in> set (slotframe_list S) \<Longrightarrow> rd (slotframes S) i = Some (sf_of S i)"
  by (simp add: rd_in sf_less)

lemma rd_link [simp]: "sched_inv ns nl nn np S \<Longrightarrow> l \<in> link_live S \<Longrightarrow> rd (links S) l = Some (links S ! l)"
  by (simp add: rd_in link_less)

lemma sf_unique:
  "sched_inv ns nl nn np S \<Longrightarrow> i \<in> set (slotframe_list S) \<Longrightarrow> j \<in> set (slotframe_list S) \<Longrightarrow>
   sf_handle (sf_of S i) = sf_handle (sf_of S j) \<Longrightarrow> i = j"
  unfolding sched_inv_def frames_inv_def inj_on_def by blast

lemma find_unique:
  assumes "x \<in> set xs" "P x" "\<And>y. y \<in> set xs \<Longrightarrow> P y \<Longrightarrow> y = x"
  shows "find P xs = Some x"
proof (cases "find P xs")
  case None
  with assms(1,2) show ?thesis
    by (simp add: find_None_iff)
next
  case (Some y)
  then have "y \<in> set xs" "P y"
    by (auto simp: find_Some_iff)
  with assms(3) Some show ?thesis
    by simp
qed

lemma find_append: "find P (xs @ ys) = (case find P xs of None \<Rightarrow> find P ys | Some x \<Rightarrow> Some x)"
  by (induction xs) simp_all

lemma find_sf:
  assumes "sched_inv ns nl nn np S" "i \<in> set (slotframe_list S)" "sf_handle (sf_of S i) = h"
  shows "find (\<lambda>i. sf_handle (sf_of S i) = h) (slotframe_list S) = Some i"
  using assms sf_unique [OF assms(1)] by (intro find_unique) auto

lemma find_sf_None: "find (\<lambda>i. sf_handle (sf_of S i) = h) (slotframe_list S) = None \<longleftrightarrow>
    (\<forall>i \<in> set (slotframe_list S). sf_handle (sf_of S i) \<noteq> h)"
  by (auto simp: find_None_iff)

lemma frames_at:
  "sched_inv ns nl nn np S \<Longrightarrow> i \<in> set (slotframe_list S) \<Longrightarrow> frames S (sf_handle (sf_of S i)) = Some (dval (sf_size (sf_of S i)))"
  by (simp add: frames_def find_sf)

text \<open>The link in a timeslot is the allocated link with that slotframe and timeslot.\<close>

definition link_key :: "tsch_link \<Rightarrow> u16 \<times> u16" where
  "link_key l = (l_slotframe l, l_timeslot l)"

lemma live_link_sf:
  assumes "sched_inv ns nl nn np S" "l \<in> link_live S"
  obtains i where "i \<in> set (slotframe_list S)" "l \<in> set (links_list (sf_of S i))" "l_slotframe (links S ! l) = sf_handle (sf_of S i)"
  using assms(2) list_link_ok [OF assms(1)] unfolding link_live_eq [OF assms(1)] by blast

lemma link_key_inj: "sched_inv ns nl nn np S \<Longrightarrow> inj_on (\<lambda>l. link_key (links S ! l)) (link_live S)"
proof (rule inj_onI)
  fix a b
  assume inv: "sched_inv ns nl nn np S" and a: "a \<in> link_live S" and b: "b \<in> link_live S"
    and eq: "link_key (links S ! a) = link_key (links S ! b)"
  obtain i where i: "i \<in> set (slotframe_list S)" "a \<in> set (links_list (sf_of S i))" "l_slotframe (links S ! a) = sf_handle (sf_of S i)"
    by (rule live_link_sf [OF inv a])
  obtain j where j: "j \<in> set (slotframe_list S)" "b \<in> set (links_list (sf_of S j))" "l_slotframe (links S ! b) = sf_handle (sf_of S j)"
    by (rule live_link_sf [OF inv b])
  have "i = j"
    using sf_unique [OF inv i(1) j(1)] i(3) j(3) eq by (simp add: link_key_def)
  moreover have "inj_on (\<lambda>l. l_timeslot (links S ! l)) (set (links_list (sf_of S i)))"
    using inv i(1) by (simp add: sched_inv_def links_inv_def)
  ultimately show "a = b"
    using i j eq by (auto simp: link_key_def inj_on_def)
qed

lemma schedule_Some:
  assumes inv: "sched_inv ns nl nn np S"
  shows "schedule S k = Some v \<longleftrightarrow> (\<exists>l \<in> link_live S. link_key (links S ! l) = k \<and> v = link_info (links S ! l))"
proof -
  obtain h t where k: "k = (h, t)"
    by force
  show ?thesis
  proof
    assume "schedule S k = Some v"
    then obtain i l where i: "find (\<lambda>i. sf_handle (sf_of S i) = h) (slotframe_list S) = Some i"
      and l: "find (\<lambda>l. l_timeslot (links S ! l) = t) (links_list (sf_of S i)) = Some l" and v: "v = link_info (links S ! l)"
      by (auto simp: schedule_def k split: option.splits)
    have i': "i \<in> set (slotframe_list S)" "sf_handle (sf_of S i) = h"
      using i by (auto simp: find_Some_iff)
    have l': "l \<in> set (links_list (sf_of S i))" "l_timeslot (links S ! l) = t"
      using l by (auto simp: find_Some_iff)
    have "l_slotframe (links S ! l) = h"
      using list_link_ok [OF inv i'(1) l'(1)] i'(2) by simp
    with l' v list_link_live [OF inv i'(1) l'(1)] show "\<exists>l \<in> link_live S. link_key (links S ! l) = k \<and> v = link_info (links S ! l)"
      by (auto simp: k link_key_def)
  next
    assume "\<exists>l \<in> link_live S. link_key (links S ! l) = k \<and> v = link_info (links S ! l)"
    then obtain l where l: "l \<in> link_live S" "link_key (links S ! l) = k" "v = link_info (links S ! l)"
      by blast
    obtain i where i: "i \<in> set (slotframe_list S)" "l \<in> set (links_list (sf_of S i))" "l_slotframe (links S ! l) = sf_handle (sf_of S i)"
      by (rule live_link_sf [OF inv l(1)])
    have inj: "inj_on (\<lambda>l. l_timeslot (links S ! l)) (set (links_list (sf_of S i)))"
      using inv i(1) by (simp add: sched_inv_def links_inv_def)
    have "find (\<lambda>l. l_timeslot (links S ! l) = t) (links_list (sf_of S i)) = Some l"
      using i(2) l(2) inj by (intro find_unique) (auto simp: k link_key_def inj_on_def)
    with find_sf [OF inv i(1)] i(3) l(2,3) show "schedule S k = Some v"
      by (simp add: schedule_def k link_key_def)
  qed
qed

lemma schedule_at: "sched_inv ns nl nn np S \<Longrightarrow> l \<in> link_live S \<Longrightarrow> schedule S (link_key (links S ! l)) = Some (link_info (links S ! l))"
  by (auto simp: schedule_Some)

lemma schedule_None:
  "sched_inv ns nl nn np S \<Longrightarrow> schedule S k = None \<longleftrightarrow> (\<forall>l \<in> link_live S. link_key (links S ! l) \<noteq> k)"
  using schedule_Some [of ns nl nn np S k] by (metis not_None_eq)

section \<open>Changes of the queues only\<close>

lemma inv_set_sq [simp]:
  "frames_inv ns (S\<lparr>sq := q\<rparr>) = frames_inv ns S" "links_inv nl (S\<lparr>sq := q\<rparr>) = links_inv nl S"
  "frames (S\<lparr>sq := q\<rparr>) = frames S" "schedule (S\<lparr>sq := q\<rparr>) = schedule S"
  by (simp_all add: frames_inv_def links_inv_def frames_def schedule_def fun_eq_iff split: option.split)

lemma keeps_queue_count: "keeps_queue (count_link c options)"
  by (auto simp: keeps_queue_def nbr_ok_def count_link_def Let_def)

text \<open>Telling a neighbor about a link changes no queue.\<close>

definition same_queues :: "tsch_queue \<Rightarrow> tsch_queue \<Rightarrow> bool" where
  "same_queues q q' \<longleftrightarrow> aqueue q' = aqueue q \<and> same_packets q q'"

lemma same_queues_refl [simp]: "same_queues q q"
  by (simp add: same_queues_def same_packets_def)

lemma same_queues_trans: "same_queues p q \<Longrightarrow> same_queues q r \<Longrightarrow> same_queues p r"
  by (simp add: same_queues_def same_packets_def)

lemma count_tx_link_spec:
  assumes inv: "tq_inv nn np q" and unl: "\<not> locked q" and a: "linkaddr_ok a"
  obtains q' where "count_tx_link c options a q = Some q'" "tq_inv nn np q'" "same_queues q q'"
proof (cases "options AND LINK_OPTION_TX = 0")
  case True
  with inv that [of q] show thesis
    by (simp add: count_tx_link_def)
next
  case tx: False
  show thesis
    using inv unl a
  proof (cases rule: tq_add_nbr)
    case full
    with inv tx that [of q] show thesis
      by (simp add: count_tx_link_def)
  next
    case (nbr i q1)
    have i: "i \<in> nbr_live q1"
      by (rule tq_list_live [OF nbr(2,3)])
    let ?q2 = "q1\<lparr>nbrs := (nbrs q1)[i := count_link c options (nbrs q1 ! i)]\<rparr>"
    have u: "upd_nbr q1 i (count_link c options) = Some ?q2" "tq_inv nn np ?q2"
      using upd_nbr_spec [OF nbr(2) i keeps_queue_count] by auto
    have k: "queue_of ?q2 j = queue_of q1 j" "naddr (nbrs ?q2 ! j) = naddr (nbrs q1 ! j)" for j
      using nqueue_set_kept [OF keeps_queue_count tq_live_less [OF nbr(2) i]] tq_live_less [OF nbr(2) i]
      by (auto simp: nth_list_update count_link_def Let_def)
    have "aqueue ?q2 = aqueue q1"
      by (rule aqueue_same [OF nbr(2) u(2)]) (use k in simp_all)
    with nbr u tx that [of ?q2] show thesis
      by (simp add: count_tx_link_def same_queues_def same_packets_def)
  qed
qed

section \<open>Removing a link\<close>

lemma frames_cong:
  assumes "slotframe_list S' = slotframe_list S"
    and "\<forall>i \<in> set (slotframe_list S). sf_handle (sf_of S' i) = sf_handle (sf_of S i) \<and> sf_size (sf_of S' i) = sf_size (sf_of S i)"
  shows "frames S' = frames S"
proof
  fix h
  have f: "find (\<lambda>i. sf_handle (sf_of S' i) = h) (slotframe_list S) = find (\<lambda>i. sf_handle (sf_of S i) = h) (slotframe_list S)"
    using assms(2) by (intro find_cong) auto
  show "frames S' h = frames S h"
  proof (cases "find (\<lambda>i. sf_handle (sf_of S i) = h) (slotframe_list S)")
    case None
    with f assms(1) show ?thesis
      by (simp add: frames_def)
  next
    case (Some i)
    then have "i \<in> set (slotframe_list S)"
      by (auto simp: find_Some_iff)
    with Some f assms show ?thesis
      by (simp add: frames_def)
  qed
qed

text \<open>The effect of taking link \<open>k\<close> out of slotframe \<open>i\<close>.\<close>

definition unlinked :: "tsch_schedule \<Rightarrow> nat \<Rightarrow> nat \<Rightarrow> tsch_schedule \<Rightarrow> bool" where
  "unlinked S i k S' \<longleftrightarrow> slotframe_list S' = slotframe_list S \<and> slotframe_memb S' = slotframe_memb S
     \<and> links S' = links S \<and> link_live S' = link_live S - {k}
     \<and> (\<forall>j. sf_of S' j = (if j = i then (sf_of S i)\<lparr>links_list := remove1 k (links_list (sf_of S i))\<rparr> else sf_of S j))
     \<and> current_link S' = (if current_link S = Some k then None else current_link S)
     \<and> length (slotframes S') = length (slotframes S) \<and> same_queues (sq S) (sq S')"

lemma unlinked_inv:
  assumes inv: "sched_inv ns nl nn np S" and i: "i \<in> set (slotframe_list S)" and k: "k \<in> set (links_list (sf_of S i))"
    and u: "unlinked S i k S'" and m: "elem_ok nl (link_memb S')" and q: "tq_inv nn np (sq S')"
  shows "sched_inv ns nl nn np S'"
proof -
  note u' = u [unfolded unlinked_def]
  have hs: "sf_handle (sf_of S' j) = sf_handle (sf_of S j)" "sf_size (sf_of S' j) = sf_size (sf_of S j)" for j
    using u' by auto
  have other: "k \<notin> set (links_list (sf_of S j))" if "j \<in> set (slotframe_list S)" "j \<noteq> i" for j
    using list_link_ok [OF inv i k] list_link_ok [OF inv that(1), of k] sf_unique [OF inv i that(1)] that(2) by auto
  have d: "distinct (links_list (sf_of S j))" "inj_on (\<lambda>l. l_timeslot (links S ! l)) (set (links_list (sf_of S j)))"
    if "j \<in> set (slotframe_list S)" for j
    using inv that by (simp_all add: sched_inv_def links_inv_def)
  have set': "set (links_list (sf_of S' j)) = set (links_list (sf_of S j)) - {k}" if "j \<in> set (slotframe_list S)" for j
    using u' other [OF that] d(1) [OF that] by auto
  have "frames_inv ns S'"
    using inv u' hs by (simp add: sched_inv_def frames_inv_def)
  moreover have "links_inv nl S'"
    unfolding links_inv_def
  proof (intro conjI ballI allI impI)
    show "elem_ok nl (link_memb S')"
      by (rule m)
    show "length (links S') = nl"
      using inv u' by (simp add: sched_inv_def links_inv_def)
    have "(\<Union>j \<in> set (slotframe_list S'). set (links_list (sf_of S' j))) = (\<Union>j \<in> set (slotframe_list S). set (links_list (sf_of S j)) - {k})"
      using u' set' by (intro SUP_cong) simp_all
    then show "link_live S' = (\<Union>j \<in> set (slotframe_list S'). set (links_list (sf_of S' j)))"
      using u' link_live_eq [OF inv] by auto
    fix j
    assume "j \<in> set (slotframe_list S')"
    then have j: "j \<in> set (slotframe_list S)"
      using u' by simp
    show "distinct (links_list (sf_of S' j))"
      using u' d(1) [OF j] by (cases "j = i") (simp_all add: distinct_remove1)
    show "inj_on (\<lambda>l. l_timeslot (links S' ! l)) (set (links_list (sf_of S' j)))"
      using u' d(2) [OF j] unfolding set' [OF j] by (auto intro: inj_on_subset)
    fix l
    assume "l \<in> set (links_list (sf_of S' j))"
    then have l: "l \<in> set (links_list (sf_of S j))"
      unfolding set' [OF j] by simp
    note ok = list_link_ok [OF inv j l]
    show "l_slotframe (links S' ! l) = sf_handle (sf_of S' j)" "l_timeslot (links S' ! l) < dval (sf_size (sf_of S' j))"
      "l_channel (links S' ! l) \<le> 15" "linkaddr_ok (l_addr (links S' ! l))"
      using ok u' unfolding hs by simp_all
  next
    fix l
    assume "current_link S' = Some l"
    then have "current_link S = Some l" "l \<noteq> k"
      using u' by (auto split: if_splits)
    with current_link_live [OF inv] u' show "l \<in> link_live S'"
      by simp
  qed
  ultimately show ?thesis
    using q by (simp add: sched_inv_def)
qed

lemma unlinked_schedule:
  assumes inv: "sched_inv ns nl nn np S" "sched_inv ns nl nn np S'" and k: "k \<in> link_live S" and u: "unlinked S i k S'"
  shows "schedule S' = (schedule S)(link_key (links S ! k) := None)" "frames S' = frames S"
proof -
  note u' = u [unfolded unlinked_def]
  show "frames S' = frames S"
    using u' by (intro frames_cong) auto
  have "schedule S' x = Some v \<longleftrightarrow> ((schedule S)(link_key (links S ! k) := None)) x = Some v" for x v
    using u' k link_key_inj [OF inv(1)] by (auto simp: schedule_Some [OF inv(1)] schedule_Some [OF inv(2)] inj_on_def)
  then show "schedule S' = (schedule S)(link_key (links S ! k) := None)"
    by (metis (no_types, lifting) ext not_None_eq)
qed

lemma remove_link_spec:
  assumes inv: "sched_inv ns nl nn np S" and unl: "\<not> locked (sq S)"
    and i: "i \<in> set (slotframe_list S)" and k: "k \<in> set (links_list (sf_of S i))"
  obtains S' where "tsch_schedule_remove_link S (Some i) (Some k) = Some (True, S')" "sched_inv ns nl nn np S'"
    "unlinked S i k S'" "schedule S' = (schedule S)((sf_handle (sf_of S i), l_timeslot (links S ! k)) := None)"
    "frames S' = frames S"
proof -
  note ok = list_link_ok [OF inv i k]
  have kl: "k \<in> link_live S"
    by (rule list_link_live [OF inv i k])
  have m0: "elem_ok nl (link_memb S)" and q: "tq_inv nn np (sq S)"
    using inv by (simp_all add: sched_inv_def links_inv_def)
  obtain c m where m: "memb_free (link_memb S) k = Some (c, m)" "elem_ok nl m" "used m = link_live S - {k}"
    by (rule elem_free [OF m0])
  obtain q' where q': "count_tx_link (\<lambda>c. c - 1) (l_options (links S ! k)) (l_addr (links S ! k)) (sq S) = Some q'"
    "tq_inv nn np q'" "same_queues (sq S) q'"
    using count_tx_link_spec [OF q unl] ok by blast
  define S' where "S' = S\<lparr>sq := q', current_link := (if current_link S = Some k then None else current_link S),
     slotframes := (slotframes S)[i := (sf_of S i)\<lparr>links_list := remove1 k (links_list (sf_of S i))\<rparr>], link_memb := m\<rparr>"
  have rel: "tsch_release_lock ((sq S)\<lparr>locked := True\<rparr>) = sq S"
    using unl by (simp add: tsch_release_lock_def)
  have "tsch_schedule_remove_link S (Some i) (Some k) = Some (True, S')"
    using inv i kl unl ok m(1) q'(1) rel
    by (cases "current_link S = Some k")
      (simp_all add: tsch_schedule_remove_link_def tsch_get_lock_def S'_def)
  moreover have u: "unlinked S i k S'"
    using m(3) q'(3) sf_less [OF inv i] by (simp add: unlinked_def S'_def nth_list_update)
  moreover have inv': "sched_inv ns nl nn np S'"
    by (rule unlinked_inv [OF inv i k u]) (use m q' in \<open>simp_all add: S'_def\<close>)
  moreover have "link_key (links S ! k) = (sf_handle (sf_of S i), l_timeslot (links S ! k))"
    using ok by (simp add: link_key_def)
  ultimately show thesis
    using unlinked_schedule [OF inv inv' kl u] that by metis
qed

section \<open>Adding a link\<close>

lemma get_link_spec:
  assumes inv: "sched_inv ns nl nn np S" and unl: "\<not> locked (sq S)" and i: "i \<in> set (slotframe_list S)"
  obtains (there) k where "tsch_schedule_get_link_by_timeslot S (Some i) t = Some (Some k)" "k \<in> set (links_list (sf_of S i))"
      "l_timeslot (links S ! k) = t" "schedule S (sf_handle (sf_of S i), t) = Some (link_info (links S ! k))"
  | (free) "tsch_schedule_get_link_by_timeslot S (Some i) t = Some None" "schedule S (sf_handle (sf_of S i), t) = None"
      "\<forall>k \<in> set (links_list (sf_of S i)). l_timeslot (links S ! k) \<noteq> t"
proof -
  let ?f = "find (\<lambda>l. l_timeslot (links S ! l) = t) (links_list (sf_of S i))"
  have "\<forall>l \<in> set (links_list (sf_of S i)). l < length (links S)"
    using link_less [OF inv] list_link_live [OF inv i] by blast
  then have g: "tsch_schedule_get_link_by_timeslot S (Some i) t = Some ?f"
    using inv unl i by (simp add: tsch_schedule_get_link_by_timeslot_def tsch_is_locked_def find_rd_find)
  have s: "schedule S (sf_handle (sf_of S i), t) = map_option (\<lambda>l. link_info (links S ! l)) ?f"
    by (simp add: schedule_def find_sf [OF inv i])
  show thesis
  proof (cases ?f)
    case None
    with g s that(2) show thesis
      by (simp add: find_None_iff)
  next
    case (Some k)
    then have "k \<in> set (links_list (sf_of S i))" "l_timeslot (links S ! k) = t"
      by (auto simp: find_Some_iff)
    with Some g s that(1) show thesis
      by simp
  qed
qed

text \<open>After \<^verbatim>\<open>tsch_schedule_remove_link_by_timeslot\<close> the timeslot is free, whether it was in use or not.\<close>

lemma remove_by_timeslot_spec:
  assumes inv: "sched_inv ns nl nn np S" and unl: "\<not> locked (sq S)" and i: "i \<in> set (slotframe_list S)"
  obtains r S' where "tsch_schedule_remove_link_by_timeslot S (Some i) t = Some (r, S')" "sched_inv ns nl nn np S'"
    "r \<longleftrightarrow> schedule S (sf_handle (sf_of S i), t) \<noteq> None" "\<not> locked (sq S')" "slotframe_list S' = slotframe_list S"
    "schedule S' = (schedule S)((sf_handle (sf_of S i), t) := None)" "frames S' = frames S"
    "same_queues (sq S) (sq S')" "sf_handle (sf_of S' i) = sf_handle (sf_of S i)" "sf_size (sf_of S' i) = sf_size (sf_of S i)"
    "card (link_live S') = card (link_live S) - (if r then 1 else 0)" "r \<longrightarrow> 0 < card (link_live S)"
proof -
  have fin: "finite (link_live S)"
    using elem_used_finite [OF link_memb_ok [OF inv]] by simp
  show thesis
    using inv unl i
  proof (cases rule: get_link_spec [where t = t])
    case (there k)
    obtain S' where S': "tsch_schedule_remove_link S (Some i) (Some k) = Some (True, S')" "sched_inv ns nl nn np S'"
      "unlinked S i k S'" "schedule S' = (schedule S)((sf_handle (sf_of S i), l_timeslot (links S ! k)) := None)"
      "frames S' = frames S"
      by (rule remove_link_spec [OF inv unl i there(2)])
    have k: "k \<in> link_live S"
      by (rule list_link_live [OF inv i there(2)])
    then have "0 < card (link_live S)"
      using fin by (auto simp: card_gt_0_iff)
    with that [of True S'] S' there unl k show thesis
      by (simp add: tsch_schedule_remove_link_by_timeslot_def unlinked_def same_queues_def same_packets_def)
  next
    case free
    then have "(schedule S)((sf_handle (sf_of S i), t) := None) = schedule S"
      by (simp add: fun_upd_idem)
    with that [of False S] free inv unl show thesis
      by (simp add: tsch_schedule_remove_link_by_timeslot_def tsch_schedule_remove_link_def)
  qed
qed

text \<open>The effect of putting the new link \<open>lk\<close> at index \<open>k\<close> into slotframe \<open>i\<close>.\<close>

definition linked :: "tsch_schedule \<Rightarrow> nat \<Rightarrow> nat \<Rightarrow> tsch_link \<Rightarrow> tsch_schedule \<Rightarrow> bool" where
  "linked S i k lk S' \<longleftrightarrow> slotframe_list S' = slotframe_list S \<and> slotframe_memb S' = slotframe_memb S
     \<and> links S' = (links S)[k := lk] \<and> link_live S' = insert k (link_live S)
     \<and> (\<forall>j. sf_of S' j = (if j = i then (sf_of S i)\<lparr>links_list := links_list (sf_of S i) @ [k]\<rparr> else sf_of S j))
     \<and> current_link S' = current_link S
     \<and> length (slotframes S') = length (slotframes S) \<and> same_queues (sq S) (sq S')"

lemma linked_inv:
  assumes inv: "sched_inv ns nl nn np S" and i: "i \<in> set (slotframe_list S)" and k: "k \<notin> link_live S" "k < length (links S)"
    and u: "linked S i k lk S'" and m: "elem_ok nl (link_memb S')" and q: "tq_inv nn np (sq S')"
    and ok: "l_slotframe lk = sf_handle (sf_of S i)" "l_timeslot lk < dval (sf_size (sf_of S i))" "l_channel lk \<le> 15" "linkaddr_ok (l_addr lk)"
    and free: "schedule S (sf_handle (sf_of S i), l_timeslot lk) = None"
  shows "sched_inv ns nl nn np S'"
proof -
  note u' = u [unfolded linked_def]
  have hs: "sf_handle (sf_of S' j) = sf_handle (sf_of S j)" "sf_size (sf_of S' j) = sf_size (sf_of S j)" for j
    using u' by auto
  have lk: "links S' ! l = (if l = k then lk else links S ! l)" for l
    using u' k(2) by (simp add: nth_list_update)
  have notin: "k \<notin> set (links_list (sf_of S j))" if "j \<in> set (slotframe_list S)" for j
    using list_link_live [OF inv that] k(1) by blast
  have ts: "l_timeslot (links S ! l) \<noteq> l_timeslot lk" if "l \<in> set (links_list (sf_of S i))" for l
    using free that list_link_ok [OF inv i that] list_link_live [OF inv i that] unfolding schedule_None [OF inv]
    by (auto simp: link_key_def)
  have d: "distinct (links_list (sf_of S j))" "inj_on (\<lambda>l. l_timeslot (links S ! l)) (set (links_list (sf_of S j)))"
    if "j \<in> set (slotframe_list S)" for j
    using inv that by (simp_all add: sched_inv_def links_inv_def)
  have set': "set (links_list (sf_of S' j)) = (if j = i then insert k (set (links_list (sf_of S j))) else set (links_list (sf_of S j)))" for j
    using u' by auto
  have "frames_inv ns S'"
    using inv u' hs by (simp add: sched_inv_def frames_inv_def)
  moreover have "links_inv nl S'"
    unfolding links_inv_def
  proof (intro conjI ballI allI impI)
    show "elem_ok nl (link_memb S')"
      by (rule m)
    show "length (links S') = nl"
      using inv u' by (simp add: sched_inv_def links_inv_def)
    show "link_live S' = (\<Union>j \<in> set (slotframe_list S'). set (links_list (sf_of S' j)))"
      using u' link_live_eq [OF inv] i unfolding set' by auto
    fix j
    assume "j \<in> set (slotframe_list S')"
    then have j: "j \<in> set (slotframe_list S)"
      using u' by simp
    show "distinct (links_list (sf_of S' j))"
      using u' d(1) [OF j] notin [OF j] by (cases "j = i") simp_all
    have same: "links S' ! l = links S ! l" if "l \<in> set (links_list (sf_of S j))" for l
      using lk notin [OF j] that by auto
    then have old: "inj_on (\<lambda>l. l_timeslot (links S' ! l)) (set (links_list (sf_of S j)))"
      using d(2) [OF j] by (simp add: inj_on_def)
    show "inj_on (\<lambda>l. l_timeslot (links S' ! l)) (set (links_list (sf_of S' j)))"
    proof (cases "j = i")
      case True
      then have "\<forall>l \<in> set (links_list (sf_of S j)). l_timeslot (links S' ! l) \<noteq> l_timeslot (links S' ! k)"
        using ts same lk by simp
      then have "l_timeslot (links S' ! k) \<notin> (\<lambda>l. l_timeslot (links S' ! l)) ` set (links_list (sf_of S j))"
        by (metis (no_types, lifting) imageE)
      with old True notin [OF j] show ?thesis
        unfolding set' by simp
    qed (use old in \<open>simp add: set'\<close>)
    fix l
    assume l': "l \<in> set (links_list (sf_of S' j))"
    have "l_slotframe (links S' ! l) = sf_handle (sf_of S' j) \<and> l_timeslot (links S' ! l) < dval (sf_size (sf_of S' j))
        \<and> l_channel (links S' ! l) \<le> 15 \<and> linkaddr_ok (l_addr (links S' ! l))"
    proof (cases "l = k")
      case True
      with l' notin [OF j] have "j = i"
        unfolding set' by (auto split: if_splits)
      with True ok show ?thesis
        unfolding hs lk by simp
    next
      case False
      with l' have "l \<in> set (links_list (sf_of S j))"
        unfolding set' by (auto split: if_splits)
      with False list_link_ok [OF inv j] show ?thesis
        unfolding hs lk by simp
    qed
    then show "l_slotframe (links S' ! l) = sf_handle (sf_of S' j)" "l_timeslot (links S' ! l) < dval (sf_size (sf_of S' j))"
      "l_channel (links S' ! l) \<le> 15" "linkaddr_ok (l_addr (links S' ! l))"
      by simp_all
  next
    fix l
    assume "current_link S' = Some l"
    with current_link_live [OF inv, of l] u' show "l \<in> link_live S'"
      by simp
  qed
  ultimately show ?thesis
    using q by (simp add: sched_inv_def)
qed

lemma linked_schedule:
  assumes inv: "sched_inv ns nl nn np S" "sched_inv ns nl nn np S'" and k: "k \<notin> link_live S" "k < length (links S)"
    and u: "linked S i k lk S'"
  shows "schedule S' = (schedule S)(link_key lk \<mapsto> link_info lk)" "frames S' = frames S"
proof -
  note u' = u [unfolded linked_def]
  show "frames S' = frames S"
    using u' by (intro frames_cong) auto
  have kl: "links S' ! l = (if l = k then lk else links S ! l)" for l
    using u' k(2) by (simp add: nth_list_update)
  have kin: "k \<in> link_live S'"
    using u' by simp
  have "schedule S' x = Some v \<longleftrightarrow> ((schedule S)(link_key lk \<mapsto> link_info lk)) x = Some v" for x v
  proof (cases "x = link_key lk")
    case True
    have "schedule S' (link_key lk) = Some (link_info lk)"
      using schedule_at [OF inv(2) kin] kl by simp
    with True show ?thesis
      by simp
  next
    case False
    have "(\<exists>l \<in> link_live S'. link_key (links S' ! l) = x \<and> v = link_info (links S' ! l)) \<longleftrightarrow>
        (\<exists>l \<in> link_live S. link_key (links S ! l) = x \<and> v = link_info (links S ! l))"
    proof -
      have "\<And>l. l \<in> link_live S' \<longleftrightarrow> l = k \<or> l \<in> link_live S"
        using u' by auto
      with False k(1) kl show ?thesis
        by (metis (no_types, lifting))
    qed
    with False show ?thesis
      by (simp add: schedule_Some [OF inv(1)] schedule_Some [OF inv(2)])
  qed
  then show "schedule S' = (schedule S)(link_key lk \<mapsto> link_info lk)"
    by (metis (no_types, lifting) ext not_None_eq)
qed

section \<open>Adding a link to a slotframe\<close>

lemma word_le_minus_1: "0 < d \<Longrightarrow> t > d - 1 \<longleftrightarrow> \<not> t < (d :: u16)"
  by unat_arith

lemma flow_queue_addr_ok [simp]: "linkaddr_ok (flow_queue_addr h)"
  by (simp add: linkaddr_ok_def flow_queue_addr_def LINKADDR_SIZE_def)

lemma add_link_spec:
  assumes inv: "sched_inv ns nl nn np S" and unl: "\<not> locked (sq S)" and i: "i \<in> set (slotframe_list S)"
    and a: "\<forall>x. address = Some x \<longrightarrow> linkaddr_ok x"
  obtains (invalid) "tsch_schedule_add_link S (Some i) opts ty address t ch = Some (None, S)"
      "\<not> (t < dval (sf_size (sf_of S i)) \<and> ch \<le> 15)"
  | (full) S' where "tsch_schedule_add_link S (Some i) opts ty address t ch = Some (None, S')" "sched_inv ns nl nn np S'"
      "t < dval (sf_size (sf_of S i))" "ch \<le> 15" "schedule S (sf_handle (sf_of S i), t) = None" "card (link_live S) = nl"
      "schedule S' = schedule S" "frames S' = frames S" "same_queues (sq S) (sq S')" "slotframe_list S' = slotframe_list S"
      "sf_handle (sf_of S' i) = sf_handle (sf_of S i)"
  | (added) k S' where "tsch_schedule_add_link S (Some i) opts ty address t ch = Some (Some k, S')" "sched_inv ns nl nn np S'"
      "t < dval (sf_size (sf_of S i))" "ch \<le> 15"
      "schedule S (sf_handle (sf_of S i), t) = None \<longrightarrow> card (link_live S) < nl"
      "schedule S' = (schedule S)((sf_handle (sf_of S i), t) \<mapsto> (opts, ty, case address of Some x \<Rightarrow> x | None \<Rightarrow> linkaddr_null, ch))"
      "frames S' = frames S" "same_queues (sq S) (sq S')" "slotframe_list S' = slotframe_list S" "k \<in> link_live S'"
      "link_key (links S' ! k) = (sf_handle (sf_of S i), t)" "sf_handle (sf_of S' i) = sf_handle (sf_of S i)"
proof -
  have d0: "0 < dval (sf_size (sf_of S i))"
    using inv i by (simp add: sched_inv_def frames_inv_def)
  note inv_ts = word_le_minus_1 [OF d0]
  show thesis
  proof (cases "t < dval (sf_size (sf_of S i)) \<and> ch \<le> 15")
    case False
    then have "tsch_schedule_add_link S (Some i) opts ty address t ch = Some (None, S)"
      using inv i by (cases "t < dval (sf_size (sf_of S i))") (simp_all add: tsch_schedule_add_link_def inv_ts not_le)
    with invalid False show thesis
      by blast
  next
    case valid: True
    then have nch: "\<not> 15 < ch"
      by (simp add: not_less)
    obtain r S1 where S1: "tsch_schedule_remove_link_by_timeslot S (Some i) t = Some (r, S1)" "sched_inv ns nl nn np S1"
      "r \<longleftrightarrow> schedule S (sf_handle (sf_of S i), t) \<noteq> None" "\<not> locked (sq S1)" "slotframe_list S1 = slotframe_list S"
      "schedule S1 = (schedule S)((sf_handle (sf_of S i), t) := None)" "frames S1 = frames S"
      "same_queues (sq S) (sq S1)" "sf_handle (sf_of S1 i) = sf_handle (sf_of S i)" "sf_size (sf_of S1 i) = sf_size (sf_of S i)"
      "card (link_live S1) = card (link_live S) - (if r then 1 else 0)" "r \<longrightarrow> 0 < card (link_live S)"
      by (rule remove_by_timeslot_spec [OF inv unl i, where t = t])
    have i1: "i \<in> set (slotframe_list S1)"
      using i S1 by simp
    have m1: "elem_ok nl (link_memb S1)" and q1: "tq_inv nn np (sq S1)"
      using S1(2) by (simp_all add: sched_inv_def links_inv_def)
    have card: "card (link_live S) \<le> nl"
      using elem_used_finite [OF link_memb_ok [OF inv]] by simp
    have rel: "tsch_release_lock ((sq S1)\<lparr>locked := True\<rparr>) = sq S1" for q
      using S1(4) by (simp add: tsch_release_lock_def)
    show thesis
    proof (cases rule: elem_alloc [OF m1])
      case 1
      have "r = False"
        using 1(2) S1(11,12) card by auto
      then have free: "schedule S (sf_handle (sf_of S i), t) = None" "card (link_live S) = nl"
        using S1(3,11) 1(2) \<open>r = False\<close> by (blast, simp)
      have "tsch_schedule_add_link S (Some i) opts ty address t ch = Some (None, S1)"
        using valid nch inv i S1(1,4) 1(1) rel
        by (simp add: tsch_schedule_add_link_def inv_ts tsch_get_lock_def)
      with full S1 free valid show thesis
        by (simp add: fun_upd_idem)
    next
      case (2 k m)
      define lk where "lk = \<lparr>l_handle = ucast (current_link_handle S1),
          l_addr = (case address of Some x \<Rightarrow> x | None \<Rightarrow> linkaddr_null), l_slotframe = sf_handle (sf_of S1 i),
          l_timeslot = t, l_channel = ch, l_options = opts, l_type = ty\<rparr>"
      have ok: "linkaddr_ok (l_addr lk)"
        using a by (simp add: lk_def split: option.split)
      have k_len: "k < length (links S1)"
        using 2 S1(2) by (simp add: sched_inv_def links_inv_def)
      obtain q' where q': "count_tx_link (\<lambda>c. c + 1) opts (flow_queue_addr (sf_handle (sf_of S1 i))) (sq S1) = Some q'"
        "tq_inv nn np q'" "same_queues (sq S1) q'"
        by (rule count_tx_link_spec [OF q1 S1(4) flow_queue_addr_ok])
      define S' where "S' = S1\<lparr>sq := q', link_memb := m, links := (links S1)[k := lk], current_link_handle := current_link_handle S1 + 1,
        slotframes := (slotframes S1)[i := (sf_of S1 i)\<lparr>links_list := links_list (sf_of S1 i) @ [k]\<rparr>]\<rparr>"
      have notin: "k \<notin> set (links_list (sf_of S1 i))"
        using 2 list_link_live [OF S1(2) i1] by blast
      have run: "tsch_schedule_add_link S (Some i) opts ty address t ch = Some (Some k, S')"
        using valid nch inv i S1(1,2,4) i1 2(1) rel q'(1) k_len notin
        by (simp add: tsch_schedule_add_link_def inv_ts tsch_get_lock_def wr_in S'_def lk_def remove1_idem)
      have u: "linked S1 i k lk S'"
        using 2 q'(3) sf_less [OF S1(2) i1] by (simp add: linked_def S'_def nth_list_update)
      have inv': "sched_inv ns nl nn np S'"
      proof (rule linked_inv [OF S1(2) i1 _ k_len u])
        show "schedule S1 (sf_handle (sf_of S1 i), l_timeslot lk) = None"
          using S1(6,9) by (simp add: lk_def)
      qed (use 2 q' valid S1(10) ok in \<open>simp_all add: S'_def lk_def\<close>)
      have key: "link_key lk = (sf_handle (sf_of S i), t)"
        using S1(9) by (simp add: lk_def link_key_def)
      have "card (link_live S1) < nl"
      proof -
        have "finite (link_live S1)"
          using elem_used_finite [OF m1] by simp
        then have "card (insert k (link_live S1)) = Suc (card (link_live S1))"
          using 2 by simp
        moreover have "card (used m) \<le> nl"
          using elem_used_finite [OF 2(2)] by simp
        ultimately show ?thesis
          using 2 by simp
      qed
      moreover have "schedule S' = (schedule S)((sf_handle (sf_of S i), t) \<mapsto> link_info lk)" "frames S' = frames S"
        using linked_schedule [OF S1(2) inv' _ k_len u] 2 S1(6,7) key by simp_all
      moreover have "link_info lk = (opts, ty, case address of Some x \<Rightarrow> x | None \<Rightarrow> linkaddr_null, ch)"
        by (simp add: link_info_def lk_def)
      moreover have "links S' ! k = lk"
        using k_len by (simp add: S'_def)
      moreover have "same_queues (sq S) (sq S')"
        by (rule same_queues_trans [OF S1(8)]) (simp add: S'_def q')
      ultimately show thesis
        using \<open>card (link_live S1) < nl\<close> S1 key valid u
        by (intro added [OF run inv']) (auto simp: linked_def)
    qed
  qed
qed

text \<open>
  C25. \<^verbatim>\<open>tsch_schedule_add_link\<close>.  The link replaces the one in its timeslot and no other link, slotframe or packet
  queue changes; or \<^verbatim>\<open>NULL\<close> is returned and the schedule stays as it is.  It is \<^verbatim>\<open>NULL\<close> exactly for a timeslot
  beyond the slotframe, for a channel offset above 15, and for a free timeslot when every link is in use: replacing a link never
  fails, and the links of the pool are never lost (part of the invariant).
\<close>

theorem add_link_updates_schedule:
  assumes "sched_inv ns nl nn np S" "\<not> locked (sq S)" "i \<in> set (slotframe_list S)" "h = sf_handle (sf_of S i)"
    and "linkaddr_ok a" "frames S h = Some len"
  shows "\<exists>r S'. tsch_schedule_add_link S (Some i) opts ty (Some a) t ch = Some (r, S') \<and> sched_inv ns nl nn np S'
    \<and> schedule S' = (if r = None then schedule S else (schedule S)((h, t) \<mapsto> (opts, ty, a, ch)))
    \<and> (r = None \<longleftrightarrow> len \<le> t \<or> 15 < ch \<or> (schedule S (h, t) = None \<and> card (link_live S) = nl))
    \<and> frames S' = frames S \<and> aqueue (sq S') = aqueue (sq S) \<and> \<not> locked (sq S')"
proof -
  have a: "\<forall>x. Some a = Some x \<longrightarrow> linkaddr_ok x"
    using assms(5) by simp
  have len: "len = dval (sf_size (sf_of S i))"
    using frames_at [OF assms(1,3)] assms(4,6) by simp
  show ?thesis
    using assms(1-3) a
  proof (cases rule: add_link_spec [where opts = opts and ty = ty and t = t and ch = ch])
    case invalid
    with assms(1,2) len show ?thesis
      by (auto simp: not_less not_le)
  next
    case (full S')
    with assms(2,4) len show ?thesis
      by (auto simp: same_queues_def same_packets_def)
  next
    case (added k S')
    with assms(2,4) len show ?thesis
      by (cases "schedule S (h, t)") (auto simp: same_queues_def same_packets_def)
  qed
qed

section \<open>Slotframes\<close>

text \<open>Emptying slotframe \<open>i\<close>: the loop ends, with every link of the slotframe given back.\<close>

definition emptied :: "tsch_schedule \<Rightarrow> nat \<Rightarrow> tsch_schedule \<Rightarrow> bool" where
  "emptied S i S' \<longleftrightarrow> links_list (sf_of S' i) = [] \<and> slotframe_list S' = slotframe_list S
     \<and> (\<forall>j. sf_handle (sf_of S' j) = sf_handle (sf_of S j) \<and> sf_size (sf_of S' j) = sf_size (sf_of S j))
     \<and> link_live S' = link_live S - set (links_list (sf_of S i)) \<and> links S' = links S
     \<and> same_queues (sq S) (sq S') \<and> frames S' = frames S
     \<and> schedule S' = (\<lambda>(h, t). if h = sf_handle (sf_of S i) then None else schedule S (h, t))"

lemma remove_links_spec:
  assumes "sched_inv ns nl nn np S" "\<not> locked (sq S)" "i \<in> set (slotframe_list S)"
  shows "\<exists>S'. remove_links S i = Some S' \<and> sched_inv ns nl nn np S' \<and> emptied S i S'"
  using assms
proof (induction "length (links_list (sf_of S i))" arbitrary: S)
  case 0
  note inv = "0.prems"(1) and i = "0.prems"(3)
  have e: "links_list (sf_of S i) = []"
    using 0(1) by simp
  have "schedule S (sf_handle (sf_of S i), t) = None" for t
    by (simp add: schedule_def find_sf [OF inv i] e)
  then have "schedule S = (\<lambda>(h, t). if h = sf_handle (sf_of S i) then None else schedule S (h, t))"
    by (auto simp: fun_eq_iff)
  with inv i e show ?case
    by (simp add: remove_links.simps emptied_def)
next
  case (Suc n)
  note inv = Suc.prems(1) and unl = Suc.prems(2) and i = Suc.prems(3)
  obtain k ks where ks: "links_list (sf_of S i) = k # ks"
    using Suc.hyps(2) by (cases "links_list (sf_of S i)") auto
  then have k: "k \<in> set (links_list (sf_of S i))"
    by simp
  obtain S1 where S1: "tsch_schedule_remove_link S (Some i) (Some k) = Some (True, S1)" "sched_inv ns nl nn np S1"
    "unlinked S i k S1" "schedule S1 = (schedule S)((sf_handle (sf_of S i), l_timeslot (links S ! k)) := None)" "frames S1 = frames S"
    by (rule remove_link_spec [OF inv unl i k])
  note u = S1(3) [unfolded unlinked_def]
  have l1: "links_list (sf_of S1 i) = ks" "i \<in> set (slotframe_list S1)" "\<not> locked (sq S1)"
    using u ks i unl by (simp_all add: same_queues_def same_packets_def)
  obtain S' where S': "remove_links S1 i = Some S'" "sched_inv ns nl nn np S'" "emptied S1 i S'"
    using Suc.hyps(1) [OF _ S1(2) l1(3,2)] Suc.hyps(2) ks l1(1) by auto
  note e = S'(3) [unfolded emptied_def]
  have hs: "sf_handle (sf_of S1 j) = sf_handle (sf_of S j)" "sf_size (sf_of S1 j) = sf_size (sf_of S j)" for j
    using u by auto
  have "remove_links S i = Some S'"
    using S1(1) S'(1) inv i ks by (simp add: remove_links.simps [of S])
  moreover have "emptied S i S'"
    unfolding emptied_def
  proof (intro conjI)
    show "schedule S' = (\<lambda>(h, t). if h = sf_handle (sf_of S i) then None else schedule S (h, t))"
      using e S1(4) by (auto simp: fun_eq_iff hs)
    show "same_queues (sq S) (sq S')"
      using e u by (blast intro: same_queues_trans)
    show "link_live S' = link_live S - set (links_list (sf_of S i))"
      using e u l1(1) ks by auto
  qed (use e S1(5) u hs in simp_all)
  ultimately show ?case
    using S'(2) by blast
qed

lemma remove_slotframe_spec:
  assumes inv: "sched_inv ns nl nn np S" and unl: "\<not> locked (sq S)" and i: "i \<in> set (slotframe_list S)"
  obtains S' where "tsch_schedule_remove_slotframe S (Some i) = Some (True, S')" "sched_inv ns nl nn np S'"
    "slotframe_list S' = remove1 i (slotframe_list S)" "same_queues (sq S) (sq S')"
    "frames S' = (frames S)(sf_handle (sf_of S i) := None)"
    "schedule S' = (\<lambda>(h, t). if h = sf_handle (sf_of S i) then None else schedule S (h, t))"
    "link_live S' = link_live S - set (links_list (sf_of S i))"
proof -
  obtain S1 where S1: "remove_links S i = Some S1" "sched_inv ns nl nn np S1" "emptied S i S1"
    using remove_links_spec [OF inv unl i] by blast
  note e = S1(3) [unfolded emptied_def]
  have i1: "i \<in> set (slotframe_list S1)" and unl1: "\<not> locked (sq S1)"
    using e i unl by (simp_all add: same_queues_def same_packets_def)
  have m0: "elem_ok ns (slotframe_memb S1)" and d: "distinct (slotframe_list S1)"
    using S1(2) by (simp_all add: sched_inv_def frames_inv_def)
  obtain c m where m: "memb_free (slotframe_memb S1) i = Some (c, m)" "elem_ok ns m" "used m = used (slotframe_memb S1) - {i}"
    by (rule elem_free [OF m0])
  define S' where "S' = S1\<lparr>slotframe_memb := m, slotframe_list := remove1 i (slotframe_list S1)\<rparr>"
  have run: "tsch_schedule_remove_slotframe S (Some i) = Some (True, S')"
    using S1(1) unl1 m(1)
    by (simp add: tsch_schedule_remove_slotframe_def tsch_get_lock_def tsch_release_lock_def S'_def)
  have set': "set (slotframe_list S') = set (slotframe_list S1) - {i}"
    using d by (simp add: S'_def)
  have "frames_inv ns S'"
    using S1(2) m d set' by (auto simp: sched_inv_def frames_inv_def S'_def intro: inj_on_subset)
  moreover have "link_live S' = (\<Union>j \<in> set (slotframe_list S'). set (links_list (sf_of S' j)))"
  proof -
    have "link_live S1 = (\<Union>j \<in> set (slotframe_list S1). set (links_list (sf_of S1 j)))"
      by (rule link_live_eq [OF S1(2)])
    also have "\<dots> = (\<Union>j \<in> set (slotframe_list S1) - {i}. set (links_list (sf_of S1 j)))"
      using e by auto
    finally show ?thesis
      using set' by (simp add: S'_def)
  qed
  then have "links_inv nl S'"
    using S1(2) set' by (auto simp: sched_inv_def links_inv_def S'_def simp del: UN_simps)
  ultimately have inv': "sched_inv ns nl nn np S'"
    using S1(2) by (simp add: sched_inv_def S'_def)
  have f: "find (\<lambda>j. sf_handle (sf_of S1 j) = h) (slotframe_list S') =
      (if h = sf_handle (sf_of S i) then None else find (\<lambda>j. sf_handle (sf_of S1 j) = h) (slotframe_list S1))" for h
  proof (cases "\<exists>j \<in> set (slotframe_list S'). sf_handle (sf_of S1 j) = h")
    case True
    then obtain j where j: "j \<in> set (slotframe_list S')" "sf_handle (sf_of S1 j) = h"
      by blast
    have j1: "j \<in> set (slotframe_list S1)" "j \<noteq> i"
      using j(1) set' by auto
    then have "h \<noteq> sf_handle (sf_of S i)"
      using sf_unique [OF S1(2) i1 j1(1)] j(2) e by auto
    moreover have "sf_of S' j = sf_of S1 j" for j
      by (simp add: S'_def)
    ultimately show ?thesis
      using find_sf [OF inv' j(1)] find_sf [OF S1(2) j1(1)] j(2) by simp
  next
    case False
    then have "find (\<lambda>j. sf_handle (sf_of S1 j) = h) (slotframe_list S') = None"
      by (simp add: find_None_iff)
    moreover have "h = sf_handle (sf_of S i) \<or> find (\<lambda>j. sf_handle (sf_of S1 j) = h) (slotframe_list S1) = None"
      using False set' e by (auto simp: find_None_iff)
    ultimately show ?thesis
      by auto
  qed
  have "frames S' = (frames S)(sf_handle (sf_of S i) := None)"
  proof
    fix h
    have "frames S' h = map_option (\<lambda>j. dval (sf_size (sf_of S1 j))) (find (\<lambda>j. sf_handle (sf_of S1 j) = h) (slotframe_list S'))"
      by (simp add: frames_def S'_def)
    also have "\<dots> = ((frames S1)(sf_handle (sf_of S i) := None)) h"
      unfolding f by (simp add: frames_def)
    finally show "frames S' h = ((frames S)(sf_handle (sf_of S i) := None)) h"
      using e by simp
  qed
  moreover have "schedule S' = schedule S1"
  proof -
    have "links S' = links S1" "link_live S' = link_live S1"
      by (simp_all add: S'_def)
    then have "schedule S' x = Some v \<longleftrightarrow> schedule S1 x = Some v" for x v
      by (simp add: schedule_Some [OF inv'] schedule_Some [OF S1(2)])
    then show ?thesis
      by (metis (no_types, lifting) ext not_None_eq)
  qed
  ultimately show thesis
    using e by (intro that [OF run inv']) (simp_all add: S'_def)
qed

lemma add_slotframe_spec:
  assumes inv: "sched_inv ns nl nn np S" and unl: "\<not> locked (sq S)"
  obtains (refused) "tsch_schedule_add_slotframe S h sz = Some (None, S)" "sz = 0 \<or> frames S h \<noteq> None \<or> length (slotframe_list S) = ns"
  | (new) i S' where "tsch_schedule_add_slotframe S h sz = Some (Some i, S')" "sched_inv ns nl nn np S'"
      "sz \<noteq> 0" "frames S h = None" "slotframe_list S' = slotframe_list S @ [i]" "sf_handle (sf_of S' i) = h"
      "frames S' = (frames S)(h \<mapsto> sz)" "schedule S' = schedule S" "sq S' = sq S" "link_live S' = link_live S"
      "length (slotframe_list S) < ns"
proof -
  let ?f = "find (\<lambda>i. sf_handle (sf_of S i) = h) (slotframe_list S)"
  have g: "tsch_schedule_get_slotframe_by_handle S h = Some ?f"
    using unl sf_less [OF inv] by (simp add: tsch_schedule_get_slotframe_by_handle_def tsch_is_locked_def find_rd_find)
  have fr: "?f = None \<longleftrightarrow> frames S h = None"
    by (simp add: frames_def)
  have m0: "elem_ok ns (slotframe_memb S)" and d: "distinct (slotframe_list S)" and us: "used (slotframe_memb S) = set (slotframe_list S)"
    using inv by (simp_all add: sched_inv_def frames_inv_def)
  have card: "card (used (slotframe_memb S)) = length (slotframe_list S)"
    using us d by (simp add: distinct_card)
  have rel: "tsch_release_lock ((sq S)\<lparr>locked := True\<rparr>) = sq S"
    using unl by (simp add: tsch_release_lock_def)
  show thesis
  proof (cases "sz = 0 \<or> frames S h \<noteq> None")
    case True
    then have "tsch_schedule_add_slotframe S h sz = Some (None, S)"
      using g fr by (auto simp: tsch_schedule_add_slotframe_def)
    with refused True show thesis
      by blast
  next
    case ok: False
    then have fn: "?f = None" "sz \<noteq> 0"
      using fr by auto
    show thesis
    proof (cases rule: elem_alloc [OF m0])
      case 1
      then have "tsch_schedule_add_slotframe S h sz = Some (None, S)"
        using fn g unl rel by (simp add: tsch_schedule_add_slotframe_def tsch_get_lock_def)
      with refused 1 card show thesis
        by simp
    next
      case (2 i m)
      have i_len: "i < length (slotframes S)"
        using 2 inv by (simp add: sched_inv_def frames_inv_def)
      have i_new: "i \<notin> set (slotframe_list S)"
        using 2 us by simp
      define sf where "sf = \<lparr>sf_handle = h, sf_size = TSCH_ASN_DIVISOR_INIT sz, links_list = []\<rparr>"
      define S' where "S' = S\<lparr>slotframe_memb := m, slotframes := (slotframes S)[i := sf], slotframe_list := slotframe_list S @ [i]\<rparr>"
      have run: "tsch_schedule_add_slotframe S h sz = Some (Some i, S')"
        using fn g unl rel 2(1) i_len i_new
        by (simp add: tsch_schedule_add_slotframe_def tsch_get_lock_def S'_def sf_def wr_in remove1_idem)
      have at: "sf_of S' j = (if j = i then sf else sf_of S j)" for j
        using i_len by (simp add: S'_def nth_list_update)
      have hn: "\<forall>j \<in> set (slotframe_list S). sf_handle (sf_of S j) \<noteq> h"
        using fn(1) by (simp add: find_None_iff)
      have dv: "sf_size sf = TSCH_ASN_DIVISOR_INIT (dval (sf_size sf)) \<and> dval (sf_size sf) = sz \<and> sf_handle sf = h \<and> links_list sf = []"
        by (simp add: sf_def TSCH_ASN_DIVISOR_INIT_def)
      have old: "sf_of S' j = sf_of S j" if "j \<in> set (slotframe_list S)" for j
        using that i_new at by auto
      have list': "slotframe_list S' = slotframe_list S @ [i]" "slotframe_memb S' = m" "length (slotframes S') = length (slotframes S)"
        by (simp_all add: S'_def)
      have inj: "inj_on (\<lambda>j. sf_handle (sf_of S' j)) (set (slotframe_list S'))"
      proof -
        have "inj_on (\<lambda>j. sf_handle (sf_of S' j)) (set (slotframe_list S))"
          using inv old by (simp add: sched_inv_def frames_inv_def inj_on_def)
        moreover have "sf_handle (sf_of S' i) \<notin> (\<lambda>j. sf_handle (sf_of S' j)) ` set (slotframe_list S)"
          using hn old at dv by auto
        ultimately show ?thesis
          using i_new by (simp add: list')
      qed
      have sizes: "0 < dval (sf_size (sf_of S' j)) \<and> sf_size (sf_of S' j) = TSCH_ASN_DIVISOR_INIT (dval (sf_size (sf_of S' j)))"
        if "j \<in> set (slotframe_list S')" for j
      proof (cases "j = i")
        case True
        with dv fn(2) at show ?thesis
          by (metis word_gt_0)
      next
        case False
        with that old inv show ?thesis
          by (simp add: list' sched_inv_def frames_inv_def)
      qed
      have fi: "frames_inv ns S'"
        unfolding frames_inv_def using inj sizes 2 us d i_new inv
        by (simp add: list' sched_inv_def frames_inv_def)
      have same: "links S' = links S" "link_memb S' = link_memb S" "current_link S' = current_link S" "sq S' = sq S"
        by (simp_all add: S'_def)
      have un: "(\<Union>j \<in> set (slotframe_list S'). set (links_list (sf_of S' j))) = link_live S"
        unfolding list' link_live_eq [OF inv] using at dv old by auto
      have body: "P (sf_of S' j)" if "j \<in> set (slotframe_list S')" "\<And>j. j \<in> set (slotframe_list S) \<Longrightarrow> P (sf_of S j)" "P sf" for P j
        using that old at by (cases "j = i") (auto simp: list')
      have li: "links_inv nl S'"
        unfolding links_inv_def same un
      proof (intro conjI ballI allI impI)
        fix j
        assume j: "j \<in> set (slotframe_list S')"
        have D: "distinct (links_list (sf_of S j)) \<and> inj_on (\<lambda>l. l_timeslot (links S ! l)) (set (links_list (sf_of S j)))"
          if "j \<in> set (slotframe_list S)" for j
          using inv that unfolding sched_inv_def links_inv_def by blast
        show "distinct (links_list (sf_of S' j))" "inj_on (\<lambda>l. l_timeslot (links S ! l)) (set (links_list (sf_of S' j)))"
          by (rule body [OF j]; use D dv in simp)+
        fix l
        assume l: "l \<in> set (links_list (sf_of S' j))"
        have "j \<noteq> i"
          using l at dv by auto
        then have "j \<in> set (slotframe_list S)" "sf_of S' j = sf_of S j"
          using j at by (auto simp: list')
        with list_link_ok [OF inv, of j l] l show "l_slotframe (links S ! l) = sf_handle (sf_of S' j)"
          "l_timeslot (links S ! l) < dval (sf_size (sf_of S' j))" "l_channel (links S ! l) \<le> 15" "linkaddr_ok (l_addr (links S ! l))"
          by simp_all
      qed (use inv current_link_live [OF inv] in \<open>simp_all add: sched_inv_def links_inv_def\<close>)
      have inv': "sched_inv ns nl nn np S'"
        using fi li inv by (simp add: sched_inv_def same)
      have "find (\<lambda>j. sf_handle (sf_of S' j) = x) (slotframe_list S') = (if x = h then Some i else find (\<lambda>j. sf_handle (sf_of S j) = x) (slotframe_list S))" for x
      proof (cases "x = h")
        case True
        with find_sf [OF inv', of i h] at dv show ?thesis
          by (simp add: list')
      next
        case False
        have "find (\<lambda>j. sf_handle (sf_of S' j) = x) (slotframe_list S) = find (\<lambda>j. sf_handle (sf_of S j) = x) (slotframe_list S)"
          using old by (intro find_cong) auto
        with False at dv show ?thesis
          by (cases "find (\<lambda>j. sf_handle (sf_of S j) = x) (slotframe_list S)") (simp_all add: list' find_append)
      qed
      note fd = this
      have "frames S' x = ((frames S)(h \<mapsto> sz)) x" for x
      proof (cases "find (\<lambda>j. sf_handle (sf_of S j) = x) (slotframe_list S)")
        case None
        with fd [of x] at dv show ?thesis
          by (simp add: frames_def)
      next
        case (Some j)
        then have "j \<in> set (slotframe_list S)"
          by (auto simp: find_Some_iff)
        with Some fd [of x] old at dv show ?thesis
          by (simp add: frames_def)
      qed
      moreover have "schedule S' x = Some v \<longleftrightarrow> schedule S x = Some v" for x v
        by (simp add: schedule_Some [OF inv'] schedule_Some [OF inv] same)
      then have "schedule S' = schedule S"
        by (metis (no_types, lifting) ext not_None_eq)
      moreover have "length (slotframe_list S) < ns"
        using elem_used_finite [OF 2(2)] 2(4,5) card us by simp
      ultimately show thesis
        using ok fn at dv by (intro new [OF run inv']) (auto simp: list' same)
    qed
  qed
qed

lemma remove_all_spec:
  assumes "sched_inv ns nl nn np S" "\<not> locked (sq S)"
  shows "\<exists>S'. tsch_schedule_remove_all_slotframes S = Some (True, S') \<and> sched_inv ns nl nn np S' \<and> slotframe_list S' = []
    \<and> same_queues (sq S) (sq S') \<and> link_live S' = {}"
  using assms
proof (induction "length (slotframe_list S)" arbitrary: S)
  case 0
  then show ?case
    by (simp add: tsch_schedule_remove_all_slotframes.simps link_live_eq [OF "0.prems"(1)])
next
  case (Suc n)
  obtain i js where i: "slotframe_list S = i # js"
    using Suc.hyps(2) by (cases "slotframe_list S") auto
  then have "i \<in> set (slotframe_list S)"
    by simp
  then obtain S1 where S1: "tsch_schedule_remove_slotframe S (Some i) = Some (True, S1)" "sched_inv ns nl nn np S1"
    "slotframe_list S1 = remove1 i (slotframe_list S)" "same_queues (sq S) (sq S1)"
    using remove_slotframe_spec [OF Suc.prems] by blast
  have "n = length (slotframe_list S1)" "\<not> locked (sq S1)"
    using Suc.hyps(2) Suc.prems(2) S1(3,4) i by (simp_all add: same_queues_def same_packets_def)
  then obtain S' where S': "tsch_schedule_remove_all_slotframes S1 = Some (True, S')" "sched_inv ns nl nn np S'" "slotframe_list S' = []"
    "same_queues (sq S1) (sq S')" "link_live S' = {}"
    using Suc.hyps(1) [OF _ S1(2)] by blast
  have "tsch_schedule_remove_all_slotframes S = Some (True, S')"
    using S1(1) S'(1) i by (simp add: tsch_schedule_remove_all_slotframes.simps [of S])
  with S' S1(4) show ?case
    by (blast intro: same_queues_trans)
qed

lemma no_frames: "slotframe_list S = [] \<Longrightarrow> frames S = Map.empty \<and> schedule S = Map.empty"
  by (auto simp: frames_def schedule_def fun_eq_iff)

text \<open>The two operations where they cannot be refused.\<close>

lemma add_slotframe_ok:
  assumes "sched_inv ns nl nn np S" "\<not> locked (sq S)" "sz \<noteq> 0" "frames S h = None" "length (slotframe_list S) \<noteq> ns"
  obtains i S' where "tsch_schedule_add_slotframe S h sz = Some (Some i, S')" "sched_inv ns nl nn np S'"
      "slotframe_list S' = slotframe_list S @ [i]" "sf_handle (sf_of S' i) = h"
      "frames S' = (frames S)(h \<mapsto> sz)" "schedule S' = schedule S" "sq S' = sq S" "link_live S' = link_live S"
  using assms(1,2)
proof (cases rule: add_slotframe_spec [where h = h and sz = sz])
  case refused
  with assms show thesis
    by simp
next
  case (new i S')
  with that show thesis
    by blast
qed

lemma add_link_ok:
  assumes "sched_inv ns nl nn np S" "\<not> locked (sq S)" "i \<in> set (slotframe_list S)" "linkaddr_ok a"
    and "t < dval (sf_size (sf_of S i))" "ch \<le> 15" "card (link_live S) < nl"
  obtains k S' where "tsch_schedule_add_link S (Some i) opts ty (Some a) t ch = Some (Some k, S')" "sched_inv ns nl nn np S'"
      "schedule S' = (schedule S)((sf_handle (sf_of S i), t) \<mapsto> (opts, ty, a, ch))"
      "frames S' = frames S" "same_queues (sq S) (sq S')" "slotframe_list S' = slotframe_list S"
proof -
  have a: "\<forall>x. Some a = Some x \<longrightarrow> linkaddr_ok x"
    using assms(4) by simp
  show thesis
    using assms(1-3) a
  proof (cases rule: add_link_spec [where opts = opts and ty = ty and t = t and ch = ch])
    case invalid
    with assms show thesis
      by simp
  next
    case (full S')
    with assms show thesis
      by simp
  next
    case (added k S')
    with that show thesis
      by simp
  qed
qed

text \<open>
  C26. Slotframes.  \<^verbatim>\<open>tsch_schedule_remove_slotframe\<close> on a slotframe of the schedule ends (its loop over the links
  does), removes the slotframe with all of its links and nothing else, and gives back the memory of exactly these links; a
  slotframe added afterwards with the same handle is found with its new length and no link.
\<close>

theorem slotframe_removed_and_added:
  assumes "sched_inv ns nl nn np S" "\<not> locked (sq S)" "i \<in> set (slotframe_list S)" "h = sf_handle (sf_of S i)" "sz \<noteq> 0"
  shows "\<exists>S1 j S2. tsch_schedule_remove_slotframe S (Some i) = Some (True, S1) \<and> sched_inv ns nl nn np S1
    \<and> frames S1 = (frames S)(h := None) \<and> schedule S1 = (\<lambda>(h', t). if h' = h then None else schedule S (h', t))
    \<and> card (link_live S1) = card (link_live S) - length (links_list (sf_of S i)) \<and> aqueue (sq S1) = aqueue (sq S)
    \<and> tsch_schedule_add_slotframe S1 h sz = Some (Some j, S2) \<and> sched_inv ns nl nn np S2
    \<and> frames S2 = (frames S)(h \<mapsto> sz) \<and> schedule S2 = schedule S1 \<and> tsch_schedule_get_slotframe_by_handle S2 h = Some (Some j)"
proof -
  obtain S1 where S1: "tsch_schedule_remove_slotframe S (Some i) = Some (True, S1)" "sched_inv ns nl nn np S1"
    "slotframe_list S1 = remove1 i (slotframe_list S)" "same_queues (sq S) (sq S1)" "frames S1 = (frames S)(h := None)"
    "schedule S1 = (\<lambda>(h', t). if h' = h then None else schedule S (h', t))"
    "link_live S1 = link_live S - set (links_list (sf_of S i))"
    unfolding assms(4) by (rule remove_slotframe_spec [OF assms(1-3)])
  have unl1: "\<not> locked (sq S1)"
    using S1(4) assms(2) by (simp add: same_queues_def same_packets_def)
  have fr: "frames S1 h = None"
    using S1(5) by simp
  have "card (set (slotframe_list S)) \<le> ns"
    using assms(1) elem_used_finite unfolding sched_inv_def frames_inv_def by metis
  moreover have "distinct (slotframe_list S)"
    using assms(1) by (simp add: sched_inv_def frames_inv_def)
  moreover have "length (slotframe_list S1) < length (slotframe_list S)"
    using S1(3) assms(3) by (metis One_nat_def diff_less length_pos_if_in_set length_remove1 zero_less_one)
  ultimately have room: "length (slotframe_list S1) \<noteq> ns"
    by (simp add: distinct_card)
  obtain j S2 where S2: "tsch_schedule_add_slotframe S1 h sz = Some (Some j, S2)" "sched_inv ns nl nn np S2"
    "slotframe_list S2 = slotframe_list S1 @ [j]" "sf_handle (sf_of S2 j) = h" "frames S2 = (frames S1)(h \<mapsto> sz)"
    "schedule S2 = schedule S1" "sq S2 = sq S1"
    by (rule add_slotframe_ok [OF S1(2) unl1 assms(5) fr room])
  have "tsch_schedule_get_slotframe_by_handle S2 h = Some (Some j)"
    using unl1 S2(3,4,7) sf_less [OF S2(2)] find_sf [OF S2(2), of j h]
    by (simp add: tsch_schedule_get_slotframe_by_handle_def tsch_is_locked_def find_rd_find)
  moreover have "card (link_live S1) = card (link_live S) - length (links_list (sf_of S i))"
  proof -
    have "distinct (links_list (sf_of S i))" "set (links_list (sf_of S i)) \<subseteq> link_live S"
      using assms(1,3) list_link_live [OF assms(1,3)] by (auto simp: sched_inv_def links_inv_def)
    then show ?thesis
      by (simp add: S1(7) card_Diff_subset distinct_card)
  qed
  ultimately show ?thesis
    using S1 S2 by (auto simp: same_queues_def)
qed

text \<open>
  \<^verbatim>\<open>tsch_schedule_create_minimal\<close>.  Whatever the schedule was, afterwards it is the minimal one: a single
  slotframe, handle 0 and seven slots, with the shared link in slot 0, channel offset 0; no packet queue changes.
\<close>

theorem minimal_schedule_created:
  assumes "sched_inv ns nl nn np S" "\<not> locked (sq S)" "0 < ns" "0 < nl"
  shows "\<exists>S'. tsch_schedule_create_minimal S = Some S' \<and> sched_inv ns nl nn np S' \<and> frames S' = [0 \<mapsto> 7]
    \<and> schedule S' = [(0, 0) \<mapsto> (15, LINK_TYPE_ADVERTISING, tsch_broadcast_address, 0)] \<and> aqueue (sq S') = aqueue (sq S)"
proof -
  obtain S1 where S1: "tsch_schedule_remove_all_slotframes S = Some (True, S1)" "sched_inv ns nl nn np S1" "slotframe_list S1 = []"
    "same_queues (sq S) (sq S1)" "link_live S1 = {}"
    using remove_all_spec [OF assms(1,2)] by blast
  have unl1: "\<not> locked (sq S1)"
    using S1(4) assms(2) by (simp add: same_queues_def same_packets_def)
  note e = no_frames [OF S1(3)]
  obtain i S2 where S2: "tsch_schedule_add_slotframe S1 0 TSCH_SCHEDULE_DEFAULT_LENGTH = Some (Some i, S2)" "sched_inv ns nl nn np S2"
    "slotframe_list S2 = slotframe_list S1 @ [i]" "sf_handle (sf_of S2 i) = 0" "frames S2 = (frames S1)(0 \<mapsto> TSCH_SCHEDULE_DEFAULT_LENGTH)"
    "schedule S2 = schedule S1" "sq S2 = sq S1" "link_live S2 = link_live S1"
    by (rule add_slotframe_ok [OF S1(2) unl1, where h = 0 and sz = TSCH_SCHEDULE_DEFAULT_LENGTH])
      (use e S1(3) assms(3) in \<open>simp_all add: TSCH_SCHEDULE_DEFAULT_LENGTH_def\<close>)
  have i2: "i \<in> set (slotframe_list S2)" "\<not> locked (sq S2)"
    using S2 unl1 by simp_all
  have len: "dval (sf_size (sf_of S2 i)) = 7"
    using frames_at [OF S2(2) i2(1)] S2(4,5) by (simp add: TSCH_SCHEDULE_DEFAULT_LENGTH_def)
  have a: "linkaddr_ok tsch_broadcast_address"
    by (simp add: tsch_broadcast_address_def linkaddr_ok_def LINKADDR_SIZE_def)
  let ?o = "LINK_OPTION_RX OR LINK_OPTION_TX OR LINK_OPTION_SHARED OR LINK_OPTION_TIME_KEEPING"
  have o: "?o = 15"
    by (simp add: LINK_OPTION_RX_def LINK_OPTION_TX_def LINK_OPTION_SHARED_def LINK_OPTION_TIME_KEEPING_def)
  obtain k S' where S': "tsch_schedule_add_link S2 (Some i) ?o LINK_TYPE_ADVERTISING (Some tsch_broadcast_address) 0 0 = Some (Some k, S')"
    "sched_inv ns nl nn np S'" "schedule S' = (schedule S2)((0, 0) \<mapsto> (15, LINK_TYPE_ADVERTISING, tsch_broadcast_address, 0))"
    "frames S' = frames S2" "same_queues (sq S2) (sq S')"
    by (rule add_link_ok [OF S2(2) i2(2,1) a, where t = 0 and ch = 0 and opts = ?o and ty = LINK_TYPE_ADVERTISING])
      (use len S1(5) S2(4,8) assms(4) in \<open>simp_all add: o\<close>)
  have "tsch_schedule_create_minimal S = Some S'"
    using S1(1) S2(1) S'(1) by (simp add: tsch_schedule_create_minimal_def)
  with S' S1 S2 e show ?thesis
    by (auto simp: same_queues_def TSCH_SCHEDULE_DEFAULT_LENGTH_def)
qed

section \<open>An example schedule\<close>

definition sched_initial :: "nat \<Rightarrow> nat \<Rightarrow> nat \<Rightarrow> nat \<Rightarrow> tsch_schedule" where
  "sched_initial ns nl nn np = \<lparr>sq = tq_initial nn np, link_memb = elem_pool nl,
     links = replicate nl \<lparr>l_handle = 0, l_addr = linkaddr_null, l_slotframe = 0, l_timeslot = 0, l_channel = 0, l_options = 0,
       l_type = LINK_TYPE_NORMAL\<rparr>,
     slotframe_memb = elem_pool ns,
     slotframes = replicate ns \<lparr>sf_handle = 0, sf_size = TSCH_ASN_DIVISOR_INIT 1, links_list = []\<rparr>,
     slotframe_list = [], current_link = None, current_link_handle = 0\<rparr>"

lemma sched_initial_inv: "sched_inv ns nl nn np (sched_initial ns nl nn np)" "\<not> locked (sq (sched_initial ns nl nn np))"
  "slotframe_list (sched_initial ns nl nn np) = []" "link_live (sched_initial ns nl nn np) = {}"
  using tq_initial_inv elem_ok_pool by (simp_all add: sched_defs sched_initial_def)

text \<open>Slotframe 5 of 11 slots with a transmission link to \<open>flow1\<close> in slot 3.\<close>

definition sched_example :: tsch_schedule where
  "sched_example = (let (i, S) = the (tsch_schedule_add_slotframe (sched_initial 7 8 12 8) 5 11)
     in snd (the (tsch_schedule_add_link S i LINK_OPTION_TX LINK_TYPE_NORMAL (Some flow1) 3 2)))"

lemma sched_example:
  "sched_inv 7 8 12 8 sched_example" "\<not> locked (sq sched_example)" "frames sched_example = [5 \<mapsto> 11]"
  "schedule sched_example = [(5, 3) \<mapsto> (LINK_OPTION_TX, LINK_TYPE_NORMAL, flow1, 2)]"
  "\<exists>i. slotframe_list sched_example = [i] \<and> sf_handle (sf_of sched_example i) = 5"
proof -
  note e = no_frames [OF sched_initial_inv(3), of 7 8 12 8]
  have fr: "frames (sched_initial 7 8 12 8) 5 = None" "length (slotframe_list (sched_initial 7 8 12 8)) \<noteq> 7" "(11::u16) \<noteq> 0"
    using e sched_initial_inv(3) by simp_all
  obtain i S1 where S1: "tsch_schedule_add_slotframe (sched_initial 7 8 12 8) 5 11 = Some (Some i, S1)" "sched_inv 7 8 12 8 S1"
    "slotframe_list S1 = slotframe_list (sched_initial 7 8 12 8) @ [i]" "sf_handle (sf_of S1 i) = 5"
    "frames S1 = (frames (sched_initial 7 8 12 8))(5 \<mapsto> 11)" "schedule S1 = schedule (sched_initial 7 8 12 8)"
    "sq S1 = sq (sched_initial 7 8 12 8)" "link_live S1 = link_live (sched_initial 7 8 12 8)"
    by (rule add_slotframe_ok [OF sched_initial_inv(1,2) fr(3,1,2)])
  have i1: "i \<in> set (slotframe_list S1)" "\<not> locked (sq S1)"
    using S1 sched_initial_inv(2) by simp_all
  have len: "dval (sf_size (sf_of S1 i)) = 11"
    using frames_at [OF S1(2) i1(1)] S1(4,5) by simp
  obtain k S2 where S2: "tsch_schedule_add_link S1 (Some i) LINK_OPTION_TX LINK_TYPE_NORMAL (Some flow1) 3 2 = Some (Some k, S2)"
    "sched_inv 7 8 12 8 S2" "schedule S2 = (schedule S1)((sf_handle (sf_of S1 i), 3) \<mapsto> (LINK_OPTION_TX, LINK_TYPE_NORMAL, flow1, 2))"
    "frames S2 = frames S1" "same_queues (sq S1) (sq S2)" "slotframe_list S2 = slotframe_list S1"
    by (rule add_link_ok [OF S1(2) i1(2,1) flow1_ok, where t = 3 and ch = 2 and opts = LINK_OPTION_TX and ty = LINK_TYPE_NORMAL])
      (use len S1(8) sched_initial_inv(4) in simp_all)
  have s: "sched_example = S2"
    using S1(1) S2(1) by (simp add: sched_example_def)
  show "sched_inv 7 8 12 8 sched_example" "\<not> locked (sq sched_example)" "frames sched_example = [5 \<mapsto> 11]"
    "schedule sched_example = [(5, 3) \<mapsto> (LINK_OPTION_TX, LINK_TYPE_NORMAL, flow1, 2)]"
    using s S1(4-6) S2(2-5) i1(2) e by (simp_all add: same_queues_def same_packets_def)
  have "slotframe_list S2 = [i]"
    using S1(3) S2(6) sched_initial_inv(3) by simp
  moreover from this have "frames S2 (sf_handle (sf_of S2 i)) \<noteq> None"
    using frames_at [OF S2(2), of i] by simp
  then have "sf_handle (sf_of S2 i) = 5"
    using S2(4) S1(5) e by (simp split: if_splits)
  ultimately show "\<exists>i. slotframe_list sched_example = [i] \<and> sf_handle (sf_of sched_example i) = 5"
    using s by blast
qed

theorem add_link_updates_schedule_witness:
  "\<exists>i r S'. tsch_schedule_add_link sched_example (Some i) LINK_OPTION_RX LINK_TYPE_NORMAL (Some flow1) 3 1 = Some (Some r, S')
     \<and> schedule S' (5, 3) = Some (LINK_OPTION_RX, LINK_TYPE_NORMAL, flow1, 1)"
proof -
  obtain i where i: "slotframe_list sched_example = [i]" "sf_handle (sf_of sched_example i) = 5"
    using sched_example(5) by blast
  have il: "i \<in> set (slotframe_list sched_example)" and f: "frames sched_example 5 = Some 11" and n: "schedule sched_example (5, 3) \<noteq> None"
    using i sched_example(3,4) by simp_all
  have lt: "\<not> (11::u16) \<le> 3" "\<not> (15::u16) < 1"
    by simp_all
  from add_link_updates_schedule [OF sched_example(1,2) il i(2) [symmetric] flow1_ok f, of LINK_OPTION_RX LINK_TYPE_NORMAL 3 1]
  obtain r S' where S': "tsch_schedule_add_link sched_example (Some i) LINK_OPTION_RX LINK_TYPE_NORMAL (Some flow1) 3 1 = Some (r, S')"
    "r = None \<longleftrightarrow> (11::u16) \<le> 3 \<or> (15::u16) < 1 \<or> (schedule sched_example (5, 3) = None \<and> card (link_live sched_example) = 8)"
    "schedule S' = (if r = None then schedule sched_example else (schedule sched_example)((5, 3) \<mapsto> (LINK_OPTION_RX, LINK_TYPE_NORMAL, flow1, 1)))"
    by blast
  obtain y where y: "r = Some y"
    using S'(2) n lt by blast
  show ?thesis
    by (intro exI [of _ i] exI [of _ y] exI [of _ S']) (use S'(1,3) y in simp)
qed

theorem slotframe_removed_and_added_witness:
  "\<exists>i S1 j S2. tsch_schedule_remove_slotframe sched_example (Some i) = Some (True, S1) \<and> schedule S1 (5, 3) = None
     \<and> tsch_schedule_add_slotframe S1 5 20 = Some (Some j, S2) \<and> frames S2 5 = Some 20"
proof -
  obtain i where i: "slotframe_list sched_example = [i]" "sf_handle (sf_of sched_example i) = 5"
    using sched_example(5) by blast
  then have il: "i \<in> set (slotframe_list sched_example)"
    by simp
  from slotframe_removed_and_added [OF sched_example(1,2) il i(2) [symmetric], of 20]
  obtain S1 j S2 where "tsch_schedule_remove_slotframe sched_example (Some i) = Some (True, S1)"
    "schedule S1 = (\<lambda>(h', t). if h' = 5 then None else schedule sched_example (h', t))"
    "tsch_schedule_add_slotframe S1 5 20 = Some (Some j, S2)" "frames S2 = (frames sched_example)(5 \<mapsto> 20)"
    by auto
  then show ?thesis
    by (intro exI [of _ i] exI [of _ S1] exI [of _ j] exI [of _ S2]) simp
qed

theorem minimal_schedule_created_witness:
  "\<exists>S'. tsch_schedule_create_minimal sched_example = Some S' \<and> frames S' = [0 \<mapsto> 7]"
  using minimal_schedule_created [OF sched_example(1,2)] by auto

end
