(* ===== verification/Tsch_Next_Link.thy ===== *)
theory Tsch_Next_Link
  imports Tsch_Schedule_Spec
begin

text \<open>
  The search for the next slot in which the node must act (\<^verbatim>\<open>tsch_schedule_get_next_active_link\<close>): the slot
  is the first one with a link, the link is the preferred one of that slot.
\<close>

section \<open>Times\<close>

text \<open>Link \<open>l\<close> is active in the slots whose number, modulo the length of its slotframe, is its timeslot.\<close>

definition active_at :: "tsch_schedule \<Rightarrow> nat \<Rightarrow> nat \<Rightarrow> bool" where
  "active_at S n l \<longleftrightarrow> (case frames S (l_slotframe (links S ! l)) of
     None \<Rightarrow> False | Some len \<Rightarrow> n mod unat len = unat (l_timeslot (links S ! l)))"

definition link_time :: "tsch_schedule \<Rightarrow> asn \<Rightarrow> nat \<Rightarrow> u16" where
  "link_time S asn l = (let sz = TSCH_ASN_DIVISOR_INIT (the (frames S (l_slotframe (links S ! l))))
     in time_to_timeslot sz (TSCH_ASN_MOD asn sz) (l_timeslot (links S ! l)))"

lemma first_slot:
  fixes a v j k :: nat
  assumes "j < v" "0 < v" and k: "k = (if j > a mod v then j - a mod v else v + j - a mod v)"
  shows "0 < k" "k \<le> v" "(a + k) mod v = j" "0 < k' \<Longrightarrow> k' < k \<Longrightarrow> (a + k') mod v \<noteq> j"
proof -
  define r where "r = a mod v"
  have r: "r < v" and kr: "k = (if j > r then j - r else v + j - r)"
    using assms(2) k by (simp_all add: r_def)
  show "0 < k" "k \<le> v"
    using assms(1) r kr by auto
  have m: "(a + x) mod v = (r + x) mod v" for x
    by (simp add: mod_add_left_eq r_def)
  have "r + k = j \<or> r + k = v + j"
    using kr r by auto
  then show "(a + k) mod v = j"
    using assms(1) m [of k] by auto
  assume k': "0 < k'" "k' < k"
  have "(r + k') mod v \<noteq> j"
  proof (cases "r + k' < v")
    case True
    with k' kr show ?thesis
      by (auto split: if_splits)
  next
    case False
    moreover have "r + k' < v + v"
      using k' \<open>k \<le> v\<close> r by simp
    ultimately have "(r + k') mod v = r + k' - v"
      by (simp add: mod_if)
    with k' kr False show ?thesis
      by (auto split: if_splits)
  qed
  then show "(a + k') mod v \<noteq> j"
    using m [of k'] by simp
qed

lemma dval_init [simp]: "dval (TSCH_ASN_DIVISOR_INIT v) = v"
  by (simp add: TSCH_ASN_DIVISOR_INIT_def)

lemma time_to_timeslot_nat:
  assumes "lts < v" "ts < v" "dval sz = v"
  shows "unat (time_to_timeslot sz ts lts) =
    (if unat lts > unat ts then unat lts - unat ts else unat v + unat lts - unat ts)"
proof (cases "lts > ts")
  case True
  then show ?thesis
    by (simp add: time_to_timeslot_def word_less_nat_alt unat_sub_if')
next
  case False
  then have "ts \<ge> lts"
    by simp
  have e: "v + lts - ts = v - (ts - lts)"
    by simp
  have "unat (ts - lts) = unat ts - unat lts"
    using \<open>ts \<ge> lts\<close> by (simp add: unat_sub)
  moreover have "ts - lts \<le> v"
    using assms(2) \<open>ts \<ge> lts\<close> by (simp add: word_le_nat_alt word_less_nat_alt unat_sub)
  ultimately have "unat (v + lts - ts) = unat v - (unat ts - unat lts)"
    unfolding e by (simp add: unat_sub)
  with False \<open>ts \<ge> lts\<close> assms show ?thesis
    by (simp add: time_to_timeslot_def word_less_nat_alt word_le_nat_alt)
qed

definition short_slotframes :: "tsch_schedule \<Rightarrow> asn \<Rightarrow> bool" where
  "short_slotframes S asn \<longleftrightarrow> (\<forall>i \<in> set (slotframe_list S). unat (dval (sf_size (sf_of S i))) \<le> 257 \<or> ms1b asn = 0)"

lemma link_time_first:
  assumes inv: "sched_inv ns nl nn np S" and l: "l \<in> link_live S" and sh: "short_slotframes S asn"
  shows "0 < unat (link_time S asn l)" "active_at S (asn_val asn + unat (link_time S asn l)) l"
    "0 < k \<Longrightarrow> k < unat (link_time S asn l) \<Longrightarrow> \<not> active_at S (asn_val asn + k) l"
proof -
  obtain i where i: "i \<in> set (slotframe_list S)" "l \<in> set (links_list (sf_of S i))" "l_slotframe (links S ! l) = sf_handle (sf_of S i)"
    by (rule live_link_sf [OF inv l])
  define v where "v = dval (sf_size (sf_of S i))"
  have fr: "frames S (l_slotframe (links S ! l)) = Some v"
    using frames_at [OF inv i(1)] i(3) by (simp add: v_def)
  have v: "0 < v" "l_timeslot (links S ! l) < v"
    using inv i(1) list_link_ok [OF inv i(1,2)] by (auto simp: sched_inv_def frames_inv_def v_def)
  have md: "unat (TSCH_ASN_MOD asn (TSCH_ASN_DIVISOR_INIT v)) = asn_val asn mod unat v"
    using sh i(1) by (intro asn_mod_small [OF v(1)]) (auto simp: short_slotframes_def v_def)
  have vn: "0 < unat v" "unat (l_timeslot (links S ! l)) < unat v"
    using v by (simp_all add: word_less_nat_alt)
  then have "TSCH_ASN_MOD asn (TSCH_ASN_DIVISOR_INIT v) < v"
    using md by (simp add: word_less_nat_alt)
  from time_to_timeslot_nat [OF v(2) this dval_init]
  have t: "unat (link_time S asn l) = (if unat (l_timeslot (links S ! l)) > asn_val asn mod unat v
       then unat (l_timeslot (links S ! l)) - asn_val asn mod unat v
       else unat v + unat (l_timeslot (links S ! l)) - asn_val asn mod unat v)"
    by (simp add: link_time_def fr md Let_def)
  note fs = first_slot [OF vn(2,1) t]
  show "0 < unat (link_time S asn l)"
    by (rule fs(1))
  show "active_at S (asn_val asn + unat (link_time S asn l)) l"
    using fs(3) by (simp add: active_at_def fr)
  show "0 < k \<Longrightarrow> k < unat (link_time S asn l) \<Longrightarrow> \<not> active_at S (asn_val asn + k) l"
    using fs(4) by (simp add: active_at_def fr)
qed

section \<open>The search\<close>

definition is_tx :: "tsch_link \<Rightarrow> bool" where "is_tx l \<longleftrightarrow> l_options l AND LINK_OPTION_TX \<noteq> 0"
definition is_rx :: "tsch_link \<Rightarrow> bool" where "is_rx l \<longleftrightarrow> l_options l AND LINK_OPTION_RX \<noteq> 0"

text \<open>By standard: links that transmit first, then the lower slotframe handle.\<close>

definition preferred :: "tsch_link \<Rightarrow> tsch_link \<Rightarrow> bool" where
  "preferred l b \<longleftrightarrow> (is_tx l \<and> \<not> is_tx b) \<or> (is_tx l = is_tx b \<and> l_slotframe l < l_slotframe b)"

lemma tx_eq: "l_options b AND LINK_OPTION_TX = l_options l AND LINK_OPTION_TX \<longleftrightarrow> is_tx b = is_tx l"
  by (simp add: is_tx_def LINK_OPTION_TX_def and_one_eq mod_2_eq_odd)

text \<open>The search has seen the links \<open>C\<close>, link \<open>l\<close> being \<open>tt l\<close> slots away.\<close>

definition best_of :: "tsch_link list \<Rightarrow> (nat \<Rightarrow> u16) \<Rightarrow> nat set \<Rightarrow> ptr \<times> u16 \<times> ptr \<Rightarrow> bool" where
  "best_of ls tt C = (\<lambda>(best, t, backup). case best of
     None \<Rightarrow> C = {} \<and> t = 0 \<and> backup = None
   | Some b \<Rightarrow> b \<in> C \<and> t = tt b \<and> (\<forall>c \<in> C. t \<le> tt c \<and> (tt c = t \<longrightarrow> \<not> preferred (ls ! c) (ls ! b)))
       \<and> (\<forall>u. backup = Some u \<longrightarrow> u \<in> C \<and> tt u = t \<and> is_rx (ls ! u))
       \<and> ((\<exists>c \<in> C. c \<noteq> b \<and> tt c = t \<and> is_rx (ls ! c)) \<longrightarrow> backup \<noteq> None))"

lemma preferred_trans: "preferred l b \<Longrightarrow> \<not> preferred c b \<Longrightarrow> \<not> preferred c l"
  by (auto simp: preferred_def)

lemma preferred_irrefl [simp]: "\<not> preferred l l"
  by (simp add: preferred_def)

lemma consider_link_best:
  assumes st: "best_of ls tt C (best, t, backup)" and l: "l < length ls" "tt l = time_to_timeslot sz ts (l_timeslot (ls ! l))"
    and C: "\<forall>c \<in> C. c < length ls"
  shows "\<exists>st'. consider_link ls sz ts l (best, t, backup) = Some st' \<and> best_of ls tt (insert l C) st'"
proof (cases best)
  case None
  with st l show ?thesis
    by (simp add: consider_link_def best_of_def rd_in)
next
  case (Some b)
  note st' = st [unfolded best_of_def Some prod.case option.case]
  have b: "b < length ls"
    using st' C by blast
  consider (less) "tt l < t" | (tie) "tt l = t" | (more) "t < tt l"
    by fastforce
  then show ?thesis
  proof cases
    case less
    then have "consider_link ls sz ts l (best, t, backup) = Some (Some l, tt l, None)"
      using Some l by (simp add: consider_link_def rd_in)
    moreover have "\<forall>c \<in> C. tt l < tt c"
      using less st' by (metis order.strict_trans2)
    then have "best_of ls tt (insert l C) (Some l, tt l, None)"
      unfolding best_of_def by (auto simp: less_imp_le)
    ultimately show ?thesis
      by blast
  next
    case more
    then have "\<not> tt l < t" "tt l \<noteq> t"
      by auto
    then have "consider_link ls sz ts l (best, t, backup) = Some (best, t, backup)"
      using Some l by (simp add: consider_link_def rd_in Let_def)
    with Some have "consider_link ls sz ts l (best, t, backup) = Some (Some b, t, backup)"
      by simp
    moreover have "best_of ls tt (insert l C) (Some b, t, backup)"
      unfolding best_of_def prod.case option.case
    proof (intro conjI ballI allI impI)
      fix c
      assume c: "c \<in> insert l C"
      then show "t \<le> tt c"
        using st' more by (metis insert_iff order.strict_implies_order)
      assume "tt c = t"
      with c \<open>tt l \<noteq> t\<close> have "c \<in> C"
        by blast
      with \<open>tt c = t\<close> show "\<not> preferred (ls ! c) (ls ! b)"
        using st' by blast
    next
      assume "\<exists>c \<in> insert l C. c \<noteq> b \<and> tt c = t \<and> is_rx (ls ! c)"
      then show "backup \<noteq> None"
        using st' \<open>tt l \<noteq> t\<close> by blast
    qed (use st' in blast)+
    ultimately show ?thesis
      by blast
  next
    case tie
    define nb where "nb = (if preferred (ls ! l) (ls ! b) then Some l else None)"
    define bu where "bu = (if backup = None then (if nb \<noteq> Some b \<and> is_rx (ls ! b) then Some b
        else if nb \<noteq> Some l \<and> is_rx (ls ! l) then Some l else None) else backup)"
    have nb': "nb = (if l_options (ls ! b) AND LINK_OPTION_TX = l_options (ls ! l) AND LINK_OPTION_TX
        then (if l_slotframe (ls ! l) < l_slotframe (ls ! b) then Some l else None)
        else (if l_options (ls ! l) AND LINK_OPTION_TX \<noteq> 0 then Some l else None))"
      unfolding tx_eq by (auto simp: nb_def preferred_def is_tx_def)
    have run: "consider_link ls sz ts l (best, t, backup) = Some (if nb = None then best else nb, t, bu)"
      using Some l b tie unfolding bu_def is_rx_def nb' by (simp add: consider_link_def rd_in Let_def)
    show ?thesis
    proof (cases "preferred (ls ! l) (ls ! b)")
      case True
      then have lb: "l \<noteq> b"
        by auto
      have "best_of ls tt (insert l C) (Some l, t, bu)"
        unfolding best_of_def prod.case option.case
      proof (intro conjI ballI allI impI)
        fix c
        assume "c \<in> insert l C"
        then show "t \<le> tt c"
          using st' tie by auto
        assume "tt c = t"
        with \<open>c \<in> insert l C\<close> show "\<not> preferred (ls ! c) (ls ! l)"
          using st' preferred_trans [OF True] by auto
      next
        fix u
        assume "bu = Some u"
        then show "u \<in> insert l C" "tt u = t" "is_rx (ls ! u)"
          using st' True lb by (auto simp: bu_def nb_def split: if_splits)
      next
        assume "\<exists>c \<in> insert l C. c \<noteq> l \<and> tt c = t \<and> is_rx (ls ! c)"
        then show "bu \<noteq> None"
          using st' True lb by (auto simp: bu_def nb_def)
      qed (use tie in simp_all)
      with run True show ?thesis
        by (simp add: nb_def)
    next
      case False
      have "best_of ls tt (insert l C) (Some b, t, bu)"
        unfolding best_of_def prod.case option.case
      proof (intro conjI ballI allI impI)
        fix c
        assume "c \<in> insert l C"
        then show "t \<le> tt c"
          using st' tie by auto
        assume "tt c = t"
        with \<open>c \<in> insert l C\<close> show "\<not> preferred (ls ! c) (ls ! b)"
          using st' False by auto
      next
        fix u
        assume "bu = Some u"
        then show "u \<in> insert l C" "tt u = t" "is_rx (ls ! u)"
          using st' False tie by (auto simp: bu_def nb_def split: if_splits)
      next
        assume "\<exists>c \<in> insert l C. c \<noteq> b \<and> tt c = t \<and> is_rx (ls ! c)"
        then show "bu \<noteq> None"
          using st' False by (auto simp: bu_def nb_def)
      qed (use st' in simp_all)
      with run False Some show ?thesis
        by (simp add: nb_def)
    qed
  qed
qed

lemma consider_links_best:
  "best_of ls tt C st \<Longrightarrow> \<forall>c \<in> C. c < length ls \<Longrightarrow>
   \<forall>l \<in> set js. l < length ls \<and> tt l = time_to_timeslot sz ts (l_timeslot (ls ! l)) \<Longrightarrow>
   \<exists>st'. consider_links ls sz ts js st = Some st' \<and> best_of ls tt (C \<union> set js) st'"
proof (induction js arbitrary: C st)
  case (Cons l js)
  obtain best t backup where st: "st = (best, t, backup)"
    by (cases st)
  obtain st1 where st1: "consider_link ls sz ts l st = Some st1" "best_of ls tt (insert l C) st1"
    using consider_link_best [of ls tt C best t backup l sz ts] Cons.prems st by auto
  obtain st' where "consider_links ls sz ts js st1 = Some st'" "best_of ls tt (insert l C \<union> set js) st'"
    using Cons.IH [OF st1(2)] Cons.prems by auto
  with st1 show ?case
    by simp
qed simp

lemma consider_slotframes_best:
  assumes inv: "sched_inv ns nl nn np S"
  shows "best_of (links S) (link_time S asn) C st \<Longrightarrow> C \<subseteq> link_live S \<Longrightarrow> set is' \<subseteq> set (slotframe_list S) \<Longrightarrow>
   \<exists>st'. consider_slotframes S asn is' st = Some st'
     \<and> best_of (links S) (link_time S asn) (C \<union> (\<Union>i \<in> set is'. set (links_list (sf_of S i)))) st'"
proof (induction is' arbitrary: C st)
  case (Cons i js)
  have i: "i \<in> set (slotframe_list S)"
    using Cons.prems by simp
  let ?L = "links_list (sf_of S i)"
  have sz: "sf_size (sf_of S i) = TSCH_ASN_DIVISOR_INIT (dval (sf_size (sf_of S i)))"
    using inv i by (simp add: sched_inv_def frames_inv_def)
  have L: "\<forall>l \<in> set ?L. l < length (links S) \<and> link_time S asn l =
      time_to_timeslot (sf_size (sf_of S i)) (TSCH_ASN_MOD asn (sf_size (sf_of S i))) (l_timeslot (links S ! l))"
  proof
    fix l
    assume l: "l \<in> set ?L"
    have "frames S (l_slotframe (links S ! l)) = Some (dval (sf_size (sf_of S i)))"
      using list_link_ok [OF inv i l] frames_at [OF inv i] by simp
    then show "l < length (links S) \<and> link_time S asn l =
      time_to_timeslot (sf_size (sf_of S i)) (TSCH_ASN_MOD asn (sf_size (sf_of S i))) (l_timeslot (links S ! l))"
      using link_less [OF inv list_link_live [OF inv i l]] sz by (simp add: link_time_def Let_def)
  qed
  have C: "\<forall>c \<in> C. c < length (links S)"
    using Cons.prems(2) link_less [OF inv] by blast
  obtain st1 where st1: "consider_links (links S) (sf_size (sf_of S i)) (TSCH_ASN_MOD asn (sf_size (sf_of S i))) ?L st = Some st1"
    "best_of (links S) (link_time S asn) (C \<union> set ?L) st1"
    using consider_links_best [OF Cons.prems(1) C L] by blast
  have sub: "C \<union> set ?L \<subseteq> link_live S" "set js \<subseteq> set (slotframe_list S)"
    using Cons.prems(2,3) list_link_live [OF inv i] by auto
  obtain st' where "consider_slotframes S asn js st1 = Some st'"
    "best_of (links S) (link_time S asn) (C \<union> set ?L \<union> (\<Union>j \<in> set js. set (links_list (sf_of S j)))) st'"
    using Cons.IH [OF st1(2) sub] by blast
  with st1 inv i show ?case
    by (simp add: Un_assoc)
qed simp

text \<open>The smallest time of a link is the first slot in which a link is active, and the links active then are those with that time.\<close>

lemma first_active_slot:
  assumes inv: "sched_inv ns nl nn np S" and sh: "short_slotframes S asn" and b: "b \<in> link_live S" "t = link_time S asn b"
    and least: "\<forall>l \<in> link_live S. t \<le> link_time S asn l"
  shows "0 < unat t" "\<forall>l \<in> link_live S. \<forall>k. 0 < k \<and> k < unat t \<longrightarrow> \<not> active_at S (asn_val asn + k) l"
    "\<And>u. u \<in> link_live S \<Longrightarrow> active_at S (asn_val asn + unat t) u \<longleftrightarrow> link_time S asn u = t"
proof -
  note ft = link_time_first [OF inv _ sh]
  have le: "unat t \<le> unat (link_time S asn l)" if "l \<in> link_live S" for l
    using least that unfolding word_le_nat_alt by blast
  show pos: "0 < unat t"
    using ft(1) [OF b(1)] b(2) by simp
  show "\<forall>l \<in> link_live S. \<forall>k. 0 < k \<and> k < unat t \<longrightarrow> \<not> active_at S (asn_val asn + k) l"
    using ft(3) le by (meson less_le_trans)
  show "active_at S (asn_val asn + unat t) u \<longleftrightarrow> link_time S asn u = t" if u: "u \<in> link_live S" for u
  proof
    assume act: "active_at S (asn_val asn + unat t) u"
    show "link_time S asn u = t"
    proof (rule ccontr)
      assume "link_time S asn u \<noteq> t"
      then have "unat t < unat (link_time S asn u)"
        using le [OF u] by (metis le_neq_implies_less unsigned_word_eqI)
      with ft(3) [OF u pos this] act show False
        by simp
    qed
  qed (use ft(2) [OF u] in simp)
qed

text \<open>
  C13. \<^verbatim>\<open>tsch_schedule_get_next_active_link\<close>.  Without a link there is no result.  Otherwise the result is a link
  of the schedule and the number of slots until it is active: no link at all is active in an earlier slot, and none that is
  active in that slot comes before it in the standard's order (transmitting links first, then the lower slotframe handle).  A
  backup link can receive in that slot, and there is one whenever another link of that slot can receive.  (For the slotframe
  lengths and ASN for which theory \<open>Tsch_Asn\<close> shows \<^verbatim>\<open>TSCH_ASN_MOD\<close> to be exact.)
\<close>

theorem next_active_link_correct:
  assumes inv: "sched_inv ns nl nn np S" and unl: "\<not> locked (sq S)" and sh: "short_slotframes S asn"
  shows "\<exists>best t backup. tsch_schedule_get_next_active_link S asn = Some (best, Some t, backup)
    \<and> (best = None \<longleftrightarrow> link_live S = {})
    \<and> (\<forall>b. best = Some b \<longrightarrow> b \<in> link_live S \<and> 0 < unat t \<and> active_at S (asn_val asn + unat t) b
         \<and> (\<forall>l \<in> link_live S. \<forall>k. 0 < k \<and> k < unat t \<longrightarrow> \<not> active_at S (asn_val asn + k) l)
         \<and> (\<forall>l \<in> link_live S. active_at S (asn_val asn + unat t) l \<longrightarrow> \<not> preferred (links S ! l) (links S ! b))
         \<and> (\<forall>u. backup = Some u \<longrightarrow> u \<in> link_live S \<and> active_at S (asn_val asn + unat t) u \<and> is_rx (links S ! u))
         \<and> ((\<exists>l \<in> link_live S. l \<noteq> b \<and> active_at S (asn_val asn + unat t) l \<and> is_rx (links S ! l)) \<longrightarrow> backup \<noteq> None))"
proof -
  have start: "best_of (links S) (link_time S asn) {} (None, 0, None)"
    by (simp add: best_of_def)
  obtain best t backup where st: "consider_slotframes S asn (slotframe_list S) (None, 0, None) = Some (best, t, backup)"
    "best_of (links S) (link_time S asn) (link_live S) (best, t, backup)"
    using consider_slotframes_best [OF inv start empty_subsetI subset_refl] unfolding link_live_eq [OF inv] by auto
  have run: "tsch_schedule_get_next_active_link S asn = Some (best, Some t, backup)"
    using st(1) unl by (simp add: tsch_schedule_get_next_active_link_def tsch_is_locked_def)
  show ?thesis
  proof (cases best)
    case None
    with st(2) run show ?thesis
      by (simp add: best_of_def)
  next
    case (Some b)
    note B = st(2) [unfolded best_of_def Some prod.case option.case]
    have b: "b \<in> link_live S" and t: "t = link_time S asn b" and least: "\<forall>l \<in> link_live S. t \<le> link_time S asn l"
      using B by blast+
    note first = first_active_slot [OF inv sh b t least]
    have pref: "\<forall>l \<in> link_live S. active_at S (asn_val asn + unat t) l \<longrightarrow> \<not> preferred (links S ! l) (links S ! b)"
      using first(3) B by blast
    have bu: "\<forall>u. backup = Some u \<longrightarrow> u \<in> link_live S \<and> active_at S (asn_val asn + unat t) u \<and> is_rx (links S ! u)"
      using first(3) B by blast
    have "(\<exists>l \<in> link_live S. l \<noteq> b \<and> active_at S (asn_val asn + unat t) l \<and> is_rx (links S ! l)) \<longrightarrow> backup \<noteq> None"
      using first(3) B by blast
    with run Some b first(1,2) first(3) [OF b] t pref bu show ?thesis
      by (intro exI [of _ best] exI [of _ t] exI [of _ backup]) auto
  qed
qed

theorem next_active_link_correct_witness:
  "\<exists>b t backup. tsch_schedule_get_next_active_link sched_example (Asn 0 100) = Some (Some b, Some t, backup)
     \<and> active_at sched_example (100 + unat t) b"
proof -
  have v: "asn_val (Asn 0 100) = 100"
    by (simp add: asn_val_def)
  have ne: "link_live sched_example \<noteq> {}"
    using schedule_Some [OF sched_example(1), of "(5, 3)" "(LINK_OPTION_TX, LINK_TYPE_NORMAL, flow1, 2)"] sched_example(4) by auto
  have "short_slotframes sched_example (Asn 0 100)"
    by (simp add: short_slotframes_def)
  from next_active_link_correct [OF sched_example(1,2) this] ne show ?thesis
    unfolding v by (metis not_None_eq)
qed

text \<open>
  The code also keeps, as a backup, the best link itself when it can receive and another link of the slot is not preferred:
  the other link, which could receive as well, is then lost.
\<close>

lemma backup_may_be_best:
  "consider_links [\<lparr>l_handle = 0, l_addr = a, l_slotframe = 0, l_timeslot = 0, l_channel = 0, l_options = 3, l_type = LINK_TYPE_NORMAL\<rparr>,
      \<lparr>l_handle = 1, l_addr = a, l_slotframe = 1, l_timeslot = 0, l_channel = 0, l_options = 2, l_type = LINK_TYPE_NORMAL\<rparr>]
      (TSCH_ASN_DIVISOR_INIT 7) 0 [0, 1] (None, 0, None) = Some (Some 0, 7, Some 0)"
  by (simp add: consider_link_def rd_in time_to_timeslot_def LINK_OPTION_TX_def LINK_OPTION_RX_def)

end
