(* ===== verification/Tsch_Slot.thy ===== *)
theory Tsch_Slot
  imports Tsch_Next_Link
begin

text \<open>
  The choice of the packet for a transmission slot: \<^verbatim>\<open>get_packet_and_neighbor_for_link\<close> of
  \<^verbatim>\<open>tsch-slot-operation.c\<close>, in the repository's configuration (central scheduling, a queue per flow, packets with a
  time to live and an earliest slot).
\<close>

section \<open>Definitions\<close>

definition queued_attr :: "tsch_queue \<Rightarrow> nat \<Rightarrow> pb_attr \<Rightarrow> u16 option" where
  "queued_attr q p ty = do { pk \<leftarrow> rd (pkts q) p; b \<leftarrow> qb pk; queuebuf_attr (qbufs q) b ty }"

text \<open>The loop that drops the packets whose time to live is over; \<open>now\<close> is \<^verbatim>\<open>tsch_current_asn.ls4b\<close>.\<close>

partial_function (option) drop_expired :: "tsch_queue \<Rightarrow> u32 \<Rightarrow> ptr \<Rightarrow> u8 \<Rightarrow> ptr \<Rightarrow> (ptr \<times> tsch_queue) option" where
  "drop_expired q now n options p = (case p of
     None \<Rightarrow> Some (None, q)
   | Some j \<Rightarrow> do {
       ttl \<leftarrow> queued_attr q j PACKETBUF_ATTR_TRANSMISSION_TTL;
       if TSCH_SLOTNUM_LT (ucast (now - 1)) ttl then Some (Some j, q)
       else do {
         (_, q) \<leftarrow> tsch_queue_remove_packet_from_queue q n;
         q \<leftarrow> tsch_queue_free_packet q (Some j);
         q \<leftarrow> tsch_queue_free_unused_neighbors q;
         p \<leftarrow> tsch_queue_get_packet_for_nbr q n (Some options);
         drop_expired q now n options p
       }
     })"

text \<open>
  The result is the packet, the neighbor written to \<^verbatim>\<open>*target_neighbor\<close>, the new value of
  \<^verbatim>\<open>actual_current_neighbor\<close> (\<^verbatim>\<open>None\<close> if it is not written) and the queues.
\<close>

definition get_packet_and_neighbor_for_link ::
    "tsch_queue \<Rightarrow> u32 \<Rightarrow> tsch_link \<Rightarrow> (ptr \<times> ptr \<times> ptr option \<times> tsch_queue) option" where
  "get_packet_and_neighbor_for_link q now link =
     (if l_options link AND LINK_OPTION_TX = 0 then Some (None, None, None, q)
      else do {
        (p, n) \<leftarrow> (if l_type link = LINK_TYPE_ADVERTISING \<or> l_type link = LINK_TYPE_ADVERTISING_ONLY
           then do { p \<leftarrow> tsch_queue_get_packet_for_nbr q (n_eb q) (Some (l_options link)); Some (p, n_eb q) }
           else Some (None, None));
        if l_type link \<noteq> LINK_TYPE_ADVERTISING_ONLY \<and> p = None then do {
          n \<leftarrow> tsch_queue_get_nbr q (flow_queue_addr (l_slotframe link));
          actual \<leftarrow> tsch_queue_get_nbr q (l_addr link);
          p \<leftarrow> tsch_queue_get_packet_for_nbr q n (Some (l_options link));
          (p, q) \<leftarrow> drop_expired q now n (l_options link) p;
          p \<leftarrow> (case p of None \<Rightarrow> Some None | Some j \<Rightarrow> do {
             earliest \<leftarrow> queued_attr q j PACKETBUF_ATTR_EARLIEST_TX_SLOT;
             Some (if TSCH_SLOTNUM_LT (ucast now) earliest then None else Some j)
           });
          if p = None \<and> n = n_broadcast q then do {
            (p, n') \<leftarrow> tsch_queue_get_unicast_packet_for_any q (Some (l_options link));
            Some (p, if p = None then n else n', Some actual, q)
          } else Some (p, n, Some actual, q)
        } else Some (p, n, None, q)
      })"

section \<open>The packet that is sent\<close>

lemma get_packet_spec:
  assumes inv: "tq_inv nn np q" and unl: "\<not> locked q" and i: "i \<in> nbr_live q"
  shows "tsch_queue_get_packet_for_nbr q (Some i) (Some options) =
    Some (if options AND LINK_OPTION_SHARED \<noteq> 0 \<and> backoff_window (nbrs q ! i) \<noteq> 0 then None
      else (case queue_of q i of [] \<Rightarrow> None | p # _ \<Rightarrow> p))"
proof -
  let ?nb = "nbrs q ! i"
  have ring: "ring_ok 3 (tx_ringbuf ?nb, tx_array ?nb)"
    by (rule ring_ok_nbr [OF tq_nbr_ok [OF inv i]])
  then have rinv: "ring_inv 3 (tx_ringbuf ?nb)" and len: "length (tx_array ?nb) = 8"
    by (auto simp: ring_ok_def)
  show ?thesis
  proof (cases "ring_count 3 (tx_ringbuf ?nb) = 0")
    case True
    then have "queue_of q i = []"
      by (simp add: nqueue_def ring_contents_def)
    with True ring_get_result [OF rinv] inv i unl show ?thesis
      by (simp add: tsch_queue_get_packet_for_nbr_def tsch_is_locked_def)
  next
    case False
    then have "queue_of q i = tx_array ?nb ! get_nat (tx_ringbuf ?nb) # tl (queue_of q i)"
      using get_nat_less [OF rinv] by (simp add: nqueue_def ring_contents_def upt_conv_Cons)
    then have head: "(case queue_of q i of [] \<Rightarrow> None | p # _ \<Rightarrow> p) = tx_array ?nb ! get_nat (tx_ringbuf ?nb)"
      by (metis list.simps(5))
    have "get_nat (tx_ringbuf ?nb) < length (tx_array ?nb)"
      using get_nat_less [OF rinv] len by simp
    with head False ring_get_result [OF rinv] inv i unl show ?thesis
      by (auto simp: tsch_queue_get_packet_for_nbr_def tsch_is_locked_def tsch_queue_backoff_expired_def rd_in)
  qed
qed

text \<open>The packets whose time to live is over in slot \<open>now\<close>, and those that must wait.\<close>

definition packet_earliest :: "tsch_queue \<Rightarrow> nat \<Rightarrow> u16" where
  "packet_earliest q p = qattrs (qb_data (qbufs q) (the (qb (pkts q ! p)))) PACKETBUF_ATTR_EARLIEST_TX_SLOT"

definition expired :: "tsch_queue \<Rightarrow> u32 \<Rightarrow> nat \<Rightarrow> bool" where
  "expired q now p \<longleftrightarrow> \<not> TSCH_SLOTNUM_LT (ucast (now - 1)) (packet_ttl q p)"

definition too_early :: "tsch_queue \<Rightarrow> u32 \<Rightarrow> nat \<Rightarrow> bool" where
  "too_early q now p \<longleftrightarrow> TSCH_SLOTNUM_LT (ucast now) (packet_earliest q p)"

lemma queued_attr:
  assumes "tq_inv nn np q" "p \<in> pkt_live q"
  shows "queued_attr q p PACKETBUF_ATTR_TRANSMISSION_TTL = Some (packet_ttl q p)"
    "queued_attr q p PACKETBUF_ATTR_EARLIEST_TX_SLOT = Some (packet_earliest q p)"
proof -
  obtain b where "qb (pkts q ! p) = Some b" "\<forall>ty. queuebuf_attr (qbufs q) b ty = Some (qattrs (qb_data (qbufs q) b) ty)"
    using packet_attr [OF assms] by metis
  with assms show "queued_attr q p PACKETBUF_ATTR_TRANSMISSION_TTL = Some (packet_ttl q p)"
    "queued_attr q p PACKETBUF_ATTR_EARLIEST_TX_SLOT = Some (packet_earliest q p)"
    by (simp_all add: queued_attr_def packet_ttl_def packet_earliest_def)
qed

definition head_of :: "ptr list \<Rightarrow> ptr" where
  "head_of ps = (case ps of [] \<Rightarrow> None | p # _ \<Rightarrow> p)"

text \<open>The effect of one round: the oldest packet is gone and its memory is free.\<close>

lemma drop_one:
  assumes inv: "tq_inv nn np q" and unl: "\<not> locked q" and i: "i \<in> set (neighbor_list q)"
    and used: "tx_links_count (nbrs q ! i) \<noteq> 0" and qu: "queue_of q i = Some j # rest"
  obtains q1 q2 q3 where "tsch_queue_remove_packet_from_queue q (Some i) = Some (Some j, q1)"
    "tsch_queue_free_packet q1 (Some j) = Some q2" "tsch_queue_free_unused_neighbors q2 = Some q3" "tq_inv nn np q3"
    "\<not> locked q3" "i \<in> set (neighbor_list q3)" "queue_of q3 i = rest" "tx_links_count (nbrs q3 ! i) = tx_links_count (nbrs q ! i)"
    "backoff_window (nbrs q3 ! i) = backoff_window (nbrs q ! i)" "naddr (nbrs q3 ! i) = naddr (nbrs q ! i)"
    "aqueue q3 = (aqueue q)(naddr (nbrs q ! i) := map the rest)" "pkt_live q3 = pkt_live q - {j}"
    "expired q3 now = expired q now" "too_early q3 now = too_early q now" "n_broadcast q3 = n_broadcast q"
proof -
  have il: "i \<in> nbr_live q"
    by (rule tq_list_live [OF inv i])
  have own: "distinct (queue_of q k)" "set (queue_of q k) \<subseteq> Some ` pkt_live q" if "k \<in> nbr_live q" for k
    using inv that by (auto simp: tq_inv_def own_inv_def)
  have jl: "j \<in> pkt_live q"
    using own(2) [OF il] qu by auto
  obtain r e q1 where q1: "tsch_queue_remove_packet_from_queue q (Some i) = Some (Some j, q1)" "tq_inv nn np q1"
    "q1 = q\<lparr>nbrs := (nbrs q)[i := (nbrs q ! i)\<lparr>tx_ringbuf := r\<rparr>], num_eb_packets := e\<rparr>"
    "\<And>k. queue_of q1 k = (if k = i then rest else queue_of q k)"
    using inv unl il
  proof (cases rule: remove_packet_spec)
    case empty
    with qu show ?thesis
      by simp
  next
    case (head p rest' r e q')
    with qu that show ?thesis
      by auto
  qed
  have n1: "nbrs q1 ! k = (if k = i then (nbrs q ! i)\<lparr>tx_ringbuf := r\<rparr> else nbrs q ! k)" for k
    using tq_live_less [OF inv il] by (simp add: q1(3) nth_list_update)
  have same1: "neighbor_list q1 = neighbor_list q" "neighbor_memb q1 = neighbor_memb q" "packet_memb q1 = packet_memb q"
    "pkts q1 = pkts q" "qbufs q1 = qbufs q" "locked q1 = locked q" "n_broadcast q1 = n_broadcast q"
    by (simp_all add: q1(3))
  have nq: "\<forall>k \<in> nbr_live q1. Some j \<notin> set (queue_of q1 k)"
  proof
    fix k
    assume "k \<in> nbr_live q1"
    then have k: "k \<in> nbr_live q"
      by (simp add: same1)
    show "Some j \<notin> set (queue_of q1 k)"
    proof (cases "k = i")
      case True
      with own(1) [OF il] qu q1(4) show ?thesis
        by simp
    next
      case False
      then have "set (queue_of q i) \<inter> set (queue_of q k) = {}"
        using inv il k by (auto simp: tq_inv_def own_inv_def)
      with qu q1(4) False show ?thesis
        by auto
    qed
  qed
  have jl1: "j \<in> pkt_live q1"
    using jl same1 by simp
  obtain q2 where q2: "tsch_queue_free_packet q1 (Some j) = Some q2" "tq_inv nn np q2" "pkt_live q2 = pkt_live q1 - {j}"
    "nbrs q2 = nbrs q1" "neighbor_list q2 = neighbor_list q1" "neighbor_memb q2 = neighbor_memb q1" "pkts q2 = pkts q1"
    "sent_log q2 = sent_log q1" "locked q2 = locked q1" "n_eb q2 = n_eb q1" "n_broadcast q2 = n_broadcast q1"
    "num_eb_packets q2 = num_eb_packets q1" "\<forall>b. qb_data (qbufs q2) b = qb_data (qbufs q1) b"
    by (rule free_packet_spec [OF q1(2) jl1 nq]) blast
  have unl2: "\<not> locked q2"
    using unl q2 same1 by simp
  obtain q3 where q3: "tsch_queue_free_unused_neighbors q2 = Some q3" "tq_inv nn np q3"
    "neighbor_list q3 = filter (\<lambda>i. \<not> unused_nbr q2 i) (neighbor_list q2)" "aqueue q3 = aqueue q2" "pkt_live q3 = pkt_live q2"
    "pkts q3 = pkts q2" "qbufs q3 = qbufs q2" "nbrs q3 = nbrs q2" "locked q3 = locked q2" "n_broadcast q3 = n_broadcast q2"
    using free_unused_result [OF q2(2) unl2] by blast
  have i3: "i \<in> set (neighbor_list q3)"
    using i used q2 same1 n1 by (simp add: q3(3) unused_nbr_def)
  have "aqueue q2 = (aqueue q)(naddr (nbrs q ! i) := map the (queue_of q2 i))"
    by (rule aqueue_change [OF inv q2(2) i]) (use q2 same1 n1 in auto)
  then have aq: "aqueue q3 = (aqueue q)(naddr (nbrs q ! i) := map the rest)"
    using q2 q1(4) q3(4) by simp
  have ex: "packet_ttl q3 = packet_ttl q" "packet_earliest q3 = packet_earliest q"
    using q2 q3 same1 by (simp_all add: packet_ttl_def packet_earliest_def fun_eq_iff)
  have q3i: "queue_of q3 i = rest"
    using q3(8) q2(4) q1(4) by simp
  have n3: "nbrs q3 ! i = (nbrs q ! i)\<lparr>tx_ringbuf := r\<rparr>"
    using q3(8) q2(4) n1 by simp
  have ee: "expired q3 now = expired q now" "too_early q3 now = too_early q now"
    using ex by (simp_all add: expired_def too_early_def fun_eq_iff)
  show thesis
    by (rule that [OF q1(1) q2(1) q3(1,2) _ i3 q3i _ _ _ aq _ ee])
      (use unl2 q2(3,9,11) q3(5,9,10) same1 in \<open>simp_all add: n3\<close>)
qed


lemma drop_expired_spec:
  assumes "tq_inv nn np q" "\<not> locked q" "i \<in> set (neighbor_list q)" "tx_links_count (nbrs q ! i) \<noteq> 0"
    and "options AND LINK_OPTION_SHARED = 0 \<or> backoff_window (nbrs q ! i) = 0"
  shows "\<exists>q'. drop_expired q now (Some i) options (head_of (queue_of q i))
        = Some (head_of (map Some (dropWhile (expired q now) (map the (queue_of q i)))), q')
    \<and> tq_inv nn np q' \<and> \<not> locked q' \<and> i \<in> set (neighbor_list q') \<and> naddr (nbrs q' ! i) = naddr (nbrs q ! i)
    \<and> aqueue q' = (aqueue q)(naddr (nbrs q ! i) := dropWhile (expired q now) (map the (queue_of q i)))
    \<and> pkt_live q' = pkt_live q - set (takeWhile (expired q now) (map the (queue_of q i)))
    \<and> too_early q' now = too_early q now \<and> n_broadcast q' = n_broadcast q"
  using assms
proof (induction "length (queue_of q i)" arbitrary: q)
  case 0
  then show ?case
    using aqueue_at [OF "0.prems"(1,3) refl]
    by (intro exI [of _ q]) (simp add: head_of_def drop_expired.simps fun_upd_idem)
next
  case (Suc n)
  note inv = Suc.prems(1) and unl = Suc.prems(2) and i = Suc.prems(3) and used = Suc.prems(4)
  have il: "i \<in> nbr_live q"
    by (rule tq_list_live [OF inv i])
  obtain x rest where x: "queue_of q i = x # rest"
    using Suc.hyps(2) by (cases "queue_of q i") auto
  have own: "set (queue_of q i) \<subseteq> Some ` pkt_live q"
    using inv il by (auto simp: tq_inv_def own_inv_def)
  then obtain j where j: "x = Some j" "j \<in> pkt_live q"
    using x by auto
  have qu: "queue_of q i = Some j # rest"
    using x j by simp
  show ?case
  proof (cases "expired q now j")
    case False
    then have "drop_expired q now (Some i) options (Some j) = Some (Some j, q)"
      using queued_attr(1) [OF inv j(2)] by (simp add: drop_expired.simps expired_def)
    with False qu inv unl i aqueue_at [OF inv i refl] show ?thesis
      by (intro exI [of _ q]) (simp add: head_of_def fun_upd_idem)
  next
    case True
    obtain q1 q2 q3 where q3: "tsch_queue_remove_packet_from_queue q (Some i) = Some (Some j, q1)"
      "tsch_queue_free_packet q1 (Some j) = Some q2" "tsch_queue_free_unused_neighbors q2 = Some q3" "tq_inv nn np q3"
      "\<not> locked q3" "i \<in> set (neighbor_list q3)" "queue_of q3 i = rest" "tx_links_count (nbrs q3 ! i) = tx_links_count (nbrs q ! i)"
      "backoff_window (nbrs q3 ! i) = backoff_window (nbrs q ! i)" "naddr (nbrs q3 ! i) = naddr (nbrs q ! i)"
      "aqueue q3 = (aqueue q)(naddr (nbrs q ! i) := map the rest)" "pkt_live q3 = pkt_live q - {j}"
      "expired q3 now = expired q now" "too_early q3 now = too_early q now" "n_broadcast q3 = n_broadcast q"
      by (rule drop_one [OF inv unl i used qu])
    have g: "tsch_queue_get_packet_for_nbr q3 (Some i) (Some options) = Some (head_of rest)"
      using get_packet_spec [OF q3(4,5) tq_list_live [OF q3(4,6)], of options] q3(7,9) Suc.prems(5) by (auto simp: head_of_def)
    have run: "drop_expired q now (Some i) options (Some j) = drop_expired q3 now (Some i) options (head_of rest)"
      using True queued_attr(1) [OF inv j(2)] q3(1-3) g by (simp add: drop_expired.simps [of q] expired_def)
    have len: "n = length (queue_of q3 i)"
      using Suc.hyps(2) qu q3(7) by simp
    have sh3: "options AND LINK_OPTION_SHARED = 0 \<or> backoff_window (nbrs q3 ! i) = 0" and u3: "tx_links_count (nbrs q3 ! i) \<noteq> 0"
      using Suc.prems(5) used q3(8,9) by auto
    obtain q' where q': "drop_expired q3 now (Some i) options (head_of (queue_of q3 i))
        = Some (head_of (map Some (dropWhile (expired q3 now) (map the (queue_of q3 i)))), q')"
      "tq_inv nn np q'" "\<not> locked q'" "i \<in> set (neighbor_list q')" "naddr (nbrs q' ! i) = naddr (nbrs q3 ! i)"
      "aqueue q' = (aqueue q3)(naddr (nbrs q3 ! i) := dropWhile (expired q3 now) (map the (queue_of q3 i)))"
      "pkt_live q' = pkt_live q3 - set (takeWhile (expired q3 now) (map the (queue_of q3 i)))"
      "too_early q' now = too_early q3 now" "n_broadcast q' = n_broadcast q3"
      using Suc.hyps(1) [OF len q3(4,5,6) u3 sh3] by blast
    have h: "head_of (queue_of q i) = Some j"
      using qu by (simp add: head_of_def)
    show ?thesis
      unfolding h run using q' qu True q3(7,10-15) by (intro exI [of _ q']) auto
  qed
qed

lemma neighbor_of_flow:
  assumes "tq_inv nn np q" "\<not> locked q" "i \<in> set (neighbor_list q)" "naddr (nbrs q ! i) = flow_queue_addr f"
  shows "tsch_queue_get_nbr q (flow_queue_addr f) = Some (Some i)"
proof (cases rule: get_nbr_spec [OF assms(1,2) flow_queue_addr_ok [of f]])
  case (1 k)
  then have "k = i"
    using tq_inj_addr [OF assms(1) 1(2) assms(3)] assms(4) by simp
  with 1 show ?thesis
    by simp
next
  case 2
  with assms(3,4) show ?thesis
    by auto
qed

text \<open>The head of the queue is held back until its earliest slot.\<close>

lemma earliest_checked:
  assumes inv: "tq_inv nn np q" and i: "i \<in> set (neighbor_list q)" and aq: "aqueue q (naddr (nbrs q ! i)) = xs"
  shows "(case head_of (map Some xs) of None \<Rightarrow> Some None | Some j \<Rightarrow> do {
         earliest \<leftarrow> queued_attr q j PACKETBUF_ATTR_EARLIEST_TX_SLOT;
         Some (if TSCH_SLOTNUM_LT (ucast now) earliest then None else Some j) })
    = Some (case xs of [] \<Rightarrow> None | x # _ \<Rightarrow> if too_early q now x then None else Some x)"
proof (cases xs)
  case (Cons x rest)
  have "map the (queue_of q i) = x # rest"
    using aqueue_at [OF inv i refl] aq Cons by simp
  then have "x \<in> the ` set (queue_of q i)"
    by (metis image_set list.set_intros(1))
  moreover have "set (queue_of q i) \<subseteq> Some ` pkt_live q"
    using inv tq_list_live [OF inv i] by (auto simp: tq_inv_def own_inv_def)
  ultimately have "x \<in> pkt_live q"
    by auto
  then show ?thesis
    using queued_attr(2) [OF inv] Cons by (simp add: head_of_def too_early_def)
qed (simp add: head_of_def)

text \<open>
  C12. The packet of a transmission slot.  For a link that transmits for a flow (not a shared one), from the flow's queue
  exactly the packets at the front whose time to live is over are dropped and freed; of the rest the oldest one is sent, unless
  its earliest slot has not come yet, and it stays in the queue; no other queue changes.  The loop ends.
\<close>

theorem slot_packet_correct:
  assumes inv: "tq_inv nn np q" and unl: "\<not> locked q" and i: "i \<in> set (neighbor_list q)"
    and addr: "naddr (nbrs q ! i) = flow_queue_addr (l_slotframe l)" and used: "tx_links_count (nbrs q ! i) \<noteq> 0"
    and tx: "l_options l AND LINK_OPTION_TX \<noteq> 0" "l_options l AND LINK_OPTION_SHARED = 0" "l_type l = LINK_TYPE_NORMAL"
    and nb: "n_broadcast q \<noteq> Some i"
  shows "\<exists>p actual q'. get_packet_and_neighbor_for_link q now l = Some (p, Some i, actual, q') \<and> tq_inv nn np q'
    \<and> (let alive = dropWhile (expired q now) (aqueue q (flow_queue_addr (l_slotframe l)));
           gone = takeWhile (expired q now) (aqueue q (flow_queue_addr (l_slotframe l)))
       in p = (case alive of [] \<Rightarrow> None | x # _ \<Rightarrow> if too_early q now x then None else Some x)
          \<and> aqueue q' = (aqueue q)(flow_queue_addr (l_slotframe l) := alive)
          \<and> pkt_live q' = pkt_live q - set gone)"
proof -
  let ?a = "flow_queue_addr (l_slotframe l)"
  let ?alive = "dropWhile (expired q now) (aqueue q ?a)"
  have il: "i \<in> nbr_live q"
    by (rule tq_list_live [OF inv i])
  have aq: "aqueue q ?a = map the (queue_of q i)"
    by (rule aqueue_at [OF inv i addr])
  have g: "tsch_queue_get_nbr q ?a = Some (Some i)"
    by (rule neighbor_of_flow [OF inv unl i addr])
  have "\<forall>k \<in> set (neighbor_list q). k < length (nbrs q)"
    using tq_live_less [OF inv] tq_list_live [OF inv] by blast
  then obtain actual where actual: "tsch_queue_get_nbr q (l_addr l) = Some actual"
    using unl by (simp add: tsch_queue_get_nbr_def tsch_is_locked_def find_rd_find)
  have gp: "tsch_queue_get_packet_for_nbr q (Some i) (Some (l_options l)) = Some (head_of (queue_of q i))"
    using get_packet_spec [OF inv unl il] tx(2) by (simp add: head_of_def)
  obtain q' where q': "drop_expired q now (Some i) (l_options l) (head_of (queue_of q i)) = Some (head_of (map Some ?alive), q')"
    "tq_inv nn np q'" "\<not> locked q'" "i \<in> set (neighbor_list q')" "naddr (nbrs q' ! i) = naddr (nbrs q ! i)"
    "aqueue q' = (aqueue q)(naddr (nbrs q ! i) := ?alive)"
    "pkt_live q' = pkt_live q - set (takeWhile (expired q now) (aqueue q ?a))"
    "too_early q' now = too_early q now" "n_broadcast q' = n_broadcast q"
    using drop_expired_spec [OF inv unl i used, of "l_options l" now] tx(2) unfolding aq by blast
  define p where "p = (case ?alive of [] \<Rightarrow> None | x # _ \<Rightarrow> if too_early q now x then None else Some x)"
  have early: "(case head_of (map Some ?alive) of None \<Rightarrow> Some None | Some j \<Rightarrow> do {
         earliest \<leftarrow> queued_attr q' j PACKETBUF_ATTR_EARLIEST_TX_SLOT;
         Some (if TSCH_SLOTNUM_LT (ucast now) earliest then None else Some j) }) = Some p"
    unfolding p_def q'(8) [symmetric] by (rule earliest_checked [OF q'(2,4)]) (simp add: q'(5,6))
  have "get_packet_and_neighbor_for_link q now l = Some (p, Some i, Some actual, q')"
    using tx g actual gp q'(1,9) early nb by (simp add: get_packet_and_neighbor_for_link_def)
  with q' addr p_def show ?thesis
    by (auto simp: Let_def)
qed

theorem slot_packet_correct_witness:
  "\<exists>q i p q' actual. aqueue q flow1 = [p] \<and> aqueue q' flow1 = []
     \<and> get_packet_and_neighbor_for_link q 5 \<lparr>l_handle = 0, l_addr = flow1, l_slotframe = 1, l_timeslot = 0, l_channel = 0,
          l_options = LINK_OPTION_TX, l_type = LINK_TYPE_NORMAL\<rparr> = Some (None, Some i, actual, q')"
proof -
  obtain i p b where i: "i \<in> set (neighbor_list tq_example)" "naddr (nbrs tq_example ! i) = flow1"
    "aqueue tq_example flow1 = [p]" "qb (pkts tq_example ! p) = Some b" "holds_packet (qb_data (qbufs tq_example) b) pb_initial"
    using tq_example(3) by blast
  let ?f = "\<lambda>n. n\<lparr>tx_links_count := 1\<rparr>"
  let ?q1 = "tq_example\<lparr>nbrs := (nbrs tq_example)[i := ?f (nbrs tq_example ! i)]\<rparr>"
  define q where "q = ?q1\<lparr>n_broadcast := None\<rparr>"
  have k: "keeps_queue ?f"
    by (auto simp: keeps_queue_def nbr_ok_def)
  have il: "i \<in> nbr_live tq_example"
    by (rule tq_list_live [OF tq_example(1) i(1)])
  have inv1: "tq_inv 12 8 ?q1"
    using upd_nbr_spec [OF tq_example(1) il k] by blast
  then have inv: "tq_inv 12 8 q"
    by (simp add: q_def tq_defs)
  have lt: "i < length (nbrs tq_example)"
    by (rule tq_live_less [OF tq_example(1) il])
  have at: "nbrs q ! j = (if j = i then ?f (nbrs tq_example ! i) else nbrs tq_example ! j)" for j
    using lt by (simp add: q_def nth_list_update)
  have "aqueue q = aqueue tq_example"
    by (rule aqueue_same [OF tq_example(1) inv]) (use at in \<open>auto simp: q_def nqueue_def\<close>)
  then have aq: "aqueue q flow1 = [p]"
    using i(3) by simp
  define l where "l = \<lparr>l_handle = 0, l_addr = flow1, l_slotframe = 1, l_timeslot = 0, l_channel = 0,
      l_options = LINK_OPTION_TX, l_type = LINK_TYPE_NORMAL\<rparr>"
  have fl: "flow_queue_addr (l_slotframe l) = flow1"
    by (simp add: flow_queue_addr_def flow1_def l_def)
  have ex: "expired q 5 p"
    using i(4,5) by (simp add: expired_def packet_ttl_def q_def holds_packet_def pb_initial_def TSCH_SLOTNUM_LT_def TSCH_SLOTNUM_DIFF16_def)
  have pre: "\<not> locked q" "i \<in> set (neighbor_list q)" "naddr (nbrs q ! i) = flow_queue_addr (l_slotframe l)"
    "tx_links_count (nbrs q ! i) \<noteq> 0" "l_options l AND LINK_OPTION_TX \<noteq> 0" "l_options l AND LINK_OPTION_SHARED = 0"
    "l_type l = LINK_TYPE_NORMAL" "n_broadcast q \<noteq> Some i"
    using tq_example(2) i(1,2) at unfolding fl
    by (simp_all add: l_def q_def LINK_OPTION_TX_def LINK_OPTION_SHARED_def lt)
  from slot_packet_correct [OF inv pre, of 5] aq ex
  obtain actual q' where "get_packet_and_neighbor_for_link q 5 l = Some (None, Some i, actual, q')" "aqueue q' flow1 = []"
    by (auto simp: fl Let_def)
  with aq show ?thesis
    unfolding l_def by blast
qed

end
