(* ===== verification/Float32.thy ===== *)
theory Float32
  imports Complex_Main Prelude
begin

text \<open>
  The single-precision numbers of the C code as their 32 bits: IEEE 754 binary32, rounding to nearest, ties to even.
  On the repository's target \<^verbatim>\<open>double\<close> is the same format; with a wider \<^verbatim>\<open>double\<close> the results below
  are the same, because a quotient of two such numbers that is rounded twice is rounded correctly.  The code computes quotients
  of non-negative integers, products by a small integer, comparisons, and truncations; all of them are the correctly rounded
  quotient \<open>fl_quot\<close> of two naturals, in the range of the normal numbers.
\<close>

type_synonym float32 = u32

section \<open>Definitions\<close>

fun blen :: "nat \<Rightarrow> nat" where
  "blen n = (if n = 0 then 0 else Suc (blen (n div 2)))"

declare blen.simps [simp del]

text \<open>\<open>n / d\<close> rounded to an integer, ties to even.\<close>

definition round_even :: "nat \<Rightarrow> nat \<Rightarrow> nat" where
  "round_even n d = (let q = n div d; r = n mod d
     in if 2 * r < d \<or> (2 * r = d \<and> even q) then q else Suc q)"

text \<open>\<open>n / d\<close> is \<open>m / 2 ^ s\<close> with \<open>m\<close> of 24 bits; \<open>s\<close> may be negative.\<close>

definition scaled :: "nat \<Rightarrow> nat \<Rightarrow> int \<Rightarrow> nat \<times> nat" where
  "scaled n d s = (if 0 \<le> s then (n * 2 ^ nat s, d) else (n, d * 2 ^ nat (- s)))"

definition shift_of :: "nat \<Rightarrow> nat \<Rightarrow> int" where
  "shift_of n d = (let s = 24 + int (blen d) - int (blen n); (a, b) = scaled n d s
     in if 2 ^ 24 * b \<le> a then s - 1 else s)"

definition mant_of :: "nat \<Rightarrow> nat \<Rightarrow> nat" where
  "mant_of n d = (let (a, b) = scaled n d (shift_of n d) in round_even a b)"

definition fl_infinity :: float32 where "fl_infinity = 0x7f800000"
definition fl_undefined :: float32 where "fl_undefined = 0x7fc00000"

definition fl_quot :: "nat \<Rightarrow> nat \<Rightarrow> float32" where
  "fl_quot n d =
     (if d = 0 then (if n = 0 then fl_undefined else fl_infinity)
      else if n = 0 then 0
      else word_of_int ((149 - shift_of n d) * 2 ^ 23 + int (mant_of n d)))"

text \<open>The exponent and the significand of a non-negative normal number.\<close>

definition fl_exp :: "float32 \<Rightarrow> int" where
  "fl_exp w = int (unat w div 2 ^ 23 mod 2 ^ 8)"

definition fl_mant :: "float32 \<Rightarrow> nat" where
  "fl_mant w = 2 ^ 23 + unat w mod 2 ^ 23"

text \<open>The number as a fraction of naturals (for zero and the non-negative normal numbers).\<close>

definition fl_frac :: "float32 \<Rightarrow> nat \<times> nat" where
  "fl_frac w = (if w = 0 then (0, 1) else scaled (fl_mant w) 1 (fl_exp w - 150))"

definition fl_val :: "float32 \<Rightarrow> rat" where
  "fl_val w = (case fl_frac w of (n, d) \<Rightarrow> of_nat n / of_nat d)"

text \<open>Comparison: sign and magnitude; a NaN is not less than, or greater than, anything.\<close>

definition fl_nan :: "float32 \<Rightarrow> bool" where
  "fl_nan w \<longleftrightarrow> 0x7f800000 < (w AND 0x7fffffff)"

definition fl_order :: "float32 \<Rightarrow> int" where
  "fl_order w = (if bit w 31 then - uint (w AND 0x7fffffff) else uint w)"

definition fl_less :: "float32 \<Rightarrow> float32 \<Rightarrow> bool" where
  "fl_less a b \<longleftrightarrow> \<not> fl_nan a \<and> \<not> fl_nan b \<and> fl_order a < fl_order b"

text \<open>The macro \<^verbatim>\<open>MIN(a, b)\<close>, the product by an integer, and the truncation to \<^verbatim>\<open>uint16_t\<close>.\<close>

definition fl_min :: "float32 \<Rightarrow> float32 \<Rightarrow> float32" where
  "fl_min a b = (if fl_less a b then a else b)"

definition fl_times :: "float32 \<Rightarrow> nat \<Rightarrow> float32" where
  "fl_times w k = (case fl_frac w of (n, d) \<Rightarrow> fl_quot (n * k) d)"

definition fl_trunc :: "float32 \<Rightarrow> nat" where
  "fl_trunc w = (case fl_frac w of (n, d) \<Rightarrow> n div d)"

section \<open>Rounding\<close>

lemma blen_bounds: "0 < n \<Longrightarrow> 2 ^ (blen n - 1) \<le> n \<and> n < 2 ^ blen n \<and> 0 < blen n"
proof (induction n rule: blen.induct)
  case (1 n)
  show ?case
  proof (cases "n div 2 = 0")
    case True
    with 1(2) have "n = 1"
      by (cases n) auto
    then show ?thesis
      by (simp add: blen.simps [of "Suc 0"] blen.simps [of 0])
  next
    case False
    with 1 have ih: "2 ^ (blen (n div 2) - 1) \<le> n div 2" "n div 2 < 2 ^ blen (n div 2)" "0 < blen (n div 2)"
      by auto
    have b: "blen n = Suc (blen (n div 2))"
      using 1(2) by (simp add: blen.simps [of n])
    have pw: "(2::nat) ^ (blen n - 1) = 2 * 2 ^ (blen (n div 2) - 1)" "(2::nat) ^ blen n = 2 * 2 ^ blen (n div 2)"
      using ih(3) b by (metis Suc_diff_1 diff_Suc_1 power_Suc)+
    have h: "p \<le> n div 2 \<Longrightarrow> 2 * p \<le> n" "n div 2 < p \<Longrightarrow> n < 2 * p" for p
      by arith+
    show ?thesis
      unfolding pw using h(1) [OF ih(1)] h(2) [OF ih(2)] b by simp
  qed
qed

lemma round_even_bounds:
  assumes "0 < d"
  shows "2 * (round_even n d * d) \<le> 2 * n + d" "2 * n \<le> 2 * (round_even n d * d) + d"
    "k * d \<le> n \<Longrightarrow> k \<le> round_even n d" "n \<le> k * d \<Longrightarrow> round_even n d \<le> k"
proof -
  define q r where "q = n div d" and "r = n mod d"
  have n: "n = q * d + r" and r: "r < d"
    using assms by (simp_all add: q_def r_def)
  have e: "round_even n d = (if 2 * r < d \<or> (2 * r = d \<and> even q) then q else Suc q)"
    by (simp add: round_even_def q_def r_def Let_def)
  show "2 * (round_even n d * d) \<le> 2 * n + d" "2 * n \<le> 2 * (round_even n d * d) + d"
    unfolding e using n r by (auto simp: algebra_simps)
  show "k * d \<le> n \<Longrightarrow> k \<le> round_even n d"
  proof -
    assume "k * d \<le> n"
    then have "k \<le> q"
      using assms by (simp add: q_def less_eq_div_iff_mult_less_eq)
    then show "k \<le> round_even n d"
      by (simp add: e)
  qed
  show "round_even n d \<le> k" if k: "n \<le> k * d"
  proof (cases "r = 0")
    case True
    then have "q * d \<le> k * d"
      using k n by simp
    then have "q \<le> k"
      using assms by simp
    with True assms show ?thesis
      by (simp add: e)
  next
    case False
    then have "q * d < k * d"
      using k n by linarith
    then have "Suc q \<le> k"
      using assms by simp
    then show ?thesis
      by (simp add: e)
  qed
qed

text \<open>A fraction scaled by \<open>2 ^ s\<close>, as a rational.\<close>

definition two_pow :: "int \<Rightarrow> rat" where
  "two_pow s = (if 0 \<le> s then 2 ^ nat s else 1 / 2 ^ nat (- s))"

lemma two_pow_pos [simp]: "0 < two_pow s"
  by (simp add: two_pow_def)

lemma two_pow_add: "two_pow (s + t) = two_pow s * two_pow t"
proof -
  have p: "two_pow s = 2 powi s" for s
    by (simp add: two_pow_def power_int_def field_simps)
  show ?thesis
    by (simp add: p power_int_add)
qed

lemma scaled_val:
  assumes "0 < d" "scaled n d s = (a, b)"
  shows "0 < b" "(of_nat a :: rat) / of_nat b = of_nat n / of_nat d * two_pow s"
  using assms by (auto simp: scaled_def two_pow_def field_simps split: if_splits)

section \<open>The rounded quotient\<close>

lemma shift_range:
  assumes "0 < n" "0 < d" "scaled n d (shift_of n d) = (a, b)"
  shows "2 ^ 23 * b \<le> a" "a < 2 ^ 24 * b"
proof -
  define s where "s = 24 + int (blen d) - int (blen n)"
  obtain a' b' where ab: "scaled n d s = (a', b')"
    by force
  note n = blen_bounds [OF assms(1)] and d = blen_bounds [OF assms(2)]
  have b': "0 < b'" "(of_nat a' :: rat) / of_nat b' = of_nat n / of_nat d * two_pow s"
    using scaled_val [OF assms(2) ab] by simp_all
  have nn: "(2::nat) ^ blen n = 2 * 2 ^ (blen n - 1)" "(2::nat) ^ blen d = 2 * 2 ^ (blen d - 1)"
    using n d by (metis Suc_diff_1 power_Suc)+
  have lo: "2 ^ 23 * b' \<le> a'" and hi: "a' < 2 ^ 25 * b'"
  proof -
    have "2 ^ 23 * b' \<le> a' \<and> a' < 2 ^ 25 * b'"
    proof (cases "0 \<le> s")
      case True
      then have ab': "a' = n * 2 ^ nat s" "b' = d"
        using ab by (simp_all add: scaled_def)
      have s: "nat s + blen n = 24 + blen d"
        using True by (simp add: s_def)
      have p: "(2::nat) ^ nat s * 2 ^ blen n = 2 ^ 24 * 2 ^ blen d"
        by (metis power_add s)
      have "2 ^ 23 * d < 2 ^ 23 * 2 ^ blen d"
        using d by simp
      also have "\<dots> = 2 ^ nat s * 2 ^ (blen n - 1)"
        using p unfolding nn(1) by simp
      also have "\<dots> \<le> 2 ^ nat s * n"
        using n by simp
      finally have 1: "2 ^ 23 * d < n * 2 ^ nat s"
        by (simp add: mult.commute)
      have "n * 2 ^ nat s < 2 ^ blen n * 2 ^ nat s"
        using n by simp
      also have "\<dots> = 2 ^ 24 * (2 * 2 ^ (blen d - 1))"
        using p nn(2) by (simp add: mult.commute)
      also have "\<dots> \<le> 2 ^ 25 * d"
        using d by simp
      finally show ?thesis
        using 1 ab' by simp
    next
      case False
      then have ab': "a' = n" "b' = d * 2 ^ nat (- s)"
        using ab by (simp_all add: scaled_def)
      have s: "nat (- s) + 24 + blen d = blen n"
        using False by (simp add: s_def)
      have p: "(2::nat) ^ nat (- s) * 2 ^ 24 * 2 ^ blen d = 2 ^ blen n"
        by (metis power_add s)
      have "2 ^ 24 * (d * 2 ^ nat (- s)) < 2 ^ nat (- s) * 2 ^ 24 * 2 ^ blen d"
        using d by simp
      then have "2 * (2 ^ 23 * (d * 2 ^ nat (- s))) < 2 * n"
        using n unfolding p nn(1) by simp
      moreover have "n < 2 ^ 25 * (d * 2 ^ nat (- s))"
      proof -
        have "n < 2 ^ nat (- s) * 2 ^ 24 * (2 * 2 ^ (blen d - 1))"
          using n p nn(2) by simp
        also have "\<dots> \<le> 2 ^ nat (- s) * 2 ^ 24 * (2 * d)"
          using d by simp
        finally show ?thesis
          by (simp add: mult.commute mult.left_commute)
      qed
      ultimately show ?thesis
        using ab' by simp
    qed
    then show "2 ^ 23 * b' \<le> a'" "a' < 2 ^ 25 * b'"
      by simp_all
  qed
  have sh: "shift_of n d = (if 2 ^ 24 * b' \<le> a' then s - 1 else s)"
    by (simp add: shift_of_def ab flip: s_def)
  show "2 ^ 23 * b \<le> a" "a < 2 ^ 24 * b"
  proof -
    have "2 ^ 23 * b \<le> a \<and> a < 2 ^ 24 * b"
    proof (cases "2 ^ 24 * b' \<le> a'")
      case False
      then show ?thesis
        using sh ab assms(3) lo by simp
    next
      case True
      have b: "0 < b" "(of_nat a :: rat) / of_nat b = of_nat n / of_nat d * two_pow (s - 1)"
        using scaled_val [OF assms(2,3)] sh True by simp_all
      have "two_pow s = two_pow (s - 1) * 2"
        using two_pow_add [of "s - 1" 1] by (simp add: two_pow_def)
      then have "(of_nat a :: rat) / of_nat b * 2 = of_nat a' / of_nat b'"
        using b' b by simp
      then have "(of_nat (a * 2 * b') :: rat) = of_nat (a' * b)"
        using b(1) b'(1) by (simp add: field_simps)
      then have e: "a * 2 * b' = a' * b"
        by (simp only: of_nat_eq_iff)
      have "2 ^ 24 * b' * b \<le> a' * b"
        using True by simp
      then have "2 * b' * (2 ^ 23 * b) \<le> 2 * b' * a"
        unfolding e [symmetric] by (simp add: mult.commute mult.left_commute)
      moreover have "a' * b < 2 ^ 25 * b' * b"
        using hi b(1) by simp
      then have "2 * b' * a < 2 * b' * (2 ^ 24 * b)"
        unfolding e [symmetric] by (simp add: mult.commute mult.left_commute)
      ultimately show ?thesis
        using b'(1) by simp
    qed
    then show "2 ^ 23 * b \<le> a" "a < 2 ^ 24 * b"
      by simp_all
  qed
qed

lemma mant_range: "0 < n \<Longrightarrow> 0 < d \<Longrightarrow> 2 ^ 23 \<le> mant_of n d \<and> mant_of n d \<le> 2 ^ 24"
proof -
  assume nd: "0 < n" "0 < d"
  obtain a b where ab: "scaled n d (shift_of n d) = (a, b)"
    by force
  have "0 < b"
    using scaled_val [OF nd(2) ab] by simp
  then show ?thesis
    using round_even_bounds(3) [of b "2 ^ 23" a] round_even_bounds(4) [of b a "2 ^ 24"] shift_range [OF nd ab]
    by (simp add: mant_of_def ab)
qed

text \<open>In the exponent range of the normal numbers the bits stand for the rounded number.\<close>

definition fl_normal :: "nat \<Rightarrow> nat \<Rightarrow> bool" where
  "fl_normal n d \<longleftrightarrow> 0 < n \<and> 0 < d \<and> - 103 \<le> shift_of n d \<and> shift_of n d \<le> 149"

lemma fl_quot_frac:
  assumes "fl_normal n d"
  shows "fl_frac (fl_quot n d) = (if mant_of n d = 2 ^ 24 then scaled (2 ^ 23) 1 (1 - shift_of n d)
      else scaled (mant_of n d) 1 (- shift_of n d))"
    "fl_quot n d \<noteq> 0" "fl_quot n d < 0x7f800000"
proof -
  define s where "s = shift_of n d"
  define m where "m = mant_of n d"
  have nd: "0 < n" "0 < d" "- 103 \<le> s" "s \<le> 149"
    using assms by (simp_all add: fl_normal_def s_def)
  have m: "2 ^ 23 \<le> m" "m \<le> 2 ^ 24"
    using mant_range [OF nd(1,2)] by (simp_all add: m_def)
  define e where "e = nat (149 - s) + m div 2 ^ 23"
  define f where "f = m mod 2 ^ 23"
  have em: "e < 255" "1 \<le> e"
    using nd(3,4) m by (auto simp: e_def)
  have "e \<le> 254"
    using em by simp
  have f: "f < 2 ^ 23"
    by (simp add: f_def)
  have bits: "nat ((149 - s) * 2 ^ 23 + int m) = e * 2 ^ 23 + f"
  proof -
    have "(149 - s) * 2 ^ 23 + int m = int (nat (149 - s) * 2 ^ 23 + m)"
      using nd(4) by simp
    moreover have "nat (149 - s) * 2 ^ 23 + m = e * 2 ^ 23 + f"
    proof -
      have "x * B + m = (x + m div B) * B + m mod B" for x B :: nat
        by (simp add: distrib_right)
      then show ?thesis
        unfolding e_def f_def .
    qed
    ultimately show ?thesis
      by (metis nat_int)
  qed
  have lt: "e * 2 ^ 23 + f < 2 ^ 32"
  proof -
    have "e * 2 ^ 23 + f < 254 * 2 ^ 23 + 2 ^ 23"
      using f \<open>e \<le> 254\<close> by (intro add_le_less_mono mult_le_mono) simp_all
    then show ?thesis
      by simp
  qed
  define w where "w = fl_quot n d"
  have w: "w = word_of_int ((149 - s) * 2 ^ 23 + int m)"
    using nd by (simp add: w_def fl_quot_def s_def m_def)
  have ge: "0 \<le> (149 - s) * 2 ^ 23 + int m"
    using nd by simp
  have uw: "unat w = e * 2 ^ 23 + f"
  proof -
    have "w = of_nat (e * 2 ^ 23 + f)"
      using w ge bits by (metis int_nat_eq of_int_of_nat_eq)
    moreover have "k < 2 ^ 32 \<Longrightarrow> unat (of_nat k :: u32) = k" for k
      by (simp add: unsigned_of_nat take_bit_nat_eq_self)
    ultimately show ?thesis
      using lt by metis
  qed
  have "unat w < 255 * 2 ^ 23"
  proof -
    have "e * 2 ^ 23 + f < 254 * 2 ^ 23 + 2 ^ 23"
      using f \<open>e \<le> 254\<close> by (intro add_le_less_mono mult_le_mono) simp_all
    then show ?thesis
      by (simp add: uw)
  qed
  then show "fl_quot n d < 0x7f800000"
    by (simp add: word_less_nat_alt flip: w_def)
  have "2 ^ 23 \<le> unat w"
    using em(2) by (simp add: uw)
  then show w0: "fl_quot n d \<noteq> 0"
    by (auto simp flip: w_def)
  have "(e * 2 ^ 23 + f) div 2 ^ 23 = e" "(e * 2 ^ 23 + f) mod 2 ^ 23 = f"
  proof -
    have "f < B \<Longrightarrow> (e * B + f) div B = e \<and> (e * B + f) mod B = f" for B
      by simp
    with f show "(e * 2 ^ 23 + f) div 2 ^ 23 = e" "(e * 2 ^ 23 + f) mod 2 ^ 23 = f"
      by blast+
  qed
  then have ex: "fl_exp w = int e" and mt: "fl_mant w = 2 ^ 23 + f"
    using em(1) unfolding fl_exp_def fl_mant_def uw by simp_all
  show "fl_frac (fl_quot n d) = (if mant_of n d = 2 ^ 24 then scaled (2 ^ 23) 1 (1 - shift_of n d)
      else scaled (mant_of n d) 1 (- shift_of n d))"
  proof (cases "m = 2 ^ 24")
    case True
    then have "e = nat (149 - s) + 2" "f = 0"
      by (simp_all add: e_def f_def)
    with True nd(4) w0 ex mt show ?thesis
      by (simp add: fl_frac_def flip: w_def s_def m_def) 
  next
    case False
    then have "m div 2 ^ 23 = 1"
      using m by (intro div_nat_eqI) simp_all
    then have "e = nat (149 - s) + 1" "2 ^ 23 + f = m"
      using div_mult_mod_eq [of m "2 ^ 23"] by (simp_all add: e_def f_def)
    with False nd(4) w0 ex mt show ?thesis
      by (simp add: fl_frac_def flip: w_def s_def m_def)
  qed
qed

lemma fl_quot_val:
  assumes "fl_normal n d"
  shows "fl_val (fl_quot n d) = of_nat (mant_of n d) * two_pow (- shift_of n d)"
proof -
  have sv: "fl_val w = of_nat m * two_pow t" if "fl_frac w = scaled m 1 t" for w m t
    using that scaled_val [of 1 m t] by (cases "scaled m 1 t") (simp add: fl_val_def)
  show ?thesis
  proof (cases "mant_of n d = 2 ^ 24")
    case True
    have "two_pow (1 - shift_of n d) = 2 * two_pow (- shift_of n d)"
      using two_pow_add [of 1 "- shift_of n d"] by (simp add: two_pow_def)
    with sv [of "fl_quot n d" "2 ^ 23" "1 - shift_of n d"] fl_quot_frac(1) [OF assms] True show ?thesis
      by simp
  next
    case False
    with sv [of "fl_quot n d" "mant_of n d" "- shift_of n d"] fl_quot_frac(1) [OF assms] show ?thesis
      by simp
  qed
qed

lemma two_pow_cancel: "two_pow s * two_pow (- s) = 1"
  using two_pow_add [of s "- s"] by (simp add: two_pow_def)

text \<open>The relative error of a rounded quotient is at most \<open>2 ^ -24\<close>.\<close>

lemma fl_quot_error:
  assumes "fl_normal n d"
  shows "\<bar>fl_val (fl_quot n d) - of_nat n / of_nat d\<bar> \<le> of_nat n / of_nat d / 2 ^ 24"
proof -
  define s where "s = shift_of n d"
  have nd: "0 < n" "0 < d"
    using assms by (simp_all add: fl_normal_def)
  obtain a b where ab: "scaled n d s = (a, b)"
    by force
  note v = scaled_val [OF nd(2) ab]
  have r: "2 ^ 23 * b \<le> a"
    using shift_range [OF nd] ab by (simp add: s_def)
  define m where "m = mant_of n d"
  have m: "m = round_even a b"
    using ab by (simp add: m_def mant_of_def s_def)
  have "2 * (m * b) \<le> 2 * a + b" "2 * a \<le> 2 * (m * b) + b"
    using round_even_bounds(1,2) [OF v(1)] by (simp_all add: m)
  then have "(of_nat (2 * (m * b)) :: rat) \<le> of_nat (2 * a + b)" "(of_nat (2 * a) :: rat) \<le> of_nat (2 * (m * b) + b)"
    by (simp_all only: of_nat_le_iff)
  then have "2 * (of_nat m * of_nat b) \<le> 2 * of_nat a + (of_nat b :: rat)" "2 * of_nat a \<le> 2 * (of_nat m * of_nat b) + (of_nat b :: rat)"
    by simp_all
  then have "\<bar>(of_nat m :: rat) * of_nat b - of_nat a\<bar> \<le> of_nat b / 2"
    by linarith
  then have "\<bar>(of_nat m :: rat) - of_nat a / of_nat b\<bar> \<le> 1 / 2"
    using v(1) by (simp add: abs_le_iff field_simps)
  also have "\<dots> \<le> of_nat a / of_nat b / 2 ^ 24"
  proof -
    have "(of_nat (2 ^ 23 * b) :: rat) \<le> of_nat a"
      using r by (simp only: of_nat_le_iff)
    then show ?thesis
      using v(1) by (simp add: field_simps)
  qed
  finally have "\<bar>of_nat m - of_nat n / of_nat d * two_pow s\<bar> * two_pow (- s) \<le> of_nat n / of_nat d * two_pow s / 2 ^ 24 * two_pow (- s)"
    unfolding v(2) by (intro mult_right_mono) (simp_all add: less_imp_le)
  moreover have "\<bar>of_nat m - of_nat n / of_nat d * two_pow s\<bar> * two_pow (- s) = \<bar>of_nat m * two_pow (- s) - of_nat n / of_nat d\<bar>"
    using two_pow_cancel [of s] by (simp add: abs_mult_pos' left_diff_distrib mult.assoc abs_mult_pos less_imp_le)
  moreover have "of_nat n / of_nat d * two_pow s / 2 ^ 24 * two_pow (- s) = of_nat n / of_nat d / (2 ^ 24 :: rat)"
    using two_pow_cancel [of s] by simp
  ultimately have "\<bar>of_nat m * two_pow (- s) - of_nat n / of_nat d\<bar> \<le> of_nat n / of_nat d / (2 ^ 24 :: rat)"
    by (simp only:)
  then show ?thesis
    by (simp only: fl_quot_val [OF assms] s_def m_def)
qed

lemma fl_quot_le_1:
  assumes "fl_normal n d" "n \<le> d"
  shows "fl_val (fl_quot n d) \<le> 1"
proof -
  define s where "s = shift_of n d"
  have nd: "0 < n" "0 < d"
    using assms by (simp_all add: fl_normal_def)
  obtain a b where ab: "scaled n d s = (a, b)"
    by force
  note v = scaled_val [OF nd(2) ab]
  have r: "2 ^ 23 * b \<le> a"
    using shift_range [OF nd] ab by (simp add: s_def)
  have s: "0 \<le> s"
  proof (rule ccontr)
    assume "\<not> 0 \<le> s"
    then have "a = n" "b = d * 2 ^ nat (- s)"
      using ab by (simp_all add: scaled_def)
    moreover have "d * 1 \<le> d * 2 ^ nat (- s)"
      by (intro mult_le_mono) simp_all
    ultimately have "2 ^ 23 * d \<le> n"
      using r by (metis le_trans mult.right_neutral mult_le_mono2)
    with assms(2) nd show False
      by simp
  qed
  then have "a = n * 2 ^ nat s" "b = d"
    using ab by (simp_all add: scaled_def)
  then have "a \<le> 2 ^ nat s * b"
    using assms(2) by simp
  then have "mant_of n d \<le> 2 ^ nat s"
    using round_even_bounds(4) [OF v(1)] ab by (simp add: mant_of_def s_def)
  then have "(of_nat (mant_of n d) :: rat) \<le> of_nat (2 ^ nat s)"
    by (simp only: of_nat_le_iff)
  then have "(of_nat (mant_of n d) :: rat) \<le> two_pow s"
    using s by (simp add: two_pow_def)
  then have "of_nat (mant_of n d) * two_pow (- s) \<le> two_pow s * two_pow (- s)"
    by (intro mult_right_mono) (simp_all add: less_imp_le)
  then show ?thesis
    unfolding fl_quot_val [OF assms(1)] two_pow_cancel by (simp add: s_def)
qed

text \<open>The range of the normal numbers, generously.\<close>

lemma two_pow_mono: "s \<le> t \<Longrightarrow> two_pow s \<le> two_pow t"
proof -
  assume "s \<le> t"
  then have "1 \<le> two_pow (t - s)"
    by (simp add: two_pow_def)
  then have "two_pow s * 1 \<le> two_pow s * two_pow (t - s)"
    by (intro mult_left_mono) (simp_all add: less_imp_le)
  then show ?thesis
    by (simp flip: two_pow_add)
qed

lemma fl_normalI:
  assumes "0 < n" "0 < d" "1 / 2 ^ 100 \<le> (of_nat n :: rat) / of_nat d" "(of_nat n :: rat) / of_nat d \<le> 2 ^ 75"
  shows "fl_normal n d"
proof -
  define s where "s = shift_of n d"
  obtain a b where ab: "scaled n d s = (a, b)"
    by force
  note v = scaled_val [OF assms(2) ab]
  have "2 ^ 23 * b \<le> a" "a < 2 ^ 24 * b"
    using shift_range [OF assms(1,2)] ab by (simp_all add: s_def)
  then have "(of_nat (2 ^ 23 * b) :: rat) \<le> of_nat a" "(of_nat a :: rat) < of_nat (2 ^ 24 * b)"
    by (simp_all only: of_nat_le_iff of_nat_less_iff)
  then have r: "2 ^ 23 \<le> (of_nat n :: rat) / of_nat d * two_pow s" "(of_nat n :: rat) / of_nat d * two_pow s < 2 ^ 24"
    unfolding v(2) [symmetric] using v(1) by (simp_all add: field_simps)
  have "s \<le> 149"
  proof (rule ccontr)
    assume "\<not> s \<le> 149"
    then have "two_pow 150 \<le> two_pow s"
      by (intro two_pow_mono) simp
    then have "1 / 2 ^ 100 * two_pow 150 \<le> (of_nat n :: rat) / of_nat d * two_pow s"
      using assms(3) by (intro mult_mono) (simp_all add: less_imp_le)
    with r(2) show False
      by (simp add: two_pow_def)
  qed
  moreover have "- 103 \<le> s"
  proof (rule ccontr)
    assume "\<not> - 103 \<le> s"
    then have "two_pow s \<le> two_pow (- 104)"
      by (intro two_pow_mono) simp
    then have "(of_nat n :: rat) / of_nat d * two_pow s \<le> 2 ^ 75 * two_pow (- 104)"
      using assms(4) by (intro mult_mono) (simp_all add: less_imp_le)
    moreover have "2 ^ 75 * two_pow (- 104) < 2 ^ 23"
      by (simp add: two_pow_def)
    ultimately show False
      using r(1) by linarith
  qed
  ultimately show ?thesis
    using assms by (simp add: fl_normal_def s_def)
qed

lemma fl_quot_0 [simp]: "0 < d \<Longrightarrow> fl_quot 0 d = 0" "fl_val 0 = 0"
  by (simp_all add: fl_quot_def fl_val_def fl_frac_def)

lemma fl_trunc_bounds: "of_nat (fl_trunc w) \<le> fl_val w" "fl_val w < of_nat (fl_trunc w) + 1"
proof -
  obtain n d where f: "fl_frac w = (n, d)"
    by force
  have d: "0 < d"
    using f scaled_val(1) [of 1 "fl_mant w" "fl_exp w - 150"] by (auto simp: fl_frac_def split: if_splits)
  have "n div d * d \<le> n" "n < (n div d + 1) * d"
    using d by (simp_all add: dividend_less_div_times div_times_less_eq_dividend)
  then have "(of_nat (n div d * d) :: rat) \<le> of_nat n" "(of_nat n :: rat) < of_nat ((n div d + 1) * d)"
    by (simp_all only: of_nat_le_iff of_nat_less_iff)
  with d show "of_nat (fl_trunc w) \<le> fl_val w" "fl_val w < of_nat (fl_trunc w) + 1"
    by (simp_all add: fl_trunc_def fl_val_def f field_simps)
qed

text \<open>A number in the unit interval, times 10000, truncated, and divided again.\<close>

lemma fl_times_error:
  assumes "0 < k" "k \<le> 2 ^ 16" "fl_val w = 0 \<or> (1 / 2 ^ 50 \<le> fl_val w \<and> fl_val w \<le> 1)"
  shows "\<bar>fl_val (fl_times w k) - fl_val w * of_nat k\<bar> \<le> fl_val w * of_nat k / 2 ^ 24"
proof -
  obtain n d where f: "fl_frac w = (n, d)"
    by force
  have d: "0 < d"
    using f scaled_val(1) [of 1 "fl_mant w" "fl_exp w - 150"] by (auto simp: fl_frac_def split: if_splits)
  have w: "fl_val w = of_nat n / of_nat d"
    by (simp add: fl_val_def f)
  show ?thesis
  proof (cases "n = 0")
    case True
    with d w f show ?thesis
      by (simp add: fl_times_def)
  next
    case False
    then have "fl_val w \<noteq> 0"
      using d w by simp
    with assms(3) have b: "1 / 2 ^ 50 \<le> fl_val w" "fl_val w \<le> 1"
      by simp_all
    have e: "(of_nat (n * k) :: rat) / of_nat d = fl_val w * of_nat k"
      by (simp add: w)
    have k: "1 \<le> (of_nat k :: rat)" "(of_nat k :: rat) \<le> 2 ^ 16"
    proof -
      show "1 \<le> (of_nat k :: rat)"
        using assms(1) by (metis Suc_leI of_nat_1 of_nat_le_iff One_nat_def)
      have "(of_nat k :: rat) \<le> of_nat (2 ^ 16)"
        using assms(2) by (simp only: of_nat_le_iff)
      then show "(of_nat k :: rat) \<le> 2 ^ 16"
        by simp
    qed
    have "1 / 2 ^ 50 * 1 \<le> fl_val w * of_nat k" "fl_val w * of_nat k \<le> 1 * 2 ^ 16"
      using b k by (intro mult_mono; simp)+
    then have "fl_normal (n * k) d"
      using False assms(1) d by (intro fl_normalI) (simp_all only: e, simp_all)
    from fl_quot_error [OF this] show ?thesis
      unfolding e by (simp add: fl_times_def f)
  qed
qed

end
