(* ===== verification/Strength_Vector.thy ===== *)
theory Strength_Vector
  imports Float32 "HOL-Library.Signed_Division"
begin

text \<open>
  The link strengths of \<^verbatim>\<open>strength-vector.c\<close>: the node counts the beacons it receives from every node; the
  strength of a node is its count over the highest beacon sequence number seen.  \<^verbatim>\<open>int\<close> has the 16 bits of the target:
  an \<^verbatim>\<open>int\<close> is an \<open>int\<close> here, and an operation that leaves its range is \<open>None\<close>, like an access out of
  bounds.  The array of floats and the array of counters have \<^verbatim>\<open>MAX_EXPECTED_NODES_IN_NETWORK\<close> entries.  The
  debugging output and its counter are left out.
\<close>

section \<open>Definitions\<close>

definition MAX_EXPECTED_NODES_IN_NETWORK :: nat where
  "MAX_EXPECTED_NODES_IN_NETWORK = 30"

record beacon =
  b_nodeID :: int
  b_seq :: int

record strengths =
  strength_vector :: "float32 list"
  receivedCounter :: "int list"
  highestSequence :: int
  highestNodeID :: int

definition chk_int :: "int \<Rightarrow> int option" where
  "chk_int x = (if - (2 ^ 15) \<le> x \<and> x < 2 ^ 15 then Some x else None)"

definition rd_i :: "'a list \<Rightarrow> int \<Rightarrow> 'a option" where
  "rd_i xs i = (if i < 0 then None else rd xs (nat i))"

definition wr_i :: "'a list \<Rightarrow> int \<Rightarrow> 'a \<Rightarrow> 'a list option" where
  "wr_i xs i v = (if i < 0 then None else wr xs (nat i) v)"

text \<open>The loop over the strengths; counters and the highest sequence number are never negative.\<close>

fun update_strengths :: "int list \<Rightarrow> int \<Rightarrow> int list \<Rightarrow> float32 list \<Rightarrow> float32 list option" where
  "update_strengths counters hs [] sv = Some sv"
| "update_strengths counters hs (i # is) sv = do {
     c \<leftarrow> rd_i counters i;
     sv \<leftarrow> wr_i sv i (fl_quot (nat c) (nat hs));
     update_strengths counters hs is sv
   }"

definition onReceivedNewBeacon :: "strengths \<Rightarrow> beacon \<Rightarrow> strengths option" where
  "onReceivedNewBeacon s b = do {
     let hs = (if highestSequence s < b_seq b then b_seq b else highestSequence s);
     let hn = (if highestNodeID s < b_nodeID b then b_nodeID b else highestNodeID s);
     c \<leftarrow> rd_i (receivedCounter s) (b_nodeID b);
     c \<leftarrow> chk_int (c + 1);
     cs \<leftarrow> wr_i (receivedCounter s) (b_nodeID b) c;
     sv \<leftarrow> update_strengths cs hs [1 .. hn] (strength_vector s);
     Some (s\<lparr>strength_vector := sv, receivedCounter := cs, highestSequence := hs, highestNodeID := hn\<rparr>)
   }"

definition set_own_node_id_as_highest :: "strengths \<Rightarrow> int \<Rightarrow> strengths" where
  "set_own_node_id_as_highest s i = s\<lparr>highestNodeID := i\<rparr>"

definition getStrengthByNodeID :: "strengths \<Rightarrow> int \<Rightarrow> float32 option" where
  "getStrengthByNodeID s nodeID = rd_i (strength_vector s) nodeID"

text \<open>\<^verbatim>\<open>neighbor_discovery_input\<close> of \<^verbatim>\<open>master-routing.c\<close>: the two bytes become an \<^verbatim>\<open>int\<close>.\<close>

definition neighbor_discovery_input :: "strengths \<Rightarrow> u8 list \<Rightarrow> u8 list \<Rightarrow> strengths option" where
  "neighbor_discovery_input s data src = do {
     bs \<leftarrow> rd_n data 0 2;
     eb_beacon_seq \<leftarrow> of_le16 bs;
     a \<leftarrow> rd src 0;
     onReceivedNewBeacon s \<lparr>b_nodeID = uint a, b_seq = sint eb_beacon_seq\<rparr>
   }"

text \<open>A float that is converted to \<^verbatim>\<open>uint16_t\<close>: defined when it fits.\<close>

definition fl_to_u16 :: "float32 \<Rightarrow> u16 option" where
  "fl_to_u16 w = (if fl_trunc w < 2 ^ 16 then Some (of_nat (fl_trunc w)) else None)"

fun send_strengths :: "float32 list \<Rightarrow> int list \<Rightarrow> u8 list \<Rightarrow> nat \<Rightarrow> (u8 list \<times> nat) option" where
  "send_strengths sv [] data index = Some (data, index)"
| "send_strengths sv (i # is) data index = do {
     x \<leftarrow> rd_i sv i;
     v \<leftarrow> fl_to_u16 (fl_times x 10000);
     data \<leftarrow> wr_n data index [of_int i];
     data \<leftarrow> wr_n data (index + 1) (le16 v);
     send_strengths sv is data (index + 3)
   }"

definition prepareStrengthVectorToSend :: "strengths \<Rightarrow> u8 list \<Rightarrow> (u8 list \<times> u8) option" where
  "prepareStrengthVectorToSend s data = do {
     data \<leftarrow> wr data 0 (of_int (highestNodeID s));
     (data, index) \<leftarrow> send_strengths (strength_vector s) [1 .. highestNodeID s] data 1;
     Some (data, of_nat index)
   }"

section \<open>Counting beacons\<close>

lemma rd_i_in: "0 \<le> i \<Longrightarrow> nat i < length xs \<Longrightarrow> rd_i xs i = Some (xs ! nat i)"
  by (simp add: rd_i_def rd_in)

lemma wr_i_in: "0 \<le> i \<Longrightarrow> nat i < length xs \<Longrightarrow> wr_i xs i v = Some (xs[nat i := v])"
  by (simp add: wr_i_def wr_in)

lemma update_strengths_spec:
  assumes "\<forall>i \<in> set is'. 0 \<le> i \<and> nat i < length cs" "length sv = length cs" "distinct is'"
  shows "\<exists>sv'. update_strengths cs hs is' sv = Some sv' \<and> length sv' = length sv
    \<and> (\<forall>k < length sv. sv' ! k = (if int k \<in> set is' then fl_quot (nat (cs ! k)) (nat hs) else sv ! k))"
  using assms
proof (induction is' arbitrary: sv)
  case (Cons i js)
  let ?sv = "sv[nat i := fl_quot (nat (cs ! nat i)) (nat hs)]"
  obtain sv' where sv': "update_strengths cs hs js ?sv = Some sv'" "length sv' = length ?sv"
    "\<forall>k < length ?sv. sv' ! k = (if int k \<in> set js then fl_quot (nat (cs ! k)) (nat hs) else ?sv ! k)"
    using Cons.IH [of ?sv] Cons.prems by auto
  have "update_strengths cs hs (i # js) sv = Some sv'"
    using Cons.prems sv'(1) by (simp add: rd_i_in wr_i_in)
  moreover have "\<forall>k < length sv. sv' ! k = (if int k \<in> set (i # js) then fl_quot (nat (cs ! k)) (nat hs) else sv ! k)"
    using sv'(2,3) Cons.prems by (auto simp: nth_list_update)
  ultimately show ?case
    using sv'(2) by simp
qed simp

text \<open>The counters agree with the beacons \<open>bs\<close> received so far, and so do the strengths.\<close>

definition received_from :: "beacon list \<Rightarrow> int \<Rightarrow> nat" where
  "received_from bs i = length (filter (\<lambda>b. b_nodeID b = i) bs)"

definition highest_seq :: "beacon list \<Rightarrow> int" where
  "highest_seq bs = fold (\<lambda>b m. max m (b_seq b)) bs 0"

definition sv_inv :: "beacon list \<Rightarrow> strengths \<Rightarrow> bool" where
  "sv_inv bs s \<longleftrightarrow> length (strength_vector s) = MAX_EXPECTED_NODES_IN_NETWORK
     \<and> length (receivedCounter s) = MAX_EXPECTED_NODES_IN_NETWORK
     \<and> 0 \<le> highestNodeID s \<and> highestNodeID s < int MAX_EXPECTED_NODES_IN_NETWORK
     \<and> highestSequence s = highest_seq bs
     \<and> (\<forall>k < MAX_EXPECTED_NODES_IN_NETWORK. receivedCounter s ! k = int (received_from bs (int k)))
     \<and> (\<forall>k < MAX_EXPECTED_NODES_IN_NETWORK. (1 \<le> k \<and> bs \<noteq> [] \<and> int k \<le> highestNodeID s \<longrightarrow>
          strength_vector s ! k = fl_quot (received_from bs (int k)) (nat (highest_seq bs)))
          \<and> (k = 0 \<or> bs = [] \<or> highestNodeID s < int k \<longrightarrow> strength_vector s ! k = 0))
     \<and> (\<forall>b \<in> set bs. b_nodeID b \<le> highestNodeID s)"

definition beacon_ok :: "beacon \<Rightarrow> bool" where
  "beacon_ok b \<longleftrightarrow> 1 \<le> b_nodeID b \<and> b_nodeID b < int MAX_EXPECTED_NODES_IN_NETWORK \<and> b_seq b < 2 ^ 15"

definition sv_initial :: "int \<Rightarrow> strengths" where
  "sv_initial own = set_own_node_id_as_highest \<lparr>strength_vector = replicate MAX_EXPECTED_NODES_IN_NETWORK 0,
     receivedCounter = replicate MAX_EXPECTED_NODES_IN_NETWORK 0, highestSequence = 0, highestNodeID = 0\<rparr> own"

fun sv_run :: "strengths \<Rightarrow> beacon list \<Rightarrow> strengths option" where
  "sv_run s [] = Some s"
| "sv_run s (b # bs) = do { s \<leftarrow> onReceivedNewBeacon s b; sv_run s bs }"

lemma received_from_snoc: "received_from (bs @ [b]) i = received_from bs i + (if b_nodeID b = i then 1 else 0)"
  by (simp add: received_from_def)

lemma highest_seq_snoc: "highest_seq (bs @ [b]) = max (highest_seq bs) (b_seq b)"
  by (simp add: highest_seq_def)

lemma highest_seq_ge: "b \<in> set bs \<Longrightarrow> b_seq b \<le> highest_seq bs"
  by (induction bs rule: rev_induct) (auto simp: highest_seq_snoc)

lemma beacon_step:
  assumes inv: "sv_inv bs s" and b: "beacon_ok b" and few: "length bs < 2 ^ 15 - 1"
  shows "\<exists>s'. onReceivedNewBeacon s b = Some s' \<and> sv_inv (bs @ [b]) s' \<and> highestNodeID s' = max (highestNodeID s) (b_nodeID b)"
proof -
  let ?n = "nat (b_nodeID b)" and ?M = MAX_EXPECTED_NODES_IN_NETWORK
  have n: "?n < ?M" "1 \<le> ?n" "int ?n = b_nodeID b"
    using b by (auto simp: beacon_ok_def)
  have len: "length (receivedCounter s) = ?M" "length (strength_vector s) = ?M"
    and cnt: "\<And>k. k < ?M \<Longrightarrow> receivedCounter s ! k = int (received_from bs (int k))"
    and hi: "0 \<le> highestNodeID s" "highestNodeID s < int ?M" "highestSequence s = highest_seq bs"
    using inv by (simp_all add: sv_inv_def)
  have "received_from bs (b_nodeID b) \<le> length bs"
    by (simp add: received_from_def)
  then have c: "chk_int (receivedCounter s ! ?n + 1) = Some (int (received_from (bs @ [b]) (b_nodeID b)))"
    using few cnt [OF n(1)] n(3) by (simp add: chk_int_def received_from_snoc)
  define cs where "cs = (receivedCounter s)[?n := int (received_from (bs @ [b]) (b_nodeID b))]"
  have cs: "cs ! k = int (received_from (bs @ [b]) (int k))" if "k < ?M" for k
    using cnt [OF that] that n len by (auto simp: cs_def nth_list_update received_from_snoc)
  have lcs: "length cs = ?M"
    by (simp add: cs_def len)
  define hn where "hn = max (highestNodeID s) (b_nodeID b)"
  have hn: "0 \<le> hn" "hn < int ?M"
    using hi b by (auto simp: hn_def beacon_ok_def)
  define hs where "hs = highest_seq (bs @ [b])"
  have "\<forall>i \<in> set [1 .. hn]. 0 \<le> i \<and> nat i < length cs"
    using hn lcs by auto
  then obtain sv where sv: "update_strengths cs hs [1 .. hn] (strength_vector s) = Some sv" "length sv = ?M"
    "\<And>k. k < ?M \<Longrightarrow> sv ! k = (if 1 \<le> int k \<and> int k \<le> hn then fl_quot (nat (cs ! k)) (nat hs) else strength_vector s ! k)"
    using update_strengths_spec [of "[1 .. hn]" cs "strength_vector s" hs] lcs len by auto
  define s' where "s' = s\<lparr>strength_vector := sv, receivedCounter := cs, highestSequence := hs, highestNodeID := hn\<rparr>"
  have "onReceivedNewBeacon s b = Some s'"
  proof -
    have "(if highestSequence s < b_seq b then b_seq b else highestSequence s) = hs"
      by (simp add: hs_def highest_seq_snoc hi(3) max_def)
    moreover have "(if highestNodeID s < b_nodeID b then b_nodeID b else highestNodeID s) = hn"
      by (simp add: hn_def max_def)
    ultimately show ?thesis
      using n c sv(1) b len by (simp add: onReceivedNewBeacon_def rd_i_in wr_i_in beacon_ok_def s'_def flip: cs_def)
  qed
  moreover have "sv_inv (bs @ [b]) s'"
  proof -
    have "strength_vector s ! k = 0" if "k < ?M" "k = 0 \<or> hn < int k" for k
      using inv that by (auto simp: sv_inv_def hn_def)
    moreover have "\<forall>x \<in> set (bs @ [b]). b_nodeID x \<le> hn"
      using inv by (auto simp: sv_inv_def hn_def le_max_iff_disj)
    ultimately show ?thesis
      using sv cs lcs hn by (auto simp: sv_inv_def s'_def hs_def)
  qed
  ultimately show ?thesis
    by (auto simp: s'_def hn_def)
qed

lemma sv_initial_inv: "0 \<le> own \<Longrightarrow> own < int MAX_EXPECTED_NODES_IN_NETWORK \<Longrightarrow> sv_inv [] (sv_initial own)"
  by (simp add: sv_inv_def sv_initial_def set_own_node_id_as_highest_def highest_seq_def received_from_def)

lemma sv_run_inv:
  "sv_inv bs s \<Longrightarrow> \<forall>b \<in> set bs'. beacon_ok b \<Longrightarrow> length (bs @ bs') < 2 ^ 15 \<Longrightarrow>
   \<exists>s'. sv_run s bs' = Some s' \<and> sv_inv (bs @ bs') s' \<and> highestNodeID s' = fold (\<lambda>b m. max m (b_nodeID b)) bs' (highestNodeID s)"
proof (induction bs' arbitrary: bs s)
  case (Cons b bs')
  obtain s1 where s1: "onReceivedNewBeacon s b = Some s1" "sv_inv (bs @ [b]) s1" "highestNodeID s1 = max (highestNodeID s) (b_nodeID b)"
    using beacon_step [OF Cons.prems(1), of b] Cons.prems(2,3) by auto
  from Cons.IH [OF s1(2)] Cons.prems(2,3) s1(1,3) show ?case
    by auto
qed simp

section \<open>Strengths are reception ratios\<close>

lemma ratio_normal:
  assumes "0 < n" "n < 2 ^ 16" "0 < d" "d < 2 ^ 16"
  shows "fl_normal n d"
proof -
  have "(of_nat n :: rat) < of_nat (2 ^ 16)" "(of_nat d :: rat) < of_nat (2 ^ 16)"
    using assms by (simp_all only: of_nat_less_iff)
  moreover have "1 \<le> (of_nat n :: rat)" "1 \<le> (of_nat d :: rat)"
    using assms by (simp_all add: Suc_leI)
  ultimately show ?thesis
    using assms by (intro fl_normalI) (simp_all add: field_simps)
qed

lemma strength_value:
  assumes "n < 2 ^ 15" "0 < d" "d < 2 ^ 15"
  shows "\<bar>fl_val (fl_quot n d) - of_nat n / of_nat d\<bar> \<le> of_nat n / of_nat d / 2 ^ 24"
    "n \<le> d \<Longrightarrow> fl_val (fl_quot n d) \<le> 1"
    "n \<noteq> 0 \<Longrightarrow> 1 / 2 ^ 16 \<le> fl_val (fl_quot n d)"
proof -
  have nm: "fl_normal n d" if "n \<noteq> 0"
    using ratio_normal [of n d] assms that by simp
  show err: "\<bar>fl_val (fl_quot n d) - of_nat n / of_nat d\<bar> \<le> of_nat n / of_nat d / 2 ^ 24"
    using fl_quot_error [OF nm] assms by (cases "n = 0") simp_all
  show "n \<le> d \<Longrightarrow> fl_val (fl_quot n d) \<le> 1"
    using fl_quot_le_1 [OF nm] assms by (cases "n = 0") simp_all
  assume n: "n \<noteq> 0"
  have d: "(of_nat d :: rat) < of_nat (2 ^ 15)"
    using assms by (simp only: of_nat_less_iff)
  moreover have "1 \<le> (of_nat n :: rat)"
    using n by (simp add: Suc_leI)
  ultimately have "1 / 2 ^ 15 \<le> (of_nat n :: rat) / of_nat d"
    using assms(2) by (simp add: field_simps)
  moreover have "of_nat n / of_nat d - of_nat n / of_nat d / (2 ^ 24 :: rat) \<le> fl_val (fl_quot n d)"
    using err by linarith
  ultimately show "1 / 2 ^ 16 \<le> fl_val (fl_quot n d)"
    by simp
qed

lemma card_seqs:
  assumes "distinct (map b_seq bs)" "\<forall>b \<in> set bs. 0 < b_seq b \<and> b_seq b \<le> m"
  shows "int (length bs) \<le> m \<or> bs = []"
proof -
  have "set (map b_seq bs) \<subseteq> {1 .. m}"
    using assms(2) by auto
  then have "card (set (map b_seq bs)) \<le> card {1 .. m}"
    by (intro card_mono) simp_all
  then have "length bs \<le> nat m"
    using distinct_card [OF assms(1)] by simp
  then show ?thesis
    by (cases bs) auto
qed



section \<open>Sending the strengths\<close>

text \<open>The value of one node, as sent and as read back by the receiver (\<^verbatim>\<open>value / 10000.0\<close>).\<close>

definition sent_value :: "float32 \<Rightarrow> nat" where
  "sent_value x = fl_trunc (fl_times x 10000)"

definition read_value :: "nat \<Rightarrow> float32" where
  "read_value v = fl_quot v 10000"

definition unit_strength :: "float32 \<Rightarrow> bool" where
  "unit_strength x \<longleftrightarrow> fl_val x = 0 \<or> (1 / 2 ^ 50 \<le> fl_val x \<and> fl_val x \<le> 1)"

lemma sent_value_error:
  assumes "unit_strength x"
  shows "\<bar>of_nat (sent_value x) - fl_val x * 10000\<bar> \<le> 1 + 1 / 2 ^ 10" "sent_value x \<le> 10001"
proof -
  let ?y = "fl_times x 10000"
  have x: "0 \<le> fl_val x" "fl_val x \<le> 1"
    using assms by (auto simp: unit_strength_def intro: order_trans)
  have e: "\<bar>fl_val ?y - fl_val x * 10000\<bar> \<le> fl_val x * 10000 / 2 ^ 24"
    using fl_times_error [of 10000 x] assms by (simp add: unit_strength_def)
  have "fl_val x * 10000 / 2 ^ 24 \<le> 1 / 2 ^ 10"
    using x by simp
  with e have e: "\<bar>fl_val ?y - fl_val x * 10000\<bar> \<le> 1 / 2 ^ 10"
    by linarith
  have t: "of_nat (sent_value x) \<le> fl_val ?y" "fl_val ?y < of_nat (sent_value x) + 1"
    using fl_trunc_bounds [of ?y] by (simp_all add: sent_value_def)
  show "\<bar>of_nat (sent_value x) - fl_val x * 10000\<bar> \<le> 1 + 1 / 2 ^ 10"
    using e t by linarith
  have "(1 / 2 ^ 10 :: rat) \<le> 1"
    by simp
  with e t x have "(of_nat (sent_value x) :: rat) \<le> 10001"
    by linarith
  then have "(of_nat (sent_value x) :: rat) \<le> of_nat 10001"
    by simp
  then show "sent_value x \<le> 10001"
    by (simp only: of_nat_le_iff)
qed

lemma read_value_error:
  assumes "unit_strength x"
  shows "\<bar>fl_val (read_value (sent_value x)) - fl_val x\<bar> \<le> 1 / 10000 + 1 / 2 ^ 22"
proof -
  let ?v = "sent_value x"
  have v: "?v \<le> 10001"
    by (rule sent_value_error(2) [OF assms])
  have "\<bar>fl_val (read_value ?v) - of_nat ?v / 10000\<bar> \<le> of_nat ?v / 10000 / 2 ^ 24"
  proof (cases "?v = 0")
    case False
    have "?v < 2 ^ 15"
      using v by simp
    from strength_value(1) [OF this, of 10000] show ?thesis
      by (simp add: read_value_def)
  qed (simp add: read_value_def)
  moreover have "of_nat ?v / 10000 / 2 ^ 24 \<le> (1 / 2 ^ 23 :: rat)"
  proof -
    have "(of_nat ?v :: rat) \<le> of_nat 10001"
      using v by (simp only: of_nat_le_iff)
    then show ?thesis
      by simp
  qed
  moreover have "\<bar>of_nat ?v / 10000 - fl_val x\<bar> \<le> (1 + 1 / 2 ^ 10) / 10000"
    using sent_value_error(1) [OF assms] by (simp add: field_simps abs_le_iff)
  moreover have "1 / 2 ^ 23 + (1 + 1 / 2 ^ 10) / 10000 \<le> (1 / 10000 + 1 / 2 ^ 22 :: rat)"
    by simp
  ultimately show ?thesis
    by linarith
qed

definition strength_entry :: "strengths \<Rightarrow> int \<Rightarrow> u8 list" where
  "strength_entry s i = of_int i # le16 (of_nat (sent_value (strength_vector s ! nat i)))"

lemma send_strengths_spec:
  assumes "\<forall>i \<in> set is'. 0 \<le> i \<and> nat i < length sv \<and> unit_strength (sv ! nat i)"
    "index + 3 * length is' \<le> length data"
  shows "send_strengths sv is' data index = Some (take index data
      @ concat (map (\<lambda>i. of_int i # le16 (of_nat (sent_value (sv ! nat i)))) is') @ drop (index + 3 * length is') data,
      index + 3 * length is')"
  using assms
proof (induction is' arbitrary: data index)
  case (Cons i js)
  define v where "v = sent_value (sv ! nat i)"
  have i: "rd_i sv i = Some (sv ! nat i)"
    using Cons.prems by (simp add: rd_i_in)
  have "fl_trunc (fl_times (sv ! nat i) 10000) = v" "v \<le> 10001"
    using sent_value_error(2) [of "sv ! nat i"] Cons.prems by (simp_all add: v_def sent_value_def)
  then have v: "fl_to_u16 (fl_times (sv ! nat i) 10000) = Some (of_nat v)"
    by (simp add: fl_to_u16_def)
  define e where "e = (of_int i # le16 (of_nat v) :: u8 list)"
  define data1 where "data1 = take index data @ [of_int i] @ drop (index + 1) data"
  define data2 where "data2 = take index data @ e @ drop (index + 3) data"
  have le: "length e = 3"
    by (simp add: e_def)
  have w1: "wr_n data index [of_int i] = Some data1"
    using Cons.prems by (simp add: wr_n_in data1_def)
  have l1: "length data1 = length data"
    using Cons.prems by (simp add: data1_def)
  have w2: "wr_n data1 (index + 1) (le16 (of_nat v)) = Some data2"
    using Cons.prems by (simp add: wr_n_in l1) (simp add: data1_def data2_def e_def min_def numeral_eq_Suc)
  have l2: "length data2 = length data"
    using Cons.prems le by (simp add: data2_def)
  have "send_strengths sv js data2 (index + 3) = Some (take (index + 3) data2
      @ concat (map (\<lambda>i. of_int i # le16 (of_nat (sent_value (sv ! nat i)))) js) @ drop (index + 3 + 3 * length js) data2,
      index + 3 + 3 * length js)"
    using Cons.prems l2 by (intro Cons.IH) auto
  moreover have "take (index + 3) data2 = take index data @ e"
    using Cons.prems le by (simp add: data2_def min_def)
  moreover have a: "index + 3 * length (i # js) = index + 3 + 3 * length js"
    by simp
  have "drop (index + 3 + 3 * length js) data2 = drop (index + 3 + 3 * length js) data"
    using Cons.prems le by (simp add: data2_def min_def ac_simps)
  then have "drop (index + 3 + 3 * length js) data2 = drop (index + 3 * length (i # js)) data"
    unfolding a .
  ultimately show ?case
    using i v w1 w2 by (simp add: v_def e_def ac_simps)
qed simp

text \<open>Too many nodes: the write past the end of the array is reached.\<close>

lemma send_strengths_overflow:
  assumes "length data < index + 3 * length is'" "index \<le> length data"
  shows "send_strengths sv is' data index = None"
  using assms
proof (induction is' arbitrary: data index)
  case (Cons i js)
  show ?case
  proof (cases "send_strengths sv (i # js) data index")
    case (Some r)
    then obtain x v data1 data2 where r: "wr_n data index [of_int i] = Some data1" "wr_n data1 (index + 1) (le16 v) = Some data2"
      "send_strengths sv js data2 (index + 3) = Some r"
      by (auto simp: bind_eq_Some)
    have l: "length data1 = length data" "length data2 = length data" "index + 3 \<le> length data"
      using wr_n_length [OF r(1)] wr_n_length [OF r(2)] r(2) by (auto simp: wr_n_def split: if_splits)
    with Cons.IH [of data2 "index + 3"] Cons.prems r(3) show ?thesis
      by simp
  qed
qed simp

lemma prepare_spec:
  assumes h: "0 \<le> highestNodeID s" "highestNodeID s < int (length (strength_vector s))"
    and u: "\<forall>i \<in> {1 .. highestNodeID s}. unit_strength (strength_vector s ! nat i)"
    and l: "1 + 3 * nat (highestNodeID s) \<le> length data"
  shows "prepareStrengthVectorToSend s data = Some (of_int (highestNodeID s) # concat (map (strength_entry s) [1 .. highestNodeID s])
      @ drop (1 + 3 * nat (highestNodeID s)) data, of_nat (1 + 3 * nat (highestNodeID s)))"
proof -
  let ?h = "highestNodeID s" and ?data = "data[0 := of_int (highestNodeID s)]"
  have len: "length [1 .. ?h] = nat ?h"
    by simp
  have w: "wr data 0 (of_int ?h) = Some ?data"
    using l by (cases data) (simp_all add: wr_in)
  have "send_strengths (strength_vector s) [1 .. ?h] ?data 1 = Some (take 1 ?data
      @ concat (map (\<lambda>i. of_int i # le16 (of_nat (sent_value (strength_vector s ! nat i)))) [1 .. ?h])
      @ drop (1 + 3 * length [1 .. ?h]) ?data, 1 + 3 * length [1 .. ?h])"
    using h u l len by (intro send_strengths_spec) auto
  moreover have "take 1 ?data = [of_int ?h]" "drop (1 + 3 * nat ?h) ?data = drop (1 + 3 * nat ?h) data"
    using l by (cases data; simp)+
  moreover have "strength_entry s = (\<lambda>i. of_int i # le16 (of_nat (sent_value (strength_vector s ! nat i))))"
    by (simp add: strength_entry_def fun_eq_iff)
  ultimately show ?thesis
    using w len by (simp add: prepareStrengthVectorToSend_def)
qed

lemma prepare_overflow:
  assumes "0 \<le> highestNodeID s" "length data < 1 + 3 * nat (highestNodeID s)"
  shows "prepareStrengthVectorToSend s data = None"
proof (cases data)
  case (Cons x xs)
  have "send_strengths (strength_vector s) [1 .. highestNodeID s] (data[0 := of_int (highestNodeID s)]) 1 = None"
    using assms Cons by (intro send_strengths_overflow) auto
  with Cons show ?thesis
    by (simp add: prepareStrengthVectorToSend_def wr_in)
qed (simp add: prepareStrengthVectorToSend_def wr_out)

section \<open>Printing numbers\<close>

text \<open>
  \<^verbatim>\<open>intToStr\<close>, \<^verbatim>\<open>reverse\<close>, \<^verbatim>\<open>myPow\<close> and \<^verbatim>\<open>ftoa\<close>; a character is its code.
  Division and remainder of \<^verbatim>\<open>int\<close> round towards zero.
\<close>

lemma sdiv_10_decreases: "x \<noteq> 0 \<Longrightarrow> \<bar>x sdiv 10\<bar> < \<bar>x :: int\<bar>"
  by (auto simp: signed_divide_int_def sgn_if abs_if)

function digits_loop :: "int \<Rightarrow> u8 list \<Rightarrow> nat \<Rightarrow> (u8 list \<times> nat) option" where
  "digits_loop x str i = (if x = 0 then Some (str, i) else do {
     str \<leftarrow> wr str i (of_int (x smod 10 + 48));
     digits_loop (x sdiv 10) str (i + 1)
   })"
  by pat_completeness auto

termination
  by (relation "measure (\<lambda>(x, str, i). nat \<bar>x\<bar>)") (simp_all add: sdiv_10_decreases)

declare digits_loop.simps [simp del]

fun pad_zeros :: "nat \<Rightarrow> u8 list \<Rightarrow> nat \<Rightarrow> (u8 list \<times> nat) option" where
  "pad_zeros 0 str i = Some (str, i)"
| "pad_zeros (Suc k) str i = do { str \<leftarrow> wr str i 48; pad_zeros k str (i + 1) }"

function reverse_loop :: "'a list \<Rightarrow> int \<Rightarrow> int \<Rightarrow> 'a list option" where
  "reverse_loop str i j = (if i < j then do {
     a \<leftarrow> rd_i str i;
     b \<leftarrow> rd_i str j;
     str \<leftarrow> wr_i str i b;
     str \<leftarrow> wr_i str j a;
     reverse_loop str (i + 1) (j - 1)
   } else Some str)"
  by pat_completeness auto

termination
  by (relation "measure (\<lambda>(str, i, j). nat (j - i))") simp_all

declare reverse_loop.simps [simp del]

definition reverse :: "'a list \<Rightarrow> int \<Rightarrow> 'a list option" where
  "reverse str len = reverse_loop str 0 (len - 1)"

definition intToStr :: "int \<Rightarrow> u8 list \<Rightarrow> int \<Rightarrow> (u8 list \<times> nat) option" where
  "intToStr x str d = do {
     (str, i) \<leftarrow> digits_loop x str 0;
     (str, i) \<leftarrow> pad_zeros (nat (d - int i)) str i;
     str \<leftarrow> reverse str (int i);
     str \<leftarrow> wr str i 0;
     Some (str, i)
   }"

text \<open>\<open>p\<close> is not negative where it is called.\<close>

fun myPow :: "int \<Rightarrow> nat \<Rightarrow> int \<Rightarrow> int option" where
  "myPow x 0 y = Some y"
| "myPow x (Suc p) y = do { y \<leftarrow> chk_int (y * x); myPow x p y }"

text \<open>
  \<^verbatim>\<open>n - (float)ipart\<close> is exact: the fractional part of a 24-bit number has at most 24 bits.  The function is called on
  strengths, so zero and the positive normal numbers are covered.
\<close>

definition ftoa :: "float32 \<Rightarrow> u8 list \<Rightarrow> nat \<Rightarrow> u8 list option" where
  "ftoa n res afterpoint = do {
     let (a, b) = fl_frac n;
     ipart \<leftarrow> chk_int (int (a div b));
     (res, i) \<leftarrow> intToStr ipart res 0;
     if afterpoint \<noteq> 0 then do {
       res \<leftarrow> wr res i 46;
       p \<leftarrow> myPow 10 afterpoint 1;
       f \<leftarrow> chk_int (int (fl_trunc (fl_quot ((a mod b) * nat p) b)));
       (tl, _) \<leftarrow> intToStr f (drop (i + 1) res) (int afterpoint);
       Some (take (i + 1) res @ tl)
     } else Some res
   }"

definition printFLoat :: "float32 \<Rightarrow> u8 list option" where
  "printFLoat value = do {
     res \<leftarrow> ftoa value (replicate 50 0) 3;
     Some (takeWhile (\<lambda>c. c \<noteq> 0) res)
   }"

lemma reverse_loop_spec:
  assumes "0 \<le> i" "j < int (length str)"
  shows "\<exists>str'. reverse_loop str i j = Some str' \<and> length str' = length str
    \<and> (\<forall>k < length str. str' ! k = (if i \<le> int k \<and> int k \<le> j then str ! nat (i + j - int k) else str ! k))"
  using assms
proof (induction str i j rule: reverse_loop.induct)
  case (1 str i j)
  show ?case
  proof (cases "i < j")
    case False
    then have "reverse_loop str i j = Some str"
      by (simp add: reverse_loop.simps [of str])
    moreover have "nat (i + j - int k) = k" if "i \<le> int k" "int k \<le> j" for k
    proof -
      have "i + j - int k = int k"
        using False that by linarith
      then show ?thesis
        by simp
    qed
    ultimately show ?thesis
      by auto
  next
    case True
    let ?a = "str ! nat i" and ?b = "str ! nat j"
    let ?str = "str[nat i := ?b, nat j := ?a]"
    have in_range: "0 \<le> i" "nat i < length str" "0 \<le> j" "nat j < length str"
      using 1(2,3) True by auto
    have step: "reverse_loop str i j = reverse_loop ?str (i + 1) (j - 1)"
      using True in_range by (subst reverse_loop.simps) (simp add: rd_i_in wr_i_in)
    have "\<exists>str'. reverse_loop ?str (i + 1) (j - 1) = Some str' \<and> length str' = length ?str
        \<and> (\<forall>k < length ?str. str' ! k = (if i + 1 \<le> int k \<and> int k \<le> j - 1 then ?str ! nat (i + 1 + (j - 1) - int k) else ?str ! k))"
      by (rule 1(1) [OF True rd_i_in rd_i_in wr_i_in wr_i_in]) (use True in_range in simp_all)
    then obtain str' where str': "reverse_loop ?str (i + 1) (j - 1) = Some str'" "length str' = length str"
      "\<And>k. k < length str \<Longrightarrow> str' ! k = (if i + 1 \<le> int k \<and> int k \<le> j - 1 then ?str ! nat (i + j - int k) else ?str ! k)"
      by (auto simp: add.commute)
    have "str' ! k = (if i \<le> int k \<and> int k \<le> j then str ! nat (i + j - int k) else str ! k)" if "k < length str" for k
    proof -
      consider "int k = i" | "int k = j" | "i + 1 \<le> int k" "int k \<le> j - 1" | "int k < i \<or> j < int k"
        by linarith
      then show ?thesis
      proof cases
        case 1
        then have "str' ! k = ?str ! k" "nat i = k" "k \<noteq> nat j" "i + j - int k = j" "i \<le> int k" "int k \<le> j"
          using str'(3) [OF that] True by auto
        with that show ?thesis
          by simp
      next
        case 2
        then have "str' ! k = ?str ! k" "nat j = k" "i + j - int k = i" "i \<le> int k" "int k \<le> j"
          using str'(3) [OF that] True by auto
        with that show ?thesis
          by simp
      next
        case 3
        then have "nat (i + j - int k) \<noteq> nat i" "nat (i + j - int k) \<noteq> nat j"
          using in_range by auto
        with 3 str'(3) [OF that] show ?thesis
          by simp
      next
        case 4
        then have "int k \<noteq> i" "int k \<noteq> j" and ends: "\<not> (i + 1 \<le> int k \<and> int k \<le> j - 1)" "\<not> (i \<le> int k \<and> int k \<le> j)"
          using True by linarith+
        then have "k \<noteq> nat i" "k \<noteq> nat j"
          using in_range True by linarith+
        with ends str'(3) [OF that] show ?thesis
          by (simp only: if_False nth_list_update_neq not_sym if_not_P)
      qed
    qed
    with step str'(1,2) show ?thesis
      by auto
  qed
qed

lemma reverse_spec:
  assumes "n \<le> length str"
  shows "reverse str (int n) = Some (rev (take n str) @ drop n str)"
proof -
  obtain str' where str': "reverse_loop str 0 (int n - 1) = Some str'" "length str' = length str"
    "\<forall>k < length str. str' ! k = (if 0 \<le> int k \<and> int k \<le> int n - 1 then str ! nat (0 + (int n - 1) - int k) else str ! k)"
    using reverse_loop_spec [of 0 "int n - 1" str] assms by auto
  have "str' = rev (take n str) @ drop n str"
  proof (rule nth_equalityI)
    show "length str' = length (rev (take n str) @ drop n str)"
      using str'(2) assms by simp
    fix k
    assume "k < length str'"
    then have k: "k < length str"
      using str'(2) by simp
    have "str' ! k = (if k < n then str ! (n - 1 - k) else str ! k)"
      using str'(3) k by (auto simp: nat_diff_distrib')
    with k assms show "str' ! k = (rev (take n str) @ drop n str) ! k"
      by (auto simp: nth_append rev_nth min_def)
  qed
  with str'(1) show ?thesis
    by (simp add: reverse_def)
qed

text \<open>The digits of a number, the last one first, and the number a digit string stands for.\<close>

fun digits :: "nat \<Rightarrow> nat list" where
  "digits n = (if n = 0 then [] else n mod 10 # digits (n div 10))"

declare digits.simps [simp del]

definition parse_digits :: "u8 list \<Rightarrow> nat" where
  "parse_digits cs = foldl (\<lambda>v c. 10 * v + (unat c - 48)) 0 cs"

definition digit_char :: "nat \<Rightarrow> u8" where
  "digit_char k = of_nat (k + 48)"

lemma digits_loop_spec:
  "i + length (digits n) \<le> length str \<Longrightarrow>
   digits_loop (int n) str i = Some (take i str @ map digit_char (digits n) @ drop (i + length (digits n)) str, i + length (digits n))"
proof (induction n arbitrary: str i rule: digits.induct)
  case (1 n)
  show ?case
  proof (cases "n = 0")
    case True
    then show ?thesis
      by (simp add: digits_loop.simps [of 0] digits.simps [of 0])
  next
    case False
    have d: "digits n = n mod 10 # digits (n div 10)"
      using False by (simp add: digits.simps [of n])
    have i: "i < length str"
      using 1(2) d by simp
    have q: "int n smod 10 = int (n mod 10)" "int n sdiv 10 = int (n div 10)"
      using False by (simp_all add: signed_modulo_int_def signed_divide_int_def zmod_int zdiv_int)
    let ?str = "str[i := digit_char (n mod 10)]"
    have "digits_loop (int n) str i = digits_loop (int (n div 10)) ?str (i + 1)"
      using False i by (simp add: digits_loop.simps [of "int n"] q wr_in digit_char_def)
    also have "\<dots> = Some (take (i + 1) ?str @ map digit_char (digits (n div 10)) @ drop (i + 1 + length (digits (n div 10))) ?str,
        i + 1 + length (digits (n div 10)))"
      using False 1(2) d by (intro 1(1)) simp_all
    finally show ?thesis
      using i by (simp add: d take_Suc_conv_app_nth)
  qed
qed

lemma pad_zeros_spec:
  "i + k \<le> length str \<Longrightarrow> pad_zeros k str i = Some (take i str @ replicate k 48 @ drop (i + k) str, i + k)"
proof (induction k arbitrary: str i)
  case (Suc k)
  then have "pad_zeros k (str[i := 48]) (i + 1) = Some (take (i + 1) (str[i := 48]) @ replicate k 48 @ drop (i + 1 + k) (str[i := 48]), i + 1 + k)"
    by (intro Suc.IH) simp
  with Suc.prems show ?case
    by (simp add: wr_in take_Suc_conv_app_nth)
qed simp

lemma intToStr_spec:
  assumes "n < 2 ^ 15" "max d (length (digits n)) < length str"
  shows "intToStr (int n) str (int d) = Some (rev (map digit_char (digits n) @ replicate (d - length (digits n)) 48)
      @ [0] @ drop (max d (length (digits n)) + 1) str, max d (length (digits n)))"
proof -
  let ?l = "length (digits n)" and ?k = "max d (length (digits n))"
  define ds where "ds = map digit_char (digits n) @ replicate (d - ?l) 48"
  have l: "length ds = ?k"
    by (simp add: ds_def)
  define s1 where "s1 = map digit_char (digits n) @ drop ?l str"
  have "digits_loop (int n) str 0 = Some (s1, ?l)"
    using digits_loop_spec [of 0 n str] assms by (simp add: s1_def)
  moreover have "pad_zeros (d - ?l) s1 ?l = Some (ds @ drop ?k str, ?k)"
  proof -
    have "pad_zeros (d - ?l) s1 ?l = Some (take ?l s1 @ replicate (d - ?l) 48 @ drop (?l + (d - ?l)) s1, ?l + (d - ?l))"
      using assms by (intro pad_zeros_spec) (auto simp: s1_def)
    moreover have "?l + (d - ?l) = ?k"
      by simp
    ultimately show ?thesis
      by (simp add: s1_def ds_def)
  qed
  moreover have "reverse (ds @ drop ?k str) (int ?k) = Some (rev ds @ drop ?k str)"
    using reverse_spec [of ?k "ds @ drop ?k str"] assms l by simp
  moreover have "wr (rev ds @ drop ?k str) ?k 0 = Some (rev ds @ [0] @ drop (?k + 1) str)"
  proof -
    have "drop ?k str = str ! ?k # drop (?k + 1) str"
      using assms by (simp add: Cons_nth_drop_Suc)
    moreover have "wr (xs @ y # ys) (length xs) v = Some (xs @ v # ys)" for xs y ys and v :: u8
      by (simp add: wr_in)
    ultimately show ?thesis
      using l by (metis append_Cons append_Nil length_rev)
  qed
  moreover have "nat (int d - int ?l) = d - ?l"
    by simp
  ultimately show ?thesis
    by (simp add: intToStr_def ds_def)
qed

lemma digit_char_range: "k < 10 \<Longrightarrow> unat (digit_char k) - 48 = k \<and> 48 \<le> digit_char k \<and> digit_char k \<le> 57"
proof -
  assume "k < 10"
  then have "unat (digit_char k) = k + 48"
    by (simp add: digit_char_def unat_word_ariths unsigned_of_nat take_bit_nat_eq_self del: of_nat_add)
  with \<open>k < 10\<close> show ?thesis
    by (simp add: word_le_nat_alt)
qed

lemma digits_less_10: "k \<in> set (digits n) \<Longrightarrow> k < 10"
proof (induction n rule: digits.induct)
  case (1 n)
  show ?case
  proof (cases "n = 0")
    case False
    with 1 show ?thesis
      by (auto simp: digits.simps [of n])
  qed (use 1 in \<open>simp add: digits.simps [of 0]\<close>)
qed

lemma parse_append: "parse_digits (xs @ [c]) = 10 * parse_digits xs + (unat c - 48)"
  by (simp add: parse_digits_def)

lemma parse_zeros: "parse_digits (replicate k 48 @ xs) = parse_digits xs"
  by (induction k) (simp_all add: parse_digits_def)

lemma parse_rev_digits: "parse_digits (rev (map digit_char (digits n))) = n"
proof (induction n rule: digits.induct)
  case (1 n)
  show ?case
  proof (cases "n = 0")
    case True
    then show ?thesis
      by (simp add: digits.simps [of 0] parse_digits_def)
  next
    case False
    have d: "digits n = n mod 10 # digits (n div 10)"
      using False by (simp add: digits.simps [of n])
    have "parse_digits (rev (map digit_char (digits n))) = 10 * (n div 10) + n mod 10"
      using 1 [OF False] digit_char_range [of "n mod 10"] by (simp add: d parse_append)
    then show ?thesis
      by simp
  qed
qed

text \<open>The digits that are printed.\<close>

definition printed :: "nat \<Rightarrow> nat \<Rightarrow> u8 list" where
  "printed n d = rev (map digit_char (digits n) @ replicate (d - length (digits n)) 48)"

lemma printed_facts:
  "parse_digits (printed n d) = n" "length (printed n d) = max d (length (digits n))"
  "\<forall>c \<in> set (printed n d). 48 \<le> c \<and> c \<le> 57"
proof -
  show "parse_digits (printed n d) = n"
    using parse_zeros parse_rev_digits by (simp add: printed_def)
  show "length (printed n d) = max d (length (digits n))"
    by (simp add: printed_def)
  show "\<forall>c \<in> set (printed n d). 48 \<le> c \<and> c \<le> 57"
    using digit_char_range digits_less_10 by (auto simp: printed_def)
qed

lemma digits_length: "n < 10 ^ k \<Longrightarrow> length (digits n) \<le> k"
proof (induction n arbitrary: k rule: digits.induct)
  case (1 n)
  show ?case
  proof (cases "n = 0")
    case True
    then show ?thesis
      by (simp add: digits.simps [of 0])
  next
    case False
    then obtain j where k: "k = Suc j"
      using 1(2) by (cases k) auto
    with 1 False have "length (digits (n div 10)) \<le> j"
      by (intro 1(1)) (simp_all add: less_mult_imp_div_less mult.commute)
    then show ?thesis
      using False k by (simp add: digits.simps [of n])
  qed
qed

text \<open>
  C40. \<^verbatim>\<open>intToStr\<close> on a non-negative number ends; with room for the digits and the terminator it writes nothing
  outside of the buffer, and what it writes are only digits, at least \<open>d\<close> of them, that read as the number, followed by the
  terminating zero; the rest of the buffer is unchanged.
\<close>

theorem number_printed:
  assumes "n < 2 ^ 15" "max d 5 < length str"
  shows "\<exists>str' k. intToStr (int n) str (int d) = Some (str', k) \<and> length str' = length str
    \<and> parse_digits (take k str') = n \<and> (\<forall>c \<in> set (take k str'). 48 \<le> c \<and> c \<le> 57) \<and> d \<le> k \<and> k \<le> max d 5
    \<and> str' ! k = 0 \<and> drop (k + 1) str' = drop (k + 1) str"
proof -
  have "length (digits n) \<le> 5"
    using assms(1) by (intro digits_length) simp
  then have m: "max d (length (digits n)) < length str" "max d (length (digits n)) \<le> max d 5"
    using assms(2) by auto
  define k where "k = max d (length (digits n))"
  let ?str = "printed n d @ [0] @ drop (k + 1) str"
  have "intToStr (int n) str (int d) = Some (?str, k)"
    using intToStr_spec [OF assms(1) m(1)] by (simp add: printed_def k_def)
  moreover have "length (printed n d) = k" "k < length str" "d \<le> k" "k \<le> max d 5"
    using printed_facts(2) [of n d] m by (simp_all add: k_def)
  ultimately show ?thesis
    using printed_facts(1,3) [of n d] by (intro exI [of _ ?str] exI [of _ k]) (simp add: nth_append)
qed

theorem number_printed_witness:
  "\<exists>str' k. intToStr 42 (replicate 50 0) 3 = Some (str', k) \<and> parse_digits (take k str') = 42 \<and> str' ! k = 0"
proof -
  have e: "max 3 5 < length (replicate 50 (0 :: u8))"
    by simp
  from number_printed [of 42 3 "replicate 50 0", OF _ e] show ?thesis
    by auto
qed

end
