(* ===== verification/Mac_Sequence.thy ===== *)
theory Mac_Sequence
  imports Packetbuf
begin

text \<open>
  \<^verbatim>\<open>os/net/mac/mac-sequence.c\<close>: link-layer duplicate detection.  The table holds the last sequence number of the
  senders heard most recently; \<open>mru\<close> is the abstract table, the last frame of every sender, the most recent sender
  first.  The clock is an argument; \<^verbatim>\<open>SEQNO_MAX_AGE\<close> is \<open>20 * CLOCK_SECOND\<close> with 128 ticks per second.
\<close>

section \<open>Definitions\<close>

record seqno =
  sender :: linkaddr
  timestamp :: u32
  seq_nr :: u8

definition MAX_SEQNOS :: nat where
  "MAX_SEQNOS = 16"

definition SEQNO_MAX_AGE :: u32 where
  "SEQNO_MAX_AGE = 20 * 128"

text \<open>The loop of \<^verbatim>\<open>mac_sequence_is_duplicate\<close> ends at the first entry of the sender.\<close>

fun duplicate_in :: "pbuf \<Rightarrow> u32 \<Rightarrow> seqno list \<Rightarrow> bool" where
  "duplicate_in pb now [] \<longleftrightarrow> False"
| "duplicate_in pb now (s # ss) \<longleftrightarrow>
     (if linkaddr_cmp (packetbuf_addr pb PACKETBUF_ADDR_SENDER) (sender s)
      then packetbuf_attr pb PACKETBUF_ATTR_MAC_SEQNO = ucast (seq_nr s) \<and> now - timestamp s \<le> SEQNO_MAX_AGE
      else duplicate_in pb now ss)"

definition mac_sequence_is_duplicate :: "seqno list \<Rightarrow> pbuf \<Rightarrow> u32 \<Rightarrow> bool" where
  "mac_sequence_is_duplicate received pb now = duplicate_in pb now received"

text \<open>The first loop of \<^verbatim>\<open>mac_sequence_register_seqno\<close> leaves \<open>i\<close> one behind the entry, the second makes room.\<close>

fun locate_sender :: "linkaddr \<Rightarrow> seqno list \<Rightarrow> nat \<Rightarrow> nat" where
  "locate_sender a [] i = i"
| "locate_sender a (s # ss) i = (if linkaddr_cmp a (sender s) then i + 1 else locate_sender a ss (i + 1))"

fun shift_seqnos :: "nat \<Rightarrow> seqno list \<Rightarrow> seqno list option" where
  "shift_seqnos 0 rs = Some rs"
| "shift_seqnos (Suc j) rs = do {
     v \<leftarrow> rd rs j;
     rs \<leftarrow> wr rs (Suc j) v;
     shift_seqnos j rs
   }"

definition mac_sequence_register_seqno :: "seqno list \<Rightarrow> pbuf \<Rightarrow> u32 \<Rightarrow> seqno list option" where
  "mac_sequence_register_seqno received pb now = do {
     let i = locate_sender (packetbuf_addr pb PACKETBUF_ADDR_SENDER) received 0;
     received \<leftarrow> shift_seqnos (i - 1) received;
     s \<leftarrow> rd received 0;
     wr received 0 \<lparr>sender = linkaddr_copy (sender s) (packetbuf_addr pb PACKETBUF_ADDR_SENDER), timestamp = now,
       seq_nr = ucast (packetbuf_attr pb PACKETBUF_ATTR_MAC_SEQNO)\<rparr>
   }"

section \<open>The table of the most recent senders\<close>

lemma shift_seqnos_spec:
  "j < length rs \<Longrightarrow> shift_seqnos j rs = Some (hd rs # take j rs @ drop (Suc j) rs)"
proof (induction j arbitrary: rs)
  case 0
  then show ?case
    by (cases rs) simp_all
next
  case (Suc j)
  let ?rs = "rs[Suc j := rs ! j]"
  have "shift_seqnos (Suc j) rs = shift_seqnos j ?rs"
    using Suc.prems by (simp add: rd_in wr_in)
  also have "\<dots> = Some (hd ?rs # take j ?rs @ drop (Suc j) ?rs)"
    using Suc.prems by (intro Suc.IH) simp
  also have "hd ?rs = hd rs"
    by (cases rs) simp_all
  also have "take j ?rs @ drop (Suc j) ?rs = take (Suc j) rs @ drop (Suc (Suc j)) rs"
    using Suc.prems by (simp add: take_Suc_conv_app_nth Cons_nth_drop_Suc [symmetric])
  finally show ?case .
qed

fun without :: "linkaddr \<Rightarrow> seqno list \<Rightarrow> seqno list" where
  "without a [] = []"
| "without a (s # ss) = (if sender s = a then ss else s # without a ss)"

lemma locate_sender_spec:
  assumes "linkaddr_ok a" "\<forall>s \<in> set rs. linkaddr_ok (sender s)"
  shows "locate_sender a rs i = i + (if a \<in> sender ` set rs then Suc (length (takeWhile (\<lambda>s. sender s \<noteq> a) rs)) else length rs)"
  using assms by (induction rs arbitrary: i) auto

lemma without_eq: "a \<in> sender ` set rs \<Longrightarrow>
    without a rs = take (length (takeWhile (\<lambda>s. sender s \<noteq> a) rs)) rs @ drop (Suc (length (takeWhile (\<lambda>s. sender s \<noteq> a) rs))) rs"
  by (induction rs) auto

lemma position_less: "a \<in> sender ` set rs \<Longrightarrow> length (takeWhile (\<lambda>s. sender s \<noteq> a) rs) < length rs"
  by (induction rs) auto

lemma register_spec:
  assumes "linkaddr_ok (pb_addrs pb PACKETBUF_ADDR_SENDER)" "\<forall>s \<in> set rs. linkaddr_ok (sender s)" "rs \<noteq> []"
  shows "mac_sequence_register_seqno rs pb now = Some (take (length rs)
    (\<lparr>sender = pb_addrs pb PACKETBUF_ADDR_SENDER, timestamp = now, seq_nr = ucast (pb_attrs pb PACKETBUF_ATTR_MAC_SEQNO)\<rparr>
      # without (pb_addrs pb PACKETBUF_ADDR_SENDER) rs))"
proof -
  let ?a = "pb_addrs pb PACKETBUF_ADDR_SENDER"
  let ?k = "length (takeWhile (\<lambda>s. sender s \<noteq> ?a) rs)"
  let ?j = "locate_sender ?a rs 0 - 1"
  have known: "?k < length rs" if "?a \<in> sender ` set rs"
    using that by (rule position_less)
  have j: "?j = (if ?a \<in> sender ` set rs then ?k else length rs - 1)"
    using locate_sender_spec [OF assms(1,2), of 0] by simp
  have "?j < length rs"
    by (subst j) (use assms(3) known in simp)
  then have "mac_sequence_register_seqno rs pb now = Some (\<lparr>sender = ?a, timestamp = now,
      seq_nr = ucast (pb_attrs pb PACKETBUF_ATTR_MAC_SEQNO)\<rparr> # take ?j rs @ drop (Suc ?j) rs)"
    using assms(1) shift_seqnos_spec [of ?j rs]
    by (simp add: mac_sequence_register_seqno_def packetbuf_addr_def packetbuf_attr_def rd_in wr_in)
  moreover have "take ?j rs @ drop (Suc ?j) rs = take (length rs - 1) (without ?a rs)"
  proof (cases "?a \<in> sender ` set rs")
    case True
    then show ?thesis
      using j known [OF True] by (simp add: without_eq)
  next
    case False
    then have "without ?a rs = rs"
      by (induction rs) auto
    with False j assms(3) show ?thesis
      by simp
  qed
  ultimately show ?thesis
    using assms(3) by (cases rs) simp_all
qed

text \<open>A registered frame: its sender, its number, and when it came.  The frames are listed with the last one first.\<close>

type_synonym frame_log = "(linkaddr \<times> u8 \<times> u32) list"

fun mru :: "frame_log \<Rightarrow> frame_log" where
  "mru [] = []"
| "mru (x # xs) = x # filter (\<lambda>y. fst y \<noteq> fst x) (mru xs)"

definition entry :: "linkaddr \<times> u8 \<times> u32 \<Rightarrow> seqno" where
  "entry = (\<lambda>(a, n, t). \<lparr>sender = a, timestamp = t, seq_nr = n\<rparr>)"

definition no_entry :: seqno where
  "no_entry = \<lparr>sender = linkaddr_null, timestamp = 0, seq_nr = 0\<rparr>"

definition seqno_table :: "frame_log \<Rightarrow> seqno list" where
  "seqno_table h = take MAX_SEQNOS (map entry (mru h) @ replicate MAX_SEQNOS no_entry)"

text \<open>The frames that are received: each is checked, and registered unless it is a duplicate.\<close>

definition frame_pb :: "pbuf \<Rightarrow> linkaddr \<Rightarrow> u8 \<Rightarrow> bool" where
  "frame_pb pb a n \<longleftrightarrow> pb_addrs pb PACKETBUF_ADDR_SENDER = a \<and> pb_attrs pb PACKETBUF_ATTR_MAC_SEQNO = ucast n"

lemma ucast_u8_inject [simp]: "(ucast (n :: u8) :: u16) = ucast m \<longleftrightarrow> n = m"
  by (metis ucast_u8_u16)

lemma mru_distinct: "distinct (map fst (mru h))"
  by (induction h) (auto simp: distinct_map_filter)

lemma mru_ok: "\<forall>x \<in> set h. P (fst x) \<Longrightarrow> \<forall>x \<in> set (mru h). P (fst x)"
  by (induction h) auto

lemma without_map_entry: "distinct (map fst xs) \<Longrightarrow> without a (map entry xs @ zs) =
    (if a \<in> fst ` set xs then map entry (filter (\<lambda>y. fst y \<noteq> a) xs) @ zs else map entry xs @ without a zs)"
proof (induction xs)
  case (Cons x xs)
  have "filter (\<lambda>y. fst y \<noteq> fst x) xs = xs"
    by (rule filter_True) (use Cons.prems in \<open>force simp: image_iff\<close>)
  with Cons show ?case
    by (auto simp: entry_def split: prod.splits)
qed simp

lemma take_without: "Suc n \<le> length xs \<Longrightarrow> take n (without a (take (Suc n) xs)) = take n (without a xs)"
proof (induction xs arbitrary: n)
  case (Cons x xs)
  then show ?case
    by (cases n) auto
qed simp

lemma without_replicate: "a \<noteq> linkaddr_null \<Longrightarrow> without a (replicate n no_entry) = replicate n no_entry"
  by (induction n) (auto simp: no_entry_def)

lemma register_table:
  assumes "linkaddr_ok a" "a \<noteq> linkaddr_null" "\<forall>x \<in> set h. linkaddr_ok (fst x)" "frame_pb pb a n"
  shows "mac_sequence_register_seqno (seqno_table h) pb now = Some (seqno_table ((a, n, now) # h))"
proof -
  let ?all = "map entry (mru h) @ replicate MAX_SEQNOS no_entry"
  have ok: "\<forall>s \<in> set (seqno_table h). linkaddr_ok (sender s)"
  proof -
    have "\<forall>s \<in> set ?all. linkaddr_ok (sender s)"
      using mru_ok [of h linkaddr_ok, OF assms(3)] by (auto simp: entry_def no_entry_def)
    then show ?thesis
      unfolding seqno_table_def by (blast dest: in_set_takeD)
  qed
  have len: "length (seqno_table h) = Suc 15"
    by (simp add: seqno_table_def MAX_SEQNOS_def)
  have "mac_sequence_register_seqno (seqno_table h) pb now =
      Some (\<lparr>sender = a, timestamp = now, seq_nr = n\<rparr> # take 15 (without a (seqno_table h)))"
    using register_spec [of pb "seqno_table h" now] ok assms(1,4) len
    by (auto simp: frame_pb_def simp flip: length_greater_0_conv)
  also have "take 15 (without a (seqno_table h)) = take 15 (without a ?all)"
    using take_without [of 15 ?all a] by (simp add: seqno_table_def MAX_SEQNOS_def)
  also have "\<dots> = take 15 (map entry (filter (\<lambda>y. fst y \<noteq> a) (mru h)) @ replicate MAX_SEQNOS no_entry)"
  proof (cases "a \<in> fst ` set (mru h)")
    case False
    then have "filter (\<lambda>y. fst y \<noteq> a) (mru h) = mru h"
      by (force simp: filter_id_conv)
    with False show ?thesis
      by (simp add: without_map_entry [OF mru_distinct] without_replicate [OF assms(2)])
  qed (simp add: without_map_entry [OF mru_distinct])
  finally show ?thesis
    by (simp add: seqno_table_def MAX_SEQNOS_def entry_def)
qed

lemma duplicate_append:
  "linkaddr_ok a \<Longrightarrow> \<forall>x \<in> set xs. linkaddr_ok (fst x) \<Longrightarrow> distinct (map fst xs) \<Longrightarrow> frame_pb pb a n \<Longrightarrow>
   duplicate_in pb now (map entry xs @ zs) =
     (if a \<in> fst ` set xs then \<exists>t. (a, n, t) \<in> set xs \<and> now - t \<le> SEQNO_MAX_AGE else duplicate_in pb now zs)"
proof (induction xs)
  case (Cons x xs)
  obtain b m t where x: "x = (b, m, t)"
    by (cases x)
  show ?case
  proof (cases "b = a")
    case True
    then have "(a, n, u) \<in> set xs \<longleftrightarrow> False" for u
      using Cons.prems(3) x by force
    with True Cons.prems show ?thesis
      by (auto simp: x entry_def frame_pb_def packetbuf_addr_def packetbuf_attr_def)
  next
    case False
    then have "duplicate_in pb now (map entry (x # xs) @ zs) = duplicate_in pb now (map entry xs @ zs)"
      using Cons.prems by (simp add: x entry_def frame_pb_def packetbuf_addr_def)
    with False Cons show ?thesis
      by (simp add: x)
  qed
qed simp

lemma duplicate_none:
  "linkaddr_ok a \<Longrightarrow> a \<noteq> linkaddr_null \<Longrightarrow> frame_pb pb a n \<Longrightarrow> \<not> duplicate_in pb now (replicate k no_entry)"
  by (induction k) (auto simp: no_entry_def frame_pb_def packetbuf_addr_def)

lemma duplicate_table:
  assumes "linkaddr_ok a" "a \<noteq> linkaddr_null" "\<forall>x \<in> set h. linkaddr_ok (fst x)" "frame_pb pb a n"
  shows "mac_sequence_is_duplicate (seqno_table h) pb now \<longleftrightarrow>
    (\<exists>t. (a, n, t) \<in> set (take 16 (mru h)) \<and> now - t \<le> SEQNO_MAX_AGE)"
proof -
  have e: "seqno_table h = map entry (take 16 (mru h)) @ replicate (16 - length (mru h)) no_entry"
    by (simp add: seqno_table_def MAX_SEQNOS_def take_map min_def)
  have "\<forall>x \<in> set (take 16 (mru h)). linkaddr_ok (fst x)"
    using mru_ok [of h linkaddr_ok, OF assms(3)] by (auto dest: in_set_takeD)
  moreover have "distinct (map fst (take 16 (mru h)))"
    using mru_distinct [of h] by (simp flip: take_map)
  ultimately show ?thesis
    unfolding mac_sequence_is_duplicate_def e
    using duplicate_append [OF assms(1) _ _ assms(4), of "take 16 (mru h)"] duplicate_none [OF assms(1,2,4)]
    by (simp add: image_iff) (metis fst_conv)
qed

fun register_all :: "seqno list \<Rightarrow> (pbuf \<times> u32) list \<Rightarrow> seqno list option" where
  "register_all rs [] = Some rs"
| "register_all rs ((pb, now) # ps) = do { rs \<leftarrow> mac_sequence_register_seqno rs pb now; register_all rs ps }"

definition frame_of :: "pbuf \<times> u32 \<Rightarrow> linkaddr \<times> u8 \<times> u32" where
  "frame_of = (\<lambda>(pb, t). (pb_addrs pb PACKETBUF_ADDR_SENDER, ucast (pb_attrs pb PACKETBUF_ATTR_MAC_SEQNO), t))"

definition proper_frame :: "pbuf \<Rightarrow> bool" where
  "proper_frame pb \<longleftrightarrow> linkaddr_ok (pb_addrs pb PACKETBUF_ADDR_SENDER) \<and> pb_addrs pb PACKETBUF_ADDR_SENDER \<noteq> linkaddr_null
     \<and> pb_attrs pb PACKETBUF_ATTR_MAC_SEQNO < 256"

lemma proper_frame_pb:
  assumes "proper_frame pb"
  shows "frame_pb pb (pb_addrs pb PACKETBUF_ADDR_SENDER) (ucast (pb_attrs pb PACKETBUF_ATTR_MAC_SEQNO))"
proof -
  have "unat (pb_attrs pb PACKETBUF_ATTR_MAC_SEQNO) < 256"
    using assms by (simp add: proper_frame_def word_less_nat_alt)
  then have "pb_attrs pb PACKETBUF_ATTR_MAC_SEQNO = ucast (ucast (pb_attrs pb PACKETBUF_ATTR_MAC_SEQNO) :: u8)"
    by (intro word_unat_eq_iff [THEN iffD2]) (simp only: unat_ucast_u8_u16 unat_u16_u8)
  then show ?thesis
    by (simp add: frame_pb_def)
qed

lemma register_all_table:
  "\<forall>x \<in> set h. linkaddr_ok (fst x) \<Longrightarrow> \<forall>p \<in> set ps. proper_frame (fst p) \<Longrightarrow>
   register_all (seqno_table h) ps = Some (seqno_table (rev (map frame_of ps) @ h))"
proof (induction ps arbitrary: h)
  case (Cons p ps)
  obtain pb now where p: "p = (pb, now)"
    by (cases p)
  have ok: "proper_frame pb"
    using Cons.prems p by simp
  have "mac_sequence_register_seqno (seqno_table h) pb now = Some (seqno_table (frame_of p # h))"
    using register_table [OF _ _ Cons.prems(1) proper_frame_pb [OF ok]] ok by (simp add: proper_frame_def frame_of_def p)
  moreover have "\<forall>x \<in> set (frame_of p # h). linkaddr_ok (fst x)"
    using Cons.prems(1) ok by (simp add: frame_of_def p proper_frame_def)
  ultimately show ?case
    using Cons.IH [of "frame_of p # h"] Cons.prems(2) by (simp add: p)
qed simp

text \<open>
  C21. Link-layer duplicates.  After any sequence of registered frames the table is the abstract one: a frame counts as a
  duplicate exactly if its number is that of the last frame of its sender, that frame is not too old, and fewer than 16
  other senders were heard since; nothing out of bounds is touched.
\<close>

theorem duplicate_detection_exact:
  assumes "\<forall>p \<in> set ps. proper_frame (fst p)" "proper_frame pb"
  shows "\<exists>rs. register_all (replicate 16 no_entry) ps = Some rs
    \<and> (mac_sequence_is_duplicate rs pb now \<longleftrightarrow>
        (\<exists>t. (pb_addrs pb PACKETBUF_ADDR_SENDER, ucast (pb_attrs pb PACKETBUF_ATTR_MAC_SEQNO), t) \<in> set (take 16 (mru (rev (map frame_of ps))))
             \<and> now - t \<le> SEQNO_MAX_AGE))"
proof -
  have 0: "seqno_table [] = replicate 16 no_entry"
    by (simp add: seqno_table_def MAX_SEQNOS_def)
  have run: "register_all (replicate 16 no_entry) ps = Some (seqno_table (rev (map frame_of ps)))"
    using register_all_table [of "[]" ps] assms(1) by (simp add: 0)
  have "\<forall>x \<in> set (rev (map frame_of ps)). linkaddr_ok (fst x)"
    using assms(1) by (auto simp: frame_of_def proper_frame_def)
  with duplicate_table [OF _ _ this proper_frame_pb [OF assms(2)]] assms(2) run show ?thesis
    by (simp add: proper_frame_def)
qed

theorem duplicate_detection_exact_witness:
  "\<exists>pb rs. register_all (replicate 16 no_entry) [(pb, 5)] = Some rs \<and> mac_sequence_is_duplicate rs pb 7
     \<and> \<not> mac_sequence_is_duplicate rs pb 3000"
proof -
  let ?pb = "packetbuf_set_attr (packetbuf_set_addr pb_initial PACKETBUF_ADDR_SENDER [1, 0, 0, 0, 0, 0, 0, 0]) PACKETBUF_ATTR_MAC_SEQNO 9"
  have "[1, 0, 0, 0, 0, 0, 0, 0] \<noteq> (linkaddr_null :: linkaddr)"
    by (simp add: linkaddr_null_def LINKADDR_SIZE_def eval_nat_numeral)
  then have ok: "proper_frame ?pb"
    by (simp add: proper_frame_def packetbuf_set_attr_def packetbuf_set_addr_def pb_initial_def linkaddr_ok_def LINKADDR_SIZE_def)
  then have "\<forall>p \<in> set [(?pb, 5)]. proper_frame (fst p)"
    by simp
  from duplicate_detection_exact [OF this ok, of 7] duplicate_detection_exact [OF this ok, of 3000] show ?thesis
    by (intro exI [of _ ?pb]) (auto simp: frame_of_def SEQNO_MAX_AGE_def)
qed

end
