(* ===== verification/Frame802154.thy ===== *)
theory Frame802154
  imports Packetbuf
begin

text \<open>
  \<^verbatim>\<open>os/net/mac/framer/frame802154.c\<close>: the header of an IEEE 802.15.4 frame, written by \<open>frame802154_create\<close> and read by
  \<open>frame802154_parse\<close>.  The record \<open>frame\<close> is \<^verbatim>\<open>frame802154_t\<close>; a buffer is a checked list of bytes, so an access
  outside of it is \<open>None\<close>.  The two switches of the link-layer security that the source takes from the
  configuration (\<^verbatim>\<open>LLSEC802154_USES_AUX_HEADER\<close>, \<^verbatim>\<open>LLSEC802154_USES_EXPLICIT_KEYS\<close>) are the record \<open>llsec\<close>.
  The lemmas give the bytes of the header as a function of the frame, the length of the header, and that a
  parsed header is the frame it was made from.
\<close>

section \<open>Data\<close>

record llsec =
  uses_aux_header :: bool
  uses_explicit_keys :: bool

record frame802154_fcf =
  frame_type :: u8
  security_enabled :: u8
  frame_pending :: u8
  ack_required :: u8
  panid_compression :: u8
  sequence_number_suppression :: u8
  ie_list_present :: u8
  dest_addr_mode :: u8
  frame_version :: u8
  src_addr_mode :: u8

record frame802154_scf =
  security_level :: u8
  key_id_mode :: u8
  frame_counter_suppression :: u8
  frame_counter_size :: u8

record frame802154_aux_hdr =
  security_control :: frame802154_scf
  frame_counter :: "u8 list"
  key_source :: "u8 list"
  key_index :: u8

text \<open>\<open>f_payload\<close> is a pointer into the buffer that was parsed, so an offset.\<close>

record frame802154 =
  f_dest_addr :: "u8 list"
  f_src_addr :: "u8 list"
  f_fcf :: frame802154_fcf
  f_seq :: u8
  f_dest_pid :: u16
  f_src_pid :: u16
  f_aux_hdr :: frame802154_aux_hdr
  f_payload :: nat
  f_payload_len :: int

definition FRAME802154_NOADDR :: u8 where "FRAME802154_NOADDR = 0"
definition FRAME802154_SHORTADDRMODE :: u8 where "FRAME802154_SHORTADDRMODE = 2"
definition FRAME802154_LONGADDRMODE :: u8 where "FRAME802154_LONGADDRMODE = 3"
definition FRAME802154_IEEE802154_2015 :: u8 where "FRAME802154_IEEE802154_2015 = 2"
definition FRAME802154_ACKFRAME :: u8 where "FRAME802154_ACKFRAME = 2"
definition FRAME802154_BROADCASTPANDID :: u16 where "FRAME802154_BROADCASTPANDID = 0xFFFF"

lemmas frame_constants =
  FRAME802154_NOADDR_def FRAME802154_SHORTADDRMODE_def FRAME802154_LONGADDRMODE_def FRAME802154_IEEE802154_2015_def
  FRAME802154_ACKFRAME_def FRAME802154_BROADCASTPANDID_def

record field_length =
  seqno_len :: u8
  dest_pid_len :: u8
  dest_addr_len :: u8
  src_pid_len :: u8
  src_addr_len :: u8
  aux_sec_len :: u8

section \<open>Which fields a header has\<close>

definition addr_len :: "u8 \<Rightarrow> u8" where
  "addr_len mode = (if mode = FRAME802154_SHORTADDRMODE then 2 else if mode = FRAME802154_LONGADDRMODE then 8 else 0)"

definition get_key_id_len :: "u8 \<Rightarrow> u8" where
  "get_key_id_len mode = (if mode = 1 then 1 else if mode = 2 then 5 else if mode = 3 then 9 else 0)"

text \<open>Whether there is a source and whether there is a destination PAN identifier; no caller passes \<^verbatim>\<open>NULL\<close> as \<^verbatim>\<open>fcf\<close>.\<close>

definition frame802154_has_panid :: "frame802154_fcf \<Rightarrow> bool \<times> bool" where
  "frame802154_has_panid c =
     (let d = dest_addr_mode c; s = src_addr_mode c; pc = panid_compression c;
          no = FRAME802154_NOADDR; short = FRAME802154_SHORTADDRMODE; long = FRAME802154_LONGADDRMODE
      in if frame_version c = FRAME802154_IEEE802154_2015 then
           (pc = 0 \<and> (d = no \<and> s = long \<or> d = no \<and> s = short \<or> d = short \<and> s = short \<or> d = short \<and> s = long \<or> d = long \<and> s = short),
            d = no \<and> s = no \<and> pc = 1 \<or> d \<noteq> no \<and> s = no \<and> pc = 0 \<or> d = long \<and> s = long \<and> pc = 0
              \<or> d = short \<and> s \<noteq> no \<or> d \<noteq> no \<and> s = short)
         else if frame_type c \<noteq> FRAME802154_ACKFRAME then (pc = 0 \<and> s AND 3 \<noteq> 0, d AND 3 \<noteq> 0)
         else (False, False))"

definition frame802154_check_dest_panid :: "u16 \<Rightarrow> frame802154 \<Rightarrow> bool" where
  "frame802154_check_dest_panid pan_id f =
     (let has_dest_panid = snd (frame802154_has_panid (f_fcf f))
      in \<not> (\<not> has_dest_panid \<or> f_dest_pid f \<noteq> pan_id \<and> f_dest_pid f \<noteq> FRAME802154_BROADCASTPANDID))"

fun all_ff :: "nat \<Rightarrow> u8 list \<Rightarrow> bool option" where
  "all_ff 0 a = Some True"
| "all_ff (Suc i) a = do { v \<leftarrow> rd a i; if v \<noteq> 0xff then Some False else all_ff i a }"

definition frame802154_is_broadcast_addr :: "u8 \<Rightarrow> u8 list \<Rightarrow> bool option" where
  "frame802154_is_broadcast_addr mode a = all_ff (if mode = FRAME802154_SHORTADDRMODE then 2 else 8) a"

text \<open>
  One half of \<^verbatim>\<open>frame802154_extract_linkaddr\<close>: the address of a mode, \<open>linkaddr_null\<close> for broadcast, \<open>None\<close> inside for
  a size that cannot be handled.
\<close>

definition extract_addr :: "u8 \<Rightarrow> u8 list \<Rightarrow> linkaddr option option" where
  "extract_addr mode a =
     (let len = (if mode \<noteq> 0 then if mode = FRAME802154_SHORTADDRMODE then 2 else 8 else 0)
      in do {
        broadcast \<leftarrow> (if len = 0 then Some True else frame802154_is_broadcast_addr mode a);
        if broadcast then Some (Some linkaddr_null)
        else if len \<noteq> LINKADDR_SIZE then Some None
        else Some (Some (take LINKADDR_SIZE a))
      })"

text \<open>\<open>s\<close> and \<open>d\<close> are the contents of the two result arguments, \<open>None\<close> for \<^verbatim>\<open>NULL\<close>.\<close>

definition frame802154_extract_linkaddr ::
  "frame802154 \<Rightarrow> linkaddr option \<Rightarrow> linkaddr option \<Rightarrow> (int \<times> linkaddr option \<times> linkaddr option) option" where
  "frame802154_extract_linkaddr f s d = do {
     src \<leftarrow> extract_addr (src_addr_mode (f_fcf f)) (f_src_addr f);
     case src of None \<Rightarrow> Some (0, s, d)
     | Some a \<Rightarrow> do {
         let s = map_option (\<lambda>_. a) s;
         dest \<leftarrow> extract_addr (dest_addr_mode (f_fcf f)) (f_dest_addr f);
         case dest of None \<Rightarrow> Some (0, s, d) | Some a \<Rightarrow> Some (1, s, map_option (\<lambda>_. a) d)
       }
   }"

text \<open>The length of the auxiliary security header.\<close>

definition aux_len :: "llsec \<Rightarrow> frame802154 \<Rightarrow> u8" where
  "aux_len ls p =
     (if uses_aux_header ls \<and> security_enabled (f_fcf p) AND 1 \<noteq> 0 then
        (let sc = security_control (f_aux_hdr p)
         in 1 + (if frame_counter_suppression sc = 0 then if frame_counter_size sc = 1 then 5 else 4 else 0)
            + (if uses_explicit_keys ls then get_key_id_len (key_id_mode sc) else 0))
      else 0)"

text \<open>\<^verbatim>\<open>field_len\<close> also sets the compression bit of the frame, for versions that fix it.\<close>

definition field_len :: "llsec \<Rightarrow> frame802154 \<Rightarrow> frame802154 \<times> field_length" where
  "field_len ls p =
     (let c = f_fcf p;
          c = (if frame_version c < FRAME802154_IEEE802154_2015 then
                 c\<lparr>panid_compression := (if dest_addr_mode c AND 3 \<noteq> 0 \<and> src_addr_mode c AND 3 \<noteq> 0 \<and> f_src_pid p = f_dest_pid p
                                         then 1 else 0)\<rparr>
               else c);
          (has_src_panid, has_dest_panid) = frame802154_has_panid c;
          p = p\<lparr>f_fcf := c\<rparr>
      in (p, \<lparr>seqno_len = (if sequence_number_suppression c AND 1 = 0 then 1 else 0),
              dest_pid_len = (if has_dest_panid then 2 else 0), dest_addr_len = addr_len (dest_addr_mode c AND 3),
              src_pid_len = (if has_src_panid then 2 else 0), src_addr_len = addr_len (src_addr_mode c AND 3),
              aux_sec_len = aux_len ls p\<rparr>))"

definition frame802154_hdrlen :: "llsec \<Rightarrow> frame802154 \<Rightarrow> int \<times> frame802154" where
  "frame802154_hdrlen ls p =
     (let (p, l) = field_len ls p
      in (2 + uint (seqno_len l) + uint (dest_pid_len l) + uint (dest_addr_len l)
          + uint (src_pid_len l) + uint (src_addr_len l) + uint (aux_sec_len l), p))"

section \<open>Writing a header\<close>

definition fcf_byte0 :: "frame802154_fcf \<Rightarrow> u8" where
  "fcf_byte0 c = (frame_type c AND 7) OR push_bit 3 (security_enabled c AND 1) OR push_bit 4 (frame_pending c AND 1)
     OR push_bit 5 (ack_required c AND 1) OR push_bit 6 (panid_compression c AND 1)"

definition fcf_byte1 :: "frame802154_fcf \<Rightarrow> u8" where
  "fcf_byte1 c = (sequence_number_suppression c AND 1) OR push_bit 1 (ie_list_present c AND 1)
     OR push_bit 2 (dest_addr_mode c AND 3) OR push_bit 4 (frame_version c AND 3) OR push_bit 6 (src_addr_mode c AND 3)"

definition frame802154_create_fcf :: "frame802154_fcf \<Rightarrow> u8 list \<Rightarrow> u8 list option" where
  "frame802154_create_fcf c buf = do { buf \<leftarrow> wr buf 0 (fcf_byte0 c); wr buf 1 (fcf_byte1 c) }"

text \<open>\<^verbatim>\<open>buf[pos++] = v\<close>, where \<open>pos\<close> stays far below the range of \<^verbatim>\<open>uint8_t\<close> (\<open>header_length\<close> below).\<close>

definition put :: "u8 \<Rightarrow> nat \<times> u8 list \<Rightarrow> (nat \<times> u8 list) option" where
  "put v s = map_option (\<lambda>buf. (fst s + 1, buf)) (wr (snd s) (fst s) v)"

definition put_pid :: "u16 \<Rightarrow> nat \<times> u8 list \<Rightarrow> (nat \<times> u8 list) option" where
  "put_pid pid s = do { s \<leftarrow> put (ucast (pid AND 0xff)) s; put (ucast (drop_bit 8 pid AND 0xff)) s }"

fun put_addr :: "u8 list \<Rightarrow> nat \<Rightarrow> nat \<times> u8 list \<Rightarrow> (nat \<times> u8 list) option" where
  "put_addr a 0 s = Some s"
| "put_addr a (Suc c) s = do { v \<leftarrow> rd a c; s \<leftarrow> put v s; put_addr a c s }"

text \<open>\<^verbatim>\<open>memcpy(buf + pos, from, n); pos += n\<close>\<close>

definition put_n :: "u8 list \<Rightarrow> nat \<Rightarrow> nat \<times> u8 list \<Rightarrow> (nat \<times> u8 list) option" where
  "put_n src n s = do { bs \<leftarrow> rd_n src 0 n; buf \<leftarrow> wr_n (snd s) (fst s) bs; Some (fst s + n, buf) }"

definition scf_byte :: "llsec \<Rightarrow> frame802154_scf \<Rightarrow> u8" where
  "scf_byte ls sc = security_level sc OR (if uses_explicit_keys ls then push_bit 3 (key_id_mode sc) else 0)
     OR push_bit 5 (frame_counter_suppression sc) OR push_bit 6 (frame_counter_size sc)"

definition create_aux :: "llsec \<Rightarrow> frame802154_aux_hdr \<Rightarrow> nat \<times> u8 list \<Rightarrow> (nat \<times> u8 list) option" where
  "create_aux ls a s = do {
     let sc = security_control a;
     s \<leftarrow> put (scf_byte ls sc) s;
     s \<leftarrow> (if frame_counter_suppression sc = 0 then do {
            (pos, buf) \<leftarrow> put_n (frame_counter a) 4 s;
            Some (if frame_counter_size sc = 1 then pos + 1 else pos, buf)
          } else Some s);
     if uses_explicit_keys ls \<and> key_id_mode sc \<noteq> 0 then do {
       s \<leftarrow> put_n (key_source a) ((unat (key_id_mode sc) - 1) * 4) s;
       put (key_index a) s
     } else Some s
   }"

text \<open>The length of the header, the frame as \<^verbatim>\<open>field_len\<close> left it, and the buffer.\<close>

definition frame802154_create :: "llsec \<Rightarrow> frame802154 \<Rightarrow> u8 list \<Rightarrow> (int \<times> frame802154 \<times> u8 list) option" where
  "frame802154_create ls p buf = do {
     let (p, l) = field_len ls p;
     buf \<leftarrow> frame802154_create_fcf (f_fcf p) buf;
     s \<leftarrow> (if seqno_len l = 1 then put (f_seq p) (2, buf) else Some (2, buf));
     s \<leftarrow> (if dest_pid_len l = 2 then put_pid (f_dest_pid p) s else Some s);
     s \<leftarrow> put_addr (f_dest_addr p) (unat (dest_addr_len l)) s;
     s \<leftarrow> (if src_pid_len l = 2 then put_pid (f_src_pid p) s else Some s);
     s \<leftarrow> put_addr (f_src_addr p) (unat (src_addr_len l)) s;
     s \<leftarrow> (if uses_aux_header ls \<and> aux_sec_len l \<noteq> 0 then create_aux ls (f_aux_hdr p) s else Some s);
     Some (int (fst s), p, snd s)
   }"
section \<open>Reading a header\<close>

definition frame802154_parse_fcf :: "u8 list \<Rightarrow> frame802154_fcf option" where
  "frame802154_parse_fcf data = do {
     a \<leftarrow> rd data 0;
     b \<leftarrow> rd data 1;
     Some \<lparr>frame_type = a AND 7, security_enabled = drop_bit 3 a AND 1, frame_pending = drop_bit 4 a AND 1,
       ack_required = drop_bit 5 a AND 1, panid_compression = drop_bit 6 a AND 1,
       sequence_number_suppression = b AND 1, ie_list_present = drop_bit 1 b AND 1, dest_addr_mode = drop_bit 2 b AND 3,
       frame_version = drop_bit 4 b AND 3, src_addr_mode = drop_bit 6 b AND 3\<rparr>
   }"

text \<open>\<^verbatim>\<open>p[0] + (p[1] << 8)\<close>, in the 16 bits of the field it is assigned to, and the pointer after it.\<close>

definition get_pid :: "u8 list \<Rightarrow> nat \<Rightarrow> (u16 \<times> nat) option" where
  "get_pid data p = do { a \<leftarrow> rd data p; b \<leftarrow> rd data (p + 1); Some (ucast a + push_bit 8 (ucast b), p + 2) }"

text \<open>The loop \<^verbatim>\<open>for(c = 0; c < 8; c++) addr[c] = p[7 - c]\<close>, \<open>k\<close> being \<open>8 - c\<close>.\<close>

fun get_addr_loop :: "u8 list \<Rightarrow> nat \<Rightarrow> nat \<Rightarrow> u8 list \<Rightarrow> u8 list option" where
  "get_addr_loop data p 0 a = Some a"
| "get_addr_loop data p (Suc k) a = do { v \<leftarrow> rd data (p + k); a \<leftarrow> wr a (7 - k) v; get_addr_loop data p k a }"

text \<open>An address of a mode that is not 0, into \<open>addr\<close>, which is cleared for a short one.\<close>

definition get_addr :: "u8 \<Rightarrow> u8 list \<Rightarrow> nat \<Rightarrow> u8 list \<Rightarrow> (u8 list \<times> nat) option" where
  "get_addr mode data p addr =
     (if mode = FRAME802154_SHORTADDRMODE then do {
        let addr = linkaddr_copy addr linkaddr_null;
        v \<leftarrow> rd data (p + 1);
        addr \<leftarrow> wr addr 0 v;
        v \<leftarrow> rd data p;
        addr \<leftarrow> wr addr 1 v;
        Some (addr, p + 2)
      } else if mode = FRAME802154_LONGADDRMODE then do {
        addr \<leftarrow> get_addr_loop data p 8 addr;
        Some (addr, p + 8)
      } else Some (addr, p))"

definition parse_dest :: "u8 list \<Rightarrow> bool \<Rightarrow> frame802154 \<times> nat \<Rightarrow> (frame802154 \<times> nat) option" where
  "parse_dest data has_dest_panid = (\<lambda>(pf, p).
     if dest_addr_mode (f_fcf pf) \<noteq> 0 then do {
       (pid, p) \<leftarrow> (if has_dest_panid then get_pid data p else Some (0, p));
       (a, p) \<leftarrow> get_addr (dest_addr_mode (f_fcf pf)) data p (f_dest_addr pf);
       Some (pf\<lparr>f_dest_pid := pid, f_dest_addr := a\<rparr>, p)
     } else Some (pf\<lparr>f_dest_addr := linkaddr_copy (f_dest_addr pf) linkaddr_null, f_dest_pid := 0\<rparr>, p))"

definition parse_src :: "u8 list \<Rightarrow> bool \<Rightarrow> bool \<Rightarrow> frame802154 \<times> nat \<Rightarrow> (frame802154 \<times> nat) option" where
  "parse_src data has_src_panid has_dest_panid = (\<lambda>(pf, p).
     if src_addr_mode (f_fcf pf) \<noteq> 0 then do {
       (pf, p) \<leftarrow> (if has_src_panid then do {
                    (pid, p) \<leftarrow> get_pid data p;
                    let pf = pf\<lparr>f_src_pid := pid\<rparr>;
                    Some (if \<not> has_dest_panid then pf\<lparr>f_dest_pid := f_src_pid pf\<rparr> else pf, p)
                  } else Some (pf\<lparr>f_src_pid := f_dest_pid pf\<rparr>, p));
       (a, p) \<leftarrow> get_addr (src_addr_mode (f_fcf pf)) data p (f_src_addr pf);
       Some (pf\<lparr>f_src_addr := a\<rparr>, p)
     } else Some (pf\<lparr>f_src_addr := linkaddr_copy (f_src_addr pf) linkaddr_null, f_src_pid := 0\<rparr>, p))"

definition parse_counter :: "u8 list \<Rightarrow> frame802154_aux_hdr \<times> nat \<Rightarrow> (frame802154_aux_hdr \<times> nat) option" where
  "parse_counter data = (\<lambda>(a, p).
     if frame_counter_suppression (security_control a) = 0 then do {
       bs \<leftarrow> rd_n data p 4;
       fc \<leftarrow> wr_n (frame_counter a) 0 bs;
       Some (a\<lparr>frame_counter := fc\<rparr>, if frame_counter_size (security_control a) = 1 then p + 5 else p + 4)
     } else Some (a, p))"

definition parse_key :: "llsec \<Rightarrow> u8 list \<Rightarrow> frame802154_aux_hdr \<times> nat \<Rightarrow> (frame802154_aux_hdr \<times> nat) option" where
  "parse_key ls data = (\<lambda>(a, p).
     if uses_explicit_keys ls \<and> key_id_mode (security_control a) \<noteq> 0 then do {
       let c = (unat (key_id_mode (security_control a)) - 1) * 4;
       bs \<leftarrow> rd_n data p c;
       ks \<leftarrow> wr_n (key_source a) 0 bs;
       v \<leftarrow> rd data (p + c);
       Some (a\<lparr>key_source := ks, key_index := v\<rparr>, p + c + 1)
     } else Some (a, p))"

definition parse_aux :: "llsec \<Rightarrow> u8 list \<Rightarrow> frame802154 \<times> nat \<Rightarrow> (frame802154 \<times> nat) option" where
  "parse_aux ls data = (\<lambda>(pf, p). do {
     v \<leftarrow> rd data p;
     let sc = (security_control (f_aux_hdr pf))\<lparr>security_level := v AND 7, frame_counter_suppression := drop_bit 5 v,
                frame_counter_size := drop_bit 6 v\<rparr>;
     let sc = (if uses_explicit_keys ls then sc\<lparr>key_id_mode := drop_bit 3 v AND 3\<rparr> else sc);
     (a, p) \<leftarrow> parse_counter data ((f_aux_hdr pf)\<lparr>security_control := sc\<rparr>, p + 1);
     (a, p) \<leftarrow> parse_key ls data (a, p);
     Some (pf\<lparr>f_aux_hdr := a\<rparr>, p)
   })"

text \<open>\<open>data\<close> is the memory at the pointer, which may hold more than \<open>len\<close> bytes; \<open>pf\<close> is the struct that is filled.\<close>

definition frame802154_parse :: "llsec \<Rightarrow> u8 list \<Rightarrow> int \<Rightarrow> frame802154 \<Rightarrow> (int \<times> frame802154) option" where
  "frame802154_parse ls data len pf = (if len < 2 then Some (0, pf) else do {
     c \<leftarrow> frame802154_parse_fcf data;
     let pf = pf\<lparr>f_fcf := c\<rparr>;
     (pf, p) \<leftarrow> (if sequence_number_suppression c = 0 then do { v \<leftarrow> rd data 2; Some (pf\<lparr>f_seq := v\<rparr>, 3) } else Some (pf, 2));
     let (has_src_panid, has_dest_panid) = frame802154_has_panid c;
     (pf, p) \<leftarrow> parse_dest data has_dest_panid (pf, p);
     (pf, p) \<leftarrow> parse_src data has_src_panid has_dest_panid (pf, p);
     (pf, p) \<leftarrow> (if uses_aux_header ls \<and> security_enabled c \<noteq> 0 then parse_aux ls data (pf, p) else Some (pf, p));
     let pf = pf\<lparr>f_payload_len := len - int p, f_payload := p\<rparr>;
     Some (if len < int p then 0 else int p, pf)
   })"

section \<open>The header as a list of bytes\<close>

definition pid_bytes :: "u16 \<Rightarrow> u8 list" where
  "pid_bytes pid = [ucast (pid AND 0xff), ucast (drop_bit 8 pid AND 0xff)]"

definition addr_bytes :: "u8 \<Rightarrow> u8 list \<Rightarrow> u8 list" where
  "addr_bytes mode a = rev (take (unat (addr_len mode)) a)"

text \<open>The auxiliary header; a counter of 5 bytes leaves its last byte to what the buffer held, so \<open>aux_bytes\<close> is for 4 bytes.\<close>

definition aux_bytes :: "llsec \<Rightarrow> frame802154_aux_hdr \<Rightarrow> u8 list" where
  "aux_bytes ls a = (let sc = security_control a in
     scf_byte ls sc # (if frame_counter_suppression sc = 0 then frame_counter a else [])
     @ (if uses_explicit_keys ls \<and> key_id_mode sc \<noteq> 0 then take ((unat (key_id_mode sc) - 1) * 4) (key_source a) @ [key_index a] else []))"

definition header_bytes :: "llsec \<Rightarrow> frame802154 \<Rightarrow> u8 list" where
  "header_bytes ls p = (let (p, l) = field_len ls p; c = f_fcf p in
     [fcf_byte0 c, fcf_byte1 c] @ (if seqno_len l = 1 then [f_seq p] else [])
     @ (if dest_pid_len l = 2 then pid_bytes (f_dest_pid p) else []) @ addr_bytes (dest_addr_mode c AND 3) (f_dest_addr p)
     @ (if src_pid_len l = 2 then pid_bytes (f_src_pid p) else []) @ addr_bytes (src_addr_mode c AND 3) (f_src_addr p)
     @ (if aux_sec_len l \<noteq> 0 then aux_bytes ls (f_aux_hdr p) else []))"

text \<open>A frame as the struct can hold it, with a frame counter of 4 bytes, the only size that is supported.\<close>

definition frame_ok :: "frame802154 \<Rightarrow> bool" where
  "frame_ok p \<longleftrightarrow> length (f_dest_addr p) = 8 \<and> length (f_src_addr p) = 8 \<and> length (frame_counter (f_aux_hdr p)) = 4
     \<and> length (key_source (f_aux_hdr p)) = 8 \<and> key_id_mode (security_control (f_aux_hdr p)) < 4
     \<and> (frame_counter_suppression (security_control (f_aux_hdr p)) = 0 \<longrightarrow> frame_counter_size (security_control (f_aux_hdr p)) \<noteq> 1)"

text \<open>The state of writing: the bytes already written, in front of the rest of the buffer.\<close>

definition out :: "u8 list \<Rightarrow> u8 list \<Rightarrow> nat \<times> u8 list" where
  "out bs buf = (length bs, bs @ drop (length bs) buf)"

lemma put_out: "length bs < length buf \<Longrightarrow> put v (out bs buf) = Some (out (bs @ [v]) buf)"
  by (simp add: put_def out_def wr_in list_update_append Cons_nth_drop_Suc [symmetric])

lemma put_pid_out: "length bs + 2 \<le> length buf \<Longrightarrow> put_pid pid (out bs buf) = Some (out (bs @ pid_bytes pid) buf)"
  by (simp add: put_pid_def put_out pid_bytes_def)

lemma put_addr_out: "c \<le> length a \<Longrightarrow> length bs + c \<le> length buf \<Longrightarrow> put_addr a c (out bs buf) = Some (out (bs @ rev (take c a)) buf)"
  by (induction c arbitrary: bs) (simp_all add: rd_in put_out take_Suc_conv_app_nth)

lemma put_n_out: "n \<le> length a \<Longrightarrow> length bs + n \<le> length buf \<Longrightarrow> put_n a n (out bs buf) = Some (out (bs @ take n a) buf)"
  by (simp add: put_n_def out_def rd_n_in wr_n_in add.commute)

lemma create_fcf_out:
  "2 \<le> length buf \<Longrightarrow> map_option (Pair 2) (frame802154_create_fcf c buf) = Some (out [fcf_byte0 c, fcf_byte1 c] buf)"
  by (cases buf; cases "tl buf") (simp_all add: frame802154_create_fcf_def wr_in out_def)

lemma key_mode_cases: "m < (4 :: u8) \<Longrightarrow> m = 0 \<or> m = 1 \<or> m = 2 \<or> m = 3"
proof -
  assume "m < 4"
  then have "unat m < 4"
    by (simp add: word_less_nat_alt)
  then have "unat m = 0 \<or> unat m = 1 \<or> unat m = 2 \<or> unat m = 3"
    by linarith
  then show ?thesis
    by (auto simp: word_unat_eq_iff)
qed

lemma length_pid_bytes [simp]: "length (pid_bytes pid) = 2"
  by (simp add: pid_bytes_def)

lemma length_addr_bytes [simp]: "length a = 8 \<Longrightarrow> length (addr_bytes m a) = unat (addr_len m)"
  by (simp add: addr_bytes_def addr_len_def)

lemma create_aux_out:
  assumes "frame_ok p" "length bs + length (aux_bytes ls (f_aux_hdr p)) \<le> length buf"
  shows "create_aux ls (f_aux_hdr p) (out bs buf) = Some (out (bs @ aux_bytes ls (f_aux_hdr p)) buf)"
  using assms by (auto simp: create_aux_def aux_bytes_def Let_def put_out put_n_out frame_ok_def out_def [of _ buf, symmetric]
      split: prod.split dest!: key_mode_cases)

lemma length_aux_bytes:
  assumes "frame_ok p"
  shows "unat (aux_len ls p) = (if uses_aux_header ls \<and> security_enabled (f_fcf p) AND 1 \<noteq> 0 then length (aux_bytes ls (f_aux_hdr p)) else 0)"
  using assms by (auto simp: aux_len_def aux_bytes_def Let_def frame_ok_def get_key_id_len_def dest!: key_mode_cases)

lemma field_len_frame:
  "f_dest_addr (fst (field_len ls p)) = f_dest_addr p" "f_src_addr (fst (field_len ls p)) = f_src_addr p" "f_seq (fst (field_len ls p)) = f_seq p"
  "f_dest_pid (fst (field_len ls p)) = f_dest_pid p" "f_src_pid (fst (field_len ls p)) = f_src_pid p"
  "f_aux_hdr (fst (field_len ls p)) = f_aux_hdr p" "frame_ok (fst (field_len ls p)) = frame_ok p"
  by (simp_all add: field_len_def Let_def frame_ok_def split: prod.split)

lemma field_len_lengths:
  assumes "field_len ls p = (q, l)"
  shows "seqno_len l = (if sequence_number_suppression (f_fcf q) AND 1 = 0 then 1 else 0)"
    "dest_pid_len l = (if snd (frame802154_has_panid (f_fcf q)) then 2 else 0)"
    "src_pid_len l = (if fst (frame802154_has_panid (f_fcf q)) then 2 else 0)"
    "dest_addr_len l = addr_len (dest_addr_mode (f_fcf q) AND 3)" "src_addr_len l = addr_len (src_addr_mode (f_fcf q) AND 3)"
    "aux_sec_len l = aux_len ls q"
  using assms by (auto simp: field_len_def Let_def split: prod.splits)

lemma aux_len_le: "unat (aux_len ls p) \<le> 15"
  by (simp add: aux_len_def get_key_id_len_def Let_def)

lemma addr_len_le: "unat (addr_len m) \<le> 8"
  by (simp add: addr_len_def)

lemma header_length:
  assumes "frame_ok p"
  shows "frame802154_hdrlen ls p = (int (length (header_bytes ls p)), fst (field_len ls p))" "length (header_bytes ls p) \<le> 38"
proof -
  obtain q l where e: "field_len ls p = (q, l)"
    by fastforce
  have q: "frame_ok q" "length (f_dest_addr q) = 8" "length (f_src_addr q) = 8"
    using assms field_len_frame(7) [of ls p] e by (simp_all add: frame_ok_def)
  note n = length_aux_bytes [OF q(1), of ls] field_len_lengths [OF e]
  have aux: "unat (aux_sec_len l) = (if aux_sec_len l \<noteq> 0 then length (aux_bytes ls (f_aux_hdr q)) else 0)"
  proof (cases "aux_sec_len l = 0")
    case False
    with n(1) show ?thesis
      unfolding n(7) by (auto simp: aux_len_def split: if_splits)
  qed simp
  have total: "length (header_bytes ls p) = 2 + unat (seqno_len l) + unat (dest_pid_len l) + unat (dest_addr_len l) + unat (src_pid_len l)
      + unat (src_addr_len l) + unat (aux_sec_len l)"
    unfolding aux using q(2,3) by (simp add: header_bytes_def e n(2-6) Let_def)
  then show "frame802154_hdrlen ls p = (int (length (header_bytes ls p)), fst (field_len ls p))"
    by (simp add: frame802154_hdrlen_def e)
  have "unat (seqno_len l) \<le> 1" "unat (dest_pid_len l) \<le> 2" "unat (src_pid_len l) \<le> 2" "unat (dest_addr_len l) \<le> 8"
    "unat (src_addr_len l) \<le> 8" "unat (aux_sec_len l) \<le> 15"
    using aux_len_le addr_len_le by (simp_all add: n(2-))
  with total show "length (header_bytes ls p) \<le> 38"
    by linarith
qed

lemma create_header:
  assumes "frame_ok p" "length (header_bytes ls p) \<le> length buf"
  shows "frame802154_create ls p buf = Some (int (length (header_bytes ls p)), fst (field_len ls p), header_bytes ls p @ drop (length (header_bytes ls p)) buf)"
proof -
  obtain q l where e: "field_len ls p = (q, l)"
    by fastforce
  have q: "frame_ok q" "length (f_dest_addr q) = 8" "length (f_src_addr q) = 8"
    using assms(1) field_len_frame(7) [of ls p] e by (simp_all add: frame_ok_def)
  note n = length_aux_bytes [OF q(1), of ls] field_len_lengths [OF e]
  let ?c = "f_fcf q"
  define b1 where "b1 = [fcf_byte0 ?c, fcf_byte1 ?c]"
  define b2 where "b2 = b1 @ (if seqno_len l = 1 then [f_seq q] else [])"
  define b3 where "b3 = b2 @ (if dest_pid_len l = 2 then pid_bytes (f_dest_pid q) else [])"
  define b4 where "b4 = b3 @ addr_bytes (dest_addr_mode ?c AND 3) (f_dest_addr q)"
  define b5 where "b5 = b4 @ (if src_pid_len l = 2 then pid_bytes (f_src_pid q) else [])"
  define b6 where "b6 = b5 @ addr_bytes (src_addr_mode ?c AND 3) (f_src_addr q)"
  have h: "header_bytes ls p = b6 @ (if aux_sec_len l \<noteq> 0 then aux_bytes ls (f_aux_hdr q) else [])"
    by (simp add: header_bytes_def e b1_def b2_def b3_def b4_def b5_def b6_def Let_def)
  have len: "length b6 + (if aux_sec_len l \<noteq> 0 then length (aux_bytes ls (f_aux_hdr q)) else 0) \<le> length buf"
    using assms(2) unfolding h by (simp split: if_splits)
  then have le: "length b1 \<le> length buf" "length b2 \<le> length buf" "length b3 \<le> length buf" "length b4 \<le> length buf" "length b5 \<le> length buf" "length b6 \<le> length buf"
    unfolding b2_def b3_def b4_def b5_def b6_def by (simp_all split: if_splits)
  have 1: "frame802154_create_fcf ?c buf = Some (snd (out b1 buf))" "fst (out b1 buf) = 2"
    using create_fcf_out [of buf ?c] le(1) by (auto simp: b1_def out_def)
  have 2: "(if seqno_len l = 1 then put (f_seq q) (out b1 buf) else Some (out b1 buf)) = Some (out b2 buf)"
    using le(2) by (simp add: b2_def put_out split: if_splits)
  have 3: "(if dest_pid_len l = 2 then put_pid (f_dest_pid q) (out b2 buf) else Some (out b2 buf)) = Some (out b3 buf)"
    using le(3) by (simp add: b3_def put_pid_out split: if_splits)
  have 4: "put_addr (f_dest_addr q) (unat (dest_addr_len l)) (out b3 buf) = Some (out b4 buf)"
    using le(4) q(2) addr_len_le by (simp add: b4_def n put_addr_out) (simp add: addr_bytes_def)
  have 5: "(if src_pid_len l = 2 then put_pid (f_src_pid q) (out b4 buf) else Some (out b4 buf)) = Some (out b5 buf)"
    using le(5) by (simp add: b5_def put_pid_out split: if_splits)
  have 6: "put_addr (f_src_addr q) (unat (src_addr_len l)) (out b5 buf) = Some (out b6 buf)"
    using le(6) q(3) addr_len_le by (simp add: b6_def n put_addr_out) (simp add: addr_bytes_def)
  have on: "aux_sec_len l \<noteq> 0 \<Longrightarrow> uses_aux_header ls"
    unfolding n(7) by (auto simp: aux_len_def split: if_splits)
  have 7: "(if uses_aux_header ls \<and> aux_sec_len l \<noteq> 0 then create_aux ls (f_aux_hdr q) (out b6 buf) else Some (out b6 buf))
    = Some (out (header_bytes ls p) buf)"
    using len on create_aux_out [OF q(1), of b6 ls buf] unfolding h by auto
  have p1: "(2, snd (out b1 buf)) = out b1 buf"
    by (simp flip: 1(2))
  show ?thesis
    unfolding frame802154_create_def e Let_def prod.case 1(1) bind.bind_lunit p1 2 3 4 5 6 7 by (simp add: out_def)
qed

section \<open>A parsed header is the frame it was made from\<close>

definition fcf_ok :: "frame802154_fcf \<Rightarrow> bool" where
  "fcf_ok c \<longleftrightarrow> frame_type c AND 7 = frame_type c \<and> security_enabled c AND 1 = security_enabled c \<and> frame_pending c AND 1 = frame_pending c
     \<and> ack_required c AND 1 = ack_required c \<and> panid_compression c AND 1 = panid_compression c
     \<and> sequence_number_suppression c AND 1 = sequence_number_suppression c \<and> ie_list_present c AND 1 = ie_list_present c
     \<and> frame_version c AND 3 = frame_version c \<and> dest_addr_mode c \<in> {0, 2, 3} \<and> src_addr_mode c \<in> {0, 2, 3}"

lemma bits_of_fields:
  fixes x y z w v :: u8
  shows "((x AND 7) OR push_bit 3 (y AND 1) OR push_bit 4 (z AND 1) OR push_bit 5 (w AND 1) OR push_bit 6 (v AND 1)) AND 7 = x AND 7"
    "drop_bit 3 ((x AND 7) OR push_bit 3 (y AND 1) OR push_bit 4 (z AND 1) OR push_bit 5 (w AND 1) OR push_bit 6 (v AND 1)) AND 1 = y AND 1"
    "drop_bit 4 ((x AND 7) OR push_bit 3 (y AND 1) OR push_bit 4 (z AND 1) OR push_bit 5 (w AND 1) OR push_bit 6 (v AND 1)) AND 1 = z AND 1"
    "drop_bit 5 ((x AND 7) OR push_bit 3 (y AND 1) OR push_bit 4 (z AND 1) OR push_bit 5 (w AND 1) OR push_bit 6 (v AND 1)) AND 1 = w AND 1"
    "drop_bit 6 ((x AND 7) OR push_bit 3 (y AND 1) OR push_bit 4 (z AND 1) OR push_bit 5 (w AND 1) OR push_bit 6 (v AND 1)) AND 1 = v AND 1"
    "((x AND 1) OR push_bit 1 (y AND 1) OR push_bit 2 (z AND 3) OR push_bit 4 (w AND 3) OR push_bit 6 (v AND 3)) AND 1 = x AND 1"
    "drop_bit 1 ((x AND 1) OR push_bit 1 (y AND 1) OR push_bit 2 (z AND 3) OR push_bit 4 (w AND 3) OR push_bit 6 (v AND 3)) AND 1 = y AND 1"
    "drop_bit 2 ((x AND 1) OR push_bit 1 (y AND 1) OR push_bit 2 (z AND 3) OR push_bit 4 (w AND 3) OR push_bit 6 (v AND 3)) AND 3 = z AND 3"
    "drop_bit 4 ((x AND 1) OR push_bit 1 (y AND 1) OR push_bit 2 (z AND 3) OR push_bit 4 (w AND 3) OR push_bit 6 (v AND 3)) AND 3 = w AND 3"
    "drop_bit 6 ((x AND 1) OR push_bit 1 (y AND 1) OR push_bit 2 (z AND 3) OR push_bit 4 (w AND 3) OR push_bit 6 (v AND 3)) AND 3 = v AND 3"
  by (rule bit_word_eqI; simp add: bit_and_iff bit_or_iff bit_drop_bit_eq bit_1_iff bit_push_bit_iff del: push_bit_Suc; auto simp: bit_numeral_rec bit_1_iff simp del: push_bit_Suc split: nat.splits)+

lemma parse_fcf: "fcf_ok c \<Longrightarrow> frame802154_parse_fcf (fcf_byte0 c # fcf_byte1 c # bs) = Some c"
proof -
  assume ok: "fcf_ok c"
  have rd: "rd (a # b # bs) 0 = Some a" "rd (a # b # bs) 1 = Some b" for a b :: u8
    by (simp_all add: rd_def)
  have "frame802154_parse_fcf (fcf_byte0 c # fcf_byte1 c # bs) = Some \<lparr>frame_type = frame_type c AND 7,
    security_enabled = security_enabled c AND 1, frame_pending = frame_pending c AND 1, ack_required = ack_required c AND 1,
    panid_compression = panid_compression c AND 1, sequence_number_suppression = sequence_number_suppression c AND 1,
    ie_list_present = ie_list_present c AND 1, dest_addr_mode = dest_addr_mode c AND 3,
    frame_version = frame_version c AND 3, src_addr_mode = src_addr_mode c AND 3\<rparr>"
    unfolding frame802154_parse_fcf_def fcf_byte0_def fcf_byte1_def by (simp only: rd bits_of_fields bind.bind_lunit)
  moreover have "dest_addr_mode c AND 3 = dest_addr_mode c" "src_addr_mode c AND 3 = src_addr_mode c"
    using ok by (auto simp: fcf_ok_def)
  ultimately show ?thesis
    using ok by (simp add: fcf_ok_def)
qed

lemma and_ff: "(x :: u16) AND 0xff = take_bit 8 x"
  by (simp add: take_bit_eq_mask mask_eq_exp_minus_1)

lemma pid_bytes_le16: "pid_bytes x = le16 x"
proof -
  have "(ucast (y AND 0xff :: u16) :: u8) = ucast y" for y :: u16
    unfolding and_ff by (rule bit_word_eqI) (auto simp: bit_simps)
  then show ?thesis
    by (simp add: pid_bytes_def le16_def)
qed

lemma rd_append: "rd (pre @ bs) (length pre + k) = rd bs k" "rd (pre @ bs) (length pre) = rd bs 0" "rd (pre @ bs) (Suc (length pre)) = rd bs 1"
  by (auto simp: rd_def nth_append)

lemma rd_n_append_more: "n \<le> length bs \<Longrightarrow> rd_n (pre @ bs) (length pre) n = Some (take n bs)"
  by (simp add: rd_n_def)

lemma get_pid_header: "get_pid (pre @ pid_bytes x @ post) (length pre) = Some (x, length pre + 2)"
proof -
  obtain a b where ab: "pid_bytes x = [a, b]" "of_le16 [a, b] = Some x"
    using of_le16_le16 [of x] unfolding pid_bytes_le16 by (auto simp: le16_def)
  then have "ucast a + push_bit 8 (ucast b) = x"
    by (simp add: of_le16_def plus_eq_or_u16)
  then show ?thesis
    by (simp add: get_pid_def rd_append ab(1)) (simp add: rd_def)
qed

lemma get_addr_loop_header:
  assumes "length a = 8" "length old = 8" "k \<le> 8"
  shows "get_addr_loop (pre @ rev a @ post) (length pre) k old = Some (take (8 - k) old @ drop (8 - k) a)"
  using assms(2,3)
proof (induction k arbitrary: old)
  case (Suc k)
  have 1: "rd (pre @ rev a @ post) (length pre + k) = Some (a ! (7 - k))"
    using Suc.prems assms(1) by (simp add: rd_append) (simp add: rd_def nth_append rev_nth)
  have 2: "wr old (7 - k) (a ! (7 - k)) = Some (old[7 - k := a ! (7 - k)])"
    using Suc.prems by (simp add: wr_in)
  have e: "8 - k = Suc (7 - k)" "8 - Suc k = 7 - k"
    using Suc.prems by auto
  have "take (8 - k) (old[7 - k := a ! (7 - k)]) @ drop (8 - k) a = take (8 - Suc k) old @ drop (8 - Suc k) a"
    unfolding e using Suc.prems assms(1) by (simp add: take_Suc_conv_app_nth Cons_nth_drop_Suc [symmetric])
  then show ?case
    using Suc.IH [of "old[7 - k := a ! (7 - k)]"] Suc.prems 1 2 by simp
qed (use assms(1) in simp)

text \<open>The addresses of a mode: nothing for none, two bytes and zeros for a short one.\<close>

definition addr_of_mode :: "u8 \<Rightarrow> u8 list \<Rightarrow> bool" where
  "addr_of_mode m a \<longleftrightarrow> length a = 8 \<and> (m = 0 \<longrightarrow> a = linkaddr_null) \<and> (m = 2 \<longrightarrow> drop 2 a = replicate 6 0)"

lemma get_addr_header:
  assumes "addr_of_mode m a" "m \<in> {2, 3}" "length old = 8"
  shows "get_addr m (pre @ addr_bytes m a @ post) (length pre) old = Some (a, length pre + length (addr_bytes m a))"
proof (cases "m = 3")
  case True
  then show ?thesis
    using assms get_addr_loop_header [of a old 8 pre post]
    by (simp add: get_addr_def frame_constants addr_bytes_def addr_len_def addr_of_mode_def)
next
  case False
  then have m: "m = 2"
    using assms(2) by simp
  obtain x y where a: "a = [x, y, 0, 0, 0, 0, 0, 0]"
    using assms(1) m by (cases a; cases "tl a") (simp_all add: addr_of_mode_def numeral_eq_Suc)
  show ?thesis
    by (simp add: get_addr_def frame_constants addr_bytes_def addr_len_def m a rd_append linkaddr_null_def linkaddr_copy_def LINKADDR_SIZE_def)
      (simp add: rd_def wr_def numeral_eq_Suc)
qed

lemma addr_bytes_none [simp]: "addr_bytes 0 a = []"
  by (simp add: addr_bytes_def addr_len_def frame_constants)

lemma linkaddr_copy_null: "linkaddr_copy a linkaddr_null = linkaddr_null"
  by simp

lemma parse_dest_header:
  assumes "dest_addr_mode (f_fcf pf) = m" "m \<in> {0, 2, 3}" "m = 0 \<longrightarrow> \<not> hdp" "addr_of_mode m a" "length (f_dest_addr pf) = 8"
    and bs: "bs = (if hdp then pid_bytes pid else []) @ addr_bytes m a"
  shows "parse_dest (pre @ bs @ post) hdp (pf, length pre)
    = Some (pf\<lparr>f_dest_pid := if hdp then pid else 0, f_dest_addr := a\<rparr>, length pre + length bs)"
proof (cases "m = 0")
  case True
  then show ?thesis
    using assms by (simp add: parse_dest_def addr_of_mode_def)
next
  case False
  then have m: "m \<in> {2, 3}"
    using assms(2) by simp
  have 1: "(if hdp then get_pid (pre @ bs @ post) (length pre) else Some (0, length pre))
      = Some (if hdp then pid else 0, length (pre @ (if hdp then pid_bytes pid else [])))"
    using get_pid_header [of pre pid "addr_bytes m a @ post"] by (simp add: bs)
  have 2: "get_addr m (pre @ bs @ post) (length (pre @ (if hdp then pid_bytes pid else []))) (f_dest_addr pf) = Some (a, length pre + length bs)"
    using get_addr_header [OF assms(4) m assms(5), of "pre @ (if hdp then pid_bytes pid else [])" post] by (simp add: bs)
  show ?thesis
    unfolding parse_dest_def prod.case 1 assms(1) bind.bind_lunit 2 using False by simp
qed

lemma parse_src_header:
  assumes "src_addr_mode (f_fcf pf) = m" "m \<in> {0, 2, 3}" "m = 0 \<longrightarrow> \<not> hsp" "addr_of_mode m a" "length (f_src_addr pf) = 8"
    and bs: "bs = (if hsp then pid_bytes pid else []) @ addr_bytes m a"
    and pids: "\<not> hsp \<longrightarrow> pid = (if m = 0 then 0 else f_dest_pid pf)"
  shows "parse_src (pre @ bs @ post) hsp hdp (pf, length pre)
    = Some (pf\<lparr>f_dest_pid := if hsp \<and> \<not> hdp then pid else f_dest_pid pf, f_src_pid := pid, f_src_addr := a\<rparr>, length pre + length bs)"
proof (cases "m = 0")
  case True
  then show ?thesis
    using assms by (simp add: parse_src_def addr_of_mode_def)
next
  case False
  then have m: "m \<in> {2, 3}"
    using assms(2) by simp
  have 2: "get_addr m (pre @ bs @ post) (length (pre @ (if hsp then pid_bytes pid else []))) (f_src_addr pf) = Some (a, length pre + length bs)"
    using get_addr_header [OF assms(4) m assms(5), of "pre @ (if hsp then pid_bytes pid else [])" post] by (simp add: bs)
  show ?thesis
  proof (cases hsp)
    case True
    have 1: "get_pid (pre @ bs @ post) (length pre) = Some (pid, length (pre @ pid_bytes pid))"
      using True get_pid_header [of pre pid "addr_bytes m a @ post"] by (simp add: bs)
    show ?thesis
      using True False assms(1) 1 2 by (simp add: parse_src_def)
  next
    case False
    with \<open>m \<noteq> 0\<close> assms(1) 2 pids show ?thesis
      by (simp add: parse_src_def)
  qed
qed

definition scf_ok :: "frame802154_scf \<Rightarrow> bool" where
  "scf_ok sc \<longleftrightarrow> security_level sc AND 7 = security_level sc \<and> key_id_mode sc < 4
     \<and> frame_counter_suppression sc \<in> {0, 1} \<and> frame_counter_size sc = 0"

text \<open>The fields of the auxiliary header that are transmitted.\<close>

definition same_aux :: "llsec \<Rightarrow> frame802154_aux_hdr \<Rightarrow> frame802154_aux_hdr \<Rightarrow> bool" where
  "same_aux ls a b \<longleftrightarrow> (let s = security_control a; t = security_control b in
     security_level t = security_level s \<and> frame_counter_suppression t = frame_counter_suppression s
     \<and> frame_counter_size t = frame_counter_size s \<and> (frame_counter_suppression s = 0 \<longrightarrow> frame_counter b = frame_counter a)
     \<and> (uses_explicit_keys ls \<longrightarrow> key_id_mode t = key_id_mode s
         \<and> (key_id_mode s \<noteq> 0 \<longrightarrow> key_index b = key_index a
             \<and> take ((unat (key_id_mode s) - 1) * 4) (key_source b) = take ((unat (key_id_mode s) - 1) * 4) (key_source a))))"

lemma bits_of_scf:
  fixes l k s :: u8
  shows "((l AND 7) OR push_bit 3 (k AND 3) OR push_bit 5 (s AND 1)) AND 7 = l AND 7"
    "drop_bit 3 ((l AND 7) OR push_bit 3 (k AND 3) OR push_bit 5 (s AND 1)) AND 3 = k AND 3"
    "drop_bit 5 ((l AND 7) OR push_bit 3 (k AND 3) OR push_bit 5 (s AND 1)) = s AND 1"
    "drop_bit 6 ((l AND 7) OR push_bit 3 (k AND 3) OR push_bit 5 (s AND 1)) = 0"
  by (rule bit_word_eqI; simp add: bit_and_iff bit_or_iff bit_drop_bit_eq bit_1_iff bit_push_bit_iff del: push_bit_Suc; auto simp: bit_numeral_rec bit_1_iff simp del: push_bit_Suc split: nat.splits)+

lemma scf_byte:
  assumes "scf_ok sc"
  shows "scf_byte ls sc AND 7 = security_level sc" "uses_explicit_keys ls \<Longrightarrow> drop_bit 3 (scf_byte ls sc) AND 3 = key_id_mode sc"
    "drop_bit 5 (scf_byte ls sc) = frame_counter_suppression sc" "drop_bit 6 (scf_byte ls sc) = 0"
proof -
  let ?k = "if uses_explicit_keys ls then key_id_mode sc else 0"
  have m: "security_level sc = security_level sc AND 7" "?k = ?k AND 3" "frame_counter_suppression sc = frame_counter_suppression sc AND 1"
    using assms by (auto simp: scf_ok_def dest!: key_mode_cases)
  have "scf_byte ls sc = (security_level sc AND 7) OR push_bit 3 (?k AND 3) OR push_bit 5 (frame_counter_suppression sc AND 1)"
    using assms m by (simp add: scf_byte_def scf_ok_def)
  note b = bits_of_scf [of "security_level sc" ?k "frame_counter_suppression sc", folded this]
  show "scf_byte ls sc AND 7 = security_level sc" "uses_explicit_keys ls \<Longrightarrow> drop_bit 3 (scf_byte ls sc) AND 3 = key_id_mode sc"
    "drop_bit 5 (scf_byte ls sc) = frame_counter_suppression sc" "drop_bit 6 (scf_byte ls sc) = 0"
    using b m by simp_all
qed

text \<open>The buffers of a struct that a frame is parsed into.\<close>

definition struct_ok :: "frame802154 \<Rightarrow> bool" where
  "struct_ok p \<longleftrightarrow> length (f_dest_addr p) = 8 \<and> length (f_src_addr p) = 8 \<and> length (frame_counter (f_aux_hdr p)) = 4
     \<and> length (key_source (f_aux_hdr p)) = 8"

lemma parse_aux_header:
  assumes sc: "scf_ok (security_control a)" and a: "length (frame_counter a) = 4" "length (key_source a) = 8" and pf: "struct_ok pf"
  shows "\<exists>b. parse_aux ls (pre @ aux_bytes ls a @ post) (pf, length pre) = Some (pf\<lparr>f_aux_hdr := b\<rparr>, length pre + length (aux_bytes ls a))
    \<and> same_aux ls a b"
proof -
  let ?sc = "security_control a" and ?c = "frame_counter a" and ?x = "f_aux_hdr pf"
  let ?keyed = "uses_explicit_keys ls \<and> key_id_mode ?sc \<noteq> 0" and ?n = "(unat (key_id_mode ?sc) - 1) * 4"
  let ?ks = "take ?n (key_source a)"
  let ?cs = "if frame_counter_suppression ?sc = 0 then ?c else []"
  let ?kb = "if ?keyed then ?ks @ [key_index a] else []"
  have n: "?n \<le> 8"
    using sc by (auto simp: scf_ok_def dest!: key_mode_cases)
  have bs: "aux_bytes ls a = scf_byte ls ?sc # ?cs @ ?kb"
    by (simp add: aux_bytes_def Let_def)
  note b = scf_byte [OF sc, of ls]
  let ?t = "(security_control ?x)\<lparr>security_level := security_level ?sc, frame_counter_suppression := frame_counter_suppression ?sc, frame_counter_size := 0\<rparr>"
  define t where "t = (if uses_explicit_keys ls then ?t\<lparr>key_id_mode := key_id_mode ?sc\<rparr> else ?t)"
  define a1 where "a1 = ?x\<lparr>security_control := t\<rparr>"
  define a2 where "a2 = (if frame_counter_suppression ?sc = 0 then a1\<lparr>frame_counter := ?c\<rparr> else a1)"
  define a3 where "a3 = (if ?keyed then a2\<lparr>key_source := ?ks @ drop ?n (key_source a2), key_index := key_index a\<rparr> else a2)"
  let ?p1 = "pre @ [scf_byte ls ?sc]"
  have data: "pre @ aux_bytes ls a @ post = ?p1 @ ?cs @ ?kb @ post"
    by (simp add: bs)
  have len: "length (frame_counter a1) = 4" "length (key_source a2) = 8"
    using pf by (simp_all add: a1_def a2_def struct_ok_def)
  have t: "frame_counter_suppression t = frame_counter_suppression ?sc" "frame_counter_size t = 0" "uses_explicit_keys ls \<Longrightarrow> key_id_mode t = key_id_mode ?sc"
    by (simp_all add: t_def)
  have a1_sc: "security_control a1 = t" and a2_sc: "security_control a2 = t"
    by (simp_all add: a1_def a2_def)
  have 1: "rd (pre @ aux_bytes ls a @ post) (length pre) = Some (scf_byte ls ?sc)"
    by (simp add: bs rd_append) (simp add: rd_def)
  let ?v = "scf_byte ls ?sc"
  have byte: "(if uses_explicit_keys ls then (security_control ?x)\<lparr>security_level := ?v AND 7, frame_counter_suppression := drop_bit 5 ?v,
      frame_counter_size := drop_bit 6 ?v, key_id_mode := drop_bit 3 ?v AND 3\<rparr>
    else (security_control ?x)\<lparr>security_level := ?v AND 7, frame_counter_suppression := drop_bit 5 ?v, frame_counter_size := drop_bit 6 ?v\<rparr>) = t"
    using b by (simp add: t_def)
  have a1': "?x\<lparr>security_control := t\<rparr> = a1"
    by (simp add: a1_def)
  have 2: "parse_counter (pre @ aux_bytes ls a @ post) (a1, length pre + 1) = Some (a2, length (?p1 @ ?cs))"
    unfolding data using a(1) len(1) rd_n_append_more [of 4 "?c @ ?kb @ post" ?p1] by (simp add: parse_counter_def t a1_sc a2_def wr_n_in)
  have 3: "parse_key ls (pre @ aux_bytes ls a @ post) (a2, length (?p1 @ ?cs)) = Some (a3, length (?p1 @ ?cs @ ?kb))"
  proof (cases ?keyed)
    case True
    have r: "rd_n ((?p1 @ ?cs) @ ?ks @ key_index a # post) (length (?p1 @ ?cs)) ?n = Some ?ks"
      using rd_n_append_more [of ?n "?ks @ key_index a # post" "?p1 @ ?cs"] n a(2) by simp
    have v: "rd ((?p1 @ ?cs) @ ?ks @ key_index a # post) (length (?p1 @ ?cs) + ?n) = Some (key_index a)"
      using n a(2) by (simp only: rd_append) (simp add: rd_def nth_append)
    have d: "pre @ aux_bytes ls a @ post = (?p1 @ ?cs) @ ?ks @ key_index a # post"
      using True by (simp add: bs)
    show ?thesis
      unfolding d using True t(3) n a(2) len(2) r v by (simp add: parse_key_def Let_def a2_sc a3_def wr_n_in)
  qed (use t(3) in \<open>auto simp: parse_key_def a2_sc a3_def\<close>)
  have "parse_aux ls (pre @ aux_bytes ls a @ post) (pf, length pre) = Some (pf\<lparr>f_aux_hdr := a3\<rparr>, length pre + length (aux_bytes ls a))"
    unfolding parse_aux_def prod.case 1 bind.bind_lunit Let_def byte a1' 2 3 by (simp add: bs)
  moreover have "same_aux ls a a3"
    using sc a n by (auto simp: same_aux_def Let_def a3_def a2_def a1_def t_def scf_ok_def)
  ultimately show ?thesis
    by blast
qed

text \<open>
  A frame that a header can express.  The compression bit is the one that \<open>field_len\<close> sets; the fields that are not
  transmitted have the values that a parsed frame gets; a destination PAN identifier needs a destination address, because
  \<open>frame802154_parse\<close> skips the identifier otherwise (\<open>dest_pid_without_address\<close> below).
\<close>

definition canonical :: "llsec \<Rightarrow> frame802154 \<Rightarrow> bool" where
  "canonical ls p \<longleftrightarrow> (let c = f_fcf p; (has_src, has_dest) = frame802154_has_panid c in
     frame_ok p \<and> fcf_ok c \<and> fst (field_len ls p) = p
     \<and> addr_of_mode (dest_addr_mode c) (f_dest_addr p) \<and> addr_of_mode (src_addr_mode c) (f_src_addr p)
     \<and> (dest_addr_mode c = 0 \<longrightarrow> \<not> has_dest) \<and> (\<not> has_dest \<longrightarrow> f_dest_pid p = (if has_src then f_src_pid p else 0))
     \<and> (\<not> has_src \<longrightarrow> f_src_pid p = (if src_addr_mode c = 0 then 0 else f_dest_pid p))
     \<and> (uses_aux_header ls \<and> security_enabled c \<noteq> 0 \<longrightarrow> scf_ok (security_control (f_aux_hdr p))))"

definition same_header :: "llsec \<Rightarrow> frame802154 \<Rightarrow> frame802154 \<Rightarrow> bool" where
  "same_header ls p q \<longleftrightarrow> f_fcf q = f_fcf p \<and> f_dest_addr q = f_dest_addr p \<and> f_src_addr q = f_src_addr p
     \<and> f_dest_pid q = f_dest_pid p \<and> f_src_pid q = f_src_pid p
     \<and> (sequence_number_suppression (f_fcf p) = 0 \<longrightarrow> f_seq q = f_seq p)
     \<and> (uses_aux_header ls \<and> security_enabled (f_fcf p) \<noteq> 0 \<longrightarrow> same_aux ls (f_aux_hdr p) (f_aux_hdr q))"

lemma has_src_needs_address:
  "fst (frame802154_has_panid c) \<Longrightarrow> src_addr_mode c \<noteq> 0"
  by (auto simp: frame802154_has_panid_def Let_def frame_constants split: if_splits)

lemma canonical_header:
  assumes "canonical ls p"
  defines "c \<equiv> f_fcf p"
  shows "header_bytes ls p = [fcf_byte0 c, fcf_byte1 c] @ (if sequence_number_suppression c = 0 then [f_seq p] else [])
    @ ((if snd (frame802154_has_panid c) then pid_bytes (f_dest_pid p) else []) @ addr_bytes (dest_addr_mode c) (f_dest_addr p))
    @ ((if fst (frame802154_has_panid c) then pid_bytes (f_src_pid p) else []) @ addr_bytes (src_addr_mode c) (f_src_addr p))
    @ (if uses_aux_header ls \<and> security_enabled c \<noteq> 0 then aux_bytes ls (f_aux_hdr p) else [])"
proof -
  have ok: "frame_ok p" "fcf_ok c" "fst (field_len ls p) = p"
    using assms by (auto simp: canonical_def Let_def split: prod.splits)
  obtain l where e: "field_len ls p = (p, l)"
    using ok(3) by (cases "field_len ls p") simp
  have m: "dest_addr_mode c AND 3 = dest_addr_mode c" "src_addr_mode c AND 3 = src_addr_mode c"
    "sequence_number_suppression c AND 1 = sequence_number_suppression c" "security_enabled c AND 1 = security_enabled c"
    using ok(2) by (auto simp: fcf_ok_def)
  have a: "aux_len ls p \<noteq> 0 \<longleftrightarrow> uses_aux_header ls \<and> security_enabled c \<noteq> 0"
  proof (cases "uses_aux_header ls \<and> security_enabled c \<noteq> 0")
    case True
    then have "unat (aux_len ls p) = length (aux_bytes ls (f_aux_hdr p))"
      using length_aux_bytes [OF ok(1), of ls] m(4) by (simp add: c_def)
    then show ?thesis
      using True by (auto simp: aux_bytes_def Let_def)
  next
    case False
    then show ?thesis
      using m(4) by (auto simp: aux_len_def c_def)
  qed
  show ?thesis
    unfolding header_bytes_def e Let_def prod.case field_len_lengths [OF e] c_def [symmetric] m a by simp
qed

lemma parse_header:
  assumes p: "canonical ls p" and pf: "struct_ok pf" and len: "int (length (header_bytes ls p)) \<le> len"
  shows "\<exists>q. frame802154_parse ls (header_bytes ls p @ rest) len pf = Some (int (length (header_bytes ls p)), q) \<and> same_header ls p q
    \<and> f_payload q = length (header_bytes ls p) \<and> f_payload_len q = len - int (length (header_bytes ls p))"
proof -
  define c where "c = f_fcf p"
  obtain hsp hdp where pid: "frame802154_has_panid c = (hsp, hdp)"
    by fastforce
  have ok: "fcf_ok c" "addr_of_mode (dest_addr_mode c) (f_dest_addr p)" "addr_of_mode (src_addr_mode c) (f_src_addr p)"
    "dest_addr_mode c = 0 \<longrightarrow> \<not> hdp" "\<not> hdp \<longrightarrow> f_dest_pid p = (if hsp then f_src_pid p else 0)"
    "\<not> hsp \<longrightarrow> f_src_pid p = (if src_addr_mode c = 0 then 0 else f_dest_pid p)"
    "uses_aux_header ls \<and> security_enabled c \<noteq> 0 \<longrightarrow> scf_ok (security_control (f_aux_hdr p))"
    "length (frame_counter (f_aux_hdr p)) = 4" "length (key_source (f_aux_hdr p)) = 8"
    using p pid by (auto simp: canonical_def Let_def c_def frame_ok_def split: prod.splits)
  have modes: "dest_addr_mode c \<in> {0, 2, 3}" "src_addr_mode c \<in> {0, 2, 3}"
    using ok(1) by (auto simp: fcf_ok_def)
  have src: "src_addr_mode c = 0 \<longrightarrow> \<not> hsp"
    using has_src_needs_address [of c] pid by auto
  define b1 where "b1 = [fcf_byte0 c, fcf_byte1 c]"
  define b2 where "b2 = (if sequence_number_suppression c = 0 then [f_seq p] else [])"
  define b3 where "b3 = (if hdp then pid_bytes (f_dest_pid p) else []) @ addr_bytes (dest_addr_mode c) (f_dest_addr p)"
  define b4 where "b4 = (if hsp then pid_bytes (f_src_pid p) else []) @ addr_bytes (src_addr_mode c) (f_src_addr p)"
  define b5 where "b5 = (if uses_aux_header ls \<and> security_enabled c \<noteq> 0 then aux_bytes ls (f_aux_hdr p) else [])"
  have h: "header_bytes ls p = b1 @ b2 @ b3 @ b4 @ b5"
    using canonical_header [OF p] pid by (simp add: b1_def b2_def b3_def b4_def b5_def c_def)
  let ?data = "header_bytes ls p @ rest"
  define p1 where "p1 = pf\<lparr>f_fcf := c\<rparr>"
  define p2 where "p2 = (if sequence_number_suppression c = 0 then p1\<lparr>f_seq := f_seq p\<rparr> else p1)"
  define p3 where "p3 = p2\<lparr>f_dest_pid := if hdp then f_dest_pid p else 0, f_dest_addr := f_dest_addr p\<rparr>"
  define p4 where "p4 = p3\<lparr>f_dest_pid := if hsp \<and> \<not> hdp then f_src_pid p else f_dest_pid p3, f_src_pid := f_src_pid p, f_src_addr := f_src_addr p\<rparr>"
  have f: "dest_addr_mode (f_fcf p2) = dest_addr_mode c" "src_addr_mode (f_fcf p3) = src_addr_mode c" "f_fcf p4 = c" "length (f_dest_addr p2) = 8" "length (f_src_addr p3) = 8" "struct_ok p4"
    using pf ok(2,3) by (simp_all add: p1_def p2_def p3_def p4_def struct_ok_def addr_of_mode_def)
  have 1: "frame802154_parse_fcf ?data = Some c"
    using parse_fcf [OF ok(1)] by (simp add: h b1_def)
  have 2: "(if sequence_number_suppression c = 0 then do { v \<leftarrow> rd ?data 2; Some (p1\<lparr>f_seq := v\<rparr>, 3) } else Some (p1, 2)) = Some (p2, length (b1 @ b2))"
    by (simp add: h b1_def b2_def p2_def rd_def)
  have 3: "parse_dest ?data hdp (p2, length (b1 @ b2)) = Some (p3, length (b1 @ b2 @ b3))"
    using parse_dest_header [OF f(1) modes(1) ok(4,2) f(4) b3_def, of "b1 @ b2" "b4 @ b5 @ rest"] by (simp add: h p3_def)
  have 4: "parse_src ?data hsp hdp (p3, length (b1 @ b2 @ b3)) = Some (p4, length (b1 @ b2 @ b3 @ b4))"
  proof -
    have "\<not> hsp \<longrightarrow> f_src_pid p = (if src_addr_mode c = 0 then 0 else f_dest_pid p3)"
      using ok(5,6) by (auto simp: p3_def)
    from parse_src_header [OF f(2) modes(2) src ok(3) f(5) b4_def this, of "b1 @ b2 @ b3" "b5 @ rest" hdp] show ?thesis
      by (simp add: h p4_def)
  qed
  obtain q where 5: "(if uses_aux_header ls \<and> security_enabled c \<noteq> 0 then parse_aux ls ?data (p4, length (b1 @ b2 @ b3 @ b4))
      else Some (p4, length (b1 @ b2 @ b3 @ b4))) = Some (p4\<lparr>f_aux_hdr := q\<rparr>, length (header_bytes ls p))"
    and q: "uses_aux_header ls \<and> security_enabled c \<noteq> 0 \<longrightarrow> same_aux ls (f_aux_hdr p) q"
  proof (cases "uses_aux_header ls \<and> security_enabled c \<noteq> 0")
    case True
    then show thesis
      using parse_aux_header [OF ok(7) [rule_format, OF True] ok(8,9) f(6), of ls "b1 @ b2 @ b3 @ b4" rest] that by (auto simp: h b5_def)
  next
    case False
    then show thesis
      using that [of "f_aux_hdr p4"] by (auto simp: h b5_def)
  qed
  have "\<not> len < 2"
    using len by (simp add: h b1_def)
  then have "frame802154_parse ls ?data len pf = Some (int (length (header_bytes ls p)),
      p4\<lparr>f_aux_hdr := q, f_payload_len := len - int (length (header_bytes ls p)), f_payload := length (header_bytes ls p)\<rparr>)"
    unfolding frame802154_parse_def 1 bind.bind_lunit Let_def p1_def [symmetric] 2 prod.case pid 3 4 5 using len by simp
  moreover have "same_header ls p (p4\<lparr>f_aux_hdr := q, f_payload_len := l, f_payload := n\<rparr>)" for l n
    using q ok(5,6) f(3) by (auto simp: same_header_def p4_def p3_def p2_def p1_def c_def)
  ultimately show ?thesis
    by auto
qed


text \<open>A data frame from node 2 to node 1, with a security header and an explicit key.\<close>

definition secured :: llsec where
  "secured = \<lparr>uses_aux_header = True, uses_explicit_keys = True\<rparr>"

definition frame_example :: frame802154 where
  "frame_example = \<lparr>f_dest_addr = [1, 0, 0, 0, 0, 0, 0, 0], f_src_addr = [2, 0, 0, 0, 0, 0, 0, 0],
     f_fcf = \<lparr>frame_type = 1, security_enabled = 1, frame_pending = 0, ack_required = 1, panid_compression = 0,
       sequence_number_suppression = 0, ie_list_present = 0, dest_addr_mode = 3, frame_version = 2, src_addr_mode = 3\<rparr>,
     f_seq = 7, f_dest_pid = 0x4bb4, f_src_pid = 0x4bb4,
     f_aux_hdr = \<lparr>security_control = \<lparr>security_level = 5, key_id_mode = 1, frame_counter_suppression = 0, frame_counter_size = 0\<rparr>,
       frame_counter = [1, 2, 3, 4], key_source = replicate 8 0, key_index = 9\<rparr>,
     f_payload = 0, f_payload_len = 0\<rparr>"


text \<open>
  Two headers that do not survive: a destination PAN identifier without addresses is written but not read, and with
  frame counters of 5 bytes the size bit is taken for the suppression bit, so the counter is not read.
\<close>

lemma dest_pid_without_address:
  fixes p :: frame802154
  defines "p \<equiv> frame_example\<lparr>f_fcf := (f_fcf frame_example)\<lparr>security_enabled := 0, panid_compression := 1, dest_addr_mode := 0, src_addr_mode := 0\<rparr>\<rparr>"
  shows "fst (frame802154_hdrlen secured p) = 5"
    "map_option fst (frame802154_create secured p (replicate 10 0) \<bind> (\<lambda>(_, _, buf). frame802154_parse secured buf 10 p)) = Some 3"
  unfolding p_def by code_simp+

lemma long_counter_not_read:
  fixes p :: frame802154
  defines "p \<equiv> frame_example\<lparr>f_aux_hdr := (f_aux_hdr frame_example)\<lparr>security_control :=
    (security_control (f_aux_hdr frame_example))\<lparr>frame_counter_size := 1\<rparr>\<rparr>\<rparr>"
  shows "fst (frame802154_hdrlen secured p) = 28"
    "map_option fst (frame802154_create secured p (replicate 40 0) \<bind> (\<lambda>(_, _, buf). frame802154_parse secured buf 40 p)) = Some 23"
  unfolding p_def by code_simp+

section \<open>Arbitrary bytes\<close>

lemma get_pid_total: "p + 2 \<le> length data \<Longrightarrow> \<exists>x. get_pid data p = Some (x, p + 2)"
  by (simp add: get_pid_def rd_in)

lemma get_addr_loop_total: "p + k \<le> length data \<Longrightarrow> k \<le> 8 \<Longrightarrow> length a = 8 \<Longrightarrow> \<exists>b. get_addr_loop data p k a = Some b \<and> length b = 8"
  by (induction k arbitrary: a) (simp_all add: rd_in wr_in)

lemma get_addr_total:
  assumes "p + 8 \<le> length data" "length a = 8"
  shows "\<exists>b n. get_addr m data p a = Some (b, p + n) \<and> length b = 8 \<and> n \<le> 8"
  using assms get_addr_loop_total [of p 8 data a]
  by (auto simp: get_addr_def rd_in wr_in linkaddr_null_def LINKADDR_SIZE_def linkaddr_copy_def)

lemma parse_dest_total:
  assumes "p + 10 \<le> length data" "struct_ok pf"
  shows "\<exists>q n. parse_dest data hdp (pf, p) = Some (q, p + n) \<and> struct_ok q \<and> f_fcf q = f_fcf pf \<and> n \<le> 10"
proof (cases "dest_addr_mode (f_fcf pf) = 0")
  case False
  define p' where "p' = (if hdp then p + 2 else p)"
  obtain x where x: "(if hdp then get_pid data p else Some (0, p)) = Some (x, p')"
    using get_pid_total [of p data] assms(1) by (cases hdp) (auto simp: p'_def)
  have "p' + 8 \<le> length data" "length (f_dest_addr pf) = 8"
    using assms by (simp_all add: p'_def struct_ok_def)
  from get_addr_total [OF this, of "dest_addr_mode (f_fcf pf)"] obtain b n where
    b: "get_addr (dest_addr_mode (f_fcf pf)) data p' (f_dest_addr pf) = Some (b, p' + n)" "length b = 8" "n \<le> 8"
    by auto
  show ?thesis
    by (intro exI [of _ "pf\<lparr>f_dest_pid := x, f_dest_addr := b\<rparr>"] exI [of _ "p' + n - p"])
      (use False x b assms(2) in \<open>simp add: parse_dest_def p'_def struct_ok_def\<close>)
next
  case True
  then show ?thesis
    using assms(2) by (intro exI [of _ "pf\<lparr>f_dest_addr := linkaddr_null, f_dest_pid := 0\<rparr>"] exI [of _ 0]) (simp add: parse_dest_def linkaddr_copy_def struct_ok_def linkaddr_null_def LINKADDR_SIZE_def)
qed

lemma parse_src_total:
  assumes "p + 10 \<le> length data" "struct_ok pf"
  shows "\<exists>q n. parse_src data hsp hdp (pf, p) = Some (q, p + n) \<and> struct_ok q \<and> f_fcf q = f_fcf pf \<and> n \<le> 10"
proof (cases "src_addr_mode (f_fcf pf) = 0")
  case False
  define p' where "p' = (if hsp then p + 2 else p)"
  obtain x where x: "hsp \<longrightarrow> get_pid data p = Some (x, p')"
    using get_pid_total [of p data] assms(1) by (auto simp: p'_def)
  define q where "q = (if hsp then if hdp then pf\<lparr>f_src_pid := x\<rparr> else pf\<lparr>f_src_pid := x, f_dest_pid := x\<rparr> else pf\<lparr>f_src_pid := f_dest_pid pf\<rparr>)"
  have q: "struct_ok q" "f_fcf q = f_fcf pf" "f_src_addr q = f_src_addr pf"
    using assms(2) by (simp_all add: q_def struct_ok_def)
  have "p' + 8 \<le> length data" "length (f_src_addr pf) = 8"
    using assms by (simp_all add: p'_def struct_ok_def)
  from get_addr_total [OF this, of "src_addr_mode (f_fcf pf)"] obtain b n where
    b: "get_addr (src_addr_mode (f_fcf pf)) data p' (f_src_addr pf) = Some (b, p' + n)" "length b = 8" "n \<le> 8"
    by auto
  have "parse_src data hsp hdp (pf, p) = Some (q\<lparr>f_src_addr := b\<rparr>, p' + n)"
    using False x b(1) q by (cases hsp; cases hdp) (simp_all add: parse_src_def q_def p'_def)
  then show ?thesis
    by (intro exI [of _ "q\<lparr>f_src_addr := b\<rparr>"] exI [of _ "p' + n - p"]) (use q b in \<open>simp add: p'_def struct_ok_def\<close>)
next
  case True
  then show ?thesis
    using assms(2) by (intro exI [of _ "pf\<lparr>f_src_addr := linkaddr_null, f_src_pid := 0\<rparr>"] exI [of _ 0]) (simp add: parse_src_def linkaddr_copy_def struct_ok_def linkaddr_null_def LINKADDR_SIZE_def)
qed

lemma and_3_less: "(x :: u8) AND 3 < 4"
proof -
  have "x AND 3 = take_bit 2 x"
    by (simp add: take_bit_eq_mask mask_eq_exp_minus_1)
  then show ?thesis
    by (simp only: word_less_nat_alt unsigned_take_bit_eq) (simp add: take_bit_eq_mod)
qed

lemma parse_counter_total:
  assumes "p + 4 \<le> length data" "length (frame_counter a) = 4"
  shows "\<exists>b n. parse_counter data (a, p) = Some (b, p + n) \<and> length (frame_counter b) = 4 \<and> key_source b = key_source a
    \<and> security_control b = security_control a \<and> n \<le> 5"
proof (cases "frame_counter_suppression (security_control a) = 0")
  case True
  then show ?thesis
    using assms by (intro exI [of _ "a\<lparr>frame_counter := take 4 (drop p data)\<rparr>"]
        exI [of _ "if frame_counter_size (security_control a) = 1 then 5 else 4"]) (simp add: parse_counter_def rd_n_in wr_n_in)
next
  case False
  then show ?thesis
    using assms by (intro exI [of _ a] exI [of _ 0]) (simp add: parse_counter_def)
qed

lemma parse_key_total:
  assumes "p + 9 \<le> length data" "length (key_source a) = 8" "uses_explicit_keys ls \<longrightarrow> key_id_mode (security_control a) < 4"
  shows "\<exists>b n. parse_key ls data (a, p) = Some (b, p + n) \<and> frame_counter b = frame_counter a \<and> length (key_source b) = 8 \<and> n \<le> 9"
proof (cases "uses_explicit_keys ls \<and> key_id_mode (security_control a) \<noteq> 0")
  case True
  let ?n = "(unat (key_id_mode (security_control a)) - 1) * 4"
  have n: "?n \<le> 8"
    using assms(3) True by (auto dest!: key_mode_cases)
  have "parse_key ls data (a, p) = Some (a\<lparr>key_source := take ?n (drop p data) @ drop ?n (key_source a), key_index := data ! (p + ?n)\<rparr>, p + (?n + 1))"
    using assms True n by (simp add: parse_key_def Let_def rd_n_in rd_in wr_n_in)
  moreover have "length (take ?n (drop p data) @ drop ?n (key_source a)) = 8"
    using assms n by simp
  ultimately show ?thesis
    using n by (intro exI [of _ "a\<lparr>key_source := take ?n (drop p data) @ drop ?n (key_source a), key_index := data ! (p + ?n)\<rparr>"] exI [of _ "?n + 1"]) simp
next
  case False
  then show ?thesis
    using assms by (intro exI [of _ a] exI [of _ 0]) (auto simp: parse_key_def)
qed

lemma parse_aux_total:
  assumes "p + 15 \<le> length data" "struct_ok pf"
  shows "\<exists>q n. parse_aux ls data (pf, p) = Some (q, p + n) \<and> struct_ok q \<and> f_fcf q = f_fcf pf \<and> n \<le> 15"
proof -
  let ?x = "f_aux_hdr pf" and ?v = "data ! p"
  define sc where "sc = (if uses_explicit_keys ls then (security_control ?x)\<lparr>security_level := ?v AND 7,
      frame_counter_suppression := drop_bit 5 ?v, frame_counter_size := drop_bit 6 ?v, key_id_mode := drop_bit 3 ?v AND 3\<rparr>
    else (security_control ?x)\<lparr>security_level := ?v AND 7, frame_counter_suppression := drop_bit 5 ?v, frame_counter_size := drop_bit 6 ?v\<rparr>)"
  have k: "uses_explicit_keys ls \<longrightarrow> key_id_mode sc < 4"
    using and_3_less by (simp add: sc_def)
  have v: "rd data p = Some ?v"
    using assms(1) by (simp add: rd_in)
  obtain b n where b: "parse_counter data (?x\<lparr>security_control := sc\<rparr>, p + 1) = Some (b, p + 1 + n)" "length (frame_counter b) = 4"
    "key_source b = key_source ?x" "security_control b = sc" "n \<le> 5"
    using parse_counter_total [of "p + 1" data "?x\<lparr>security_control := sc\<rparr>"] assms by (auto simp: struct_ok_def)
  obtain c n' where c: "parse_key ls data (b, p + 1 + n) = Some (c, p + 1 + n + n')" "frame_counter c = frame_counter b" "length (key_source c) = 8" "n' \<le> 9"
    using parse_key_total [of "p + 1 + n" data b ls] assms b k by (auto simp: struct_ok_def)
  have "parse_aux ls data (pf, p) = Some (pf\<lparr>f_aux_hdr := c\<rparr>, p + 1 + n + n')"
    unfolding parse_aux_def prod.case v bind.bind_lunit Let_def sc_def [symmetric] b(1) c(1) by simp
  then show ?thesis
    by (intro exI [of _ "pf\<lparr>f_aux_hdr := c\<rparr>"] exI [of _ "1 + n + n'"]) (use assms(2) b c in \<open>simp add: struct_ok_def\<close>)
qed

text \<open>
  Whatever the bytes are, parsing stays within 38 bytes of the frame, finds a header of at most \<open>len\<close> bytes or gives 0, and
  leaves the struct well-formed.
\<close>

lemma parse_total:
  assumes data: "38 \<le> length data" and pf: "struct_ok pf"
  shows "\<exists>h q. frame802154_parse ls data len pf = Some (h, q) \<and> struct_ok q \<and> 0 \<le> h \<and> (h \<noteq> 0 \<longrightarrow> 2 \<le> h \<and> h \<le> 38 \<and> h \<le> len)"
proof (cases "len < 2")
  case False
  obtain c where c: "frame802154_parse_fcf data = Some c"
    using data by (cases data; cases "tl data") (auto simp: frame802154_parse_fcf_def rd_def)
  define p1 where "p1 = pf\<lparr>f_fcf := c\<rparr>"
  define p2 where "p2 = (if sequence_number_suppression c = 0 then p1\<lparr>f_seq := data ! 2\<rparr> else p1)"
  define n2 where "n2 = (if sequence_number_suppression c = 0 then 3 else 2 :: nat)"
  have n2: "2 \<le> n2" "n2 \<le> 3" "struct_ok p2"
    using pf by (simp_all add: n2_def p1_def p2_def struct_ok_def)
  have 2: "(if sequence_number_suppression c = 0 then do { v \<leftarrow> rd data 2; Some (p1\<lparr>f_seq := v\<rparr>, 3) } else Some (p1, 2)) = Some (p2, n2)"
    using data by (simp add: p2_def n2_def rd_in)
  obtain hsp hdp where pid: "frame802154_has_panid c = (hsp, hdp)"
    by fastforce
  obtain p3 n3 where 3: "parse_dest data hdp (p2, n2) = Some (p3, n2 + n3)" "struct_ok p3" "n3 \<le> 10"
    using parse_dest_total [OF _ n2(3), of n2 data hdp] n2(2) data by (auto intro: that)
  obtain p4 n4 where 4: "parse_src data hsp hdp (p3, n2 + n3) = Some (p4, n2 + n3 + n4)" "struct_ok p4" "n4 \<le> 10"
    using parse_src_total [OF _ 3(2), of "n2 + n3" data hsp hdp] 3(3) n2(2) data by (auto intro: that)
  obtain p5 n5 where 5: "(if uses_aux_header ls \<and> security_enabled c \<noteq> 0 then parse_aux ls data (p4, n2 + n3 + n4)
      else Some (p4, n2 + n3 + n4)) = Some (p5, n2 + n3 + n4 + n5)" "struct_ok p5" "n5 \<le> 15"
  proof (cases "uses_aux_header ls \<and> security_enabled c \<noteq> 0")
    case True
    then show thesis
      using parse_aux_total [OF _ 4(2), of "n2 + n3 + n4" data ls] 3(3) 4(3) n2(2) data by (auto intro: that)
  next
    case False
    then show thesis
      using that [of p4 0] 4 by auto
  qed
  let ?n = "n2 + n3 + n4 + n5"
  have "frame802154_parse ls data len pf = Some (if len < int ?n then 0 else int ?n, p5\<lparr>f_payload_len := len - int ?n, f_payload := ?n\<rparr>)"
    unfolding frame802154_parse_def c bind.bind_lunit Let_def p1_def [symmetric] 2 prod.case pid 3(1) 4(1) 5(1) using False by simp
  moreover have "struct_ok (p5\<lparr>f_payload_len := len - int ?n, f_payload := ?n\<rparr>)"
    using 5(2) by (simp add: struct_ok_def)
  moreover have "2 \<le> ?n" "?n \<le> 38"
    using n2(1,2) 3(3) 4(3) 5(3) by simp_all
  ultimately show ?thesis
    by (intro exI [of _ "if len < int ?n then 0 else int ?n"] exI [of _ "p5\<lparr>f_payload_len := len - int ?n, f_payload := ?n\<rparr>"]) auto
qed (use pf in \<open>simp add: frame802154_parse_def\<close>)

end
