(* ===== verification/Framer_802154.thy ===== *)
theory Framer_802154
  imports Frame802154
begin

text \<open>
  \<^verbatim>\<open>os/net/mac/framer/framer-802154.c\<close>, the framer of the MAC layer (\<^verbatim>\<open>NETSTACK_FRAMER\<close>): from the addresses and attributes of
  the packet buffer it makes the header in front of the packet (\<open>framer_length\<close>, \<open>framer_create\<close>), and takes the header
  of a received frame off again (\<open>framer_parse\<close>).  The configuration is that of the applications: TSCH, so frames of
  version 2015, addresses of 8 bytes, no link-layer security.
\<close>

section \<open>State\<close>

text \<open>
  The static variables, the PAN identifier of \<^verbatim>\<open>frame802154.c\<close> among them.  \<open>first_random\<close> is what \<^verbatim>\<open>random_rand\<close> returns in
  its only call, the initialisation of the sequence number.
\<close>

record framer_state =
  mac_pan_id :: u16
  mac_dsn :: u8
  framer_initialized :: bool
  first_random :: u16

definition frame802154_set_pan_id :: "u16 \<Rightarrow> framer_state \<Rightarrow> framer_state" where
  "frame802154_set_pan_id pan_id fs = fs\<lparr>mac_pan_id := pan_id\<rparr>"

definition frame802154_get_pan_id :: "framer_state \<Rightarrow> u16" where
  "frame802154_get_pan_id fs = mac_pan_id fs"

definition FRAME802154_VERSION :: u8 where "FRAME802154_VERSION = FRAME802154_IEEE802154_2015"
definition FRAME802154_SUPPR_SEQNO :: u8 where "FRAME802154_SUPPR_SEQNO = 0"
definition FRAMER_FAILED :: int where "FRAMER_FAILED = -1"

text \<open>\<^verbatim>\<open>LLSEC802154_ENABLED\<close> is 0.\<close>

definition unsecured :: llsec where
  "unsecured = \<lparr>uses_aux_header = False, uses_explicit_keys = False\<rparr>"

text \<open>\<^verbatim>\<open>memset(&params, 0, sizeof(params))\<close>\<close>

definition zero_frame :: frame802154 where
  "zero_frame = \<lparr>f_dest_addr = replicate 8 0, f_src_addr = replicate 8 0,
     f_fcf = \<lparr>frame_type = 0, security_enabled = 0, frame_pending = 0, ack_required = 0, panid_compression = 0,
       sequence_number_suppression = 0, ie_list_present = 0, dest_addr_mode = 0, frame_version = 0, src_addr_mode = 0\<rparr>,
     f_seq = 0, f_dest_pid = 0, f_src_pid = 0,
     f_aux_hdr = \<lparr>security_control = \<lparr>security_level = 0, key_id_mode = 0, frame_counter_suppression = 0, frame_counter_size = 0\<rparr>,
       frame_counter = replicate 4 0, key_source = replicate 8 0, key_index = 0\<rparr>,
     f_payload = 0, f_payload_len = 0\<rparr>"

section \<open>Operations\<close>

definition framer_802154_setup_params :: "framer_state \<Rightarrow> (pb_attr \<Rightarrow> u16) \<Rightarrow> bool \<Rightarrow> frame802154 \<Rightarrow> frame802154" where
  "framer_802154_setup_params fs get_attr dest_is_broadcast params =
     (let long = (if LINKADDR_SIZE = 2 then FRAME802154_SHORTADDRMODE else FRAME802154_LONGADDRMODE);
          src_mode = (if get_attr PACKETBUF_ATTR_MAC_NO_SRC_ADDR = 1 then FRAME802154_NOADDR else long);
          dest_mode = (if get_attr PACKETBUF_ATTR_MAC_NO_DEST_ADDR = 1 then FRAME802154_NOADDR
                       else if dest_is_broadcast then FRAME802154_SHORTADDRMODE else long)
      in params\<lparr>f_fcf :=
            \<lparr>frame_type = ucast (get_attr PACKETBUF_ATTR_FRAME_TYPE), security_enabled = 0, frame_pending = 0,
             ack_required = (if dest_is_broadcast then 0 else ucast (get_attr PACKETBUF_ATTR_MAC_ACK)),
             panid_compression = (if src_mode = FRAME802154_SHORTADDRMODE \<or> dest_mode = FRAME802154_SHORTADDRMODE then 1 else 0),
             sequence_number_suppression = (if dest_is_broadcast then of_bool (FRAME802154_IEEE802154_2015 \<le> FRAME802154_VERSION)
                                            else FRAME802154_SUPPR_SEQNO),
             ie_list_present = ucast (get_attr PACKETBUF_ATTR_MAC_METADATA), dest_addr_mode = dest_mode,
             frame_version = FRAME802154_VERSION, src_addr_mode = src_mode\<rparr>,
          f_seq := ucast (get_attr PACKETBUF_ATTR_MAC_SEQNO),
          f_src_pid := frame802154_get_pan_id fs, f_dest_pid := frame802154_get_pan_id fs\<rparr>)"

text \<open>The first use draws the sequence number; a frame without one gets the next, which is never 0.\<close>

definition framer_init :: "framer_state \<Rightarrow> framer_state" where
  "framer_init fs = (if framer_initialized fs then fs else fs\<lparr>framer_initialized := True, mac_dsn := ucast (first_random fs AND 0xff)\<rparr>)"

definition number_frame :: "bool \<Rightarrow> framer_state \<Rightarrow> pbuf \<Rightarrow> framer_state \<times> pbuf" where
  "number_frame do_create fs b =
     (if do_create \<and> packetbuf_attr b PACKETBUF_ATTR_MAC_SEQNO = 0 then
        (let dsn = (if mac_dsn fs = 0 then mac_dsn fs + 1 else mac_dsn fs)
         in (fs\<lparr>mac_dsn := dsn + 1\<rparr>, packetbuf_set_attr b PACKETBUF_ATTR_MAC_SEQNO (ucast dsn)))
      else (fs, b))"

definition frame_params :: "framer_state \<Rightarrow> pbuf \<Rightarrow> frame802154" where
  "frame_params fs b =
     (let params = framer_802154_setup_params fs (packetbuf_attr b) (packetbuf_holds_broadcast b) zero_frame;
          params = (if packetbuf_holds_broadcast b then params\<lparr>f_dest_addr := (f_dest_addr params)[0 := 0xFF, 1 := 0xFF]\<rparr>
                    else params\<lparr>f_dest_addr := linkaddr_copy (f_dest_addr params) (packetbuf_addr b PACKETBUF_ADDR_RECEIVER)\<rparr>)
      in params\<lparr>f_src_addr := linkaddr_copy (f_src_addr params) (packetbuf_addr b PACKETBUF_ADDR_SENDER),
           f_payload := packetbuf_dataptr b, f_payload_len := int (unat (packetbuf_datalen b))\<rparr>)"

definition create_frame :: "bool \<Rightarrow> framer_state \<Rightarrow> pbuf \<Rightarrow> (int \<times> framer_state \<times> pbuf) option" where
  "create_frame do_create fs b =
     (if frame802154_get_pan_id fs = 0xffff then Some (-1, fs, b)
      else do {
        let (fs, b) = number_frame do_create (framer_init fs) b;
        let (hdr_len, params) = frame802154_hdrlen unsecured (frame_params fs b);
        if \<not> do_create then Some (hdr_len, fs, b)
        else do {
          (r, b) \<leftarrow> packetbuf_hdralloc b hdr_len;
          if r \<noteq> 0 then do {
            (_, _, bytes) \<leftarrow> frame802154_create unsecured params (drop (packetbuf_hdrptr b) (pb_bytes b));
            Some (hdr_len, fs, b\<lparr>pb_bytes := take (packetbuf_hdrptr b) (pb_bytes b) @ bytes\<rparr>)
          } else Some (FRAMER_FAILED, fs, b)
        }
      })"

definition framer_length :: "framer_state \<Rightarrow> pbuf \<Rightarrow> (int \<times> framer_state \<times> pbuf) option" where
  "framer_length = create_frame False"

definition framer_create :: "framer_state \<Rightarrow> pbuf \<Rightarrow> (int \<times> framer_state \<times> pbuf) option" where
  "framer_create = create_frame True"

text \<open>\<open>g\<close> is what the local variable \<^verbatim>\<open>frame\<close> holds at first.\<close>

definition framer_parse :: "frame802154 \<Rightarrow> framer_state \<Rightarrow> pbuf \<Rightarrow> (int \<times> pbuf) option" where
  "framer_parse g fs b = do {
     (hdr_len, frame) \<leftarrow> frame802154_parse unsecured (drop (packetbuf_dataptr b) (pb_bytes b)) (int (unat (packetbuf_datalen b))) g;
     let (r, b) = (if hdr_len \<noteq> 0 then packetbuf_hdrreduce b hdr_len else (0, b));
     if r = 0 then Some (FRAMER_FAILED, b)
     else do {
       let b = packetbuf_set_attr b PACKETBUF_ATTR_FRAME_TYPE (ucast (frame_type (f_fcf frame)));
       let has_dest = dest_addr_mode (f_fcf frame) \<noteq> 0;
       if has_dest \<and> f_dest_pid frame \<noteq> frame802154_get_pan_id fs \<and> f_dest_pid frame \<noteq> FRAME802154_BROADCASTPANDID
       then Some (FRAMER_FAILED, b)
       else do {
         broadcast \<leftarrow> (if has_dest then frame802154_is_broadcast_addr (dest_addr_mode (f_fcf frame)) (f_dest_addr frame) else Some True);
         let b = (if \<not> broadcast then packetbuf_set_addr b PACKETBUF_ADDR_RECEIVER (f_dest_addr frame) else b);
         let b = packetbuf_set_addr b PACKETBUF_ADDR_SENDER (f_src_addr frame);
         let b = packetbuf_set_attr b PACKETBUF_ATTR_MAC_SEQNO
           (if sequence_number_suppression (f_fcf frame) = 0 then ucast (f_seq frame) else 0xffff);
         Some (hdr_len, b)
       }
     }
   }"

section \<open>Creating a frame\<close>

lemma zero_frame_ok: "frame_ok zero_frame" "struct_ok zero_frame"
  by (simp_all add: zero_frame_def frame_ok_def struct_ok_def)

lemma frame_params_ok: "pb_inv b \<Longrightarrow> frame_ok (frame_params fs b)"
  by (simp add: frame_params_def Let_def framer_802154_setup_params_def zero_frame_def frame_ok_def pb_inv_def linkaddr_ok_def
      LINKADDR_SIZE_def packetbuf_addr_def linkaddr_copy_def)

text \<open>\<open>field_len\<close> does not change a frame of version 2015.\<close>

lemma field_len_2015: "\<not> frame_version (f_fcf p) < FRAME802154_IEEE802154_2015 \<Longrightarrow> fst (field_len ls p) = p"
  by (simp add: field_len_def Let_def split: prod.split)

lemma frame_params_version: "fst (field_len unsecured (frame_params fs b)) = frame_params fs b"
  by (rule field_len_2015) (simp add: frame_params_def Let_def framer_802154_setup_params_def FRAME802154_VERSION_def)

text \<open>The header of the packet in the buffer.\<close>

definition packet_header :: "framer_state \<Rightarrow> pbuf \<Rightarrow> u8 list" where
  "packet_header fs b = header_bytes unsecured (frame_params fs b)"

lemma hdralloc_rest: "packetbuf_hdralloc b s = Some (r, b') \<Longrightarrow> pb_attrs b' = pb_attrs b \<and> pb_addrs b' = pb_addrs b \<and> bufptr b' = bufptr b"
  by (auto simp: packetbuf_hdralloc_def bind_eq_Some split: if_splits)

lemma number_frame_facts:
  assumes "number_frame c fs b = (fs', b')"
  shows "pb_inv b' = pb_inv b" "pb_frame b' = pb_frame b" "pb_data b' = pb_data b" "pb_addrs b' = pb_addrs b" "bufptr b' = bufptr b" "mac_pan_id fs' = mac_pan_id fs"
    "packetbuf_totlen b' = packetbuf_totlen b"
    "pb_attrs b' = (pb_attrs b)(PACKETBUF_ATTR_MAC_SEQNO := pb_attrs b' PACKETBUF_ATTR_MAC_SEQNO)" "c \<Longrightarrow> pb_attrs b' PACKETBUF_ATTR_MAC_SEQNO \<noteq> 0"
    "pb_attrs b PACKETBUF_ATTR_MAC_SEQNO \<noteq> 0 \<Longrightarrow> pb_attrs b' PACKETBUF_ATTR_MAC_SEQNO = pb_attrs b PACKETBUF_ATTR_MAC_SEQNO"
proof -
  have "(ucast x :: u16) \<noteq> 0" if "x \<noteq> 0" for x :: u8
    using that by (metis ucast_0 ucast_u8_u16)
  then have "(ucast (if mac_dsn fs = 0 then mac_dsn fs + 1 else mac_dsn fs) :: u16) \<noteq> 0"
    by simp
  then show "pb_inv b' = pb_inv b" "pb_frame b' = pb_frame b" "pb_data b' = pb_data b" "pb_addrs b' = pb_addrs b" "bufptr b' = bufptr b" "mac_pan_id fs' = mac_pan_id fs"
    "packetbuf_totlen b' = packetbuf_totlen b"
    "pb_attrs b' = (pb_attrs b)(PACKETBUF_ATTR_MAC_SEQNO := pb_attrs b' PACKETBUF_ATTR_MAC_SEQNO)" "c \<Longrightarrow> pb_attrs b' PACKETBUF_ATTR_MAC_SEQNO \<noteq> 0"
    "pb_attrs b PACKETBUF_ATTR_MAC_SEQNO \<noteq> 0 \<Longrightarrow> pb_attrs b' PACKETBUF_ATTR_MAC_SEQNO = pb_attrs b PACKETBUF_ATTR_MAC_SEQNO"
    using assms by (auto simp: number_frame_def Let_def packetbuf_set_attr_def packetbuf_attr_def pb_inv_def pb_frame_def pb_hdr_def pb_data_def
        packetbuf_dataptr_def packetbuf_hdrlen_def packetbuf_totlen_def packetbuf_datalen_def split: if_splits)
qed

text \<open>The packet buffer with a header in front of its contents.\<close>

definition framed :: "u8 list \<Rightarrow> pbuf \<Rightarrow> pbuf \<Rightarrow> bool" where
  "framed hdr b b' \<longleftrightarrow> pb_inv b' \<and> pb_frame b' = hdr @ pb_frame b \<and> pb_data b' = pb_data b \<and> pb_addrs b' = pb_addrs b \<and> bufptr b' = bufptr b"

lemma header_written:
  assumes b: "pb_inv b" and room: "length hdr + unat (packetbuf_totlen b) \<le> 96"
  shows "\<exists>b1. packetbuf_hdralloc b (int (length hdr)) = Some (1, b1) \<and> packetbuf_hdrptr b1 = 0 \<and> length hdr \<le> length (pb_bytes b1)
    \<and> framed hdr b (b1\<lparr>pb_bytes := hdr @ drop (length hdr) (pb_bytes b1)\<rparr>) \<and> pb_attrs b1 = pb_attrs b"
proof -
  obtain b1 where b1: "packetbuf_hdralloc b (int (length hdr)) = Some (1, b1)" "pb_inv b1" "pb_data b1 = pb_data b"
    "length (pb_hdr b1) = length hdr + length (pb_hdr b)" "drop (length hdr) (pb_hdr b1) = pb_hdr b"
    using packetbuf_hdralloc_fits [OF b room] by auto
  have len: "length hdr \<le> length (pb_bytes b1)"
    using b1(4) pb_inv_length [OF b1(2)] pb_lengths(3) [OF b1(2)] pb_lengths(2) [OF b1(2)] by simp
  have w: "wr_n (pb_bytes b1) (packetbuf_hdrptr b1) hdr = Some (hdr @ drop (length hdr) (pb_bytes b1))"
    using len by (simp add: packetbuf_hdrptr_def wr_n_in)
  obtain bytes where "wr_n (pb_bytes b1) (packetbuf_hdrptr b1) hdr = Some bytes" "pb_inv (b1\<lparr>pb_bytes := bytes\<rparr>)"
    "pb_data (b1\<lparr>pb_bytes := bytes\<rparr>) = pb_data b1" "pb_hdr (b1\<lparr>pb_bytes := bytes\<rparr>) = hdr @ drop (length hdr) (pb_hdr b1)"
    using pb_write_hdr [OF b1(2), of hdr] b1(4) by auto
  with w len b1 hdralloc_rest [OF b1(1)] show ?thesis
    by (auto simp: framed_def pb_frame_def packetbuf_hdrptr_def)
qed

lemma length_hdr_le: "pb_inv b \<Longrightarrow> length (packet_header fs b) \<le> 38"
  unfolding packet_header_def by (rule header_length(2) [OF frame_params_ok])

lemma field_len_payload:
  "field_len ls (p\<lparr>f_payload := i, f_payload_len := n\<rparr>) = (case field_len ls p of (q, l) \<Rightarrow> (q\<lparr>f_payload := i, f_payload_len := n\<rparr>, l))"
  by (cases p; cases "frame_version (f_fcf p) < FRAME802154_IEEE802154_2015") (simp_all add: field_len_def aux_len_def Let_def split: prod.split)

lemma header_bytes_payload: "header_bytes ls (p\<lparr>f_payload := i, f_payload_len := n\<rparr>) = header_bytes ls p"
  by (simp add: header_bytes_def field_len_payload split: prod.split)

lemma packet_header_cong:
  assumes "pb_attrs b' = pb_attrs b" "pb_addrs b' = pb_addrs b" "mac_pan_id fs' = mac_pan_id fs"
  shows "packet_header fs' b' = packet_header fs b"
proof -
  have "packetbuf_attr b' = packetbuf_attr b" "packetbuf_holds_broadcast b' = packetbuf_holds_broadcast b"
    using assms by (auto simp: packetbuf_attr_def packetbuf_holds_broadcast_def)
  then have "frame_params fs' b' = (frame_params fs b)\<lparr>f_payload := packetbuf_dataptr b', f_payload_len := int (unat (packetbuf_datalen b'))\<rparr>"
    using assms by (simp add: frame_params_def framer_802154_setup_params_def frame802154_get_pan_id_def packetbuf_addr_def Let_def)
  then show ?thesis
    by (simp add: packet_header_def header_bytes_payload)
qed

text \<open>What the framer does: it fails, or puts the header of the packet in front of it, after giving it a sequence number.\<close>

lemma framer_create_spec:
  assumes b: "pb_inv b"
  obtains h fs' b' where "framer_create fs b = Some (h, fs', b')" "pb_inv b'" "mac_pan_id fs' = mac_pan_id fs" "pb_addrs b' = pb_addrs b"
    "pb_attrs b' = (pb_attrs b)(PACKETBUF_ATTR_MAC_SEQNO := pb_attrs b' PACKETBUF_ATTR_MAC_SEQNO)"
    "pb_attrs b PACKETBUF_ATTR_MAC_SEQNO \<noteq> 0 \<longrightarrow> pb_attrs b' PACKETBUF_ATTR_MAC_SEQNO = pb_attrs b PACKETBUF_ATTR_MAC_SEQNO"
    "0 \<le> h \<longrightarrow> h = int (length (packet_header fs' b')) \<and> framed (packet_header fs' b') b b' \<and> pb_attrs b' PACKETBUF_ATTR_MAC_SEQNO \<noteq> 0"
    "h < 0 \<longleftrightarrow> mac_pan_id fs = 0xffff \<or> 96 < length (packet_header fs' b') + unat (packetbuf_totlen b)"
proof (cases "mac_pan_id fs = 0xffff")
  case True
  then show thesis
    using b by (intro that [of "-1" fs b]) (simp_all add: framer_create_def create_frame_def frame802154_get_pan_id_def)
next
  case False
  obtain fs1 b1 where nf: "number_frame True (framer_init fs) b = (fs1, b1)"
    by fastforce
  note n = number_frame_facts [OF nf]
  have b1: "pb_inv b1"
    using b n(1) by simp
  have pan: "mac_pan_id fs1 = mac_pan_id fs"
    using n(6) by (simp add: framer_init_def)
  let ?hdr = "packet_header fs1 b1"
  have len: "frame802154_hdrlen unsecured (frame_params fs1 b1) = (int (length ?hdr), frame_params fs1 b1)"
    using header_length(1) [OF frame_params_ok [OF b1]] frame_params_version by (simp add: packet_header_def)
  show thesis
  proof (cases "length ?hdr + unat (packetbuf_totlen b1) \<le> 96")
    case True
    from header_written [OF b1 True] obtain b2 where b2: "packetbuf_hdralloc b1 (int (length ?hdr)) = Some (1, b2)" "packetbuf_hdrptr b2 = 0"
      "length ?hdr \<le> length (pb_bytes b2)" "framed ?hdr b1 (b2\<lparr>pb_bytes := ?hdr @ drop (length ?hdr) (pb_bytes b2)\<rparr>)" "pb_attrs b2 = pb_attrs b1"
      by auto
    let ?b = "b2\<lparr>pb_bytes := ?hdr @ drop (length ?hdr) (pb_bytes b2)\<rparr>"
    have c: "frame802154_create unsecured (frame_params fs1 b1) (pb_bytes b2)
        = Some (int (length ?hdr), frame_params fs1 b1, ?hdr @ drop (length ?hdr) (pb_bytes b2))"
      using create_header [OF frame_params_ok [OF b1]] b2(3) frame_params_version by (simp add: packet_header_def)
    have run: "framer_create fs b = Some (int (length ?hdr), fs1, ?b)"
      using False nf len b2(1,2) c by (simp add: framer_create_def create_frame_def frame802154_get_pan_id_def)
    have h: "packet_header fs1 ?b = ?hdr"
      by (rule packet_header_cong) (use b2(4,5) in \<open>simp_all add: framed_def\<close>)
    show thesis
      by (rule that [OF run]) (use False True b2(4,5) n pan h in \<open>simp_all add: framed_def\<close>)
  next
    case f: False
    have "packetbuf_hdralloc b1 (int (length ?hdr)) = Some (0, b1)"
      by (rule packetbuf_hdralloc_refused [OF b1]) (use f length_hdr_le [OF b1, of fs1] in simp_all)
    then have run: "framer_create fs b = Some (FRAMER_FAILED, fs1, b1)"
      using False nf len by (simp add: framer_create_def create_frame_def frame802154_get_pan_id_def)
    show thesis
      by (rule that [OF run]) (use False f n pan b1 in \<open>simp_all add: FRAMER_FAILED_def\<close>)
  qed
qed

lemma framer_length_spec:
  assumes "pb_inv b"
  shows "framer_length fs b = Some (if mac_pan_id fs = 0xffff then (-1, fs, b) else (int (length (packet_header fs b)), framer_init fs, b))"
proof -
  have "frame802154_hdrlen unsecured (frame_params (framer_init fs) b) = (int (length (packet_header (framer_init fs) b)), frame_params (framer_init fs) b)"
    using header_length(1) [OF frame_params_ok [OF assms]] frame_params_version by (simp add: packet_header_def)
  moreover have "packet_header (framer_init fs) b = packet_header fs b"
    by (rule packet_header_cong) (simp_all add: framer_init_def)
  ultimately show ?thesis
    by (simp add: framer_length_def create_frame_def number_frame_def frame802154_get_pan_id_def)
qed

lemma length_packet_header:
  assumes "pb_inv b" "pb_attrs b PACKETBUF_ATTR_MAC_NO_SRC_ADDR = 0" "pb_attrs b PACKETBUF_ATTR_MAC_NO_DEST_ADDR = 0"
  shows "length (packet_header fs b) = (if pb_addrs b PACKETBUF_ADDR_RECEIVER = linkaddr_null then 14 else 21)"
proof -
  have a: "length (pb_addrs b i) = 8" for i
    using assms(1) by (simp add: pb_inv_def linkaddr_ok_def LINKADDR_SIZE_def)
  have "packetbuf_holds_broadcast b \<longleftrightarrow> pb_addrs b PACKETBUF_ADDR_RECEIVER = linkaddr_null"
    using assms(1) by (simp add: packetbuf_holds_broadcast_def pb_inv_def)
  then show ?thesis
    using assms(2,3) a by (simp add: packet_header_def header_bytes_def field_len_def Let_def frame_params_def framer_802154_setup_params_def zero_frame_def
      packetbuf_attr_def packetbuf_addr_def frame802154_has_panid_def frame_constants FRAME802154_VERSION_def FRAME802154_SUPPR_SEQNO_def
      LINKADDR_SIZE_def aux_len_def unsecured_def addr_len_def linkaddr_copy_def split: prod.split)
qed

section \<open>Taking a frame apart\<close>

text \<open>A packet whose attributes a header can express.\<close>

definition expressible :: "pbuf \<Rightarrow> bool" where
  "expressible b \<longleftrightarrow> pb_attrs b PACKETBUF_ATTR_FRAME_TYPE AND 7 = pb_attrs b PACKETBUF_ATTR_FRAME_TYPE
     \<and> pb_attrs b PACKETBUF_ATTR_MAC_ACK \<in> {0, 1} \<and> pb_attrs b PACKETBUF_ATTR_MAC_METADATA \<in> {0, 1}
     \<and> pb_attrs b PACKETBUF_ATTR_MAC_NO_SRC_ADDR = 0 \<and> pb_attrs b PACKETBUF_ATTR_MAC_NO_DEST_ADDR = 0"

lemma ucast_and_7: "(x :: u16) AND 7 = x \<Longrightarrow> (ucast x :: u8) AND 7 = ucast x"
proof -
  assume x: "x AND 7 = x"
  have m: "y AND 7 = take_bit 3 y" "z AND 7 = take_bit 3 z" for y :: u16 and z :: u8
    by (simp_all add: take_bit_eq_mask mask_eq_exp_minus_1)
  have "take_bit 3 (ucast x :: u8) = ucast (take_bit 3 x)"
    by (rule bit_word_eqI) (auto simp: bit_simps)
  with x show ?thesis
    unfolding m by simp
qed

lemma canonical_params:
  assumes b: "pb_inv b" and e: "expressible b"
  shows "canonical unsecured (frame_params fs b)"
    "f_src_addr (frame_params fs b) = pb_addrs b PACKETBUF_ADDR_SENDER"
    "f_dest_addr (frame_params fs b) = (if pb_addrs b PACKETBUF_ADDR_RECEIVER = linkaddr_null then [0xff, 0xff, 0, 0, 0, 0, 0, 0]
       else pb_addrs b PACKETBUF_ADDR_RECEIVER)"
    "f_dest_pid (frame_params fs b) = mac_pan_id fs" "f_seq (frame_params fs b) = ucast (pb_attrs b PACKETBUF_ATTR_MAC_SEQNO)"
    "dest_addr_mode (f_fcf (frame_params fs b)) = (if pb_addrs b PACKETBUF_ADDR_RECEIVER = linkaddr_null then 2 else 3)"
    "sequence_number_suppression (f_fcf (frame_params fs b)) = (if pb_addrs b PACKETBUF_ADDR_RECEIVER = linkaddr_null then 1 else 0)"
    "frame_type (f_fcf (frame_params fs b)) = ucast (pb_attrs b PACKETBUF_ATTR_FRAME_TYPE)"
proof -
  have a: "linkaddr_ok (pb_addrs b i)" for i
    using b by (simp add: pb_inv_def)
  have bc: "packetbuf_holds_broadcast b \<longleftrightarrow> pb_addrs b PACKETBUF_ADDR_RECEIVER = linkaddr_null"
    using a by (simp add: packetbuf_holds_broadcast_def)
  show 1: "f_src_addr (frame_params fs b) = pb_addrs b PACKETBUF_ADDR_SENDER"
    "f_dest_addr (frame_params fs b) = (if pb_addrs b PACKETBUF_ADDR_RECEIVER = linkaddr_null then [0xff, 0xff, 0, 0, 0, 0, 0, 0]
       else pb_addrs b PACKETBUF_ADDR_RECEIVER)"
    "f_dest_pid (frame_params fs b) = mac_pan_id fs" "f_seq (frame_params fs b) = ucast (pb_attrs b PACKETBUF_ATTR_MAC_SEQNO)"
    "dest_addr_mode (f_fcf (frame_params fs b)) = (if pb_addrs b PACKETBUF_ADDR_RECEIVER = linkaddr_null then 2 else 3)"
    "sequence_number_suppression (f_fcf (frame_params fs b)) = (if pb_addrs b PACKETBUF_ADDR_RECEIVER = linkaddr_null then 1 else 0)"
    "frame_type (f_fcf (frame_params fs b)) = ucast (pb_attrs b PACKETBUF_ATTR_FRAME_TYPE)"
    using a e by (simp_all add: frame_params_def framer_802154_setup_params_def bc Let_def packetbuf_addr_def packetbuf_attr_def
      frame802154_get_pan_id_def zero_frame_def numeral_eq_Suc expressible_def frame_constants FRAME802154_VERSION_def FRAME802154_SUPPR_SEQNO_def LINKADDR_SIZE_def)
  have 2: "src_addr_mode (f_fcf (frame_params fs b)) = 3" "frame_version (f_fcf (frame_params fs b)) = 2"
    "panid_compression (f_fcf (frame_params fs b)) = (if pb_addrs b PACKETBUF_ADDR_RECEIVER = linkaddr_null then 1 else 0)"
    "f_src_pid (frame_params fs b) = mac_pan_id fs" "security_enabled (f_fcf (frame_params fs b)) = 0" "frame_pending (f_fcf (frame_params fs b)) = 0"
    "ack_required (f_fcf (frame_params fs b)) \<in> {0, 1}" "ie_list_present (f_fcf (frame_params fs b)) \<in> {0, 1}"
    using e by (auto simp add: frame_params_def framer_802154_setup_params_def bc Let_def packetbuf_addr_def packetbuf_attr_def
      frame802154_get_pan_id_def expressible_def frame_constants FRAME802154_VERSION_def LINKADDR_SIZE_def)
  have "fcf_ok (f_fcf (frame_params fs b))"
    using 1(5-7) 2 e ucast_and_7 by (auto simp: fcf_ok_def expressible_def)
  moreover have off: "\<not> uses_aux_header unsecured" and s: "drop 2 [0xff, 0xff, 0, 0, 0, 0, 0, 0 :: u8] = replicate 6 0"
    by (simp_all add: unsecured_def numeral_eq_Suc)
  ultimately show "canonical unsecured (frame_params fs b)"
    using 1 2 a [unfolded linkaddr_ok_def LINKADDR_SIZE_def] frame_params_ok [OF b, of fs] frame_params_version [of fs b] off s
    by (simp add: canonical_def frame802154_has_panid_def frame_constants addr_of_mode_def)
qed

lemma all_ff_spec: "n \<le> length a \<Longrightarrow> all_ff n a = Some (take n a = replicate n 0xff)"
  by (induction n) (auto simp: rd_in take_Suc_conv_app_nth replicate_append_same [symmetric])

definition broadcast_addr :: "linkaddr \<Rightarrow> bool" where
  "broadcast_addr a \<longleftrightarrow> a = linkaddr_null \<or> a = replicate 8 0xff"

lemma broadcast_params:
  assumes "pb_inv b" "expressible b" and p_def: "p = frame_params fs b"
  shows "frame802154_is_broadcast_addr (dest_addr_mode (f_fcf p)) (f_dest_addr p) = Some (broadcast_addr (pb_addrs b PACKETBUF_ADDR_RECEIVER))"
proof -
  have a: "length (pb_addrs b PACKETBUF_ADDR_RECEIVER) = 8"
    using assms(1) by (simp add: pb_inv_def linkaddr_ok_def LINKADDR_SIZE_def)
  have "hd linkaddr_null \<noteq> hd (replicate 8 (0xff :: u8))"
    by (simp add: linkaddr_null_def LINKADDR_SIZE_def)
  then have n: "linkaddr_null \<noteq> replicate 8 0xff"
    by metis
  have s: "all_ff 2 [0xff, 0xff, 0, 0, 0, 0, 0, 0] = Some True"
    by (simp add: all_ff_spec) (simp add: numeral_eq_Suc)
  show ?thesis
    using canonical_params(3,6) [OF assms(1,2), of fs] a n s
    by (simp add: p_def frame802154_is_broadcast_addr_def frame_constants broadcast_addr_def all_ff_spec)
qed

lemma ucast_small_u16: "(x :: u16) AND 7 = x \<Longrightarrow> ucast (ucast x :: u8) = x"
proof -
  assume x: "x AND 7 = x"
  have m: "x AND 7 = take_bit 3 x"
    by (simp add: take_bit_eq_mask mask_eq_exp_minus_1)
  have "ucast (ucast (take_bit 3 x) :: u8) = take_bit 3 x"
    by (rule bit_word_eqI) (auto simp: bit_simps)
  with x show ?thesis
    unfolding m by simp
qed

lemma framer_parse_created:
  assumes b: "pb_inv b" "expressible b" and c: "pb_inv c" "pb_data c = packet_header fs b @ payload"
    and pan: "mac_pan_id fs' = mac_pan_id fs" and g: "struct_ok g"
  shows "\<exists>c'. framer_parse g fs' c = Some (int (length (packet_header fs b)), c') \<and> pb_inv c' \<and> pb_data c' = payload
    \<and> pb_addrs c' = (pb_addrs c)(PACKETBUF_ADDR_SENDER := pb_addrs b PACKETBUF_ADDR_SENDER,
         PACKETBUF_ADDR_RECEIVER := (if broadcast_addr (pb_addrs b PACKETBUF_ADDR_RECEIVER) then pb_addrs c PACKETBUF_ADDR_RECEIVER
           else pb_addrs b PACKETBUF_ADDR_RECEIVER))
    \<and> pb_attrs c' = (pb_attrs c)(PACKETBUF_ATTR_FRAME_TYPE := pb_attrs b PACKETBUF_ATTR_FRAME_TYPE,
         PACKETBUF_ATTR_MAC_SEQNO := (if pb_addrs b PACKETBUF_ADDR_RECEIVER = linkaddr_null then 0xffff
           else ucast (ucast (pb_attrs b PACKETBUF_ATTR_MAC_SEQNO) :: u8)))"
proof -
  let ?p = "frame_params fs b" and ?h = "packet_header fs b"
  note p = canonical_params [OF b, of fs]
  have len: "length (pb_data c) = unat (packetbuf_datalen c)"
    using pb_lengths(1) [OF c(1)] by (simp add: packetbuf_datalen_def)
  obtain rest where data: "drop (packetbuf_dataptr c) (pb_bytes c) = header_bytes unsecured ?p @ rest"
    using c(2) by (metis append.assoc append_take_drop_id pb_data_def packet_header_def)
  have le: "int (length (header_bytes unsecured ?p)) \<le> int (unat (packetbuf_datalen c))"
    using len unfolding c(2) packet_header_def by (simp del: of_nat_unat flip: len)
  obtain q where q: "frame802154_parse unsecured (drop (packetbuf_dataptr c) (pb_bytes c)) (int (unat (packetbuf_datalen c))) g
      = Some (int (length ?h), q)" "same_header unsecured ?p q"
    using parse_header [OF p(1) g le, of rest] unfolding data packet_header_def by blast
  have s: "f_fcf q = f_fcf ?p" "f_dest_addr q = f_dest_addr ?p" "f_src_addr q = f_src_addr ?p" "f_dest_pid q = f_dest_pid ?p"
    "sequence_number_suppression (f_fcf ?p) = 0 \<longrightarrow> f_seq q = f_seq ?p"
    using q(2) by (simp_all add: same_header_def)
  have "length ?h = (if pb_addrs b PACKETBUF_ADDR_RECEIVER = linkaddr_null then 14 else 21)"
    using length_packet_header [OF b(1)] b(2) by (simp add: expressible_def)
  then have h: "?h \<noteq> []" "length ?h < 32768"
    by (auto split: if_splits)
  obtain c1 where c1: "packetbuf_hdrreduce c (int (length ?h)) = (1, c1)" "pb_inv c1" "pb_data c1 = payload"
    using packetbuf_hdrreduce_spec [OF c(1) h(2)] c(2) by auto
  have rest: "pb_attrs c1 = pb_attrs c" "pb_addrs c1 = pb_addrs c"
    using c1(1) by (auto simp: packetbuf_hdrreduce_def split: if_splits)
  have a: "linkaddr_ok (pb_addrs b i)" for i
    using b(1) by (simp add: pb_inv_def)
  have ft: "ucast (ucast (pb_attrs b PACKETBUF_ATTR_FRAME_TYPE) :: u8) = pb_attrs b PACKETBUF_ATTR_FRAME_TYPE"
    using b(2) ucast_small_u16 by (simp add: expressible_def)
  note bc = broadcast_params [OF b, of ?p fs, OF refl]
  have m: "dest_addr_mode (f_fcf ?p) \<noteq> 0"
    unfolding p(6) by simp
  have run: "framer_parse g fs' c = Some (int (length ?h),
    (let c2 = packetbuf_set_attr c1 PACKETBUF_ATTR_FRAME_TYPE (pb_attrs b PACKETBUF_ATTR_FRAME_TYPE);
         c3 = (if broadcast_addr (pb_addrs b PACKETBUF_ADDR_RECEIVER) then c2 else packetbuf_set_addr c2 PACKETBUF_ADDR_RECEIVER (f_dest_addr ?p))
     in packetbuf_set_attr (packetbuf_set_addr c3 PACKETBUF_ADDR_SENDER (pb_addrs b PACKETBUF_ADDR_SENDER)) PACKETBUF_ATTR_MAC_SEQNO
          (if sequence_number_suppression (f_fcf ?p) = 0 then ucast (f_seq ?p) else 0xffff)))"
    using q(1) c1(1) h(1) s m p(2,4,8) ft pan bc by (simp add: framer_parse_def frame802154_get_pan_id_def Let_def)
  show ?thesis
    unfolding run Let_def using c1(2,3) rest a p(3,5,7)
    by (auto simp: packetbuf_set_attr_def packetbuf_set_addr_def pb_inv_def broadcast_addr_def fun_eq_iff pb_data_def packetbuf_dataptr_def packetbuf_hdrlen_def)
qed

end
