(* ===== verification/Tsch_Mac.thy ===== *)
theory Tsch_Mac
  imports Tsch_Slot Framer_802154 Mac_Sequence
begin

text \<open>
  The MAC driver of \<^verbatim>\<open>tsch.c\<close>: \<^verbatim>\<open>send_packet\<close> has the framer turn the contents of the packet buffer into a frame
  and puts it into the queue of its flow, and \<^verbatim>\<open>packet_input\<close> takes a received frame apart and drops duplicates.  The
  configuration is the application's (central scheduling, a queue per flow, no link-layer security, no 6top).
  Printing and log messages are left out.
\<close>

section \<open>State\<close>

record tschmac =
  sched :: tsch_schedule
  pb :: pbuf
  tsch_packet_seqno :: u8
  tsch_is_associated :: bool
  tsch_is_initialized :: bool
  tsch_is_started :: bool
  tsch_current_asn :: asn
  tsch_current_eb_period :: u32
  linkaddr_node_addr :: linkaddr
  framing :: framer_state
  received_seqnos :: "seqno list"

definition FRAME802154_DATAFRAME :: u16 where
  "FRAME802154_DATAFRAME = 1"

definition TSCH_EB_PERIOD :: u32 where
  "TSCH_EB_PERIOD = 16 * 128"

definition TSCH_MAX_EB_PERIOD :: u32 where
  "TSCH_MAX_EB_PERIOD = 16 * 128"

section \<open>Operations\<close>

definition queues_of :: "tschmac \<Rightarrow> tsch_queue" where
  "queues_of m = sq (sched m)"

definition set_queues :: "tschmac \<Rightarrow> tsch_queue \<Rightarrow> tschmac" where
  "set_queues m q = m\<lparr>sched := (sched m)\<lparr>sq := q\<rparr>\<rparr>"

definition tsch_set_eb_period :: "tschmac \<Rightarrow> u32 \<Rightarrow> tschmac" where
  "tsch_set_eb_period m period = m\<lparr>tsch_current_eb_period := min period TSCH_MAX_EB_PERIOD\<rparr>"

definition tsch_set_coordinator :: "tschmac \<Rightarrow> bool \<Rightarrow> tschmac" where
  "tsch_set_coordinator m enable =
     (let m = (if is_coordinator (queues_of m) \<noteq> enable then m\<lparr>tsch_is_associated := False\<rparr> else m);
          m = set_queues m ((queues_of m)\<lparr>is_coordinator := enable\<rparr>)
      in tsch_set_eb_period m TSCH_EB_PERIOD)"

text \<open>The call of the callback of a packet that is not in a queue.\<close>

definition call_sent :: "tschmac \<Rightarrow> ptr \<Rightarrow> ptr \<Rightarrow> mac_tx_status \<Rightarrow> u8 \<Rightarrow> tschmac" where
  "call_sent m snt arg st n = set_queues m (mac_call_sent_callback (queues_of m)
     \<lparr>qb = None, sent = snt, cb_arg = arg, transmissions = n, max_transmissions = 0, ret = st, header_len = 0, tsch_sync_ie_offset = 0\<rparr>)"

text \<open>\<^verbatim>\<open>send_packet\<close> up to the call of the framer: the attributes and addresses of the frame.\<close>

definition prepare_frame :: "tschmac \<Rightarrow> tschmac" where
  "prepare_frame m =
     (let addr = packetbuf_addr (pb m) PACKETBUF_ADDR_RECEIVER;
          m = (if \<not> linkaddr_cmp addr linkaddr_null then
                 (let s = tsch_packet_seqno m + 1; s = (if s = 0 then s + 1 else s)
                  in m\<lparr>tsch_packet_seqno := s,
                       pb := packetbuf_set_attr (packetbuf_set_attr (pb m) PACKETBUF_ATTR_MAC_SEQNO (ucast s)) PACKETBUF_ATTR_MAC_ACK 1\<rparr>)
               else m);
          m = m\<lparr>pb := packetbuf_set_attr (pb m) PACKETBUF_ATTR_FRAME_TYPE FRAME802154_DATAFRAME\<rparr>
      in m\<lparr>pb := packetbuf_set_addr (pb m) PACKETBUF_ADDR_SENDER (linkaddr_node_addr m)\<rparr>)"

definition send_packet :: "tschmac \<Rightarrow> ptr \<Rightarrow> ptr \<Rightarrow> tschmac option" where
  "send_packet m snt arg = (if \<not> tsch_is_associated m then Some (call_sent m snt arg MAC_TX_ERR 1) else do {
     let m = prepare_frame m;
     let max_tx = (ucast (packetbuf_attr (pb m) PACKETBUF_ATTR_MAX_MAC_TRANSMISSIONS) :: u8);
     if max_tx = 0 then Some m
     else do {
       let flow_addr = flow_queue_addr (packetbuf_attr (pb m) PACKETBUF_ATTR_FLOW_NUMBER);
       (hdr_len, fs, b) \<leftarrow> framer_create (framing m) (pb m);
       let m = m\<lparr>pb := b, framing := fs\<rparr>;
       if hdr_len < 0 then Some (call_sent m snt arg MAC_TX_ERR 1)
       else do {
         (p, q) \<leftarrow> tsch_queue_add_packet (queues_of m) (pb m) flow_addr max_tx snt arg;
         let m = set_queues m q;
         case p of
           None \<Rightarrow> Some (call_sent m snt arg MAC_TX_ERR 1)
         | Some j \<Rightarrow> do {
             pk \<leftarrow> rd (pkts q) j;
             Some (set_queues m (q\<lparr>pkts := (pkts q)[j := pk\<lparr>header_len := of_int hdr_len\<rparr>]\<rparr>))
           }
       }
     }
   })"

text \<open>\<open>keepalive_packet_sent\<close> is the callback of a keep-alive frame, an address that is not \<^verbatim>\<open>NULL\<close>.\<close>

definition keepalive_packet_sent :: ptr where
  "keepalive_packet_sent = Some 1"

definition keepalive_send :: "tschmac \<Rightarrow> tschmac option" where
  "keepalive_send m = (if tsch_is_associated m then do {
     n \<leftarrow> tsch_queue_get_time_source (queues_of m);
     case n of
       None \<Rightarrow> Some m
     | Some i \<Rightarrow> do {
         nb \<leftarrow> rd (nbrs (queues_of m)) i;
         let m = m\<lparr>pb := packetbuf_set_addr (packetbuf_clear (pb m)) PACKETBUF_ADDR_RECEIVER (naddr nb)\<rparr>;
         send_packet m keepalive_packet_sent None
       }
   } else Some m)"

text \<open>\<^verbatim>\<open>tsch_schedule_keepalive\<close>: the delay of the timer, \<open>rnd\<close> being the random number; \<open>None\<close> if it is not set.\<close>

definition tsch_schedule_keepalive :: "tschmac \<Rightarrow> u32 \<Rightarrow> u32 \<Rightarrow> u32 option option" where
  "tsch_schedule_keepalive m ka rnd =
     (if \<not> is_coordinator (queues_of m) \<and> tsch_is_associated m \<and> 0 < ka
      then if ka div 10 = 0 then None else Some (Some ((ka - ka div 10) + rnd mod (ka div 10)))
      else Some None)"

text \<open>\<^verbatim>\<open>tsch_disassociate\<close>; whether the main process is polled is the second component.\<close>

definition tsch_disassociate :: "tschmac \<Rightarrow> tschmac \<times> bool" where
  "tsch_disassociate m = (if tsch_is_associated m then (m\<lparr>tsch_is_associated := False\<rparr>, True) else (m, False))"

definition turn_on :: "tschmac \<Rightarrow> nat \<times> tschmac" where
  "turn_on m = (if tsch_is_initialized m \<and> \<not> tsch_is_started m then (1, m\<lparr>tsch_is_started := True\<rparr>) else (0, m))"

text \<open>
  \<^verbatim>\<open>packet_input\<close>, the clock showing \<open>now\<close>; \<open>g\<close> fills the framer's local variable.  The first component tells
  whether the packet is handed to the network layer.
\<close>

definition packet_input :: "frame802154 \<Rightarrow> u32 \<Rightarrow> tschmac \<Rightarrow> (bool \<times> tschmac) option" where
  "packet_input g now m = do {
     (frame_parsed, b) \<leftarrow> framer_parse g (framing m) (pb m);
     let m = m\<lparr>pb := b\<rparr>;
     if frame_parsed < 0 then Some (False, m)
     else if packetbuf_attr b PACKETBUF_ATTR_MAC_SEQNO \<noteq> 0xffff then
       (if mac_sequence_is_duplicate (received_seqnos m) b now then Some (False, m)
        else do {
          ss \<leftarrow> mac_sequence_register_seqno (received_seqnos m) b now;
          Some (True, m\<lparr>received_seqnos := ss\<rparr>)
        })
     else Some (True, m)
   }"

section \<open>What sending does\<close>

definition mac_inv :: "nat \<Rightarrow> nat \<Rightarrow> nat \<Rightarrow> nat \<Rightarrow> tschmac \<Rightarrow> bool" where
  "mac_inv ns nl nn np m \<longleftrightarrow> sched_inv ns nl nn np (sched m) \<and> \<not> locked (queues_of m)
     \<and> pb_inv (pb m) \<and> linkaddr_ok (linkaddr_node_addr m) \<and> (tsch_is_associated m \<longrightarrow> mac_pan_id (framing m) \<noteq> 0xffff)"

text \<open>What a layer above can rely on: the schedule stays.\<close>

definition same_mac :: "tschmac \<Rightarrow> tschmac \<Rightarrow> bool" where
  "same_mac m m' \<longleftrightarrow> sched m' = (sched m)\<lparr>sq := sq (sched m')\<rparr> \<and> linkaddr_node_addr m' = linkaddr_node_addr m
     \<and> tsch_is_associated m' = tsch_is_associated m \<and> tsch_current_asn m' = tsch_current_asn m
     \<and> mac_pan_id (framing m') = mac_pan_id (framing m) \<and> received_seqnos m' = received_seqnos m"

lemma same_mac_schedule:
  assumes "same_mac m m'"
  shows "schedule (sched m') = schedule (sched m)" "frames (sched m') = frames (sched m)" "links (sched m') = links (sched m)"
    "slotframes (sched m') = slotframes (sched m)" "slotframe_list (sched m') = slotframe_list (sched m)"
    "link_live (sched m') = link_live (sched m)"
proof -
  have e: "sched m' = (sched m)\<lparr>sq := sq (sched m')\<rparr>"
    using assms by (simp add: same_mac_def)
  show "schedule (sched m') = schedule (sched m)" "frames (sched m') = frames (sched m)" "links (sched m') = links (sched m)"
    "slotframes (sched m') = slotframes (sched m)" "slotframe_list (sched m') = slotframe_list (sched m)"
    "link_live (sched m') = link_live (sched m)"
    by (subst e, simp)+
qed

lemma set_queues_simps [simp]:
  "queues_of (set_queues m q) = q" "pb (set_queues m q) = pb m" "linkaddr_node_addr (set_queues m q) = linkaddr_node_addr m"
  "tsch_is_associated (set_queues m q) = tsch_is_associated m" "tsch_current_asn (set_queues m q) = tsch_current_asn m"
  "set_queues (set_queues m q) q' = set_queues m q'" "framing (set_queues m q) = framing m" "received_seqnos (set_queues m q) = received_seqnos m"
  by (simp_all add: set_queues_def queues_of_def)

lemma set_queues_inv:
  "mac_inv ns nl nn np m \<Longrightarrow> tq_inv nn np q \<Longrightarrow> \<not> locked q \<Longrightarrow> mac_inv ns nl nn np (set_queues m q)"
  by (simp add: mac_inv_def) (simp add: set_queues_def sched_inv_def)

lemma same_mac_set_queues [simp]: "same_mac m (set_queues m q)"
  by (simp add: same_mac_def) (simp add: set_queues_def)

lemma same_mac_refl [simp]: "same_mac m m"
  by (simp add: same_mac_def)

lemma same_mac_trans:
  assumes "same_mac a b" "same_mac b c"
  shows "same_mac a c"
proof -
  have "sched c = ((sched a)\<lparr>sq := sq (sched b)\<rparr>)\<lparr>sq := sq (sched c)\<rparr>"
    using assms by (metis same_mac_def)
  also have "\<dots> = (sched a)\<lparr>sq := sq (sched c)\<rparr>"
    by simp
  finally show ?thesis
    using assms by (simp add: same_mac_def)
qed

lemma same_mac_pb [simp]: "same_mac m (m\<lparr>pb := b\<rparr>)" "same_mac m (m\<lparr>tsch_packet_seqno := s, pb := b\<rparr>)"
  by (simp_all add: same_mac_def)

lemma queues_of_pb [simp]: "queues_of (m\<lparr>pb := b\<rparr>) = queues_of m" "queues_of (m\<lparr>tsch_packet_seqno := s\<rparr>) = queues_of m"
  "queues_of (m\<lparr>pb := b, framing := fs\<rparr>) = queues_of m"
  by (simp_all add: queues_of_def)

lemma mac_inv_pb [simp]:
  "mac_inv ns nl nn np m \<Longrightarrow> pb_inv b \<Longrightarrow> mac_inv ns nl nn np (m\<lparr>pb := b\<rparr>)"
  "mac_inv ns nl nn np m \<Longrightarrow> pb_inv b \<Longrightarrow> mac_inv ns nl nn np (m\<lparr>tsch_packet_seqno := s, pb := b\<rparr>)"
  by (simp_all add: mac_inv_def)

lemma pb_inv_set [simp]:
  "pb_inv b \<Longrightarrow> pb_inv (packetbuf_set_attr b t v)"
  "pb_inv b \<Longrightarrow> linkaddr_ok a \<Longrightarrow> pb_inv (packetbuf_set_addr b i a)"
  by (auto simp: pb_inv_def packetbuf_set_attr_def packetbuf_set_addr_def)

lemma pb_frame_set [simp]:
  "pb_frame (packetbuf_set_attr b t v) = pb_frame b" "pb_frame (packetbuf_set_addr b i a) = pb_frame b"
  by (simp_all add: pb_frame_def pb_hdr_def pb_data_def packetbuf_dataptr_def packetbuf_hdrlen_def
      packetbuf_set_attr_def packetbuf_set_addr_def)

lemma call_sent_inv: "mac_inv ns nl nn np m \<Longrightarrow> mac_inv ns nl nn np (call_sent m snt arg st n)"
  unfolding call_sent_def
proof (rule set_queues_inv)
  assume inv: "mac_inv ns nl nn np m"
  then have "tq_inv nn np (queues_of m)" "\<not> locked (queues_of m)"
    by (simp_all add: mac_inv_def sched_inv_def queues_of_def)
  then show "tq_inv nn np (mac_call_sent_callback (queues_of m) p)" "\<not> locked (mac_call_sent_callback (queues_of m) p)" for p
    by (simp_all add: mac_call_sent_callback_def tq_defs split: option.splits)
qed

lemma call_sent_facts:
  "same_mac m (call_sent m snt arg st n)" "aqueue (queues_of (call_sent m snt arg st n)) = aqueue (queues_of m)"
  "pkt_live (queues_of (call_sent m snt arg st n)) = pkt_live (queues_of m)" "pb (call_sent m snt arg st n) = pb m"
  by (auto simp: call_sent_def mac_call_sent_callback_def aqueue_def split: option.splits)

lemma prepare_frame_framing [simp]: "framing (prepare_frame m) = framing m"
  by (simp add: prepare_frame_def Let_def)

lemma prepare_frame_inv:
  assumes "mac_inv ns nl nn np m"
  shows "mac_inv ns nl nn np (prepare_frame m)" "same_mac m (prepare_frame m)" "queues_of (prepare_frame m) = queues_of m"
    "pb_frame (pb (prepare_frame m)) = pb_frame (pb m)"
  using assms by (auto simp: prepare_frame_def Let_def mac_inv_def queues_of_def same_mac_def)

text \<open>The attributes and addresses of the frame.\<close>

lemma prepare_frame_attrs:
  "pb_attrs (pb (prepare_frame m)) = (\<lambda>t. if t = PACKETBUF_ATTR_FRAME_TYPE then FRAME802154_DATAFRAME
     else if t = PACKETBUF_ATTR_MAC_SEQNO \<and> \<not> linkaddr_cmp (pb_addrs (pb m) PACKETBUF_ADDR_RECEIVER) linkaddr_null
       then (if tsch_packet_seqno m = -1 then 1 else ucast (tsch_packet_seqno m + 1))
     else if t = PACKETBUF_ATTR_MAC_ACK \<and> \<not> linkaddr_cmp (pb_addrs (pb m) PACKETBUF_ADDR_RECEIVER) linkaddr_null then 1
     else pb_attrs (pb m) t)"
proof -
  have "tsch_packet_seqno m + 1 = 0 \<longleftrightarrow> tsch_packet_seqno m = -1"
    by (metis add.commute add_eq_0_iff)
  then show ?thesis
    by (auto simp: prepare_frame_def Let_def packetbuf_set_attr_def packetbuf_set_addr_def packetbuf_addr_def fun_eq_iff)
qed

text \<open>The next sequence number is neither 0 nor the current one.\<close>

lemma next_seqno:
  "(if s = -1 then 1 else ucast (s + 1)) \<notin> {0 :: u16, ucast (s :: u8)}"
proof -
  have "s + 1 \<noteq> 0" if "s \<noteq> -1"
    using that by (metis add.commute add_eq_0_iff)
  moreover have inj: "(ucast x :: u16) = ucast y \<longleftrightarrow> x = y" for x y :: u8
    by (metis unat_ucast_u8_u16 unsigned_word_eqI)
  ultimately show ?thesis
    using inj [of "s + 1" 0] inj [of "-1" 1] by (auto simp: inj)
qed

lemma prepare_frame_addrs:
  assumes "linkaddr_ok (linkaddr_node_addr m)"
  shows "pb_addrs (pb (prepare_frame m)) = (pb_addrs (pb m))(PACKETBUF_ADDR_SENDER := linkaddr_node_addr m)"
  using assms by (auto simp: prepare_frame_def Let_def packetbuf_set_attr_def packetbuf_set_addr_def packetbuf_addr_def fun_eq_iff)
lemma flow_queue_addr_ok': "linkaddr_ok (flow_queue_addr h)"
  by (simp add: flow_queue_addr_def linkaddr_ok_def LINKADDR_SIZE_def)

lemma set_header_len:
  fixes h :: u8
  assumes "tq_inv nn np q" "j \<in> pkt_live q" "fresh_packet q j bf mx snt arg"
  defines "q' \<equiv> q\<lparr>pkts := (pkts q)[j := (pkts q ! j)\<lparr>header_len := h\<rparr>]\<rparr>"
  shows "tq_inv nn np q'" "aqueue q' = aqueue q" "pkt_live q' = pkt_live q" "fresh_packet q' j bf mx snt arg"
    "locked q' = locked q"
proof -
  have j: "j < length (pkts q)"
    by (rule tq_pkt_less [OF assms(1,2)])
  have qb: "qb (pkts q' ! i) = qb (pkts q ! i)" for i
    using j by (cases "i = j") (simp_all add: q'_def)
  show "tq_inv nn np q'"
    using assms(1) qb by (simp add: tq_inv_def nbrs_inv_def pkts_inv_def own_inv_def) (simp add: q'_def)
  show "aqueue q' = aqueue q" "pkt_live q' = pkt_live q" "locked q' = locked q"
    by (simp_all add: q'_def aqueue_def fun_eq_iff split: option.split)
  show "fresh_packet q' j bf mx snt arg"
    using assms(3) j by (simp add: fresh_packet_def q'_def)
qed

lemma send_packet_spec:
  assumes inv: "mac_inv ns nl nn np m"
  defines "b \<equiv> pb (prepare_frame m)"
  assumes fc: "framer_create (framing m) b = Some (h, fs, b')" "pb_inv b'" "mac_pan_id fs = mac_pan_id (framing m)"
  obtains (unassociated) "send_packet m snt arg = Some (call_sent m snt arg MAC_TX_ERR 1)" "\<not> tsch_is_associated m"
  | (no_transmission) "send_packet m snt arg = Some (prepare_frame m)" "tsch_is_associated m"
      "(ucast (pb_attrs b PACKETBUF_ATTR_MAX_MAC_TRANSMISSIONS) :: u8) = 0"
  | (unframed) m' where "send_packet m snt arg = Some m'" "mac_inv ns nl nn np m'" "same_mac m m'"
      "aqueue (queues_of m') = aqueue (queues_of m)" "h < 0" "tsch_is_associated m"
  | (refused) m' where "send_packet m snt arg = Some m'" "mac_inv ns nl nn np m'" "same_mac m m'"
      "aqueue (queues_of m') = aqueue (queues_of m)" "tsch_is_associated m"
      "length (aqueue (queues_of m) (flow_queue_addr (pb_attrs b PACKETBUF_ATTR_FLOW_NUMBER))) = 7
       \<or> card (pkt_live (queues_of m)) = np \<or> card (qb_live (qbufs (queues_of m))) = np \<or> card (nbr_live (queues_of m)) = nn"
  | (queued) j m' where "send_packet m snt arg = Some m'" "mac_inv ns nl nn np m'" "same_mac m m'" "tsch_is_associated m"
      "aqueue (queues_of m') = (aqueue (queues_of m))(flow_queue_addr (pb_attrs b PACKETBUF_ATTR_FLOW_NUMBER) :=
         aqueue (queues_of m) (flow_queue_addr (pb_attrs b PACKETBUF_ATTR_FLOW_NUMBER)) @ [j])"
      "j \<notin> pkt_live (queues_of m)" "pkt_live (queues_of m') = insert j (pkt_live (queues_of m))"
      "fresh_packet (queues_of m') j b' (ucast (pb_attrs b PACKETBUF_ATTR_MAX_MAC_TRANSMISSIONS)) snt arg"
      "header_len (pkts (queues_of m') ! j) = of_int h" "0 \<le> h"
proof (cases "tsch_is_associated m")
  case False
  with unassociated show ?thesis
    by (simp add: send_packet_def)
next
  case True
  let ?mx = "ucast (pb_attrs b PACKETBUF_ATTR_MAX_MAC_TRANSMISSIONS) :: u8"
  let ?fa = "flow_queue_addr (pb_attrs b PACKETBUF_ATTR_FLOW_NUMBER)"
  note p = prepare_frame_inv [OF inv]
  note b' = fc(2)
  define m1 where "m1 = (prepare_frame m)\<lparr>pb := b', framing := fs\<rparr>"
  have m1: "mac_inv ns nl nn np m1" "same_mac m m1" "queues_of m1 = queues_of m" "pb m1 = b'"
    using p b' fc(3) prepare_frame_framing [of m] by (simp_all add: m1_def mac_inv_def same_mac_def queues_of_def)
  have run: "send_packet m snt arg = (if ?mx = 0 then Some (prepare_frame m)
      else if h < 0 then Some (call_sent m1 snt arg MAC_TX_ERR 1)
      else do { (p, q) \<leftarrow> tsch_queue_add_packet (queues_of m) b' ?fa ?mx snt arg;
           case p of None \<Rightarrow> Some (call_sent (set_queues m1 q) snt arg MAC_TX_ERR 1)
           | Some j \<Rightarrow> do { pk \<leftarrow> rd (pkts q) j;
               Some (set_queues m1 (q\<lparr>pkts := (pkts q)[j := pk\<lparr>header_len := of_int h\<rparr>]\<rparr>)) } })"
    using True fc(1) p(3) prepare_frame_framing [of m] by (simp add: send_packet_def b_def packetbuf_attr_def m1_def Let_def cong: option.case_cong)
  consider "?mx = 0" | "?mx \<noteq> 0" "h < 0" | "?mx \<noteq> 0" "0 \<le> h"
    by linarith
  then show ?thesis
  proof cases
    case 1
    with no_transmission True run show ?thesis
      by simp
  next
    case 2
    let ?m' = "call_sent m1 snt arg MAC_TX_ERR 1"
    have "same_mac m ?m'" "aqueue (queues_of ?m') = aqueue (queues_of m)"
      using call_sent_facts [of m1 snt arg MAC_TX_ERR 1] m1 same_mac_trans by auto
    with 2 run call_sent_inv [OF m1(1)] unframed [of ?m'] fc True show ?thesis
      by simp
  next
    case 3
    have q: "tq_inv nn np (queues_of m)" "\<not> locked (queues_of m)"
      using inv by (simp_all add: mac_inv_def sched_inv_def queues_of_def)
    obtain r q1 where q1: "tsch_queue_add_packet (queues_of m) b' ?fa ?mx snt arg = Some (r, q1)" "tq_inv nn np q1" "\<not> locked q1"
      and rest: "case r of
         None \<Rightarrow> aqueue q1 = aqueue (queues_of m) \<and> pkt_live q1 = pkt_live (queues_of m)
           \<and> (length (aqueue (queues_of m) ?fa) = 7 \<or> card (pkt_live (queues_of m)) = np
              \<or> card (qb_live (qbufs (queues_of m))) = np \<or> card (nbr_live (queues_of m)) = nn)
       | Some j \<Rightarrow> aqueue q1 = (aqueue (queues_of m))(?fa := aqueue (queues_of m) ?fa @ [j]) \<and> length (aqueue (queues_of m) ?fa) < 7
           \<and> j \<notin> pkt_live (queues_of m) \<and> pkt_live q1 = insert j (pkt_live (queues_of m)) \<and> fresh_packet q1 j b' ?mx snt arg"
      using add_packet_spec [OF q flow_queue_addr_ok' b', of "pb_attrs b PACKETBUF_ATTR_FLOW_NUMBER" ?mx snt arg] q(2) by auto
    have mq: "mac_inv ns nl nn np (set_queues m1 q)" "same_mac m (set_queues m1 q)" if "tq_inv nn np q" "\<not> locked q" for q
      using set_queues_inv [OF m1(1) that] same_mac_trans [OF m1(2) same_mac_set_queues] by auto
    show ?thesis
    proof (cases r)
      case None
      let ?m' = "call_sent (set_queues m1 q1) snt arg MAC_TX_ERR 1"
      have "same_mac m ?m'" "aqueue (queues_of ?m') = aqueue q1" "mac_inv ns nl nn np ?m'"
        using call_sent_facts [of "set_queues m1 q1" snt arg MAC_TX_ERR 1] mq [OF q1(2,3)] same_mac_trans call_sent_inv by auto
      with None 3 run q1(1) rest refused [of ?m'] True show ?thesis
        by simp
    next
      case (Some j)
      let ?q = "q1\<lparr>pkts := (pkts q1)[j := (pkts q1 ! j)\<lparr>header_len := of_int h\<rparr>]\<rparr>"
      have j: "j \<in> pkt_live q1" and fr: "fresh_packet q1 j b' ?mx snt arg"
        using rest Some by simp_all
      note s = set_header_len [OF q1(2) j fr, of "of_int h"]
      have "header_len (pkts ?q ! j) = of_int h"
        using tq_pkt_less [OF q1(2) j] by simp
      moreover have "send_packet m snt arg = Some (set_queues m1 ?q)"
        using Some 3 run q1(1) tq_rd_pkt [OF q1(2) j] by simp
      ultimately show ?thesis
        using queued [of "set_queues m1 ?q" j] mq [of ?q] s q1(3) rest Some fc True 3 by simp
    qed
  qed
qed
text \<open>The queue of a flow, the packets in it, and the frame a packet holds.\<close>

abbreviation flow_queue :: "tschmac \<Rightarrow> u16 \<Rightarrow> nat list" where
  "flow_queue m f \<equiv> aqueue (queues_of m) (flow_queue_addr f)"

definition queued_frame :: "tsch_queue \<Rightarrow> nat \<Rightarrow> pbuf \<Rightarrow> bool" where
  "queued_frame q j b \<longleftrightarrow> (\<exists>k. qb (pkts q ! j) = Some k \<and> holds_packet (qb_data (qbufs q) k) b)"

text \<open>Room for one more packet of a flow: in its queue, and in the pools of packets, queuebufs and neighbors.\<close>

definition room :: "nat \<Rightarrow> nat \<Rightarrow> tschmac \<Rightarrow> u16 \<Rightarrow> bool" where
  "room nn np m f \<longleftrightarrow> length (flow_queue m f) < 7 \<and> card (pkt_live (queues_of m)) < np
     \<and> card (qb_live (qbufs (queues_of m))) < np \<and> card (nbr_live (queues_of m)) < nn"

text \<open>The length of the header of a packet with a source and a destination address.\<close>

definition hdr_size :: "pbuf \<Rightarrow> nat" where
  "hdr_size b = (if pb_addrs b PACKETBUF_ADDR_RECEIVER = linkaddr_null then 14 else 21)"

lemma prepare_frame_totlen: "packetbuf_totlen (pb (prepare_frame m)) = packetbuf_totlen (pb m)"
  by (simp add: prepare_frame_def Let_def packetbuf_totlen_def packetbuf_hdrlen_def packetbuf_datalen_def packetbuf_set_attr_def packetbuf_set_addr_def)

lemma sent_packet:
  assumes inv: "mac_inv ns nl nn np m" and assoc: "tsch_is_associated m"
    and f: "f = pb_attrs (pb m) PACKETBUF_ATTR_FLOW_NUMBER" and mx: "0 < unat (pb_attrs (pb m) PACKETBUF_ATTR_MAX_MAC_TRANSMISSIONS) mod 256"
    and no: "pb_attrs (pb m) PACKETBUF_ATTR_MAC_NO_SRC_ADDR = 0" "pb_attrs (pb m) PACKETBUF_ATTR_MAC_NO_DEST_ADDR = 0"
    and fits: "hdr_size (pb m) + unat (packetbuf_totlen (pb m)) \<le> 96" and room: "room nn np m f"
  shows "\<exists>m' j b. send_packet m snt arg = Some m' \<and> mac_inv ns nl nn np m' \<and> same_mac m m'
    \<and> aqueue (queues_of m') = (aqueue (queues_of m))(flow_queue_addr f := flow_queue m f @ [j])
    \<and> queued_frame (queues_of m') j b \<and> unat (max_transmissions (pkts (queues_of m') ! j)) = unat (pb_attrs (pb m) PACKETBUF_ATTR_MAX_MAC_TRANSMISSIONS) mod 256
    \<and> transmissions (pkts (queues_of m') ! j) = 0 \<and> header_len (pkts (queues_of m') ! j) = of_nat (hdr_size (pb m))
    \<and> pb_inv b \<and> length (packet_header (framing m) b) = hdr_size (pb m) \<and> pb_frame b = packet_header (framing m) b @ pb_frame (pb m)
    \<and> pb_addrs b = (pb_addrs (pb m))(PACKETBUF_ADDR_SENDER := linkaddr_node_addr m)
    \<and> pb_attrs b PACKETBUF_ATTR_FRAME_TYPE = FRAME802154_DATAFRAME
    \<and> (pb_addrs (pb m) PACKETBUF_ADDR_RECEIVER \<noteq> linkaddr_null \<longrightarrow> pb_attrs b PACKETBUF_ATTR_MAC_ACK = 1
         \<and> pb_attrs b PACKETBUF_ATTR_MAC_SEQNO \<notin> {0, ucast (tsch_packet_seqno m)})
    \<and> (pb_addrs (pb m) PACKETBUF_ADDR_RECEIVER = linkaddr_null \<longrightarrow> pb_attrs b PACKETBUF_ATTR_MAC_ACK = pb_attrs (pb m) PACKETBUF_ATTR_MAC_ACK)
    \<and> (\<forall>t. t \<notin> {PACKETBUF_ATTR_FRAME_TYPE, PACKETBUF_ATTR_MAC_ACK, PACKETBUF_ATTR_MAC_SEQNO} \<longrightarrow> pb_attrs b t = pb_attrs (pb m) t)"
proof -
  let ?b = "pb (prepare_frame m)" and ?mx = "pb_attrs (pb m) PACKETBUF_ATTR_MAX_MAC_TRANSMISSIONS"
  note p = prepare_frame_inv [OF inv]
  have na: "linkaddr_ok (linkaddr_node_addr m)" "linkaddr_ok (pb_addrs (pb m) PACKETBUF_ADDR_RECEIVER)" "pb_inv ?b" "mac_pan_id (framing m) \<noteq> 0xffff"
    using inv p(1) assoc by (simp_all add: mac_inv_def pb_inv_def)
  obtain h fs b where fc: "framer_create (framing m) ?b = Some (h, fs, b)" "pb_inv b" "mac_pan_id fs = mac_pan_id (framing m)"
    and adr: "pb_addrs b = pb_addrs ?b" and att: "pb_attrs b = (pb_attrs ?b)(PACKETBUF_ATTR_MAC_SEQNO := pb_attrs b PACKETBUF_ATTR_MAC_SEQNO)"
    and sq: "pb_attrs ?b PACKETBUF_ATTR_MAC_SEQNO \<noteq> 0 \<longrightarrow> pb_attrs b PACKETBUF_ATTR_MAC_SEQNO = pb_attrs ?b PACKETBUF_ATTR_MAC_SEQNO"
    and hdr: "0 \<le> h \<longrightarrow> h = int (length (packet_header fs b)) \<and> framed (packet_header fs b) ?b b \<and> pb_attrs b PACKETBUF_ATTR_MAC_SEQNO \<noteq> 0"
    and fail: "h < 0 \<longleftrightarrow> mac_pan_id (framing m) = 0xffff \<or> 96 < length (packet_header fs b) + unat (packetbuf_totlen ?b)"
    by (rule framer_create_spec [OF na(3), of "framing m"])
  have at: "pb_attrs ?b PACKETBUF_ATTR_FLOW_NUMBER = f" "pb_attrs ?b PACKETBUF_ATTR_MAX_MAC_TRANSMISSIONS = ?mx"
    by (simp_all add: prepare_frame_attrs f)
  have same: "t \<noteq> PACKETBUF_ATTR_MAC_SEQNO \<Longrightarrow> pb_attrs b t = pb_attrs ?b t" for t
    using att by (metis fun_upd_apply)
  have ph: "packet_header fs b = packet_header (framing m) b"
    by (rule packet_header_cong [OF refl refl fc(3)])
  have len: "length (packet_header (framing m) b) = hdr_size (pb m)"
    using length_packet_header [OF fc(2), of "framing m"] no adr na(1) by (simp add: same prepare_frame_attrs prepare_frame_addrs hdr_size_def)
  have h: "h = int (hdr_size (pb m))"
    using hdr fail fits na(4) len by (cases "0 \<le> h") (simp_all add: ph prepare_frame_totlen)
  have frame: "pb_frame b = packet_header (framing m) b @ pb_frame (pb m)"
    using hdr h p(4) by (simp add: ph framed_def)
  have mx': "unat (ucast ?mx :: u8) = unat ?mx mod 256"
    by (simp add: unsigned_ucast_eq unsigned_take_bit_eq take_bit_eq_mod)
  have sn: "pb_attrs b PACKETBUF_ATTR_MAC_SEQNO \<notin> {0, ucast (tsch_packet_seqno m)}"
    if "pb_addrs (pb m) PACKETBUF_ADDR_RECEIVER \<noteq> linkaddr_null"
  proof -
    have "pb_attrs ?b PACKETBUF_ATTR_MAC_SEQNO \<notin> {0, ucast (tsch_packet_seqno m)}"
      using that na(2) next_seqno [of "tsch_packet_seqno m"] by (simp add: prepare_frame_attrs)
    then show ?thesis
      using sq by simp
  qed
  from inv fc show ?thesis
  proof (cases rule: send_packet_spec [where snt = snt and arg = arg])
    case (queued j m')
    show ?thesis
      by (intro exI [of _ m'] exI [of _ j] exI [of _ b])
        (use queued frame adr at fc(2) sn na mx' len h same in \<open>auto simp: fresh_packet_def queued_frame_def prepare_frame_addrs prepare_frame_attrs\<close>)
  qed (use assoc mx mx' at h room in \<open>auto simp: room_def\<close>)
qed


text \<open>A node that is ready to send on flow 1.\<close>

definition mac_initial :: "pbuf \<Rightarrow> tschmac" where
  "mac_initial b = \<lparr>sched = sched_initial 7 8 12 8, pb = b, tsch_packet_seqno = 255, tsch_is_associated = True,
     tsch_is_initialized = True, tsch_is_started = True, tsch_current_asn = Asn 0 0, tsch_current_eb_period = 0,
     linkaddr_node_addr = [2, 0, 0, 0, 0, 0, 0, 0],
     framing = \<lparr>mac_pan_id = 0x4bb4, mac_dsn = 0, framer_initialized = False, first_random = 0\<rparr>, received_seqnos = replicate 16 no_entry\<rparr>"

lemma mac_initial_inv: "pb_inv b \<Longrightarrow> mac_inv 7 8 12 8 (mac_initial b)"
  "room 12 8 (mac_initial b) f" "flow_queue (mac_initial b) f = []"
proof -
  have "sq (sched_initial 7 8 12 8) = tq_initial 12 8"
    by (simp add: sched_initial_def)
  then show "pb_inv b \<Longrightarrow> mac_inv 7 8 12 8 (mac_initial b)" "room 12 8 (mac_initial b) f" "flow_queue (mac_initial b) f = []"
    using sched_initial_inv(1,2) [of 7 8 12 8] tq_initial_inv [of 12 8]
    by (simp_all add: mac_inv_def mac_initial_def queues_of_def linkaddr_ok_def LINKADDR_SIZE_def room_def)
qed


end
