(* ===== verification/Master_Net.thy ===== *)
theory Master_Net
  imports Tsch_Mac
begin

text \<open>
  The network layer \<^verbatim>\<open>master-net.c\<close>: \<^verbatim>\<open>output\<close> builds the packet buffer from \<^verbatim>\<open>masternet_buf\<close> and
  \<^verbatim>\<open>masternet_len\<close>, sets the attributes that the configuration callback asks for, and hands the packet to the MAC layer;
  \<^verbatim>\<open>input\<close> passes a received packet on.  The callbacks are those of the layer above: \<open>cfg\<close> is what the configuration
  callback returns, if one is registered.  The LEDs are left out.
\<close>

section \<open>Definitions\<close>

record packet_config =
  ttl_slot_number :: u16
  earliest_tx_slot :: u16
  flow_number :: u16
  max_tx :: u16

definition MAC_MAX_PAYLOAD :: int where
  "MAC_MAX_PAYLOAD = 127 - 2"

definition FIXED_HDRLEN :: int where
  "FIXED_HDRLEN = 21"

definition configure :: "packet_config option \<Rightarrow> pbuf \<Rightarrow> pbuf" where
  "configure cfg b = (case cfg of
     None \<Rightarrow> b
   | Some c \<Rightarrow>
       (let b = packetbuf_set_attr b PACKETBUF_ATTR_MAX_MAC_TRANSMISSIONS (max_tx c);
            b = packetbuf_set_attr b PACKETBUF_ATTR_FLOW_NUMBER (flow_number c);
            b = packetbuf_set_attr b PACKETBUF_ATTR_TRANSMISSION_TTL (ttl_slot_number c)
        in packetbuf_set_attr b PACKETBUF_ATTR_EARLIEST_TX_SLOT (earliest_tx_slot c)))"

definition set_addresses :: "linkaddr option \<Rightarrow> linkaddr \<Rightarrow> pbuf \<Rightarrow> pbuf" where
  "set_addresses dest src b =
     (let b = packetbuf_set_addr b PACKETBUF_ADDR_RECEIVER (case dest of Some a \<Rightarrow> a | None \<Rightarrow> linkaddr_null)
      in packetbuf_set_addr b PACKETBUF_ADDR_SENDER src)"

text \<open>The length is compared with an \<^verbatim>\<open>int\<close>, that is, as an unsigned number of 16 bits.\<close>

definition masternet_output ::
    "tschmac \<Rightarrow> u8 list \<Rightarrow> u16 \<Rightarrow> packet_config option \<Rightarrow> linkaddr option \<Rightarrow> (u8 \<times> tschmac) option" where
  "masternet_output m msg len cfg dest = do {
     (_, b) \<leftarrow> packetbuf_copyfrom (packetbuf_clear (pb m)) msg len;
     let b = set_addresses dest (linkaddr_node_addr m) (configure cfg b);
     (framer_hdrlen, fs, b) \<leftarrow> framer_length (framing m) b;
     let m = m\<lparr>pb := b, framing := fs\<rparr>;
     let framer_hdrlen = (if framer_hdrlen < 0 then FIXED_HDRLEN else framer_hdrlen);
     let max_payload = MAC_MAX_PAYLOAD - framer_hdrlen;
     if len \<le> of_int max_payload then do {
       m \<leftarrow> send_packet m None None;
       Some (1, m)
     } else Some (0, m\<lparr>pb := packetbuf_clear b\<rparr>)
   }"

text \<open>What \<^verbatim>\<open>input\<close> passes to its callback: the data of the packet buffer, its length and the two addresses.\<close>

definition masternet_input :: "tschmac \<Rightarrow> (u8 list \<times> u16 \<times> linkaddr \<times> linkaddr) option" where
  "masternet_input m = do {
     bs \<leftarrow> rd_n (pb_bytes (pb m)) (packetbuf_dataptr (pb m)) (unat (packetbuf_datalen (pb m)));
     Some (bs, packetbuf_datalen (pb m), packetbuf_addr (pb m) PACKETBUF_ADDR_SENDER, packetbuf_addr (pb m) PACKETBUF_ADDR_RECEIVER)
   }"

section \<open>The packet that is sent\<close>

definition outgoing :: "u8 list \<Rightarrow> u16 \<Rightarrow> packet_config option \<Rightarrow> linkaddr option \<Rightarrow> linkaddr \<Rightarrow> pbuf \<Rightarrow> bool" where
  "outgoing msg len cfg dest src b \<longleftrightarrow> pb_inv b \<and> bufptr b = 0 \<and> pb_frame b = take (min 96 (unat len)) msg
     \<and> pb_attrs b = (\<lambda>t. case cfg of None \<Rightarrow> 0 | Some c \<Rightarrow>
          (case t of PACKETBUF_ATTR_MAX_MAC_TRANSMISSIONS \<Rightarrow> max_tx c | PACKETBUF_ATTR_FLOW_NUMBER \<Rightarrow> flow_number c
           | PACKETBUF_ATTR_TRANSMISSION_TTL \<Rightarrow> ttl_slot_number c | PACKETBUF_ATTR_EARLIEST_TX_SLOT \<Rightarrow> earliest_tx_slot c | _ \<Rightarrow> 0))
     \<and> pb_addrs b PACKETBUF_ADDR_RECEIVER = (case dest of Some a \<Rightarrow> a | None \<Rightarrow> linkaddr_null)
     \<and> pb_addrs b PACKETBUF_ADDR_SENDER = src"

lemma configure_simps [simp]:
  "pb_inv (configure cfg b) = pb_inv b" "pb_hdr (configure cfg b) = pb_hdr b" "pb_frame (configure cfg b) = pb_frame b"
  "pb_addrs (configure cfg b) = pb_addrs b" "bufptr (configure cfg b) = bufptr b"
  by (simp_all add: configure_def Let_def packetbuf_set_attr_def pb_inv_def pb_hdr_def pb_frame_def pb_data_def
      packetbuf_dataptr_def packetbuf_hdrlen_def split: option.split)

lemma configure_attrs:
  "pb_attrs (configure cfg b) = (\<lambda>t. case cfg of None \<Rightarrow> pb_attrs b t | Some c \<Rightarrow>
     (case t of PACKETBUF_ATTR_MAX_MAC_TRANSMISSIONS \<Rightarrow> max_tx c | PACKETBUF_ATTR_FLOW_NUMBER \<Rightarrow> flow_number c
      | PACKETBUF_ATTR_TRANSMISSION_TTL \<Rightarrow> ttl_slot_number c | PACKETBUF_ATTR_EARLIEST_TX_SLOT \<Rightarrow> earliest_tx_slot c
      | _ \<Rightarrow> pb_attrs b t))"
  by (auto simp: configure_def Let_def packetbuf_set_attr_def fun_eq_iff split: option.split pb_attr.split)

lemma set_addresses_simps [simp]:
  "pb_hdr (set_addresses dest src b) = pb_hdr b" "pb_frame (set_addresses dest src b) = pb_frame b"
  "pb_attrs (set_addresses dest src b) = pb_attrs b" "bufptr (set_addresses dest src b) = bufptr b"
  by (simp_all add: set_addresses_def Let_def packetbuf_set_addr_def pb_hdr_def pb_frame_def pb_data_def
      packetbuf_dataptr_def packetbuf_hdrlen_def)

lemma set_addresses_ok:
  assumes "linkaddr_ok src" "\<forall>a. dest = Some a \<longrightarrow> linkaddr_ok a"
  shows "pb_inv b \<Longrightarrow> pb_inv (set_addresses dest src b)"
    "pb_addrs (set_addresses dest src b) PACKETBUF_ADDR_RECEIVER = (case dest of Some a \<Rightarrow> a | None \<Rightarrow> linkaddr_null)"
    "pb_addrs (set_addresses dest src b) PACKETBUF_ADDR_SENDER = src"
  using assms by (auto simp: set_addresses_def Let_def packetbuf_set_addr_def pb_inv_def split: option.split)

lemma copyfrom_attrs: "packetbuf_copyfrom b src len = Some (n, b') \<Longrightarrow> pb_attrs b' = (\<lambda>_. 0) \<and> bufptr b' = 0"
  by (auto simp: packetbuf_copyfrom_def bind_eq_Some Let_def packetbuf_clear_def packetbuf_attr_clear_def)

lemma prepare_frame_bufptr: "bufptr (pb (prepare_frame m)) = bufptr (pb m)"
  by (simp add: prepare_frame_def Let_def packetbuf_set_attr_def packetbuf_set_addr_def)

lemma unat_of_int_small: "0 \<le> k \<Longrightarrow> k < 65536 \<Longrightarrow> unat (of_int k :: u16) = nat k"
  by (simp add: unsigned_of_int take_bit_int_eq_self)

lemma outgoing_built:
  assumes inv: "mac_inv ns nl nn np m" and len: "unat len \<le> length msg" and dest: "\<forall>a. dest = Some a \<longrightarrow> linkaddr_ok a"
  obtains n b0 where "packetbuf_copyfrom (packetbuf_clear (pb m)) msg len = Some (n, b0)"
    "outgoing msg len cfg dest (linkaddr_node_addr m) (set_addresses dest (linkaddr_node_addr m) (configure cfg b0))"
proof -
  have ok: "pb_inv (packetbuf_clear (pb m))" "linkaddr_ok (linkaddr_node_addr m)"
    using inv by (simp_all add: mac_inv_def packetbuf_clear_inv)
  from packetbuf_copyfrom_spec [OF ok(1) len] obtain n b0 where
    b0: "packetbuf_copyfrom (packetbuf_clear (pb m)) msg len = Some (n, b0)" "pb_inv b0" "pb_hdr b0 = []" "pb_data b0 = take (min 96 (unat len)) msg"
    by auto
  note a = set_addresses_ok [OF ok(2) dest]
  have frame: "pb_frame b0 = take (min 96 (unat len)) msg"
    using b0(3,4) by (simp add: pb_frame_def)
  have "outgoing msg len cfg dest (linkaddr_node_addr m) (set_addresses dest (linkaddr_node_addr m) (configure cfg b0))"
    using b0(2,3) frame a copyfrom_attrs [OF b0(1)] by (auto simp: outgoing_def configure_attrs fun_eq_iff split: option.split pb_attr.split)
  with b0(1) that show thesis
    by blast
qed

text \<open>What \<open>output\<close> hands to \<^verbatim>\<open>send_packet\<close>, or that it refuses the packet; \<open>h\<close> is the length of the header.\<close>

definition header_size :: "linkaddr option \<Rightarrow> nat" where
  "header_size dest = (case dest of None \<Rightarrow> 14 | Some a \<Rightarrow> if a = linkaddr_null then 14 else 21)"

lemma outgoing_header:
  assumes "outgoing msg len cfg dest src b" "unat len \<le> length msg"
  shows "hdr_size b = header_size dest" "length (packet_header fs b) = header_size dest" "unat (packetbuf_totlen b) = min 96 (unat len)"
    "pb_attrs b PACKETBUF_ATTR_MAC_NO_SRC_ADDR = 0" "pb_attrs b PACKETBUF_ATTR_MAC_NO_DEST_ADDR = 0"
proof -
  note o = assms(1) [unfolded outgoing_def]
  show at: "pb_attrs b PACKETBUF_ATTR_MAC_NO_SRC_ADDR = 0" "pb_attrs b PACKETBUF_ATTR_MAC_NO_DEST_ADDR = 0"
    using o by (simp_all split: option.splits)
  show "hdr_size b = header_size dest" "length (packet_header fs b) = header_size dest"
    using o length_packet_header [of b fs] at by (simp_all add: hdr_size_def header_size_def split: option.splits)
  have "length (pb_frame b) = min 96 (unat len)"
    using o assms(2) by (simp add: min_def)
  then show "unat (packetbuf_totlen b) = min 96 (unat len)"
    using o pb_lengths [of b] by (simp add: pb_totlen pb_frame_def)
qed

lemma output_unfold:
  assumes inv: "mac_inv ns nl nn np m" and len: "unat len \<le> length msg" and dest: "\<forall>a. dest = Some a \<longrightarrow> linkaddr_ok a"
  obtains b fs refused where "outgoing msg len cfg dest (linkaddr_node_addr m) b" "mac_inv ns nl nn np (m\<lparr>pb := b, framing := fs\<rparr>)"
    "same_mac m (m\<lparr>pb := b, framing := fs\<rparr>)" "tsch_is_associated m \<longrightarrow> (refused \<longleftrightarrow> 125 - header_size dest < unat len)"
    "masternet_output m msg len cfg dest = (if refused then Some (0, m\<lparr>pb := packetbuf_clear b, framing := fs\<rparr>)
       else map_option (Pair 1) (send_packet (m\<lparr>pb := b, framing := fs\<rparr>) None None))"
proof -
  obtain n b0 where b0: "packetbuf_copyfrom (packetbuf_clear (pb m)) msg len = Some (n, b0)"
    and out: "outgoing msg len cfg dest (linkaddr_node_addr m) (set_addresses dest (linkaddr_node_addr m) (configure cfg b0))"
    by (rule outgoing_built [OF inv len dest])
  define b where "b = set_addresses dest (linkaddr_node_addr m) (configure cfg b0)"
  note out = out [folded b_def]
  have b: "pb_inv b" "tsch_is_associated m \<longrightarrow> mac_pan_id (framing m) \<noteq> 0xffff"
    using out inv by (simp_all add: outgoing_def mac_inv_def)
  obtain h fs where fl: "framer_length (framing m) b = Some (h, fs, b)" "mac_pan_id fs = mac_pan_id (framing m)"
    and h: "mac_pan_id (framing m) \<noteq> 0xffff \<longrightarrow> h = int (header_size dest)"
    using framer_length_spec [OF b(1)] outgoing_header(2) [OF out len] that
    by (cases "mac_pan_id (framing m) = 0xffff") (auto simp: framer_init_def)
  define refused where "refused \<longleftrightarrow> \<not> len \<le> of_int (MAC_MAX_PAYLOAD - (if h < 0 then FIXED_HDRLEN else h))"
  have "len \<le> of_int (MAC_MAX_PAYLOAD - int (header_size dest)) \<longleftrightarrow> \<not> 125 - header_size dest < unat len"
    using unat_of_int_small [of "125 - int (header_size dest)"]
    by (auto simp: word_le_nat_alt MAC_MAX_PAYLOAD_def header_size_def split: option.split)
  then have r: "tsch_is_associated m \<longrightarrow> (refused \<longleftrightarrow> 125 - header_size dest < unat len)"
    using h b(2) by (auto simp: refused_def)
  have "masternet_output m msg len cfg dest = (if refused then Some (0, m\<lparr>pb := packetbuf_clear b, framing := fs\<rparr>)
       else map_option (Pair 1) (send_packet (m\<lparr>pb := b, framing := fs\<rparr>) None None))"
    unfolding refused_def using b0 fl
    by (cases "send_packet (m\<lparr>pb := b, framing := fs\<rparr>) None None") (simp_all add: masternet_output_def Let_def flip: b_def)
  with out b fl(2) inv r show thesis
    by (intro that [of b fs refused]) (simp_all add: mac_inv_def same_mac_def queues_of_def)
qed

text \<open>Whatever becomes of the packet, the buffer is handled in bounds and the layers below stay consistent.\<close>

lemma send_packet_ok:
  assumes "mac_inv ns nl nn np m"
  shows "\<exists>m'. send_packet m snt arg = Some m' \<and> mac_inv ns nl nn np m' \<and> same_mac m m'"
proof -
  note p = prepare_frame_inv [OF assms]
  have "pb_inv (pb (prepare_frame m))"
    using p(1) by (simp add: mac_inv_def)
  then obtain h fs b where fc: "framer_create (framing m) (pb (prepare_frame m)) = Some (h, fs, b)" "pb_inv b" "mac_pan_id fs = mac_pan_id (framing m)"
    by (rule framer_create_spec)
  from assms fc show ?thesis
  proof (cases rule: send_packet_spec [where snt = snt and arg = arg])
    case unassociated
    then show ?thesis
      using call_sent_inv [OF assms] call_sent_facts(1) by blast
  next
    case no_transmission
    then show ?thesis
      using p by blast
  qed blast+
qed

lemma masternet_output_ok:
  assumes inv: "mac_inv ns nl nn np m" and len: "unat len \<le> length msg" and dest: "\<forall>a. dest = Some a \<longrightarrow> linkaddr_ok a"
  shows "\<exists>r m'. masternet_output m msg len cfg dest = Some (r, m') \<and> mac_inv ns nl nn np m' \<and> same_mac m m'"
proof -
  obtain b fs refused where o: "outgoing msg len cfg dest (linkaddr_node_addr m) b" "mac_inv ns nl nn np (m\<lparr>pb := b, framing := fs\<rparr>)"
    "same_mac m (m\<lparr>pb := b, framing := fs\<rparr>)" "tsch_is_associated m \<longrightarrow> (refused \<longleftrightarrow> 125 - header_size dest < unat len)"
    "masternet_output m msg len cfg dest = (if refused then Some (0, m\<lparr>pb := packetbuf_clear b, framing := fs\<rparr>)
       else map_option (Pair 1) (send_packet (m\<lparr>pb := b, framing := fs\<rparr>) None None))"
    by (rule output_unfold [OF inv len dest])
  obtain m' where m': "send_packet (m\<lparr>pb := b, framing := fs\<rparr>) None None = Some m'" "mac_inv ns nl nn np m'" "same_mac m m'"
    using send_packet_ok [OF o(2), of None None] same_mac_trans [OF o(3)] by blast
  have "mac_inv ns nl nn np (m\<lparr>pb := packetbuf_clear b, framing := fs\<rparr>)" "same_mac m (m\<lparr>pb := packetbuf_clear b, framing := fs\<rparr>)"
    using o(1-3) by (simp_all add: mac_inv_def same_mac_def queues_of_def outgoing_def packetbuf_clear_inv)
  with m' o(5) show ?thesis
    by auto
qed

text \<open>A packet whose header does not fit changes no queue.\<close>

lemma unframed_dropped:
  assumes inv: "mac_inv ns nl nn np m"
    and no: "pb_attrs (pb m) PACKETBUF_ATTR_MAC_NO_SRC_ADDR = 0" "pb_attrs (pb m) PACKETBUF_ATTR_MAC_NO_DEST_ADDR = 0"
    and long: "96 < hdr_size (pb m) + unat (packetbuf_totlen (pb m))"
  shows "\<exists>m'. send_packet m snt arg = Some m' \<and> mac_inv ns nl nn np m' \<and> same_mac m m' \<and> aqueue (queues_of m') = aqueue (queues_of m)"
proof -
  let ?b = "pb (prepare_frame m)"
  note p = prepare_frame_inv [OF inv]
  have na: "linkaddr_ok (linkaddr_node_addr m)" "pb_inv ?b"
    using inv p(1) by (simp_all add: mac_inv_def)
  obtain h fs b where fc: "framer_create (framing m) ?b = Some (h, fs, b)" "pb_inv b" "mac_pan_id fs = mac_pan_id (framing m)"
    and adr: "pb_addrs b = pb_addrs ?b" and att: "pb_attrs b = (pb_attrs ?b)(PACKETBUF_ATTR_MAC_SEQNO := pb_attrs b PACKETBUF_ATTR_MAC_SEQNO)"
    and fail: "h < 0 \<longleftrightarrow> mac_pan_id (framing m) = 0xffff \<or> 96 < length (packet_header fs b) + unat (packetbuf_totlen ?b)"
    by (rule framer_create_spec [OF na(2), of "framing m"])
  have same: "t \<noteq> PACKETBUF_ATTR_MAC_SEQNO \<Longrightarrow> pb_attrs b t = pb_attrs ?b t" for t
    using att by (metis fun_upd_apply)
  have "length (packet_header fs b) = hdr_size (pb m)"
    using length_packet_header [OF fc(2), of fs] no adr na(1) by (simp add: same prepare_frame_attrs prepare_frame_addrs hdr_size_def)
  then have h: "h < 0"
    using fail long by (simp add: prepare_frame_totlen)
  from inv fc show ?thesis
  proof (cases rule: send_packet_spec [where snt = snt and arg = arg])
    case unassociated
    then show ?thesis
      using call_sent_inv [OF inv] call_sent_facts(1,2) by blast
  next
    case no_transmission
    then show ?thesis
      using p by auto
  qed (use h in auto)
qed

lemma output_queued:
  assumes inv: "mac_inv ns nl nn np m" and assoc: "tsch_is_associated m" and len: "unat len \<le> length msg" and dest: "linkaddr_ok dest"
    and room: "room nn np m (flow_number c)" and mx: "0 < unat (max_tx c) mod 256"
  shows "\<exists>r m'. masternet_output m msg len (Some c) (Some dest) = Some (r, m') \<and> mac_inv ns nl nn np m' \<and> same_mac m m'
    \<and> (if header_size (Some dest) + unat len \<le> 96
       then r = 1 \<and> (\<exists>j b. aqueue (queues_of m') = (aqueue (queues_of m))(flow_queue_addr (flow_number c) := flow_queue m (flow_number c) @ [j])
         \<and> queued_frame (queues_of m') j b \<and> pb_inv b \<and> expressible b \<and> pb_frame b = packet_header (framing m) b @ take (unat len) msg
         \<and> length (packet_header (framing m) b) = header_size (Some dest)
         \<and> unat (max_transmissions (pkts (queues_of m') ! j)) = unat (max_tx c) mod 256
         \<and> pb_attrs b PACKETBUF_ATTR_FLOW_NUMBER = flow_number c \<and> pb_attrs b PACKETBUF_ATTR_TRANSMISSION_TTL = ttl_slot_number c
         \<and> pb_attrs b PACKETBUF_ATTR_EARLIEST_TX_SLOT = earliest_tx_slot c
         \<and> pb_addrs b PACKETBUF_ADDR_RECEIVER = dest \<and> pb_addrs b PACKETBUF_ADDR_SENDER = linkaddr_node_addr m)
       else r = (if 125 - header_size (Some dest) < unat len then 0 else 1) \<and> aqueue (queues_of m') = aqueue (queues_of m))"
proof -
  have dest': "\<forall>a. Some dest = Some a \<longrightarrow> linkaddr_ok a"
    using dest by simp
  obtain b fs refused where o: "outgoing msg len (Some c) (Some dest) (linkaddr_node_addr m) b" "mac_inv ns nl nn np (m\<lparr>pb := b, framing := fs\<rparr>)"
    "same_mac m (m\<lparr>pb := b, framing := fs\<rparr>)" "tsch_is_associated m \<longrightarrow> (refused \<longleftrightarrow> 125 - header_size (Some dest) < unat len)"
    "masternet_output m msg len (Some c) (Some dest) = (if refused then Some (0, m\<lparr>pb := packetbuf_clear b, framing := fs\<rparr>)
       else map_option (Pair 1) (send_packet (m\<lparr>pb := b, framing := fs\<rparr>) None None))"
    by (rule output_unfold [OF inv len dest', of "Some c"])
  let ?m = "m\<lparr>pb := b, framing := fs\<rparr>"
  note out = o(1) [unfolded outgoing_def]
  note hd = outgoing_header [OF o(1) len]
  have q: "queues_of ?m = queues_of m" "framing ?m = fs" "mac_pan_id fs = mac_pan_id (framing m)" "tsch_packet_seqno ?m = tsch_packet_seqno m"
    using o(3) by (simp_all add: same_mac_def)
  show ?thesis
  proof (cases "header_size (Some dest) + unat len \<le> 96")
    case True
    have at: "flow_number c = pb_attrs (pb ?m) PACKETBUF_ATTR_FLOW_NUMBER" "0 < unat (pb_attrs (pb ?m) PACKETBUF_ATTR_MAX_MAC_TRANSMISSIONS) mod 256"
      "pb_attrs (pb ?m) PACKETBUF_ATTR_MAC_NO_SRC_ADDR = 0" "pb_attrs (pb ?m) PACKETBUF_ATTR_MAC_NO_DEST_ADDR = 0"
      "hdr_size (pb ?m) + unat (packetbuf_totlen (pb ?m)) \<le> 96" "room nn np ?m (flow_number c)" "tsch_is_associated ?m"
      using out mx hd True room assoc q(1) by (simp_all add: room_def)
    obtain m' j b' where s: "send_packet ?m None None = Some m'" "mac_inv ns nl nn np m'" "same_mac ?m m'"
      and q': "aqueue (queues_of m') = (aqueue (queues_of ?m))(flow_queue_addr (flow_number c) := flow_queue ?m (flow_number c) @ [j])"
        "queued_frame (queues_of m') j b'" "unat (max_transmissions (pkts (queues_of m') ! j)) = unat (pb_attrs (pb ?m) PACKETBUF_ATTR_MAX_MAC_TRANSMISSIONS) mod 256"
        "pb_inv b'" "length (packet_header (framing ?m) b') = hdr_size (pb ?m)" "pb_frame b' = packet_header (framing ?m) b' @ pb_frame (pb ?m)"
        "pb_addrs b' = (pb_addrs (pb ?m))(PACKETBUF_ADDR_SENDER := linkaddr_node_addr ?m)"
        "pb_attrs b' PACKETBUF_ATTR_FRAME_TYPE = FRAME802154_DATAFRAME"
      and ack: "pb_addrs (pb ?m) PACKETBUF_ADDR_RECEIVER \<noteq> linkaddr_null \<longrightarrow> pb_attrs b' PACKETBUF_ATTR_MAC_ACK = 1
          \<and> pb_attrs b' PACKETBUF_ATTR_MAC_SEQNO \<notin> {0, ucast (tsch_packet_seqno ?m)}"
        "pb_addrs (pb ?m) PACKETBUF_ADDR_RECEIVER = linkaddr_null \<longrightarrow> pb_attrs b' PACKETBUF_ATTR_MAC_ACK = pb_attrs (pb ?m) PACKETBUF_ATTR_MAC_ACK"
      and t: "\<forall>t. t \<notin> {PACKETBUF_ATTR_FRAME_TYPE, PACKETBUF_ATTR_MAC_ACK, PACKETBUF_ATTR_MAC_SEQNO} \<longrightarrow> pb_attrs b' t = pb_attrs (pb ?m) t"
      using sent_packet [OF o(2) at(7,1-6), of None None] by (elim exE conjE) (rule that)
    have ph: "packet_header fs b' = packet_header (framing m) b'"
      by (rule packet_header_cong [OF refl refl q(3)])
    have "expressible b'"
      using ack t q'(8) out by (auto simp: expressible_def FRAME802154_DATAFRAME_def)
    moreover have "masternet_output m msg len (Some c) (Some dest) = Some (1, m')"
      using o(4,5) s(1) assoc True by (auto simp: header_size_def)
    ultimately show ?thesis
      using True s(2) same_mac_trans [OF o(3) s(3)] q' q t ph out hd
      by (intro exI [of _ "1 :: u8"] exI [of _ m']) (auto intro!: exI [of _ j] exI [of _ b'])
  next
    case False
    then have long: "96 < hdr_size (pb ?m) + unat (packetbuf_totlen (pb ?m))"
      using hd by (simp add: min_def header_size_def)
    obtain m' where m': "send_packet ?m None None = Some m'" "mac_inv ns nl nn np m'" "same_mac ?m m'" "aqueue (queues_of m') = aqueue (queues_of ?m)"
      using unframed_dropped [OF o(2), of None None] hd(4,5) long by auto
    have "mac_inv ns nl nn np (m\<lparr>pb := packetbuf_clear b, framing := fs\<rparr>)" "same_mac m (m\<lparr>pb := packetbuf_clear b, framing := fs\<rparr>)"
      "queues_of (m\<lparr>pb := packetbuf_clear b, framing := fs\<rparr>) = queues_of m"
      using o(1-3) by (simp_all add: mac_inv_def same_mac_def queues_of_def outgoing_def packetbuf_clear_inv)
    with m' o(4,5) q(1) assoc False same_mac_trans [OF o(3) m'(3)] show ?thesis
      by auto
  qed
qed

text \<open>
  C27. Output of a packet.  On an associated node with room for the packet, \<open>output\<close> with a registered configuration and a
  destination appends the packet to the queue of the configured flow exactly if it fits into the packet buffer together with its
  header: the queued frame is the header, followed by the bytes of the buffer; it is marked with the configured
  numbers of transmissions and slots and addressed to the destination.  A longer packet changes no queue, and
  although it is lost, 0 is returned only if it exceeds the 125 bytes of a frame.
\<close>

theorem output_queues_packet:
  assumes inv: "mac_inv ns nl nn np m" and assoc: "tsch_is_associated m" and len: "unat len \<le> length msg" and dest: "linkaddr_ok dest"
    and room: "room nn np m (flow_number c)" and mx: "0 < unat (max_tx c) mod 256"
  shows "\<exists>r m'. masternet_output m msg len (Some c) (Some dest) = Some (r, m') \<and> mac_inv ns nl nn np m' \<and> same_mac m m'
    \<and> (if header_size (Some dest) + unat len \<le> 96
       then r = 1 \<and> (\<exists>j b. aqueue (queues_of m') = (aqueue (queues_of m))(flow_queue_addr (flow_number c) := flow_queue m (flow_number c) @ [j])
         \<and> queued_frame (queues_of m') j b \<and> pb_inv b \<and> expressible b \<and> pb_frame b = packet_header (framing m) b @ take (unat len) msg
         \<and> length (packet_header (framing m) b) = header_size (Some dest)
         \<and> unat (max_transmissions (pkts (queues_of m') ! j)) = unat (max_tx c) mod 256
         \<and> pb_attrs b PACKETBUF_ATTR_FLOW_NUMBER = flow_number c \<and> pb_attrs b PACKETBUF_ATTR_TRANSMISSION_TTL = ttl_slot_number c
         \<and> pb_attrs b PACKETBUF_ATTR_EARLIEST_TX_SLOT = earliest_tx_slot c
         \<and> pb_addrs b PACKETBUF_ADDR_RECEIVER = dest \<and> pb_addrs b PACKETBUF_ADDR_SENDER = linkaddr_node_addr m)
       else r = (if 125 - header_size (Some dest) < unat len then 0 else 1) \<and> aqueue (queues_of m') = aqueue (queues_of m))"
  using assms by (rule output_queued)

theorem output_queues_packet_witness:
  "\<exists>m' j b. masternet_output (mac_initial pb_initial) [7, 8, 9] 3
       (Some \<lparr>ttl_slot_number = 40, earliest_tx_slot = 10, flow_number = 2, max_tx = 1\<rparr>) (Some tsch_broadcast_address) = Some (1, m')
     \<and> flow_queue m' 2 = [j] \<and> queued_frame (queues_of m') j b \<and> drop 21 (pb_frame b) = [7, 8, 9]"
proof -
  have a: "linkaddr_ok tsch_broadcast_address" "header_size (Some tsch_broadcast_address) = 21"
    by (simp_all add: tsch_broadcast_address_def linkaddr_ok_def LINKADDR_SIZE_def header_size_def linkaddr_null_def)
  let ?c = "\<lparr>ttl_slot_number = 40, earliest_tx_slot = 10, flow_number = 2, max_tx = 1\<rparr>"
  have l: "unat (3 :: u16) \<le> length [7, 8, 9 :: u8]" "tsch_is_associated (mac_initial pb_initial)" "0 < unat (max_tx ?c) mod 256"
    by (simp_all add: mac_initial_def)
  from output_queues_packet [OF mac_initial_inv(1) [OF pb_inv_initial] l(2,1) a(1) mac_initial_inv(2) l(3)] a(2)
  obtain m' j b where "masternet_output (mac_initial pb_initial) [7, 8, 9] 3 (Some ?c) (Some tsch_broadcast_address) = Some (1, m')"
    "aqueue (queues_of m') = (aqueue (queues_of (mac_initial pb_initial)))(flow_queue_addr 2 := flow_queue (mac_initial pb_initial) 2 @ [j])"
    "queued_frame (queues_of m') j b" "pb_frame b = packet_header (framing (mac_initial pb_initial)) b @ take (unat (3 :: u16)) [7, 8, 9]"
    "length (packet_header (framing (mac_initial pb_initial)) b) = 21"
    by auto
  then show ?thesis
    using mac_initial_inv(3) [of pb_initial 2] by (intro exI [of _ m'] exI [of _ j] exI [of _ b]) simp
qed

end
