(* ===== verification/Master_Routing.thy ===== *)
theory Master_Routing
  imports Master_Net Strength_Vector Hash_Map
begin

text \<open>
  The routing layer \<^verbatim>\<open>master-routing.c\<close>: its state, its packets and its operations.  The configuration is that of
  the application \<^verbatim>\<open>master-unicast\<close> on the simulated nodes: a schedule is compiled in
  (\<^verbatim>\<open>MASTER_SCHEDULE\<close>), a queue per flow, retransmission until a time to live, \<^verbatim>\<open>int\<close> of 16 bits.  The sizes of
  the arrays that depend on the network (nodes, flows) are the lengths of the lists.

  What is printed is recorded as far as it is the result of the program: \<open>reports\<close> holds the routes and strengths
  that the collector prints, and \<open>delivered\<close> the calls of the application's callback.  Other log messages and the
  LEDs are left out.  The bytes that uninitialised local variables happen to hold are arguments (\<open>g\<close>).  The schedule that is compiled in is
  generated code and an argument of \<open>apply_generated_schedule\<close>.
\<close>

section \<open>Packets\<close>

definition MASTER_MSG_LENGTH :: nat where "MASTER_MSG_LENGTH = 68"
definition MAX_EXPECTED_SIZE_OF_ACTUAL_DATA :: nat where "MAX_EXPECTED_SIZE_OF_ACTUAL_DATA = 57"
definition PACKET_TYPE_BEACON :: u8 where "PACKET_TYPE_BEACON = 1"
definition PACKET_TYPE_ADVERTISEMENT :: u8 where "PACKET_TYPE_ADVERTISEMENT = 2"
definition PACKET_TYPE_ACTUAL_DATA :: u8 where "PACKET_TYPE_ACTUAL_DATA = 3"

record routing_packet =
  mrp_flow_number :: u8
  mrp_packet_number :: u16
  mrp_ttl_slot_number :: u16
  mrp_earliest_tx_slot :: u16
  mrp_data :: "u8 list"

definition minimal_routing_packet_size :: nat where
  "minimal_routing_packet_size = 7"

definition maximal_routing_packet_size :: nat where
  "maximal_routing_packet_size = minimal_routing_packet_size + MASTER_MSG_LENGTH"

text \<open>The packed structures in memory.\<close>

definition mrp_bytes :: "routing_packet \<Rightarrow> u8 list" where
  "mrp_bytes p = mrp_flow_number p # le16 (mrp_packet_number p) @ le16 (mrp_ttl_slot_number p)
     @ le16 (mrp_earliest_tx_slot p) @ mrp_data p"

definition mrp_of_bytes :: "u8 list \<Rightarrow> routing_packet option" where
  "mrp_of_bytes bs = do {
     f \<leftarrow> rd bs 0;
     n \<leftarrow> rd_n bs 1 2; n \<leftarrow> of_le16 n;
     t \<leftarrow> rd_n bs 3 2; t \<leftarrow> of_le16 t;
     e \<leftarrow> rd_n bs 5 2; e \<leftarrow> of_le16 e;
     d \<leftarrow> rd_n bs 7 MASTER_MSG_LENGTH;
     Some \<lparr>mrp_flow_number = f, mrp_packet_number = n, mrp_ttl_slot_number = t, mrp_earliest_tx_slot = e, mrp_data = d\<rparr>
   }"

record advertisement =
  adv_dummy :: "u8 list"
  adv_packet_type :: u8
  adv_nodeId :: u8
  adv_seq :: u16
  adv_bestNode :: u8
  adv_strengthToMaster :: float32

definition advertisement_size :: nat where
  "advertisement_size = 17"

definition adv_bytes :: "advertisement \<Rightarrow> u8 list" where
  "adv_bytes a = adv_dummy a @ [adv_packet_type a, adv_nodeId a] @ le16 (adv_seq a) @ [adv_bestNode a] @ le32 (adv_strengthToMaster a)"

definition adv_of_bytes :: "u8 list \<Rightarrow> advertisement option" where
  "adv_of_bytes bs = do {
     g \<leftarrow> rd_n bs 0 8;
     t \<leftarrow> rd bs 8;
     n \<leftarrow> rd bs 9;
     s \<leftarrow> rd_n bs 10 2; s \<leftarrow> of_le16 s;
     b \<leftarrow> rd bs 12;
     x \<leftarrow> rd_n bs 13 4; x \<leftarrow> of_le32 x;
     Some \<lparr>adv_dummy = g, adv_packet_type = t, adv_nodeId = n, adv_seq = s, adv_bestNode = b, adv_strengthToMaster = x\<rparr>
   }"

record actual_data =
  ad_dummy :: "u8 list"
  ad_packet_type :: u8
  ad_nodeId :: u8
  ad_dataLen :: u8
  ad_data :: "u8 list"

definition actual_data_size :: nat where
  "actual_data_size = 68"

definition ad_bytes :: "actual_data \<Rightarrow> u8 list" where
  "ad_bytes a = ad_dummy a @ [ad_packet_type a, ad_nodeId a, ad_dataLen a] @ ad_data a"

definition ad_of_bytes :: "u8 list \<Rightarrow> actual_data option" where
  "ad_of_bytes bs = do {
     g \<leftarrow> rd_n bs 0 8;
     t \<leftarrow> rd bs 8;
     n \<leftarrow> rd bs 9;
     l \<leftarrow> rd bs 10;
     d \<leftarrow> rd_n bs 11 MAX_EXPECTED_SIZE_OF_ACTUAL_DATA;
     Some \<lparr>ad_dummy = g, ad_packet_type = t, ad_nodeId = n, ad_dataLen = l, ad_data = d\<rparr>
   }"

section \<open>State\<close>

datatype report = Route "u8 list" u16 | Strengths u8 "(u8 \<times> float32) list" | All_collected

record master_routing =
  mac :: tschmac
  node_id :: u16
  mrp :: routing_packet
  masternet_len :: u16
  forward_to :: hash_table
  last_received_relayed_packet_of_flow :: hash_table
  first_tx_slot_in_flow :: "u16 list list"
  last_tx_slot_in_flow :: "u16 list list"
  last_sent_packet_ttl :: u16
  schedule_length :: u16
  deployment_node_count :: u8
  counter_ad :: int
  node_rcvd_tracker :: "u8 list"
  rcvd_actual_data_counter :: u8
  max_advertisement_seq :: u16
  bestNode :: u8
  best_tsch_shedule_link :: ptr
  max_master_strength :: float32
  history_ad_seq_array :: "u8 list"
  matrix :: "u8 list list"
  max_slot_frame_used :: u8
  own_packet_number :: u16
  own_receiver :: u8
  own_transmission_flow :: u8
  is_sender :: u8
  sf :: "ptr list"
  receiver_of_flow :: "u8 list"
  sender_of_flow :: "u8 list"
  sent_packet_configuration :: packet_config
  destination :: linkaddr
  started :: bool
  is_configured :: bool
  current_callback :: bool
  strengths :: strengths
  delivered :: "(u8 list \<times> u8 \<times> u8) list"
  reports :: "report list"

definition NODE_ID_INDEX :: nat where "NODE_ID_INDEX = 0"
definition MASTER_EBSF_PERIOD :: u16 where "MASTER_EBSF_PERIOD = 11"
definition coordinator_addr :: linkaddr where "coordinator_addr = [1, 0, 0, 0, 0, 0, 0, 0]"

text \<open>An operation of the schedule, and a call of \<^verbatim>\<open>NETSTACK_NETWORK.output\<close>: the buffer is \<^verbatim>\<open>mrp\<close> once the layer is started.\<close>

definition on_schedule :: "(tsch_schedule \<Rightarrow> ('a \<times> tsch_schedule) option) \<Rightarrow> master_routing \<Rightarrow> ('a \<times> master_routing) option" where
  "on_schedule f R = map_option (\<lambda>(r, S). (r, R\<lparr>mac := (mac R)\<lparr>sched := S\<rparr>\<rparr>)) (f (sched (mac R)))"

definition net_output :: "linkaddr option \<Rightarrow> master_routing \<Rightarrow> (u8 \<times> master_routing) option" where
  "net_output dest R = (if started R then do {
     (r, m) \<leftarrow> masternet_output (mac R) (mrp_bytes (mrp R)) (masternet_len R) (Some (sent_packet_configuration R)) dest;
     Some (r, R\<lparr>mac := m\<rparr>)
   } else None)"

definition get_destination_index :: "u8 \<Rightarrow> u8" where
  "get_destination_index i = i - 1"

definition getAddressByNodeID :: "int \<Rightarrow> linkaddr" where
  "getAddressByNodeID i = [of_int i, 0, 0, 0, 0, 0, 0, 0]"

definition set_destination_link_addr :: "u8 \<Rightarrow> master_routing \<Rightarrow> master_routing" where
  "set_destination_link_addr n R = R\<lparr>destination := (destination R)[NODE_ID_INDEX := n]\<rparr>"

definition upd_config :: "(packet_config \<Rightarrow> packet_config) \<Rightarrow> master_routing \<Rightarrow> master_routing" where
  "upd_config f R = R\<lparr>sent_packet_configuration := f (sent_packet_configuration R)\<rparr>"

definition master_routing_sent_configuration :: "master_routing \<Rightarrow> packet_config" where
  "master_routing_sent_configuration R = sent_packet_configuration R"

definition node_is_sender :: "master_routing \<Rightarrow> u8" where "node_is_sender R = is_sender R"
definition get_node_receiver :: "master_routing \<Rightarrow> u8" where "get_node_receiver R = own_receiver R"
definition master_routing_configured :: "master_routing \<Rightarrow> bool" where "master_routing_configured R = is_configured R"

section \<open>Links\<close>

text \<open>A scheduled link is its slotframe handle, options, timeslot and channel offset; \<open>k\<close> is \<^verbatim>\<open>link_idx\<close>.\<close>

fun add_links_from :: "nat \<Rightarrow> (u16 \<times> u16 \<times> u16 \<times> u16) list \<Rightarrow> (u8 \<times> u8) list \<Rightarrow> master_routing \<Rightarrow> master_routing option" where
  "add_links_from k [] changes R = Some R"
| "add_links_from k ((handle, options, timeslot, channel) # ls) changes R = do {
     let (R, changes) = (case changes of
          (i, n) # cs \<Rightarrow> if unat i = k then (set_destination_link_addr n R, cs) else (R, changes)
        | [] \<Rightarrow> (R, changes));
     s \<leftarrow> tsch_schedule_get_slotframe_by_handle (sched (mac R)) handle;
     (_, R) \<leftarrow> on_schedule (\<lambda>S. tsch_schedule_add_link S s (ucast options) LINK_TYPE_NORMAL (Some (destination R)) timeslot channel) R;
     add_links_from (k + 1) ls changes R
   }"

definition add_links :: "(u16 \<times> u16 \<times> u16 \<times> u16) list \<Rightarrow> (u8 \<times> u8) list \<Rightarrow> master_routing \<Rightarrow> master_routing option" where
  "add_links ls changes R = add_links_from 0 ls changes R"

definition matrix_at :: "master_routing \<Rightarrow> nat \<Rightarrow> nat \<Rightarrow> u8 option" where
  "matrix_at R i j = do { row \<leftarrow> rd (matrix R) i; rd row j }"

text \<open>The index of the discovery slotframe in \<^verbatim>\<open>sf\<close>, and its handle.\<close>

definition discovery :: "master_routing \<Rightarrow> nat" where
  "discovery R = unat (max_slot_frame_used R) + 1"

definition add_link_to_best_node :: "master_routing \<Rightarrow> master_routing option" where
  "add_link_to_best_node R = do {
     s \<leftarrow> rd (sf R) (discovery R);
     R \<leftarrow> (if best_tsch_shedule_link R \<noteq> None then do {
            (_, R) \<leftarrow> on_schedule (\<lambda>S. tsch_schedule_remove_link S s (best_tsch_shedule_link R)) R;
            Some (R\<lparr>best_tsch_shedule_link := None\<rparr>)
          } else Some R);
     let addr = getAddressByNodeID (uint (bestNode R));
     t \<leftarrow> matrix_at R (unat (node_id R)) 1;
     (timeslot, channel) \<leftarrow> (if t \<noteq> 0 then do { c \<leftarrow> matrix_at R (unat (node_id R)) 2; Some (t, c) } else Some (bestNode R, 0));
     (l, R) \<leftarrow> on_schedule (\<lambda>S. tsch_schedule_add_link S s LINK_OPTION_TX LINK_TYPE_NORMAL (Some addr) (ucast timeslot) (ucast channel)) R;
     Some (R\<lparr>best_tsch_shedule_link := l\<rparr>)
   }"

text \<open>\<^verbatim>\<open>copy_available_slot_matrix\<close>: row \<open>row\<close> is copied from index \<open>5 * row\<close>, column by column.\<close>

fun copy_row :: "u8 list \<Rightarrow> nat \<Rightarrow> nat \<Rightarrow> nat list \<Rightarrow> u8 list list \<Rightarrow> u8 list list option" where
  "copy_row a index row [] m = Some m"
| "copy_row a index row (col # cols) m = do {
     v \<leftarrow> rd a index;
     r \<leftarrow> rd m row;
     r \<leftarrow> wr r col v;
     copy_row a (index + 1) row cols (m[row := r])
   }"

fun copy_rows :: "u8 list \<Rightarrow> nat \<Rightarrow> nat \<Rightarrow> nat \<Rightarrow> u8 list list \<Rightarrow> u8 list list option" where
  "copy_rows a index row 0 m = Some m"
| "copy_rows a index row (Suc k) m = do { m \<leftarrow> copy_row a index row [0 ..< 5] m; copy_rows a (index + 5) (row + 1) k m }"

definition copy_available_slot_matrix :: "u8 list \<Rightarrow> master_routing \<Rightarrow> master_routing option" where
  "copy_available_slot_matrix a R =
     map_option (\<lambda>m. R\<lparr>matrix := m\<rparr>) (copy_rows a 5 1 (unat (deployment_node_count R)) (matrix R))"

definition install_discovery_schedule :: "master_routing \<Rightarrow> master_routing option" where
  "install_discovery_schedule R = do {
     let handle = (of_nat (discovery R) :: u16);
     s \<leftarrow> tsch_schedule_get_slotframe_by_handle (sched (mac R)) handle;
     sfs \<leftarrow> wr (sf R) (discovery R) s;
     let R = R\<lparr>sf := sfs\<rparr>;
     R \<leftarrow> (if s \<noteq> None then map_option snd (on_schedule (\<lambda>S. tsch_schedule_remove_slotframe S s) R) else Some R);
     (s, R) \<leftarrow> on_schedule (\<lambda>S. tsch_schedule_add_slotframe S handle 40) R;
     let R = R\<lparr>sf := (sf R)[discovery R := s]\<rparr>;
     let addr = getAddressByNodeID (uint (node_id R));
     t \<leftarrow> matrix_at R (unat (node_id R)) 3;
     (timeslot, channel) \<leftarrow> (if t \<noteq> 0 then do { c \<leftarrow> matrix_at R (unat (node_id R)) 4; Some (ucast t, ucast c) } else Some (node_id R, 0));
     (_, R) \<leftarrow> on_schedule (\<lambda>S. tsch_schedule_add_link S s LINK_OPTION_RX LINK_TYPE_NORMAL (Some addr) timeslot channel) R;
     Some (R\<lparr>own_receiver := 0\<rparr>)
   }"

definition apply_generated_schedule :: "(master_routing \<Rightarrow> master_routing option) \<Rightarrow> master_routing \<Rightarrow> master_routing option" where
  "apply_generated_schedule generated_schedule R = do {
     R \<leftarrow> generated_schedule R;
     R \<leftarrow> install_discovery_schedule R;
     add_link_to_best_node R
   }"

definition master_install_schedule :: "master_routing \<Rightarrow> master_routing option" where
  "master_install_schedule R = do {
     let R = R\<lparr>mac := tsch_set_eb_period (mac R) TSCH_EB_PERIOD\<rparr>;
     s \<leftarrow> rd (sf R) 0;
     (_, R) \<leftarrow> on_schedule (\<lambda>S. tsch_schedule_remove_slotframe S s) R;
     (s, R) \<leftarrow> on_schedule (\<lambda>S. tsch_schedule_add_slotframe S 0 MASTER_EBSF_PERIOD) R;
     let R = R\<lparr>sf := (sf R)[0 := s]\<rparr>;
     (_, R) \<leftarrow> on_schedule (\<lambda>S. tsch_schedule_add_link S s (LINK_OPTION_TX OR LINK_OPTION_RX) LINK_TYPE_ADVERTISING_ONLY
       (Some tsch_broadcast_address) 0 0) R;
     R \<leftarrow> install_discovery_schedule R;
     Some (R\<lparr>is_configured := True\<rparr>)
   }"

definition init_master_routing :: "master_routing \<Rightarrow> master_routing option" where
  "init_master_routing R = (if started R then Some R else do {
     let R = R\<lparr>mac := tsch_set_coordinator (mac R) (linkaddr_cmp coordinator_addr (linkaddr_node_addr (mac R)))\<rparr>;
     let R = R\<lparr>mac := tsch_set_eb_period (mac R) (128 div 4)\<rparr>;
     let R = R\<lparr>masternet_len := of_nat maximal_routing_packet_size, current_callback := False\<rparr>;
     (_, R) \<leftarrow> on_schedule tsch_schedule_remove_all_slotframes R;
     (s, R) \<leftarrow> on_schedule (\<lambda>S. tsch_schedule_add_slotframe S 0 1) R;
     sfs \<leftarrow> wr (sf R) 0 s;
     let R = R\<lparr>sf := sfs\<rparr>;
     (_, R) \<leftarrow> on_schedule (\<lambda>S. tsch_schedule_add_link S s (LINK_OPTION_TX OR LINK_OPTION_RX) LINK_TYPE_ADVERTISING_ONLY
       (Some tsch_broadcast_address) 0 0) R;
     Some (R\<lparr>started := True, strengths := set_own_node_id_as_highest (strengths R) (sint (node_id R))\<rparr>)
   })"

definition master_routing_set_input_callback :: "bool \<Rightarrow> master_routing \<Rightarrow> master_routing option" where
  "master_routing_set_input_callback callback R = do {
     R \<leftarrow> (if started R then Some R else init_master_routing R);
     Some (R\<lparr>current_callback := callback\<rparr>)
   }"
section \<open>Sending\<close>

text \<open>The time of the packet: the current slot, and 30 slots to live; the sum is unsigned and has 16 bits.\<close>

definition set_times :: "master_routing \<Rightarrow> master_routing" where
  "set_times R = (let e = (ucast (ls4b (tsch_current_asn (mac R))) :: u16)
     in R\<lparr>mrp := (mrp R)\<lparr>mrp_earliest_tx_slot := e, mrp_ttl_slot_number := (e + 30) mod 0xFFFF\<rparr>\<rparr>)"

definition master_routing_send_advertisement ::
    "u8 list \<Rightarrow> float32 \<Rightarrow> u16 \<Rightarrow> u8 \<Rightarrow> master_routing \<Rightarrow> (u8 \<times> master_routing) option" where
  "master_routing_send_advertisement g strength seq best R = do {
     let adv = \<lparr>adv_dummy = g, adv_packet_type = PACKET_TYPE_ADVERTISEMENT, adv_nodeId = ucast (node_id R), adv_seq = seq,
                adv_bestNode = best, adv_strengthToMaster = strength\<rparr>;
     let R = (set_times R)\<lparr>masternet_len := of_nat (minimal_routing_packet_size + advertisement_size)\<rparr>;
     d \<leftarrow> wr_n (mrp_data (mrp R)) 0 (adv_bytes adv);
     h \<leftarrow> wr (history_ad_seq_array R) (unat (adv_nodeId adv)) (ucast (adv_seq adv));
     let R = R\<lparr>mrp := (mrp R)\<lparr>mrp_data := d\<rparr>, history_ad_seq_array := h\<rparr>;
     let R = upd_config (\<lambda>c. c\<lparr>max_tx := 1, flow_number := 0\<rparr>) R;
     net_output (Some tsch_broadcast_address) R
   }"

definition master_routing_send_advertisement_sendto ::
    "u8 list \<Rightarrow> float32 \<Rightarrow> u16 \<Rightarrow> u8 \<Rightarrow> master_routing \<Rightarrow> (u8 \<times> master_routing) option" where
  "master_routing_send_advertisement_sendto g strength seq best R =
     (let R = R\<lparr>max_advertisement_seq := seq, bestNode := best, max_master_strength := strength\<rparr>
      in master_routing_send_advertisement g strength seq (bestNode R) R)"

definition unicast_send :: "master_routing \<Rightarrow> (u8 \<times> master_routing) option" where
  "unicast_send R = do {
     let R = set_times R;
     let R = R\<lparr>mrp := (mrp R)\<lparr>mrp_flow_number := max_slot_frame_used R + 1\<rparr>\<rparr>;
     let R = (upd_config (\<lambda>c. c\<lparr>max_tx := 1\<rparr>) R)\<lparr>masternet_len := of_nat (minimal_routing_packet_size + actual_data_size)\<rparr>;
     net_output (Some (getAddressByNodeID (uint (bestNode R)))) R
   }"

text \<open>
  \<open>g\<close> fills \<^verbatim>\<open>actualData\<close>: 8 bytes for the first two members, 57 for the data.  The loop that reads back the values
  written has no effect and is left out.
\<close>

definition master_routing_send_actual_data :: "u8 list \<Rightarrow> master_routing \<Rightarrow> (nat \<times> master_routing) option" where
  "master_routing_send_actual_data g R = (if 0 < bestNode R then do {
     (data, index) \<leftarrow> prepareStrengthVectorToSend (strengths R) (take MAX_EXPECTED_SIZE_OF_ACTUAL_DATA (drop 8 g));
     data \<leftarrow> wr data (unat index) 1;
     data \<leftarrow> wr data (unat index + 1) (ucast (node_id R));
     d \<leftarrow> wr_n (mrp_data (mrp R)) 0 (ad_bytes \<lparr>ad_dummy = take 8 g, ad_packet_type = PACKET_TYPE_ACTUAL_DATA,
            ad_nodeId = ucast (node_id R), ad_dataLen = index + 2, ad_data = data\<rparr>);
     (_, R) \<leftarrow> unicast_send (R\<lparr>mrp := (mrp R)\<lparr>mrp_data := d\<rparr>\<rparr>);
     Some (1, R)
   } else Some (0, R))"

definition neighbor_discovery_send :: "u8 list \<Rightarrow> u16 \<Rightarrow> master_routing \<Rightarrow> (u8 \<times> master_routing) option" where
  "neighbor_discovery_send data datalen R = (if own_transmission_flow R \<noteq> 0 then do {
     let n = own_packet_number R + 1;
     bs \<leftarrow> rd_n data 0 (unat datalen);
     d \<leftarrow> wr_n (mrp_data (mrp R)) 0 bs;
     let R = R\<lparr>mrp := (mrp R)\<lparr>mrp_flow_number := ucast (node_id R), mrp_packet_number := n, mrp_data := d\<rparr>, own_packet_number := n\<rparr>;
     let R = (upd_config (\<lambda>c. c\<lparr>max_tx := 1\<rparr>) R)\<lparr>masternet_len := of_nat minimal_routing_packet_size + datalen\<rparr>;
     net_output None R
   } else Some (0, R))"

text \<open>The first index from \<open>i\<close> on whose slot is not before the current one; 0 if there is none.\<close>

fun next_tx_index :: "u16 list \<Rightarrow> u16 \<Rightarrow> nat \<Rightarrow> nat \<Rightarrow> nat option" where
  "next_tx_index slots current i 0 = Some 0"
| "next_tx_index slots current i (Suc k) = do {
     t \<leftarrow> rd slots i;
     if current \<le> t then Some i else next_tx_index slots current (i + 1) k
   }"

definition master_routing_send :: "u8 list \<Rightarrow> u16 \<Rightarrow> master_routing \<Rightarrow> (nat \<times> master_routing) option" where
  "master_routing_send data datalen R = (if own_transmission_flow R \<noteq> 0 then do {
     let flow = own_transmission_flow R;
     let n = own_packet_number R + 1;
     bs \<leftarrow> rd_n data 0 (unat datalen);
     d \<leftarrow> wr_n (mrp_data (mrp R)) 0 bs;
     let R = R\<lparr>mrp := (mrp R)\<lparr>mrp_flow_number := flow, mrp_packet_number := n, mrp_data := d\<rparr>, own_packet_number := n\<rparr>;
     let current_asn = tsch_current_asn (mac R);
     s \<leftarrow> tsch_schedule_get_slotframe_by_handle (sched (mac R)) (ucast flow);
     i \<leftarrow> s;
     slotframe \<leftarrow> rd (slotframes (sched (mac R))) i;
     let sfsize = dval (sf_size slotframe);
     let current_sf_slot = TSCH_ASN_MOD current_asn (sf_size slotframe);
     first_slots \<leftarrow> rd (first_tx_slot_in_flow R) (unat flow - 1);
     last_slots \<leftarrow> rd (last_tx_slot_in_flow R) (unat flow - 1);
     rounds \<leftarrow> (if schedule_length R = 0 then None else Some (sfsize div schedule_length R));
     latest \<leftarrow> rd first_slots (unat (rounds - 1));
     first_next_idx \<leftarrow> (if current_sf_slot > latest then Some 0 else next_tx_index first_slots current_sf_slot 0 (unat rounds));
     ft \<leftarrow> rd first_slots first_next_idx;
     lt \<leftarrow> rd last_slots first_next_idx;
     _ \<leftarrow> (if sfsize = 0 then None else Some ());
     let earliest = ucast (ls4b current_asn) + (sfsize + ft - current_sf_slot) mod sfsize;
     let ttl = earliest + (sfsize + lt - ft) mod sfsize;
     let R = R\<lparr>mrp := (mrp R)\<lparr>mrp_earliest_tx_slot := earliest, mrp_ttl_slot_number := ttl\<rparr>\<rparr>;
     if TSCH_SLOTNUM_LT earliest (last_sent_packet_ttl R) then Some (0, R\<lparr>own_packet_number := own_packet_number R - 1\<rparr>)
     else do {
       let R = R\<lparr>last_sent_packet_ttl := ttl\<rparr>;
       next_receiver \<leftarrow> hash_map_lookup (forward_to R) (ucast flow);
       let next_receiver = (ucast next_receiver :: u8);
       if next_receiver \<noteq> 0 then do {
         let R = set_destination_link_addr next_receiver R;
         let R = upd_config (\<lambda>c. c\<lparr>flow_number := ucast flow, ttl_slot_number := ttl, earliest_tx_slot := earliest,
           max_tx := of_int (TSCH_SLOTNUM_DIFF16 ttl (ucast (ls4b current_asn - 1)))\<rparr>) R;
         let R = R\<lparr>masternet_len := of_nat minimal_routing_packet_size + datalen\<rparr>;
         (_, R) \<leftarrow> net_output (Some (destination R)) R;
         Some (1, R)
       } else Some (1, R)
     }
   } else Some (0, R))"

definition master_routing_sendto :: "u8 list \<Rightarrow> u16 \<Rightarrow> u8 \<Rightarrow> master_routing \<Rightarrow> (nat \<times> master_routing) option" where
  "master_routing_sendto data datalen receiver R =
     (if receiver = own_receiver R then master_routing_send data datalen R else Some (0, R))"

section \<open>Receiving\<close>

text \<open>The choice of the best node: the part of \<^verbatim>\<open>on_received_advertisement\<close> before the advertisement is sent on.\<close>

definition choose_best_node :: "advertisement \<Rightarrow> float32 \<Rightarrow> master_routing \<Rightarrow> master_routing option" where
  "choose_best_node adv currentStrength R =
     (let R = (if max_advertisement_seq R < adv_seq adv then
                 R\<lparr>max_advertisement_seq := adv_seq adv,
                   max_master_strength := (if bestNode R = adv_nodeId adv then currentStrength else max_master_strength R)\<rparr>
               else R)
      in if max_advertisement_seq R \<le> adv_seq adv \<and> fl_less (max_master_strength R) currentStrength then
           let R = R\<lparr>max_master_strength := currentStrength\<rparr>
           in if bestNode R \<noteq> adv_nodeId adv then add_link_to_best_node (R\<lparr>bestNode := adv_nodeId adv\<rparr>) else Some R
         else Some R)"

definition on_received_advertisement :: "u8 list \<Rightarrow> advertisement \<Rightarrow> master_routing \<Rightarrow> master_routing option" where
  "on_received_advertisement g adv R = (if ucast (adv_bestNode adv) = node_id R then Some R else do {
     own \<leftarrow> getStrengthByNodeID (strengths R) (uint (adv_nodeId adv));
     R \<leftarrow> choose_best_node adv (fl_min (adv_strengthToMaster adv) own) R;
     h \<leftarrow> rd (history_ad_seq_array R) (unat (adv_nodeId adv));
     if ucast h = adv_seq adv then Some R
     else if node_id R \<noteq> 1 then do {
       c \<leftarrow> chk_int (counter_ad R + 1);
       hs \<leftarrow> wr (history_ad_seq_array R) (unat (adv_nodeId adv)) (ucast (adv_seq adv));
       let R = R\<lparr>counter_ad := c, history_ad_seq_array := hs\<rparr>;
       map_option snd (master_routing_send_advertisement g (max_master_strength R) (max_advertisement_seq R) (bestNode R) R)
     }
     else Some R
   })"

text \<open>The strengths that the collector reads: a node id and two bytes each.\<close>

fun read_strengths :: "u8 list \<Rightarrow> nat list \<Rightarrow> (u8 \<times> float32) list option" where
  "read_strengths data [] = Some []"
| "read_strengths data (i # is) = do {
     n \<leftarrow> rd data i;
     v \<leftarrow> rd_n data (i + 1) 2;
     v \<leftarrow> of_le16 v;
     rest \<leftarrow> read_strengths data is;
     Some ((n, read_value (unat v)) # rest)
   }"

text \<open>The positions \<open>1, 4, 7, \<dots>\<close> below \<open>1 + 3 * n\<close>.\<close>

definition strength_positions :: "nat \<Rightarrow> nat list" where
  "strength_positions n = map (\<lambda>k. 1 + 3 * k) [0 ..< n]"

text \<open>The reset of the tracker, up to the number of nodes.\<close>

fun clear_tracker :: "nat \<Rightarrow> u8 list \<Rightarrow> u8 list option" where
  "clear_tracker 0 tr = Some tr"
| "clear_tracker (Suc k) tr = do { tr \<leftarrow> wr tr k 0; clear_tracker k tr }"

definition collect_from :: "u8 \<Rightarrow> master_routing \<Rightarrow> master_routing option" where
  "collect_from rcvd_from R = do {
     seen \<leftarrow> rd (node_rcvd_tracker R) (unat rcvd_from);
     if seen = 0 then do {
       let c = rcvd_actual_data_counter R + 1;
       let R = R\<lparr>rcvd_actual_data_counter := c, node_rcvd_tracker := (node_rcvd_tracker R)[unat rcvd_from := 1]\<rparr>;
       if int (unat c) = int (unat (deployment_node_count R)) - 1 then do {
         tr \<leftarrow> clear_tracker (unat (deployment_node_count R) + 1) (node_rcvd_tracker R);
         Some (R\<lparr>reports := reports R @ [All_collected], node_rcvd_tracker := tr, rcvd_actual_data_counter := 0\<rparr>)
       } else Some R
     } else Some R
   }"

text \<open>The collector; \<open>g\<close> fills the local array \<^verbatim>\<open>actualData\<close>.\<close>

definition collect_actual_data :: "u8 list \<Rightarrow> actual_data \<Rightarrow> master_routing \<Rightarrow> master_routing option" where
  "collect_actual_data g a R = do {
     bs \<leftarrow> rd_n (ad_data a) 0 (unat (ad_dataLen a));
     buffer \<leftarrow> wr_n (take MASTER_MSG_LENGTH g) 0 bs;
     k \<leftarrow> rd (ad_data a) 0;
     let pos = unat k * 3 + 1;
     numberOfNodes \<leftarrow> rd buffer pos;
     route \<leftarrow> rd_n buffer (pos + 1) (unat numberOfNodes);
     rcvd_from \<leftarrow> rd (ad_data a) (pos + 1);
     ss \<leftarrow> read_strengths (ad_data a) (strength_positions (unat k));
     collect_from rcvd_from (R\<lparr>reports := reports R @ [Route route (node_id R), Strengths rcvd_from ss]\<rparr>)
   }"

text \<open>A node on the way adds itself to the route.\<close>

definition append_to_route :: "u16 \<Rightarrow> actual_data \<Rightarrow> actual_data option" where
  "append_to_route node a = do {
     k \<leftarrow> rd (ad_data a) 0;
     let pos = unat k * 3 + 1;
     numberOfNodes \<leftarrow> rd (ad_data a) pos;
     let numberOfNodes = numberOfNodes + 1;
     data \<leftarrow> wr (ad_data a) pos numberOfNodes;
     let last = int pos + 1 + (int (unat numberOfNodes) - 1);
     data \<leftarrow> wr_i data last (ucast node);
     Some (a\<lparr>ad_data := data, ad_dataLen := ad_dataLen a + 1\<rparr>)
   }"

definition on_received_actual_data :: "u8 list \<Rightarrow> actual_data \<Rightarrow> master_routing \<Rightarrow> master_routing option" where
  "on_received_actual_data g a R = (if node_id R = 1 then collect_actual_data g a R else do {
     a \<leftarrow> append_to_route (node_id R) a;
     d \<leftarrow> wr_n (mrp_data (mrp R)) 0 (ad_bytes a);
     map_option snd (unicast_send (R\<lparr>mrp := (mrp R)\<lparr>mrp_data := d\<rparr>\<rparr>))
   })"

text \<open>The packet in \<^verbatim>\<open>mrp\<close> is passed on to the next node of its flow, unless its time is over.\<close>

definition relay :: "u16 \<Rightarrow> u8 \<Rightarrow> master_routing \<Rightarrow> master_routing option" where
  "relay len next_receiver R = do {
     let now = ls4b (tsch_current_asn (mac R));
     let R = set_destination_link_addr next_receiver R;
     let R = upd_config (\<lambda>c. c\<lparr>flow_number := ucast (mrp_flow_number (mrp R))\<rparr>) R;
     if TSCH_SLOTNUM_LT (ucast now) (mrp_ttl_slot_number (mrp R) + 1) then do {
       let R = upd_config (\<lambda>c. c\<lparr>ttl_slot_number := mrp_ttl_slot_number (mrp R), earliest_tx_slot := mrp_earliest_tx_slot (mrp R),
         max_tx := of_int (TSCH_SLOTNUM_DIFF16 (mrp_ttl_slot_number (mrp R)) (ucast (now - 1)))\<rparr>) R;
       map_option snd (net_output (Some (destination R)) (R\<lparr>masternet_len := len\<rparr>))
     } else Some R
   }"

text \<open>Whether the packet in \<^verbatim>\<open>mrp\<close> is newer than the last one of its flow; if so, it is remembered.\<close>

definition accept_new :: "master_routing \<Rightarrow> (bool \<times> master_routing) option" where
  "accept_new R = do {
     let flow = (ucast (mrp_flow_number (mrp R)) :: u16);
     last \<leftarrow> hash_map_lookup (last_received_relayed_packet_of_flow R) flow;
     if TSCH_SLOTNUM_LT last (mrp_packet_number (mrp R)) then do {
       (_, t) \<leftarrow> hash_map_insert (last_received_relayed_packet_of_flow R) flow (mrp_packet_number (mrp R));
       Some (True, R\<lparr>last_received_relayed_packet_of_flow := t\<rparr>)
     } else Some (False, R)
   }"

definition flow_input :: "u16 \<Rightarrow> master_routing \<Rightarrow> master_routing option" where
  "flow_input len R = do {
     let flow = mrp_flow_number (mrp R);
     receiver \<leftarrow> rd (receiver_of_flow R) (unat flow);
     (up, R) \<leftarrow>
       (if node_id R = ucast receiver then accept_new R
        else do {
          next_receiver \<leftarrow> hash_map_lookup (forward_to R) (ucast flow);
          let next_receiver = (ucast next_receiver :: u8);
          R \<leftarrow> (if next_receiver \<noteq> 0 then do {
                 (new, R) \<leftarrow> accept_new R;
                 if new then relay len next_receiver R else Some R
               } else Some R);
          Some (False, R)
        });
     if up \<and> minimal_routing_packet_size < unat len then do {
       src \<leftarrow> rd (sender_of_flow R) (unat flow);
       if current_callback R
       then Some (R\<lparr>delivered := delivered R @ [(take (unat len - minimal_routing_packet_size) (mrp_data (mrp R)), src, receiver)]\<rparr>)
       else None
     } else Some R
   }"

text \<open>\<open>data\<close> are the \<open>len\<close> bytes received; \<open>g\<close> fills the local variables.\<close>

definition master_routing_input :: "u8 list \<Rightarrow> u8 list \<Rightarrow> u16 \<Rightarrow> master_routing \<Rightarrow> master_routing option" where
  "master_routing_input g data len R =
    (if minimal_routing_packet_size \<le> unat len \<and> unat len \<le> maximal_routing_packet_size then do {
       bs \<leftarrow> rd_n data 0 (unat len);
       local \<leftarrow> wr_n (take maximal_routing_packet_size g) 0 bs;
       mrpData \<leftarrow> mrp_of_bytes local;
       type \<leftarrow> rd (mrp_data mrpData) 8;
       if type = PACKET_TYPE_ADVERTISEMENT then do {
         adv \<leftarrow> adv_of_bytes (mrp_data mrpData);
         on_received_advertisement (take 8 g) adv R
       } else if type = PACKET_TYPE_ACTUAL_DATA then do {
         a \<leftarrow> ad_of_bytes (mrp_data mrpData);
         on_received_actual_data g a R
       } else do {
         R \<leftarrow> (if type = PACKET_TYPE_BEACON then Some R else do {
                m \<leftarrow> wr_n (mrp_bytes (mrp R)) 0 bs;
                p \<leftarrow> mrp_of_bytes m;
                Some (R\<lparr>mrp := p\<rparr>)
              });
         flow_input len R
       }
     } else Some R)"

end
