(* ===== verification/Master_Packets.thy ===== *)
theory Master_Packets
  imports Master_Routing
begin

text \<open>
  The packets of the routing layer are formats in the sense of \<open>fixed_codec\<close>, and the invariant under which its operations stay
  in bounds: \<open>mr_inv\<close> says that the layers below are consistent, that the arrays have their sizes, and that the pointers to
  the discovery slotframe and to the link to the best node are valid.  \<open>N\<close> is the number of nodes.
\<close>

section \<open>Packet formats\<close>

definition mrp_ok :: "routing_packet \<Rightarrow> bool" where
  "mrp_ok p \<longleftrightarrow> length (mrp_data p) = MASTER_MSG_LENGTH"

definition adv_ok :: "advertisement \<Rightarrow> bool" where
  "adv_ok a \<longleftrightarrow> length (adv_dummy a) = 8"

definition ad_ok :: "actual_data \<Rightarrow> bool" where
  "ad_ok a \<longleftrightarrow> length (ad_dummy a) = 8 \<and> length (ad_data a) = MAX_EXPECTED_SIZE_OF_ACTUAL_DATA"

named_theorems size_defs \<open>the sizes of the packets\<close>

declare MASTER_MSG_LENGTH_def [size_defs] MAX_EXPECTED_SIZE_OF_ACTUAL_DATA_def [size_defs] minimal_routing_packet_size_def [size_defs]
  maximal_routing_packet_size_def [size_defs] advertisement_size_def [size_defs] actual_data_size_def [size_defs]

lemma mrp_of_bytes_append: "mrp_ok p \<Longrightarrow> mrp_of_bytes (mrp_bytes p @ rest) = Some p"
  by (simp add: mrp_ok_def mrp_of_bytes_def mrp_bytes_def rd_n_def rd_def size_defs take_Cons' drop_Cons' numeral_eq_Suc)

lemma adv_of_bytes_append: "adv_ok a \<Longrightarrow> adv_of_bytes (adv_bytes a @ rest) = Some a"
  by (simp add: adv_ok_def adv_of_bytes_def adv_bytes_def rd_n_def rd_def nth_append)

lemma ad_of_bytes_append: "ad_ok a \<Longrightarrow> ad_of_bytes (ad_bytes a @ rest) = Some a"
  by (simp add: ad_ok_def ad_of_bytes_def ad_bytes_def rd_n_def rd_def nth_append size_defs)

interpretation mrp_format: fixed_codec mrp_bytes mrp_of_bytes mrp_ok maximal_routing_packet_size
  using mrp_of_bytes_append [of _ "[]"] by unfold_locales (simp_all add: mrp_bytes_def mrp_ok_def size_defs)

interpretation adv_format: fixed_codec adv_bytes adv_of_bytes adv_ok advertisement_size
  using adv_of_bytes_append [of _ "[]"] by unfold_locales (simp_all add: adv_bytes_def adv_ok_def size_defs)

interpretation ad_format: fixed_codec ad_bytes ad_of_bytes ad_ok actual_data_size
  using ad_of_bytes_append [of _ "[]"] by unfold_locales (simp_all add: ad_bytes_def ad_ok_def size_defs)

text \<open>A packet that is stored in \<^verbatim>\<open>mrp.data\<close>.\<close>

lemma store_adv:
  assumes "mrp_ok p" "adv_ok a"
  obtains d where "wr_n (mrp_data p) 0 (adv_bytes a) = Some d" "length d = MASTER_MSG_LENGTH" "adv_of_bytes d = Some a"
proof -
  let ?d = "adv_bytes a @ drop advertisement_size (mrp_data p)"
  have "wr_n (mrp_data p) 0 (adv_bytes a) = Some ?d"
    using assms adv_format.enc_width by (simp add: wr_n_def mrp_ok_def size_defs)
  moreover have "length ?d = MASTER_MSG_LENGTH"
    using assms adv_format.enc_width by (simp add: mrp_ok_def size_defs)
  ultimately show thesis
    using that adv_of_bytes_append [OF assms(2)] by blast
qed

lemma store_ad:
  assumes "mrp_ok p" "ad_ok a"
  shows "wr_n (mrp_data p) 0 (ad_bytes a) = Some (ad_bytes a)" "length (ad_bytes a) = MASTER_MSG_LENGTH"
  using assms ad_format.enc_width [OF assms(2)] by (simp_all add: wr_n_def mrp_ok_def size_defs)

section \<open>Invariant\<close>

definition arrays_ok :: "nat \<Rightarrow> master_routing \<Rightarrow> bool" where
  "arrays_ok N R \<longleftrightarrow> mrp_ok (mrp R) \<and> linkaddr_ok (destination R)
     \<and> N < MAX_EXPECTED_NODES_IN_NETWORK \<and> 1 \<le> unat (node_id R) \<and> unat (node_id R) \<le> N
     \<and> length (history_ad_seq_array R) = N + 1 \<and> length (node_rcvd_tracker R) = N + 1 \<and> unat (deployment_node_count R) = N
     \<and> length (strength_vector (strengths R)) = MAX_EXPECTED_NODES_IN_NETWORK
     \<and> length (matrix R) = 200 \<and> (\<forall>row \<in> set (matrix R). length row = 16)"

text \<open>The pointers into the schedule.\<close>

definition links_ok :: "master_routing \<Rightarrow> bool" where
  "links_ok R \<longleftrightarrow> discovery R < length (sf R)
     \<and> (\<forall>i. sf R ! discovery R = Some i \<longrightarrow> i \<in> set (slotframe_list (sched (mac R))) \<and> sf_handle (sf_of (sched (mac R)) i) = of_nat (discovery R))
     \<and> (\<forall>k. best_tsch_shedule_link R = Some k \<longrightarrow> (\<exists>i. sf R ! discovery R = Some i \<and> k \<in> set (links_list (sf_of (sched (mac R)) i))))"

definition mr_inv :: "nat \<Rightarrow> nat \<Rightarrow> nat \<Rightarrow> nat \<Rightarrow> nat \<Rightarrow> master_routing \<Rightarrow> bool" where
  "mr_inv ns nl nn np N R \<longleftrightarrow> mac_inv ns nl nn np (mac R) \<and> arrays_ok N R \<and> links_ok R"

lemma mr_inv_mac: "mr_inv ns nl nn np N R \<Longrightarrow> mac_inv ns nl nn np (mac R)"
  by (simp add: mr_inv_def)

lemma getAddress_ok [simp]: "linkaddr_ok (getAddressByNodeID i)"
  by (simp add: getAddressByNodeID_def linkaddr_ok_def LINKADDR_SIZE_def)

lemma broadcast_ok [simp]: "linkaddr_ok tsch_broadcast_address"
  by (simp add: tsch_broadcast_address_def linkaddr_ok_def LINKADDR_SIZE_def)

lemma matrix_at_in: "arrays_ok N R \<Longrightarrow> i < 200 \<Longrightarrow> j < 16 \<Longrightarrow> matrix_at R i j = Some (matrix R ! i ! j)"
  by (simp add: matrix_at_def arrays_ok_def rd_in)

lemma matrix_at_upd [simp]:
  "matrix_at (R\<lparr>mac := m\<rparr>) i j = matrix_at R i j" "matrix_at (R\<lparr>best_tsch_shedule_link := l\<rparr>) i j = matrix_at R i j"
  "matrix_at (R\<lparr>sf := x\<rparr>) i j = matrix_at R i j"
  by (simp_all add: matrix_at_def)

text \<open>Sending leaves everything but the layers below alone.\<close>

lemma net_output_ok:
  assumes inv: "mac_inv ns nl nn np (mac R)" and st: "started R" "mrp_ok (mrp R)" "unat (masternet_len R) \<le> 75"
    and dest: "\<forall>a. dest = Some a \<longrightarrow> linkaddr_ok a"
  obtains r m where "net_output dest R = Some (r, R\<lparr>mac := m\<rparr>)" "mac_inv ns nl nn np m" "same_mac (mac R) m"
    "masternet_output (mac R) (mrp_bytes (mrp R)) (masternet_len R) (Some (sent_packet_configuration R)) dest = Some (r, m)"
proof -
  have "unat (masternet_len R) \<le> length (mrp_bytes (mrp R))"
    using mrp_format.enc_width [OF st(2)] st(3) by (simp add: size_defs)
  then obtain r m where m: "masternet_output (mac R) (mrp_bytes (mrp R)) (masternet_len R) (Some (sent_packet_configuration R)) dest = Some (r, m)"
    "mac_inv ns nl nn np m" "same_mac (mac R) m"
    using masternet_output_ok [OF inv _ dest, of "masternet_len R" "mrp_bytes (mrp R)" "Some (sent_packet_configuration R)"] st(3) by auto
  with that st(1) show thesis
    by (simp add: net_output_def)
qed

lemma links_ok_same_mac: "links_ok R \<Longrightarrow> same_mac (mac R) m \<Longrightarrow> links_ok (R\<lparr>mac := m\<rparr>)"
  using same_mac_schedule [of "mac R" m] by (simp add: links_ok_def discovery_def)
section \<open>The link to the best node\<close>

definition set_schedule :: "master_routing \<Rightarrow> tsch_schedule \<Rightarrow> master_routing" where
  "set_schedule R S = R\<lparr>mac := (mac R)\<lparr>sched := S\<rparr>\<rparr>"

lemma on_schedule_eq: "on_schedule f R = map_option (\<lambda>(r, S). (r, set_schedule R S)) (f (sched (mac R)))"
  by (simp add: on_schedule_def set_schedule_def)

lemma mac_inv_schedule:
  "mac_inv ns nl nn np m \<Longrightarrow> sched_inv ns nl nn np S \<Longrightarrow> \<not> locked (sq S) \<Longrightarrow> mac_inv ns nl nn np (m\<lparr>sched := S\<rparr>)"
  by (simp add: mac_inv_def queues_of_def)

lemma unlocked_same_queues: "same_queues q q' \<Longrightarrow> locked q' = locked q"
  by (simp add: same_queues_def same_packets_def)

text \<open>Timeslot and channel of the link to the best node, and of the link on which the node listens.\<close>

definition tx_slot :: "master_routing \<Rightarrow> u16 \<times> u16" where
  "tx_slot R = (let row = matrix R ! unat (node_id R) in
     if row ! 1 \<noteq> 0 then (ucast (row ! 1), ucast (row ! 2)) else (ucast (bestNode R), 0))"

definition rx_slot :: "master_routing \<Rightarrow> u16 \<times> u16" where
  "rx_slot R = (let row = matrix R ! unat (node_id R) in
     if row ! 3 \<noteq> 0 then (ucast (row ! 3), ucast (row ! 4)) else (node_id R, 0))"

abbreviation best_link_info :: "master_routing \<Rightarrow> link_info" where
  "best_link_info R \<equiv> (LINK_OPTION_TX, LINK_TYPE_NORMAL, getAddressByNodeID (uint (bestNode R)), snd (tx_slot R))"

text \<open>The second half: the new link is added to the discovery slotframe \<open>s\<close>.\<close>

lemma add_best_link:
  assumes S: "sched_inv ns nl nn np S" "\<not> locked (sq S)"
    and s: "\<forall>i. s = Some i \<longrightarrow> i \<in> set (slotframe_list S) \<and> sf_handle (sf_of S i) = h"
  obtains l S' where "tsch_schedule_add_link S s opts ty (Some (getAddressByNodeID a)) t c = Some (l, S')"
    "sched_inv ns nl nn np S'" "\<not> locked (sq S')" "slotframe_list S' = slotframe_list S" "frames S' = frames S" "same_queues (sq S) (sq S')"
    "\<forall>i. s = Some i \<longrightarrow> sf_handle (sf_of S' i) = h"
    "\<forall>k. l = Some k \<longrightarrow> (\<exists>i. s = Some i \<and> k \<in> set (links_list (sf_of S' i)))"
    "schedule S' = (if l = None then schedule S else (schedule S)((h, t) \<mapsto> (opts, ty, getAddressByNodeID a, c)))"
    "(l \<noteq> None) \<longleftrightarrow> s \<noteq> None \<and> t < dval (sf_size (sf_of S (the s))) \<and> c \<le> 15 \<and> \<not> (schedule S (h, t) = None \<and> card (link_live S) = nl)"
proof (cases s)
  case None
  have "tsch_schedule_add_link S s opts ty (Some (getAddressByNodeID a)) t c = Some (None, S)"
    by (simp add: None tsch_schedule_add_link_def)
  then show thesis
    by (rule that) (use S None in simp_all)
next
  case (Some i)
  have i: "i \<in> set (slotframe_list S)" "sf_handle (sf_of S i) = h"
    using s Some by simp_all
  have a: "\<forall>x. Some (getAddressByNodeID a) = Some x \<longrightarrow> linkaddr_ok x"
    by simp
  from S i(1) a show thesis
  proof (cases rule: add_link_spec [where opts = opts and ty = ty and t = t and ch = c])
    case invalid
    then show thesis
      using that [of None S] S i Some by auto
  next
    case (full S')
    then show thesis
      using that [of None S'] S i Some unlocked_same_queues by auto
  next
    case (added k S')
    obtain j where j: "j \<in> set (slotframe_list S')" "k \<in> set (links_list (sf_of S' j))" "l_slotframe (links S' ! k) = sf_handle (sf_of S' j)"
      by (rule live_link_sf [OF added(2,10)])
    have "j = i"
      using sf_unique [OF added(2) j(1), of i] i added(9,11,12) j(3) by (simp add: link_key_def)
    with added j that [of "Some k" S'] S i Some unlocked_same_queues show thesis
      by auto
  qed
qed
text \<open>The first half: the old link, if there is one, is removed.\<close>

lemma remove_best_link:
  assumes S: "sched_inv ns nl nn np S" "\<not> locked (sq S)"
    and k: "\<forall>k. l = Some k \<longrightarrow> (\<exists>i. s = Some i \<and> i \<in> set (slotframe_list S) \<and> k \<in> set (links_list (sf_of S i)))"
    and s: "\<forall>i. s = Some i \<longrightarrow> i \<in> set (slotframe_list S) \<and> sf_handle (sf_of S i) = h"
  obtains r S' where "(if l \<noteq> None then tsch_schedule_remove_link S s l else Some (False, S)) = Some (r, S')"
    "sched_inv ns nl nn np S'" "\<not> locked (sq S')" "slotframe_list S' = slotframe_list S" "frames S' = frames S" "same_queues (sq S) (sq S')"
    "\<forall>i. s = Some i \<longrightarrow> sf_handle (sf_of S' i) = h"
    "schedule S' = (case l of None \<Rightarrow> schedule S | Some k \<Rightarrow> (schedule S)((h, l_timeslot (links S ! k)) := None))"
proof (cases l)
  case None
  with that [of False S] S s show thesis
    by simp
next
  case (Some k)
  with k s obtain i where i: "s = Some i" "i \<in> set (slotframe_list S)" "k \<in> set (links_list (sf_of S i))" "sf_handle (sf_of S i) = h"
    by blast
  obtain S' where S': "tsch_schedule_remove_link S (Some i) (Some k) = Some (True, S')" "sched_inv ns nl nn np S'"
    "unlinked S i k S'" "schedule S' = (schedule S)((sf_handle (sf_of S i), l_timeslot (links S ! k)) := None)" "frames S' = frames S"
    by (rule remove_link_spec [OF S i(2,3)])
  show thesis
    by (rule that [of True S']) (use S' i Some S unlocked_same_queues in \<open>auto simp: unlinked_def\<close>)
qed

definition best_link_key :: "master_routing \<Rightarrow> u16 \<times> u16" where
  "best_link_key R = (of_nat (discovery R), case best_tsch_shedule_link R of None \<Rightarrow> fst (tx_slot R) | Some k \<Rightarrow> l_timeslot (links (sched (mac R)) ! k))"

lemma add_link_to_best_node_ok:
  assumes inv: "mr_inv ns nl nn np N R"
  obtains l S' where "add_link_to_best_node R = Some ((set_schedule R S')\<lparr>best_tsch_shedule_link := l\<rparr>)"
    "mr_inv ns nl nn np N ((set_schedule R S')\<lparr>best_tsch_shedule_link := l\<rparr>)"
    "same_queues (queues_of (mac R)) (sq S')" "frames S' = frames (sched (mac R))" "slotframe_list S' = slotframe_list (sched (mac R))"
    "l \<noteq> None \<Longrightarrow> schedule S' = ((schedule (sched (mac R)))(best_link_key R := None))
       ((of_nat (discovery R), fst (tx_slot R)) \<mapsto> best_link_info R)"
proof -
  let ?S = "sched (mac R)" and ?s = "sf R ! discovery R" and ?h = "of_nat (discovery R) :: u16" and ?l = "best_tsch_shedule_link R"
  have S: "sched_inv ns nl nn np ?S" "\<not> locked (sq ?S)" and ar: "arrays_ok N R"
    using inv by (simp_all add: mr_inv_def mac_inv_def queues_of_def)
  have s: "\<forall>i. ?s = Some i \<longrightarrow> i \<in> set (slotframe_list ?S) \<and> sf_handle (sf_of ?S i) = ?h" "discovery R < length (sf R)"
    and k: "\<forall>k. ?l = Some k \<longrightarrow> (\<exists>i. ?s = Some i \<and> i \<in> set (slotframe_list ?S) \<and> k \<in> set (links_list (sf_of ?S i)))"
    using inv by (auto simp: mr_inv_def links_ok_def)
  obtain r S1 where S1: "(if ?l \<noteq> None then tsch_schedule_remove_link ?S ?s ?l else Some (False, ?S)) = Some (r, S1)"
    "sched_inv ns nl nn np S1" "\<not> locked (sq S1)" "slotframe_list S1 = slotframe_list ?S" "frames S1 = frames ?S" "same_queues (sq ?S) (sq S1)"
    "\<forall>i. ?s = Some i \<longrightarrow> sf_handle (sf_of S1 i) = ?h"
    "schedule S1 = (case ?l of None \<Rightarrow> schedule ?S | Some k \<Rightarrow> (schedule ?S)((?h, l_timeslot (links ?S ! k)) := None))"
    by (rule remove_best_link [OF S k s(1)])
  have s1: "\<forall>i. ?s = Some i \<longrightarrow> i \<in> set (slotframe_list S1) \<and> sf_handle (sf_of S1 i) = ?h"
    using s S1 by auto
  obtain t c where tc: "tx_slot R = (t, c)"
    by fastforce
  obtain l S2 where S2: "tsch_schedule_add_link S1 ?s LINK_OPTION_TX LINK_TYPE_NORMAL (Some (getAddressByNodeID (uint (bestNode R)))) t c = Some (l, S2)"
    "sched_inv ns nl nn np S2" "\<not> locked (sq S2)" "slotframe_list S2 = slotframe_list S1" "frames S2 = frames S1" "same_queues (sq S1) (sq S2)"
    "\<forall>i. ?s = Some i \<longrightarrow> sf_handle (sf_of S2 i) = ?h"
    "\<forall>k. l = Some k \<longrightarrow> (\<exists>i. ?s = Some i \<and> k \<in> set (links_list (sf_of S2 i)))"
    "schedule S2 = (if l = None then schedule S1 else (schedule S1)((?h, t) \<mapsto> (LINK_OPTION_TX, LINK_TYPE_NORMAL, getAddressByNodeID (uint (bestNode R)), c)))"
    by (rule add_best_link [OF S1(2,3) s1])
  have n: "unat (node_id R) < 200"
    using ar by (simp add: arrays_ok_def MAX_EXPECTED_NODES_IN_NETWORK_def)
  have run: "add_link_to_best_node R = Some ((set_schedule R S2)\<lparr>best_tsch_shedule_link := l\<rparr>)"
    using S1(1) S2(1) s(2) tc matrix_at_in [OF ar n, of 1] matrix_at_in [OF ar n, of 2]
    by (cases "?l = None"; cases "matrix R ! unat (node_id R) ! 1 = 0")
      (simp_all add: add_link_to_best_node_def rd_in on_schedule_eq set_schedule_def tx_slot_def discovery_def Let_def)
  have "mr_inv ns nl nn np N ((set_schedule R S2)\<lparr>best_tsch_shedule_link := l\<rparr>)"
    using inv S2 S1(4) s mac_inv_schedule [OF mr_inv_mac [OF inv] S2(2,3)]
    by (simp add: mr_inv_def arrays_ok_def links_ok_def set_schedule_def discovery_def)
  moreover have "same_queues (queues_of (mac R)) (sq S2)"
    using same_queues_trans [OF S1(6) S2(6)] by (simp add: queues_of_def)
  moreover have "schedule S2 = ((schedule ?S)(best_link_key R := None))((?h, fst (tx_slot R)) \<mapsto> best_link_info R)" if "l \<noteq> None"
    using that S1(8) S2(9) tc by (cases ?l) (auto simp: best_link_key_def)
  ultimately show thesis
    using that [OF run] S1(4,5) S2(4,5) by simp
qed
section \<open>An example state\<close>

text \<open>Node \<open>i\<close> of a network of 5 nodes, started, with the link strengths \<open>w\<close> and nothing received yet.\<close>

definition mr_example :: "u16 \<Rightarrow> float32 list \<Rightarrow> master_routing" where
  "mr_example i w = \<lparr>mac = mac_initial pb_initial, node_id = i,
     mrp = \<lparr>mrp_flow_number = 0, mrp_packet_number = 0, mrp_ttl_slot_number = 0, mrp_earliest_tx_slot = 0, mrp_data = replicate 68 0\<rparr>,
     masternet_len = 75, forward_to = \<lparr>number_entries = 0, nodes = replicate 3 free_node\<rparr>,
     last_received_relayed_packet_of_flow = \<lparr>number_entries = 0, nodes = replicate 3 free_node\<rparr>,
     first_tx_slot_in_flow = [[0], [0], [0]], last_tx_slot_in_flow = [[0], [0], [0]], last_sent_packet_ttl = 0, schedule_length = 11,
     deployment_node_count = 5, counter_ad = 0, node_rcvd_tracker = replicate 6 0, rcvd_actual_data_counter = 0,
     max_advertisement_seq = 0, bestNode = 0, best_tsch_shedule_link = None, max_master_strength = 0,
     history_ad_seq_array = replicate 6 0, matrix = replicate 200 (replicate 16 0), max_slot_frame_used = 0,
     own_packet_number = 0, own_receiver = 0, own_transmission_flow = 0, is_sender = 0, sf = replicate 4 None,
     receiver_of_flow = replicate 4 0, sender_of_flow = replicate 4 0,
     sent_packet_configuration = \<lparr>ttl_slot_number = 0, earliest_tx_slot = 0, flow_number = 0, max_tx = 0\<rparr>,
     destination = linkaddr_null, started = True, is_configured = True, current_callback = True,
     strengths = \<lparr>strength_vector = w, receivedCounter = replicate 30 0, highestSequence = 0, highestNodeID = 5\<rparr>,
     delivered = [], reports = []\<rparr>"

lemma mr_example_fields:
  "node_id (mr_example i w) = i" "started (mr_example i w)" "reports (mr_example i w) = []" "bestNode (mr_example i w) = 0"
  "strengths (mr_example i w) = \<lparr>strength_vector = w, receivedCounter = replicate 30 0, highestSequence = 0, highestNodeID = 5\<rparr>"
  by (simp_all add: mr_example_def)

lemma mr_example_inv: "length w = 30 \<Longrightarrow> i \<in> {1, 2, 3, 4, 5} \<Longrightarrow> mr_inv 7 8 12 8 5 (mr_example i w)"
  using mac_initial_inv(1) [OF pb_inv_initial]
  by (auto simp: mr_inv_def arrays_ok_def links_ok_def mr_example_def mrp_ok_def size_defs discovery_def MAX_EXPECTED_NODES_IN_NETWORK_def)

end
