(* ===== verification/Master_Advertisement.thy ===== *)
theory Master_Advertisement
  imports Master_Packets
begin

text \<open>
  The advertisements: \<open>on_received_advertisement\<close> on every branch, the best node of one round, the end of the flooding, and
  the network of all nodes, in which no node ever believes in a better way to the collector than there is.
\<close>

section \<open>Sending an advertisement\<close>

definition advertise :: "u8 list \<Rightarrow> float32 \<Rightarrow> u16 \<Rightarrow> u8 \<Rightarrow> master_routing \<Rightarrow> advertisement" where
  "advertise g x s b R = \<lparr>adv_dummy = g, adv_packet_type = PACKET_TYPE_ADVERTISEMENT, adv_nodeId = ucast (node_id R), adv_seq = s,
     adv_bestNode = b, adv_strengthToMaster = x\<rparr>"

text \<open>The parts of the state that sending a packet does not touch.\<close>

definition same_choice :: "master_routing \<Rightarrow> master_routing \<Rightarrow> bool" where
  "same_choice R R' \<longleftrightarrow> max_advertisement_seq R' = max_advertisement_seq R \<and> bestNode R' = bestNode R
     \<and> max_master_strength R' = max_master_strength R \<and> counter_ad R' = counter_ad R \<and> node_id R' = node_id R
     \<and> strengths R' = strengths R \<and> started R' = started R"

lemma small_node_id: "arrays_ok N R \<Longrightarrow> unat (ucast (node_id R) :: u8) = unat (node_id R)"
  by (simp add: arrays_ok_def MAX_EXPECTED_NODES_IN_NETWORK_def unsigned_ucast_eq unsigned_take_bit_eq take_bit_nat_eq_self)

lemma send_advertisement_ok:
  assumes inv: "mr_inv ns nl nn np N R" and st: "started R" and g: "length g = 8"
  obtains r R' where "master_routing_send_advertisement g x s b R = Some (r, R')" "mr_inv ns nl nn np N R'" "same_choice R R'"
    "history_ad_seq_array R' = (history_ad_seq_array R)[unat (node_id R) := ucast s]"
    "adv_of_bytes (mrp_data (mrp R')) = Some (advertise g x s b R)"
proof -
  have ar: "arrays_ok N R" and m: "mac_inv ns nl nn np (mac R)" and l: "links_ok R"
    using inv by (simp_all add: mr_inv_def)
  have p: "mrp_ok (mrp R)"
    using ar by (simp add: arrays_ok_def)
  have a: "adv_ok (advertise g x s b R)"
    using g by (simp add: adv_ok_def advertise_def)
  obtain d where d: "wr_n (mrp_data (mrp R)) 0 (adv_bytes (advertise g x s b R)) = Some d" "length d = MASTER_MSG_LENGTH"
    "adv_of_bytes d = Some (advertise g x s b R)"
    by (rule store_adv [OF p a])
  define h where "h = (history_ad_seq_array R)[unat (node_id R) := ucast s]"
  have h: "wr (history_ad_seq_array R) (unat (node_id R)) (ucast s) = Some h"
    using ar by (simp add: arrays_ok_def wr_in h_def)
  define R1 where "R1 = upd_config (\<lambda>c. c\<lparr>max_tx := 1, flow_number := 0\<rparr>)
    ((set_times R)\<lparr>masternet_len := of_nat (minimal_routing_packet_size + advertisement_size),
       mrp := (mrp (set_times R))\<lparr>mrp_data := d\<rparr>, history_ad_seq_array := h\<rparr>)"
  have run: "master_routing_send_advertisement g x s b R = net_output (Some tsch_broadcast_address) R1"
    using d(1) h small_node_id [OF ar]
    by (simp add: master_routing_send_advertisement_def advertise_def R1_def set_times_def upd_config_def Let_def)
  have R1: "mac R1 = mac R" "started R1" "mrp_ok (mrp R1)" "unat (masternet_len R1) \<le> 75"
    using st d(2) by (simp_all add: R1_def set_times_def upd_config_def Let_def mrp_ok_def size_defs)
  have m1: "mac_inv ns nl nn np (mac R1)"
    using m R1(1) by simp
  obtain r m' where o: "net_output (Some tsch_broadcast_address) R1 = Some (r, R1\<lparr>mac := m'\<rparr>)" "mac_inv ns nl nn np m'" "same_mac (mac R1) m'"
    "masternet_output (mac R1) (mrp_bytes (mrp R1)) (masternet_len R1) (Some (sent_packet_configuration R1)) (Some tsch_broadcast_address) = Some (r, m')"
    by (rule net_output_ok [OF m1 R1(2-4), of "Some tsch_broadcast_address"]) simp_all
  have l1: "links_ok R1"
    using l by (simp add: links_ok_def R1_def set_times_def upd_config_def Let_def discovery_def)
  have "mr_inv ns nl nn np N (R1\<lparr>mac := m'\<rparr>)"
    using o ar d(2) links_ok_same_mac [OF l1] R1(1)
    by (simp add: mr_inv_def arrays_ok_def R1_def set_times_def upd_config_def Let_def mrp_ok_def h_def)
  then show thesis
    by (rule that [OF run [unfolded o(1)]])
      (simp_all add: same_choice_def R1_def set_times_def upd_config_def Let_def h_def d(3))
qed

section \<open>Receiving an advertisement\<close>

definition offer :: "master_routing \<Rightarrow> advertisement \<Rightarrow> float32" where
  "offer R a = fl_min (adv_strengthToMaster a) (strength_vector (strengths R) ! unat (adv_nodeId a))"

text \<open>The strength with which the offer of \<open>a\<close> is compared: in a new round that of the best node is replaced.\<close>

definition compared :: "master_routing \<Rightarrow> advertisement \<Rightarrow> float32" where
  "compared R a = (if max_advertisement_seq R < adv_seq a \<and> bestNode R = adv_nodeId a then offer R a else max_master_strength R)"

definition better :: "master_routing \<Rightarrow> advertisement \<Rightarrow> bool" where
  "better R a \<longleftrightarrow> max_advertisement_seq R \<le> adv_seq a \<and> fl_less (compared R a) (offer R a)"

definition chosen :: "master_routing \<Rightarrow> advertisement \<Rightarrow> master_routing \<Rightarrow> bool" where
  "chosen R a R' \<longleftrightarrow> max_advertisement_seq R' = max (max_advertisement_seq R) (adv_seq a)
     \<and> max_master_strength R' = (if better R a then offer R a else compared R a)
     \<and> bestNode R' = (if better R a then adv_nodeId a else bestNode R)"

lemma choose_best_node_ok:
  assumes inv: "mr_inv ns nl nn np N R"
  obtains R' where "choose_best_node a (offer R a) R = Some R'" "mr_inv ns nl nn np N R'" "chosen R a R'"
    "node_id R' = node_id R" "strengths R' = strengths R" "started R' = started R" "counter_ad R' = counter_ad R" "mrp R' = mrp R"
    "history_ad_seq_array R' = history_ad_seq_array R"
proof -
  define R1 where "R1 = (if max_advertisement_seq R < adv_seq a then R\<lparr>max_advertisement_seq := adv_seq a,
      max_master_strength := (if bestNode R = adv_nodeId a then offer R a else max_master_strength R)\<rparr> else R)"
  have R1: "max_advertisement_seq R1 = max (max_advertisement_seq R) (adv_seq a)" "max_master_strength R1 = compared R a" "bestNode R1 = bestNode R"
    by (auto simp: R1_def compared_def max_def)
  have b: "better R a \<longleftrightarrow> max_advertisement_seq R1 \<le> adv_seq a \<and> fl_less (max_master_strength R1) (offer R a)"
    using R1 by (auto simp: better_def)
  define R2 where "R2 = R1\<lparr>max_master_strength := offer R a, bestNode := adv_nodeId a\<rparr>"
  have inv12: "mr_inv ns nl nn np N R1" "mr_inv ns nl nn np N R2"
    using inv by (auto simp: mr_inv_def arrays_ok_def links_ok_def discovery_def R1_def R2_def)
  have run: "choose_best_node a (offer R a) R = (if better R a then if bestNode R \<noteq> adv_nodeId a then add_link_to_best_node R2
      else Some (R1\<lparr>max_master_strength := offer R a\<rparr>) else Some R1)"
    using R1(3) by (simp add: choose_best_node_def b R2_def flip: R1_def)
  obtain l S where al: "add_link_to_best_node R2 = Some ((set_schedule R2 S)\<lparr>best_tsch_shedule_link := l\<rparr>)"
    "mr_inv ns nl nn np N ((set_schedule R2 S)\<lparr>best_tsch_shedule_link := l\<rparr>)"
    by (rule add_link_to_best_node_ok [OF inv12(2)])
  have eqs: "node_id R1 = node_id R" "strengths R1 = strengths R" "started R1 = started R" "counter_ad R1 = counter_ad R" "mrp R1 = mrp R"
    "history_ad_seq_array R1 = history_ad_seq_array R"
    by (simp_all add: R1_def)
  show thesis
  proof (cases "better R a \<and> bestNode R \<noteq> adv_nodeId a")
    case True
    then show thesis
      using run al R1 eqs by (intro that [of "(set_schedule R2 S)\<lparr>best_tsch_shedule_link := l\<rparr>"]) (simp_all add: chosen_def set_schedule_def R2_def)
  next
    case False
    have "mr_inv ns nl nn np N (R1\<lparr>max_master_strength := x\<rparr>)" for x
      using inv12(1) by (simp add: mr_inv_def arrays_ok_def links_ok_def discovery_def)
    then show thesis
      using False run inv12(1) R1 eqs
      by (intro that [of "if better R a then R1\<lparr>max_master_strength := offer R a\<rparr> else R1"]) (auto simp: chosen_def)
  qed
qed

text \<open>Whether the advertisement is sent on: only if the history does not hold its number.\<close>

definition sent_on :: "master_routing \<Rightarrow> advertisement \<Rightarrow> bool" where
  "sent_on R a \<longleftrightarrow> ucast (history_ad_seq_array R ! unat (adv_nodeId a)) \<noteq> adv_seq a \<and> node_id R \<noteq> 1"

definition received :: "u8 list \<Rightarrow> advertisement \<Rightarrow> master_routing \<Rightarrow> master_routing \<Rightarrow> bool" where
  "received g a R R' \<longleftrightarrow> node_id R' = node_id R \<and> strengths R' = strengths R \<and> started R' = started R
     \<and> (if ucast (adv_bestNode a) = node_id R then R' = R
        else chosen R a R'
          \<and> (if sent_on R a then counter_ad R' = counter_ad R + 1
               \<and> history_ad_seq_array R' = (history_ad_seq_array R)[unat (adv_nodeId a) := ucast (adv_seq a), unat (node_id R) := ucast (max_advertisement_seq R')]
               \<and> adv_of_bytes (mrp_data (mrp R')) = Some (advertise g (max_master_strength R') (max_advertisement_seq R') (bestNode R') R)
             else counter_ad R' = counter_ad R \<and> history_ad_seq_array R' = history_ad_seq_array R \<and> mrp R' = mrp R))"

lemma received_advertisement_ok:
  assumes inv: "mr_inv ns nl nn np N R" and st: "started R" and g: "length g = 8"
    and a: "unat (adv_nodeId a) \<le> N" and c: "0 \<le> counter_ad R" "counter_ad R < 2 ^ 15 - 1"
  obtains R' where "on_received_advertisement g a R = Some R'" "mr_inv ns nl nn np N R'" "received g a R R'"
proof (cases "ucast (adv_bestNode a) = node_id R")
  case True
  then show thesis
    using inv by (intro that [of R]) (simp_all add: on_received_advertisement_def received_def)
next
  case other: False
  have ar: "arrays_ok N R"
    using inv by (simp add: mr_inv_def)
  have own: "getStrengthByNodeID (strengths R) (uint (adv_nodeId a)) = Some (strength_vector (strengths R) ! unat (adv_nodeId a))"
    using ar a by (simp add: getStrengthByNodeID_def rd_i_def rd_in arrays_ok_def)
  obtain R1 where R1: "choose_best_node a (offer R a) R = Some R1" "mr_inv ns nl nn np N R1" "chosen R a R1"
    "node_id R1 = node_id R" "strengths R1 = strengths R" "started R1 = started R" "counter_ad R1 = counter_ad R" "mrp R1 = mrp R"
    "history_ad_seq_array R1 = history_ad_seq_array R"
    by (rule choose_best_node_ok [OF inv])
  have len: "unat (adv_nodeId a) < length (history_ad_seq_array R)"
    using ar a by (simp add: arrays_ok_def)
  define R2 where "R2 = R1\<lparr>counter_ad := counter_ad R + 1, history_ad_seq_array := (history_ad_seq_array R)[unat (adv_nodeId a) := ucast (adv_seq a)]\<rparr>"
  have inv2: "mr_inv ns nl nn np N R2"
    using R1(2,9) by (simp add: mr_inv_def arrays_ok_def links_ok_def discovery_def R2_def)
  have st2: "started R2"
    using R1(6) st by (simp add: R2_def)
  obtain r R3 where R3: "master_routing_send_advertisement g (max_master_strength R2) (max_advertisement_seq R2) (bestNode R2) R2 = Some (r, R3)"
    "mr_inv ns nl nn np N R3" "same_choice R2 R3" "history_ad_seq_array R3 = (history_ad_seq_array R2)[unat (node_id R2) := ucast (max_advertisement_seq R2)]"
    "adv_of_bytes (mrp_data (mrp R3)) = Some (advertise g (max_master_strength R2) (max_advertisement_seq R2) (bestNode R2) R2)"
    by (rule send_advertisement_ok [OF inv2 st2 g])
  have run: "on_received_advertisement g a R = Some (if sent_on R a then R3 else R1)"
    using other own R1 len c R3(1)
    by (simp add: on_received_advertisement_def rd_in wr_in chk_int_def sent_on_def R2_def flip: offer_def)
  show thesis
  proof (rule that [OF run])
    show "mr_inv ns nl nn np N (if sent_on R a then R3 else R1)"
      using R1(2) R3(2) by simp
    show "received g a R (if sent_on R a then R3 else R1)"
      using other R1(3-9) R3(3-5) by (simp add: received_def same_choice_def chosen_def R2_def advertise_def)
  qed
qed
section \<open>Rounds of advertisements\<close>

lemma fl_less_order: "\<not> fl_nan a \<Longrightarrow> \<not> fl_nan b \<Longrightarrow> fl_less a b \<longleftrightarrow> fl_order a < fl_order b"
  by (simp add: fl_less_def)

lemma fl_min_props: "\<not> fl_nan a \<Longrightarrow> \<not> fl_nan b \<Longrightarrow> \<not> fl_nan (fl_min a b) \<and> fl_order (fl_min a b) = min (fl_order a) (fl_order b)"
  by (auto simp: fl_min_def fl_less_order min_def)

fun receive_all :: "u8 list \<Rightarrow> advertisement list \<Rightarrow> master_routing \<Rightarrow> master_routing option" where
  "receive_all g [] R = Some R"
| "receive_all g (a # as) R = do { R \<leftarrow> on_received_advertisement g a R; receive_all g as R }"

text \<open>An advertisement of round \<open>s\<close> from another of the \<open>N\<close> nodes that has not chosen this node.\<close>

definition of_round :: "nat \<Rightarrow> u16 \<Rightarrow> master_routing \<Rightarrow> advertisement \<Rightarrow> bool" where
  "of_round N s R a \<longleftrightarrow> adv_seq a = s \<and> 1 \<le> unat (adv_nodeId a) \<and> unat (adv_nodeId a) \<le> N \<and> ucast (adv_nodeId a) \<noteq> node_id R
     \<and> ucast (adv_bestNode a) \<noteq> node_id R"

lemma receive_step:
  assumes "mr_inv ns nl nn np N R" "started R" "length g = 8" "of_round N s R a"
    and "0 \<le> counter_ad R" "counter_ad R < 2 ^ 15 - 1"
  obtains R' where "on_received_advertisement g a R = Some R'" "mr_inv ns nl nn np N R'" "received g a R R'"
    "chosen R a R'" "started R'" "node_id R' = node_id R" "strengths R' = strengths R"
    "counter_ad R \<le> counter_ad R'" "counter_ad R' \<le> counter_ad R + 1"
    "\<And>b. offer R' b = offer R b" "\<And>b. of_round N s R' b = of_round N s R b"
proof -
  have "unat (adv_nodeId a) \<le> N"
    using assms(4) by (simp add: of_round_def)
  from received_advertisement_ok [OF assms(1-3) this assms(5,6)] obtain R' where
    R': "on_received_advertisement g a R = Some R'" "mr_inv ns nl nn np N R'" "received g a R R'"
    by blast
  moreover have "chosen R a R'" "started R'" "node_id R' = node_id R" "strengths R' = strengths R"
      "counter_ad R \<le> counter_ad R'" "counter_ad R' \<le> counter_ad R + 1"
    using R'(3) assms(2,4) by (auto simp: received_def of_round_def split: if_splits)
  ultimately show thesis
    using that [of R'] by (simp add: offer_def of_round_def)
qed

text \<open>The strength that a node has does not fall during a round, and no offer of the round is better in the end.\<close>

lemma round_best:
  assumes "mr_inv ns nl nn np N R" "started R" "length g = 8"
    and "\<forall>a \<in> set as. of_round N s R a \<and> \<not> fl_nan (offer R a)" "0 \<le> counter_ad R" "counter_ad R + int (length as) < 2 ^ 15"
    and "max_advertisement_seq R = s" "\<not> fl_nan (max_master_strength R)"
  shows "\<exists>R'. receive_all g as R = Some R' \<and> mr_inv ns nl nn np N R' \<and> max_advertisement_seq R' = s
    \<and> \<not> fl_nan (max_master_strength R') \<and> fl_order (max_master_strength R) \<le> fl_order (max_master_strength R')
    \<and> (\<forall>a \<in> set as. fl_order (offer R a) \<le> fl_order (max_master_strength R'))
    \<and> (bestNode R' = bestNode R \<and> max_master_strength R' = max_master_strength R
       \<or> (\<exists>a \<in> set as. bestNode R' = adv_nodeId a \<and> max_master_strength R' = offer R a))"
  using assms
proof (induction as arbitrary: R)
  case Nil
  then show ?case
    by simp
next
  case (Cons a as)
  have a: "of_round N s R a" "\<not> fl_nan (offer R a)" "adv_seq a = s" and c: "counter_ad R < 2 ^ 15 - 1"
    using Cons.prems(4,6) by (auto simp: of_round_def)
  obtain R1 where R1: "on_received_advertisement g a R = Some R1" "mr_inv ns nl nn np N R1" "chosen R a R1" "started R1"
    "counter_ad R \<le> counter_ad R1" "counter_ad R1 \<le> counter_ad R + 1"
    and same: "\<And>b. offer R1 b = offer R b" "\<And>b. of_round N s R1 b = of_round N s R b"
    by (rule receive_step [OF Cons.prems(1-3) a(1) Cons.prems(5) c]) blast
  have ch: "max_advertisement_seq R1 = s" "max_master_strength R1 = (if better R a then offer R a else max_master_strength R)"
    "bestNode R1 = (if better R a then adv_nodeId a else bestNode R)" "better R a \<longleftrightarrow> fl_less (max_master_strength R) (offer R a)"
    using R1(3) Cons.prems(7) a(3) by (simp_all add: chosen_def compared_def better_def)
  have up: "\<not> fl_nan (max_master_strength R1)" "fl_order (max_master_strength R) \<le> fl_order (max_master_strength R1)"
    "fl_order (offer R a) \<le> fl_order (max_master_strength R1)"
    using ch Cons.prems(8) a(2) by (auto simp: fl_less_order)
  have "\<forall>b \<in> set as. of_round N s R1 b \<and> \<not> fl_nan (offer R1 b)" "0 \<le> counter_ad R1" "counter_ad R1 + int (length as) < 2 ^ 15"
    using Cons.prems(4-6) R1(5,6) same by auto
  from Cons.IH [OF R1(2)  R1(4) Cons.prems(3) this ch(1) up(1)] obtain R' where
    R': "receive_all g as R1 = Some R'" "mr_inv ns nl nn np N R'" "max_advertisement_seq R' = s"
      "\<not> fl_nan (max_master_strength R')" "fl_order (max_master_strength R1) \<le> fl_order (max_master_strength R')"
      "\<forall>b \<in> set as. fl_order (offer R b) \<le> fl_order (max_master_strength R')"
    and b: "bestNode R' = bestNode R1 \<and> max_master_strength R' = max_master_strength R1
       \<or> (\<exists>b \<in> set as. bestNode R' = adv_nodeId b \<and> max_master_strength R' = offer R b)"
    by (auto simp: same)
  have "bestNode R' = bestNode R \<and> max_master_strength R' = max_master_strength R
     \<or> (\<exists>b \<in> set (a # as). bestNode R' = adv_nodeId b \<and> max_master_strength R' = offer R b)"
    using b ch(2,3) by (cases "better R a") auto
  with R1(1) R' up show ?case
    by auto
qed


text \<open>The neighbors whose number in the history is not that of round \<open>s\<close>.\<close>

definition unheard :: "nat \<Rightarrow> u16 \<Rightarrow> master_routing \<Rightarrow> nat set" where
  "unheard N s R = {j. 1 \<le> j \<and> j \<le> N \<and> j \<noteq> unat (node_id R) \<and> history_ad_seq_array R ! j \<noteq> ucast s}"

lemma finite_unheard [simp]: "finite (unheard N s R)"
  by (rule finite_subset [of _ "{..N}"]) (auto simp: unheard_def)

lemma unheard_step:
  assumes "mr_inv ns nl nn np N R" "of_round N s R a" "s < 256" "received g a R R'"
  shows "counter_ad R' + int (card (unheard N s R')) \<le> counter_ad R + int (card (unheard N s R))"
proof (cases "sent_on R a")
  case False
  then have "counter_ad R' = counter_ad R" "unheard N s R' = unheard N s R"
    using assms(2,4) by (auto simp: received_def of_round_def unheard_def)
  then show ?thesis
    by simp
next
  case True
  let ?j = "unat (adv_nodeId a)"
  have len: "length (history_ad_seq_array R) = N + 1" "unat (node_id R) \<le> N"
    using assms(1) by (simp_all add: mr_inv_def arrays_ok_def)
  have ne: "?j \<noteq> unat (node_id R)"
    using assms(2) by (metis of_round_def unat_ucast_u8_u16 unsigned_word_eqI)
  have r: "counter_ad R' = counter_ad R + 1" "node_id R' = node_id R"
    "history_ad_seq_array R' = (history_ad_seq_array R)[?j := ucast s, unat (node_id R) := ucast (max_advertisement_seq R')]"
    using True assms(2,4) by (simp_all add: received_def of_round_def)
  have u: "unheard N s R' = unheard N s R - {?j}"
    using len r ne assms(2) by (auto simp: unheard_def of_round_def nth_list_update)
  have "unat s < 256"
    using assms(3) by (simp add: word_less_nat_alt)
  then have "ucast (ucast s :: u8) = s"
    by (intro word_unat_eq_iff [THEN iffD2]) (simp only: unat_ucast_u8_u16 unat_u16_u8)
  then have "history_ad_seq_array R ! ?j \<noteq> ucast s"
    using True assms(2) by (auto simp: sent_on_def of_round_def)
  then have "?j \<in> unheard N s R"
    using assms(2) ne by (simp add: unheard_def of_round_def)
  then have "card (unheard N s R) = Suc (card (unheard N s R'))"
    unfolding u using card.remove [of "unheard N s R" ?j] by simp
  then show ?thesis
    by (simp add: r)
qed

text \<open>
  C22. The flooding ends.  However often and in whatever order the advertisements of a round with a number below 256 are
  received, the node sends at most one advertisement for each neighbor it has not yet heard of in the round, so at most \<open>N\<close>.
\<close>

theorem flooding_ends:
  assumes "mr_inv ns nl nn np N R" "started R" "length g = 8"
    and "\<forall>a \<in> set as. of_round N s R a" "s < 256" "0 \<le> counter_ad R" "counter_ad R + int (length as) < 2 ^ 15"
  shows "\<exists>R'. receive_all g as R = Some R' \<and> mr_inv ns nl nn np N R'
    \<and> counter_ad R' + int (card (unheard N s R')) \<le> counter_ad R + int (card (unheard N s R)) \<and> card (unheard N s R) \<le> N"
proof -
  have "card (unheard N s R) \<le> card {1 .. N}"
    by (rule card_mono) (auto simp: unheard_def)
  moreover have "\<exists>R'. receive_all g as R = Some R' \<and> mr_inv ns nl nn np N R'
    \<and> counter_ad R' + int (card (unheard N s R')) \<le> counter_ad R + int (card (unheard N s R))"
    using assms
  proof (induction as arbitrary: R)
    case (Cons a as)
    have a: "of_round N s R a" and c: "counter_ad R < 2 ^ 15 - 1"
      using Cons.prems(4,7) by auto
    obtain R1 where R1: "on_received_advertisement g a R = Some R1" "mr_inv ns nl nn np N R1" "received g a R R1" "started R1"
      "counter_ad R \<le> counter_ad R1" "counter_ad R1 \<le> counter_ad R + 1" "\<And>b. of_round N s R1 b = of_round N s R b"
      by (rule receive_step [OF Cons.prems(1-3) a Cons.prems(6) c]) blast
    have "\<forall>b \<in> set as. of_round N s R1 b" "0 \<le> counter_ad R1" "counter_ad R1 + int (length as) < 2 ^ 15"
      using Cons.prems(4,6,7) R1(5-7) by auto
    from Cons.IH [OF R1(2)  R1(4) Cons.prems(3) this(1) Cons.prems(5) this(2,3)] show ?case
      using unheard_step [OF Cons.prems(1) a Cons.prems(5) R1(3)] R1(1) by auto
  qed simp
  ultimately show ?thesis
    by auto
qed

text \<open>From number 256 on it does not end: the history has 8 bits, and every single reception is answered.\<close>

lemma flooding_never_ends:
  assumes "mr_inv ns nl nn np N R" "started R" "length g = 8" "node_id R \<noteq> 1"
    and "\<forall>a \<in> set as. of_round N s R a" "256 \<le> s" "0 \<le> counter_ad R" "counter_ad R + int (length as) < 2 ^ 15"
  shows "\<exists>R'. receive_all g as R = Some R' \<and> counter_ad R' = counter_ad R + int (length as)"
  using assms
proof (induction as arbitrary: R)
  case (Cons a as)
  have a: "of_round N s R a" and c: "counter_ad R < 2 ^ 15 - 1"
    using Cons.prems(5,8) by auto
  obtain R1 where R1: "on_received_advertisement g a R = Some R1" "mr_inv ns nl nn np N R1" "received g a R R1" "started R1"
    "node_id R1 = node_id R" "\<And>b. of_round N s R1 b = of_round N s R b"
    by (rule receive_step [OF Cons.prems(1-3) a Cons.prems(7) c]) blast
  have "256 \<le> unat s"
    using Cons.prems(6) by (simp add: word_le_nat_alt)
  moreover have "unat (ucast (history_ad_seq_array R ! unat (adv_nodeId a)) :: u16) < 256"
    by simp
  ultimately have "ucast (history_ad_seq_array R ! unat (adv_nodeId a)) \<noteq> s"
    by (metis not_le)
  then have "counter_ad R1 = counter_ad R + 1"
    using R1(3) a Cons.prems(4) by (simp add: received_def of_round_def sent_on_def)
  with Cons.IH [OF R1(2)  R1(4) Cons.prems(3), OF _ _ Cons.prems(6)] Cons.prems R1 show ?case
    by (simp add: ac_simps)
qed simp
text \<open>Node 3 hears an advertisement of node 2, which has a way of strength 1 to the collector; both links have strength 0.5.\<close>

definition w_example :: "float32 list" where
  "w_example = replicate 30 0x3f000000"

definition adv_example :: advertisement where
  "adv_example = \<lparr>adv_dummy = replicate 8 0, adv_packet_type = 2, adv_nodeId = 2, adv_seq = 0, adv_bestNode = 1, adv_strengthToMaster = 0x3f800000\<rparr>"

lemma adv_example:
  "mr_inv 7 8 12 8 5 (mr_example 3 w_example)" "\<forall>a \<in> set [adv_example]. of_round 5 0 (mr_example 3 w_example) a \<and> \<not> fl_nan (offer (mr_example 3 w_example) a)"
  "started (mr_example 3 w_example)" "length (replicate 8 (0::u8)) = 8" "counter_ad (mr_example 3 w_example) = 0"
  "max_advertisement_seq (mr_example 3 w_example) = 0" "\<not> fl_nan (max_master_strength (mr_example 3 w_example))"
  "offer (mr_example 3 w_example) adv_example = 0x3f000000" "fl_less (max_master_strength (mr_example 3 w_example)) 0x3f000000"
proof -
  show o: "offer (mr_example 3 w_example) adv_example = 0x3f000000"
  proof -
    have "strength_vector (strengths (mr_example 3 w_example)) ! unat (adv_nodeId adv_example) = 0x3f000000"
      by (simp add: mr_example_def adv_example_def w_example_def)
    moreover have "fl_min 0x3f800000 0x3f000000 = 0x3f000000"
      by code_simp
    ultimately show ?thesis
      by (simp add: offer_def) (simp add: adv_example_def)
  qed
  have "\<not> fl_nan 0x3f000000" "\<not> fl_nan 0" "fl_less 0 0x3f000000"
    by code_simp+
  then show "\<forall>a \<in> set [adv_example]. of_round 5 0 (mr_example 3 w_example) a \<and> \<not> fl_nan (offer (mr_example 3 w_example) a)"
    "\<not> fl_nan (max_master_strength (mr_example 3 w_example))" "fl_less (max_master_strength (mr_example 3 w_example)) 0x3f000000"
    using o by (simp_all add: of_round_def adv_example_def mr_example_def)
qed (use mr_example_inv [of w_example 3] in \<open>simp_all add: mr_example_def w_example_def\<close>)


theorem flooding_ends_witness:
  "\<exists>R'. receive_all (replicate 8 0) [adv_example] (mr_example 3 w_example) = Some R' \<and> counter_ad R' \<le> 5"
proof -
  have c: "0 \<le> counter_ad (mr_example 3 w_example)" "counter_ad (mr_example 3 w_example) + int (length [adv_example]) < 2 ^ 15"
    "\<forall>a \<in> set [adv_example]. of_round 5 0 (mr_example 3 w_example) a" "(0 :: u16) < 256"
    using adv_example(2) by (simp_all add: adv_example(5))
  from flooding_ends [OF adv_example(1) adv_example(3,4) c(3,4,1,2)] show ?thesis
    by (auto simp: adv_example(5))
qed

section \<open>The network\<close>

text \<open>
  All nodes together: \<open>st i\<close> is the state of node \<open>i\<close>, \<open>air\<close> are the advertisements that were sent.  Reception is
  arbitrary: any advertisement that was sent may reach any node, at any time, more than once, or never.  \<open>w i j\<close> is the strength
  of the link at \<open>i\<close> from \<open>j\<close>.  The collector, node 1, starts a round at any time.
\<close>

definition in_air :: "master_routing \<Rightarrow> advertisement set" where
  "in_air R = {a. adv_of_bytes (mrp_data (mrp R)) = Some a}"

definition fresh_node :: "(u8 \<Rightarrow> u8 \<Rightarrow> float32) \<Rightarrow> nat \<Rightarrow> u8 \<Rightarrow> master_routing \<Rightarrow> bool" where
  "fresh_node w N i R \<longleftrightarrow> (\<exists>ns nl nn np. mr_inv ns nl nn np N R) \<and> started R \<and> node_id R = ucast i \<and> bestNode R = 0
     \<and> max_master_strength R = 0 \<and> 0 \<le> counter_ad R \<and> (\<forall>j. unat j \<le> N \<longrightarrow> strength_vector (strengths R) ! unat j = w i j)"

inductive adv_network :: "(u8 \<Rightarrow> u8 \<Rightarrow> float32) \<Rightarrow> nat \<Rightarrow> (u8 \<Rightarrow> master_routing) \<Rightarrow> advertisement set \<Rightarrow> bool"
  for w N where
  start: "\<forall>i. 1 \<le> unat i \<and> unat i \<le> N \<longrightarrow> fresh_node w N i (st i) \<Longrightarrow> adv_network w N st {}"
| announce: "adv_network w N st air \<Longrightarrow> 1 \<le> N \<Longrightarrow> length g = 8 \<Longrightarrow> \<not> fl_nan x \<Longrightarrow>
    master_routing_send_advertisement_sendto g x s 1 (st 1) = Some (r, R') \<Longrightarrow>
    adv_network w N (st(1 := R')) (air \<union> in_air R')"
| receive: "adv_network w N st air \<Longrightarrow> a \<in> air \<Longrightarrow> 1 \<le> unat i \<Longrightarrow> unat i \<le> N \<Longrightarrow> length g = 8 \<Longrightarrow>
    counter_ad (st i) < 2 ^ 15 - 1 \<Longrightarrow> on_received_advertisement g a (st i) = Some R' \<Longrightarrow>
    adv_network w N (st(i := R')) (air \<union> (if counter_ad R' = counter_ad (st i) then {} else in_air R'))"

inductive_cases adv_network_empty: "adv_network w N st {}"

text \<open>There is a way of strength \<open>x\<close> from node \<open>i\<close> to the collector: none of its links is weaker.\<close>

inductive carries :: "(u8 \<Rightarrow> u8 \<Rightarrow> float32) \<Rightarrow> float32 \<Rightarrow> u8 \<Rightarrow> bool" for w x where
  collector: "carries w x 1"
| hop: "carries w x j \<Longrightarrow> \<not> fl_less (w i j) x \<Longrightarrow> carries w x i"

lemma carries_weaker:
  assumes "carries w x i" "\<not> fl_nan x" "\<not> fl_nan y" "fl_order y \<le> fl_order x" "\<And>i j. \<not> fl_nan (w i j)"
  shows "carries w y i"
  using assms(1)
proof induction
  case (hop j i)
  then have "\<not> fl_less (w i j) y"
    using assms(2-5) by (simp add: fl_less_order)
  with hop show ?case
    by (blast intro: carries.hop)
qed (rule carries.collector)

definition node_sound :: "(u8 \<Rightarrow> u8 \<Rightarrow> float32) \<Rightarrow> nat \<Rightarrow> u8 \<Rightarrow> master_routing \<Rightarrow> bool" where
  "node_sound w N i R \<longleftrightarrow> (\<exists>ns nl nn np. mr_inv ns nl nn np N R) \<and> started R \<and> node_id R = ucast i \<and> 0 \<le> counter_ad R
     \<and> (\<forall>j. unat j \<le> N \<longrightarrow> strength_vector (strengths R) ! unat j = w i j)
     \<and> \<not> fl_nan (max_master_strength R) \<and> carries w (max_master_strength R) i
     \<and> (i \<noteq> 1 \<and> bestNode R \<noteq> 0 \<longrightarrow> carries w (max_master_strength R) (bestNode R) \<and> \<not> fl_less (w i (bestNode R)) (max_master_strength R))"

definition adv_sound :: "(u8 \<Rightarrow> u8 \<Rightarrow> float32) \<Rightarrow> nat \<Rightarrow> advertisement \<Rightarrow> bool" where
  "adv_sound w N a \<longleftrightarrow> \<not> fl_nan (adv_strengthToMaster a) \<and> 1 \<le> unat (adv_nodeId a) \<and> unat (adv_nodeId a) \<le> N
     \<and> carries w (adv_strengthToMaster a) (adv_nodeId a)"
lemma in_air_eq: "adv_of_bytes (mrp_data (mrp R)) = Some a \<Longrightarrow> in_air R = {a}"
  by (auto simp: in_air_def)

lemma announce_sound:
  assumes R: "node_sound w N 1 R" and g: "length g = 8" and x: "\<not> fl_nan x"
    and run: "master_routing_send_advertisement_sendto g x s 1 R = Some (r, R')" and N: "1 \<le> N"
  shows "node_sound w N 1 R'" "\<forall>a \<in> in_air R'. adv_sound w N a"
proof -
  let ?R = "R\<lparr>max_advertisement_seq := s, bestNode := 1, max_master_strength := x\<rparr>"
  obtain ns nl nn np where inv: "mr_inv ns nl nn np N R"
    using R by (auto simp: node_sound_def)
  have inv1: "mr_inv ns nl nn np N ?R" and st: "started ?R"
    using inv R by (simp_all add: mr_inv_def arrays_ok_def links_ok_def discovery_def node_sound_def)
  obtain r1 R1 where R1: "master_routing_send_advertisement g x s 1 ?R = Some (r1, R1)" "mr_inv ns nl nn np N R1" "same_choice ?R R1"
    "adv_of_bytes (mrp_data (mrp R1)) = Some (advertise g x s 1 ?R)"
    by (rule send_advertisement_ok [OF inv1 st g])
  have e: "R' = R1"
    using run R1(1) by (simp add: master_routing_send_advertisement_sendto_def)
  show "node_sound w N 1 R'"
    using R R1(2,3) x by (auto simp: e node_sound_def same_choice_def carries.collector)
  show "\<forall>a \<in> in_air R'. adv_sound w N a"
    using R x N by (simp add: e in_air_eq [OF R1(4)] adv_sound_def advertise_def node_sound_def carries.collector)
qed

lemma receive_sound:
  assumes R: "node_sound w N i R" and a: "adv_sound w N a" and g: "length g = 8" and c: "counter_ad R < 2 ^ 15 - 1"
    and i: "1 \<le> unat i" "unat i \<le> N" and w: "\<And>i j. \<not> fl_nan (w i j)"
    and run: "on_received_advertisement g a R = Some R'"
  shows "node_sound w N i R'" "counter_ad R' \<noteq> counter_ad R \<Longrightarrow> \<forall>b \<in> in_air R'. adv_sound w N b"
proof -
  obtain ns nl nn np where inv: "mr_inv ns nl nn np N R" and st: "started R" and c0: "0 \<le> counter_ad R"
    using R by (auto simp: node_sound_def)
  have n: "unat (adv_nodeId a) \<le> N"
    using a by (simp add: adv_sound_def)
  have R': "mr_inv ns nl nn np N R'" "received g a R R'"
    using received_advertisement_ok [OF inv st g n c0 c] run by auto
  let ?o = "offer R a" and ?j = "adv_nodeId a"
  have o: "\<not> fl_nan ?o" "fl_order ?o \<le> fl_order (adv_strengthToMaster a)" "fl_order ?o \<le> fl_order (w i ?j)"
    using fl_min_props [of "adv_strengthToMaster a" "w i ?j"] a R w n by (simp_all add: offer_def adv_sound_def node_sound_def)
  have way: "carries w ?o ?j" "\<not> fl_less (w i ?j) ?o"
    using carries_weaker [of w "adv_strengthToMaster a" ?j ?o] a o w by (simp_all add: adv_sound_def fl_less_order)
  have s: "node_sound w N i R'"
  proof (cases "ucast (adv_bestNode a) = node_id R")
    case True
    with R'(2) R show ?thesis
      by (simp add: received_def)
  next
    case False
    have keep: "(\<exists>ns nl nn np. mr_inv ns nl nn np N R') \<and> started R' \<and> node_id R' = ucast i \<and> 0 \<le> counter_ad R'
     \<and> (\<forall>j. unat j \<le> N \<longrightarrow> strength_vector (strengths R') ! unat j = w i j)"
      using R R' False by (auto simp: received_def node_sound_def split: if_splits)
    have "max_master_strength R' = ?o \<and> bestNode R' = ?j \<or> max_master_strength R' = max_master_strength R \<and> bestNode R' = bestNode R"
      using R'(2) False by (auto simp: received_def chosen_def compared_def split: if_splits)
    then show ?thesis
      using keep R o(1) way carries.hop [OF way] unfolding node_sound_def by auto
  qed
  then show "node_sound w N i R'" .
  assume "counter_ad R' \<noteq> counter_ad R"
  then have "adv_of_bytes (mrp_data (mrp R')) = Some (advertise g (max_master_strength R') (max_advertisement_seq R') (bestNode R') R)"
    using R'(2) by (auto simp: received_def split: if_splits)
  moreover have "ucast (node_id R) = i"
    using R by (simp add: node_sound_def)
  ultimately show "\<forall>b \<in> in_air R'. adv_sound w N b"
    using s i by (simp add: in_air_eq adv_sound_def advertise_def node_sound_def)
qed

lemma adv_network_sound:
  assumes "adv_network w N st air" "\<And>i j. \<not> fl_nan (w i j)" "\<And>i j. \<not> fl_less (w i j) 0"
  shows "(\<forall>i. 1 \<le> unat i \<and> unat i \<le> N \<longrightarrow> node_sound w N i (st i)) \<and> (\<forall>a \<in> air. adv_sound w N a)"
  using assms
proof induction
  case (start st)
  have "\<not> fl_nan 0"
    by code_simp
  with start show ?case
    by (auto simp: fresh_node_def node_sound_def intro: carries.hop [OF carries.collector])
next
  case (announce st air g x s r R')
  then have "node_sound w N 1 (st 1)"
    by simp
  from announce_sound [OF this announce.hyps(3,4,5,2)] announce show ?case
    by auto
next
  case (receive st air a i g R')
  then have "node_sound w N i (st i)" "adv_sound w N a"
    by auto
  from receive_sound [OF this receive.hyps(5,6,3,4) receive.prems(1) receive.hyps(7)] receive show ?case
    by auto
qed


end
