(* ===== verification/Master_Collect.thy ===== *)
theory Master_Collect
  imports Master_Packets
begin

text \<open>
  The collection of the link strengths: \<open>master_routing_send_actual_data\<close> at a node, \<open>on_received_actual_data\<close> at
  the nodes on the way and at the collector.  The data of a message are the strengths of its sender and the route so far; it has
  room for 57 bytes, which bounds the number of nodes and the length of routes.
\<close>

section \<open>Messages\<close>

text \<open>The data of a message with the strengths \<open>s\<close> that has come along \<open>route\<close>.\<close>

definition payload :: "strengths \<Rightarrow> u8 list \<Rightarrow> u8 list" where
  "payload s route = of_int (highestNodeID s) # concat (map (strength_entry s) [1 .. highestNodeID s]) @ of_nat (length route) # route"

definition message :: "strengths \<Rightarrow> u8 list \<Rightarrow> actual_data \<Rightarrow> bool" where
  "message s route a \<longleftrightarrow> ad_ok a \<and> ad_packet_type a = PACKET_TYPE_ACTUAL_DATA \<and> length (payload s route) \<le> 57
     \<and> ad_dataLen a = of_nat (length (payload s route)) \<and> take (length (payload s route)) (ad_data a) = payload s route"

definition strengths_ok :: "strengths \<Rightarrow> bool" where
  "strengths_ok s \<longleftrightarrow> 0 \<le> highestNodeID s \<and> highestNodeID s < 30 \<and> length (strength_vector s) = 30
     \<and> (\<forall>i \<in> {1 .. highestNodeID s}. unit_strength (strength_vector s ! nat i))"

abbreviation nnodes :: "strengths \<Rightarrow> nat" where
  "nnodes s \<equiv> nat (highestNodeID s)"

lemma length_entries: "length (concat (map (strength_entry s) is')) = 3 * length is'"
  by (induction is') (simp_all add: strength_entry_def)

lemma length_payload: "length (payload s route) = 3 * nnodes s + 2 + length route"
  by (simp add: payload_def length_entries)

lemma unat_of_int_u8: "0 \<le> k \<Longrightarrow> k < 256 \<Longrightarrow> unat (of_int k :: u8) = nat k"
  by (simp add: unsigned_of_int take_bit_int_eq_self)

lemma unat_of_nat_u8: "k < 256 \<Longrightarrow> unat (of_nat k :: u8) = k"
  by (simp add: unsigned_of_nat take_bit_nat_eq_self)

text \<open>Reading a message.\<close>

lemma message_nth:
  assumes "message s route a" "k < length (payload s route)"
  shows "rd (ad_data a) k = Some (payload s route ! k)" "k < length (ad_data a)"
proof -
  have l: "length (ad_data a) = 57"
    using assms(1) by (simp add: message_def ad_ok_def size_defs)
  with assms show "k < length (ad_data a)"
    by (simp add: message_def)
  moreover have "payload s route ! k = ad_data a ! k"
    using assms by (metis message_def nth_take)
  ultimately show "rd (ad_data a) k = Some (payload s route ! k)"
    by (simp add: rd_in)
qed

lemma message_slice:
  assumes "message s route a" "k + n \<le> length (payload s route)"
  shows "rd_n (ad_data a) k n = Some (take n (drop k (payload s route)))"
proof -
  have l: "k + n \<le> length (ad_data a)"
    using assms by (simp add: message_def ad_ok_def size_defs)
  have "take n (drop k (payload s route)) = take n (drop k (take (length (payload s route)) (ad_data a)))"
    using assms(1) by (simp add: message_def)
  also have "\<dots> = take n (drop k (ad_data a))"
    using assms(2) by (simp add: drop_take min_def)
  finally show ?thesis
    using l by (simp add: rd_n_in)
qed

lemma payload_parts:
  "payload s route ! 0 = of_int (highestNodeID s)"
  "payload s route ! (1 + 3 * nnodes s) = of_nat (length route)"
  "drop (2 + 3 * nnodes s) (payload s route) = route"
  "take (3 * nnodes s) (drop 1 (payload s route)) = concat (map (strength_entry s) [1 .. highestNodeID s])"
  using length_entries [of s "[1 .. highestNodeID s]"] by (simp_all add: payload_def nth_append numeral_2_eq_2)

lemma message_count:
  assumes "message s route a" "strengths_ok s"
  obtains k where "rd (ad_data a) 0 = Some k" "unat k * 3 + 1 = 1 + 3 * nnodes s" "unat k = nnodes s"
proof -
  have "rd (ad_data a) 0 = Some (payload s route ! 0)"
    by (rule message_nth [OF assms(1)]) (simp add: length_payload)
  moreover have "unat (payload s route ! 0) = nnodes s"
    using assms(2) by (simp add: payload_parts strengths_ok_def unat_of_int_u8)
  ultimately show thesis
    using that by simp
qed

section \<open>Sending and forwarding\<close>

lemma unicast_send_ok:
  assumes inv: "mac_inv ns nl nn np (mac R)" "links_ok R" "arrays_ok N R" and st: "started R"
  obtains r R' where "unicast_send R = Some (r, R')" "mr_inv ns nl nn np N R'" "mrp_data (mrp R') = mrp_data (mrp R)"
    "node_id R' = node_id R" "strengths R' = strengths R" "reports R' = reports R" "bestNode R' = bestNode R"
proof -
  define R0 where "R0 = (set_times R)\<lparr>mrp := (mrp (set_times R))\<lparr>mrp_flow_number := max_slot_frame_used R + 1\<rparr>\<rparr>"
  define R1 where "R1 = (upd_config (\<lambda>c. c\<lparr>max_tx := 1\<rparr>) R0)\<lparr>masternet_len := of_nat (minimal_routing_packet_size + actual_data_size)\<rparr>"
  have run: "unicast_send R = net_output (Some (getAddressByNodeID (uint (bestNode R)))) R1"
    by (simp add: unicast_send_def R0_def R1_def set_times_def upd_config_def Let_def)
  have R1: "mac R1 = mac R" "started R1" "mrp_ok (mrp R1)" "unat (masternet_len R1) \<le> 75"
    using st inv(3) by (simp_all add: R0_def R1_def set_times_def upd_config_def Let_def mrp_ok_def size_defs arrays_ok_def)
  have m1: "mac_inv ns nl nn np (mac R1)" and l1: "links_ok R1"
    using inv(1,2) R1(1) by (simp_all add: links_ok_def R0_def R1_def set_times_def upd_config_def Let_def discovery_def)
  obtain r m' where o: "net_output (Some (getAddressByNodeID (uint (bestNode R)))) R1 = Some (r, R1\<lparr>mac := m'\<rparr>)"
    "mac_inv ns nl nn np m'" "same_mac (mac R1) m'"
    "masternet_output (mac R1) (mrp_bytes (mrp R1)) (masternet_len R1) (Some (sent_packet_configuration R1))
       (Some (getAddressByNodeID (uint (bestNode R)))) = Some (r, m')"
    by (rule net_output_ok [OF m1 R1(2-4), of "Some (getAddressByNodeID (uint (bestNode R)))"]) simp_all
  have "mr_inv ns nl nn np N (R1\<lparr>mac := m'\<rparr>)"
    using o(2,3) inv(3) links_ok_same_mac [OF l1]
    by (simp add: mr_inv_def arrays_ok_def R0_def R1_def set_times_def upd_config_def Let_def mrp_ok_def)
  then show thesis
    by (rule that [OF run [unfolded o(1)]]) (simp_all add: R0_def R1_def set_times_def upd_config_def Let_def)
qed

lemma send_actual_data_ok:
  assumes inv: "mr_inv ns nl nn np N R" and st: "started R" and g: "65 \<le> length g" and best: "0 < bestNode R"
    and s: "strengths_ok (strengths R)" and room: "3 * nnodes (strengths R) + 3 \<le> 57"
  obtains R' a where "master_routing_send_actual_data g R = Some (1, R')" "mr_inv ns nl nn np N R'"
    "ad_of_bytes (mrp_data (mrp R')) = Some a" "message (strengths R) [ucast (node_id R)] a"
proof -
  let ?s = "strengths R" and ?n = "1 + 3 * nnodes (strengths R)" and ?d = "take 57 (drop 8 g)"
  have l: "length ?d = 57"
    using g by simp
  define e where "e = concat (map (strength_entry ?s) [1 .. highestNodeID ?s])"
  have le: "length e = 3 * nnodes ?s"
    by (simp add: e_def length_entries)
  have p: "prepareStrengthVectorToSend ?s ?d = Some (of_int (highestNodeID ?s) # e @ drop ?n ?d, of_nat ?n)"
    using prepare_spec [of ?s ?d] s l room by (simp add: strengths_ok_def e_def)
  have n: "unat (of_nat ?n :: u8) = ?n"
    by (rule unat_of_nat_u8) (use room in simp)
  define data where "data = (of_int (highestNodeID ?s) # e @ drop ?n ?d)[?n := 1, ?n + 1 := ucast (node_id R)]"
  define a where "a = \<lparr>ad_dummy = take 8 g, ad_packet_type = PACKET_TYPE_ACTUAL_DATA, ad_nodeId = ucast (node_id R),
      ad_dataLen = of_nat ?n + 2, ad_data = data\<rparr>"
  have ld: "length data = 57"
    using l le room by (simp add: data_def)
  have a: "ad_ok a"
    using ld g by (simp add: ad_ok_def a_def size_defs)
  have payload: "payload ?s [ucast (node_id R)] = of_int (highestNodeID ?s) # e @ [1, ucast (node_id R)]"
    by (simp add: payload_def e_def)
  have "take (?n + 2) data = payload ?s [ucast (node_id R)]"
  proof (rule nth_equalityI)
    show "length (take (?n + 2) data) = length (payload ?s [ucast (node_id R)])"
      using ld room by (simp add: length_payload)
    fix i
    assume "i < length (take (?n + 2) data)"
    then have i: "i < ?n + 2" "i < 57"
      using ld by simp_all
    have nth: "(of_int (highestNodeID ?s) # e @ drop ?n ?d) ! i = payload ?s [ucast (node_id R)] ! i" if "i < ?n"
      using that le by (cases i) (simp_all add: payload nth_append)
    have t: "take (?n + 2) data ! i = data ! i"
      by (rule nth_take [OF i(1)])
    consider "i < ?n" | "i = ?n" | "i = ?n + 1"
      using i by linarith
    then show "take (?n + 2) data ! i = payload ?s [ucast (node_id R)] ! i"
    proof cases
      case 1
      then have "?n \<noteq> i" "?n + 1 \<noteq> i"
        by linarith+
      with nth [OF 1] t show ?thesis
        by (simp only: data_def nth_list_update_neq not_False_eq_True)
    qed (use le l room t in \<open>simp_all add: data_def payload nth_append\<close>)
  qed
  then have msg: "message ?s [ucast (node_id R)] a"
    using a room by (simp add: message_def length_payload) (simp add: a_def)
  have ar: "arrays_ok N R"
    using inv by (simp add: mr_inv_def)
  define R1 where "R1 = R\<lparr>mrp := (mrp R)\<lparr>mrp_data := ad_bytes a\<rparr>\<rparr>"
  have R1: "mac_inv ns nl nn np (mac R1)" "links_ok R1" "arrays_ok N R1" "started R1"
    using inv st store_ad(2) [of "mrp R" a] a by (simp_all add: mr_inv_def arrays_ok_def links_ok_def discovery_def R1_def mrp_ok_def)
  obtain r R' where u: "unicast_send R1 = Some (r, R')" "mr_inv ns nl nn np N R'" "mrp_data (mrp R') = mrp_data (mrp R1)"
    by (rule unicast_send_ok [OF R1(1-3) R1(4)])
  have "master_routing_send_actual_data g R = Some (1, R')"
    using best p n room l le u(1) store_ad(1) [of "mrp R" a] a ar
    by (simp add: master_routing_send_actual_data_def wr_in arrays_ok_def size_defs flip: data_def)
      (simp add: a_def R1_def data_def)
  then show thesis
    by (rule that [OF _ u(2) _ msg]) (use u(3) ad_format.dec_enc [OF a] in \<open>simp add: R1_def\<close>)
qed
lemma wr_i_int: "wr_i xs (int k) v = wr xs k v"
  by (simp add: wr_i_def)

lemma append_ok:
  assumes m: "message s route a" and s: "strengths_ok s" and room: "length (payload s route) < 57"
  obtains a' where "append_to_route node a = Some a'" "message s (route @ [ucast node]) a'"
proof -
  let ?n = "1 + 3 * nnodes s" and ?l = "length (payload s route)"
  obtain k where k: "rd (ad_data a) 0 = Some k" "unat k * 3 + 1 = ?n"
    by (rule message_count [OF m s])
  have "?n < length (payload s route)"
    by (simp add: length_payload)
  from message_nth(1) [OF m this] have c: "rd (ad_data a) ?n = Some (of_nat (length route))"
    by (simp only: payload_parts)
  have r: "unat (of_nat (length route) + 1 :: u8) = length route + 1"
    using room unat_of_nat_u8 [of "length route + 1"] by (simp add: length_payload add.commute)
  have len: "length (ad_data a) = 57"
    using m by (simp add: message_def ad_ok_def size_defs)
  define data where "data = (ad_data a)[?n := of_nat (length route) + 1, ?l := ucast node]"
  define a' where "a' = a\<lparr>ad_data := data, ad_dataLen := ad_dataLen a + 1\<rparr>"
  have last: "int ?n + 1 + (int (unat (of_nat (length route) + 1 :: u8)) - 1) = int ?l"
    by (simp add: r length_payload)
  have w: "wr (ad_data a) ?n (of_nat (length route) + 1) = Some ((ad_data a)[?n := of_nat (length route) + 1])"
    "wr_i ((ad_data a)[?n := of_nat (length route) + 1]) (int ?l) (ucast node) = Some data"
    unfolding wr_i_int using len room by (simp_all add: wr_in data_def length_payload)
  have "append_to_route node a = Some a'"
    by (simp only: append_to_route_def k Let_def bind.bind_lunit c w last a'_def)
  moreover have "message s (route @ [ucast node]) a'"
  proof -
    have "take (?l + 1) data = payload s (route @ [ucast node])"
    proof (rule nth_equalityI)
      show "length (take (?l + 1) data) = length (payload s (route @ [ucast node]))"
        using len room by (simp add: data_def length_payload)
      fix i
      assume "i < length (take (?l + 1) data)"
      then have i: "i < ?l + 1" "i < 57"
        using len by (simp_all add: data_def)
      have t: "take (?l + 1) data ! i = data ! i"
        by (rule nth_take [OF i(1)])
      have le: "length (concat (map (strength_entry s) [1 .. highestNodeID s])) = 3 * nnodes s"
        by (simp add: length_entries)
      have old: "ad_data a ! i = payload s route ! i" if "i < ?l"
        using message_nth(1) [OF m that] message_nth(2) [OF m that] by (simp add: rd_in)
      consider "i = ?n" | "i = ?l" | "i < ?l" "i \<noteq> ?n"
        using i by linarith
      then show "take (?l + 1) data ! i = payload s (route @ [ucast node]) ! i"
      proof cases
        case 1
        with len room t le show ?thesis
          by (simp add: data_def length_payload payload_def nth_append)
      next
        case 2
        with len room t le show ?thesis
          by (simp add: data_def length_payload payload_def nth_append)
      next
        case 3
        then have "payload s route ! i = payload s (route @ [ucast node]) ! i"
          using le by (auto simp: payload_def length_payload nth_append nth_Cons split: nat.splits)
        with 3 t old show ?thesis
          by (simp add: data_def)
      qed
    qed
    moreover have "length (payload s (route @ [ucast node])) = ?l + 1"
      by (simp add: length_payload)
    ultimately show ?thesis
      using m room len by (simp add: message_def a'_def ad_ok_def data_def size_defs)
  qed
  ultimately show thesis
    by (rule that)
qed

lemma forward_ok:
  assumes inv: "mr_inv ns nl nn np N R" and st: "started R" "node_id R \<noteq> 1"
    and m: "message s route a" "strengths_ok s" "length (payload s route) < 57"
  obtains R' a' where "on_received_actual_data g a R = Some R'" "mr_inv ns nl nn np N R'"
    "ad_of_bytes (mrp_data (mrp R')) = Some a'" "message s (route @ [ucast (node_id R)]) a'"
proof -
  obtain a' where a': "append_to_route (node_id R) a = Some a'" "message s (route @ [ucast (node_id R)]) a'"
    by (rule append_ok [OF m])
  then have ok: "ad_ok a'"
    by (simp add: message_def)
  have p: "mrp_ok (mrp R)"
    using inv by (simp add: mr_inv_def arrays_ok_def)
  define R1 where "R1 = R\<lparr>mrp := (mrp R)\<lparr>mrp_data := ad_bytes a'\<rparr>\<rparr>"
  have R1: "mac_inv ns nl nn np (mac R1)" "links_ok R1" "arrays_ok N R1" "started R1"
    using inv st store_ad(2) [OF p ok] by (simp_all add: mr_inv_def arrays_ok_def links_ok_def discovery_def R1_def mrp_ok_def)
  obtain r R' where u: "unicast_send R1 = Some (r, R')" "mr_inv ns nl nn np N R'" "mrp_data (mrp R') = mrp_data (mrp R1)"
    by (rule unicast_send_ok [OF R1(1-3) R1(4)])
  have "on_received_actual_data g a R = Some R'"
    using st(2) a'(1) store_ad(1) [OF p ok] u(1) by (simp add: on_received_actual_data_def R1_def)
  then show thesis
    by (rule that [OF _ u(2) _ a'(2)]) (use u(3) ad_format.dec_enc [OF ok] in \<open>simp add: R1_def\<close>)
qed

text \<open>The nodes on the way, in order; each receives what the one before it has put into its packet.\<close>

fun relay_all :: "u8 list \<Rightarrow> master_routing list \<Rightarrow> actual_data \<Rightarrow> actual_data option" where
  "relay_all g [] a = Some a"
| "relay_all g (R # Rs) a = do {
     R' \<leftarrow> on_received_actual_data g a R;
     a \<leftarrow> ad_of_bytes (mrp_data (mrp R'));
     relay_all g Rs a
   }"

definition router :: "master_routing \<Rightarrow> bool" where
  "router R \<longleftrightarrow> (\<exists>ns nl nn np N. mr_inv ns nl nn np N R) \<and> started R \<and> node_id R \<noteq> 1"

lemma relay_all_ok:
  "\<forall>R \<in> set Rs. router R \<Longrightarrow> message s route a \<Longrightarrow> strengths_ok s \<Longrightarrow> length (payload s route) + length Rs \<le> 57 \<Longrightarrow>
   \<exists>a'. relay_all g Rs a = Some a' \<and> message s (route @ map (\<lambda>R. ucast (node_id R)) Rs) a'"
proof (induction Rs arbitrary: a route)
  case (Cons R Rs)
  then obtain ns nl nn np N where inv: "mr_inv ns nl nn np N R" and st: "started R" "node_id R \<noteq> 1"
    by (auto simp: router_def)
  obtain R' a' where a': "on_received_actual_data g a R = Some R'" "ad_of_bytes (mrp_data (mrp R')) = Some a'"
    "message s (route @ [ucast (node_id R)]) a'"
    by (rule forward_ok [OF inv st Cons.prems(2,3)]) (use Cons.prems(4) in simp_all)
  from Cons.IH [OF _ a'(3) Cons.prems(3)] Cons.prems(1,4) a'(1,2) show ?case
    by (auto simp: length_payload)
qed simp

section \<open>The collector\<close>

lemma read_strengths_ok:
  assumes "\<And>k. k < n \<Longrightarrow> rd data (1 + 3 * (k + j)) = Some (f k)" "\<And>k. k < n \<Longrightarrow> rd_n data (2 + 3 * (k + j)) 2 = Some (le16 (v k))"
  shows "read_strengths data (map (\<lambda>k. 1 + 3 * (k + j)) [0 ..< n]) = Some (map (\<lambda>k. (f k, read_value (unat (v k)))) [0 ..< n])"
  using assms
proof (induction n arbitrary: j f v)
  case (Suc n)
  have "read_strengths data (map (\<lambda>k. 1 + 3 * (k + Suc j)) [0 ..< n]) = Some (map (\<lambda>k. (f (Suc k), read_value (unat (v (Suc k))))) [0 ..< n])"
    using Suc.prems(1) [of "Suc k" for k] Suc.prems(2) [of "Suc k" for k] by (intro Suc.IH) simp_all
  then show ?case
    using Suc.prems(1) [of 0] Suc.prems(2) [of 0]
    by (simp add: upt_conv_Cons map_Suc_upt [symmetric] comp_def del: upt_Suc)
qed simp

lemma nth_concat_entries:
  "k < length xs \<Longrightarrow> take 3 (drop (3 * k) (concat (map (strength_entry s) xs))) = strength_entry s (xs ! k)"
proof (induction xs arbitrary: k)
  case (Cons x xs)
  have l: "length (strength_entry s x) = 3"
    by (simp add: strength_entry_def)
  show ?case
    using Cons l by (cases k) simp_all
qed simp
lemma rd_n_3: "rd_n xs i 3 = Some (x # ys) \<Longrightarrow> rd xs i = Some x \<and> rd_n xs (i + 1) 2 = Some ys"
  by (auto simp: rd_n_def rd_def numeral_3_eq_3 numeral_2_eq_2 take_Suc_conv_app_nth split: if_splits)

text \<open>The strengths that the collector reads, and what they are at the sender.\<close>

definition read_back :: "strengths \<Rightarrow> (u8 \<times> float32) list" where
  "read_back s = map (\<lambda>i. (of_int i, read_value (sent_value (strength_vector s ! nat i)))) [1 .. highestNodeID s]"

lemma message_strengths:
  assumes m: "message s route a" and s: "strengths_ok s"
  shows "read_strengths (ad_data a) (strength_positions (nnodes s)) = Some (read_back s)"
proof -
  let ?n = "nnodes s"
  define v where "v k = (of_nat (sent_value (strength_vector s ! (k + 1))) :: u16)" for k
  have entry: "rd_n (ad_data a) (1 + 3 * k) 3 = Some (of_nat (k + 1) # le16 (v k))" if k: "k < ?n" for k
  proof -
    have "rd_n (ad_data a) (1 + 3 * k) 3 = Some (take 3 (drop (1 + 3 * k) (payload s route)))"
      by (rule message_slice [OF m]) (use k in \<open>simp add: length_payload\<close>)
    also have "take 3 (drop (1 + 3 * k) (payload s route)) = take 3 (drop (3 * k) (take (3 * ?n) (drop 1 (payload s route))))"
      using k by (simp add: drop_take min_def add.commute)
    also have "\<dots> = strength_entry s ([1 .. highestNodeID s] ! k)"
      unfolding payload_parts by (rule nth_concat_entries) (use k in simp)
    also have "[1 .. highestNodeID s] ! k = int (k + 1)"
      using k by (subst nth_upto) simp_all
    finally show ?thesis
      by (simp add: strength_entry_def v_def nat_add_distrib)
  qed
  have "unat (v k) = sent_value (strength_vector s ! (k + 1))" if "k < ?n" for k
  proof -
    have "unit_strength (strength_vector s ! (k + 1))"
      using s that bspec [of "{1 .. highestNodeID s}" "\<lambda>i. unit_strength (strength_vector s ! nat i)" "int (k + 1)"]
      by (simp add: strengths_ok_def nat_add_distrib)
    then have "sent_value (strength_vector s ! (k + 1)) \<le> 10001"
      by (rule sent_value_error(2))
    then show ?thesis
      by (simp add: v_def unsigned_of_nat take_bit_nat_eq_self)
  qed
  then have "read_strengths (ad_data a) (map (\<lambda>k. 1 + 3 * (k + 0)) [0 ..< ?n])
      = Some (map (\<lambda>k. (of_nat (k + 1), read_value (unat (v k)))) [0 ..< ?n])"
    using rd_n_3 [OF entry] by (intro read_strengths_ok) simp_all
  moreover have "map (\<lambda>k. (of_nat (k + 1) :: u8, read_value (unat (v k)))) [0 ..< ?n] = read_back s"
  proof (rule nth_equalityI)
    fix k
    assume "k < length (map (\<lambda>k. (of_nat (k + 1) :: u8, read_value (unat (v k)))) [0 ..< ?n])"
    then have k: "k < ?n"
      by simp
    then have "[1 .. highestNodeID s] ! k = int (k + 1)"
      by (subst nth_upto) simp_all
    with k show "map (\<lambda>k. (of_nat (k + 1) :: u8, read_value (unat (v k)))) [0 ..< ?n] ! k = read_back s ! k"
      using \<open>\<And>k. k < ?n \<Longrightarrow> unat (v k) = _\<close> by (simp add: read_back_def nat_add_distrib)
  qed (simp add: read_back_def)
  ultimately show ?thesis
    by (simp add: strength_positions_def)
qed

lemma collect_ok:
  assumes m: "message s route a" and s: "strengths_ok s" and route: "route \<noteq> []" and g: "68 \<le> length g"
  shows "collect_actual_data g a R = collect_from (hd route)
    (R\<lparr>reports := reports R @ [Route route (node_id R), Strengths (hd route) (read_back s)]\<rparr>)"
proof -
  let ?p = "payload s route" and ?n = "1 + 3 * nnodes s"
  have l: "length ?p \<le> 57" "length ?p = 3 * nnodes s + 2 + length route"
    using m by (simp_all add: message_def length_payload)
  have dl: "unat (ad_dataLen a) = length ?p"
    using m l(1) by (simp add: message_def unat_of_nat_u8)
  have bs: "rd_n (ad_data a) 0 (length ?p) = Some ?p"
    using message_slice [OF m, of 0 "length ?p"] by simp
  define buffer where "buffer = ?p @ drop (length ?p) (take 68 g)"
  have w: "wr_n (take MASTER_MSG_LENGTH g) 0 ?p = Some buffer"
    using g l(1) by (simp add: wr_n_def buffer_def size_defs)
  obtain k where k: "rd (ad_data a) 0 = Some k" "unat k * 3 + 1 = ?n" "unat k = nnodes s"
    by (rule message_count [OF m s])
  have c: "rd buffer ?n = Some (of_nat (length route))"
  proof -
    have "buffer ! ?n = ?p ! ?n"
      using l by (simp only: buffer_def nth_append) simp
    then show ?thesis
      using l by (simp only: payload_parts(2) rd_def) (simp add: buffer_def)
  qed
  have r: "rd_n buffer (?n + 1) (unat (of_nat (length route) :: u8)) = Some route"
  proof -
    have "unat (of_nat (length route) :: u8) = length route"
      by (rule unat_of_nat_u8) (use l in simp)
    moreover have "drop (?n + 1) ?p = route"
      using payload_parts(3) [of s route] by (simp add: numeral_2_eq_2)
    moreover have "take (length route) (drop (?n + 1) buffer) = take (length route) (drop (?n + 1) ?p)"
      using l by (simp add: buffer_def)
    moreover have "?n + 1 + length route \<le> length buffer"
      using l by (simp add: buffer_def)
    ultimately show ?thesis
      by (simp only: rd_n_in take_all order_refl)
  qed
  have f: "rd (ad_data a) (?n + 1) = Some (hd route)"
  proof -
    have i: "?n + 1 < length ?p"
      using l route by (cases route) simp_all
    have "drop (?n + 1) ?p = route"
      using payload_parts(3) [of s route] by (simp add: numeral_2_eq_2)
    then have "?p ! (?n + 1) = hd route"
      using i by (metis hd_drop_conv_nth)
    with message_nth(1) [OF m i] show ?thesis
      by simp
  qed
  have ss: "read_strengths (ad_data a) (strength_positions (unat k)) = Some (read_back s)"
    by (simp add: k(3) message_strengths [OF m s])
  show ?thesis
    by (simp only: collect_actual_data_def dl bs w k(1,2) Let_def bind.bind_lunit c r f ss)
qed
section \<open>Who has been heard\<close>

text \<open>\<open>S\<close> are the nodes heard since the collection last became complete.\<close>

definition tracker_ok :: "nat \<Rightarrow> nat set \<Rightarrow> master_routing \<Rightarrow> bool" where
  "tracker_ok N S R \<longleftrightarrow> 2 \<le> N \<and> N < 255 \<and> S \<subset> {2 .. N} \<and> length (node_rcvd_tracker R) = N + 1 \<and> unat (deployment_node_count R) = N
     \<and> (\<forall>j \<le> N. node_rcvd_tracker R ! j \<noteq> 0 \<longleftrightarrow> j \<in> S) \<and> unat (rcvd_actual_data_counter R) = card S"

lemma clear_tracker_spec: "k \<le> length tr \<Longrightarrow> clear_tracker k tr = Some (replicate k 0 @ drop k tr)"
proof (induction k arbitrary: tr)
  case (Suc k)
  then have "clear_tracker (Suc k) tr = clear_tracker k (tr[k := 0])"
    by (simp add: wr_in)
  also have "\<dots> = Some (replicate k 0 @ drop k (tr[k := 0]))"
    using Suc by simp
  also have "drop k (tr[k := 0]) = 0 # drop (Suc k) tr"
    using Suc.prems Cons_nth_drop_Suc [of k "tr[k := 0]"] by simp
  finally show ?case
    by (simp add: replicate_append_same [symmetric])
qed simp

lemma psubset_card_N:
  assumes "S \<subset> {2 .. N}"
  shows "finite S" "card S < N - 1"
proof -
  show "finite S"
    using assms by (meson finite_atLeastAtMost finite_subset psubset_imp_subset)
  show "card S < N - 1"
    using psubset_card_mono [OF _ assms] by simp
qed

lemma collect_from_ok:
  assumes R: "tracker_ok N S R" and i: "2 \<le> unat i" "unat i \<le> N"
  obtains R' where "collect_from i R = Some R'" "node_id R' = node_id R"
    "if insert (unat i) S = {2 .. N} then reports R' = reports R @ [All_collected] \<and> tracker_ok N {} R'
     else reports R' = reports R \<and> tracker_ok N (insert (unat i) S) R'"
proof -
  let ?i = "unat i" and ?tr = "node_rcvd_tracker R"
  have N: "2 \<le> N" "N < 255" "length ?tr = N + 1" "unat (deployment_node_count R) = N" "S \<subset> {2 .. N}"
    and tr: "\<And>j. j \<le> N \<Longrightarrow> ?tr ! j \<noteq> 0 \<longleftrightarrow> j \<in> S" and c: "unat (rcvd_actual_data_counter R) = card S"
    using R by (simp_all add: tracker_ok_def)
  note S = psubset_card_N [OF N(5)]
  have seen: "rd ?tr ?i = Some (?tr ! ?i)"
    using N i by (simp add: rd_in)
  show thesis
  proof (cases "?i \<in> S")
    case True
    then have "collect_from i R = Some R"
      using seen tr [of ?i] i by (simp add: collect_from_def)
    moreover have "insert ?i S \<noteq> {2 .. N}"
      using insert_absorb [OF True] N(5) by auto
    ultimately show thesis
      using that [of R] True R by (simp add: insert_absorb)
  next
    case False
    let ?c = "rcvd_actual_data_counter R + 1" and ?tr' = "?tr[?i := 1]"
    have c': "unat ?c = card (insert ?i S)"
      using c S False N by (simp add: unat_word_ariths(1))
    have all: "insert ?i S = {2 .. N} \<longleftrightarrow> card (insert ?i S) = N - 1"
      using N i S(1) card_subset_eq [of "{2 .. N}" "insert ?i S"] by auto
    have sub: "insert ?i S \<subseteq> {2 .. N}"
      using N i by auto
    define R1 where "R1 = R\<lparr>rcvd_actual_data_counter := ?c, node_rcvd_tracker := ?tr'\<rparr>"
    have tr': "?tr' ! j \<noteq> 0 \<longleftrightarrow> j \<in> insert ?i S" if "j \<le> N" for j
      using tr [OF that] that N(3) i by (simp add: nth_list_update)
    have cmp: "int (unat ?c) = int (unat (deployment_node_count R)) - 1 \<longleftrightarrow> insert ?i S = {2 .. N}"
      unfolding N(4) using all c' N(1) by linarith
    have unseen: "?tr ! ?i = 0"
      using tr [of ?i] False i by simp
    have clear: "clear_tracker (N + 1) ?tr' = Some (replicate (N + 1) 0)"
      using clear_tracker_spec [of "N + 1" ?tr'] N(3) by simp
    have "collect_from i R = (if int (unat ?c) = int (unat (deployment_node_count R)) - 1
        then do { tr \<leftarrow> clear_tracker (unat (deployment_node_count R) + 1) ?tr';
               Some (R1\<lparr>reports := reports R @ [All_collected], node_rcvd_tracker := tr, rcvd_actual_data_counter := 0\<rparr>) }
        else Some R1)"
      using seen unseen by (simp add: collect_from_def R1_def Let_def)
    then have run: "collect_from i R = (if insert ?i S = {2 .. N}
        then Some (R1\<lparr>reports := reports R @ [All_collected], node_rcvd_tracker := replicate (N + 1) 0, rcvd_actual_data_counter := 0\<rparr>) else Some R1)"
      unfolding cmp by (simp only: N(4) clear bind.bind_lunit)
    show thesis
    proof (cases "insert ?i S = {2 .. N}")
      case True
      have "{} \<subset> {2 .. N}"
        using N by auto
      with True run that show thesis
        using N by (simp add: R1_def tracker_ok_def nth_Cons split: nat.splits)
    next
      case notall: False
      have "tracker_ok N (insert ?i S) R1"
        using N c' tr' sub notall by (auto simp: tracker_ok_def R1_def)
      with notall run that [of R1] show thesis
        by (simp add: R1_def)
    qed
  qed
qed

section \<open>From the sender to the collector\<close>

lemma read_back_accurate:
  assumes "strengths_ok s" "k < nnodes s"
  shows "fst (read_back s ! k) = of_nat (k + 1)"
    "\<bar>fl_val (snd (read_back s ! k)) - fl_val (strength_vector s ! (k + 1))\<bar> \<le> 1 / 10000 + 1 / 2 ^ 22"
proof -
  have k: "[1 .. highestNodeID s] ! k = int (k + 1)"
    using assms(2) by (subst nth_upto) simp_all
  with assms(2) have r: "read_back s ! k = (of_nat (k + 1), read_value (sent_value (strength_vector s ! (k + 1))))"
    by (simp add: read_back_def nat_add_distrib)
  then show "fst (read_back s ! k) = of_nat (k + 1)"
    by simp
  have "unit_strength (strength_vector s ! (k + 1))"
    using assms bspec [of "{1 .. highestNodeID s}" "\<lambda>i. unit_strength (strength_vector s ! nat i)" "int (k + 1)"]
    by (simp add: strengths_ok_def nat_add_distrib)
  from read_value_error [OF this] r
  show "\<bar>fl_val (snd (read_back s ! k)) - fl_val (strength_vector s ! (k + 1))\<bar> \<le> 1 / 10000 + 1 / 2 ^ 22"
    by simp
qed

lemma collector_reports:
  assumes m: "message s route a" "strengths_ok s" "route \<noteq> []" "68 \<le> length g" and C: "tracker_ok N S C" "node_id C = 1"
    and i: "2 \<le> unat (hd route)" "unat (hd route) \<le> N"
  obtains C' where "on_received_actual_data g a C = Some C'"
    "take (length (reports C) + 2) (reports C') = reports C @ [Route route 1, Strengths (hd route) (read_back s)]"
proof -
  define C1 where "C1 = C\<lparr>reports := reports C @ [Route route (node_id C), Strengths (hd route) (read_back s)]\<rparr>"
  have "tracker_ok N S C1"
    using C(1) by (simp add: tracker_ok_def C1_def)
  from collect_from_ok [OF this i] obtain C' where C': "collect_from (hd route) C1 = Some C'"
    "if insert (unat (hd route)) S = {2 .. N} then reports C' = reports C1 @ [All_collected] \<and> tracker_ok N {} C'
     else reports C' = reports C1 \<and> tracker_ok N (insert (unat (hd route)) S) C'"
    by metis
  have "on_received_actual_data g a C = Some C'"
    using collect_ok [OF m, of C] C'(1) C(2) by (simp add: on_received_actual_data_def C1_def)
  moreover have "take (length (reports C) + 2) (reports C') = reports C1"
    using C'(2) by (auto simp: C1_def split: if_splits)
  ultimately show thesis
    using that C(2) by (simp add: C1_def)
qed

text \<open>
  C2. The strengths of a node reach the collector.  Node \<open>R\<close> sends its strengths, each of the routers \<open>Rs\<close> in turn receives what the
  one before has sent and passes it on, and the collector \<open>C\<close> gets what the last one has sent; if the strengths of all nodes and
  the route fit into the 57 bytes of data, the collector prints the route that the message took and the sender's strength for every node,
  exact up to the rounding to four digits.
\<close>

theorem strengths_reach_collector:
  assumes "mr_inv ns nl nn np M R" "started R" "0 < bestNode R" "strengths_ok (strengths R)" "68 \<le> length g"
    and "\<forall>Q \<in> set Rs. router Q" "3 * nnodes (strengths R) + 3 + length Rs \<le> 57"
    and "tracker_ok N S C" "node_id C = 1" "2 \<le> unat (node_id R)" "unat (node_id R) \<le> N"
  shows "\<exists>R' a a' C' ss. master_routing_send_actual_data g R = Some (1, R') \<and> ad_of_bytes (mrp_data (mrp R')) = Some a
    \<and> relay_all g Rs a = Some a' \<and> on_received_actual_data g a' C = Some C'
    \<and> take (length (reports C) + 2) (reports C') = reports C @ [Route (map (\<lambda>Q. ucast (node_id Q)) (R # Rs)) 1, Strengths (ucast (node_id R)) ss]
    \<and> length ss = nnodes (strengths R)
    \<and> (\<forall>k < length ss. fst (ss ! k) = of_nat (k + 1)
         \<and> \<bar>fl_val (snd (ss ! k)) - fl_val (strength_vector (strengths R) ! (k + 1))\<bar> \<le> 1 / 10000 + 1 / 2 ^ 22)"
proof -
  let ?s = "strengths R" and ?i = "ucast (node_id R) :: u8"
  obtain R' a where R': "master_routing_send_actual_data g R = Some (1, R')" "ad_of_bytes (mrp_data (mrp R')) = Some a"
    and m: "message ?s [?i] a"
    by (rule send_actual_data_ok [OF assms(1,2) _ assms(3,4), of g]) (use assms(5,7) in simp_all)
  have "length (payload ?s [?i]) + length Rs \<le> 57"
    using assms(7) by (simp add: length_payload)
  from relay_all_ok [OF assms(6) m assms(4) this] obtain a' where a': "relay_all g Rs a = Some a'"
    "message ?s (map (\<lambda>Q. ucast (node_id Q)) (R # Rs)) a'"
    by auto
  have "unat ?i = unat (node_id R)"
    using assms(8,11) by (simp add: tracker_ok_def unat_u16_u8)
  then obtain C' where "on_received_actual_data g a' C = Some C'"
    "take (length (reports C) + 2) (reports C') = reports C @ [Route (map (\<lambda>Q. ucast (node_id Q)) (R # Rs)) 1, Strengths ?i (read_back ?s)]"
    using collector_reports [OF a'(2) assms(4) _ assms(5,8,9)] assms(10,11) by auto
  moreover have "length (read_back ?s) = nnodes ?s"
    by (simp add: read_back_def)
  ultimately show ?thesis
    using R' a'(1) read_back_accurate [OF assms(4)] by (intro exI [of _ R'] exI [of _ a] exI [of _ a'] exI [of _ C'] exI [of _ "read_back ?s"]) simp
qed

theorem strengths_reach_collector_witness:
  "\<exists>w R' a a' C' ss. length w = 30 \<and> master_routing_send_actual_data (replicate 68 0) ((mr_example 4 w)\<lparr>bestNode := 3\<rparr>) = Some (1, R')
    \<and> ad_of_bytes (mrp_data (mrp R')) = Some a
    \<and> relay_all (replicate 68 0) [(mr_example 3 w)\<lparr>bestNode := 2\<rparr>, mr_example 2 w] a = Some a'
    \<and> on_received_actual_data (replicate 68 0) a' (mr_example 1 w) = Some C'
    \<and> take 2 (reports C') = [Route [4, 3, 2] 1, Strengths 4 ss] \<and> \<bar>fl_val (snd (ss ! 0)) - 1 / 2\<bar> \<le> 1 / 10000 + 1 / 2 ^ 22"
proof -
  let ?w = "replicate 30 (0x3F000000 :: float32)" and ?g = "replicate 68 (0 :: u8)"
  let ?R = "(mr_example 4 ?w)\<lparr>bestNode := 3\<rparr>" and ?Rs = "[(mr_example 3 ?w)\<lparr>bestNode := 2\<rparr>, mr_example 2 ?w]" and ?C = "mr_example 1 ?w"
  have inv: "mr_inv 7 8 12 8 5 (mr_example i ?w)" if "i \<in> {1, 2, 3, 4, 5}" for i
    by (rule mr_example_inv) (use that in simp_all)
  have inv': "mr_inv 7 8 12 8 5 ((mr_example i ?w)\<lparr>bestNode := b\<rparr>)" if "i \<in> {1, 2, 3, 4, 5}" for i b
    using inv [OF that] by (simp add: mr_inv_def arrays_ok_def links_ok_def discovery_def)
  have half: "fl_val (0x3F000000) = 1 / 2" "unit_strength (0x3F000000)"
    by (simp_all add: unit_strength_def fl_val_def fl_frac_def fl_exp_def fl_mant_def scaled_def Let_def)
  have s: "strengths_ok (strengths ?R)"
    using half(2) by (auto simp: strengths_ok_def mr_example_fields)
  have routers: "\<forall>Q \<in> set ?Rs. router Q"
  proof -
    have "router ((mr_example 3 ?w)\<lparr>bestNode := 2\<rparr>)"
      unfolding router_def using inv' [of 3 2] by (intro conjI exI) (simp_all add: mr_example_fields)
    moreover have "router (mr_example 2 ?w)"
      unfolding router_def using inv [of 2] by (intro conjI exI) (simp_all add: mr_example_fields)
    ultimately show ?thesis
      by simp
  qed
  have t: "tracker_ok 5 {} ?C"
    by (auto simp: tracker_ok_def mr_example_def nth_Cons')
  have R: "mr_inv 7 8 12 8 5 ?R"
    by (rule inv') simp
  have prem: "started ?R" "0 < bestNode ?R" "68 \<le> length ?g" "3 * nnodes (strengths ?R) + 3 + length ?Rs \<le> 57"
    "node_id ?C = 1" "2 \<le> unat (node_id ?R)" "unat (node_id ?R) \<le> 5"
    by (simp_all add: mr_example_fields)
  obtain R' a a' C' ss where *: "master_routing_send_actual_data ?g ?R = Some (1, R')" "ad_of_bytes (mrp_data (mrp R')) = Some a"
    "relay_all ?g ?Rs a = Some a'" "on_received_actual_data ?g a' ?C = Some C'"
    "take (length (reports ?C) + 2) (reports C') = reports ?C @ [Route (map (\<lambda>Q. ucast (node_id Q)) (?R # ?Rs)) 1, Strengths (ucast (node_id ?R)) ss]"
    "length ss = nnodes (strengths ?R)"
    "\<forall>k < length ss. fst (ss ! k) = of_nat (k + 1)
       \<and> \<bar>fl_val (snd (ss ! k)) - fl_val (strength_vector (strengths ?R) ! (k + 1))\<bar> \<le> 1 / 10000 + 1 / 2 ^ 22"
    using strengths_reach_collector [OF R prem(1,2) s prem(3) routers prem(4) t prem(5-7)]
    by (elim exE conjE) (rule that)
  have "\<bar>fl_val (snd (ss ! 0)) - 1 / 2\<bar> \<le> 1 / 10000 + 1 / 2 ^ 22"
    using *(6,7) half(1) by (simp add: mr_example_fields)
  moreover have "take 2 (reports C') = [Route [4, 3, 2] 1, Strengths 4 ss]"
    using *(5) by (simp add: mr_example_fields flip: numeral_2_eq_2)
  ultimately show ?thesis
    using *(1-4) by (intro exI [of _ ?w] exI [of _ R'] exI [of _ a] exI [of _ a'] exI [of _ C'] exI [of _ ss]) simp
qed

section \<open>Completion\<close>

fun collect_all :: "u8 list \<Rightarrow> master_routing \<Rightarrow> master_routing option" where
  "collect_all [] R = Some R"
| "collect_all (i # is) R = do { R \<leftarrow> collect_from i R; collect_all is R }"

text \<open>How often all nodes have been heard: the count starts again each time.\<close>

fun complete_rounds :: "nat \<Rightarrow> nat set \<Rightarrow> nat list \<Rightarrow> nat" where
  "complete_rounds N S [] = 0"
| "complete_rounds N S (i # is) =
     (if insert i S = {2 .. N} then 1 + complete_rounds N {} is else complete_rounds N (insert i S) is)"

text \<open>
  C8. The collector notices that it has everything.  Whatever the order in which messages come in and however often a node repeats
  its own, the collector reports completion exactly each time that every other node has been heard since the last report.
\<close>

theorem collection_complete:
  assumes "tracker_ok N S R" "\<forall>i \<in> set is'. 2 \<le> unat i \<and> unat i \<le> N"
  shows "\<exists>R' S'. collect_all is' R = Some R' \<and> tracker_ok N S' R'
    \<and> reports R' = reports R @ replicate (complete_rounds N S (map unat is')) All_collected"
  using assms
proof (induction is' arbitrary: S R)
  case (Cons i js)
  have i: "2 \<le> unat i" "unat i \<le> N" and js: "\<forall>i \<in> set js. 2 \<le> unat i \<and> unat i \<le> N"
    using Cons.prems(2) by simp_all
  obtain R1 where R1: "collect_from i R = Some R1" "node_id R1 = node_id R"
    "if insert (unat i) S = {2 .. N} then reports R1 = reports R @ [All_collected] \<and> tracker_ok N {} R1
     else reports R1 = reports R \<and> tracker_ok N (insert (unat i) S) R1"
    by (rule collect_from_ok [OF Cons.prems(1) i])
  show ?case
  proof (cases "insert (unat i) S = {2 .. N}")
    case True
    then have "tracker_ok N {} R1" "reports R1 = reports R @ [All_collected]"
      using R1(3) by simp_all
    with Cons.IH [OF this(1) js] R1(1) True show ?thesis
      by auto
  next
    case False
    then have "tracker_ok N (insert (unat i) S) R1" "reports R1 = reports R"
      using R1(3) by simp_all
    with Cons.IH [OF this(1) js] R1(1) False show ?thesis
      by auto
  qed
qed auto

theorem collection_complete_witness:
  "\<exists>R'. collect_all [3, 2, 3, 5, 4] (mr_example 1 (replicate 30 0)) = Some R' \<and> reports R' = [All_collected]"
proof -
  have t: "tracker_ok 5 {} (mr_example 1 (replicate 30 0))"
    by (auto simp: tracker_ok_def mr_example_def nth_Cons' )
  have "\<forall>i \<in> set [3, 2, 3, 5, 4 :: u8]. 2 \<le> unat i \<and> unat i \<le> 5"
    by simp
  from collection_complete [OF t this] obtain R' where R': "collect_all [3, 2, 3, 5, 4] (mr_example 1 (replicate 30 0)) = Some R'"
    "reports R' = reports (mr_example 1 (replicate 30 0)) @ replicate (complete_rounds 5 {} [3, 2, 3, 5, 4]) All_collected"
    by auto
  have "complete_rounds 5 {} [3, 2, 3, 5, 4] = 1"
    by code_simp
  with R' show ?thesis
    by (simp add: mr_example_def)
qed

section \<open>Messages that do not fit\<close>

lemma append_full:
  assumes m: "message s route a" and s: "strengths_ok s" and full: "length (payload s route) = 57"
  shows "append_to_route node a = None"
proof -
  let ?n = "1 + 3 * nnodes s"
  obtain k where k: "rd (ad_data a) 0 = Some k" "unat k * 3 + 1 = ?n"
    by (rule message_count [OF m s])
  have "?n < length (payload s route)"
    by (simp add: length_payload)
  from message_nth [OF m this] have c: "rd (ad_data a) ?n = Some (of_nat (length route))" "?n < length (ad_data a)"
    by (simp_all only: payload_parts)
  have len: "length (ad_data a) = 57"
    using m by (simp add: message_def ad_ok_def size_defs)
  have r: "unat (of_nat (length route) + 1 :: u8) = length route + 1"
    using full unat_of_nat_u8 [of "length route + 1"] by (simp add: length_payload add.commute)
  have last: "int ?n + 1 + (int (unat (of_nat (length route) + 1 :: u8)) - 1) = int 57"
    using full unfolding length_payload r by linarith
  have w: "wr (ad_data a) ?n v = Some ((ad_data a)[?n := v])" "wr_i ((ad_data a)[?n := v]) (int 57) x = None" for v x
    unfolding wr_i_int using len c(2) by (simp_all add: wr_in wr_out)
  show ?thesis
    by (simp only: append_to_route_def k Let_def bind.bind_lunit c w last bind.bind_lzero)
qed

text \<open>
  C28. The room for strengths.  A node that knows a best node sends its strengths if and only if the network has at most 18 nodes;
  with more, \<^verbatim>\<open>prepareStrengthVectorToSend\<close> writes behind the 57 bytes of data.
\<close>

theorem strengths_fit:
  assumes "mr_inv ns nl nn np N R" "started R" "0 < bestNode R" "strengths_ok (strengths R)" "65 \<le> length g"
  shows "master_routing_send_actual_data g R \<noteq> None \<longleftrightarrow> highestNodeID (strengths R) \<le> 18"
proof (cases "highestNodeID (strengths R) \<le> 18")
  case True
  then have "3 * nnodes (strengths R) + 3 \<le> 57"
    by linarith
  from send_actual_data_ok [OF assms(1,2,5,3,4) this] True show ?thesis
    by (metis option.distinct(1))
next
  case False
  then have "prepareStrengthVectorToSend (strengths R) (take 57 (drop 8 g)) = None"
    using assms(4) by (intro prepare_overflow) (auto simp: strengths_ok_def)
  with False assms(3) show ?thesis
    by (simp add: master_routing_send_actual_data_def size_defs)
qed

theorem strengths_fit_witness:
  "\<exists>s. highestNodeID s = 19
     \<and> master_routing_send_actual_data (replicate 65 0) ((mr_example 4 (replicate 30 0))\<lparr>bestNode := 3, strengths := s\<rparr>) = None"
proof -
  define s where "s = \<lparr>strength_vector = replicate 30 0, receivedCounter = replicate 30 0, highestSequence = 0, highestNodeID = 19\<rparr>"
  let ?R = "(mr_example 4 (replicate 30 0))\<lparr>bestNode := 3, strengths := s\<rparr>"
  have R: "mr_inv 7 8 12 8 5 ?R"
    using mr_example_inv [of "replicate 30 0" 4]
    by (simp add: mr_inv_def arrays_ok_def links_ok_def discovery_def s_def MAX_EXPECTED_NODES_IN_NETWORK_def)
  have s: "strengths_ok s" "highestNodeID s = 19"
    by (auto simp: s_def strengths_ok_def unit_strength_def nth_Cons')
  have "master_routing_send_actual_data (replicate 65 0) ?R \<noteq> None \<longleftrightarrow> highestNodeID (strengths ?R) \<le> 18"
    by (rule strengths_fit [OF R]) (use s in \<open>simp_all add: mr_example_fields\<close>)
  then have "master_routing_send_actual_data (replicate 65 0) ?R = None"
    using s(2) by (cases "master_routing_send_actual_data (replicate 65 0) ?R") simp_all
  with s(2) show ?thesis
    by blast
qed

text \<open>
  C29. The room for the route.  A node on the way passes a message on if and only if its data do not fill the 57 bytes yet; otherwise it
  writes its id behind them.
\<close>

theorem route_fits:
  assumes "router R" "message s route a" "strengths_ok s"
  shows "on_received_actual_data g a R \<noteq> None \<longleftrightarrow> 3 * nnodes s + 2 + length route < 57"
proof -
  obtain ns nl nn np N where R: "mr_inv ns nl nn np N R" "started R" "node_id R \<noteq> 1"
    using assms(1) by (auto simp: router_def)
  have l: "length (payload s route) \<le> 57"
    using assms(2) by (simp add: message_def)
  show ?thesis
  proof (cases "length (payload s route) < 57")
    case True
    from forward_ok [OF R(1-3) assms(2,3) True] True show ?thesis
      by (metis option.distinct(1) length_payload)
  next
    case False
    with l have "append_to_route (node_id R) a = None"
      by (intro append_full [OF assms(2,3)]) linarith
    then have "on_received_actual_data g a R = None"
      using R(3) by (simp add: on_received_actual_data_def)
    then show ?thesis
      using False by (simp only: length_payload simp_thms)
  qed
qed

theorem route_fits_witness:
  "\<exists>a. length (ad_data a) = 57 \<and> on_received_actual_data [] a (mr_example 2 (replicate 30 0)) = None"
proof -
  let ?s = "\<lparr>strength_vector = replicate 30 0, receivedCounter = replicate 30 0, highestSequence = 0, highestNodeID = 15\<rparr>"
  let ?route = "[3, 4, 5, 6, 7, 8, 9, 10, 11, 12 :: u8]"
  define a where "a = \<lparr>ad_dummy = replicate 8 0, ad_packet_type = PACKET_TYPE_ACTUAL_DATA, ad_nodeId = 3, ad_dataLen = 57, ad_data = payload ?s ?route\<rparr>"
  have l: "length (payload ?s ?route) = 57"
    by (simp only: length_payload) simp
  have s: "strengths_ok ?s"
    by (auto simp: strengths_ok_def unit_strength_def nth_Cons')
  have m: "message ?s ?route a"
    using l by (simp add: message_def a_def ad_ok_def size_defs)
  have "mr_inv 7 8 12 8 5 (mr_example 2 (replicate 30 0))"
    by (rule mr_example_inv) simp_all
  then have r: "router (mr_example 2 (replicate 30 0))"
    unfolding router_def by (intro conjI exI) (simp_all add: mr_example_fields)
  have "length (ad_data a) = 57"
    using l by (simp add: a_def)
  with route_fits [OF r m s, of "[]"] show ?thesis
    by auto
qed

end
