(* ===== verification/Master_Flows.thy ===== *)
theory Master_Flows
  imports Master_Packets
begin

text \<open>
  Application packets on the flows of the schedule: \<^verbatim>\<open>master_routing_send\<close> at the sender of a flow,
  \<^verbatim>\<open>master_routing_input\<close> at the nodes on the way and at its receiver.  The hash tables of the routing layer are used
  through the contract of \<open>Hash_Map\<close>: a table is the map \<open>hm_abs\<close>.
\<close>

section \<open>User packets\<close>

text \<open>
  The bytes of a packet of an application; \<^verbatim>\<open>master_routing_input\<close> takes the ninth byte of the data for a packet
  type, so it must not be one of the types of the routing layer.
\<close>

definition user_packet :: "routing_packet \<Rightarrow> bool" where
  "user_packet p \<longleftrightarrow> 9 \<le> length (mrp_data p) \<and> length (mrp_data p) \<le> MASTER_MSG_LENGTH
     \<and> mrp_data p ! 8 \<notin> {PACKET_TYPE_BEACON, PACKET_TYPE_ADVERTISEMENT, PACKET_TYPE_ACTUAL_DATA}"

definition packet_len :: "routing_packet \<Rightarrow> u16" where
  "packet_len p = of_nat (minimal_routing_packet_size + length (mrp_data p))"

text \<open>What is in \<^verbatim>\<open>mrp\<close> after the packet has been copied over \<open>m\<close>.\<close>

definition copied_over :: "routing_packet \<Rightarrow> routing_packet \<Rightarrow> routing_packet" where
  "copied_over p m = p\<lparr>mrp_data := mrp_data p @ drop (length (mrp_data p)) (mrp_data m)\<rparr>"

lemma unat_of_nat_u16: "k < 65536 \<Longrightarrow> unat (of_nat k :: u16) = k"
  by (simp add: unsigned_of_nat take_bit_nat_eq_self)

lemma user_packet_len:
  assumes "user_packet p"
  shows "unat (packet_len p) = 7 + length (mrp_data p)" "length (mrp_bytes p) = 7 + length (mrp_data p)"
    "16 \<le> 7 + length (mrp_data p)" "7 + length (mrp_data p) \<le> 75"
proof -
  have l: "9 \<le> length (mrp_data p)" "length (mrp_data p) \<le> 68"
    using assms by (simp_all add: user_packet_def size_defs)
  have "unat (of_nat (7 + length (mrp_data p)) :: u16) = 7 + length (mrp_data p)"
    by (rule unat_of_nat_u16) (use l in simp)
  then show "unat (packet_len p) = 7 + length (mrp_data p)"
    by (simp only: packet_len_def minimal_routing_packet_size_def)
qed (use assms in \<open>simp_all add: user_packet_def size_defs mrp_bytes_def\<close>)

lemma mrp_bytes_over:
  assumes "length (mrp_data p) \<le> length (mrp_data m)"
  shows "mrp_bytes p @ drop (7 + length (mrp_data p)) (mrp_bytes m) = mrp_bytes (copied_over p m)"
proof -
  have "mrp_bytes m = (mrp_flow_number m # le16 (mrp_packet_number m) @ le16 (mrp_ttl_slot_number m) @ le16 (mrp_earliest_tx_slot m)) @ mrp_data m"
    by (simp add: mrp_bytes_def)
  then have "drop (7 + length (mrp_data p)) (mrp_bytes m) = drop (length (mrp_data p)) (mrp_data m)"
    by (simp only: drop_append) simp
  then show ?thesis
    by (simp add: mrp_bytes_def copied_over_def)
qed

lemma user_packet_input:
  assumes p: "user_packet p" and g: "75 \<le> length g" and m: "mrp_ok (mrp R)"
  shows "master_routing_input g (mrp_bytes p) (packet_len p) R = flow_input (packet_len p) (R\<lparr>mrp := copied_over p (mrp R)\<rparr>)"
proof -
  note len = user_packet_len [OF p]
  have bs: "rd_n (mrp_bytes p) 0 (7 + length (mrp_data p)) = Some (mrp_bytes p)"
    by (simp add: rd_n_def len)
  define p' where "p' = p\<lparr>mrp_data := mrp_data p @ drop (7 + length (mrp_data p)) (take 75 g)\<rparr>"
  have ok: "mrp_ok p'" "mrp_ok (copied_over p (mrp R))"
    using p g m by (simp_all add: p'_def mrp_ok_def copied_over_def user_packet_def size_defs)
  have loc: "wr_n (take 75 g) 0 (mrp_bytes p) = Some (mrp_bytes p')"
    using len g by (simp add: wr_n_def) (simp add: p'_def mrp_bytes_def)
  have new: "wr_n (mrp_bytes (mrp R)) 0 (mrp_bytes p) = Some (mrp_bytes (copied_over p (mrp R)))"
    using len mrp_format.enc_width [OF m] mrp_bytes_over [of p "mrp R"] p m
    by (simp add: wr_n_def mrp_ok_def user_packet_def size_defs)
  have ty: "rd (mrp_data p') 8 = Some (mrp_data p ! 8)"
    using p by (simp add: p'_def user_packet_def rd_def nth_append)
  have b: "minimal_routing_packet_size \<le> unat (packet_len p) \<and> unat (packet_len p) \<le> maximal_routing_packet_size"
    using len by (simp add: size_defs)
  have max: "maximal_routing_packet_size = 75"
    by (simp add: size_defs)
  show ?thesis
    using p unfolding master_routing_input_def if_P [OF b] unfolding len(1) bs max
    by (simp add: loc new mrp_format.dec_enc [OF ok(1)] mrp_format.dec_enc [OF ok(2)] ty user_packet_def)
qed

section \<open>Duplicates\<close>

text \<open>The tables of flows: their sizes, and the number of the last packet of a flow that was accepted.\<close>

definition flows_ok :: "nat \<Rightarrow> master_routing \<Rightarrow> bool" where
  "flows_ok k R \<longleftrightarrow> hm_ok k (last_received_relayed_packet_of_flow R) \<and> hm_inv (forward_to R)"

definition last_of :: "master_routing \<Rightarrow> u8 \<Rightarrow> u16" where
  "last_of R f = (case hm_abs (last_received_relayed_packet_of_flow R) (ucast f) of None \<Rightarrow> 0 | Some n \<Rightarrow> n)"

text \<open>The flows that have an entry; at most \<open>k\<close> have room.\<close>

definition heard_flows :: "master_routing \<Rightarrow> u16 set" where
  "heard_flows R = dom (hm_abs (last_received_relayed_packet_of_flow R))"

lemma ucast_u8_u16_eq_0: "(ucast (f :: u8) :: u16) = 0 \<longleftrightarrow> f = 0"
  by (metis ucast_u8_u16 unsigned_0)

lemma last_of_lookup:
  assumes "flows_ok k R" "f \<noteq> 0"
  shows "hash_map_lookup (last_received_relayed_packet_of_flow R) (ucast f) = Some (last_of R f)"
  using assms hm.look_abs [of k _ "ucast f"] by (simp add: flows_ok_def last_of_def ucast_u8_u16_eq_0)

definition set_last :: "master_routing \<Rightarrow> hash_table \<Rightarrow> master_routing" where
  "set_last R t = R\<lparr>last_received_relayed_packet_of_flow := t\<rparr>"

lemma accept_new_spec:
  assumes ok: "flows_ok k R" and f: "mrp_flow_number (mrp R) \<noteq> 0"
    and room: "ucast (mrp_flow_number (mrp R)) \<in> heard_flows R \<or> card (heard_flows R) < k"
  obtains (new) t where "TSCH_SLOTNUM_LT (last_of R (mrp_flow_number (mrp R))) (mrp_packet_number (mrp R))"
      "accept_new R = Some (True, set_last R t)" "flows_ok k (set_last R t)"
      "heard_flows (set_last R t) = insert (ucast (mrp_flow_number (mrp R))) (heard_flows R)"
      "last_of (set_last R t) = (last_of R)(mrp_flow_number (mrp R) := mrp_packet_number (mrp R))"
  | (old) "\<not> TSCH_SLOTNUM_LT (last_of R (mrp_flow_number (mrp R))) (mrp_packet_number (mrp R))"
      "accept_new R = Some (False, R)"
proof (cases "TSCH_SLOTNUM_LT (last_of R (mrp_flow_number (mrp R))) (mrp_packet_number (mrp R))")
  case True
  let ?f = "mrp_flow_number (mrp R)" and ?n = "mrp_packet_number (mrp R)" and ?t = "last_received_relayed_packet_of_flow R"
  have t: "hm_ok k ?t" and f': "(ucast ?f :: u16) \<noteq> 0"
    using ok f by (simp_all add: flows_ok_def ucast_u8_u16_eq_0)
  obtain t' where t': "hm_ins ?t (ucast ?f) ?n = Some (True, t')" "hm_ok k t'" "hm_abs t' = (hm_abs ?t)(ucast ?f \<mapsto> ?n)"
    using hm.ins_abs [OF t f', of ?n] room by (auto simp: bmap_insert_def heard_flows_def)
  obtain r where r: "hash_map_insert ?t (ucast ?f) ?n = Some (r, t')"
    using t'(1) by (auto simp: hm_ins_def)
  show thesis
  proof (rule new [OF True, of t'])
    show "accept_new R = Some (True, set_last R t')"
      using True r by (simp add: accept_new_def last_of_lookup [OF ok f] set_last_def)
    show "flows_ok k (set_last R t')"
      using ok t'(2) by (simp add: flows_ok_def set_last_def)
    show "heard_flows (set_last R t') = insert (ucast ?f) (heard_flows R)"
      using t'(3) by (simp add: heard_flows_def set_last_def)
    have inj: "ucast g = (ucast ?f :: u16) \<longleftrightarrow> g = ?f" for g :: u8
      by (metis ucast_u8_u16)
    show "last_of (set_last R t') = (last_of R)(?f := ?n)"
      using t'(3) inj by (auto simp: last_of_def set_last_def fun_eq_iff)
  qed
next
  case False
  then show thesis
    using old by (simp add: accept_new_def last_of_lookup [OF ok f])
qed

section \<open>At the receiver\<close>

definition for_here :: "master_routing \<Rightarrow> routing_packet \<Rightarrow> bool" where
  "for_here R p \<longleftrightarrow> user_packet p \<and> mrp_flow_number p \<noteq> 0 \<and> unat (mrp_flow_number p) < length (receiver_of_flow R)
     \<and> unat (mrp_flow_number p) < length (sender_of_flow R) \<and> ucast (receiver_of_flow R ! unat (mrp_flow_number p)) = node_id R"

definition delivery :: "master_routing \<Rightarrow> routing_packet \<Rightarrow> u8 list \<times> u8 \<times> u8" where
  "delivery R p = (mrp_data p, sender_of_flow R ! unat (mrp_flow_number p), receiver_of_flow R ! unat (mrp_flow_number p))"

lemma receiver_input:
  assumes p: "for_here R p" and ok: "flows_ok k R" "mrp_ok (mrp R)" "current_callback R" and g: "75 \<le> length g"
    and room: "ucast (mrp_flow_number p) \<in> heard_flows R \<or> card (heard_flows R) < k"
  defines "R1 \<equiv> R\<lparr>mrp := copied_over p (mrp R)\<rparr>"
  obtains (new) t where "TSCH_SLOTNUM_LT (last_of R (mrp_flow_number p)) (mrp_packet_number p)"
      "master_routing_input g (mrp_bytes p) (packet_len p) R = Some ((set_last R1 t)\<lparr>delivered := delivered R @ [delivery R p]\<rparr>)"
      "flows_ok k (set_last R1 t)" "heard_flows (set_last R1 t) = insert (ucast (mrp_flow_number p)) (heard_flows R)"
      "last_of (set_last R1 t) = (last_of R)(mrp_flow_number p := mrp_packet_number p)"
  | (old) "\<not> TSCH_SLOTNUM_LT (last_of R (mrp_flow_number p)) (mrp_packet_number p)"
      "master_routing_input g (mrp_bytes p) (packet_len p) R = Some R1"
proof -
  have u: "user_packet p"
    using p by (simp add: for_here_def)
  have m: "mrp_flow_number (mrp R1) = mrp_flow_number p" "mrp_packet_number (mrp R1) = mrp_packet_number p"
    "take (length (mrp_data p)) (mrp_data (mrp R1)) = mrp_data p"
    by (simp_all add: R1_def copied_over_def)
  have R1: "flows_ok k R1" "heard_flows R1 = heard_flows R" "last_of R1 = last_of R"
    using ok(1) by (simp_all add: R1_def flows_ok_def heard_flows_def last_of_def fun_eq_iff)
  have run: "master_routing_input g (mrp_bytes p) (packet_len p) R = flow_input (packet_len p) R1"
    unfolding R1_def by (rule user_packet_input [OF u g ok(2)])
  have up: "minimal_routing_packet_size < unat (packet_len p)" "unat (packet_len p) - minimal_routing_packet_size = length (mrp_data p)"
    using user_packet_len [OF u] unfolding minimal_routing_packet_size_def by linarith+
  have f: "mrp_flow_number (mrp R1) \<noteq> 0" "ucast (mrp_flow_number (mrp R1)) \<in> heard_flows R1 \<or> card (heard_flows R1) < k"
    using p room by (simp_all add: for_here_def R1 m)
  define i where "i = unat (mrp_flow_number p)"
  have rcv: "rd (receiver_of_flow R1) i = Some (receiver_of_flow R ! i)" "node_id R1 = ucast (receiver_of_flow R ! i)"
    "rd (sender_of_flow R1) i = Some (sender_of_flow R ! i)" "current_callback R1" "delivered R1 = delivered R"
    using p ok(3) by (simp_all add: for_here_def i_def R1_def rd_in)
  show thesis
    using R1(1) f
  proof (cases rule: accept_new_spec)
    case (new t)
    have "flow_input (packet_len p) R1 = Some ((set_last R1 t)\<lparr>delivered := delivered R @ [delivery R p]\<rparr>)"
      unfolding flow_input_def Let_def m(1) i_def [symmetric] rcv(1) bind.bind_lunit if_P [OF rcv(2)] new(2)
      using rcv up m(3) by (simp add: set_last_def delivery_def m(1) flip: i_def)
    then show thesis
      using new that(1) [of t] m R1 run by simp
  next
    case old
    have "flow_input (packet_len p) R1 = Some R1"
      unfolding flow_input_def Let_def m(1) i_def [symmetric] rcv(1) bind.bind_lunit if_P [OF rcv(2)] old(2) by simp
    then show thesis
      using old that(2) m R1 run by simp
  qed
qed

fun receive_all :: "u8 list \<Rightarrow> routing_packet list \<Rightarrow> master_routing \<Rightarrow> master_routing option" where
  "receive_all g [] R = Some R"
| "receive_all g (p # ps) R = do { R \<leftarrow> master_routing_input g (mrp_bytes p) (packet_len p) R; receive_all g ps R }"

text \<open>The packets that are newer than all packets of their flow before them.\<close>

fun newest :: "(u8 \<Rightarrow> u16) \<Rightarrow> routing_packet list \<Rightarrow> routing_packet list" where
  "newest seen [] = []"
| "newest seen (p # ps) =
     (if TSCH_SLOTNUM_LT (seen (mrp_flow_number p)) (mrp_packet_number p)
      then p # newest (seen(mrp_flow_number p := mrp_packet_number p)) ps else newest seen ps)"

lemma receive_all_newest:
  assumes "\<forall>p \<in> set ps. for_here R p" "flows_ok k R" "mrp_ok (mrp R)" "current_callback R" "75 \<le> length g"
    and "finite S" "card S \<le> k" "heard_flows R \<subseteq> S" "\<forall>p \<in> set ps. ucast (mrp_flow_number p) \<in> S"
  shows "\<exists>R'. receive_all g ps R = Some R' \<and> delivered R' = delivered R @ map (delivery R) (newest (last_of R) ps)"
  using assms
proof (induction ps arbitrary: R)
  case (Cons p ps)
  have p: "for_here R p" and ps: "\<And>q. q \<in> set ps \<Longrightarrow> for_here R q"
    using Cons.prems(1) by simp_all
  have "card (heard_flows R) < k" if "ucast (mrp_flow_number p) \<notin> heard_flows R"
  proof -
    have "heard_flows R \<subset> S"
      using that Cons.prems(8,9) by auto
    then have "card (heard_flows R) < card S"
      by (rule psubset_card_mono [OF Cons.prems(6)])
    then show ?thesis
      using Cons.prems(7) by linarith
  qed
  then have room: "ucast (mrp_flow_number p) \<in> heard_flows R \<or> card (heard_flows R) < k"
    by blast
  have same: "mrp_ok (copied_over p (mrp R))"
    using p Cons.prems(3) by (simp add: mrp_ok_def copied_over_def for_here_def user_packet_def)
  define R1 where "R1 = R\<lparr>mrp := copied_over p (mrp R)\<rparr>"
  have next_ok: "\<exists>R'. receive_all g ps Q = Some R' \<and> delivered R' = delivered Q @ map (delivery R) (newest (last_of Q) ps)"
    if "flows_ok k Q" "heard_flows Q \<subseteq> S" "mrp Q = mrp R1" "current_callback Q" "node_id Q = node_id R"
      "receiver_of_flow Q = receiver_of_flow R" "sender_of_flow Q = sender_of_flow R" for Q
  proof -
    have "for_here Q q" if "q \<in> set ps" for q
      using ps [OF that] \<open>node_id Q = _\<close> \<open>receiver_of_flow Q = _\<close> \<open>sender_of_flow Q = _\<close> by (simp add: for_here_def)
    moreover have "delivery Q = delivery R"
      using that(6,7) by (simp add: delivery_def fun_eq_iff)
    ultimately show ?thesis
      using Cons.IH [of Q] Cons.prems(5-7,9) that same by (simp add: R1_def)
  qed
  from p Cons.prems(2-5) room show ?case
  proof (cases rule: receiver_input)
    case (new t)
    let ?Q = "(set_last R1 t)\<lparr>delivered := delivered R @ [delivery R p]\<rparr>"
    have q: "flows_ok k ?Q" "heard_flows ?Q \<subseteq> S" "last_of ?Q = (last_of R)(mrp_flow_number p := mrp_packet_number p)"
      using new(3-5) Cons.prems(8,9) by (simp_all add: R1_def flows_ok_def heard_flows_def last_of_def fun_eq_iff)
    from next_ok [OF q(1,2)] new(1,2) q(3) Cons.prems(4) show ?thesis
      by (simp add: R1_def set_last_def)
  next
    case old
    have q: "flows_ok k R1" "heard_flows R1 \<subseteq> S" "last_of R1 = last_of R"
      using Cons.prems(2,8) by (simp_all add: R1_def flows_ok_def heard_flows_def last_of_def fun_eq_iff)
    from next_ok [OF q(1,2)] old q(3) Cons.prems(4) show ?thesis
      by (simp add: R1_def)
  qed
qed simp

lemma newest_increasing:
  assumes "\<forall>p \<in> set ps. unat (mrp_packet_number p) < 2 ^ 15" "unat (seen f) < 2 ^ 15"
  shows "sorted_wrt (<) (unat (seen f) # map (\<lambda>p. unat (mrp_packet_number p)) (filter (\<lambda>p. mrp_flow_number p = f) (newest seen ps)))"
  using assms
proof (induction ps arbitrary: seen)
  case (Cons p ps)
  have lt: "TSCH_SLOTNUM_LT a b \<longleftrightarrow> unat a < unat b" if "unat a < 2 ^ 15" "unat b < 2 ^ 15" for a b
  proof -
    have "\<bar>int (unat a) - int (unat b)\<bar> < 2 ^ 15"
      using that by (simp add: abs_less_iff del: of_nat_unat)
    from slotnum_lt_iff [OF this] show ?thesis
      by simp
  qed
  show ?case
  proof (cases "mrp_flow_number p = f \<and> TSCH_SLOTNUM_LT (seen f) (mrp_packet_number p)")
    case True
    then have "unat (seen f) < unat (mrp_packet_number p)"
      using lt Cons.prems by simp
    moreover have "sorted_wrt (<) (unat (mrp_packet_number p)
        # map (\<lambda>p. unat (mrp_packet_number p)) (filter (\<lambda>p. mrp_flow_number p = f) (newest (seen(f := mrp_packet_number p)) ps)))"
      using Cons.IH [of "seen(f := mrp_packet_number p)"] Cons.prems by (simp add: fun_upd_def)
    ultimately show ?thesis
      using True by auto
  next
    case False
    then show ?thesis
      using Cons.IH [of seen] Cons.IH [of "seen(mrp_flow_number p := mrp_packet_number p)"] Cons.prems by (auto simp: fun_upd_def)
  qed
qed simp

text \<open>
  C1. Every packet once.  Whatever packets a node receives of flows that end at it, lost, repeated and reordered as they may be, as
  long as their numbers lie in one half of the 16-bit range and its table has room for these flows, the application gets exactly those packets
  that are newer than all before them of their flow, with the data sent and the sender of the flow; so in each flow the
  numbers of the packets delivered increase, and none is delivered twice.
\<close>

theorem packets_delivered_once:
  assumes "\<forall>p \<in> set ps. for_here R p \<and> unat (mrp_packet_number p) < 2 ^ 15" "flows_ok k R" "mrp_ok (mrp R)" "current_callback R" "75 \<le> length g"
    and "card (heard_flows R \<union> (\<lambda>p. ucast (mrp_flow_number p)) ` set ps) \<le> k" "\<forall>f. unat (last_of R f) < 2 ^ 15"
  shows "\<exists>R'. receive_all g ps R = Some R' \<and> delivered R' = delivered R @ map (delivery R) (newest (last_of R) ps)
    \<and> (\<forall>f. sorted_wrt (<) (unat (last_of R f)
          # map (\<lambda>p. unat (mrp_packet_number p)) (filter (\<lambda>p. mrp_flow_number p = f) (newest (last_of R) ps))))"
proof -
  have "finite (heard_flows R \<union> (\<lambda>p. ucast (mrp_flow_number p)) ` set ps)"
    by simp
  from receive_all_newest [OF _ assms(2-5) this assms(6), of ps] assms(1) newest_increasing [of ps "last_of R"] assms(7) show ?thesis
    by auto
qed

theorem packets_delivered_once_witness:
  "\<exists>R'. receive_all (replicate 75 0) (map (\<lambda>n. \<lparr>mrp_flow_number = 1, mrp_packet_number = n, mrp_ttl_slot_number = 0,
       mrp_earliest_tx_slot = 0, mrp_data = replicate 9 (ucast n)\<rparr>) [4, 5, 4, 7, 6, 8])
     ((mr_example 2 (replicate 30 0))\<lparr>receiver_of_flow := [0, 2], sender_of_flow := [0, 3]\<rparr>) = Some R'
   \<and> map (\<lambda>d. hd (fst d)) (delivered R') = [4, 5, 7, 8]"
proof -
  let ?p = "\<lambda>n :: u16. \<lparr>mrp_flow_number = 1, mrp_packet_number = n, mrp_ttl_slot_number = 0, mrp_earliest_tx_slot = 0, mrp_data = replicate 9 (ucast n)\<rparr>"
  let ?R = "(mr_example 2 (replicate 30 0))\<lparr>receiver_of_flow := [0, 2], sender_of_flow := [0, 3]\<rparr>" and ?ps = "map ?p [4, 5, 4, 7, 6, 8]"
  let ?t = "\<lparr>number_entries = 0, nodes = replicate 3 free_node\<rparr>"
  have t: "last_received_relayed_packet_of_flow ?R = ?t" "forward_to ?R = ?t" "delivered ?R = []" "current_callback ?R" "mrp_ok (mrp ?R)"
    by (simp_all add: mr_example_def mrp_ok_def size_defs)
  have inv: "hm_inv ?t" "hm_abs ?t = Map.empty"
    using hm_inv_clear [of ?t] by (simp_all add: hash_map_clear_table_def)
  have l: "last_of ?R f = 0" "heard_flows ?R = {}" for f
    unfolding last_of_def heard_flows_def t(1) inv(2) by simp_all
  have here: "\<forall>p \<in> set ?ps. for_here ?R p \<and> unat (mrp_packet_number p) < 2 ^ 15"
    by (simp add: for_here_def user_packet_def mr_example_fields PACKET_TYPE_BEACON_def PACKET_TYPE_ADVERTISEMENT_def PACKET_TYPE_ACTUAL_DATA_def size_defs)
  have ok: "flows_ok 3 ?R"
    unfolding flows_ok_def hm_ok_def t using inv(1) by simp
  have "heard_flows ?R \<union> (\<lambda>p. ucast (mrp_flow_number p)) ` set ?ps = {1}"
    using l by auto
  then have card: "card (heard_flows ?R \<union> (\<lambda>p. ucast (mrp_flow_number p)) ` set ?ps) \<le> 3"
    by (simp only:) simp
  have new: "newest (last_of ?R) ?ps = map ?p [4, 5, 7, 8]"
    using l(1) by (simp add: TSCH_SLOTNUM_LT_def TSCH_SLOTNUM_DIFF16_def)
  have bound: "\<forall>f. unat (last_of ?R f) < 2 ^ 15" and g: "75 \<le> length (replicate 75 (0 :: u8))"
    using l by simp_all
  obtain R' where "receive_all (replicate 75 0) ?ps ?R = Some R'" "delivered R' = delivered ?R @ map (delivery ?R) (newest (last_of ?R) ?ps)"
    using packets_delivered_once [OF here ok t(5,4) g card bound] by (elim exE conjE) (rule that)
  moreover have "map (\<lambda>d. hd (fst d)) (map (delivery ?R) (map ?p [4, 5, 7, 8])) = [4, 5, 7, 8]"
    by (simp add: delivery_def)
  ultimately show ?thesis
    unfolding new t(3) by (intro exI [of _ R'] conjI) simp_all
qed

section \<open>On the way\<close>

lemma take_copied: "length (mrp_data p) \<le> length (mrp_data m) \<Longrightarrow> take (7 + length (mrp_data p)) (mrp_bytes (copied_over p m)) = mrp_bytes p"
proof -
  assume a: "length (mrp_data p) \<le> length (mrp_data m)"
  have "take (length (mrp_bytes p)) (mrp_bytes p @ drop (7 + length (mrp_data p)) (mrp_bytes m)) = mrp_bytes p"
    by simp
  moreover have "length (mrp_bytes p) = 7 + length (mrp_data p)"
    by (simp add: mrp_bytes_def)
  ultimately show ?thesis
    by (simp only: mrp_bytes_over [OF a])
qed

text \<open>A packet with no transmission allowed, counted in 8 bits, is dropped without a word.\<close>

lemma output_without_transmission:
  assumes inv: "mac_inv ns nl nn np m" and assoc: "tsch_is_associated m" and len: "unat len \<le> length msg" and dest: "linkaddr_ok dest"
    and fits: "header_size (Some dest) + unat len \<le> 125" and mx: "unat (max_tx c) mod 256 = 0"
  shows "\<exists>m'. masternet_output m msg len (Some c) (Some dest) = Some (1, m') \<and> mac_inv ns nl nn np m' \<and> same_mac m m'
    \<and> aqueue (queues_of m') = aqueue (queues_of m)"
proof -
  have dest': "\<forall>a. Some dest = Some a \<longrightarrow> linkaddr_ok a"
    using dest by simp
  obtain b fs refused where o: "outgoing msg len (Some c) (Some dest) (linkaddr_node_addr m) b" "mac_inv ns nl nn np (m\<lparr>pb := b, framing := fs\<rparr>)"
    "same_mac m (m\<lparr>pb := b, framing := fs\<rparr>)" "tsch_is_associated m \<longrightarrow> (refused \<longleftrightarrow> 125 - header_size (Some dest) < unat len)"
    "masternet_output m msg len (Some c) (Some dest) = (if refused then Some (0, m\<lparr>pb := packetbuf_clear b, framing := fs\<rparr>)
       else map_option (Pair 1) (send_packet (m\<lparr>pb := b, framing := fs\<rparr>) None None))"
    by (rule output_unfold [OF inv len dest', of "Some c"])
  let ?m = "m\<lparr>pb := b, framing := fs\<rparr>"
  have "unat (pb_attrs (pb (prepare_frame ?m)) PACKETBUF_ATTR_MAX_MAC_TRANSMISSIONS) mod 256 = 0"
    using o(1) mx by (simp add: outgoing_def prepare_frame_attrs)
  then have "(ucast (packetbuf_attr (pb (prepare_frame ?m)) PACKETBUF_ATTR_MAX_MAC_TRANSMISSIONS) :: u8) = 0"
    by (intro word_unat_eq_iff [THEN iffD2]) (simp add: unsigned_ucast_eq unsigned_take_bit_eq take_bit_eq_mod packetbuf_attr_def)
  then have "send_packet ?m None None = Some (prepare_frame ?m)"
    using assoc by (simp add: send_packet_def Let_def)
  then have "masternet_output m msg len (Some c) (Some dest) = Some (1, prepare_frame ?m)"
    using o(4,5) assoc fits by (auto simp: header_size_def)
  moreover have "queues_of ?m = queues_of m"
    by (simp add: queues_of_def)
  ultimately show ?thesis
    using prepare_frame_inv [OF o(2)] same_mac_trans [OF o(3)] by auto
qed

text \<open>What happens to the queue of a flow \<open>f\<close> when the bytes \<open>bs\<close> are sent on it with \<open>n\<close> transmissions.\<close>

definition sent_on_flow :: "master_routing \<Rightarrow> u8 \<Rightarrow> nat \<Rightarrow> u16 \<Rightarrow> u16 \<Rightarrow> u8 \<Rightarrow> u8 list \<Rightarrow> master_routing \<Rightarrow> bool" where
  "sent_on_flow R f n earliest ttl to bs R' \<longleftrightarrow> (if n mod 256 = 0 then aqueue (queues_of (mac R')) = aqueue (queues_of (mac R))
     else \<exists>j b. aqueue (queues_of (mac R')) = (aqueue (queues_of (mac R)))(flow_queue_addr (ucast f) := flow_queue (mac R) (ucast f) @ [j])
       \<and> queued_frame (queues_of (mac R')) j b \<and> pb_inv b \<and> expressible b \<and> pb_frame b = packet_header (framing (mac R)) b @ bs
       \<and> length (packet_header (framing (mac R)) b) = header_size (Some ((destination R)[0 := to]))
       \<and> unat (max_transmissions (pkts (queues_of (mac R')) ! j)) = n mod 256
       \<and> pb_attrs b PACKETBUF_ATTR_TRANSMISSION_TTL = ttl \<and> pb_attrs b PACKETBUF_ATTR_EARLIEST_TX_SLOT = earliest
       \<and> pb_addrs b PACKETBUF_ADDR_RECEIVER = (destination R)[0 := to] \<and> pb_addrs b PACKETBUF_ADDR_SENDER = linkaddr_node_addr (mac R))"

lemma linkaddr_ok_upd: "linkaddr_ok a \<Longrightarrow> linkaddr_ok (a[i := v])"
  by (simp add: linkaddr_ok_def)

lemma net_output_on_flow:
  assumes inv: "mac_inv ns nl nn np (mac R)" and assoc: "tsch_is_associated (mac R)" and st: "started R"
    and len: "unat (masternet_len R) = length bs" "take (length bs) (mrp_bytes (mrp R)) = bs" "length bs \<le> 75" and dest: "linkaddr_ok (destination R)"
    and room: "room nn np (mac R) (ucast f)" and c: "sent_packet_configuration R = \<lparr>ttl_slot_number = ttl, earliest_tx_slot = e, flow_number = ucast f, max_tx = mx\<rparr>"
    and R0: "mac R0 = mac R" "(destination R0)[0 := to] = destination R"
  shows "\<exists>m. net_output (Some (destination R)) R = Some (1, R\<lparr>mac := m\<rparr>) \<and> mac_inv ns nl nn np m \<and> same_mac (mac R) m
    \<and> sent_on_flow R0 f (unat mx) e ttl to bs (R\<lparr>mac := m\<rparr>)"
proof -
  have l: "unat (masternet_len R) \<le> length (mrp_bytes (mrp R))"
    using len by (simp, metis length_take min.cobounded1)
  have tk: "take (unat (masternet_len R)) (mrp_bytes (mrp R)) = bs"
    using len by simp
  have h: "header_size (Some (destination R)) + unat (masternet_len R) \<le> 96" "header_size (Some (destination R)) + unat (masternet_len R) \<le> 125"
    using len(3) by (simp_all add: len(1) header_size_def)
  have room': "room nn np (mac R) (flow_number (sent_packet_configuration R))"
    using room c by simp
  show ?thesis
  proof (cases "unat mx mod 256 = 0")
    case True
    then have "unat (max_tx (sent_packet_configuration R)) mod 256 = 0"
      using c by simp
    from output_without_transmission [OF inv assoc l dest h(2) this] obtain m where
      "masternet_output (mac R) (mrp_bytes (mrp R)) (masternet_len R) (Some (sent_packet_configuration R)) (Some (destination R)) = Some (1, m)"
      "mac_inv ns nl nn np m" "same_mac (mac R) m" "aqueue (queues_of m) = aqueue (queues_of (mac R))"
      by blast
    then show ?thesis
      using st True R0 by (intro exI [of _ m]) (simp add: net_output_def sent_on_flow_def)
  next
    case False
    then have "0 < unat (max_tx (sent_packet_configuration R)) mod 256"
      using c by simp
    note out = output_queued [OF inv assoc l dest room' this]
    obtain m j b where o:
      "masternet_output (mac R) (mrp_bytes (mrp R)) (masternet_len R) (Some (sent_packet_configuration R)) (Some (destination R)) = Some (1, m)"
      "mac_inv ns nl nn np m" "same_mac (mac R) m"
      "aqueue (queues_of m) = (aqueue (queues_of (mac R)))(flow_queue_addr (flow_number (sent_packet_configuration R)) := flow_queue (mac R) (flow_number (sent_packet_configuration R)) @ [j])"
      "queued_frame (queues_of m) j b" "pb_inv b" "expressible b" "pb_frame b = packet_header (framing (mac R)) b @ bs"
      "length (packet_header (framing (mac R)) b) = header_size (Some (destination R))"
      "unat (max_transmissions (pkts (queues_of m) ! j)) = unat (max_tx (sent_packet_configuration R)) mod 256"
      "pb_attrs b PACKETBUF_ATTR_TRANSMISSION_TTL = ttl_slot_number (sent_packet_configuration R)"
      "pb_attrs b PACKETBUF_ATTR_EARLIEST_TX_SLOT = earliest_tx_slot (sent_packet_configuration R)"
      "pb_addrs b PACKETBUF_ADDR_RECEIVER = destination R" "pb_addrs b PACKETBUF_ADDR_SENDER = linkaddr_node_addr (mac R)"
      using out unfolding if_P [OF h(1)] tk by blast
    have "sent_on_flow R0 f (unat mx) e ttl to bs (R\<lparr>mac := m\<rparr>)"
      unfolding sent_on_flow_def if_not_P [OF False] using o(4-14) R0 c by (intro exI [of _ j] exI [of _ b]) simp
    with o(1-3) show ?thesis
      using st by (intro exI [of _ m]) (simp add: net_output_def)
  qed
qed

lemma ucast_minus_one: "ucast (x - 1 :: u32) = (ucast x - 1 :: u16)"
  by (intro word_uint_eq_iff [THEN iffD2]) (simp add: uint_word_ariths unsigned_ucast_eq take_bit_eq_mod mod_simps mod_mod_cancel)

text \<open>Whether \<open>d\<close> slots from \<open>now\<close> are still to come, and how many there are with the current one.\<close>

lemma slots_left:
  assumes "- (2 ^ 15) \<le> d" "d < 2 ^ 15 - 1" "ttl = now + of_int d"
  shows "TSCH_SLOTNUM_LT now (ttl + 1) \<longleftrightarrow> 0 \<le> d"
    "0 \<le> d \<Longrightarrow> unat (of_int (TSCH_SLOTNUM_DIFF16 ttl (now - 1)) :: u16) = nat (d + 1)"
proof -
  have s: "sint (of_int (- (d + 1)) :: u16) = - (d + 1)"
    unfolding signed_of_int of_int_eq_id id_apply by (rule signed_take_bit_int_eq_self) (use assms in simp_all)
  have l: "now - (ttl + 1) = of_int (- (d + 1))"
    using assms(3) by simp
  show "TSCH_SLOTNUM_LT now (ttl + 1) \<longleftrightarrow> 0 \<le> d"
    unfolding TSCH_SLOTNUM_LT_def TSCH_SLOTNUM_DIFF16_def l s by linarith
  have e: "ttl - (now - 1) = of_int (d + 1)"
    using assms(3) by simp
  have "of_int (TSCH_SLOTNUM_DIFF16 ttl (now - 1)) = (of_int (d + 1) :: u16)"
    unfolding TSCH_SLOTNUM_DIFF16_def e by simp
  then show "unat (of_int (TSCH_SLOTNUM_DIFF16 ttl (now - 1)) :: u16) = nat (d + 1)" if "0 \<le> d"
    using that assms(2) unat_of_int_small [of "d + 1"] by simp
qed

definition on_the_way :: "master_routing \<Rightarrow> routing_packet \<Rightarrow> u8 \<Rightarrow> bool" where
  "on_the_way R p to \<longleftrightarrow> user_packet p \<and> mrp_flow_number p \<noteq> 0 \<and> unat (mrp_flow_number p) < length (receiver_of_flow R)
     \<and> node_id R \<noteq> ucast (receiver_of_flow R ! unat (mrp_flow_number p)) \<and> to \<noteq> 0
     \<and> (\<exists>n. hm_abs (forward_to R) (ucast (mrp_flow_number p)) = Some n \<and> to = ucast n)"

lemma relay_new:
  assumes p: "user_packet p" "mrp R = copied_over p m" "length (mrp_data p) \<le> length (mrp_data m)"
    and inv: "mac_inv ns nl nn np (mac R)" and assoc: "tsch_is_associated (mac R)" and st: "started R"
    and dest: "linkaddr_ok (destination R)"
    and room: "room nn np (mac R) (ucast (mrp_flow_number p))"
    and d: "- (2 ^ 15) \<le> d" "d < 2 ^ 15 - 1" "mrp_ttl_slot_number p = ucast (ls4b (tsch_current_asn (mac R))) + of_int d"
  shows "\<exists>R'. relay (packet_len p) to R = Some R' \<and> mac_inv ns nl nn np (mac R') \<and> same_mac (mac R) (mac R')
    \<and> last_received_relayed_packet_of_flow R' = last_received_relayed_packet_of_flow R \<and> delivered R' = delivered R
    \<and> (if d < 0 then mac R' = mac R
       else sent_on_flow R (mrp_flow_number p) (nat (d + 1)) (mrp_earliest_tx_slot p) (mrp_ttl_slot_number p) to (mrp_bytes p) R')"
proof -
  let ?now = "ls4b (tsch_current_asn (mac R))"
  note len = user_packet_len [OF p(1)]
  have f: "mrp_flow_number (mrp R) = mrp_flow_number p" "mrp_ttl_slot_number (mrp R) = mrp_ttl_slot_number p"
    "mrp_earliest_tx_slot (mrp R) = mrp_earliest_tx_slot p"
    using p(2) by (simp_all add: copied_over_def)
  have now: "ucast (?now - 1) = (ucast ?now - 1 :: u16)"
    by (simp add: ucast_minus_one)
  note sl = slots_left [OF d]
  define R1 where "R1 = upd_config (\<lambda>c. c\<lparr>flow_number := ucast (mrp_flow_number p)\<rparr>) (set_destination_link_addr to R)"
  show ?thesis
  proof (cases "d < 0")
    case True
    then have "relay (packet_len p) to R = Some R1"
      using sl(1) f by (simp add: relay_def R1_def Let_def set_destination_link_addr_def upd_config_def)
    then show ?thesis
      using True inv by (simp add: R1_def set_destination_link_addr_def upd_config_def)
  next
    case False
    define R2 where "R2 = (upd_config (\<lambda>c. c\<lparr>ttl_slot_number := mrp_ttl_slot_number p, earliest_tx_slot := mrp_earliest_tx_slot p,
      max_tx := of_int (TSCH_SLOTNUM_DIFF16 (mrp_ttl_slot_number p) (ucast (?now - 1)))\<rparr>) R1)\<lparr>masternet_len := packet_len p\<rparr>"
    have run: "relay (packet_len p) to R = map_option snd (net_output (Some (destination R2)) R2)"
      using sl(1) False f by (simp add: relay_def R2_def R1_def Let_def set_destination_link_addr_def upd_config_def)
    have R2: "mac R2 = mac R" "mrp R2 = mrp R" "started R2 = started R" "destination R2 = (destination R)[0 := to]" "masternet_len R2 = packet_len p"
      "sent_packet_configuration R2 = \<lparr>ttl_slot_number = mrp_ttl_slot_number p, earliest_tx_slot = mrp_earliest_tx_slot p,
         flow_number = ucast (mrp_flow_number p), max_tx = of_int (TSCH_SLOTNUM_DIFF16 (mrp_ttl_slot_number p) (ucast (?now - 1)))\<rparr>"
      "last_received_relayed_packet_of_flow R2 = last_received_relayed_packet_of_flow R" "delivered R2 = delivered R"
      by (simp_all add: R2_def R1_def set_destination_link_addr_def upd_config_def NODE_ID_INDEX_def)
    have n: "unat (of_int (TSCH_SLOTNUM_DIFF16 (mrp_ttl_slot_number p) (ucast (?now - 1))) :: u16) = nat (d + 1)"
      unfolding now using sl(2) False by simp
    have l: "unat (masternet_len R2) = length (mrp_bytes p)" "take (length (mrp_bytes p)) (mrp_bytes (mrp R2)) = mrp_bytes p" "length (mrp_bytes p) \<le> 75"
      using len take_copied [OF p(3)] unfolding R2 p(2) by simp_all
    have pre: "mac_inv ns nl nn np (mac R2)" "tsch_is_associated (mac R2)" "started R2" "linkaddr_ok (destination R2)"
      "room nn np (mac R2) (ucast (mrp_flow_number p))" "mac R = mac R2" "(destination R)[0 := to] = destination R2"
      using inv assoc st dest room linkaddr_ok_upd unfolding R2 by simp_all
    obtain m' where m': "net_output (Some (destination R2)) R2 = Some (1, R2\<lparr>mac := m'\<rparr>)" "mac_inv ns nl nn np m'" "same_mac (mac R2) m'"
      "sent_on_flow R (mrp_flow_number p) (nat (d + 1)) (mrp_earliest_tx_slot p) (mrp_ttl_slot_number p) to (mrp_bytes p) (R2\<lparr>mac := m'\<rparr>)"
      using net_output_on_flow [OF pre(1-3) l pre(4,5) R2(6) pre(6,7)] unfolding n by blast
    then show ?thesis
      using False run R2(1,7,8) by (intro exI [of _ "R2\<lparr>mac := m'\<rparr>"]) simp
  qed
qed

lemma forwarder_input:
  assumes w: "on_the_way R p to" and ok: "flows_ok k R" "mrp_ok (mrp R)" and g: "75 \<le> length g"
    and table: "ucast (mrp_flow_number p) \<in> heard_flows R \<or> card (heard_flows R) < k"
    and inv: "mac_inv ns nl nn np (mac R)" and assoc: "tsch_is_associated (mac R)" and st: "started R" "linkaddr_ok (destination R)"
    and room: "room nn np (mac R) (ucast (mrp_flow_number p))"
    and d: "- (2 ^ 15) \<le> d" "d < 2 ^ 15 - 1" "mrp_ttl_slot_number p = ucast (ls4b (tsch_current_asn (mac R))) + of_int d"
  shows "\<exists>R'. master_routing_input g (mrp_bytes p) (packet_len p) R = Some R' \<and> mac_inv ns nl nn np (mac R') \<and> delivered R' = delivered R
    \<and> (if TSCH_SLOTNUM_LT (last_of R (mrp_flow_number p)) (mrp_packet_number p)
       then last_of R' = (last_of R)(mrp_flow_number p := mrp_packet_number p)
         \<and> (if d < 0 then mac R' = mac R
            else sent_on_flow R (mrp_flow_number p) (nat (d + 1)) (mrp_earliest_tx_slot p) (mrp_ttl_slot_number p) to (mrp_bytes p) R')
       else last_of R' = last_of R \<and> mac R' = mac R)"
proof -
  let ?f = "mrp_flow_number p"
  define R1 where "R1 = R\<lparr>mrp := copied_over p (mrp R)\<rparr>"
  have u: "user_packet p" and f0: "?f \<noteq> 0"
    using w by (simp_all add: on_the_way_def)
  have m: "mrp_flow_number (mrp R1) = ?f" "mrp_packet_number (mrp R1) = mrp_packet_number p"
    by (simp_all add: R1_def copied_over_def)
  have R1: "flows_ok k R1" "heard_flows R1 = heard_flows R" "last_of R1 = last_of R" "node_id R1 = node_id R" "receiver_of_flow R1 = receiver_of_flow R"
    "forward_to R1 = forward_to R" "mac R1 = mac R" "delivered R1 = delivered R"
    using ok(1) by (simp_all add: R1_def flows_ok_def heard_flows_def last_of_def fun_eq_iff)
  have run: "master_routing_input g (mrp_bytes p) (packet_len p) R = flow_input (packet_len p) R1"
    unfolding R1_def by (rule user_packet_input [OF u g ok(2)])
  have f: "mrp_flow_number (mrp R1) \<noteq> 0" "ucast (mrp_flow_number (mrp R1)) \<in> heard_flows R1 \<or> card (heard_flows R1) < k"
    using f0 table by (simp_all add: R1 m)
  define i where "i = unat ?f"
  have rcv: "rd (receiver_of_flow R1) i = Some (receiver_of_flow R ! i)" "node_id R1 \<noteq> ucast (receiver_of_flow R ! i)"
    using w by (simp_all add: on_the_way_def i_def R1 rd_in)
  obtain nx where nx: "hash_map_lookup (forward_to R1) (ucast ?f) = Some nx" "ucast nx = to" "to \<noteq> 0"
    using w ok(1) hash_map_lookup_abs [of "forward_to R" "ucast ?f"] f0 by (auto simp: on_the_way_def flows_ok_def R1 ucast_u8_u16_eq_0)
  have out: "flow_input (packet_len p) R1 = do { (new, R) \<leftarrow> accept_new R1; if new then relay (packet_len p) to R else Some R }"
    unfolding flow_input_def Let_def m(1) i_def [symmetric] rcv(1) bind.bind_lunit if_not_P [OF rcv(2)] nx(1,2) if_P [OF nx(3)]
    by (cases "accept_new R1") (auto split: bind_splits)
  show ?thesis
    using R1(1) f
  proof (cases rule: accept_new_spec)
    case (new t)
    let ?R2 = "set_last R1 t"
    have s: "mac ?R2 = mac R" "started ?R2" "destination ?R2 = destination R" "delivered ?R2 = delivered R" "mrp ?R2 = copied_over p (mrp R)"
      using st by (simp_all add: set_last_def R1_def)
    have l: "length (mrp_data p) \<le> length (mrp_data (mrp R))"
      using u ok(2) by (simp add: user_packet_def mrp_ok_def)
    have pre: "mac_inv ns nl nn np (mac ?R2)" "tsch_is_associated (mac ?R2)" "linkaddr_ok (destination ?R2)" "room nn np (mac ?R2) (ucast ?f)"
      "mrp_ttl_slot_number p = ucast (ls4b (tsch_current_asn (mac ?R2))) + of_int d"
      using inv assoc st room d(3) unfolding s by simp_all
    obtain R' where R': "relay (packet_len p) to ?R2 = Some R'" "mac_inv ns nl nn np (mac R')"
      "last_received_relayed_packet_of_flow R' = last_received_relayed_packet_of_flow ?R2" "delivered R' = delivered ?R2"
      "if d < 0 then mac R' = mac ?R2
       else sent_on_flow ?R2 ?f (nat (d + 1)) (mrp_earliest_tx_slot p) (mrp_ttl_slot_number p) to (mrp_bytes p) R'"
      using relay_new [OF u s(5) l pre(1,2) s(2) pre(3,4) d(1,2) pre(5)] by blast
    have "last_of R' = last_of ?R2"
      using R'(3) by (simp add: last_of_def fun_eq_iff)
    with R' new s show ?thesis
      unfolding run out by (intro exI [of _ R']) (auto simp: sent_on_flow_def m R1)
  next
    case old
    then show ?thesis
      unfolding run out using inv by (intro exI [of _ R1]) (simp add: R1 m)
  qed
qed

text \<open>
  C5. A packet on its way.  A node on the way of a flow passes a packet of this flow on at most once: if it is newer than all
  before it, its number is remembered, and if its last slot lies \<open>d \<ge> 0\<close> slots ahead, the same bytes are put, after their header, at the end of the
  queue of the flow, addressed to the next node, with the same slot numbers and \<open>d + 1\<close> transmissions, one for each slot that is left.  The
  number of transmissions has 8 bits: if it is a multiple of 256, the packet is lost.  Otherwise the queues stay as they are, and the
  application sees nothing.
\<close>

theorem packet_relayed:
  assumes "on_the_way R p to" "flows_ok k R" "mrp_ok (mrp R)" "75 \<le> length g"
    and "ucast (mrp_flow_number p) \<in> heard_flows R \<or> card (heard_flows R) < k"
    and "mac_inv ns nl nn np (mac R)" "tsch_is_associated (mac R)" "started R" "linkaddr_ok (destination R)"
    and "room nn np (mac R) (ucast (mrp_flow_number p))"
    and "- (2 ^ 15) \<le> d" "d < 2 ^ 15 - 1" "mrp_ttl_slot_number p = ucast (ls4b (tsch_current_asn (mac R))) + of_int d"
  shows "\<exists>R'. master_routing_input g (mrp_bytes p) (packet_len p) R = Some R' \<and> mac_inv ns nl nn np (mac R') \<and> delivered R' = delivered R
    \<and> (if TSCH_SLOTNUM_LT (last_of R (mrp_flow_number p)) (mrp_packet_number p)
       then last_of R' = (last_of R)(mrp_flow_number p := mrp_packet_number p)
         \<and> (if d < 0 then mac R' = mac R
            else sent_on_flow R (mrp_flow_number p) (nat (d + 1)) (mrp_earliest_tx_slot p) (mrp_ttl_slot_number p) to (mrp_bytes p) R')
       else last_of R' = last_of R \<and> mac R' = mac R)"
  using assms by (rule forwarder_input)

theorem packet_relayed_witness:
  "\<exists>t R' j b. hash_map_insert \<lparr>number_entries = 0, nodes = replicate 3 free_node\<rparr> 1 3 = Some (1, t)
     \<and> master_routing_input (replicate 75 0) (mrp_bytes \<lparr>mrp_flow_number = 1, mrp_packet_number = 5, mrp_ttl_slot_number = 30,
         mrp_earliest_tx_slot = 2, mrp_data = replicate 9 9\<rparr>) 16
       ((mr_example 2 (replicate 30 0))\<lparr>receiver_of_flow := [0, 4], forward_to := t\<rparr>) = Some R'
     \<and> flow_queue (mac R') 1 = [j] \<and> queued_frame (queues_of (mac R')) j b \<and> drop 21 (pb_frame b) = [1, 5, 0, 30, 0, 2, 0] @ replicate 9 9
     \<and> pb_addrs b PACKETBUF_ADDR_RECEIVER = [3, 0, 0, 0, 0, 0, 0, 0]"
proof -
  let ?p = "\<lparr>mrp_flow_number = 1, mrp_packet_number = 5, mrp_ttl_slot_number = 30, mrp_earliest_tx_slot = 2, mrp_data = replicate 9 (9 :: u8)\<rparr>"
  let ?t = "\<lparr>number_entries = 0, nodes = replicate 3 free_node\<rparr>" and ?w = "replicate 30 (0 :: float32)"
  have inv: "hm_inv ?t" "hm_abs ?t = Map.empty"
    using hm_inv_clear [of ?t] by (simp_all add: hash_map_clear_table_def)
  obtain t where t: "hash_map_insert ?t 1 3 = Some (1, t)" "hm_inv t" "hm_abs t = [1 \<mapsto> 3]"
    using hash_map_insert_correct [OF inv(1), of 1 3] inv(2) by (auto simp: bmap_insert_def)
  let ?R = "(mr_example 2 ?w)\<lparr>receiver_of_flow := [0, 4], forward_to := t\<rparr>"
  have e: "last_received_relayed_packet_of_flow ?R = ?t" "mac ?R = mac_initial pb_initial" "destination ?R = linkaddr_null" "mrp_ok (mrp ?R)" "started ?R"
    by (simp_all add: mr_example_def mrp_ok_def size_defs)
  have l: "last_of ?R 1 = 0" "heard_flows ?R = {}"
    unfolding last_of_def heard_flows_def e(1) inv(2) by simp_all
  have ok: "flows_ok 3 ?R"
    unfolding flows_ok_def hm_ok_def e(1) using inv(1) t(2) by simp
  have u: "user_packet ?p"
    by (simp add: user_packet_def PACKET_TYPE_BEACON_def PACKET_TYPE_ADVERTISEMENT_def PACKET_TYPE_ACTUAL_DATA_def size_defs)
  have w: "on_the_way ?R ?p 3"
    using u t(3) by (simp add: on_the_way_def mr_example_fields)
  have assoc: "tsch_is_associated (mac ?R)" "ls4b (tsch_current_asn (mac ?R)) = 0" "linkaddr_ok (destination ?R)"
    unfolding e by (simp_all add: mac_initial_def linkaddr_ok_def linkaddr_null_def LINKADDR_SIZE_def)
  have mac: "mac_inv 7 8 12 8 (mac ?R)" "room 12 8 (mac ?R) (ucast (mrp_flow_number ?p))"
    unfolding e using mac_initial_inv(1) [OF pb_inv_initial] mac_initial_inv(2) by simp_all
  have new: "TSCH_SLOTNUM_LT (last_of ?R (mrp_flow_number ?p)) (mrp_packet_number ?p)"
    using l by (simp add: TSCH_SLOTNUM_LT_def TSCH_SLOTNUM_DIFF16_def)
  have pre: "75 \<le> length (replicate 75 (0 :: u8))" "ucast (mrp_flow_number ?p) \<in> heard_flows ?R \<or> card (heard_flows ?R) < 3"
    "- (2 ^ 15) \<le> (30 :: int)" "(30 :: int) < 2 ^ 15 - 1" "mrp_ttl_slot_number ?p = ucast (ls4b (tsch_current_asn (mac ?R))) + of_int 30" "\<not> (30 :: int) < 0"
    unfolding assoc(2) l(2) by simp_all
  obtain R' where R': "master_routing_input (replicate 75 0) (mrp_bytes ?p) (packet_len ?p) ?R = Some R'"
    "sent_on_flow ?R (mrp_flow_number ?p) (nat (30 + 1)) (mrp_earliest_tx_slot ?p) (mrp_ttl_slot_number ?p) 3 (mrp_bytes ?p) R'"
    by (rule packet_relayed [OF w ok e(4) pre(1,2) mac(1) assoc(1) e(5) assoc(3) mac(2) pre(3-5),
          unfolded if_P [OF new] if_not_P [OF pre(6)], THEN exE], elim conjE, rule that, assumption+)
  have len: "packet_len ?p = 16"
    by (simp add: packet_len_def size_defs)
  have n: "nat (30 + 1) mod 256 \<noteq> 0" and addr: "linkaddr_null[0 := 3] = [3, 0, 0, 0, 0, 0, 0, 0]"
    by (simp, code_simp)
  have hs: "header_size (Some [3, 0, 0, 0, 0, 0, 0, 0]) = 21"
    by code_simp
  obtain j b where "flow_queue (mac R') 1 = [j]" "queued_frame (queues_of (mac R')) j b"
    "pb_frame b = packet_header (framing (mac_initial pb_initial)) b @ mrp_bytes ?p" "length (packet_header (framing (mac_initial pb_initial)) b) = 21"
    "pb_addrs b PACKETBUF_ADDR_RECEIVER = [3, 0, 0, 0, 0, 0, 0, 0]"
    using R'(2) mac_initial_inv(3) [of pb_initial 1] unfolding sent_on_flow_def if_not_P [OF n] e addr hs by auto
  then have "\<exists>j b. flow_queue (mac R') 1 = [j] \<and> queued_frame (queues_of (mac R')) j b \<and> drop 21 (pb_frame b) = mrp_bytes ?p
     \<and> pb_addrs b PACKETBUF_ADDR_RECEIVER = [3, 0, 0, 0, 0, 0, 0, 0]"
    by (intro exI [of _ j] exI [of _ b]) simp
  then show ?thesis
    using t(1) R'(1) unfolding len by (auto simp: mrp_bytes_def le16_def)
qed

end
