(* ===== verification/Master_Send.thy ===== *)
theory Master_Send
  imports Master_Flows
begin

text \<open>
  \<^verbatim>\<open>master_routing_send\<close>: the choice of the slot in which a packet starts on its flow, and what is queued.
\<close>

section \<open>The next slot of the flow\<close>

lemma next_tx_index_first:
  assumes "i + n \<le> length slots" "\<exists>j. i \<le> j \<and> j < i + n \<and> c \<le> slots ! j"
  shows "\<exists>k. next_tx_index slots c i n = Some k \<and> i \<le> k \<and> k < i + n \<and> c \<le> slots ! k \<and> (\<forall>j. i \<le> j \<and> j < k \<longrightarrow> slots ! j < c)"
  using assms
proof (induction n arbitrary: i)
  case (Suc n)
  have r: "rd slots i = Some (slots ! i)"
    using Suc.prems(1) by (simp add: rd_in)
  show ?case
  proof (cases "c \<le> slots ! i")
    case True
    with r show ?thesis
      by (intro exI [of _ i]) auto
  next
    case False
    obtain j where j: "i \<le> j" "j < i + Suc n" "c \<le> slots ! j"
      using Suc.prems(2) by blast
    then have "j \<noteq> i"
      using False by auto
    with j have "\<exists>j. i + 1 \<le> j \<and> j < i + 1 + n \<and> c \<le> slots ! j"
      by (intro exI [of _ j]) simp
    with Suc.IH [of "i + 1"] Suc.prems(1) obtain k where k: "next_tx_index slots c (i + 1) n = Some k" "i + 1 \<le> k" "k < i + 1 + n" "c \<le> slots ! k"
      "\<forall>j. i + 1 \<le> j \<and> j < k \<longrightarrow> slots ! j < c"
      by auto
    have "slots ! j < c" if "i \<le> j" "j < k" for j
      using that k(5) False by (cases "j = i") auto
    with k r False show ?thesis
      by (intro exI [of _ k]) simp
  qed
qed auto

text \<open>The distance from slot \<open>c\<close> to slot \<open>t\<close> in a slotframe of length \<open>v\<close>.\<close>

definition slot_distance :: "nat \<Rightarrow> nat \<Rightarrow> nat \<Rightarrow> nat" where
  "slot_distance v c t = (v + t - c) mod v"

lemma unat_slot_distance:
  assumes "unat v \<le> 2 ^ 15" "c < v" "t < (v :: u16)"
  shows "unat ((v + t - c) mod v) = slot_distance (unat v) (unat c) (unat t)"
proof -
  have b: "unat c < unat v" "unat t < unat v"
    using assms(2,3) by (simp_all add: word_less_nat_alt)
  have vt: "unat (v + t) = unat v + unat t"
    by (rule unat_add_lem [THEN iffD1]) (use assms(1) b in simp)
  have "c \<le> v + t"
    unfolding word_le_nat_alt vt using b by linarith
  then have "unat (v + t - c) = unat v + unat t - unat c"
    by (simp add: unat_sub vt)
  then show ?thesis
    by (simp add: unat_mod slot_distance_def)
qed

lemma slot_distance_word:
  assumes "unat v \<le> 2 ^ 15" "c < v" "t < (v :: u16)"
  shows "(v + t - c) mod v = of_nat (slot_distance (unat v) (unat c) (unat t))"
  by (simp flip: unat_slot_distance [OF assms])

lemma slot_distance_less: "0 < v \<Longrightarrow> slot_distance v c t < v"
  by (simp add: slot_distance_def)

lemma slot_distance_reaches: "c < v \<Longrightarrow> t < v \<Longrightarrow> (c + slot_distance v c t) mod v = t"
proof -
  assume "c < v" "t < v"
  then have "(c + (v + t - c)) mod v = t"
    by simp
  then show ?thesis
    by (simp add: slot_distance_def mod_simps)
qed

lemma slot_distance_cases:
  "c \<le> t \<Longrightarrow> t < v \<Longrightarrow> slot_distance v c t = t - c" "t < c \<Longrightarrow> c < v \<Longrightarrow> slot_distance v c t = v + t - c"
  by (simp_all add: slot_distance_def mod_if)

definition next_slot_index :: "u16 list \<Rightarrow> u16 \<Rightarrow> nat \<Rightarrow> nat option" where
  "next_slot_index slots c n = do { latest \<leftarrow> rd slots (n - 1); if c > latest then Some 0 else next_tx_index slots c 0 n }"

lemma next_slot_index_earliest:
  assumes n: "0 < n" "n \<le> length slots" and s: "sorted (take n slots)" "\<forall>t \<in> set (take n slots). t < v" and c: "c < v"
  obtains k where "next_slot_index slots c n = Some k" "k < n"
    "\<forall>d < slot_distance (unat v) (unat c) (unat (slots ! k)). (unat c + d) mod unat v \<notin> unat ` set (take n slots)"
proof -
  have le: "unat (slots ! i) \<le> unat (slots ! j)" if "i \<le> j" "j < n" for i j
    using sorted_nth_mono [OF s(1), of i j] that n(2) by (simp add: word_le_nat_alt)
  have lt: "unat (slots ! j) < unat v" if "j < n" for j
    using s(2) that n(2) nth_mem [of j "take n slots"] by (simp add: word_less_nat_alt)
  have elem: "\<exists>j < n. x = unat (slots ! j)" if "x \<in> unat ` set (take n slots)" for x
    using that n(2) by (auto simp: in_set_conv_nth) blast
  have cv: "unat c < unat v"
    using c by (simp add: word_less_nat_alt)
  have l: "rd slots (n - 1) = Some (slots ! (n - 1))"
    using n by (simp add: rd_in)
  show thesis
  proof (cases "c > slots ! (n - 1)")
    case True
    then have late: "unat (slots ! j) < unat c" if "j < n" for j
    proof -
      have "unat (slots ! j) \<le> unat (slots ! (n - 1))"
        by (rule le) (use that in linarith)+
      with True show ?thesis
        by (simp add: word_less_nat_alt)
    qed
    have "(unat c + d) mod unat v \<notin> unat ` set (take n slots)" if d: "d < slot_distance (unat v) (unat c) (unat (slots ! 0))" for d
    proof
      assume "(unat c + d) mod unat v \<in> unat ` set (take n slots)"
      then obtain j where j: "j < n" "(unat c + d) mod unat v = unat (slots ! j)"
        using elem by blast
      have d': "unat c + d < unat v + unat (slots ! 0)"
        using d slot_distance_cases(2) [OF late [OF n(1)] cv] by linarith
      show False
      proof (cases "unat c + d < unat v")
        case True
        with j late [OF j(1)] show False
          by simp
      next
        case False
        then have "(unat c + d) mod unat v = unat c + d - unat v"
          using d' lt [OF n(1)] by (simp add: mod_if)
        with j d' le [of 0 j] False show False
          by linarith
      qed
    qed
    moreover have "next_slot_index slots c n = Some 0"
      using l True by (simp add: next_slot_index_def)
    ultimately show thesis
      using that n(1) by blast
  next
    case False
    then have "\<exists>j. 0 \<le> j \<and> j < 0 + n \<and> c \<le> slots ! j"
      using n(1) by (intro exI [of _ "n - 1"]) simp
    from next_tx_index_first [OF _ this] n(2) obtain k where k: "next_tx_index slots c 0 n = Some k" "k < n" "c \<le> slots ! k"
      "\<And>j. j < k \<Longrightarrow> slots ! j < c"
      by auto
    have "(unat c + d) mod unat v \<notin> unat ` set (take n slots)" if d: "d < slot_distance (unat v) (unat c) (unat (slots ! k))" for d
    proof
      assume "(unat c + d) mod unat v \<in> unat ` set (take n slots)"
      then obtain j where j: "j < n" "(unat c + d) mod unat v = unat (slots ! j)"
        using elem by blast
      have d': "unat c + d < unat (slots ! k)"
        using d slot_distance_cases(1) [of "unat c" "unat (slots ! k)" "unat v"] lt [OF k(2)] k(3) by (simp add: word_le_nat_alt)
      then have at: "unat (slots ! j) = unat c + d"
        using j(2) lt [OF k(2)] by simp
      then have "k \<le> j"
        using k(4) [of j] by (cases "j < k") (simp_all add: word_less_nat_alt)
      with le [of k j] j(1) at d' show False
        by linarith
    qed
    moreover have "next_slot_index slots c n = Some k"
      using l False k(1) by (simp add: next_slot_index_def)
    ultimately show thesis
      using that k(2) by blast
  qed
qed

section \<open>Sending\<close>

text \<open>
  What \<^verbatim>\<open>master_routing_send\<close> relies on: the slotframe \<open>i\<close> of the flow \<open>f\<close> has length \<open>v\<close>, and the tables of the schedule give, for each of
  the \<open>n\<close> rounds in it, the first and the last slot of the flow, in increasing order.
\<close>

definition flow_slots :: "master_routing \<Rightarrow> u8 \<Rightarrow> nat \<Rightarrow> u16 \<Rightarrow> nat \<Rightarrow> u16 list \<Rightarrow> u16 list \<Rightarrow> bool" where
  "flow_slots R f i v n firsts lasts \<longleftrightarrow> f \<noteq> 0 \<and> own_transmission_flow R = f
     \<and> tsch_schedule_get_slotframe_by_handle (sched (mac R)) (ucast f) = Some (Some i) \<and> i < length (slotframes (sched (mac R)))
     \<and> sf_size (slotframes (sched (mac R)) ! i) = TSCH_ASN_DIVISOR_INIT v \<and> unat v \<le> 2 ^ 15
     \<and> (unat v \<le> 257 \<or> ms1b (tsch_current_asn (mac R)) = 0)
     \<and> rd (first_tx_slot_in_flow R) (unat f - 1) = Some firsts \<and> rd (last_tx_slot_in_flow R) (unat f - 1) = Some lasts
     \<and> schedule_length R \<noteq> 0 \<and> n = unat (v div schedule_length R) \<and> 0 < n \<and> n \<le> length firsts \<and> n \<le> length lasts
     \<and> sorted (take n firsts) \<and> (\<forall>t \<in> set (take n firsts). t < v) \<and> (\<forall>t \<in> set (take n lasts). t < v)"

lemma ucast_ls4b: "(ucast (ls4b a) :: u16) = of_nat (asn_val a)"
proof -
  have "(of_nat (2 ^ 32) :: u16) = 0"
    by simp
  then have "(of_nat (asn_val a) :: u16) = of_nat (unat (ls4b a))"
    by (simp only: asn_val_def of_nat_add of_nat_mult) simp
  then show ?thesis
    by simp
qed

text \<open>The slots that are chosen, in terms of the slot number \<open>now\<close>.\<close>

lemma flow_slots_choice:
  assumes "flow_slots R f i v n firsts lasts"
  defines "now \<equiv> asn_val (tsch_current_asn (mac R))"
  obtains k d e where "next_slot_index firsts (TSCH_ASN_MOD (tsch_current_asn (mac R)) (TSCH_ASN_DIVISOR_INIT v)) n = Some k" "k < n"
    "rd firsts k = Some (firsts ! k)" "rd lasts k = Some (lasts ! k)" "v \<noteq> 0"
    "(v + firsts ! k - TSCH_ASN_MOD (tsch_current_asn (mac R)) (TSCH_ASN_DIVISOR_INIT v)) mod v = of_nat d"
    "(v + lasts ! k - firsts ! k) mod v = of_nat e" "d < unat v" "e < unat v"
    "(now + d) mod unat v = unat (firsts ! k)" "(now + d + e) mod unat v = unat (lasts ! k)"
    "\<forall>d' < d. (now + d') mod unat v \<notin> unat ` set (take n firsts)"
proof -
  let ?c = "TSCH_ASN_MOD (tsch_current_asn (mac R)) (TSCH_ASN_DIVISOR_INIT v)"
  have F: "unat v \<le> 2 ^ 15" "0 < n" "n \<le> length firsts" "n \<le> length lasts" "sorted (take n firsts)"
    "\<forall>t \<in> set (take n firsts). t < v" "\<forall>t \<in> set (take n lasts). t < v" "unat v \<le> 257 \<or> ms1b (tsch_current_asn (mac R)) = 0"
    using assms(1) unfolding flow_slots_def by blast+
  have first_less: "firsts ! j < v" "lasts ! j < v" if "j < n" for j
    using F(6,7) that F(3,4) nth_mem [of j "take n firsts"] nth_mem [of j "take n lasts"] by simp_all
  have v: "0 < v"
    using first_less(1) [OF F(2)] by (simp add: word_less_nat_alt)
  then have v': "0 < unat v"
    by (simp add: word_less_nat_alt)
  have c: "unat ?c = now mod unat v"
    unfolding now_def by (rule asn_mod_small [OF v F(8)])
  then have cv: "?c < v"
    using v' by (simp add: word_less_nat_alt)
  obtain k where k: "next_slot_index firsts ?c n = Some k" "k < n"
    "\<forall>d < slot_distance (unat v) (unat ?c) (unat (firsts ! k)). (unat ?c + d) mod unat v \<notin> unat ` set (take n firsts)"
    by (rule next_slot_index_earliest [OF F(2,3,5,6) cv])
  define d where "d = slot_distance (unat v) (unat ?c) (unat (firsts ! k))"
  define e where "e = slot_distance (unat v) (unat (firsts ! k)) (unat (lasts ! k))"
  have t: "unat (firsts ! k) < unat v" "unat (lasts ! k) < unat v" "unat ?c < unat v"
    using first_less [OF k(2)] cv by (simp_all add: word_less_nat_alt)
  have w: "(v + firsts ! k - ?c) mod v = of_nat d" "(v + lasts ! k - firsts ! k) mod v = of_nat e"
    unfolding d_def e_def using cv first_less [OF k(2)] by (simp_all only: slot_distance_word [OF F(1)])
  have reach: "(now + d) mod unat v = unat (firsts ! k)" "(now + d + e) mod unat v = unat (lasts ! k)"
    using slot_distance_reaches [OF t(3,1)] slot_distance_reaches [OF t(1,2)] c
    by (simp_all add: d_def e_def mod_add_left_eq) (metis mod_add_left_eq)
  show thesis
  proof (rule that [OF k(1,2) _ _ _ w _ _ reach])
    show "\<forall>d' < d. (now + d') mod unat v \<notin> unat ` set (take n firsts)"
      using k(3) c by (simp add: d_def mod_add_left_eq)
  qed (use k(2) F(3,4) v v' in \<open>simp_all add: rd_in d_def e_def slot_distance_less\<close>)
qed

text \<open>The packet that is sent.\<close>

definition next_packet :: "master_routing \<Rightarrow> u8 list \<Rightarrow> u16 \<Rightarrow> u16 \<Rightarrow> routing_packet" where
  "next_packet R payload earliest ttl = \<lparr>mrp_flow_number = own_transmission_flow R, mrp_packet_number = own_packet_number R + 1,
     mrp_ttl_slot_number = ttl, mrp_earliest_tx_slot = earliest, mrp_data = payload\<rparr>"

definition numbered :: "master_routing \<Rightarrow> u8 list \<Rightarrow> u16 \<Rightarrow> u16 \<Rightarrow> master_routing" where
  "numbered R payload earliest ttl = R\<lparr>mrp := copied_over (next_packet R payload earliest ttl) (mrp R), own_packet_number := own_packet_number R + 1\<rparr>"

text \<open>\<^verbatim>\<open>master_routing_send\<close> once its slots are known.\<close>

lemma send_unfold:
  assumes sl: "flow_slots R f i v n firsts lasts" and data: "unat len \<le> length data" "unat len \<le> 68" "mrp_ok (mrp R)"
    and k: "next_slot_index firsts (TSCH_ASN_MOD (tsch_current_asn (mac R)) (TSCH_ASN_DIVISOR_INIT v)) n = Some k"
      "rd firsts k = Some (firsts ! k)" "rd lasts k = Some (lasts ! k)" "v \<noteq> 0"
    and w: "(v + firsts ! k - TSCH_ASN_MOD (tsch_current_asn (mac R)) (TSCH_ASN_DIVISOR_INIT v)) mod v = of_nat d"
      "(v + lasts ! k - firsts ! k) mod v = of_nat e"
  defines "earliest \<equiv> ucast (ls4b (tsch_current_asn (mac R))) + of_nat d" and "ttl \<equiv> ucast (ls4b (tsch_current_asn (mac R))) + of_nat d + of_nat e"
  defines "R1 \<equiv> numbered R (take (unat len) data) earliest ttl"
  shows "master_routing_send data len R = (if TSCH_SLOTNUM_LT earliest (last_sent_packet_ttl R)
     then Some (0, R1\<lparr>own_packet_number := own_packet_number R\<rparr>)
     else do {
       next_receiver \<leftarrow> hash_map_lookup (forward_to R) (ucast f);
       if (ucast next_receiver :: u8) \<noteq> 0 then do {
         let R = upd_config (\<lambda>c. c\<lparr>flow_number := ucast f, ttl_slot_number := ttl, earliest_tx_slot := earliest,
           max_tx := of_int (TSCH_SLOTNUM_DIFF16 ttl (ucast (ls4b (tsch_current_asn (mac R)) - 1)))\<rparr>)
             (set_destination_link_addr (ucast next_receiver) (R1\<lparr>last_sent_packet_ttl := ttl\<rparr>));
         let R = R\<lparr>masternet_len := of_nat minimal_routing_packet_size + len\<rparr>;
         (_, R) \<leftarrow> net_output (Some (destination R)) R;
         Some (1, R)
       } else Some (1, R1\<lparr>last_sent_packet_ttl := ttl\<rparr>)
     })"
proof -
  have F: "f \<noteq> 0" "own_transmission_flow R = f" "tsch_schedule_get_slotframe_by_handle (sched (mac R)) (ucast f) = Some (Some i)"
    "rd (slotframes (sched (mac R))) i = Some (slotframes (sched (mac R)) ! i)" "sf_size (slotframes (sched (mac R)) ! i) = TSCH_ASN_DIVISOR_INIT v"
    "rd (first_tx_slot_in_flow R) (unat f - 1) = Some firsts" "rd (last_tx_slot_in_flow R) (unat f - 1) = Some lasts"
    "schedule_length R \<noteq> 0" "unat (v div schedule_length R) = n" "0 < n"
    using sl unfolding flow_slots_def by (auto simp: rd_in)
  have bs: "rd_n data 0 (unat len) = Some (take (unat len) data)" "length (take (unat len) data) = unat len"
    using data(1) by (simp_all add: rd_n_def)
  have wd: "wr_n (mrp_data (mrp R)) 0 (take (unat len) data) = Some (take (unat len) data @ drop (unat len) (mrp_data (mrp R)))"
    using data bs(2) by (simp add: wr_n_def mrp_ok_def size_defs)
  have dv: "dval (TSCH_ASN_DIVISOR_INIT v) = v"
    by (simp add: TSCH_ASN_DIVISOR_INIT_def)
  have last_round: "unat (v div schedule_length R - 1) = n - 1"
    using F(9,10) by (metis One_nat_def unat_minus_one word_gt_0 unat_gt_0)
  obtain latest where latest: "rd firsts (n - 1) = Some latest"
    "(if TSCH_ASN_MOD (tsch_current_asn (mac R)) (TSCH_ASN_DIVISOR_INIT v) > latest then Some 0
      else next_tx_index firsts (TSCH_ASN_MOD (tsch_current_asn (mac R)) (TSCH_ASN_DIVISOR_INIT v)) 0 n) = Some k"
    using k(1) by (cases "rd firsts (n - 1)") (simp_all add: next_slot_index_def)
  define R0 where "R0 = R\<lparr>mrp := (mrp R)\<lparr>mrp_flow_number := f, mrp_packet_number := own_packet_number R + 1,
    mrp_data := take (unat len) data @ drop (unat len) (mrp_data (mrp R))\<rparr>, own_packet_number := own_packet_number R + 1\<rparr>"
  have R0: "mac R0 = mac R" "first_tx_slot_in_flow R0 = first_tx_slot_in_flow R" "last_tx_slot_in_flow R0 = last_tx_slot_in_flow R"
    "schedule_length R0 = schedule_length R"
    by (simp_all add: R0_def)
  have R1: "R1 = R0\<lparr>mrp := (mrp R0)\<lparr>mrp_earliest_tx_slot := earliest, mrp_ttl_slot_number := ttl\<rparr>\<rparr>"
    using data(1) by (simp add: R1_def R0_def numbered_def next_packet_def copied_over_def F(2) min_absorb2) 
  have own: "own_packet_number (R0\<lparr>mrp := p\<rparr>) - 1 = own_packet_number R" for p
    by (simp add: R0_def)
  have R0': "last_sent_packet_ttl R0 = last_sent_packet_ttl R" "forward_to R0 = forward_to R"
    by (simp_all add: R0_def)
  have mid: "mrp_earliest_tx_slot ((mrp R0)\<lparr>mrp_earliest_tx_slot := x\<rparr>) = x" "mac (R0\<lparr>mrp := p\<rparr>) = mac R" "forward_to (R0\<lparr>mrp := p\<rparr>) = forward_to R"
    "last_sent_packet_ttl (R0\<lparr>mrp := p\<rparr>) = last_sent_packet_ttl R" for x p
    by (simp_all add: R0_def)
  have ttl: "earliest + of_nat e = ttl"
    by (simp add: earliest_def ttl_def)
  show ?thesis
    unfolding master_routing_send_def F(2) if_P [OF F(1)] Let_def bs(1) wd bind.bind_lunit R0_def [symmetric] R0 F(3-7) if_not_P [OF F(8)] dv
      F(9) last_round latest k(2,3) w if_not_P [OF k(4)] earliest_def [symmetric] own ttl R1
    by (simp add: mid R0 R0')
qed

lemma transmissions_of_slots:
  assumes "d < unat v" "e < unat v" "unat (v :: u16) \<le> 2 ^ 15" "ttl = ucast now + of_nat d + of_nat e"
  shows "unat (of_int (TSCH_SLOTNUM_DIFF16 ttl (ucast (now - 1 :: u32))) :: u16) = d + e + 1"
proof -
  have "of_int (TSCH_SLOTNUM_DIFF16 ttl (ucast (now - 1))) = ttl - (ucast now - 1)"
    unfolding TSCH_SLOTNUM_DIFF16_def ucast_minus_one by simp
  also have "\<dots> = of_nat (d + e + 1)"
    by (simp add: assms(4))
  finally show ?thesis
    using assms(1-3) unat_of_nat_u16 [of "d + e + 1"] by simp
qed

lemma send_on_flow:
  assumes sl: "flow_slots R f i v n firsts lasts" and data: "unat len \<le> length data" "unat len \<le> 68" "mrp_ok (mrp R)"
    and inv: "mac_inv ns nl nn np (mac R)" and assoc: "tsch_is_associated (mac R)" and st: "started R" "linkaddr_ok (destination R)"
    and room: "room nn np (mac R) (ucast f)" and fwd: "hm_inv (forward_to R)" "hm_abs (forward_to R) (ucast f) = Some nx" "(ucast nx :: u8) \<noteq> 0"
  defines "now \<equiv> asn_val (tsch_current_asn (mac R))"
  shows "\<exists>r R' d e k. master_routing_send data len R = Some (r, R') \<and> mac_inv ns nl nn np (mac R')
    \<and> k < n \<and> d < unat v \<and> (now + d) mod unat v = unat (firsts ! k) \<and> (\<forall>d' < d. (now + d') mod unat v \<notin> unat ` set (take n firsts))
    \<and> e < unat v \<and> (now + d + e) mod unat v = unat (lasts ! k)
    \<and> (if TSCH_SLOTNUM_LT (of_nat (now + d)) (last_sent_packet_ttl R)
       then r = 0 \<and> mac R' = mac R \<and> own_packet_number R' = own_packet_number R \<and> last_sent_packet_ttl R' = last_sent_packet_ttl R
       else r = 1 \<and> own_packet_number R' = own_packet_number R + 1 \<and> last_sent_packet_ttl R' = of_nat (now + d + e)
         \<and> sent_on_flow R f (d + e + 1) (of_nat (now + d)) (of_nat (now + d + e)) (ucast nx)
             (mrp_bytes (next_packet R (take (unat len) data) (of_nat (now + d)) (of_nat (now + d + e)))) R')"
proof -
  obtain k d e where c: "next_slot_index firsts (TSCH_ASN_MOD (tsch_current_asn (mac R)) (TSCH_ASN_DIVISOR_INIT v)) n = Some k" "k < n"
    "rd firsts k = Some (firsts ! k)" "rd lasts k = Some (lasts ! k)" "v \<noteq> 0"
    "(v + firsts ! k - TSCH_ASN_MOD (tsch_current_asn (mac R)) (TSCH_ASN_DIVISOR_INIT v)) mod v = of_nat d"
    "(v + lasts ! k - firsts ! k) mod v = of_nat e"
    "d < unat v" "e < unat v" "(now + d) mod unat v = unat (firsts ! k)" "(now + d + e) mod unat v = unat (lasts ! k)"
    "\<forall>d' < d. (now + d') mod unat v \<notin> unat ` set (take n firsts)"
    unfolding now_def by (rule flow_slots_choice [OF sl])
  let ?earliest = "of_nat (now + d) :: u16" and ?ttl = "of_nat (now + d + e) :: u16"
  have w: "ucast (ls4b (tsch_current_asn (mac R))) + of_nat d = ?earliest" "?earliest + of_nat e = ?ttl"
    by (simp_all add: ucast_ls4b now_def)
  have f: "f \<noteq> 0" "own_transmission_flow R = f" "unat v \<le> 2 ^ 15"
    using sl by (simp_all add: flow_slots_def)
  define p where "p = next_packet R (take (unat len) data) ?earliest ?ttl"
  have p: "length (mrp_data p) = unat len" "mrp_flow_number p = f"
    using data(1) f(2) by (simp_all add: p_def next_packet_def)
  define R1 where "R1 = numbered R (take (unat len) data) ?earliest ?ttl"
  have R1: "mac R1 = mac R" "mrp R1 = copied_over p (mrp R)" "started R1 = started R" "destination R1 = destination R"
    "own_packet_number R1 = own_packet_number R + 1" "last_sent_packet_ttl R1 = last_sent_packet_ttl R"
    by (simp_all add: R1_def numbered_def p_def)
  have nx: "hash_map_lookup (forward_to R) (ucast f) = Some nx"
    using fwd(1,2) f(1) hash_map_lookup_abs [of "forward_to R" "ucast f"] by (simp add: ucast_u8_u16_eq_0)
  define R2 where "R2 = (upd_config (\<lambda>c. c\<lparr>flow_number := ucast f, ttl_slot_number := ?ttl, earliest_tx_slot := ?earliest,
      max_tx := of_int (TSCH_SLOTNUM_DIFF16 ?ttl (ucast (ls4b (tsch_current_asn (mac R)) - 1)))\<rparr>)
    (set_destination_link_addr (ucast nx) (R1\<lparr>last_sent_packet_ttl := ?ttl\<rparr>)))\<lparr>masternet_len := of_nat minimal_routing_packet_size + len\<rparr>"
  have run: "master_routing_send data len R = (if TSCH_SLOTNUM_LT ?earliest (last_sent_packet_ttl R)
      then Some (0, R1\<lparr>own_packet_number := own_packet_number R\<rparr>)
      else do { (_, R) \<leftarrow> net_output (Some (destination R2)) R2; Some (1, R) })"
    using send_unfold [OF sl data c(1,3-7), unfolded w nx bind.bind_lunit if_P [OF fwd(3)]] unfolding R2_def R1_def Let_def .
  show ?thesis
  proof (cases "TSCH_SLOTNUM_LT ?earliest (last_sent_packet_ttl R)")
    case True
    then show ?thesis
      unfolding run using inv c(2,8-12) by (intro exI [of _ 0] exI [of _ "R1\<lparr>own_packet_number := own_packet_number R\<rparr>"] exI [of _ d] exI [of _ e] exI [of _ k]) (simp add: R1)
  next
    case False
    have R2: "mac R2 = mac R" "mrp R2 = copied_over p (mrp R)" "started R2 = started R" "destination R2 = (destination R)[0 := ucast nx]"
      "own_packet_number R2 = own_packet_number R + 1" "last_sent_packet_ttl R2 = ?ttl" "masternet_len R2 = of_nat minimal_routing_packet_size + len"
      "sent_packet_configuration R2 = \<lparr>ttl_slot_number = ?ttl, earliest_tx_slot = ?earliest, flow_number = ucast f,
         max_tx = of_int (TSCH_SLOTNUM_DIFF16 ?ttl (ucast (ls4b (tsch_current_asn (mac R)) - 1)))\<rparr>"
      by (simp_all add: R2_def R1 set_destination_link_addr_def upd_config_def NODE_ID_INDEX_def)
    have lb: "length (mrp_bytes p) = 7 + unat len"
      by (simp add: mrp_bytes_def p(1))
    have "of_nat minimal_routing_packet_size + len = of_nat (7 + unat len)"
      by (simp add: size_defs)
    then have ln: "unat (masternet_len R2) = length (mrp_bytes p)"
      unfolding R2 lb using data(2) by (simp only: unat_of_nat_u16)
    have tk: "take (length (mrp_bytes p)) (mrp_bytes (mrp R2)) = mrp_bytes p" "length (mrp_bytes p) \<le> 75"
      using take_copied [of p "mrp R"] data(2,3) p(1) unfolding R2 lb by (simp_all add: mrp_ok_def size_defs)
    have pre: "mac_inv ns nl nn np (mac R2)" "tsch_is_associated (mac R2)" "started R2" "linkaddr_ok (destination R2)"
      "room nn np (mac R2) (ucast f)" "mac R = mac R2" "(destination R)[0 := ucast nx] = destination R2"
      using inv assoc st room linkaddr_ok_upd unfolding R2 by simp_all
    have n: "unat (of_int (TSCH_SLOTNUM_DIFF16 ?ttl (ucast (ls4b (tsch_current_asn (mac R)) - 1))) :: u16) = d + e + 1"
      by (rule transmissions_of_slots [OF c(8,9) f(3)]) (simp only: w)
    obtain m' where m': "net_output (Some (destination R2)) R2 = Some (1, R2\<lparr>mac := m'\<rparr>)" "mac_inv ns nl nn np m'"
      "sent_on_flow R f (d + e + 1) ?earliest ?ttl (ucast nx) (mrp_bytes p) (R2\<lparr>mac := m'\<rparr>)"
      using net_output_on_flow [OF pre(1-3) ln tk pre(4,5) R2(8) pre(6,7)] unfolding n by blast
    then have out: "master_routing_send data len R = Some (1, R2\<lparr>mac := m'\<rparr>)" "mac_inv ns nl nn np (mac (R2\<lparr>mac := m'\<rparr>))"
      "own_packet_number (R2\<lparr>mac := m'\<rparr>) = own_packet_number R + 1" "last_sent_packet_ttl (R2\<lparr>mac := m'\<rparr>) = ?ttl"
      unfolding run if_not_P [OF False] by (simp_all add: R2)
    show ?thesis
      by (intro exI [of _ 1] exI [of _ "R2\<lparr>mac := m'\<rparr>"] exI [of _ d] exI [of _ e] exI [of _ k], unfold if_not_P [OF False] p_def [symmetric], intro conjI)
        (rule out c(2,8-12) refl m'(3))+
  qed
qed

text \<open>
  C6. A packet starts in the next slot of its flow.  The node at the start of a flow, which has room for the packet, puts it into the queue of the
  flow, addressed to the next node, with the next number, marked with the first slot of the flow that is still to come, \<open>d\<close> slots
  ahead, and with the last slot of that round, \<open>e\<close> slots later, and with one transmission for every slot up to the last.  If this first slot lies before
  the last slot of the previous packet, it refuses the packet, uses no number and leaves the queues alone.
\<close>

theorem packet_sent_in_next_slot:
  assumes "flow_slots R f i v n firsts lasts" "unat len \<le> length data" "unat len \<le> 68" "mrp_ok (mrp R)"
    and "mac_inv ns nl nn np (mac R)" "tsch_is_associated (mac R)" "started R" "linkaddr_ok (destination R)"
    and "room nn np (mac R) (ucast f)" "hm_inv (forward_to R)" "hm_abs (forward_to R) (ucast f) = Some nx" "(ucast nx :: u8) \<noteq> 0"
    and "now = asn_val (tsch_current_asn (mac R))"
  shows "\<exists>r R' d e k. master_routing_send data len R = Some (r, R') \<and> mac_inv ns nl nn np (mac R')
    \<and> k < n \<and> d < unat v \<and> (now + d) mod unat v = unat (firsts ! k) \<and> (\<forall>d' < d. (now + d') mod unat v \<notin> unat ` set (take n firsts))
    \<and> e < unat v \<and> (now + d + e) mod unat v = unat (lasts ! k)
    \<and> (if TSCH_SLOTNUM_LT (of_nat (now + d)) (last_sent_packet_ttl R)
       then r = 0 \<and> mac R' = mac R \<and> own_packet_number R' = own_packet_number R \<and> last_sent_packet_ttl R' = last_sent_packet_ttl R
       else r = 1 \<and> own_packet_number R' = own_packet_number R + 1 \<and> last_sent_packet_ttl R' = of_nat (now + d + e)
         \<and> sent_on_flow R f (d + e + 1) (of_nat (now + d)) (of_nat (now + d + e)) (ucast nx)
             (mrp_bytes (next_packet R (take (unat len) data) (of_nat (now + d)) (of_nat (now + d + e)))) R')"
  unfolding assms(13) by (rule send_on_flow [OF assms(1-12)])

theorem packet_sent_in_next_slot_witness:
  "\<exists>R R' j. master_routing_send [1, 2, 3] 3 R = Some (1, R') \<and> flow_queue (mac R) 1 = []
     \<and> flow_queue (mac R') 1 = [j] \<and> unat (max_transmissions (pkts (queues_of (mac R')) ! j)) = 7"
proof -
  let ?t = "\<lparr>number_entries = 0, nodes = replicate 3 free_node\<rparr>" and ?w = "replicate 30 (0 :: float32)" and ?S = "sched_initial 7 8 12 8"
  note S = sched_initial_inv [of 7 8 12 8]
  have fr: "frames ?S 1 = None" "length (slotframe_list ?S) \<noteq> 7"
    by (simp_all add: S(3) frames_def)
  obtain i S2 where S2: "sched_inv 7 8 12 8 S2" "slotframe_list S2 = slotframe_list ?S @ [i]" "sf_handle (sf_of S2 i) = 1"
    "frames S2 = (frames ?S)(1 \<mapsto> 11)" "sq S2 = sq ?S"
    by (rule add_slotframe_ok [OF S(1,2) _ fr, of 11]) simp
  have inv: "hm_inv ?t" "hm_abs ?t = Map.empty"
    using hm_inv_clear [of ?t] by (simp_all add: hash_map_clear_table_def)
  obtain t where t: "hash_map_insert ?t 1 3 = Some (1, t)" "hm_inv t" "hm_abs t = [1 \<mapsto> 3]"
    using hash_map_insert_correct [OF inv(1), of 1 3] inv(2) by (auto simp: bmap_insert_def)
  define R where "R = (mr_example 2 ?w)\<lparr>mac := (mac_initial pb_initial)\<lparr>sched := S2\<rparr>, own_transmission_flow := 1, schedule_length := 11,
      first_tx_slot_in_flow := [[4]], last_tx_slot_in_flow := [[6]], forward_to := t\<rparr>"
  have e: "sched (mac R) = S2" "destination R = linkaddr_null" "mrp_ok (mrp R)" "started R" "last_sent_packet_ttl R = 0" "own_transmission_flow R = 1"
    "tsch_is_associated (mac R)" "tsch_current_asn (mac R) = Asn 0 0" "forward_to R = t"
    by (simp_all add: R_def mr_example_def mrp_ok_def size_defs) (simp_all add: mac_initial_def)
  have q: "queues_of (mac R) = queues_of (mac_initial pb_initial)"
    using S2(5) by (simp add: queues_of_def e(1)) (simp add: mac_initial_def)
  have i: "i \<in> set (slotframe_list S2)" "i < length (slotframes S2)"
    using S2(2) sf_less [OF S2(1)] by simp_all
  have g: "tsch_schedule_get_slotframe_by_handle S2 1 = Some (Some i)"
    using S(2) S2(5) sf_less [OF S2(1)] S2(2) find_sf [OF S2(1) i(1) S2(3)] i
    by (simp add: tsch_schedule_get_slotframe_by_handle_def tsch_is_locked_def find_rd_find)
  have sz: "sf_size (slotframes S2 ! i) = TSCH_ASN_DIVISOR_INIT 11"
    using S2(1,4) frames_at [OF S2(1) i(1)] i(1) S2(3) by (auto simp: sched_inv_def frames_inv_def)
  have sl: "flow_slots R 1 i 11 1 [4] [6]"
    using g i(2) sz by (simp add: flow_slots_def R_def rd_def)
  have m: "mac_inv 7 8 12 8 (mac_initial pb_initial)"
    by (rule mac_initial_inv(1) [OF pb_inv_initial])
  have mac: "mac_inv 7 8 12 8 (mac R)" "room 12 8 (mac R) (ucast (1 :: u8))"
    using m S2(1,5) mac_initial_inv(2) [of pb_initial 1] S(2) unfolding room_def mac_inv_def q
    by (simp_all add: mac_inv_def e(1)) (simp_all add: R_def queues_of_def)
  have pre: "unat (3 :: u16) \<le> length [1, 2, 3 :: u8]" "unat (3 :: u16) \<le> 68" "hm_abs (forward_to R) (ucast (1 :: u8)) = Some 3"
    "(ucast (3 :: u16) :: u8) \<noteq> 0" "hm_inv (forward_to R)" "linkaddr_ok (destination R)" "0 = asn_val (tsch_current_asn (mac R))"
    using t(2,3) by (simp_all add: e linkaddr_ok_def linkaddr_null_def LINKADDR_SIZE_def asn_val_def)
  obtain r R' d k l where R': "master_routing_send [1, 2, 3] 3 R = Some (r, R')" "k < 1" "d < unat (11 :: u16)"
    "(0 + d) mod unat (11 :: u16) = unat ([4 :: u16] ! k)" "l < unat (11 :: u16)" "(0 + d + l) mod unat (11 :: u16) = unat ([6 :: u16] ! k)"
    "if TSCH_SLOTNUM_LT (of_nat (0 + d)) (last_sent_packet_ttl R)
       then r = 0 \<and> mac R' = mac R \<and> own_packet_number R' = own_packet_number R \<and> last_sent_packet_ttl R' = last_sent_packet_ttl R
       else r = 1 \<and> own_packet_number R' = own_packet_number R + 1 \<and> last_sent_packet_ttl R' = of_nat (0 + d + l)
         \<and> sent_on_flow R 1 (d + l + 1) (of_nat (0 + d)) (of_nat (0 + d + l)) (ucast (3 :: u16))
             (mrp_bytes (next_packet R (take (unat (3 :: u16)) [1, 2, 3]) (of_nat (0 + d)) (of_nat (0 + d + l)))) R'"
    by (rule packet_sent_in_next_slot [OF sl pre(1,2) e(3) mac(1) e(7,4) pre(6) mac(2) pre(5,3,4,7), THEN exE],
        elim exE conjE, rule that, assumption+)
  have "d = 4" "l = 2"
    using R'(2-6) by (simp_all add: mod_if split: if_splits)
  with R'(7) have "r = 1" "sent_on_flow R 1 7 4 6 3 (mrp_bytes (next_packet R [1, 2, 3] 4 6)) R'"
    by (simp_all add: e TSCH_SLOTNUM_LT_def TSCH_SLOTNUM_DIFF16_def split: if_splits)
  then show ?thesis
    using R'(1) mac_initial_inv(3) [of pb_initial 1] unfolding sent_on_flow_def q
    by (intro exI [of _ R] exI [of _ R']) (auto simp: q)
qed

end
