(* ===== verification/Master_Discovery.thy ===== *)
theory Master_Discovery
  imports Master_Packets Tsch_Next_Link
begin

text \<open>
  The discovery schedule: \<^verbatim>\<open>install_discovery_schedule\<close> and \<^verbatim>\<open>add_link_to_best_node\<close>, in terms of the abstract
  schedule of \<open>Tsch_Schedule_Spec\<close>, and the start of the layer by \<^verbatim>\<open>init_master_routing\<close>.
\<close>

section \<open>Installing the discovery schedule\<close>

text \<open>The links in use are as many as the entries of the schedule.\<close>

lemma card_link_live:
  assumes "sched_inv ns nl nn np S"
  shows "card (link_live S) = card (dom (schedule S))"
proof -
  have "dom (schedule S) = (\<lambda>l. link_key (links S ! l)) ` link_live S"
    unfolding dom_def schedule_None [OF assms] by (force simp: image_iff)
  then show ?thesis
    using card_image [OF link_key_inj [OF assms]] by simp
qed

abbreviation handle :: "master_routing \<Rightarrow> u16" where
  "handle R \<equiv> of_nat (discovery R)"

abbreviation listening :: "master_routing \<Rightarrow> link_info" where
  "listening R \<equiv> (LINK_OPTION_RX, LINK_TYPE_NORMAL, getAddressByNodeID (uint (node_id R)), snd (rx_slot R))"

text \<open>The slotframe is made anew, without links.\<close>

lemma renew_slotframe:
  assumes S: "sched_inv ns nl nn np S" "\<not> locked (sq S)" and room: "frames S h \<noteq> None \<or> length (slotframe_list S) < ns" and sz: "sz \<noteq> 0"
  obtains s S1 i S2 where "tsch_schedule_get_slotframe_by_handle S h = Some s"
    "(if s \<noteq> None then map_option snd (tsch_schedule_remove_slotframe S s) else Some S) = Some S1"
    "tsch_schedule_add_slotframe S1 h sz = Some (Some i, S2)" "sched_inv ns nl nn np S2" "\<not> locked (sq S2)" "same_queues (sq S) (sq S2)"
    "i \<in> set (slotframe_list S2)" "sf_handle (sf_of S2 i) = h" "frames S2 = (frames S)(h \<mapsto> sz)"
    "schedule S2 = (\<lambda>(h', t). if h' = h then None else schedule S (h', t))" "set (slotframe_list S2) = insert i {j \<in> set (slotframe_list S). sf_handle (sf_of S j) \<noteq> h}"
proof -
  have get: "tsch_schedule_get_slotframe_by_handle S h = Some (find (\<lambda>i. sf_handle (sf_of S i) = h) (slotframe_list S))"
    using S(2) sf_less [OF S(1)] by (simp add: tsch_schedule_get_slotframe_by_handle_def tsch_is_locked_def find_rd_find)
  have len: "length (slotframe_list S) \<le> ns"
  proof -
    have "card (set (slotframe_list S)) \<le> ns" "distinct (slotframe_list S)"
      using S(1) elem_used_finite unfolding sched_inv_def frames_inv_def by metis+
    then show ?thesis
      by (simp add: distinct_card)
  qed
  show thesis
  proof (cases "find (\<lambda>i. sf_handle (sf_of S i) = h) (slotframe_list S)")
    case None
    then have h: "frames S h = None" "\<And>j. j \<in> set (slotframe_list S) \<Longrightarrow> sf_handle (sf_of S j) \<noteq> h"
      by (simp_all add: frames_def find_None_iff)
    then have "length (slotframe_list S) \<noteq> ns"
      using room by auto
    from add_slotframe_ok [OF S sz h(1) this] obtain i S2 where S2: "tsch_schedule_add_slotframe S h sz = Some (Some i, S2)" "sched_inv ns nl nn np S2"
      "slotframe_list S2 = slotframe_list S @ [i]" "sf_handle (sf_of S2 i) = h" "frames S2 = (frames S)(h \<mapsto> sz)" "schedule S2 = schedule S" "sq S2 = sq S"
      by metis
    have "schedule S = (\<lambda>(h', t). if h' = h then None else schedule S (h', t))"
      using None by (auto simp: schedule_def fun_eq_iff)
    then have "schedule S2 = (\<lambda>(h', t). if h' = h then None else schedule S (h', t))"
      unfolding S2(6) .
    moreover have "set (slotframe_list S2) = insert i {j \<in> set (slotframe_list S). sf_handle (sf_of S j) \<noteq> h}"
      using S2(3) h(2) by auto
    ultimately show thesis
      using that [of None S i S2] get None S2(1,2,3,4,5,7) S(2) by simp
  next
    case (Some j)
    then have j: "j \<in> set (slotframe_list S)" "sf_handle (sf_of S j) = h"
      by (auto simp: find_Some_iff)
    obtain S1 where S1: "tsch_schedule_remove_slotframe S (Some j) = Some (True, S1)" "sched_inv ns nl nn np S1"
      "slotframe_list S1 = remove1 j (slotframe_list S)" "same_queues (sq S) (sq S1)" "frames S1 = (frames S)(h := None)"
      "schedule S1 = (\<lambda>(h', t). if h' = h then None else schedule S (h', t))"
      by (rule remove_slotframe_spec [OF S j(1), unfolded j(2)])
    have u: "\<not> locked (sq S1)" "frames S1 h = None"
      using S1(4,5) S(2) unlocked_same_queues by auto
    have "length (slotframe_list S1) < length (slotframe_list S)"
      using S1(3) j(1) by (metis One_nat_def diff_less length_pos_if_in_set length_remove1 zero_less_one)
    with len have "length (slotframe_list S1) \<noteq> ns"
      by simp
    from add_slotframe_ok [OF S1(2) u(1) sz u(2) this] obtain i S2 where S2: "tsch_schedule_add_slotframe S1 h sz = Some (Some i, S2)" "sched_inv ns nl nn np S2"
      "slotframe_list S2 = slotframe_list S1 @ [i]" "sf_handle (sf_of S2 i) = h" "frames S2 = (frames S1)(h \<mapsto> sz)" "schedule S2 = schedule S1" "sq S2 = sq S1"
      by metis
    have "distinct (slotframe_list S)"
      using S(1) by (simp add: sched_inv_def frames_inv_def)
    then have "set (slotframe_list S1) = set (slotframe_list S) - {j}"
      by (simp add: S1(3))
    moreover have "sf_handle (sf_of S k) = h \<longleftrightarrow> k = j" if "k \<in> set (slotframe_list S)" for k
      using sf_unique [OF S(1) that j(1)] j(2) by auto
    ultimately have "set (slotframe_list S1) = {k \<in> set (slotframe_list S). sf_handle (sf_of S k) \<noteq> h}"
      by blast
    then have "set (slotframe_list S2) = insert i {j \<in> set (slotframe_list S). sf_handle (sf_of S j) \<noteq> h}"
      by (simp add: S2(3))
    moreover have "frames S2 = (frames S)(h \<mapsto> sz)" "same_queues (sq S) (sq S2)" "\<not> locked (sq S2)"
      using S1(4,5) S2(5,7) u(1) by simp_all
    moreover have "(if Some j \<noteq> None then map_option snd (tsch_schedule_remove_slotframe S (Some j)) else Some S) = Some S1"
      using S1(1) by simp
    moreover have "schedule S2 = (\<lambda>(h', t). if h' = h then None else schedule S (h', t))" "i \<in> set (slotframe_list S2)"
      using S1(6) S2(3,6) by simp_all
    ultimately show thesis
      using that [OF get [unfolded Some] _ S2(1,2)] S2(4) by blast
  qed
qed

lemma install_discovery_ok:
  assumes inv: "mac_inv ns nl nn np (mac R)" and ar: "arrays_ok N R" and d: "discovery R < length (sf R)"
    and room: "frames (sched (mac R)) (handle R) \<noteq> None \<or> length (slotframe_list (sched (mac R))) < ns" "card (link_live (sched (mac R))) < nl"
    and rx: "fst (rx_slot R) < 40" "snd (rx_slot R) \<le> 15"
  obtains i S' where "install_discovery_schedule R = Some ((set_schedule R S')\<lparr>sf := (sf R)[discovery R := Some i], own_receiver := 0\<rparr>)"
    "sched_inv ns nl nn np S'" "\<not> locked (sq S')" "same_queues (queues_of (mac R)) (sq S')" "i \<in> set (slotframe_list S')" "sf_handle (sf_of S' i) = handle R"
    "frames S' = (frames (sched (mac R)))(handle R \<mapsto> 40)"
    "schedule S' = (\<lambda>(h, t). if h = handle R then if t = fst (rx_slot R) then Some (listening R) else None else schedule (sched (mac R)) (h, t))"
    "card (link_live S') \<le> card (link_live (sched (mac R))) + 1"
proof -
  let ?S = "sched (mac R)" and ?h = "handle R"
  have S: "sched_inv ns nl nn np ?S" "\<not> locked (sq ?S)"
    using inv by (simp_all add: mac_inv_def queues_of_def)
  obtain s S1 i S2 where S2: "tsch_schedule_get_slotframe_by_handle ?S ?h = Some s"
    "(if s \<noteq> None then map_option snd (tsch_schedule_remove_slotframe ?S s) else Some ?S) = Some S1"
    "tsch_schedule_add_slotframe S1 ?h 40 = Some (Some i, S2)" "sched_inv ns nl nn np S2" "\<not> locked (sq S2)" "same_queues (sq ?S) (sq S2)"
    "i \<in> set (slotframe_list S2)" "sf_handle (sf_of S2 i) = ?h" "frames S2 = (frames ?S)(?h \<mapsto> 40)"
    "schedule S2 = (\<lambda>(h', t). if h' = ?h then None else schedule ?S (h', t))" "set (slotframe_list S2) = insert i {j \<in> set (slotframe_list ?S). sf_handle (sf_of ?S j) \<noteq> ?h}"
    by (rule renew_slotframe [OF S room(1), of 40]) simp
  have i: "\<forall>j. Some i = Some j \<longrightarrow> j \<in> set (slotframe_list S2) \<and> sf_handle (sf_of S2 j) = ?h"
    using S2(7,8) by simp
  obtain t c where tc: "rx_slot R = (t, c)"
    by fastforce
  obtain l S3 where S3: "tsch_schedule_add_link S2 (Some i) LINK_OPTION_RX LINK_TYPE_NORMAL (Some (getAddressByNodeID (uint (node_id R)))) t c = Some (l, S3)"
    "sched_inv ns nl nn np S3" "\<not> locked (sq S3)" "slotframe_list S3 = slotframe_list S2" "frames S3 = frames S2" "same_queues (sq S2) (sq S3)"
    "\<forall>j. Some i = Some j \<longrightarrow> sf_handle (sf_of S3 j) = ?h"
    "schedule S3 = (if l = None then schedule S2 else (schedule S2)((?h, t) \<mapsto> (LINK_OPTION_RX, LINK_TYPE_NORMAL, getAddressByNodeID (uint (node_id R)), c)))"
    "(l \<noteq> None) \<longleftrightarrow> Some i \<noteq> None \<and> t < dval (sf_size (sf_of S2 (the (Some i)))) \<and> c \<le> 15 \<and> \<not> (schedule S2 (?h, t) = None \<and> card (link_live S2) = nl)"
    by (rule add_best_link [OF S2(4,5) i, of LINK_OPTION_RX LINK_TYPE_NORMAL "uint (node_id R)" t c])
  have fin: "finite (dom (schedule ?S))"
    using schedule_Some [OF S(1)] link_live_eq [OF S(1)] finite_subset [of "dom (schedule ?S)" "(\<lambda>l. link_key (links ?S ! l)) ` link_live ?S"]
    by (force simp: dom_def)
  have live: "card (link_live S2) \<le> card (link_live ?S)"
    unfolding card_link_live [OF S(1)] card_link_live [OF S2(4)] by (rule card_mono [OF fin]) (auto simp: S2(10) dom_def split: if_splits)
  have "dval (sf_size (sf_of S2 i)) = 40"
    using frames_at [OF S2(4,7)] S2(8,9) by simp
  then have "l \<noteq> None"
    using S3(9) rx tc live room(2) by simp
  then have sch: "schedule S3 = (\<lambda>(h, u). if h = ?h then if u = fst (rx_slot R) then Some (listening R) else None else schedule ?S (h, u))"
    using S3(8) S2(10) tc by (auto simp: fun_eq_iff)
  have "card (link_live S3) \<le> card (insert (?h, t) (dom (schedule ?S)))"
    unfolding card_link_live [OF S3(2)] by (rule card_mono) (use fin tc in \<open>auto simp: sch dom_def split: if_splits\<close>)
  also have "\<dots> \<le> card (link_live ?S) + 1"
    unfolding card_link_live [OF S(1)] using fin by (simp add: card_insert_if)
  finally have more: "card (link_live S3) \<le> card (link_live ?S) + 1" .
  have n: "unat (node_id R) < 200"
    using ar by (simp add: arrays_ok_def MAX_EXPECTED_NODES_IN_NETWORK_def)
  have run: "install_discovery_schedule R = Some ((set_schedule R S3)\<lparr>sf := (sf R)[discovery R := Some i], own_receiver := 0\<rparr>)"
    using S2(1-3) S3(1) d tc matrix_at_in [OF ar n, of 3] matrix_at_in [OF ar n, of 4]
    by (cases "s = None"; cases "matrix R ! unat (node_id R) ! 3 = 0")
      (auto simp: install_discovery_schedule_def wr_in on_schedule_eq set_schedule_def rx_slot_def discovery_def Let_def)
  have "same_queues (queues_of (mac R)) (sq S3)"
    using same_queues_trans [OF S2(6) S3(6)] by (simp add: queues_of_def)
  then show thesis
    by (rule that [OF run S3(2,3) _ _ _ _ sch more]) (use S2 S3 in simp_all)
qed

section \<open>Meeting the best node\<close>

lemma first_best_link:
  assumes S: "sched_inv ns nl nn np (sched (mac R))" "\<not> locked (sq (sched (mac R)))" and ar: "arrays_ok N R"
    and i: "rd (sf R) (discovery R) = Some (Some i)" "i \<in> set (slotframe_list (sched (mac R)))" "sf_handle (sf_of (sched (mac R)) i) = handle R"
    and none: "best_tsch_shedule_link R = None" and fr: "frames (sched (mac R)) (handle R) = Some 40"
    and tx: "fst (tx_slot R) < 40" "snd (tx_slot R) \<le> 15" and room: "card (link_live (sched (mac R))) < nl"
  obtains l S' where "add_link_to_best_node R = Some ((set_schedule R S')\<lparr>best_tsch_shedule_link := Some l\<rparr>)" "sched_inv ns nl nn np S'"
    "frames S' = frames (sched (mac R))" "schedule S' = (schedule (sched (mac R)))((handle R, fst (tx_slot R)) \<mapsto> best_link_info R)"
proof -
  let ?S = "sched (mac R)"
  obtain t c where tc: "tx_slot R = (t, c)"
    by fastforce
  have s: "\<forall>j. Some i = Some j \<longrightarrow> j \<in> set (slotframe_list ?S) \<and> sf_handle (sf_of ?S j) = handle R"
    using i by simp
  obtain l S' where S': "tsch_schedule_add_link ?S (Some i) LINK_OPTION_TX LINK_TYPE_NORMAL (Some (getAddressByNodeID (uint (bestNode R)))) t c = Some (l, S')"
    "sched_inv ns nl nn np S'" "\<not> locked (sq S')" "slotframe_list S' = slotframe_list ?S" "frames S' = frames ?S" "same_queues (sq ?S) (sq S')"
    "\<forall>j. Some i = Some j \<longrightarrow> sf_handle (sf_of S' j) = handle R"
    "schedule S' = (if l = None then schedule ?S else (schedule ?S)((handle R, t) \<mapsto> (LINK_OPTION_TX, LINK_TYPE_NORMAL, getAddressByNodeID (uint (bestNode R)), c)))"
    "(l \<noteq> None) \<longleftrightarrow> Some i \<noteq> None \<and> t < dval (sf_size (sf_of ?S (the (Some i)))) \<and> c \<le> 15 \<and> \<not> (schedule ?S (handle R, t) = None \<and> card (link_live ?S) = nl)"
    by (rule add_best_link [OF S s, of LINK_OPTION_TX LINK_TYPE_NORMAL "uint (bestNode R)" t c])
  have "dval (sf_size (sf_of ?S i)) = 40"
    using frames_at [OF S(1) i(2)] i(3) fr by simp
  then obtain k where k: "l = Some k"
    using S'(9) tx tc room by auto
  have n: "unat (node_id R) < 200"
    using ar by (simp add: arrays_ok_def MAX_EXPECTED_NODES_IN_NETWORK_def)
  have "add_link_to_best_node R = Some ((set_schedule R S')\<lparr>best_tsch_shedule_link := Some k\<rparr>)"
    using S'(1) k i(1) none tc matrix_at_in [OF ar n, of 1] matrix_at_in [OF ar n, of 2]
    by (cases "matrix R ! unat (node_id R) ! 1 = 0")
      (simp_all add: add_link_to_best_node_def on_schedule_eq set_schedule_def tx_slot_def Let_def)
  then show thesis
    by (rule that [OF _ S'(2,5)]) (use S'(8) k tc in simp)
qed

text \<open>An entry of the schedule is a link that is active whenever its slot comes.\<close>

lemma scheduled_link:
  assumes "sched_inv ns nl nn np S" "frames S h = Some len" "schedule S (h, t) = Some v"
  obtains l where "l \<in> link_live S" "link_info (links S ! l) = v" "\<And>T. T mod unat len = unat t \<Longrightarrow> active_at S T l"
proof -
  obtain l where "l \<in> link_live S" "link_key (links S ! l) = (h, t)" "link_info (links S ! l) = v"
    using assms(3) unfolding schedule_Some [OF assms(1)] by auto
  with that [of l] assms(2) show thesis
    by (simp add: active_at_def link_key_def)
qed

lemma slot_comes: "t < 40 \<Longrightarrow> \<exists>d < 40. (T + d) mod 40 = (t :: nat)"
proof -
  assume t: "t < 40"
  let ?d = "(40 + t - T mod 40) mod 40"
  have "T + (40 + t - T mod 40) = t + 40 * (T div 40 + 1)"
  proof -
    have "T mod 40 < 40"
      by simp
    moreover have "T + (40 + t - r) = t + 40 * (q + 1)" if "T = 40 * q + r" "r < 40" for q r
      using that by simp
    ultimately show ?thesis
      using mult_div_mod_eq [of 40 T] by metis
  qed
  then have "(T + (40 + t - T mod 40)) mod 40 = t"
    using t by (simp only: mod_mult_self2) simp
  then have "(T + ?d) mod 40 = t"
    by (simp only: mod_add_right_eq)
  then show ?thesis
    by (intro exI [of _ ?d]) simp
qed

text \<open>The schedule of a node that listens in its own slot and sends to its best node, and that of a node that only listens.\<close>

lemma receiver_schedule:
  assumes "mac_inv ns nl nn np (mac B)" "arrays_ok N B" "discovery B < length (sf B)"
    and "frames (sched (mac B)) (handle B) \<noteq> None \<or> length (slotframe_list (sched (mac B))) < ns" "card (link_live (sched (mac B))) < nl"
    and "fst (rx_slot B) < 40" "snd (rx_slot B) \<le> 15"
  obtains B1 where "install_discovery_schedule B = Some B1" "sched_inv ns nl nn np (sched (mac B1))" "frames (sched (mac B1)) (handle B) = Some 40"
    "schedule (sched (mac B1)) (handle B, fst (rx_slot B)) = Some (listening B)"
proof (rule install_discovery_ok [OF assms])
  fix j T1
  assume h: "install_discovery_schedule B = Some ((set_schedule B T1)\<lparr>sf := (sf B)[discovery B := Some j], own_receiver := 0\<rparr>)"
    "sched_inv ns nl nn np T1" "frames T1 = (frames (sched (mac B)))(handle B \<mapsto> 40)"
    "schedule T1 = (\<lambda>(h, t). if h = handle B then if t = fst (rx_slot B) then Some (listening B) else None else schedule (sched (mac B)) (h, t))"
  have "sched (mac ((set_schedule B T1)\<lparr>sf := (sf B)[discovery B := Some j], own_receiver := 0\<rparr>)) = T1"
    by (simp add: set_schedule_def)
  with h show thesis
    by (intro that [OF h(1)]) simp_all
qed

lemma sender_schedule:
  assumes "mac_inv ns nl nn np (mac A)" "arrays_ok N A" "discovery A < length (sf A)" "best_tsch_shedule_link A = None"
    and "frames (sched (mac A)) (handle A) \<noteq> None \<or> length (slotframe_list (sched (mac A))) < ns" "card (link_live (sched (mac A))) + 1 < nl"
    and rx: "fst (rx_slot A) < 40" "snd (rx_slot A) \<le> 15" and tx: "fst (tx_slot A) < 40" "snd (tx_slot A) \<le> 15"
  obtains A1 A2 where "install_discovery_schedule A = Some A1" "add_link_to_best_node A1 = Some A2" "sched_inv ns nl nn np (sched (mac A2))"
    "frames (sched (mac A2)) (handle A) = Some 40"
    "schedule (sched (mac A2)) (handle A, fst (tx_slot A))
       = Some (LINK_OPTION_TX, LINK_TYPE_NORMAL, getAddressByNodeID (uint (bestNode A)), snd (tx_slot A))"
    "fst (rx_slot A) \<noteq> fst (tx_slot A) \<Longrightarrow> schedule (sched (mac A2)) (handle A, fst (rx_slot A)) = Some (listening A)"
proof -
  have room: "card (link_live (sched (mac A))) < nl"
    using assms(6) by linarith
  obtain i S1 where A1: "install_discovery_schedule A = Some ((set_schedule A S1)\<lparr>sf := (sf A)[discovery A := Some i], own_receiver := 0\<rparr>)"
    "sched_inv ns nl nn np S1" "\<not> locked (sq S1)" "same_queues (queues_of (mac A)) (sq S1)" "i \<in> set (slotframe_list S1)" "sf_handle (sf_of S1 i) = handle A"
    "frames S1 = (frames (sched (mac A)))(handle A \<mapsto> 40)"
    "schedule S1 = (\<lambda>(h, t). if h = handle A then if t = fst (rx_slot A) then Some (listening A) else None else schedule (sched (mac A)) (h, t))"
    "card (link_live S1) \<le> card (link_live (sched (mac A))) + 1"
    by (rule install_discovery_ok [OF assms(1-3,5) room rx])
  define A1 where "A1 = (set_schedule A S1)\<lparr>sf := (sf A)[discovery A := Some i], own_receiver := 0\<rparr>"
  have s1: "sched (mac A1) = S1" "discovery A1 = discovery A" "best_tsch_shedule_link A1 = None" "tx_slot A1 = tx_slot A" "bestNode A1 = bestNode A"
    "rd (sf A1) (discovery A1) = Some (Some i)" "arrays_ok N A1"
    using assms(2,3,4) by (simp_all add: A1_def set_schedule_def discovery_def tx_slot_def arrays_ok_def rd_in Let_def)
  have pre: "sched_inv ns nl nn np (sched (mac A1))" "\<not> locked (sq (sched (mac A1)))" "i \<in> set (slotframe_list (sched (mac A1)))"
    "sf_handle (sf_of (sched (mac A1)) i) = handle A1" "frames (sched (mac A1)) (handle A1) = Some 40" "fst (tx_slot A1) < 40" "snd (tx_slot A1) \<le> 15"
    "card (link_live (sched (mac A1))) < nl"
    using A1 assms(6) tx unfolding s1 by simp_all
  obtain l S2 where S2: "add_link_to_best_node A1 = Some ((set_schedule A1 S2)\<lparr>best_tsch_shedule_link := Some l\<rparr>)" "sched_inv ns nl nn np S2"
    "frames S2 = frames (sched (mac A1))" "schedule S2 = (schedule (sched (mac A1)))((handle A1, fst (tx_slot A1)) \<mapsto> best_link_info A1)"
    by (rule first_best_link [OF pre(1,2) s1(7,6) pre(3,4) s1(3) pre(5-8)])
  have "sched (mac ((set_schedule A1 S2)\<lparr>best_tsch_shedule_link := Some l\<rparr>)) = S2"
    by (simp add: set_schedule_def)
  then show thesis
    using S2(2-4) A1(7,8) by (intro that [OF A1(1) [folded A1_def] S2(1)]) (simp_all add: s1)
qed


lemma mr_example_slots:
  assumes "unat i < 200"
  shows "rx_slot (mr_example i w) = (i, 0)" "tx_slot ((mr_example i w)\<lparr>bestNode := b\<rparr>) = (ucast b, 0)" "rx_slot ((mr_example i w)\<lparr>bestNode := b\<rparr>) = (i, 0)"
  using assms by (simp_all add: rx_slot_def tx_slot_def mr_example_def Let_def)


section \<open>Starting the layer\<close>

abbreviation advertising :: link_info where
  "advertising \<equiv> (LINK_OPTION_TX OR LINK_OPTION_RX, LINK_TYPE_ADVERTISING_ONLY, tsch_broadcast_address, 0)"

text \<open>Slotframe 0 with its single link; both \<^verbatim>\<open>init_master_routing\<close> and \<^verbatim>\<open>master_install_schedule\<close> make one.\<close>

lemma advertising_frame:
  assumes S: "sched_inv ns nl nn np S" "\<not> locked (sq S)" "sz \<noteq> 0" "frames S 0 = None" "length (slotframe_list S) \<noteq> ns" "card (link_live S) < nl"
  obtains i S2 k S3 where "tsch_schedule_add_slotframe S 0 sz = Some (Some i, S2)"
    "tsch_schedule_add_link S2 (Some i) (LINK_OPTION_TX OR LINK_OPTION_RX) LINK_TYPE_ADVERTISING_ONLY (Some tsch_broadcast_address) 0 0 = Some (Some k, S3)"
    "sched_inv ns nl nn np S3" "\<not> locked (sq S3)" "same_queues (sq S) (sq S3)" "slotframe_list S3 = slotframe_list S @ [i]" "sf_handle (sf_of S3 i) = 0"
    "frames S3 = (frames S)(0 \<mapsto> sz)" "schedule S3 = (schedule S)((0, 0) \<mapsto> advertising)"
proof -
  obtain i S2 where S2: "tsch_schedule_add_slotframe S 0 sz = Some (Some i, S2)" "sched_inv ns nl nn np S2" "slotframe_list S2 = slotframe_list S @ [i]"
    "sf_handle (sf_of S2 i) = 0" "frames S2 = (frames S)(0 \<mapsto> sz)" "schedule S2 = schedule S" "sq S2 = sq S" "link_live S2 = link_live S"
    by (rule add_slotframe_ok [OF S(1-5)])
  have i: "i \<in> set (slotframe_list S2)" "\<not> locked (sq S2)"
    using S2 S(2) by simp_all
  have len: "dval (sf_size (sf_of S2 i)) = sz"
    using frames_at [OF S2(2) i(1)] S2(4,5) by simp
  have a: "\<forall>x. Some tsch_broadcast_address = Some x \<longrightarrow> linkaddr_ok x"
    by simp
  from S2(2) i(2,1) a show thesis
  proof (cases rule: add_link_spec [where opts = "LINK_OPTION_TX OR LINK_OPTION_RX" and ty = LINK_TYPE_ADVERTISING_ONLY and t = 0 and ch = 0])
    case invalid
    then show thesis
      using len S(3) by (simp add: word_neq_0_conv)
  next
    case (full S')
    then show thesis
      using S2(8) S(6) by simp
  next
    case (added k S3)
    then show thesis
      using that [OF S2(1) added(1,2)] S2 S(2) unlocked_same_queues by simp
  qed
qed

lemma aqueue_coordinator [simp]: "aqueue (q\<lparr>is_coordinator := c\<rparr>) = aqueue q"
  by (simp add: aqueue_def fun_eq_iff split: option.split)

lemma set_coordinator_inv:
  assumes "mac_inv ns nl nn np m"
  shows "mac_inv ns nl nn np (tsch_set_eb_period (tsch_set_coordinator m c) p)"
    "aqueue (queues_of (tsch_set_eb_period (tsch_set_coordinator m c) p)) = aqueue (queues_of m)"
  using assms
  by (simp_all add: mac_inv_def tsch_set_eb_period_def tsch_set_coordinator_def set_queues_def queues_of_def sched_inv_def Let_def
      tq_defs)

lemma init_ok:
  assumes inv: "mac_inv ns nl nn np (mac R)" and ar: "arrays_ok N R" and st: "\<not> started R" and sf: "sf R \<noteq> []" and room: "0 < ns" "0 < nl"
  obtains R' i where "init_master_routing R = Some R'" "mac_inv ns nl nn np (mac R')" "arrays_ok N R'" "started R'" "length (sf R') = length (sf R)"
    "rd (sf R') 0 = Some (Some i)" "slotframe_list (sched (mac R')) = [i]" "sf_handle (sf_of (sched (mac R')) i) = 0"
    "frames (sched (mac R')) = [0 \<mapsto> 1]" "schedule (sched (mac R')) = [(0, 0) \<mapsto> advertising]"
    "node_id R' = node_id R" "matrix R' = matrix R" "max_slot_frame_used R' = max_slot_frame_used R"
    "best_tsch_shedule_link R' = best_tsch_shedule_link R" "highestNodeID (strengths R') = sint (node_id R)"
    "aqueue (queues_of (mac R')) = aqueue (queues_of (mac R))" "\<not> current_callback R'"
proof -
  define m where "m = tsch_set_eb_period (tsch_set_coordinator (mac R) (linkaddr_cmp coordinator_addr (linkaddr_node_addr (mac R)))) 32"
  have m: "mac_inv ns nl nn np m" "aqueue (queues_of m) = aqueue (queues_of (mac R))"
    using set_coordinator_inv [OF inv] by (simp_all add: m_def)
  then have S: "sched_inv ns nl nn np (sched m)" "\<not> locked (sq (sched m))"
    by (simp_all add: mac_inv_def queues_of_def)
  obtain S1 where S1: "tsch_schedule_remove_all_slotframes (sched m) = Some (True, S1)" "sched_inv ns nl nn np S1" "slotframe_list S1 = []"
    "same_queues (sq (sched m)) (sq S1)" "link_live S1 = {}"
    using remove_all_spec [OF S] by blast
  have u: "\<not> locked (sq S1)"
    using S1(4) S(2) unlocked_same_queues by blast
  note e = no_frames [OF S1(3)]
  obtain i S2 k S3 where S3: "tsch_schedule_add_slotframe S1 0 1 = Some (Some i, S2)"
    "tsch_schedule_add_link S2 (Some i) (LINK_OPTION_TX OR LINK_OPTION_RX) LINK_TYPE_ADVERTISING_ONLY (Some tsch_broadcast_address) 0 0 = Some (Some k, S3)"
    "sched_inv ns nl nn np S3" "\<not> locked (sq S3)" "same_queues (sq S1) (sq S3)" "slotframe_list S3 = slotframe_list S1 @ [i]" "sf_handle (sf_of S3 i) = 0"
    "frames S3 = (frames S1)(0 \<mapsto> 1)" "schedule S3 = (schedule S1)((0, 0) \<mapsto> advertising)"
    by (rule advertising_frame [OF S1(2) u, of 1]) (use e S1(3,5) room in simp_all)
  define R' where "R' = R\<lparr>mac := m\<lparr>sched := S3\<rparr>, masternet_len := of_nat maximal_routing_packet_size, current_callback := False, sf := (sf R)[0 := Some i],
     started := True, strengths := set_own_node_id_as_highest (strengths R) (sint (node_id R))\<rparr>"
  have run: "init_master_routing R = Some R'"
    using st S1(1) S3(1,2) sf by (simp add: init_master_routing_def on_schedule_def wr_in R'_def flip: m_def)
  have inv': "mac_inv ns nl nn np (mac R')" "arrays_ok N R'"
    using mac_inv_schedule [OF m(1) S3(3,4)] ar by (simp_all add: R'_def arrays_ok_def set_own_node_id_as_highest_def)
  have "aqueue (queues_of (mac R')) = aqueue (queues_of (mac R))"
    using m(2) S1(4) S3(5) by (simp add: R'_def queues_of_def same_queues_def)
  then show thesis
    by (intro that [OF run inv']) (use S1(3) S3 e sf in \<open>simp_all add: R'_def rd_in set_own_node_id_as_highest_def\<close>)
qed

lemma install_ok:
  assumes inv: "mac_inv ns nl nn np (mac R)" and ar: "arrays_ok N R" and d: "discovery R < length (sf R)" and best: "best_tsch_shedule_link R = None"
    and i: "rd (sf R) 0 = Some (Some i)" "slotframe_list (sched (mac R)) = [i]" "sf_handle (sf_of (sched (mac R)) i) = 0"
    and sch: "frames (sched (mac R)) = [0 \<mapsto> l]" "schedule (sched (mac R)) = [(0, 0) \<mapsto> advertising]"
    and room: "2 \<le> ns" "2 \<le> nl" and rx: "fst (rx_slot R) < 40" "snd (rx_slot R) \<le> 15"
  obtains R' where "master_install_schedule R = Some R'" "mr_inv ns nl nn np N R'" "is_configured R'" "started R' = started R"
    "frames (sched (mac R')) = [0 \<mapsto> MASTER_EBSF_PERIOD, handle R \<mapsto> 40]"
    "schedule (sched (mac R')) = [(0, 0) \<mapsto> advertising, (handle R, fst (rx_slot R)) \<mapsto> listening R]"
    "aqueue (queues_of (mac R')) = aqueue (queues_of (mac R))" "strengths R' = strengths R"
proof -
  define m where "m = tsch_set_eb_period (mac R) TSCH_EB_PERIOD"
  have m: "mac_inv ns nl nn np m" "sched m = sched (mac R)"
    using inv by (simp_all add: m_def tsch_set_eb_period_def mac_inv_def queues_of_def)
  have S: "sched_inv ns nl nn np (sched m)" "\<not> locked (sq (sched m))" "i \<in> set (slotframe_list (sched m))"
    using m(1) i(2) unfolding m(2) by (simp_all add: mac_inv_def queues_of_def m(2))
  obtain S1 where S1: "tsch_schedule_remove_slotframe (sched m) (Some i) = Some (True, S1)" "sched_inv ns nl nn np S1"
    "slotframe_list S1 = remove1 i (slotframe_list (sched m))" "same_queues (sq (sched m)) (sq S1)"
    by (rule remove_slotframe_spec [OF S])
  have S1': "slotframe_list S1 = []" "\<not> locked (sq S1)"
    using S1(3,4) S(2) i(2) m(2) unlocked_same_queues by auto
  note e = no_frames [OF S1'(1)]
  have live: "card (link_live S1) = 0"
    unfolding card_link_live [OF S1(2)] using e by simp
  obtain j S2 k S3 where S3: "tsch_schedule_add_slotframe S1 0 MASTER_EBSF_PERIOD = Some (Some j, S2)"
    "tsch_schedule_add_link S2 (Some j) (LINK_OPTION_TX OR LINK_OPTION_RX) LINK_TYPE_ADVERTISING_ONLY (Some tsch_broadcast_address) 0 0 = Some (Some k, S3)"
    "sched_inv ns nl nn np S3" "\<not> locked (sq S3)" "same_queues (sq S1) (sq S3)" "slotframe_list S3 = slotframe_list S1 @ [j]" "sf_handle (sf_of S3 j) = 0"
    "frames S3 = (frames S1)(0 \<mapsto> MASTER_EBSF_PERIOD)" "schedule S3 = (schedule S1)((0, 0) \<mapsto> advertising)"
    by (rule advertising_frame [OF S1(2) S1'(2), of MASTER_EBSF_PERIOD])
      (use e S1'(1) live room in \<open>simp_all add: MASTER_EBSF_PERIOD_def\<close>)
  define Q where "Q = R\<lparr>mac := m\<lparr>sched := S3\<rparr>, sf := (sf R)[0 := Some j]\<rparr>"
  have Q: "mac_inv ns nl nn np (mac Q)" "arrays_ok N Q" "discovery Q = discovery R" "sched (mac Q) = S3" "rx_slot Q = rx_slot R" "node_id Q = node_id R"
    using mac_inv_schedule [OF m(1) S3(3,4)] ar by (simp_all add: Q_def arrays_ok_def discovery_def rx_slot_def Let_def)
  have h0: "handle R \<noteq> 0"
  proof -
    have "unat (of_nat n :: u16) = n" if "n < 65536" for n
      using that by (simp add: unsigned_of_nat take_bit_nat_eq_self)
    moreover have "discovery R < 65536"
      using unat_u8_less [of "max_slot_frame_used R"] unfolding discovery_def by linarith
    ultimately have "unat (handle R) = discovery R"
      by blast
    then show ?thesis
      by (auto simp: discovery_def)
  qed
  have live3: "card (link_live S3) \<le> 1"
    unfolding card_link_live [OF S3(3)] S3(9) using e by simp
  have pre: "discovery Q < length (sf Q)" "frames (sched (mac Q)) (handle Q) \<noteq> None \<or> length (slotframe_list (sched (mac Q))) < ns"
    "card (link_live (sched (mac Q))) < nl" "fst (rx_slot Q) < 40" "snd (rx_slot Q) \<le> 15"
    using d rx room live3 S3(6) S1'(1) Q(3) unfolding Q(4,5) by (simp_all add: Q_def discovery_def)
  obtain p S' where P: "install_discovery_schedule Q = Some ((set_schedule Q S')\<lparr>sf := (sf Q)[discovery Q := Some p], own_receiver := 0\<rparr>)"
    "sched_inv ns nl nn np S'" "\<not> locked (sq S')" "same_queues (queues_of (mac Q)) (sq S')" "p \<in> set (slotframe_list S')" "sf_handle (sf_of S' p) = handle Q"
    "frames S' = (frames (sched (mac Q)))(handle Q \<mapsto> 40)"
    "schedule S' = (\<lambda>(h, t). if h = handle Q then if t = fst (rx_slot Q) then Some (listening Q) else None else schedule (sched (mac Q)) (h, t))"
    "card (link_live S') \<le> card (link_live (sched (mac Q))) + 1"
    by (rule install_discovery_ok [OF Q(1,2) pre])
  define R' where "R' = (set_schedule Q S')\<lparr>sf := (sf Q)[discovery Q := Some p], own_receiver := 0, is_configured := True\<rparr>"
  have Q': "R\<lparr>sf := (sf R)[0 := Some j], mac := m\<lparr>sched := S3\<rparr>\<rparr> = Q"
    by (simp add: Q_def)
  have "master_install_schedule R = Some R'"
    using S1(1) S3(1,2) P(1) i(1) by (simp add: master_install_schedule_def on_schedule_def R'_def Q' flip: m_def)
  moreover have "mr_inv ns nl nn np N R'"
    using mac_inv_schedule [OF Q(1) P(2,3)] Q(2) P(5,6) pre(1) best
    by (simp add: mr_inv_def links_ok_def R'_def set_schedule_def arrays_ok_def discovery_def) (simp add: Q_def)
  moreover have "schedule (sched (mac R')) = [(0, 0) \<mapsto> advertising, (handle R, fst (rx_slot R)) \<mapsto> listening R]"
    using P(8) S3(9) e h0 Q(3,5,6) by (auto simp: R'_def set_schedule_def Q(4) fun_eq_iff)
  moreover have "frames (sched (mac R')) = [0 \<mapsto> MASTER_EBSF_PERIOD, handle R \<mapsto> 40]"
    using P(7) S3(8) e Q(3) by (simp add: R'_def set_schedule_def Q(4))
  moreover have "aqueue (queues_of (mac R')) = aqueue (queues_of (mac R))"
    using P(4) S3(5) S1(4) m(2) by (simp add: R'_def set_schedule_def queues_of_def same_queues_def Q(4))
  ultimately show thesis
    using that [of R'] by (simp add: R'_def set_schedule_def Q_def)
qed

text \<open>
  C30. The layer starts in a consistent state.  Whatever the schedule was, \<open>init_master_routing\<close> and then the timer's call of
  \<open>master_install_schedule\<close> leave exactly two slotframes, one for advertising and the discovery slotframe, with exactly two links, the
  advertising link and the one on which the node listens; they establish the invariant of the layer and change no packet queue.
\<close>

theorem layer_started:
  assumes "mac_inv ns nl nn np (mac R)" "arrays_ok N R" "discovery R < length (sf R)" "\<not> started R" "best_tsch_shedule_link R = None"
    and "2 \<le> ns" "2 \<le> nl" "fst (rx_slot R) < 40" "snd (rx_slot R) \<le> 15"
  shows "\<exists>R1 R2. init_master_routing R = Some R1 \<and> started R1 \<and> frames (sched (mac R1)) = [0 \<mapsto> 1] \<and> schedule (sched (mac R1)) = [(0, 0) \<mapsto> advertising]
    \<and> master_install_schedule R1 = Some R2 \<and> mr_inv ns nl nn np N R2 \<and> started R2 \<and> is_configured R2
    \<and> frames (sched (mac R2)) = [0 \<mapsto> MASTER_EBSF_PERIOD, handle R \<mapsto> 40]
    \<and> schedule (sched (mac R2)) = [(0, 0) \<mapsto> advertising, (handle R, fst (rx_slot R)) \<mapsto> listening R]
    \<and> highestNodeID (strengths R2) = sint (node_id R) \<and> aqueue (queues_of (mac R2)) = aqueue (queues_of (mac R))"
proof -
  have sf: "sf R \<noteq> []" and room: "0 < ns" "0 < nl"
    using assms(3,6,7) by auto
  obtain R1 i where R1: "init_master_routing R = Some R1" "mac_inv ns nl nn np (mac R1)" "arrays_ok N R1" "started R1" "length (sf R1) = length (sf R)"
    "rd (sf R1) 0 = Some (Some i)" "slotframe_list (sched (mac R1)) = [i]" "sf_handle (sf_of (sched (mac R1)) i) = 0"
    "frames (sched (mac R1)) = [0 \<mapsto> 1]" "schedule (sched (mac R1)) = [(0, 0) \<mapsto> advertising]"
    "node_id R1 = node_id R" "matrix R1 = matrix R" "max_slot_frame_used R1 = max_slot_frame_used R"
    "best_tsch_shedule_link R1 = best_tsch_shedule_link R" "highestNodeID (strengths R1) = sint (node_id R)"
    "aqueue (queues_of (mac R1)) = aqueue (queues_of (mac R))" "\<not> current_callback R1"
    by (rule init_ok [OF assms(1,2,4) sf room])
  have same: "rx_slot R1 = rx_slot R" "discovery R1 = discovery R"
    using R1(11-13) by (simp_all add: rx_slot_def discovery_def Let_def)
  have pre: "discovery R1 < length (sf R1)" "best_tsch_shedule_link R1 = None" "fst (rx_slot R1) < 40" "snd (rx_slot R1) \<le> 15"
    using assms R1(5,14) by (simp_all add: same)
  obtain R2 where "master_install_schedule R1 = Some R2" "mr_inv ns nl nn np N R2" "is_configured R2" "started R2 = started R1"
    "frames (sched (mac R2)) = [0 \<mapsto> MASTER_EBSF_PERIOD, handle R1 \<mapsto> 40]"
    "schedule (sched (mac R2)) = [(0, 0) \<mapsto> advertising, (handle R1, fst (rx_slot R1)) \<mapsto> listening R1]"
    "aqueue (queues_of (mac R2)) = aqueue (queues_of (mac R1))" "strengths R2 = strengths R1"
    by (rule install_ok [OF R1(2,3) pre(1,2) R1(6-10) assms(6,7) pre(3,4)])
  with R1 same show ?thesis
    by simp
qed

theorem layer_started_witness:
  "\<exists>R1 R2. init_master_routing ((mr_example 2 (replicate 30 0))\<lparr>started := False\<rparr>) = Some R1 \<and> master_install_schedule R1 = Some R2
    \<and> schedule (sched (mac R2)) = [(0, 0) \<mapsto> advertising, (1, 2) \<mapsto> (LINK_OPTION_RX, LINK_TYPE_NORMAL, [2, 0, 0, 0, 0, 0, 0, 0], 0)]"
proof -
  let ?R = "(mr_example 2 (replicate 30 0))\<lparr>started := False\<rparr>"
  have "mr_inv 7 8 12 8 5 (mr_example 2 (replicate 30 0))"
    by (rule mr_example_inv) simp_all
  then have R: "mac_inv 7 8 12 8 (mac ?R)" "arrays_ok 5 ?R" "discovery ?R < length (sf ?R)"
    by (simp_all add: mr_inv_def links_ok_def arrays_ok_def discovery_def)
  have e: "discovery ?R = 1" "rx_slot ?R = (2, 0)" "best_tsch_shedule_link ?R = None" "\<not> started ?R" "node_id ?R = 2"
    by (simp_all add: mr_example_def discovery_def rx_slot_def)
  from layer_started [OF R e(4,3)] e show ?thesis
    by (auto simp: getAddressByNodeID_def)
qed

end
