(* ===== verification/Info_Elements.thy ===== *)
theory Info_Elements
  imports Tsch_Asn
begin

text \<open>
  \<^verbatim>\<open>os/net/mac/framer/frame802154e-ie.c\<close>: the information elements (IEs) of IEEE 802.15.4e, in the configuration of the
  application, with the neighbor-discovery element and without 6top.  The functions that create an element write to the memory
  at a pointer, here a checked list of bytes that starts at the pointer, and return the length of the element or -1.  The parser walks over
  the elements of a frame; it always ends, since every element has a descriptor of two bytes.
\<close>

section \<open>Data\<close>

definition HEADER_IE_ACK_NACK_TIME_CORRECTION :: u8 where "HEADER_IE_ACK_NACK_TIME_CORRECTION = 0x1e"
definition HEADER_IE_LIST_TERMINATION_1 :: u8 where "HEADER_IE_LIST_TERMINATION_1 = 0x7e"
definition HEADER_IE_LIST_TERMINATION_2 :: u8 where "HEADER_IE_LIST_TERMINATION_2 = 0x7f"
definition PAYLOAD_IE_MLME :: u8 where "PAYLOAD_IE_MLME = 1"
definition PAYLOAD_IE_LIST_TERMINATION :: u8 where "PAYLOAD_IE_LIST_TERMINATION = 0xf"
definition MLME_SHORT_IE_TSCH_SYNCHRONIZATION :: u8 where "MLME_SHORT_IE_TSCH_SYNCHRONIZATION = 0x1a"
definition MLME_SHORT_IE_TSCH_SLOFTRAME_AND_LINK :: u8 where "MLME_SHORT_IE_TSCH_SLOFTRAME_AND_LINK = 0x1b"
definition MLME_SHORT_IE_TSCH_TIMESLOT :: u8 where "MLME_SHORT_IE_TSCH_TIMESLOT = 0x1c"
definition MLME_SHORT_IE_NEIGHBOR_DISCOVERY :: u8 where "MLME_SHORT_IE_NEIGHBOR_DISCOVERY = 0x21"
definition MLME_LONG_IE_TSCH_CHANNEL_HOPPING_SEQUENCE :: u8 where "MLME_LONG_IE_TSCH_CHANNEL_HOPPING_SEQUENCE = 9"

definition FRAME802154E_IE_MAX_LINKS :: int where "FRAME802154E_IE_MAX_LINKS = 4"
definition TSCH_HOPPING_SEQUENCE_MAX_LEN :: nat where "TSCH_HOPPING_SEQUENCE_MAX_LEN = 16"
definition tsch_ts_elements_count :: nat where "tsch_ts_elements_count = 12"

lemmas ie_constants = HEADER_IE_ACK_NACK_TIME_CORRECTION_def HEADER_IE_LIST_TERMINATION_1_def HEADER_IE_LIST_TERMINATION_2_def
  PAYLOAD_IE_MLME_def PAYLOAD_IE_LIST_TERMINATION_def MLME_SHORT_IE_TSCH_SYNCHRONIZATION_def MLME_SHORT_IE_TSCH_SLOFTRAME_AND_LINK_def
  MLME_SHORT_IE_TSCH_TIMESLOT_def MLME_SHORT_IE_NEIGHBOR_DISCOVERY_def MLME_LONG_IE_TSCH_CHANNEL_HOPPING_SEQUENCE_def
  FRAME802154E_IE_MAX_LINKS_def TSCH_HOPPING_SEQUENCE_MAX_LEN_def tsch_ts_elements_count_def

record tsch_slotframe_and_links_link =
  ie_timeslot :: u16
  ie_channel_offset :: u16
  ie_link_options :: u8

record tsch_slotframe_and_links =
  num_slotframes :: u8
  ie_slotframe_handle :: u8
  slotframe_size :: u16
  num_links :: u8
  ie_links :: "tsch_slotframe_and_links_link list"

text \<open>The time correction is a signed integer of 16 bits, so \<open>sint\<close> of the word.\<close>

record ieee802154_ies =
  ie_time_correction :: u16
  ie_is_nack :: u8
  ie_payload_ie_offset :: u8
  ie_mlme_len :: u16
  ie_asn :: asn
  ie_join_priority :: u8
  ie_tsch_timeslot_id :: u8
  ie_tsch_timeslot :: "u16 list"
  ie_tsch_slotframe_and_link :: tsch_slotframe_and_links
  ie_sequence_number :: u16
  ie_channel_hopping_sequence_id :: u8
  ie_hopping_sequence_len :: u16
  ie_hopping_sequence_list :: "u8 list"

section \<open>Creating elements\<close>

definition WRITE16 :: "u8 list \<Rightarrow> nat \<Rightarrow> u16 \<Rightarrow> u8 list option" where
  "WRITE16 buf i v = do { buf \<leftarrow> wr buf i (ucast (v AND 0xff)); wr buf (i + 1) (ucast (drop_bit 8 v AND 0xff)) }"

definition READ16 :: "u8 list \<Rightarrow> nat \<Rightarrow> u16 option" where
  "READ16 buf i = do { a \<leftarrow> rd buf i; b \<leftarrow> rd buf (i + 1); Some (ucast a OR push_bit 8 (ucast b)) }"

definition create_header_ie_descriptor :: "u8 list \<Rightarrow> u8 \<Rightarrow> int \<Rightarrow> u8 list option" where
  "create_header_ie_descriptor buf element_id ie_len =
     WRITE16 buf 0 ((of_int ie_len AND 0x7f) + push_bit 7 (ucast element_id AND 0xff))"

definition create_payload_ie_descriptor :: "u8 list \<Rightarrow> u8 \<Rightarrow> int \<Rightarrow> u8 list option" where
  "create_payload_ie_descriptor buf group_id ie_len =
     WRITE16 buf 0 ((of_int ie_len AND 0x7ff) + push_bit 11 (ucast group_id AND 0xf) + push_bit 15 1)"

definition create_mlme_short_ie_descriptor :: "u8 list \<Rightarrow> u8 \<Rightarrow> int \<Rightarrow> u8 list option" where
  "create_mlme_short_ie_descriptor buf sub_id ie_len =
     WRITE16 buf 0 ((of_int ie_len AND 0xff) + push_bit 8 (ucast sub_id AND 0x7f))"

definition create_mlme_long_ie_descriptor :: "u8 list \<Rightarrow> u8 \<Rightarrow> int \<Rightarrow> u8 list option" where
  "create_mlme_long_ie_descriptor buf sub_id ie_len =
     WRITE16 buf 0 ((of_int ie_len AND 0x7ff) + push_bit 11 (ucast sub_id AND 0xf) + push_bit 15 1)"

definition frame80215e_create_ie_header_ack_nack_time_correction :: "u8 list \<Rightarrow> int \<Rightarrow> ieee802154_ies \<Rightarrow> (int \<times> u8 list) option" where
  "frame80215e_create_ie_header_ack_nack_time_correction buf len ies =
     (if len \<ge> 4 then do {
        let time_sync_field = ie_time_correction ies AND 0xfff;
        let time_sync_field = (if ie_is_nack ies \<noteq> 0 then time_sync_field OR 0x8000 else time_sync_field);
        buf \<leftarrow> WRITE16 buf 2 time_sync_field;
        buf \<leftarrow> create_header_ie_descriptor buf HEADER_IE_ACK_NACK_TIME_CORRECTION 2;
        Some (4, buf)
      } else Some (-1, buf))"

definition frame80215e_create_ie_header_list_termination_1 :: "u8 list \<Rightarrow> int \<Rightarrow> (int \<times> u8 list) option" where
  "frame80215e_create_ie_header_list_termination_1 buf len =
     (if len \<ge> 2 then do { buf \<leftarrow> create_header_ie_descriptor buf HEADER_IE_LIST_TERMINATION_1 0; Some (2, buf) } else Some (-1, buf))"

definition frame80215e_create_ie_header_list_termination_2 :: "u8 list \<Rightarrow> int \<Rightarrow> (int \<times> u8 list) option" where
  "frame80215e_create_ie_header_list_termination_2 buf len =
     (if len \<ge> 2 then do { buf \<leftarrow> create_header_ie_descriptor buf HEADER_IE_LIST_TERMINATION_2 0; Some (2, buf) } else Some (-1, buf))"

definition frame80215e_create_ie_payload_list_termination :: "u8 list \<Rightarrow> int \<Rightarrow> (int \<times> u8 list) option" where
  "frame80215e_create_ie_payload_list_termination buf len =
     (if len \<ge> 2 then do { buf \<leftarrow> create_payload_ie_descriptor buf PAYLOAD_IE_LIST_TERMINATION 0; Some (2, buf) } else Some (-1, buf))"

definition frame80215e_create_ie_mlme :: "u8 list \<Rightarrow> int \<Rightarrow> ieee802154_ies \<Rightarrow> (int \<times> u8 list) option" where
  "frame80215e_create_ie_mlme buf len ies =
     (if len \<ge> 2 then do { buf \<leftarrow> create_payload_ie_descriptor buf PAYLOAD_IE_MLME (int (unat (ie_mlme_len ies))); Some (2, buf) } else Some (-1, buf))"

definition frame80215e_create_ie_tsch_synchronization :: "u8 list \<Rightarrow> int \<Rightarrow> ieee802154_ies \<Rightarrow> (int \<times> u8 list) option" where
  "frame80215e_create_ie_tsch_synchronization buf len ies =
     (if len \<ge> 8 then do {
        buf \<leftarrow> wr buf 2 (ucast (ls4b (ie_asn ies)));
        buf \<leftarrow> wr buf 3 (ucast (drop_bit 8 (ls4b (ie_asn ies))));
        buf \<leftarrow> wr buf 4 (ucast (drop_bit 16 (ls4b (ie_asn ies))));
        buf \<leftarrow> wr buf 5 (ucast (drop_bit 24 (ls4b (ie_asn ies))));
        buf \<leftarrow> wr buf 6 (ms1b (ie_asn ies));
        buf \<leftarrow> wr buf 7 (ie_join_priority ies);
        buf \<leftarrow> create_mlme_short_ie_descriptor buf MLME_SHORT_IE_TSCH_SYNCHRONIZATION 6;
        Some (8, buf)
      } else Some (-1, buf))"

text \<open>The loop over the links, \<open>i\<close> being the index of the first of \<open>n\<close>.\<close>

fun write_links :: "tsch_slotframe_and_links_link list \<Rightarrow> nat \<Rightarrow> nat \<Rightarrow> u8 list \<Rightarrow> u8 list option" where
  "write_links ls i 0 buf = Some buf"
| "write_links ls i (Suc n) buf = do {
     l \<leftarrow> rd ls i;
     buf \<leftarrow> WRITE16 buf (7 + i * 5) (ie_timeslot l);
     buf \<leftarrow> WRITE16 buf (7 + i * 5 + 2) (ie_channel_offset l);
     buf \<leftarrow> wr buf (7 + i * 5 + 4) (ie_link_options l);
     write_links ls (i + 1) n buf
   }"

definition frame80215e_create_ie_tsch_slotframe_and_link :: "u8 list \<Rightarrow> int \<Rightarrow> ieee802154_ies \<Rightarrow> (int \<times> u8 list) option" where
  "frame80215e_create_ie_tsch_slotframe_and_link buf len ies = (
     let s = ie_tsch_slotframe_and_link ies;
         n_slotframes = uint (num_slotframes s);
         n_links = uint (num_links s);
         ie_len = 1 + n_slotframes * (4 + 5 * n_links)
     in if n_slotframes > 1 \<or> n_links > FRAME802154E_IE_MAX_LINKS \<or> len < 2 + ie_len then Some (-1, buf)
        else do {
          buf \<leftarrow> wr buf 2 (num_slotframes s);
          buf \<leftarrow> (if n_slotframes = 1 then do {
                    buf \<leftarrow> wr buf 3 (ie_slotframe_handle s);
                    buf \<leftarrow> WRITE16 buf 4 (slotframe_size s);
                    buf \<leftarrow> wr buf 6 (num_links s);
                    write_links (ie_links s) 0 (nat n_links) buf
                  } else Some buf);
          buf \<leftarrow> create_mlme_short_ie_descriptor buf MLME_SHORT_IE_TSCH_SLOFTRAME_AND_LINK ie_len;
          Some (2 + ie_len, buf)
        })"

fun write_timeslots :: "u16 list \<Rightarrow> nat \<Rightarrow> nat \<Rightarrow> u8 list \<Rightarrow> u8 list option" where
  "write_timeslots ts i 0 buf = Some buf"
| "write_timeslots ts i (Suc n) buf = do {
     t \<leftarrow> rd ts i;
     buf \<leftarrow> WRITE16 buf (3 + 2 * i) t;
     write_timeslots ts (i + 1) n buf
   }"

definition frame80215e_create_ie_tsch_timeslot :: "u8 list \<Rightarrow> int \<Rightarrow> ieee802154_ies \<Rightarrow> (int \<times> u8 list) option" where
  "frame80215e_create_ie_tsch_timeslot buf len ies = (
     let ie_len = (if ie_tsch_timeslot_id ies = 0 then 1 else 25)
     in if len \<ge> 2 + ie_len then do {
          buf \<leftarrow> wr buf 2 (ie_tsch_timeslot_id ies);
          buf \<leftarrow> (if ie_tsch_timeslot_id ies \<noteq> 0 then write_timeslots (ie_tsch_timeslot ies) 0 tsch_ts_elements_count buf else Some buf);
          buf \<leftarrow> create_mlme_short_ie_descriptor buf MLME_SHORT_IE_TSCH_TIMESLOT ie_len;
          Some (2 + ie_len, buf)
        } else Some (-1, buf))"

definition frame80215e_create_ie_tsch_channel_hopping_sequence :: "u8 list \<Rightarrow> int \<Rightarrow> ieee802154_ies \<Rightarrow> (int \<times> u8 list) option" where
  "frame80215e_create_ie_tsch_channel_hopping_sequence buf len ies = (
     let n = unat (ie_hopping_sequence_len ies);
         ie_len = (if ie_channel_hopping_sequence_id ies = 0 then 1 else 12 + int n)
     in if n > TSCH_HOPPING_SEQUENCE_MAX_LEN \<or> len < 2 + ie_len then Some (-1, buf)
        else do {
          buf \<leftarrow> wr buf 2 (ie_channel_hopping_sequence_id ies);
          buf \<leftarrow> wr buf 3 0;
          buf \<leftarrow> WRITE16 buf 4 0;
          buf \<leftarrow> WRITE16 buf 6 0;
          buf \<leftarrow> WRITE16 buf 8 0;
          buf \<leftarrow> WRITE16 buf 10 (ie_hopping_sequence_len ies);
          bs \<leftarrow> rd_n (ie_hopping_sequence_list ies) 0 n;
          buf \<leftarrow> wr_n buf 12 bs;
          buf \<leftarrow> WRITE16 buf (12 + n) 0;
          buf \<leftarrow> create_mlme_long_ie_descriptor buf MLME_LONG_IE_TSCH_CHANNEL_HOPPING_SEQUENCE ie_len;
          Some (2 + ie_len, buf)
        })"

definition frame80215e_create_ie_tsch_neighbor_discovery :: "u8 list \<Rightarrow> int \<Rightarrow> ieee802154_ies \<Rightarrow> (int \<times> u8 list) option" where
  "frame80215e_create_ie_tsch_neighbor_discovery buf len ies =
     (if len < 4 then Some (-1, buf) else do {
        buf \<leftarrow> WRITE16 buf 2 (ie_sequence_number ies);
        buf \<leftarrow> create_mlme_short_ie_descriptor buf MLME_SHORT_IE_NEIGHBOR_DISCOVERY 2;
        Some (4, buf)
      })"

section \<open>Parsing elements\<close>

text \<open>The content of an element of \<open>len\<close> bytes lies at \<open>p\<close>; the first result is \<open>len\<close>, or -1 if the element is not understood.\<close>

definition frame802154e_parse_header_ie :: "u8 list \<Rightarrow> nat \<Rightarrow> int \<Rightarrow> u8 \<Rightarrow> ieee802154_ies \<Rightarrow> (int \<times> ieee802154_ies) option" where
  "frame802154e_parse_header_ie bs p len element_id ies =
     (if element_id = HEADER_IE_ACK_NACK_TIME_CORRECTION \<and> len = 2 then do {
        time_sync_field \<leftarrow> READ16 bs p;
        Some (len, ies\<lparr>ie_is_nack := (if time_sync_field AND 0x8000 \<noteq> 0 then 1 else 0),
          ie_time_correction := (if time_sync_field AND 0x800 \<noteq> 0 then time_sync_field OR 0xf000 else time_sync_field AND 0xfff)\<rparr>)
      } else Some (-1, ies))"

text \<open>The loop over the links, \<open>i\<close> being the index of the first of \<open>n\<close>.\<close>

fun read_links :: "u8 list \<Rightarrow> nat \<Rightarrow> nat \<Rightarrow> nat \<Rightarrow> tsch_slotframe_and_links_link list \<Rightarrow> tsch_slotframe_and_links_link list option" where
  "read_links bs p i 0 ls = Some ls"
| "read_links bs p i (Suc n) ls = do {
     t \<leftarrow> READ16 bs (p + 5 + i * 5);
     c \<leftarrow> READ16 bs (p + 5 + i * 5 + 2);
     opts \<leftarrow> rd bs (p + 5 + i * 5 + 4);
     ls \<leftarrow> wr ls i \<lparr>ie_timeslot = t, ie_channel_offset = c, ie_link_options = opts\<rparr>;
     read_links bs p (i + 1) n ls
   }"

fun read_timeslots :: "u8 list \<Rightarrow> nat \<Rightarrow> nat \<Rightarrow> nat \<Rightarrow> u16 list \<Rightarrow> u16 list option" where
  "read_timeslots bs p i 0 ts = Some ts"
| "read_timeslots bs p i (Suc n) ts = do {
     t \<leftarrow> READ16 bs (p + 1 + 2 * i);
     ts \<leftarrow> wr ts i t;
     read_timeslots bs p (i + 1) n ts
   }"

definition parse_slotframe_and_link :: "u8 list \<Rightarrow> nat \<Rightarrow> int \<Rightarrow> ieee802154_ies \<Rightarrow> (int \<times> ieee802154_ies) option" where
  "parse_slotframe_and_link bs p len ies =
     (if len \<ge> 1 then do {
        n_slotframes \<leftarrow> rd bs p;
        n_links \<leftarrow> rd bs (p + 4);
        if n_slotframes = 0 then Some (len, ies)
        else if uint n_slotframes \<le> 1 \<and> uint n_links \<le> FRAME802154E_IE_MAX_LINKS \<and> len = 1 + uint n_slotframes * (4 + 5 * uint n_links) then do {
          h \<leftarrow> rd bs (p + 1);
          s \<leftarrow> READ16 bs (p + 2);
          ls \<leftarrow> read_links bs p 0 (unat n_links) (ie_links (ie_tsch_slotframe_and_link ies));
          Some (len, ies\<lparr>ie_tsch_slotframe_and_link := \<lparr>num_slotframes = n_slotframes, ie_slotframe_handle = h, slotframe_size = s,
            num_links = n_links, ie_links = ls\<rparr>\<rparr>)
        } else Some (-1, ies)
      } else Some (-1, ies))"

definition parse_synchronization :: "u8 list \<Rightarrow> nat \<Rightarrow> int \<Rightarrow> ieee802154_ies \<Rightarrow> (int \<times> ieee802154_ies) option" where
  "parse_synchronization bs p len ies =
     (if len = 6 then do {
        a \<leftarrow> rd bs p;
        b \<leftarrow> rd bs (p + 1);
        c \<leftarrow> rd bs (p + 2);
        d \<leftarrow> rd bs (p + 3);
        m \<leftarrow> rd bs (p + 4);
        jp \<leftarrow> rd bs (p + 5);
        Some (len, ies\<lparr>ie_asn := Asn m (ucast a OR push_bit 8 (ucast b) OR push_bit 16 (ucast c) OR push_bit 24 (ucast d)), ie_join_priority := jp\<rparr>)
      } else Some (-1, ies))"

definition parse_timeslot :: "u8 list \<Rightarrow> nat \<Rightarrow> int \<Rightarrow> ieee802154_ies \<Rightarrow> (int \<times> ieee802154_ies) option" where
  "parse_timeslot bs p len ies =
     (if len = 1 \<or> len = 25 then do {
        i \<leftarrow> rd bs p;
        let ies = ies\<lparr>ie_tsch_timeslot_id := i\<rparr>;
        ts \<leftarrow> (if len = 25 then read_timeslots bs p 0 tsch_ts_elements_count (ie_tsch_timeslot ies) else Some (ie_tsch_timeslot ies));
        Some (len, ies\<lparr>ie_tsch_timeslot := ts\<rparr>)
      } else Some (-1, ies))"

definition frame802154e_parse_mlme_short_ie :: "u8 list \<Rightarrow> nat \<Rightarrow> int \<Rightarrow> u8 \<Rightarrow> ieee802154_ies \<Rightarrow> (int \<times> ieee802154_ies) option" where
  "frame802154e_parse_mlme_short_ie bs p len sub_id ies =
     (if sub_id = MLME_SHORT_IE_TSCH_SLOFTRAME_AND_LINK then parse_slotframe_and_link bs p len ies
      else if sub_id = MLME_SHORT_IE_TSCH_SYNCHRONIZATION then parse_synchronization bs p len ies
      else if sub_id = MLME_SHORT_IE_TSCH_TIMESLOT then parse_timeslot bs p len ies
      else if sub_id = MLME_SHORT_IE_NEIGHBOR_DISCOVERY \<and> len = 2 then do {
        n \<leftarrow> READ16 bs p;
        Some (len, ies\<lparr>ie_sequence_number := n\<rparr>)
      } else Some (-1, ies))"

definition frame802154e_parse_mlme_long_ie :: "u8 list \<Rightarrow> nat \<Rightarrow> int \<Rightarrow> u8 \<Rightarrow> ieee802154_ies \<Rightarrow> (int \<times> ieee802154_ies) option" where
  "frame802154e_parse_mlme_long_ie bs p len sub_id ies =
     (if sub_id = MLME_LONG_IE_TSCH_CHANNEL_HOPPING_SEQUENCE \<and> len > 0 then do {
        i \<leftarrow> rd bs p;
        let ies = ies\<lparr>ie_channel_hopping_sequence_id := i\<rparr>;
        if len > 1 then do {
          n \<leftarrow> READ16 bs (p + 8);
          let ies = ies\<lparr>ie_hopping_sequence_len := n\<rparr>;
          if unat n \<le> TSCH_HOPPING_SEQUENCE_MAX_LEN \<and> len = 12 + int (unat n) then do {
            l \<leftarrow> rd_n bs (p + 10) (unat n);
            l \<leftarrow> wr_n (ie_hopping_sequence_list ies) 0 l;
            Some (len, ies\<lparr>ie_hopping_sequence_list := l\<rparr>)
          } else Some (len, ies)
        } else Some (len, ies)
      } else Some (-1, ies))"

datatype parsing_state = PARSING_HEADER_IE | PARSING_PAYLOAD_IE | PARSING_MLME_SUBIE

text \<open>
  The body of the loop after the descriptor has been read.  \<open>buf\<close> points behind it and \<open>buf_size\<close> bytes are left.  The result is the
  return value, or the state and the length of the element to be skipped.
\<close>

datatype ie_step = Return int | Skip parsing_state u16 int

definition parse_one_header :: "u8 list \<Rightarrow> nat \<Rightarrow> u8 \<Rightarrow> u16 \<Rightarrow> int \<Rightarrow> ieee802154_ies \<Rightarrow> (ie_step \<times> ieee802154_ies) option" where
  "parse_one_header bs buf buf_size ie_desc nested ies = (
     let len = ie_desc AND 0x7f; ident = (ucast (drop_bit 7 (ie_desc AND 0x7f80)) :: u8)
     in if ie_desc AND 0x8000 \<noteq> 0 then Some (Return (-1), ies)
        else if ident = HEADER_IE_LIST_TERMINATION_1 then
          (if len = 0 then Some (Skip PARSING_PAYLOAD_IE len nested, ies\<lparr>ie_payload_ie_offset := of_nat buf\<rparr>) else Some (Return (-1), ies))
        else if ident = HEADER_IE_LIST_TERMINATION_2 then
          (if len = 0 then Some (Return (int buf), ies\<lparr>ie_payload_ie_offset := of_nat buf\<rparr>) else Some (Return (-1), ies))
        else if unat len > unat buf_size then Some (Return (-1), ies)
        else do {
          (r, ies) \<leftarrow> frame802154e_parse_header_ie bs buf (int (unat len)) ident ies;
          Some (if r = -1 then Return (-1) else Skip PARSING_HEADER_IE len nested, ies)
        })"

definition parse_one_payload :: "nat \<Rightarrow> u16 \<Rightarrow> int \<Rightarrow> ieee802154_ies \<Rightarrow> (ie_step \<times> ieee802154_ies) option" where
  "parse_one_payload buf ie_desc nested ies = (
     let len = ie_desc AND 0x7ff; ident = (ucast (drop_bit 11 (ie_desc AND 0x7800)) :: u8)
     in if ie_desc AND 0x8000 = 0 then Some (Return (-1), ies)
        else if ident = PAYLOAD_IE_MLME then Some (Skip PARSING_MLME_SUBIE 0 (int (unat len)), ies)
        else if ident = PAYLOAD_IE_LIST_TERMINATION then Some (Return (if len = 0 then int buf else -1), ies)
        else Some (Return (-1), ies))"

definition parse_one_mlme :: "u8 list \<Rightarrow> nat \<Rightarrow> u8 \<Rightarrow> u16 \<Rightarrow> int \<Rightarrow> ieee802154_ies \<Rightarrow> (ie_step \<times> ieee802154_ies) option" where
  "parse_one_mlme bs buf buf_size ie_desc nested ies = do {
     let short = (ie_desc AND 0x8000 = 0);
     let len = (if short then ie_desc AND 0xff else ie_desc AND 0x7ff);
     let ident = (if short then ucast (drop_bit 8 (ie_desc AND 0x7f00)) else ucast (drop_bit 11 (ie_desc AND 0x7800)) :: u8);
     (r, ies) \<leftarrow> (if unat len > unat buf_size then Some (-1, ies)
                  else if short then frame802154e_parse_mlme_short_ie bs buf (int (unat len)) ident ies
                  else frame802154e_parse_mlme_long_ie bs buf (int (unat len)) ident ies);
     let nested = nested - (2 + int (unat len));
     Some (if r = -1 \<or> nested < 0 then Return (-1)
           else Skip (if nested = 0 then PARSING_PAYLOAD_IE else PARSING_MLME_SUBIE) len nested, ies)
   }"

definition parse_one_ie :: "u8 list \<Rightarrow> nat \<Rightarrow> u8 \<Rightarrow> parsing_state \<Rightarrow> int \<Rightarrow> ieee802154_ies \<Rightarrow> (ie_step \<times> ieee802154_ies) option" where
  "parse_one_ie bs buf buf_size st nested ies =
     (if buf_size < 2 then Some (Return (-1), ies)
      else do {
        ie_desc \<leftarrow> READ16 bs buf;
        case st of PARSING_HEADER_IE \<Rightarrow> parse_one_header bs (buf + 2) (buf_size - 2) ie_desc nested ies
        | PARSING_PAYLOAD_IE \<Rightarrow> parse_one_payload (buf + 2) ie_desc nested ies
        | PARSING_MLME_SUBIE \<Rightarrow> parse_one_mlme bs (buf + 2) (buf_size - 2) ie_desc nested ies
      })"

lemma parse_one_header_skip: "parse_one_header bs buf n d nested ies = Some (Skip st len k, ies') \<Longrightarrow> unat len \<le> unat n"
  by (auto simp: parse_one_header_def Let_def bind_eq_Some split: if_splits)

lemma parse_one_payload_skip: "parse_one_payload buf d nested ies = Some (Skip st len k, ies') \<Longrightarrow> len = 0"
  by (auto simp: parse_one_payload_def Let_def split: if_splits)

lemma parse_one_mlme_skip: "parse_one_mlme bs buf n d nested ies = Some (Skip st len k, ies') \<Longrightarrow> unat len \<le> unat n"
  by (cases "d AND 0x8000 = 0") (auto simp: parse_one_mlme_def Let_def bind_eq_Some split: if_split_asm)

lemma parse_one_ie_skip:
  assumes "parse_one_ie bs buf buf_size st nested ies = Some (Skip st' len nested', ies')"
  shows "unat len + 2 \<le> unat buf_size"
proof -
  have 2: "\<not> buf_size < 2"
    using assms by (auto simp: parse_one_ie_def)
  then have s: "unat (buf_size - 2) = unat buf_size - 2" "2 \<le> unat buf_size"
    by (simp_all add: word_less_nat_alt unat_sub word_le_nat_alt)
  obtain d where "(case st of PARSING_HEADER_IE \<Rightarrow> parse_one_header bs (buf + 2) (buf_size - 2) d nested ies
      | PARSING_PAYLOAD_IE \<Rightarrow> parse_one_payload (buf + 2) d nested ies
      | PARSING_MLME_SUBIE \<Rightarrow> parse_one_mlme bs (buf + 2) (buf_size - 2) d nested ies) = Some (Skip st' len nested', ies')"
    using assms 2 unfolding parse_one_ie_def if_not_P [OF 2] by (auto simp only: bind_eq_Some)
  then have "unat len \<le> unat (buf_size - 2) \<or> len = 0"
    using parse_one_header_skip parse_one_payload_skip parse_one_mlme_skip by (cases st) fastforce+
  with s show ?thesis
    by auto
qed

function parse_ies :: "u8 list \<Rightarrow> nat \<Rightarrow> u8 \<Rightarrow> parsing_state \<Rightarrow> int \<Rightarrow> ieee802154_ies \<Rightarrow> (int \<times> ieee802154_ies) option" where
  "parse_ies bs buf buf_size st nested ies =
     (if buf_size = 0 then Some (int buf, if st = PARSING_HEADER_IE then ies\<lparr>ie_payload_ie_offset := of_nat buf\<rparr> else ies)
      else case parse_one_ie bs buf buf_size st nested ies of
        None \<Rightarrow> None
      | Some (Return r, ies) \<Rightarrow> Some (r, ies)
      | Some (Skip st len nested, ies) \<Rightarrow> parse_ies bs (buf + 2 + unat len) (buf_size - 2 - ucast len) st nested ies)"
  by pat_completeness auto
termination
proof (relation "measure (\<lambda>(bs, buf, buf_size, st, nested, ies). unat buf_size)", goal_cases)
  case (2 bs buf buf_size st nested ies r s i st' len nested')
  then have le: "unat len + 2 \<le> unat buf_size"
    by (intro parse_one_ie_skip [of bs buf buf_size st nested ies st' len nested' i]) simp
  then have "unat len < 256"
    using unat_u8_less [of buf_size] by linarith
  then have u: "unat (ucast len :: u8) = unat len"
    by (rule unat_u16_u8)
  have "unat (buf_size - 2) = unat buf_size - 2"
    using le by (simp add: unat_sub word_le_nat_alt)
  then have "unat (buf_size - 2 - ucast len) = unat buf_size - 2 - unat len"
    using le u by (simp add: unat_sub word_le_nat_alt)
  then show ?case
    using le by simp
qed simp

definition frame802154e_parse_information_elements :: "u8 list \<Rightarrow> u8 \<Rightarrow> ieee802154_ies \<Rightarrow> (int \<times> ieee802154_ies) option" where
  "frame802154e_parse_information_elements bs buf_size ies =
     parse_ies bs 0 buf_size PARSING_HEADER_IE 0 (ies\<lparr>ie_payload_ie_offset := 0\<rparr>)"

end
