(* ===== verification/Info_Elements_Spec.thy ===== *)
theory Info_Elements_Spec
  imports Info_Elements Frame802154
begin

text \<open>
  What the functions of the theory \<open>Info_Elements\<close> do: the bytes of each element and that the functions write them
  (\<open>create_...\<close>), that the parser reads each element back (\<open>reads_...\<close>) and so all elements of an enhanced beacon
  (\<open>parse_beacon_ies\<close>), and that it returns for any bytes, inside of the memory that it is given, if eight bytes of memory
  follow the elements (\<open>parse_ies_total\<close>).
\<close>

section \<open>Descriptors\<close>

definition header_desc :: "nat \<Rightarrow> u8 \<Rightarrow> u16" where
  "header_desc k i = (of_nat k AND 0x7f) + push_bit 7 (ucast i AND 0xff)"

definition payload_desc :: "nat \<Rightarrow> u8 \<Rightarrow> u16" where
  "payload_desc k i = (of_nat k AND 0x7ff) + push_bit 11 (ucast i AND 0xf) + push_bit 15 1"

definition short_desc :: "nat \<Rightarrow> u8 \<Rightarrow> u16" where
  "short_desc k i = (of_nat k AND 0xff) + push_bit 8 (ucast i AND 0x7f)"

lemma masks:
  fixes x :: u16
  shows "x AND 0x7f = take_bit 7 x" "x AND 0xff = take_bit 8 x" "x AND 0x7ff = take_bit 11 x" "x AND 0xf = take_bit 4 x" "x AND 0xfff = take_bit 12 x"
    "x AND 0x7f80 = push_bit 7 (take_bit 8 (drop_bit 7 x))" "x AND 0x7f00 = push_bit 8 (take_bit 7 (drop_bit 8 x))"
    "x AND 0x7800 = push_bit 11 (take_bit 4 (drop_bit 11 x))" "x AND 0x8000 = 0 \<longleftrightarrow> \<not> bit x 15" "x AND 0x800 = 0 \<longleftrightarrow> \<not> bit x 11"
proof -
  show "x AND 0x7f = take_bit 7 x" "x AND 0xff = take_bit 8 x" "x AND 0x7ff = take_bit 11 x" "x AND 0xf = take_bit 4 x" "x AND 0xfff = take_bit 12 x"
    by (simp_all add: take_bit_eq_mask mask_eq_exp_minus_1)
  have c: "(0x7f80 :: u16) = push_bit 7 (mask 8)" "(0x7f00 :: u16) = push_bit 8 (mask 7)" "(0x7800 :: u16) = push_bit 11 (mask 4)"
    by (simp_all add: mask_eq_exp_minus_1 push_bit_eq_mult)
  show "x AND 0x7f80 = push_bit 7 (take_bit 8 (drop_bit 7 x))" "x AND 0x7f00 = push_bit 8 (take_bit 7 (drop_bit 8 x))"
    "x AND 0x7800 = push_bit 11 (take_bit 4 (drop_bit 11 x))"
    unfolding c by (rule bit_word_eqI, auto simp: bit_simps)+
  show "x AND 0x8000 = 0 \<longleftrightarrow> \<not> bit x 15" "x AND 0x800 = 0 \<longleftrightarrow> \<not> bit x 11"
    using and_exp_eq_0_iff_not_bit [of x 15] and_exp_eq_0_iff_not_bit [of x 11] by simp_all
qed

lemma desc_or:
  "header_desc k i = take_bit 7 (of_nat k) OR push_bit 7 (take_bit 8 (ucast i))"
  "payload_desc k i = take_bit 11 (of_nat k) OR push_bit 11 (take_bit 4 (ucast i)) OR push_bit 15 1"
  "short_desc k i = take_bit 8 (of_nat k) OR push_bit 8 (take_bit 7 (ucast i))"
proof -
  have d: "\<not> bit (take_bit n x :: u16) m \<or> \<not> bit (push_bit n y :: u16) m" "\<not> bit (take_bit 11 x OR push_bit 11 (take_bit 4 y) :: u16) m \<or> \<not> bit (push_bit 15 z :: u16) m" for n m x y z
    by (auto simp: bit_simps)
  show "header_desc k i = take_bit 7 (of_nat k) OR push_bit 7 (take_bit 8 (ucast i))"
    "short_desc k i = take_bit 8 (of_nat k) OR push_bit 8 (take_bit 7 (ucast i))"
    unfolding header_desc_def short_desc_def masks by (rule disjunctive_add, rule d)+
  show "payload_desc k i = take_bit 11 (of_nat k) OR push_bit 11 (take_bit 4 (ucast i)) OR push_bit 15 1"
    unfolding payload_desc_def masks or.assoc [symmetric] by (subst disjunctive_add, rule d(1), rule disjunctive_add, rule d(2))
qed

lemma take_bit_u8: "take_bit 8 (x :: u8) = x"
  by (rule bit_word_eqI) (auto simp: bit_simps)

lemma desc_parts:
  "header_desc k i AND 0x7f = take_bit 7 (of_nat k)" "ucast (drop_bit 7 (header_desc k i AND 0x7f80)) = i" "header_desc k i AND 0x8000 = 0"
  "payload_desc k i AND 0x7ff = take_bit 11 (of_nat k)" "ucast (drop_bit 11 (payload_desc k i AND 0x7800)) = take_bit 4 i" "payload_desc k i AND 0x8000 \<noteq> 0"
  "short_desc k i AND 0xff = take_bit 8 (of_nat k)" "ucast (drop_bit 8 (short_desc k i AND 0x7f00)) = take_bit 7 i" "short_desc k i AND 0x8000 = 0"
  unfolding masks desc_or by (auto simp: bit_simps intro!: bit_word_eqI)

lemma unat_take_of_nat: "k < 2 ^ n \<Longrightarrow> n \<le> 16 \<Longrightarrow> unat (take_bit n (of_nat k :: u16)) = k"
proof -
  assume a: "k < 2 ^ n" "n \<le> 16"
  then have "k < 2 ^ 16"
    using power_increasing [of n 16 "2 :: nat"] by linarith
  with a show ?thesis
    by (simp add: unsigned_take_bit_eq unsigned_of_nat take_bit_nat_eq_self)
qed

section \<open>Accesses\<close>

lemma WRITE16_at: "WRITE16 (pre @ x # y # post) (length pre) v = Some (pre @ le16 v @ post)"
  using pid_bytes_le16 [of v] by (simp add: WRITE16_def wr_def pid_bytes_def list_update_append)

lemma READ16_at: "READ16 (pre @ le16 v @ post) (length pre) = Some v"
proof -
  have "ucast (ucast v :: u8) OR push_bit 8 (ucast (ucast (drop_bit 8 v) :: u8)) = v"
    by (rule bit_word_eqI) (auto simp: bit_simps)
  then show ?thesis
    by (simp add: READ16_def le16_def rd_append) (simp add: rd_def)
qed

lemma READ16_in: "i + 2 \<le> length bs \<Longrightarrow> \<exists>v. READ16 bs i = Some v"
  by (simp add: READ16_def rd_in)

section \<open>The bytes of the elements\<close>

definition sync_bytes :: "ieee802154_ies \<Rightarrow> u8 list" where
  "sync_bytes ies = le16 (short_desc 6 MLME_SHORT_IE_TSCH_SYNCHRONIZATION) @ le32 (ls4b (ie_asn ies)) @ [ms1b (ie_asn ies), ie_join_priority ies]"

definition link_bytes :: "tsch_slotframe_and_links_link \<Rightarrow> u8 list" where
  "link_bytes l = le16 (ie_timeslot l) @ le16 (ie_channel_offset l) @ [ie_link_options l]"

definition slotframe_content :: "tsch_slotframe_and_links \<Rightarrow> u8 list" where
  "slotframe_content s = num_slotframes s # (if num_slotframes s = 1 then ie_slotframe_handle s # le16 (slotframe_size s) @ num_links s
       # concat (map link_bytes (take (unat (num_links s)) (ie_links s))) else [])"

definition slotframe_bytes :: "ieee802154_ies \<Rightarrow> u8 list" where
  "slotframe_bytes ies = (let c = slotframe_content (ie_tsch_slotframe_and_link ies)
     in le16 (short_desc (length c) MLME_SHORT_IE_TSCH_SLOFTRAME_AND_LINK) @ c)"

definition timeslot_content :: "ieee802154_ies \<Rightarrow> u8 list" where
  "timeslot_content ies = ie_tsch_timeslot_id ies # (if ie_tsch_timeslot_id ies = 0 then [] else concat (map le16 (ie_tsch_timeslot ies)))"

definition timeslot_bytes :: "ieee802154_ies \<Rightarrow> u8 list" where
  "timeslot_bytes ies = le16 (short_desc (length (timeslot_content ies)) MLME_SHORT_IE_TSCH_TIMESLOT) @ timeslot_content ies"

definition hopping_content :: "ieee802154_ies \<Rightarrow> u8 list" where
  "hopping_content ies = ie_channel_hopping_sequence_id ies # (if ie_channel_hopping_sequence_id ies = 0 then []
     else 0 # le16 0 @ le16 0 @ le16 0 @ le16 (ie_hopping_sequence_len ies) @ take (unat (ie_hopping_sequence_len ies)) (ie_hopping_sequence_list ies) @ le16 0)"

definition hopping_bytes :: "ieee802154_ies \<Rightarrow> u8 list" where
  "hopping_bytes ies = le16 (payload_desc (length (hopping_content ies)) MLME_LONG_IE_TSCH_CHANNEL_HOPPING_SEQUENCE) @ hopping_content ies"

definition discovery_bytes :: "ieee802154_ies \<Rightarrow> u8 list" where
  "discovery_bytes ies = le16 (short_desc 2 MLME_SHORT_IE_NEIGHBOR_DISCOVERY) @ le16 (ie_sequence_number ies)"

definition correction_bytes :: "ieee802154_ies \<Rightarrow> u8 list" where
  "correction_bytes ies = le16 (header_desc 2 HEADER_IE_ACK_NACK_TIME_CORRECTION)
     @ le16 (if ie_is_nack ies \<noteq> 0 then ie_time_correction ies AND 0xfff OR 0x8000 else ie_time_correction ies AND 0xfff)"

text \<open>The struct as the C type gives it, with contents that an element can hold.\<close>

definition ies_ok :: "ieee802154_ies \<Rightarrow> bool" where
  "ies_ok ies \<longleftrightarrow> length (ie_tsch_timeslot ies) = 12 \<and> length (ie_links (ie_tsch_slotframe_and_link ies)) = 4 \<and> length (ie_hopping_sequence_list ies) = 16"

definition ies_valid :: "ieee802154_ies \<Rightarrow> bool" where
  "ies_valid ies \<longleftrightarrow> ies_ok ies \<and> unat (num_slotframes (ie_tsch_slotframe_and_link ies)) \<le> 1 \<and> unat (num_links (ie_tsch_slotframe_and_link ies)) \<le> 4
     \<and> unat (ie_hopping_sequence_len ies) \<le> 16"

text \<open>
  A function that creates an element writes its bytes \<open>bs\<close> to the front of a memory of at least \<open>k\<close> bytes, if it is told that there
  is room for them.
\<close>

definition creates :: "(u8 list \<Rightarrow> int \<Rightarrow> (int \<times> u8 list) option) \<Rightarrow> nat \<Rightarrow> u8 list \<Rightarrow> bool" where
  "creates f k bs \<longleftrightarrow> (\<forall>buf len. k \<le> length buf \<and> length bs \<le> length buf \<longrightarrow>
     (if int (length bs) \<le> len then \<exists>rest. f buf len = Some (int (length bs), bs @ rest) \<and> length bs + length rest = length buf
      else f buf len = Some (-1, buf)))"

lemma descriptor_front:
  assumes "2 \<le> length buf"
  shows "create_header_ie_descriptor buf i (int k) = Some (le16 (header_desc k i) @ drop 2 buf)"
    "create_payload_ie_descriptor buf i (int k) = Some (le16 (payload_desc k i) @ drop 2 buf)"
    "create_mlme_short_ie_descriptor buf i (int k) = Some (le16 (short_desc k i) @ drop 2 buf)"
    "create_mlme_long_ie_descriptor buf i (int k) = Some (le16 (payload_desc k i) @ drop 2 buf)"
proof -
  obtain a b r where "buf = a # b # r"
    using assms by (metis One_nat_def Suc_le_length_iff numeral_2_eq_2)
  then have w: "WRITE16 buf 0 v = Some (le16 v @ drop 2 buf)" for v
    using WRITE16_at [of "[]" a b r] by simp
  show "create_header_ie_descriptor buf i (int k) = Some (le16 (header_desc k i) @ drop 2 buf)"
    "create_payload_ie_descriptor buf i (int k) = Some (le16 (payload_desc k i) @ drop 2 buf)"
    "create_mlme_short_ie_descriptor buf i (int k) = Some (le16 (short_desc k i) @ drop 2 buf)"
    "create_mlme_long_ie_descriptor buf i (int k) = Some (le16 (payload_desc k i) @ drop 2 buf)"
    unfolding create_header_ie_descriptor_def create_payload_ie_descriptor_def create_mlme_short_ie_descriptor_def
      create_mlme_long_ie_descriptor_def w header_desc_def payload_desc_def short_desc_def by simp_all
qed

text \<open>A write in the middle, with the memory written so far in front.\<close>

lemma write_next:
  "length pre = i \<Longrightarrow> 1 \<le> length post \<Longrightarrow> wr (pre @ post) i v = Some ((pre @ [v]) @ drop 1 post)"
  "length pre = i \<Longrightarrow> 2 \<le> length post \<Longrightarrow> WRITE16 (pre @ post) i w = Some ((pre @ le16 w) @ drop 2 post)"
  "length pre = i \<Longrightarrow> length bs \<le> length post \<Longrightarrow> wr_n (pre @ post) i bs = Some ((pre @ bs) @ drop (length bs) post)"
proof -
  show "length pre = i \<Longrightarrow> 1 \<le> length post \<Longrightarrow> wr (pre @ post) i v = Some ((pre @ [v]) @ drop 1 post)"
    by (cases post) (auto simp: wr_def)
  show "WRITE16 (pre @ post) i w = Some ((pre @ le16 w) @ drop 2 post)" if "length pre = i" "2 \<le> length post"
  proof -
    obtain x y r where "post = x # y # r"
      using \<open>2 \<le> length post\<close> by (metis One_nat_def Suc_le_length_iff numeral_2_eq_2)
    then show ?thesis
      using WRITE16_at [of pre x y r w] that(1) by simp
  qed
  show "length pre = i \<Longrightarrow> length bs \<le> length post \<Longrightarrow> wr_n (pre @ post) i bs = Some ((pre @ bs) @ drop (length bs) post)"
    by (auto simp: wr_n_def)
qed

lemma ucast_byte: "(ucast (v AND 0xff :: u16) :: u8) = ucast v"
  unfolding masks by (rule bit_word_eqI) (auto simp: bit_simps)

lemma WRITE16_eq: "i + 1 < length buf \<Longrightarrow> WRITE16 buf i v = Some (buf[i := ucast v, i + 1 := ucast (drop_bit 8 v)])"
  by (simp add: WRITE16_def wr_def ucast_byte)

lemma split_front: "k \<le> length buf \<Longrightarrow> \<exists>pre post. buf = pre @ post \<and> length pre = k"
  by (metis append_take_drop_id length_take min.absorb2)

lemma front_8: "8 \<le> length buf \<Longrightarrow> \<exists>a b c d e f g h r. buf = a # b # c # d # e # f # g # h # r"
  by (auto simp: numeral_eq_Suc Suc_le_length_iff)

lemma front_4: "4 \<le> length buf \<Longrightarrow> \<exists>a b c d r. buf = a # b # c # d # r"
  by (auto simp: numeral_eq_Suc Suc_le_length_iff)

lemma front_3: "3 \<le> length buf \<Longrightarrow> \<exists>a b c r. buf = a # b # c # r"
  by (auto simp: numeral_eq_Suc Suc_le_length_iff)

lemma create_sync: "creates (\<lambda>buf len. frame80215e_create_ie_tsch_synchronization buf len ies) 8 (sync_bytes ies)"
  unfolding creates_def
proof (intro allI impI)
  fix buf :: "u8 list" and len :: int
  assume "8 \<le> length buf \<and> length (sync_bytes ies) \<le> length buf"
  then obtain a b c d e f g h r where "buf = a # b # c # d # e # f # g # h # r"
    using front_8 by blast
  then show "if int (length (sync_bytes ies)) \<le> len
    then \<exists>rest. frame80215e_create_ie_tsch_synchronization buf len ies = Some (int (length (sync_bytes ies)), sync_bytes ies @ rest)
      \<and> length (sync_bytes ies) + length rest = length buf
    else frame80215e_create_ie_tsch_synchronization buf len ies = Some (-1, buf)"
    using descriptor_front(3) [of _ _ 6]
    by (simp add: frame80215e_create_ie_tsch_synchronization_def sync_bytes_def wr_def le32_def)
qed

lemma create_discovery: "creates (\<lambda>buf len. frame80215e_create_ie_tsch_neighbor_discovery buf len ies) 4 (discovery_bytes ies)"
  unfolding creates_def
proof (intro allI impI)
  fix buf :: "u8 list" and len :: int
  assume "4 \<le> length buf \<and> length (discovery_bytes ies) \<le> length buf"
  then obtain a b c d r where "buf = a # b # c # d # r"
    using front_4 by blast
  then show "if int (length (discovery_bytes ies)) \<le> len
    then \<exists>rest. frame80215e_create_ie_tsch_neighbor_discovery buf len ies = Some (int (length (discovery_bytes ies)), discovery_bytes ies @ rest)
      \<and> length (discovery_bytes ies) + length rest = length buf
    else frame80215e_create_ie_tsch_neighbor_discovery buf len ies = Some (-1, buf)"
    using descriptor_front(3) [of _ _ 2]
    by (simp add: frame80215e_create_ie_tsch_neighbor_discovery_def discovery_bytes_def WRITE16_eq le16_def [of "ie_sequence_number ies"])
qed

lemma create_correction: "creates (\<lambda>buf len. frame80215e_create_ie_header_ack_nack_time_correction buf len ies) 4 (correction_bytes ies)"
  unfolding creates_def
proof (intro allI impI)
  fix buf :: "u8 list" and len :: int
  let ?v = "if ie_is_nack ies \<noteq> 0 then ie_time_correction ies AND 0xfff OR 0x8000 else ie_time_correction ies AND 0xfff"
  assume "4 \<le> length buf \<and> length (correction_bytes ies) \<le> length buf"
  then obtain a b c d r where "buf = a # b # c # d # r"
    using front_4 by blast
  then show "if int (length (correction_bytes ies)) \<le> len
    then \<exists>rest. frame80215e_create_ie_header_ack_nack_time_correction buf len ies = Some (int (length (correction_bytes ies)), correction_bytes ies @ rest)
      \<and> length (correction_bytes ies) + length rest = length buf
    else frame80215e_create_ie_header_ack_nack_time_correction buf len ies = Some (-1, buf)"
    using descriptor_front(1) [of _ _ 2]
    by (simp add: frame80215e_create_ie_header_ack_nack_time_correction_def correction_bytes_def WRITE16_eq Let_def le16_def [of ?v] del: if_split)
qed

lemma create_terminations:
  "creates frame80215e_create_ie_header_list_termination_1 2 (le16 (header_desc 0 HEADER_IE_LIST_TERMINATION_1))"
  "creates frame80215e_create_ie_header_list_termination_2 2 (le16 (header_desc 0 HEADER_IE_LIST_TERMINATION_2))"
  "creates frame80215e_create_ie_payload_list_termination 2 (le16 (payload_desc 0 PAYLOAD_IE_LIST_TERMINATION))"
  "creates (\<lambda>buf len. frame80215e_create_ie_mlme buf len ies) 2 (le16 (payload_desc (unat (ie_mlme_len ies)) PAYLOAD_IE_MLME))"
  unfolding creates_def
  using descriptor_front(1,2) [of _ _ 0] descriptor_front(2) [of _ _ "unat (ie_mlme_len ies)"]
  by (auto simp: frame80215e_create_ie_header_list_termination_1_def frame80215e_create_ie_header_list_termination_2_def
      frame80215e_create_ie_payload_list_termination_def frame80215e_create_ie_mlme_def simp del: of_nat_unat)

text \<open>The loops write the encodings of the entries one after the other.\<close>

lemma write_links_from:
  assumes "i + n \<le> length ls" "length pre = 7 + 5 * i" "5 * n \<le> length post"
  shows "\<exists>rest. write_links ls i n (pre @ post) = Some (pre @ concat (map link_bytes (take n (drop i ls))) @ rest)
    \<and> length rest + 5 * n = length post"
  using assms
proof (induction n arbitrary: i pre post)
  case (Suc n)
  let ?l = "ls ! i"
  have n5: "5 \<le> length post"
    using Suc.prems(3) by simp
  have l: "rd ls i = Some ?l"
    using Suc.prems(1) by (simp add: rd_in)
  have w1: "WRITE16 (pre @ post) (7 + i * 5) (ie_timeslot ?l) = Some ((pre @ le16 (ie_timeslot ?l)) @ drop 2 post)"
    by (rule write_next(2)) (use Suc.prems(2) n5 in simp_all)
  have w2: "WRITE16 ((pre @ le16 (ie_timeslot ?l)) @ drop 2 post) (7 + i * 5 + 2) (ie_channel_offset ?l)
    = Some (((pre @ le16 (ie_timeslot ?l)) @ le16 (ie_channel_offset ?l)) @ drop 2 (drop 2 post))"
    by (rule write_next(2)) (use Suc.prems(2) n5 in simp_all)
  have w3: "wr (((pre @ le16 (ie_timeslot ?l)) @ le16 (ie_channel_offset ?l)) @ drop 2 (drop 2 post)) (7 + i * 5 + 4) (ie_link_options ?l)
    = Some ((((pre @ le16 (ie_timeslot ?l)) @ le16 (ie_channel_offset ?l)) @ [ie_link_options ?l]) @ drop 1 (drop 2 (drop 2 post)))"
    by (rule write_next(1)) (use Suc.prems(2) n5 in simp_all)
  have step: "write_links ls i (Suc n) (pre @ post) = write_links ls (i + 1) n ((pre @ link_bytes ?l) @ drop 5 post)"
    unfolding write_links.simps l bind.bind_lunit w1 w2 w3 by (simp add: link_bytes_def)
  have "\<exists>rest. write_links ls (i + 1) n ((pre @ link_bytes ?l) @ drop 5 post)
      = Some ((pre @ link_bytes ?l) @ concat (map link_bytes (take n (drop (i + 1) ls))) @ rest) \<and> length rest + 5 * n = length (drop 5 post)"
    by (rule Suc.IH) (use Suc.prems in \<open>simp_all add: link_bytes_def\<close>)
  moreover have "drop i ls = ?l # drop (i + 1) ls"
    using Suc.prems(1) by (simp add: Cons_nth_drop_Suc)
  ultimately show ?case
    unfolding step using n5 by auto
qed simp

lemma write_timeslots_from:
  assumes "i + n \<le> length ts" "length pre = 3 + 2 * i" "2 * n \<le> length post"
  shows "\<exists>rest. write_timeslots ts i n (pre @ post) = Some (pre @ concat (map le16 (take n (drop i ts))) @ rest)
    \<and> length rest + 2 * n = length post"
  using assms
proof (induction n arbitrary: i pre post)
  case (Suc n)
  let ?t = "ts ! i"
  have n2: "2 \<le> length post" and t: "rd ts i = Some ?t"
    using Suc.prems by (simp_all add: rd_in)
  have w: "WRITE16 (pre @ post) (3 + 2 * i) ?t = Some ((pre @ le16 ?t) @ drop 2 post)"
    by (rule write_next(2)) (use Suc.prems(2) n2 in simp_all)
  have "\<exists>rest. write_timeslots ts (i + 1) n ((pre @ le16 ?t) @ drop 2 post)
      = Some ((pre @ le16 ?t) @ concat (map le16 (take n (drop (i + 1) ts))) @ rest) \<and> length rest + 2 * n = length (drop 2 post)"
    by (rule Suc.IH) (use Suc.prems in simp_all)
  moreover have "drop i ts = ?t # drop (i + 1) ts"
    using Suc.prems(1) by (simp add: Cons_nth_drop_Suc)
  ultimately show ?case
    unfolding write_timeslots.simps t bind.bind_lunit w using n2 by auto
qed simp

lemma length_concat_le16: "length (concat (map le16 ts)) = 2 * length ts"
  by (induction ts) simp_all

lemma length_link_bytes [simp]: "length (link_bytes l) = 5"
  by (simp add: link_bytes_def)

lemma length_concat_links: "length (concat (map link_bytes ls)) = 5 * length ls"
  by (induction ls) (simp_all add: link_bytes_def)

lemma length_timeslot_content: "ies_ok ies \<Longrightarrow> length (timeslot_content ies) = (if ie_tsch_timeslot_id ies = 0 then 1 else 25)"
  by (simp add: timeslot_content_def length_concat_le16 ies_ok_def)

lemma create_timeslot:
  assumes ok: "ies_ok ies"
  shows "creates (\<lambda>buf len. frame80215e_create_ie_tsch_timeslot buf len ies) 3 (timeslot_bytes ies)"
  unfolding creates_def
proof (intro allI impI)
  fix buf :: "u8 list" and len :: int
  let ?id = "ie_tsch_timeslot_id ies"
  let ?k = "if ?id = 0 then 1 else 25 :: nat"
  assume le: "3 \<le> length buf \<and> length (timeslot_bytes ies) \<le> length buf"
  note n = length_timeslot_content [OF ok]
  have bs: "timeslot_bytes ies = le16 (short_desc ?k MLME_SHORT_IE_TSCH_TIMESLOT) @ timeslot_content ies" "length (timeslot_bytes ies) = 2 + ?k"
    by (simp_all add: timeslot_bytes_def n)
  obtain a b c r where buf: "buf = a # b # c # r"
    using le front_3 by blast
  have 1: "wr buf 2 ?id = Some ([a, b, ?id] @ r)"
    by (simp add: buf wr_def)
  obtain rest where 2: "(if ?id \<noteq> 0 then write_timeslots (ie_tsch_timeslot ies) 0 tsch_ts_elements_count ([a, b, ?id] @ r) else Some ([a, b, ?id] @ r))
      = Some ([a, b] @ timeslot_content ies @ rest)" "length rest + (2 + ?k) = length buf"
  proof (cases "?id = 0")
    case False
    then have "24 \<le> length r"
      using le bs(2) by (simp add: buf)
    with ok write_timeslots_from [of 0 12 "ie_tsch_timeslot ies" "[a, b, ?id]" r] obtain rest where
      "write_timeslots (ie_tsch_timeslot ies) 0 12 ([a, b, ?id] @ r) = Some ([a, b, ?id] @ concat (map le16 (ie_tsch_timeslot ies)) @ rest)"
      "length rest + 24 = length r"
      by (auto simp: ies_ok_def)
    with False that show thesis
      by (simp add: timeslot_content_def tsch_ts_elements_count_def buf)
  qed (use that in \<open>simp add: timeslot_content_def buf\<close>)
  have 3: "create_mlme_short_ie_descriptor ([a, b] @ timeslot_content ies @ rest) MLME_SHORT_IE_TSCH_TIMESLOT (int ?k) = Some (timeslot_bytes ies @ rest)"
    by (subst descriptor_front(3)) (simp_all add: bs(1))
  have k: "(if ?id = 0 then 1 else 25) = int ?k"
    by simp
  have len: "int (length (timeslot_bytes ies)) = 2 + int ?k"
    by (simp add: bs(2))
  show "if int (length (timeslot_bytes ies)) \<le> len
    then \<exists>rest. frame80215e_create_ie_tsch_timeslot buf len ies = Some (int (length (timeslot_bytes ies)), timeslot_bytes ies @ rest)
      \<and> length (timeslot_bytes ies) + length rest = length buf
    else frame80215e_create_ie_tsch_timeslot buf len ies = Some (-1, buf)"
    unfolding frame80215e_create_ie_tsch_timeslot_def Let_def k 1 bind.bind_lunit 2(1) 3 len using 2(2) bs(2) by (simp del: of_nat_add)
qed

lemma length_slotframe_content:
  assumes "ies_valid ies"
  defines "s \<equiv> ie_tsch_slotframe_and_link ies"
  shows "int (length (slotframe_content s)) = 1 + uint (num_slotframes s) * (4 + 5 * uint (num_links s))" "length (slotframe_content s) \<le> 25"
proof -
  have v: "unat (num_slotframes s) \<le> 1" "unat (num_links s) \<le> 4" "length (ie_links s) = 4"
    using assms by (simp_all add: ies_valid_def ies_ok_def)
  have u: "uint (num_slotframes s) = int (unat (num_slotframes s))" "uint (num_links s) = int (unat (num_links s))"
    by simp_all
  show "int (length (slotframe_content s)) = 1 + uint (num_slotframes s) * (4 + 5 * uint (num_links s))"
  proof (cases "num_slotframes s = 1")
    case True
    then have "length (slotframe_content s) = 5 + 5 * unat (num_links s)"
      using v(2,3) by (simp add: slotframe_content_def length_concat_links)
    then show ?thesis
      using True by simp
  next
    case False
    then have "unat (num_slotframes s) = 0"
      using v(1) by (metis le_antisym less_one linorder_not_less unat_1 word_unat_eq_iff)
    with False show ?thesis
      unfolding u by (simp add: slotframe_content_def)
  qed
  show "length (slotframe_content s) \<le> 25"
    using v by (simp add: slotframe_content_def length_concat_links)
qed

lemma create_slotframe:
  assumes ok: "ies_valid ies"
  shows "creates (\<lambda>buf len. frame80215e_create_ie_tsch_slotframe_and_link buf len ies) 3 (slotframe_bytes ies)"
  unfolding creates_def
proof (intro allI impI)
  fix buf :: "u8 list" and len :: int
  let ?s = "ie_tsch_slotframe_and_link ies"
  let ?c = "slotframe_content ?s"
  assume le: "3 \<le> length buf \<and> length (slotframe_bytes ies) \<le> length buf"
  note n = length_slotframe_content [OF ok]
  have bs: "slotframe_bytes ies = le16 (short_desc (length ?c) MLME_SHORT_IE_TSCH_SLOFTRAME_AND_LINK) @ ?c" "length (slotframe_bytes ies) = 2 + length ?c"
    by (simp_all add: slotframe_bytes_def Let_def)
  have u: "uint y = int (unat y)" for y :: u8
    by simp
  have v: "\<not> uint (num_slotframes ?s) > 1" "\<not> uint (num_links ?s) > FRAME802154E_IE_MAX_LINKS" "unat (num_links ?s) \<le> 4" "length (ie_links ?s) = 4"
    using ok unfolding u by (simp_all add: ies_valid_def ies_ok_def FRAME802154E_IE_MAX_LINKS_def del: of_nat_unat)
  obtain a b x r where buf: "buf = a # b # x # r"
    using le front_3 by blast
  have 1: "wr buf 2 (num_slotframes ?s) = Some ([a, b, num_slotframes ?s] @ r)"
    by (simp add: buf wr_def)
  have one: "uint (num_slotframes ?s) = 1 \<longleftrightarrow> num_slotframes ?s = 1"
    by (metis uint_1 word_uint_eq_iff)
  obtain rest where 2: "(if uint (num_slotframes ?s) = 1 then do {
        buf \<leftarrow> wr ([a, b, num_slotframes ?s] @ r) 3 (ie_slotframe_handle ?s);
        buf \<leftarrow> WRITE16 buf 4 (slotframe_size ?s);
        buf \<leftarrow> wr buf 6 (num_links ?s);
        write_links (ie_links ?s) 0 (nat (uint (num_links ?s))) buf
      } else Some ([a, b, num_slotframes ?s] @ r)) = Some ([a, b] @ ?c @ rest)" "length rest + (2 + length ?c) = length buf"
  proof (cases "num_slotframes ?s = 1")
    case True
    let ?h = "[a, b, num_slotframes ?s, ie_slotframe_handle ?s] @ le16 (slotframe_size ?s) @ [num_links ?s]"
    have lc: "length ?c = 5 + 5 * unat (num_links ?s)"
      using True v by (simp add: slotframe_content_def length_concat_links)
    then have "4 \<le> length r"
      using le bs(2) by (simp add: buf)
    then obtain p q t u r' where r: "r = p # q # t # u # r'"
      using front_4 by blast
    have h: "do { buf \<leftarrow> wr ([a, b, num_slotframes ?s] @ r) 3 (ie_slotframe_handle ?s);
        buf \<leftarrow> WRITE16 buf 4 (slotframe_size ?s); buf \<leftarrow> wr buf 6 (num_links ?s); write_links (ie_links ?s) 0 (nat (uint (num_links ?s))) buf }
      = write_links (ie_links ?s) 0 (unat (num_links ?s)) (?h @ r')"
      by (simp add: r wr_def WRITE16_eq le16_def)
    obtain rest where "write_links (ie_links ?s) 0 (unat (num_links ?s)) (?h @ r')
        = Some (?h @ concat (map link_bytes (take (unat (num_links ?s)) (ie_links ?s))) @ rest)" "length rest + 5 * unat (num_links ?s) = length r'"
      using write_links_from [of 0 "unat (num_links ?s)" "ie_links ?s" ?h r'] v(3,4) le bs(2) lc by (auto simp: buf r)
    with True that h lc show thesis
      by (simp add: one slotframe_content_def buf r)
  qed (use that one in \<open>simp add: slotframe_content_def buf\<close>)
  have 3: "create_mlme_short_ie_descriptor ([a, b] @ ?c @ rest) MLME_SHORT_IE_TSCH_SLOFTRAME_AND_LINK
      (1 + uint (num_slotframes ?s) * (4 + 5 * uint (num_links ?s))) = Some (slotframe_bytes ies @ rest)"
    unfolding n(1) [symmetric] by (subst descriptor_front(3)) (simp_all add: bs(1))
  have len: "int (length (slotframe_bytes ies)) = 2 + (1 + uint (num_slotframes ?s) * (4 + 5 * uint (num_links ?s)))"
    using bs(2) n(1) by simp
  show "if int (length (slotframe_bytes ies)) \<le> len
    then \<exists>rest. frame80215e_create_ie_tsch_slotframe_and_link buf len ies = Some (int (length (slotframe_bytes ies)), slotframe_bytes ies @ rest)
      \<and> length (slotframe_bytes ies) + length rest = length buf
    else frame80215e_create_ie_tsch_slotframe_and_link buf len ies = Some (-1, buf)"
    unfolding frame80215e_create_ie_tsch_slotframe_and_link_def Let_def 1 bind.bind_lunit 2(1) 3 len using v(1,2) 2(2) bs(2) by (auto simp: not_less)
qed

lemma length_hopping_content:
  assumes "ies_valid ies"
  shows "length (hopping_content ies) = (if ie_channel_hopping_sequence_id ies = 0 then 1 else 12 + unat (ie_hopping_sequence_len ies))"
  using assms by (simp add: hopping_content_def ies_valid_def ies_ok_def)

text \<open>Without a sequence the element has three bytes, but the function writes all of its fields, at least 14 bytes.\<close>

lemma create_hopping:
  assumes ok: "ies_valid ies"
  shows "creates (\<lambda>buf len. frame80215e_create_ie_tsch_channel_hopping_sequence buf len ies) (14 + unat (ie_hopping_sequence_len ies)) (hopping_bytes ies)"
  unfolding creates_def
proof (intro allI impI)
  fix buf :: "u8 list" and len :: int
  let ?id = "ie_channel_hopping_sequence_id ies" and ?n = "unat (ie_hopping_sequence_len ies)"
  let ?k = "if ?id = 0 then 1 else 12 + ?n" and ?l = "take ?n (ie_hopping_sequence_list ies)"
  assume le: "14 + ?n \<le> length buf \<and> length (hopping_bytes ies) \<le> length buf"
  have v: "\<not> ?n > TSCH_HOPPING_SEQUENCE_MAX_LEN" "length ?l = ?n"
    using ok by (simp_all add: ies_valid_def ies_ok_def TSCH_HOPPING_SEQUENCE_MAX_LEN_def)
  have bs: "hopping_bytes ies = le16 (payload_desc ?k MLME_LONG_IE_TSCH_CHANNEL_HOPPING_SEQUENCE) @ hopping_content ies" "length (hopping_bytes ies) = 2 + ?k"
    by (simp_all add: hopping_bytes_def length_hopping_content [OF ok])
  obtain a b c d e f g h r where r1: "buf = a # b # c # d # e # f # g # h # r"
    using le front_8 [of buf] by auto
  then have "4 \<le> length r"
    using le by simp
  then obtain i j k m r' where r2: "r = i # j # k # m # r'"
    using front_4 by blast
  let ?h = "[a, b, ?id, 0] @ le16 0 @ le16 0 @ le16 0 @ le16 (ie_hopping_sequence_len ies)"
  have room: "?n + 2 \<le> length r'"
    using le by (simp_all add: r1 r2)
  have l: "rd_n (ie_hopping_sequence_list ies) 0 ?n = Some ?l"
    using v ok by (simp add: rd_n_def ies_valid_def ies_ok_def)
  have w1: "wr_n (?h @ r') 12 ?l = Some ((?h @ ?l) @ drop (length ?l) r')"
    by (rule write_next(3)) (use room v in simp_all)
  have w2: "WRITE16 ((?h @ ?l) @ drop (length ?l) r') (12 + ?n) 0 = Some (((?h @ ?l) @ le16 0) @ drop 2 (drop (length ?l) r'))"
    by (rule write_next(2)) (use room v in simp_all)
  have 1: "do { buf \<leftarrow> wr buf 2 ?id; buf \<leftarrow> wr buf 3 0; buf \<leftarrow> WRITE16 buf 4 0; buf \<leftarrow> WRITE16 buf 6 0; buf \<leftarrow> WRITE16 buf 8 0;
        buf \<leftarrow> WRITE16 buf 10 (ie_hopping_sequence_len ies); bs \<leftarrow> rd_n (ie_hopping_sequence_list ies) 0 ?n; buf \<leftarrow> wr_n buf 12 bs; P buf }
      = do { buf \<leftarrow> wr_n (?h @ r') 12 ?l; P buf }" for P :: "u8 list \<Rightarrow> (int \<times> u8 list) option"
    by (simp add: r1 r2 l wr_def WRITE16_eq le16_def)
  define m where "m = ((?h @ ?l) @ le16 0) @ drop 2 (drop (length ?l) r')"
  define rest where "rest = (if ?id = 0 then drop 3 m else drop 2 (drop (length ?l) r'))"
  have m: "m = [a, b] @ hopping_content ies @ rest" "length rest + (2 + ?k) = length buf"
    using room v(2) by (auto simp: m_def rest_def hopping_content_def r1 r2 le16_def)
  have 3: "create_mlme_long_ie_descriptor m MLME_LONG_IE_TSCH_CHANNEL_HOPPING_SEQUENCE (int ?k) = Some (hopping_bytes ies @ rest)"
    unfolding m(1) by (subst descriptor_front(4)) (simp_all add: bs(1))
  have k: "(if ?id = 0 then 1 else 12 + int ?n) = int ?k" and len: "int (length (hopping_bytes ies)) = 2 + int ?k"
    by (simp_all add: bs(2))
  show "if int (length (hopping_bytes ies)) \<le> len
    then \<exists>rest. frame80215e_create_ie_tsch_channel_hopping_sequence buf len ies = Some (int (length (hopping_bytes ies)), hopping_bytes ies @ rest)
      \<and> length (hopping_bytes ies) + length rest = length buf
    else frame80215e_create_ie_tsch_channel_hopping_sequence buf len ies = Some (-1, buf)"
    unfolding frame80215e_create_ie_tsch_channel_hopping_sequence_def Let_def k 1 w1 w2 bind.bind_lunit m_def [symmetric] 3 len
    using v(1) m(2) bs(2) by (auto simp: not_less)
qed

section \<open>Reading the elements back\<close>

definition got_sync :: "ieee802154_ies \<Rightarrow> ieee802154_ies \<Rightarrow> ieee802154_ies" where
  "got_sync ies i0 = i0\<lparr>ie_asn := ie_asn ies, ie_join_priority := ie_join_priority ies\<rparr>"

definition got_timeslot :: "ieee802154_ies \<Rightarrow> ieee802154_ies \<Rightarrow> ieee802154_ies" where
  "got_timeslot ies i0 = i0\<lparr>ie_tsch_timeslot_id := ie_tsch_timeslot_id ies,
     ie_tsch_timeslot := (if ie_tsch_timeslot_id ies = 0 then ie_tsch_timeslot i0 else ie_tsch_timeslot ies)\<rparr>"

definition got_hopping :: "ieee802154_ies \<Rightarrow> ieee802154_ies \<Rightarrow> ieee802154_ies" where
  "got_hopping ies i0 = (let n = unat (ie_hopping_sequence_len ies); i0 = i0\<lparr>ie_channel_hopping_sequence_id := ie_channel_hopping_sequence_id ies\<rparr>
     in if ie_channel_hopping_sequence_id ies = 0 then i0
        else i0\<lparr>ie_hopping_sequence_len := ie_hopping_sequence_len ies,
          ie_hopping_sequence_list := take n (ie_hopping_sequence_list ies) @ drop n (ie_hopping_sequence_list i0)\<rparr>)"

definition got_slotframe :: "ieee802154_ies \<Rightarrow> ieee802154_ies \<Rightarrow> ieee802154_ies" where
  "got_slotframe ies i0 = (let s = ie_tsch_slotframe_and_link ies; n = unat (num_links s)
     in if num_slotframes s = 0 then i0
        else i0\<lparr>ie_tsch_slotframe_and_link := s\<lparr>ie_links := take n (ie_links s) @ drop n (ie_links (ie_tsch_slotframe_and_link i0))\<rparr>\<rparr>)"

definition got_discovery :: "ieee802154_ies \<Rightarrow> ieee802154_ies \<Rightarrow> ieee802154_ies" where
  "got_discovery ies i0 = i0\<lparr>ie_sequence_number := ie_sequence_number ies\<rparr>"

definition got_correction :: "ieee802154_ies \<Rightarrow> ieee802154_ies \<Rightarrow> ieee802154_ies" where
  "got_correction ies i0 = i0\<lparr>ie_is_nack := (if ie_is_nack ies = 0 then 0 else 1),
     ie_time_correction := (if bit (ie_time_correction ies) 11 then ie_time_correction ies OR 0xf000 else ie_time_correction ies AND 0xfff)\<rparr>"

lemma rd_mid: "length pre = p \<Longrightarrow> k < length c \<Longrightarrow> rd (pre @ c @ post) (p + k) = Some (c ! k)"
  by (auto simp: rd_def nth_append)

lemma READ16_mid:
  assumes "length pre = p" "length a = k" "c = a @ le16 v @ b"
  shows "READ16 (pre @ c @ post) (p + k) = Some v"
  using READ16_at [of "pre @ a" v "b @ post"] assms by simp

lemma read_links_from:
  assumes "i + n \<le> length ls" "length pre = p" "length a = 5 + 5 * i" "c = a @ concat (map link_bytes (take n (drop i ls))) @ b" "length js = length ls"
  shows "read_links (pre @ c @ post) p i n js = Some (take i js @ take n (drop i ls) @ drop (i + n) js)"
  using assms
proof (induction n arbitrary: i a js)
  case 0
  then show ?case by simp
next
  case (Suc n)
  let ?l = "ls ! i" and ?bs = "pre @ c @ post"
  have d: "drop i ls = ?l # drop (i + 1) ls"
    using Suc.prems(1) by (simp add: Cons_nth_drop_Suc)
  let ?rest = "concat (map link_bytes (take n (drop (i + 1) ls))) @ b"
  have c: "c = a @ link_bytes ?l @ ?rest"
    using Suc.prems(4) by (simp add: d)
  have r: "READ16 ?bs (p + 5 + i * 5) = Some (ie_timeslot ?l)" "READ16 ?bs (p + 5 + i * 5 + 2) = Some (ie_channel_offset ?l)"
    using READ16_mid [OF Suc.prems(2), of a "5 + i * 5" c "ie_timeslot ?l" "le16 (ie_channel_offset ?l) @ [ie_link_options ?l] @ ?rest" post]
      READ16_mid [OF Suc.prems(2), of "a @ le16 (ie_timeslot ?l)" "5 + i * 5 + 2" c "ie_channel_offset ?l" "[ie_link_options ?l] @ ?rest" post] Suc.prems(3)
    by (simp_all add: c link_bytes_def ac_simps)
  have o: "rd ?bs (p + 5 + i * 5 + 4) = Some (ie_link_options ?l)"
    using rd_mid [OF Suc.prems(2), of "5 + i * 5 + 4" c post] Suc.prems(3) by (simp add: c link_bytes_def nth_append add.assoc)
  have e: "\<lparr>ie_timeslot = ie_timeslot x, ie_channel_offset = ie_channel_offset x, ie_link_options = ie_link_options x\<rparr> = x" for x :: tsch_slotframe_and_links_link
    by (cases x) simp
  have w: "wr js i \<lparr>ie_timeslot = ie_timeslot ?l, ie_channel_offset = ie_channel_offset ?l, ie_link_options = ie_link_options ?l\<rparr> = Some (js[i := ?l])"
    unfolding e using Suc.prems(1,5) by (simp add: wr_in)
  have "read_links ?bs p (i + 1) n (js[i := ?l]) = Some (take (i + 1) (js[i := ?l]) @ take n (drop (i + 1) ls) @ drop (i + 1 + n) (js[i := ?l]))"
    by (rule Suc.IH [of "i + 1" "a @ link_bytes ?l"]) (use Suc.prems(1-3,5) in \<open>simp_all add: c\<close>)
  moreover have "take (i + 1) (js[i := ?l]) = take i js @ [?l]"
    using Suc.prems(1,5) by (simp add: take_Suc_conv_app_nth)
  moreover have "drop (i + 1 + n) (js[i := ?l]) = drop (i + Suc n) js"
    by simp
  ultimately show ?case
    unfolding read_links.simps r o bind.bind_lunit w using d by simp
qed

lemma read_timeslots_from:
  assumes "i + n \<le> length ts" "length pre = p" "length a = 1 + 2 * i" "c = a @ concat (map le16 (take n (drop i ts))) @ b" "length js = length ts"
  shows "read_timeslots (pre @ c @ post) p i n js = Some (take i js @ take n (drop i ts) @ drop (i + n) js)"
  using assms
proof (induction n arbitrary: i a js)
  case 0
  then show ?case by simp
next
  case (Suc n)
  let ?t = "ts ! i" and ?bs = "pre @ c @ post"
  have d: "drop i ts = ?t # drop (i + 1) ts"
    using Suc.prems(1) by (simp add: Cons_nth_drop_Suc)
  let ?rest = "concat (map le16 (take n (drop (i + 1) ts))) @ b"
  have c: "c = a @ le16 ?t @ ?rest"
    using Suc.prems(4) by (simp add: d)
  have r: "READ16 ?bs (p + 1 + 2 * i) = Some ?t"
    using READ16_mid [OF Suc.prems(2), of a "1 + 2 * i" c ?t ?rest post] Suc.prems(3) by (simp add: c add.assoc)
  have w: "wr js i ?t = Some (js[i := ?t])"
    using Suc.prems(1,5) by (simp add: wr_in)
  have "read_timeslots ?bs p (i + 1) n (js[i := ?t]) = Some (take (i + 1) (js[i := ?t]) @ take n (drop (i + 1) ts) @ drop (i + 1 + n) (js[i := ?t]))"
    by (rule Suc.IH [of "i + 1" "a @ le16 ?t"]) (use Suc.prems(1-3,5) in \<open>simp_all add: c\<close>)
  moreover have "take (i + 1) (js[i := ?t]) = take i js @ [?t]"
    using Suc.prems(1,5) by (simp add: take_Suc_conv_app_nth)
  ultimately show ?case
    unfolding read_timeslots.simps r w bind.bind_lunit by (simp add: d)
qed

lemma of_le32_join: "ucast (ucast (w :: u32) :: u8) OR push_bit 8 (ucast (ucast (drop_bit 8 w) :: u8)) OR push_bit 16 (ucast (ucast (drop_bit 16 w) :: u8))
    OR push_bit 24 (ucast (ucast (drop_bit 24 w) :: u8)) = w"
  using of_le32_le32 [of w] by (simp add: of_le32_def le32_def)

lemma parse_sync_content:
  assumes "length pre = p"
  shows "frame802154e_parse_mlme_short_ie (pre @ (le32 (ls4b (ie_asn ies)) @ [ms1b (ie_asn ies), ie_join_priority ies]) @ post) p 6
    MLME_SHORT_IE_TSCH_SYNCHRONIZATION i0 = Some (6, got_sync ies i0)"
proof -
  let ?c = "le32 (ls4b (ie_asn ies)) @ [ms1b (ie_asn ies), ie_join_priority ies]"
  have r0: "rd (pre @ ?c @ post) p = Some (?c ! 0)"
    using rd_mid [OF assms, of 0 ?c post] by simp
  have r: "rd (pre @ ?c @ post) (p + 1) = Some (?c ! 1)" "rd (pre @ ?c @ post) (p + 2) = Some (?c ! 2)"
    "rd (pre @ ?c @ post) (p + 3) = Some (?c ! 3)" "rd (pre @ ?c @ post) (p + 4) = Some (?c ! 4)" "rd (pre @ ?c @ post) (p + 5) = Some (?c ! 5)"
    by (rule rd_mid [OF assms], simp)+
  have n: "?c ! 0 = ucast (ls4b (ie_asn ies))" "?c ! 1 = ucast (drop_bit 8 (ls4b (ie_asn ies)))" "?c ! 2 = ucast (drop_bit 16 (ls4b (ie_asn ies)))"
    "?c ! 3 = ucast (drop_bit 24 (ls4b (ie_asn ies)))" "?c ! 4 = ms1b (ie_asn ies)" "?c ! 5 = ie_join_priority ies"
    by (simp_all add: le32_def)
  have "parse_synchronization (pre @ ?c @ post) p 6 i0 = Some (6, got_sync ies i0)"
    unfolding parse_synchronization_def r0 r bind.bind_lunit n of_le32_join by (simp add: got_sync_def)
  then show ?thesis
    by (simp add: frame802154e_parse_mlme_short_ie_def ie_constants)
qed

lemma parse_discovery_content:
  assumes "length pre = p"
  shows "frame802154e_parse_mlme_short_ie (pre @ le16 (ie_sequence_number ies) @ post) p 2 MLME_SHORT_IE_NEIGHBOR_DISCOVERY i0
    = Some (2, got_discovery ies i0)"
  using READ16_at [of pre "ie_sequence_number ies" post] assms by (simp add: frame802154e_parse_mlme_short_ie_def ie_constants got_discovery_def)

lemma parse_timeslot_content:
  assumes "length pre = p" "ies_ok ies" "ies_ok i0"
  shows "frame802154e_parse_mlme_short_ie (pre @ timeslot_content ies @ post) p (int (length (timeslot_content ies))) MLME_SHORT_IE_TSCH_TIMESLOT i0
    = Some (int (length (timeslot_content ies)), got_timeslot ies i0)"
proof -
  let ?c = "timeslot_content ies"
  have r: "rd (pre @ ?c @ post) p = Some (ie_tsch_timeslot_id ies)"
    using rd_mid [OF assms(1), of 0 ?c post] by (simp add: timeslot_content_def)
  have l: "length (ie_tsch_timeslot ies) = 12" "length (ie_tsch_timeslot i0) = 12"
    using assms(2,3) by (simp_all add: ies_ok_def)
  have "parse_timeslot (pre @ ?c @ post) p (int (length ?c)) i0 = Some (int (length ?c), got_timeslot ies i0)"
  proof (cases "ie_tsch_timeslot_id ies = 0")
    case False
    have c: "?c = [ie_tsch_timeslot_id ies] @ concat (map le16 (take 12 (drop 0 (ie_tsch_timeslot ies)))) @ []"
      using False l by (simp add: timeslot_content_def)
    have "read_timeslots (pre @ ?c @ post) p 0 12 (ie_tsch_timeslot i0) = Some (ie_tsch_timeslot ies)"
      using read_timeslots_from [OF _ assms(1) _ c, of "ie_tsch_timeslot i0" post] l by simp
    with False r show ?thesis
      by (simp add: parse_timeslot_def length_timeslot_content [OF assms(2)] got_timeslot_def tsch_ts_elements_count_def Let_def)
  qed (use r in \<open>simp add: parse_timeslot_def length_timeslot_content [OF assms(2)] got_timeslot_def Let_def\<close>)
  then show ?thesis
    by (simp add: frame802154e_parse_mlme_short_ie_def ie_constants)
qed

lemma parse_slotframe_content:
  assumes p: "length pre = p" and ok: "ies_valid ies" "ies_ok i0" and post: "4 \<le> length post"
  shows "frame802154e_parse_mlme_short_ie (pre @ slotframe_content (ie_tsch_slotframe_and_link ies) @ post) p
      (int (length (slotframe_content (ie_tsch_slotframe_and_link ies)))) MLME_SHORT_IE_TSCH_SLOFTRAME_AND_LINK i0
    = Some (int (length (slotframe_content (ie_tsch_slotframe_and_link ies))), got_slotframe ies i0)"
proof -
  let ?s = "ie_tsch_slotframe_and_link ies"
  let ?c = "slotframe_content ?s" and ?n = "unat (num_links ?s)"
  note len = length_slotframe_content(1) [OF ok(1)]
  have v: "unat (num_slotframes ?s) \<le> 1" "?n \<le> 4" "length (ie_links ?s) = 4" "length (ie_links (ie_tsch_slotframe_and_link i0)) = 4"
    using ok by (simp_all add: ies_valid_def ies_ok_def)
  have "parse_slotframe_and_link (pre @ ?c @ post) p (int (length ?c)) i0 = Some (int (length ?c), got_slotframe ies i0)"
  proof (cases "num_slotframes ?s = 1")
    case False
    then have z: "num_slotframes ?s = 0"
      using v(1) by (metis le_antisym less_one linorder_not_less unat_1 word_unat_eq_iff unat_0)
    then have c: "?c = [0]"
      by (simp add: slotframe_content_def)
    have "rd (pre @ [0] @ post) p = Some 0" "rd (pre @ ([0] @ post) @ []) (p + 4) = Some (([0] @ post) ! 4)"
      using rd_mid [OF p, of 0 "[0]" post] rd_mid [OF p, of 4 "[0] @ post" "[]"] post by simp_all
    then show ?thesis
      using z by (simp add: c parse_slotframe_and_link_def got_slotframe_def)
  next
    case True
    let ?ls = "concat (map link_bytes (take ?n (drop 0 (ie_links ?s))))"
    have c: "?c = ([1, ie_slotframe_handle ?s] @ le16 (slotframe_size ?s) @ [num_links ?s]) @ ?ls @ []"
      using True by (simp add: slotframe_content_def)
    have r: "rd (pre @ ?c @ post) p = Some 1" "rd (pre @ ?c @ post) (p + 4) = Some (num_links ?s)" "rd (pre @ ?c @ post) (p + 1) = Some (ie_slotframe_handle ?s)"
      using rd_mid [OF p, of 0 ?c post] rd_mid [OF p, of 4 ?c post] rd_mid [OF p, of 1 ?c post] by (simp_all add: c le16_def)
    have z: "READ16 (pre @ ?c @ post) (p + 2) = Some (slotframe_size ?s)"
      by (rule READ16_mid [OF p, of "[1, ie_slotframe_handle ?s]" 2 _ _ "[num_links ?s] @ ?ls"]) (simp_all add: c)
    have l: "read_links (pre @ ?c @ post) p 0 ?n (ie_links (ie_tsch_slotframe_and_link i0))
        = Some (take ?n (ie_links ?s) @ drop ?n (ie_links (ie_tsch_slotframe_and_link i0)))"
      using read_links_from [OF _ p _ c, of "ie_links (ie_tsch_slotframe_and_link i0)" post] v by simp
    have "int ?n \<le> 4"
      using v(2) by linarith
    then have le: "uint (num_links ?s) \<le> FRAME802154E_IE_MAX_LINKS"
      by (simp add: FRAME802154E_IE_MAX_LINKS_def)
    have i: "int (length ?c) = 5 + 5 * uint (num_links ?s)"
      using len True by simp
    show ?thesis
      unfolding parse_slotframe_and_link_def r z l bind.bind_lunit i using True le by (simp add: got_slotframe_def Let_def)
  qed
  then show ?thesis
    by (simp add: frame802154e_parse_mlme_short_ie_def)
qed

lemma parse_hopping_content:
  assumes p: "length pre = p" and ok: "ies_valid ies" "ies_ok i0"
  shows "frame802154e_parse_mlme_long_ie (pre @ hopping_content ies @ post) p (int (length (hopping_content ies)))
      MLME_LONG_IE_TSCH_CHANNEL_HOPPING_SEQUENCE i0 = Some (int (length (hopping_content ies)), got_hopping ies i0)"
proof -
  let ?c = "hopping_content ies" and ?n = "unat (ie_hopping_sequence_len ies)" and ?id = "ie_channel_hopping_sequence_id ies"
  have v: "?n \<le> 16" "length (ie_hopping_sequence_list ies) = 16" "length (ie_hopping_sequence_list i0) = 16"
    using ok by (simp_all add: ies_valid_def ies_ok_def)
  have r: "rd (pre @ ?c @ post) p = Some ?id"
    using rd_mid [OF p, of 0 ?c post] by (simp add: hopping_content_def)
  show ?thesis
  proof (cases "?id = 0")
    case True
    then show ?thesis
      using r by (simp add: frame802154e_parse_mlme_long_ie_def hopping_content_def got_hopping_def Let_def)
  next
    case False
    let ?h = "[?id, 0] @ le16 0 @ le16 0 @ le16 0" and ?l = "take ?n (ie_hopping_sequence_list ies)"
    have c: "?c = ?h @ le16 (ie_hopping_sequence_len ies) @ ?l @ le16 0"
      using False by (simp add: hopping_content_def)
    have z: "READ16 (pre @ ?c @ post) (p + 8) = Some (ie_hopping_sequence_len ies)"
      by (rule READ16_mid [OF p, of ?h 8 _ _ "?l @ le16 0"]) (simp_all add: c)
    have "rd_n ((pre @ ?h @ le16 (ie_hopping_sequence_len ies)) @ ?l @ le16 0 @ post) (length (pre @ ?h @ le16 (ie_hopping_sequence_len ies))) ?n = Some (take ?n (?l @ le16 0 @ post))"
      by (rule rd_n_append_more) (use v in simp)
    then have l: "rd_n (pre @ ?c @ post) (p + 10) ?n = Some ?l"
      using p v by (simp add: c)
    have w: "wr_n (ie_hopping_sequence_list i0) 0 ?l = Some (?l @ drop ?n (ie_hopping_sequence_list i0))"
      using v by (simp add: wr_n_def min_def)
    have len: "int (length ?c) = 12 + int ?n"
      using length_hopping_content [OF ok(1)] False by simp
    have n: "?n \<le> TSCH_HOPPING_SEQUENCE_MAX_LEN"
      using v(1) by (simp add: TSCH_HOPPING_SEQUENCE_MAX_LEN_def)
    show ?thesis
      unfolding frame802154e_parse_mlme_long_ie_def r z bind.bind_lunit Let_def len using False l w n v(1)
      by (simp add: got_hopping_def Let_def del: of_nat_unat)
  qed
qed

lemma parse_correction_content:
  assumes p: "length pre = p"
  shows "frame802154e_parse_header_ie (pre @ le16 (if ie_is_nack ies \<noteq> 0 then ie_time_correction ies AND 0xfff OR 0x8000 else ie_time_correction ies AND 0xfff) @ post) p 2
      HEADER_IE_ACK_NACK_TIME_CORRECTION i0 = Some (2, got_correction ies i0)"
proof -
  let ?d = "ie_time_correction ies"
  let ?v = "if ie_is_nack ies \<noteq> 0 then ?d AND 0xfff OR 0x8000 else ?d AND 0xfff"
  have c: "(0xf000 :: u16) = push_bit 12 (mask 4)" "(0x8000 :: u16) = 2 ^ 15"
    by (simp_all add: mask_eq_exp_minus_1 push_bit_eq_mult)
  have b: "bit (0xf000 :: u16) m \<longleftrightarrow> 12 \<le> m" "bit (0x8000 :: u16) m \<longrightarrow> 12 \<le> m" if "m < 16" for m
    unfolding c bit_exp_iff using that by (auto simp: bit_simps)
  have n: "?v AND 0x8000 \<noteq> 0 \<longleftrightarrow> ie_is_nack ies \<noteq> 0" "?v AND 0x800 \<noteq> 0 \<longleftrightarrow> bit ?d 11"
    unfolding masks by (auto simp: bit_simps)
  have t: "?v AND 0xfff = ?d AND 0xfff"
  proof (rule bit_word_eqI)
    fix m assume "m < LENGTH(16)"
    with b(2) [of m] show "bit (?v AND 0xfff) m \<longleftrightarrow> bit (?d AND 0xfff) m"
      unfolding masks by (auto simp: bit_simps)
  qed
  have s: "?v OR 0xf000 = ?d OR 0xf000" if "bit ?d 11"
  proof (rule bit_word_eqI)
    fix m assume m: "m < LENGTH(16)"
    have "bit (0xf000 :: u16) m \<longleftrightarrow> 12 \<le> m" "bit (0x8000 :: u16) m \<longrightarrow> 12 \<le> m"
      using b m by simp_all
    with m show "bit (?v OR 0xf000) m \<longleftrightarrow> bit (?d OR 0xf000) m"
      unfolding masks by (auto simp: bit_simps)
  qed
  show ?thesis
    using READ16_at [of pre ?v post] p n t s
    by (simp add: frame802154e_parse_header_ie_def got_correction_def del: if_split)
qed

section \<open>The walk over the elements\<close>

declare parse_ies.simps [simp del]

text \<open>\<open>m\<close> bytes are left, counted in eight bits.\<close>

lemma of_nat_less_2: "2 \<le> m \<Longrightarrow> m < 256 \<Longrightarrow> \<not> (of_nat m :: u8) < 2"
  by (simp add: word_less_nat_alt unsigned_of_nat take_bit_nat_eq_self)

lemma of_nat_step: "2 + k \<le> m \<Longrightarrow> m < 256 \<Longrightarrow> (of_nat m :: u8) - 2 - of_nat k = of_nat (m - 2 - k)"
  by (simp add: of_nat_diff)

lemma unat_step: "2 + k \<le> m \<Longrightarrow> m < 256 \<Longrightarrow> unat ((of_nat m :: u8) - 2) = m - 2"
proof -
  assume a: "2 + k \<le> m" "m < 256"
  then have e: "(of_nat m :: u8) - 2 = of_nat (m - 2)"
    by (simp add: of_nat_diff)
  have "m - 2 < 2 ^ 8"
    using a(2) by simp
  then show ?thesis
    unfolding e by (simp only: unsigned_of_nat take_bit_nat_eq_self) (simp add: take_bit_nat_eq_self)
qed

lemma ucast_take_of_nat: "k < 256 \<Longrightarrow> 8 \<le> n \<Longrightarrow> n \<le> 16 \<Longrightarrow> (ucast (take_bit n (of_nat k :: u16)) :: u8) = of_nat k"
proof -
  assume a: "k < 256" "8 \<le> n" "n \<le> 16"
  then have "k < 2 ^ n"
    using power_increasing [of 8 n "2 :: nat"] by simp
  then have "unat (take_bit n (of_nat k :: u16)) = k"
    using a unat_take_of_nat by blast
  with a(1) show ?thesis
    by (intro word_unat_eq_iff [THEN iffD2]) (simp add: unat_u16_u8 unsigned_of_nat take_bit_nat_eq_self)
qed

lemma parse_ies_element:
  assumes m: "2 + k \<le> m" "m < 256" and one: "parse_one_ie bs p (of_nat m) st nested i0 = Some (Skip st' len nested', i1)"
    and len: "unat len = k" "(ucast len :: u8) = of_nat k"
  shows "parse_ies bs p (of_nat m) st nested i0 = parse_ies bs (p + 2 + k) (of_nat (m - 2 - k)) st' nested' i1"
proof -
  have "unat (of_nat m :: u8) = m"
    using m by (simp add: unsigned_of_nat take_bit_nat_eq_self)
  then have "(of_nat m :: u8) \<noteq> 0"
    using m by auto
  then show ?thesis
    by (subst parse_ies.simps) (simp add: one len of_nat_step [OF m])
qed

lemma parse_one_ie_in:
  assumes "READ16 bs p = Some d" "2 \<le> m" "m < 256"
  shows "parse_one_ie bs p (of_nat m) PARSING_MLME_SUBIE nested i0 = parse_one_mlme bs (p + 2) (of_nat m - 2) d nested i0"
    "parse_one_ie bs p (of_nat m) PARSING_HEADER_IE nested i0 = parse_one_header bs (p + 2) (of_nat m - 2) d nested i0"
    "parse_one_ie bs p (of_nat m) PARSING_PAYLOAD_IE nested i0 = parse_one_payload (p + 2) d nested i0"
  using of_nat_less_2 [OF assms(2,3)] by (simp_all add: parse_one_ie_def assms(1))

lemma parse_ies_short:
  assumes bs: "length pre = p" "length c = k" "k < 256" and m: "2 + k \<le> m" "m < 256" and i: "i < 128"
    and content: "frame802154e_parse_mlme_short_ie (pre @ (le16 (short_desc k i) @ c) @ post) (p + 2) (int k) i i0 = Some (int k, i1)"
    and nested: "2 + int k \<le> nested"
  shows "parse_ies (pre @ (le16 (short_desc k i) @ c) @ post) p (of_nat m) PARSING_MLME_SUBIE nested i0
    = parse_ies (pre @ (le16 (short_desc k i) @ c) @ post) (p + 2 + k) (of_nat (m - 2 - k))
        (if nested = 2 + int k then PARSING_PAYLOAD_IE else PARSING_MLME_SUBIE) (nested - (2 + int k)) i1"
proof -
  let ?bs = "pre @ (le16 (short_desc k i) @ c) @ post" and ?len = "take_bit 8 (of_nat k) :: u16"
  have r: "READ16 ?bs p = Some (short_desc k i)"
    using READ16_at [of pre "short_desc k i" "c @ post"] bs(1) by simp
  have m2: "2 \<le> m"
    using m by simp
  have u: "unat ?len = k" "(ucast ?len :: u8) = of_nat k"
    using unat_take_of_nat [of k 8] ucast_take_of_nat [of k 8] bs(3) by simp_all
  have t: "take_bit 7 i = i"
    using i by (intro word_unat_eq_iff [THEN iffD2]) (simp add: unsigned_take_bit_eq take_bit_nat_eq_self word_less_nat_alt)
  have le: "\<not> k > unat ((of_nat m :: u8) - 2)"
    unfolding unat_step [OF m] using m by simp
  have "parse_one_mlme ?bs (p + 2) (of_nat m - 2) (short_desc k i) nested i0
      = Some (Skip (if nested = 2 + int k then PARSING_PAYLOAD_IE else PARSING_MLME_SUBIE) ?len (nested - (2 + int k)), i1)"
    unfolding parse_one_mlme_def desc_parts(9) if_P [OF refl] desc_parts(7,8) t if_not_P [OF le] u content bind.bind_lunit Let_def prod.case
    using nested by simp
  then have "parse_one_ie ?bs p (of_nat m) PARSING_MLME_SUBIE nested i0
      = Some (Skip (if nested = 2 + int k then PARSING_PAYLOAD_IE else PARSING_MLME_SUBIE) ?len (nested - (2 + int k)), i1)"
    by (simp only: parse_one_ie_in(1) [OF r m2 m(2)])
  from parse_ies_element [OF m this u] show ?thesis .
qed

lemma parse_ies_long:
  assumes bs: "length pre = p" "length c = k" "k < 256" and m: "2 + k \<le> m" "m < 256" and i: "i < 16"
    and content: "frame802154e_parse_mlme_long_ie (pre @ (le16 (payload_desc k i) @ c) @ post) (p + 2) (int k) i i0 = Some (int k, i1)"
    and nested: "2 + int k \<le> nested"
  shows "parse_ies (pre @ (le16 (payload_desc k i) @ c) @ post) p (of_nat m) PARSING_MLME_SUBIE nested i0
    = parse_ies (pre @ (le16 (payload_desc k i) @ c) @ post) (p + 2 + k) (of_nat (m - 2 - k))
        (if nested = 2 + int k then PARSING_PAYLOAD_IE else PARSING_MLME_SUBIE) (nested - (2 + int k)) i1"
proof -
  let ?bs = "pre @ (le16 (payload_desc k i) @ c) @ post" and ?len = "take_bit 11 (of_nat k) :: u16"
  have r: "READ16 ?bs p = Some (payload_desc k i)"
    using READ16_at [of pre "payload_desc k i" "c @ post"] bs(1) by simp
  have m2: "2 \<le> m"
    using m by simp
  have u: "unat ?len = k" "(ucast ?len :: u8) = of_nat k"
    using unat_take_of_nat [of k 11] ucast_take_of_nat [of k 11] bs(3) by simp_all
  have t: "take_bit 4 i = i"
    using i by (intro word_unat_eq_iff [THEN iffD2]) (simp add: unsigned_take_bit_eq take_bit_nat_eq_self word_less_nat_alt)
  have le: "\<not> k > unat ((of_nat m :: u8) - 2)"
    unfolding unat_step [OF m] using m by simp
  have "parse_one_mlme ?bs (p + 2) (of_nat m - 2) (payload_desc k i) nested i0
      = Some (Skip (if nested = 2 + int k then PARSING_PAYLOAD_IE else PARSING_MLME_SUBIE) ?len (nested - (2 + int k)), i1)"
    unfolding parse_one_mlme_def Let_def if_not_P [OF desc_parts(6)] desc_parts(4,5) t if_not_P [OF le] u content bind.bind_lunit prod.case
    using nested by simp
  then have "parse_one_ie ?bs p (of_nat m) PARSING_MLME_SUBIE nested i0
      = Some (Skip (if nested = 2 + int k then PARSING_PAYLOAD_IE else PARSING_MLME_SUBIE) ?len (nested - (2 + int k)), i1)"
    by (simp only: parse_one_ie_in(1) [OF r m2 m(2)])
  from parse_ies_element [OF m this u] show ?thesis .
qed

lemma parse_ies_terminated:
  assumes bs: "length pre = p" and m: "2 \<le> m" "m < 256"
  shows "parse_ies (pre @ le16 (header_desc 0 HEADER_IE_LIST_TERMINATION_1) @ post) p (of_nat m) PARSING_HEADER_IE nested i0
    = parse_ies (pre @ le16 (header_desc 0 HEADER_IE_LIST_TERMINATION_1) @ post) (p + 2) (of_nat (m - 2)) PARSING_PAYLOAD_IE nested
        (i0\<lparr>ie_payload_ie_offset := of_nat (p + 2)\<rparr>)"
proof -
  let ?bs = "pre @ le16 (header_desc 0 HEADER_IE_LIST_TERMINATION_1) @ post"
  have r: "READ16 ?bs p = Some (header_desc 0 HEADER_IE_LIST_TERMINATION_1)"
    using READ16_at bs by blast
  have "parse_one_header ?bs (p + 2) (of_nat m - 2) (header_desc 0 HEADER_IE_LIST_TERMINATION_1) nested i0
      = Some (Skip PARSING_PAYLOAD_IE 0 nested, i0\<lparr>ie_payload_ie_offset := of_nat (p + 2)\<rparr>)"
    unfolding parse_one_header_def Let_def desc_parts(1-3) by simp
  then have "parse_one_ie ?bs p (of_nat m) PARSING_HEADER_IE nested i0 = Some (Skip PARSING_PAYLOAD_IE 0 nested, i0\<lparr>ie_payload_ie_offset := of_nat (p + 2)\<rparr>)"
    by (simp only: parse_one_ie_in(2) [OF r m])
  from parse_ies_element [of 0, OF _ m(2) this] m(1) show ?thesis
    by simp
qed

lemma parse_ies_correction:
  assumes bs: "length pre = p" and m: "4 \<le> m" "m < 256"
  shows "parse_ies (pre @ correction_bytes ies @ post) p (of_nat m) PARSING_HEADER_IE nested i0
    = parse_ies (pre @ correction_bytes ies @ post) (p + 4) (of_nat (m - 4)) PARSING_HEADER_IE nested (got_correction ies i0)"
proof -
  let ?v = "le16 (if ie_is_nack ies \<noteq> 0 then ie_time_correction ies AND 0xfff OR 0x8000 else ie_time_correction ies AND 0xfff)"
  let ?d = "header_desc 2 HEADER_IE_ACK_NACK_TIME_CORRECTION" and ?len = "take_bit 7 (of_nat 2) :: u16"
  let ?bs = "pre @ correction_bytes ies @ post"
  have b: "?bs = pre @ le16 ?d @ ?v @ post" "?bs = (pre @ le16 ?d) @ ?v @ post"
    by (simp_all add: correction_bytes_def)
  have r: "READ16 ?bs p = Some ?d"
    unfolding b(1) using READ16_at [of pre ?d] bs by blast
  have m2: "2 + 2 \<le> m"
    using m by simp
  have u: "unat ?len = 2" "(ucast ?len :: u8) = of_nat 2"
    by code_simp+
  have le: "\<not> 2 > unat ((of_nat m :: u8) - 2)"
    unfolding unat_step [OF m2 m(2)] using m by simp
  have c: "frame802154e_parse_header_ie ?bs (p + 2) 2 HEADER_IE_ACK_NACK_TIME_CORRECTION i0 = Some (2, got_correction ies i0)"
    unfolding b(2) by (rule parse_correction_content) (simp add: bs)
  have i: "HEADER_IE_ACK_NACK_TIME_CORRECTION \<noteq> HEADER_IE_LIST_TERMINATION_1" "HEADER_IE_ACK_NACK_TIME_CORRECTION \<noteq> HEADER_IE_LIST_TERMINATION_2"
    by (simp_all add: ie_constants)
  have "parse_one_header ?bs (p + 2) (of_nat m - 2) ?d nested i0 = Some (Skip PARSING_HEADER_IE ?len nested, got_correction ies i0)"
    unfolding parse_one_header_def Let_def desc_parts(1-3) u if_not_P [OF le] using i c by simp
  then have "parse_one_ie ?bs p (of_nat m) PARSING_HEADER_IE nested i0 = Some (Skip PARSING_HEADER_IE ?len nested, got_correction ies i0)"
    using parse_one_ie_in(2) [OF r _ m(2)] m(1) by simp
  then have "parse_ies ?bs p (of_nat m) PARSING_HEADER_IE nested i0 = parse_ies ?bs (p + 2 + 2) (of_nat (m - 2 - 2)) PARSING_HEADER_IE nested (got_correction ies i0)"
    by (rule parse_ies_element [OF m2 m(2) _ u])
  moreover have "p + 2 + 2 = p + 4" "m - 2 - 2 = m - 4"
    by simp_all
  ultimately show ?thesis
    by (simp only:)
qed

lemma parse_ies_mlme:
  assumes bs: "length pre = p" and m: "2 \<le> m" "m < 256" and k: "k < 2048"
  shows "parse_ies (pre @ le16 (payload_desc k PAYLOAD_IE_MLME) @ post) p (of_nat m) PARSING_PAYLOAD_IE nested i0
    = parse_ies (pre @ le16 (payload_desc k PAYLOAD_IE_MLME) @ post) (p + 2) (of_nat (m - 2)) PARSING_MLME_SUBIE (int k) i0"
proof -
  let ?bs = "pre @ le16 (payload_desc k PAYLOAD_IE_MLME) @ post"
  have r: "READ16 ?bs p = Some (payload_desc k PAYLOAD_IE_MLME)"
    using READ16_at bs by blast
  have u: "unat (take_bit 11 (of_nat k) :: u16) = k" and t: "take_bit 4 PAYLOAD_IE_MLME = PAYLOAD_IE_MLME"
    using unat_take_of_nat [of k 11] k by (simp_all add: PAYLOAD_IE_MLME_def)
  have "parse_one_payload (p + 2) (payload_desc k PAYLOAD_IE_MLME) nested i0 = Some (Skip PARSING_MLME_SUBIE 0 (int k), i0)"
    unfolding parse_one_payload_def Let_def if_not_P [OF desc_parts(6)] desc_parts(4,5) t u by simp
  then have "parse_one_ie ?bs p (of_nat m) PARSING_PAYLOAD_IE nested i0 = Some (Skip PARSING_MLME_SUBIE 0 (int k), i0)"
    by (simp only: parse_one_ie_in(3) [OF r m])
  from parse_ies_element [of 0, OF _ m(2) this] m(1) show ?thesis
    by simp
qed

lemma parse_ies_end: "parse_ies bs p 0 PARSING_PAYLOAD_IE nested i0 = Some (int p, i0)" "parse_ies bs p 0 PARSING_HEADER_IE nested i0 = Some (int p, i0\<lparr>ie_payload_ie_offset := of_nat p\<rparr>)"
  by (subst parse_ies.simps, simp)+

text \<open>
  The elements \<open>e\<close> are read, and \<open>i0\<close> becomes \<open>i1\<close>, wherever they lie in the memory; it is enough that \<open>s\<close> bytes of memory follow them.
\<close>

definition reads :: "nat \<Rightarrow> u8 list \<Rightarrow> ieee802154_ies \<Rightarrow> ieee802154_ies \<Rightarrow> bool" where
  "reads s e i0 i1 \<longleftrightarrow> (\<forall>pre post m nested. s \<le> length post \<and> length e \<le> m \<and> m < 256 \<and> int (length e) \<le> nested \<longrightarrow>
     parse_ies (pre @ e @ post) (length pre) (of_nat m) PARSING_MLME_SUBIE nested i0
     = parse_ies (pre @ e @ post) (length pre + length e) (of_nat (m - length e))
         (if nested = int (length e) then PARSING_PAYLOAD_IE else PARSING_MLME_SUBIE) (nested - int (length e)) i1)"

lemma reads_append:
  assumes "reads s1 e1 i0 i1" "reads s2 e2 i1 i2" "s1 \<le> length e2 + s2" "e2 \<noteq> []"
  shows "reads s2 (e1 @ e2) i0 i2"
  unfolding reads_def
proof (intro allI impI)
  fix pre post :: "u8 list" and m :: nat and nested :: int
  assume a: "s2 \<le> length post \<and> length (e1 @ e2) \<le> m \<and> m < 256 \<and> int (length (e1 @ e2)) \<le> nested"
  let ?bs = "pre @ (e1 @ e2) @ post"
  have ne: "nested \<noteq> int (length e1)"
    using a assms(4) by (cases e2) auto
  have b: "?bs = pre @ e1 @ e2 @ post" "?bs = (pre @ e1) @ e2 @ post" "length (pre @ e1) = length pre + length e1"
    by simp_all
  have "parse_ies ?bs (length pre) (of_nat m) PARSING_MLME_SUBIE nested i0
      = parse_ies ?bs (length pre + length e1) (of_nat (m - length e1)) PARSING_MLME_SUBIE (nested - int (length e1)) i1"
    unfolding b(1) using assms(1,3) a ne by (simp add: reads_def)
  also have "\<dots> = parse_ies ?bs (length pre + length e1 + length e2) (of_nat (m - length e1 - length e2))
      (if nested - int (length e1) = int (length e2) then PARSING_PAYLOAD_IE else PARSING_MLME_SUBIE) (nested - int (length e1) - int (length e2)) i2"
    unfolding b(2) b(3) [symmetric] using assms(2) a by (intro assms(2) [unfolded reads_def, rule_format]) auto
  finally show "parse_ies ?bs (length pre) (of_nat m) PARSING_MLME_SUBIE nested i0 = parse_ies ?bs (length pre + length (e1 @ e2)) (of_nat (m - length (e1 @ e2)))
      (if nested = int (length (e1 @ e2)) then PARSING_PAYLOAD_IE else PARSING_MLME_SUBIE) (nested - int (length (e1 @ e2))) i2"
    by (simp add: algebra_simps)
qed

lemma reads_short:
  assumes "length c = k" "k < 256" "i < 128"
    and content: "\<And>pre post. s \<le> length post \<Longrightarrow>
      frame802154e_parse_mlme_short_ie (pre @ c @ post) (length pre) (int k) i i0 = Some (int k, i1)"
  shows "reads s (le16 (short_desc k i) @ c) i0 i1"
  unfolding reads_def
proof (intro allI impI)
  fix pre post :: "u8 list" and m :: nat and nested :: int
  let ?e = "le16 (short_desc k i) @ c"
  assume a: "s \<le> length post \<and> length ?e \<le> m \<and> m < 256 \<and> int (length ?e) \<le> nested"
  have l: "int (length ?e) = 2 + int k" "length pre + length ?e = length pre + 2 + k" "m - length ?e = m - 2 - k"
    using assms(1) by simp_all
  have "frame802154e_parse_mlme_short_ie (pre @ ?e @ post) (length pre + 2) (int k) i i0 = Some (int k, i1)"
    using content [of post "pre @ le16 (short_desc k i)"] a by simp
  then show "parse_ies (pre @ ?e @ post) (length pre) (of_nat m) PARSING_MLME_SUBIE nested i0 = parse_ies (pre @ ?e @ post) (length pre + length ?e) (of_nat (m - length ?e))
      (if nested = int (length ?e) then PARSING_PAYLOAD_IE else PARSING_MLME_SUBIE) (nested - int (length ?e)) i1"
    unfolding l by (intro parse_ies_short) (use assms a l in auto)
qed

lemma reads_long:
  assumes "length c = k" "k < 256" "i < 16"
    and content: "\<And>pre post. s \<le> length post \<Longrightarrow>
      frame802154e_parse_mlme_long_ie (pre @ c @ post) (length pre) (int k) i i0 = Some (int k, i1)"
  shows "reads s (le16 (payload_desc k i) @ c) i0 i1"
  unfolding reads_def
proof (intro allI impI)
  fix pre post :: "u8 list" and m :: nat and nested :: int
  let ?e = "le16 (payload_desc k i) @ c"
  assume a: "s \<le> length post \<and> length ?e \<le> m \<and> m < 256 \<and> int (length ?e) \<le> nested"
  have l: "int (length ?e) = 2 + int k" "length pre + length ?e = length pre + 2 + k" "m - length ?e = m - 2 - k"
    using assms(1) by simp_all
  have "frame802154e_parse_mlme_long_ie (pre @ ?e @ post) (length pre + 2) (int k) i i0 = Some (int k, i1)"
    using content [of post "pre @ le16 (payload_desc k i)"] a by simp
  then show "parse_ies (pre @ ?e @ post) (length pre) (of_nat m) PARSING_MLME_SUBIE nested i0 = parse_ies (pre @ ?e @ post) (length pre + length ?e) (of_nat (m - length ?e))
      (if nested = int (length ?e) then PARSING_PAYLOAD_IE else PARSING_MLME_SUBIE) (nested - int (length ?e)) i1"
    unfolding l by (intro parse_ies_long) (use assms a l in auto)
qed

lemma reads_sync: "reads 0 (sync_bytes ies) i0 (got_sync ies i0)"
  unfolding sync_bytes_def by (rule reads_short [where k = 6]) (use parse_sync_content in \<open>simp_all add: ie_constants\<close>)

lemma reads_discovery: "reads 0 (discovery_bytes ies) i0 (got_discovery ies i0)"
  unfolding discovery_bytes_def by (rule reads_short [where k = 2]) (use parse_discovery_content in \<open>simp_all add: ie_constants\<close>)

lemma reads_timeslot: "ies_ok ies \<Longrightarrow> ies_ok i0 \<Longrightarrow> reads 0 (timeslot_bytes ies) i0 (got_timeslot ies i0)"
  unfolding timeslot_bytes_def
  by (rule reads_short [OF refl]) (use parse_timeslot_content length_timeslot_content in \<open>simp_all add: ie_constants\<close>)

lemma reads_slotframe: "ies_valid ies \<Longrightarrow> ies_ok i0 \<Longrightarrow> reads 4 (slotframe_bytes ies) i0 (got_slotframe ies i0)"
  unfolding slotframe_bytes_def Let_def
  by (rule reads_short [OF refl]) (use parse_slotframe_content length_slotframe_content(2) [of ies] in \<open>simp_all add: ie_constants\<close>)

lemma reads_hopping: "ies_valid ies \<Longrightarrow> ies_ok i0 \<Longrightarrow> reads 0 (hopping_bytes ies) i0 (got_hopping ies i0)"
  unfolding hopping_bytes_def
proof (rule reads_long [OF refl])
  assume "ies_valid ies" "ies_ok i0"
  then show "length (hopping_content ies) < 256"
    using length_hopping_content [of ies] by (simp add: ies_valid_def)
  show "MLME_LONG_IE_TSCH_CHANNEL_HOPPING_SEQUENCE < 16"
    by (simp add: ie_constants)
qed (rule parse_hopping_content [OF refl])

text \<open>The elements of an enhanced beacon, and what is read from them.\<close>

definition mlme_bytes :: "ieee802154_ies \<Rightarrow> u8 list" where
  "mlme_bytes ies = sync_bytes ies @ timeslot_bytes ies @ hopping_bytes ies @ slotframe_bytes ies @ discovery_bytes ies"

definition beacon_ies :: "ieee802154_ies \<Rightarrow> u8 list" where
  "beacon_ies ies = le16 (header_desc 0 HEADER_IE_LIST_TERMINATION_1) @ le16 (payload_desc (length (mlme_bytes ies)) PAYLOAD_IE_MLME) @ mlme_bytes ies"

definition got_beacon :: "ieee802154_ies \<Rightarrow> ieee802154_ies \<Rightarrow> ieee802154_ies" where
  "got_beacon ies i0 = got_discovery ies (got_slotframe ies (got_hopping ies (got_timeslot ies (got_sync ies (i0\<lparr>ie_payload_ie_offset := 2\<rparr>)))))"

lemma got_ok:
  "ies_ok i0 \<Longrightarrow> ies_ok (got_sync ies i0)" "ies_ok ies \<Longrightarrow> ies_ok i0 \<Longrightarrow> ies_ok (got_timeslot ies i0)"
  "ies_valid ies \<Longrightarrow> ies_ok i0 \<Longrightarrow> ies_ok (got_hopping ies i0)" "ies_valid ies \<Longrightarrow> ies_ok i0 \<Longrightarrow> ies_ok (got_slotframe ies i0)"
  "ies_ok i0 \<Longrightarrow> ies_ok (got_discovery ies i0)"
  by (auto simp: ies_ok_def ies_valid_def got_sync_def got_timeslot_def got_hopping_def got_slotframe_def got_discovery_def Let_def)

lemma length_mlme_bytes:
  assumes "ies_valid ies"
  shows "length (mlme_bytes ies) = 18 + length (timeslot_content ies) + length (hopping_content ies) + length (slotframe_content (ie_tsch_slotframe_and_link ies))"
    "length (mlme_bytes ies) \<le> 96"
proof -
  show e: "length (mlme_bytes ies) = 18 + length (timeslot_content ies) + length (hopping_content ies) + length (slotframe_content (ie_tsch_slotframe_and_link ies))"
    by (simp add: mlme_bytes_def sync_bytes_def timeslot_bytes_def hopping_bytes_def slotframe_bytes_def discovery_bytes_def Let_def)
  have "ies_ok ies" "unat (ie_hopping_sequence_len ies) \<le> 16"
    using assms by (simp_all add: ies_valid_def)
  then show "length (mlme_bytes ies) \<le> 96"
    unfolding e using length_timeslot_content [of ies] length_hopping_content [OF assms] length_slotframe_content(2) [OF assms] by (simp split: if_splits)
qed

lemma parse_beacon_ies:
  assumes ok: "ies_valid ies" "ies_ok i0" and m: "m = length (beacon_ies ies)"
  shows "frame802154e_parse_information_elements (beacon_ies ies @ post) (of_nat m) i0 = Some (int m, got_beacon ies i0)"
proof -
  let ?t = "le16 (header_desc 0 HEADER_IE_LIST_TERMINATION_1)" and ?k = "length (mlme_bytes ies)"
  let ?d = "le16 (payload_desc ?k PAYLOAD_IE_MLME)" and ?sc = "slotframe_content (ie_tsch_slotframe_and_link ies)"
  have ok': "ies_ok ies"
    using ok(1) by (simp add: ies_valid_def)
  note k = length_mlme_bytes [OF ok(1)]
  have lens: "length (timeslot_content ies) \<le> 25" "length (hopping_content ies) \<le> 28" "length ?sc \<le> 25"
    using length_timeslot_content [OF ok'] length_hopping_content [OF ok(1)] length_slotframe_content(2) [OF ok(1)] ok(1) by (simp_all add: ies_valid_def)
  have m4: "m = 4 + ?k" "m < 256"
    using m k(2) by (simp_all add: beacon_ies_def)
  define i1 where "i1 = i0\<lparr>ie_payload_ie_offset := 2\<rparr>"
  define i2 where "i2 = got_sync ies i1"
  define i3 where "i3 = got_timeslot ies i2"
  define i4 where "i4 = got_hopping ies i3"
  define i5 where "i5 = got_slotframe ies i4"
  define i6 where "i6 = got_discovery ies i5"
  have i: "ies_ok i1" "ies_ok i2" "ies_ok i3" "ies_ok i4" "ies_ok i5"
    using ok ok' got_ok unfolding i5_def i4_def i3_def i2_def i1_def by (auto simp: ies_ok_def)
  have r4: "reads 0 (slotframe_bytes ies @ discovery_bytes ies) i4 i6"
    unfolding i6_def i5_def by (rule reads_append [OF reads_slotframe [OF ok(1) i(4)] reads_discovery]) (simp_all add: discovery_bytes_def le16_def)
  have r3: "reads 0 (hopping_bytes ies @ slotframe_bytes ies @ discovery_bytes ies) i3 i6"
    by (rule reads_append [OF reads_hopping [OF ok(1) i(3)] r4 [unfolded i4_def]]) (simp_all add: discovery_bytes_def le16_def)
  have r2: "reads 0 (timeslot_bytes ies @ hopping_bytes ies @ slotframe_bytes ies @ discovery_bytes ies) i2 i6"
    by (rule reads_append [OF reads_timeslot [OF ok' i(2)] r3 [unfolded i3_def]]) (simp_all add: discovery_bytes_def le16_def)
  have r1: "reads 0 (mlme_bytes ies) i1 i6"
    unfolding mlme_bytes_def by (rule reads_append [OF reads_sync r2 [unfolded i2_def]]) (simp_all add: discovery_bytes_def le16_def)
  let ?bs = "(?t @ ?d) @ mlme_bytes ies @ post"
  have bs: "beacon_ies ies @ post = ?bs" "?bs = [] @ ?t @ ?d @ mlme_bytes ies @ post" "?bs = ?t @ ?d @ mlme_bytes ies @ post"
    by (simp_all add: beacon_ies_def)
  have "parse_ies ?bs 0 (of_nat m) PARSING_HEADER_IE 0 (i0\<lparr>ie_payload_ie_offset := 0\<rparr>)
      = parse_ies ?bs (0 + 2) (of_nat (m - 2)) PARSING_PAYLOAD_IE 0 (i0\<lparr>ie_payload_ie_offset := 0, ie_payload_ie_offset := of_nat (0 + 2)\<rparr>)"
    unfolding bs(2) by (rule parse_ies_terminated) (use m4 in simp_all)
  also have "\<dots> = parse_ies ?bs (length ?t) (of_nat (m - 2)) PARSING_PAYLOAD_IE 0 i1"
    by (simp add: i1_def numeral_2_eq_2)
  also have "\<dots> = parse_ies ?bs (length ?t + 2) (of_nat (m - 2 - 2)) PARSING_MLME_SUBIE (int ?k) i1"
    unfolding bs(3) by (rule parse_ies_mlme) (use m4 k(2) in simp_all)
  also have "\<dots> = parse_ies ?bs (length (?t @ ?d)) (of_nat ?k) PARSING_MLME_SUBIE (int ?k) i1"
    by (simp add: m4(1))
  also have "\<dots> = parse_ies ?bs (length (?t @ ?d) + ?k) (of_nat (?k - ?k)) (if int ?k = int ?k then PARSING_PAYLOAD_IE else PARSING_MLME_SUBIE) (int ?k - int ?k) i6"
    by (rule r1 [unfolded reads_def, rule_format]) (use k(2) in simp)
  also have "\<dots> = Some (int (length (?t @ ?d) + ?k), i6)"
    using parse_ies_end(1) by simp
  finally show ?thesis
    unfolding frame802154e_parse_information_elements_def bs(1) by (simp add: m4(1) i6_def i5_def i4_def i3_def i2_def i1_def got_beacon_def)
qed

section \<open>Any bytes\<close>

text \<open>
  The parser reads a few bytes ahead of the length that it was given: the number of links of an element without links, and the length
  field of a hopping sequence.  So eight bytes behind the elements must belong to the buffer.
\<close>

lemma read_links_total:
  "i + n \<le> length js \<Longrightarrow> p + 5 + 5 * (i + n) \<le> length bs \<Longrightarrow> \<exists>js'. read_links bs p i n js = Some js' \<and> length js' = length js"
proof (induction n arbitrary: i js)
  case (Suc n)
  obtain t c where t: "READ16 bs (p + 5 + i * 5) = Some t" "READ16 bs (p + 5 + i * 5 + 2) = Some c"
    using READ16_in [of "p + 5 + i * 5" bs] READ16_in [of "p + 5 + i * 5 + 2" bs] Suc.prems(2) by auto
  have o: "rd bs (p + 5 + i * 5 + 4) = Some (bs ! (p + 5 + i * 5 + 4))"
    by (rule rd_in) (use Suc.prems(2) in simp)
  have w: "wr js i v = Some (js[i := v])" for v
    by (rule wr_in) (use Suc.prems(1) in simp)
  show ?case
    unfolding read_links.simps t o w bind.bind_lunit using Suc.IH [of "i + 1" "js[i := v]" for v] Suc.prems by simp
qed simp

lemma read_timeslots_total:
  "i + n \<le> length js \<Longrightarrow> p + 1 + 2 * (i + n) \<le> length bs \<Longrightarrow> \<exists>js'. read_timeslots bs p i n js = Some js' \<and> length js' = length js"
proof (induction n arbitrary: i js)
  case (Suc n)
  obtain t where t: "READ16 bs (p + 1 + 2 * i) = Some t"
    using READ16_in [of "p + 1 + 2 * i" bs] Suc.prems(2) by auto
  have w: "wr js i v = Some (js[i := v])" for v
    by (rule wr_in) (use Suc.prems(1) in simp)
  show ?case
    unfolding read_timeslots.simps t w bind.bind_lunit using Suc.IH [of "i + 1" "js[i := v]" for v] Suc.prems by simp
qed simp

lemma slotframe_total:
  assumes "p + k + 8 \<le> length bs" "ies_ok i0"
  shows "\<exists>r i1. parse_slotframe_and_link bs p (int k) i0 = Some (r, i1) \<and> ies_ok i1"
proof -
  let ?l = "bs ! (p + 4)" and ?js = "ie_links (ie_tsch_slotframe_and_link i0)"
  have r: "rd bs p = Some (bs ! p)" "rd bs (p + 4) = Some ?l" "rd bs (p + 1) = Some (bs ! (p + 1))"
    using assms(1) by (simp_all add: rd_in)
  obtain s where s: "READ16 bs (p + 2) = Some s"
    using READ16_in [of "p + 2" bs] assms(1) by auto
  have "\<exists>js. read_links bs p 0 (unat ?l) ?js = Some js \<and> length js = 4"
    if "uint (bs ! p) \<le> 1" "bs ! p \<noteq> 0" "uint ?l \<le> FRAME802154E_IE_MAX_LINKS" "int k = 1 + uint (bs ! p) * (4 + 5 * uint ?l)"
  proof -
    have "uint (bs ! p) \<noteq> 0"
      using that(2) by (metis uint_0_iff)
    then have "uint (bs ! p) = 1"
      using that(1) uint_ge_0 [of "bs ! p"] by linarith
    then have "int k = 5 + 5 * int (unat ?l)" "int (unat ?l) \<le> 4"
      using that(3,4) by (simp_all add: FRAME802154E_IE_MAX_LINKS_def)
    then have "k = 5 + 5 * unat ?l" "unat ?l \<le> 4"
      by linarith+
    then show ?thesis
      using read_links_total [of 0 "unat ?l" ?js p bs] assms by (simp add: ies_ok_def)
  qed
  then show ?thesis
    using assms(2) unfolding parse_slotframe_and_link_def r s bind.bind_lunit by (auto simp: ies_ok_def)
qed

lemma timeslot_total:
  assumes "p + k + 8 \<le> length bs" "ies_ok i0"
  shows "\<exists>r i1. parse_timeslot bs p (int k) i0 = Some (r, i1) \<and> ies_ok i1"
proof -
  have r: "rd bs p = Some (bs ! p)"
    using assms(1) by (simp add: rd_in)
  have "\<exists>ts. read_timeslots bs p 0 tsch_ts_elements_count (ie_tsch_timeslot i0) = Some ts \<and> length ts = 12" if "int k = 25"
    using read_timeslots_total [of 0 12 "ie_tsch_timeslot i0" p bs] that assms by (simp add: ies_ok_def tsch_ts_elements_count_def)
  then show ?thesis
    using assms(2) unfolding parse_timeslot_def r bind.bind_lunit Let_def by (auto simp: ies_ok_def)
qed

lemma short_total:
  assumes "p + k + 8 \<le> length bs" "ies_ok i0"
  shows "\<exists>r i1. frame802154e_parse_mlme_short_ie bs p (int k) i i0 = Some (r, i1) \<and> ies_ok i1"
proof -
  have s: "\<exists>r i1. parse_synchronization bs p (int k) i0 = Some (r, i1) \<and> ies_ok i1"
    using assms by (auto simp: parse_synchronization_def rd_in ies_ok_def)
  obtain v where v: "READ16 bs p = Some v"
    using READ16_in [of p bs] assms(1) by auto
  show ?thesis
    unfolding frame802154e_parse_mlme_short_ie_def v using s slotframe_total [OF assms] timeslot_total [OF assms] assms(2)
    by (auto simp: ies_ok_def)
qed

lemma long_total:
  assumes "p + k + 8 \<le> length bs" "ies_ok i0"
  shows "\<exists>r i1. frame802154e_parse_mlme_long_ie bs p (int k) i i0 = Some (r, i1) \<and> ies_ok i1"
proof -
  have r: "rd bs p = Some (bs ! p)"
    using assms(1) by (simp add: rd_in)
  have v: "\<exists>v. READ16 bs (p + 8) = Some v" if "1 < k"
    by (rule READ16_in) (use that assms(1) in simp)
  have c: "\<exists>l. rd_n bs (p + 10) n = Some (take n (drop (p + 10) bs)) \<and> wr_n (ie_hopping_sequence_list i0) 0 (take n (drop (p + 10) bs)) = Some l \<and> length l = 16"
    if "n \<le> TSCH_HOPPING_SEQUENCE_MAX_LEN" "int k = 12 + int n" for n
  proof -
    have "k = 12 + n"
      using that(2) by linarith
    then show ?thesis
      using that(1) assms by (simp add: rd_n_def wr_n_def ies_ok_def TSCH_HOPPING_SEQUENCE_MAX_LEN_def min_def)
  qed
  show ?thesis
  proof (cases "1 < k")
    case True
    then obtain v where v: "READ16 bs (p + 8) = Some v"
      using v by blast
    show ?thesis
      unfolding frame802154e_parse_mlme_long_ie_def r v bind.bind_lunit Let_def using assms(2) c [of "unat v"]
      by (auto simp: ies_ok_def simp del: of_nat_unat)
  qed (use assms(2) r in \<open>auto simp: frame802154e_parse_mlme_long_ie_def ies_ok_def Let_def\<close>)
qed

lemma header_total:
  assumes "p + k + 8 \<le> length bs" "ies_ok i0"
  shows "\<exists>r i1. frame802154e_parse_header_ie bs p (int k) i i0 = Some (r, i1) \<and> ies_ok i1"
proof -
  obtain v where v: "READ16 bs p = Some v"
    using READ16_in [of p bs] assms(1) by auto
  then show ?thesis
    using assms(2) by (simp add: frame802154e_parse_header_ie_def ies_ok_def)
qed

definition step_fits :: "nat \<Rightarrow> nat \<Rightarrow> ie_step \<Rightarrow> bool" where
  "step_fits p n s \<longleftrightarrow> (case s of Return r \<Rightarrow> r = -1 \<or> int p \<le> r \<and> r \<le> int (p + n) | Skip st len k \<Rightarrow> unat len + 2 \<le> n)"

lemma one_total:
  assumes n: "n \<noteq> 0" and b: "p + unat n + 8 \<le> length bs" and i: "ies_ok i0"
  shows "\<exists>s i1. parse_one_ie bs p n st nested i0 = Some (s, i1) \<and> ies_ok i1 \<and> step_fits p (unat n) s"
proof (cases "n < 2")
  case True
  then show ?thesis
    using i by (simp add: parse_one_ie_def step_fits_def)
next
  case False
  then have 2: "2 \<le> unat n" "unat (n - 2) = unat n - 2"
    by (simp_all add: word_less_nat_alt unat_sub word_le_nat_alt)
  obtain d where d: "READ16 bs p = Some d"
    using READ16_in [of p bs] b 2(1) by auto
  have room: "p + 2 + k + 8 \<le> length bs" if "\<not> k > unat (n - 2)" for k
    using that b 2 by simp
  have "\<exists>s i1. (case st of PARSING_HEADER_IE \<Rightarrow> parse_one_header bs (p + 2) (n - 2) d nested i0
        | PARSING_PAYLOAD_IE \<Rightarrow> parse_one_payload (p + 2) d nested i0
        | PARSING_MLME_SUBIE \<Rightarrow> parse_one_mlme bs (p + 2) (n - 2) d nested i0) = Some (s, i1) \<and> ies_ok i1
      \<and> (case s of Return r \<Rightarrow> r = -1 \<or> r = int (p + 2) | _ \<Rightarrow> True)"
  proof (cases st)
    case PARSING_HEADER_IE
    let ?k = "unat (d AND 0x7f)" and ?i = "ucast (drop_bit 7 (d AND 0x7f80)) :: u8"
    show ?thesis
    proof (cases "?k > unat (n - 2)")
      case True
      then show ?thesis
        using PARSING_HEADER_IE i by (simp add: parse_one_header_def Let_def ies_ok_def)
    next
      case False
      obtain r i1 where h: "frame802154e_parse_header_ie bs (p + 2) (int ?k) ?i i0 = Some (r, i1)" "ies_ok i1"
        using header_total [OF room [OF False] i] by blast
      show ?thesis
        unfolding PARSING_HEADER_IE parsing_state.case parse_one_header_def Let_def h(1) bind.bind_lunit prod.case using i h(2)
        by (auto simp: ies_ok_def)
    qed
  next
    case PARSING_PAYLOAD_IE
    then show ?thesis
      using i by (auto simp: parse_one_payload_def Let_def)
  next
    case PARSING_MLME_SUBIE
    define len where "len = (if d AND 0x8000 = 0 then d AND 0xff else d AND 0x7ff)"
    define ident where "ident = (if d AND 0x8000 = 0 then ucast (drop_bit 8 (d AND 0x7f00)) else ucast (drop_bit 11 (d AND 0x7800)) :: u8)"
    have "\<exists>r i1. (if unat len > unat (n - 2) then Some (-1, i0)
        else if d AND 0x8000 = 0 then frame802154e_parse_mlme_short_ie bs (p + 2) (int (unat len)) ident i0
        else frame802154e_parse_mlme_long_ie bs (p + 2) (int (unat len)) ident i0) = Some (r, i1) \<and> ies_ok i1"
    proof (cases "unat len > unat (n - 2)")
      case False
      show ?thesis
        unfolding if_not_P [OF False] using short_total [OF room [OF False] i] long_total [OF room [OF False] i] by (cases "d AND 0x8000 = 0") (simp_all only: if_True if_False simp_thms)
    qed (use i in simp)
    then obtain r i1 where h: "(if unat len > unat (n - 2) then Some (-1, i0)
        else if d AND 0x8000 = 0 then frame802154e_parse_mlme_short_ie bs (p + 2) (int (unat len)) ident i0
        else frame802154e_parse_mlme_long_ie bs (p + 2) (int (unat len)) ident i0) = Some (r, i1)" "ies_ok i1"
      by blast
    have "parse_one_mlme bs (p + 2) (n - 2) d nested i0 = Some (if r = -1 \<or> nested - (2 + int (unat len)) < 0 then Return (-1)
        else Skip (if nested - (2 + int (unat len)) = 0 then PARSING_PAYLOAD_IE else PARSING_MLME_SUBIE) len (nested - (2 + int (unat len))), i1)"
      unfolding parse_one_mlme_def Let_def len_def [symmetric] ident_def [symmetric] h(1) bind.bind_lunit prod.case by (rule refl)
    with h(2) show ?thesis
      unfolding PARSING_MLME_SUBIE parsing_state.case by simp
  qed
  then obtain s i1 where "parse_one_ie bs p n st nested i0 = Some (s, i1)" "ies_ok i1" "case s of Return r \<Rightarrow> r = -1 \<or> r = int (p + 2) | _ \<Rightarrow> True"
    unfolding parse_one_ie_def if_not_P [OF False] d bind.bind_lunit by blast
  with 2(1) show ?thesis
    by (cases s) (auto simp: step_fits_def simp del: of_nat_unat dest: parse_one_ie_skip)
qed

lemma parse_ies_total:
  "p + unat n + 8 \<le> length bs \<Longrightarrow> ies_ok i0 \<Longrightarrow>
   \<exists>r i1. parse_ies bs p n st nested i0 = Some (r, i1) \<and> ies_ok i1 \<and> (r = -1 \<or> int p \<le> r \<and> r \<le> int (p + unat n))"
proof (induction bs p n st nested i0 rule: parse_ies.induct)
  case (1 bs p n st nested i0)
  show ?case
  proof (cases "n = 0")
    case True
    then show ?thesis
      using 1(3) by (subst parse_ies.simps) (simp add: ies_ok_def)
  next
    case False
    obtain s i1 where s: "parse_one_ie bs p n st nested i0 = Some (s, i1)" "ies_ok i1" "step_fits p (unat n) s"
      using one_total [OF False 1(2,3)] by blast
    show ?thesis
    proof (cases s)
      case (Return r)
      with s False show ?thesis
        by (subst parse_ies.simps) (simp add: step_fits_def)
    next
      case (Skip st' len nested')
      have le: "unat len + 2 \<le> unat n"
        using s(3) Skip by (simp add: step_fits_def)
      then have "unat len < 256"
        using unat_u8_less [of n] by linarith
      then have u: "unat (ucast len :: u8) = unat len"
        by (rule unat_u16_u8)
      have "unat (n - 2) = unat n - 2"
        using le by (simp add: unat_sub word_le_nat_alt)
      then have m: "unat (n - 2 - ucast len) = unat n - 2 - unat len"
        using le u by (simp add: unat_sub word_le_nat_alt)
      have "\<exists>r i2. parse_ies bs (p + 2 + unat len) (n - 2 - ucast len) st' nested' i1 = Some (r, i2) \<and> ies_ok i2
          \<and> (r = -1 \<or> int (p + 2 + unat len) \<le> r \<and> r \<le> int (p + 2 + unat len + unat (n - 2 - ucast len)))"
        by (rule 1(1) [OF False s(1) refl]) (use Skip le m 1(2) s(2) in auto)
      then show ?thesis
        using False s(1) Skip le m by (subst parse_ies.simps) (auto simp del: of_nat_unat)
    qed
  qed
qed

text \<open>Without the eight bytes, the parser reads behind a frame that fills its buffer.\<close>

lemma parser_reads_ahead:
  "frame802154e_parse_information_elements [0x00, 0x3f, 0x03, 0x88, 0x01, 0x1b, 0x00] 7
     \<lparr>ie_time_correction = 0, ie_is_nack = 0, ie_payload_ie_offset = 0, ie_mlme_len = 0, ie_asn = Asn 0 0, ie_join_priority = 0xff,
      ie_tsch_timeslot_id = 0, ie_tsch_timeslot = replicate 12 0,
      ie_tsch_slotframe_and_link = \<lparr>num_slotframes = 0, ie_slotframe_handle = 0, slotframe_size = 0, num_links = 0, ie_links = replicate 4 \<lparr>ie_timeslot = 0, ie_channel_offset = 0, ie_link_options = 0\<rparr>\<rparr>,
      ie_sequence_number = 0, ie_channel_hopping_sequence_id = 0, ie_hopping_sequence_len = 0, ie_hopping_sequence_list = replicate 16 0\<rparr> = None"
  by code_simp

end
