(* ===== verification/Tsch_Packet.thy ===== *)
theory Tsch_Packet
  imports Tsch_Mac Info_Elements_Spec
begin

text \<open>
  \<^verbatim>\<open>os/net/mac/tsch/tsch-packet.c\<close>: enhanced acknowledgments (EACKs) and enhanced beacons (EBs).  A beacon is a frame whose payload
  are the information elements of theory \<open>Info_Elements\<close>; which of them have content is the configuration \<open>eb_config\<close>.
  The application's is \<open>plain_eb\<close>: besides the time only the sequence number of the neighbor discovery.  There is no link-layer security,
  and a 2015 frame.  What an uninitialised local variable holds is an argument \<open>g\<close>.
\<close>

section \<open>Data\<close>

text \<open>\<^verbatim>\<open>memset(&ies, 0, sizeof(ies))\<close>\<close>

definition zero_ies :: ieee802154_ies where
  "zero_ies = \<lparr>ie_time_correction = 0, ie_is_nack = 0, ie_payload_ie_offset = 0, ie_mlme_len = 0, ie_asn = Asn 0 0, ie_join_priority = 0,
     ie_tsch_timeslot_id = 0, ie_tsch_timeslot = replicate tsch_ts_elements_count 0,
     ie_tsch_slotframe_and_link = \<lparr>num_slotframes = 0, ie_slotframe_handle = 0, slotframe_size = 0, num_links = 0,
       ie_links = replicate 4 \<lparr>ie_timeslot = 0, ie_channel_offset = 0, ie_link_options = 0\<rparr>\<rparr>,
     ie_sequence_number = 0, ie_channel_hopping_sequence_id = 0, ie_hopping_sequence_len = 0,
     ie_hopping_sequence_list = replicate TSCH_HOPPING_SEQUENCE_MAX_LEN 0\<rparr>"

text \<open>
  The switches \<^verbatim>\<open>TSCH_PACKET_EB_WITH_*\<close>, and the timing \<^verbatim>\<open>tsch_timing\<close> after its conversion to microseconds, which depends on
  the platform.
\<close>

record eb_config =
  eb_with_timeslot_timing :: bool
  eb_with_hopping_sequence :: bool
  eb_with_slotframe_and_link :: bool
  timing_us :: "u16 list"

definition plain_eb :: eb_config where
  "plain_eb = \<lparr>eb_with_timeslot_timing = False, eb_with_hopping_sequence = False, eb_with_slotframe_and_link = False, timing_us = replicate 12 0\<rparr>"

section \<open>Enhanced acknowledgments\<close>

type_synonym eackbuf = "pb_attr \<Rightarrow> u16"

definition tsch_packet_eackbuf_set_attr :: "eackbuf \<Rightarrow> pb_attr \<Rightarrow> u16 \<Rightarrow> eackbuf" where
  "tsch_packet_eackbuf_set_attr attrs ty v = attrs(ty := v)"

definition tsch_packet_eackbuf_attr :: "eackbuf \<Rightarrow> pb_attr \<Rightarrow> u16" where
  "tsch_packet_eackbuf_attr attrs ty = attrs ty"

text \<open>
  \<open>m\<close> is the memory at the target; \<open>dest_addr\<close> is \<open>None\<close> for \<^verbatim>\<open>NULL\<close>.  \<^verbatim>\<open>TSCH_PACKET_EACK_WITH_DEST_ADDR\<close> is 1 and
  \<^verbatim>\<open>TSCH_PACKET_EACK_WITH_SRC_ADDR\<close> is 0.
\<close>

definition tsch_packet_create_eack ::
  "frame802154 \<Rightarrow> framer_state \<Rightarrow> u8 list \<Rightarrow> u16 \<Rightarrow> linkaddr option \<Rightarrow> u8 \<Rightarrow> u16 \<Rightarrow> u8 \<Rightarrow> (int \<times> eackbuf \<times> u8 list) option" where
  "tsch_packet_create_eack g fs m buf_len dest_addr seqno drift nack = do {
     let attrs = (\<lambda>_. 0);
     let attrs = tsch_packet_eackbuf_set_attr attrs PACKETBUF_ATTR_FRAME_TYPE (ucast FRAME802154_ACKFRAME);
     let attrs = tsch_packet_eackbuf_set_attr attrs PACKETBUF_ATTR_MAC_METADATA 1;
     let attrs = tsch_packet_eackbuf_set_attr attrs PACKETBUF_ATTR_MAC_SEQNO (ucast seqno);
     let attrs = tsch_packet_eackbuf_set_attr attrs PACKETBUF_ATTR_MAC_NO_DEST_ADDR 1;
     let (attrs, params) = (case dest_addr of None \<Rightarrow> (attrs, g)
       | Some a \<Rightarrow> (tsch_packet_eackbuf_set_attr attrs PACKETBUF_ATTR_MAC_NO_DEST_ADDR 0, g\<lparr>f_dest_addr := linkaddr_copy (f_dest_addr g) a\<rparr>));
     let attrs = tsch_packet_eackbuf_set_attr attrs PACKETBUF_ATTR_MAC_NO_SRC_ADDR 1;
     let params = framer_802154_setup_params fs (tsch_packet_eackbuf_attr attrs) False params;
     let (hdr_len, params) = frame802154_hdrlen unsecured params;
     m \<leftarrow> wr_n m 0 (replicate (unat buf_len) 0);
     let ies = zero_ies\<lparr>ie_time_correction := drift, ie_is_nack := nack\<rparr>;
     (ack_len, rest) \<leftarrow> frame80215e_create_ie_header_ack_nack_time_correction (drop (nat hdr_len) m) (int (unat buf_len) - hdr_len) ies;
     let m = take (nat hdr_len) m @ rest;
     if ack_len < 0 then Some (-1, attrs, m)
     else do {
       (_, _, m) \<leftarrow> frame802154_create unsecured params m;
       Some (ack_len + hdr_len, attrs, m)
     }
   }"

text \<open>
  Parsing: \<open>bs\<close> is the memory at the frame, \<open>frame\<close>, \<open>ies\<close> and \<open>hdr_len\<close> are what the result arguments hold at first (no caller
  passes \<^verbatim>\<open>NULL\<close>), \<open>pan\<close> and \<open>node\<close> are the PAN identifier and the address of the node.
\<close>

definition tsch_packet_parse_eack ::
  "u16 \<Rightarrow> linkaddr \<Rightarrow> u8 list \<Rightarrow> int \<Rightarrow> u8 \<Rightarrow> frame802154 \<Rightarrow> ieee802154_ies \<Rightarrow> u8 \<Rightarrow> (int \<times> frame802154 \<times> ieee802154_ies \<times> u8) option" where
  "tsch_packet_parse_eack pan node bs buf_size seqno frame ies hdr_len = (if buf_size < 0 then Some (0, frame, ies, hdr_len) else do {
     (r, frame) \<leftarrow> frame802154_parse unsecured bs buf_size frame;
     if r < 3 then Some (0, frame, ies, hdr_len) else do {
       let hdr_len = (of_int r :: u8);
       let curr_len = (of_int r :: u8);
       if seqno \<noteq> f_seq frame then Some (0, frame, ies, hdr_len)
       else if \<not> frame802154_check_dest_panid pan frame then Some (0, frame, ies, hdr_len)
       else do {
         (known, _, dest) \<leftarrow> frame802154_extract_linkaddr frame None (Some linkaddr_null);
         if known = 0 \<or> \<not> linkaddr_cmp (the dest) node \<and> \<not> linkaddr_cmp (the dest) linkaddr_null then Some (0, frame, ies, hdr_len)
         else do {
           let ies = zero_ies;
           (r, ies) \<leftarrow> (if ie_list_present (f_fcf frame) \<noteq> 0
              then frame802154e_parse_information_elements (drop (unat curr_len) bs) (of_int (buf_size - int (unat curr_len))) ies
              else Some (0, ies));
           if r = -1 then Some (0, frame, ies, hdr_len)
           else do {
             let curr_len = curr_len + of_int r;
             Some (int (unat curr_len), frame, ies, hdr_len + ie_payload_ie_offset ies)
           }
         }
       }
     }
   })"

section \<open>Enhanced beacons\<close>

text \<open>The contents of the elements; \<open>hs\<close> and \<open>hslen\<close> are the hopping sequence and its length.\<close>

definition eb_slotframe :: "tsch_schedule \<Rightarrow> ieee802154_ies \<Rightarrow> ieee802154_ies option" where
  "eb_slotframe S ies = do {
     sf0 \<leftarrow> tsch_schedule_get_slotframe_by_handle S 0;
     link0 \<leftarrow> tsch_schedule_get_link_by_timeslot S sf0 0;
     case (sf0, link0) of
       (Some i, Some k) \<Rightarrow> do {
         sf \<leftarrow> rd (slotframes S) i;
         l \<leftarrow> rd (links S) k;
         let s = ie_tsch_slotframe_and_link ies;
         Some (ies\<lparr>ie_tsch_slotframe_and_link := s\<lparr>num_slotframes := 1, ie_slotframe_handle := ucast (sf_handle sf), slotframe_size := dval (sf_size sf),
           num_links := 1, ie_links := (ie_links s)[0 := \<lparr>ie_timeslot = l_timeslot l, ie_channel_offset = l_channel l, ie_link_options = l_options l\<rparr>]\<rparr>\<rparr>)
       }
     | _ \<Rightarrow> Some ies
   }"

definition eb_ies :: "eb_config \<Rightarrow> u8 list \<Rightarrow> u16 \<Rightarrow> tsch_schedule \<Rightarrow> u16 \<Rightarrow> ieee802154_ies option" where
  "eb_ies cfg hs hslen S sequence_number = do {
     let ies = zero_ies;
     let ies = (if eb_with_timeslot_timing cfg then ies\<lparr>ie_tsch_timeslot_id := 1, ie_tsch_timeslot := timing_us cfg\<rparr> else ies);
     ies \<leftarrow> (if eb_with_hopping_sequence cfg \<and> unat hslen \<le> TSCH_HOPPING_SEQUENCE_MAX_LEN then do {
               l \<leftarrow> rd_n hs 0 (unat hslen);
               l \<leftarrow> wr_n (ie_hopping_sequence_list ies) 0 l;
               Some (ies\<lparr>ie_channel_hopping_sequence_id := 1, ie_hopping_sequence_len := hslen, ie_hopping_sequence_list := l\<rparr>)
             } else Some ies);
     ies \<leftarrow> (if eb_with_slotframe_and_link cfg then eb_slotframe S ies else Some ies);
     Some (ies\<lparr>ie_sequence_number := sequence_number\<rparr>)
   }"

text \<open>
  One element is added behind the others: \<open>p\<close> points behind what has been written.  The flag is \<open>False\<close> once a function has returned -1, after which
  \<^verbatim>\<open>tsch_packet_create_eb\<close> returns.
\<close>

definition append_ie :: "(u8 list \<Rightarrow> int \<Rightarrow> (int \<times> u8 list) option) \<Rightarrow> bool \<times> nat \<times> pbuf \<Rightarrow> (bool \<times> nat \<times> pbuf) option" where
  "append_ie create_ie = (\<lambda>(ok, p, b). if \<not> ok then Some (ok, p, b) else do {
     (ie_len, mem) \<leftarrow> create_ie (drop p (pb_bytes b)) (int (unat (packetbuf_remaininglen b)));
     let b = b\<lparr>pb_bytes := take p (pb_bytes b) @ mem\<rparr>;
     if ie_len < 0 then Some (False, p, b)
     else Some (True, p + nat ie_len, packetbuf_set_datalen b (packetbuf_datalen b + of_int ie_len))
   })"

text \<open>The MLME element is put in front of the others.\<close>

definition nest_ies :: "ieee802154_ies \<Rightarrow> pbuf \<Rightarrow> (bool \<times> pbuf) option" where
  "nest_ies ies b = do {
     let ies = ies\<lparr>ie_mlme_len := packetbuf_datalen b\<rparr>;
     moved \<leftarrow> rd_n (pb_bytes b) (packetbuf_dataptr b) (unat (packetbuf_datalen b));
     bytes \<leftarrow> wr_n (pb_bytes b) (packetbuf_dataptr b + 2) moved;
     let b = packetbuf_set_datalen (b\<lparr>pb_bytes := bytes\<rparr>) (packetbuf_datalen b + 2);
     (ie_len, mem) \<leftarrow> frame80215e_create_ie_mlme (drop (packetbuf_dataptr b) (pb_bytes b)) (int (unat (packetbuf_remaininglen b))) ies;
     Some (\<not> ie_len < 0, b\<lparr>pb_bytes := take (packetbuf_dataptr b) (pb_bytes b) @ mem\<rparr>)
   }"

definition terminate_header_ies :: "pbuf \<Rightarrow> (bool \<times> pbuf) option" where
  "terminate_header_ies b = do {
     (_, b) \<leftarrow> packetbuf_hdralloc b 2;
     (ie_len, mem) \<leftarrow> frame80215e_create_ie_header_list_termination_1 (drop (packetbuf_hdrptr b) (pb_bytes b)) (int (unat (packetbuf_remaininglen b)));
     Some (\<not> ie_len < 0, b\<lparr>pb_bytes := take (packetbuf_hdrptr b) (pb_bytes b) @ mem\<rparr>)
   }"

definition FRAME802154_BEACONFRAME :: u8 where "FRAME802154_BEACONFRAME = 0"

text \<open>
  \<open>node\<close> is the address of the node.  The result is the returned length, the header length and the offset of the synchronization element where
  they are set, the new \<open>sequence_number\<close>, and the state of framer and packet buffer.
\<close>

definition tsch_packet_create_eb ::
  "eb_config \<Rightarrow> u8 list \<Rightarrow> u16 \<Rightarrow> tsch_schedule \<Rightarrow> linkaddr \<Rightarrow> u16 \<Rightarrow> framer_state \<Rightarrow> pbuf
   \<Rightarrow> (int \<times> (u8 \<times> u8) option \<times> u16 \<times> framer_state \<times> pbuf) option" where
  "tsch_packet_create_eb cfg hs hslen S node sequence_number fs b = do {
     let b = packetbuf_clear b;
     let sequence_number = sequence_number + 1;
     ies \<leftarrow> eb_ies cfg hs hslen S sequence_number;
     w \<leftarrow> append_ie (\<lambda>m len. frame80215e_create_ie_tsch_synchronization m len ies) (True, packetbuf_dataptr b, b);
     w \<leftarrow> append_ie (\<lambda>m len. frame80215e_create_ie_tsch_timeslot m len ies) w;
     w \<leftarrow> append_ie (\<lambda>m len. frame80215e_create_ie_tsch_channel_hopping_sequence m len ies) w;
     w \<leftarrow> append_ie (\<lambda>m len. frame80215e_create_ie_tsch_slotframe_and_link m len ies) w;
     (ok, p, b) \<leftarrow> append_ie (\<lambda>m len. frame80215e_create_ie_tsch_neighbor_discovery m len ies) w;
     if \<not> ok then Some (-1, None, sequence_number, fs, b)
     else do {
       (ok, b) \<leftarrow> nest_ies ies b;
       if \<not> ok then Some (-1, None, sequence_number, fs, b)
       else do {
         (ok, b) \<leftarrow> terminate_header_ies b;
         if \<not> ok then Some (-1, None, sequence_number, fs, b)
         else do {
           let b = packetbuf_set_attr b PACKETBUF_ATTR_FRAME_TYPE (ucast FRAME802154_BEACONFRAME);
           let b = packetbuf_set_attr b PACKETBUF_ATTR_MAC_METADATA 1;
           let b = packetbuf_set_addr b PACKETBUF_ADDR_SENDER node;
           let b = packetbuf_set_addr b PACKETBUF_ADDR_RECEIVER tsch_eb_address;
           (r, fs, b) \<leftarrow> framer_create fs b;
           if r < 0 then Some (-1, None, sequence_number, fs, b)
           else Some (int (unat (packetbuf_totlen b)), Some (packetbuf_hdrlen b, packetbuf_hdrlen b + 2), sequence_number, fs, b)
         }
       }
     }
   }"

text \<open>\<open>asn\<close> and \<open>join_priority\<close> are the variables \<^verbatim>\<open>tsch_current_asn\<close> and \<^verbatim>\<open>tsch_join_priority\<close>.\<close>

definition tsch_packet_update_eb :: "ieee802154_ies \<Rightarrow> asn \<Rightarrow> u8 \<Rightarrow> u8 list \<Rightarrow> int \<Rightarrow> u8 \<Rightarrow> (int \<times> u8 list) option" where
  "tsch_packet_update_eb g asn join_priority m buf_size offset = do {
     let ies = g\<lparr>ie_asn := asn, ie_join_priority := join_priority\<rparr>;
     (_, mem) \<leftarrow> frame80215e_create_ie_tsch_synchronization (drop (unat offset) m) (buf_size - int (unat offset)) ies;
     Some (1, take (unat offset) m @ mem)
   }"

definition tsch_packet_parse_eb ::
  "u8 list \<Rightarrow> int \<Rightarrow> frame802154 \<Rightarrow> ieee802154_ies \<Rightarrow> u8 \<Rightarrow> (int \<times> frame802154 \<times> ieee802154_ies \<times> u8) option" where
  "tsch_packet_parse_eb bs buf_size frame ies hdr_len = (if buf_size < 0 then Some (0, frame, ies, hdr_len) else do {
     (r, frame) \<leftarrow> frame802154_parse unsecured bs buf_size frame;
     if r = 0 \<or> frame_version (f_fcf frame) < FRAME802154_IEEE802154_2015 \<or> frame_type (f_fcf frame) \<noteq> FRAME802154_BEACONFRAME
     then Some (0, frame, ies, hdr_len)
     else do {
       let hdr_len = (of_int r :: u8);
       let curr_len = (of_int r :: u8);
       let ies = zero_ies\<lparr>ie_join_priority := 0xff\<rparr>;
       (r, ies) \<leftarrow> (if ie_list_present (f_fcf frame) \<noteq> 0
          then frame802154e_parse_information_elements (drop (unat curr_len) bs) (of_int (buf_size - int (unat curr_len))) ies
          else Some (0, ies));
       if r = -1 then Some (0, frame, ies, hdr_len)
       else do {
         let curr_len = curr_len + of_int r;
         Some (int (unat curr_len), frame, ies, hdr_len + ie_payload_ie_offset ies)
       }
     }
   })"

end
