(* ===== verification/Tsch_Packet_Spec.thy ===== *)
theory Tsch_Packet_Spec
  imports Tsch_Packet
begin

text \<open>
  What the functions of theory \<open>Tsch_Packet\<close> achieve: a beacon, updated just before it is sent and received by a neighbor, tells it the time,
  the join priority and the sequence number of the sender, and an acknowledgment the clock drift; other frames are refused.
\<close>

section \<open>Writing a beacon\<close>

text \<open>A packet buffer without header that holds the elements \<open>bs\<close>.\<close>

definition elements :: "pbuf \<Rightarrow> u8 list \<Rightarrow> bool" where
  "elements b bs \<longleftrightarrow> pb_inv b \<and> hdrlen b = 0 \<and> bufptr b = 0 \<and> pb_data b = bs"

lemma elements_at:
  assumes "elements b bs"
  shows "length bs \<le> 96" "buflen b = of_nat (length bs)" "unat (buflen b) = length bs" "packetbuf_dataptr b = 0" "packetbuf_datalen b = of_nat (length bs)"
    "unat (packetbuf_remaininglen b) = 96 - length bs" "take (length bs) (pb_bytes b) = bs" "length (pb_bytes b) = 96"
proof -
  have e: "pb_inv b" "hdrlen b = 0" "bufptr b = 0" "pb_data b = bs"
    using assms by (simp_all add: elements_def)
  note l = pb_lengths [OF e(1)]
  show n: "length bs \<le> 96" "unat (buflen b) = length bs"
    using l e by simp_all
  then show b: "buflen b = of_nat (length bs)"
    by (metis of_nat_unat ucast_id)
  show "packetbuf_dataptr b = 0" "packetbuf_datalen b = of_nat (length bs)"
    using e b by (simp_all add: packetbuf_dataptr_def packetbuf_hdrlen_def packetbuf_datalen_def)
  have "packetbuf_totlen b = of_nat (length bs)"
    using e b by (simp add: packetbuf_totlen_def packetbuf_hdrlen_def packetbuf_datalen_def)
  then have "packetbuf_remaininglen b = of_nat (96 - length bs)"
    using n(1) by (simp add: packetbuf_remaininglen_def PACKETBUF_SIZE_def of_nat_diff)
  then show "unat (packetbuf_remaininglen b) = 96 - length bs"
    by (simp add: unsigned_of_nat take_bit_nat_eq_self)
  show "length (pb_bytes b) = 96"
    by (rule pb_inv_length [OF e(1)])
  show "take (length bs) (pb_bytes b) = bs"
    using e(2-4) n(2) by (simp add: pb_data_inv [OF e(1)])
qed

lemma elements_write:
  assumes e: "elements b bs" and n: "length bs' \<le> length mem" "length mem = 96" "take (length bs') mem = bs'"
  shows "elements (packetbuf_set_datalen (b\<lparr>pb_bytes := mem\<rparr>) (of_nat (length bs'))) bs'"
proof -
  have "unat (of_nat (length bs') :: u16) = length bs'"
    using n by (simp add: unsigned_of_nat take_bit_nat_eq_self)
  then show ?thesis
    using assms by (simp add: elements_def packetbuf_set_datalen_def pb_inv_def PACKETBUF_SIZE_def pb_data_def packetbuf_dataptr_def packetbuf_hdrlen_def)
qed

lemma append_ie_creates:
  assumes f: "creates f k e" and b: "elements b bs" and room: "length bs + k \<le> 96" "length bs + length e \<le> 96"
  shows "\<exists>b'. append_ie f (True, length bs, b) = Some (True, length (bs @ e), b') \<and> elements b' (bs @ e)
    \<and> pb_attrs b' = pb_attrs b \<and> pb_addrs b' = pb_addrs b"
proof -
  note at = elements_at [OF b]
  have l: "length (drop (length bs) (pb_bytes b)) = 96 - length bs"
    using at(8) by simp
  have "k \<le> length (drop (length bs) (pb_bytes b)) \<and> length e \<le> length (drop (length bs) (pb_bytes b))"
    "int (length e) \<le> int (96 - length bs)"
    using room unfolding l by arith+
  then obtain rest where r: "f (drop (length bs) (pb_bytes b)) (int (96 - length bs)) = Some (int (length e), e @ rest)"
    "length e + length rest = length (drop (length bs) (pb_bytes b))"
    using f unfolding creates_def by (metis (no_types, lifting))
  let ?b = "packetbuf_set_datalen (b\<lparr>pb_bytes := bs @ e @ rest\<rparr>) (of_nat (length (bs @ e)))"
  have "append_ie f (True, length bs, b) = Some (True, length (bs @ e), ?b)"
    unfolding append_ie_def prod.case at(6) using r(1) at(5,7) by (simp add: packetbuf_datalen_def)
  moreover have "elements ?b (bs @ e)"
    by (rule elements_write [OF b]) (use r(2) l at(1) in simp_all)
  ultimately show ?thesis
    by (auto simp: packetbuf_set_datalen_def)
qed

lemma set_bytes_datalen: "b\<lparr>pb_bytes := x, buflen := n\<rparr> = b\<lparr>buflen := n, pb_bytes := x\<rparr>"
  by simp

lemma nest_ies_done:
  assumes b: "elements b bs" and room: "length bs \<le> 92"
  defines "d \<equiv> le16 (payload_desc (length bs) PAYLOAD_IE_MLME)"
  shows "\<exists>b'. nest_ies ies b = Some (True, b') \<and> elements b' (d @ bs) \<and> pb_attrs b' = pb_attrs b \<and> pb_addrs b' = pb_addrs b"
proof -
  note at = elements_at [OF b]
  have m: "rd_n (pb_bytes b) 0 (length bs) = Some bs"
    using at by (simp add: rd_n_in)
  define mem where "mem = take 2 (pb_bytes b) @ bs @ drop (2 + length bs) (pb_bytes b)"
  note mem = mem_def
  have w: "wr_n (pb_bytes b) (0 + 2) bs = Some mem"
    unfolding mem using room at(8) by (subst wr_n_in) (simp_all add: numeral_2_eq_2)
  have l: "length mem = 96"
    using room at(8) unfolding mem by simp
  define b1 where "b1 = packetbuf_set_datalen (b\<lparr>pb_bytes := mem\<rparr>) (of_nat (length bs) + 2)"
  have b1': "b1 = packetbuf_set_datalen (b\<lparr>pb_bytes := mem\<rparr>) (of_nat (length (take 2 (pb_bytes b) @ bs)))"
    using at(8) by (simp add: b1_def add.commute)
  have e1: "elements b1 (take 2 (pb_bytes b) @ bs)"
    unfolding b1' by (rule elements_write [OF b]) (use l mem at(8) in \<open>simp_all add: numeral_2_eq_2\<close>)
  note at1 = elements_at [OF e1]
  have u: "unat (ie_mlme_len (ies\<lparr>ie_mlme_len := of_nat (length bs)\<rparr>)) = length bs"
    using at(3) at(2) by simp
  have p1: "pb_bytes b1 = mem"
    by (simp add: b1_def packetbuf_set_datalen_def)
  let ?len = "int (96 - length (take 2 (pb_bytes b) @ bs))"
  have r: "frame80215e_create_ie_mlme mem ?len (ies\<lparr>ie_mlme_len := of_nat (length bs)\<rparr>) = Some (2, d @ drop 2 mem)"
    using descriptor_front(2) [of mem PAYLOAD_IE_MLME "length bs"] l room at(8) u
    by (simp add: frame80215e_create_ie_mlme_def d_def del: of_nat_unat)
  have u2: "unat (of_nat (length bs) :: u16) = length bs"
    using at(2,3) by simp
  have run: "nest_ies ies b = Some (True, b1\<lparr>pb_bytes := d @ drop 2 mem\<rparr>)"
    unfolding nest_ies_def Let_def at(4,5) u2 m bind.bind_lunit w b1_def [symmetric] at1(4,6) p1 drop_0 r by simp
  have "elements (b1\<lparr>pb_bytes := d @ drop 2 mem\<rparr>) (d @ bs)"
    using elements_write [OF e1, of "d @ bs" "d @ drop 2 mem"] l at(8) room
    by (simp add: mem d_def b1_def packetbuf_set_datalen_def numeral_2_eq_2 add.commute set_bytes_datalen)
  then show ?thesis
    using run by (auto simp: b1_def packetbuf_set_datalen_def)
qed

lemma terminate_header_ies_done:
  assumes b: "elements b bs" and room: "length bs \<le> 92"
  shows "\<exists>b'. terminate_header_ies b = Some (True, b') \<and> pb_inv b' \<and> bufptr b' = 0 \<and> hdrlen b' = 2
    \<and> pb_frame b' = le16 (header_desc 0 HEADER_IE_LIST_TERMINATION_1) @ bs \<and> pb_attrs b' = pb_attrs b \<and> pb_addrs b' = pb_addrs b"
proof -
  let ?t = "le16 (header_desc 0 HEADER_IE_LIST_TERMINATION_1)"
  have e: "pb_inv b" "hdrlen b = 0" "bufptr b = 0" "pb_data b = bs"
    using b by (simp_all add: elements_def)
  note at = elements_at [OF b]
  have tot: "unat (packetbuf_totlen b) = length bs"
    using pb_totlen [OF e(1)] e(2,3) at(3) by simp
  obtain b1 where b1: "packetbuf_hdralloc b (int 2) = Some (1, b1)" "pb_inv b1" "pb_data b1 = bs" "length (pb_hdr b1) = 2"
    "unat (packetbuf_totlen b1) = 2 + length bs"
    using packetbuf_hdralloc_fits [OF e(1), of 2] room tot e pb_lengths(2) [OF e(1)] by auto
  note keep = hdralloc_rest [OF b1(1)]
  have h: "hdrlen b1 = 2"
    using b1(1) e(2) by (auto simp: packetbuf_hdralloc_def bind_eq_Some split: if_splits)
  have l: "length (pb_bytes b1) = 96"
    by (rule pb_inv_length [OF b1(2)])
  have "packetbuf_totlen b1 = of_nat (2 + length bs)"
    using b1(5) by (metis of_nat_unat ucast_id)
  then have "packetbuf_remaininglen b1 = of_nat (94 - length bs)"
    using room by (simp add: packetbuf_remaininglen_def PACKETBUF_SIZE_def of_nat_diff)
  then have rem: "unat (packetbuf_remaininglen b1) = 94 - length bs"
    by (simp add: unsigned_of_nat take_bit_nat_eq_self)
  have run: "terminate_header_ies b = Some (True, b1\<lparr>pb_bytes := ?t @ drop 2 (pb_bytes b1)\<rparr>)"
    using b1(1) descriptor_front(1) [of "pb_bytes b1" HEADER_IE_LIST_TERMINATION_1 0] l room rem
    by (simp add: terminate_header_ies_def packetbuf_hdrptr_def frame80215e_create_ie_header_list_termination_1_def del: of_nat_unat)
  have w: "wr_n (pb_bytes b1) (packetbuf_hdrptr b1) ?t = Some (?t @ drop 2 (pb_bytes b1))"
    using l by (simp add: packetbuf_hdrptr_def wr_n_in numeral_2_eq_2)
  obtain bytes where "wr_n (pb_bytes b1) (packetbuf_hdrptr b1) ?t = Some bytes" "pb_inv (b1\<lparr>pb_bytes := bytes\<rparr>)"
    "pb_data (b1\<lparr>pb_bytes := bytes\<rparr>) = pb_data b1" "pb_hdr (b1\<lparr>pb_bytes := bytes\<rparr>) = ?t @ drop (length ?t) (pb_hdr b1)"
    using pb_write_hdr [OF b1(2), of ?t] b1(4) by auto
  then show ?thesis
    using run w b1(3,4) keep e(3) h by (auto simp: pb_frame_def)
qed

section \<open>A beacon\<close>

lemma zero_ies_ok: "ies_valid zero_ies" "ies_ok zero_ies" "ies_ok (zero_ies\<lparr>ie_join_priority := j\<rparr>)"
  by (simp_all add: ies_valid_def ies_ok_def zero_ies_def TSCH_HOPPING_SEQUENCE_MAX_LEN_def tsch_ts_elements_count_def)

text \<open>The contents of a beacon, with at most one link.\<close>

definition eb_valid :: "ieee802154_ies \<Rightarrow> bool" where
  "eb_valid i \<longleftrightarrow> ies_valid i \<and> unat (num_links (ie_tsch_slotframe_and_link i)) \<le> 1"

text \<open>What a beacon does not carry is zero.\<close>

definition eb_zero :: "ieee802154_ies \<Rightarrow> bool" where
  "eb_zero i \<longleftrightarrow> ie_time_correction i = 0 \<and> ie_is_nack i = 0 \<and> ie_payload_ie_offset i = 0 \<and> ie_mlme_len i = 0
     \<and> (ie_tsch_timeslot_id i = 0 \<longrightarrow> ie_tsch_timeslot i = ie_tsch_timeslot zero_ies)
     \<and> (ie_channel_hopping_sequence_id i = 0 \<longrightarrow> ie_hopping_sequence_len i = 0)
     \<and> (let n = unat (ie_hopping_sequence_len i) in drop n (ie_hopping_sequence_list i) = drop n (ie_hopping_sequence_list zero_ies))
     \<and> (let s = ie_tsch_slotframe_and_link i; z = ie_tsch_slotframe_and_link zero_ies; n = unat (num_links s)
        in if num_slotframes s = 0 then s = z else drop n (ie_links s) = drop n (ie_links z))"

lemma eb_slotframe_valid:
  assumes "eb_slotframe S i = Some i'" "eb_valid i" "eb_zero i"
  shows "eb_valid i'" "eb_zero i'"
proof -
  obtain sf0 link0 where "(case (sf0, link0) of
       (Some j, Some k) \<Rightarrow> do {
         sf \<leftarrow> rd (slotframes S) j;
         l \<leftarrow> rd (links S) k;
         let s = ie_tsch_slotframe_and_link i;
         Some (i\<lparr>ie_tsch_slotframe_and_link := s\<lparr>num_slotframes := 1, ie_slotframe_handle := ucast (sf_handle sf), slotframe_size := dval (sf_size sf),
           num_links := 1, ie_links := (ie_links s)[0 := \<lparr>ie_timeslot = l_timeslot l, ie_channel_offset = l_channel l, ie_link_options = l_options l\<rparr>]\<rparr>\<rparr>)
       }
     | _ \<Rightarrow> Some i) = Some i'"
    using assms(1) unfolding eb_slotframe_def bind_eq_Some by blast
  then have i': "i' = i \<or> (\<exists>h n l. i' = i\<lparr>ie_tsch_slotframe_and_link := ie_tsch_slotframe_and_link i\<lparr>num_slotframes := 1, ie_slotframe_handle := h,
      slotframe_size := n, num_links := 1, ie_links := (ie_links (ie_tsch_slotframe_and_link i))[0 := l]\<rparr>\<rparr>)"
  proof (cases "\<exists>j k. sf0 = Some j \<and> link0 = Some k")
    case True
    then obtain j k where e: "sf0 = Some j" "link0 = Some k"
      by blast
    assume "(case (sf0, link0) of
       (Some j, Some k) \<Rightarrow> do {
         sf \<leftarrow> rd (slotframes S) j;
         l \<leftarrow> rd (links S) k;
         let s = ie_tsch_slotframe_and_link i;
         Some (i\<lparr>ie_tsch_slotframe_and_link := s\<lparr>num_slotframes := 1, ie_slotframe_handle := ucast (sf_handle sf), slotframe_size := dval (sf_size sf),
           num_links := 1, ie_links := (ie_links s)[0 := \<lparr>ie_timeslot = l_timeslot l, ie_channel_offset = l_channel l, ie_link_options = l_options l\<rparr>]\<rparr>\<rparr>)
       }
     | _ \<Rightarrow> Some i) = Some i'"
    then obtain sf :: tsch_slotframe and l :: tsch_link where "Some (i\<lparr>ie_tsch_slotframe_and_link := (ie_tsch_slotframe_and_link i)\<lparr>num_slotframes := 1, ie_slotframe_handle := ucast (sf_handle sf),
        slotframe_size := dval (sf_size sf), num_links := 1, ie_links := (ie_links (ie_tsch_slotframe_and_link i))[0 := \<lparr>ie_timeslot = l_timeslot l,
        ie_channel_offset = l_channel l, ie_link_options = l_options l\<rparr>]\<rparr>\<rparr>) = Some i'"
      unfolding e prod.case option.case Let_def bind_eq_Some by blast
    then show ?thesis
      unfolding option.inject by blast
  qed (cases sf0; cases link0; simp)
  have d: "drop 1 (ie_links (ie_tsch_slotframe_and_link i)) = drop 1 (ie_links (ie_tsch_slotframe_and_link zero_ies))"
  proof (cases "num_slotframes (ie_tsch_slotframe_and_link i) = 0")
    case False
    let ?n = "unat (num_links (ie_tsch_slotframe_and_link i))"
    have n: "1 = (1 - ?n) + ?n"
      using assms(2) by (simp add: eb_valid_def)
    have "drop ?n (ie_links (ie_tsch_slotframe_and_link i)) = drop ?n (ie_links (ie_tsch_slotframe_and_link zero_ies))"
      using False assms(3) by (simp add: eb_zero_def Let_def)
    then show ?thesis
      by (subst (1 2) n) (simp only: drop_drop [symmetric])
  qed (use assms(3) in \<open>simp add: eb_zero_def Let_def\<close>)
  have "drop 1 (xs[0 := x]) = drop 1 xs" for xs :: "tsch_slotframe_and_links_link list" and x
    by (cases xs) simp_all
  then have "eb_valid i' \<and> eb_zero i'" if "i' = i\<lparr>ie_tsch_slotframe_and_link := ie_tsch_slotframe_and_link i\<lparr>num_slotframes := 1, ie_slotframe_handle := h,
      slotframe_size := n, num_links := 1, ie_links := (ie_links (ie_tsch_slotframe_and_link i))[0 := l]\<rparr>\<rparr>" for h n l
    using that assms(2,3) d by (simp add: eb_valid_def eb_zero_def ies_valid_def ies_ok_def Let_def)
  with i' assms(2,3) show "eb_valid i'" "eb_zero i'"
    by blast+
qed

lemma eb_ies_valid:
  assumes "eb_ies cfg hs hslen S n = Some i" "length (timing_us cfg) = 12"
  shows "eb_valid i" "eb_zero i" "ie_sequence_number i = n"
proof -
  define i1 where "i1 = (if eb_with_timeslot_timing cfg then zero_ies\<lparr>ie_tsch_timeslot_id := 1, ie_tsch_timeslot := timing_us cfg\<rparr> else zero_ies)"
  have 1: "eb_valid i1" "eb_zero i1"
    using zero_ies_ok(1) assms(2) by (simp_all add: i1_def eb_valid_def eb_zero_def ies_valid_def ies_ok_def) (simp_all add: zero_ies_def)
  have z: "ie_hopping_sequence_list i1 = ie_hopping_sequence_list zero_ies"
    by (simp add: i1_def)
  obtain i2 where i2: "(if eb_with_hopping_sequence cfg \<and> unat hslen \<le> TSCH_HOPPING_SEQUENCE_MAX_LEN then do {
        l \<leftarrow> rd_n hs 0 (unat hslen);
        l \<leftarrow> wr_n (ie_hopping_sequence_list i1) 0 l;
        Some (i1\<lparr>ie_channel_hopping_sequence_id := 1, ie_hopping_sequence_len := hslen, ie_hopping_sequence_list := l\<rparr>)
      } else Some i1) = Some i2"
    and i: "(if eb_with_slotframe_and_link cfg then eb_slotframe S i2 else Some i2) \<bind> (\<lambda>i. Some (i\<lparr>ie_sequence_number := n\<rparr>)) = Some i"
    using assms(1) unfolding eb_ies_def Let_def i1_def [symmetric] by (auto simp only: bind_eq_Some)
  have 2: "eb_valid i2"
    using i2 1 by (auto simp: bind_eq_Some eb_valid_def ies_valid_def ies_ok_def TSCH_HOPPING_SEQUENCE_MAX_LEN_def dest: wr_n_length split: if_splits)
  have d: "drop n ys = drop n zs" if "wr_n zs 0 xs = Some ys" "rd_n hs 0 n = Some xs" for xs ys zs n
    using that rd_n_length [OF that(2)] by (auto simp: wr_n_def split: if_splits)
  have 3: "eb_zero i2"
  proof (cases "eb_with_hopping_sequence cfg \<and> unat hslen \<le> TSCH_HOPPING_SEQUENCE_MAX_LEN")
    case True
    then obtain xs ys where "rd_n hs 0 (unat hslen) = Some xs" "wr_n (ie_hopping_sequence_list i1) 0 xs = Some ys"
      "i2 = i1\<lparr>ie_channel_hopping_sequence_id := 1, ie_hopping_sequence_len := hslen, ie_hopping_sequence_list := ys\<rparr>"
      using i2 by (auto simp: bind_eq_Some)
    with d 1(2) z show ?thesis
      by (simp add: eb_zero_def Let_def)
  next
    case False
    then have "i2 = i1"
      using i2 by (simp only: if_False) simp
    with 1 show ?thesis
      by simp
  qed
  obtain i3 where i3: "(if eb_with_slotframe_and_link cfg then eb_slotframe S i2 else Some i2) = Some i3" "i = i3\<lparr>ie_sequence_number := n\<rparr>"
    using i unfolding bind_eq_Some by blast
  have "eb_valid i3" "eb_zero i3"
    using i3(1) 2 3 eb_slotframe_valid [of S i2 i3] by (simp_all split: if_splits)
  with i3(2) show "eb_valid i" "eb_zero i" "ie_sequence_number i = n"
    by (auto simp: eb_valid_def eb_zero_def ies_valid_def ies_ok_def)
qed

lemma tsch_eb_address_null: "tsch_eb_address = linkaddr_null"
  by (simp add: tsch_eb_address_def linkaddr_null_def LINKADDR_SIZE_def)

definition beacon_attrs :: "(pb_attr \<Rightarrow> u16) \<Rightarrow> bool" where
  "beacon_attrs attrs \<longleftrightarrow> attrs PACKETBUF_ATTR_FRAME_TYPE = 0 \<and> attrs PACKETBUF_ATTR_MAC_METADATA = 1 \<and> attrs PACKETBUF_ATTR_MAC_ACK = 0
     \<and> attrs PACKETBUF_ATTR_MAC_NO_SRC_ADDR = 0 \<and> attrs PACKETBUF_ATTR_MAC_NO_DEST_ADDR = 0"

text \<open>A beacon is created unless there is no PAN identifier or it is too long for a frame.\<close>

lemma create_elements:
  assumes e0: "elements b []" and i: "eb_valid i"
  shows "length (mlme_bytes i) \<le> 81" "\<exists>w1 w2 w3 w4 b'. append_ie (\<lambda>m len. frame80215e_create_ie_tsch_synchronization m len i) (True, 0, b) = Some w1
    \<and> append_ie (\<lambda>m len. frame80215e_create_ie_tsch_timeslot m len i) w1 = Some w2
    \<and> append_ie (\<lambda>m len. frame80215e_create_ie_tsch_channel_hopping_sequence m len i) w2 = Some w3
    \<and> append_ie (\<lambda>m len. frame80215e_create_ie_tsch_slotframe_and_link m len i) w3 = Some w4
    \<and> append_ie (\<lambda>m len. frame80215e_create_ie_tsch_neighbor_discovery m len i) w4 = Some (True, length (mlme_bytes i), b')
    \<and> elements b' (mlme_bytes i) \<and> pb_attrs b' = pb_attrs b \<and> pb_addrs b' = pb_addrs b"
proof -
  let ?c = "slotframe_content (ie_tsch_slotframe_and_link i)"
  have iok: "ies_valid i" "ies_ok i" "unat (ie_hopping_sequence_len i) \<le> 16"
    using i by (simp_all add: eb_valid_def ies_valid_def)
  define e1 where "e1 = sync_bytes i"
  define e2 where "e2 = e1 @ timeslot_bytes i"
  define e3 where "e3 = e2 @ hopping_bytes i"
  define e4 where "e4 = e3 @ slotframe_bytes i"
  have "uint (num_slotframes (ie_tsch_slotframe_and_link i)) \<le> 1" "uint (num_links (ie_tsch_slotframe_and_link i)) \<le> 1"
    using i unfolding eb_valid_def ies_valid_def by (metis of_nat_1 of_nat_le_iff of_nat_unat ucast_id uint_nat)+
  then have "uint (num_slotframes (ie_tsch_slotframe_and_link i)) * (4 + 5 * uint (num_links (ie_tsch_slotframe_and_link i))) \<le> 1 * 9"
    by (intro mult_mono) simp_all
  then have c: "length ?c \<le> 10"
    using length_slotframe_content(1) [OF iok(1)] by linarith
  have l1: "length e1 = 8"
    by (simp add: e1_def sync_bytes_def)
  have l2: "length e2 \<le> 35"
    using length_timeslot_content [OF iok(2)] l1 by (simp add: e2_def timeslot_bytes_def)
  have l3: "length e3 \<le> 65"
    using length_hopping_content [OF iok(1)] iok(3) l2 by (simp add: e3_def hopping_bytes_def)
  have l4: "length e4 \<le> 77"
    using c l3 by (simp add: e4_def slotframe_bytes_def Let_def)
  have m: "mlme_bytes i = e4 @ discovery_bytes i"
    by (simp add: mlme_bytes_def e4_def e3_def e2_def e1_def)
  then show "length (mlme_bytes i) \<le> 81"
    using l4 by (simp add: discovery_bytes_def)
  obtain b1 where b1: "append_ie (\<lambda>m len. frame80215e_create_ie_tsch_synchronization m len i) (True, 0, b) = Some (True, length e1, b1)"
    "elements b1 e1" "pb_attrs b1 = pb_attrs b" "pb_addrs b1 = pb_addrs b"
    using append_ie_creates [OF create_sync e0, of i] l1 by (auto simp: e1_def)
  obtain b2 where b2: "append_ie (\<lambda>m len. frame80215e_create_ie_tsch_timeslot m len i) (True, length e1, b1) = Some (True, length e2, b2)"
    "elements b2 e2" "pb_attrs b2 = pb_attrs b" "pb_addrs b2 = pb_addrs b"
    using append_ie_creates [OF create_timeslot [OF iok(2)] b1(2)] b1(3,4) l1 l2 unfolding e2_def by auto
  obtain b3 where b3: "append_ie (\<lambda>m len. frame80215e_create_ie_tsch_channel_hopping_sequence m len i) (True, length e2, b2) = Some (True, length e3, b3)"
    "elements b3 e3" "pb_attrs b3 = pb_attrs b" "pb_addrs b3 = pb_addrs b"
    using append_ie_creates [OF create_hopping [OF iok(1)] b2(2)] b2(3,4) l2 l3 iok(3) unfolding e3_def by auto
  obtain b4 where b4: "append_ie (\<lambda>m len. frame80215e_create_ie_tsch_slotframe_and_link m len i) (True, length e3, b3) = Some (True, length e4, b4)"
    "elements b4 e4" "pb_attrs b4 = pb_attrs b" "pb_addrs b4 = pb_addrs b"
    using append_ie_creates [OF create_slotframe [OF iok(1)] b3(2)] b3(3,4) l3 l4 unfolding e4_def by auto
  have d: "length (discovery_bytes i) = 4"
    by (simp add: discovery_bytes_def)
  obtain b5 where b5: "append_ie (\<lambda>m len. frame80215e_create_ie_tsch_neighbor_discovery m len i) (True, length e4, b4) = Some (True, length (mlme_bytes i), b5)"
    "elements b5 (mlme_bytes i)" "pb_attrs b5 = pb_attrs b" "pb_addrs b5 = pb_addrs b"
    using append_ie_creates [OF create_discovery b4(2), of i] b4(3,4) l4 d unfolding m by auto
  show "\<exists>w1 w2 w3 w4 b'. append_ie (\<lambda>m len. frame80215e_create_ie_tsch_synchronization m len i) (True, 0, b) = Some w1
    \<and> append_ie (\<lambda>m len. frame80215e_create_ie_tsch_timeslot m len i) w1 = Some w2
    \<and> append_ie (\<lambda>m len. frame80215e_create_ie_tsch_channel_hopping_sequence m len i) w2 = Some w3
    \<and> append_ie (\<lambda>m len. frame80215e_create_ie_tsch_slotframe_and_link m len i) w3 = Some w4
    \<and> append_ie (\<lambda>m len. frame80215e_create_ie_tsch_neighbor_discovery m len i) w4 = Some (True, length (mlme_bytes i), b')
    \<and> elements b' (mlme_bytes i) \<and> pb_attrs b' = pb_attrs b \<and> pb_addrs b' = pb_addrs b"
    using b1(1) b2(1) b3(1) b4(1) b5 by blast
qed

lemma create_eb:
  assumes b: "pb_inv b" and node: "linkaddr_ok node" and i: "eb_ies cfg hs hslen S (n + 1) = Some i" "eb_valid i"
  shows "\<exists>r offs fs' b'. tsch_packet_create_eb cfg hs hslen S node n fs b = Some (r, offs, n + 1, fs', b') \<and> pb_inv b' \<and> mac_pan_id fs' = mac_pan_id fs
    \<and> beacon_attrs (pb_attrs b') \<and> pb_addrs b' = (\<lambda>a. case a of PACKETBUF_ADDR_SENDER \<Rightarrow> node | PACKETBUF_ADDR_RECEIVER \<Rightarrow> linkaddr_null)
    \<and> (if mac_pan_id fs = 0xffff \<or> 78 < length (mlme_bytes i) then r = -1 \<and> offs = None
       else r = int (18 + length (mlme_bytes i)) \<and> offs = Some (16, 18) \<and> bufptr b' = 0 \<and> pb_frame b' = packet_header fs' b' @ beacon_ies i
         \<and> length (packet_header fs' b') = 14)"
proof -
  let ?b = "packetbuf_clear b"
  have e0: "elements ?b []"
    using packetbuf_clear_inv [OF b] by (simp add: elements_def packetbuf_clear_def packetbuf_attr_clear_def pb_data_def)
  have clear: "pb_attrs ?b = (\<lambda>_. 0)" "pb_addrs ?b = (\<lambda>_. linkaddr_null)" "packetbuf_dataptr ?b = 0"
    using b by (simp_all add: packetbuf_clear_def packetbuf_attr_clear_def packetbuf_dataptr_def packetbuf_hdrlen_def linkaddr_copy_null)
  obtain w1 w2 w3 w4 b1 where w: "append_ie (\<lambda>m len. frame80215e_create_ie_tsch_synchronization m len i) (True, packetbuf_dataptr ?b, ?b) = Some w1"
    "append_ie (\<lambda>m len. frame80215e_create_ie_tsch_timeslot m len i) w1 = Some w2"
    "append_ie (\<lambda>m len. frame80215e_create_ie_tsch_channel_hopping_sequence m len i) w2 = Some w3"
    "append_ie (\<lambda>m len. frame80215e_create_ie_tsch_slotframe_and_link m len i) w3 = Some w4"
    "append_ie (\<lambda>m len. frame80215e_create_ie_tsch_neighbor_discovery m len i) w4 = Some (True, length (mlme_bytes i), b1)"
    and b1: "elements b1 (mlme_bytes i)" "pb_attrs b1 = pb_attrs ?b" "pb_addrs b1 = pb_addrs ?b"
    using create_elements(2) [OF e0 i(2)] unfolding clear(3) by blast
  note len = create_elements(1) [OF e0 i(2)]
  obtain b2 where b2: "nest_ies i b1 = Some (True, b2)" "elements b2 (le16 (payload_desc (length (mlme_bytes i)) PAYLOAD_IE_MLME) @ mlme_bytes i)"
    "pb_attrs b2 = pb_attrs b1" "pb_addrs b2 = pb_addrs b1"
    using nest_ies_done [OF b1(1), of i] len by auto
  obtain b3 where b3: "terminate_header_ies b2 = Some (True, b3)" "pb_inv b3" "bufptr b3 = 0" "hdrlen b3 = 2" "pb_frame b3 = beacon_ies i"
    "pb_attrs b3 = pb_attrs b2" "pb_addrs b3 = pb_addrs b2"
    using terminate_header_ies_done [OF b2(2)] len by (auto simp: beacon_ies_def)
  let ?b4 = "packetbuf_set_attr (packetbuf_set_attr b3 PACKETBUF_ATTR_FRAME_TYPE (ucast FRAME802154_BEACONFRAME)) PACKETBUF_ATTR_MAC_METADATA 1"
  define b4 where "b4 = packetbuf_set_addr (packetbuf_set_addr ?b4 PACKETBUF_ADDR_SENDER node) PACKETBUF_ADDR_RECEIVER tsch_eb_address"
  have c: "linkaddr_copy linkaddr_null a = a" if "linkaddr_ok a" for a
    using that by (simp add: linkaddr_copy_def linkaddr_ok_def)
  have b4: "pb_inv b4" "bufptr b4 = 0" "hdrlen b4 = 2" "pb_frame b4 = beacon_ies i" "beacon_attrs (pb_attrs b4)"
    "pb_addrs b4 = (\<lambda>a. case a of PACKETBUF_ADDR_SENDER \<Rightarrow> node | PACKETBUF_ADDR_RECEIVER \<Rightarrow> linkaddr_null)"
    using b3 b2(3,4) b1(2,3) clear node c
    by (auto simp: b4_def packetbuf_set_attr_def packetbuf_set_addr_def pb_inv_def pb_frame_def pb_hdr_def pb_data_def packetbuf_dataptr_def
        packetbuf_hdrlen_def beacon_attrs_def FRAME802154_BEACONFRAME_def tsch_eb_address_null fun_eq_iff split: pb_addr.split)
  have tot: "unat (packetbuf_totlen b4) = 4 + length (mlme_bytes i)"
    using pb_totlen [OF b4(1)] pb_lengths [OF b4(1)] b4(2) arg_cong [OF b4(4), of length] by (simp add: pb_frame_def beacon_ies_def)
  obtain h fs' b5 where f: "framer_create fs b4 = Some (h, fs', b5)" "pb_inv b5" "mac_pan_id fs' = mac_pan_id fs" "pb_addrs b5 = pb_addrs b4"
    "pb_attrs b5 = (pb_attrs b4)(PACKETBUF_ATTR_MAC_SEQNO := pb_attrs b5 PACKETBUF_ATTR_MAC_SEQNO)"
    "0 \<le> h \<longrightarrow> framed (packet_header fs' b5) b4 b5" "h < 0 \<longleftrightarrow> mac_pan_id fs = 0xffff \<or> 96 < length (packet_header fs' b5) + unat (packetbuf_totlen b4)"
    by (rule framer_create_spec [OF b4(1), of fs]) blast
  have attrs: "beacon_attrs (pb_attrs b5)"
    using b4(5) by (subst f(5)) (simp add: beacon_attrs_def)
  have ph: "length (packet_header fs' b5) = 14"
    using length_packet_header [OF f(2), of fs'] attrs f(4) b4(6) by (simp add: beacon_attrs_def)
  have run: "tsch_packet_create_eb cfg hs hslen S node n fs b = (if h < 0 then Some (-1, None, n + 1, fs', b5)
      else Some (int (unat (packetbuf_totlen b5)), Some (packetbuf_hdrlen b5, packetbuf_hdrlen b5 + 2), n + 1, fs', b5))"
    unfolding tsch_packet_create_eb_def Let_def i(1) bind.bind_lunit w prod.case b2(1) b3(1) b4_def [symmetric] f(1) by simp
  show ?thesis
  proof (cases "h < 0")
    case True
    with run f(2,3,4,7) attrs b4(6) ph tot show ?thesis
      by auto
  next
    case False
    then have fr: "pb_frame b5 = packet_header fs' b5 @ beacon_ies i" "bufptr b5 = 0" "pb_data b5 = pb_data b4"
      using f(6) b4(2,4) by (simp_all add: framed_def)
    have lf: "length (pb_hdr b5) + length (pb_data b5) = 14 + length (beacon_ies i)" "length (pb_hdr b4) + length (pb_data b4) = length (beacon_ies i)"
      using arg_cong [OF fr(1), of length] arg_cong [OF b4(4), of length] ph by (simp_all add: pb_frame_def del: append_assoc)
    have n: "unat (hdrlen b5) + unat (buflen b5) = 18 + length (mlme_bytes i)" "unat (buflen b5) = unat (buflen b4)"
      "2 + unat (buflen b4) = 4 + length (mlme_bytes i)"
      using pb_lengths(1,2) [OF f(2)] pb_lengths(1,2) [OF b4(1)] fr(3) b4(3) lf by (simp_all add: beacon_ies_def)
    then have "unat (hdrlen b5) = 16"
      by simp
    then have "unat (packetbuf_hdrlen b5) = 16"
      using pb_hdrlen [OF f(2)] fr(2) by simp
    then have "packetbuf_hdrlen b5 = 16"
      by (metis of_nat_numeral of_nat_unat ucast_id)
    moreover have "unat (packetbuf_totlen b5) = 18 + length (mlme_bytes i)"
      using pb_totlen [OF f(2)] fr(2) n(1) by simp
    ultimately show ?thesis
      using False run f(2,3,4,7) attrs b4(6) ph tot fr(1,2) by (auto simp del: of_nat_unat)
  qed
qed

section \<open>Sending and receiving a beacon\<close>

lemma sync_exact:
  assumes "8 \<le> length m" "8 \<le> len"
  shows "frame80215e_create_ie_tsch_synchronization m len ies = Some (8, sync_bytes ies @ drop 8 m)"
proof -
  obtain a b c d e f g h r where "m = a # b # c # d # e # f # g # h # r"
    using front_8 [OF assms(1)] by blast
  then show ?thesis
    using descriptor_front(3) [of _ _ 6] assms(2)
    by (simp add: frame80215e_create_ie_tsch_synchronization_def sync_bytes_def wr_def le32_def)
qed

text \<open>\<open>retimed asn jp i\<close> are the elements with a new time and join priority.\<close>

definition retimed :: "asn \<Rightarrow> u8 \<Rightarrow> ieee802154_ies \<Rightarrow> ieee802154_ies" where
  "retimed asn jp i = i\<lparr>ie_asn := asn, ie_join_priority := jp\<rparr>"

lemma retimed_bytes:
  "timeslot_bytes (retimed asn jp i) = timeslot_bytes i" "hopping_bytes (retimed asn jp i) = hopping_bytes i"
  "slotframe_bytes (retimed asn jp i) = slotframe_bytes i" "discovery_bytes (retimed asn jp i) = discovery_bytes i"
  "ies_valid (retimed asn jp i) = ies_valid i" "sync_bytes (g\<lparr>ie_asn := asn, ie_join_priority := jp\<rparr>) = sync_bytes (retimed asn jp i)"
  "length (sync_bytes i) = 8"
  by (simp_all add: retimed_def timeslot_bytes_def timeslot_content_def hopping_bytes_def hopping_content_def slotframe_bytes_def discovery_bytes_def
      ies_valid_def ies_ok_def sync_bytes_def)

lemma update_eb:
  assumes h: "length hdr = 14" and n: "26 \<le> buf_size"
  shows "tsch_packet_update_eb g asn jp (hdr @ beacon_ies i @ post) buf_size 18 = Some (1, hdr @ beacon_ies (retimed asn jp i) @ post)"
proof -
  let ?t = "le16 (header_desc 0 HEADER_IE_LIST_TERMINATION_1)" and ?d = "le16 (payload_desc (length (mlme_bytes i)) PAYLOAD_IE_MLME)"
  let ?r = "timeslot_bytes i @ hopping_bytes i @ slotframe_bytes i @ discovery_bytes i @ post" and ?i = "retimed asn jp i"
  define pre where "pre = hdr @ ?t @ ?d"
  have 18: "length pre = 18"
    using h by (simp add: pre_def)
  have m: "hdr @ beacon_ies i @ post = pre @ sync_bytes i @ ?r"
    by (simp add: beacon_ies_def mlme_bytes_def pre_def)
  have l: "length (mlme_bytes ?i) = length (mlme_bytes i)"
    by (simp add: mlme_bytes_def retimed_bytes)
  then have m': "hdr @ beacon_ies ?i @ post = pre @ sync_bytes ?i @ ?r"
    by (simp add: beacon_ies_def mlme_bytes_def retimed_bytes pre_def)
  have s: "frame80215e_create_ie_tsch_synchronization (sync_bytes i @ ?r) (buf_size - int 18) (g\<lparr>ie_asn := asn, ie_join_priority := jp\<rparr>)
      = Some (8, sync_bytes ?i @ ?r)"
    using sync_exact [of "sync_bytes i @ ?r" "buf_size - int 18"] n by (simp add: retimed_bytes(6) [where i = i] retimed_bytes(7))
  have d: "drop 18 (pre @ sync_bytes i @ ?r) = sync_bytes i @ ?r" "take 18 (pre @ sync_bytes i @ ?r) = pre"
    using 18 by simp_all
  have u: "unat (18 :: u8) = 18"
    by simp
  show ?thesis
    unfolding tsch_packet_update_eb_def Let_def m m' u d s by simp
qed

lemma beacon_expressible: "beacon_attrs (pb_attrs b) \<Longrightarrow> expressible b"
  by (simp add: beacon_attrs_def expressible_def)

lemma parse_eb:
  assumes b: "pb_inv b" "beacon_attrs (pb_attrs b)" "length (packet_header fs b) = 14" and i: "ies_valid i" and g: "struct_ok g"
  shows "\<exists>f. tsch_packet_parse_eb (packet_header fs b @ beacon_ies i @ post) (int (14 + length (beacon_ies i))) g i0 n0
      = Some (int (14 + length (beacon_ies i)), f, got_beacon i (zero_ies\<lparr>ie_join_priority := 0xff\<rparr>), 16)
    \<and> f_src_addr f = pb_addrs b PACKETBUF_ADDR_SENDER \<and> f_src_pid f = mac_pan_id fs \<and> src_addr_mode (f_fcf f) = 3
    \<and> security_enabled (f_fcf f) = 0"
proof -
  let ?p = "frame_params fs b" and ?h = "packet_header fs b" and ?bs = "beacon_ies i" and ?jp = "zero_ies\<lparr>ie_join_priority := 0xff\<rparr>"
  note e = beacon_expressible [OF b(2)]
  note p = canonical_params [OF b(1) e, of fs]
  have len: "int (length (header_bytes unsecured ?p)) \<le> int (14 + length ?bs)"
    using b(3) by (simp add: packet_header_def)
  obtain f where f: "frame802154_parse unsecured (?h @ ?bs @ post) (int (14 + length ?bs)) g = Some (14, f)" "same_header unsecured ?p f"
    using parse_header [OF p(1) g len, of "?bs @ post"] b(3) by (auto simp: packet_header_def)
  have fcf: "f_fcf f = f_fcf ?p" "f_src_addr f = pb_addrs b PACKETBUF_ADDR_SENDER" "f_src_pid f = f_src_pid ?p"
    using f(2) p(2) by (simp_all add: same_header_def)
  have c: "frame_version (f_fcf ?p) = 2" "frame_type (f_fcf ?p) = 0" "ie_list_present (f_fcf ?p) = 1" "f_src_pid ?p = mac_pan_id fs" "src_addr_mode (f_fcf ?p) = 3"
    "security_enabled (f_fcf ?p) = 0"
    using b(2) by (simp_all add: frame_params_def framer_802154_setup_params_def Let_def packetbuf_attr_def frame802154_get_pan_id_def beacon_attrs_def
        FRAME802154_VERSION_def frame_constants LINKADDR_SIZE_def)
  have l: "length ?bs < 256" "length ?bs \<le> 100"
    using length_mlme_bytes(2) [OF i] by (simp_all add: beacon_ies_def)
  have drop: "drop 14 (?h @ ?bs @ post) = ?bs @ post"
    using b(3) by simp
  note ies = parse_beacon_ies [OF i zero_ies_ok(3) refl, of post "0xff"]
  have "(of_int (int (14 + length ?bs) - 14) :: u8) = of_nat (length ?bs)"
    by simp
  then have r: "frame802154e_parse_information_elements (?bs @ post) (of_int (int (14 + length ?bs) - 14)) ?jp = Some (int (length ?bs), got_beacon i ?jp)"
    using ies by simp
  have off: "ie_payload_ie_offset (got_beacon i ?jp) = 2"
    by (simp add: got_beacon_def got_discovery_def got_slotframe_def got_hopping_def got_timeslot_def got_sync_def Let_def)
  have "unat ((14 :: u8) + of_int (int (length ?bs))) = 14 + length ?bs"
    using l by (subst unat_add_lem [THEN iffD1]) (simp_all add: unsigned_of_nat take_bit_nat_eq_self)
  then have "tsch_packet_parse_eb (?h @ ?bs @ post) (int (14 + length ?bs)) g i0 n0 = Some (int (14 + length ?bs), f, got_beacon i ?jp, 16)"
    using f(1) c r drop off unfolding tsch_packet_parse_eb_def
    by (simp add: fcf frame_constants FRAME802154_BEACONFRAME_def del: of_nat_unat)
  then show ?thesis
    using fcf c by auto
qed

lemma got_all:
  assumes "eb_valid i" "eb_zero i"
  shows "got_beacon (retimed asn jp i) (zero_ies\<lparr>ie_join_priority := 0xff\<rparr>) = (retimed asn jp i)\<lparr>ie_payload_ie_offset := 2\<rparr>"
proof -
  let ?s = "ie_tsch_slotframe_and_link i" and ?z = "ie_tsch_slotframe_and_link zero_ies" and ?n = "unat (ie_hopping_sequence_len i)"
  have z: "ie_time_correction i = ie_time_correction zero_ies" "ie_is_nack i = ie_is_nack zero_ies" "ie_mlme_len i = ie_mlme_len zero_ies"
    "ie_tsch_timeslot_id i = 0 \<Longrightarrow> ie_tsch_timeslot i = ie_tsch_timeslot zero_ies"
    using assms(2) by (simp_all add: eb_zero_def) (simp_all add: zero_ies_def)
  have "drop ?n (ie_hopping_sequence_list zero_ies) = drop ?n (ie_hopping_sequence_list i)"
    using assms(2) by (simp add: eb_zero_def Let_def)
  then have l: "take ?n (ie_hopping_sequence_list i) @ drop ?n (ie_hopping_sequence_list zero_ies) = ie_hopping_sequence_list i"
    by (simp only: append_take_drop_id)
  have h: "ie_channel_hopping_sequence_id i = 0 \<Longrightarrow> ie_hopping_sequence_len i = ie_hopping_sequence_len zero_ies
      \<and> ie_hopping_sequence_list zero_ies = ie_hopping_sequence_list i"
    using assms(2) l by (auto simp: eb_zero_def Let_def) (simp_all add: zero_ies_def)
  have s0: "num_slotframes ?s = 0 \<Longrightarrow> ?s = ?z"
    using assms(2) by (simp add: eb_zero_def Let_def)
  have s1: "num_slotframes ?s \<noteq> 0 \<Longrightarrow> drop (unat (num_links ?s)) (ie_links ?z) = drop (unat (num_links ?s)) (ie_links ?s)"
    using assms(2) by (simp add: eb_zero_def Let_def)
  have s: "num_slotframes ?s \<noteq> 0 \<Longrightarrow> ?s\<lparr>ie_links := take (unat (num_links ?s)) (ie_links ?s) @ drop (unat (num_links ?s)) (ie_links ?z)\<rparr> = ?s"
    unfolding s1 by simp
  note got = got_beacon_def got_discovery_def got_slotframe_def got_hopping_def got_timeslot_def got_sync_def retimed_def Let_def
  show ?thesis
  proof (rule ieee802154_ies.equality)
    show "ie_tsch_slotframe_and_link (got_beacon (retimed asn jp i) (zero_ies\<lparr>ie_join_priority := 0xff\<rparr>))
        = ie_tsch_slotframe_and_link ((retimed asn jp i)\<lparr>ie_payload_ie_offset := 2\<rparr>)"
      using s0 s by (simp add: got)
    show "ie_hopping_sequence_list (got_beacon (retimed asn jp i) (zero_ies\<lparr>ie_join_priority := 0xff\<rparr>))
        = ie_hopping_sequence_list ((retimed asn jp i)\<lparr>ie_payload_ie_offset := 2\<rparr>)"
      using h l by (simp add: got)
    show "ie_hopping_sequence_len (got_beacon (retimed asn jp i) (zero_ies\<lparr>ie_join_priority := 0xff\<rparr>))
        = ie_hopping_sequence_len ((retimed asn jp i)\<lparr>ie_payload_ie_offset := 2\<rparr>)"
      using h by (simp add: got)
    show "ie_tsch_timeslot (got_beacon (retimed asn jp i) (zero_ies\<lparr>ie_join_priority := 0xff\<rparr>))
        = ie_tsch_timeslot ((retimed asn jp i)\<lparr>ie_payload_ie_offset := 2\<rparr>)"
      using z(4) by (simp add: got)
  qed (simp_all add: got z(1-3))
qed

lemma beacon_reaches_neighbor:
  assumes b: "pb_inv b" and node: "linkaddr_ok node" and t: "length (timing_us cfg) = 12" and i: "eb_ies cfg hs hslen S (n + 1) = Some i"
    and g: "struct_ok g"
  shows "\<exists>r offs fs' b'. tsch_packet_create_eb cfg hs hslen S node n fs b = Some (r, offs, n + 1, fs', b')
    \<and> (if mac_pan_id fs = 0xffff \<or> 78 < length (mlme_bytes i) then r = -1 \<and> offs = None
       else r = int (18 + length (mlme_bytes i)) \<and> length (pb_frame b') = nat r \<and> offs = Some (16, 18)
         \<and> (\<exists>sent f. tsch_packet_update_eb l asn jp (pb_frame b' @ post) r 18 = Some (1, sent @ post) \<and> length sent = nat r
           \<and> tsch_packet_parse_eb (sent @ post') r g i0 n0 = Some (r, f, i\<lparr>ie_asn := asn, ie_join_priority := jp, ie_payload_ie_offset := 2\<rparr>, 16)
           \<and> f_src_addr f = node \<and> f_src_pid f = mac_pan_id fs \<and> security_enabled (f_fcf f) = 0))"
proof -
  note v = eb_ies_valid(1,2) [OF i t]
  obtain r offs fs' b' where c: "tsch_packet_create_eb cfg hs hslen S node n fs b = Some (r, offs, n + 1, fs', b')" "pb_inv b'" "mac_pan_id fs' = mac_pan_id fs"
    "beacon_attrs (pb_attrs b')" "pb_addrs b' = (\<lambda>a. case a of PACKETBUF_ADDR_SENDER \<Rightarrow> node | PACKETBUF_ADDR_RECEIVER \<Rightarrow> linkaddr_null)"
    "if mac_pan_id fs = 0xffff \<or> 78 < length (mlme_bytes i) then r = -1 \<and> offs = None
       else r = int (18 + length (mlme_bytes i)) \<and> offs = Some (16, 18) \<and> bufptr b' = 0 \<and> pb_frame b' = packet_header fs' b' @ beacon_ies i
         \<and> length (packet_header fs' b') = 14"
    using create_eb [OF b node i v(1), of fs] by blast
  show ?thesis
  proof (cases "mac_pan_id fs = 0xffff \<or> 78 < length (mlme_bytes i)")
    case True
    with c show ?thesis
      by auto
  next
    case False
    let ?i = "retimed asn jp i"
    have r: "r = int (18 + length (mlme_bytes i))" "offs = Some (16, 18)" "pb_frame b' = packet_header fs' b' @ beacon_ies i" "length (packet_header fs' b') = 14"
      using c(6) False by simp_all
    have l: "length (beacon_ies i) = 4 + length (mlme_bytes i)" "length (beacon_ies ?i) = length (beacon_ies i)" "8 \<le> length (mlme_bytes i)"
      by (simp_all add: beacon_ies_def mlme_bytes_def retimed_bytes)
    have u: "tsch_packet_update_eb l asn jp (pb_frame b' @ post) r 18 = Some (1, (packet_header fs' b' @ beacon_ies ?i) @ post)"
      using update_eb [OF r(4), of r l asn jp i post] r(1,3) l(3) by simp
    have "ies_valid ?i"
      using v(1) by (simp add: retimed_bytes eb_valid_def)
    then obtain f where f: "tsch_packet_parse_eb ((packet_header fs' b' @ beacon_ies ?i) @ post') r g i0 n0
        = Some (r, f, got_beacon ?i (zero_ies\<lparr>ie_join_priority := 0xff\<rparr>), 16)" "f_src_addr f = node" "f_src_pid f = mac_pan_id fs"
      "security_enabled (f_fcf f) = 0"
      using parse_eb [OF c(2,4) r(4) _ g, of ?i post' i0 n0] c(3,5) l r(1) by auto
    have lens: "length (pb_frame b') = nat r" "length (packet_header fs' b' @ beacon_ies ?i) = nat r"
      using r l by simp_all
    have "got_beacon ?i (zero_ies\<lparr>ie_join_priority := 0xff\<rparr>) = i\<lparr>ie_asn := asn, ie_join_priority := jp, ie_payload_ie_offset := 2\<rparr>"
      using got_all [OF v] by (simp add: retimed_def)
    then show ?thesis
      using False c(1) u f lens r(1,2) by auto
  qed
qed

section \<open>Acknowledgments\<close>

definition eack_fcf :: "linkaddr option \<Rightarrow> frame802154_fcf" where
  "eack_fcf dest = \<lparr>frame_type = FRAME802154_ACKFRAME, security_enabled = 0, frame_pending = 0, ack_required = 0, panid_compression = 0,
     sequence_number_suppression = 0, ie_list_present = 1, dest_addr_mode = (if dest = None then 0 else 3), frame_version = 2, src_addr_mode = 0\<rparr>"

text \<open>The header of an acknowledgment; it does not depend on what was in the local variable.\<close>

definition eack_frame :: "framer_state \<Rightarrow> linkaddr option \<Rightarrow> u8 \<Rightarrow> frame802154" where
  "eack_frame fs dest seqno = zero_frame\<lparr>f_fcf := eack_fcf dest, f_seq := seqno, f_dest_pid := (if dest = None then 0 else mac_pan_id fs),
     f_dest_addr := (case dest of None \<Rightarrow> linkaddr_null | Some a \<Rightarrow> a)\<rparr>"

lemma eack_field_len:
  assumes "f_fcf p = eack_fcf dest"
  shows "field_len unsecured p = (p, \<lparr>seqno_len = 1, dest_pid_len = (if dest = None then 0 else 2), dest_addr_len = (if dest = None then 0 else 8),
     src_pid_len = 0, src_addr_len = 0, aux_sec_len = 0\<rparr>)"
proof -
  have "p\<lparr>f_fcf := eack_fcf dest\<rparr> = p"
    using assms by (cases p) simp
  then show ?thesis
    unfolding field_len_def Let_def assms
    by (simp add: eack_fcf_def frame_constants frame802154_has_panid_def Let_def aux_len_def unsecured_def addr_len_def)
qed

lemma eack_canonical:
  assumes "\<forall>a. dest = Some a \<longrightarrow> length a = 8"
  shows "canonical unsecured (eack_frame fs dest seqno)" "length (header_bytes unsecured (eack_frame fs dest seqno)) = (if dest = None then 3 else 13)"
proof -
  have c: "f_fcf (eack_frame fs dest seqno) = eack_fcf dest" "length (f_dest_addr (eack_frame fs dest seqno)) = 8"
    using assms by (auto simp: eack_frame_def linkaddr_null_def LINKADDR_SIZE_def split: option.split)
  note l = eack_field_len [OF c(1)]
  have "frame_ok (eack_frame fs dest seqno)"
    using c(2) by (simp add: eack_frame_def frame_ok_def zero_frame_def)
  moreover have "frame802154_has_panid (eack_fcf dest) = (False, dest \<noteq> None)"
    by (simp add: frame802154_has_panid_def eack_fcf_def frame_constants Let_def)
  moreover have "replicate 8 0 = linkaddr_null"
    by (simp add: linkaddr_null_def LINKADDR_SIZE_def)
  moreover have "fcf_ok (eack_fcf dest)"
    by (simp add: eack_fcf_def fcf_ok_def frame_constants)
  moreover have "addr_of_mode (dest_addr_mode (eack_fcf dest)) (f_dest_addr (eack_frame fs dest seqno))"
    using assms by (cases dest) (simp_all add: eack_frame_def eack_fcf_def addr_of_mode_def linkaddr_null_def LINKADDR_SIZE_def)
  moreover have "addr_of_mode 0 (f_src_addr (eack_frame fs dest seqno))" "f_src_pid (eack_frame fs dest seqno) = 0" "src_addr_mode (eack_fcf dest) = 0"
    "security_enabled (eack_fcf dest) = 0"
    by (simp_all add: eack_frame_def zero_frame_def eack_fcf_def addr_of_mode_def linkaddr_null_def LINKADDR_SIZE_def)
  ultimately show "canonical unsecured (eack_frame fs dest seqno)"
    unfolding canonical_def Let_def c(1) l by (cases dest) (simp_all add: eack_frame_def eack_fcf_def)
  show "length (header_bytes unsecured (eack_frame fs dest seqno)) = (if dest = None then 3 else 13)"
    using c(2) by (simp add: header_bytes_def l Let_def c(1)) (simp add: eack_fcf_def addr_len_def frame_constants)
qed

lemma create_same_header:
  assumes "f_fcf p = eack_fcf dest" "f_seq p = seqno" "f_dest_pid p = mac_pan_id fs" "\<forall>a. dest = Some a \<longrightarrow> f_dest_addr p = a"
  shows "map_option (\<lambda>(r, _, m). (r, m)) (frame802154_create unsecured p m)
    = map_option (\<lambda>(r, _, m). (r, m)) (frame802154_create unsecured (eack_frame fs dest seqno) m)"
proof -
  have c: "f_fcf (eack_frame fs dest seqno) = eack_fcf dest" "f_seq (eack_frame fs dest seqno) = seqno"
    "dest \<noteq> None \<Longrightarrow> f_dest_pid (eack_frame fs dest seqno) = mac_pan_id fs \<and> f_dest_addr (eack_frame fs dest seqno) = f_dest_addr p"
    using assms(4) by (cases dest; simp add: eack_frame_def)+
  define s where "s = do {
     m \<leftarrow> frame802154_create_fcf (eack_fcf dest) m;
     s \<leftarrow> put seqno (2, m);
     s \<leftarrow> (if dest = None then Some s else put_pid (mac_pan_id fs) s);
     if dest = None then Some s else put_addr (f_dest_addr p) 8 s
   }"
  have r: "frame802154_create unsecured q m = s \<bind> (\<lambda>s. Some (int (fst s), q, snd s))"
    if "f_fcf q = eack_fcf dest" "f_seq q = seqno" "dest \<noteq> None \<Longrightarrow> f_dest_pid q = mac_pan_id fs \<and> f_dest_addr q = f_dest_addr p" for q
    unfolding frame802154_create_def eack_field_len [OF that(1)] Let_def prod.case s_def
    using that by (cases dest) (simp_all add: bind_assoc)
  have r1: "frame802154_create unsecured p m = s \<bind> (\<lambda>s. Some (int (fst s), p, snd s))"
    by (rule r [OF assms(1,2)]) (simp add: assms(3))
  have r2: "frame802154_create unsecured (eack_frame fs dest seqno) m = s \<bind> (\<lambda>s. Some (int (fst s), eack_frame fs dest seqno, snd s))"
    by (rule r [OF c])
  show ?thesis
    unfolding r1 r2 by (cases s) simp_all
qed

text \<open>What was in the local variable does not reach the acknowledgment.\<close>

definition eack_ies :: "u16 \<Rightarrow> u8 \<Rightarrow> ieee802154_ies" where
  "eack_ies drift nack = zero_ies\<lparr>ie_time_correction := drift, ie_is_nack := nack\<rparr>"

definition eack_bytes :: "framer_state \<Rightarrow> linkaddr option \<Rightarrow> u8 \<Rightarrow> u16 \<Rightarrow> u8 \<Rightarrow> u8 list" where
  "eack_bytes fs dest seqno drift nack = header_bytes unsecured (eack_frame fs dest seqno) @ correction_bytes (eack_ies drift nack)"

lemma correction_exact:
  assumes "4 \<le> length m" "4 \<le> len"
  shows "frame80215e_create_ie_header_ack_nack_time_correction m len ies = Some (4, correction_bytes ies @ drop 4 m)"
proof -
  let ?v = "if ie_is_nack ies \<noteq> 0 then ie_time_correction ies AND 0xfff OR 0x8000 else ie_time_correction ies AND 0xfff"
  obtain a b c d r where "m = a # b # c # d # r"
    using front_4 [OF assms(1)] by blast
  then show ?thesis
    using descriptor_front(1) [of _ _ 2] assms(2)
    by (simp add: frame80215e_create_ie_header_ack_nack_time_correction_def correction_bytes_def WRITE16_eq Let_def le16_def [of ?v] del: if_split)
qed

lemma create_eack:
  assumes m: "unat buf_len \<le> length m" and room: "(if dest = None then 7 else 17) \<le> unat buf_len"
    and dest: "\<forall>a. dest = Some a \<longrightarrow> length a = 8"
  shows "\<exists>attrs rest. tsch_packet_create_eack g fs m buf_len dest seqno drift nack
      = Some (int (length (eack_bytes fs dest seqno drift nack)), attrs, eack_bytes fs dest seqno drift nack @ rest)
    \<and> length (eack_bytes fs dest seqno drift nack) + length rest = length m"
proof -
  let ?h = "header_bytes unsecured (eack_frame fs dest seqno)" and ?c = "correction_bytes (eack_ies drift nack)"
  define l where "l = (if dest = None then 3 else 13 :: nat)"
  define attrs :: eackbuf where "attrs = (\<lambda>_. 0)(PACKETBUF_ATTR_FRAME_TYPE := ucast FRAME802154_ACKFRAME, PACKETBUF_ATTR_MAC_METADATA := 1,
     PACKETBUF_ATTR_MAC_SEQNO := ucast seqno, PACKETBUF_ATTR_MAC_NO_DEST_ADDR := (if dest = None then 1 else 0), PACKETBUF_ATTR_MAC_NO_SRC_ADDR := 1)"
  define p where "p = framer_802154_setup_params fs (tsch_packet_eackbuf_attr attrs) False
     (case dest of None \<Rightarrow> g | Some a \<Rightarrow> g\<lparr>f_dest_addr := linkaddr_copy (f_dest_addr g) a\<rparr>)"
  have p: "f_fcf p = eack_fcf dest" "f_seq p = seqno" "f_dest_pid p = mac_pan_id fs" "\<forall>a. dest = Some a \<longrightarrow> f_dest_addr p = a"
    using dest
    by (simp_all add: p_def framer_802154_setup_params_def Let_def tsch_packet_eackbuf_attr_def attrs_def eack_fcf_def frame_constants FRAME802154_VERSION_def
        FRAME802154_SUPPR_SEQNO_def LINKADDR_SIZE_def frame802154_get_pan_id_def linkaddr_copy_def split: option.split)
  note hdr = eack_canonical [OF dest, of fs seqno, folded l_def]
  have hl: "frame802154_hdrlen unsecured p = (int l, p)"
    by (simp add: frame802154_hdrlen_def eack_field_len [OF p(1)] l_def)
  define m1 where "m1 = replicate (unat buf_len) (0 :: u8) @ drop (unat buf_len) m"
  have m1: "wr_n m 0 (replicate (unat buf_len) 0) = Some m1" "length m1 = length m"
    using m by (simp_all add: m1_def wr_n_in)
  have le: "l + 4 \<le> unat buf_len"
    using room by (simp add: l_def split: if_splits)
  have c: "frame80215e_create_ie_header_ack_nack_time_correction (drop l m1) (int (unat buf_len) - int l) (eack_ies drift nack)
      = Some (4, ?c @ drop 4 (drop l m1))"
  proof (rule correction_exact)
    show "4 \<le> length (drop l m1)" "4 \<le> int (unat buf_len) - int l"
      unfolding length_drop using m m1(2) le by arith+
  qed
  define m2 where "m2 = take l m1 @ ?c @ drop (4 + l) m1"
  have c4: "length ?c = 4"
    by (simp add: correction_bytes_def)
  have "length m2 = length m"
    unfolding m2_def length_append length_take length_drop c4 m1(2) using le m by arith
  note l4 = c4 this
  have ok: "frame_ok (eack_frame fs dest seqno)"
    using hdr(1) by (auto simp: canonical_def Let_def split: prod.splits)
  have "frame802154_create unsecured (eack_frame fs dest seqno) m2 = Some (int l, fst (field_len unsecured (eack_frame fs dest seqno)), ?h @ drop l m2)"
    using create_header [OF ok, of unsecured m2] hdr(2) l4(2) m le by simp
  then obtain q where q: "frame802154_create unsecured p m2 = Some (int l, q, ?h @ drop l m2)"
    using create_same_header [OF p, of m2] by (cases "frame802154_create unsecured p m2") auto
  have run: "tsch_packet_create_eack g fs m buf_len dest seqno drift nack = Some (4 + int l, attrs, ?h @ drop l m2)"
  proof -
    have "tsch_packet_create_eack g fs m buf_len dest seqno drift nack = do {
       let (attrs, params) = (attrs, p);
       let (hdr_len, params) = frame802154_hdrlen unsecured params;
       m \<leftarrow> wr_n m 0 (replicate (unat buf_len) 0);
       let ies = eack_ies drift nack;
       (ack_len, rest) \<leftarrow> frame80215e_create_ie_header_ack_nack_time_correction (drop (nat hdr_len) m) (int (unat buf_len) - hdr_len) ies;
       let m = take (nat hdr_len) m @ rest;
       if ack_len < 0 then Some (-1, attrs, m)
       else do {
         (_, _, m) \<leftarrow> frame802154_create unsecured params m;
         Some (ack_len + hdr_len, attrs, m)
       }
     }"
      unfolding tsch_packet_create_eack_def eack_ies_def p_def attrs_def
      by (cases dest) (simp_all add: tsch_packet_eackbuf_set_attr_def Let_def cong: if_cong)
    moreover have "take l m1 @ ?c @ drop 4 (drop l m1) = m2"
      by (simp add: m2_def)
    ultimately show ?thesis
      unfolding Let_def prod.case hl m1(1) bind.bind_lunit nat_int c using q by simp
  qed
  have "drop l m2 = ?c @ drop (4 + l) m1"
    using m1(2) m le by (simp add: m2_def)
  then show ?thesis
    using run hdr(2) l4 m1(2) m le by (auto simp: eack_bytes_def)
qed

lemma parse_ies_ack:
  "frame802154e_parse_information_elements (correction_bytes ies @ post) 4 i0
   = Some (4, (got_correction ies (i0\<lparr>ie_payload_ie_offset := 0\<rparr>))\<lparr>ie_payload_ie_offset := 4\<rparr>)"
  using parse_ies_correction [of "[]" 0 4 ies post 0 "i0\<lparr>ie_payload_ie_offset := 0\<rparr>"] parse_ies_end(2)
  by (simp add: frame802154e_parse_information_elements_def)

text \<open>A twelve-bit drift.\<close>

lemma drift_extended:
  assumes "-2048 \<le> sint (x :: u16)" "sint x < 2048"
  shows "(if bit x 11 then x OR 0xf000 else x AND 0xfff) = x"
proof -
  have m: "x AND 0xfff = take_bit 12 x"
    by (simp add: take_bit_eq_mask mask_eq_exp_minus_1)
  have n: "(0xf000 :: u16) = push_bit 12 (mask 4)"
    by (simp add: mask_eq_exp_minus_1)
  have s: "signed_take_bit 11 (sint x) = sint x"
    using assms by (simp add: signed_take_bit_int_eq_self)
  have b: "bit x k = bit x 11" if "11 \<le> k" "k < 16" for k
  proof -
    have "bit (sint x) k = bit (sint x) 11"
      using that(1) by (subst (1) s [symmetric]) (simp add: bit_signed_take_bit_iff min_def)
    then show ?thesis
      using that by (simp add: bit_sint_iff)
  qed
  show ?thesis
  proof (cases "bit x 11")
    case True
    have "bit x k" if "bit (push_bit 12 (mask 4) :: u16) k" for k
      using True b [of k] that by (auto simp: bit_simps)
    then have "x OR 0xf000 = x"
      unfolding n by (intro bit_word_eqI) (auto simp: bit_or_iff)
    with True show ?thesis
      by simp
  next
    case False
    have "k < 12" if "bit x k" "k < 16" for k
      using False b [of k] that by (cases "k < 12") auto
    then have "take_bit 12 x = x"
      by (intro bit_word_eqI) (auto simp: bit_take_bit_iff)
    with False m show ?thesis
      by simp
  qed
qed

text \<open>Whether a node takes an acknowledgment for its own.\<close>

lemma parse_eack:
  assumes dest: "\<forall>a. dest = Some a \<longrightarrow> length a = 8 \<and> a \<noteq> replicate 8 0xff \<and> a \<noteq> linkaddr_null" and g: "struct_ok f0" and node: "linkaddr_ok node"
  shows "\<exists>f i hl. tsch_packet_parse_eack pan node (eack_bytes fs dest seqno drift nack @ post) (int (length (eack_bytes fs dest seqno drift nack))) seqno' f0 i0 h0
      = Some (if seqno' = seqno \<and> dest = Some node \<and> (mac_pan_id fs = pan \<or> mac_pan_id fs = 0xffff) then 17 else 0, f, i, hl)
    \<and> (seqno' = seqno \<and> dest = Some node \<and> (mac_pan_id fs = pan \<or> mac_pan_id fs = 0xffff) \<longrightarrow> hl = 17
        \<and> i = (got_correction (eack_ies drift nack) zero_ies)\<lparr>ie_payload_ie_offset := 4\<rparr>)"
proof -
  let ?p = "eack_frame fs dest seqno" and ?c = "correction_bytes (eack_ies drift nack)" and ?e = "eack_bytes fs dest seqno drift nack"
  define l where "l = length (header_bytes unsecured ?p)"
  have d8: "\<forall>a. dest = Some a \<longrightarrow> length a = 8"
    using dest by blast
  note c = eack_canonical [OF d8, of fs seqno]
  have l: "l = (if dest = None then 3 else 13)"
    using c(2) by (simp add: l_def)
  have e: "length ?e = l + 4" "?e = header_bytes unsecured ?p @ ?c"
    by (simp_all add: eack_bytes_def l_def correction_bytes_def)
  obtain q where q: "frame802154_parse unsecured (?e @ post) (int (length ?e)) f0 = Some (int l, q)" "same_header unsecured ?p q"
    using parse_header [OF c(1) g, of "int (length ?e)" "?c @ post"] e unfolding l_def by auto
  have f: "f_fcf q = eack_fcf dest" "f_seq q = seqno" "f_dest_pid q = (if dest = None then 0 else mac_pan_id fs)"
    "f_dest_addr q = (case dest of None \<Rightarrow> linkaddr_null | Some a \<Rightarrow> a)"
    using q(2) by (simp_all add: same_header_def eack_frame_def eack_fcf_def)
  have pid: "frame802154_check_dest_panid pan q \<longleftrightarrow> dest \<noteq> None \<and> (mac_pan_id fs = pan \<or> mac_pan_id fs = 0xffff)"
    by (auto simp: frame802154_check_dest_panid_def frame802154_has_panid_def Let_def f eack_fcf_def frame_constants)
  have x: "frame802154_extract_linkaddr q None (Some linkaddr_null) = Some (1, None, Some a)" if "dest = Some a" for a
  proof -
    have a: "length a = 8" "a \<noteq> replicate 8 0xff"
      using dest that by simp_all
    then show ?thesis
      using that by (simp add: frame802154_extract_linkaddr_def extract_addr_def f eack_fcf_def frame_constants frame802154_is_broadcast_addr_def all_ff_spec Let_def LINKADDR_SIZE_def)
  qed
  have r: "\<not> int (length ?e) < 0" "\<not> int l < 3"
    using l by (simp_all split: if_splits)
  show ?thesis
  proof (cases "seqno' = seqno \<and> frame802154_check_dest_panid pan q")
    case False
    then show ?thesis
      using q(1) r pid f(2) unfolding tsch_packet_parse_eack_def by (auto simp: Let_def)
  next
    case True
    then obtain a where a: "dest = Some a" "l = 13"
      using pid l by auto
    have cmp: "linkaddr_cmp a node \<longleftrightarrow> a = node" "\<not> linkaddr_cmp a linkaddr_null"
      using dest node a(1) by (auto simp: linkaddr_ok_def LINKADDR_SIZE_def linkaddr_null_def)
    have u: "(of_int (int l) :: u8) = 13" "unat (13 :: u8) = 13"
      by (simp_all add: a(2))
    have ie: "ie_list_present (f_fcf q) \<noteq> 0"
      by (simp add: f eack_fcf_def)
    have dr: "drop 13 (?e @ post) = ?c @ post"
      using a(2) by (simp add: e(2) l_def)
    have n4: "(of_int (int (length ?e) - int 13) :: u8) = 4"
      by (simp add: e(1) a(2))
    have i: "(got_correction (eack_ies drift nack) (zero_ies\<lparr>ie_payload_ie_offset := 0\<rparr>))\<lparr>ie_payload_ie_offset := 4\<rparr>
        = (got_correction (eack_ies drift nack) zero_ies)\<lparr>ie_payload_ie_offset := 4\<rparr>"
      by (simp add: got_correction_def)
    show ?thesis
    proof (cases "a = node")
      case False
      then show ?thesis
        using True q(1) r x [OF a(1)] cmp a(1) f(2) unfolding tsch_packet_parse_eack_def by (simp add: Let_def)
    next
      case True': True
      have "tsch_packet_parse_eack pan node (?e @ post) (int (length ?e)) seqno' f0 i0 h0
          = Some (17, q, (got_correction (eack_ies drift nack) zero_ies)\<lparr>ie_payload_ie_offset := 4\<rparr>, 17)"
        unfolding tsch_packet_parse_eack_def if_not_P [OF r(1)] q(1) bind.bind_lunit prod.case if_not_P [OF r(2)] Let_def u x [OF a(1)] dr n4 if_P [OF ie] parse_ies_ack i
        using True True' f(2) cmp by simp
      then show ?thesis
        using True True' pid a(1) by simp
    qed
  qed
qed

lemma eack_without_address:
  assumes "unat buf_len \<le> length m" "7 \<le> unat buf_len" "struct_ok f0" "linkaddr_ok node"
  shows "\<exists>attrs ack. tsch_packet_create_eack g fs m buf_len None seqno drift nack = Some (7, attrs, ack)
    \<and> (\<exists>f i hl. tsch_packet_parse_eack pan node ack 7 seqno f0 i0 h0 = Some (0, f, i, hl))"
proof -
  have l: "length (eack_bytes fs None seqno drift nack) = 7"
    using eack_canonical(2) [of None fs seqno] by (simp add: eack_bytes_def correction_bytes_def)
  obtain attrs rest where "tsch_packet_create_eack g fs m buf_len None seqno drift nack = Some (7, attrs, eack_bytes fs None seqno drift nack @ rest)"
    using create_eack [OF assms(1), of None g fs seqno drift nack] assms(2) l by auto
  then show ?thesis
    using parse_eack [of None f0 node pan fs seqno drift nack rest seqno i0 h0] assms(3,4) l by auto
qed

lemma eack_with_address:
  assumes m: "unat buf_len \<le> length m" "17 \<le> unat buf_len" and a: "linkaddr_ok a" "a \<noteq> linkaddr_null" "a \<noteq> replicate 8 0xff"
    and node: "linkaddr_ok node" and f0: "struct_ok f0"
  shows "\<exists>attrs ack rest f i hl. tsch_packet_create_eack g fs m buf_len (Some a) seqno drift nack = Some (17, attrs, ack @ rest) \<and> length ack = 17
    \<and> tsch_packet_parse_eack pan node (ack @ post) 17 seqno' f0 i0 h0
        = Some (if seqno' = seqno \<and> node = a \<and> (mac_pan_id fs = pan \<or> mac_pan_id fs = 0xffff) then 17 else 0, f, i, hl)
    \<and> (seqno' = seqno \<and> node = a \<and> (mac_pan_id fs = pan \<or> mac_pan_id fs = 0xffff) \<longrightarrow> hl = 17 \<and> ie_is_nack i = (if nack = 0 then 0 else 1)
        \<and> (-2048 \<le> sint drift \<and> sint drift < 2048 \<longrightarrow> ie_time_correction i = drift))"
proof -
  let ?e = "eack_bytes fs (Some a) seqno drift nack"
  have a8: "\<forall>x. Some a = Some x \<longrightarrow> length x = 8" "\<forall>x. Some a = Some x \<longrightarrow> length x = 8 \<and> x \<noteq> replicate 8 0xff \<and> x \<noteq> linkaddr_null"
    using a by (simp_all add: linkaddr_ok_def LINKADDR_SIZE_def)
  have l: "length ?e = 17"
    using eack_canonical(2) [OF a8(1), of fs seqno] by (simp add: eack_bytes_def correction_bytes_def)
  obtain attrs rest where c: "tsch_packet_create_eack g fs m buf_len (Some a) seqno drift nack = Some (17, attrs, ?e @ rest)"
    using create_eack [OF m(1) _ a8(1), of g fs seqno drift nack] m(2) l by auto
  have d: "ie_time_correction ((got_correction (eack_ies drift nack) zero_ies)\<lparr>ie_payload_ie_offset := 4\<rparr>) = drift" if "-2048 \<le> sint drift" "sint drift < 2048"
    using drift_extended [OF that] by (simp add: got_correction_def eack_ies_def split: if_split_asm)
  have k: "ie_is_nack ((got_correction (eack_ies drift nack) zero_ies)\<lparr>ie_payload_ie_offset := 4\<rparr>) = (if nack = 0 then 0 else 1)"
    by (simp add: got_correction_def eack_ies_def)
  obtain f i hl where p: "tsch_packet_parse_eack pan node (?e @ post) 17 seqno' f0 i0 h0
      = Some (if seqno' = seqno \<and> Some a = Some node \<and> (mac_pan_id fs = pan \<or> mac_pan_id fs = 0xffff) then 17 else 0, f, i, hl)"
    "seqno' = seqno \<and> Some a = Some node \<and> (mac_pan_id fs = pan \<or> mac_pan_id fs = 0xffff) \<longrightarrow> hl = 17
        \<and> i = (got_correction (eack_ies drift nack) zero_ies)\<lparr>ie_payload_ie_offset := 4\<rparr>"
    using parse_eack [OF a8(2) f0 node, of pan fs seqno drift nack post seqno' i0 h0] l by auto
  show ?thesis
    by (rule exI [of _ attrs], rule exI [of _ ?e], rule exI [of _ rest], rule exI [of _ f], rule exI [of _ i], rule exI [of _ hl])
      (use c l p d k in auto)
qed

text \<open>
  C17. Beacons.  \<open>tsch_packet_create_eb\<close> makes a beacon, numbered one higher, unless the node has no PAN identifier or the elements do not fit, and reports
  the offset of the synchronization element.  Brought up to date there just before it is sent (\<open>tsch_packet_update_eb\<close>), and received,
  it tells the neighbor (\<open>tsch_packet_parse_eb\<close>) the address and the PAN identifier of the sender, the current time and join priority, and exactly the
  elements that the sender put in, whichever the configuration asks for; all of this without an access outside of a buffer.
\<close>

theorem beacon_received:
  assumes "pb_inv b" "linkaddr_ok node" "length (timing_us cfg) = 12" "eb_ies cfg hs hslen S (n + 1) = Some i" "struct_ok g"
  shows "\<exists>r offs fs' b'. tsch_packet_create_eb cfg hs hslen S node n fs b = Some (r, offs, n + 1, fs', b')
    \<and> (if mac_pan_id fs = 0xffff \<or> 78 < length (mlme_bytes i) then r = -1 \<and> offs = None
       else r = int (18 + length (mlme_bytes i)) \<and> length (pb_frame b') = nat r \<and> offs = Some (16, 18)
         \<and> (\<exists>sent f. tsch_packet_update_eb l asn jp (pb_frame b' @ post) r 18 = Some (1, sent @ post) \<and> length sent = nat r
           \<and> tsch_packet_parse_eb (sent @ post') r g i0 n0 = Some (r, f, i\<lparr>ie_asn := asn, ie_join_priority := jp, ie_payload_ie_offset := 2\<rparr>, 16)
           \<and> f_src_addr f = node \<and> f_src_pid f = mac_pan_id fs \<and> security_enabled (f_fcf f) = 0))"
  by (rule beacon_reaches_neighbor [OF assms])

definition framer_example :: framer_state where
  "framer_example = \<lparr>mac_pan_id = 0xabcd, mac_dsn = 7, framer_initialized = True, first_random = 0\<rparr>"

theorem beacon_received_witness:
  "\<forall>S. \<exists>offs fs' b' sent f i. tsch_packet_create_eb plain_eb [] 0 S [1, 0, 0, 0, 0, 0, 0, 0] 41 framer_example pb_initial = Some (39, offs, 42, fs', b')
    \<and> tsch_packet_update_eb zero_ies (Asn 1 2) 3 (pb_frame b' @ []) 39 18 = Some (1, sent @ [])
    \<and> tsch_packet_parse_eb (sent @ []) 39 zero_frame zero_ies 0 = Some (39, f, i, 16) \<and> ie_asn i = Asn 1 2 \<and> ie_sequence_number i = 42"
proof
  fix S
  let ?i = "zero_ies\<lparr>ie_sequence_number := 42\<rparr>"
  have i: "eb_ies plain_eb [] 0 S (41 + 1) = Some ?i"
    by (simp add: eb_ies_def plain_eb_def)
  have l: "length (mlme_bytes ?i) = 21"
    by (simp add: mlme_bytes_def sync_bytes_def timeslot_bytes_def timeslot_content_def hopping_bytes_def hopping_content_def slotframe_bytes_def
        slotframe_content_def discovery_bytes_def zero_ies_def Let_def)
  have *: "pb_inv pb_initial" "linkaddr_ok [1, 0, 0, 0, 0, 0, 0, 0]" "length (timing_us plain_eb) = 12" "struct_ok zero_frame"
    using pb_inv_initial zero_frame_ok(2) by (simp_all add: linkaddr_ok_def LINKADDR_SIZE_def plain_eb_def)
  have p: "mac_pan_id framer_example = 0xabcd"
    by (simp add: framer_example_def)
  obtain r offs fs' b' sent f where r: "r = int (18 + length (mlme_bytes ?i))" "tsch_packet_create_eb plain_eb [] 0 S [1, 0, 0, 0, 0, 0, 0, 0] 41 framer_example pb_initial = Some (r, offs, 41 + 1, fs', b')"
    "tsch_packet_update_eb zero_ies (Asn 1 2) 3 (pb_frame b' @ []) r 18 = Some (1, sent @ [])"
    "tsch_packet_parse_eb (sent @ []) r zero_frame zero_ies 0 = Some (r, f, ?i\<lparr>ie_asn := Asn 1 2, ie_join_priority := 3, ie_payload_ie_offset := 2\<rparr>, 16)"
    using beacon_received [OF *(1-3) i *(4), of framer_example zero_ies "Asn 1 2" 3 "[]" "[]" zero_ies 0] l p by auto
  show "\<exists>offs fs' b' sent f i. tsch_packet_create_eb plain_eb [] 0 S [1, 0, 0, 0, 0, 0, 0, 0] 41 framer_example pb_initial = Some (39, offs, 42, fs', b')
    \<and> tsch_packet_update_eb zero_ies (Asn 1 2) 3 (pb_frame b' @ []) 39 18 = Some (1, sent @ [])
    \<and> tsch_packet_parse_eb (sent @ []) 39 zero_frame zero_ies 0 = Some (39, f, i, 16) \<and> ie_asn i = Asn 1 2 \<and> ie_sequence_number i = 42"
    using r(2-) unfolding r(1) l by auto
qed

text \<open>
  C18. Acknowledgments.  An acknowledgment with the address of the sender of a frame, the number of the frame, a clock drift and a flag is accepted by the
  sender (\<open>tsch_packet_parse_eack\<close>) and only there: a node with another address, waiting for another number or in another PAN refuses it.  The
  sender reads the flag, and the drift if it fits into twelve bits.
\<close>

theorem eack_accepted:
  assumes "unat buf_len \<le> length m" "17 \<le> unat buf_len" "linkaddr_ok a" "a \<noteq> linkaddr_null" "a \<noteq> replicate 8 0xff" "linkaddr_ok node" "struct_ok f0"
  shows "\<exists>attrs ack rest f i hl. tsch_packet_create_eack g fs m buf_len (Some a) seqno drift nack = Some (17, attrs, ack @ rest) \<and> length ack = 17
    \<and> tsch_packet_parse_eack pan node (ack @ post) 17 seqno' f0 i0 h0
        = Some (if seqno' = seqno \<and> node = a \<and> (mac_pan_id fs = pan \<or> mac_pan_id fs = 0xffff) then 17 else 0, f, i, hl)
    \<and> (seqno' = seqno \<and> node = a \<and> (mac_pan_id fs = pan \<or> mac_pan_id fs = 0xffff) \<longrightarrow> hl = 17 \<and> ie_is_nack i = (if nack = 0 then 0 else 1)
        \<and> (-2048 \<le> sint drift \<and> sint drift < 2048 \<longrightarrow> ie_time_correction i = drift))"
  by (rule eack_with_address [OF assms])

theorem eack_accepted_witness:
  "\<exists>attrs ack rest f i hl. tsch_packet_create_eack zero_frame framer_example (replicate 40 0) 40 (Some [1, 0, 0, 0, 0, 0, 0, 0]) 9 (-5) 0
      = Some (17, attrs, ack @ rest)
    \<and> tsch_packet_parse_eack 0xabcd [1, 0, 0, 0, 0, 0, 0, 0] (ack @ []) 17 9 zero_frame zero_ies 0 = Some (17, f, i, hl) \<and> ie_time_correction i = -5"
proof -
  let ?a = "[1, 0, 0, 0, 0, 0, 0, 0] :: linkaddr"
  have a: "unat (40 :: u16) \<le> length (replicate 40 (0 :: u8))" "17 \<le> unat (40 :: u16)" "linkaddr_ok ?a" "?a \<noteq> linkaddr_null" "?a \<noteq> replicate 8 0xff" "struct_ok zero_frame"
    using zero_frame_ok(2) by (simp_all add: linkaddr_ok_def LINKADDR_SIZE_def linkaddr_null_def) code_simp+
  have "sint (-5 :: u16) = -5"
    by code_simp
  moreover have "mac_pan_id framer_example = 0xabcd"
    by (simp add: framer_example_def)
  ultimately show ?thesis
    using eack_accepted [OF a(1-5) a(3,6), of zero_frame framer_example 9 "-5" 0 "0xabcd" "[]" 9 zero_ies 0] by (simp, blast)
qed

end
