(* ===== verification/Tsch_Timesync.thy ===== *)
theory Tsch_Timesync
  imports Tsch_Asn "HOL-Library.Signed_Division"
begin

text \<open>
  \<^verbatim>\<open>os/net/mac/tsch/tsch-adaptive-timesync.c\<close>: the node learns the drift of its clock against the time source and
  compensates for it before every slot.  A signed integer of 32 or 64 bits is an \<open>int\<close>, and an operation that leaves its range is \<open>None\<close>
  (\<open>chk_i32\<close>, \<open>chk_i64\<close>); conversions to a narrower type keep the low bits (\<open>to_i16\<close>, \<open>to_i32\<close>).  The one exception is the product
  \<^verbatim>\<open>amount * TSCH_DRIFT_UNIT\<close>: \<^verbatim>\<open>long\<close> has 32 bits, the product exceeds them already for nine microseconds, and it is
  taken modulo \<open>2 ^ 32\<close>, as the hardware computes it; the difference that is formed from it then still is right
  (\<open>compensation_exact\<close>).  The timer has 32768 ticks per second, a tick count has 16 bits.
\<close>

section \<open>Signed arithmetic\<close>

definition chk_i32 :: "int \<Rightarrow> int option" where
  "chk_i32 x = (if - (2 ^ 31) \<le> x \<and> x < 2 ^ 31 then Some x else None)"

definition chk_i64 :: "int \<Rightarrow> int option" where
  "chk_i64 x = (if - (2 ^ 63) \<le> x \<and> x < 2 ^ 63 then Some x else None)"

definition to_i16 :: "int \<Rightarrow> int" where "to_i16 x = signed_take_bit 15 x"
definition to_i32 :: "int \<Rightarrow> int" where "to_i32 x = signed_take_bit 31 x"

section \<open>Ticks and microseconds\<close>

text \<open>The macros of \<^verbatim>\<open>rtimer-arch.h\<close> of the MSP430.\<close>

definition US_TO_RTIMERTICKS :: "int \<Rightarrow> int option" where
  "US_TO_RTIMERTICKS us = (if 0 \<le> us
     then do { p \<leftarrow> chk_i32 (us * 32768); s \<leftarrow> chk_i32 (p + 500000); Some (s sdiv 1000000) }
     else do { p \<leftarrow> chk_i32 (us * 32768); s \<leftarrow> chk_i32 (p - 500000); Some (s sdiv 1000000) })"

definition RTIMERTICKS_TO_US :: "int \<Rightarrow> int option" where
  "RTIMERTICKS_TO_US t = (if 0 \<le> t
     then do { p \<leftarrow> chk_i32 (t * 1000000); s \<leftarrow> chk_i32 (p + 16384); Some (s sdiv 32768) }
     else do { p \<leftarrow> chk_i32 (t * 1000000); s \<leftarrow> chk_i32 (p - 16384); Some (s sdiv 32768) })"

definition RTIMERTICKS_TO_US_64 :: "u16 \<Rightarrow> u32" where
  "RTIMERTICKS_TO_US_64 t = word_of_int ((uint t * 1000000 + 16384) div 32768)"

section \<open>Learning the drift\<close>

record timesync =
  drift_ppm :: int
  compensated_ticks :: int
  timesync_entry_count :: nat
  asn_since_last_learning :: u32
  drift_buffer :: "int list"
  drift_pos :: nat
  drift_remainder :: int
  tick_conversion_error :: int
  last_timesource_neighbor :: ptr

definition TSCH_DRIFT_UNIT :: int where "TSCH_DRIFT_UNIT = 1000 * 1000 * 256"
definition NUM_TIMESYNC_ENTRIES :: nat where "NUM_TIMESYNC_ENTRIES = 8"
definition TSCH_SLOTS_PER_SECOND :: u32 where "TSCH_SLOTS_PER_SECOND = 40"

definition tsch_adaptive_timesync_get_drift_ppm :: "timesync \<Rightarrow> int" where
  "tsch_adaptive_timesync_get_drift_ppm T = drift_ppm T sdiv 256"

fun sum_entries :: "int list \<Rightarrow> nat list \<Rightarrow> int \<Rightarrow> int option" where
  "sum_entries buffer [] v = Some v"
| "sum_entries buffer (i # is) v = do { x \<leftarrow> rd buffer i; v \<leftarrow> chk_i32 (v + x); sum_entries buffer is v }"

text \<open>The second component tells whether the keep-alive timeout is raised to \<^verbatim>\<open>TSCH_MAX_KEEPALIVE_TIMEOUT\<close>.\<close>

definition timesync_entry_add :: "int \<Rightarrow> timesync \<Rightarrow> (int \<times> bool \<times> timesync) option" where
  "timesync_entry_add val T = do {
     let pos = (if timesync_entry_count T = 0 then 0 else drift_pos T);
     buffer \<leftarrow> wr (drift_buffer T) pos val;
     let (count, raise) = (if timesync_entry_count T < NUM_TIMESYNC_ENTRIES then (timesync_entry_count T + 1, False)
                           else (timesync_entry_count T, True));
     val \<leftarrow> sum_entries buffer [0 ..< count] 0;
     Some (val sdiv int count, raise,
       T\<lparr>timesync_entry_count := count, drift_buffer := buffer, drift_pos := (pos + 1) mod NUM_TIMESYNC_ENTRIES\<rparr>)
   }"

text \<open>\<open>slot\<close> is \<^verbatim>\<open>tsch_timing[tsch_ts_timeslot_length]\<close>.\<close>

definition timesync_learn_drift_ticks :: "u16 \<Rightarrow> u32 \<Rightarrow> int \<Rightarrow> timesync \<Rightarrow> (bool \<times> timesync) option" where
  "timesync_learn_drift_ticks slot time_delta_asn drift_ticks T = do {
     let time_delta_ticks = sint (time_delta_asn * ucast slot);
     real_drift_ticks \<leftarrow> chk_i32 (drift_ticks + compensated_ticks T);
     p \<leftarrow> chk_i64 (real_drift_ticks * TSCH_DRIFT_UNIT);
     q \<leftarrow> (if time_delta_ticks = 0 then None else chk_i64 (p sdiv time_delta_ticks));
     (d, raise, T) \<leftarrow> timesync_entry_add (to_i32 q) T;
     Some (raise, T\<lparr>drift_ppm := d\<rparr>)
   }"

definition tsch_timesync_update :: "u16 \<Rightarrow> ptr \<Rightarrow> u16 \<Rightarrow> int \<Rightarrow> timesync \<Rightarrow> (bool \<times> timesync) option" where
  "tsch_timesync_update slot n time_delta_asn drift_correction T =
     (if last_timesource_neighbor T \<noteq> n
      then Some (False, T\<lparr>last_timesource_neighbor := n, drift_ppm := 0, timesync_entry_count := 0, compensated_ticks := 0,
             asn_since_last_learning := 0\<rparr>)
      else do {
        let asn = asn_since_last_learning T + ucast time_delta_asn;
        let T = T\<lparr>asn_since_last_learning := asn\<rparr>;
        if 4 * TSCH_SLOTS_PER_SECOND \<le> asn then do {
          (raise, T) \<leftarrow> timesync_learn_drift_ticks slot asn drift_correction T;
          Some (raise, T\<lparr>compensated_ticks := 0, asn_since_last_learning := 0\<rparr>)
        } else do {
          c \<leftarrow> chk_i32 (compensated_ticks T + drift_correction);
          Some (False, T\<lparr>compensated_ticks := c\<rparr>)
        }
      })"

section \<open>Compensating the drift\<close>

text \<open>
  \<^verbatim>\<open>-RTIMER_ARCH_SECOND\<close> is a negated unsigned number of 16 bits.  The result is the number of ticks, the new remainder
  and the new conversion error.
\<close>

definition compensate_internal :: "u32 \<Rightarrow> int \<Rightarrow> int \<Rightarrow> int \<Rightarrow> (int \<times> int \<times> int) option" where
  "compensate_internal time_delta_usec drift remainder error = do {
     p \<leftarrow> chk_i64 (uint time_delta_usec * drift);
     d \<leftarrow> chk_i64 (p + remainder);
     let amount = to_i32 (d sdiv TSCH_DRIFT_UNIT);
     let remainder = to_i32 (d - to_i32 (amount * TSCH_DRIFT_UNIT));
     amount \<leftarrow> chk_i32 (amount + error);
     amount_ticks \<leftarrow> US_TO_RTIMERTICKS amount;
     us \<leftarrow> RTIMERTICKS_TO_US amount_ticks;
     let error = to_i16 (amount - us);
     let second = (32768 :: u16);
     let amount_ticks = (if uint (second div 128) < \<bar>amount_ticks\<bar>
           then uint ((if 0 < amount_ticks then second else - second) div 128) else amount_ticks);
     Some (amount_ticks, remainder, error)
   }"

text \<open>\<^verbatim>\<open>TSCH_BASE_DRIFT_PPM\<close> is 0.\<close>

definition tsch_timesync_adaptive_compensate :: "u16 \<Rightarrow> timesync \<Rightarrow> (int \<times> timesync) option" where
  "tsch_timesync_adaptive_compensate time_delta_ticks T =
     (if drift_ppm T \<noteq> 0 \<and> last_timesource_neighbor T \<noteq> None then do {
        (r, rem, err) \<leftarrow> compensate_internal (RTIMERTICKS_TO_US_64 time_delta_ticks) (drift_ppm T) (drift_remainder T) (tick_conversion_error T);
        c \<leftarrow> chk_i32 (compensated_ticks T + r);
        Some (r, T\<lparr>compensated_ticks := c, drift_remainder := rem, tick_conversion_error := err\<rparr>)
      } else Some (0, T))"

section \<open>Facts on signed arithmetic\<close>

lemma chk_i32: "- (2 ^ 31) \<le> x \<Longrightarrow> x < 2 ^ 31 \<Longrightarrow> chk_i32 x = Some x"
  and chk_i64: "- (2 ^ 63) \<le> x \<Longrightarrow> x < 2 ^ 63 \<Longrightarrow> chk_i64 x = Some x"
  by (simp_all add: chk_i32_def chk_i64_def)

lemma to_i_small: "- (2 ^ 31) \<le> x \<Longrightarrow> x < 2 ^ 31 \<Longrightarrow> to_i32 x = x" "- (2 ^ 15) \<le> x \<Longrightarrow> x < 2 ^ 15 \<Longrightarrow> to_i16 x = x"
  by (simp_all add: to_i32_def to_i16_def signed_take_bit_int_eq_self_iff)

lemma to_i32_diff: "to_i32 (x - to_i32 y) = to_i32 (x - y)"
proof -
  have "(x - ((y + 2 ^ 31) mod 2 ^ 32 - 2 ^ 31) + 2 ^ 31) mod 2 ^ 32 = ((x + 2 ^ 32) - (y + 2 ^ 31) mod 2 ^ 32) mod (2 ^ 32 :: int)"
    by (simp add: algebra_simps)
  also have "\<dots> = (x - y + 2 ^ 31) mod 2 ^ 32"
    by (simp add: mod_diff_right_eq algebra_simps)
  finally show ?thesis
    by (simp add: to_i32_def signed_take_bit_eq_take_bit_shift take_bit_eq_mod)
qed

lemma sdiv_signs:
  assumes "0 < (n :: int)"
  shows "0 \<le> s \<Longrightarrow> s sdiv n = s div n" "s < 0 \<Longrightarrow> s sdiv n = - ((- s) div n)"
  using assms by (simp_all add: signed_divide_int_def sgn_if)

lemma div_bounds:
  assumes "0 < (n :: int)"
  shows "x div n * n \<le> x" "x < x div n * n + n"
proof -
  have "x div n * n + x mod n = x" "0 \<le> x mod n" "x mod n < n"
    using assms by simp_all
  then show "x div n * n \<le> x" "x < x div n * n + n"
    by linarith+
qed

text \<open>A truncated quotient and its remainder.\<close>

lemma sdiv_bounds:
  assumes "0 < (n :: int)"
  shows "\<bar>s - s sdiv n * n\<bar> < n" "\<bar>s sdiv n\<bar> * n \<le> \<bar>s\<bar>"
proof -
  have q: "s sdiv n = (if 0 \<le> s then \<bar>s\<bar> div n else - (\<bar>s\<bar> div n))"
    using sdiv_signs [OF assms, of s] by auto
  define k where "k = \<bar>s\<bar> div n"
  have k: "k * n \<le> \<bar>s\<bar>" "\<bar>s\<bar> < k * n + n" "0 \<le> k"
    using div_bounds [OF assms, of "\<bar>s\<bar>"] assms by (simp_all add: k_def pos_imp_zdiv_nonneg_iff)
  show "\<bar>s - s sdiv n * n\<bar> < n" "\<bar>s sdiv n\<bar> * n \<le> \<bar>s\<bar>"
    using k unfolding q k_def [symmetric] by auto
qed

text \<open>Both conversions round to the nearest value.\<close>

lemma us_to_ticks:
  assumes "\<bar>us\<bar> \<le> 60000"
  obtains t where "US_TO_RTIMERTICKS us = Some t" "\<bar>t * 1000000 - us * 32768\<bar> \<le> 500000"
proof -
  define s where "s = (if 0 \<le> us then us * 32768 + 500000 else us * 32768 - 500000)"
  have r: "\<bar>us * 32768\<bar> \<le> 60000 * 32768"
    using assms by (simp add: abs_if split: if_splits)
  have "US_TO_RTIMERTICKS us = Some (s sdiv 1000000)"
    using r by (simp add: US_TO_RTIMERTICKS_def s_def chk_i32_def abs_if split: if_splits)
  moreover have "\<bar>s sdiv 1000000 * 1000000 - us * 32768\<bar> \<le> 500000"
  proof (cases "0 \<le> us")
    case True
    then have "s sdiv 1000000 = (us * 32768 + 500000) div 1000000"
      by (simp add: s_def sdiv_signs)
    then show ?thesis
      using div_bounds [of 1000000 "us * 32768 + 500000"] by (simp only: abs_if split: if_split) linarith
  next
    case False
    then have "s sdiv 1000000 = - ((- (us * 32768) + 500000) div 1000000)"
      by (simp add: s_def sdiv_signs)
    then show ?thesis
      using div_bounds [of 1000000 "- (us * 32768) + 500000"] by (simp only: abs_if split: if_split) linarith
  qed
  ultimately show ?thesis
    using that by blast
qed

lemma ticks_to_us:
  assumes "\<bar>t\<bar> \<le> 2000"
  obtains us where "RTIMERTICKS_TO_US t = Some us" "\<bar>us * 32768 - t * 1000000\<bar> \<le> 16384"
proof -
  define s where "s = (if 0 \<le> t then t * 1000000 + 16384 else t * 1000000 - 16384)"
  have r: "\<bar>t * 1000000\<bar> \<le> 2000 * 1000000"
    using assms by (simp add: abs_if split: if_splits)
  have "RTIMERTICKS_TO_US t = Some (s sdiv 32768)"
    using r by (simp add: RTIMERTICKS_TO_US_def s_def chk_i32_def abs_if split: if_splits)
  moreover have "\<bar>s sdiv 32768 * 32768 - t * 1000000\<bar> \<le> 16384"
  proof (cases "0 \<le> t")
    case True
    then have "s sdiv 32768 = (t * 1000000 + 16384) div 32768"
      by (simp add: s_def sdiv_signs)
    then show ?thesis
      using div_bounds [of 32768 "t * 1000000 + 16384"] by (simp only: abs_if split: if_split) linarith
  next
    case False
    then have "s sdiv 32768 = - ((- (t * 1000000) + 16384) div 32768)"
      by (simp add: s_def sdiv_signs)
    then show ?thesis
      using div_bounds [of 32768 "- (t * 1000000) + 16384"] by (simp only: abs_if split: if_split) linarith
  qed
  ultimately show ?thesis
    using that by blast
qed

section \<open>The estimate of the drift\<close>

text \<open>
  The drift that is learned is the mean of the last entries.  The bounds: with a slot of 819 ticks, at least 160 slots between
  two estimates, and at most 60000 ticks compensated since the last one, an estimate is below \<open>2 ^ 27\<close>, so the sum
  of eight does not overflow.
\<close>

definition ts_ok :: "timesync \<Rightarrow> bool" where
  "ts_ok T \<longleftrightarrow> length (drift_buffer T) = NUM_TIMESYNC_ENTRIES \<and> timesync_entry_count T \<le> NUM_TIMESYNC_ENTRIES
     \<and> drift_pos T < NUM_TIMESYNC_ENTRIES \<and> (\<forall>x \<in> set (drift_buffer T). \<bar>x\<bar> \<le> 2 ^ 27) \<and> unat (asn_since_last_learning T) < 160"

lemma sum_entries:
  assumes "\<forall>i \<in> set is. i < length buf \<and> \<bar>buf ! i\<bar> \<le> 2 ^ 27" "\<bar>v\<bar> + int (length is) * 2 ^ 27 < 2 ^ 31"
  shows "sum_entries buf is v = Some (v + (\<Sum>i \<leftarrow> is. buf ! i))"
  using assms
proof (induction "is" arbitrary: v)
  case (Cons i "is")
  have i: "i < length buf" "\<bar>buf ! i\<bar> \<le> 2 ^ 27"
    using Cons.prems(1) by simp_all
  then have b: "\<bar>v + buf ! i\<bar> + int (length is) * 2 ^ 27 < 2 ^ 31"
    using Cons.prems(2) by (simp add: abs_if split: if_splits)
  then have c: "chk_i32 (v + buf ! i) = Some (v + buf ! i)"
    by (intro chk_i32) (auto simp: abs_if split: if_splits)
  from b Cons show ?case
    by (simp add: rd_in [OF i(1)] c)
qed simp

lemma entry_add:
  assumes "ts_ok T" "\<bar>val\<bar> \<le> 2 ^ 27"
  obtains d raise T' where "timesync_entry_add val T = Some (d, raise, T')" "ts_ok T'" "drift_buffer T' = (drift_buffer T)
      [(if timesync_entry_count T = 0 then 0 else drift_pos T) := val]" "d = (\<Sum>i \<leftarrow> [0 ..< timesync_entry_count T']. drift_buffer T' ! i)
      sdiv int (timesync_entry_count T')" "timesync_entry_count T' = min NUM_TIMESYNC_ENTRIES (timesync_entry_count T + 1)"
proof -
  note ok = assms(1) [unfolded ts_ok_def NUM_TIMESYNC_ENTRIES_def]
  define pos where "pos = (if timesync_entry_count T = 0 then 0 else drift_pos T)"
  define buf where "buf = (drift_buffer T)[pos := val]"
  define c where "c = min 8 (timesync_entry_count T + 1)"
  have pos: "pos < length (drift_buffer T)"
    using ok by (simp add: pos_def)
  have buf: "wr (drift_buffer T) pos val = Some buf" "length buf = 8" "\<forall>x \<in> set buf. \<bar>x\<bar> \<le> 2 ^ 27"
    using pos ok assms(2) set_update_subset_insert [of "drift_buffer T" pos val] by (auto simp: wr_in buf_def)
  have "\<forall>i \<in> set [0 ..< c]. i < length buf \<and> \<bar>buf ! i\<bar> \<le> 2 ^ 27"
    using buf(2,3) nth_mem [of _ buf] by (simp add: c_def)
  then have s: "sum_entries buf [0 ..< c] 0 = Some (\<Sum>i \<leftarrow> [0 ..< c]. buf ! i)"
    by (subst sum_entries) (simp_all add: c_def)
  define T' where "T' = T\<lparr>timesync_entry_count := c, drift_buffer := buf, drift_pos := (pos + 1) mod 8\<rparr>"
  have "timesync_entry_add val T = Some ((\<Sum>i \<leftarrow> [0 ..< c]. buf ! i) sdiv int c, \<not> timesync_entry_count T < 8, T')"
  proof (cases "timesync_entry_count T < 8")
    case True
    then have "timesync_entry_count T + 1 = c"
      by (simp add: c_def)
    then show ?thesis
      using True buf(1) s by (simp add: timesync_entry_add_def T'_def NUM_TIMESYNC_ENTRIES_def flip: pos_def)
  next
    case False
    then have "timesync_entry_count T = c" "drift_pos T = pos"
      using ok by (simp_all add: c_def pos_def)
    then show ?thesis
      using False buf(1) s by (simp add: timesync_entry_add_def T'_def NUM_TIMESYNC_ENTRIES_def)
  qed
  moreover have "ts_ok T'"
    using ok buf by (simp add: ts_ok_def T'_def NUM_TIMESYNC_ENTRIES_def c_def)
  ultimately show ?thesis
    by (rule that) (simp_all add: T'_def buf_def pos_def c_def NUM_TIMESYNC_ENTRIES_def)
qed

lemma timesync_update_total:
  assumes ok: "ts_ok T" and d: "\<bar>drift\<bar> \<le> 2147" and c: "\<bar>compensated_ticks T\<bar> \<le> 60000"
  obtains raise T' where "tsch_timesync_update 819 n delta drift T = Some (raise, T')" "ts_ok T'" "last_timesource_neighbor T' = n"
    "compensated_ticks T' = 0 \<or> compensated_ticks T' = compensated_ticks T + drift"
proof (cases "last_timesource_neighbor T = n")
  case False
  then show ?thesis
    using ok by (intro that [of False "T\<lparr>last_timesource_neighbor := n, drift_ppm := 0, timesync_entry_count := 0,
      compensated_ticks := 0, asn_since_last_learning := 0\<rparr>"]) (simp_all add: tsch_timesync_update_def ts_ok_def)
next
  case True
  define asn where "asn = asn_since_last_learning T + ucast delta"
  have ub: "unat asn = unat (asn_since_last_learning T) + unat delta" "unat delta < 65536"
  proof -
    show "unat delta < 65536"
      by (rule unat_u16_less)
    moreover have "unat (asn_since_last_learning T) < 160"
      using ok by (simp add: ts_ok_def)
    ultimately have "unat (asn_since_last_learning T) + unat delta < 65536 + 160"
      by linarith
    then show "unat asn = unat (asn_since_last_learning T) + unat delta"
      unfolding asn_def by (subst unat_add_lem [THEN iffD1]) (auto elim: less_trans)
  qed
  show ?thesis
  proof (cases "4 * TSCH_SLOTS_PER_SECOND \<le> asn")
    case False
    then have "unat asn < 160"
      by (simp add: TSCH_SLOTS_PER_SECOND_def word_le_nat_alt)
    moreover have "chk_i32 (compensated_ticks T + drift) = Some (compensated_ticks T + drift)"
      using c d by (intro chk_i32) (auto simp: abs_if split: if_splits)
    ultimately show ?thesis
      using True False ok
      by (intro that [of False "T\<lparr>asn_since_last_learning := asn, compensated_ticks := compensated_ticks T + drift\<rparr>"])
        (simp_all add: tsch_timesync_update_def ts_ok_def flip: asn_def)
  next
    case learn: True
    then have lo: "160 \<le> unat asn" "unat asn < 65696"
    proof -
      have "unat (asn_since_last_learning T) < 160"
        using ok by (simp add: ts_ok_def)
      with ub show "unat asn < 65696"
        by linarith
      show "160 \<le> unat asn"
        using learn by (simp add: TSCH_SLOTS_PER_SECOND_def word_le_nat_alt)
    qed
    have "unat (asn * ucast (819 :: u16)) = unat asn * 819"
      using lo by (subst unat_mult_lem [THEN iffD1]) simp_all
    then have tk: "sint (asn * ucast (819 :: u16)) = int (unat asn * 819)"
      using lo by (simp add: sint_uint uint_nat signed_take_bit_int_eq_self del: of_nat_unat)
    define ticks where "ticks = int (unat asn * 819)"
    have ticks: "131040 \<le> ticks"
      using lo by (simp add: ticks_def del: of_nat_unat)
    define real where "real = drift + compensated_ticks T"
    have real: "\<bar>real\<bar> \<le> 62147"
      using c d by (simp add: real_def)
    define q where "q = (real * TSCH_DRIFT_UNIT) sdiv ticks"
    have "\<bar>q\<bar> * ticks \<le> \<bar>real\<bar> * 256000000"
      using sdiv_bounds(2) [of ticks "real * TSCH_DRIFT_UNIT"] ticks by (simp add: q_def TSCH_DRIFT_UNIT_def abs_mult)
    moreover have "\<bar>q\<bar> * 131040 \<le> \<bar>q\<bar> * ticks"
      using ticks by (intro mult_left_mono) simp_all
    ultimately have "\<bar>q\<bar> * 131040 \<le> 62147 * 256000000"
      using real by linarith
    then have qb: "\<bar>q\<bar> \<le> 2 ^ 27"
      by simp
    define T1 where "T1 = T\<lparr>asn_since_last_learning := asn\<rparr>"
    have "ts_ok (T\<lparr>asn_since_last_learning := 0\<rparr>)"
      using ok by (simp add: ts_ok_def)
    then obtain d' raise T' where e: "timesync_entry_add q (T\<lparr>asn_since_last_learning := 0\<rparr>) = Some (d', raise, T')" "ts_ok T'"
      using entry_add [OF _ qb] by metis
    have shift: "timesync_entry_add q T1 = Some (d', raise, T'\<lparr>asn_since_last_learning := asn\<rparr>)"
      using e(1) by (auto simp: timesync_entry_add_def T1_def bind_eq_Some Let_def split: prod.splits if_splits)
    have keep: "last_timesource_neighbor T' = n"
      using e(1) True by (auto simp: timesync_entry_add_def bind_eq_Some Let_def split: prod.splits if_splits)
    have a: "chk_i32 real = Some real" "chk_i64 (real * TSCH_DRIFT_UNIT) = Some (real * TSCH_DRIFT_UNIT)" "chk_i64 q = Some q" "to_i32 q = q"
      using real qb by (auto simp: TSCH_DRIFT_UNIT_def abs_if split: if_splits intro!: chk_i32 chk_i64 to_i_small)
    have "timesync_learn_drift_ticks 819 asn drift T1 = Some (raise, T'\<lparr>asn_since_last_learning := asn, drift_ppm := d'\<rparr>)"
      using a shift ticks unfolding timesync_learn_drift_ticks_def tk ticks_def [symmetric] Let_def
      by (simp add: T1_def flip: real_def q_def)
    then have "tsch_timesync_update 819 n delta drift T
        = Some (raise, T'\<lparr>asn_since_last_learning := 0, drift_ppm := d', compensated_ticks := 0\<rparr>)"
      using True learn by (simp add: tsch_timesync_update_def T1_def flip: asn_def)
    then show ?thesis
      by (rule that) (use e(2) keep in \<open>simp_all add: ts_ok_def\<close>)
  qed
qed

section \<open>No error accumulates\<close>

lemma usec_bound: "uint (RTIMERTICKS_TO_US_64 t) = (uint t * 1000000 + 16384) div 32768" "uint (RTIMERTICKS_TO_US_64 t) \<le> 2000000"
proof -
  have "uint t < 65536"
    using unsigned_less [of t, where 'a=int] by simp
  moreover have "0 \<le> uint t"
    by simp
  ultimately have b: "(uint t * 1000000 + 16384) div 32768 \<le> 2000000" "0 \<le> (uint t * 1000000 + 16384) div 32768"
    by (simp_all add: pos_imp_zdiv_nonneg_iff)
  then show e: "uint (RTIMERTICKS_TO_US_64 t) = (uint t * 1000000 + 16384) div 32768"
    unfolding RTIMERTICKS_TO_US_64_def by (simp only: uint_word_of_int) (simp add: take_bit_int_eq_self)
  show "uint (RTIMERTICKS_TO_US_64 t) \<le> 2000000"
    unfolding e by (rule b)
qed

text \<open>The state between two compensations.\<close>

definition comp_ok :: "int \<Rightarrow> int \<Rightarrow> int \<Rightarrow> bool" where
  "comp_ok drift rem err \<longleftrightarrow> \<bar>drift\<bar> \<le> 2 ^ 19 \<and> \<bar>rem\<bar> < TSCH_DRIFT_UNIT \<and> \<bar>err\<bar> \<le> 16"

definition comp_us :: "int \<Rightarrow> int" where
  "comp_us r = the (RTIMERTICKS_TO_US r)"

lemma compensate_step:
  assumes "comp_ok drift rem err" "uint usec \<le> 2000000"
  obtains r rem' err' where "compensate_internal usec drift rem err = Some (r, rem', err')" "comp_ok drift rem' err'"
    "(comp_us r + err') * TSCH_DRIFT_UNIT + rem' = uint usec * drift + err * TSCH_DRIFT_UNIT + rem" "\<bar>r\<bar> \<le> 135"
proof -
  note U = TSCH_DRIFT_UNIT_def
  have u: "0 \<le> uint usec"
    by simp
  have ok: "\<bar>drift\<bar> \<le> 524288" "\<bar>rem\<bar> < TSCH_DRIFT_UNIT" "\<bar>err\<bar> \<le> 16"
    using assms(1) by (simp_all add: comp_ok_def)
  define p where "p = uint usec * drift"
  have "\<bar>p\<bar> = uint usec * \<bar>drift\<bar>"
    using u by (simp add: p_def abs_mult)
  also have "\<dots> \<le> 2000000 * 524288"
    by (rule mult_mono [OF assms(2) ok(1)]) simp_all
  finally have pb: "\<bar>p\<bar> \<le> 1048576000000"
    by simp
  define d where "d = p + rem"
  have db: "\<bar>d\<bar> \<le> 1048832000000"
    using pb ok(2) by (simp add: d_def U)
  define a where "a = d sdiv TSCH_DRIFT_UNIT"
  have a: "\<bar>d - a * TSCH_DRIFT_UNIT\<bar> < TSCH_DRIFT_UNIT" "\<bar>a\<bar> * TSCH_DRIFT_UNIT \<le> \<bar>d\<bar>"
    using sdiv_bounds [of TSCH_DRIFT_UNIT d] by (simp_all add: a_def U)
  then have ab: "\<bar>a\<bar> \<le> 4097"
    using db by (simp add: U)
  define rem' where "rem' = d - a * TSCH_DRIFT_UNIT"
  have rem': "to_i32 (d - to_i32 (a * TSCH_DRIFT_UNIT)) = rem'"
    using a(1) by (simp add: to_i32_diff rem'_def U) (rule to_i_small; simp add: abs_if split: if_splits)
  have b: "\<bar>a + err\<bar> \<le> 4113"
    using ab ok(3) by linarith
  obtain t where t: "US_TO_RTIMERTICKS (a + err) = Some t" "\<bar>t * 1000000 - (a + err) * 32768\<bar> \<le> 500000"
    using us_to_ticks [of "a + err"] b by auto
  have "t * 1000000 < 136 * 1000000" "- 136 * 1000000 < t * 1000000"
    using t(2) b by (auto simp: abs_le_iff)
  then have tb: "\<bar>t\<bar> \<le> 135"
    by simp
  obtain us where us: "RTIMERTICKS_TO_US t = Some us" "\<bar>us * 32768 - t * 1000000\<bar> \<le> 16384"
    using ticks_to_us [of t] tb by auto
  have "(a + err - us) * 32768 < 17 * 32768" "- 17 * 32768 < (a + err - us) * 32768"
    using t(2) us(2) by (auto simp: abs_le_iff algebra_simps)
  then have e: "\<bar>a + err - us\<bar> \<le> 16"
    by simp
  have s: "to_i32 a = a" "to_i16 (a + err - us) = a + err - us"
    using ab e by (simp_all add: to_i_small)
  have c: "chk_i64 (uint usec * drift) = Some p" "chk_i64 (p + rem) = Some d" "chk_i32 (a + err) = Some (a + err)"
    using pb db b by (simp_all add: chk_i64 chk_i32 d_def flip: p_def)
  have "compensate_internal usec drift rem err = Some (t, rem', a + err - us)"
    using tb by (simp add: compensate_internal_def c s rem' t(1) us(1) flip: a_def)
  moreover have "comp_ok drift rem' (a + err - us)"
    using ok(1) a(1) e by (simp add: comp_ok_def rem'_def)
  moreover have "(comp_us t + (a + err - us)) * TSCH_DRIFT_UNIT + rem' = uint usec * drift + err * TSCH_DRIFT_UNIT + rem"
    by (simp add: comp_us_def us(1) rem'_def d_def p_def algebra_simps)
  ultimately show ?thesis
    using that tb by blast
qed

text \<open>The compensations before a sequence of wake-ups, \<open>ts\<close> ticks apart.\<close>

fun compensate_all :: "u16 list \<Rightarrow> timesync \<Rightarrow> (int list \<times> timesync) option" where
  "compensate_all [] T = Some ([], T)"
| "compensate_all (t # ts) T = do {
     (r, T) \<leftarrow> tsch_timesync_adaptive_compensate t T;
     (rs, T) \<leftarrow> compensate_all ts T;
     Some (r # rs, T)
   }"

lemma compensate_all_spec:
  assumes "comp_ok (drift_ppm T) (drift_remainder T) (tick_conversion_error T)" "drift_ppm T \<noteq> 0" "last_timesource_neighbor T \<noteq> None"
    and "\<bar>compensated_ticks T\<bar> + 135 * int (length ts) < 2 ^ 31"
  shows "\<exists>rs T'. compensate_all ts T = Some (rs, T') \<and> length rs = length ts
    \<and> compensated_ticks T' = compensated_ticks T + sum_list rs \<and> comp_ok (drift_ppm T) (drift_remainder T') (tick_conversion_error T')
    \<and> (sum_list (map comp_us rs) + tick_conversion_error T') * TSCH_DRIFT_UNIT + drift_remainder T'
      = sum_list (map (\<lambda>t. uint (RTIMERTICKS_TO_US_64 t)) ts) * drift_ppm T + tick_conversion_error T * TSCH_DRIFT_UNIT + drift_remainder T"
  using assms
proof (induction ts arbitrary: T)
  case (Cons t ts)
  obtain r rem' err' where step: "compensate_internal (RTIMERTICKS_TO_US_64 t) (drift_ppm T) (drift_remainder T) (tick_conversion_error T)
        = Some (r, rem', err')" "comp_ok (drift_ppm T) rem' err'"
    "(comp_us r + err') * TSCH_DRIFT_UNIT + rem' = uint (RTIMERTICKS_TO_US_64 t) * drift_ppm T + tick_conversion_error T * TSCH_DRIFT_UNIT
       + drift_remainder T" "\<bar>r\<bar> \<le> 135"
    by (rule compensate_step [OF Cons.prems(1) usec_bound(2)])
  define T1 where "T1 = T\<lparr>compensated_ticks := compensated_ticks T + r, drift_remainder := rem', tick_conversion_error := err'\<rparr>"
  have T1: "drift_ppm T1 = drift_ppm T" "drift_remainder T1 = rem'" "tick_conversion_error T1 = err'" "compensated_ticks T1 = compensated_ticks T + r"
    "last_timesource_neighbor T1 = last_timesource_neighbor T"
    by (simp_all add: T1_def)
  have b: "\<bar>compensated_ticks T + r\<bar> + 135 * int (length ts) < 2 ^ 31"
    using Cons.prems(4) step(4) by simp
  then have "tsch_timesync_adaptive_compensate t T = Some (r, T1)"
    using Cons.prems(2,3) step(1) by (simp add: tsch_timesync_adaptive_compensate_def T1_def chk_i32)
  moreover obtain rs T' where "compensate_all ts T1 = Some (rs, T')" "length rs = length ts"
    "compensated_ticks T' = compensated_ticks T1 + sum_list rs" "comp_ok (drift_ppm T) (drift_remainder T') (tick_conversion_error T')"
    "(sum_list (map comp_us rs) + tick_conversion_error T') * TSCH_DRIFT_UNIT + drift_remainder T'
      = sum_list (map (\<lambda>t. uint (RTIMERTICKS_TO_US_64 t)) ts) * drift_ppm T + err' * TSCH_DRIFT_UNIT + rem'"
    using Cons.IH [of T1] Cons.prems(2,3) step(2) b by (auto simp: T1)
  ultimately show ?case
    using step(3) by (simp add: T1 algebra_simps)
qed simp

text \<open>
  The bound on the compensation of one step has the wrong sign for a clock that is fast: the negated number of ticks
  per second is an unsigned number.
\<close>

lemma clamp_changes_sign: "compensate_internal 2000000 (- (2 ^ 21)) 0 0 = Some (256, 0, 4)"
  by code_simp


definition timesync_initial :: timesync where
  "timesync_initial = \<lparr>drift_ppm = 0, compensated_ticks = 0, timesync_entry_count = 0, asn_since_last_learning = 0,
     drift_buffer = replicate NUM_TIMESYNC_ENTRIES 0, drift_pos = 0, drift_remainder = 0, tick_conversion_error = 0,
     last_timesource_neighbor = None\<rparr>"


end
