(* ===== verification/Tsch_Time_Source.thy ===== *)
theory Tsch_Time_Source
  imports Tsch_Queue_Spec
begin

text \<open>
  The time source: the neighbor whose frames the node synchronises with (\<^verbatim>\<open>tsch_queue_update_time_source\<close>).  There is at
  most one (\<open>one_source\<close>), and after an update with an address it is the neighbor with that address.
\<close>

definition one_source :: "tsch_queue \<Rightarrow> bool" where
  "one_source q \<longleftrightarrow> (\<forall>i \<in> set (neighbor_list q). \<forall>j \<in> set (neighbor_list q).
     is_time_source (nbrs q ! i) \<and> is_time_source (nbrs q ! j) \<longrightarrow> i = j)"

lemma get_time_source:
  assumes "tq_inv nn np q" "\<not> locked q" "one_source q"
  obtains (source) i where "tsch_queue_get_time_source q = Some (Some i)" "i \<in> set (neighbor_list q)" "is_time_source (nbrs q ! i)"
  | (no_source) "tsch_queue_get_time_source q = Some None" "\<forall>i \<in> set (neighbor_list q). \<not> is_time_source (nbrs q ! i)"
proof -
  have "\<forall>i \<in> set (neighbor_list q). i < length (nbrs q)"
    using tq_live_less [OF assms(1)] tq_list_live [OF assms(1)] by blast
  then have "tsch_queue_get_time_source q = Some (find (\<lambda>i. is_time_source (nbrs q ! i)) (neighbor_list q))"
    using assms(2) by (simp add: tsch_queue_get_time_source_def tsch_is_locked_def find_rd_find)
  then show ?thesis
    using that by (cases "find (\<lambda>i. is_time_source (nbrs q ! i)) (neighbor_list q)")
      (auto simp: find_None_iff find_Some_iff)
qed

lemma get_time_source_eq:
  assumes "tq_inv nn np q" "\<not> locked q" "one_source q" "i \<in> set (neighbor_list q)" "is_time_source (nbrs q ! i)"
  shows "tsch_queue_get_time_source q = Some (Some i)"
  using assms(1-3)
proof (cases rule: get_time_source)
  case (source j)
  then show ?thesis
    using assms(3-5) by (auto simp: one_source_def)
next
  case no_source
  then show ?thesis
    using assms(4,5) by blast
qed

definition mark_source :: "bool \<Rightarrow> tsch_neighbor \<Rightarrow> tsch_neighbor" where
  "mark_source s n = n\<lparr>is_time_source := s\<rparr>"

lemma mark_source: "keeps_queue (mark_source s)" "is_time_source (mark_source s n) = s" "naddr (mark_source s n) = naddr n"
  "nqueue (mark_source s n) = nqueue n" "is_broadcast (mark_source s n) = is_broadcast n"
  by (simp_all add: keeps_queue_def mark_source_def nbr_ok_def nqueue_def)

lemma tq_inv_ka_timeout [simp]: "tq_inv nn np (q\<lparr>ka_timeout := t\<rparr>) = tq_inv nn np q"
  by (simp add: tq_defs)

text \<open>The queues after the neighbor \<open>i\<close> has become the time source.\<close>

definition with_source :: "nat \<Rightarrow> tsch_queue \<Rightarrow> tsch_queue \<Rightarrow> bool" where
  "with_source i q q' \<longleftrightarrow> tsch_queue_get_time_source q' = Some (Some i) \<and> one_source q' \<and> \<not> locked q' \<and> neighbor_list q' = neighbor_list q
     \<and> (\<forall>k. naddr (nbrs q' ! k) = naddr (nbrs q ! k) \<and> nqueue (nbrs q' ! k) = nqueue (nbrs q ! k) \<and> is_broadcast (nbrs q' ! k) = is_broadcast (nbrs q ! k))
     \<and> pkts q' = pkts q \<and> qbufs q' = qbufs q \<and> packet_memb q' = packet_memb q \<and> is_coordinator q' = is_coordinator q
     \<and> n_eb q' = n_eb q \<and> n_broadcast q' = n_broadcast q"

lemma update_source_found:
  assumes inv: "tq_inv nn np q" and unl: "\<not> locked q" and one: "one_source q" and c: "\<not> is_coordinator q"
    and i: "i \<in> set (neighbor_list q)" and a: "naddr (nbrs q ! i) = a" and ok: "linkaddr_ok a"
  shows "\<exists>q'. tsch_queue_update_time_source ka q (Some a) = Some (1, q') \<and> tq_inv nn np q' \<and> with_source i q q'
    \<and> (tsch_queue_get_time_source q = Some (Some i) \<and> q' = q \<or> tsch_queue_get_time_source q \<noteq> Some (Some i) \<and> ka_timeout q' = ka)"
proof -
  have il: "i \<in> nbr_live q" and lt: "i < length (nbrs q)"
    using tq_list_live [OF inv i] tq_live_less [OF inv] by auto
  have add: "tsch_queue_add_nbr q a = Some (Some i, q)"
    using inv unl ok
  proof (cases rule: add_nbr_spec)
    case (found j)
    then have "j = i"
      using tq_inj_addr [OF inv found(2) i] a by simp
    with found show ?thesis
      by simp
  qed (use i a in auto)
  obtain old where old: "tsch_queue_get_time_source q = Some old"
    "old = Some i \<or> old \<noteq> Some i \<and> (\<forall>k \<in> set (neighbor_list q). is_time_source (nbrs q ! k) \<longrightarrow> old = Some k)"
    "\<forall>k. old = Some k \<longrightarrow> k \<in> set (neighbor_list q) \<and> is_time_source (nbrs q ! k)"
    using inv unl one
  proof (cases rule: get_time_source)
    case (source j)
    with one that show ?thesis
      by (auto simp: one_source_def)
  next
    case no_source
    with that show ?thesis
      by auto
  qed
  show ?thesis
  proof (cases "old = Some i")
    case True
    with add old one unl c inv show ?thesis
      by (intro exI [of _ q]) (simp add: tsch_queue_update_time_source_def tsch_is_locked_def with_source_def)
  next
    case False
    define q1 where "q1 = q\<lparr>nbrs := (nbrs q)[i := mark_source True (nbrs q ! i)]\<rparr>"
    have q1: "upd_nbr q i (mark_source True) = Some q1" "tq_inv nn np q1"
      using upd_nbr_spec [OF inv il mark_source(1)] by (simp_all add: q1_def)
    define q2 where "q2 = q1\<lparr>ka_timeout := ka\<rparr>"
    have q2: "tq_inv nn np q2"
      using q1(2) by (simp add: q2_def)
    define q3 where "q3 = (case old of None \<Rightarrow> q2 | Some k \<Rightarrow> q2\<lparr>nbrs := (nbrs q2)[k := mark_source False (nbrs q2 ! k)]\<rparr>)"
    have old_live: "k \<in> nbr_live q2" if "old = Some k" for k
      using old(3) that tq_list_live [OF inv] by (auto simp: q2_def q1_def)
    have q3: "(case old of None \<Rightarrow> Some q2 | Some k \<Rightarrow> upd_nbr q2 k (mark_source False)) = Some q3" "tq_inv nn np q3"
      using upd_nbr_spec [OF q2 old_live mark_source(1), of _ False] q2 by (auto simp: q3_def split: option.split)
    have at: "nbrs q3 ! k = (if k = i then mark_source True (nbrs q ! k) else if old = Some k then mark_source False (nbrs q ! k) else nbrs q ! k)" for k
      using False lt old(3) tq_live_less [OF inv tq_list_live [OF inv]]
      by (cases old) (auto simp: q3_def q2_def q1_def nth_list_update)
    have same: "neighbor_list q3 = neighbor_list q" "locked q3 = locked q" "pkts q3 = pkts q" "qbufs q3 = qbufs q" "packet_memb q3 = packet_memb q"
      "is_coordinator q3 = is_coordinator q" "n_eb q3 = n_eb q" "n_broadcast q3 = n_broadcast q" "ka_timeout q3 = ka"
      by (simp_all add: q3_def q2_def q1_def split: option.split)
    have "tsch_queue_update_time_source ka q (Some a) = Some (1, q3)"
      using False unl c add old(1) q1(1) q3(1)
      by (cases old) (simp_all add: tsch_queue_update_time_source_def tsch_is_locked_def q2_def mark_source_def [abs_def])
    moreover have one3: "one_source q3"
      using False old(2) by (auto simp: one_source_def same at mark_source)
    moreover have "tsch_queue_get_time_source q3 = Some (Some i)"
      by (rule get_time_source_eq [OF q3(2) _ one3]) (use unl i same at mark_source in auto)
    ultimately show ?thesis
      using False unl old(1) q3(2) by (intro exI [of _ q3]) (simp add: with_source_def same at mark_source)
  qed
qed

end
