(* ===== verification/Tsch_Node.thy ===== *)
theory Tsch_Node
  imports Master_Packets Tsch_Packet_Spec Tsch_Timesync Tsch_Time_Source
begin

text \<open>
  The node: the layers above put together with the rest of the state of \<^verbatim>\<open>tsch.c\<close> and \<^verbatim>\<open>tsch-slot-operation.c\<close>, and
  the functions of \<^verbatim>\<open>tsch.c\<close> that work on it: the keep-alive messages, the choice of the time source, the two rings
  between the slot interrupt and the processes, starting as coordinator, association with a received beacon, sending
  beacons, initialisation and the main process.

  The random numbers are the sequence \<open>rand_seq\<close>; \<open>rand_pos\<close> counts the calls of \<^verbatim>\<open>random_rand\<close>.  A timer is its remaining time, or \<open>None\<close> if
  it is not set.  What the radio and the clocks return are arguments.  \<open>garbage\<close> is what uninitialised local variables
  hold.  \<open>sent_frames\<close> is the log of the frames the radio has sent.  The configuration is that of the application: addresses of 8 bytes, no link-layer security, the schedule of a beacon is
  used (\<^verbatim>\<open>TSCH_INIT_SCHEDULE_FROM_EB\<close>), the time source is not selected automatically, no minimal schedule, no 6top, no RPL.  The
  callbacks of packets that are flushed from a queue are only logged.  Printing, log messages, LEDs and link statistics are left out.
\<close>

section \<open>State\<close>

record input_packet =
  in_payload :: "u8 list"
  in_rx_asn :: asn
  in_len :: int
  in_rssi :: u16
  in_channel :: u8

record tsch_node =
  net :: master_routing
  input_ringbuf :: ringbufindex
  input_array :: "input_packet list"
  dequeued_ringbuf :: ringbufindex
  dequeued_array :: "ptr list"
  last_eb_nbr_addr :: linkaddr
  last_eb_nbr_jp :: u8
  tsch_join_priority :: u8
  sequence_number :: u16
  tsch_hopping_sequence :: "u8 list"
  tsch_hopping_sequence_length :: asn_divisor
  tsch_timing :: "u16 list"
  tsch_association_count :: int
  tsch_is_pan_secured :: bool
  keepalive_timer :: "u32 option"
  eb_timer :: u32
  tx_count :: u32
  rx_count :: u32
  sync_count :: u32
  scan_channel :: u8
  current_channel_since :: u32
  last_sync_asn :: asn
  last_sync_time :: u32
  drift_correction :: int
  is_drift_correction_used :: bool
  timesync :: timesync
  current_slot_start :: u16
  next_wakeup :: u16
  lock_requested :: bool
  in_slot_operation :: bool
  current_channel :: u8
  backup_link :: ptr
  current_packet :: ptr
  current_neighbor :: ptr
  actual_current_neighbor :: ptr
  last_tx_status :: mac_tx_status
  rx_addresses :: "linkaddr \<times> linkaddr"
  sent_frames :: "u8 list list"
  events_polled :: bool
  process_polled :: bool
  rand_seq :: "nat \<Rightarrow> u16"
  rand_pos :: nat

record garbage =
  g_frame :: frame802154
  g_ies :: ieee802154_ies
  g_bytes :: "u8 list"

definition TSCH_MAX_INCOMING_PACKETS :: nat where "TSCH_MAX_INCOMING_PACKETS = 4"
definition TSCH_DEQUEUED_ARRAY_SIZE :: nat where "TSCH_DEQUEUED_ARRAY_SIZE = 8"
definition TSCH_PACKET_MAX_LEN :: nat where "TSCH_PACKET_MAX_LEN = 96"
definition TSCH_KEEPALIVE_TIMEOUT :: u32 where "TSCH_KEEPALIVE_TIMEOUT = 12 * 128"
definition TSCH_MAX_KEEPALIVE_TIMEOUT :: u32 where "TSCH_MAX_KEEPALIVE_TIMEOUT = 60 * 128"
definition TSCH_MAX_JOIN_PRIORITY :: u8 where "TSCH_MAX_JOIN_PRIORITY = 32"
definition IEEE802154_PANID :: u16 where "IEEE802154_PANID = 0x4bb4"
definition TSCH_DEFAULT_HOPPING_SEQUENCE :: "u8 list" where "TSCH_DEFAULT_HOPPING_SEQUENCE = [15, 25, 26, 20]"
definition tsch_ts_tx_offset :: nat where "tsch_ts_tx_offset = 2"
definition tsch_ts_timeslot_length :: nat where "tsch_ts_timeslot_length = 11"

definition tsch_default_timing_us :: "u16 list" where
  "tsch_default_timing_us = [1800, 128, 4000, 2900, 3600, 4000, 2200, 800, 2072, 2400, 4256, 25000]"

abbreviation mac_of :: "tsch_node \<Rightarrow> tschmac" where "mac_of N \<equiv> mac (net N)"
abbreviation node_queues :: "tsch_node \<Rightarrow> tsch_queue" where "node_queues N \<equiv> queues_of (mac_of N)"

definition set_mac :: "tsch_node \<Rightarrow> tschmac \<Rightarrow> tsch_node" where
  "set_mac N m = N\<lparr>net := (net N)\<lparr>mac := m\<rparr>\<rparr>"

definition set_node_queues :: "tsch_node \<Rightarrow> tsch_queue \<Rightarrow> tsch_node" where
  "set_node_queues N q = set_mac N (set_queues (mac_of N) q)"

definition random_rand :: "tsch_node \<Rightarrow> u16 \<times> tsch_node" where
  "random_rand N = (rand_seq N (rand_pos N), N\<lparr>rand_pos := rand_pos N + 1\<rparr>)"

text \<open>The conversion of a timing in microseconds.\<close>

fun ticks_of :: "u16 list \<Rightarrow> u16 list option" where
  "ticks_of [] = Some []"
| "ticks_of (u # us) = do { t \<leftarrow> US_TO_RTIMERTICKS (uint u); ts \<leftarrow> ticks_of us; Some (word_of_int t # ts) }"

section \<open>Keep-alive messages and the time source\<close>

definition tsch_set_pan_secured :: "bool \<Rightarrow> tsch_node \<Rightarrow> tsch_node" where
  "tsch_set_pan_secured enable N = N\<lparr>tsch_is_pan_secured := False\<rparr>"

definition tsch_set_join_priority :: "u8 \<Rightarrow> tsch_node \<Rightarrow> tsch_node" where
  "tsch_set_join_priority jp N = N\<lparr>tsch_join_priority := jp\<rparr>"

text \<open>\<^verbatim>\<open>tsch_schedule_keepalive\<close>, on the node: a random number is drawn if the timer is set.\<close>

definition schedule_keepalive :: "tsch_node \<Rightarrow> tsch_node option" where
  "schedule_keepalive N = do {
     let (rnd, N') = random_rand N;
     delay \<leftarrow> tsch_schedule_keepalive (mac_of N) (ka_timeout (node_queues N)) (ucast rnd);
     Some (case delay of None \<Rightarrow> N | Some d \<Rightarrow> N'\<lparr>keepalive_timer := Some d\<rparr>)
   }"

definition tsch_schedule_keepalive_immediately :: "tsch_node \<Rightarrow> tsch_node" where
  "tsch_schedule_keepalive_immediately N =
     (if \<not> is_coordinator (node_queues N) \<and> tsch_is_associated (mac_of N) then N\<lparr>keepalive_timer := Some 0\<rparr> else N)"

definition tsch_set_ka_timeout :: "u32 \<Rightarrow> tsch_node \<Rightarrow> tsch_node option" where
  "tsch_set_ka_timeout timeout N =
     (let N = set_node_queues N ((node_queues N)\<lparr>ka_timeout := timeout\<rparr>)
      in if timeout = 0 then Some (N\<lparr>keepalive_timer := None\<rparr>) else schedule_keepalive N)"

text \<open>
  \<^verbatim>\<open>tsch_queue_update_time_source\<close> with the keep-alive timer, which it sets when the time source changes.
\<close>

definition update_time_source :: "linkaddr option \<Rightarrow> tsch_node \<Rightarrow> tsch_node option" where
  "update_time_source new_addr N = do {
     old_src \<leftarrow> tsch_queue_get_time_source (node_queues N);
     (_, q) \<leftarrow> tsch_queue_update_time_source TSCH_KEEPALIVE_TIMEOUT (node_queues N) new_addr;
     let N = set_node_queues N q;
     new_src \<leftarrow> tsch_queue_get_time_source q;
     if new_src = old_src then Some N
     else tsch_set_ka_timeout (if new_src = None then 0 else TSCH_KEEPALIVE_TIMEOUT) N
   }"

definition disassociate :: "tsch_node \<Rightarrow> tsch_node" where
  "disassociate N = (let (m, polled) = tsch_disassociate (mac_of N)
     in (set_mac N m)\<lparr>process_polled := process_polled N \<or> polled\<rparr>)"

text \<open>The callback \<^verbatim>\<open>keepalive_packet_sent\<close>.\<close>

definition keepalive_sent :: "mac_tx_status \<Rightarrow> tsch_node \<Rightarrow> tsch_node option" where
  "keepalive_sent status N =
     (if status \<noteq> MAC_TX_OK then
        if linkaddr_cmp (last_eb_nbr_addr N) linkaddr_null
        then schedule_keepalive (if sync_count N = 0 then disassociate N else N)
        else do {
          N \<leftarrow> update_time_source (Some (last_eb_nbr_addr N)) N;
          Some (tsch_schedule_keepalive_immediately (N\<lparr>tsch_join_priority := last_eb_nbr_jp N + 1\<rparr>))
        }
      else schedule_keepalive N)"

text \<open>
  The timer calls \<^verbatim>\<open>keepalive_send\<close>.  If the message cannot be queued, \<^verbatim>\<open>send_packet\<close> calls the callback as its last
  action; the call is in the log.
\<close>

definition keepalive_timeout :: "tsch_node \<Rightarrow> tsch_node option" where
  "keepalive_timeout N = do {
     m \<leftarrow> keepalive_send (mac_of N);
     let N' = (set_mac N m)\<lparr>keepalive_timer := None\<rparr>;
     if sent_log (queues_of m) = sent_log (node_queues N) then Some N' else keepalive_sent MAC_TX_ERR N'
   }"

section \<open>Received beacons\<close>

definition eb_input :: "garbage \<Rightarrow> input_packet \<Rightarrow> tsch_node \<Rightarrow> tsch_node option" where
  "eb_input g current_input N = do {
     (r, frame, ies, _) \<leftarrow> tsch_packet_parse_eb (in_payload current_input) (in_len current_input) (g_frame g) (g_ies g) 0;
     if r = 0 then Some N else do {
       ts \<leftarrow> tsch_queue_get_time_source (node_queues N);
       ts_addr \<leftarrow> (case ts of None \<Rightarrow> Some None | Some i \<Rightarrow> do { nb \<leftarrow> rd (nbrs (node_queues N)) i; Some (Some (naddr nb)) });
       let N = (if ts_addr = None \<or> \<not> linkaddr_cmp (last_eb_nbr_addr N) (the ts_addr)
                then N\<lparr>last_eb_nbr_addr := f_src_addr frame, last_eb_nbr_jp := ie_join_priority ies\<rparr> else N);
       let N = (if ts_addr \<noteq> None \<and> linkaddr_cmp (f_src_addr frame) (the ts_addr) then
                  (let N = (if TSCH_ASN_DIFF (in_rx_asn current_input) (ie_asn ies) \<noteq> 0 then disassociate N else N)
                   in if TSCH_MAX_JOIN_PRIORITY \<le> ie_join_priority ies then disassociate N else N)
                else N);
       s \<leftarrow> neighbor_discovery_input (strengths (net N)) (le16 (ie_sequence_number ies)) (f_src_addr frame);
       Some (N\<lparr>net := (net N)\<lparr>strengths := s\<rparr>\<rparr>)
     }
   }"

section \<open>The two rings\<close>

text \<open>
  \<^verbatim>\<open>NETSTACK_NETWORK.input\<close>: master-net passes the packet to \<open>master_routing_input\<close>, which is registered once the
  routing layer has been started.
\<close>

definition network_input :: "garbage \<Rightarrow> tsch_node \<Rightarrow> tsch_node option" where
  "network_input g N = (if \<not> started (net N) then Some N else do {
     (data, len, _, _) \<leftarrow> masternet_input (mac_of N);
     R \<leftarrow> master_routing_input (g_bytes g) data len (net N);
     Some (N\<lparr>net := R\<rparr>)
   })"

text \<open>One packet of the ring: \<^verbatim>\<open>uint8_t ret\<close> is the length of the header.\<close>

definition process_input :: "garbage \<Rightarrow> u32 \<Rightarrow> input_packet \<Rightarrow> tsch_node \<Rightarrow> tsch_node option" where
  "process_input g now current_input N = do {
     (r, frame) \<leftarrow> frame802154_parse unsecured (in_payload current_input) (in_len current_input) (g_frame g);
     let ret = (of_int r :: u8);
     let is_data = (ret \<noteq> 0 \<and> ucast (frame_type (f_fcf frame)) = FRAME802154_DATAFRAME);
     let is_eb = (ret \<noteq> 0 \<and> frame_version (f_fcf frame) = FRAME802154_IEEE802154_2015 \<and> frame_type (f_fcf frame) = FRAME802154_BEACONFRAME);
     if is_data then do {
       (_, b) \<leftarrow> packetbuf_copyfrom (pb (mac_of N)) (in_payload current_input) (of_int (in_len current_input));
       let b = packetbuf_set_attr b PACKETBUF_ATTR_RSSI (in_rssi current_input);
       let b = packetbuf_set_attr b PACKETBUF_ATTR_CHANNEL (ucast (in_channel current_input));
       let b = packetbuf_set_attr b PACKETBUF_ATTR_RECEIVED_ASN (ucast (ls4b (in_rx_asn current_input)));
       (passed, m) \<leftarrow> packet_input (g_frame g) now ((mac_of N)\<lparr>pb := b\<rparr>);
       let N = set_mac N m;
       if passed then network_input g N else Some N
     } else if is_eb then eb_input g current_input N
     else Some N
   }"

partial_function (option) tsch_rx_process_pending :: "garbage \<Rightarrow> u32 \<Rightarrow> tsch_node \<Rightarrow> tsch_node option" where
  "tsch_rx_process_pending g now N =
     (let input_index = ringbufindex_peek_get (input_ringbuf N)
      in if input_index = -1 then Some N else do {
        current_input \<leftarrow> rd (input_array N) (nat input_index);
        N \<leftarrow> process_input g now current_input N;
        tsch_rx_process_pending g now (N\<lparr>input_ringbuf := snd (ringbufindex_get (input_ringbuf N))\<rparr>)
      })"

definition sent_callback :: "tsch_packet \<Rightarrow> tsch_node \<Rightarrow> tsch_node option" where
  "sent_callback pk N =
     (let N = set_node_queues N (mac_call_sent_callback (node_queues N) pk)
      in if sent pk = keepalive_packet_sent then keepalive_sent (ret pk) N else Some N)"

partial_function (option) tsch_tx_process_pending :: "tsch_node \<Rightarrow> tsch_node option" where
  "tsch_tx_process_pending N =
     (let dequeued_index = ringbufindex_peek_get (dequeued_ringbuf N)
      in if dequeued_index = -1 then Some N else do {
        p \<leftarrow> rd (dequeued_array N) (nat dequeued_index);
        j \<leftarrow> p;
        pk \<leftarrow> rd (pkts (node_queues N)) j;
        b \<leftarrow> qb pk;
        pb' \<leftarrow> queuebuf_to_packetbuf (qbufs (node_queues N)) b (pb (mac_of N));
        let N = set_mac N ((mac_of N)\<lparr>pb := pb'\<rparr>);
        N \<leftarrow> sent_callback pk N;
        q \<leftarrow> tsch_queue_free_packet (node_queues N) p;
        q \<leftarrow> tsch_queue_free_unused_neighbors q;
        let N = set_node_queues N q;
        tsch_tx_process_pending (N\<lparr>dequeued_ringbuf := snd (ringbufindex_get (dequeued_ringbuf N))\<rparr>)
      })"

text \<open>\<^verbatim>\<open>tsch_pending_events_process\<close>, when it is polled.\<close>

definition tsch_pending_events :: "garbage \<Rightarrow> u32 \<Rightarrow> tsch_node \<Rightarrow> tsch_node option" where
  "tsch_pending_events g now N = do {
     N \<leftarrow> tsch_rx_process_pending g now (N\<lparr>events_polled := False\<rparr>);
     tsch_tx_process_pending N
   }"

section \<open>The node and its parts\<close>

lemma node_simps [simp]:
  "mac_of (set_mac N m) = m" "set_mac (set_mac N m) m' = set_mac N m'" "mac_of (set_node_queues N q) = set_queues (mac_of N) q"
  "node_queues (set_node_queues N q) = q" "set_node_queues (set_node_queues N q) q' = set_node_queues N q'"
  by (simp_all add: set_mac_def set_node_queues_def)

lemma set_mac_fields [simp]:
  "input_ringbuf (set_mac N m) = input_ringbuf N" "input_array (set_mac N m) = input_array N"
  "dequeued_ringbuf (set_mac N m) = dequeued_ringbuf N" "dequeued_array (set_mac N m) = dequeued_array N"
  "last_eb_nbr_addr (set_mac N m) = last_eb_nbr_addr N" "last_eb_nbr_jp (set_mac N m) = last_eb_nbr_jp N"
  "tsch_join_priority (set_mac N m) = tsch_join_priority N" "sequence_number (set_mac N m) = sequence_number N"
  "tsch_hopping_sequence (set_mac N m) = tsch_hopping_sequence N"
  "tsch_hopping_sequence_length (set_mac N m) = tsch_hopping_sequence_length N" "tsch_timing (set_mac N m) = tsch_timing N"
  "tsch_association_count (set_mac N m) = tsch_association_count N" "keepalive_timer (set_mac N m) = keepalive_timer N"
  "last_sync_asn (set_mac N m) = last_sync_asn N" "current_slot_start (set_mac N m) = current_slot_start N"
  "current_packet (set_mac N m) = current_packet N" "current_neighbor (set_mac N m) = current_neighbor N"
  "actual_current_neighbor (set_mac N m) = actual_current_neighbor N" "last_tx_status (set_mac N m) = last_tx_status N"
  "sent_frames (set_mac N m) = sent_frames N" "rand_seq (set_mac N m) = rand_seq N" "rand_pos (set_mac N m) = rand_pos N"
  "rx_addresses (set_mac N m) = rx_addresses N" "timesync (set_mac N m) = timesync N" "sync_count (set_mac N m) = sync_count N"
  "current_channel (set_mac N m) = current_channel N" "lock_requested (set_mac N m) = lock_requested N" "backup_link (set_mac N m) = backup_link N"
  "strengths (net (set_mac N m)) = strengths (net N)" "drift_correction (set_mac N m) = drift_correction N"
  by (simp_all add: set_mac_def)

text \<open>Setting the keep-alive timer.\<close>

definition ka_ok :: "tsch_queue \<Rightarrow> bool" where
  "ka_ok q \<longleftrightarrow> ka_timeout q = 0 \<or> 10 \<le> ka_timeout q"

lemma schedule_keepalive:
  assumes "ka_ok (node_queues N)"
  obtains t k where "schedule_keepalive N = Some (N\<lparr>keepalive_timer := t, rand_pos := k\<rparr>)"
proof (cases "\<not> is_coordinator (node_queues N) \<and> tsch_is_associated (mac_of N) \<and> 0 < ka_timeout (node_queues N)")
  case True
  then have "10 \<le> ka_timeout (node_queues N)"
    using assms by (auto simp: ka_ok_def)
  then have "10 \<le> unat (ka_timeout (node_queues N))"
    by (simp add: word_le_nat_alt)
  then have "unat (ka_timeout (node_queues N) div 10) \<noteq> 0"
    by (simp add: unat_div)
  then have "ka_timeout (node_queues N) div 10 \<noteq> 0"
    by auto
  with True have "\<exists>d. schedule_keepalive N = Some (N\<lparr>keepalive_timer := Some d, rand_pos := rand_pos N + 1\<rparr>)"
    by (simp add: schedule_keepalive_def random_rand_def tsch_schedule_keepalive_def) (rule exI, rule tsch_node.equality; simp)
  with that show ?thesis
    by blast
next
  case False
  then have "schedule_keepalive N = Some N"
    by (auto simp: schedule_keepalive_def random_rand_def tsch_schedule_keepalive_def)
  moreover have "N = N\<lparr>keepalive_timer := keepalive_timer N, rand_pos := rand_pos N\<rparr>"
    by simp
  ultimately show ?thesis
    using that by metis
qed

lemma sched_inv_current_link: "sched_inv ns nl nn np S \<Longrightarrow> \<forall>l. k = Some l \<longrightarrow> l \<in> link_live S
    \<Longrightarrow> sched_inv ns nl nn np (S\<lparr>current_link := k\<rparr>)"
  by (simp add: sched_defs)

text \<open>The node after the neighbor \<open>i\<close> has become its time source.\<close>

lemma node_update_source:
  assumes inv: "tq_inv nn np (node_queues N)" and unl: "\<not> locked (node_queues N)" and one: "one_source (node_queues N)"
    and c: "\<not> is_coordinator (node_queues N)" and i: "i \<in> set (neighbor_list (node_queues N))"
    and a: "naddr (nbrs (node_queues N) ! i) = a" and ok: "linkaddr_ok a" and ka: "ka_ok (node_queues N)"
  obtains q t k where "update_time_source (Some a) N = Some ((set_node_queues N q)\<lparr>keepalive_timer := t, rand_pos := k\<rparr>)"
    "tq_inv nn np q" "with_source i (node_queues N) q" "ka_ok q"
proof -
  obtain q where q: "tsch_queue_update_time_source TSCH_KEEPALIVE_TIMEOUT (node_queues N) (Some a) = Some (1, q)" "tq_inv nn np q"
    "with_source i (node_queues N) q"
    "tsch_queue_get_time_source (node_queues N) = Some (Some i) \<and> q = node_queues N
     \<or> tsch_queue_get_time_source (node_queues N) \<noteq> Some (Some i) \<and> ka_timeout q = TSCH_KEEPALIVE_TIMEOUT"
    using update_source_found [OF inv unl one c i a ok, of TSCH_KEEPALIVE_TIMEOUT] by blast
  obtain old where old: "tsch_queue_get_time_source (node_queues N) = Some old"
    using inv unl one by (cases rule: get_time_source) auto
  have new: "tsch_queue_get_time_source q = Some (Some i)"
    using q(3) by (simp add: with_source_def)
  show ?thesis
  proof (cases "old = Some i")
    case True
    then have "update_time_source (Some a) N = Some (set_node_queues N q)"
      using old new q(1) by (simp add: update_time_source_def)
    moreover have "set_node_queues N q = (set_node_queues N q)\<lparr>keepalive_timer := keepalive_timer N, rand_pos := rand_pos N\<rparr>"
      by (simp add: set_node_queues_def set_mac_def)
    ultimately show ?thesis
      using that q True old ka by metis
  next
    case False
    have kt: "q\<lparr>ka_timeout := TSCH_KEEPALIVE_TIMEOUT\<rparr> = q"
      using False old q(4) by simp
    have kq: "ka_ok q"
      using False old q(4) by (simp add: ka_ok_def TSCH_KEEPALIVE_TIMEOUT_def)
    then obtain t k where "schedule_keepalive (set_node_queues N q) = Some ((set_node_queues N q)\<lparr>keepalive_timer := t, rand_pos := k\<rparr>)"
      by (rule schedule_keepalive [of "set_node_queues N q", simplified]) 
    then have "update_time_source (Some a) N = Some ((set_node_queues N q)\<lparr>keepalive_timer := t, rand_pos := k\<rparr>)"
      using False old new q(1) by (simp add: update_time_source_def tsch_set_ka_timeout_def kt TSCH_KEEPALIVE_TIMEOUT_def [symmetric])
         (simp add: TSCH_KEEPALIVE_TIMEOUT_def)
    with that q kq show ?thesis
      by blast
  qed
qed

section \<open>An example\<close>

text \<open>A node whose routing layer is \<open>R\<close>, with empty rings.\<close>

definition node_initial :: "master_routing \<Rightarrow> tsch_node" where
  "node_initial R = \<lparr>net = R, input_ringbuf = ringbufindex_init 4,
     input_array = replicate 4 \<lparr>in_payload = replicate 96 0, in_rx_asn = Asn 0 0, in_len = 0, in_rssi = 0, in_channel = 0\<rparr>,
     dequeued_ringbuf = ringbufindex_init 8, dequeued_array = replicate 8 None, last_eb_nbr_addr = linkaddr_null, last_eb_nbr_jp = 0,
     tsch_join_priority = 0xff, sequence_number = 0, tsch_hopping_sequence = replicate 16 0,
     tsch_hopping_sequence_length = TSCH_ASN_DIVISOR_INIT 4, tsch_timing = [59, 4, 131, 95, 118, 131, 72, 26, 68, 79, 139, 819],
     tsch_association_count = 0, tsch_is_pan_secured = False, keepalive_timer = None, eb_timer = 0, tx_count = 0, rx_count = 0, sync_count = 0,
     scan_channel = 0, current_channel_since = 0, last_sync_asn = Asn 0 0, last_sync_time = 0, drift_correction = 0,
     is_drift_correction_used = False, timesync = timesync_initial, current_slot_start = 0, next_wakeup = 0, lock_requested = False,
     in_slot_operation = False, current_channel = 0, backup_link = None, current_packet = None, current_neighbor = None,
     actual_current_neighbor = None, last_tx_status = MAC_TX_OK, rx_addresses = (linkaddr_null, linkaddr_null), sent_frames = [],
     events_polled = False, process_polled = False, rand_seq = (\<lambda>_. 0), rand_pos = 0\<rparr>"

definition garbage_example :: garbage where
  "garbage_example = \<lparr>g_frame = zero_frame, g_ies = zero_ies, g_bytes = replicate 96 0\<rparr>"

lemma node_initial_net [simp]: "net (node_initial R) = R"
  by (simp add: node_initial_def)

end
