(* ===== verification/Tsch_Join.thy ===== *)
theory Tsch_Join
  imports Tsch_Node
begin

text \<open>
  Joining and leaving a network (\<^verbatim>\<open>tsch.c\<close>): a coordinator starts one, a node scans for a beacon and associates with its sender;
  the process that sends beacons; the initialisation of the driver.  The lemmas show what the state is after
  a node has associated with the sender of a beacon.
\<close>

section \<open>Starting\<close>

definition tsch_slot_operation_sync :: "u16 \<Rightarrow> asn \<Rightarrow> u32 \<Rightarrow> tsch_node \<Rightarrow> tsch_node" where
  "tsch_slot_operation_sync next_slot_start next_slot_asn clock N =
     (let N = set_mac N ((mac_of N)\<lparr>tsch_current_asn := next_slot_asn, sched := (sched (mac_of N))\<lparr>current_link := None\<rparr>\<rparr>)
      in N\<lparr>current_slot_start := next_slot_start, last_sync_asn := next_slot_asn, last_sync_time := clock\<rparr>)"

definition set_pan_id :: "u16 \<Rightarrow> tsch_node \<Rightarrow> tsch_node" where
  "set_pan_id pan N = set_mac N ((mac_of N)\<lparr>framing := frame802154_set_pan_id pan (framing (mac_of N))\<rparr>)"

definition set_default_hopping :: "tsch_node \<Rightarrow> tsch_node option" where
  "set_default_hopping N = do {
     hop \<leftarrow> wr_n (tsch_hopping_sequence N) 0 TSCH_DEFAULT_HOPPING_SEQUENCE;
     Some (N\<lparr>tsch_hopping_sequence := hop, tsch_hopping_sequence_length := TSCH_ASN_DIVISOR_INIT (of_nat (length TSCH_DEFAULT_HOPPING_SEQUENCE))\<rparr>)
   }"

text \<open>\<open>rt\<close> is the time of the timer, \<open>clock\<close> the clock time.\<close>

definition tsch_start_coordinator :: "u16 \<Rightarrow> u32 \<Rightarrow> tsch_node \<Rightarrow> tsch_node option" where
  "tsch_start_coordinator rt clock N = do {
     N \<leftarrow> set_default_hopping (set_pan_id IEEE802154_PANID N);
     let N = (set_mac N ((mac_of N)\<lparr>tsch_is_associated := True\<rparr>))\<lparr>tsch_join_priority := 0\<rparr>;
     Some (tsch_slot_operation_sync rt (tsch_current_asn (mac_of N)) clock N)
   }"

text \<open>
  \<^verbatim>\<open>tsch_reset\<close>.  The pending events are processed only when that process is running.  The callbacks of packets that are
  flushed are logged.
\<close>

definition tsch_reset :: "garbage \<Rightarrow> u32 \<Rightarrow> tsch_node \<Rightarrow> tsch_node option" where
  "tsch_reset g now N = do {
     let N = set_pan_id 0xffff N;
     N \<leftarrow> (if tsch_is_started (mac_of N) then tsch_pending_events g now N else Some N);
     q \<leftarrow> tsch_queue_reset (node_queues N);
     q \<leftarrow> tsch_queue_free_unused_neighbors q;
     N \<leftarrow> update_time_source None (set_node_queues N q);
     let N = set_mac N ((mac_of N)\<lparr>tsch_current_asn := TSCH_ASN_INIT 0 0, sched := (sched (mac_of N))\<lparr>current_link := None\<rparr>\<rparr>);
     timing \<leftarrow> ticks_of tsch_default_timing_us;
     let N = N\<lparr>tsch_join_priority := 0xff, tsch_timing := timing, last_eb_nbr_addr := linkaddr_null\<rparr>;
     Some (set_mac N (tsch_set_eb_period (mac_of N) TSCH_EB_PERIOD))
   }"

section \<open>Association\<close>

definition set_timing :: "ieee802154_ies \<Rightarrow> tsch_node \<Rightarrow> tsch_node option" where
  "set_timing ies N = do {
     timing \<leftarrow> (if ie_tsch_timeslot_id ies = 0 then ticks_of tsch_default_timing_us
                 else do { us \<leftarrow> rd_n (ie_tsch_timeslot ies) 0 tsch_ts_elements_count; ticks_of us });
     Some (N\<lparr>tsch_timing := timing\<rparr>)
   }"

text \<open>The first component is false if the sequence is too long.  A sequence of length 0 makes the initialisation of the divisor divide by 0.\<close>

definition set_hopping :: "ieee802154_ies \<Rightarrow> tsch_node \<Rightarrow> (bool \<times> tsch_node) option" where
  "set_hopping ies N = (if ie_channel_hopping_sequence_id ies = 0 then map_option (Pair True) (set_default_hopping N)
     else if unat (ie_hopping_sequence_len ies) \<le> length (tsch_hopping_sequence N) then do {
       bs \<leftarrow> rd_n (ie_hopping_sequence_list ies) 0 (unat (ie_hopping_sequence_len ies));
       hop \<leftarrow> wr_n (tsch_hopping_sequence N) 0 bs;
       if ie_hopping_sequence_len ies = 0 then None
       else Some (True, N\<lparr>tsch_hopping_sequence := hop, tsch_hopping_sequence_length := TSCH_ASN_DIVISOR_INIT (ie_hopping_sequence_len ies)\<rparr>)
     } else Some (False, N))"

fun add_eb_links :: "ptr \<Rightarrow> tsch_slotframe_and_links_link list \<Rightarrow> nat list \<Rightarrow> tsch_schedule \<Rightarrow> tsch_schedule option" where
  "add_eb_links sfr ls [] S = Some S"
| "add_eb_links sfr ls (i # is) S = do {
     l \<leftarrow> rd ls i;
     (_, S) \<leftarrow> tsch_schedule_add_link S sfr (ie_link_options l) LINK_TYPE_ADVERTISING (Some tsch_broadcast_address)
        (ie_timeslot l) (ie_channel_offset l);
     add_eb_links sfr ls is S
   }"

definition set_schedule :: "ieee802154_ies \<Rightarrow> tsch_node \<Rightarrow> (bool \<times> tsch_node) option" where
  "set_schedule ies N =
     (let sl = ie_tsch_slotframe_and_link ies
      in if num_slotframes sl = 0 then Some (True, N) else do {
        (_, S) \<leftarrow> tsch_schedule_remove_all_slotframes (sched (mac_of N));
        let N = set_mac N ((mac_of N)\<lparr>sched := S\<rparr>);
        if unat (num_links sl) \<le> FRAME802154E_IE_MAX_LINKS then do {
          (sfr, S) \<leftarrow> tsch_schedule_add_slotframe S (ucast (ie_slotframe_handle sl)) (slotframe_size sl);
          S \<leftarrow> add_eb_links sfr (ie_links sl) [0 ..< unat (num_links sl)] S;
          Some (True, set_mac N ((mac_of N)\<lparr>sched := S\<rparr>))
        } else Some (False, N)
      })"

text \<open>The last part: the sender of the beacon becomes the time source.\<close>

definition join :: "frame802154 \<Rightarrow> u16 \<Rightarrow> u32 \<Rightarrow> tsch_node \<Rightarrow> (int \<times> tsch_node) option" where
  "join frame rx_time clock N = (if tsch_join_priority N < TSCH_MAX_JOIN_PRIORITY then do {
     (n, q) \<leftarrow> tsch_queue_add_nbr (node_queues N) (f_src_addr frame);
     let N = set_node_queues N q;
     if n \<noteq> None then do {
       N \<leftarrow> update_time_source (Some (f_src_addr frame)) N;
       let N = set_pan_id (f_src_pid frame) N;
       tx \<leftarrow> rd (tsch_timing N) tsch_ts_tx_offset;
       let N = tsch_slot_operation_sync (rx_time - tx) (tsch_current_asn (mac_of N)) clock N;
       let N = (set_mac N ((mac_of N)\<lparr>tsch_is_associated := True\<rparr>))
         \<lparr>tsch_is_pan_secured := (security_enabled (f_fcf frame) \<noteq> 0), tx_count := 0, rx_count := 0, sync_count := 0\<rparr>;
       N \<leftarrow> schedule_keepalive N;
       c \<leftarrow> chk_int (tsch_association_count N + 1);
       Some (1, N\<lparr>tsch_association_count := c\<rparr>)
     } else Some (0, N)
   } else Some (0, N))"

text \<open>\<^verbatim>\<open>tsch_associate\<close>: the beacon \<open>input_eb\<close> was received at \<open>rx_time\<close>; its caller never passes \<^verbatim>\<open>NULL\<close>.\<close>

definition tsch_associate :: "garbage \<Rightarrow> input_packet \<Rightarrow> u16 \<Rightarrow> u32 \<Rightarrow> tsch_node \<Rightarrow> (int \<times> tsch_node) option" where
  "tsch_associate g input_eb rx_time clock N = do {
     (r, frame, ies, _) \<leftarrow> tsch_packet_parse_eb (in_payload input_eb) (in_len input_eb) (g_frame g) (g_ies g) 0;
     if r = 0 then Some (0, N) else do {
       let N = (set_mac N ((mac_of N)\<lparr>tsch_current_asn := ie_asn ies\<rparr>))\<lparr>tsch_join_priority := ie_join_priority ies + 1\<rparr>;
       if security_enabled (f_fcf frame) = 1 then Some (0, N)
       else if f_src_pid frame \<noteq> IEEE802154_PANID then Some (0, N)
       else if ie_join_priority ies = 0xff then Some (0, N)
       else do {
         N \<leftarrow> set_timing ies N;
         (ok, N) \<leftarrow> set_hopping ies N;
         if \<not> ok then Some (0, N) else do {
           (ok, N) \<leftarrow> set_schedule ies N;
           if \<not> ok then Some (0, N) else join frame rx_time clock N
         }
       }
     }
   }"

section \<open>Scanning\<close>

definition TSCH_CHANNEL_SCAN_DURATION :: u32 where "TSCH_CHANNEL_SCAN_DURATION = 128"

text \<open>The choice of the channel at the beginning of one round of \<^verbatim>\<open>tsch_scan\<close>.\<close>

definition switch_channel :: "u32 \<Rightarrow> tsch_node \<Rightarrow> tsch_node option" where
  "switch_channel now_time N =
     (if scan_channel N = 0 \<or> TSCH_CHANNEL_SCAN_DURATION < now_time - current_channel_since N then do {
        let (rnd, N) = random_rand N;
        c \<leftarrow> rd TSCH_DEFAULT_HOPPING_SEQUENCE (unat rnd mod length TSCH_DEFAULT_HOPPING_SEQUENCE);
        Some (N\<lparr>scan_channel := c, current_channel_since := now_time\<rparr>)
      } else Some N)"

text \<open>
  One round of \<^verbatim>\<open>tsch_scan\<close>: \<open>received\<close> is the packet that the radio has read, with its time stamp, if there is one.  What the
  rest of the buffer holds is in \<open>g\<close>.
\<close>

definition scan_round :: "garbage \<Rightarrow> u32 \<Rightarrow> (u8 list \<times> u16) option \<Rightarrow> tsch_node \<Rightarrow> tsch_node option" where
  "scan_round g now_time received N = (if tsch_is_associated (mac_of N) \<or> is_coordinator (node_queues N) then Some N else do {
     N \<leftarrow> switch_channel now_time N;
     case received of None \<Rightarrow> Some N
     | Some (bs, t0) \<Rightarrow> do {
         buf \<leftarrow> wr_n (take TSCH_PACKET_MAX_LEN (g_bytes g)) 0 bs;
         (_, N) \<leftarrow> tsch_associate g \<lparr>in_payload = buf, in_rx_asn = Asn 0 0, in_len = int (length bs), in_rssi = 0, in_channel = 0\<rparr> t0 now_time N;
         Some N
       }
   })"

definition scan_start :: "u32 \<Rightarrow> tsch_node \<Rightarrow> tsch_node" where
  "scan_start now_time N = (set_mac N ((mac_of N)\<lparr>tsch_current_asn := TSCH_ASN_INIT 0 0\<rparr>))\<lparr>current_channel_since := now_time\<rparr>"

section \<open>Sending beacons\<close>

text \<open>What one round of \<^verbatim>\<open>tsch_send_eb_process\<close> puts into the queue.\<close>

definition enqueue_eb :: "tsch_node \<Rightarrow> tsch_node option" where
  "enqueue_eb N = (if tsch_is_associated (mac_of N) \<and> 0 < tsch_current_eb_period (mac_of N) then do {
     (count, q) \<leftarrow> tsch_queue_packet_count (node_queues N) tsch_eb_address;
     let N = set_node_queues N q;
     if count = 0 then do {
       (r, lens, seq, fs, b) \<leftarrow> tsch_packet_create_eb plain_eb (tsch_hopping_sequence N) (dval (tsch_hopping_sequence_length N))
          (sched (mac_of N)) (linkaddr_node_addr (mac_of N)) (sequence_number N) (framing (mac_of N)) (pb (mac_of N));
       let N = (set_mac N ((mac_of N)\<lparr>pb := b, framing := fs\<rparr>))\<lparr>sequence_number := seq\<rparr>;
       case lens of
         Some (hdr_len, offs) \<Rightarrow> if 0 < r then do {
           (p, q) \<leftarrow> tsch_queue_add_packet (node_queues N) (pb (mac_of N)) tsch_eb_address 1 None None;
           case p of
             None \<Rightarrow> Some (set_node_queues N q)
           | Some j \<Rightarrow> do {
               pk \<leftarrow> rd (pkts q) j;
               Some (set_node_queues N (q\<lparr>pkts := (pkts q)[j := pk\<lparr>tsch_sync_ie_offset := offs, header_len := hdr_len\<rparr>]\<rparr>))
             }
         } else Some N
       | None \<Rightarrow> Some N
     } else Some N
   } else Some N)"

text \<open>The delay until the next round; periods of less than four ticks divide by 0.\<close>

definition send_eb_round :: "tsch_node \<Rightarrow> tsch_node option" where
  "send_eb_round N = do {
     N \<leftarrow> enqueue_eb N;
     let period = tsch_current_eb_period (mac_of N);
     if 0 < period then
       if period div 4 = 0 then None
       else (let (rnd, N) = random_rand N in Some (N\<lparr>eb_timer := (period - period div 4) + ucast rnd mod (period div 4)\<rparr>))
     else Some (N\<lparr>eb_timer := TSCH_EB_PERIOD\<rparr>)
   }"

section \<open>Initialisation\<close>

text \<open>\<open>radio\<close> are the results of the six requests to the radio; the rings are empty afterwards.\<close>

definition tsch_init :: "garbage \<Rightarrow> u32 \<Rightarrow> bool list \<Rightarrow> tsch_node \<Rightarrow> tsch_node option" where
  "tsch_init g now radio N = (if \<not> list_all id radio then Some N else do {
     let q = node_queues N;
     N \<leftarrow> tsch_reset g now (set_node_queues N (q\<lparr>qbufs := queuebuf_init (qbufs q)\<rparr>));
     q \<leftarrow> tsch_queue_init (node_queues N);
     let N = set_node_queues N q;
     let (_, S) = tsch_schedule_init (sched (mac_of N));
     let N = (set_mac N ((mac_of N)\<lparr>sched := S\<rparr>))
       \<lparr>input_ringbuf := ringbufindex_init (of_nat TSCH_MAX_INCOMING_PACKETS), dequeued_ringbuf := ringbufindex_init (of_nat TSCH_DEQUEUED_ARRAY_SIZE)\<rparr>;
     let (rnd, N) = random_rand N;
     let m = (mac_of N)\<lparr>tsch_packet_seqno := ucast rnd, tsch_is_initialized := True\<rparr>;
     Some (set_mac N (snd (turn_on m)))
   })"

section \<open>After association\<close>

text \<open>What a node needs to join: consistent layers, at most one time source, room for one more neighbor.\<close>

definition join_ready :: "nat \<Rightarrow> nat \<Rightarrow> nat \<Rightarrow> nat \<Rightarrow> tsch_node \<Rightarrow> linkaddr \<Rightarrow> bool" where
  "join_ready ns nl nn np N a \<longleftrightarrow> mac_inv ns nl nn np (mac_of N) \<and> one_source (node_queues N) \<and> \<not> is_coordinator (node_queues N)
     \<and> ka_ok (node_queues N) \<and> linkaddr_ok a \<and> length (tsch_hopping_sequence N) = TSCH_HOPPING_SEQUENCE_MAX_LEN
     \<and> 0 \<le> tsch_association_count N \<and> tsch_association_count N < 2 ^ 15 - 1
     \<and> (card (nbr_live (node_queues N)) < nn \<or> (\<exists>i \<in> set (neighbor_list (node_queues N)). naddr (nbrs (node_queues N) ! i) = a))"

lemma mac_inv_parts:
  assumes "mac_inv ns nl nn np m"
  shows "tq_inv nn np (queues_of m)" "\<not> locked (queues_of m)" "sched_inv ns nl nn np (sched m)" "linkaddr_ok (linkaddr_node_addr m)" "pb_inv (pb m)"
  using assms by (simp_all add: mac_inv_def queues_of_def sched_inv_def)

text \<open>The sender becomes a neighbor, if it is not one.\<close>

lemma add_sender:
  assumes inv: "tq_inv nn np q" and unl: "\<not> locked q" and one: "one_source q" and ok: "linkaddr_ok a"
    and room: "card (nbr_live q) < nn \<or> (\<exists>i \<in> set (neighbor_list q). naddr (nbrs q ! i) = a)"
  obtains i q' where "tsch_queue_add_nbr q a = Some (Some i, q')" "tq_inv nn np q'" "i \<in> set (neighbor_list q')" "naddr (nbrs q' ! i) = a"
    "one_source q'" "same_packets q q'"
  using inv unl ok
proof (cases rule: add_nbr_spec)
  case (found i)
  then show ?thesis
    by (intro that [of i q]) (use inv one in \<open>simp_all add: same_packets_def\<close>)
next
  case full
  then show ?thesis
    using room by auto
next
  case (new i q')
  have fresh: "i \<notin> set (neighbor_list q)"
    using new(4) tq_list_live [OF inv] by blast
  have "is_time_source (new_neighbor a) = False" "naddr (new_neighbor a) = a"
    by (simp_all add: new_neighbor_def tsch_queue_backoff_reset_def)
  moreover have "nbrs q' ! k = nbrs q ! k" if "k \<in> set (neighbor_list q)" for k
    using fresh that new(7) by (metis nth_list_update_neq)
  ultimately have "one_source q'" "naddr (nbrs q' ! i) = a"
    using one fresh new(6,8) unfolding one_source_def by auto
  then show ?thesis
    by (intro that [of i q']) (use new in simp_all)
qed

definition source_is :: "tsch_queue \<Rightarrow> linkaddr \<Rightarrow> bool" where
  "source_is q a \<longleftrightarrow> (\<exists>i. tsch_queue_get_time_source q = Some (Some i) \<and> i \<in> set (neighbor_list q) \<and> naddr (nbrs q ! i) = a)"

text \<open>The state after joining through the sender \<open>a\<close> of a beacon that was sent in slot \<open>asn\<close> of network \<open>pan\<close>.\<close>

definition joined :: "linkaddr \<Rightarrow> u16 \<Rightarrow> asn \<Rightarrow> u16 \<Rightarrow> tsch_node \<Rightarrow> tsch_node \<Rightarrow> bool" where
  "joined a pan asn start N N' \<longleftrightarrow> tsch_is_associated (mac_of N') \<and> tsch_current_asn (mac_of N') = asn \<and> last_sync_asn N' = asn
     \<and> mac_pan_id (framing (mac_of N')) = pan \<and> source_is (node_queues N') a \<and> one_source (node_queues N')
     \<and> current_slot_start N' = start \<and> tsch_association_count N' = tsch_association_count N + 1
     \<and> tx_count N' = 0 \<and> rx_count N' = 0 \<and> sync_count N' = 0
     \<and> sched (mac_of N') = (sched (mac_of N))\<lparr>sq := node_queues N', current_link := None\<rparr>
     \<and> pkts (node_queues N') = pkts (node_queues N) \<and> packet_memb (node_queues N') = packet_memb (node_queues N)"

lemma join_spec:
  assumes ready: "join_ready ns nl nn np N (f_src_addr frame)" and jp: "tsch_join_priority N < TSCH_MAX_JOIN_PRIORITY"
    and pan: "f_src_pid frame \<noteq> 0xffff" and t: "length (tsch_timing N) = tsch_ts_elements_count"
  shows "\<exists>N'. join frame ts clock N = Some (1, N') \<and> mac_inv ns nl nn np (mac_of N')
    \<and> joined (f_src_addr frame) (f_src_pid frame) (tsch_current_asn (mac_of N)) (ts - tsch_timing N ! tsch_ts_tx_offset) N N'
    \<and> tsch_join_priority N' = tsch_join_priority N \<and> tsch_hopping_sequence N' = tsch_hopping_sequence N
    \<and> tsch_hopping_sequence_length N' = tsch_hopping_sequence_length N \<and> tsch_timing N' = tsch_timing N"
proof -
  let ?a = "f_src_addr frame" and ?m = "mac_of N"
  note r = ready [unfolded join_ready_def]
  have inv: "mac_inv ns nl nn np ?m"
    using r by simp
  note parts = mac_inv_parts [OF inv]
  obtain i q where add: "tsch_queue_add_nbr (node_queues N) ?a = Some (Some i, q)" "tq_inv nn np q" "i \<in> set (neighbor_list q)"
    "naddr (nbrs q ! i) = ?a" "one_source q" "same_packets (node_queues N) q"
    by (rule add_sender [OF parts(1,2), of ?a]) (use r in auto)
  have same: "\<not> locked q" "\<not> is_coordinator q" "ka_ok q" "pkts q = pkts (node_queues N)" "packet_memb q = packet_memb (node_queues N)"
    using add(6) parts(2) r by (simp_all add: same_packets_def ka_ok_def)
  define N1 where "N1 = set_node_queues N q"
  have N1: "node_queues N1 = q"
    by (simp add: N1_def)
  obtain q2 t k where upd: "update_time_source (Some ?a) N1 = Some ((set_node_queues N1 q2)\<lparr>keepalive_timer := t, rand_pos := k\<rparr>)"
    "tq_inv nn np q2" "with_source i q q2" "ka_ok q2"
    by (rule node_update_source [of nn np N1 i ?a]) (use add same r in \<open>simp_all add: N1\<close>)
  define N2 where "N2 = (set_node_queues N1 q2)\<lparr>keepalive_timer := t, rand_pos := k\<rparr>"
  define m3 where "m3 = (set_queues ?m q2)\<lparr>framing := frame802154_set_pan_id (f_src_pid frame) (framing ?m),
    tsch_is_associated := True, sched := (sched (set_queues ?m q2))\<lparr>current_link := None\<rparr>\<rparr>"
  have m3: "queues_of m3 = q2" "tsch_current_asn m3 = tsch_current_asn ?m" "mac_pan_id (framing m3) = f_src_pid frame" "tsch_is_associated m3"
    "sched m3 = (sched ?m)\<lparr>sq := q2, current_link := None\<rparr>"
    by (simp_all add: m3_def queues_of_def set_queues_def frame802154_set_pan_id_def)
  define N3 where "N3 = (set_mac N2 m3)\<lparr>current_slot_start := ts - tsch_timing N ! tsch_ts_tx_offset, last_sync_asn := tsch_current_asn ?m,
    last_sync_time := clock, tsch_is_pan_secured := (security_enabled (f_fcf frame) \<noteq> 0), tx_count := 0, rx_count := 0, sync_count := 0\<rparr>"
  have N3: "mac_of N3 = m3"
    by (simp add: N3_def set_mac_def)
  obtain t' k' where ka: "schedule_keepalive N3 = Some (N3\<lparr>keepalive_timer := t', rand_pos := k'\<rparr>)"
    by (rule schedule_keepalive [of N3]) (use upd(4) in \<open>simp add: N3 m3\<close>)
  define N4 where "N4 = N3\<lparr>keepalive_timer := t', rand_pos := k', tsch_association_count := tsch_association_count N + 1\<rparr>"
  have tx: "rd (tsch_timing N) tsch_ts_tx_offset = Some (tsch_timing N ! tsch_ts_tx_offset)"
    using t by (simp add: rd_in tsch_ts_tx_offset_def tsch_ts_elements_count_def)
  have cnt: "chk_int (tsch_association_count N3 + 1) = Some (tsch_association_count N + 1)"
    using r by (simp add: chk_int_def N3_def N2_def N1_def set_node_queues_def set_mac_def)
  have run: "join frame ts clock N = Some (1, N4)"
  proof -
    have 1: "(set_mac (tsch_slot_operation_sync (ts - tsch_timing N ! tsch_ts_tx_offset) (tsch_current_asn ?m) clock (set_pan_id (f_src_pid frame) N2))
        ((mac_of (tsch_slot_operation_sync (ts - tsch_timing N ! tsch_ts_tx_offset) (tsch_current_asn ?m) clock (set_pan_id (f_src_pid frame) N2)))
           \<lparr>tsch_is_associated := True\<rparr>))
        \<lparr>tsch_is_pan_secured := (security_enabled (f_fcf frame) \<noteq> 0), tx_count := 0, rx_count := 0, sync_count := 0\<rparr> = N3"
      by (simp add: N3_def m3_def N2_def N1_def tsch_slot_operation_sync_def set_pan_id_def set_node_queues_def set_mac_def set_queues_def)
    have 2: "tsch_timing (set_pan_id (f_src_pid frame) N2) = tsch_timing N"
      "tsch_current_asn (mac_of (set_pan_id (f_src_pid frame) N2)) = tsch_current_asn ?m"
      by (simp_all add: set_pan_id_def N2_def N1_def set_node_queues_def set_mac_def set_queues_def)
    show ?thesis
      using jp add(1) upd(1) 1 2 ka cnt tx by (simp add: join_def Let_def N4_def flip: N1_def N2_def)
  qed
  have mi: "mac_inv ns nl nn np m3"
    using set_queues_inv [OF inv upd(2)] upd(3) pan m3(3) unfolding mac_inv_def
    by (simp add: m3 sched_inv_current_link m3_def with_source_def set_queues_def queues_of_def frame802154_set_pan_id_def sched_inv_def frames_inv_def links_inv_def)
  have src: "source_is q2 ?a" "one_source q2" "pkts q2 = pkts (node_queues N)" "packet_memb q2 = packet_memb (node_queues N)"
    using upd(3) add(3,4) same(4,5) by (auto simp: source_is_def with_source_def)
  have N4: "mac_of N4 = m3" "tsch_timing N4 = tsch_timing N" "tsch_hopping_sequence N4 = tsch_hopping_sequence N"
    "tsch_hopping_sequence_length N4 = tsch_hopping_sequence_length N" "tsch_join_priority N4 = tsch_join_priority N"
    by (simp_all add: N4_def N3 N3_def N2_def N1_def set_node_queues_def set_mac_def)
  have "joined ?a (f_src_pid frame) (tsch_current_asn ?m) (ts - tsch_timing N ! tsch_ts_tx_offset) N N4"
    using src m3 unfolding joined_def N4 by (simp add: N4_def N3_def)
  then show ?thesis
    using run mi by (intro exI [of _ N4]) (simp add: N4)
qed

lemma default_ticks: "ticks_of tsch_default_timing_us = Some [59, 4, 131, 95, 118, 131, 72, 26, 68, 79, 139, 819]"
  by code_simp

lemma default_hopping:
  assumes "length (tsch_hopping_sequence N) = TSCH_HOPPING_SEQUENCE_MAX_LEN"
  shows "set_default_hopping N = Some (N\<lparr>tsch_hopping_sequence := [15, 25, 26, 20] @ drop 4 (tsch_hopping_sequence N),
    tsch_hopping_sequence_length := TSCH_ASN_DIVISOR_INIT 4\<rparr>)"
  using assms by (simp add: set_default_hopping_def wr_n_in TSCH_DEFAULT_HOPPING_SEQUENCE_def TSCH_HOPPING_SEQUENCE_MAX_LEN_def numeral_eq_Suc)

text \<open>The parameters that a plain beacon does not carry are the defaults.\<close>

definition default_parameters :: "tsch_node \<Rightarrow> bool" where
  "default_parameters N \<longleftrightarrow> tsch_timing N = [59, 4, 131, 95, 118, 131, 72, 26, 68, 79, 139, 819]
     \<and> take 4 (tsch_hopping_sequence N) = [15, 25, 26, 20] \<and> tsch_hopping_sequence_length N = TSCH_ASN_DIVISOR_INIT 4"

lemma associate_spec:
  assumes parse: "tsch_packet_parse_eb (in_payload inp) (in_len inp) (g_frame g) (g_ies g) 0 = Some (r, f, i, h)" "r \<noteq> 0"
    and f: "security_enabled (f_fcf f) = 0" "f_src_pid f = IEEE802154_PANID"
    and i: "ie_tsch_timeslot_id i = 0" "ie_channel_hopping_sequence_id i = 0" "num_slotframes (ie_tsch_slotframe_and_link i) = 0"
    and jp: "ie_join_priority i < 31" and ready: "join_ready ns nl nn np N (f_src_addr f)"
  shows "\<exists>N'. tsch_associate g inp ts clock N = Some (1, N') \<and> mac_inv ns nl nn np (mac_of N')
    \<and> joined (f_src_addr f) IEEE802154_PANID (ie_asn i) (ts - 131) N N' \<and> tsch_join_priority N' = ie_join_priority i + 1
    \<and> default_parameters N'"
proof -
  define m1 where "m1 = (mac_of N)\<lparr>tsch_current_asn := ie_asn i\<rparr>"
  define N1 where "N1 = (set_mac N m1)\<lparr>tsch_join_priority := ie_join_priority i + 1\<rparr>"
  define N2 where "N2 = N1\<lparr>tsch_timing := [59, 4, 131, 95, 118, 131, 72, 26, 68, 79, 139, 819],
    tsch_hopping_sequence := [15, 25, 26, 20] @ drop 4 (tsch_hopping_sequence N), tsch_hopping_sequence_length := TSCH_ASN_DIVISOR_INIT 4\<rparr>"
  have N2: "mac_of N2 = m1" "tsch_association_count N2 = tsch_association_count N" "tsch_join_priority N2 = ie_join_priority i + 1"
    "node_queues N2 = node_queues N"
    by (simp_all add: N2_def N1_def m1_def set_mac_def queues_of_def)
  have len: "length (tsch_hopping_sequence N1) = TSCH_HOPPING_SEQUENCE_MAX_LEN" "length (tsch_hopping_sequence N) = TSCH_HOPPING_SEQUENCE_MAX_LEN"
    using ready by (simp_all add: join_ready_def N1_def)
  have timing: "set_timing i N1 = Some (N1\<lparr>tsch_timing := [59, 4, 131, 95, 118, 131, 72, 26, 68, 79, 139, 819]\<rparr>)"
    using i default_ticks by (simp add: set_timing_def)
  have hop: "set_hopping i (N1\<lparr>tsch_timing := [59, 4, 131, 95, 118, 131, 72, 26, 68, 79, 139, 819]\<rparr>) = Some (True, N2)"
    using i default_hopping [of "N1\<lparr>tsch_timing := [59, 4, 131, 95, 118, 131, 72, 26, 68, 79, 139, 819]\<rparr>"] len(1)
    by (simp add: set_hopping_def N2_def) (simp add: N1_def)
  have sch: "set_schedule i N2 = Some (True, N2)"
    using i by (simp add: set_schedule_def Let_def)
  have p1: "ie_join_priority i \<noteq> 0xff" "ie_join_priority i + 1 < TSCH_MAX_JOIN_PRIORITY"
    using jp by (auto simp: TSCH_MAX_JOIN_PRIORITY_def word_less_nat_alt unat_word_ariths)
  have mi: "mac_inv ns nl nn np m1"
    using ready by (simp add: join_ready_def m1_def mac_inv_def queues_of_def)
  have ready2: "join_ready ns nl nn np N2 (f_src_addr f)"
    using ready mi len(2) unfolding join_ready_def N2
    by (simp add: N2_def TSCH_HOPPING_SEQUENCE_MAX_LEN_def) (simp add: m1_def queues_of_def)
  have j: "tsch_join_priority N2 < TSCH_MAX_JOIN_PRIORITY" "f_src_pid f \<noteq> 0xffff" "length (tsch_timing N2) = tsch_ts_elements_count"
    "tsch_timing N2 ! tsch_ts_tx_offset = 131"
    using p1 f(2) by (simp_all add: N2_def N1_def IEEE802154_PANID_def tsch_ts_elements_count_def tsch_ts_tx_offset_def)
  obtain N' where N': "join f ts clock N2 = Some (1, N')" "mac_inv ns nl nn np (mac_of N')"
    "joined (f_src_addr f) IEEE802154_PANID (ie_asn i) (ts - 131) N2 N'" "tsch_join_priority N' = ie_join_priority i + 1"
    "tsch_hopping_sequence N' = tsch_hopping_sequence N2" "tsch_hopping_sequence_length N' = tsch_hopping_sequence_length N2"
    "tsch_timing N' = tsch_timing N2"
    using join_spec [OF ready2 j(1-3), of ts clock] f(2) j(4) N2(1,3) by (auto simp: m1_def)
  have "tsch_associate g inp ts clock N = Some (1, N')"
    using parse f p1 timing hop sch N'(1) by (simp add: tsch_associate_def Let_def m1_def N1_def)
  moreover have "joined (f_src_addr f) IEEE802154_PANID (ie_asn i) (ts - 131) N N'"
    using N'(3) N2(1,2,4) unfolding joined_def by (simp add: m1_def)
  moreover have "default_parameters N'"
    using N'(5-7) by (simp add: default_parameters_def N2_def)
  ultimately show ?thesis
    using N'(2,4) by blast
qed



end
