(* ===== verification/Tsch_Slot_Operation.thy ===== *)
theory Tsch_Slot_Operation
  imports Tsch_Node
begin

text \<open>
  The slot operation of \<^verbatim>\<open>tsch-slot-operation.c\<close>: \<open>tx_slot\<close> sends a frame and waits for the acknowledgment, \<open>rx_slot\<close> receives a frame and
  acknowledges it, \<open>tsch_slot_operation\<close> is one round of the loop over the active slots, with the choice of the next one.
  The protothreads yield only to wait for a time; what the radio and the timers return during a slot is the
  record \<open>radio_env\<close>.  The buffer of the radio is read whole, so \<open>r_frame\<close> and \<open>r_ack\<close> are the bytes read, empty if there
  is no valid frame.  CCA is disabled, the timer guard is two ticks, SFD timestamps are not used.
\<close>

record radio_env =
  r_prepare_ok :: bool
  r_transmit_ok :: bool
  r_ack :: "u8 list"
  r_seen :: bool
  r_pending :: bool
  r_frame :: "u8 list"
  r_rssi :: u16
  r_start :: u16
  r_clock :: u32
  r_now :: "nat \<Rightarrow> u16"

definition RTIMER_GUARD :: u16 where "RTIMER_GUARD = 2"

text \<open>\<^verbatim>\<open>US_TO_RTIMERTICKS(TSCH_DEFAULT_TS_RX_WAIT / 4)\<close>\<close>

definition SYNC_IE_BOUND :: "int option" where "SYNC_IE_BOUND = US_TO_RTIMERTICKS (2200 div 4)"

abbreviation asn_of :: "tsch_node \<Rightarrow> asn" where "asn_of N \<equiv> tsch_current_asn (mac_of N)"

section \<open>Synchronisation\<close>

definition nbr_is_time_source :: "tsch_queue \<Rightarrow> ptr \<Rightarrow> bool option" where
  "nbr_is_time_source q n = (case n of None \<Rightarrow> Some False | Some i \<Rightarrow> map_option is_time_source (rd (nbrs q) i))"

definition update_timesync :: "ptr \<Rightarrow> u32 \<Rightarrow> int \<Rightarrow> tsch_node \<Rightarrow> tsch_node option" where
  "update_timesync n since_last_timesync drift N = do {
     slot \<leftarrow> rd (tsch_timing N) tsch_ts_timeslot_length;
     (raise, T) \<leftarrow> tsch_timesync_update slot n (ucast since_last_timesync) drift (timesync N);
     let N = N\<lparr>timesync := T\<rparr>;
     if raise then tsch_set_ka_timeout TSCH_MAX_KEEPALIVE_TIMEOUT N else Some N
   }"

text \<open>The node has heard from the time source \<open>n\<close>: by an acknowledgment, or by a frame.\<close>

definition synchronize :: "ptr \<Rightarrow> int \<Rightarrow> u32 \<Rightarrow> tsch_node \<Rightarrow> tsch_node option" where
  "synchronize n drift clock N = do {
     let since_last_timesync = TSCH_ASN_DIFF (asn_of N) (last_sync_asn N);
     N \<leftarrow> update_timesync n since_last_timesync drift (N\<lparr>drift_correction := drift, is_drift_correction_used := True\<rparr>);
     schedule_keepalive (N\<lparr>last_sync_asn := asn_of N, last_sync_time := clock\<rparr>)
   }"

definition sync_from_ack :: "ptr \<Rightarrow> ieee802154_ies \<Rightarrow> u32 \<Rightarrow> tsch_node \<Rightarrow> tsch_node option" where
  "sync_from_ack n ies clock N = do {
     eack_time_correction \<leftarrow> US_TO_RTIMERTICKS (sint (ie_time_correction ies));
     bound \<leftarrow> SYNC_IE_BOUND;
     let d = (if bound < eack_time_correction then bound else if eack_time_correction < - bound then - bound else eack_time_correction);
     synchronize n d clock N
   }"

section \<open>Transmission\<close>

text \<open>The acknowledgment that was read, if any.  The result is the status of the transmission.\<close>

definition handle_ack :: "garbage \<Rightarrow> radio_env \<Rightarrow> u8 \<Rightarrow> tsch_node \<Rightarrow> (mac_tx_status \<times> tsch_node) option" where
  "handle_ack g env seqno N = (if r_ack env = [] then Some (MAC_TX_NOACK, N) else do {
     a \<leftarrow> nbr_is_time_source (node_queues N) (actual_current_neighbor N);
     c \<leftarrow> nbr_is_time_source (node_queues N) (current_neighbor N);
     ackbuf \<leftarrow> wr_n (take TSCH_PACKET_MAX_LEN (g_bytes g)) 0 (r_ack env);
     (r, _, ack_ies, _) \<leftarrow> tsch_packet_parse_eack (frame802154_get_pan_id (framing (mac_of N))) (linkaddr_node_addr (mac_of N))
        ackbuf (int (length (r_ack env))) seqno (g_frame g) (g_ies g) 0;
     if r = 0 then Some (MAC_TX_NOACK, N)
     else do {
       N \<leftarrow> (if a \<or> c then sync_from_ack (if a then actual_current_neighbor N else current_neighbor N) ack_ies (r_clock env) N else Some N);
       Some (MAC_TX_OK, N)
     }
   })"

text \<open>The bytes of the packet: a beacon first gets the current time.  \<open>b\<close> is the queuebuf of the packet.\<close>

definition ready_packet :: "garbage \<Rightarrow> tsch_packet \<Rightarrow> nat \<Rightarrow> tsch_node \<Rightarrow> (bool \<times> u8 \<times> u8 list \<times> tsch_node) option" where
  "ready_packet g pk b N = do {
     let qs = qbufs (node_queues N);
     dataptr \<leftarrow> queuebuf_dataptr qs b;
     r \<leftarrow> dataptr;
     d \<leftarrow> rd (ram qs) r;
     let packet_len = (ucast (qlen d) :: u8);
     seqno \<leftarrow> rd (qdata d) 2;
     if current_neighbor N = n_eb (node_queues N) then do {
       (ready, packet) \<leftarrow> tsch_packet_update_eb (g_ies g) (asn_of N) (tsch_join_priority N) (qdata d) (int (unat packet_len)) (tsch_sync_ie_offset pk);
       let N = set_node_queues N ((node_queues N)\<lparr>qbufs := qs\<lparr>ram := (ram qs)[r := d\<lparr>qdata := packet\<rparr>]\<rparr>\<rparr>);
       Some (ready \<noteq> 0, seqno, take (unat packet_len) packet, N)
     } else Some (True, seqno, take (unat packet_len) (qdata d), N)
   }"

text \<open>The transmission; when the radio cannot take the frame, the status of the last slot is left in \<^verbatim>\<open>mac_tx_status\<close>.\<close>

definition transmit_packet :: "garbage \<Rightarrow> radio_env \<Rightarrow> tsch_packet \<Rightarrow> nat \<Rightarrow> tsch_node \<Rightarrow> tsch_node option" where
  "transmit_packet g env pk b N = do {
     i \<leftarrow> current_neighbor N;
     nb \<leftarrow> rd (nbrs (node_queues N)) i;
     (ready, seqno, packet, N) \<leftarrow> ready_packet g pk b N;
     if ready \<and> r_prepare_ok env then do {
       let N = N\<lparr>tx_count := tx_count N + 1\<rparr>;
       if r_transmit_ok env then do {
         let N = N\<lparr>sent_frames := sent_frames N @ [packet]\<rparr>;
         if \<not> is_broadcast nb then do {
           (status, N) \<leftarrow> handle_ack g env seqno N;
           Some (N\<lparr>last_tx_status := status\<rparr>)
         } else Some (N\<lparr>last_tx_status := MAC_TX_OK\<rparr>)
       } else Some (N\<lparr>last_tx_status := MAC_TX_ERR\<rparr>)
     } else Some N
   }"

text \<open>The end of the slot: the queue learns the result, and a packet that leaves its queue goes to the ring of dequeued packets.\<close>

definition finish_tx :: "nat \<Rightarrow> tsch_node \<Rightarrow> tsch_node option" where
  "finish_tx p N = do {
     let q = node_queues N;
     pk \<leftarrow> rd (pkts q) p;
     let status = last_tx_status N;
     let q = q\<lparr>pkts := (pkts q)[p := pk\<lparr>transmissions := transmissions pk + 1, ret := status\<rparr>]\<rparr>;
     i \<leftarrow> current_neighbor N;
     nb \<leftarrow> rd (nbrs q) i;
     k \<leftarrow> current_link (sched (mac_of N));
     l \<leftarrow> rd (links (sched (mac_of N))) k;
     let (rnd, N') = random_rand N;
     let N = (if status \<noteq> MAC_TX_OK \<and> \<not> is_broadcast nb \<and> l_options l AND LINK_OPTION_SHARED \<noteq> 0 then N' else N);
     (in_queue, q) \<leftarrow> tsch_queue_packet_sent q i p (l_options l) status (ls4b (asn_of N)) rnd;
     let N = (set_node_queues N q)\<lparr>events_polled := True\<rparr>;
     if in_queue then Some N
     else do {
       arr \<leftarrow> wr (dequeued_array N) (nat (ringbufindex_peek_put (dequeued_ringbuf N))) (Some p);
       Some (N\<lparr>dequeued_array := arr, dequeued_ringbuf := snd (ringbufindex_put (dequeued_ringbuf N))\<rparr>)
     }
   }"

text \<open>\<^verbatim>\<open>tsch_tx_slot\<close>; without a packet the end of it follows a null pointer.\<close>

definition tsch_tx_slot :: "garbage \<Rightarrow> radio_env \<Rightarrow> tsch_node \<Rightarrow> tsch_node option" where
  "tsch_tx_slot g env N = (if ringbufindex_peek_put (dequeued_ringbuf N) = -1 then Some N else do {
     p \<leftarrow> current_packet N;
     pk \<leftarrow> rd (pkts (node_queues N)) p;
     N \<leftarrow> (case qb pk of None \<Rightarrow> Some (N\<lparr>last_tx_status := MAC_TX_ERR_FATAL\<rparr>) | Some b \<Rightarrow> transmit_packet g env pk b N);
     finish_tx p N
   })"

section \<open>Reception\<close>

text \<open>The acknowledgment of a frame from \<open>source_address\<close>; \<open>drift\<close> is in ticks.\<close>

definition send_eack :: "garbage \<Rightarrow> linkaddr \<Rightarrow> u8 \<Rightarrow> int \<Rightarrow> tsch_node \<Rightarrow> tsch_node option" where
  "send_eack g source_address seqno drift N = do {
     us \<leftarrow> RTIMERTICKS_TO_US drift;
     (ack_len, _, ack_buf) \<leftarrow> tsch_packet_create_eack (g_frame g) (framing (mac_of N)) (take TSCH_PACKET_MAX_LEN (g_bytes g))
        (of_nat TSCH_PACKET_MAX_LEN) (Some source_address) seqno (of_int us) 0;
     Some (if 0 < ack_len then N\<lparr>sent_frames := sent_frames N @ [take (nat ack_len) ack_buf]\<rparr> else N)
   }"

text \<open>A valid frame for this node or for all.\<close>

definition accept_frame :: "garbage \<Rightarrow> radio_env \<Rightarrow> frame802154 \<Rightarrow> linkaddr \<Rightarrow> tsch_node \<Rightarrow> tsch_node option" where
  "accept_frame g env frame source_address N = do {
     tx_offset \<leftarrow> rd (tsch_timing N) tsch_ts_tx_offset;
     let N = N\<lparr>rx_count := rx_count N + 1\<rparr>;
     let estimated_drift = sint (current_slot_start N + tx_offset - r_start env);
     N \<leftarrow> (if ack_required (f_fcf frame) \<noteq> 0 then send_eack g source_address (f_seq frame) estimated_drift N else Some N);
     n \<leftarrow> tsch_queue_get_nbr (node_queues N) source_address;
     ts \<leftarrow> nbr_is_time_source (node_queues N) n;
     N \<leftarrow> (if ts then synchronize n (- estimated_drift) (r_clock env) (N\<lparr>sync_count := sync_count N + 1\<rparr>) else Some N);
     Some (N\<lparr>input_ringbuf := snd (ringbufindex_put (input_ringbuf N))\<rparr>)
   }"

text \<open>
  The check of a received frame: the identifier of the network, the addresses, data or beacon.  The addresses are static
  variables.
\<close>

definition check_frame :: "frame802154 \<Rightarrow> int \<Rightarrow> tsch_node \<Rightarrow> (bool \<times> tsch_node) option" where
  "check_frame frame hdr_len N =
     (if 0 < hdr_len \<and> frame802154_check_dest_panid (frame802154_get_pan_id (framing (mac_of N))) frame then do {
        (r, s, d) \<leftarrow> frame802154_extract_linkaddr frame (Some (fst (rx_addresses N))) (Some (snd (rx_addresses N)));
        s \<leftarrow> s;
        d \<leftarrow> d;
        Some (r \<noteq> 0 \<and> (ucast (frame_type (f_fcf frame)) = FRAME802154_DATAFRAME \<or> frame_type (f_fcf frame) = FRAME802154_BEACONFRAME),
          N\<lparr>rx_addresses := (s, d)\<rparr>)
      } else Some (False, N))"

definition tsch_rx_slot :: "garbage \<Rightarrow> radio_env \<Rightarrow> tsch_node \<Rightarrow> tsch_node option" where
  "tsch_rx_slot g env N = (let input_index = ringbufindex_peek_put (input_ringbuf N)
     in if input_index = -1 \<or> \<not> r_seen env \<or> \<not> r_pending env then Some N else do {
       current_input \<leftarrow> rd (input_array N) (nat input_index);
       payload \<leftarrow> wr_n (in_payload current_input) 0 (r_frame env);
       let current_input = \<lparr>in_payload = payload, in_rx_asn = asn_of N, in_len = int (length (r_frame env)), in_rssi = r_rssi env,
         in_channel = current_channel N\<rparr>;
       let N = N\<lparr>input_array := (input_array N)[nat input_index := current_input]\<rparr>;
       (hdr_len, frame) \<leftarrow> frame802154_parse unsecured payload (in_len current_input) (g_frame g);
       (frame_valid, N) \<leftarrow> check_frame frame hdr_len N;
       if frame_valid then do {
         N \<leftarrow> (if linkaddr_cmp (snd (rx_addresses N)) (linkaddr_node_addr (mac_of N)) \<or> linkaddr_cmp (snd (rx_addresses N)) linkaddr_null
               then accept_frame g env frame (fst (rx_addresses N)) N else Some N);
         Some (N\<lparr>events_polled := True\<rparr>)
       } else Some N
     })"

section \<open>The loop over the slots\<close>

definition link_at :: "tsch_node \<Rightarrow> nat \<Rightarrow> tsch_link option" where
  "link_at N k = rd (links (sched (mac_of N))) k"

definition choose_packet :: "tsch_link \<Rightarrow> tsch_node \<Rightarrow> tsch_node option" where
  "choose_packet l N = do {
     (p, n, actual, q) \<leftarrow> get_packet_and_neighbor_for_link (node_queues N) (ls4b (asn_of N)) l;
     let N = set_node_queues N q;
     Some (N\<lparr>current_packet := p, current_neighbor := n,
       actual_current_neighbor := (case actual of None \<Rightarrow> actual_current_neighbor N | Some a \<Rightarrow> a)\<rparr>)
   }"

definition set_current_link :: "ptr \<Rightarrow> tsch_node \<Rightarrow> tsch_node" where
  "set_current_link k N = set_mac N ((mac_of N)\<lparr>sched := (sched (mac_of N))\<lparr>current_link := k\<rparr>\<rparr>)"

text \<open>The active part of a slot; the backup link takes over when there is nothing to send on a link that only sends.\<close>

definition run_slot :: "garbage \<Rightarrow> radio_env \<Rightarrow> tsch_node \<Rightarrow> tsch_node option" where
  "run_slot g env N = (case current_link (sched (mac_of N)) of
     None \<Rightarrow> Some N
   | Some k \<Rightarrow> if lock_requested N then Some N else do {
       let N = N\<lparr>in_slot_operation := True, drift_correction := 0, is_drift_correction_used := False\<rparr>;
       l \<leftarrow> link_at N k;
       N \<leftarrow> choose_packet l N;
       (l, N) \<leftarrow> (case backup_link N of
           None \<Rightarrow> Some (l, N)
         | Some k' \<Rightarrow> if current_packet N = None \<and> l_options l AND LINK_OPTION_RX = 0 then do {
             let N = set_current_link (Some k') N;
             l \<leftarrow> link_at N k';
             N \<leftarrow> choose_packet l N;
             Some (l, N)
           } else Some (l, N));
       if current_packet N \<noteq> None \<or> l_options l AND LINK_OPTION_RX \<noteq> 0 then do {
         c \<leftarrow> tsch_calculate_channel (tsch_hopping_sequence N) (tsch_hopping_sequence_length N) (asn_of N) (ucast (l_channel l));
         let N = N\<lparr>current_channel := c\<rparr>;
         if current_packet N \<noteq> None then tsch_tx_slot g env N else tsch_rx_slot g env N
       } else Some N
     })"

text \<open>
  \<^verbatim>\<open>tsch_schedule_slot_operation\<close>: false if the deadline is missed.  \<^verbatim>\<open>rtimer_set\<close> always succeeds.
\<close>

definition tsch_schedule_slot_operation :: "u16 \<Rightarrow> u16 \<Rightarrow> u16 \<Rightarrow> tsch_node \<Rightarrow> bool \<times> tsch_node" where
  "tsch_schedule_slot_operation now ref_time offset N =
     (if check_timer_miss ref_time (offset - RTIMER_GUARD) now then (False, N)
      else (True, N\<lparr>next_wakeup := ref_time + offset\<rparr>))"

text \<open>The next active link, and the current slot set to it; without a link the next slot.  The result is the number of slots.\<close>

definition advance_slot :: "tsch_node \<Rightarrow> (u16 \<times> tsch_node) option" where
  "advance_slot N = do {
     (best, offs, backup) \<leftarrow> tsch_schedule_get_next_active_link (sched (mac_of N)) (asn_of N);
     timeslot_diff \<leftarrow> (if best = None then Some 1 else offs);
     let N = (set_current_link best N)\<lparr>backup_link := backup\<rparr>;
     Some (timeslot_diff, set_mac N ((mac_of N)\<lparr>tsch_current_asn := TSCH_ASN_INC (asn_of N) (ucast timeslot_diff)\<rparr>))
   }"

definition tick_backoff :: "tsch_node \<Rightarrow> tsch_node option" where
  "tick_backoff N = (case current_link (sched (mac_of N)) of
     None \<Rightarrow> Some N
   | Some k \<Rightarrow> do {
       l \<leftarrow> link_at N k;
       if l_options l AND LINK_OPTION_TX \<noteq> 0 \<and> l_options l AND LINK_OPTION_SHARED \<noteq> 0 then do {
         q \<leftarrow> tsch_queue_update_all_backoff_windows (node_queues N) (l_addr l);
         Some (set_node_queues N q)
       } else Some N
     })"

text \<open>The slots whose deadline is missed are skipped; \<open>k\<close> counts the readings of the timer.\<close>

partial_function (option) next_slot :: "radio_env \<Rightarrow> nat \<Rightarrow> tsch_node \<Rightarrow> tsch_node option" where
  "next_slot env k N = do {
     N \<leftarrow> tick_backoff N;
     (timeslot_diff, N) \<leftarrow> advance_slot N;
     slot \<leftarrow> rd (tsch_timing N) tsch_ts_timeslot_length;
     let time = (word_of_int (uint (timeslot_diff * slot) + drift_correction N) :: u16);
     let N = N\<lparr>drift_correction := 0, is_drift_correction_used := False\<rparr>;
     let prev_slot_start = current_slot_start N;
     (comp, T) \<leftarrow> tsch_timesync_adaptive_compensate time (timesync N);
     let N = N\<lparr>timesync := T, current_slot_start := prev_slot_start + time + word_of_int comp\<rparr>;
     let (ok, N) = tsch_schedule_slot_operation (r_now env k) prev_slot_start time N;
     if ok then Some N else next_slot env (k + 1) N
   }"

text \<open>\<^verbatim>\<open>tsch_slot_operation_start\<close>: the first active slot after association.\<close>

partial_function (option) tsch_slot_operation_start :: "radio_env \<Rightarrow> nat \<Rightarrow> tsch_node \<Rightarrow> tsch_node option" where
  "tsch_slot_operation_start env k N = do {
     (timeslot_diff, N) \<leftarrow> advance_slot N;
     slot \<leftarrow> rd (tsch_timing N) tsch_ts_timeslot_length;
     let time = timeslot_diff * slot;
     let prev_slot_start = current_slot_start N;
     let N = N\<lparr>current_slot_start := prev_slot_start + time\<rparr>;
     let (ok, N) = tsch_schedule_slot_operation (r_now env k) prev_slot_start time N;
     if ok then Some N else tsch_slot_operation_start env (k + 1) N
   }"

text \<open>
  The desynchronisation threshold in slots: \<^verbatim>\<open>100 * TSCH_CLOCK_TO_SLOTS(TSCH_DESYNC_THRESHOLD / 100, slot)\<close>,
  with 153 clock ticks, that is 39168 timer ticks.
\<close>

definition desync_slots :: "u16 \<Rightarrow> u32 option" where
  "desync_slots slot = (if slot = 0 then None else Some (100 * ((15360 div 100 * 32768 div 128) div ucast slot)))"

definition desynchronized :: "tsch_node \<Rightarrow> bool option" where
  "desynchronized N = (if is_coordinator (node_queues N) then Some False else do {
     slot \<leftarrow> rd (tsch_timing N) tsch_ts_timeslot_length;
     limit \<leftarrow> desync_slots slot;
     Some (limit < TSCH_ASN_DIFF (asn_of N) (last_sync_asn N))
   })"

definition tsch_slot_operation :: "garbage \<Rightarrow> radio_env \<Rightarrow> tsch_node \<Rightarrow> tsch_node option" where
  "tsch_slot_operation g env N = (if \<not> tsch_is_associated (mac_of N) then Some N else do {
     N \<leftarrow> run_slot g env N;
     lost \<leftarrow> desynchronized N;
     N \<leftarrow> (if lost then Some (disassociate (N\<lparr>timesync := (timesync N)\<lparr>last_timesource_neighbor := None\<rparr>\<rparr>)) else next_slot env 0 N);
     Some (N\<lparr>in_slot_operation := False\<rparr>)
   })"

end
