(* ===== verification/Tsch_Process.thy ===== *)
theory Tsch_Process
  imports Tsch_Join Tsch_Slot_Operation
begin

text \<open>
  The main process of \<^verbatim>\<open>tsch.c\<close>.  In the phase \<open>Scanning\<close> the next thing it does is a round of the scan; the first comes at once, the
  others after a timer has expired.  In the phase \<open>Running\<close> the node is associated, the timer interrupt runs the slots and the process
  waits until the node has left the network.
\<close>

datatype phase = Scanning | Running

definition enter_loop :: "radio_env \<Rightarrow> u16 \<Rightarrow> u32 \<Rightarrow> tsch_node \<Rightarrow> (phase \<times> tsch_node) option" where
  "enter_loop env rt clock N =
     (if \<not> tsch_is_associated (mac_of N) \<and> \<not> is_coordinator (node_queues N) then Some (Scanning, scan_start clock N)
      else do {
        N \<leftarrow> (if tsch_is_associated (mac_of N) then Some N else tsch_start_coordinator rt clock N);
        N \<leftarrow> tsch_slot_operation_start env 0 N;
        Some (Running, N)
      })"

definition tsch_process :: "garbage \<Rightarrow> radio_env \<Rightarrow> u16 \<Rightarrow> u32 \<Rightarrow> (u8 list \<times> u16) option \<Rightarrow> phase \<times> tsch_node \<Rightarrow> (phase \<times> tsch_node) option" where
  "tsch_process g env rt clock received = (\<lambda>(phase, N). case phase of
     Scanning \<Rightarrow> do {
       N \<leftarrow> scan_round g clock received N;
       if \<not> tsch_is_associated (mac_of N) \<and> \<not> is_coordinator (node_queues N) then Some (Scanning, N) else enter_loop env rt clock N
     }
   | Running \<Rightarrow> if tsch_is_associated (mac_of N) then Some (Running, N) else do {
       N \<leftarrow> tsch_reset g clock (N\<lparr>process_polled := False\<rparr>);
       enter_loop env rt clock N
     })"

end
