(* ===== verification/Tsch_Exchange.thy ===== *)
theory Tsch_Exchange
  imports Tsch_Slot_Operation
begin

text \<open>
  One frame from the queue of a node to the input ring of its neighbor, and the acknowledgment back: what \<open>tsch_tx_slot\<close> of the one and
  \<open>tsch_rx_slot\<close> of the other do in the same slot.
\<close>

section \<open>Synchronisation never fails\<close>

text \<open>The times that a frame may be early or late are exact in microseconds: the conversion back gives the same ticks.\<close>

lemma drift_microseconds:
  assumes "\<bar>t\<bar> \<le> 36"
  obtains us where "RTIMERTICKS_TO_US t = Some us" "\<bar>us\<bar> < 2048" "US_TO_RTIMERTICKS us = Some t"
proof -
  have all: "list_all (\<lambda>t. case RTIMERTICKS_TO_US t of None \<Rightarrow> False | Some us \<Rightarrow> \<bar>us\<bar> < 2048 \<and> US_TO_RTIMERTICKS us = Some t) [-36 .. 36]"
    by code_simp
  have "t \<in> set [-36 .. 36]"
    using assms unfolding set_upto atLeastAtMost_iff by linarith
  with all have "case RTIMERTICKS_TO_US t of None \<Rightarrow> False | Some us \<Rightarrow> \<bar>us\<bar> < 2048 \<and> US_TO_RTIMERTICKS us = Some t"
    by (simp only: list_all_iff)
  then show thesis
    using that by (auto split: option.splits)
qed

lemma sync_ie_bound: "SYNC_IE_BOUND = Some 18"
  by code_simp

text \<open>What synchronisation relies on: the timing of a node that has associated, and not more ticks compensated since the last synchronisation than fit.\<close>

definition default_ticks :: "u16 list" where
  "default_ticks = [59, 4, 131, 95, 118, 131, 72, 26, 68, 79, 139, 819]"

definition sync_ok :: "tsch_node \<Rightarrow> bool" where
  "sync_ok N \<longleftrightarrow> tsch_timing N = default_ticks \<and> ka_ok (node_queues N) \<and> ts_ok (timesync N) \<and> \<bar>compensated_ticks (timesync N)\<bar> \<le> 60000"

text \<open>The node after synchronisation by \<open>d\<close> ticks: only times and timers have changed.\<close>

definition synced :: "int \<Rightarrow> tsch_node \<Rightarrow> tsch_node \<Rightarrow> bool" where
  "synced d N N' \<longleftrightarrow> (\<exists>kt. net N' = (net N)\<lparr>mac := set_queues (mac_of N) ((node_queues N)\<lparr>ka_timeout := kt\<rparr>)\<rparr>)
     \<and> input_ringbuf N' = input_ringbuf N \<and> input_array N' = input_array N
     \<and> dequeued_ringbuf N' = dequeued_ringbuf N \<and> dequeued_array N' = dequeued_array N
     \<and> current_packet N' = current_packet N \<and> current_neighbor N' = current_neighbor N
     \<and> sent_frames N' = sent_frames N \<and> drift_correction N' = d \<and> is_drift_correction_used N' \<and> last_sync_asn N' = asn_of N
     \<and> ts_ok (timesync N') \<and> ka_ok (node_queues N') \<and> tsch_timing N' = tsch_timing N"

lemma set_same_queues: "net N = (net N)\<lparr>mac := set_queues (mac_of N) ((node_queues N)\<lparr>ka_timeout := ka_timeout (node_queues N)\<rparr>)\<rparr>"
  by (simp add: set_queues_def queues_of_def)

lemma synchronize_spec:
  assumes ok: "sync_ok N" and d: "\<bar>d\<bar> \<le> 2147"
  obtains N' where "synchronize n d clock N = Some N'" "synced d N N'"
proof -
  let ?delta = "ucast (TSCH_ASN_DIFF (asn_of N) (last_sync_asn N)) :: u16"
  let ?N1 = "N\<lparr>drift_correction := d, is_drift_correction_used := True\<rparr>"
  have o: "tsch_timing N = default_ticks" "ka_ok (node_queues N)" "ts_ok (timesync N)" "\<bar>compensated_ticks (timesync N)\<bar> \<le> 60000"
    using ok by (simp_all add: sync_ok_def)
  have slot: "rd (tsch_timing N) tsch_ts_timeslot_length = Some 819"
    by (simp add: o(1) default_ticks_def tsch_ts_timeslot_length_def rd_in)
  obtain raise T where T: "tsch_timesync_update 819 n ?delta d (timesync N) = Some (raise, T)" "ts_ok T"
    by (rule timesync_update_total [OF o(3) d o(4), of n ?delta])
  let ?N2 = "?N1\<lparr>timesync := T\<rparr>"
  have "\<exists>kt t k. update_timesync n (TSCH_ASN_DIFF (asn_of N) (last_sync_asn N)) d ?N1
      = Some ((set_node_queues ?N2 ((node_queues N)\<lparr>ka_timeout := kt\<rparr>))\<lparr>keepalive_timer := t, rand_pos := k\<rparr>)
      \<and> (kt = 0 \<or> 10 \<le> kt)"
  proof (cases raise)
    case False
    have "set_node_queues ?N2 ((node_queues N)\<lparr>ka_timeout := ka_timeout (node_queues N)\<rparr>)\<lparr>keepalive_timer := keepalive_timer N, rand_pos := rand_pos N\<rparr> = ?N2"
      by (simp add: set_node_queues_def set_mac_def set_queues_def queues_of_def)
    moreover have "ka_timeout (node_queues N) = 0 \<or> 10 \<le> ka_timeout (node_queues N)"
      using o(2) by (simp add: ka_ok_def)
    moreover have "update_timesync n (TSCH_ASN_DIFF (asn_of N) (last_sync_asn N)) d ?N1 = Some ?N2"
      using False T(1) by (simp add: update_timesync_def slot)
    ultimately show ?thesis
      by metis
  next
    case True
    let ?N3 = "set_node_queues ?N2 ((node_queues N)\<lparr>ka_timeout := TSCH_MAX_KEEPALIVE_TIMEOUT\<rparr>)"
    have "ka_ok (node_queues ?N3)"
      by (simp add: ka_ok_def TSCH_MAX_KEEPALIVE_TIMEOUT_def)
    then obtain t k where "schedule_keepalive ?N3 = Some (?N3\<lparr>keepalive_timer := t, rand_pos := k\<rparr>)"
      by (rule schedule_keepalive)
    then have "update_timesync n (TSCH_ASN_DIFF (asn_of N) (last_sync_asn N)) d ?N1 = Some (?N3\<lparr>keepalive_timer := t, rand_pos := k\<rparr>)"
      using True T(1) by (simp add: update_timesync_def slot tsch_set_ka_timeout_def TSCH_MAX_KEEPALIVE_TIMEOUT_def)
    moreover have "(10 :: u32) \<le> TSCH_MAX_KEEPALIVE_TIMEOUT"
      by (simp add: TSCH_MAX_KEEPALIVE_TIMEOUT_def)
    ultimately show ?thesis
      by blast
  qed
  then obtain kt t k where u: "update_timesync n (TSCH_ASN_DIFF (asn_of N) (last_sync_asn N)) d ?N1
      = Some ((set_node_queues ?N2 ((node_queues N)\<lparr>ka_timeout := kt\<rparr>))\<lparr>keepalive_timer := t, rand_pos := k\<rparr>)" "kt = 0 \<or> 10 \<le> kt"
    by blast
  define N4 where "N4 = ((set_node_queues ?N2 ((node_queues N)\<lparr>ka_timeout := kt\<rparr>))\<lparr>keepalive_timer := t, rand_pos := k\<rparr>)
      \<lparr>last_sync_asn := asn_of N, last_sync_time := clock\<rparr>"
  have "ka_ok (node_queues N4)"
    using u(2) by (simp add: N4_def ka_ok_def)
  then obtain t' k' where s: "schedule_keepalive N4 = Some (N4\<lparr>keepalive_timer := t', rand_pos := k'\<rparr>)"
    by (rule schedule_keepalive)
  have "synchronize n d clock N = Some (N4\<lparr>keepalive_timer := t', rand_pos := k'\<rparr>)"
    using u(1) s by (simp add: synchronize_def N4_def Let_def)
  moreover have "synced d N (N4\<lparr>keepalive_timer := t', rand_pos := k'\<rparr>)"
    using u(2) T(2) by (auto simp: synced_def N4_def set_node_queues_def set_mac_def ka_ok_def)
  ultimately show thesis
    by (rule that)
qed

section \<open>The frame on the air\<close>

text \<open>A packet of data from one node to another, as \<open>send_packet\<close> prepares it.\<close>

definition unicast_data :: "pbuf \<Rightarrow> linkaddr \<Rightarrow> linkaddr \<Rightarrow> bool" where
  "unicast_data b src dst \<longleftrightarrow> pb_inv b \<and> pb_attrs b PACKETBUF_ATTR_FRAME_TYPE = FRAME802154_DATAFRAME \<and> pb_attrs b PACKETBUF_ATTR_MAC_ACK = 1
     \<and> pb_attrs b PACKETBUF_ATTR_MAC_METADATA \<in> {0, 1} \<and> pb_attrs b PACKETBUF_ATTR_MAC_NO_SRC_ADDR = 0
     \<and> pb_attrs b PACKETBUF_ATTR_MAC_NO_DEST_ADDR = 0 \<and> pb_addrs b PACKETBUF_ADDR_SENDER = src \<and> pb_addrs b PACKETBUF_ADDR_RECEIVER = dst
     \<and> \<not> broadcast_addr src \<and> \<not> broadcast_addr dst"

abbreviation seqno_of :: "pbuf \<Rightarrow> u8" where
  "seqno_of b \<equiv> ucast (pb_attrs b PACKETBUF_ATTR_MAC_SEQNO)"

lemma unicast_expressible: "unicast_data b src dst \<Longrightarrow> expressible b"
  by (auto simp: unicast_data_def expressible_def FRAME802154_DATAFRAME_def)

lemma unicast_addrs:
  assumes "unicast_data b src dst"
  shows "linkaddr_ok src" "linkaddr_ok dst"
  using assms unfolding unicast_data_def pb_inv_def by metis+

lemma unicast_length: "unicast_data b src dst \<Longrightarrow> length (packet_header fs b) = 21"
  using length_packet_header [of b fs] by (simp add: unicast_data_def broadcast_addr_def)

lemma unicast_seqno:
  assumes "unicast_data b src dst"
  shows "packet_header fs b ! 2 = seqno_of b"
proof -
  have b: "pb_inv b" and n: "pb_addrs b PACKETBUF_ADDR_RECEIVER \<noteq> linkaddr_null"
    using assms by (auto simp: unicast_data_def broadcast_addr_def)
  note p = canonical_params [OF b unicast_expressible [OF assms], of fs]
  obtain l where "field_len unsecured (frame_params fs b) = (frame_params fs b, l)"
    using frame_params_version [of fs b] by (metis prod.collapse)
  moreover from this have "seqno_len l = 1"
    using p(7) n by (auto simp: field_len_def Let_def split: prod.splits)
  ultimately have "header_bytes unsecured (frame_params fs b) ! 2 = f_seq (frame_params fs b)"
    by (simp add: header_bytes_def Let_def)
  then show ?thesis
    by (simp add: packet_header_def p(5))
qed

lemma unicast_parsed:
  assumes u: "unicast_data b src dst" and g: "struct_ok g" and len: "21 \<le> len"
  shows "\<exists>f. frame802154_parse unsecured (packet_header fs b @ rest) len g = Some (21, f) \<and> f_seq f = seqno_of b
    \<and> ack_required (f_fcf f) = 1 \<and> ucast (frame_type (f_fcf f)) = FRAME802154_DATAFRAME \<and> frame802154_check_dest_panid (mac_pan_id fs) f
    \<and> (\<forall>s d. frame802154_extract_linkaddr f (Some s) (Some d) = Some (1, Some src, Some dst))"
proof -
  have b: "pb_inv b" and n: "pb_addrs b PACKETBUF_ADDR_RECEIVER \<noteq> linkaddr_null"
    using u by (auto simp: unicast_data_def broadcast_addr_def)
  let ?p = "frame_params fs b"
  note p = canonical_params [OF b unicast_expressible [OF u], of fs]
  have l: "length (header_bytes unsecured ?p) = 21"
    using unicast_length [OF u, of fs] by (simp add: packet_header_def)
  obtain f where f: "frame802154_parse unsecured (packet_header fs b @ rest) len g = Some (21, f)" "same_header unsecured ?p f"
    using parse_header [OF p(1) g, of len rest] len l by (auto simp: packet_header_def)
  have s: "f_fcf f = f_fcf ?p" "f_seq f = seqno_of b" "f_dest_addr f = dst" "f_src_addr f = src" "f_dest_pid f = mac_pan_id fs"
    using f(2) p(2-5,7) n u by (simp_all add: same_header_def unicast_data_def)
  have a: "length src = 8" "length dst = 8" "src \<noteq> replicate 8 0xff" "dst \<noteq> replicate 8 0xff"
    using u b by (auto simp: unicast_data_def broadcast_addr_def pb_inv_def linkaddr_ok_def LINKADDR_SIZE_def)
  have nb: "\<not> packetbuf_holds_broadcast b"
    using b n by (simp add: packetbuf_holds_broadcast_def pb_inv_def)
  have m: "src_addr_mode (f_fcf ?p) = 3" "dest_addr_mode (f_fcf ?p) = 3" "ack_required (f_fcf ?p) = 1" "frame_version (f_fcf ?p) = 2"
    "panid_compression (f_fcf ?p) = 0"
    using u nb
    by (simp_all add: unicast_data_def frame_params_def framer_802154_setup_params_def Let_def packetbuf_addr_def packetbuf_attr_def
        frame_constants FRAME802154_VERSION_def LINKADDR_SIZE_def pb_inv_def)
  have "frame802154_check_dest_panid (mac_pan_id fs) f"
    by (simp add: frame802154_check_dest_panid_def frame802154_has_panid_def Let_def s m frame_constants)
  moreover have "frame802154_extract_linkaddr f (Some x) (Some y) = Some (1, Some src, Some dst)" for x y
    using a by (simp add: frame802154_extract_linkaddr_def extract_addr_def s m frame_constants frame802154_is_broadcast_addr_def all_ff_spec Let_def
        LINKADDR_SIZE_def)
  moreover have "ucast (frame_type (f_fcf f)) = FRAME802154_DATAFRAME"
    using p(8) u by (simp add: s unicast_data_def FRAME802154_DATAFRAME_def)
  ultimately show ?thesis
    using f(1) s m by auto
qed

section \<open>The receiver\<close>

text \<open>A node that can store one more frame.\<close>

definition rx_ready :: "garbage \<Rightarrow> tsch_node \<Rightarrow> bool" where
  "rx_ready g N \<longleftrightarrow> ring_ok 2 (input_ringbuf N, input_array N) \<and> length (ring_contents 2 (input_ringbuf N, input_array N)) < 3
     \<and> (\<forall>e \<in> set (input_array N). length (in_payload e) = 96) \<and> struct_ok (g_frame g) \<and> 96 \<le> length (g_bytes g)"

lemma rx_slot_index:
  assumes "rx_ready g N"
  obtains i where "ringbufindex_peek_put (input_ringbuf N) = int i" "i < length (input_array N)" "length (in_payload (input_array N ! i)) = 96"
    "\<forall>e. ring_ok 2 (snd (ringbufindex_put (input_ringbuf N)), (input_array N)[i := e])
      \<and> ring_contents 2 (snd (ringbufindex_put (input_ringbuf N)), (input_array N)[i := e]) = ring_contents 2 (input_ringbuf N, input_array N) @ [e]"
proof -
  let ?q = "(input_ringbuf N, input_array N)"
  have ok: "ring_ok 2 ?q" "length (ring_contents 2 ?q) < 3" "ring_inv 2 (input_ringbuf N)" "length (input_array N) = 4"
    using assms by (simp_all add: rx_ready_def ring_ok_def)
  have room: "length (ring_contents 2 ?q) \<noteq> ring_cap 2 ?q"
    using ok(2) by (simp add: ring_cap_def)
  define i where "i = put_nat (input_ringbuf N)"
  have i: "ringbufindex_peek_put (input_ringbuf N) = int i"
    using ring_put_result [OF ok(3)] room by (auto simp: i_def ring_cap_def split: if_splits)
  have lt: "i < length (input_array N)"
    using put_nat_less [OF ok(3)] ok(4) by (simp add: i_def)
  moreover have "length (in_payload (input_array N ! i)) = 96"
    using assms lt by (simp add: rx_ready_def)
  moreover have "ring_ok 2 (snd (ringbufindex_put (input_ringbuf N)), (input_array N)[i := e])
      \<and> ring_contents 2 (snd (ringbufindex_put (input_ringbuf N)), (input_array N)[i := e]) = ring_contents 2 ?q @ [e]" for e
    using ring_fifo.enq_law [OF ok(1), of e] room i by (simp add: ring_enq_def)
  ultimately show thesis
    using i by (intro that) blast+
qed

text \<open>The acknowledgment that is sent.\<close>

lemma send_eack_spec:
  assumes t: "\<bar>t\<bar> \<le> 36" and us: "RTIMERTICKS_TO_US t = Some us" and g: "96 \<le> length (g_bytes g)" and a: "linkaddr_ok src"
  shows "send_eack g src seqno t N
    = Some (N\<lparr>sent_frames := sent_frames N @ [eack_bytes (framing (mac_of N)) (Some src) seqno (of_int us) 0]\<rparr>)"
proof -
  let ?e = "eack_bytes (framing (mac_of N)) (Some src) seqno (of_int us) 0"
  have a8: "\<forall>x. Some src = Some x \<longrightarrow> length x = 8"
    using a by (simp add: linkaddr_ok_def LINKADDR_SIZE_def)
  have l: "length ?e = 17"
    using eack_canonical(2) [OF a8, of "framing (mac_of N)" seqno] by (simp add: eack_bytes_def correction_bytes_def)
  obtain attrs rest where "tsch_packet_create_eack (g_frame g) (framing (mac_of N)) (take TSCH_PACKET_MAX_LEN (g_bytes g)) (of_nat TSCH_PACKET_MAX_LEN)
      (Some src) seqno (of_int us) 0 = Some (17, attrs, ?e @ rest)"
    using create_eack [of "of_nat TSCH_PACKET_MAX_LEN" "take TSCH_PACKET_MAX_LEN (g_bytes g)" "Some src", OF _ _ a8, of "g_frame g"
        "framing (mac_of N)" seqno "of_int us" 0] g l by (auto simp: TSCH_PACKET_MAX_LEN_def)
  with us l show ?thesis
    by (simp add: send_eack_def)
qed

text \<open>The node has not changed but for the time of its next keep-alive message.\<close>

definition same_net :: "tsch_node \<Rightarrow> tsch_node \<Rightarrow> bool" where
  "same_net N N' \<longleftrightarrow> (\<exists>kt. net N' = (net N)\<lparr>mac := set_queues (mac_of N) ((node_queues N)\<lparr>ka_timeout := kt\<rparr>)\<rparr>)"

lemma same_netI: "net N' = net N \<Longrightarrow> same_net N N'"
  unfolding same_net_def using set_same_queues by metis

definition from_time_source :: "tsch_queue \<Rightarrow> linkaddr \<Rightarrow> bool" where
  "from_time_source q a \<longleftrightarrow> (\<exists>i \<in> set (neighbor_list q). naddr (nbrs q ! i) = a \<and> is_time_source (nbrs q ! i))"

lemma sender_is_time_source:
  assumes inv: "tq_inv nn np q" and unl: "\<not> locked q" and a: "linkaddr_ok a"
  obtains n where "tsch_queue_get_nbr q a = Some n" "nbr_is_time_source q n = Some (from_time_source q a)"
  using inv unl a
proof (cases rule: get_nbr_spec)
  case (found i)
  have "is_time_source (nbrs q ! i) = from_time_source q a"
    using found tq_inj_addr [OF inv] by (auto simp: from_time_source_def)
  then show thesis
    using tq_rd [OF inv tq_list_live [OF inv found(2)]] by (intro that [OF found(1)]) (simp add: nbr_is_time_source_def)
next
  case absent
  then show thesis
    by (intro that [OF absent(1)]) (auto simp: nbr_is_time_source_def from_time_source_def)
qed

lemma accept_frame_spec:
  assumes inv: "tq_inv nn np (node_queues N)" "\<not> locked (node_queues N)" and ok: "sync_ok N" and a: "linkaddr_ok src" and g: "96 \<le> length (g_bytes g)"
    and t: "t = sint (current_slot_start N + 131 - r_start env)" "\<bar>t\<bar> \<le> 36" and us: "RTIMERTICKS_TO_US t = Some us"
    and f: "ack_required (f_fcf frame) = 1" "f_seq frame = seqno"
  obtains N' where "accept_frame g env frame src N = Some N'" "same_net N N'"
    "sent_frames N' = sent_frames N @ [eack_bytes (framing (mac_of N)) (Some src) seqno (of_int us) 0]"
    "input_ringbuf N' = snd (ringbufindex_put (input_ringbuf N))" "input_array N' = input_array N"
    "dequeued_ringbuf N' = dequeued_ringbuf N" "dequeued_array N' = dequeued_array N"
    "drift_correction N' = (if from_time_source (node_queues N) src then - t else drift_correction N)"
proof -
  let ?N1 = "N\<lparr>rx_count := rx_count N + 1\<rparr>"
  let ?N2 = "?N1\<lparr>sent_frames := sent_frames N @ [eack_bytes (framing (mac_of N)) (Some src) seqno (of_int us) 0]\<rparr>"
  have off: "rd (tsch_timing N) tsch_ts_tx_offset = Some 131"
    using ok by (simp add: sync_ok_def default_ticks_def tsch_ts_tx_offset_def rd_in)
  have e: "send_eack g src seqno t ?N1 = Some ?N2"
    using send_eack_spec [OF t(2) us g a, of seqno ?N1] by simp
  obtain n where n: "tsch_queue_get_nbr (node_queues N) src = Some n"
    "nbr_is_time_source (node_queues N) n = Some (from_time_source (node_queues N) src)"
    by (rule sender_is_time_source [OF inv a])
  show thesis
  proof (cases "from_time_source (node_queues N) src")
    case False
    then have "accept_frame g env frame src N = Some (?N2\<lparr>input_ringbuf := snd (ringbufindex_put (input_ringbuf N))\<rparr>)"
      using e n off f by (simp add: accept_frame_def t(1) [symmetric] Let_def)
    then show thesis
      by (rule that) (use False in \<open>auto intro: same_netI\<close>)
  next
    case True
    let ?N3 = "?N2\<lparr>sync_count := sync_count N + 1\<rparr>"
    have "sync_ok ?N3" "\<bar>- t\<bar> \<le> 2147"
      using ok t(2) by (simp_all add: sync_ok_def)
    then obtain N4 where N4: "synchronize n (- t) (r_clock env) ?N3 = Some N4" "synced (- t) ?N3 N4"
      by (rule synchronize_spec)
    have "accept_frame g env frame src N = Some (N4\<lparr>input_ringbuf := snd (ringbufindex_put (input_ringbuf N4))\<rparr>)"
      using True e n off f N4(1) by (simp add: accept_frame_def t(1) [symmetric] Let_def)
    then show thesis
      by (rule that) (use True N4(2) in \<open>auto simp: synced_def same_net_def\<close>)
  qed
qed

lemma rx_slot_spec:
  assumes r: "rx_ready g N" and inv: "tq_inv nn np (node_queues N)" "\<not> locked (node_queues N)" and ok: "sync_ok N"
    and u: "unicast_data b src (linkaddr_node_addr (mac_of N))" and pan: "mac_pan_id fs = mac_pan_id (framing (mac_of N))"
    and e: "r_seen env" "r_pending env" "r_frame env = packet_header fs b @ payload" "length (r_frame env) \<le> 96"
    and t: "t = sint (current_slot_start N + 131 - r_start env)" "\<bar>t\<bar> \<le> 36" and us: "RTIMERTICKS_TO_US t = Some us"
  obtains N' post where "tsch_rx_slot g env N = Some N'" "same_net N N'"
    "sent_frames N' = sent_frames N @ [eack_bytes (framing (mac_of N)) (Some src) (seqno_of b) (of_int us) 0]"
    "ring_ok 2 (input_ringbuf N', input_array N')" "length (r_frame env) + length post = 96"
    "ring_contents 2 (input_ringbuf N', input_array N') = ring_contents 2 (input_ringbuf N, input_array N)
       @ [\<lparr>in_payload = r_frame env @ post, in_rx_asn = asn_of N, in_len = int (length (r_frame env)), in_rssi = r_rssi env, in_channel = current_channel N\<rparr>]"
    "dequeued_ringbuf N' = dequeued_ringbuf N" "dequeued_array N' = dequeued_array N" "events_polled N'"
    "drift_correction N' = (if from_time_source (node_queues N) src then - t else drift_correction N)"
proof -
  obtain i where i: "ringbufindex_peek_put (input_ringbuf N) = int i" "i < length (input_array N)" "length (in_payload (input_array N ! i)) = 96"
    "\<forall>e. ring_ok 2 (snd (ringbufindex_put (input_ringbuf N)), (input_array N)[i := e])
      \<and> ring_contents 2 (snd (ringbufindex_put (input_ringbuf N)), (input_array N)[i := e]) = ring_contents 2 (input_ringbuf N, input_array N) @ [e]"
    by (rule rx_slot_index [OF r])
  define post where "post = drop (length (r_frame env)) (in_payload (input_array N ! i))"
  have w: "wr_n (in_payload (input_array N ! i)) 0 (r_frame env) = Some (r_frame env @ post)"
    using e(4) i(3) by (simp add: post_def wr_n_in)
  have lp: "length (r_frame env) + length post = 96"
    using e(4) i(3) by (simp add: post_def)
  define entry where "entry = \<lparr>in_payload = r_frame env @ post, in_rx_asn = asn_of N, in_len = int (length (r_frame env)), in_rssi = r_rssi env,
    in_channel = current_channel N\<rparr>"
  define N1 where "N1 = N\<lparr>input_array := (input_array N)[i := entry]\<rparr>"
  have g: "struct_ok (g_frame g)" "96 \<le> length (g_bytes g)"
    using r by (simp_all add: rx_ready_def)
  have l21: "21 \<le> int (length (r_frame env))"
    using unicast_length [OF u, of fs] by (simp add: e(3))
  obtain f where f: "frame802154_parse unsecured (r_frame env @ post) (int (length (r_frame env))) (g_frame g) = Some (21, f)" "f_seq f = seqno_of b"
    "ack_required (f_fcf f) = 1" "ucast (frame_type (f_fcf f)) = FRAME802154_DATAFRAME" "frame802154_check_dest_panid (mac_pan_id fs) f"
    "\<And>s d. frame802154_extract_linkaddr f (Some s) (Some d) = Some (1, Some src, Some (linkaddr_node_addr (mac_of N)))"
    using unicast_parsed [OF u g(1) l21, of fs "payload @ post"] by (auto simp: e(3))
  have chk: "check_frame f 21 N1 = Some (True, N1\<lparr>rx_addresses := (src, linkaddr_node_addr (mac_of N))\<rparr>)"
    using f(4-6) pan by (simp add: check_frame_def N1_def frame802154_get_pan_id_def)
  let ?N2 = "N1\<lparr>rx_addresses := (src, linkaddr_node_addr (mac_of N))\<rparr>"
  have ok8: "linkaddr_ok src" "linkaddr_ok (linkaddr_node_addr (mac_of N))"
    using unicast_addrs [OF u] by simp_all
  have N2: "tq_inv nn np (node_queues ?N2)" "\<not> locked (node_queues ?N2)" "sync_ok ?N2" "t = sint (current_slot_start ?N2 + 131 - r_start env)"
    using inv ok t(1) by (simp_all add: N1_def sync_ok_def)
  obtain N' where N': "accept_frame g env f src ?N2 = Some N'" "same_net ?N2 N'"
    "sent_frames N' = sent_frames ?N2 @ [eack_bytes (framing (mac_of ?N2)) (Some src) (seqno_of b) (of_int us) 0]"
    "input_ringbuf N' = snd (ringbufindex_put (input_ringbuf ?N2))" "input_array N' = input_array ?N2"
    "dequeued_ringbuf N' = dequeued_ringbuf ?N2" "dequeued_array N' = dequeued_array ?N2"
    "drift_correction N' = (if from_time_source (node_queues ?N2) src then - t else drift_correction ?N2)"
    by (rule accept_frame_spec [OF N2(1-3) ok8(1) g(2) N2(4) t(2) us f(3,2)])
  have self: "linkaddr_cmp (linkaddr_node_addr (mac_of N)) (linkaddr_node_addr (mac_of N1))"
    using ok8(2) by (simp add: N1_def)
  have "tsch_rx_slot g env N = Some (N'\<lparr>events_polled := True\<rparr>)"
    using e(1,2) i(1,2) w f(1) chk N'(1) self by (simp add: tsch_rx_slot_def Let_def rd_in entry_def [symmetric] N1_def [symmetric])
  then show thesis
    by (rule that) (use N'(2-8) i(4) lp in \<open>auto simp: N1_def entry_def same_net_def\<close>)
qed

section \<open>The sender\<close>

lemma aqueue_cong: "nbrs q' = nbrs q \<Longrightarrow> neighbor_list q' = neighbor_list q \<Longrightarrow> aqueue q' = aqueue q"
  by (simp add: fun_eq_iff aqueue_def split: option.split)

lemma queue_frame [simp]:
  "aqueue (q\<lparr>ka_timeout := kt\<rparr>) = aqueue q" "tq_inv nn np (q\<lparr>ka_timeout := kt\<rparr>) = tq_inv nn np q" "packet_ttl (q\<lparr>ka_timeout := kt\<rparr>) p = packet_ttl q p"
  by (rule aqueue_cong; simp) (simp_all add: tq_defs packet_ttl_def)

lemma packet_sent_aqueue:
  assumes inv: "tq_inv nn np q" and unl: "\<not> locked q" and i: "i \<in> set (neighbor_list q)" and head: "queue_of q i = Some p # rest"
  obtains keep q' where "tsch_queue_packet_sent q i p opts status now rnd = Some (keep, q')" "tq_inv nn np q'"
    "keep \<longleftrightarrow> status \<noteq> MAC_TX_OK \<and> transmissions (pkts q ! p) < retransmission_limit now (packet_ttl q p) (transmissions (pkts q ! p))"
    "aqueue q' = (if keep then aqueue q else (aqueue q)(naddr (nbrs q ! i) := map the rest))" "pkt_live q' = pkt_live q"
proof -
  obtain keep q' where r: "tsch_queue_packet_sent q i p opts status now rnd = Some (keep, q')" "tq_inv nn np q'"
    "keep \<longleftrightarrow> status \<noteq> MAC_TX_OK \<and> transmissions (pkts q ! p) < retransmission_limit now (packet_ttl q p) (transmissions (pkts q ! p))"
    "queue_of q' i = (if keep then queue_of q i else rest)"
    "\<forall>j. j \<noteq> i \<longrightarrow> nbrs q' ! j = nbrs q ! j" "neighbor_list q' = neighbor_list q"
    "nbrs q' ! i = backoff_after (status = MAC_TX_OK) (opts AND LINK_OPTION_SHARED \<noteq> 0) (rest = [])
        rnd ((nbrs q ! i)\<lparr>tx_ringbuf := tx_ringbuf (nbrs q' ! i)\<rparr>)" "pkt_live q' = pkt_live q"
    using packet_sent_result [OF inv unl i head, of opts status now rnd] by blast
  have same: "naddr (backoff_after ok sh em rd nb) = naddr nb" for ok sh em rd nb
    using keeps_queue_after by (simp add: keeps_queue_def)
  have "naddr (nbrs q' ! i) = naddr (nbrs q ! i)"
    by (subst r(7)) (simp add: same)
  then have a: "\<forall>j \<in> set (neighbor_list q). naddr (nbrs q' ! j) = naddr (nbrs q ! j)"
    using r(5) by metis
  have "aqueue q' = (aqueue q)(naddr (nbrs q ! i) := map the (queue_of q' i))"
    using r(5) by (intro aqueue_change [OF inv r(2) i r(6) a]) simp
  moreover have "aqueue q (naddr (nbrs q ! i)) = map the (queue_of q i)"
    by (rule aqueue_at [OF inv i refl])
  ultimately have "aqueue q' = (if keep then aqueue q else (aqueue q)(naddr (nbrs q ! i) := map the rest))"
    using r(4) by (cases keep) (simp_all add: fun_upd_idem)
  then show thesis
    by (rule that [OF r(1-3) _ r(8)])
qed

text \<open>Whether a packet is tried again after a transmission that failed.\<close>

definition stays_alive :: "tsch_node \<Rightarrow> nat \<Rightarrow> bool" where
  "stays_alive N p \<longleftrightarrow> (let tx = transmissions (pkts (node_queues N) ! p) + 1
     in tx < retransmission_limit (ls4b (asn_of N)) (packet_ttl (node_queues N) p) tx)"

text \<open>The node is about to send the packet \<open>p\<close> at the head of the queue \<open>i\<close>, with room for it in the ring of dequeued packets.\<close>

definition tx_ready :: "nat \<Rightarrow> nat \<Rightarrow> nat \<Rightarrow> nat \<Rightarrow> ptr list \<Rightarrow> tsch_node \<Rightarrow> bool" where
  "tx_ready nn np i p rest N \<longleftrightarrow> tq_inv nn np (node_queues N) \<and> \<not> locked (node_queues N) \<and> i \<in> set (neighbor_list (node_queues N))
     \<and> queue_of (node_queues N) i = Some p # rest \<and> current_packet N = Some p \<and> current_neighbor N = Some i
     \<and> n_eb (node_queues N) \<noteq> Some i \<and> \<not> is_broadcast (nbrs (node_queues N) ! i)
     \<and> (\<exists>k l. current_link (sched (mac_of N)) = Some k \<and> link_at N k = Some l)
     \<and> ring_ok 3 (dequeued_ringbuf N, dequeued_array N) \<and> length (ring_contents 3 (dequeued_ringbuf N, dequeued_array N)) < 7"

lemma finish_tx_spec:
  assumes r: "tx_ready nn np i p rest N"
  obtains keep N' where "finish_tx p N = Some N'" "keep \<longleftrightarrow> last_tx_status N \<noteq> MAC_TX_OK \<and> stays_alive N p"
    "tq_inv nn np (node_queues N')" "pkt_live (node_queues N') = pkt_live (node_queues N)"
    "aqueue (node_queues N') = (if keep then aqueue (node_queues N)
       else (aqueue (node_queues N))(naddr (nbrs (node_queues N) ! i) := map the rest))"
    "ring_ok 3 (dequeued_ringbuf N', dequeued_array N')"
    "ring_contents 3 (dequeued_ringbuf N', dequeued_array N')
       = ring_contents 3 (dequeued_ringbuf N, dequeued_array N) @ (if keep then [] else [Some p])"
    "sent_frames N' = sent_frames N" "last_tx_status N' = last_tx_status N" "drift_correction N' = drift_correction N"
    "input_ringbuf N' = input_ringbuf N" "input_array N' = input_array N" "events_polled N'"
proof -
  obtain k l where inv: "tq_inv nn np (node_queues N)" "\<not> locked (node_queues N)" "i \<in> set (neighbor_list (node_queues N))"
    "queue_of (node_queues N) i = Some p # rest" "current_neighbor N = Some i" "current_link (sched (mac_of N)) = Some k"
    "rd (links (sched (mac_of N))) k = Some l" and ring: "ring_ok 3 (dequeued_ringbuf N, dequeued_array N)"
    "length (ring_contents 3 (dequeued_ringbuf N, dequeued_array N)) < 7"
    using r by (auto simp: tx_ready_def link_at_def)
  have il: "i \<in> nbr_live (node_queues N)"
    by (rule tq_list_live [OF inv(1,3)])
  have p: "p \<in> pkt_live (node_queues N)"
    using tq_queue_cases [OF inv(1) il] inv(4) by (metis list.distinct(1) list.inject option.inject)
  let ?pk = "(pkts (node_queues N) ! p)\<lparr>transmissions := transmissions (pkts (node_queues N) ! p) + 1, ret := last_tx_status N\<rparr>"
  let ?q = "(node_queues N)\<lparr>pkts := (pkts (node_queues N))[p := ?pk]\<rparr>"
  have q: "tq_inv nn np ?q" "\<not> locked ?q" "i \<in> set (neighbor_list ?q)" "queue_of ?q i = Some p # rest"
    using inv tq_inv_set_pkt [OF inv(1), of ?pk p] by simp_all
  let ?rnd = "rand_seq N (rand_pos N)"
  obtain keep q' where s: "tsch_queue_packet_sent ?q i p (l_options l) (last_tx_status N) (ls4b (asn_of N)) ?rnd = Some (keep, q')" "tq_inv nn np q'"
    "keep \<longleftrightarrow> last_tx_status N \<noteq> MAC_TX_OK \<and> transmissions (pkts ?q ! p) < retransmission_limit (ls4b (asn_of N)) (packet_ttl ?q p) (transmissions (pkts ?q ! p))"
    "aqueue q' = (if keep then aqueue ?q else (aqueue ?q)(naddr (nbrs ?q ! i) := map the rest))" "pkt_live q' = pkt_live ?q"
    by (rule packet_sent_aqueue [OF q])
  have pk: "pkts ?q ! p = ?pk" "packet_ttl ?q p = packet_ttl (node_queues N) p"
    using tq_pkt_less [OF inv(1) p] by (simp_all add: packet_ttl_def)
  have aq: "aqueue ?q = aqueue (node_queues N)"
    by (rule aqueue_cong) simp_all
  have keep: "keep \<longleftrightarrow> last_tx_status N \<noteq> MAC_TX_OK \<and> stays_alive N p"
    using s(3) pk(2) tq_pkt_less [OF inv(1) p] by (simp add: stays_alive_def Let_def)
  define draws where "draws \<longleftrightarrow> last_tx_status N \<noteq> MAC_TX_OK \<and> \<not> is_broadcast (nbrs ?q ! i) \<and> l_options l AND LINK_OPTION_SHARED \<noteq> 0"
  define N1 where "N1 = N\<lparr>rand_pos := (if draws then rand_pos N + 1 else rand_pos N)\<rparr>"
  have N1_if: "(if draws then N\<lparr>rand_pos := rand_pos N + 1\<rparr> else N) = N1"
    by (simp add: N1_def)
  define N2 where "N2 = (set_node_queues N1 q')\<lparr>events_polled := True\<rparr>"
  have N1: "dequeued_ringbuf N2 = dequeued_ringbuf N" "dequeued_array N2 = dequeued_array N" "sent_frames N2 = sent_frames N"
    "last_tx_status N2 = last_tx_status N" "drift_correction N2 = drift_correction N" "input_ringbuf N2 = input_ringbuf N"
    "input_array N2 = input_array N" "events_polled N2" "node_queues N2 = q'"
    by (simp_all add: N2_def N1_def random_rand_def set_node_queues_def set_mac_def)
  define m where "m = put_nat (dequeued_ringbuf N)"
  have rinv: "ring_inv 3 (dequeued_ringbuf N)" and room: "length (ring_contents 3 (dequeued_ringbuf N, dequeued_array N)) \<noteq> ring_cap 3 (dequeued_ringbuf N, dequeued_array N)"
    using ring by (simp_all add: ring_ok_def ring_cap_def)
  have m: "ringbufindex_peek_put (dequeued_ringbuf N) = int m" "m < length (dequeued_array N)"
    using ring_put_result [OF rinv] room put_nat_less [OF rinv] ring(1) by (auto simp: m_def ring_cap_def ring_ok_def split: if_splits)
  have enq: "ring_ok 3 (snd (ringbufindex_put (dequeued_ringbuf N)), (dequeued_array N)[m := Some p])
      \<and> ring_contents 3 (snd (ringbufindex_put (dequeued_ringbuf N)), (dequeued_array N)[m := Some p])
        = ring_contents 3 (dequeued_ringbuf N, dequeued_array N) @ [Some p]"
    using ring_fifo.enq_law [OF ring(1), of "Some p"] room m by (simp add: ring_enq_def)
  have run: "finish_tx p N = (if keep then Some N2 else do {
       arr \<leftarrow> wr (dequeued_array N2) (nat (ringbufindex_peek_put (dequeued_ringbuf N2))) (Some p);
       Some (N2\<lparr>dequeued_array := arr, dequeued_ringbuf := snd (ringbufindex_put (dequeued_ringbuf N2))\<rparr>)
     })"
  proof -
    have "rd (pkts (node_queues N)) p = Some (pkts (node_queues N) ! p)" "rd (nbrs ?q) i = Some (nbrs ?q ! i)" "asn_of N1 = asn_of N"
      using tq_rd_pkt [OF inv(1) p] tq_rd [OF q(1)] il by (simp_all add: N1_def)
    then show ?thesis
      unfolding N2_def
      by (simp only: finish_tx_def Let_def random_rand_def prod.case bind.bind_lunit inv(5-7) draws_def [symmetric] N1_if s(1))
  qed
  show thesis
  proof (cases keep)
    case True
    then have "finish_tx p N = Some N2"
      by (simp add: run)
    from this keep show thesis
      by (rule that) (use True s(2,4,5) aq N1 ring(1) in simp_all)
  next
    case False
    then have "finish_tx p N = Some (N2\<lparr>dequeued_array := (dequeued_array N)[m := Some p], dequeued_ringbuf := snd (ringbufindex_put (dequeued_ringbuf N))\<rparr>)"
      using m by (simp add: run N1 wr_in)
    from this keep show thesis
      by (rule that) (use False s(2,4,5) aq N1 enq in simp_all)
  qed
qed

text \<open>The sender reads the acknowledgment of its frame.\<close>

lemma eack_parsed:
  assumes a: "linkaddr_ok a" "\<not> broadcast_addr a" and f0: "struct_ok f0" and us: "\<bar>us\<bar> < 2048" and pan: "mac_pan_id fs = pan"
  obtains f i hl where "tsch_packet_parse_eack pan a (eack_bytes fs (Some a) seqno (of_int us) 0 @ post) 17 seqno f0 i0 h0 = Some (17, f, i, hl)"
    "sint (ie_time_correction i) = us" "length (eack_bytes fs (Some a) seqno (of_int us) 0) = 17"
proof -
  have a8: "\<forall>x. Some a = Some x \<longrightarrow> length x = 8" "\<forall>x. Some a = Some x \<longrightarrow> length x = 8 \<and> x \<noteq> replicate 8 0xff \<and> x \<noteq> linkaddr_null"
    using a by (simp_all add: linkaddr_ok_def LINKADDR_SIZE_def broadcast_addr_def)
  have l: "length (eack_bytes fs (Some a) seqno (of_int us) 0) = 17"
    using eack_canonical(2) [OF a8(1), of fs seqno] by (simp add: eack_bytes_def correction_bytes_def)
  have su: "sint (of_int us :: u16) = us"
    using us unfolding sint_sbintrunc' by (intro signed_take_bit_int_eq_self) (simp_all add: abs_if split: if_splits)
  then have d: "-2048 \<le> sint (of_int us :: u16)" "sint (of_int us :: u16) < 2048"
    using us by (simp_all only: abs_if split: if_splits) 
  obtain f i hl where p: "tsch_packet_parse_eack pan a (eack_bytes fs (Some a) seqno (of_int us) 0 @ post) 17 seqno f0 i0 h0 = Some (17, f, i, hl)"
    "i = (got_correction (eack_ies (of_int us) 0) zero_ies)\<lparr>ie_payload_ie_offset := 4\<rparr>"
    using parse_eack [OF a8(2) f0 a(1), of pan fs seqno "of_int us" 0 post seqno i0 h0] l pan by auto
  have "ie_time_correction i = of_int us"
    using drift_extended [OF d] by (simp add: p(2) got_correction_def eack_ies_def split: if_split_asm)
  then have "sint (ie_time_correction i) = us"
    using su by (simp only:)
  with p(1) show thesis
    using l by (rule that)
qed

definition acker_is_source :: "tsch_node \<Rightarrow> bool" where
  "acker_is_source N \<longleftrightarrow> nbr_is_time_source (node_queues N) (actual_current_neighbor N) = Some True
     \<or> nbr_is_time_source (node_queues N) (current_neighbor N) = Some True"

definition correction_limit :: "int \<Rightarrow> int" where "correction_limit t = max (- 18) (min 18 t)"

lemma ack_received:
  assumes ok: "sync_ok N" and g: "struct_ok (g_frame g)" "96 \<le> length (g_bytes g)"
    and nodes: "\<exists>x. nbr_is_time_source (node_queues N) (actual_current_neighbor N) = Some x" "\<exists>x. nbr_is_time_source (node_queues N) (current_neighbor N) = Some x"
    and a: "linkaddr_ok (linkaddr_node_addr (mac_of N))" "\<not> broadcast_addr (linkaddr_node_addr (mac_of N))"
    and us: "\<bar>us\<bar> < 2048" "US_TO_RTIMERTICKS us = Some t" and pan: "mac_pan_id fs = mac_pan_id (framing (mac_of N))"
    and ack: "r_ack env = eack_bytes fs (Some (linkaddr_node_addr (mac_of N))) seqno (of_int us) 0"
  obtains N' where "handle_ack g env seqno N = Some (MAC_TX_OK, N')"
    "if acker_is_source N then synced (correction_limit t) N N' else N' = N"
proof -
  obtain x where x: "nbr_is_time_source (node_queues N) (actual_current_neighbor N) = Some x"
    using nodes(1) by blast
  obtain y where y: "nbr_is_time_source (node_queues N) (current_neighbor N) = Some y"
    using nodes(2) by blast
  have src: "acker_is_source N \<longleftrightarrow> x \<or> y"
    by (simp add: acker_is_source_def x y)
  let ?post = "drop 17 (take TSCH_PACKET_MAX_LEN (g_bytes g))"
  obtain f i hl where p: "tsch_packet_parse_eack (mac_pan_id (framing (mac_of N))) (linkaddr_node_addr (mac_of N)) (r_ack env @ ?post) 17 seqno (g_frame g) (g_ies g) 0
      = Some (17, f, i, hl)" "sint (ie_time_correction i) = us" "length (r_ack env) = 17"
    unfolding ack by (rule eack_parsed [OF a g(1) us(1) pan, of seqno ?post "g_ies g" 0])
  have w: "wr_n (take TSCH_PACKET_MAX_LEN (g_bytes g)) 0 (r_ack env) = Some (r_ack env @ ?post)" "r_ack env \<noteq> []"
    using g(2) p(3) by (auto simp: TSCH_PACKET_MAX_LEN_def wr_n_in)
  let ?n = "if x then actual_current_neighbor N else current_neighbor N"
  have lim: "(if 18 < t then 18 else if t < - 18 then - 18 else t) = correction_limit t" "\<bar>correction_limit t\<bar> \<le> 2147"
    by (auto simp: correction_limit_def)
  have run: "handle_ack g env seqno N = do {
       N \<leftarrow> (if x \<or> y then synchronize ?n (correction_limit t) (r_clock env) N else Some N);
       Some (MAC_TX_OK, N)
     }"
    using w p us(2) x y lim(1) by (simp add: handle_ack_def frame802154_get_pan_id_def sync_from_ack_def sync_ie_bound Let_def cong: if_cong)
  show thesis
  proof (cases "x \<or> y")
    case True
    obtain N' where "synchronize ?n (correction_limit t) (r_clock env) N = Some N'" "synced (correction_limit t) N N'"
      by (rule synchronize_spec [OF ok lim(2)])
    with True run src show thesis
      by (intro that [of N']) auto
  next
    case False
    with run src show thesis
      by (intro that [of N]) auto
  qed
qed

text \<open>What the radio is given.\<close>

lemma ready_spec:
  assumes inv: "tq_inv nn np (node_queues N)" and p: "p \<in> pkt_live (node_queues N)" and f: "queued_frame (node_queues N) p b"
    and e: "current_neighbor N \<noteq> n_eb (node_queues N)" and u: "unicast_data b src dst" and fr: "pb_frame b = packet_header fs b @ payload"
  obtains k where "qb (pkts (node_queues N) ! p) = Some k" "ready_packet g pk k N = Some (True, seqno_of b, pb_frame b, N)"
proof -
  obtain k where k: "qb (pkts (node_queues N) ! p) = Some k" "holds_packet (qb_data (qbufs (node_queues N)) k) b"
    using f by (auto simp: queued_frame_def)
  have qi: "qb_inv np (qbufs (node_queues N))" and kl: "k \<in> qb_live (qbufs (node_queues N))"
    using inv p k(1) by (auto simp: tq_inv_def pkts_inv_def)
  let ?d = "qb_data (qbufs (node_queues N)) k"
  obtain r where r: "queuebuf_load_to_ram (qbufs (node_queues N)) k = Some r" "rd (ram (qbufs (node_queues N))) r = Some ?d" "data_ok ?d"
    by (rule qb_load [OF qi kl])
  have im: "memb_inmemb (bufmem (qbufs (node_queues N))) k"
    using qb_live_less [OF qi kl] qi elem_inmemb by (auto simp: qb_inv_def)
  have d: "unat (qlen ?d) = length (pb_frame b)" "take (unat (qlen ?d)) (qdata ?d) = pb_frame b" "length (qdata ?d) = 96" "unat (qlen ?d) \<le> 96"
    using k(2) r(3) unfolding holds_packet_def data_ok_def PACKETBUF_SIZE_def by blast+
  have n: "unat (ucast (qlen ?d) :: u8) = unat (qlen ?d)"
    using d(4) by (simp add: unsigned_ucast_eq unsigned_take_bit_eq take_bit_nat_eq_self)
  have l: "2 < length (pb_frame b)"
    using unicast_length [OF u, of fs] by (simp add: fr)
  have "qdata ?d ! 2 = take (unat (qlen ?d)) (qdata ?d) ! 2"
    using l d(1) by simp
  also have "\<dots> = seqno_of b"
    using unicast_seqno [OF u, of fs] unicast_length [OF u, of fs] by (simp add: d(2) fr nth_append)
  finally have s: "rd (qdata ?d) 2 = Some (seqno_of b)"
    using d(3) by (simp add: rd_in)
  have "ready_packet g pk k N = Some (True, seqno_of b, pb_frame b, N)"
    unfolding ready_packet_def Let_def using im r(1,2) s n d(2) e by (simp add: queuebuf_dataptr_def)
  with k(1) show thesis
    by (rule that)
qed

text \<open>The part of the state that waiting for an acknowledgment leaves alone.\<close>

definition kept :: "tsch_node \<Rightarrow> tsch_node \<Rightarrow> bool" where
  "kept N N' \<longleftrightarrow> same_net N N' \<and> current_packet N' = current_packet N \<and> current_neighbor N' = current_neighbor N
     \<and> sent_frames N' = sent_frames N \<and> dequeued_ringbuf N' = dequeued_ringbuf N \<and> dequeued_array N' = dequeued_array N
     \<and> input_ringbuf N' = input_ringbuf N \<and> input_array N' = input_array N"

lemma kept_ready:
  assumes "kept N N'"
  shows "tx_ready nn np i p rest (N'\<lparr>last_tx_status := st\<rparr>) = tx_ready nn np i p rest N"
    "stays_alive (N'\<lparr>last_tx_status := st\<rparr>) p = stays_alive N p" "aqueue (node_queues N') = aqueue (node_queues N)"
    "nbrs (node_queues N') = nbrs (node_queues N)" "pkt_live (node_queues N') = pkt_live (node_queues N)"
proof -
  obtain kt where "net N' = (net N)\<lparr>mac := set_queues (mac_of N) ((node_queues N)\<lparr>ka_timeout := kt\<rparr>)\<rparr>"
    using assms by (auto simp: kept_def same_net_def)
  then have m: "mac_of N' = set_queues (mac_of N) ((node_queues N)\<lparr>ka_timeout := kt\<rparr>)"
    by simp
  then have "current_link (sched (mac_of N')) = current_link (sched (mac_of N))" "links (sched (mac_of N')) = links (sched (mac_of N))"
    by (simp_all add: set_queues_def)
  with m assms show "tx_ready nn np i p rest (N'\<lparr>last_tx_status := st\<rparr>) = tx_ready nn np i p rest N"
    "stays_alive (N'\<lparr>last_tx_status := st\<rparr>) p = stays_alive N p" "aqueue (node_queues N') = aqueue (node_queues N)"
    "nbrs (node_queues N') = nbrs (node_queues N)" "pkt_live (node_queues N') = pkt_live (node_queues N)"
    by (simp_all add: kept_def tx_ready_def link_at_def stays_alive_def)
qed

lemma tx_slot_spec:
  assumes r: "tx_ready nn np i p rest N" and f: "queued_frame (node_queues N) p b" and u: "unicast_data b src dst"
    and fr: "pb_frame b = packet_header fs b @ payload" and e: "r_prepare_ok env" "r_transmit_ok env"
    and h: "handle_ack g env (seqno_of b) (N\<lparr>tx_count := tx_count N + 1, sent_frames := sent_frames N @ [pb_frame b]\<rparr>) = Some (st, N2)"
    and k: "kept (N\<lparr>tx_count := tx_count N + 1, sent_frames := sent_frames N @ [pb_frame b]\<rparr>) N2"
  obtains keep N' where "tsch_tx_slot g env N = Some N'" "keep \<longleftrightarrow> st \<noteq> MAC_TX_OK \<and> stays_alive N p"
    "tq_inv nn np (node_queues N')" "pkt_live (node_queues N') = pkt_live (node_queues N)"
    "aqueue (node_queues N') = (if keep then aqueue (node_queues N)
       else (aqueue (node_queues N))(naddr (nbrs (node_queues N) ! i) := map the rest))"
    "ring_ok 3 (dequeued_ringbuf N', dequeued_array N')"
    "ring_contents 3 (dequeued_ringbuf N', dequeued_array N')
       = ring_contents 3 (dequeued_ringbuf N, dequeued_array N) @ (if keep then [] else [Some p])"
    "sent_frames N' = sent_frames N @ [pb_frame b]" "last_tx_status N' = st" "drift_correction N' = drift_correction N2" "events_polled N'"
proof -
  let ?N1 = "N\<lparr>tx_count := tx_count N + 1, sent_frames := sent_frames N @ [pb_frame b]\<rparr>"
  have inv: "tq_inv nn np (node_queues N)" "i \<in> set (neighbor_list (node_queues N))" "queue_of (node_queues N) i = Some p # rest"
    "current_packet N = Some p" "current_neighbor N = Some i" "n_eb (node_queues N) \<noteq> Some i" "\<not> is_broadcast (nbrs (node_queues N) ! i)"
    using r by (simp_all add: tx_ready_def)
  have il: "i \<in> nbr_live (node_queues N)"
    by (rule tq_list_live [OF inv(1,2)])
  have p: "p \<in> pkt_live (node_queues N)"
    using tq_queue_cases [OF inv(1) il] inv(3) by (metis list.distinct(1) list.inject option.inject)
  have room: "ringbufindex_peek_put (dequeued_ringbuf N) \<noteq> -1"
    using r ring_put_result [of 3 "dequeued_ringbuf N"] by (auto simp: tx_ready_def ring_ok_def split: if_splits)
  have eb: "current_neighbor N \<noteq> n_eb (node_queues N)"
    using inv(5,6) by simp
  obtain k where k': "qb (pkts (node_queues N) ! p) = Some k"
    "ready_packet g (pkts (node_queues N) ! p) k N = Some (True, seqno_of b, pb_frame b, N)"
    using ready_spec [OF inv(1) p f eb u fr] by metis
  have tr: "transmit_packet g env (pkts (node_queues N) ! p) k N = Some (N2\<lparr>last_tx_status := st\<rparr>)"
    using k'(2) inv(5,7) e h tq_rd [OF inv(1) il] by (simp add: transmit_packet_def Let_def)
  let ?N3 = "N2\<lparr>last_tx_status := st\<rparr>"
  have r1: "tx_ready nn np i p rest ?N1" "stays_alive ?N1 p = stays_alive N p"
    using r by (simp_all add: tx_ready_def link_at_def stays_alive_def)
  then have r3: "tx_ready nn np i p rest ?N3"
    by (simp add: kept_ready [OF k])
  obtain keep N' where N': "finish_tx p ?N3 = Some N'" "keep \<longleftrightarrow> last_tx_status ?N3 \<noteq> MAC_TX_OK \<and> stays_alive ?N3 p"
    "tq_inv nn np (node_queues N')" "pkt_live (node_queues N') = pkt_live (node_queues ?N3)"
    "aqueue (node_queues N') = (if keep then aqueue (node_queues ?N3)
       else (aqueue (node_queues ?N3))(naddr (nbrs (node_queues ?N3) ! i) := map the rest))"
    "ring_ok 3 (dequeued_ringbuf N', dequeued_array N')"
    "ring_contents 3 (dequeued_ringbuf N', dequeued_array N')
       = ring_contents 3 (dequeued_ringbuf ?N3, dequeued_array ?N3) @ (if keep then [] else [Some p])"
    "sent_frames N' = sent_frames ?N3" "last_tx_status N' = last_tx_status ?N3" "drift_correction N' = drift_correction ?N3"
    "input_ringbuf N' = input_ringbuf ?N3" "input_array N' = input_array ?N3" "events_polled N'"
    by (rule finish_tx_spec [OF r3])
  have "tsch_tx_slot g env N = Some N'"
    using room inv(4) k'(1) tr N'(1) tq_rd_pkt [OF inv(1) p] by (simp add: tsch_tx_slot_def)
  moreover have "keep \<longleftrightarrow> st \<noteq> MAC_TX_OK \<and> stays_alive N p"
    using N'(2) kept_ready(2) [OF k] r1(2) by simp
  ultimately show thesis
    by (rule that) (use N'(3-10,13) kept_ready(3-5) [OF k] k in \<open>simp_all add: kept_def\<close>)
qed

section \<open>One slot of two neighbors\<close>

lemma unicast_frame_length: "unicast_data b src dst \<Longrightarrow> length (pb_frame b) \<le> 96"
  using pb_lengths [of b] by (simp add: unicast_data_def pb_frame_def)

lemma kept_synced: "synced d N N' \<Longrightarrow> kept N N'" "kept N N"
  using same_netI [of N N] by (auto simp: synced_def kept_def) (auto simp: same_net_def)

lemma tx_slot_lost:
  assumes S: "tx_ready nn np i p rest S" "queued_frame (node_queues S) p b"
    and b: "unicast_data b (linkaddr_node_addr (mac_of S)) dst" "pb_frame b = packet_header fs b @ payload" and e: "r_prepare_ok e" "r_transmit_ok e"
  shows "\<exists>S'. tsch_tx_slot g (e\<lparr>r_ack := []\<rparr>) S = Some S' \<and> tq_inv nn np (node_queues S') \<and> last_tx_status S' = MAC_TX_NOACK
        \<and> (if stays_alive S p
           then aqueue (node_queues S') = aqueue (node_queues S)
             \<and> ring_contents 3 (dequeued_ringbuf S', dequeued_array S') = ring_contents 3 (dequeued_ringbuf S, dequeued_array S)
           else aqueue (node_queues S') = (aqueue (node_queues S))(naddr (nbrs (node_queues S) ! i) := map the rest)
             \<and> ring_contents 3 (dequeued_ringbuf S', dequeued_array S') = ring_contents 3 (dequeued_ringbuf S, dequeued_array S) @ [Some p])"
proof -
  let ?S1 = "S\<lparr>tx_count := tx_count S + 1, sent_frames := sent_frames S @ [pb_frame b]\<rparr>"
  have "r_prepare_ok (e\<lparr>r_ack := []\<rparr>)" "r_transmit_ok (e\<lparr>r_ack := []\<rparr>)"
    using e by simp_all
  moreover have "handle_ack g (e\<lparr>r_ack := []\<rparr>) (seqno_of b) ?S1 = Some (MAC_TX_NOACK, ?S1)"
    by (simp add: handle_ack_def)
  ultimately show ?thesis
    by (cases rule: tx_slot_spec [OF S b _ _ _ kept_synced(2)]) auto
qed

lemma tx_slot_acked:
  assumes S: "tx_ready nn np i p rest S" "queued_frame (node_queues S) p b" "sync_ok S"
      "\<forall>a. actual_current_neighbor S = Some a \<longrightarrow> a < length (nbrs (node_queues S))" "struct_ok (g_frame g)" "96 \<le> length (g_bytes g)"
    and b: "unicast_data b (linkaddr_node_addr (mac_of S)) dst" "pb_frame b = packet_header fs b @ payload" and e: "r_prepare_ok e" "r_transmit_ok e"
    and us: "\<bar>us\<bar> < 2048" "US_TO_RTIMERTICKS us = Some t" and fs': "mac_pan_id fs' = mac_pan_id (framing (mac_of S))"
    and ack: "ack = eack_bytes fs' (Some (linkaddr_node_addr (mac_of S))) (seqno_of b) (of_int us) 0"
  shows "\<exists>S'. tsch_tx_slot g (e\<lparr>r_ack := ack\<rparr>) S = Some S' \<and> tq_inv nn np (node_queues S') \<and> sent_frames S' = sent_frames S @ [pb_frame b]
        \<and> last_tx_status S' = MAC_TX_OK \<and> aqueue (node_queues S') = (aqueue (node_queues S))(naddr (nbrs (node_queues S) ! i) := map the rest)
        \<and> ring_contents 3 (dequeued_ringbuf S', dequeued_array S') = ring_contents 3 (dequeued_ringbuf S, dequeued_array S) @ [Some p]
        \<and> drift_correction S' = (if acker_is_source S then correction_limit t else drift_correction S)"
proof -
  let ?S1 = "S\<lparr>tx_count := tx_count S + 1, sent_frames := sent_frames S @ [pb_frame b]\<rparr>"
  have inv: "tq_inv nn np (node_queues S)" "i \<in> set (neighbor_list (node_queues S))" "current_neighbor S = Some i"
    using S(1) by (simp_all add: tx_ready_def)
  have nodes: "\<exists>x. nbr_is_time_source (node_queues ?S1) (actual_current_neighbor ?S1) = Some x"
    "\<exists>x. nbr_is_time_source (node_queues ?S1) (current_neighbor ?S1) = Some x"
    using S(4) inv(3) tq_rd [OF inv(1) tq_list_live [OF inv(1,2)]] by (auto simp: nbr_is_time_source_def rd_in split: option.split)
  have a: "linkaddr_ok (linkaddr_node_addr (mac_of ?S1))" "\<not> broadcast_addr (linkaddr_node_addr (mac_of ?S1))"
    using unicast_addrs [OF b(1)] b(1) by (simp_all add: unicast_data_def)
  have pre: "sync_ok ?S1" "mac_pan_id fs' = mac_pan_id (framing (mac_of ?S1))"
    "r_ack (e\<lparr>r_ack := ack\<rparr>) = eack_bytes fs' (Some (linkaddr_node_addr (mac_of ?S1))) (seqno_of b) (of_int us) 0"
    using S(3) fs' by (simp_all add: sync_ok_def ack)
  obtain S2 where S2: "handle_ack g (e\<lparr>r_ack := ack\<rparr>) (seqno_of b) ?S1 = Some (MAC_TX_OK, S2)"
    "if acker_is_source ?S1 then synced (correction_limit t) ?S1 S2 else S2 = ?S1"
    by (rule ack_received [OF pre(1) S(5,6) nodes a us pre(2,3)])
  have "acker_is_source ?S1 = acker_is_source S"
    by (simp add: acker_is_source_def)
  then have k: "kept ?S1 S2" "drift_correction S2 = (if acker_is_source S then correction_limit t else drift_correction S)"
    using S2(2) kept_synced by (auto simp: synced_def split: if_splits)
  have "r_prepare_ok (e\<lparr>r_ack := ack\<rparr>)" "r_transmit_ok (e\<lparr>r_ack := ack\<rparr>)"
    using e by simp_all
  then show ?thesis
    using k(2) by (cases rule: tx_slot_spec [OF S(1,2) b \<open>r_prepare_ok (e\<lparr>r_ack := ack\<rparr>)\<close> \<open>r_transmit_ok (e\<lparr>r_ack := ack\<rparr>)\<close> S2(1) k(1)]) auto
qed


section \<open>An example\<close>

lemma put_packet_frame:
  assumes "put_packet q b i mx snt arg = Some (r, q')"
  shows "n_eb q' = n_eb q" "neighbor_list q' = neighbor_list q" "is_broadcast (nbrs q' ! j) = is_broadcast (nbrs q ! j)"
proof -
  let ?nb = "nbrs q ! i" and ?frame = "n_eb q' = n_eb q \<and> neighbor_list q' = neighbor_list q \<and> is_broadcast (nbrs q' ! j) = is_broadcast (nbrs q ! j)"
  have i: "rd (nbrs q) i = Some ?nb" "i < length (nbrs q)"
    using assms by (cases "i < length (nbrs q)"; simp add: put_packet_def rd_def)+
  have ?frame
  proof (cases "ringbufindex_peek_put (tx_ringbuf ?nb) = -1")
    case False
    note run = put_packet_def i(1) Let_def bind.bind_lunit
    obtain k m where k: "memb_alloc (packet_memb q) = Some (k, m)"
      using assms False by (cases "memb_alloc (packet_memb q)") (auto simp: run)
    show ?thesis
    proof (cases k)
      case (Some l)
      obtain c qs where c: "queuebuf_new_from_packetbuf (qbufs q) b = Some (c, qs)"
        using assms False k Some by (cases "queuebuf_new_from_packetbuf (qbufs q) b") (auto simp: run)
      obtain pk where pk: "rd (pkts q) l = Some pk"
        using assms False k Some c by (cases "rd (pkts q) l") (auto simp: run)
      show ?thesis
      proof (cases c)
        case None
        then show ?thesis
          using assms False k Some c pk by (cases "memb_free m l") (auto simp: run)
      next
        case (Some u)
        then show ?thesis
          using assms False k \<open>k = Some l\<close> c pk i(2)
          by (cases "wr (tx_array ?nb) (nat (ringbufindex_peek_put (tx_ringbuf ?nb))) (Some l)")
            (auto simp: run nth_list_update split: if_splits)
      qed
    qed (use assms False k in \<open>auto simp: run\<close>)
  qed (use assms i in \<open>simp add: put_packet_def\<close>)
  then show "n_eb q' = n_eb q" "neighbor_list q' = neighbor_list q" "is_broadcast (nbrs q' ! j) = is_broadcast (nbrs q ! j)"
    by simp_all
qed

lemma first_neighbor:
  obtains q0 where "tsch_queue_add_nbr (tq_initial 12 8) flow1 = Some (Some 0, q0)" "n_eb q0 = None" "neighbor_list q0 = [0]" "\<not> is_broadcast (nbrs q0 ! 0)"
proof -
  have "case tsch_queue_add_nbr (tq_initial 12 8) flow1 of Some (Some i, q0) \<Rightarrow> i = 0 \<and> n_eb q0 = None \<and> neighbor_list q0 = [0] \<and> \<not> is_broadcast (nbrs q0 ! 0)
    | _ \<Rightarrow> False"
    by code_simp
  then show thesis
    using that by (auto split: option.splits prod.splits)
qed

lemma one_packet_queue:
  assumes b: "pb_inv b"
  obtains q p where "tq_inv 12 8 q" "\<not> locked q" "neighbor_list q = [0]" "naddr (nbrs q ! 0) = flow1" "queue_of q 0 = [Some p]" "aqueue q flow1 = [p]"
    "n_eb q = None" "\<not> is_broadcast (nbrs q ! 0)" "queued_frame q p b"
proof -
  obtain q0 where q0: "tsch_queue_add_nbr (tq_initial 12 8) flow1 = Some (Some 0, q0)" "n_eb q0 = None" "neighbor_list q0 = [0]"
    "\<not> is_broadcast (nbrs q0 ! 0)"
    by (rule first_neighbor)
  obtain r q where q: "tsch_queue_add_packet (tq_initial 12 8) b flow1 3 None None = Some (r, q)"
    "tq_inv 12 8 q" "locked q = locked (tq_initial 12 8)" "case r of None \<Rightarrow> False | Some j \<Rightarrow> aqueue q = (aqueue (tq_initial 12 8))(flow1 := [j])
        \<and> fresh_packet q j b 3 None None"
    using add_packet_spec [OF tq_initial_inv(1,2) flow1_ok b, of 12 8 3 None None]
    by (auto simp: tq_initial_inv split: option.splits)
  obtain p where p: "aqueue q flow1 = [p]" "fresh_packet q p b 3 None None"
    using q(4) by (auto split: option.splits)
  have put: "put_packet q0 b 0 3 None None = Some (r, q)"
    using q(1) q0(1) tq_initial_inv(2) [of 12 8] by (simp add: tsch_queue_add_packet_def tsch_is_locked_def)
  note f = put_packet_frame [OF put]
  have l: "neighbor_list q = [0]" "n_eb q = None" "\<not> is_broadcast (nbrs q ! 0)"
    using f q0 by simp_all
  have fr: "queued_frame q p b"
    using p(2) by (auto simp: fresh_packet_def queued_frame_def)
  have i: "0 \<in> nbr_live q"
    by (rule tq_list_live [OF q(2)]) (simp add: l)
  show thesis
    using q(2)
  proof (cases rule: aqueue_cases [of 12 8 q flow1])
    case (nbr k)
    then have "naddr (nbrs q ! 0) = flow1" "map the (queue_of q 0) = [p]"
      using l p(1) by simp_all
    moreover from this have "queue_of q 0 = [Some p]"
      by (cases rule: tq_queue_cases [OF q(2) i]) auto
    ultimately show thesis
      using that [OF q(2) _ l(1) _ _ p(1) l(2,3) fr] q(3) tq_initial_inv(2) [of 12 8] by simp
  qed (use p in simp)
qed

definition radio_example :: "u8 list \<Rightarrow> u8 list \<Rightarrow> radio_env" where
  "radio_example frame ack = \<lparr>r_prepare_ok = True, r_transmit_ok = True, r_ack = ack, r_seen = True, r_pending = True, r_frame = frame, r_rssi = 0,
     r_start = 129, r_clock = 0, r_now = (\<lambda>_. 0)\<rparr>"


end
