(* ===== verification/Master_App.thy ===== *)
theory Master_App
  imports Tsch_Process
begin

text \<open>
  The application \<^verbatim>\<open>examples/master/master-unicast/master-unicast.c\<close>: a process with a timer of one second, which calls the routing
  layer.  The theory has the process as the code has it, with its counters, and a reference in which what happens in a second is
  a function of the number of that second; both do the same as long as the counters, which are \<^verbatim>\<open>int\<close>, do not overflow.
\<close>

section \<open>The process\<close>

text \<open>The variables of the file and of the process.  \<open>configured\<close>: the process has left its first loop.\<close>

record application =
  configured :: bool
  counter :: int
  adv_counter :: u16
  actual_data_sending_interval :: int
  app_payload :: "u8 list"
  app_receiver :: u8

definition NUM_COOJA_NODES :: int where "NUM_COOJA_NODES = 5"

definition app_initial :: application where
  "app_initial = \<lparr>configured = False, counter = 1, adv_counter = 0, actual_data_sending_interval = 0,
     app_payload = replicate MASTER_MSG_LENGTH 0, app_receiver = 0\<rparr>"

definition on_routing :: "(master_routing \<Rightarrow> ('a \<times> master_routing) option) \<Rightarrow> tsch_node \<Rightarrow> tsch_node option" where
  "on_routing f N = do { (_, R) \<leftarrow> f (net N); Some (N\<lparr>net := R\<rparr>) }"

text \<open>The process up to its first wait; the callback only logs.\<close>

definition app_start :: "tsch_node \<Rightarrow> tsch_node option" where
  "app_start N = do {
     R \<leftarrow> init_master_routing (net N);
     R \<leftarrow> master_routing_set_input_callback True R;
     Some (N\<lparr>net := R\<rparr>)
   }"

text \<open>The loop that fills the payload with random bytes, from the first to the last.\<close>

fun random_bytes :: "nat \<Rightarrow> tsch_node \<Rightarrow> u8 list \<times> tsch_node" where
  "random_bytes 0 N = ([], N)"
| "random_bytes (Suc k) N = (let (r, N) = random_rand N; (bs, N) = random_bytes k N in (ucast (drop_bit 8 r) # bs, N))"

text \<open>
  What the rest of the node gives to a second: the contents of the uninitialised variables that advertisement and
  data are built in, and all that the node does until the timer expires again (\<open>others\<close>).
\<close>

record second =
  g_adv :: "u8 list"
  g_data :: "u8 list"
  others :: "tsch_node \<Rightarrow> tsch_node"

text \<open>The parts of the loop: the schedule after four minutes, the unicast packets, the advertisement, the strengths.\<close>

definition new_schedule :: "(master_routing \<Rightarrow> master_routing option) \<Rightarrow> int \<Rightarrow> tsch_node \<Rightarrow> tsch_node option" where
  "new_schedule generated c N = (if c = 240 then on_routing (\<lambda>R. map_option (Pair ()) (apply_generated_schedule generated R)) N else Some N)"

definition send_unicast :: "application \<Rightarrow> tsch_node \<Rightarrow> (application \<times> tsch_node) option" where
  "send_unicast A N = (if node_is_sender (net N) \<noteq> 0 \<and> 240 < counter A then do {
     let A = A\<lparr>app_receiver := get_node_receiver (net N)\<rparr>;
     let (bytes, N) = random_bytes MASTER_MSG_LENGTH N;
     let A = A\<lparr>app_payload := bytes[8 := 0]\<rparr>;
     N \<leftarrow> on_routing (master_routing_sendto (app_payload A) (of_nat MASTER_MSG_LENGTH) (app_receiver A)) N;
     Some (A, N)
   } else Some (A, N))"

definition send_advertisement :: "second \<Rightarrow> application \<Rightarrow> tsch_node \<Rightarrow> (application \<times> tsch_node) option" where
  "send_advertisement e A N = (if counter A mod 15 = 0 \<and> node_id (net N) = 1 then do {
     let A = A\<lparr>adv_counter := adv_counter A + 1\<rparr>;
     N \<leftarrow> on_routing (master_routing_send_advertisement_sendto (g_adv e) (fl_quot 100 1) (adv_counter A) (ucast (node_id (net N)))) N;
     Some (A, N)
   } else Some (A, N))"

definition send_strengths_in_turn :: "second \<Rightarrow> application \<Rightarrow> tsch_node \<Rightarrow> (application \<times> tsch_node) option" where
  "send_strengths_in_turn e A N = (if counter A = actual_data_sending_interval A \<and> node_id (net N) \<noteq> 1 then do {
     N \<leftarrow> on_routing (master_routing_send_actual_data (g_data e)) N;
     i \<leftarrow> chk_int (actual_data_sending_interval A + NUM_COOJA_NODES);
     Some (A\<lparr>actual_data_sending_interval := i\<rparr>, N)
   } else Some (A, N))"

text \<open>One round of the second loop.\<close>

definition app_second :: "(master_routing \<Rightarrow> master_routing option) \<Rightarrow> second \<Rightarrow> application \<Rightarrow> tsch_node \<Rightarrow> (application \<times> tsch_node) option" where
  "app_second generated e A N = do {
     c \<leftarrow> chk_int (counter A + 1);
     let A = A\<lparr>counter := c\<rparr>;
     N \<leftarrow> new_schedule generated (counter A) N;
     (A, N) \<leftarrow> send_unicast A N;
     (A, N) \<leftarrow> send_advertisement e A N;
     send_strengths_in_turn e A N
   }"

text \<open>
  The timer expires: in the first loop the process waits until the network is configured, and then sets the second of its first turn.
\<close>

definition app_timer :: "(master_routing \<Rightarrow> master_routing option) \<Rightarrow> second \<Rightarrow> application \<Rightarrow> tsch_node \<Rightarrow> (application \<times> tsch_node) option" where
  "app_timer generated e A N = (if configured A then app_second generated e A N
     else if master_routing_configured (net N)
     then Some (A\<lparr>configured := True, actual_data_sending_interval := sint (node_id (net N))\<rparr>, N)
     else Some (A, N))"

fun app_run :: "(master_routing \<Rightarrow> master_routing option) \<Rightarrow> second list \<Rightarrow> application \<Rightarrow> tsch_node \<Rightarrow> (application \<times> tsch_node) option" where
  "app_run generated [] A N = Some (A, N)"
| "app_run generated (e # es) A N = do { (A, N) \<leftarrow> app_timer generated e A N; app_run generated es A (others e N) }"

section \<open>The reference\<close>

text \<open>The turn of node \<open>n\<close> to send its strengths: every fifth second, from second \<open>n\<close> on.\<close>

definition has_turn :: "int \<Rightarrow> int \<Rightarrow> bool" where
  "has_turn n c \<longleftrightarrow> n \<noteq> 1 \<and> n \<le> c \<and> (c - n) mod NUM_COOJA_NODES = 0"

text \<open>Nodes whose numbers are at most five never have their turn in the same second.\<close>

lemma turns_disjoint: "has_turn n c \<Longrightarrow> has_turn m c \<Longrightarrow> 0 < n \<Longrightarrow> n \<le> NUM_COOJA_NODES \<Longrightarrow> 0 < m \<Longrightarrow> m \<le> NUM_COOJA_NODES \<Longrightarrow> n = m"
  unfolding has_turn_def NUM_COOJA_NODES_def by presburger

text \<open>Second \<open>c\<close> of a node, without variables that last from one second to the next.\<close>

definition unicast_spec :: "int \<Rightarrow> tsch_node \<Rightarrow> tsch_node option" where
  "unicast_spec c N = (if node_is_sender (net N) \<noteq> 0 \<and> 240 < c
     then let (bytes, N) = random_bytes MASTER_MSG_LENGTH N
       in on_routing (master_routing_sendto (bytes[8 := 0]) (of_nat MASTER_MSG_LENGTH) (get_node_receiver (net N))) N
     else Some N)"

definition advertisement_spec :: "second \<Rightarrow> int \<Rightarrow> tsch_node \<Rightarrow> tsch_node option" where
  "advertisement_spec e c N = (if node_id (net N) = 1 \<and> c mod 15 = 0
     then on_routing (master_routing_send_advertisement_sendto (g_adv e) (fl_quot 100 1) (of_int (c div 15)) 1) N else Some N)"

definition turn_spec :: "second \<Rightarrow> int \<Rightarrow> tsch_node \<Rightarrow> tsch_node option" where
  "turn_spec e c N = (if has_turn (sint (node_id (net N))) c then on_routing (master_routing_send_actual_data (g_data e)) N else Some N)"

definition second_spec :: "(master_routing \<Rightarrow> master_routing option) \<Rightarrow> second \<Rightarrow> int \<Rightarrow> tsch_node \<Rightarrow> tsch_node option" where
  "second_spec generated e c N = do {
     N \<leftarrow> new_schedule generated c N;
     N \<leftarrow> unicast_spec c N;
     N \<leftarrow> advertisement_spec e c N;
     turn_spec e c N
   }"

fun run_spec :: "(master_routing \<Rightarrow> master_routing option) \<Rightarrow> second list \<Rightarrow> int \<Rightarrow> tsch_node \<Rightarrow> tsch_node option" where
  "run_spec generated [] c N = Some N"
| "run_spec generated (e # es) c N = do { N \<leftarrow> second_spec generated e c N; run_spec generated es (c + 1) (others e N) }"

section \<open>The number of the node does not change\<close>

named_theorems node_id_kept

lemma on_schedule_node_id [node_id_kept]: "on_schedule f R = Some (r, R') \<Longrightarrow> node_id R' = node_id R"
  by (auto simp: on_schedule_def)

lemma net_output_node_id [node_id_kept]: "net_output dest R = Some (r, R') \<Longrightarrow> node_id R' = node_id R"
  by (auto simp: net_output_def bind_eq_Some split: if_splits)

lemma install_discovery_node_id [node_id_kept]:
  assumes "install_discovery_schedule R = Some R'"
  shows "node_id R' = node_id R"
  using assms by (auto simp: install_discovery_schedule_def bind_eq_Some Let_def dest!: node_id_kept split: if_splits)

lemma add_link_to_best_node_node_id [node_id_kept]:
  assumes "add_link_to_best_node R = Some R'"
  shows "node_id R' = node_id R"
  using assms by (auto simp: add_link_to_best_node_def bind_eq_Some Let_def dest!: node_id_kept split: if_splits)

lemma unicast_send_node_id [node_id_kept]: "unicast_send R = Some (r, R') \<Longrightarrow> node_id R' = node_id R"
  by (auto simp: unicast_send_def set_times_def upd_config_def Let_def dest!: node_id_kept)

lemma send_actual_data_node_id [node_id_kept]: "master_routing_send_actual_data g R = Some (r, R') \<Longrightarrow> node_id R' = node_id R"
  by (auto simp: master_routing_send_actual_data_def bind_eq_Some dest!: node_id_kept split: if_splits)

lemma send_advertisement_node_id [node_id_kept]: "master_routing_send_advertisement_sendto g x s b R = Some (r, R') \<Longrightarrow> node_id R' = node_id R"
  by (auto simp: master_routing_send_advertisement_sendto_def master_routing_send_advertisement_def bind_eq_Some Let_def upd_config_def set_times_def
      dest!: node_id_kept split: if_splits)

lemma sendto_node_id [node_id_kept]: "master_routing_sendto d l v R = Some (r, R') \<Longrightarrow> node_id R' = node_id R"
  by (auto simp: master_routing_sendto_def master_routing_send_def bind_eq_Some Let_def upd_config_def set_destination_link_addr_def
      dest!: node_id_kept split: if_splits)

lemma random_bytes_net [simp]: "net (snd (random_bytes k N)) = net N"
proof (induction k arbitrary: N)
  case (Suc k)
  from this [of "N\<lparr>rand_pos := rand_pos N + 1\<rparr>"] show ?case
    by (cases "random_bytes k (N\<lparr>rand_pos := rand_pos N + 1\<rparr>)") (simp add: random_rand_def)
qed simp

lemma on_routing_node_id:
  assumes "on_routing f N = Some N'" "\<And>r R. f (net N) = Some (r, R) \<Longrightarrow> node_id R = node_id (net N)"
  shows "node_id (net N') = node_id (net N)"
  using assms by (auto simp: on_routing_def bind_eq_Some)

section \<open>The process follows the reference\<close>

text \<open>The counters of the process after second \<open>c\<close>; \<open>n\<close> is the number of the node.\<close>

definition in_time :: "int \<Rightarrow> int \<Rightarrow> application \<Rightarrow> bool" where
  "in_time n c A \<longleftrightarrow> configured A \<and> counter A = c \<and> adv_counter A = (if n = 1 then of_int (c div 15) else 0)
     \<and> (n \<noteq> 1 \<longrightarrow> c < actual_data_sending_interval A \<and> n \<le> actual_data_sending_interval A
          \<and> (actual_data_sending_interval A - n) mod NUM_COOJA_NODES = 0
          \<and> actual_data_sending_interval A \<le> (if n \<le> c then c + NUM_COOJA_NODES else n))"

lemma next_multiple:
  assumes "(d - n) mod (5 :: int) = 0" "(c - n) mod 5 = 0" "c \<le> d" "d < c + 5"
  shows "c = d"
proof -
  have "(d - c) mod 5 = ((d - n) - (c - n)) mod 5"
    by simp
  also have "\<dots> = 0"
    using assms(1,2) by (subst mod_diff_eq [symmetric]) simp
  finally show ?thesis
    using assms(3,4) by simp
qed

lemma next_quotient: "(c + 1) div 15 = (if (c + 1) mod 15 = 0 then c div 15 + 1 else c div (15 :: int))"
proof -
  obtain k r where kr: "(c + 1) div 15 = k" "(c + 1) mod 15 = r" "c + 1 = 15 * k + r" "0 \<le> r" "r < 15"
    by (rule that [OF refl refl]) simp_all
  show ?thesis
  proof (cases "r = 0")
    case True
    with kr(3) have "c div 15 = k - 1"
      by (intro int_div_pos_eq [of _ _ _ 14]) simp_all
    with True show ?thesis
      by (simp add: kr(1,2))
  next
    case False
    with kr(3-5) have "c div 15 = k"
      by (intro int_div_pos_eq [of _ _ _ "r - 1"]) simp_all
    with False show ?thesis
      by (simp add: kr(1,2))
  qed
qed

lemma in_timeD:
  assumes "in_time n c A" "n \<noteq> 1"
  shows "c < actual_data_sending_interval A" "n \<le> actual_data_sending_interval A" "(actual_data_sending_interval A - n) mod 5 = 0"
    "actual_data_sending_interval A \<le> (if n \<le> c then c + 5 else n)"
  using assms by (simp_all add: in_time_def NUM_COOJA_NODES_def split: if_splits)

lemma turn_from_interval:
  assumes t: "in_time n c A" and n: "n \<noteq> 1"
  shows "c + 1 = actual_data_sending_interval A \<longleftrightarrow> has_turn n (c + 1)"
proof
  assume h: "has_turn n (c + 1)"
  show "c + 1 = actual_data_sending_interval A"
  proof (rule next_multiple)
    show "(c + 1 - n) mod 5 = 0"
      using h by (simp only: has_turn_def NUM_COOJA_NODES_def)
    show "c + 1 \<le> actual_data_sending_interval A" "actual_data_sending_interval A < c + 1 + 5"
      using in_timeD(1,4) [OF t n] h by (simp_all add: has_turn_def split: if_splits)
  qed (rule in_timeD(3) [OF t n])
qed (use n in_timeD(2,3) [OF t n] in \<open>simp add: has_turn_def NUM_COOJA_NODES_def\<close>)

lemma in_time_next:
  assumes t: "in_time n c A" and n: "1 \<le> n"
    and A': "configured A'" "counter A' = c + 1" "adv_counter A' = (if n = 1 \<and> (c + 1) mod 15 = 0 then adv_counter A + 1 else adv_counter A)"
      "actual_data_sending_interval A' = (if has_turn n (c + 1) then actual_data_sending_interval A + NUM_COOJA_NODES else actual_data_sending_interval A)"
  shows "in_time n (c + 1) A'"
proof -
  have "(c + 1) div 15 = (if (c + 1) mod 15 = 0 then c div 15 + 1 else c div 15)"
    by (rule next_quotient)
  then have "adv_counter A' = (if n = 1 then of_int ((c + 1) div 15) else 0)"
    using t A'(3) by (simp add: in_time_def)
  moreover have "c + 1 < actual_data_sending_interval A' \<and> n \<le> actual_data_sending_interval A'
      \<and> (actual_data_sending_interval A' - n) mod NUM_COOJA_NODES = 0 \<and> actual_data_sending_interval A' \<le> (if n \<le> c + 1 then c + 1 + NUM_COOJA_NODES else n)" if "n \<noteq> 1"
  proof -
    have i: "c + 1 = actual_data_sending_interval A \<longleftrightarrow> has_turn n (c + 1)"
      by (rule turn_from_interval [OF t that])
    note d = in_timeD [OF t that]
    show ?thesis
    proof (cases "has_turn n (c + 1)")
      case True
      have "actual_data_sending_interval A = c + 1"
        using True i by simp
      then have "actual_data_sending_interval A' = c + 1 + 5"
        using A'(4) True by (simp add: NUM_COOJA_NODES_def)
      moreover have "n \<le> c + 1" "(c + 1 - n) mod 5 = 0"
        using True by (simp_all only: has_turn_def NUM_COOJA_NODES_def)
      moreover have "(c + 1 + 5 - n) mod 5 = (c + 1 - n) mod 5"
        using mod_add_self2 [of "c + 1 - n" 5] by (simp only: diff_add_eq)
      ultimately show ?thesis
        by (simp only: NUM_COOJA_NODES_def if_True) linarith
    next
      case False
      then have "actual_data_sending_interval A' = actual_data_sending_interval A" "c + 1 \<noteq> actual_data_sending_interval A"
        using A'(4) i by simp_all
      with d show ?thesis
        by (simp only: NUM_COOJA_NODES_def) (simp split: if_splits)
    qed
  qed
  ultimately show ?thesis
    using A'(1,2) by (simp add: in_time_def)
qed

lemma bind_Some_pair: "(x \<bind> (\<lambda>y. Some (a, y))) = map_option (Pair a) x"
  by (cases x) auto

lemma send_unicast_spec:
  obtains A' where "send_unicast A N = map_option (Pair A') (unicast_spec (counter A) N)" "counter A' = counter A" "adv_counter A' = adv_counter A"
    "actual_data_sending_interval A' = actual_data_sending_interval A" "configured A' = configured A"
proof -
  obtain bytes N' where b: "random_bytes MASTER_MSG_LENGTH N = (bytes, N')"
    by fastforce
  then have n: "net N' = net N"
    using random_bytes_net [of MASTER_MSG_LENGTH N] by simp
  show thesis
  proof (cases "node_is_sender (net N) \<noteq> 0 \<and> 240 < counter A")
    case True
    with b n show thesis
      by (intro that [of "A\<lparr>app_receiver := get_node_receiver (net N), app_payload := bytes[8 := 0]\<rparr>"])
        (simp_all add: send_unicast_def unicast_spec_def bind_Some_pair)
  next
    case False
    then show thesis
      by (intro that [of A]) (auto simp: send_unicast_def unicast_spec_def)
  qed
qed

lemma unicast_spec_node_id:
  assumes "unicast_spec c N = Some N'"
  shows "node_id (net N') = node_id (net N)"
proof -
  obtain bytes N'' where b: "random_bytes MASTER_MSG_LENGTH N = (bytes, N'')"
    by fastforce
  then have "net N'' = net N"
    using random_bytes_net [of MASTER_MSG_LENGTH N] by simp
  with assms b show ?thesis
    by (auto simp: unicast_spec_def dest!: on_routing_node_id node_id_kept split: if_splits)
qed

lemma advertisement_spec_node_id: "advertisement_spec e c N = Some N' \<Longrightarrow> node_id (net N') = node_id (net N)"
  by (auto simp: advertisement_spec_def dest!: on_routing_node_id node_id_kept split: if_splits)

lemma turn_spec_node_id: "turn_spec e c N = Some N' \<Longrightarrow> node_id (net N') = node_id (net N)"
  by (auto simp: turn_spec_def dest!: on_routing_node_id node_id_kept split: if_splits)

lemma sint_eq_1: "sint (w :: u16) = 1 \<longleftrightarrow> w = 1"
proof
  assume "sint w = 1"
  then have "word_of_int (sint w) = (1 :: u16)"
    by (simp only: of_int_1)
  then show "w = 1"
    by simp
qed simp

lemma send_advertisement_spec:
  assumes a: "adv_counter A = (if sint (node_id (net N)) = 1 then of_int (c div 15) else 0)" and c: "counter A = c + 1"
  obtains A' where "send_advertisement e A N = map_option (Pair A') (advertisement_spec e (c + 1) N)" "counter A' = c + 1"
    "adv_counter A' = (if sint (node_id (net N)) = 1 \<and> (c + 1) mod 15 = 0 then adv_counter A + 1 else adv_counter A)"
    "actual_data_sending_interval A' = actual_data_sending_interval A" "configured A' = configured A"
proof (cases "(c + 1) mod 15 = 0 \<and> node_id (net N) = 1")
  case True
  then have "adv_counter A + 1 = of_int ((c + 1) div 15)"
    using a next_quotient [of c] by simp
  with True c show thesis
    by (intro that [of "A\<lparr>adv_counter := adv_counter A + 1\<rparr>"])
      (simp_all add: send_advertisement_def advertisement_spec_def bind_Some_pair)
next
  case False
  moreover have "sint (node_id (net N)) = 1 \<longleftrightarrow> node_id (net N) = 1"
    by (rule sint_eq_1)
  ultimately show thesis
    using c by (intro that [of A]) (auto simp: send_advertisement_def advertisement_spec_def)
qed

lemma turn_taken:
  assumes c: "counter A = c" "c \<le> 32762" and n: "n = sint (node_id (net N))" "n \<noteq> 1 \<Longrightarrow> c = actual_data_sending_interval A \<longleftrightarrow> has_turn n c"
    "1 \<le> c"
  obtains A' where "send_strengths_in_turn e A N = map_option (Pair A') (turn_spec e c N)" "counter A' = c" "adv_counter A' = adv_counter A"
    "actual_data_sending_interval A' = (if has_turn n c then actual_data_sending_interval A + NUM_COOJA_NODES else actual_data_sending_interval A)"
    "configured A' = configured A"
proof (cases "has_turn n c")
  case True
  then have n1: "n \<noteq> 1" "node_id (net N) \<noteq> 1"
    using n(1) by (auto simp: has_turn_def)
  then have "actual_data_sending_interval A = c"
    using n(2) True by simp
  moreover from this have "chk_int (actual_data_sending_interval A + NUM_COOJA_NODES) = Some (c + NUM_COOJA_NODES)"
    using c n(3) by (simp add: chk_int_def NUM_COOJA_NODES_def)
  ultimately have "send_strengths_in_turn e A N = map_option (Pair (A\<lparr>actual_data_sending_interval := c + NUM_COOJA_NODES\<rparr>)) (turn_spec e c N)"
    using True n1(2) c(1) by (simp only: send_strengths_in_turn_def turn_spec_def n(1) [symmetric] bind.bind_lunit bind_Some_pair simp_thms if_True)
  then show thesis
    using True \<open>actual_data_sending_interval A = c\<close> c(1)
    by (intro that [of "A\<lparr>actual_data_sending_interval := c + NUM_COOJA_NODES\<rparr>"]) simp_all
next
  case False
  have "\<not> (c = actual_data_sending_interval A \<and> node_id (net N) \<noteq> 1)"
  proof
    assume h: "c = actual_data_sending_interval A \<and> node_id (net N) \<noteq> 1"
    then have "n \<noteq> 1"
      unfolding n(1) sint_eq_1 by (rule conjunct2)
    from n(2) [OF this] h False show False
      by simp
  qed
  then have "send_strengths_in_turn e A N = map_option (Pair A) (turn_spec e c N)"
    using False by (simp only: send_strengths_in_turn_def turn_spec_def n(1) [symmetric] c(1) if_False option.map)
  then show thesis
    by (intro that [of A]) (simp_all add: False c(1))
qed

text \<open>One second: the process is undefined only where the reference is.\<close>

lemma app_second_spec:
  assumes t: "in_time n c A" and n: "n = sint (node_id (net N))" "1 \<le> n" and c: "1 \<le> c" "c \<le> 32761"
    and gen: "\<And>R R'. generated R = Some R' \<Longrightarrow> node_id R' = node_id R"
  obtains A' where "app_second generated e A N = map_option (Pair A') (second_spec generated e (c + 1) N)" 
    "\<And>N'. second_spec generated e (c + 1) N = Some N' \<Longrightarrow> in_time n (c + 1) A' \<and> node_id (net N') = node_id (net N)"
proof -
  let ?A = "A\<lparr>counter := c + 1\<rparr>"
  have cnt: "chk_int (counter A + 1) = Some (c + 1)"
    using t c by (simp add: in_time_def chk_int_def)
  have id: "node_id (net N') = node_id (net N)" if "new_schedule generated (c + 1) N = Some N'" for N'
    using that gen by (auto simp: new_schedule_def apply_generated_schedule_def bind_eq_Some dest!: on_routing_node_id node_id_kept split: if_splits)
  have ids: "node_id (net N') = node_id (net N)" if "second_spec generated e (c + 1) N = Some N'" for N'
    using that by (auto simp: second_spec_def bind_eq_Some dest!: id unicast_spec_node_id advertisement_spec_node_id turn_spec_node_id)
  note run = app_second_def second_spec_def cnt bind.bind_lunit Let_def
  show thesis
  proof (cases "new_schedule generated (c + 1) N")
    case None
    then show thesis
      by (intro that) (simp_all add: run)
  next
    case N1: (Some N1)
    obtain A1 where A1: "send_unicast ?A N1 = map_option (Pair A1) (unicast_spec (c + 1) N1)" "counter A1 = c + 1" "adv_counter A1 = adv_counter A"
      "actual_data_sending_interval A1 = actual_data_sending_interval A" "configured A1 = configured A"
      using send_unicast_spec [of ?A N1] by auto
    show thesis
    proof (cases "unicast_spec (c + 1) N1")
      case None
      then show thesis
        using N1 A1(1) by (intro that) (simp_all add: run)
    next
      case N2: (Some N2)
      then have n2: "node_id (net N2) = node_id (net N)"
        using unicast_spec_node_id [OF N2] id [OF N1] by simp
      obtain A2 where A2: "send_advertisement e A1 N2 = map_option (Pair A2) (advertisement_spec e (c + 1) N2)" "counter A2 = c + 1"
        "adv_counter A2 = (if n = 1 \<and> (c + 1) mod 15 = 0 then adv_counter A + 1 else adv_counter A)"
        "actual_data_sending_interval A2 = actual_data_sending_interval A" "configured A2"
      proof -
        have n': "sint (node_id (net N2)) = n" "adv_counter A1 = (if sint (node_id (net N2)) = 1 then of_int (c div 15) else 0)" "configured A1"
          using t A1(3,5) n(1) n2 by (simp_all add: in_time_def)
        show thesis
        proof (rule send_advertisement_spec [OF n'(2) A1(2), where e = e])
          fix A'
          assume h: "send_advertisement e A1 N2 = map_option (Pair A') (advertisement_spec e (c + 1) N2)" "counter A' = c + 1"
            "adv_counter A' = (if sint (node_id (net N2)) = 1 \<and> (c + 1) mod 15 = 0 then adv_counter A1 + 1 else adv_counter A1)"
            "actual_data_sending_interval A' = actual_data_sending_interval A1" "configured A' = configured A1"
          show thesis
            by (rule that [OF h(1,2)]) (simp_all only: h n'(1,3) A1(3,4))
        qed
      qed
      show thesis
      proof (cases "advertisement_spec e (c + 1) N2")
        case None
        then show thesis
          using N1 A1(1) N2 A2(1) by (intro that) (simp_all add: run)
      next
        case N3: (Some N3)
        then have n3: "n = sint (node_id (net N3))"
          using advertisement_spec_node_id [OF N3] n2 n by simp
        have turn: "c + 1 = actual_data_sending_interval A2 \<longleftrightarrow> has_turn n (c + 1)" if "n \<noteq> 1"
          using turn_from_interval [OF t that] A2(4) by simp
        obtain A3 where A3: "send_strengths_in_turn e A2 N3 = map_option (Pair A3) (turn_spec e (c + 1) N3)" "counter A3 = c + 1" "adv_counter A3 = adv_counter A2"
          "actual_data_sending_interval A3 = (if has_turn n (c + 1) then actual_data_sending_interval A2 + NUM_COOJA_NODES else actual_data_sending_interval A2)"
          "configured A3 = configured A2"
          by (rule turn_taken [OF A2(2) _ n3 turn]) (use c in \<open>auto intro: that\<close>)
        have "in_time n (c + 1) A3"
          by (rule in_time_next [OF t n(2)]) (simp_all add: A3 A2)
        moreover have "app_second generated e A N = map_option (Pair A3) (second_spec generated e (c + 1) N)"
          using N1 A1(1) N2 A2(1) N3 A3(1) by (simp add: run)
        ultimately show thesis
          using ids by (intro that) auto
      qed
    qed
  qed
qed

definition quiet :: "second \<Rightarrow> bool" where
  "quiet e \<longleftrightarrow> (\<forall>N. node_id (net (others e N)) = node_id (net N))"

lemma run_follows_spec:
  assumes gen: "\<And>R R'. generated R = Some R' \<Longrightarrow> node_id R' = node_id R" and n: "1 \<le> n"
  shows "in_time n c A \<Longrightarrow> n = sint (node_id (net N)) \<Longrightarrow> \<forall>e \<in> set es. quiet e \<Longrightarrow> 1 \<le> c \<Longrightarrow> c + int (length es) \<le> 32762
    \<Longrightarrow> \<exists>A'. app_run generated es A N = map_option (Pair A') (run_spec generated es (c + 1) N)
      \<and> (run_spec generated es (c + 1) N \<noteq> None \<longrightarrow> in_time n (c + int (length es)) A')"
proof (induction es arbitrary: c A N)
  case Nil
  then show ?case
    by (intro exI [of _ A]) simp
next
  case (Cons e es)
  have conf: "configured A"
    using Cons.prems(1) by (simp add: in_time_def)
  obtain A1 where A1: "app_second generated e A N = map_option (Pair A1) (second_spec generated e (c + 1) N)"
    "\<And>N'. second_spec generated e (c + 1) N = Some N' \<Longrightarrow> in_time n (c + 1) A1 \<and> node_id (net N') = node_id (net N)"
    using app_second_spec [OF Cons.prems(1,2) n Cons.prems(4) _ gen, where e = e and generated = generated] Cons.prems(5) by auto
  show ?case
  proof (cases "second_spec generated e (c + 1) N")
    case None
    then show ?thesis
      using A1(1) conf by (simp add: app_timer_def)
  next
    case (Some N1)
    note s = A1(2) [OF Some]
    have "n = sint (node_id (net (others e N1)))"
      using s Cons.prems(2,3) by (simp add: quiet_def)
    from Cons.IH [OF conjunct1 [OF s] this] Cons.prems(3-5) obtain A' where
      "app_run generated es A1 (others e N1) = map_option (Pair A') (run_spec generated es (c + 1 + 1) (others e N1))"
      "run_spec generated es (c + 1 + 1) (others e N1) \<noteq> None \<longrightarrow> in_time n (c + 1 + int (length es)) A'"
      by auto
    then show ?thesis
      using A1(1) Some conf by (intro exI [of _ A']) (simp add: app_timer_def ac_simps)
  qed
qed

text \<open>The counters of the process are signed: after 32766 seconds, about nine hours, the next one overflows.\<close>

lemma counter_overflows: "configured A \<Longrightarrow> counter A = 32767 \<Longrightarrow> app_timer generated e A N = None"
  by (simp add: app_timer_def app_second_def chk_int_def)


definition waiting_node :: tsch_node where
  "waiting_node = node_initial ((mr_example 2 [])\<lparr>is_configured := True\<rparr>)"

definition quiet_second :: second where
  "quiet_second = \<lparr>g_adv = replicate 8 0, g_data = replicate 65 0, others = id\<rparr>"


end
