(* ===== verification/Neighbour_Collection.thy ===== *)
theory Neighbour_Collection
  imports Strength_Vector Packetbuf
begin

text \<open>
  The prototype \<^verbatim>\<open>examples/neighbour-data-collection\<close>, an application of its own over the network layer NullNet: each node
  sends a beacon every ten seconds, node 1 starts rounds of advertisements, by which each node finds the neighbor over which node 1 is best
  reached, and each node sends packets over this neighbor that collect the numbers of the nodes on their way.  The prototype has
  a copy of \<^verbatim>\<open>strength-vector.c\<close> with strengths in percent.  The MAC layer below is CSMA: what NullNet hands to it is collected in \<open>outbox\<close>.
  An \<^verbatim>\<open>int\<close> has 16 bits, and \<^verbatim>\<open>double\<close> is \<^verbatim>\<open>float\<close>, as on the target; what is printed about a route is in \<open>routes\<close>.
\<close>

section \<open>State\<close>

text \<open>What NullNet hands to the MAC layer: the contents of the packet buffer, of 128 bytes here, and its addresses.\<close>

record net_frame =
  nf_data :: "u8 list"
  nf_receiver :: linkaddr
  nf_sender :: linkaddr

record offer =
  of_nodeId :: int
  of_seq :: int
  of_strength :: float32

record collector =
  c_node_id :: u16
  c_address :: linkaddr
  beacons_sent :: int
  c_counter :: int
  received_beaconData :: "u8 list"
  received_advertisementData :: "u8 list"
  maxMasterStrength :: float32
  best_node :: int
  bestLink :: linkaddr
  maxSeqforStrength :: int
  mainStrengthSeq :: int
  history :: offer
  actualData :: "u8 list"
  c_strengths :: strengths
  outbox :: "net_frame list"
  routes :: "int list list"

definition NO_STRENGTH :: float32 where "NO_STRENGTH = 0xbf800000"

definition collector_initial :: "u16 \<Rightarrow> linkaddr \<Rightarrow> collector" where
  "collector_initial i a = \<lparr>c_node_id = i, c_address = a, beacons_sent = 0, c_counter = 0, received_beaconData = replicate 6 0,
     received_advertisementData = replicate 10 0, maxMasterStrength = NO_STRENGTH, best_node = -1, bestLink = linkaddr_null,
     maxSeqforStrength = -1, mainStrengthSeq = 1, history = \<lparr>of_nodeId = 0, of_seq = 0, of_strength = 0\<rparr>, actualData = replicate 50 0,
     c_strengths = \<lparr>strength_vector = replicate 1000 0, receivedCounter = replicate 1000 0, highestSequence = 0, highestNodeID = 0\<rparr>,
     outbox = [], routes = []\<rparr>"

text \<open>An \<^verbatim>\<open>int\<close> in memory, read and written by \<^verbatim>\<open>memcpy\<close>.\<close>

definition int_at :: "u8 list \<Rightarrow> int \<Rightarrow> int option" where
  "int_at xs pos = (if pos < 0 then None else do { bs \<leftarrow> rd_n xs (nat pos) 2; w \<leftarrow> of_le16 bs; Some (sint w) })"

definition put_int :: "u8 list \<Rightarrow> int \<Rightarrow> int \<Rightarrow> u8 list option" where
  "put_int xs pos v = (if pos < 0 then None else wr_n xs (nat pos) (le16 (of_int v)))"

definition fl_equal :: "float32 \<Rightarrow> float32 \<Rightarrow> bool" where
  "fl_equal a b \<longleftrightarrow> \<not> fl_nan a \<and> \<not> fl_nan b \<and> fl_order a = fl_order b"

section \<open>NullNet\<close>

definition nullnet_output :: "u8 list \<Rightarrow> nat \<Rightarrow> linkaddr option \<Rightarrow> collector \<Rightarrow> collector option" where
  "nullnet_output buf len dest C = do {
     bs \<leftarrow> rd_n buf 0 (min 128 len);
     let receiver = (case dest of Some a \<Rightarrow> a | None \<Rightarrow> linkaddr_null);
     Some (C\<lparr>outbox := outbox C @ [\<lparr>nf_data = bs, nf_receiver = receiver, nf_sender = c_address C\<rparr>]\<rparr>)
   }"

section \<open>Strengths\<close>

text \<open>The product by 100 is exact: the counter has 15 bits.\<close>

fun update_percents :: "int list \<Rightarrow> int \<Rightarrow> int list \<Rightarrow> float32 list \<Rightarrow> float32 list option" where
  "update_percents counters hs [] sv = Some sv"
| "update_percents counters hs (i # is) sv = do {
     c \<leftarrow> rd_i counters i;
     sv \<leftarrow> wr_i sv i (fl_quot (nat (100 * c)) (nat hs));
     update_percents counters hs is sv
   }"

definition count_beacon :: "strengths \<Rightarrow> beacon \<Rightarrow> strengths option" where
  "count_beacon s b = do {
     let hs = (if highestSequence s < b_seq b then b_seq b else highestSequence s);
     let hn = (if highestNodeID s < b_nodeID b then b_nodeID b else highestNodeID s);
     c \<leftarrow> rd_i (receivedCounter s) (b_nodeID b);
     c \<leftarrow> chk_int (c + 1);
     cs \<leftarrow> wr_i (receivedCounter s) (b_nodeID b) c;
     sv \<leftarrow> update_percents cs hs [1 .. hn] (strength_vector s);
     Some (s\<lparr>strength_vector := sv, receivedCounter := cs, highestSequence := hs, highestNodeID := hn\<rparr>)
   }"

section \<open>Received packets\<close>

text \<open>\<open>data\<close> is the memory from the received data on, \<open>len\<close> the length of the packet.  Shorter packets leave the rest of a structure as it was.\<close>

definition on_beacon :: "u8 list \<Rightarrow> u16 \<Rightarrow> collector \<Rightarrow> collector option" where
  "on_beacon data len C = do {
     bs \<leftarrow> rd_n data 0 (unat len);
     r \<leftarrow> wr_n (received_beaconData C) 0 bs;
     n \<leftarrow> int_at r 2;
     q \<leftarrow> int_at r 4;
     s \<leftarrow> count_beacon (c_strengths C) \<lparr>b_nodeID = n, b_seq = q\<rparr>;
     Some (C\<lparr>received_beaconData := r, c_strengths := s\<rparr>)
   }"

text \<open>The choice of the best node, for an advertisement of node \<open>n\<close> in round \<open>q\<close> over a link that is good for \<open>strength\<close>.\<close>

definition choose_best :: "int \<Rightarrow> int \<Rightarrow> float32 \<Rightarrow> linkaddr \<Rightarrow> collector \<Rightarrow> collector" where
  "choose_best n q strength src C =
     (let C = (if maxSeqforStrength C < q then
            C\<lparr>maxSeqforStrength := q, maxMasterStrength := (if best_node C = n then strength else maxMasterStrength C)\<rparr> else C)
      in if maxSeqforStrength C \<le> q \<and> fl_less (maxMasterStrength C) strength
         then C\<lparr>maxMasterStrength := strength, best_node := n, bestLink := src\<rparr> else C)"

definition offer_bytes :: "offer \<Rightarrow> u8 list" where
  "offer_bytes a = le16 2 @ le16 (of_int (of_nodeId a)) @ le16 (of_int (of_seq a)) @ le32 (of_strength a)"

definition on_advertisement :: "u8 list \<Rightarrow> u16 \<Rightarrow> linkaddr \<Rightarrow> collector \<Rightarrow> collector option" where
  "on_advertisement data len src C = do {
     bs \<leftarrow> rd_n data 0 (unat len);
     r \<leftarrow> wr_n (received_advertisementData C) 0 bs;
     n \<leftarrow> int_at r 2;
     q \<leftarrow> int_at r 4;
     x \<leftarrow> rd_n r 6 4;
     strengthToMaster \<leftarrow> of_le32 x;
     own \<leftarrow> rd_i (strength_vector (c_strengths C)) n;
     let C = choose_best n q (fl_min strengthToMaster own) src (C\<lparr>received_advertisementData := r\<rparr>);
     let a = \<lparr>of_nodeId = sint (c_node_id C), of_seq = maxSeqforStrength C, of_strength = maxMasterStrength C\<rparr>;
     if of_nodeId (history C) = of_nodeId a \<and> fl_equal (of_strength (history C)) (of_strength a) then Some C
     else do {
       C \<leftarrow> nullnet_output (offer_bytes a) 10 None C;
       Some (C\<lparr>history := a\<rparr>)
     }
   }"

text \<open>The loop that prints a route at node 1: \<open>k\<close> entries are left, the next one is at \<open>pos\<close>.\<close>

fun read_route :: "nat \<Rightarrow> u8 list \<Rightarrow> int \<Rightarrow> int list option" where
  "read_route 0 xs pos = Some []"
| "read_route (Suc k) xs pos = do { v \<leftarrow> int_at xs pos; vs \<leftarrow> read_route k xs (pos + 2); Some (v # vs) }"

text \<open>
  A packet that collects its route: its type, the number of nodes and their numbers.  Node 1 prints the route, another node
  adds itself and passes the packet on.  The position of the new entry is computed in unsigned numbers of 16 bits.
\<close>

definition on_route :: "u8 list \<Rightarrow> u16 \<Rightarrow> collector \<Rightarrow> collector option" where
  "on_route data len C = do {
     bs \<leftarrow> rd_n data 0 (unat len);
     ad \<leftarrow> wr_n (actualData C) 0 bs;
     if c_node_id C = 1 then do {
       k \<leftarrow> int_at ad 2;
       vs \<leftarrow> read_route (nat k) ad 4;
       Some (C\<lparr>actualData := ad, routes := routes C @ [vs]\<rparr>)
     } else do {
       k \<leftarrow> int_at data 2;
       k \<leftarrow> chk_int (k + 1);
       ad \<leftarrow> put_int ad 2 k;
       let pos = sint ((4 :: u16) + (of_int k - 1) * 2);
       ad \<leftarrow> put_int ad pos (sint (c_node_id C));
       nullnet_output ad (unat (len + 2)) (Some (bestLink C)) (C\<lparr>actualData := ad\<rparr>)
     }
   }"

definition collector_input :: "u8 list \<Rightarrow> u16 \<Rightarrow> linkaddr \<Rightarrow> collector \<Rightarrow> collector option" where
  "collector_input data len src C = do {
     packet_type \<leftarrow> int_at data 0;
     if packet_type = 1 then on_beacon data len C
     else if packet_type = 2 then on_advertisement data len src C
     else if packet_type = 3 then on_route data len C
     else Some C
   }"

section \<open>The process\<close>

text \<open>Node 1 starts a round of advertisements; the other nodes send a packet that collects its route.\<close>

definition start_round :: "collector \<Rightarrow> collector option" where
  "start_round C = do {
     let C = C\<lparr>maxMasterStrength := fl_quot 100 1, best_node := 1\<rparr>;
     let a = \<lparr>of_nodeId = sint (c_node_id C), of_seq = mainStrengthSeq C, of_strength = fl_quot 100 1\<rparr>;
     n \<leftarrow> chk_int (mainStrengthSeq C + 1);
     nullnet_output (offer_bytes a) 10 None (C\<lparr>mainStrengthSeq := n\<rparr>)
   }"

definition start_route :: "collector \<Rightarrow> collector option" where
  "start_route C = (if best_node C \<noteq> -1 then do {
     ad \<leftarrow> put_int (actualData C) 0 3;
     ad \<leftarrow> put_int ad 2 1;
     ad \<leftarrow> put_int ad 4 (sint (c_node_id C));
     nullnet_output ad 6 (Some (bestLink C)) (C\<lparr>actualData := ad\<rparr>)
   } else Some C)"

definition collector_timer :: "collector \<Rightarrow> collector option" where
  "collector_timer C = do {
     q \<leftarrow> chk_int (beacons_sent C + 1);
     C \<leftarrow> nullnet_output (le16 1 @ le16 (c_node_id C) @ le16 (of_int q)) 6 None (C\<lparr>beacons_sent := q\<rparr>);
     n \<leftarrow> chk_int (c_counter C + 1);
     let C = C\<lparr>c_counter := n\<rparr>;
     if n mod 5 = 0 \<and> c_node_id C = 1 then start_round C
     else if c_node_id C \<noteq> 1 \<and> n mod 5 = 0 then start_route C
     else Some C
   }"

section \<open>A packet with its route\<close>

text \<open>A field in the middle of a memory.\<close>

lemma wr_n_mid: "length b = length ys \<Longrightarrow> i = length a \<Longrightarrow> wr_n (a @ b @ c) i ys = Some (a @ ys @ c)"
  by (simp add: wr_n_in)

lemma rd_n_mid: "i = length a \<Longrightarrow> n = length b \<Longrightarrow> rd_n (a @ b @ c) i n = Some b"
  by (simp add: rd_n_in)

lemma put_int_mid: "length b = 2 \<Longrightarrow> pos = int (length a) \<Longrightarrow> put_int (a @ b @ c) pos v = Some (a @ le16 (of_int v) @ c)"
  by (simp add: put_int_def wr_n_mid)

lemma int_at_mid: "pos = int (length a) \<Longrightarrow> int_at (a @ le16 w @ c) pos = Some (sint w)"
  by (simp add: int_at_def rd_n_mid)

definition route_bytes :: "u16 list \<Rightarrow> u8 list" where
  "route_bytes vs = le16 3 @ le16 (of_nat (length vs)) @ concat (map le16 vs)"

lemma length_route_entries [simp]: "length (concat (map le16 vs)) = 2 * length vs"
  by (induction vs) simp_all

lemma length_route_bytes [simp]: "length (route_bytes vs) = 4 + 2 * length vs"
  by (simp add: route_bytes_def)

lemma route_bytes_snoc: "route_bytes (vs @ [v]) = le16 3 @ le16 (of_nat (length vs) + 1) @ concat (map le16 vs) @ le16 v"
  by (simp add: route_bytes_def add.commute)

lemma sint_small: "k < 32768 \<Longrightarrow> sint (of_nat k :: u16) = int k"
  using signed_of_nat [where 'a = int and 'b = 16, of k] by (simp add: signed_take_bit_int_eq_self)

lemma route_stored:
  assumes "length old = 50" "length vs \<le> 23"
  shows "wr_n old 0 (route_bytes vs) = Some (route_bytes vs @ drop (4 + 2 * length vs) old)"
  using assms by (simp add: wr_n_in)

lemma read_route_entries: "pos = int (length a) \<Longrightarrow> read_route (length vs) (a @ concat (map le16 vs) @ c) pos = Some (map sint vs)"
proof (induction vs arbitrary: pos a)
  case (Cons v vs)
  have "int_at (a @ le16 v @ concat (map le16 vs) @ c) pos = Some (sint v)"
    by (rule int_at_mid [OF Cons.prems])
  moreover have "read_route (length vs) ((a @ le16 v) @ concat (map le16 vs) @ c) (pos + 2) = Some (map sint vs)"
    by (rule Cons.IH) (simp add: Cons.prems)
  ultimately show ?case
    by simp
qed simp

lemma received_type: "int_at (route_bytes vs @ post) 0 = Some 3"
  using int_at_mid [of 0 "[]" 3] by (simp add: route_bytes_def)

lemma received_count: "length vs < 32768 \<Longrightarrow> int_at (route_bytes vs @ post) 2 = Some (int (length vs))"
  using int_at_mid [of 2 "le16 3" "of_nat (length vs)"] by (simp add: route_bytes_def sint_small)

lemma route_received: "unat len = length (route_bytes vs) \<Longrightarrow> rd_n (route_bytes vs @ post) 0 (unat len) = Some (route_bytes vs)"
  by (simp only: rd_n_append)

text \<open>Node 1 reads the route, another node adds itself; the entry number 24 is behind the end of the buffer.\<close>

lemma route_arrives:
  assumes C: "c_node_id C = 1" "length (actualData C) = 50" and k: "length vs \<le> 23" and len: "unat len = length (route_bytes vs)"
  obtains C' where "collector_input (route_bytes vs @ post) len src C = Some C'"
    "routes C' = routes C @ [map sint vs]" "outbox C' = outbox C"
proof -
  have n: "int_at (route_bytes vs @ drop (4 + 2 * length vs) (actualData C)) 2 = Some (int (length vs))"
    using k by (intro received_count) simp
  have "read_route (length vs) (route_bytes vs @ drop (4 + 2 * length vs) (actualData C)) 4 = Some (map sint vs)"
    using read_route_entries [of 4 "le16 3 @ le16 (of_nat (length vs))"] by (simp add: route_bytes_def)
  with n have "collector_input (route_bytes vs @ post) len src C
      = Some (C\<lparr>actualData := route_bytes vs @ drop (4 + 2 * length vs) (actualData C), routes := routes C @ [map sint vs]\<rparr>)"
    by (simp add: collector_input_def received_type on_route_def route_received [OF len] route_stored [OF C(2) k] C(1) del: length_route_bytes)
  then show thesis
    by (rule that) simp_all
qed

lemma route_extended:
  assumes C: "c_node_id C \<noteq> 1" "length (actualData C) = 50" and k: "length vs \<le> 22" and l: "unat len = length (route_bytes vs)"
  obtains C' where "collector_input (route_bytes vs @ post) len src C = Some C'"
    "outbox C' = outbox C @ [\<lparr>nf_data = route_bytes (vs @ [c_node_id C]), nf_receiver = bestLink C, nf_sender = c_address C\<rparr>]"
proof -
  let ?n = "length vs" and ?R = "concat (map le16 vs)"
  have k': "?n \<le> 23"
    using k by simp
  obtain o1 o2 where o: "drop (4 + 2 * ?n) (actualData C) = o1 @ o2" "length o1 = 2"
    using C(2) k by (intro that [OF append_take_drop_id [symmetric, of _ 2]]) simp
  have stored: "wr_n (actualData C) 0 (route_bytes vs) = Some (le16 3 @ le16 (of_nat ?n) @ ?R @ o1 @ o2)"
    using route_stored [OF C(2) k'] by (simp add: o(1)) (simp add: route_bytes_def)
  have types: "(3 :: int) \<noteq> 1" "(3 :: int) \<noteq> 2"
    by simp_all
  have cnt: "chk_int (int ?n + 1) = Some (int ?n + 1)"
    using k by (simp add: chk_int_def)
  have one: "put_int (le16 3 @ le16 (of_nat ?n) @ ?R @ o1 @ o2) 2 (int ?n + 1) = Some (le16 3 @ le16 (of_nat ?n + 1) @ ?R @ o1 @ o2)"
    by (subst put_int_mid) simp_all
  have "sint ((4 :: u16) + (of_int (int ?n + 1) - 1) * 2) = sint (of_nat (4 + 2 * ?n) :: u16)"
    by (simp add: mult.commute)
  also have "\<dots> = int (4 + 2 * ?n)"
    using k by (intro sint_small) simp
  finally have pos: "sint ((4 :: u16) + (of_int (int ?n + 1) - 1) * 2) = int (4 + 2 * ?n)" .
  have two: "put_int (le16 3 @ le16 (of_nat ?n + 1) @ ?R @ o1 @ o2) (int (4 + 2 * ?n)) (sint (c_node_id C))
      = Some (route_bytes (vs @ [c_node_id C]) @ o2)"
    using put_int_mid [of o1 "int (4 + 2 * ?n)" "le16 3 @ le16 (of_nat ?n + 1) @ ?R" o2 "sint (c_node_id C)"] o(2)
    by (simp add: route_bytes_snoc)
  have "unat (len + 2) = unat len + 2"
    using l k unat_add_small_u16 [of len 2] by simp
  then have len: "min 128 (unat (len + 2)) = length (route_bytes (vs @ [c_node_id C]))"
    using l k by simp
  have "collector_input (route_bytes vs @ post) len src C
      = nullnet_output (route_bytes (vs @ [c_node_id C]) @ o2) (unat (len + 2)) (Some (bestLink C))
          (C\<lparr>actualData := route_bytes (vs @ [c_node_id C]) @ o2\<rparr>)"
    using received_count [of vs post] k
    by (simp only: collector_input_def received_type on_route_def route_received [OF l] stored cnt one two pos Let_def bind.bind_lunit types C(1)
        if_False if_True) (simp add: cnt one two pos del: of_int_add of_nat_add)
  also have "\<dots> = Some (C\<lparr>actualData := route_bytes (vs @ [c_node_id C]) @ o2,
      outbox := outbox C @ [\<lparr>nf_data = route_bytes (vs @ [c_node_id C]), nf_receiver = bestLink C, nf_sender = c_address C\<rparr>]\<rparr>)"
    by (simp only: nullnet_output_def len rd_n_append) simp
  finally show thesis
    by (rule that) simp
qed

lemma route_overruns:
  assumes C: "c_node_id C \<noteq> 1" "length (actualData C) = 50" and k: "length vs = 23" and l: "unat len = length (route_bytes vs)"
  shows "collector_input (route_bytes vs @ post) len src C = None"
proof -
  have stored: "wr_n (actualData C) 0 (route_bytes vs) = Some (route_bytes vs)"
    using route_stored [OF C(2), of vs] C(2) k by simp
  have one: "put_int (route_bytes vs) 2 24 = Some (le16 3 @ le16 24 @ concat (map le16 vs))"
    unfolding route_bytes_def by (subst put_int_mid) simp_all
  have two: "put_int (le16 3 @ le16 24 @ concat (map le16 vs)) 50 (sint (c_node_id C)) = None"
    using k by (simp add: put_int_def wr_n_out)
  show ?thesis
    using C(1) k received_count [of vs post]
    by (simp add: collector_input_def received_type on_route_def route_received [OF l] stored chk_int_def one two del: length_route_bytes)
qed

text \<open>A packet with the numbers of its route passes through nodes; each receives the last packet that the one before has sent.\<close>

record hop =
  hop_node :: collector
  hop_post :: "u8 list"
  hop_src :: linkaddr

fun pass_on :: "hop list \<Rightarrow> u8 list \<Rightarrow> u8 list option" where
  "pass_on [] bs = Some bs"
| "pass_on (h # hs) bs = do {
     C \<leftarrow> collector_input (bs @ hop_post h) (of_nat (length bs)) (hop_src h) (hop_node h);
     pass_on hs (nf_data (last (outbox C)))
   }"

definition forwarder :: "collector \<Rightarrow> bool" where
  "forwarder C \<longleftrightarrow> c_node_id C \<noteq> 1 \<and> length (actualData C) = 50"

lemma pass_on_route:
  "\<forall>h \<in> set hs. forwarder (hop_node h) \<Longrightarrow> length vs + length hs \<le> 23
    \<Longrightarrow> pass_on hs (route_bytes vs) = Some (route_bytes (vs @ map (c_node_id \<circ> hop_node) hs))"
proof (induction hs arbitrary: vs)
  case (Cons h hs)
  have h: "c_node_id (hop_node h) \<noteq> 1" "length (actualData (hop_node h)) = 50" and k: "length vs \<le> 22"
    using Cons.prems by (simp_all add: forwarder_def)
  have l: "unat (of_nat (length (route_bytes vs)) :: u16) = length (route_bytes vs)"
    using k sint_small [of "length (route_bytes vs)"] by (simp add: unsigned_of_nat take_bit_nat_eq_self del: of_nat_add of_nat_mult)
  obtain C where C: "collector_input (route_bytes vs @ hop_post h) (of_nat (length (route_bytes vs))) (hop_src h) (hop_node h) = Some C"
    "outbox C = outbox (hop_node h) @ [\<lparr>nf_data = route_bytes (vs @ [c_node_id (hop_node h)]), nf_receiver = bestLink (hop_node h), nf_sender = c_address (hop_node h)\<rparr>]"
    by (rule route_extended [OF h k l])
  have "pass_on hs (route_bytes (vs @ [c_node_id (hop_node h)])) = Some (route_bytes ((vs @ [c_node_id (hop_node h)]) @ map (c_node_id \<circ> hop_node) hs))"
    using Cons.prems by (intro Cons.IH) simp_all
  with C show ?case
    by (simp add: comp_def del: length_route_bytes)
qed simp

lemma start_route_sends:
  assumes "best_node C \<noteq> -1" "length (actualData C) = 50"
  obtains C' where "start_route C = Some C'" "length (actualData C') = 50"
    "outbox C' = outbox C @ [\<lparr>nf_data = route_bytes [c_node_id C], nf_receiver = bestLink C, nf_sender = c_address C\<rparr>]"
proof -
  obtain a b c d where abcd: "actualData C = a @ b @ c @ d" "length a = 2" "length b = 2" "length c = 2"
    using assms(2) by (intro that [of "take 2 (actualData C)" "take 2 (drop 2 (actualData C))" "take 2 (drop 4 (actualData C))" "drop 6 (actualData C)"])
      (simp_all add: take_add [symmetric] append_assoc [symmetric] del: append_assoc)
  have "put_int (actualData C) 0 3 = Some (le16 3 @ b @ c @ d)"
    using put_int_mid [of a 0 "[]"] abcd by simp
  moreover have "put_int (le16 3 @ b @ c @ d) 2 1 = Some (le16 3 @ le16 1 @ c @ d)"
    using put_int_mid [of b 2 "le16 3"] abcd by simp
  moreover have "put_int (le16 3 @ le16 1 @ c @ d) 4 (sint (c_node_id C)) = Some (route_bytes [c_node_id C] @ d)"
    using put_int_mid [of c 4 "le16 3 @ le16 1"] abcd by (simp add: route_bytes_def)
  moreover have "min 128 6 = length (route_bytes [c_node_id C])"
    by simp
  ultimately have "start_route C = Some (C\<lparr>actualData := route_bytes [c_node_id C] @ d,
      outbox := outbox C @ [\<lparr>nf_data = route_bytes [c_node_id C], nf_receiver = bestLink C, nf_sender = c_address C\<rparr>]\<rparr>)"
    using assms(1) by (simp only: start_route_def nullnet_output_def rd_n_append bind.bind_lunit simp_thms if_True) simp
  then show thesis
    by (rule that) (use assms(2) abcd in simp_all)
qed

text \<open>
  C10. A packet of the prototype collects its route.  In every fifth period, a node that knows a way to node 1 sends, after its beacon, a packet
  to its best neighbor.  When this packet passes through at most 22 further nodes, each node adds its number, no buffer overflows, and node 1 reads exactly the
  numbers of the nodes on the way, in their order.
\<close>

theorem route_collected:
  assumes C: "c_node_id C \<noteq> 1" "best_node C \<noteq> -1" "length (actualData C) = 50" "-32768 \<le> beacons_sent C" "beacons_sent C < 32767"
      "0 \<le> c_counter C" "c_counter C < 32767" "(c_counter C + 1) mod 5 = 0"
    and hs: "\<forall>h \<in> set hs. forwarder (hop_node h)" "length hs \<le> 22" and M: "c_node_id M = 1" "length (actualData M) = 50"
  shows "\<exists>C' b f bs M'. collector_timer C = Some C' \<and> outbox C' = outbox C @ [b, f] \<and> nf_receiver b = linkaddr_null \<and> nf_receiver f = bestLink C
    \<and> pass_on hs (nf_data f) = Some bs \<and> length bs \<le> 50
    \<and> collector_input (bs @ post) (of_nat (length bs)) src M = Some M'
    \<and> routes M' = routes M @ [sint (c_node_id C) # map (\<lambda>h. sint (c_node_id (hop_node h))) hs]"
proof -
  let ?vs = "c_node_id C # map (c_node_id \<circ> hop_node) hs"
  let ?b = "\<lparr>nf_data = le16 1 @ le16 (c_node_id C) @ le16 (of_int (beacons_sent C + 1)), nf_receiver = linkaddr_null, nf_sender = c_address C\<rparr>"
  let ?C = "C\<lparr>beacons_sent := beacons_sent C + 1, outbox := outbox C @ [?b], c_counter := c_counter C + 1\<rparr>"
  obtain C' where C': "start_route ?C = Some C'"
    "outbox C' = outbox ?C @ [\<lparr>nf_data = route_bytes [c_node_id ?C], nf_receiver = bestLink ?C, nf_sender = c_address ?C\<rparr>]"
    using start_route_sends [of ?C] C(2,3) by auto
  have "chk_int (beacons_sent C + 1) = Some (beacons_sent C + 1)" "chk_int (c_counter C + 1) = Some (c_counter C + 1)"
    using C(4-7) by (simp_all add: chk_int_def)
  moreover have "nullnet_output (le16 1 @ le16 (c_node_id C) @ le16 (of_int (beacons_sent C + 1))) 6 None (C\<lparr>beacons_sent := beacons_sent C + 1\<rparr>)
      = Some (C\<lparr>beacons_sent := beacons_sent C + 1, outbox := outbox C @ [?b]\<rparr>)"
    by (simp add: nullnet_output_def rd_n_in)
  ultimately have t: "collector_timer C = Some C'"
    using C(1,8) C'(1) by (simp add: collector_timer_def del: of_int_add)
  have p: "pass_on hs (route_bytes [c_node_id C]) = Some (route_bytes ?vs)"
    using pass_on_route [OF hs(1), of "[c_node_id C]"] hs(2) by simp
  have k: "length ?vs \<le> 23"
    using hs(2) by simp
  have l: "unat (of_nat (length (route_bytes ?vs)) :: u16) = length (route_bytes ?vs)"
    using k by (simp add: unsigned_of_nat take_bit_nat_eq_self del: of_nat_add of_nat_mult of_nat_Suc)
  obtain M' where "collector_input (route_bytes ?vs @ post) (of_nat (length (route_bytes ?vs))) src M = Some M'" "routes M' = routes M @ [map sint ?vs]"
    by (rule route_arrives [OF M k l])
  with t C'(2) p k show ?thesis
    by (intro exI [of _ C'] exI [of _ ?b] exI [of _ "\<lparr>nf_data = route_bytes [c_node_id C], nf_receiver = bestLink C, nf_sender = c_address C\<rparr>"]
        exI [of _ "route_bytes ?vs"] exI [of _ M']) (simp add: comp_def)
qed

theorem route_collected_witness:
  "\<exists>C' bs M'. collector_timer ((collector_initial 4 [4, 0, 0, 0, 0, 0, 0, 0])\<lparr>c_counter := 4, best_node := 3, bestLink := [3, 0, 0, 0, 0, 0, 0, 0]\<rparr>) = Some C'
    \<and> nf_receiver (last (outbox C')) = [3, 0, 0, 0, 0, 0, 0, 0]
    \<and> pass_on [\<lparr>hop_node = collector_initial 3 [3, 0, 0, 0, 0, 0, 0, 0], hop_post = [], hop_src = [4, 0, 0, 0, 0, 0, 0, 0]\<rparr>,
        \<lparr>hop_node = collector_initial 2 [2, 0, 0, 0, 0, 0, 0, 0], hop_post = [9], hop_src = [3, 0, 0, 0, 0, 0, 0, 0]\<rparr>] (nf_data (last (outbox C'))) = Some bs
    \<and> collector_input bs (of_nat (length bs)) [2, 0, 0, 0, 0, 0, 0, 0] (collector_initial 1 [1, 0, 0, 0, 0, 0, 0, 0]) = Some M'
    \<and> routes M' = [[4, 3, 2]]"
proof -
  let ?C = "(collector_initial 4 [4, 0, 0, 0, 0, 0, 0, 0])\<lparr>c_counter := 4, best_node := 3, bestLink := [3, 0, 0, 0, 0, 0, 0, 0]\<rparr>"
  let ?hs = "[\<lparr>hop_node = collector_initial 3 [3, 0, 0, 0, 0, 0, 0, 0], hop_post = [], hop_src = [4, 0, 0, 0, 0, 0, 0, 0]\<rparr>,
        \<lparr>hop_node = collector_initial 2 [2, 0, 0, 0, 0, 0, 0, 0], hop_post = [9], hop_src = [3, 0, 0, 0, 0, 0, 0, 0]\<rparr>]"
  have h: "\<forall>h \<in> set ?hs. forwarder (hop_node h)"
    by (simp add: forwarder_def collector_initial_def)
  have C: "c_node_id ?C \<noteq> 1" "best_node ?C \<noteq> -1" "length (actualData ?C) = 50" "-32768 \<le> beacons_sent ?C" "beacons_sent ?C < 32767"
      "0 \<le> c_counter ?C" "c_counter ?C < 32767" "(c_counter ?C + 1) mod 5 = 0"
    by (simp_all add: collector_initial_def)
  have M: "c_node_id (collector_initial 1 a) = 1" "length (actualData (collector_initial 1 a)) = 50" "routes (collector_initial 1 a) = []" for a
    by (simp_all add: collector_initial_def)
  have hs: "length ?hs \<le> 22"
    by simp
  obtain C' b f bs M' where r: "collector_timer ?C = Some C'" "outbox C' = outbox ?C @ [b, f]" "nf_receiver f = bestLink ?C" "pass_on ?hs (nf_data f) = Some bs"
    "collector_input (bs @ []) (of_nat (length bs)) [2, 0, 0, 0, 0, 0, 0, 0] (collector_initial 1 [1, 0, 0, 0, 0, 0, 0, 0]) = Some M'"
    "routes M' = routes (collector_initial 1 [1, 0, 0, 0, 0, 0, 0, 0]) @ [sint (c_node_id ?C) # map (\<lambda>h. sint (c_node_id (hop_node h))) ?hs]"
    using route_collected [OF C h hs M(1,2), of "[]" "[2, 0, 0, 0, 0, 0, 0, 0]" "[1, 0, 0, 0, 0, 0, 0, 0]"] by blast
  have "routes M' = [[4, 3, 2]]" "last (outbox C') = f" "nf_receiver f = [3, 0, 0, 0, 0, 0, 0, 0]"
    using r(2,3,6) M(3) by (simp_all add: collector_initial_def)
  with r(1,4,5) show ?thesis
    by (intro exI [of _ C'] exI [of _ bs] exI [of _ M']) (simp only: append_Nil2 simp_thms)
qed

end
