(* ===== verification/Spec2Isabelle.thy ===== *)
theory Spec2Isabelle
  imports Linked_List Memb Ring_Index Hash_Map Tsch_Slot Strength_Vector Mac_Sequence Master_Advertisement Master_Collect Master_Send
    Master_Discovery Tsch_Process Tsch_Exchange Master_App
    Neighbour_Collection
begin

text \<open>
  The collection of neighbor data over an IEEE 802.15.4 TSCH network, as a fork of Contiki-NG runs it: each node counts the
  beacons of its neighbors, the resulting link strengths find each node a way to the node that collects, and along it the strengths of
  all nodes travel to that node.  This development models the C code of this program that runs on a node, from the data structures of the kernel to the
  routing layer.  File names are relative to \<^verbatim>\<open>src/\<close>.

  \<^bold>\<open>The program.\<close>  An application calls the routing layer (\<^verbatim>\<open>os/net/master-routing\<close>).  It hands packets to the network layer
  (\<^verbatim>\<open>os/net/master-net\<close>), and that to the MAC driver (\<^verbatim>\<open>os/net/mac/tsch/tsch.c\<close>), which frames them and puts them into the queue of their
  flow.  A timer interrupt runs the slots (\<^verbatim>\<open>tsch-slot-operation.c\<close>): the schedule gives the link of the next active slot, the queues
  the packet for it, the radio sends or receives a frame, and two ring buffers carry what was sent and received
  back to a process, which calls the layers above.  A node joins a network through a beacon and keeps its time by acknowledgments and received frames.

  \<^bold>\<open>Which theory models what.\<close>  A C function has the definition of its name; a definition whose name is not in the code is a part of a function, such
  as the body of a loop, and the comment above it says which.  Global variables of a file are fields of a record, which its
  functions take and return.

  \<^item> \<open>Prelude\<close>: bounded reads and writes of arrays (\<open>rd\<close>, \<open>wr\<close>, \<open>rd_n\<close>, \<open>wr_n\<close>), checked signed arithmetic, facts on words, lists and options.
  \<^item> \<open>Linked_List\<close> (\<^verbatim>\<open>os/lib/list.c\<close>), \<open>Memb\<close> (\<^verbatim>\<open>os/lib/memb.c\<close>), \<open>Ring_Index\<close> (\<^verbatim>\<open>os/lib/ringbufindex.c\<close>), \<open>Hash_Map\<close> (\<^verbatim>\<open>os/sys/hash-map.c\<close>): the data
    structures.  Each refines an abstract one: a sequence, a set of free blocks, a bounded queue, a bounded finite map.
  \<^item> \<open>Packetbuf\<close> (\<^verbatim>\<open>os/net/packetbuf.c\<close>, \<^verbatim>\<open>os/net/linkaddr.c\<close>) and \<open>Queuebuf\<close> (\<^verbatim>\<open>os/net/queuebuf.c\<close>): the packet that is being built or read, and
    the packets that are kept.
  \<^item> \<open>Frame802154\<close> and \<open>Framer_802154\<close> (\<^verbatim>\<open>os/net/mac/framer/frame802154.c\<close>, \<^verbatim>\<open>framer-802154.c\<close>), \<open>Info_Elements\<close> (\<^verbatim>\<open>frame802154e-ie.c\<close>)
    and \<open>Tsch_Packet\<close> (\<^verbatim>\<open>tsch-packet.c\<close>): the frames; the theories \<open>Info_Elements_Spec\<close> and \<open>Tsch_Packet_Spec\<close> show that what is written is
    read back.
  \<^item> \<open>Tsch_Asn\<close> (\<^verbatim>\<open>tsch-asn.h\<close>, \<^verbatim>\<open>tsch-private.h\<close>, and the channel and deadline computations of the slot operation): the numbering of the slots.
  \<^item> \<open>Tsch_Queue\<close> (\<^verbatim>\<open>tsch-queue.c\<close>): the queues of the neighbors; \<open>Tsch_Queue_Spec\<close> has their invariant \<open>tq_inv\<close> and what each
    operation does to the queues as sequences; \<open>Tsch_Time_Source\<close> the choice of the time source.
  \<^item> \<open>Tsch_Schedule\<close> (\<^verbatim>\<open>tsch-schedule.c\<close>): slotframes and links; \<open>Tsch_Schedule_Spec\<close> has the invariant \<open>sched_inv\<close>, and the schedule as a map from slots
    to links; \<open>Tsch_Next_Link\<close> is the search for the next active link; \<open>Tsch_Slot\<close> the choice of the packet for a link.
  \<^item> \<open>Mac_Sequence\<close> (\<^verbatim>\<open>mac-sequence.c\<close>): duplicate detection, as a refinement of a bounded list of the latest senders.
  \<^item> \<open>Tsch_Timesync\<close> (\<^verbatim>\<open>tsch-adaptive-timesync.c\<close>, \<^verbatim>\<open>arch/cpu/msp430/rtimer-arch.h\<close>): the estimate of the clock drift and its compensation.
  \<^item> \<open>Tsch_Mac\<close>, \<open>Tsch_Node\<close>, \<open>Tsch_Join\<close>, \<open>Tsch_Process\<close> (\<^verbatim>\<open>tsch.c\<close>): packet input and output; keep-alive messages, received
    beacons and the two rings; starting, scanning, association, sending beacons, initialisation; the main process.
  \<^item> \<open>Tsch_Slot_Operation\<close> (\<^verbatim>\<open>tsch-slot-operation.c\<close>): transmission, reception, and one round of the loop over the active slots;
    \<open>Tsch_Exchange\<close> puts sender and receiver together: what becomes of a frame and its acknowledgment on one hop.
  \<^item> \<open>Float32\<close>: the single precision arithmetic of the code, rounding to nearest; \<open>Strength_Vector\<close>
    (\<^verbatim>\<open>strength-vector.c\<close>): the link strengths and their text form.
  \<^item> \<open>Master_Net\<close> (\<^verbatim>\<open>master-net.c\<close>), \<open>Master_Routing\<close> (\<^verbatim>\<open>master-routing.c\<close>, its data and operations): network and routing layer; its facts are in
    \<open>Master_Packets\<close> (the layout of its packets), \<open>Master_Flows\<close> (forwarding and delivery), \<open>Master_Send\<close> (sending),
    \<open>Master_Collect\<close> (the way of the strengths to the collector), \<open>Master_Advertisement\<close> (the flooding that finds the best node)
    and \<open>Master_Discovery\<close> (the schedule).
  \<^item> \<open>Master_App\<close> (\<^verbatim>\<open>examples/master/master-unicast/master-unicast.c\<close>): the process of the application, and the timetable that it keeps.
  \<^item> \<open>Neighbour_Collection\<close> (\<^verbatim>\<open>examples/neighbour-data-collection\<close>, \<^verbatim>\<open>os/net/nullnet/nullnet.c\<close>): an earlier prototype of the program, an application of its own
    over the network layer NullNet.

  \<^bold>\<open>State.\<close>  The records are nested as the layers are: \<open>tsch_node\<close> (everything of a node) has the routing layer \<open>net\<close>, that the MAC state \<open>mac\<close>, that the
  schedule \<open>sched\<close>, and that the queues, which share the memory blocks, linked lists and queue buffers below them.  A pointer is the
  index of a block, \<open>None\<close> is \<^verbatim>\<open>NULL\<close>.  Integers have the width of the code on the target, a MSP430 with an \<^verbatim>\<open>int\<close> of 16 and a \<^verbatim>\<open>long\<close> of 32
  bits: unsigned ones are words, signed ones integers with checked overflow.

  \<^bold>\<open>Errors and termination.\<close>  A function returns \<open>None\<close> exactly where the code has undefined behaviour: an access out of bounds or through
  \<^verbatim>\<open>NULL\<close>, a division by zero, the overflow of a signed number.  So each result \<open>Some\<close> in a theorem says that none of this happens.  Loops over linked structures and other loops whose end is not
  evident are partial functions, for which not to return is also \<open>None\<close>, so the theorems about them include that they end; no function has fuel.  The
  remaining loops recurse over the list of their indices.

  \<^bold>\<open>Interfaces.\<close>  Locales state what one layer relies on, and each is interpreted on the code's own definitions: \<open>sequence\<close> (linked lists),
  \<open>allocator\<close> (blocks), \<open>bounded_fifo\<close> (ring buffers), \<open>finite_map\<close> (the hash table), \<open>codec\<close> and \<open>fixed_codec\<close> (fields that are written and read back).

  \<^bold>\<open>What is shown.\<close>  The properties stand after a comment with their number.  The first are about the program as a whole: packets are
  delivered once and forwarded in time, strengths reach the collector as they were sent, the flooding ends and chooses the best
  node, sender and receiver meet in a slot.  Then the slots: the packet and the link that are chosen, the queues, association by a beacon,
  acknowledgments, synchronisation.  Then frames, schedule and queue operations, and the data structures below.  Lemmas named after a defect, such as
  \<open>flooding_never_ends\<close> or \<open>clamp_changes_sign\<close>, show what the code does on inputs for which it is not right.

  \<^bold>\<open>Configuration.\<close>  That of the application in \<^verbatim>\<open>examples/master/master-unicast\<close>, except for the prototype: central scheduling with flow-based queues and
  retransmission by time to live, addresses of 8 bytes, packets of 96 bytes, 8 queue buffers and hence 7 packets in a queue, 4 received packets,
  hopping over the channels 15, 25, 26, 20, timeslots of 25 ms.  What is switched off there is not modelled: link-layer security, 6top, the
  minimal schedule, the automatic choice of the time source, clear channel assessment.

  \<^bold>\<open>What the environment does\<close> is an argument: the bytes and times that radio and timer return (\<open>radio_env\<close>), the random numbers, the contents of
  uninitialised variables (\<open>garbage\<close>), the compiled schedule that the routing layer is given.  No law is assumed of them.

  \<^bold>\<open>Not modelled.\<close>  Printing, log messages, LEDs and link statistics, which do not influence the rest.  The busy waiting of the slot operation, which
  only passes time.  The protothread library: a protothread is a function from one wait to the next.  The effect of the callbacks of packets that are
  flushed from a queue, which are only logged.  The other parts of the repository are stock Contiki-NG and not used by this program: the MAC
  layers CSMA (which only the prototype runs on) and null MAC, link-layer security and 6top, IPv6 with RPL and 6LoWPAN, the application protocols, file systems and databases; below
  it are the kernel (event loop and timers), platforms, processors, radio drivers and vendor libraries, whose code is registers and
  interrupts; and beside it are generated schedules, which are data, and tools that run on a host.
\<close>

end
